(* ===== verification/Prelude.thy ===== *)
theory Prelude
  imports Main "HOL-Library.Word" "HOL-Library.AList" "HOL-Library.Code_Target_Nat"
begin

text \<open>
  Shared vocabulary of the development: bytes and byte strings as the Go code has them, the
  helpers of the Go standard library that the protocol readers use (\<open>bytes.IndexByte\<close>,
  \<open>bytes.Cut\<close>, \<open>binary.LittleEndian\<close>, \<open>bytes.EqualFold\<close> and \<open>strings.ToUpper\<close> against ASCII words, \<open>strings.HasPrefix\<close>),
  and generic list lemmas. A Go \<open>byte\<close> is an Isabelle \<open>char\<close> (eight bits), so a Go \<open>string\<close>
  or \<open>[]byte\<close> is a \<open>char list\<close> and its length is a number of bytes.
\<close>

named_theorems conn_simps \<open>how an operation changes the fields of a connection\<close>

type_synonym byte = char
type_synonym bytes = "char list"
type_synonym u16 = "16 word"
type_synonym u32 = "32 word"
type_synonym u64 = "64 word"

text \<open>The numeric value of a byte; always below 256.\<close>

abbreviation bval :: "byte \<Rightarrow> nat" where
  "bval b \<equiv> of_char b"

lemma bval_less [simp]: "bval b < 256"
  by (rule nat_of_char_less_256)

text \<open>\<open>binary.LittleEndian\<close> and \<open>binary.BigEndian\<close> on a slice of any length.\<close>

fun le_nat :: "bytes \<Rightarrow> nat" where
  "le_nat [] = 0"
| "le_nat (b # bs) = bval b + 256 * le_nat bs"

lemma le_nat_bound: "le_nat bs < 256 ^ length bs"
proof (induction bs)
  case (Cons b bs)
  have "bval b + 256 * le_nat bs < 256 + 256 * le_nat bs" by simp
  also have "\<dots> = 256 * Suc (le_nat bs)" by simp
  also have "\<dots> \<le> 256 * 256 ^ length bs"
    using Cons.IH by (intro mult_le_mono2) simp
  finally show ?case by simp
qed simp

lemma le_nat_bound_le: "length bs \<le> n \<Longrightarrow> le_nat bs < 256 ^ n"
  by (rule less_le_trans [OF le_nat_bound power_increasing]) simp_all

definition be_nat :: "bytes \<Rightarrow> nat" where
  "be_nat bs = le_nat (rev bs)"

text \<open>The bytes of a number, least significant first: what an encoder writes.\<close>

fun le_bytes :: "nat \<Rightarrow> nat \<Rightarrow> bytes" where
  "le_bytes 0 n = []"
| "le_bytes (Suc w) n = char_of n # le_bytes w (n div 256)"

lemma length_le_bytes [simp]: "length (le_bytes w n) = w"
  by (induction w arbitrary: n) auto

lemma le_nat_le_bytes: "le_nat (le_bytes w n) = n mod 256 ^ w"
proof (induction w arbitrary: n)
  case (Suc w)
  have "le_nat (le_bytes (Suc w) n) = n mod 256 + 256 * (n div 256 mod 256 ^ w)"
    by (simp add: Suc.IH of_char_of)
  also have "\<dots> = n mod 256 ^ Suc w"
    by (simp add: mod_mult2_eq)
  finally show ?case .
qed simp

lemma le_nat_le_bytes_id: "n < 256 ^ w \<Longrightarrow> le_nat (le_bytes w n) = n"
  by (simp add: le_nat_le_bytes)

text \<open>\<open>bytes.IndexByte\<close>: the position of the first occurrence; \<open>None\<close> stands for -1.\<close>

fun index_byte :: "bytes \<Rightarrow> byte \<Rightarrow> nat option" where
  "index_byte [] b = None"
| "index_byte (c # cs) b = (if c = b then Some 0 else map_option Suc (index_byte cs b))"

lemma index_byte_Some:
  "index_byte bs b = Some i \<Longrightarrow> i < length bs \<and> bs ! i = b \<and> b \<notin> set (take i bs)"
  by (induction bs arbitrary: i) (auto split: if_splits)

lemma index_byte_None: "index_byte bs b = None \<longleftrightarrow> b \<notin> set bs"
  by (induction bs) auto

lemma index_byte_append:
  "index_byte (xs @ ys) b =
     (case index_byte xs b of Some i \<Rightarrow> Some i | None \<Rightarrow> map_option ((+) (length xs)) (index_byte ys b))"
  by (induction xs) (auto split: option.splits simp: map_option_case)

text \<open>\<open>bytes.Cut\<close> with a separator of one byte.\<close>

definition cut_byte :: "bytes \<Rightarrow> byte \<Rightarrow> (bytes \<times> bytes) option" where
  "cut_byte bs b =
     (case index_byte bs b of None \<Rightarrow> None | Some i \<Rightarrow> Some (take i bs, drop (Suc i) bs))"

lemma cut_byte_sep: "b \<notin> set xs \<Longrightarrow> cut_byte (xs @ b # ys) b = Some (xs, ys)"
proof -
  assume "b \<notin> set xs"
  then have "index_byte xs b = None" by (simp add: index_byte_None)
  then show ?thesis by (simp add: cut_byte_def index_byte_append)
qed

text \<open>ASCII upper case, one byte.\<close>

definition ascii_upper :: "byte \<Rightarrow> byte" where
  "ascii_upper b = (if 97 \<le> bval b \<and> bval b \<le> 122 then char_of (bval b - 32) else b)"

text \<open>
  \<open>bytes.EqualFold\<close> against a word of upper case ASCII letters folds to that word every spelling
  with small letters, and two runes outside ASCII: the long s (C5 BF) and the Kelvin sign
  (E2 84 AA). \<open>strings.ToUpper\<close>, compared with such a word, maps the long s and the dotless i
  (C4 B1). Any other byte outside ASCII never yields an ASCII letter and is kept.
\<close>

fun fold_upper :: "bytes \<Rightarrow> bytes" where
  "fold_upper (a # b # c # rest) =
     (if a = CHR 0xC5 \<and> b = CHR 0xBF then CHR ''S'' # fold_upper (c # rest)
      else if a = CHR 0xE2 \<and> b = CHR 0x84 \<and> c = CHR 0xAA then CHR ''K'' # fold_upper rest
      else ascii_upper a # fold_upper (b # c # rest))"
| "fold_upper [a, b] = (if a = CHR 0xC5 \<and> b = CHR 0xBF then ''S'' else [ascii_upper a, ascii_upper b])"
| "fold_upper [a] = [ascii_upper a]"
| "fold_upper [] = []"

definition equal_fold :: "bytes \<Rightarrow> bytes \<Rightarrow> bool" where
  "equal_fold xs word \<longleftrightarrow> fold_upper xs = word"

fun to_upper :: "bytes \<Rightarrow> bytes" where
  "to_upper (a # b # rest) =
     (if a = CHR 0xC5 \<and> b = CHR 0xBF then CHR ''S'' # to_upper rest
      else if a = CHR 0xC4 \<and> b = CHR 0xB1 then CHR ''I'' # to_upper rest
      else ascii_upper a # to_upper (b # rest))"
| "to_upper [a] = [ascii_upper a]"
| "to_upper [] = []"

definition has_prefix :: "bytes \<Rightarrow> bytes \<Rightarrow> bool" where
  "has_prefix xs p \<longleftrightarrow> take (length p) xs = p"

definition has_suffix :: "bytes \<Rightarrow> bytes \<Rightarrow> bool" where
  "has_suffix xs p \<longleftrightarrow> length p \<le> length xs \<and> drop (length xs - length p) xs = p"

definition is_digit :: "byte \<Rightarrow> bool" where
  "is_digit b \<longleftrightarrow> 48 \<le> bval b \<and> bval b \<le> 57"

text \<open>List lemmas the readers share.\<close>

lemma take_append_le: "n \<le> length xs \<Longrightarrow> take n (xs @ ys) = take n xs"
  by simp

lemma drop_append_le: "n \<le> length xs \<Longrightarrow> drop n (xs @ ys) = drop n xs @ ys"
  by simp

lemma take_min_length: "take (min (length xs) k) xs = take k xs"
  by (cases "k \<le> length xs") (simp_all add: min_def)

lemma takeWhile_append_stop:
  "\<forall>x\<in>set xs. P x \<Longrightarrow> \<not> P y \<Longrightarrow> takeWhile P (xs @ y # ys) = xs"
  by (induction xs) auto

lemma list_all_take: "list_all P xs \<Longrightarrow> list_all P (take n xs)"
  by (auto simp: list_all_iff dest: in_set_takeD)

lemma list_all_drop: "list_all P xs \<Longrightarrow> list_all P (drop n xs)"
  by (auto simp: list_all_iff dest: in_set_dropD)

text \<open>\<open>strconv.Itoa\<close> for a number that is not negative, \<open>strconv.Atoi\<close> on digits, and \<open>strings.Join\<close>.\<close>

fun decimal :: "nat \<Rightarrow> bytes" where
  "decimal n = (if n < 10 then [char_of (48 + n)] else decimal (n div 10) @ [char_of (48 + n mod 10)])"

declare decimal.simps [simp del]

definition digits_value :: "bytes \<Rightarrow> nat" where
  "digits_value bs = foldl (\<lambda>n b. 10 * n + (bval b - 48)) 0 bs"

definition parse_decimal :: "bytes \<Rightarrow> nat option" where
  "parse_decimal bs = (if bs = [] \<or> \<not> list_all is_digit bs then None else Some (digits_value bs))"

lemma digit_of: "m < 10 \<Longrightarrow> is_digit (char_of (48 + m)) \<and> bval (char_of (48 + m)) - 48 = (m :: nat)"
  by (simp add: is_digit_def of_char_of)

lemma parse_decimal_decimal: "parse_decimal (decimal n) = Some n"
proof -
  have "decimal n \<noteq> [] \<and> list_all is_digit (decimal n) \<and> digits_value (decimal n) = n"
  proof (induction n rule: decimal.induct)
    case (1 n)
    show ?case
    proof (cases "n < 10")
      case True
      then have "decimal n = [char_of (48 + n)]" by (subst decimal.simps) simp
      then show ?thesis using digit_of [OF True] by (simp add: digits_value_def)
    next
      case False
      then have d: "decimal n = decimal (n div 10) @ [char_of (48 + n mod 10)]" by (subst decimal.simps) simp
      have "10 * (n div 10) + n mod 10 = n" by simp
      then show ?thesis
        unfolding d using 1 [OF False] digit_of [of "n mod 10"] by (simp add: digits_value_def)
    qed
  qed
  then show ?thesis by (simp add: parse_decimal_def)
qed

lemma decimal_digits: "list_all is_digit (decimal n) \<and> decimal n \<noteq> []"
  using parse_decimal_decimal [of n] by (auto simp: parse_decimal_def split: if_splits)

text \<open>The same with a sign, and the range of an \<open>int64\<close>.\<close>

definition itoa :: "int \<Rightarrow> bytes" where
  "itoa i = (if i < 0 then CHR ''-'' # decimal (nat (- i)) else decimal (nat i))"

definition int64_range :: "int \<Rightarrow> bool" where
  "int64_range i \<longleftrightarrow> - (2 ^ 63) \<le> i \<and> i < 2 ^ 63"

definition atoi :: "bytes \<Rightarrow> int option" where
  "atoi bs =
     (let signed = (bs \<noteq> [] \<and> (hd bs = CHR ''-'' \<or> hd bs = CHR ''+''));
          negative = (bs \<noteq> [] \<and> hd bs = CHR ''-'')
      in case parse_decimal (if signed then tl bs else bs) of
           None \<Rightarrow> None
         | Some n \<Rightarrow>
             (let i = (if negative then - int n else int n) in if int64_range i then Some i else None))"

lemma decimal_hd: "is_digit (hd (decimal n))"
  using decimal_digits [of n] by (cases "decimal n") auto

lemma atoi_itoa: "int64_range i \<Longrightarrow> atoi (itoa i) = Some i"
  using decimal_digits [of "nat i"] decimal_hd [of "nat i"]
  by (auto simp: atoi_def itoa_def parse_decimal_decimal is_digit_def)

fun join_with :: "bytes \<Rightarrow> bytes list \<Rightarrow> bytes" where
  "join_with sep [] = []"
| "join_with sep [x] = x"
| "join_with sep (x # y # rest) = x @ sep @ join_with sep (y # rest)"

text \<open>The run of a list of operations and the replies in order, over any step function.\<close>

fun op_run :: "('s \<Rightarrow> 'o \<Rightarrow> 's \<times> 'r) \<Rightarrow> 's \<Rightarrow> 'o list \<Rightarrow> 's \<times> 'r list" where
  "op_run step s [] = (s, [])"
| "op_run step s (x # xs) = (let (t, r) = step s x; (u, rs) = op_run step t xs in (u, r # rs))"

lemma op_run_append:
  "op_run step s (xs @ ys) =
     (let (t, rs) = op_run step s xs; (u, ss) = op_run step t ys in (u, rs @ ss))"
  by (induction xs arbitrary: s) (auto simp: Let_def split: prod.splits)

end
