(* ===== verification/TraceText.thy ===== *)
theory TraceText
  imports Prelude
begin

text \<open>
  Text that goes to the terminal: \<open>traceEscapeText\<close>, \<open>traceTextByteKept\<close> and
  \<open>traceTrimText\<close> of internal/edc/trace_http.go, \<open>traceMySQLLine\<close> of trace_mysql.go and
  \<open>emptyAs\<close> of capture.go. Every value a protocol reader shows passes through
  \<open>traceEscapeText\<close>, so the theorems here say what may reach a terminal: no control byte
  but tab and line ends, no C1 control character, no byte that is not UTF-8. The code takes two
  fast paths (an untouched prefix, a text that needs no change); they are modelled as written
  and proved equal to the plain loop \<open>escape_loop\<close>.
\<close>

subsection \<open>Decoding one rune: \<open>utf8.DecodeRune\<close>\<close>

definition rune_error :: nat where
  "rune_error = 65533"

definition continuation :: "byte \<Rightarrow> bool" where
  "continuation b \<longleftrightarrow> 128 \<le> bval b \<and> bval b < 192"

definition rune_start :: "byte \<Rightarrow> bool" where
  "rune_start b \<longleftrightarrow> \<not> continuation b"

definition second_ok :: "nat \<Rightarrow> nat \<Rightarrow> bool" where
  "second_ok a b \<longleftrightarrow>
     (if a = 224 then 160 \<le> b \<and> b < 192
      else if a = 237 then 128 \<le> b \<and> b < 160
      else if a = 240 then 144 \<le> b \<and> b < 192
      else if a = 244 then 128 \<le> b \<and> b < 144
      else 128 \<le> b \<and> b < 192)"

text \<open>The rune and the number of bytes it takes; \<open>(rune_error, 1)\<close> for a wrong byte.\<close>

fun decode_rune :: "bytes \<Rightarrow> nat \<times> nat" where
  "decode_rune [] = (rune_error, 0)"
| "decode_rune (a # bs) =
     (let n = bval a; wrong = (rune_error, 1) in
      if n < 128 then (n, 1)
      else if n < 194 \<or> 244 < n then wrong
      else case bs of
        [] \<Rightarrow> wrong
      | b # cs \<Rightarrow>
          if \<not> second_ok n (bval b) then wrong
          else if n < 224 then ((n - 192) * 64 + (bval b - 128), 2)
          else case cs of
            [] \<Rightarrow> wrong
          | c # ds \<Rightarrow>
              if \<not> continuation c then wrong
              else if n < 240 then ((n - 224) * 4096 + (bval b - 128) * 64 + (bval c - 128), 3)
              else case ds of
                [] \<Rightarrow> wrong
              | d # _ \<Rightarrow>
                  if \<not> continuation d then wrong
                  else ((n - 240) * 262144 + (bval b - 128) * 4096 + (bval c - 128) * 64 + (bval d - 128), 4))"

lemma decode_rune_size:
  assumes "xs \<noteq> []"
  shows "0 < snd (decode_rune xs)" and "snd (decode_rune xs) \<le> length xs"
  using assms by (cases xs; auto simp: Let_def split: list.splits)+

text \<open>A rune of two bytes or more depends on its own bytes only.\<close>

lemma decode_rune_local:
  assumes "decode_rune xs = (r, n)" and "1 < n"
  shows "decode_rune (take n xs @ ys) = (r, n)"
  using assms
  by (cases xs; auto simp: Let_def split: list.splits if_splits)

declare decode_rune.simps(2) [simp del]

subsection \<open>Escaping\<close>

definition traceTextByteKept :: "byte \<Rightarrow> bool" where
  "traceTextByteKept value \<longleftrightarrow>
     (32 \<le> bval value \<and> bval value < 127) \<or> value = CHR 0x0D \<or> value = CHR 0x0A \<or> value = CHR 0x09"

definition hex_digit :: "nat \<Rightarrow> byte" where
  "hex_digit n = ''0123456789abcdef'' ! n"

definition escape_byte :: "byte \<Rightarrow> bytes" where
  "escape_byte value = [CHR 0x5C, CHR ''x'', hex_digit (bval value div 16), hex_digit (bval value mod 16)]"

definition rune_escaped :: "nat \<Rightarrow> nat \<Rightarrow> bool" where
  "rune_escaped r n \<longleftrightarrow> (r = rune_error \<and> n = 1) \<or> (128 \<le> r \<and> r < 160)"

text \<open>The two loops of \<open>traceEscapeText\<close>: the length of the result, then the result.\<close>

function escaped_size :: "bytes \<Rightarrow> nat \<Rightarrow> nat" where
  "escaped_size [] acc = acc"
| "escaped_size (value # tail) acc =
     (if bval value < 128 then escaped_size tail (if traceTextByteKept value then acc else acc + 3)
      else
        (case decode_rune (value # tail) of (r, n) \<Rightarrow>
           escaped_size (drop n (value # tail)) (if rune_escaped r n then acc + 3 * n else acc)))"
  by pat_completeness auto

lemma drop_rune_shorter:
  "(r, n) = decode_rune (x # xs) \<Longrightarrow> Suc (length xs) - n < Suc (length xs)"
  using decode_rune_size(1) [of "x # xs"] by (simp add: prod_eq_iff)

termination escaped_size
  by (relation "measure (\<lambda>(rest, _). length rest)")
    (auto dest: drop_rune_shorter)

function escape_loop :: "bytes \<Rightarrow> bytes" where
  "escape_loop [] = []"
| "escape_loop (value # tail) =
     (if bval value < 128 then
        (if traceTextByteKept value then [value] else escape_byte value) @ escape_loop tail
      else
        (case decode_rune (value # tail) of (r, n) \<Rightarrow>
           (if rune_escaped r n then concat (map escape_byte (take n (value # tail)))
            else take n (value # tail)) @ escape_loop (drop n (value # tail))))"
  by pat_completeness auto
termination
  by (relation "measure length")
    (auto dest: drop_rune_shorter)

declare escaped_size.simps(2) [simp del] escape_loop.simps(2) [simp del]

definition traceEscapeText :: "bytes \<Rightarrow> bytes" where
  "traceEscapeText raw =
     (let clean = length (takeWhile traceTextByteKept raw) in
      if clean = length raw then raw
      else if escaped_size (drop clean raw) (length raw) = length raw then raw
      else take clean raw @ escape_loop (drop clean raw))"

subsection \<open>The fast paths change nothing\<close>

lemma kept_ascii: "traceTextByteKept b \<Longrightarrow> bval b < 128"
  by (auto simp: traceTextByteKept_def)

lemma escape_loop_kept: "traceTextByteKept b \<Longrightarrow> escape_loop (b # bs) = b # escape_loop bs"
  by (simp add: escape_loop.simps kept_ascii)

lemma escape_loop_prefix: "list_all traceTextByteKept xs \<Longrightarrow> escape_loop (xs @ ys) = xs @ escape_loop ys"
  by (induction xs) (simp_all add: escape_loop_kept)

lemma length_escape_byte [simp]: "length (escape_byte b) = 4"
  by (simp add: escape_byte_def)

lemma length_concat_escape [simp]: "length (concat (map escape_byte xs)) = 4 * length xs"
  by (induction xs) simp_all

lemma escape_loop_longer: "length raw \<le> length (escape_loop raw)"
proof (induction raw rule: escape_loop.induct)
  case (2 v tl)
  show ?case
  proof (cases "bval v < 128")
    case True
    with "2.IH"(1) show ?thesis by (simp add: escape_loop.simps)
  next
    case False
    obtain r n where rn: "decode_rune (v # tl) = (r, n)" by fastforce
    with "2.IH"(2) [OF False rn [symmetric]] decode_rune_size(2) [of "v # tl"] False
    show ?thesis by (auto simp: escape_loop.simps)
  qed
qed simp

lemma escaped_size_eq: "escaped_size raw acc + length raw = acc + length (escape_loop raw)"
proof (induction raw acc rule: escaped_size.induct)
  case (2 v tl acc)
  show ?case
  proof (cases "bval v < 128")
    case True
    with "2.IH"(1) show ?thesis by (auto simp: escape_loop.simps escaped_size.simps)
  next
    case False
    obtain r n where rn: "decode_rune (v # tl) = (r, n)" by fastforce
    with "2.IH"(2) [OF False rn [symmetric]] decode_rune_size(2) [of "v # tl"] False
    show ?thesis by (auto simp: escape_loop.simps escaped_size.simps)
  qed
qed simp

lemma escape_loop_same_length: "length (escape_loop raw) = length raw \<Longrightarrow> escape_loop raw = raw"
proof (induction raw rule: escape_loop.induct)
  case (2 v tl)
  show ?case
  proof (cases "bval v < 128")
    case True
    with "2.IH"(1) "2.prems" escape_loop_longer [of tl] show ?thesis
      by (auto simp: escape_loop.simps split: if_splits)
  next
    case False
    obtain r n where rn: "decode_rune (v # tl) = (r, n)" by fastforce
    have n: "0 < n" "n \<le> length (v # tl)" using rn decode_rune_size [of "v # tl"] by simp_all
    have longer: "length (drop n (v # tl)) \<le> length (escape_loop (drop n (v # tl)))"
      by (rule escape_loop_longer)
    have eq: "escape_loop (v # tl) = (if rune_escaped r n then concat (map escape_byte (take n (v # tl)))
        else take n (v # tl)) @ escape_loop (drop n (v # tl))"
      using False rn by (simp add: escape_loop.simps)
    have "\<not> rune_escaped r n"
      using "2.prems" longer n unfolding eq by (auto simp del: take_Cons' drop_Cons' split: if_splits)
    moreover from this have "length (escape_loop (drop n (v # tl))) = length (drop n (v # tl))"
      using "2.prems" n unfolding eq by simp
    ultimately show ?thesis
      using "2.IH"(2) [OF False rn [symmetric]] unfolding eq by simp
  qed
qed simp

lemma traceEscapeText_loop: "traceEscapeText raw = escape_loop raw"
proof -
  define clean where "clean = length (takeWhile traceTextByteKept raw)"
  have pre: "take clean raw = takeWhile traceTextByteKept raw"
    by (simp add: clean_def takeWhile_eq_take [symmetric])
  then have all: "list_all traceTextByteKept (take clean raw)"
    by (auto simp: list_all_iff dest: set_takeWhileD)
  have split: "escape_loop raw = take clean raw @ escape_loop (drop clean raw)"
    using escape_loop_prefix [OF all, of "drop clean raw"] by simp
  have le: "clean \<le> length raw" by (simp add: clean_def length_takeWhile_le)
  have whole: "escape_loop raw = raw" if "clean = length raw"
    using split that by simp
  have same: "escape_loop raw = raw" if "escaped_size (drop clean raw) (length raw) = length raw"
  proof -
    have "length (escape_loop (drop clean raw)) = length (drop clean raw)"
      using escaped_size_eq [of "drop clean raw" "length raw"] that by simp
    then have "escape_loop (drop clean raw) = drop clean raw" by (rule escape_loop_same_length)
    with split show ?thesis by simp
  qed
  show ?thesis
    unfolding traceEscapeText_def clean_def [symmetric] Let_def
    using split whole same by simp
qed

subsection \<open>What the result may contain\<close>

text \<open>
  Text that is safe to print: read as UTF-8 it is a sequence of kept ASCII bytes and of
  well-formed runes outside the C1 control range.
\<close>

function safe_text :: "bytes \<Rightarrow> bool" where
  "safe_text [] = True"
| "safe_text (value # tail) =
     (if bval value < 128 then traceTextByteKept value \<and> safe_text tail
      else
        (case decode_rune (value # tail) of (r, n) \<Rightarrow>
           \<not> rune_escaped r n \<and> safe_text (drop n (value # tail))))"
  by pat_completeness auto
termination
  by (relation "measure length") (auto dest: drop_rune_shorter)

declare safe_text.simps(2) [simp del]

lemma safe_text_kept: "list_all traceTextByteKept xs \<Longrightarrow> safe_text (xs @ ys) = safe_text ys"
  by (induction xs) (simp_all add: safe_text.simps kept_ascii)

lemma decode_rune_high:
  assumes "\<not> bval v < 128" and "decode_rune (v # vs) = (r, n)" and "\<not> rune_escaped r n"
  shows "1 < n"
  using assms by (auto simp: decode_rune.simps Let_def rune_escaped_def split: list.splits if_splits)

lemma safe_text_rune:
  assumes "\<not> bval v < 128" and "decode_rune (v # vs) = (r, n)" and "\<not> rune_escaped r n"
  shows "safe_text (take n (v # vs) @ ys) = safe_text ys"
proof -
  have n: "1 < n" by (rule decode_rune_high [OF assms])
  have d: "decode_rune (take n (v # vs) @ ys) = (r, n)"
    by (rule decode_rune_local [OF assms(2) n])
  obtain m where m: "n = Suc m" using n by (cases n) auto
  have len: "length (take n (v # vs)) = n"
    using assms(2) decode_rune_size(2) [of "v # vs"] by simp
  have "take n (v # vs) @ ys = v # (take m vs @ ys)" by (simp add: m)
  moreover have "drop n (take n (v # vs) @ ys) = ys" using len by simp
  ultimately show ?thesis
    using assms d by (simp only: safe_text.simps if_False prod.case simp_thms)
qed

lemma hex_digit_kept: "n < 16 \<Longrightarrow> traceTextByteKept (hex_digit n)"
proof -
  assume "n < 16"
  then have "n \<in> {0, 1, 2, 3, 4, 5, 6, 7, 8, 9, 10, 11, 12, 13, 14, 15}" by (simp only: insert_iff empty_iff simp_thms) arith
  then show ?thesis by (auto simp: hex_digit_def traceTextByteKept_def)
qed

lemma escape_byte_kept: "list_all traceTextByteKept (escape_byte b)"
proof -
  have "bval b div 16 < 16" "bval b mod 16 < 16"
    using bval_less [of b] by (simp_all add: div_less_iff_less_mult del: bval_less)
  then show ?thesis
    by (simp add: escape_byte_def hex_digit_kept) (simp add: traceTextByteKept_def)
qed

lemma escape_bytes_kept: "list_all traceTextByteKept (concat (map escape_byte bs))"
  using escape_byte_kept by (auto simp: list_all_iff)

lemma escape_loop_safe: "safe_text (escape_loop raw)"
proof (induction raw rule: escape_loop.induct)
  case (2 v tl)
  show ?case
  proof (cases "bval v < 128")
    case True
    then show ?thesis
      using "2.IH"(1) safe_text_kept [OF escape_byte_kept] safe_text_kept [of "[v]"]
      by (auto simp: escape_loop.simps)
  next
    case False
    obtain r n where rn: "decode_rune (v # tl) = (r, n)" by fastforce
    have IH: "safe_text (escape_loop (drop n (v # tl)))"
      by (rule "2.IH"(2) [OF False rn [symmetric]])
    have eq: "escape_loop (v # tl) = (if rune_escaped r n then concat (map escape_byte (take n (v # tl)))
        else take n (v # tl)) @ escape_loop (drop n (v # tl))"
      using False rn by (simp add: escape_loop.simps)
    show ?thesis
      using IH safe_text_rune [OF False rn] safe_text_kept [OF escape_bytes_kept]
      unfolding eq by (simp del: take_Cons' drop_Cons')
  qed
qed simp

lemma safe_text_unchanged: "safe_text raw \<Longrightarrow> escape_loop raw = raw"
proof (induction raw rule: safe_text.induct)
  case (2 v tl)
  show ?case
  proof (cases "bval v < 128")
    case True
    with "2.IH"(1) "2.prems" show ?thesis by (simp add: escape_loop.simps safe_text.simps)
  next
    case False
    obtain r n where rn: "decode_rune (v # tl) = (r, n)" by fastforce
    with "2.prems" False have safe: "\<not> rune_escaped r n" "safe_text (drop n (v # tl))"
      by (simp_all add: safe_text.simps)
    have "escape_loop (drop n (v # tl)) = drop n (v # tl)"
      by (rule "2.IH"(2) [OF False rn [symmetric] safe(2)])
    then show ?thesis using False rn safe(1) by (simp add: escape_loop.simps del: drop_Cons')
  qed
qed simp

lemma second_ok_high: "second_ok a b \<Longrightarrow> 128 \<le> b"
  by (auto simp: second_ok_def split: if_splits)

lemma decode_rune_bytes_high:
  assumes "\<not> bval v < 128" and "decode_rune (v # vs) = (r, n)" and "\<not> rune_escaped r n"
  shows "\<forall>b \<in> set (take n (v # vs)). 128 \<le> bval b"
  using assms
  by (auto simp: decode_rune.simps Let_def rune_escaped_def continuation_def
      dest: second_ok_high split: list.splits if_splits)

lemma safe_text_ascii: "safe_text raw \<Longrightarrow> b \<in> set raw \<Longrightarrow> bval b < 128 \<Longrightarrow> traceTextByteKept b"
proof (induction raw rule: safe_text.induct)
  case (2 v tl)
  show ?case
  proof (cases "bval v < 128")
    case True
    with 2 show ?thesis by (auto simp: safe_text.simps)
  next
    case False
    obtain r n where rn: "decode_rune (v # tl) = (r, n)" by fastforce
    with "2.prems" False have safe: "\<not> rune_escaped r n" "safe_text (drop n (v # tl))"
      by (simp_all add: safe_text.simps)
    have "b \<notin> set (take n (v # tl))"
      using decode_rune_bytes_high [OF False rn safe(1)] "2.prems"(3) by fastforce
    moreover have "set (v # tl) = set (take n (v # tl)) \<union> set (drop n (v # tl))"
      by (metis append_take_drop_id set_append)
    ultimately have "b \<in> set (drop n (v # tl))" using "2.prems"(2) by auto
    then show ?thesis by (rule "2.IH"(2) [OF False rn [symmetric] safe(2)]) (rule "2.prems"(3))
  qed
qed simp

subsection \<open>Trimming, joining lines, default text\<close>

text \<open>The loop of \<open>traceTrimText\<close> that moves the cut left to the start of a rune.\<close>

fun trim_cut :: "bytes \<Rightarrow> nat \<Rightarrow> nat" where
  "trim_cut raw 0 = 0"
| "trim_cut raw (Suc c) = (if rune_start (raw ! Suc c) then Suc c else trim_cut raw c)"

definition traceTrimText :: "bytes \<Rightarrow> nat \<Rightarrow> bytes" where
  "traceTrimText raw limit = (if length raw \<le> limit then raw else take (trim_cut raw limit) raw)"

lemma trim_cut_le: "trim_cut raw c \<le> c"
  by (induction raw c rule: trim_cut.induct) auto

lemma trim_cut_start: "trim_cut raw c = 0 \<or> rune_start (raw ! trim_cut raw c)"
  by (induction raw c rule: trim_cut.induct) auto

lemma second_ok_continuation: "second_ok a (bval b) \<Longrightarrow> continuation b"
  by (auto simp: second_ok_def continuation_def split: if_splits)

lemma decode_rune_tail:
  assumes "\<not> bval v < 128" and "decode_rune (v # vs) = (r, n)" and "\<not> rune_escaped r n"
    and "0 < i" and "i < n"
  shows "continuation ((v # vs) ! i)"
proof -
  have "n \<le> 4" using assms(2) by (auto simp: decode_rune.simps Let_def split: list.splits if_splits)
  then have "i = 1 \<or> i = 2 \<or> i = 3" using assms(4,5) by arith
  then show ?thesis using assms
    by (auto simp: decode_rune.simps Let_def dest: second_ok_continuation split: list.splits if_splits)
qed

lemma safe_text_take:
  "safe_text raw \<Longrightarrow> c < length raw \<Longrightarrow> c = 0 \<or> rune_start (raw ! c) \<Longrightarrow> safe_text (take c raw)"
proof (induction raw arbitrary: c rule: safe_text.induct)
  case (2 v tl)
  show ?case
  proof (cases c)
    case (Suc d)
    show ?thesis
    proof (cases "bval v < 128")
      case True
      with 2 Suc show ?thesis
        by (cases "d < length tl") (auto simp: safe_text.simps)
    next
      case False
      obtain r n where rn: "decode_rune (v # tl) = (r, n)" by fastforce
      with "2.prems" False have safe: "\<not> rune_escaped r n" "safe_text (drop n (v # tl))"
        by (simp_all add: safe_text.simps)
      have "n \<le> c"
        using decode_rune_tail [OF False rn safe(1), of c] "2.prems"(3) Suc
        by (cases "c < n") (auto simp: rune_start_def)
      then have c: "c = n + (c - n)" by simp
      have len: "c - n < length (drop n (v # tl))" using "2.prems"(2) \<open>n \<le> c\<close> by simp
      have "drop n (v # tl) ! (c - n) = (v # tl) ! c"
        using \<open>n \<le> c\<close> "2.prems"(2) by (simp add: nth_drop del: drop_Cons')
      then have "safe_text (take (c - n) (drop n (v # tl)))"
        using "2.IH"(2) [OF False rn [symmetric] safe(2) len] "2.prems"(3) Suc by simp
      moreover have "take c (v # tl) = take n (v # tl) @ take (c - n) (drop n (v # tl))"
        by (subst c) (rule take_add)
      ultimately show ?thesis using safe_text_rune [OF False rn safe(1)] by simp
    qed
  qed simp
qed simp

lemma traceTrimText_length: "length (traceTrimText raw limit) \<le> limit"
  using trim_cut_le [of raw limit] by (auto simp: traceTrimText_def)

lemma traceTrimText_safe: "safe_text raw \<Longrightarrow> safe_text (traceTrimText raw limit)"
  using safe_text_take [of raw "trim_cut raw limit"] trim_cut_start [of raw limit] trim_cut_le [of raw limit]
  by (auto simp: traceTrimText_def)

text \<open>\<open>strings.NewReplacer\<close> of \<open>traceMySQLLine\<close>: line ends and tabs become one space each.\<close>

fun traceMySQLLine :: "bytes \<Rightarrow> bytes" where
  "traceMySQLLine [] = []"
| "traceMySQLLine (a # rest) =
     (if a = CHR 0x0D \<and> rest \<noteq> [] \<and> hd rest = CHR 0x0A then CHR '' '' # traceMySQLLine (tl rest)
      else if a = CHR 0x0A \<or> a = CHR 0x0D \<or> a = CHR 0x09 then CHR '' '' # traceMySQLLine rest
      else a # traceMySQLLine rest)"

definition emptyAs :: "bytes \<Rightarrow> bytes \<Rightarrow> bytes" where
  "emptyAs value fallback = (if value = [] then fallback else value)"

lemma traceMySQLLine_one_line:
  "b \<in> set (traceMySQLLine raw) \<Longrightarrow> b \<noteq> CHR 0x0A \<and> b \<noteq> CHR 0x0D \<and> b \<noteq> CHR 0x09"
  by (induction raw rule: traceMySQLLine.induct) (auto split: if_splits)

subsection \<open>What may reach a terminal\<close>

text \<open>
  The specification, independent of the decoder above: a text for the terminal is the UTF-8 encoding
  of Unicode scalar values, none of which is a control character but tab, line feed and carriage return.
\<close>

definition terminal_rune :: "nat \<Rightarrow> bool" where
  "terminal_rune c \<longleftrightarrow>
     c = 9 \<or> c = 10 \<or> c = 13 \<or> (32 \<le> c \<and> c \<le> 126) \<or> (160 \<le> c \<and> c \<le> 55295) \<or> (57344 \<le> c \<and> c \<le> 1114111)"

definition utf8_encode :: "nat \<Rightarrow> bytes" where
  "utf8_encode c =
     (if c < 128 then [char_of c]
      else if c < 2048 then [char_of (192 + c div 64), char_of (128 + c mod 64)]
      else if c < 65536 then [char_of (224 + c div 4096), char_of (128 + c div 64 mod 64), char_of (128 + c mod 64)]
      else [char_of (240 + c div 262144), char_of (128 + c div 4096 mod 64), char_of (128 + c div 64 mod 64),
        char_of (128 + c mod 64)])"

definition terminal_text :: "bytes \<Rightarrow> bool" where
  "terminal_text raw \<longleftrightarrow> (\<exists>runes. list_all terminal_rune runes \<and> raw = concat (map utf8_encode runes))"

lemma terminal_text_Nil [simp]: "terminal_text []"
  unfolding terminal_text_def by (rule exI [of _ "[]"]) simp

lemma terminal_text_append: "terminal_rune c \<Longrightarrow> terminal_text raw \<Longrightarrow> terminal_text (utf8_encode c @ raw)"
  unfolding terminal_text_def by (erule exE) (rule_tac x = "c # runes" in exI, simp)

lemma bval_char_of [simp]: "bval (char_of n) = n mod 256" for n :: nat
  by simp

lemma terminal_rune_less: "terminal_rune c \<Longrightarrow> c < 1114112"
  by (auto simp: terminal_rune_def)

lemma utf8_encode_ascii [simp]: "c < 128 \<Longrightarrow> utf8_encode c = [char_of c]"
  by (simp add: utf8_encode_def)

lemma kept_terminal: "traceTextByteKept v \<longleftrightarrow> bval v < 128 \<and> terminal_rune (bval v)"
proof -
  have "v = CHR 0x0D \<longleftrightarrow> bval v = 13" "v = CHR 0x0A \<longleftrightarrow> bval v = 10" "v = CHR 0x09 \<longleftrightarrow> bval v = 9"
    unfolding of_char_eq_iff [symmetric, where 'a = nat] by simp_all
  then show ?thesis by (auto simp: traceTextByteKept_def terminal_rune_def)
qed

text \<open>Numbers written with digits of six bits.\<close>

lemma div_sextet: "n div 4096 = n div 64 div 64" "n div 262144 = n div 64 div 64 div 64" for n :: nat
  by (simp_all add: div_mult2_eq [symmetric])

lemma sextet: "y < 64 \<Longrightarrow> (x * 64 + y) div 64 = x" "y < 64 \<Longrightarrow> (x * 64 + y) mod 64 = y" for x y :: nat
  by simp_all

lemma sextets:
  fixes y z w :: nat
  assumes "y < 64" and "z < 64"
  shows "(x * 4096 + y * 64 + z) div 4096 = x" "(x * 4096 + y * 64 + z) div 64 mod 64 = y"
    "(x * 4096 + y * 64 + z) mod 64 = z"
    "w < 64 \<Longrightarrow> (x * 262144 + w * 4096 + y * 64 + z) div 262144 = x"
    "w < 64 \<Longrightarrow> (x * 262144 + w * 4096 + y * 64 + z) div 4096 mod 64 = w"
    "w < 64 \<Longrightarrow> (x * 262144 + w * 4096 + y * 64 + z) div 64 mod 64 = y"
    "w < 64 \<Longrightarrow> (x * 262144 + w * 4096 + y * 64 + z) mod 64 = z"
proof -
  have "x * 4096 + y * 64 + z = (x * 64 + y) * 64 + z"
    and "x * 262144 + w * 4096 + y * 64 + z = ((x * 64 + w) * 64 + y) * 64 + z" for w
    by simp_all
  note three = this(1) and four = this(2)
  show "(x * 4096 + y * 64 + z) div 4096 = x" "(x * 4096 + y * 64 + z) div 64 mod 64 = y"
    "(x * 4096 + y * 64 + z) mod 64 = z"
    unfolding three div_sextet by (simp_all only: sextet assms)
  show "w < 64 \<Longrightarrow> (x * 262144 + w * 4096 + y * 64 + z) div 262144 = x"
    "w < 64 \<Longrightarrow> (x * 262144 + w * 4096 + y * 64 + z) div 4096 mod 64 = w"
    "w < 64 \<Longrightarrow> (x * 262144 + w * 4096 + y * 64 + z) div 64 mod 64 = y"
    "w < 64 \<Longrightarrow> (x * 262144 + w * 4096 + y * 64 + z) mod 64 = z"
    unfolding four div_sextet by (simp_all only: sextet assms)
qed

lemma sextets_of:
  fixes c :: nat
  shows "c div 64 div 64 * 4096 + c div 64 mod 64 * 64 + c mod 64 = c"
    "c div 64 div 64 div 64 * 262144 + c div 64 div 64 mod 64 * 4096 + c div 64 mod 64 * 64 + c mod 64 = c"
  using div_mult_mod_eq [of c 64] div_mult_mod_eq [of "c div 64" 64] div_mult_mod_eq [of "c div 64 div 64" 64]
  by linarith+

lemma decode_rune_encode:
  assumes high: "\<not> bval v < 128" and rn: "decode_rune (v # vs) = (r, n)" and ok: "\<not> rune_escaped r n"
  shows "take n (v # vs) = utf8_encode r \<and> terminal_rune r"
proof -
  let ?v = "bval v"
  have v: "194 \<le> ?v" "?v \<le> 244"
    using assms by (simp_all add: decode_rune.simps Let_def rune_escaped_def split: if_splits)
  obtain b cs where vs: "vs = b # cs"
    using assms v by (cases vs) (simp_all add: decode_rune.simps Let_def rune_escaped_def)
  have b: "second_ok ?v (bval b)"
    using assms v vs by (cases "second_ok ?v (bval b)") (simp_all add: decode_rune.simps Let_def rune_escaped_def)
  then have b: "second_ok ?v (bval b)" "128 \<le> bval b" "bval b < 192"
    by (auto simp: second_ok_def split: if_splits)
  show ?thesis
  proof (cases "?v < 224")
    case True
    define x y where "x = ?v - 192" and "y = bval b - 128"
    have xy: "?v = 192 + x" "bval b = 128 + y" "y < 64" "2 \<le> x" "x < 32"
      using v b True by (simp_all add: x_def y_def)
    have bytes: "char_of (192 + x) = v" "char_of (128 + y) = b" using xy(1,2) by (metis char_of_char)+
    have r: "r = x * 64 + y" "n = 2"
      using rn v vs b True by (simp_all add: decode_rune.simps Let_def x_def y_def)
    have "128 \<le> r" "r < 2048" using r(1) xy by arith+
    moreover from this have "terminal_rune r" using ok by (simp add: terminal_rune_def rune_escaped_def)
    moreover have "r div 64 = x" "r mod 64 = y" unfolding r(1) by (simp_all only: sextet xy(3))
    ultimately show ?thesis using vs r(2) bytes by (simp add: utf8_encode_def numeral_2_eq_2)
  next
    case wide: False
    obtain c ds where cs: "cs = c # ds"
      using assms v b(1) vs wide by (cases cs) (simp_all add: decode_rune.simps Let_def rune_escaped_def)
    have "continuation c"
      using assms v b(1) vs wide cs by (cases "continuation c") (simp_all add: decode_rune.simps Let_def rune_escaped_def)
    then have c: "128 \<le> bval c" "bval c < 192" by (simp_all add: continuation_def)
    define y z where "y = bval b - 128" and "z = bval c - 128"
    have yz: "bval b = 128 + y" "bval c = 128 + z" "y < 64" "z < 64"
      using b c by (simp_all add: y_def z_def)
    show ?thesis
    proof (cases "?v < 240")
      case True
      define x where "x = ?v - 224"
      have x: "?v = 224 + x" "x < 16" using wide True by (simp_all add: x_def)
      have bytes: "char_of (224 + x) = v" "char_of (128 + y) = b" "char_of (128 + z) = c"
        using x yz by (metis char_of_char)+
      have r: "r = x * 4096 + y * 64 + z" "n = 3"
        using rn v vs b(1) cs \<open>continuation c\<close> wide True by (simp_all add: decode_rune.simps Let_def x_def y_def z_def)
      have "x = 0 \<Longrightarrow> 32 \<le> y" "x = 13 \<Longrightarrow> y < 32" using b(1) x yz by (auto simp: second_ok_def split: if_splits)
      then have "2048 \<le> y * 64 \<or> 1 \<le> x" "x \<le> 12 \<or> (x = 13 \<and> y \<le> 31) \<or> 14 \<le> x" by linarith+
      then have "2048 \<le> r" "r \<le> 55295 \<or> 57344 \<le> r" using r(1) yz(3,4) by (elim disjE; linarith)+
      moreover have "r < 65536" using r(1) x yz by linarith
      ultimately have "2048 \<le> r" "r < 65536" "terminal_rune r" by (auto simp: terminal_rune_def)
      moreover have "r div 4096 = x" "r div 64 mod 64 = y" "r mod 64 = z"
        unfolding r(1) by (simp_all only: sextets [OF yz(3,4)])
      ultimately show ?thesis using vs cs r(2) bytes by (simp add: utf8_encode_def numeral_3_eq_3)
    next
      case False
      obtain d es where ds: "ds = d # es"
        using assms v b(1) vs cs \<open>continuation c\<close> False
        by (cases ds) (simp_all add: decode_rune.simps Let_def rune_escaped_def)
      have "continuation d"
        using assms v b(1) vs cs ds \<open>continuation c\<close> False
        by (cases "continuation d") (simp_all add: decode_rune.simps Let_def rune_escaped_def)
      then have d: "128 \<le> bval d" "bval d < 192" by (simp_all add: continuation_def)
      define x w where "x = ?v - 240" and "w = bval d - 128"
      have xw: "?v = 240 + x" "x < 5" "bval d = 128 + w" "w < 64" using False v d by (simp_all add: x_def w_def)
      have bytes: "char_of (240 + x) = v" "char_of (128 + y) = b" "char_of (128 + z) = c" "char_of (128 + w) = d"
        using xw yz by (metis char_of_char)+
      have r: "r = x * 262144 + y * 4096 + z * 64 + w" "n = 4"
        using rn v vs b(1) cs \<open>continuation c\<close> ds \<open>continuation d\<close> False
        by (simp_all add: decode_rune.simps Let_def x_def y_def z_def w_def)
      have "x = 0 \<Longrightarrow> 16 \<le> y" "x = 4 \<Longrightarrow> y < 16" using b(1) xw yz by (auto simp: second_ok_def split: if_splits)
      then have "65536 \<le> r" "r \<le> 1114111"
        using r(1) xw(2,4) yz(3,4) by (cases "x = 0"; cases "x = 4"; linarith)+
      then have "65536 \<le> r" "terminal_rune r" by (simp_all add: terminal_rune_def)
      moreover have "r div 262144 = x" "r div 4096 mod 64 = y" "r div 64 mod 64 = z" "r mod 64 = w"
        unfolding r(1) by (simp_all only: sextets [OF yz(4) xw(4)] yz(3))
      ultimately show ?thesis using vs cs ds r(2) bytes by (simp add: utf8_encode_def)
    qed
  qed
qed

lemma decode_encoded:
  assumes "terminal_rune c" and "128 \<le> c"
  shows "\<exists>v vs n. utf8_encode c = v # vs \<and> 128 \<le> bval v \<and> n = length (utf8_encode c) \<and>
    decode_rune (utf8_encode c @ ys) = (c, n) \<and> \<not> rune_escaped c n"
proof -
  have range: "c < 1114112" and ok: "\<not> (128 \<le> c \<and> c < 160)" "\<not> (55296 \<le> c \<and> c < 57344)"
    using assms by (auto simp: terminal_rune_def)
  show ?thesis
  proof (cases "c < 2048")
    case True
    define x y where "x = c div 64" and "y = c mod 64"
    have "y < 64" and c: "x * 64 + y = c" unfolding x_def y_def by simp_all
    then have "2 \<le> x" "x < 32" "y < 64" using True assms(2) by linarith+
    then show ?thesis
      using True assms(2) ok c
      by (simp add: utf8_encode_def decode_rune.simps Let_def second_ok_def rune_escaped_def
          x_def [symmetric] y_def [symmetric])
  next
    case big: False
    show ?thesis
    proof (cases "c < 65536")
      case True
      define x y z where "x = c div 4096" and "y = c div 64 mod 64" and "z = c mod 64"
      have xyz: "x < 16" "y < 64" "z < 64" "x * 4096 + y * 64 + z = c"
        using True sextets_of [of c] unfolding x_def y_def z_def div_sextet by simp_all
      then have "x = 0 \<Longrightarrow> 32 \<le> y" "x = 13 \<Longrightarrow> y < 32" using ok big by linarith+
      then show ?thesis
        using True big xyz
        by (simp add: utf8_encode_def decode_rune.simps Let_def second_ok_def continuation_def rune_escaped_def
            x_def [symmetric] y_def [symmetric] z_def [symmetric])
    next
      case False
      define x y z w where "x = c div 262144" and "y = c div 4096 mod 64" and "z = c div 64 mod 64" and "w = c mod 64"
      have xyz: "x < 5" "y < 64" "z < 64" "w < 64" "x * 262144 + y * 4096 + z * 64 + w = c"
        using range sextets_of [of c] unfolding x_def y_def z_def w_def div_sextet by simp_all
      then have "x = 0 \<Longrightarrow> 16 \<le> y" "x = 4 \<Longrightarrow> y < 16" using range False by linarith+
      then show ?thesis
        using False big xyz
        by (simp add: utf8_encode_def decode_rune.simps Let_def second_ok_def continuation_def rune_escaped_def
            x_def [symmetric] y_def [symmetric] z_def [symmetric] w_def [symmetric])
    qed
  qed
qed

lemma safe_text_terminal: "safe_text raw = terminal_text raw"
proof
  show "safe_text raw \<Longrightarrow> terminal_text raw"
  proof (induction raw rule: safe_text.induct)
    case (2 v tl)
    show ?case
    proof (cases "bval v < 128")
      case True
      then have "terminal_rune (bval v)" "terminal_text tl"
        using 2 by (auto simp: safe_text.simps kept_terminal)
      then show ?thesis
        using terminal_text_append [of "bval v" tl] True by simp
    next
      case False
      obtain r n where rn: "decode_rune (v # tl) = (r, n)" by fastforce
      with "2.prems" False have safe: "\<not> rune_escaped r n" "safe_text (drop n (v # tl))"
        by (simp_all add: safe_text.simps)
      have "terminal_text (utf8_encode r @ drop n (v # tl))"
        using decode_rune_encode [OF False rn safe(1)] "2.IH"(2) [OF False rn [symmetric] safe(2)]
        by (intro terminal_text_append) simp_all
      then show ?thesis
        using decode_rune_encode [OF False rn safe(1)] by (metis append_take_drop_id)
    qed
  qed simp
next
  assume "terminal_text raw"
  then obtain runes where "list_all terminal_rune runes" "raw = concat (map utf8_encode runes)"
    by (auto simp: terminal_text_def)
  then show "safe_text raw"
  proof (induction runes arbitrary: raw)
    case (Cons c runes)
    let ?tail = "concat (map utf8_encode runes)"
    have tail: "safe_text ?tail" and c: "terminal_rune c" using Cons by simp_all
    show ?case
    proof (cases "c < 128")
      case True
      then show ?thesis
        using Cons.prems c tail by (simp add: safe_text.simps kept_terminal)
    next
      case False
      then obtain v vs n where enc: "utf8_encode c = v # vs" "128 \<le> bval v" "n = length (utf8_encode c)"
        "decode_rune (utf8_encode c @ ?tail) = (c, n)" "\<not> rune_escaped c n"
        using decode_encoded [OF c, of ?tail] by auto
      then show ?thesis
        using Cons.prems(2) tail by (simp add: safe_text.simps)
    qed
  qed simp
qed

subsection \<open>Properties\<close>

text \<open>
  C14. Escaped text is safe to print. Whatever bytes come from the wire, the result of
  \<open>traceEscapeText\<close> is the UTF-8 encoding of Unicode scalar values without any control
  character (C0, DEL and C1) but tab, CR and LF, so no terminal escape sequence survives; read as
  bytes, no byte is below 32 but these three, and none is DEL. A text that already is of this kind, and only such a
  text, passes unchanged.
\<close>
theorem traceEscapeText_terminal_safe:
  "terminal_text (traceEscapeText raw) \<and>
   list_all (\<lambda>b. bval b \<in> {9, 10, 13} \<or> (32 \<le> bval b \<and> bval b \<noteq> 127)) (traceEscapeText raw) \<and>
   (traceEscapeText raw = raw) = terminal_text raw"
proof -
  have safe: "safe_text (traceEscapeText raw)"
    by (simp add: traceEscapeText_loop escape_loop_safe)
  have "bval b \<in> {9, 10, 13} \<or> (32 \<le> bval b \<and> bval b \<noteq> 127)" if b: "b \<in> set (traceEscapeText raw)" for b
    using safe_text_ascii [OF safe b] by (cases "bval b < 128") (auto simp: kept_terminal terminal_rune_def)
  moreover have "(traceEscapeText raw = raw) = safe_text raw"
    using safe safe_text_unchanged [of raw] by (metis traceEscapeText_loop)
  ultimately show ?thesis using safe unfolding safe_text_terminal list_all_iff by blast
qed

text \<open>The two fast paths of the escaping never change the result: \<open>traceEscapeText\<close> is the
  plain rune by rune loop, it leaves safe text alone, and escaping twice is escaping once.\<close>

theorem traceEscapeText_fast_paths:
  "traceEscapeText raw = escape_loop raw \<and>
   (traceEscapeText raw = raw \<longleftrightarrow> safe_text raw) \<and>
   traceEscapeText (traceEscapeText raw) = traceEscapeText raw"
  using escape_loop_safe [of raw] safe_text_unchanged [of raw] safe_text_unchanged [of "escape_loop raw"]
  by (auto simp: traceEscapeText_loop)

lemma safe_text_escape [simp]: "safe_text (traceEscapeText raw)"
  by (simp add: traceEscapeText_loop escape_loop_safe)

lemma safe_text_all_kept: "list_all traceTextByteKept xs \<Longrightarrow> safe_text xs"
  using safe_text_kept [of xs "[]"] by simp

end
