(* ===== verification/Capture.thy ===== *)
theory Capture
  imports Complex_Main TraceText
begin

text \<open>
  What the protocol readers take and give: \<open>mysqlRecord\<close> of trace_mysql.go (one TCP read or
  write, with its first captured bytes), the payloads \<open>traceMySQLEvent\<close>, \<open>traceRedisEvent\<close> and
  \<open>tracePostgresEvent\<close>, the fields of \<open>captureEvent\<close> (capture_events.go) that these readers
  set, and the time spans of trace.go. Times, socket numbers and identifiers are words of
  their Go width; \<open>float64\<close> milliseconds are exact rationals, so rounding is not modelled.
  A Go pointer that may be nil is an \<open>option\<close>. Counters of type \<open>uint64\<close> that only count
  events are natural numbers.
\<close>

definition traceClientSide :: bytes where
  "traceClientSide = ''client''"

definition traceServerSide :: bytes where
  "traceServerSide = ''server''"

record mysqlRecord =
  rec_bootTimeNS :: u64
  rec_pid :: u32
  rec_cgroupID :: u64
  rec_process :: bytes
  rec_socket :: u64
  rec_source :: bytes
  rec_destination :: bytes
  rec_localPort :: u16
  rec_peerPort :: u16
  rec_sent :: bool
  rec_server :: bool
  rec_size :: nat
  rec_payload :: bytes

definition onPort :: "mysqlRecord \<Rightarrow> u16 \<Rightarrow> bool" where
  "onPort record port \<longleftrightarrow> port \<noteq> 0 \<and> (rec_localPort record = port \<or> rec_peerPort record = port)"

record traceMySQLEvent =
  my_command :: bytes
  my_sql :: bytes
  my_sqlTruncated :: bool
  my_statementID :: u32
  my_affectedRows :: "nat option"
  my_columns :: nat
  my_errorCode :: nat
  my_sqlState :: bytes
  my_message :: bytes
  my_serverVersion :: bytes
  my_user :: bytes
  my_database :: bytes
  my_tls :: bool
  my_compressed :: bool

definition mysql_event0 :: traceMySQLEvent where
  "mysql_event0 = \<lparr>my_command = [], my_sql = [], my_sqlTruncated = False, my_statementID = 0,
     my_affectedRows = None, my_columns = 0, my_errorCode = 0, my_sqlState = [], my_message = [],
     my_serverVersion = [], my_user = [], my_database = [], my_tls = False, my_compressed = False\<rparr>"

record traceRedisEvent =
  rd_command :: bytes
  rd_key :: bytes
  rd_args :: int
  rd_argPreview :: "bytes list"
  rd_inline :: bool
  rd_truncated :: bool
  rd_noReply :: bool
  rd_reply :: bytes
  rd_elements :: "int option"
  rd_bulkLength :: "int option"
  rd_value :: bytes
  rd_errorClass :: bytes
  rd_message :: bytes
  rd_resp :: int
  rd_pushKind :: bytes
  rd_channel :: bytes

definition redis_event0 :: traceRedisEvent where
  "redis_event0 = \<lparr>rd_command = [], rd_key = [], rd_args = 0, rd_argPreview = [], rd_inline = False,
     rd_truncated = False, rd_noReply = False, rd_reply = [], rd_elements = None, rd_bulkLength = None,
     rd_value = [], rd_errorClass = [], rd_message = [], rd_resp = 0, rd_pushKind = [], rd_channel = []\<rparr>"

record tracePostgresEvent =
  pg_command :: bytes
  pg_sql :: bytes
  pg_sqlTruncated :: bool
  pg_statement :: bytes
  pg_executes :: nat
  pg_user :: bytes
  pg_database :: bytes
  pg_serverVersion :: bytes
  pg_encryption :: bytes
  pg_tag :: bytes
  pg_rows :: "u64 option"
  pg_severity :: bytes
  pg_sqlState :: bytes
  pg_message :: bytes
  pg_detail :: bytes

definition postgres_event0 :: tracePostgresEvent where
  "postgres_event0 = \<lparr>pg_command = [], pg_sql = [], pg_sqlTruncated = False, pg_statement = [],
     pg_executes = 0, pg_user = [], pg_database = [], pg_serverVersion = [], pg_encryption = [],
     pg_tag = [], pg_rows = None, pg_severity = [], pg_sqlState = [], pg_message = [], pg_detail = []\<rparr>"

record captureEvent =
  ev_socketID :: u64
  ev_timestampNS :: u64
  ev_bootTimeNS :: u64
  ev_event :: bytes
  ev_protocol :: bytes
  ev_pid :: u32
  ev_process :: bytes
  ev_target :: bytes
  ev_targetSource :: bytes
  ev_cgroupID :: u64
  ev_source :: bytes
  ev_destination :: bytes
  ev_oldState :: bytes
  ev_newState :: bytes
  ev_bytes :: nat
  ev_latencyMS :: "rat option"
  ev_mysql :: "traceMySQLEvent option"
  ev_redis :: "traceRedisEvent option"
  ev_postgres :: "tracePostgresEvent option"
  ev_side :: bytes
  ev_answered :: nat

text \<open>
  The common part of the three \<open>event\<close> methods: what a record and the side of the trace give.
  \<open>uint64(int64(at) + offset)\<close> is addition modulo 2 to the 64.
\<close>

definition base_event :: "mysqlRecord \<Rightarrow> bytes \<Rightarrow> u64 \<Rightarrow> bytes \<Rightarrow> bytes \<Rightarrow> u64 \<Rightarrow> nat \<Rightarrow> captureEvent" where
  "base_event r side offset protocol name tm n =
     \<lparr>ev_socketID = rec_socket r, ev_timestampNS = tm + offset, ev_bootTimeNS = tm, ev_event = name,
      ev_protocol = protocol, ev_pid = rec_pid r, ev_process = rec_process r,
      ev_target = [], ev_targetSource = [],
      ev_cgroupID = rec_cgroupID r, ev_source = rec_source r, ev_destination = rec_destination r,
      ev_oldState = [], ev_newState = [],
      ev_bytes = n, ev_latencyMS = None, ev_mysql = None, ev_redis = None, ev_postgres = None, ev_side = side,
      ev_answered = 0\<rparr>"

text \<open>The events of one connection; a sum over all events is the sum over the connections.\<close>

definition on_socket :: "u64 \<Rightarrow> captureEvent list \<Rightarrow> captureEvent list" where
  "on_socket k es = filter (\<lambda>e. ev_socketID e = k) es"

lemma on_socket_append [simp]: "on_socket k (xs @ ys) = on_socket k xs @ on_socket k ys"
  by (simp add: on_socket_def)

lemma sum_by_socket:
  fixes f :: "captureEvent \<Rightarrow> nat"
  assumes "finite S" and "ev_socketID ` set es \<subseteq> S"
  shows "(\<Sum>e\<leftarrow>es. f e) = (\<Sum>k\<in>S. \<Sum>e\<leftarrow>on_socket k es. f e)"
  using assms(2)
proof (induction es)
  case Nil
  show ?case by (simp add: on_socket_def)
next
  case (Cons e es)
  have "(\<Sum>k\<in>S. \<Sum>x\<leftarrow>on_socket k (e # es). f x) =
      (\<Sum>k\<in>S. (if k = ev_socketID e then f e else 0) + (\<Sum>x\<leftarrow>on_socket k es. f x))"
    by (rule sum.cong) (auto simp: on_socket_def)
  also have "\<dots> = f e + (\<Sum>k\<in>S. \<Sum>x\<leftarrow>on_socket k es. f x)"
    using Cons.prems assms(1) by (simp add: sum.distrib sum.delta)
  finally show ?case using Cons by simp
qed

lemma length_filter_sum: "length (filter P es) = (\<Sum>e \<leftarrow> es. if P e then 1 else 0)"
  by (induction es) simp_all

lemma length_filter_mono: "(\<And>e. P e \<Longrightarrow> Q e) \<Longrightarrow> length (filter P es) \<le> length (filter Q es)"
  by (induction es) (auto simp: le_Suc_eq)

text \<open>What holds of the number of events on every connection holds over all connections.\<close>

lemma filter_by_socket:
  assumes "\<And>k. length (filter P (on_socket k es)) \<le> length (filter Q (on_socket k es))"
  shows "length (filter P es) \<le> length (filter Q es)"
proof -
  let ?S = "ev_socketID ` set es"
  have "(\<Sum>k\<in>?S. length (filter P (on_socket k es))) \<le> (\<Sum>k\<in>?S. length (filter Q (on_socket k es)))"
    by (rule sum_mono) (rule assms)
  then show ?thesis
    using sum_by_socket [of ?S es "\<lambda>e. if P e then 1 else 0"] sum_by_socket [of ?S es "\<lambda>e. if Q e then 1 else 0"]
    by (simp add: length_filter_sum)
qed

subsection \<open>Time spans\<close>

definition traceSpan :: "u64 \<Rightarrow> u64 \<Rightarrow> rat" where
  "traceSpan start stop = of_nat (unat (stop - min stop start)) / 1000000"

record traceSpans =
  sp_total :: rat
  sp_count :: nat
  sp_maximum :: rat

definition spans0 :: traceSpans where
  "spans0 = \<lparr>sp_total = 0, sp_count = 0, sp_maximum = 0\<rparr>"

definition spans_observe :: "traceSpans \<Rightarrow> rat option \<Rightarrow> traceSpans" where
  "spans_observe spans value =
     (case value of
        None \<Rightarrow> spans
      | Some v \<Rightarrow>
          spans\<lparr>sp_total := sp_total spans + v, sp_count := sp_count spans + 1,
            sp_maximum := (if sp_maximum spans < v then v else sp_maximum spans)\<rparr>)"

definition spans_summary :: "traceSpans \<Rightarrow> rat option \<times> rat option" where
  "spans_summary spans =
     (if sp_count spans = 0 then (None, None)
      else (Some (sp_total spans / of_nat (sp_count spans)), Some (sp_maximum spans)))"

lemma traceSpan_nonneg: "0 \<le> traceSpan start stop"
  unfolding traceSpan_def by (intro divide_nonneg_nonneg of_nat_0_le_iff) simp

lemma traceSpan_exact:
  "start \<le> stop \<Longrightarrow> traceSpan start stop = of_nat (unat stop - unat start) / 1000000"
  by (simp add: traceSpan_def min_def unat_sub)

lemma traceSpan_backwards: "stop \<le> start \<Longrightarrow> traceSpan start stop = 0"
  by (simp add: traceSpan_def min_def)

text \<open>The spans keep the sum, the number and the largest of the values they have seen.\<close>

definition spans_of :: "rat option list \<Rightarrow> traceSpans" where
  "spans_of vs = fold (\<lambda>v s. spans_observe s v) vs spans0"

definition seen_values :: "rat option list \<Rightarrow> rat list" where
  "seen_values vs = List.map_filter (\<lambda>v. v) vs"

lemma seen_values_simps [simp]:
  "seen_values [] = []"
  "seen_values (vs @ [None]) = seen_values vs"
  "seen_values (vs @ [Some x]) = seen_values vs @ [x]"
  by (simp_all add: seen_values_def List.map_filter_def)

lemma spans_of_snoc: "spans_of (vs @ [v]) = spans_observe (spans_of vs) v"
  by (simp add: spans_of_def)

lemma spans_of_values:
  "sp_total (spans_of vs) = sum_list (seen_values vs) \<and>
   sp_count (spans_of vs) = length (seen_values vs) \<and>
   sp_maximum (spans_of vs) = Max (set (0 # seen_values vs))"
proof (induction vs rule: rev_induct)
  case Nil
  show ?case by (simp add: spans_of_def spans0_def)
next
  case (snoc v vs)
  show ?case
  proof (cases v)
    case None
    with snoc show ?thesis by (simp add: spans_of_snoc spans_observe_def)
  next
    case (Some x)
    define m where "m = Max (set (0 # seen_values vs))"
    have m: "sp_maximum (spans_of vs) = m" using snoc by (simp only: m_def)
    have "set (0 # seen_values (vs @ [v])) = insert x (set (0 # seen_values vs))"
      using Some by auto
    then have "Max (set (0 # seen_values (vs @ [v]))) = max x m"
      by (simp only: Max_insert [OF finite_set] set_empty m_def) simp
    then have "sp_maximum (spans_of (vs @ [v])) = Max (set (0 # seen_values (vs @ [v])))"
      using Some m by (simp only: spans_of_snoc) (simp add: spans_observe_def max_def)
    then show ?thesis
      using snoc Some by (simp add: spans_of_snoc spans_observe_def del: set_simps)
  qed
qed

end
