(* ===== verification/Incremental.thy ===== *)
theory Incremental
  imports Prelude
begin

text \<open>
  The contract of an incremental reader. The kernel cuts a byte stream into reads at places
  that mean nothing to the protocol, so a reader keeps its state between them. The contract:
  reading two pieces one after the other is reading their concatenation. \<open>eqv\<close> is equality
  up to state that is no longer looked at (a buffer kept for reuse), \<open>good\<close> the invariant of the
  reader. The consequence, for every reader: how a stream is cut does not matter.
\<close>

locale incremental =
  fixes feed :: "bytes \<Rightarrow> 'st \<Rightarrow> 'st"
    and eqv :: "'st \<Rightarrow> 'st \<Rightarrow> bool"
    and good :: "'st \<Rightarrow> bool"
  assumes eqv_refl: "eqv s s"
    and eqv_sym: "eqv s t \<Longrightarrow> eqv t s"
    and eqv_trans: "eqv s t \<Longrightarrow> eqv t u \<Longrightarrow> eqv s u"
    and feed_good: "good s \<Longrightarrow> good (feed xs s)"
    and feed_nil: "good s \<Longrightarrow> eqv (feed [] s) s"
    and feed_cong: "good s \<Longrightarrow> good t \<Longrightarrow> eqv s t \<Longrightarrow> eqv (feed xs s) (feed xs t)"
    and feed_append: "good s \<Longrightarrow> eqv (feed (xs @ ys) s) (feed ys (feed xs s))"
begin

lemma fold_feed_good: "good s \<Longrightarrow> good (fold feed cs s)"
  by (induction cs arbitrary: s) (simp_all add: feed_good)

lemma fold_feed_concat: "good s \<Longrightarrow> eqv (fold feed cs s) (feed (concat cs) s)"
proof (induction cs arbitrary: s)
  case Nil
  then show ?case by (simp add: feed_nil eqv_sym)
next
  case (Cons c cs)
  have "eqv (fold feed cs (feed c s)) (feed (concat cs) (feed c s))"
    by (rule Cons.IH) (rule feed_good [OF Cons.prems])
  moreover have "eqv (feed (concat cs) (feed c s)) (feed (c @ concat cs) s)"
    by (rule eqv_sym, rule feed_append [OF Cons.prems])
  ultimately show ?case by (simp add: eqv_trans)
qed

text \<open>Two ways to cut the same bytes lead to the same state.\<close>

lemma segmentation:
  assumes "good s" and "concat cs = concat ds"
  shows "eqv (fold feed cs s) (fold feed ds s)"
proof -
  have "eqv (fold feed cs s) (feed (concat ds) s)"
    using fold_feed_concat [OF assms(1), of cs] assms(2) by simp
  moreover have "eqv (feed (concat ds) s) (fold feed ds s)"
    by (rule eqv_sym) (rule fold_feed_concat [OF assms(1)])
  ultimately show ?thesis by (rule eqv_trans)
qed

end

end
