(* ===== verification/MySQLStream.thy ===== *)
theory MySQLStream
  imports Capture Incremental
begin

text \<open>
  \<open>mysqlStream\<close> of internal/edc/trace_mysql.go: one direction of a MySQL connection, cut into
  packets of a 3-byte length, a sequence byte and a payload. A record shows only the first bytes
  of a read or write (\<open>data\<close>) and its whole length (\<open>size\<close>), so the stream counts the bytes
  it cannot see. \<open>pos\<close> and \<open>used\<close> of the code are the prefixes already dropped from the
  arguments: \<open>data\<close> stands for \<open>data[pos:]\<close> and \<open>sz\<close> for \<open>size - used\<close>. The callback
  \<open>deliver\<close> gets the flag \<open>full\<close> of the stream (the only part of it a callback reads), the packet
  and the caller's state.
\<close>

definition mysqlPacketKeep :: nat where
  "mysqlPacketKeep = 4096"

definition mysqlMaxPacket :: nat where
  "mysqlMaxPacket = 16777215"

record mysqlPacket =
  pk_seq :: "8 word"
  pk_length :: nat
  pk_payload :: bytes
  pk_truncated :: bool
  pk_at :: u64

record mysqlStream =
  st_header :: bytes
  st_headerLen :: nat
  st_seq :: "8 word"
  st_length :: nat
  st_left :: nat
  st_held :: bytes
  st_delivered :: bool
  st_at :: u64
  st_full :: bool

text \<open>\<open>reset\<close>: the zero value of the struct.\<close>

definition stream0 :: mysqlStream where
  "stream0 = \<lparr>st_header = replicate 4 (CHR 0x00), st_headerLen = 0, st_seq = 0, st_length = 0,
     st_left = 0, st_held = [], st_delivered = False, st_at = 0, st_full = False\<rparr>"

definition stream_seed :: "nat \<Rightarrow> u64 \<Rightarrow> mysqlStream" where
  "stream_seed n tm = stream0\<lparr>st_headerLen := 4, st_length := n, st_left := n, st_at := tm\<rparr>"

definition stream_waiting :: "mysqlStream \<Rightarrow> bool" where
  "stream_waiting st \<longleftrightarrow>
     (0 < st_headerLen st \<and> st_headerLen st < 4) \<or> (st_headerLen st = 4 \<and> \<not> st_delivered st)"

definition mysqlLength :: "bytes \<Rightarrow> nat" where
  "mysqlLength header = le_nat (take 3 header)"

text \<open>\<open>copy(dst[i:], src)\<close>, for \<open>i\<close> at most the length of \<open>dst\<close>.\<close>

definition copy_at :: "bytes \<Rightarrow> nat \<Rightarrow> bytes \<Rightarrow> bytes" where
  "copy_at dst i src =
     (let n = min (length dst - i) (length src) in take i dst @ take n src @ drop (i + n) dst)"

text \<open>
  One turn of the loop of \<open>feed\<close>: \<open>Inl\<close> is a return with its result, \<open>Inr\<close> the arguments of
  the next turn. The turn has two branches, one inside a header and one inside a payload.
\<close>

definition header_absorb :: "u64 \<Rightarrow> bytes \<Rightarrow> mysqlStream \<Rightarrow> mysqlStream" where
  "header_absorb tm data st =
     st\<lparr>st_at := (if st_headerLen st = 0 then tm else st_at st),
        st_header := copy_at (st_header st) (st_headerLen st) data,
        st_headerLen := st_headerLen st + min (4 - st_headerLen st) (length data)\<rparr>"

definition header_done :: "mysqlStream \<Rightarrow> mysqlStream" where
  "header_done st =
     st\<lparr>st_full := (st_length st = mysqlMaxPacket),
        st_length := mysqlLength (st_header st), st_seq := of_char (st_header st ! 3),
        st_left := mysqlLength (st_header st), st_held := [], st_delivered := False\<rparr>"

definition feed_header ::
  "(bool \<Rightarrow> mysqlPacket \<Rightarrow> 's \<Rightarrow> bool \<times> 's) \<Rightarrow> u64 \<Rightarrow> bytes \<Rightarrow> nat \<Rightarrow> mysqlStream \<Rightarrow> 's \<Rightarrow>
   (bool \<times> mysqlStream \<times> 's) + (bytes \<times> nat \<times> mysqlStream \<times> 's)" where
  "feed_header deliver tm data sz st s =
     (if data = [] then Inl (False, stream0, s)
      else
        (let n = min (4 - st_headerLen st) (length data); st1 = header_absorb tm data st in
         if st_headerLen st1 < 4 then Inr (drop n data, sz - n, st1, s)
         else
           (let st2 = header_done st1 in
            if st_length st2 = 0 then
              (case deliver (st_full st2)
                     \<lparr>pk_seq = st_seq st2, pk_length = 0, pk_payload = [], pk_truncated = False,
                      pk_at = st_at st2\<rparr> s of (go_on, s1) \<Rightarrow>
                 if go_on then Inr (drop n data, sz - n, st2\<lparr>st_headerLen := 0\<rparr>, s1)
                 else Inl (True, stream0, s1))
            else Inr (drop n data, sz - n, st2, s))))"

text \<open>The payload seen so far, and the bytes the stream holds after this turn.\<close>

definition body_payload :: "nat \<Rightarrow> bytes \<Rightarrow> mysqlStream \<Rightarrow> bytes \<times> bytes" where
  "body_payload seen data st =
     (let want = min (st_length st) mysqlPacketKeep;
          piece = take (min seen (want - length (st_held st))) data
      in if st_held st = [] \<and> length piece = want then (piece, st_held st)
         else (st_held st @ piece, st_held st @ piece))"

text \<open>The end of a turn inside a payload: \<open>n\<close> bytes of the packet have passed.\<close>

definition body_advance :: "nat \<Rightarrow> mysqlStream \<Rightarrow> mysqlStream" where
  "body_advance n st =
     (if st_left st - n = 0 then st\<lparr>st_left := 0, st_headerLen := 0, st_delivered := False\<rparr>
      else st\<lparr>st_left := st_left st - n\<rparr>)"

definition feed_body ::
  "(bool \<Rightarrow> mysqlPacket \<Rightarrow> 's \<Rightarrow> bool \<times> 's) \<Rightarrow> bytes \<Rightarrow> nat \<Rightarrow> mysqlStream \<Rightarrow> 's \<Rightarrow>
   (bool \<times> mysqlStream \<times> 's) + (bytes \<times> nat \<times> mysqlStream \<times> 's)" where
  "feed_body deliver data sz st s =
     (let n = min (st_left st) sz; seen = min n (length data) in
      if st_delivered st then Inr (drop seen data, sz - n, body_advance n st, s)
      else
        (case body_payload seen data st of (payload, held) \<Rightarrow>
           if length payload = min (st_length st) mysqlPacketKeep \<or> seen < n then
             (case deliver (st_full st)
                    \<lparr>pk_seq = st_seq st, pk_length = st_length st, pk_payload = payload,
                     pk_truncated = (length payload < st_length st), pk_at = st_at st\<rparr> s of (go_on, s1) \<Rightarrow>
                if go_on then
                  Inr (drop seen data, sz - n, body_advance n (st\<lparr>st_held := held, st_delivered := True\<rparr>), s1)
                else Inl (True, stream0, s1))
           else Inr (drop seen data, sz - n, body_advance n (st\<lparr>st_held := held\<rparr>), s)))"

definition feed_step ::
  "(bool \<Rightarrow> mysqlPacket \<Rightarrow> 's \<Rightarrow> bool \<times> 's) \<Rightarrow> u64 \<Rightarrow> bytes \<Rightarrow> nat \<Rightarrow> mysqlStream \<Rightarrow> 's \<Rightarrow>
   (bool \<times> mysqlStream \<times> 's) + (bytes \<times> nat \<times> mysqlStream \<times> 's)" where
  "feed_step deliver tm data sz st s =
     (if st_headerLen st < 4 then feed_header deliver tm data sz st s
      else feed_body deliver data sz st s)"

lemmas feed_defs = feed_step_def feed_header_def feed_body_def body_advance_def header_absorb_def
  header_done_def Let_def

definition feed_measure :: "nat \<Rightarrow> mysqlStream \<Rightarrow> nat" where
  "feed_measure sz st = 2 * sz + (if st_headerLen st < 4 then 0 else 1)"

lemma feed_step_decreases:
  assumes "feed_step deliver tm data sz st s = Inr (data', sz', st', s')" and "0 < sz"
  shows "feed_measure sz' st' < feed_measure sz st"
proof (cases "st_headerLen st < 4")
  case True
  with assms have "sz' < sz"
    by (auto simp: feed_defs split: if_splits prod.splits)
  with True show ?thesis by (simp add: feed_measure_def)
next
  case False
  then show ?thesis
  proof (cases "st_left st")
    case 0
    with False assms have "sz' = sz \<and> st_headerLen st' = 0"
      by (auto simp: feed_defs split: if_splits prod.splits)
    with False show ?thesis by (simp add: feed_measure_def)
  next
    case (Suc k)
    with False assms have "sz' < sz"
      by (auto simp: feed_defs split: if_splits prod.splits)
    with False show ?thesis by (simp add: feed_measure_def)
  qed
qed

function feed_loop ::
  "(bool \<Rightarrow> mysqlPacket \<Rightarrow> 's \<Rightarrow> bool \<times> 's) \<Rightarrow> u64 \<Rightarrow> bytes \<Rightarrow> nat \<Rightarrow> mysqlStream \<Rightarrow> 's \<Rightarrow>
   bool \<times> mysqlStream \<times> 's" where
  "feed_loop deliver tm data sz st s =
     (if sz = 0 then (True, st, s)
      else
        (case feed_step deliver tm data sz st s of
           Inl result \<Rightarrow> result
         | Inr (data', sz', st', s') \<Rightarrow> feed_loop deliver tm data' sz' st' s'))"
  by pat_completeness auto
termination
  by (relation "measure (\<lambda>(deliver, tm, data, sz, st, s). feed_measure sz st)")
    (auto dest: feed_step_decreases)

declare feed_loop.simps [simp del]

text \<open>\<open>feed\<close>: false means that a header was outside the captured bytes and the boundary is lost.\<close>

definition mysql_feed ::
  "(bool \<Rightarrow> mysqlPacket \<Rightarrow> 's \<Rightarrow> bool \<times> 's) \<Rightarrow> bytes \<Rightarrow> nat \<Rightarrow> u64 \<Rightarrow> mysqlStream \<Rightarrow> 's \<Rightarrow>
   bool \<times> mysqlStream \<times> 's" where
  "mysql_feed deliver data size' tm st s = feed_loop deliver tm data (max size' (length data)) st s"

subsection \<open>Invariant\<close>

text \<open>
  Between two calls of \<open>feed\<close>: the header buffer has its four bytes; inside a packet some bytes
  are left, and while the packet is not delivered every byte of it so far is held, fewer
  than the packet will be delivered with.
\<close>

definition stream_ok :: "mysqlStream \<Rightarrow> bool" where
  "stream_ok st \<longleftrightarrow>
     length (st_header st) = 4 \<and> st_headerLen st \<le> 4 \<and>
     (st_headerLen st < 4 \<longrightarrow> \<not> st_delivered st) \<and>
     (st_headerLen st = 4 \<longrightarrow>
        0 < st_left st \<and> st_left st \<le> st_length st \<and> st_length st \<le> mysqlMaxPacket) \<and>
     (st_headerLen st = 4 \<and> \<not> st_delivered st \<longrightarrow>
        length (st_held st) + st_left st = st_length st \<and>
        length (st_held st) < min (st_length st) mysqlPacketKeep)"

lemma stream_ok_reset [simp]: "stream_ok stream0"
  by (simp add: stream_ok_def stream0_def)

lemma stream_ok_seed: "0 < n \<Longrightarrow> n \<le> mysqlMaxPacket \<Longrightarrow> stream_ok (stream_seed n tm)"
  by (simp add: stream_ok_def stream_seed_def stream0_def mysqlPacketKeep_def)

lemma length_copy_at [simp]: "i \<le> length dst \<Longrightarrow> length (copy_at dst i src) = length dst"
  by (simp add: copy_at_def Let_def)

lemma mysqlLength_bound: "mysqlLength header \<le> mysqlMaxPacket"
  using le_nat_bound_le [of "take 3 header" 3] by (simp add: mysqlLength_def mysqlMaxPacket_def)

lemma stream_ok_absorb:
  "stream_ok st \<Longrightarrow> st_headerLen (header_absorb tm data st) < 4 \<Longrightarrow> stream_ok (header_absorb tm data st)"
  by (auto simp: stream_ok_def header_absorb_def)

lemma stream_ok_done:
  "stream_ok st \<Longrightarrow> st_headerLen st < 4 \<Longrightarrow> \<not> st_headerLen (header_absorb tm data st) < 4 \<Longrightarrow>
   st_length (header_done (header_absorb tm data st)) \<noteq> 0 \<Longrightarrow> stream_ok (header_done (header_absorb tm data st))"
  using mysqlLength_bound by (auto simp: stream_ok_def header_absorb_def header_done_def mysqlPacketKeep_def)

lemma stream_ok_done_empty:
  "stream_ok st \<Longrightarrow> st_headerLen st < 4 \<Longrightarrow>
   stream_ok (header_done (header_absorb tm data st)\<lparr>st_headerLen := 0\<rparr>)"
  by (auto simp: stream_ok_def header_absorb_def header_done_def)

lemma feed_header_ok:
  assumes "stream_ok st" and "st_headerLen st < 4"
    and "feed_header deliver tm data sz st s = Inr (data', sz', st', s')"
  shows "stream_ok st'"
  using assms stream_ok_absorb stream_ok_done stream_ok_done_empty
  by (auto simp: feed_header_def Let_def split: if_splits prod.splits)

lemma stream_ok_advance:
  assumes "stream_ok st" and "st_headerLen st = 4" and "st_delivered st"
  shows "stream_ok (body_advance n st)"
  using assms by (auto simp: stream_ok_def body_advance_def)

lemma stream_ok_deliver:
  assumes "stream_ok st" and "st_headerLen st = 4"
  shows "stream_ok (body_advance n (st\<lparr>st_held := held, st_delivered := True\<rparr>))"
  using assms by (auto simp: stream_ok_def body_advance_def)

text \<open>When a packet is not due after a turn, every byte of the turn was seen and is held.\<close>

lemma stream_ok_not_due:
  assumes ok: "stream_ok st" "st_headerLen st = 4" "\<not> st_delivered st"
    and seen: "seen = min n (length data)" and n: "n = min (st_left st) sz"
    and p: "body_payload seen data st = (payload, held)"
    and due: "\<not> (length payload = min (st_length st) mysqlPacketKeep \<or> seen < n)"
  shows "held = st_held st @ take n data" and "n \<le> length data" and "n < st_left st"
    and "length (st_held st) + n < min (st_length st) mysqlPacketKeep"
proof -
  define want where "want = min (st_length st) mysqlPacketKeep"
  have inv: "length (st_held st) < want" "length (st_held st) + st_left st = st_length st"
    using ok by (auto simp: stream_ok_def want_def)
  have s: "seen = n" "n \<le> length data" using due seen by auto
  have pl: "payload = st_held st @ take (min n (want - length (st_held st))) data" "held = payload"
    using p due s unfolding body_payload_def want_def Let_def by (auto split: if_splits)
  have "min n (want - length (st_held st)) \<noteq> want - length (st_held st)"
    using due pl(1) inv s by (auto simp: want_def)
  then have lt: "n < want - length (st_held st)" by auto
  then have m: "min n (want - length (st_held st)) = n" by simp
  have w: "want \<le> st_length st" by (simp add: want_def)
  show "held = st_held st @ take n data" using pl m by simp
  show "n \<le> length data" by (rule s)
  show "n < st_left st" using lt inv w by linarith
  show "length (st_held st) + n < min (st_length st) mysqlPacketKeep"
    using lt unfolding want_def by linarith
qed

lemma feed_body_ok:
  assumes ok: "stream_ok st" "st_headerLen st = 4"
    and step: "feed_body deliver data sz st s = Inr (data', sz', st', s')"
  shows "stream_ok st'"
proof (cases "st_delivered st")
  case True
  with step ok show ?thesis by (auto simp: feed_body_def Let_def stream_ok_advance)
next
  case nd: False
  define n seen where d: "n = min (st_left st) sz" "seen = min n (length data)"
  obtain payload held where p: "body_payload seen data st = (payload, held)" by fastforce
  show ?thesis
  proof (cases "length payload = min (st_length st) mysqlPacketKeep \<or> seen < n")
    case True
    with step nd p ok show ?thesis
      unfolding feed_body_def d [symmetric] Let_def
      by (auto simp: stream_ok_deliver split: if_splits prod.splits)
  next
    case False
    note b = stream_ok_not_due [OF ok nd d(2,1) p False]
    have "st' = body_advance n (st\<lparr>st_held := held\<rparr>)"
      using step nd p False unfolding feed_body_def d [symmetric] Let_def by simp
    then show ?thesis using ok nd b by (auto simp: body_advance_def stream_ok_def)
  qed
qed

lemma feed_step_ok:
  assumes "stream_ok st" and "feed_step deliver tm data sz st s = Inr (data', sz', st', s')"
  shows "stream_ok st'"
proof (cases "st_headerLen st < 4")
  case True
  with assms show ?thesis by (auto simp: feed_step_def intro: feed_header_ok)
next
  case False
  then have "st_headerLen st = 4" using assms(1) by (simp add: stream_ok_def)
  with False assms show ?thesis by (auto simp: feed_step_def intro: feed_body_ok)
qed

lemma feed_step_stop_ok:
  assumes "feed_step deliver tm data sz st s = Inl (good, st', s')"
  shows "st' = stream0"
  using assms by (auto simp: feed_step_def feed_header_def feed_body_def Let_def split: if_splits prod.splits)

lemma feed_loop_ok:
  "stream_ok st \<Longrightarrow> feed_loop deliver tm data sz st s = (good, st', s') \<Longrightarrow> stream_ok st'"
proof (induction deliver tm data sz st s rule: feed_loop.induct)
  case (1 deliver tm data sz st s)
  show ?case
  proof (cases "sz = 0")
    case True
    with "1.prems" show ?thesis by (simp add: feed_loop.simps)
  next
    case False
    show ?thesis
    proof (cases "feed_step deliver tm data sz st s")
      case (Inl r)
      with "1.prems"(2) False show ?thesis
        using feed_step_stop_ok by (fastforce simp: feed_loop.simps [of deliver tm data sz st s])
    next
      case (Inr r)
      obtain d z t u where r: "r = (d, z, t, u)" by (cases r)
      have "feed_loop deliver tm d z t u = (good, st', s')"
        using "1.prems"(2) False Inr r by (simp add: feed_loop.simps [of deliver tm data sz st s])
      moreover have "stream_ok t" using feed_step_ok [OF "1.prems"(1)] Inr r by simp
      ultimately show ?thesis using "1.IH" [OF False Inr r [symmetric] refl refl] by simp
    qed
  qed
qed

lemma feed_loop_lost: "feed_loop deliver tm data sz st s = (False, st', s') \<Longrightarrow> st' = stream0"
proof (induction deliver tm data sz st s rule: feed_loop.induct)
  case (1 deliver tm data sz st s)
  show ?case
  proof (cases "sz = 0 \<or> (\<exists>r. feed_step deliver tm data sz st s = Inl r)")
    case True
    then have "sz \<noteq> 0" "feed_step deliver tm data sz st s = Inl (False, st', s')"
      using "1.prems" by (auto simp: feed_loop.simps [of deliver tm data sz st s] split: if_splits)
    then show ?thesis by (simp add: feed_step_stop_ok)
  next
    case False
    then obtain d z t u where r: "feed_step deliver tm data sz st s = Inr (d, z, t, u)" and sz: "sz \<noteq> 0"
      by (cases "feed_step deliver tm data sz st s") auto
    then have "feed_loop deliver tm d z t u = (False, st', s')"
      using "1.prems" by (simp add: feed_loop.simps [of deliver tm data sz st s])
    then show ?thesis using "1.IH" [OF sz r refl refl refl] by simp
  qed
qed

text \<open>
  What the callback keeps, the whole \<open>feed\<close> keeps: \<open>I\<close> holds as long as the callback asks for more,
  \<open>J\<close> at the end.
\<close>

lemma feed_step_rule:
  assumes "I s" and "\<And>full p s. I s \<Longrightarrow> fst (deliver full p s) \<Longrightarrow> I (snd (deliver full p s))"
    and "\<And>full p s. I s \<Longrightarrow> \<not> fst (deliver full p s) \<Longrightarrow> J (snd (deliver full p s))" and "\<And>s. I s \<Longrightarrow> J s"
  shows "case feed_step deliver tm data sz st s of Inl (_, _, s') \<Rightarrow> J s' | Inr (_, _, _, s') \<Rightarrow> I s'"
proof -
  have D: "if go then I s' else J s'" if "deliver full p s = (go, s')" for full p go s'
    using assms(2,3) [OF assms(1), of full p] that by (cases go) simp_all
  have "case feed_header deliver tm data sz st s of Inl (_, _, s') \<Rightarrow> J s' | Inr (_, _, _, s') \<Rightarrow> I s'"
  proof -
    define st2 where "st2 = header_done (header_absorb tm data st)"
    obtain go s1 where "deliver (st_full st2) \<lparr>pk_seq = st_seq st2, pk_length = 0, pk_payload = [],
        pk_truncated = False, pk_at = st_at st2\<rparr> s = (go, s1)" by fastforce
    then show ?thesis using assms(1) assms(4) [OF assms(1)] D
      by (cases go) (simp_all add: feed_header_def Let_def st2_def [symmetric])
  qed
  moreover have "case feed_body deliver data sz st s of Inl (_, _, s') \<Rightarrow> J s' | Inr (_, _, _, s') \<Rightarrow> I s'"
  proof -
    define n seen where d: "n = min (st_left st) sz" "seen = min n (length data)"
    obtain payload held where p: "body_payload seen data st = (payload, held)" by fastforce
    obtain go s1 where "deliver (st_full st) \<lparr>pk_seq = st_seq st, pk_length = st_length st, pk_payload = payload,
        pk_truncated = (length payload < st_length st), pk_at = st_at st\<rparr> s = (go, s1)" by fastforce
    then show ?thesis using assms(1) assms(4) [OF assms(1)] D p
      unfolding feed_body_def d [symmetric] Let_def by (cases go) simp_all
  qed
  ultimately show ?thesis by (simp add: feed_step_def)
qed

lemma feed_loop_rule:
  assumes "\<And>full p s. I s \<Longrightarrow> fst (deliver full p s) \<Longrightarrow> I (snd (deliver full p s))"
    and "\<And>full p s. I s \<Longrightarrow> \<not> fst (deliver full p s) \<Longrightarrow> J (snd (deliver full p s))" and "\<And>s. I s \<Longrightarrow> J s"
  shows "I s \<Longrightarrow> J (snd (snd (feed_loop deliver tm data sz st s)))"
  using assms
proof (induction deliver tm data sz st s rule: feed_loop.induct)
  case (1 deliver tm data sz st s)
  show ?case
  proof (cases "sz = 0")
    case True
    with 1(2,5) show ?thesis by (simp add: feed_loop.simps)
  next
    case False
    note step = feed_step_rule [where I = I and J = J and deliver = deliver and tm = tm and data = data and sz = sz and st = st and s = s, OF 1(2-5)]
    show ?thesis
    proof (cases "feed_step deliver tm data sz st s")
      case (Inl r)
      with step False show ?thesis by (cases r) (simp add: feed_loop.simps [of deliver tm data sz st s])
    next
      case (Inr r)
      obtain d z t u where r: "r = (d, z, t, u)" by (cases r)
      have "J (snd (snd (feed_loop deliver tm d z t u)))"
        using step Inr r by (intro "1.IH" [OF False Inr r [symmetric] refl refl]) (auto intro: 1(3) 1(4) 1(5))
      with False Inr r show ?thesis by (simp add: feed_loop.simps [of deliver tm data sz st s])
    qed
  qed
qed

lemma mysql_feed_rule:
  assumes "I s" and "\<And>full p s. I s \<Longrightarrow> fst (deliver full p s) \<Longrightarrow> I (snd (deliver full p s))"
    and "\<And>full p s. I s \<Longrightarrow> \<not> fst (deliver full p s) \<Longrightarrow> J (snd (deliver full p s))" and "\<And>s. I s \<Longrightarrow> J s"
  shows "J (snd (snd (mysql_feed deliver data size' tm st s)))"
  unfolding mysql_feed_def using assms(2-4) assms(1) by (rule feed_loop_rule)

lemma mysql_feed_keeps:
  assumes "I s" and "\<And>full p s. I s \<Longrightarrow> I (snd (deliver full p s))"
  shows "I (snd (snd (mysql_feed deliver data size' tm st s)))"
  by (rule mysql_feed_rule [of I]) (use assms in auto)

lemma mysql_feed_ok: "stream_ok st \<Longrightarrow> stream_ok (fst (snd (mysql_feed deliver data size' tm st s)))"
  using feed_loop_ok [of st deliver tm data "max size' (length data)" s] unfolding mysql_feed_def
  by (metis prod.collapse)

subsection \<open>Fully captured streams: how the bytes are cut does not matter\<close>

text \<open>
  When every byte of the reads is captured (\<open>size = length data\<close>) a stream is a reader in the
  sense of the locale \<open>incremental\<close>. The packets are collected in a list. After a packet has been
  delivered the held bytes are stale: they are never read again, so streams are compared by
  \<open>settled\<close>.
\<close>

definition collect :: "bool \<Rightarrow> mysqlPacket \<Rightarrow> mysqlPacket list \<Rightarrow> bool \<times> mysqlPacket list" where
  "collect full packet out = (True, out @ [packet])"

definition settled :: "mysqlStream \<Rightarrow> mysqlStream" where
  "settled st = (if st_headerLen st = 4 \<and> \<not> st_delivered st then st else st\<lparr>st_held := []\<rparr>)"

abbreviation full_feed :: "u64 \<Rightarrow> bytes \<Rightarrow> mysqlStream \<Rightarrow> mysqlPacket list \<Rightarrow> bool \<times> mysqlStream \<times> mysqlPacket list" where
  "full_feed tm data st out \<equiv> feed_loop collect tm data (length data) st out"

text \<open>One chunk inside a header.\<close>

lemma copy_at_append:
  "i + length xs \<le> length dst \<Longrightarrow> copy_at (copy_at dst i xs) (i + length xs) ys = copy_at dst i (xs @ ys)"
proof -
  assume le: "i + length xs \<le> length dst"
  have pre: "copy_at dst i xs = take i dst @ xs @ drop (i + length xs) dst"
    using le by (simp add: copy_at_def Let_def)
  define m where "m = min (length dst - (i + length xs)) (length ys)"
  have "copy_at (copy_at dst i xs) (i + length xs) ys
      = take i dst @ xs @ take m ys @ drop (i + length xs + m) dst"
    unfolding pre using le by (simp add: copy_at_def Let_def m_def [symmetric] add.commute [of m])
  also have "\<dots> = copy_at dst i (xs @ ys)"
  proof -
    have "min (length dst - i) (length (xs @ ys)) = length xs + m"
      using le by (auto simp: m_def)
    then show ?thesis by (simp add: copy_at_def Let_def add.assoc)
  qed
  finally show ?thesis .
qed

lemma header_absorb_append:
  assumes "stream_ok st" and "st_headerLen st + length xs < 4" and "xs \<noteq> []"
  shows "header_absorb tm ys (header_absorb tm xs st) = header_absorb tm (xs @ ys) st"
proof -
  have "copy_at (copy_at (st_header st) (st_headerLen st) xs) (st_headerLen st + length xs) ys
      = copy_at (st_header st) (st_headerLen st) (xs @ ys)"
    using assms by (intro copy_at_append) (simp add: stream_ok_def)
  moreover have "min (4 - st_headerLen st) (length xs) = length xs" using assms(2) by simp
  moreover have "st_headerLen st + length xs + min (4 - (st_headerLen st + length xs)) (length ys)
      = st_headerLen st + min (4 - st_headerLen st) (length (xs @ ys))"
    using assms(2) by simp
  ultimately show ?thesis using assms(3) by (simp add: header_absorb_def)
qed

lemma header_absorb_full:
  assumes "stream_ok st" and "4 \<le> st_headerLen st + length xs" and "st_headerLen st < 4"
  shows "header_absorb tm (xs @ ys) st = header_absorb tm xs st"
proof -
  have m: "min (4 - st_headerLen st) (length xs) = 4 - st_headerLen st"
    "min (4 - st_headerLen st) (length (xs @ ys)) = 4 - st_headerLen st"
    using assms(2) by simp_all
  have "length (st_header st) = 4" using assms(1) by (simp add: stream_ok_def)
  with m assms(2) show ?thesis by (simp add: header_absorb_def copy_at_def Let_def)
qed

lemma feed_loop_0 [simp]: "feed_loop deliver tm data 0 st s = (True, st, s)"
  by (simp add: feed_loop.simps)

lemma full_feed_header_part:
  assumes "data \<noteq> []" and "st_headerLen st + length data < 4"
  shows "full_feed tm data st out = (True, header_absorb tm data st, out)"
  using assms
  by (subst feed_loop.simps) (auto simp: feed_step_def feed_header_def header_absorb_def Let_def feed_loop.simps)

text \<open>What happens when the fourth header byte has come.\<close>

definition header_deliver :: "mysqlStream \<Rightarrow> mysqlPacket list \<Rightarrow> mysqlStream \<times> mysqlPacket list" where
  "header_deliver st out =
     (let st2 = header_done st in
      if st_length st2 = 0 then
        (st2\<lparr>st_headerLen := 0\<rparr>,
         out @ [\<lparr>pk_seq = st_seq st2, pk_length = 0, pk_payload = [], pk_truncated = False, pk_at = st_at st2\<rparr>])
      else (st2, out))"

lemma full_feed_header_whole:
  assumes "data \<noteq> []" and "st_headerLen st < 4" and "4 \<le> st_headerLen st + length data"
    and "header_deliver (header_absorb tm data st) out = (st', out')"
  shows "full_feed tm data st out = full_feed tm (drop (4 - st_headerLen st) data) st' out'"
  using assms
  by (subst feed_loop.simps)
    (auto simp: feed_step_def feed_header_def header_deliver_def collect_def Let_def header_absorb_def split: if_splits)

text \<open>One chunk inside a payload, at most as long as what is left.\<close>

definition body_chunk :: "bytes \<Rightarrow> mysqlStream \<Rightarrow> mysqlPacket list \<Rightarrow> mysqlStream \<times> mysqlPacket list" where
  "body_chunk data st out =
     (let n = length data in
      if st_delivered st then (body_advance n st, out)
      else
        (case body_payload n data st of (payload, held) \<Rightarrow>
           if length payload = min (st_length st) mysqlPacketKeep then
             (body_advance n (st\<lparr>st_held := held, st_delivered := True\<rparr>),
              out @ [\<lparr>pk_seq = st_seq st, pk_length = st_length st, pk_payload = payload,
                     pk_truncated = (length payload < st_length st), pk_at = st_at st\<rparr>])
           else (body_advance n (st\<lparr>st_held := held\<rparr>), out)))"

lemma body_payload_take: "n \<le> m \<Longrightarrow> body_payload n (take m data) st = body_payload n data st"
proof -
  assume "n \<le> m"
  then have "take (min n k) (take m data) = take (min n k) data" for k
    by (simp add: take_take min.absorb1 min.coboundedI1)
  then show ?thesis by (simp add: body_payload_def Let_def del: take_take)
qed

lemma full_feed_body:
  assumes "data \<noteq> []" and "st_headerLen st = 4"
    and chunk: "body_chunk (take (st_left st) data) st out = (st', out')"
  shows "full_feed tm data st out = full_feed tm (drop (st_left st) data) st' out'"
proof -
  define n where "n = min (st_left st) (length data)"
  have len: "length (take (st_left st) data) = n" by (simp add: n_def)
  obtain payload held where bp: "body_payload n data st = (payload, held)" by fastforce
  then have bt: "body_payload n (take (st_left st) data) st = (payload, held)"
    using body_payload_take [of n "st_left st" data st] by (simp add: n_def)
  have mm: "min n (length data) = n" by (simp add: n_def)
  have dd: "drop n data = drop (st_left st) data" "length data - n = length (drop (st_left st) data)"
    by (simp_all add: n_def min_def)
  have "feed_body collect data (length data) st out = Inr (drop (st_left st) data, length (drop (st_left st) data), st', out')"
    using chunk bp bt unfolding feed_body_def body_chunk_def len n_def [symmetric] Let_def collect_def
    by (auto simp: n_def [symmetric] dd [symmetric] mm split: if_splits)
  then show ?thesis
    using assms(1,2) by (subst feed_loop.simps) (simp add: feed_step_def)
qed

fun sim :: "bool \<times> mysqlStream \<times> mysqlPacket list \<Rightarrow> bool \<times> mysqlStream \<times> mysqlPacket list \<Rightarrow> bool" where
  "sim (good, st, out) (good', st', out') \<longleftrightarrow> good = good' \<and> settled st = settled st' \<and> out = out'"

lemma sim_refl [simp]: "sim r r"
  by (cases r) simp

lemma sim_sym: "sim r r' \<Longrightarrow> sim r' r"
  by (cases r; cases r') simp

lemma sim_trans: "sim r r' \<Longrightarrow> sim r' r'' \<Longrightarrow> sim r r''"
  by (cases r; cases r'; cases r'') simp

text \<open>The bytes held are looked at only inside a packet that is not delivered yet.\<close>

lemma header_absorb_held: "header_absorb tm data (st\<lparr>st_held := h\<rparr>) = header_absorb tm data st\<lparr>st_held := h\<rparr>"
  by (simp add: header_absorb_def)

lemma header_deliver_held: "header_deliver (st\<lparr>st_held := h\<rparr>) out = header_deliver st out"
  by (simp add: header_deliver_def header_done_def Let_def)

lemma body_advance_held: "body_advance n (st\<lparr>st_held := h\<rparr>) = body_advance n st\<lparr>st_held := h\<rparr>"
  by (simp add: body_advance_def)

lemma settled_stale:
  "st_headerLen st < 4 \<or> st_delivered st \<Longrightarrow> settled (st\<lparr>st_held := h\<rparr>) = settled st"
  by (auto simp: settled_def)

lemma settled_eqE:
  assumes "settled st = settled st'"
  obtains "st_headerLen st = 4" "\<not> st_delivered st" "st' = st"
  | "st_headerLen st \<noteq> 4 \<or> st_delivered st" "st' = st\<lparr>st_held := st_held st'\<rparr>"
proof -
  have h: "st_headerLen st = st_headerLen st'" "st_delivered st = st_delivered st'"
    using assms by (auto simp: settled_def split: if_splits dest: arg_cong [of _ _ st_headerLen] arg_cong [of _ _ st_delivered])
  show thesis
  proof (cases "st_headerLen st = 4 \<and> \<not> st_delivered st")
    case True
    with assms h show ?thesis by (intro that(1)) (auto simp: settled_def)
  next
    case False
    with assms h have "st\<lparr>st_held := []\<rparr> = st'\<lparr>st_held := []\<rparr>" by (auto simp: settled_def)
    then have "st' = st\<lparr>st_held := st_held st'\<rparr>" by (cases st; cases st') simp
    with False show ?thesis by (intro that(2)) auto
  qed
qed

lemma full_feed_stale:
  "stream_ok st \<Longrightarrow> st_headerLen st < 4 \<or> st_delivered st \<Longrightarrow>
   sim (full_feed tm data (st\<lparr>st_held := h\<rparr>) out) (full_feed tm data st out)"
proof (induction "length data" arbitrary: data st out rule: less_induct)
  case less
  show ?case
  proof (cases "data = []")
    case True
    with less.prems show ?thesis by (simp add: settled_stale)
  next
    case ne: False
    show ?thesis
    proof (cases "st_headerLen st < 4")
      case hdr: True
      show ?thesis
      proof (cases "st_headerLen st + length data < 4")
        case True
        have "st_headerLen (header_absorb tm data st) < 4" using True by (simp add: header_absorb_def)
        with True ne show ?thesis
          by (simp add: full_feed_header_part header_absorb_held settled_stale)
      next
        case False
        obtain st' out' where d: "header_deliver (header_absorb tm data st) out = (st', out')" by fastforce
        then have d': "header_deliver (header_absorb tm data (st\<lparr>st_held := h\<rparr>)) out = (st', out')"
          by (simp add: header_absorb_held header_deliver_held)
        show ?thesis
          using full_feed_header_whole [OF ne hdr _ d] full_feed_header_whole [OF ne _ _ d'] False hdr
          by simp
      qed
    next
      case False
      with less.prems have body: "st_headerLen st = 4" "st_delivered st" "0 < st_left st"
        by (auto simp: stream_ok_def)
      define dt n where "dt = drop (st_left st) data" and "n = length (take (st_left st) data)"
      have c: "body_chunk (take (st_left st) data) st out = (body_advance n st, out)"
        "body_chunk (take (st_left st) data) (st\<lparr>st_held := h\<rparr>) out = (body_advance n st\<lparr>st_held := h\<rparr>, out)"
        using body by (simp_all add: body_chunk_def Let_def n_def body_advance_held)
      have eq: "full_feed tm data st out = full_feed tm dt (body_advance n st) out"
        "full_feed tm data (st\<lparr>st_held := h\<rparr>) out = full_feed tm dt (body_advance n st\<lparr>st_held := h\<rparr>) out"
        using full_feed_body [of data st out "body_advance n st" out tm]
          full_feed_body [of data "st\<lparr>st_held := h\<rparr>" out "body_advance n st\<lparr>st_held := h\<rparr>" out tm] ne body(1) c
        by (simp_all add: dt_def)
      have "length dt < length data" using ne body(3) by (cases data) (simp_all add: dt_def)
      moreover have "stream_ok (body_advance n st)"
        by (rule stream_ok_advance) (use less.prems body in simp_all)
      moreover have "st_headerLen (body_advance n st) < 4 \<or> st_delivered (body_advance n st)"
        using body by (simp add: body_advance_def)
      ultimately show ?thesis unfolding eq by (rule less.hyps)
    qed
  qed
qed

lemma full_feed_cong:
  assumes "stream_ok st" and "settled st = settled st'"
  shows "sim (full_feed tm data st out) (full_feed tm data st' out)"
  using assms(2)
proof (cases rule: settled_eqE)
  case 1
  then show ?thesis by simp
next
  case 2
  then have "st_headerLen st < 4 \<or> st_delivered st" using assms(1) by (auto simp: stream_ok_def)
  then have "sim (full_feed tm data (st\<lparr>st_held := st_held st'\<rparr>) out) (full_feed tm data st out)"
    by (rule full_feed_stale [OF assms(1)])
  then show ?thesis using 2(2) by (simp add: sim_sym)
qed

text \<open>Two chunks of the same payload.\<close>

lemma body_advance_add:
  "n < st_left st \<Longrightarrow> body_advance m (body_advance n st) = body_advance (n + m) st"
  by (auto simp: body_advance_def)

lemma body_payload_parts:
  "fst (body_payload n data st) = st_held st @ take (min n (min (st_length st) mysqlPacketKeep - length (st_held st))) data"
  "length (fst (body_payload n data st)) \<noteq> min (st_length st) mysqlPacketKeep \<Longrightarrow>
   snd (body_payload n data st) = fst (body_payload n data st)"
proof -
  define want where "want = min (st_length st) mysqlPacketKeep"
  define piece where "piece = take (min n (want - length (st_held st))) data"
  have eq: "body_payload n data st =
      (if st_held st = [] \<and> length piece = want then (piece, st_held st) else (st_held st @ piece, st_held st @ piece))"
    unfolding body_payload_def want_def [symmetric] Let_def piece_def [symmetric] by (rule refl)
  show "fst (body_payload n data st) = st_held st @ take (min n (min (st_length st) mysqlPacketKeep - length (st_held st))) data"
    unfolding eq want_def [symmetric] piece_def [symmetric] by simp
  show "length (fst (body_payload n data st)) \<noteq> min (st_length st) mysqlPacketKeep \<Longrightarrow>
      snd (body_payload n data st) = fst (body_payload n data st)"
    unfolding eq want_def [symmetric] by (auto split: if_splits)
qed

lemma settled_advance_delivered:
  "st_headerLen st = 4 \<Longrightarrow>
   settled (body_advance n (st\<lparr>st_held := h, st_delivered := True\<rparr>))
     = settled (body_advance n (st\<lparr>st_held := h', st_delivered := True\<rparr>))"
  by (simp add: settled_def body_advance_def)

lemma body_chunk_append:
  assumes ok: "stream_ok st" and hl: "st_headerLen st = 4" and xs: "length xs < st_left st" "xs \<noteq> []"
    and c1: "body_chunk xs st out = (st1, out1)" and c2: "body_chunk ys st1 out1 = (st2, out2)"
    and c: "body_chunk (xs @ ys) st out = (st3, out3)"
  shows "settled st2 = settled st3 \<and> out2 = out3"
proof (cases "st_delivered st")
  case True
  then have "st1 = body_advance (length xs) st" "out1 = out"
    and 3: "st3 = body_advance (length xs + length ys) st" "out3 = out"
    using c1 c by (simp_all add: body_chunk_def Let_def)
  moreover have "st_delivered (body_advance (length xs) st)"
    using True xs by (simp add: body_advance_def)
  ultimately have "st2 = body_advance (length ys) (body_advance (length xs) st)" "out2 = out"
    using c2 by (simp_all add: body_chunk_def Let_def)
  with 3 show ?thesis using xs by (simp add: body_advance_add)
next
  case nd: False
  define want h where w: "want = min (st_length st) mysqlPacketKeep" "h = length (st_held st)"
  have inv: "h < want" using ok hl nd by (auto simp: stream_ok_def w)
  obtain p1 h1 where b1: "body_payload (length xs) xs st = (p1, h1)" by fastforce
  obtain p3 h3 where b3: "body_payload (length xs + length ys) (xs @ ys) st = (p3, h3)" by fastforce
  have p1: "p1 = st_held st @ take (want - h) xs"
    using body_payload_parts(1) [of "length xs" xs st] b1 unfolding w take_min_length by simp
  have p3: "p3 = st_held st @ take (want - h) (xs @ ys)"
    using body_payload_parts(1) [of "length (xs @ ys)" "xs @ ys" st] b3 unfolding w take_min_length by simp
  show ?thesis
  proof (cases "h + length xs < want")
    case True
    have "take (want - h) xs = xs" using True by simp
    then have "length p1 = h + length xs" using p1 by (simp add: w)
    then have "length p1 \<noteq> want" using True by simp
    then have "h1 = p1" using body_payload_parts(2) [of "length xs" xs st] b1 by (simp add: w)
    then have h1: "h1 = st_held st @ xs" using p1 \<open>take (want - h) xs = xs\<close> by simp
    have 1: "st1 = body_advance (length xs) (st\<lparr>st_held := st_held st @ xs\<rparr>)" "out1 = out"
      using c1 nd b1 h1 \<open>length p1 \<noteq> want\<close> by (simp_all add: body_chunk_def Let_def w)
    define sx where "sx = st\<lparr>st_held := st_held st @ xs, st_left := st_left st - length xs\<rparr>"
    have sx: "st1 = sx" using 1 xs by (simp add: sx_def body_advance_def)
    obtain p2 h2 where b2: "body_payload (length ys) ys sx = (p2, h2)" by fastforce
    have "p2 = st_held st @ xs @ take (want - (h + length xs)) ys"
      using body_payload_parts(1) [of "length ys" ys sx] b2 unfolding take_min_length
      by (simp add: w sx_def)
    then have p23: "p2 = p3" using p3 True by simp
    have adv: "body_advance (length ys) (sx\<lparr>st_held := g, st_delivered := d\<rparr>)
        = body_advance (length xs + length ys) (st\<lparr>st_held := g, st_delivered := d\<rparr>)" for g d
      using xs by (auto simp: sx_def body_advance_def)
    show ?thesis
    proof (cases "length p3 = want")
      case True
      have "st2 = body_advance (length ys) (sx\<lparr>st_held := h2, st_delivered := True\<rparr>)"
        and "st3 = body_advance (length xs + length ys) (st\<lparr>st_held := h3, st_delivered := True\<rparr>)" and "out2 = out3"
        using True c2 c b2 b3 nd p23 1(2) by (simp_all add: sx body_chunk_def Let_def w) (simp_all add: sx_def)
      then show ?thesis using adv settled_advance_delivered [OF hl] by simp
    next
      case False
      have hh: "h2 = p2" "h3 = p3"
        using body_payload_parts(2) [of "length ys" ys sx] body_payload_parts(2) [of "length xs + length ys" "xs @ ys" st]
          False p23 b2 b3 by (simp_all add: w sx_def)
      have "st2 = body_advance (length ys) (sx\<lparr>st_held := h2\<rparr>)"
        and "st3 = body_advance (length xs + length ys) (st\<lparr>st_held := h3\<rparr>)" and "out2 = out3"
        using False c2 c b2 b3 nd p23 1(2) by (simp_all add: sx body_chunk_def Let_def w) (simp_all add: sx_def)
      moreover have "body_advance (length ys) (sx\<lparr>st_held := p3\<rparr>)
          = body_advance (length xs + length ys) (st\<lparr>st_held := p3\<rparr>)"
        using xs by (auto simp: sx_def body_advance_def)
      ultimately show ?thesis using hh p23 by simp
    qed
  next
    case False
    then have le: "want - h \<le> length xs" by linarith
    then have l3: "p3 = p1" using p1 p3 by simp
    have "length p1 = h + (want - h)" using p1 le by (simp add: w(2) [symmetric])
    then have l1: "length p1 = want" using inv by simp
    have 1: "st1 = body_advance (length xs) (st\<lparr>st_held := h1, st_delivered := True\<rparr>)"
      "out3 = out1"
      "st3 = body_advance (length xs + length ys) (st\<lparr>st_held := h3, st_delivered := True\<rparr>)"
      using c1 c nd b1 b3 l1 l3 by (simp_all add: body_chunk_def Let_def w)
    have "st_delivered st1" using 1(1) xs by (simp add: body_advance_def)
    then have "st2 = body_advance (length ys) st1" "out2 = out1"
      using c2 by (simp_all add: body_chunk_def Let_def)
    moreover have "body_advance (length ys) st1 = body_advance (length xs + length ys) (st\<lparr>st_held := h1, st_delivered := True\<rparr>)"
      unfolding 1(1) by (rule body_advance_add) (use xs in simp)
    ultimately show ?thesis using 1 settled_advance_delivered [OF hl] by simp
  qed
qed

text \<open>Closed forms, read as the four ways a chunk can begin.\<close>

lemma full_feed_body_part:
  assumes "xs \<noteq> []" and "st_headerLen st = 4" and "length xs \<le> st_left st"
    and "body_chunk xs st out = (st1, out1)"
  shows "full_feed tm xs st out = (True, st1, out1)"
  using full_feed_body [OF assms(1,2), of out st1 out1 tm] assms(3,4) by simp

lemma body_chunk_ok:
  assumes "stream_ok st" and "xs \<noteq> []" and "st_headerLen st = 4" and "length xs \<le> st_left st"
    and "body_chunk xs st out = (st1, out1)"
  shows "stream_ok st1"
  using feed_loop_ok [OF assms(1) full_feed_body_part [OF assms(2-5)]] .

lemma header_deliver_ok:
  assumes "stream_ok st" and "st_headerLen st < 4" and "4 \<le> st_headerLen st + length xs"
    and "header_deliver (header_absorb tm xs st) out = (st', out')"
  shows "stream_ok st'"
proof -
  have "\<not> st_headerLen (header_absorb tm xs st) < 4"
    using assms(3) by (simp add: header_absorb_def)
  then show ?thesis
    using assms stream_ok_done [of st tm xs] stream_ok_done_empty [of st tm xs]
    by (auto simp: header_deliver_def Let_def split: if_splits)
qed

lemma body_chunk_cut:
  assumes ok: "stream_ok st" and hl: "st_headerLen st = 4" and xs: "xs \<noteq> []" "length xs < st_left st"
    and ys: "ys \<noteq> []" and c1: "body_chunk xs st out = (st1, out1)"
  shows "sim (full_feed tm (xs @ ys) st out) (full_feed tm ys st1 out1)"
proof -
  have ok1: "stream_ok st1" by (rule body_chunk_ok [OF ok xs(1) hl _ c1]) (use xs in simp)
  have s1: "st_headerLen st1 = 4" "st_left st1 = st_left st - length xs"
    using c1 xs hl by (auto simp: body_chunk_def body_advance_def Let_def split: if_splits prod.splits)
  define dt where "dt = drop (st_left st1) ys"
  obtain st2 out2 where c2: "body_chunk (take (st_left st1) ys) st1 out1 = (st2, out2)" by fastforce
  obtain st3 out3 where c3: "body_chunk (xs @ take (st_left st1) ys) st out = (st3, out3)" by fastforce
  have t: "take (st_left st) (xs @ ys) = xs @ take (st_left st1) ys" "drop (st_left st) (xs @ ys) = dt"
    using xs by (simp_all add: s1 dt_def)
  have l: "full_feed tm (xs @ ys) st out = full_feed tm dt st3 out3"
    using full_feed_body [of "xs @ ys" st out st3 out3 tm] xs(1) hl c3 unfolding t by simp
  have r: "full_feed tm ys st1 out1 = full_feed tm dt st2 out2"
    using full_feed_body [of ys st1 out1 st2 out2 tm] ys s1 c2 unfolding dt_def by simp
  have e: "settled st2 = settled st3" "out2 = out3"
    using body_chunk_append [OF ok hl xs(2,1) c1 c2 c3] by simp_all
  have "stream_ok st3"
    by (rule body_chunk_ok [OF ok _ hl _ c3]) (use xs in \<open>auto simp: s1\<close>)
  then have "sim (full_feed tm dt st3 out3) (full_feed tm dt st2 out3)"
    by (rule full_feed_cong) (simp add: e)
  then show ?thesis using l r e by simp
qed

lemma header_cut:
  assumes ok: "stream_ok st" and xs: "xs \<noteq> []" "st_headerLen st + length xs < 4" and ys: "ys \<noteq> []"
  shows "full_feed tm (xs @ ys) st out = full_feed tm ys (header_absorb tm xs st) out"
proof -
  define st1 where "st1 = header_absorb tm xs st"
  have s1: "st_headerLen st1 = st_headerLen st + length xs" using xs by (simp add: st1_def header_absorb_def)
  have ab: "header_absorb tm (xs @ ys) st = header_absorb tm ys st1"
    using header_absorb_append [OF ok xs(2,1)] by (simp add: st1_def)
  show ?thesis unfolding st1_def [symmetric]
  proof (cases "st_headerLen st + length (xs @ ys) < 4")
    case True
    then show "full_feed tm (xs @ ys) st out = full_feed tm ys st1 out"
      using full_feed_header_part [of "xs @ ys" st tm out] full_feed_header_part [of ys st1 tm out] xs ys s1 ab
      by simp
  next
    case False
    obtain st' out' where d: "header_deliver (header_absorb tm ys st1) out = (st', out')" by fastforce
    have "drop (4 - st_headerLen st) (xs @ ys) = drop (4 - st_headerLen st1) ys"
      using xs by (simp add: s1)
    then show "full_feed tm (xs @ ys) st out = full_feed tm ys st1 out"
      using full_feed_header_whole [of "xs @ ys" st tm out st' out'] full_feed_header_whole [of ys st1 tm out st' out']
        xs ys s1 d ab False by simp
  qed
qed

lemma full_feed_append:
  "stream_ok st \<Longrightarrow> full_feed tm xs st out = (good, st1, out1) \<Longrightarrow> good \<and>
   sim (full_feed tm (xs @ ys) st out) (full_feed tm ys st1 out1)"
proof (induction "length xs" arbitrary: xs st out rule: less_induct)
  case less
  note ok = less.prems(1)
  have hl4: "st_headerLen st \<le> 4" using ok by (simp add: stream_ok_def)
  consider (nil) "xs = []"
    | (part) "xs \<noteq> []" "st_headerLen st + length xs < 4"
    | (whole) "xs \<noteq> []" "st_headerLen st < 4" "4 \<le> st_headerLen st + length xs"
    | (inside) "xs \<noteq> []" "st_headerLen st = 4" "length xs < st_left st"
    | (past) "xs \<noteq> []" "st_headerLen st = 4" "st_left st \<le> length xs"
    using hl4 by fastforce
  then show ?case
  proof cases
    case nil
    with less.prems show ?thesis by simp
  next
    case part
    then have eq: "good" "st1 = header_absorb tm xs st" "out1 = out"
      using less.prems(2) full_feed_header_part [of xs st tm out] by simp_all
    then show ?thesis
      using header_cut [OF ok part, of ys tm out] full_feed_header_part [OF part, of tm out]
      by (cases "ys = []") simp_all
  next
    case whole
    obtain st' out' where d: "header_deliver (header_absorb tm xs st) out = (st', out')" by fastforce
    have d': "header_deliver (header_absorb tm (xs @ ys) st) out = (st', out')"
      using d header_absorb_full [OF ok whole(3,2)] by simp
    define dx where "dx = drop (4 - st_headerLen st) xs"
    have f: "full_feed tm dx st' out' = (good, st1, out1)"
      using full_feed_header_whole [OF whole d] less.prems(2) by (simp add: dx_def)
    have "drop (4 - st_headerLen st) (xs @ ys) = dx @ ys" using whole(3) by (simp add: dx_def)
    then have l: "full_feed tm (xs @ ys) st out = full_feed tm (dx @ ys) st' out'"
      using full_feed_header_whole [of "xs @ ys" st tm out st' out'] whole d' by simp
    have "length dx < length xs" using whole by (cases xs) (simp_all add: dx_def)
    then show ?thesis
      using less.hyps [of dx st' out'] header_deliver_ok [OF ok whole(2,3) d] f unfolding l by simp
  next
    case inside
    obtain st' out' where c: "body_chunk xs st out = (st', out')" by fastforce
    then have "full_feed tm xs st out = (True, st', out')"
      using full_feed_body_part [OF inside(1,2)] inside(3) by simp
    then have e: "good" "st1 = st'" "out1 = out'" using less.prems(2) by simp_all
    then show ?thesis
      using body_chunk_cut [OF ok inside(2,1,3) _ c, of ys tm] \<open>full_feed tm xs st out = (True, st', out')\<close>
      by (cases "ys = []") simp_all
  next
    case past
    obtain st' out' where c: "body_chunk (take (st_left st) xs) st out = (st', out')" by fastforce
    have c': "body_chunk (take (st_left st) (xs @ ys)) st out = (st', out')" using c past(3) by simp
    define dx where "dx = drop (st_left st) xs"
    have pos: "0 < st_left st" using ok past(2) by (simp add: stream_ok_def)
    have f: "full_feed tm dx st' out' = (good, st1, out1)"
      using full_feed_body [OF past(1,2) c] less.prems(2) by (simp add: dx_def)
    have "drop (st_left st) (xs @ ys) = dx @ ys" using past(3) by (simp add: dx_def)
    then have l: "full_feed tm (xs @ ys) st out = full_feed tm (dx @ ys) st' out'"
      using full_feed_body [of "xs @ ys" st out st' out' tm] past c' by simp
    have "length dx < length xs" using past pos by (cases xs) (simp_all add: dx_def)
    moreover have "stream_ok st'"
      by (rule body_chunk_ok [OF ok _ past(2) _ c]) (use past pos in auto)
    ultimately show ?thesis using less.hyps [of dx st' out'] f unfolding l by simp
  qed
qed

text \<open>The fully captured stream as an instance of the interface.\<close>

definition chunk_feed ::
  "u64 \<Rightarrow> bytes \<Rightarrow> bool \<times> mysqlStream \<times> mysqlPacket list \<Rightarrow> bool \<times> mysqlStream \<times> mysqlPacket list" where
  "chunk_feed tm data state =
     (case state of (good, st, out) \<Rightarrow>
        if good then mysql_feed collect data (length data) tm st out else state)"

definition reader_ok :: "bool \<times> mysqlStream \<times> mysqlPacket list \<Rightarrow> bool" where
  "reader_ok state = (case state of (good, st, out) \<Rightarrow> stream_ok st)"

lemma chunk_feed_simps:
  "chunk_feed tm data (True, st, out) = full_feed tm data st out"
  "chunk_feed tm data (False, st, out) = (False, st, out)"
  by (simp_all add: chunk_feed_def mysql_feed_def)

interpretation mysql_reader: incremental "chunk_feed tm" sim reader_ok for tm
proof (unfold_locales, goal_cases)
  case (4 s xs)
  then show ?case
  proof (cases s)
    case (fields good st out)
    obtain g' st' out' where "full_feed tm xs st out = (g', st', out')" by (cases "full_feed tm xs st out")
    with 4 fields feed_loop_ok show ?thesis
      by (cases good) (auto simp: chunk_feed_simps reader_ok_def)
  qed
next
  case (6 s t xs)
  then show ?case
  proof (cases s; cases t)
    fix good st out good' st' out'
    assume "s = (good, st, out)" "t = (good', st', out')"
    with 6 show ?thesis
      by (cases good) (auto simp: chunk_feed_simps reader_ok_def intro: full_feed_cong)
  qed
next
  case (7 s xs ys)
  then show ?case
  proof (cases s)
    case (fields good st out)
    obtain g' st' out' where "full_feed tm xs st out = (g', st', out')" by (cases "full_feed tm xs st out")
    with 7 fields full_feed_append [of st tm xs out g' st' out' ys] show ?thesis
      by (cases good) (auto simp: chunk_feed_simps reader_ok_def)
  qed
next
  case (5 s)
  then show ?case by (cases s; cases "fst s") (auto simp: chunk_feed_simps)
qed (auto intro: sim_sym sim_trans)

subsection \<open>Packets written to a stream are read back\<close>

definition encode_packet :: "8 word \<times> bytes \<Rightarrow> bytes" where
  "encode_packet p = le_bytes 3 (length (snd p)) @ char_of (unat (fst p)) # snd p"

definition packet_of :: "u64 \<Rightarrow> 8 word \<times> bytes \<Rightarrow> mysqlPacket" where
  "packet_of tm p =
     \<lparr>pk_seq = fst p, pk_length = length (snd p), pk_payload = take mysqlPacketKeep (snd p),
      pk_truncated = (mysqlPacketKeep < length (snd p)), pk_at = tm\<rparr>"

definition idle :: "mysqlStream \<Rightarrow> bool" where
  "idle st \<longleftrightarrow> stream_ok st \<and> st_headerLen st = 0"

lemma seq_of_char: "(of_char (char_of (unat (q :: 8 word))) :: 8 word) = q"
proof -
  have "(of_char (char_of (unat q)) :: 8 word) = of_nat (of_char (char_of (unat q)))"
    by (simp only: of_nat_of_char)
  also have "\<dots> = of_nat (unat q)"
  proof -
    have "unat q < 2 ^ LENGTH(8)" by (rule unsigned_less)
    then show ?thesis by (simp add: take_bit_eq_mod)
  qed
  finally show ?thesis by simp
qed

lemma absorb_encoded:
  assumes "idle st" and "length p \<le> mysqlMaxPacket"
  shows "header_done (header_absorb tm (take (4 + k) (encode_packet (q, p)) @ rest) st)
    = st\<lparr>st_header := le_bytes 3 (length p) @ [char_of (unat q)], st_headerLen := 4, st_at := tm,
         st_full := (st_length st = mysqlMaxPacket), st_length := length p, st_left := length p,
         st_seq := q, st_held := [], st_delivered := False\<rparr>"
proof -
  define h where "h = le_bytes 3 (length p) @ [char_of (unat q)]"
  have h: "length h = 4" "encode_packet (q, p) = h @ p" by (simp_all add: h_def encode_packet_def)
  have "copy_at (st_header st) 0 (take (4 + k) (encode_packet (q, p)) @ rest) = h"
    using assms(1) h by (simp add: copy_at_def idle_def stream_ok_def Let_def)
  moreover have "mysqlLength h = length p"
    using assms(2) by (simp add: mysqlLength_def h_def le_nat_le_bytes_id mysqlMaxPacket_def)
  moreover have "(of_char (h ! 3) :: 8 word) = q"
    by (simp add: h_def nth_append seq_of_char)
  moreover have "min (4::nat) (length (take (4 + k) (encode_packet (q, p)) @ rest)) = 4"
    using h by simp
  ultimately show ?thesis
    using assms(1) by (simp add: header_done_def header_absorb_def idle_def h_def [symmetric])
qed

lemma full_feed_packet:
  assumes st: "idle st" and len: "length p \<le> mysqlMaxPacket"
  obtains st' where "idle st'"
    and "\<And>rest. full_feed tm (encode_packet (q, p) @ rest) st out = full_feed tm rest st' (out @ [packet_of tm (q, p)])"
proof -
  define st2 where "st2 = st\<lparr>st_header := le_bytes 3 (length p) @ [char_of (unat q)], st_headerLen := 4, st_at := tm,
         st_full := (st_length st = mysqlMaxPacket), st_length := length p, st_left := length p,
         st_seq := q, st_held := [], st_delivered := False\<rparr>"
  have hd: "header_done (header_absorb tm (encode_packet (q, p) @ rest) st) = st2" for rest
    using absorb_encoded [OF assms, of tm "length p" q rest] by (simp add: st2_def encode_packet_def)
  have hl: "st_headerLen st = 0" "length (st_header st) = 4" using st by (simp_all add: idle_def stream_ok_def)
  have len4: "length (encode_packet (q, p) @ rest) = 4 + length p + length rest" for rest
    by (simp add: encode_packet_def)
  have dropped: "drop 4 (encode_packet (q, p) @ rest) = p @ rest" for rest
  proof -
    have "encode_packet (q, p) @ rest = (le_bytes 3 (length p) @ [char_of (unat q)]) @ (p @ rest)"
      by (simp add: encode_packet_def)
    moreover have "length (le_bytes 3 (length p) @ [char_of (unat q)]) = 4" by simp
    ultimately show ?thesis by (metis append_eq_conv_conj)
  qed
  show thesis
  proof (cases "p = []")
    case True
    have hdd: "header_deliver (header_absorb tm (encode_packet (q, p) @ rest) st) out
        = (st2\<lparr>st_headerLen := 0\<rparr>, out @ [packet_of tm (q, p)])" for rest
      unfolding header_deliver_def hd Let_def using True by (simp add: st2_def packet_of_def)
    have "full_feed tm (encode_packet (q, p) @ rest) st out
        = full_feed tm rest (st2\<lparr>st_headerLen := 0\<rparr>) (out @ [packet_of tm (q, p)])" for rest
      using full_feed_header_whole [OF _ _ _ hdd [of rest]] dropped [of rest] len4 [of rest] True hl by fastforce
    moreover have "idle (st2\<lparr>st_headerLen := 0\<rparr>)" by (simp add: idle_def stream_ok_def st2_def)
    ultimately show thesis by (rule that [rotated])
  next
    case False
    have hdd: "header_deliver (header_absorb tm (encode_packet (q, p) @ rest) st) out = (st2, out)" for rest
      unfolding header_deliver_def hd Let_def using False by (simp add: st2_def)
    define want where "want = min (length p) mysqlPacketKeep"
    obtain payload held where bp: "body_payload (length p) p st2 = (payload, held)" by fastforce
    have pl: "payload = take want p"
      using body_payload_parts(1) [of "length p" p st2] bp unfolding take_min_length
      by (simp add: st2_def want_def)
    have tw: "take want p = take mysqlPacketKeep p" unfolding want_def by (rule take_min_length)
    define st3 where "st3 = body_advance (length p) (st2\<lparr>st_held := held, st_delivered := True\<rparr>)"
    have chunk: "body_chunk (take (st_left st2) (p @ rest)) st2 out = (st3, out @ [packet_of tm (q, p)])" for rest
      using bp pl by (simp add: body_chunk_def Let_def st3_def packet_of_def st2_def tw [symmetric] want_def min_def)
    have "full_feed tm (encode_packet (q, p) @ rest) st out = full_feed tm (p @ rest) st2 out" for rest
      using full_feed_header_whole [OF _ _ _ hdd [of rest]] dropped [of rest] len4 [of rest] hl by fastforce
    moreover have "full_feed tm (p @ rest) st2 out = full_feed tm rest st3 (out @ [packet_of tm (q, p)])" for rest
      using full_feed_body [OF _ _ chunk [of rest]] False by (simp add: st2_def)
    moreover have "idle st3" by (simp add: idle_def stream_ok_def st3_def st2_def body_advance_def)
    ultimately show thesis by (intro that [of st3]) simp_all
  qed
qed

lemma full_feed_packets:
  "idle st \<Longrightarrow> list_all (\<lambda>p. length (snd p) \<le> mysqlMaxPacket) ps \<Longrightarrow>
   \<exists>st'. idle st' \<and> full_feed tm (concat (map encode_packet ps)) st out = (True, st', out @ map (packet_of tm) ps)"
proof (induction ps arbitrary: st out)
  case (Cons p ps)
  obtain q m where p: "p = (q, m)" by (cases p)
  with Cons.prems have "length m \<le> mysqlMaxPacket" by simp
  then obtain st1 where st1: "idle st1"
    and eq: "\<And>rest. full_feed tm (encode_packet (q, m) @ rest) st out = full_feed tm rest st1 (out @ [packet_of tm (q, m)])"
    using full_feed_packet [OF Cons.prems(1)] by blast
  have "\<exists>st'. idle st' \<and> full_feed tm (concat (map encode_packet ps)) st1 (out @ [packet_of tm (q, m)])
      = (True, st', (out @ [packet_of tm (q, m)]) @ map (packet_of tm) ps)"
    by (rule Cons.IH [OF st1]) (use Cons.prems(2) in simp)
  then obtain st' where st': "idle st'"
    "full_feed tm (concat (map encode_packet ps)) st1 (out @ [packet_of tm (q, m)])
      = (True, st', (out @ [packet_of tm (q, m)]) @ map (packet_of tm) ps)"
    by blast
  have "concat (map encode_packet (p # ps)) = encode_packet (q, m) @ concat (map encode_packet ps)"
    by (simp add: p)
  then have "full_feed tm (concat (map encode_packet (p # ps))) st out
      = (True, st', (out @ [packet_of tm (q, m)]) @ map (packet_of tm) ps)"
    using eq st'(2) by simp
  with st'(1) show ?case by (auto simp: p)
qed auto

subsection \<open>Properties\<close>

text \<open>C28. Framing round trip: however the bytes of a sequence of packets are cut into reads, the
  stream delivers exactly one packet for each, in their order, with its sequence number, its length
  and at most the first 4096 bytes of its payload, marked as truncated when the payload is longer,
  and ends at a packet boundary.\<close>

theorem mysql_packets_any_segmentation:
  assumes "list_all (\<lambda>p. length (snd p) \<le> mysqlMaxPacket) ps"
    and "concat chunks = concat (map encode_packet ps)"
  shows "\<exists>st. fold (chunk_feed tm) chunks (True, stream0, []) = (True, st, map (packet_of tm) ps) \<and>
    st_headerLen st = 0 \<and> \<not> stream_waiting st"
proof -
  have "idle stream0" by (simp add: idle_def) (simp add: stream0_def)
  then obtain st' where st': "idle st'"
    "full_feed tm (concat (map encode_packet ps)) stream0 [] = (True, st', map (packet_of tm) ps)"
    using full_feed_packets [OF _ assms(1), of stream0 tm "[]"] by auto
  obtain g st out where f: "fold (chunk_feed tm) chunks (True, stream0, []) = (g, st, out)"
    by (cases "fold (chunk_feed tm) chunks (True, stream0, [])")
  have "sim (fold (chunk_feed tm) chunks (True, stream0, [])) (chunk_feed tm (concat chunks) (True, stream0, []))"
    by (rule mysql_reader.fold_feed_concat) (simp add: reader_ok_def)
  then have s: "sim (g, st, out) (True, st', map (packet_of tm) ps)"
    using st'(2) by (simp add: f assms(2) chunk_feed_simps)
  then have "settled st = settled st'" by simp
  then have "st_headerLen st = st_headerLen st'"
    by (auto simp: settled_def split: if_splits dest: arg_cong [of _ _ st_headerLen])
  then show ?thesis using s st'(1) f by (auto simp: idle_def stream_waiting_def)
qed

theorem mysql_packets_any_segmentation_witness:
  "\<exists>st. fold (chunk_feed 7) [[CHR 0x02], [CHR 0x00, CHR 0x00, CHR 0x01, CHR ''a''], ''b'' @ replicate 4 (CHR 0x00)]
      (True, stream0, []) = (True, st, map (packet_of 7) [(1, ''ab''), (0, [])]) \<and>
    st_headerLen st = 0 \<and> \<not> stream_waiting st"
proof (rule mysql_packets_any_segmentation)
  show "list_all (\<lambda>p. length (snd p) \<le> mysqlMaxPacket) [(1 :: 8 word, ''ab''), (0, [])]"
    by (simp add: mysqlMaxPacket_def)
  show "concat [[CHR 0x02], [CHR 0x00, CHR 0x00, CHR 0x01, CHR ''a''], ''b'' @ replicate 4 (CHR 0x00)]
      = concat (map encode_packet [(1, ''ab''), (0, [])])"
    by code_simp
qed

text \<open>A packet longer than the captured bytes does not lose the boundary: with only the first
  \<open>k\<close> payload bytes of a packet captured, the callback gets those bytes (4096 at most), marked as
  truncated when bytes are missing, and the stream stands at the next packet.\<close>

theorem mysql_boundary_past_capture:
  assumes "idle st" and "p \<noteq> []" and "length p \<le> mysqlMaxPacket" and "k \<le> length p"
    and "deliver (st_length st = mysqlMaxPacket)
      \<lparr>pk_seq = q, pk_length = length p, pk_payload = take (min k mysqlPacketKeep) p,
       pk_truncated = (min k mysqlPacketKeep < length p), pk_at = tm\<rparr> s = (True, s')"
  shows "\<exists>st'. mysql_feed deliver (take (4 + k) (encode_packet (q, p))) (4 + length p) tm st s = (True, st', s') \<and> idle st'"
proof -
  define data where "data = take (4 + k) (encode_packet (q, p))"
  define st2 where "st2 = header_done (header_absorb tm data st)"
  have st2: "st2 = st\<lparr>st_header := le_bytes 3 (length p) @ [char_of (unat q)], st_headerLen := 4, st_at := tm,
         st_full := (st_length st = mysqlMaxPacket), st_length := length p, st_left := length p,
         st_seq := q, st_held := [], st_delivered := False\<rparr>"
    using absorb_encoded [OF assms(1,3), of tm k q "[]"] by (simp add: st2_def data_def)
  have hl: "st_headerLen st = 0" "length (st_header st) = 4" using assms(1) by (simp_all add: idle_def stream_ok_def)
  have d: "length data = 4 + k" "drop 4 data = take k p" "data \<noteq> []"
    using assms(4) by (auto simp: data_def encode_packet_def)
  have ab: "st_headerLen (header_absorb tm data st) = 4" using hl d by (simp add: header_absorb_def)
  have pos: "0 < length p" using assms(2) by simp
  have one: "feed_step deliver tm data (4 + length p) st s = Inr (take k p, length p, st2, s)"
    using hl d ab pos unfolding feed_step_def feed_header_def st2_def [symmetric] Let_def by (simp add: st2)
  define want where "want = min (length p) mysqlPacketKeep"
  have pay: "fst (body_payload k (take k p) st2) = take (min k mysqlPacketKeep) p"
    using body_payload_parts(1) [of k "take k p" st2] assms(4) by (simp add: st2 min.commute min.left_commute)
  obtain held where bp: "body_payload k (take k p) st2 = (take (min k mysqlPacketKeep) p, held)"
    using pay by (cases "body_payload k (take k p) st2") simp
  have len: "length (take (min k mysqlPacketKeep) p) = min k mysqlPacketKeep" using assms(4) by simp
  have due: "min k mysqlPacketKeep = min (length p) mysqlPacketKeep \<or> k < length p" using assms(4) by auto
  have n: "min (length p) (length p) = length p" "min (length p) (length (take k p)) = k" using assms(4) by simp_all
  define st3 where "st3 = body_advance (length p) (st2\<lparr>st_held := held, st_delivered := True\<rparr>)"
  have f: "st_headerLen st2 = 4" "st_delivered st2 = False" "st_left st2 = length p" "st_length st2 = length p"
    "st_seq st2 = q" "st_full st2 = (st_length st = mysqlMaxPacket)" "st_at st2 = tm" by (simp_all add: st2)
  have two: "feed_step deliver tm (take k p) (length p) st2 s = Inr ([], 0, st3, s')"
    unfolding feed_step_def feed_body_def Let_def f n bp using due len assms(5)
    by (simp add: st3_def)
  have size: "max (4 + length p) (length data) = 4 + length p" using d(1) assms(4) by simp
  have "feed_loop deliver tm data (4 + length p) st s = feed_loop deliver tm (take k p) (length p) st2 s"
    by (subst feed_loop.simps) (simp add: one)
  also have "\<dots> = (True, st3, s')"
    by (subst feed_loop.simps) (use two pos in simp)
  finally have "mysql_feed deliver data (4 + length p) tm st s = (True, st3, s')"
    by (simp only: mysql_feed_def size)
  moreover have "idle st3" by (simp add: idle_def stream_ok_def st3_def st2 body_advance_def)
  ultimately show ?thesis by (auto simp: data_def)
qed

theorem mysql_boundary_past_capture_witness:
  "\<exists>st'. mysql_feed collect (take (4 + 1) (encode_packet (0, ''abc''))) (4 + length ''abc'') 9 stream0 [] =
     (True, st', [\<lparr>pk_seq = 0, pk_length = 3, pk_payload = ''a'', pk_truncated = True, pk_at = 9\<rparr>]) \<and> idle st'"
proof (rule mysql_boundary_past_capture)
  show "idle stream0" by (simp add: idle_def) (simp add: stream0_def)
qed (simp_all add: mysqlMaxPacket_def collect_def mysqlPacketKeep_def)

text \<open>Memory and progress: after any record, whatever its bytes, its size and the callback, a
  stream holds fewer than 4096 bytes while it waits for a packet, and inside a packet at least
  one byte is left, so every further byte of the direction makes progress.\<close>

theorem mysql_stream_bounded:
  assumes "stream_ok st" and "mysql_feed deliver data n tm st s = (good, st', s')"
  shows "stream_ok st' \<and>
    (stream_waiting st' \<longrightarrow> st_headerLen st' < 4 \<or> length (st_held st') < 4096 \<and> 0 < st_left st') \<and>
    (\<not> good \<longrightarrow> st' = stream0)"
proof -
  have ok: "stream_ok st'"
    using feed_loop_ok [OF assms(1)] assms(2) by (simp add: mysql_feed_def)
  moreover have "st' = stream0" if "\<not> good"
    using feed_loop_lost [of deliver tm data "max n (length data)" st s st' s'] assms(2) that
    by (simp add: mysql_feed_def)
  ultimately show ?thesis
    by (auto simp: stream_ok_def stream_waiting_def mysqlPacketKeep_def)
qed

theorem mysql_stream_bounded_witness:
  "\<exists>st' s'. mysql_feed collect ''ab'' 6 1 stream0 [] = (False, st', s') \<and> stream_ok st' \<and> st' = stream0"
proof -
  obtain good st' s' where f: "mysql_feed collect ''ab'' 6 1 stream0 [] = (good, st', s')"
    by (cases "mysql_feed collect ''ab'' 6 1 stream0 []")
  have "\<not> good"
    using f by (auto simp: mysql_feed_def feed_loop.simps feed_step_def feed_header_def header_absorb_def stream0_def Let_def)
  with f mysql_stream_bounded [OF stream_ok_reset f] show ?thesis by auto
qed

end
