(* ===== verification/MySQLText.thy ===== *)
theory MySQLText
  imports TraceText
begin

text \<open>
  SQL text of internal/edc/trace_mysql.go: \<open>mysqlLiteralEnd\<close>, \<open>mysqlCommentEnd\<close>,
  \<open>mysqlBacktickEnd\<close>, \<open>mysqlMaskSQL\<close> (hides quoted literals), \<open>mysqlIdentifierByte\<close> and
  \<open>traceMySQLShape\<close> (the SQL without its values). The code walks an index \<open>i\<close> over the text;
  the model works on the suffix \<open>sql[i:]\<close>, and an end position becomes the number of bytes from
  \<open>i\<close> to it. The scanners below are never called on an empty suffix.
\<close>

definition quote_byte :: "byte \<Rightarrow> bool" where
  "quote_byte b \<longleftrightarrow> b = CHR 0x27 \<or> b = CHR 0x22"

subsection \<open>Scanners\<close>

text \<open>The loop of \<open>mysqlLiteralEnd\<close> after the opening quote: bytes passed, and closed or not.\<close>

fun literal_scan :: "byte \<Rightarrow> bytes \<Rightarrow> nat \<times> bool" where
  "literal_scan q [] = (0, False)"
| "literal_scan q (c # cs) =
     (if c = CHR 0x5C then
        (case cs of [] \<Rightarrow> (1, False) | _ # ds \<Rightarrow> (case literal_scan q ds of (n, closed) \<Rightarrow> (n + 2, closed)))
      else if c = q then
        (case cs of
           [] \<Rightarrow> (1, True)
         | d # ds \<Rightarrow>
             if d = q then (case literal_scan q ds of (n, closed) \<Rightarrow> (n + 2, closed)) else (1, True))
      else (case literal_scan q cs of (n, closed) \<Rightarrow> (n + 1, closed)))"

definition mysqlLiteralEnd :: "bytes \<Rightarrow> nat \<times> bool" where
  "mysqlLiteralEnd rest =
     (case rest of [] \<Rightarrow> (0, False) | q # cs \<Rightarrow> (case literal_scan q cs of (n, closed) \<Rightarrow> (n + 1, closed)))"

fun backtick_scan :: "bytes \<Rightarrow> nat" where
  "backtick_scan [] = 0"
| "backtick_scan (c # cs) =
     (if c = CHR 0x60 then (case cs of [] \<Rightarrow> 1 | d # ds \<Rightarrow> if d = CHR 0x60 then backtick_scan ds + 2 else 1)
      else backtick_scan cs + 1)"

definition mysqlBacktickEnd :: "bytes \<Rightarrow> nat" where
  "mysqlBacktickEnd rest = (case rest of [] \<Rightarrow> 0 | _ # cs \<Rightarrow> backtick_scan cs + 1)"

text \<open>\<open>bytes.Index(text, "*/")\<close>.\<close>

fun index_close :: "bytes \<Rightarrow> nat option" where
  "index_close [] = None"
| "index_close (c # cs) =
     (if c = CHR ''*'' \<and> cs \<noteq> [] \<and> hd cs = CHR ''/'' then Some 0 else map_option Suc (index_close cs))"

definition line_end :: "bytes \<Rightarrow> nat" where
  "line_end rest = (case index_byte rest (CHR 0x0A) of Some n \<Rightarrow> n | None \<Rightarrow> length rest)"

definition line_comment :: "bytes \<Rightarrow> bool" where
  "line_comment rest \<longleftrightarrow>
     rest \<noteq> [] \<and>
     (rest ! 0 = CHR 0x23 \<or>
      rest ! 0 = CHR ''-'' \<and> 1 < length rest \<and> rest ! 1 = CHR ''-'' \<and>
        (length rest = 2 \<or> bval (rest ! 2) \<le> 32))"

definition block_comment :: "bytes \<Rightarrow> bool" where
  "block_comment rest \<longleftrightarrow>
     1 < length rest \<and> rest ! 0 = CHR ''/'' \<and> rest ! 1 = CHR ''*'' \<and>
     \<not> (2 < length rest \<and> (rest ! 2 = CHR ''!'' \<or> rest ! 2 = CHR ''+''))"

text \<open>0 when no comment starts here.\<close>

definition mysqlCommentEnd :: "bytes \<Rightarrow> nat" where
  "mysqlCommentEnd rest =
     (if line_comment rest then line_end rest
      else if block_comment rest then
        (case index_close (drop 2 rest) of Some n \<Rightarrow> 2 + n + 2 | None \<Rightarrow> length rest)
      else 0)"

lemma literal_scan_le: "fst (literal_scan q cs) \<le> length cs"
proof (induction q cs rule: literal_scan.induct)
  case (2 q c cs)
  show ?case
  proof (cases cs)
    case Nil
    then show ?thesis by simp
  next
    case (Cons d ds)
    obtain n m where "literal_scan q ds = (n, m)" "fst (literal_scan q cs) \<le> length cs \<or> c = CHR 0x5C \<or> c = q"
      using "2.IH"(3) by (cases "literal_scan q ds") auto
    with 2 Cons show ?thesis by (cases "literal_scan q cs") auto
  qed
qed simp

lemma backtick_scan_le: "backtick_scan cs \<le> length cs"
  by (induction cs rule: backtick_scan.induct) (auto split: list.splits)

lemma mysqlLiteralEnd_bounds: "rest \<noteq> [] \<Longrightarrow> 0 < fst (mysqlLiteralEnd rest)"
  "fst (mysqlLiteralEnd rest) \<le> length rest"
proof -
  show "rest \<noteq> [] \<Longrightarrow> 0 < fst (mysqlLiteralEnd rest)"
    by (cases rest) (simp_all add: mysqlLiteralEnd_def split: prod.split)
  show "fst (mysqlLiteralEnd rest) \<le> length rest"
  proof (cases rest)
    case (Cons q cs)
    then show ?thesis using literal_scan_le [of q cs] by (cases "literal_scan q cs") (simp add: mysqlLiteralEnd_def)
  qed (simp add: mysqlLiteralEnd_def)
qed

lemma mysqlBacktickEnd_bounds: "rest \<noteq> [] \<Longrightarrow> 0 < mysqlBacktickEnd rest"
  "mysqlBacktickEnd rest \<le> length rest"
  using backtick_scan_le by (auto simp: mysqlBacktickEnd_def split: list.splits)

lemma index_close_Some: "index_close xs = Some n \<Longrightarrow> n + 2 \<le> length xs \<and> xs ! n = CHR ''*'' \<and> xs ! Suc n = CHR ''/''"
proof (induction xs arbitrary: n)
  case (Cons c cs)
  then show ?case by (cases cs) (auto split: if_splits)
qed simp

subsection \<open>Masking literals\<close>

text \<open>
  \<open>mysqlMaskSQL\<close>. A literal becomes its opening quote, a question mark and, when it is closed,
  its closing quote; everything else is copied.
\<close>

function mysqlMaskSQL :: "bytes \<Rightarrow> bytes" where
  "mysqlMaskSQL [] = []"
| "mysqlMaskSQL (c # cs) =
     (if quote_byte c then
        (case mysqlLiteralEnd (c # cs) of (n, closed) \<Rightarrow>
           c # CHR ''?'' # (if closed then [c] else []) @ mysqlMaskSQL (drop n (c # cs)))
      else if c = CHR 0x60 then
        take (mysqlBacktickEnd (c # cs)) (c # cs) @ mysqlMaskSQL (drop (mysqlBacktickEnd (c # cs)) (c # cs))
      else if 0 < mysqlCommentEnd (c # cs) then
        take (mysqlCommentEnd (c # cs)) (c # cs) @ mysqlMaskSQL (drop (mysqlCommentEnd (c # cs)) (c # cs))
      else c # mysqlMaskSQL cs)"
  by pat_completeness auto
termination
proof (relation "measure length", goal_cases)
  case (2 c cs x y)
  then have "0 < x" using mysqlLiteralEnd_bounds(1) [of "c # cs"] by (metis fst_conv list.distinct(2))
  then show ?case by (simp add: less_Suc_eq_le)
next
  case (3 c cs)
  then show ?case using mysqlBacktickEnd_bounds(1) [of "c # cs"] by (simp add: less_Suc_eq_le)
next
  case (4 c cs)
  then show ?case by (simp add: less_Suc_eq_le)
qed simp_all

declare mysqlMaskSQL.simps(2) [simp del]

subsection \<open>The shape of a statement\<close>

definition mysqlIdentifierByte :: "byte \<Rightarrow> bool" where
  "mysqlIdentifierByte v \<longleftrightarrow>
     v = CHR ''_'' \<or> v = CHR ''$'' \<or> 128 \<le> bval v \<or> is_digit v \<or>
     (97 \<le> bval v \<and> bval v \<le> 122) \<or> (65 \<le> bval v \<and> bval v \<le> 90)"

definition shape_space :: "byte \<Rightarrow> bool" where
  "shape_space b \<longleftrightarrow> b = CHR '' '' \<or> b = CHR 0x09 \<or> b = CHR 0x0A \<or> b = CHR 0x0D"

definition digits_at :: "bytes \<Rightarrow> nat \<Rightarrow> nat" where
  "digits_at rest i = length (takeWhile is_digit (drop i rest))"

text \<open>The end of a number: digits, a fraction, an exponent.\<close>

definition fraction_end :: "bytes \<Rightarrow> nat \<Rightarrow> nat" where
  "fraction_end rest e =
     (if e + 1 < length rest \<and> rest ! e = CHR ''.'' \<and> is_digit (rest ! (e + 1))
      then e + 1 + digits_at rest (e + 1) else e)"

definition exponent_end :: "bytes \<Rightarrow> nat \<Rightarrow> nat" where
  "exponent_end rest e =
     (if e + 1 < length rest \<and> (rest ! e = CHR ''e'' \<or> rest ! e = CHR ''E'') then
        (let x = (if rest ! (e + 1) = CHR ''+'' \<or> rest ! (e + 1) = CHR ''-'' then e + 2 else e + 1) in
         if x < length rest \<and> is_digit (rest ! x) then x + digits_at rest x else e)
      else e)"

definition number_end :: "bytes \<Rightarrow> nat" where
  "number_end rest = exponent_end rest (fraction_end rest (digits_at rest 0))"

text \<open>One token that is not white space: its length and what the shape shows of it.\<close>

definition shape_token :: "bytes \<Rightarrow> nat \<times> bytes" where
  "shape_token rest =
     (if quote_byte (hd rest) then (fst (mysqlLiteralEnd rest), [CHR ''?''])
      else if hd rest = CHR 0x60 then (mysqlBacktickEnd rest, take (mysqlBacktickEnd rest) rest)
      else if is_digit (hd rest) then
        (let e = number_end rest in
         if e < length rest \<and> mysqlIdentifierByte (rest ! e) then
           (let n = e + length (takeWhile mysqlIdentifierByte (drop e rest)) in (n, take n rest))
         else (e, [CHR ''?'']))
      else if mysqlIdentifierByte (hd rest) then
        (let n = length (takeWhile mysqlIdentifierByte rest) in (n, take n rest))
      else if 0 < mysqlCommentEnd rest then (mysqlCommentEnd rest, take (mysqlCommentEnd rest) rest)
      else (1, [hd rest]))"

lemma digits_at_le: "i \<le> length rest \<Longrightarrow> i + digits_at rest i \<le> length rest"
  using length_takeWhile_le [of is_digit "drop i rest"] by (simp add: digits_at_def)

lemma fraction_end_bounds: "e \<le> length rest \<Longrightarrow> e \<le> fraction_end rest e \<and> fraction_end rest e \<le> length rest"
  using digits_at_le [of "e + 1" rest] by (simp add: fraction_end_def)

lemma exponent_end_bounds: "e \<le> length rest \<Longrightarrow> e \<le> exponent_end rest e \<and> exponent_end rest e \<le> length rest"
  using digits_at_le [of "e + 1" rest] digits_at_le [of "e + 2" rest] by (simp add: exponent_end_def Let_def)

lemma number_end_bounds: "digits_at rest 0 \<le> number_end rest \<and> number_end rest \<le> length rest"
proof -
  have "digits_at rest 0 \<le> length rest" using digits_at_le [of 0 rest] by simp
  then show ?thesis
    using fraction_end_bounds [of "digits_at rest 0" rest] exponent_end_bounds [of "fraction_end rest (digits_at rest 0)" rest]
    unfolding number_end_def by linarith
qed

lemma shape_token_progress: "rest \<noteq> [] \<Longrightarrow> 0 < fst (shape_token rest)"
proof -
  assume ne: "rest \<noteq> []"
  then obtain c cs where rest: "rest = c # cs" by (cases rest) auto
  have "0 < digits_at rest 0" if "is_digit c" using that by (simp add: digits_at_def rest)
  then have "0 < number_end rest" if "is_digit c" using that number_end_bounds [of rest] by linarith
  then show ?thesis
    using mysqlLiteralEnd_bounds(1) [OF ne] mysqlBacktickEnd_bounds(1) [OF ne]
    by (auto simp: shape_token_def Let_def rest)
qed

function shape_loop :: "bytes \<Rightarrow> bool \<Rightarrow> bytes \<Rightarrow> bytes" where
  "shape_loop [] space out = out"
| "shape_loop (c # cs) space out =
     (if shape_space c then shape_loop cs True out
      else
        (case shape_token (c # cs) of (n, shown) \<Rightarrow>
           shape_loop (drop n (c # cs)) False ((if space \<and> out \<noteq> [] then out @ '' '' else out) @ shown)))"
  by pat_completeness auto
termination
proof (relation "measure (\<lambda>(rest, _). length rest)", goal_cases)
  case (3 c cs space out n shown)
  then have "0 < n" using shape_token_progress [of "c # cs"] by (metis fst_conv list.distinct(2))
  then show ?case by (simp add: less_Suc_eq_le)
qed simp_all

declare shape_loop.simps(2) [simp del]

definition mysqlShapeLimit :: nat where
  "mysqlShapeLimit = 256"

definition traceMySQLShape :: "bytes \<Rightarrow> bytes" where
  "traceMySQLShape sql =
     (let shape = shape_loop sql False [] in
      if mysqlShapeLimit < length shape then traceTrimText shape mysqlShapeLimit @ ''...'' else shape)"

subsection \<open>A text and its masked form look the same up to the first quote\<close>

definition same_view :: "bytes \<Rightarrow> bytes \<Rightarrow> bool" where
  "same_view s t \<longleftrightarrow>
     s = t \<or> (\<exists>v q r r'. quote_byte q \<and> list_all (\<lambda>b. \<not> quote_byte b) v \<and> s = v @ q # r \<and> t = v @ q # r')"

definition clear_to :: "bytes \<Rightarrow> nat \<Rightarrow> bool" where
  "clear_to s i \<longleftrightarrow> (\<forall>j < i. j < length s \<longrightarrow> \<not> quote_byte (s ! j))"

lemma same_view_refl [simp]: "same_view s s"
  by (simp add: same_view_def)

lemma same_view_append: "same_view s t \<Longrightarrow> same_view (p @ s) (p @ t)"
proof -
  assume "same_view s t"
  then consider "s = t" | v q r r' where "quote_byte q" "list_all (\<lambda>b. \<not> quote_byte b) v" "s = v @ q # r" "t = v @ q # r'"
    by (auto simp: same_view_def)
  then show ?thesis
  proof cases
    case 2
    show ?thesis
    proof (cases "list_all (\<lambda>b. \<not> quote_byte b) p")
      case True
      then have "list_all (\<lambda>b. \<not> quote_byte b) (p @ v)" using 2(2) by simp
      moreover have "p @ s = (p @ v) @ q # r" "p @ t = (p @ v) @ q # r'" using 2 by simp_all
      ultimately show ?thesis unfolding same_view_def using 2(1) by blast
    next
      case False
      then obtain a x b where p: "p = a @ x # b" "list_all (\<lambda>b. \<not> quote_byte b) a" "quote_byte x"
        using split_list_first_prop [of p quote_byte] by (auto simp: list_all_iff)
      then have "p @ s = a @ x # (b @ s)" "p @ t = a @ x # (b @ t)" by simp_all
      then show ?thesis unfolding same_view_def using p by blast
    qed
  qed simp
qed

lemma mask_same_view: "same_view s (mysqlMaskSQL s)"
proof (induction s rule: mysqlMaskSQL.induct)
  case (2 c cs)
  show ?case
  proof (cases "quote_byte c")
    case True
    obtain n m where "mysqlLiteralEnd (c # cs) = (n, m)" by fastforce
    then obtain t where t: "mysqlMaskSQL (c # cs) = [] @ c # t" using True by (simp add: mysqlMaskSQL.simps)
    have "c # cs = [] @ c # cs" "list_all (\<lambda>b. \<not> quote_byte b) []" by simp_all
    with t True show ?thesis unfolding same_view_def by blast
  next
    case nq: False
    consider "c = CHR 0x60" | "c \<noteq> CHR 0x60" "0 < mysqlCommentEnd (c # cs)" | "c \<noteq> CHR 0x60" "\<not> 0 < mysqlCommentEnd (c # cs)"
      by blast
    then show ?thesis
    proof cases
      case 1
      let ?n = "mysqlBacktickEnd (c # cs)"
      have "same_view (take ?n (c # cs) @ drop ?n (c # cs)) (take ?n (c # cs) @ mysqlMaskSQL (drop ?n (c # cs)))"
        by (rule same_view_append) (rule "2.IH"(2) [OF nq 1])
      with nq 1 show ?thesis by (simp add: mysqlMaskSQL.simps)
    next
      case 2
      let ?n = "mysqlCommentEnd (c # cs)"
      have "same_view (take ?n (c # cs) @ drop ?n (c # cs)) (take ?n (c # cs) @ mysqlMaskSQL (drop ?n (c # cs)))"
        by (rule same_view_append) (rule "2.IH"(3) [OF nq 2])
      with nq 2 show ?thesis by (simp add: mysqlMaskSQL.simps)
    next
      case 3
      have "same_view ([c] @ cs) ([c] @ mysqlMaskSQL cs)"
        by (rule same_view_append) (rule "2.IH"(4) [OF nq 3])
      with nq 3 show ?thesis by (simp add: mysqlMaskSQL.simps)
    qed
  qed
qed simp

lemma clear_to_before:
  assumes "clear_to s i" and "s = v @ q # r" and "quote_byte q"
  shows "i \<le> length v"
proof (rule ccontr)
  assume "\<not> i \<le> length v"
  then have "length v < i" "length v < length s" "s ! length v = q" using assms(2) by simp_all
  then show False using assms(1,3) unfolding clear_to_def by blast
qed

lemma same_view_nth:
  assumes "same_view s t" and "clear_to s i"
  shows "(i < length s) = (i < length t)" and "i < length s \<Longrightarrow> s ! i = t ! i"
proof -
  have *: "(i < length s) = (i < length t) \<and> (i < length s \<longrightarrow> s ! i = t ! i)"
    using assms(1)
    unfolding same_view_def
  proof (elim disjE exE conjE)
    fix v q r r'
    assume h: "quote_byte q" "s = v @ q # r" "t = v @ q # r'"
    have "i \<le> length v" using h by (intro clear_to_before [OF assms(2)])
    then show ?thesis using h by (simp add: nth_append)
  qed simp
  then show "(i < length s) = (i < length t)" "i < length s \<Longrightarrow> s ! i = t ! i" by simp_all
qed

lemma same_view_drop:
  assumes "same_view s t" and "clear_to s i"
  shows "same_view (drop i s) (drop i t)"
  using assms(1)
  unfolding same_view_def [of s t]
proof (elim disjE exE conjE)
  fix v q r r'
  assume h: "quote_byte q" "list_all (\<lambda>b. \<not> quote_byte b) v" "s = v @ q # r" "t = v @ q # r'"
  have "i \<le> length v" using h by (intro clear_to_before [OF assms(2)])
  then have "drop i s = drop i v @ q # r" "drop i t = drop i v @ q # r'" using h by simp_all
  then show ?thesis unfolding same_view_def using h(1) list_all_drop [OF h(2)] by blast
qed simp

lemma same_view_takeWhile:
  assumes "same_view s t" and "\<And>b. P b \<Longrightarrow> \<not> quote_byte b"
  shows "takeWhile P s = takeWhile P t"
  using assms unfolding same_view_def by (auto simp: takeWhile_append takeWhile_tail)

lemma clear_to_0 [simp]: "clear_to s 0"
  by (simp add: clear_to_def)

lemma clear_to_Suc: "clear_to s i \<Longrightarrow> (i < length s \<Longrightarrow> \<not> quote_byte (s ! i)) \<Longrightarrow> clear_to s (Suc i)"
  by (auto simp: clear_to_def less_Suc_eq)

lemma digit_not_quote: "is_digit b \<Longrightarrow> \<not> quote_byte b"
  by (auto simp: is_digit_def quote_byte_def)

lemma identifier_not_quote: "mysqlIdentifierByte b \<Longrightarrow> \<not> quote_byte b"
  by (auto simp: mysqlIdentifierByte_def is_digit_def quote_byte_def)

lemma clear_to_takeWhile:
  assumes "clear_to s i" and "\<And>b. P b \<Longrightarrow> \<not> quote_byte b"
  shows "clear_to s (i + length (takeWhile P (drop i s)))"
  unfolding clear_to_def
proof (intro allI impI)
  fix j assume j: "j < i + length (takeWhile P (drop i s))" "j < length s"
  show "\<not> quote_byte (s ! j)"
  proof (cases "j < i")
    case True
    with assms(1) j show ?thesis by (auto simp: clear_to_def)
  next
    case False
    then have "j - i < length (takeWhile P (drop i s))" using j by simp
    then have "P (takeWhile P (drop i s) ! (j - i))" by (meson nth_mem set_takeWhileD)
    moreover have "takeWhile P (drop i s) ! (j - i) = s ! j"
      using False j \<open>j - i < length (takeWhile P (drop i s))\<close> by (simp add: takeWhile_nth)
    ultimately show ?thesis using assms(2) by simp
  qed
qed

lemma view_digits:
  assumes "same_view s t" and "clear_to s i"
  shows "digits_at t i = digits_at s i" and "clear_to s (i + digits_at s i)"
  using same_view_takeWhile [OF same_view_drop [OF assms], of is_digit] digit_not_quote
    clear_to_takeWhile [OF assms(2), of is_digit]
  by (simp_all add: digits_at_def)

lemma view_fraction:
  assumes "same_view s t" and "clear_to s e"
  shows "fraction_end t e = fraction_end s e" and "clear_to s (fraction_end s e)"
proof -
  have "fraction_end t e = fraction_end s e \<and> clear_to s (fraction_end s e)"
  proof (cases "e < length s \<and> s ! e = CHR ''.''")
    case True
    then have c: "clear_to s (Suc e)" using assms(2) by (intro clear_to_Suc) (simp_all add: quote_byte_def)
    show ?thesis
      using True same_view_nth [OF assms] same_view_nth [OF assms(1) c] view_digits [OF assms(1) c] assms(2)
      by (auto simp: fraction_end_def)
  next
    case False
    then show ?thesis using same_view_nth [OF assms] assms(2) by (auto simp: fraction_end_def)
  qed
  then show "fraction_end t e = fraction_end s e" "clear_to s (fraction_end s e)" by simp_all
qed

lemma view_exponent:
  assumes "same_view s t" and "clear_to s e"
  shows "exponent_end t e = exponent_end s e" and "clear_to s (exponent_end s e)"
proof -
  have "exponent_end t e = exponent_end s e \<and> clear_to s (exponent_end s e)"
  proof (cases "e < length s \<and> (s ! e = CHR ''e'' \<or> s ! e = CHR ''E'')")
    case True
    then have c1: "clear_to s (Suc e)" using assms(2) by (intro clear_to_Suc) (auto simp: quote_byte_def)
    note n1 = same_view_nth [OF assms(1) c1]
    show ?thesis
    proof (cases "Suc e < length s \<and> (s ! Suc e = CHR ''+'' \<or> s ! Suc e = CHR ''-'')")
      case sign: True
      then have c2: "clear_to s (Suc (Suc e))" using clear_to_Suc [OF c1] by (auto simp: quote_byte_def)
      show ?thesis
        using True sign same_view_nth [OF assms] n1 same_view_nth [OF assms(1) c2] view_digits [OF assms(1) c2] assms(2)
        by (auto simp: exponent_end_def Let_def)
    next
      case False
      then show ?thesis
        using True same_view_nth [OF assms] n1 view_digits [OF assms(1) c1] assms(2)
        by (auto simp: exponent_end_def Let_def)
    qed
  next
    case False
    then show ?thesis using same_view_nth [OF assms] assms(2) by (auto simp: exponent_end_def)
  qed
  then show "exponent_end t e = exponent_end s e" "clear_to s (exponent_end s e)" by simp_all
qed

lemma view_number:
  assumes "same_view s t"
  shows "number_end t = number_end s" and "clear_to s (number_end s)"
  using view_digits [OF assms clear_to_0] view_fraction [OF assms] view_exponent [OF assms]
  by (simp_all add: number_end_def)

lemma view_comment_start:
  assumes "same_view s t"
  shows "line_comment t = line_comment s" and "block_comment t = block_comment s"
proof -
  note n0 = same_view_nth [OF assms clear_to_0]
  have "line_comment t = line_comment s \<and> block_comment t = block_comment s"
  proof (cases "0 < length s \<and> (s ! 0 = CHR ''-'' \<or> s ! 0 = CHR ''/'')")
    case True
    then have c1: "clear_to s 1" using clear_to_Suc [of s 0] by (auto simp: quote_byte_def)
    note n1 = same_view_nth [OF assms c1]
    show ?thesis
    proof (cases "1 < length s \<and> (s ! 1 = CHR ''-'' \<or> s ! 1 = CHR ''*'')")
      case t: True
      then have c2: "clear_to s 2" using clear_to_Suc [OF c1] by (auto simp: quote_byte_def numeral_2_eq_2)
      note n2 = same_view_nth [OF assms c2]
      have "(length s = 2) = (length t = 2)" using n1 n2 t by linarith
      then show ?thesis using True t n0 n1 n2 by (auto simp: line_comment_def block_comment_def)
    next
      case False
      then show ?thesis using True n0 n1 by (auto simp: line_comment_def block_comment_def)
    qed
  next
    case False
    then show ?thesis using n0 by (auto simp: line_comment_def block_comment_def)
  qed
  then show "line_comment t = line_comment s" "block_comment t = block_comment s" by simp_all
qed

subsection \<open>Masking piece by piece\<close>

text \<open>\<open>starts_plain s\<close>: masking copies the first byte of \<open>s\<close> alone.\<close>

definition starts_plain :: "bytes \<Rightarrow> bool" where
  "starts_plain s \<longleftrightarrow> s \<noteq> [] \<and> \<not> quote_byte (hd s) \<and> hd s \<noteq> CHR 0x60 \<and> \<not> line_comment s \<and> \<not> block_comment s"

lemma line_end_pos: "line_comment (c # cs) \<Longrightarrow> 0 < line_end (c # cs)"
  by (auto simp: line_comment_def line_end_def split: option.splits)

lemma comment_end_pos: "0 < mysqlCommentEnd (c # cs) \<longleftrightarrow> line_comment (c # cs) \<or> block_comment (c # cs)"
  using line_end_pos [of c cs] by (auto simp: mysqlCommentEnd_def split: option.splits)

lemma mask_plain: "starts_plain (c # cs) \<Longrightarrow> mysqlMaskSQL (c # cs) = c # mysqlMaskSQL cs"
  using comment_end_pos [of c cs] by (simp add: starts_plain_def mysqlMaskSQL.simps)

lemma mask_run:
  "n \<le> length s \<Longrightarrow> (\<And>i. i < n \<Longrightarrow> starts_plain (drop i s)) \<Longrightarrow>
   mysqlMaskSQL s = take n s @ mysqlMaskSQL (drop n s)"
proof (induction n arbitrary: s)
  case (Suc n)
  from Suc.prems(1) obtain c cs where s: "s = c # cs" by (cases s) auto
  have "mysqlMaskSQL cs = take n cs @ mysqlMaskSQL (drop n cs)"
  proof (rule Suc.IH)
    show "n \<le> length cs" using Suc.prems(1) s by simp
    show "starts_plain (drop i cs)" if "i < n" for i
      using Suc.prems(2) [of "Suc i"] that s by simp
  qed
  moreover have "starts_plain (c # cs)" using Suc.prems(2) [of 0] s by simp
  ultimately show ?case using s by (simp add: mask_plain)
qed simp

text \<open>Bytes of numbers and words are plain.\<close>

lemma identifier_plain: "i < length s \<Longrightarrow> mysqlIdentifierByte (s ! i) \<Longrightarrow> starts_plain (drop i s)"
  using identifier_not_quote [of "s ! i"]
  by (auto simp: starts_plain_def hd_drop_conv_nth line_comment_def block_comment_def mysqlIdentifierByte_def is_digit_def)

definition number_byte :: "bytes \<Rightarrow> nat \<Rightarrow> bool" where
  "number_byte s i \<longleftrightarrow>
     i < length s \<and>
     (mysqlIdentifierByte (s ! i) \<or> s ! i = CHR ''.'' \<or> s ! i = CHR ''+'' \<or>
      (s ! i = CHR ''-'' \<and> Suc i < length s \<and> is_digit (s ! Suc i)))"

lemma number_byte_plain: "number_byte s i \<Longrightarrow> starts_plain (drop i s)"
proof -
  assume h: "number_byte s i"
  then have i: "i < length s" by (simp add: number_byte_def)
  show ?thesis
  proof (cases "mysqlIdentifierByte (s ! i)")
    case True
    with i show ?thesis by (rule identifier_plain)
  next
    case False
    with h show ?thesis
      by (auto simp: number_byte_def starts_plain_def hd_drop_conv_nth line_comment_def block_comment_def
          quote_byte_def is_digit_def)
  qed
qed

lemma digits_at_bytes: "i \<le> j \<Longrightarrow> j < i + digits_at s i \<Longrightarrow> j < length s \<and> is_digit (s ! j)"
proof -
  assume h: "i \<le> j" "j < i + digits_at s i"
  then have l: "j - i < length (takeWhile is_digit (drop i s))" by (simp add: digits_at_def)
  then have "j - i < length (drop i s)" using length_takeWhile_le less_le_trans by blast
  then have "j < length s" using h(1) by simp
  moreover have "is_digit (takeWhile is_digit (drop i s) ! (j - i))" using l by (meson nth_mem set_takeWhileD)
  moreover have "takeWhile is_digit (drop i s) ! (j - i) = s ! j"
    using l h(1) \<open>j < length s\<close> by (simp add: takeWhile_nth)
  ultimately show ?thesis by simp
qed

lemma digit_identifier: "is_digit b \<Longrightarrow> mysqlIdentifierByte b"
  by (simp add: mysqlIdentifierByte_def)

lemma number_bytes: "i < number_end s \<Longrightarrow> number_byte s i"
proof -
  define a b where ab: "a = digits_at s 0" "b = fraction_end s a"
  have d: "number_byte s j" if "k \<le> j" "j < k + digits_at s k" for j k
    using digits_at_bytes [OF that] by (simp add: number_byte_def digit_identifier)
  have A: "number_byte s j" if "j < a" for j using d [of 0 j] that by (simp add: ab)
  have B: "number_byte s j" if "j < b" for j
  proof (cases "j < a")
    case False
    with that have "a + 1 < length s" "s ! a = CHR ''.''" "j < a + 1 + digits_at s (a + 1)"
      by (auto simp: ab fraction_end_def split: if_splits)
    then show ?thesis using d [of "a + 1" j] False by (cases "j = a") (auto simp: number_byte_def)
  qed (rule A)
  have C: "number_byte s j" if "j < exponent_end s b" for j
  proof (cases "j < b")
    case False
    define x where "x = (if s ! (b + 1) = CHR ''+'' \<or> s ! (b + 1) = CHR ''-'' then b + 2 else b + 1)"
    have h: "b + 1 < length s" "s ! b = CHR ''e'' \<or> s ! b = CHR ''E''" "x < length s" "is_digit (s ! x)"
      "j < x + digits_at s x"
      using that False unfolding x_def by (auto simp: exponent_end_def Let_def split: if_splits)
    have "number_byte s b" using h(1,2) by (auto simp: number_byte_def mysqlIdentifierByte_def)
    moreover have "number_byte s (Suc b)" if "x = b + 2"
      using h that by (auto simp: number_byte_def x_def split: if_splits)
    moreover have "j = b \<or> x = b + 2 \<and> j = Suc b \<or> x \<le> j" using False by (auto simp: x_def split: if_splits)
    ultimately show ?thesis using d [of x j] h(5) by auto
  qed (rule B)
  show "i < number_end s \<Longrightarrow> number_byte s i" using C by (simp add: number_end_def ab)
qed

lemma takeWhile_bytes: "i \<le> j \<Longrightarrow> j < i + length (takeWhile P (drop i s)) \<Longrightarrow> j < length s \<and> P (s ! j)"
proof -
  assume h: "i \<le> j" "j < i + length (takeWhile P (drop i s))"
  then have l: "j - i < length (takeWhile P (drop i s))" by simp
  then have "j - i < length (drop i s)" using length_takeWhile_le less_le_trans by blast
  then have "j < length s" using h(1) by simp
  moreover have "P (takeWhile P (drop i s) ! (j - i))" using l by (meson nth_mem set_takeWhileD)
  moreover have "takeWhile P (drop i s) ! (j - i) = s ! j"
    using l h(1) \<open>j < length s\<close> by (simp add: takeWhile_nth)
  ultimately show ?thesis by simp
qed


lemma mask_head: "s \<noteq> [] \<Longrightarrow> mysqlMaskSQL s \<noteq> [] \<and> hd (mysqlMaskSQL s) = hd s"
  using same_view_nth [OF mask_same_view clear_to_0, of s] by (simp add: hd_conv_nth)

lemma mask_comment_start:
  "line_comment (mysqlMaskSQL s) = line_comment s" "block_comment (mysqlMaskSQL s) = block_comment s"
  by (rule view_comment_start [OF mask_same_view])+

lemma literal_scan_open: "literal_scan q cs = (n, False) \<Longrightarrow> n = length cs"
proof (induction q cs arbitrary: n rule: literal_scan.induct)
  case (2 q c cs)
  then show ?case by (cases cs) (auto split: if_splits prod.splits)
qed simp

lemma literal_scan_closed: "literal_scan q cs = (n, True) \<Longrightarrow> drop n cs = [] \<or> hd (drop n cs) \<noteq> q"
proof (induction q cs arbitrary: n rule: literal_scan.induct)
  case (2 q c cs)
  then show ?case by (cases cs) (auto split: if_splits prod.splits)
qed simp

lemma literal_scan_masked:
  assumes "quote_byte q"
  shows "r = [] \<or> hd r \<noteq> q \<Longrightarrow> literal_scan q (CHR ''?'' # q # r) = (2, True)" "literal_scan q ''?'' = (1, False)"
  using assms by (cases r; auto simp: quote_byte_def)+

text \<open>A literal of the masked text ends right after its question mark and closing quote.\<close>

lemma literal_end_masked:
  assumes c: "quote_byte c" and e: "mysqlLiteralEnd (c # cs) = (n, closed)"
  shows "mysqlLiteralEnd (mysqlMaskSQL (c # cs)) = (if closed then 3 else 2, closed)"
    and "mysqlMaskSQL (c # cs) = c # CHR ''?'' # (if closed then [c] else []) @ mysqlMaskSQL (drop n (c # cs))"
    and "\<not> closed \<Longrightarrow> drop n (c # cs) = []"
proof -
  obtain m where m: "literal_scan c cs = (m, closed)" "n = m + 1"
    using e by (auto simp: mysqlLiteralEnd_def split: prod.splits)
  let ?r = "mysqlMaskSQL (drop m cs)"
  show eq: "mysqlMaskSQL (c # cs) = c # CHR ''?'' # (if closed then [c] else []) @ mysqlMaskSQL (drop n (c # cs))"
    using c e by (simp add: mysqlMaskSQL.simps)
  show rest: "\<not> closed \<Longrightarrow> drop n (c # cs) = []" using literal_scan_open m by auto
  have "?r = [] \<or> hd ?r \<noteq> c" if closed
  proof -
    have "drop m cs = [] \<or> hd (drop m cs) \<noteq> c" using literal_scan_closed m(1) that by auto
    then show ?thesis using mask_head [of "drop m cs"] by (metis mysqlMaskSQL.simps(1))
  qed
  then show "mysqlLiteralEnd (mysqlMaskSQL (c # cs)) = (if closed then 3 else 2, closed)"
    using eq m(2) rest literal_scan_masked(1) [OF c, of ?r] literal_scan_masked(2) [OF c]
    by (cases closed) (simp_all add: mysqlLiteralEnd_def del: literal_scan.simps)
qed

text \<open>A scanner that stopped at \<open>n\<close> stops there again when what follows keeps its first byte.\<close>

definition same_head :: "bytes \<Rightarrow> bytes \<Rightarrow> bool" where
  "same_head s t \<longleftrightarrow> (s = []) = (t = []) \<and> (s \<noteq> [] \<longrightarrow> hd s = hd t)"

lemma mask_same_head: "same_head s (mysqlMaskSQL s)"
  using mask_head [of s] by (auto simp: same_head_def)

lemma backtick_scan_again:
  "same_head (drop (backtick_scan cs) cs) r \<Longrightarrow> backtick_scan (take (backtick_scan cs) cs @ r) = backtick_scan cs"
proof (induction cs rule: backtick_scan.induct)
  case (2 c cs)
  show ?case
  proof (cases "c = CHR 0x60")
    case True
    show ?thesis
    proof (cases cs)
      case Nil
      with True 2(3) show ?thesis by (simp add: same_head_def)
    next
      case (Cons d ds)
      show ?thesis
      proof (cases "d = CHR 0x60")
        case t: True
        with True Cons 2 show ?thesis by simp
      next
        case False
        then have "r \<noteq> []" "hd r = d" using True Cons 2(3) by (auto simp: same_head_def)
        then obtain r' where "r = d # r'" by (cases r) auto
        with True False Cons show ?thesis by simp
      qed
    qed
  next
    case False
    with 2 show ?thesis by simp
  qed
qed (simp add: same_head_def)

lemma backtick_end_again:
  "same_head (drop (mysqlBacktickEnd s) s) r \<Longrightarrow> s \<noteq> [] \<Longrightarrow>
   mysqlBacktickEnd (take (mysqlBacktickEnd s) s @ r) = mysqlBacktickEnd s"
  using backtick_scan_again [of "tl s" r] by (cases s) (simp_all add: mysqlBacktickEnd_def)

lemma line_end_again: "same_head (drop (line_end s) s) r \<Longrightarrow> line_end (take (line_end s) s @ r) = line_end s"
proof (cases "index_byte s (CHR 0x0A)")
  case None
  assume "same_head (drop (line_end s) s) r"
  with None show ?thesis by (simp add: line_end_def same_head_def)
next
  case (Some i)
  assume "same_head (drop (line_end s) s) r"
  moreover note pos = index_byte_Some [OF Some]
  ultimately have "r \<noteq> []" "hd r = CHR 0x0A"
    using Some by (auto simp: line_end_def same_head_def hd_drop_conv_nth)
  then obtain r' where "r = CHR 0x0A # r'" by (cases r) auto
  moreover have "index_byte (take i s) (CHR 0x0A) = None" using pos by (simp add: index_byte_None)
  ultimately show ?thesis using Some pos by (simp add: line_end_def index_byte_append min_def)
qed

lemma index_close_again: "index_close xs = Some n \<Longrightarrow> index_close (take (n + 2) xs @ r) = Some n"
proof (induction xs arbitrary: n)
  case (Cons c cs)
  show ?case
  proof (cases "c = CHR ''*'' \<and> cs \<noteq> [] \<and> hd cs = CHR ''/''")
    case True
    then obtain d ds where "cs = d # ds" by (cases cs) auto
    with True Cons.prems show ?thesis by (simp add: numeral_2_eq_2)
  next
    case False
    then obtain m where m: "index_close cs = Some m" "n = Suc m" using Cons.prems by (auto split: if_splits)
    then have ih: "index_close (take (m + 2) cs @ r) = Some m" by (intro Cons.IH)
    from m(1) obtain d ds where "cs = d # ds" by (cases cs) auto
    with False ih m(2) show ?thesis by auto
  qed
qed simp

lemma comment_end_bounds: "mysqlCommentEnd s \<le> length s"
proof -
  have "line_end s \<le> length s" by (auto simp: line_end_def split: option.splits dest!: index_byte_Some)
  moreover have "n + 4 \<le> length s" if "index_close (drop 2 s) = Some n" "block_comment s" for n
    using index_close_Some [OF that(1)] by simp arith
  ultimately show ?thesis by (auto simp: mysqlCommentEnd_def split: option.splits)
qed

lemma comment_end_again:
  assumes "same_head (drop (mysqlCommentEnd s) s) r"
    and "line_comment (take (mysqlCommentEnd s) s @ r) = line_comment s"
    and "block_comment (take (mysqlCommentEnd s) s @ r) = block_comment s"
  shows "mysqlCommentEnd (take (mysqlCommentEnd s) s @ r) = mysqlCommentEnd s"
proof (cases "line_comment s")
  case True
  with assms show ?thesis using line_end_again [of s r] by (simp add: mysqlCommentEnd_def)
next
  case False
  show ?thesis
  proof (cases "block_comment s \<and> index_close (drop 2 s) \<noteq> None")
    case True
    then obtain n where n: "index_close (drop 2 s) = Some n" by auto
    have l: "n + 4 \<le> length s" using index_close_Some [OF n] by simp arith
    have e: "mysqlCommentEnd s = n + 4" using False True n by (simp add: mysqlCommentEnd_def)
    have "drop 2 (take (n + 4) s @ r) = take (n + 2) (drop 2 s) @ r" using l by (simp add: drop_take)
    then have "index_close (drop 2 (take (n + 4) s @ r)) = Some n" using index_close_again [OF n] by simp
    with False True assms(2,3) e show ?thesis by (simp add: mysqlCommentEnd_def)
  next
    case nb: False
    show ?thesis
    proof (cases "block_comment s")
      case True
      then have "mysqlCommentEnd s = length s" using False nb by (simp add: mysqlCommentEnd_def)
      moreover from this have "r = []" using assms(1) by (simp add: same_head_def)
      ultimately show ?thesis by simp
    next
      case nc: False
      with False assms(2,3) show ?thesis by (simp add: mysqlCommentEnd_def)
    qed
  qed
qed


text \<open>The four ways masking takes the next piece of the text.\<close>

lemma mask_step_backtick:
  fixes cs :: bytes
  assumes "c = CHR 0x60"
  defines "n \<equiv> mysqlBacktickEnd (c # cs)"
  shows "mysqlMaskSQL (c # cs) = take n (c # cs) @ mysqlMaskSQL (drop n (c # cs))"
    and "mysqlBacktickEnd (mysqlMaskSQL (c # cs)) = n"
proof -
  show eq: "mysqlMaskSQL (c # cs) = take n (c # cs) @ mysqlMaskSQL (drop n (c # cs))"
    using assms by (simp add: mysqlMaskSQL.simps quote_byte_def)
  show "mysqlBacktickEnd (mysqlMaskSQL (c # cs)) = n"
    unfolding eq unfolding n_def by (rule backtick_end_again [OF mask_same_head]) simp
qed

lemma mask_step_comment:
  fixes cs :: bytes
  assumes "\<not> quote_byte c" "c \<noteq> CHR 0x60" "0 < mysqlCommentEnd (c # cs)"
  defines "n \<equiv> mysqlCommentEnd (c # cs)"
  shows "mysqlMaskSQL (c # cs) = take n (c # cs) @ mysqlMaskSQL (drop n (c # cs))"
    and "mysqlCommentEnd (mysqlMaskSQL (c # cs)) = n"
proof -
  show eq: "mysqlMaskSQL (c # cs) = take n (c # cs) @ mysqlMaskSQL (drop n (c # cs))"
    using assms by (simp add: mysqlMaskSQL.simps)
  show "mysqlCommentEnd (mysqlMaskSQL (c # cs)) = n"
    using comment_end_again [OF mask_same_head, of "c # cs"] mask_comment_start [of "c # cs"]
    unfolding eq n_def by simp
qed

lemma comment_none: "\<not> 0 < mysqlCommentEnd (c # cs) \<Longrightarrow> \<not> 0 < mysqlCommentEnd (mysqlMaskSQL (c # cs))"
proof -
  assume "\<not> 0 < mysqlCommentEnd (c # cs)"
  then have "\<not> line_comment (mysqlMaskSQL (c # cs))" "\<not> block_comment (mysqlMaskSQL (c # cs))"
    using comment_end_pos [of c cs] by (simp_all add: mask_comment_start)
  then show ?thesis by (simp add: mysqlCommentEnd_def)
qed

lemma mask_step_other:
  assumes "\<not> quote_byte c" "c \<noteq> CHR 0x60" "\<not> 0 < mysqlCommentEnd (c # cs)"
  shows "mysqlMaskSQL (c # cs) = c # mysqlMaskSQL cs"
  using assms by (simp add: mysqlMaskSQL.simps)

lemma take_drop_append: "n \<le> length s \<Longrightarrow> take n (take n s @ r) = take n s \<and> drop n (take n s @ r) = r"
  by simp

text \<open>Masking again changes nothing.\<close>

lemma mask_again: "mysqlMaskSQL (mysqlMaskSQL s) = mysqlMaskSQL s"
proof (induction s rule: mysqlMaskSQL.induct)
  case (2 c cs)
  obtain r where hd: "mysqlMaskSQL (c # cs) = c # r"
    using mask_head [of "c # cs"] by (cases "mysqlMaskSQL (c # cs)") auto
  show ?case
  proof (cases "quote_byte c")
    case True
    obtain n closed where e: "mysqlLiteralEnd (c # cs) = (n, closed)" by fastforce
    note l = literal_end_masked [OF True e]
    have "mysqlMaskSQL (mysqlMaskSQL (c # cs)) =
        c # CHR ''?'' # (if closed then [c] else []) @
          mysqlMaskSQL (drop (if closed then 3 else 2) (mysqlMaskSQL (c # cs)))"
      using True l(1) unfolding hd by (simp add: mysqlMaskSQL.simps)
    also have "drop (if closed then 3 else 2) (mysqlMaskSQL (c # cs)) = mysqlMaskSQL (drop n (c # cs))"
      using l(2,3) by (cases closed) simp_all
    also have "mysqlMaskSQL (mysqlMaskSQL (drop n (c # cs))) = mysqlMaskSQL (drop n (c # cs))"
      using "2.IH"(1) [OF True] e by auto
    finally show ?thesis using l(2) by simp
  next
    case nq: False
    show ?thesis
    proof (cases "c = CHR 0x60")
      case True
      let ?n = "mysqlBacktickEnd (c # cs)"
      note b = mask_step_backtick [OF True, of cs]
      have le: "?n \<le> length (c # cs)" by (rule mysqlBacktickEnd_bounds)
      have "mysqlMaskSQL (mysqlMaskSQL (c # cs)) =
          take ?n (mysqlMaskSQL (c # cs)) @ mysqlMaskSQL (drop ?n (mysqlMaskSQL (c # cs)))"
        using b(2) mask_step_backtick(1) [OF True, of r] unfolding hd by simp
      then show ?thesis using b(1) take_drop_append [OF le] "2.IH"(2) [OF nq True] by simp
    next
      case nb: False
      show ?thesis
      proof (cases "0 < mysqlCommentEnd (c # cs)")
        case True
        let ?n = "mysqlCommentEnd (c # cs)"
        note b = mask_step_comment [OF nq nb True]
        have le: "?n \<le> length (c # cs)" by (rule comment_end_bounds)
        have "mysqlMaskSQL (mysqlMaskSQL (c # cs)) =
            take ?n (mysqlMaskSQL (c # cs)) @ mysqlMaskSQL (drop ?n (mysqlMaskSQL (c # cs)))"
          using b(2) mask_step_comment(1) [OF nq nb, of r] True unfolding hd by simp
        then show ?thesis using b(1) take_drop_append [OF le] "2.IH"(3) [OF nq nb True] by simp
      next
        case False
        note b = mask_step_other [OF nq nb False]
        then have "\<not> 0 < mysqlCommentEnd (c # mysqlMaskSQL cs)" using comment_none [OF False] by simp
        then show ?thesis using mask_step_other [OF nq nb] b "2.IH"(4) [OF nq nb False] by simp
      qed
    qed
  qed
qed simp

subsection \<open>The shape of the masked text\<close>

lemma mask_take_run:
  assumes "n \<le> length s" and "\<And>i. i < n \<Longrightarrow> starts_plain (drop i s)"
  shows "take n (mysqlMaskSQL s) = take n s" "drop n (mysqlMaskSQL s) = mysqlMaskSQL (drop n s)"
  using mask_run [OF assms] assms(1) by simp_all

lemma token_number:
  assumes "s \<noteq> []" and "is_digit (hd s)" and "shape_token s = (n, shown)"
  shows "shape_token (mysqlMaskSQL s) = (n, shown) \<and> drop n (mysqlMaskSQL s) = mysqlMaskSQL (drop n s)"
proof -
  let ?t = "mysqlMaskSQL s"
  define e where "e = number_end s"
  note sv = mask_same_view [of s]
  have et: "number_end ?t = e" and cl: "clear_to s e" using view_number [OF sv] by (simp_all add: e_def)
  have el: "e \<le> length s" using number_end_bounds [of s] by (simp add: e_def)
  have hdt: "hd ?t = hd s" using mask_head [OF assms(1)] by simp
  have nq: "\<not> quote_byte (hd s)" "hd s \<noteq> CHR 0x60" using assms(2) by (auto simp: is_digit_def quote_byte_def)
  have plain: "starts_plain (drop i s)" if "i < e" for i
    using number_byte_plain number_bytes that by (simp add: e_def)
  have same: "(e < length ?t \<and> mysqlIdentifierByte (?t ! e)) = (e < length s \<and> mysqlIdentifierByte (s ! e))"
    using same_view_nth [OF sv cl] by auto
  show ?thesis
  proof (cases "e < length s \<and> mysqlIdentifierByte (s ! e)")
    case True
    define w where "w = length (takeWhile mysqlIdentifierByte (drop e s))"
    have wt: "length (takeWhile mysqlIdentifierByte (drop e ?t)) = w"
      using same_view_takeWhile [OF same_view_drop [OF sv cl], of mysqlIdentifierByte] identifier_not_quote
      by (simp add: w_def)
    have "w \<le> length (drop e s)" unfolding w_def by (rule length_takeWhile_le)
    then have len: "e + w \<le> length s" using el by simp
    have run: "starts_plain (drop i s)" if "i < e + w" for i
      using plain takeWhile_bytes [of e i mysqlIdentifierByte s] identifier_plain that
      by (cases "i < e") (simp_all add: w_def)
    have tok: "shape_token s = (e + w, take (e + w) s)"
      using True nq assms(2) by (simp add: shape_token_def e_def [symmetric] w_def Let_def)
    have "shape_token ?t = (e + w, take (e + w) ?t)"
      using True same nq assms(2) hdt et wt by (simp add: shape_token_def Let_def)
    with tok assms(3) show ?thesis using mask_take_run [OF len run] by simp
  next
    case False
    have tok: "shape_token s = (e, ''?'')"
      using False nq assms(2) by (auto simp: shape_token_def e_def [symmetric] Let_def)
    have "shape_token ?t = (e, ''?'')"
      using False same nq assms(2) hdt et by (auto simp: shape_token_def Let_def)
    with tok assms(3) show ?thesis using mask_take_run [OF el plain] by simp
  qed
qed

lemma token_word:
  assumes "s \<noteq> []" and "\<not> is_digit (hd s)" "mysqlIdentifierByte (hd s)" and "shape_token s = (n, shown)"
  shows "shape_token (mysqlMaskSQL s) = (n, shown) \<and> drop n (mysqlMaskSQL s) = mysqlMaskSQL (drop n s)"
proof -
  let ?t = "mysqlMaskSQL s"
  define w where "w = length (takeWhile mysqlIdentifierByte s)"
  have wt: "length (takeWhile mysqlIdentifierByte ?t) = w"
    using same_view_takeWhile [OF mask_same_view, of mysqlIdentifierByte] identifier_not_quote by (simp add: w_def)
  have len: "w \<le> length s" unfolding w_def by (rule length_takeWhile_le)
  have run: "starts_plain (drop i s)" if "i < w" for i
    using takeWhile_bytes [of 0 i mysqlIdentifierByte s] identifier_plain that by (simp add: w_def)
  have nq: "\<not> quote_byte (hd s)" "hd s \<noteq> CHR 0x60"
    using identifier_not_quote [OF assms(3)] assms(3) by (auto simp: mysqlIdentifierByte_def is_digit_def)
  have tok: "shape_token s = (w, take w s)"
    using nq assms(2,3) by (simp add: shape_token_def w_def Let_def)
  have "shape_token ?t = (w, take w ?t)"
    using nq assms(2,3) mask_head [OF assms(1)] wt by (simp add: shape_token_def Let_def)
  with tok assms(4) show ?thesis using mask_take_run [OF len run] by simp
qed

lemma token_masked:
  assumes "shape_token (c # cs) = (n, shown)"
  obtains n' where "shape_token (mysqlMaskSQL (c # cs)) = (n', shown)"
    and "drop n' (mysqlMaskSQL (c # cs)) = mysqlMaskSQL (drop n (c # cs))"
proof -
  let ?s = "c # cs"
  let ?t = "mysqlMaskSQL ?s"
  have hdt: "hd ?t = c" using mask_head [of ?s] by simp
  have "\<exists>n'. shape_token ?t = (n', shown) \<and> drop n' ?t = mysqlMaskSQL (drop n ?s)"
  proof (cases "quote_byte c")
    case True
    obtain m closed where e: "mysqlLiteralEnd ?s = (m, closed)" by fastforce
    note l = literal_end_masked [OF True e]
    have tok: "n = m" "shown = ''?''" using assms True e by (simp_all add: shape_token_def)
    have "shape_token ?t = (if closed then 3 else 2, ''?'')" using True l(1) hdt by (simp add: shape_token_def)
    moreover have "drop (if closed then 3 else 2) ?t = mysqlMaskSQL (drop n ?s)"
      using l(2,3) tok by (cases closed) simp_all
    ultimately show ?thesis using tok by blast
  next
    case nq: False
    consider "c = CHR 0x60" | "c \<noteq> CHR 0x60" "is_digit c" | "c \<noteq> CHR 0x60" "\<not> is_digit c" "mysqlIdentifierByte c"
      | "c \<noteq> CHR 0x60" "\<not> is_digit c" "\<not> mysqlIdentifierByte c" by blast
    then show ?thesis
    proof cases
      case 1
      note b = mask_step_backtick [OF 1, of cs]
      have le: "mysqlBacktickEnd ?s \<le> length ?s" by (rule mysqlBacktickEnd_bounds)
      have "shape_token ?t = (mysqlBacktickEnd ?s, take (mysqlBacktickEnd ?s) ?t)"
        using nq 1 hdt b(2) by (simp add: shape_token_def)
      moreover have "n = mysqlBacktickEnd ?s" "shown = take (mysqlBacktickEnd ?s) ?s"
        using assms nq 1 by (auto simp add: shape_token_def simp del: take_Suc_Cons)
      moreover have "take (mysqlBacktickEnd ?s) ?t = take (mysqlBacktickEnd ?s) ?s"
        "drop (mysqlBacktickEnd ?s) ?t = mysqlMaskSQL (drop (mysqlBacktickEnd ?s) ?s)"
        unfolding b(1) using take_drop_append [OF le] by blast+
      ultimately show ?thesis by (metis (no_types))
    next
      case 2
      then show ?thesis using token_number [of ?s, OF _ _ assms] by auto
    next
      case 3
      then show ?thesis using token_word [of ?s, OF _ _ _ assms] by auto
    next
      case 4
      show ?thesis
      proof (cases "0 < mysqlCommentEnd ?s")
        case True
        note b = mask_step_comment [OF nq 4(1) True]
        have "shape_token ?t = (mysqlCommentEnd ?s, take (mysqlCommentEnd ?s) ?t)"
          using nq 4 True hdt b(2) by (simp add: shape_token_def)
        moreover have "n = mysqlCommentEnd ?s" "shown = take (mysqlCommentEnd ?s) ?s"
          using assms nq 4 True by (auto simp add: shape_token_def simp del: take_Suc_Cons)
        moreover have "take (mysqlCommentEnd ?s) ?t = take (mysqlCommentEnd ?s) ?s"
          "drop (mysqlCommentEnd ?s) ?t = mysqlMaskSQL (drop (mysqlCommentEnd ?s) ?s)"
          unfolding b(1) using take_drop_append [OF comment_end_bounds [of ?s]] by blast+
        ultimately show ?thesis by (metis (no_types))
      next
        case False
        note b = mask_step_other [OF nq 4(1) False]
        have "shape_token ?t = (1, [c])" using nq 4 False hdt comment_none [OF False] by (simp add: shape_token_def)
        moreover have "n = 1" "shown = [c]" using assms nq 4 False by (simp_all add: shape_token_def)
        ultimately show ?thesis using b by auto
      qed
    qed
  qed
  then show thesis using that by blast
qed

lemma space_not_token: "shape_space c \<Longrightarrow> mysqlMaskSQL (c # cs) = c # mysqlMaskSQL cs"
proof (rule mask_plain)
  assume "shape_space c"
  then show "starts_plain (c # cs)"
    by (auto simp: shape_space_def starts_plain_def quote_byte_def line_comment_def block_comment_def)
qed

lemma shape_loop_masked: "shape_loop (mysqlMaskSQL s) space out = shape_loop s space out"
proof (induction s space out rule: shape_loop.induct)
  case (2 c cs space out)
  show ?case
  proof (cases "shape_space c")
    case True
    then show ?thesis using 2(1) space_not_token [OF True, of cs] by (simp add: shape_loop.simps)
  next
    case False
    obtain n shown where tok: "shape_token (c # cs) = (n, shown)" by fastforce
    obtain n' where n': "shape_token (mysqlMaskSQL (c # cs)) = (n', shown)"
      "drop n' (mysqlMaskSQL (c # cs)) = mysqlMaskSQL (drop n (c # cs))"
      by (rule token_masked [OF tok])
    obtain r where r: "mysqlMaskSQL (c # cs) = c # r"
      using mask_head [of "c # cs"] by (cases "mysqlMaskSQL (c # cs)") auto
    let ?out = "(if space \<and> out \<noteq> [] then out @ '' '' else out) @ shown"
    have "shape_loop (mysqlMaskSQL (c # cs)) space out = shape_loop (drop n' (mysqlMaskSQL (c # cs))) False ?out"
      using False n'(1) unfolding r by (simp add: shape_loop.simps)
    also have "\<dots> = shape_loop (drop n (c # cs)) False ?out"
      using 2(2) [OF False tok [symmetric]] n'(2) by simp
    also have "\<dots> = shape_loop (c # cs) space out" using False tok by (simp add: shape_loop.simps)
    finally show ?thesis .
  qed
qed simp


subsection \<open>What the masked text shows\<close>

text \<open>
  The shape that groups statements in the summary does not depend on whether values are
  shown: the shape of the masked text is the shape of the text. It is also at most 256 bytes and
  the three dots that mark the cut.
\<close>
theorem traceMySQLShape_masked:
  "traceMySQLShape (mysqlMaskSQL sql) = traceMySQLShape sql \<and>
   length (traceMySQLShape sql) \<le> mysqlShapeLimit + 3"
  using traceTrimText_length [of _ mysqlShapeLimit]
  by (auto simp: traceMySQLShape_def shape_loop_masked Let_def)

end
