(* ===== verification/GoMap.thy ===== *)
theory GoMap
  imports Prelude
begin

text \<open>
  Go's \<open>map[K]V\<close> as the trackers use it: look-up, assignment, \<open>delete\<close>, \<open>len\<close> and a
  \<open>range\<close> loop that changes every value. The representation is an association list with
  distinct keys. The trackers reach a map only through these operations, so the laws they
  need are the locale \<open>go_map\<close>. A tracker also keeps a counter that should equal a sum
  over all the values of its map (packets waited for, prepared statements, pending
  commands); the locale \<open>counted_map\<close> is that contract. Both are interpreted on the
  association lists at the end of the theory.
\<close>

type_synonym ('k, 'v) gomap = "('k \<times> 'v) list"

definition map_get :: "('k, 'v) gomap \<Rightarrow> 'k \<Rightarrow> 'v option" where
  "map_get m k = map_of m k"

definition map_put :: "'k \<Rightarrow> 'v \<Rightarrow> ('k, 'v) gomap \<Rightarrow> ('k, 'v) gomap" where
  "map_put k v m = AList.update k v m"

definition map_del :: "'k \<Rightarrow> ('k, 'v) gomap \<Rightarrow> ('k, 'v) gomap" where
  "map_del k m = AList.delete k m"

definition map_len :: "('k, 'v) gomap \<Rightarrow> nat" where
  "map_len m = length m"

definition map_each :: "('v \<Rightarrow> 'v) \<Rightarrow> ('k, 'v) gomap \<Rightarrow> ('k, 'v) gomap" where
  "map_each f m = map (\<lambda>(k, v). (k, f v)) m"

definition map_total :: "('v \<Rightarrow> nat) \<Rightarrow> ('k, 'v) gomap \<Rightarrow> nat" where
  "map_total f m = (\<Sum>(k, v) \<leftarrow> m. f v)"

definition map_ok :: "('k, 'v) gomap \<Rightarrow> bool" where
  "map_ok m \<longleftrightarrow> distinct (map fst m)"

text \<open>The interface and its laws.\<close>

locale go_map =
  fixes get :: "'m \<Rightarrow> 'k \<Rightarrow> 'v option"
    and put :: "'k \<Rightarrow> 'v \<Rightarrow> 'm \<Rightarrow> 'm"
    and del :: "'k \<Rightarrow> 'm \<Rightarrow> 'm"
    and len :: "'m \<Rightarrow> nat"
    and each :: "('v \<Rightarrow> 'v) \<Rightarrow> 'm \<Rightarrow> 'm"
    and total :: "('v \<Rightarrow> nat) \<Rightarrow> 'm \<Rightarrow> nat"
    and empty :: "'m"
    and ok :: "'m \<Rightarrow> bool"
  assumes get_empty: "get empty k = None"
    and get_put: "get (put k v m) k' = (if k' = k then Some v else get m k')"
    and get_del: "ok m \<Longrightarrow> get (del k m) k' = (if k' = k then None else get m k')"
    and get_each: "get (each g m) k = map_option g (get m k)"
    and ok_empty: "ok empty"
    and ok_put: "ok m \<Longrightarrow> ok (put k v m)"
    and ok_del: "ok m \<Longrightarrow> ok (del k m)"
    and ok_each: "ok m \<Longrightarrow> ok (each g m)"
    and len_empty: "len empty = 0"
    and len_put: "len (put k v m) = (if get m k = None then Suc (len m) else len m)"
    and len_del: "ok m \<Longrightarrow> len (del k m) = (if get m k = None then len m else len m - 1)"
    and len_each: "len (each g m) = len m"
    and total_empty: "total f empty = 0"
    and total_put_new: "get m k = None \<Longrightarrow> total f (put k v m) = total f m + f v"
    and total_put_old: "ok m \<Longrightarrow> get m k = Some w \<Longrightarrow> total f (put k v m) + f w = total f m + f v"
    and total_del: "ok m \<Longrightarrow> get m k = Some w \<Longrightarrow> total f (del k m) + f w = total f m"
    and total_each: "total f (each g m) = total (f \<circ> g) m"
    and total_ge: "get m k = Some w \<Longrightarrow> f w \<le> total f m"
    and total_zero: "total (\<lambda>_. 0) m = 0"
begin

lemma total_each_zero: "(\<And>v. f (g v) = 0) \<Longrightarrow> total f (each g m) = 0"
proof -
  assume "\<And>v. f (g v) = 0"
  then have "f \<circ> g = (\<lambda>_. 0)" by (simp add: fun_eq_iff)
  then show ?thesis by (simp add: total_each total_zero)
qed

lemma total_each_id: "(\<And>v. f (g v) = f v) \<Longrightarrow> total f (each g m) = total f m"
proof -
  assume "\<And>v. f (g v) = f v"
  then have "f \<circ> g = f" by (simp add: fun_eq_iff)
  then show ?thesis by (simp add: total_each)
qed

lemma put_put_total:
  assumes "ok m"
  shows "total f (put k v (put k w m)) = total f (put k v m)"
proof (cases "get m k")
  case None
  then have "total f (put k v m) = total f m + f v" "total f (put k w m) = total f m + f w"
    by (simp_all add: total_put_new)
  moreover have "total f (put k v (put k w m)) + f w = total f (put k w m) + f v"
    using assms by (intro total_put_old) (simp_all add: ok_put get_put)
  ultimately show ?thesis by simp
next
  case (Some u)
  then have "total f (put k v m) + f u = total f m + f v" "total f (put k w m) + f u = total f m + f w"
    using assms by (simp_all add: total_put_old)
  moreover have "total f (put k v (put k w m)) + f w = total f (put k w m) + f v"
    using assms by (intro total_put_old) (simp_all add: ok_put get_put)
  ultimately show ?thesis by simp
qed

text \<open>Storing one value instead of another under the same key moves a sum by their difference.\<close>

lemma put_swap:
  assumes "ok m"
  shows "total f (put k v m) + f w = total f (put k w m) + f v"
proof -
  have "total f (put k v (put k w m)) + f w = total f (put k w m) + f v"
    using assms by (intro total_put_old) (simp_all add: ok_put get_put)
  with put_put_total [OF assms] show ?thesis by simp
qed

lemma put_zero: "ok m \<Longrightarrow> total f m = 0 \<Longrightarrow> f v = 0 \<Longrightarrow> total f (put k v m) = 0"
  using total_put_new [of m k f v] total_put_old [of m k _ f v] by (cases "get m k") auto

lemma put_same: "ok m \<Longrightarrow> get m k = Some v \<Longrightarrow> total f (put k v m) = total f m"
  using total_put_old [of m k v f v] by simp

lemma put_ge: "ok m \<Longrightarrow> f v \<le> total f (put k v m)"
  by (rule total_ge [of "put k v m" k v f]) (simp add: get_put)

lemma len_put_bound: "len m < n \<or> get m k \<noteq> None \<and> len m \<le> n \<Longrightarrow> len (put k v m) \<le> n"
  by (auto simp: len_put)

end

text \<open>
  A map with a counter beside it. \<open>weight\<close> is what one value adds to the counter; the lemmas
  say how the counter moves with the map, and that a value's weight never exceeds it, so that
  the guards of the code against a negative counter are never taken.
\<close>

locale counted_map = go_map get put del len each total empty ok
  for get :: "'m \<Rightarrow> 'k \<Rightarrow> 'v option" and put del len each total empty ok +
  fixes weight :: "'v \<Rightarrow> nat"
begin

text \<open>
  \<open>counted c k v m\<close>: the counter is right for the map in which the value being worked on, \<open>v\<close>,
  stands for whatever is stored under its key.
\<close>

definition counted :: "int \<Rightarrow> 'k \<Rightarrow> 'v \<Rightarrow> 'm \<Rightarrow> bool" where
  "counted c k v m \<longleftrightarrow> c = int (total weight (put k v m))"

lemma counted_swap:
  assumes "counted c k w m" and "ok m" and "d = int (weight v) - int (weight w)"
  shows "counted (c + d) k v m"
  using assms put_swap [of m weight k v w] by (simp add: counted_def)

lemma counted_same: "counted c k w m \<Longrightarrow> ok m \<Longrightarrow> weight v = weight w \<Longrightarrow> counted c k v m"
  using counted_swap [of c k w m 0 v] by simp

lemma counted_ge: "counted c k v m \<Longrightarrow> ok m \<Longrightarrow> int (weight v) \<le> c"
  using put_ge [of m weight v k] by (simp add: counted_def)

lemma counted_enter_old: "c = int (total weight m) \<Longrightarrow> ok m \<Longrightarrow> get m k = Some v \<Longrightarrow> counted c k v m"
  by (simp add: counted_def put_same)

lemma counted_enter_new: "c = int (total weight m) \<Longrightarrow> get m k = None \<Longrightarrow> weight v = 0 \<Longrightarrow> counted c k v m"
  by (simp add: counted_def total_put_new)

lemma counted_emptied:
  "ok m \<Longrightarrow> (\<And>u. weight (g u) = 0) \<Longrightarrow> weight v = 0 \<Longrightarrow> counted 0 k v (each g m)"
  by (simp add: counted_def put_zero ok_each total_each_zero)

lemma counted_kept:
  "counted c k v m \<Longrightarrow> ok m \<Longrightarrow> (\<And>u. weight (g u) = weight u) \<Longrightarrow> counted c k v (each g m)"
proof -
  assume h: "counted c k v m" "ok m" "\<And>u. weight (g u) = weight u"
  have "total weight (each g m) = total weight m" by (rule total_each_id) (rule h(3))
  then have "total weight (put k v (each g m)) = total weight (put k v m)"
    using h(2) total_put_new [of m k weight v] total_put_new [of "each g m" k weight v]
      total_put_old [of m k _ weight v] total_put_old [of "each g m" k _ weight v] h(3)
    by (cases "get m k") (force simp: get_each ok_each)+
  with h(1) show ?thesis by (simp add: counted_def)
qed

lemma counted_new:
  assumes "c = int (total weight m)" and "get m k = None"
  shows "c + int (weight v) = int (total weight (put k v m))"
  using assms by (simp add: total_put_new)

lemma counted_change:
  assumes "c = int (total weight m)" and "ok m" and "get m k = Some w"
  shows "c + (int (weight v) - int (weight w)) = int (total weight (put k v m))"
proof -
  have "total weight (put k v m) + weight w = total weight m + weight v"
    using assms by (simp add: total_put_old)
  with assms(1) show ?thesis by linarith
qed

lemma counted_delete:
  assumes "c = int (total weight m)" and "ok m" and "get m k = Some w"
  shows "c - int (weight w) = int (total weight (del k m))"
proof -
  have "total weight (del k m) + weight w = total weight m"
    using assms by (simp add: total_del)
  with assms(1) show ?thesis by linarith
qed

lemma counted_covers:
  assumes "c = int (total weight m)" and "get m k = Some w"
  shows "int (weight w) \<le> c"
  using assms total_ge [of m k w weight] by simp

lemma counted_each:
  assumes "c = int (total weight m)" and "\<And>v. weight (g v) = weight v"
  shows "c = int (total weight (each g m))"
  using assms by (simp add: total_each_id)

lemma counted_clear:
  assumes "\<And>v. weight (g v) = 0"
  shows "0 = int (total weight (each g m))"
  using assms by (simp add: total_each_zero)

end

text \<open>The laws hold of the association lists.\<close>

lemma map_total_update_new: "map_of m k = None \<Longrightarrow> map_total f (AList.update k v m) = map_total f m + f v"
  by (induction m) (auto simp: map_total_def split: if_splits)

lemma map_total_update_old:
  "distinct (map fst m) \<Longrightarrow> map_of m k = Some w \<Longrightarrow> map_total f (AList.update k v m) + f w = map_total f m + f v"
  by (induction m) (auto simp: map_total_def split: if_splits)

lemma map_total_delete_new: "k \<notin> fst ` set m \<Longrightarrow> map_total f (AList.delete k m) = map_total f m"
  by (induction m) (auto simp: map_total_def)

lemma map_total_delete_old:
  "distinct (map fst m) \<Longrightarrow> map_of m k = Some w \<Longrightarrow> map_total f (AList.delete k m) + f w = map_total f m"
proof (induction m)
  case (Cons p m)
  then show ?case
    by (cases p) (auto simp: map_total_def map_total_delete_new [unfolded map_total_def] split: if_splits)
qed simp

lemma map_total_ge_member: "map_of m k = Some w \<Longrightarrow> f w \<le> map_total f m"
  by (induction m) (fastforce simp: map_total_def split: if_splits)+

lemma length_update_alist: "length (AList.update k v m) = (if map_of m k = None then Suc (length m) else length m)"
  by (induction m) auto

lemma length_delete_alist:
  "distinct (map fst m) \<Longrightarrow> length (AList.delete k m) = (if map_of m k = None then length m else length m - 1)"
proof (induction m)
  case (Cons p m)
  show ?case
  proof (cases "fst p = k")
    case True
    with Cons.prems have "AList.delete k m = m" by (auto simp: delete_idem)
    with True show ?thesis by (cases p) auto
  next
    case False
    moreover have "map_of m k \<noteq> None \<Longrightarrow> 0 < length m" by (cases m) auto
    ultimately show ?thesis using Cons by (cases p) auto
  qed
qed simp

lemma map_of_each: "map_of (map (\<lambda>(k, v). (k, f v)) m) k = map_option f (map_of m k)"
  by (induction m) auto

interpretation gm: go_map map_get map_put map_del map_len map_each map_total "[]" map_ok
proof (unfold_locales, goal_cases)
  case (3 m k k') then show ?case by (simp add: map_get_def map_del_def delete_conv')
next
  case (7 m k) then show ?case by (simp add: map_ok_def map_del_def distinct_delete)
next
  case (8 m f) then show ?case by (simp add: map_ok_def map_each_def o_def case_prod_beta)
next
  case (11 m k)
  then have "length (AList.delete k m) = (if map_of m k = None then length m else length m - 1)"
    by (simp only: map_ok_def length_delete_alist)
  then show ?case by (simp only: map_len_def map_del_def map_get_def)
next
  case (17 f g m) then show ?case
    by (simp add: map_total_def map_each_def o_def case_prod_unfold)
qed (simp_all add: map_get_def map_put_def map_del_def map_len_def map_each_def map_ok_def
       update_conv' distinct_update length_update_alist map_of_each map_total_update_new
       map_total_update_old map_total_delete_old map_total_ge_member o_def case_prod_beta,
     simp_all add: map_total_def)


text \<open>Sums over the values that look-up can return.\<close>

lemma map_get_member: "map_ok m \<Longrightarrow> (k, v) \<in> set m \<Longrightarrow> map_get m k = Some v"
  by (simp add: map_ok_def map_get_def)

lemma map_total_cong:
  assumes "map_ok m" and "\<And>k v. map_get m k = Some v \<Longrightarrow> f v = g v"
  shows "map_total f m = map_total g m"
proof -
  have "(k, v) \<in> set m \<Longrightarrow> f v = g v" for k v using assms map_get_member by metis
  then have "map (\<lambda>(k, v). f v) m = map (\<lambda>(k, v). g v) m" by auto
  then show ?thesis by (simp only: map_total_def)
qed

lemma map_total_le:
  assumes "map_ok m" and "\<And>k v. map_get m k = Some v \<Longrightarrow> f v \<le> c * g v"
  shows "map_total f m \<le> c * map_total g m"
proof -
  have "(k, v) \<in> set m \<Longrightarrow> f v \<le> c * g v" for k v using assms map_get_member by metis
  then show ?thesis
  proof (induction m)
    case (Cons p m)
    have "map_total f m \<le> c * map_total g m" using Cons by auto
    moreover have "f (snd p) \<le> c * g (snd p)" using Cons.prems [of "fst p" "snd p"] by simp
    ultimately show ?case by (simp add: map_total_def case_prod_beta add_mult_distrib2 add_mono)
  qed (simp add: map_total_def)
qed

text \<open>
  The keys in the order in which a \<open>range\<close> loop meets them: any order, given by a list that is
  corrected to hold exactly the keys of the map. Maps of counters are added key by key.
\<close>

definition map_range :: "'k list \<Rightarrow> ('k, 'v) gomap \<Rightarrow> 'k list" where
  "map_range order m =
     filter (\<lambda>k. map_get m k \<noteq> None) (remdups order) @ filter (\<lambda>k. k \<notin> set order) (map fst m)"

definition map_count :: "('k, nat) gomap \<Rightarrow> 'k \<Rightarrow> nat" where
  "map_count m k = (case map_get m k of None \<Rightarrow> 0 | Some n \<Rightarrow> n)"

definition map_bump :: "'k \<Rightarrow> nat \<Rightarrow> ('k, nat) gomap \<Rightarrow> ('k, nat) gomap" where
  "map_bump k n m = map_put k (map_count m k + n) m"

definition map_merge :: "('k, nat) gomap \<Rightarrow> ('k, nat) gomap \<Rightarrow> ('k, nat) gomap" where
  "map_merge m other = fold (\<lambda>(k, n). map_bump k n) other m"

lemma map_range_keys: "map_ok m \<Longrightarrow> distinct (map_range order m) \<and> set (map_range order m) = {k. map_get m k \<noteq> None}"
  by (auto simp: map_range_def map_ok_def map_get_def distinct_map_filter dom_map_of_conv_image_fst [symmetric])

lemma map_bump_ok: "map_ok m \<Longrightarrow> map_ok (map_bump k n m)"
  by (simp add: map_bump_def gm.ok_put)

lemma map_merge_ok: "map_ok m \<Longrightarrow> map_ok (map_merge m other)"
  unfolding map_merge_def by (induction other arbitrary: m) (auto simp: map_bump_ok)

lemma map_total_Cons: "map_total f ((k, v) # m) = f v + map_total f m"
  by (simp add: map_total_def)

lemma map_bump_total: "map_ok m \<Longrightarrow> map_total (\<lambda>n. n) (map_bump k n m) = map_total (\<lambda>n. n) m + n"
  using gm.total_put_new [of m k "\<lambda>n. n" n] gm.total_put_old [of m k _ "\<lambda>n. n" "map_count m k + n"]
  by (cases "map_get m k") (auto simp: map_bump_def map_count_def)

lemma map_merge_total:
  "map_ok m \<Longrightarrow> map_total (\<lambda>n. n) (map_merge m other) = map_total (\<lambda>n. n) m + map_total (\<lambda>n. n) other"
  unfolding map_merge_def
proof (induction other arbitrary: m)
  case (Cons p other)
  then show ?case by (cases p) (simp add: map_bump_ok map_bump_total map_total_Cons)
qed (simp add: map_total_def)

text \<open>Storing under a key twice, and storing what is stored.\<close>

lemma map_put_put: "map_put k v (map_put k w m) = map_put k v m"
  by (simp add: map_put_def)

lemma map_put_same: "map_get m k = Some v \<Longrightarrow> map_put k v m = m"
  by (simp add: map_put_def map_get_def update_triv)

lemma map_del_put: "map_del k (map_put k v m) = map_del k m"
  by (simp add: map_put_def map_del_def delete_update_same)

lemma map_keys_finite: "finite {k. map_get m k \<noteq> None \<and> P k}"
  by (rule finite_subset [OF _ finite_dom_map_of [of m]]) (auto simp: map_get_def dom_def)

end
