(* ===== verification/MySQLTracker.thy ===== *)
theory MySQLTracker
  imports MySQLStream MySQLText GoMap
begin

unbundle bit_operations_syntax

text \<open>
  \<open>mysqlTracker\<close> of internal/edc/trace_mysql.go: the connections of a host, each a phase machine
  over its two packet streams, with the commands paired with their answers. The Go code keeps
  pointers to connections in a map and works on one of them per record; here the record's
  connection is the live value \<open>call_conn\<close> of the call, written back to the map at the end, and
  the two operations that touch every connection of the map also change the live one. \<open>deliver\<close>
  callbacks reach only the stream they are not called from, apart from the flag \<open>full\<close>.
\<close>

definition mysqlSQLLimit :: nat where "mysqlSQLLimit = 1024"
definition mysqlSocketLimit :: nat where "mysqlSocketLimit = 65536"
definition mysqlStatementLimit :: int where "mysqlStatementLimit = 65536"
definition mysqlWaitingLimit :: int where "mysqlWaitingLimit = 1024"
definition mysqlColumnLimit :: nat where "mysqlColumnLimit = 4096"
definition mysqlMinGreetingBytes :: nat where "mysqlMinGreetingBytes = 32"

definition mysqlCapConnectWithDB :: u32 where "mysqlCapConnectWithDB = 0x8"
definition mysqlCapCompress :: u32 where "mysqlCapCompress = 0x20"
definition mysqlCapProtocol41 :: u32 where "mysqlCapProtocol41 = 0x200"
definition mysqlCapSSL :: u32 where "mysqlCapSSL = 0x800"
definition mysqlCapSecureConnection :: u32 where "mysqlCapSecureConnection = 0x8000"
definition mysqlCapLenencClientData :: u32 where "mysqlCapLenencClientData = 0x200000"
definition mysqlCapQueryAttributes :: u32 where "mysqlCapQueryAttributes = 0x8000000"

lemmas mysql_caps = mysqlCapConnectWithDB_def mysqlCapCompress_def mysqlCapProtocol41_def mysqlCapSSL_def
  mysqlCapSecureConnection_def mysqlCapLenencClientData_def mysqlCapQueryAttributes_def

definition mysqlComQuit :: byte where "mysqlComQuit = CHR 0x01"
definition mysqlComQuery :: byte where "mysqlComQuery = CHR 0x03"
definition mysqlComStmtPrepare :: byte where "mysqlComStmtPrepare = CHR 0x16"
definition mysqlComStmtExecute :: byte where "mysqlComStmtExecute = CHR 0x17"
definition mysqlComStmtSendLong :: byte where "mysqlComStmtSendLong = CHR 0x18"
definition mysqlComStmtClose :: byte where "mysqlComStmtClose = CHR 0x19"

lemmas mysql_coms = mysqlComQuit_def mysqlComQuery_def mysqlComStmtPrepare_def mysqlComStmtExecute_def
  mysqlComStmtSendLong_def mysqlComStmtClose_def

definition mysqlEventPrefix :: bytes where "mysqlEventPrefix = ''mysql_''"
definition mysqlCommandConnect :: bytes where "mysqlCommandConnect = ''connect''"
definition mysqlCommandQuery :: bytes where "mysqlCommandQuery = ''query''"
definition mysqlCommandPrepare :: bytes where "mysqlCommandPrepare = ''prepare''"
definition mysqlCommandExecute :: bytes where "mysqlCommandExecute = ''execute''"
definition mysqlEventConnect :: bytes where "mysqlEventConnect = ''mysql_connect''"
definition mysqlEventTLS :: bytes where "mysqlEventTLS = ''mysql_tls''"
definition mysqlEventOK :: bytes where "mysqlEventOK = ''mysql_ok''"
definition mysqlEventError :: bytes where "mysqlEventError = ''mysql_error''"
definition mysqlEventResult :: bytes where "mysqlEventResult = ''mysql_result''"

lemmas mysql_names = mysqlEventPrefix_def mysqlCommandConnect_def mysqlCommandQuery_def mysqlCommandPrepare_def
  mysqlCommandExecute_def mysqlEventConnect_def mysqlEventTLS_def mysqlEventOK_def mysqlEventError_def
  mysqlEventResult_def

definition mysqlResponseEvent :: "bytes \<Rightarrow> bool" where
  "mysqlResponseEvent name \<longleftrightarrow> name = mysqlEventOK \<or> name = mysqlEventError \<or> name = mysqlEventResult"

definition mysqlKnownCommands :: bytes where
  "mysqlKnownCommands = [CHR 0x01, CHR 0x02, CHR 0x03, CHR 0x04, CHR 0x09, CHR 0x0E, CHR 0x11, CHR 0x16,
     CHR 0x17, CHR 0x18, CHR 0x19, CHR 0x1A, CHR 0x1B, CHR 0x1C, CHR 0x1F]"

subsection \<open>State\<close>

datatype mysqlPhase = MysqlCommand | MysqlGreeting | MysqlAuth | MysqlDead

record mysqlBareHeader =
  bh_length :: nat
  bh_seq :: "8 word"
  bh_at :: u64
  bh_ok :: bool

definition bare0 :: mysqlBareHeader where
  "bare0 = \<lparr>bh_length = 0, bh_seq = 0, bh_at = 0, bh_ok = False\<rparr>"

record mysqlPending =
  pd_at :: u64
  pd_command :: bytes
  pd_sql :: bytes
  pd_sqlTruncated :: bool
  pd_statementID :: u32
  pd_silent :: bool

record mysqlStatement =
  sm_sql :: bytes
  sm_truncated :: bool

record mysqlConn =
  cn_phase :: mysqlPhase
  cn_synced :: bool
  cn_request :: mysqlStream
  cn_response :: mysqlStream
  cn_requestHeader :: mysqlBareHeader
  cn_responseHeader :: mysqlBareHeader
  cn_version :: bytes
  cn_serverCaps :: u32
  cn_serverKnown :: bool
  cn_clientCaps :: u32
  cn_clientKnown :: bool
  cn_compressed :: bool
  cn_lastSeq :: "8 word"
  cn_pending :: "mysqlPending option"
  cn_statements :: "(u32, mysqlStatement) gomap"
  cn_requestWaiting :: bool
  cn_responseWait :: bool

text \<open>The zero value of the struct; a nil map reads like an empty one.\<close>

definition conn0 :: mysqlConn where
  "conn0 = \<lparr>cn_phase = MysqlCommand, cn_synced = False, cn_request = stream0, cn_response = stream0,
     cn_requestHeader = bare0, cn_responseHeader = bare0, cn_version = [], cn_serverCaps = 0,
     cn_serverKnown = False, cn_clientCaps = 0, cn_clientKnown = False, cn_compressed = False,
     cn_lastSeq = 0, cn_pending = None, cn_statements = [], cn_requestWaiting = False,
     cn_responseWait = False\<rparr>"

record mysqlTracker =
  tk_side :: bytes
  tk_showSecrets :: bool
  tk_conns :: "(u64, mysqlConn) gomap"
  tk_waiting :: int
  tk_statements :: int

definition newMySQLTracker :: "bytes \<Rightarrow> bool \<Rightarrow> mysqlTracker" where
  "newMySQLTracker side showSecrets =
     \<lparr>tk_side = side, tk_showSecrets = showSecrets, tk_conns = [], tk_waiting = 0, tk_statements = 0\<rparr>"

record mysqlCall =
  cl_tracker :: mysqlTracker
  cl_conn :: mysqlConn
  cl_record :: mysqlRecord
  cl_side :: bytes
  cl_offset :: u64
  cl_out :: "captureEvent list"

text \<open>\<open>attributes\<close>: whether query attributes are negotiated, and whether that is known.\<close>

definition conn_attributes :: "mysqlConn \<Rightarrow> bool \<times> bool" where
  "conn_attributes conn =
     (if \<not> cn_clientKnown conn then (False, False)
      else (cn_clientCaps conn AND mysqlCapQueryAttributes \<noteq> 0 \<and>
            (\<not> cn_serverKnown conn \<or> cn_serverCaps conn AND mysqlCapQueryAttributes \<noteq> 0), True))"

subsection \<open>Bytes of the protocol\<close>

definition mysqlKnownCommand :: "byte \<Rightarrow> bool" where
  "mysqlKnownCommand command \<longleftrightarrow> index_byte mysqlKnownCommands command \<noteq> None"

definition mysqlCleanCommand :: "bytes \<Rightarrow> nat \<Rightarrow> bool" where
  "mysqlCleanCommand data sz \<longleftrightarrow>
     5 \<le> length data \<and> data ! 3 = CHR 0x00 \<and> mysqlKnownCommand (data ! 4) \<and>
     1 \<le> mysqlLength data \<and> 4 + mysqlLength data = sz"

definition mysqlPrintable :: "byte \<Rightarrow> bool" where
  "mysqlPrintable v \<longleftrightarrow>
     (0x20 \<le> bval v \<and> bval v < 0x7F) \<or> v = CHR 0x09 \<or> v = CHR 0x0A \<or> v = CHR 0x0D"

text \<open>\<open>mysqlLenenc\<close>: the value and the number of bytes it took, 0 when it cannot be read.\<close>

definition mysqlLenenc :: "bytes \<Rightarrow> nat \<times> nat" where
  "mysqlLenenc data =
     (if data = [] then (0, 0)
      else
        (let first = bval (hd data);
             width = (if first = 0xFC then 3 else if first = 0xFD then 4 else if first = 0xFE then 9 else 0)
         in if width = 0 then (if first < 0xFB then (first, 1) else (0, 0))
            else if length data < width then (0, 0)
            else (le_nat (take (width - 1) (tl data)), width)))"

definition mysqlBigCommandStart :: "bytes \<Rightarrow> nat \<Rightarrow> bool" where
  "mysqlBigCommandStart data sz \<longleftrightarrow>
     \<not> (length data < 6 \<or> data ! 3 \<noteq> CHR 0x00 \<or> 4 + mysqlLength data \<le> sz \<or>
        (data ! 4 \<noteq> mysqlComQuery \<and> data ! 4 \<noteq> mysqlComStmtPrepare)) \<and>
     (mysqlPrintable (data ! 5) \<or>
      (data ! 4 = mysqlComQuery \<and> 8 \<le> length data \<and> data ! 5 = CHR 0x00 \<and> data ! 6 = CHR 0x01 \<and>
       mysqlPrintable (data ! 7)))"

definition le_u32 :: "bytes \<Rightarrow> u32" where
  "le_u32 bs = of_nat (le_nat (take 4 bs))"

definition mysqlNotPrintable :: "bytes \<Rightarrow> bool" where
  "mysqlNotPrintable data \<longleftrightarrow> list_ex (\<lambda>v. bval v < 0x20 \<or> 0x7F \<le> bval v) data"

text \<open>
  \<open>mysqlParseGreeting\<close>: the version, the capabilities and whether they are known, or \<open>None\<close>.
  First which bytes may be a greeting, then what they say.
\<close>

definition greeting_payload :: "mysqlRecord \<Rightarrow> mysqlBareHeader \<Rightarrow> bytes" where
  "greeting_payload record bare =
     (let data = rec_payload record in
      if 5 \<le> length data \<and> data ! 3 = CHR 0x00 \<and> rec_size record = 4 + mysqlLength data then drop 4 data
      else if bh_ok bare \<and> bh_seq bare = 0 \<and> rec_size record = bh_length bare then data
      else [])"

definition greeting_fields :: "bytes \<Rightarrow> (bytes \<times> u32 \<times> bool) option" where
  "greeting_fields payload =
     (if length payload < mysqlMinGreetingBytes \<or> payload ! 0 \<noteq> CHR 0x0A then None
      else
        (case index_byte (tl payload) (CHR 0x00) of
           None \<Rightarrow> None
         | Some e \<Rightarrow>
             if e = 0 \<or> mysqlNotPrintable (take e (tl payload)) then None
             else
               (let offset = 1 + e + 1 + 4 + 8 + 1 in
                if offset + 7 \<le> length payload then
                  (let caps = of_nat (le_nat (take 2 (drop offset payload))) OR
                              push_bit 16 (of_nat (le_nat (take 2 (drop (offset + 5) payload)))) :: u32
                   in if caps AND mysqlCapProtocol41 = 0 then None else Some (take e (tl payload), caps, True))
                else Some (take e (tl payload), 0, False))))"

definition mysqlParseGreeting :: "mysqlRecord \<Rightarrow> mysqlBareHeader \<Rightarrow> (bytes \<times> u32 \<times> bool) option" where
  "mysqlParseGreeting record bare = greeting_fields (greeting_payload record bare)"

subsection \<open>The tracker\<close>

definition mysqlCount :: "bool \<Rightarrow> int" where
  "mysqlCount b = (if b then 1 else 0)"

text \<open>\<open>account\<close>, on the connection of the call.\<close>

definition drop_waiting :: "mysqlConn \<Rightarrow> mysqlConn" where
  "drop_waiting conn =
     conn\<lparr>cn_request := stream0, cn_response := stream0, cn_requestWaiting := False, cn_responseWait := False,
       cn_synced := cn_synced conn \<and> cn_phase conn \<noteq> MysqlCommand\<rparr>"

definition account :: "mysqlTracker \<Rightarrow> mysqlConn \<Rightarrow> mysqlTracker \<times> mysqlConn" where
  "account tracker conn =
     (let request = stream_waiting (cn_request conn);
          response = stream_waiting (cn_response conn);
          waiting = tk_waiting tracker + (mysqlCount request - mysqlCount (cn_requestWaiting conn) +
                      mysqlCount response - mysqlCount (cn_responseWait conn));
          conn1 = conn\<lparr>cn_requestWaiting := request, cn_responseWait := response\<rparr>
      in if waiting \<le> mysqlWaitingLimit then (tracker\<lparr>tk_waiting := waiting\<rparr>, conn1)
         else (tracker\<lparr>tk_waiting := 0, tk_conns := map_each drop_waiting (tk_conns tracker)\<rparr>, drop_waiting conn1))"

definition forget :: "mysqlTracker \<Rightarrow> mysqlConn \<Rightarrow> mysqlTracker \<times> mysqlConn" where
  "forget tracker conn =
     (let statements = tk_statements tracker - int (map_len (cn_statements conn));
          waiting = tk_waiting tracker - (mysqlCount (cn_requestWaiting conn) + mysqlCount (cn_responseWait conn))
      in (tracker\<lparr>tk_statements := (if statements < 0 then 0 else statements),
                  tk_waiting := (if waiting < 0 then 0 else waiting)\<rparr>, conn0))"

definition forgetSocket :: "mysqlTracker \<Rightarrow> u64 \<Rightarrow> mysqlTracker" where
  "forgetSocket tracker socket =
     (case map_get (tk_conns tracker) socket of
        None \<Rightarrow> tracker
      | Some conn \<Rightarrow>
          (let tracker1 = fst (forget tracker conn) in
           tracker1\<lparr>tk_conns := map_del socket (tk_conns tracker1)\<rparr>))"

text \<open>\<open>sqlText\<close>.\<close>

definition sqlText :: "bool \<Rightarrow> bytes \<Rightarrow> bool \<Rightarrow> bytes \<times> bool" where
  "sqlText showSecrets raw truncated =
     (let t = (if showSecrets then raw else mysqlMaskSQL raw) in
      if mysqlSQLLimit < length t then (traceEscapeText (traceTrimText t mysqlSQLLimit), True)
      else (traceEscapeText t, truncated))"

text \<open>\<open>remember\<close>: the cap on statements is over all connections; passing it empties them all.\<close>

definition remember :: "u32 \<Rightarrow> mysqlStatement \<Rightarrow> mysqlCall \<Rightarrow> mysqlCall" where
  "remember i statement c =
     (let conn = cl_conn c; tracker = cl_tracker c in
      if map_get (cn_statements conn) i = None then
        (let full = mysqlStatementLimit \<le> tk_statements tracker;
             conns = (if full then map_each (cn_statements_update (\<lambda>_. [])) (tk_conns tracker) else tk_conns tracker);
             count = (if full then 0 else tk_statements tracker);
             statements = (if full then [] else cn_statements conn)
         in c\<lparr>cl_tracker := tracker\<lparr>tk_conns := conns, tk_statements := count + 1\<rparr>,
              cl_conn := conn\<lparr>cn_statements := map_put i statement statements\<rparr>\<rparr>)
      else c\<lparr>cl_conn := conn\<lparr>cn_statements := map_put i statement (cn_statements conn)\<rparr>\<rparr>)"

definition call_event :: "mysqlCall \<Rightarrow> bytes \<Rightarrow> u64 \<Rightarrow> nat \<Rightarrow> traceMySQLEvent \<Rightarrow> captureEvent" where
  "call_event c name tm n info =
     (base_event (cl_record c) (cl_side c) (cl_offset c) ''mysql'' name tm n)\<lparr>ev_mysql := Some info\<rparr>"

definition emit :: "captureEvent \<Rightarrow> mysqlCall \<Rightarrow> mysqlCall" where
  "emit event c = c\<lparr>cl_out := cl_out c @ [event]\<rparr>"

text \<open>
  \<open>respond\<close>. The code fills the pending command into \<open>info\<close> after it has put the pointer into
  the event, so the event carries the filled value.
\<close>

definition respond :: "mysqlPacket \<Rightarrow> mysqlPending option \<Rightarrow> bytes \<Rightarrow> traceMySQLEvent \<Rightarrow> mysqlCall \<Rightarrow> mysqlCall" where
  "respond packet pending name info c =
     (case pending of
        None \<Rightarrow> emit (call_event c name (pk_at packet) (pk_length packet) info) c
      | Some p \<Rightarrow>
          (let filled = info\<lparr>my_command := pd_command p, my_sql := pd_sql p, my_sqlTruncated := pd_sqlTruncated p,
                 my_statementID := (if my_statementID info \<noteq> 0 then my_statementID info else pd_statementID p)\<rparr>
           in emit ((call_event c name (pk_at packet) (pk_length packet) filled)
                    \<lparr>ev_latencyMS := Some (traceSpan (pd_at p) (pk_at packet)), ev_answered := 1\<rparr>) c))"

definition mysqlError :: "mysqlPacket \<Rightarrow> traceMySQLEvent option" where
  "mysqlError packet =
     (let payload = pk_payload packet in
      if pk_length packet < 3 \<or> length payload < 3 then None
      else
        (let info = mysql_event0\<lparr>my_errorCode := le_nat (take 2 (drop 1 payload))\<rparr> in
         if 9 \<le> length payload \<and> payload ! 3 = CHR ''#'' \<and> \<not> mysqlNotPrintable (take 5 (drop 4 payload)) then
           Some (info\<lparr>my_sqlState := take 5 (drop 4 payload), my_message := traceEscapeText (drop 9 payload)\<rparr>)
         else Some (info\<lparr>my_message := traceEscapeText (drop 3 payload)\<rparr>)))"

subsection \<open>Requests\<close>

text \<open>\<open>querySQL\<close>: where the SQL of a COM_QUERY starts, when it can be told.\<close>

definition querySQL :: "mysqlConn \<Rightarrow> bytes \<Rightarrow> nat option" where
  "querySQL conn payload =
     (case conn_attributes conn of (on, known) \<Rightarrow>
        if on then
          (case mysqlLenenc (drop 1 payload) of (count, first) \<Rightarrow>
             case mysqlLenenc (drop (min (1 + first) (length payload)) payload) of (_, second) \<Rightarrow>
               if 0 < first \<and> 0 < second \<and> count = 0 then Some (1 + first + second) else None)
        else if \<not> known \<and> 3 \<le> length payload \<and> payload ! 1 = CHR 0x00 \<and> payload ! 2 = CHR 0x01 then Some 3
        else Some 1)"

text \<open>
  \<open>commandPacket\<close>. \<open>command_info\<close> is the part of the switch that builds the event: \<open>None\<close> is the
  default branch, a command that is consumed silently.
\<close>

definition with_sql :: "bytes \<times> bool \<Rightarrow> traceMySQLEvent \<Rightarrow> traceMySQLEvent" where
  "with_sql t info = info\<lparr>my_sql := fst t, my_sqlTruncated := snd t\<rparr>"

definition command_info :: "bool \<Rightarrow> mysqlConn \<Rightarrow> mysqlPacket \<Rightarrow> traceMySQLEvent option" where
  "command_info showSecrets conn packet =
     (let payload = pk_payload packet; command = hd payload in
      if command = mysqlComQuery then
        (let info = mysql_event0\<lparr>my_command := mysqlCommandQuery\<rparr> in
         case querySQL conn payload of
           None \<Rightarrow> Some info
         | Some start \<Rightarrow> Some (with_sql (sqlText showSecrets (drop start payload) (pk_truncated packet)) info))
      else if command = mysqlComStmtPrepare then
        Some (with_sql (sqlText showSecrets (drop 1 payload) (pk_truncated packet))
               (mysql_event0\<lparr>my_command := mysqlCommandPrepare\<rparr>))
      else if command = mysqlComStmtExecute then
        (let info = mysql_event0\<lparr>my_command := mysqlCommandExecute\<rparr> in
         if 5 \<le> length payload then
           (let i = le_u32 (drop 1 payload) in
            case map_get (cn_statements conn) i of
              None \<Rightarrow> Some (info\<lparr>my_statementID := i\<rparr>)
            | Some st \<Rightarrow> Some (with_sql (sm_sql st, sm_truncated st) (info\<lparr>my_statementID := i\<rparr>)))
         else Some info)
      else None)"

definition close_statement :: "bytes \<Rightarrow> mysqlCall \<Rightarrow> mysqlCall" where
  "close_statement payload c =
     (let i = le_u32 (drop 1 payload) in
      if 5 \<le> length payload \<and> map_get (cn_statements (cl_conn c)) i \<noteq> None then
        c\<lparr>cl_conn := (cl_conn c)\<lparr>cn_statements := map_del i (cn_statements (cl_conn c))\<rparr>,
          cl_tracker := (cl_tracker c)\<lparr>tk_statements := tk_statements (cl_tracker c) - 1\<rparr>\<rparr>
      else c)"

text \<open>A command that waits for its answer, and the event that reports it unless it is silent.\<close>

definition pending_of :: "u64 \<Rightarrow> traceMySQLEvent \<Rightarrow> mysqlPending" where
  "pending_of tm info =
     \<lparr>pd_at = tm, pd_command = my_command info, pd_sql = my_sql info, pd_sqlTruncated = my_sqlTruncated info,
      pd_statementID = my_statementID info, pd_silent = False\<rparr>"

definition silent_pending :: "u64 \<Rightarrow> mysqlPending" where
  "silent_pending tm =
     \<lparr>pd_at = tm, pd_command = [], pd_sql = [], pd_sqlTruncated = False, pd_statementID = 0, pd_silent = True\<rparr>"

definition start_command :: "mysqlPacket \<Rightarrow> mysqlCall \<Rightarrow> mysqlCall" where
  "start_command packet c =
     (case command_info (tk_showSecrets (cl_tracker c)) (cl_conn c) packet of
        None \<Rightarrow> c\<lparr>cl_conn := (cl_conn c)\<lparr>cn_pending := Some (silent_pending (pk_at packet))\<rparr>\<rparr>
      | Some info \<Rightarrow>
          emit (call_event c (mysqlEventPrefix @ my_command info) (pk_at packet) (pk_length packet) info)
            (c\<lparr>cl_conn := (cl_conn c)\<lparr>cn_pending := Some (pending_of (pk_at packet) info)\<rparr>\<rparr>))"

definition commandPacket :: "bool \<Rightarrow> mysqlPacket \<Rightarrow> mysqlCall \<Rightarrow> bool \<times> mysqlCall" where
  "commandPacket full packet c =
     (let payload = pk_payload packet in
      if full then (True, c\<lparr>cl_conn := (cl_conn c)\<lparr>cn_lastSeq := pk_seq packet\<rparr>\<rparr>)
      else if pk_seq packet \<noteq> 0 \<or> payload = [] \<or> \<not> mysqlKnownCommand (hd payload) then
        (False, c\<lparr>cl_conn := (cl_conn c)\<lparr>cn_synced := False\<rparr>\<rparr>)
      else
        (let c1 = c\<lparr>cl_conn := (cl_conn c)\<lparr>cn_lastSeq := 0, cn_pending := None, cn_response := stream0\<rparr>\<rparr> in
         if hd payload = mysqlComQuit \<or> hd payload = mysqlComStmtSendLong then (True, c1)
         else if hd payload = mysqlComStmtClose then (True, close_statement payload c1)
         else (True, start_command packet c1)))"

text \<open>
  \<open>handshakePacket\<close>: \<open>auth_rest\<close> skips the password material, \<open>handshake_database\<close> reads the
  database name after it.
\<close>

definition auth_rest :: "u32 \<Rightarrow> bytes \<Rightarrow> bytes option" where
  "auth_rest caps rest =
     (if caps AND mysqlCapLenencClientData \<noteq> 0 then
        (case mysqlLenenc rest of (n, width) \<Rightarrow>
           if width = 0 \<or> length rest - width < n then None else Some (drop (width + n) rest))
      else if caps AND mysqlCapSecureConnection \<noteq> 0 then
        (if rest = [] \<or> int (bval (hd rest)) > int (length rest) - 1 then None
         else Some (drop (1 + bval (hd rest)) rest))
      else map_option snd (cut_byte rest (CHR 0x00)))"

definition handshake_database :: "u32 \<Rightarrow> bytes \<Rightarrow> bytes option" where
  "handshake_database caps rest =
     (if caps AND mysqlCapConnectWithDB \<noteq> 0 then map_option fst (cut_byte rest (CHR 0x00)) else Some [])"

definition tls_event :: "mysqlPacket \<Rightarrow> mysqlCall \<Rightarrow> mysqlCall" where
  "tls_event packet c =
     emit (call_event c mysqlEventTLS (pk_at packet) (pk_length packet)
            (mysql_event0\<lparr>my_tls := True, my_serverVersion := traceEscapeText (cn_version (cl_conn c))\<rparr>)) c"

definition connect_event :: "mysqlPacket \<Rightarrow> u32 \<Rightarrow> bytes \<Rightarrow> bytes \<Rightarrow> mysqlCall \<Rightarrow> mysqlCall" where
  "connect_event packet caps user database c =
     (let conn = cl_conn c;
          compressed = (caps AND mysqlCapCompress \<noteq> 0 \<and>
            (\<not> cn_serverKnown conn \<or> cn_serverCaps conn AND mysqlCapCompress \<noteq> 0));
          info = mysql_event0\<lparr>my_command := mysqlCommandConnect, my_user := traceEscapeText user,
            my_database := traceEscapeText database, my_serverVersion := traceEscapeText (cn_version conn),
            my_compressed := compressed\<rparr>
      in emit (call_event c mysqlEventConnect (pk_at packet) (pk_length packet) info)
           (c\<lparr>cl_conn := conn\<lparr>cn_compressed := compressed,
               cn_pending := Some \<lparr>pd_at = pk_at packet, pd_command = mysqlCommandConnect, pd_sql = [],
                 pd_sqlTruncated = False, pd_statementID = 0, pd_silent = False\<rparr>,
               cn_phase := MysqlAuth, cn_response := stream0\<rparr>\<rparr>))"

definition handshake_login :: "mysqlPacket \<Rightarrow> u32 \<Rightarrow> mysqlCall \<Rightarrow> mysqlCall" where
  "handshake_login packet caps c =
     (case cut_byte (drop 32 (pk_payload packet)) (CHR 0x00) of
        None \<Rightarrow> c
      | Some (user, rest) \<Rightarrow>
          (case auth_rest caps rest of
             None \<Rightarrow> c
           | Some rest1 \<Rightarrow>
               (case handshake_database caps rest1 of
                  None \<Rightarrow> c
                | Some database \<Rightarrow> connect_event packet caps user database c)))"

definition handshakePacket :: "bool \<Rightarrow> mysqlPacket \<Rightarrow> mysqlCall \<Rightarrow> bool \<times> mysqlCall" where
  "handshakePacket full packet c =
     (let c1 = c\<lparr>cl_conn := (cl_conn c)\<lparr>cn_phase := MysqlDead\<rparr>\<rparr>;
          caps = le_u32 (pk_payload packet)
      in if pk_seq packet \<noteq> 1 \<or> pk_length packet < 32 \<or> length (pk_payload packet) < 32 then (False, c1)
         else if caps AND mysqlCapProtocol41 = 0 then (False, c1)
         else
           (let c2 = c1\<lparr>cl_conn := (cl_conn c1)\<lparr>cn_clientCaps := caps, cn_clientKnown := True\<rparr>\<rparr> in
            if caps AND mysqlCapSSL \<noteq> 0 \<and> pk_length packet = 32 then (False, tls_event packet c2)
            else (False, handshake_login packet caps c2)))"

text \<open>\<open>resync\<close>: the result says whether the record starts a command.\<close>

definition resync :: "mysqlCall \<Rightarrow> bool \<times> mysqlCall" where
  "resync c =
     (let record = cl_record c; data = rec_payload record; sz = rec_size record;
          bare = cn_requestHeader (cl_conn c);
          conn = (cl_conn c)\<lparr>cn_requestHeader := bare0\<rparr>
      in if bh_ok bare \<and> sz = bh_length bare \<and> 0 < length data \<and> mysqlKnownCommand (hd data) then
           (True, c\<lparr>cl_conn := conn\<lparr>cn_request := stream_seed (bh_length bare) (bh_at bare), cn_synced := True\<rparr>\<rparr>)
         else if length data = 4 \<and> sz = 4 \<and> data ! 3 = CHR 0x00 \<and> 1 \<le> mysqlLength data then
           (False, c\<lparr>cl_conn := conn\<lparr>cn_requestHeader :=
              \<lparr>bh_length = mysqlLength data, bh_seq = 0, bh_at = rec_bootTimeNS record, bh_ok = True\<rparr>\<rparr>\<rparr>)
         else if mysqlBigCommandStart data sz then
           (True, c\<lparr>cl_conn := conn\<lparr>cn_request := stream0, cn_synced := True\<rparr>\<rparr>)
         else (False, c\<lparr>cl_conn := conn\<rparr>))"

text \<open>\<open>request\<close>: \<open>request_ready\<close> is the switch before the stream is read.\<close>

definition request_ready :: "mysqlCall \<Rightarrow> bool \<times> mysqlCall" where
  "request_ready c =
     (let conn = cl_conn c; record = cl_record c in
      if mysqlCleanCommand (rec_payload record) (rec_size record) then
        (True, c\<lparr>cl_conn := conn\<lparr>cn_phase := MysqlCommand, cn_synced := True, cn_request := stream0,
            cn_requestHeader := bare0\<rparr>\<rparr>)
      else if cn_phase conn = MysqlAuth then (False, c)
      else if cn_phase conn = MysqlCommand \<and> \<not> cn_synced conn then resync c
      else (True, c))"

definition request_feed :: "mysqlCall \<Rightarrow> mysqlCall" where
  "request_feed c =
     (let record = cl_record c;
          deliver = (if cn_phase (cl_conn c) = MysqlGreeting then handshakePacket else commandPacket)
      in case mysql_feed deliver (rec_payload record) (rec_size record) (rec_bootTimeNS record)
                (cn_request (cl_conn c)) c of
           (kept, st, c1) \<Rightarrow>
             c1\<lparr>cl_conn := (cl_conn c1)\<lparr>cn_request := st, cn_synced := (kept \<and> cn_synced (cl_conn c1))\<rparr>\<rparr>)"

definition request :: "mysqlCall \<Rightarrow> mysqlCall" where
  "request c =
     (if cn_phase (cl_conn c) = MysqlDead then c
      else (case request_ready c of (go_on, c1) \<Rightarrow> if go_on then request_feed c1 else c1))"

subsection \<open>Responses\<close>

definition authPacket :: "bool \<Rightarrow> mysqlPacket \<Rightarrow> mysqlCall \<Rightarrow> bool \<times> mysqlCall" where
  "authPacket full packet c =
     (let payload = pk_payload packet;
          finish = (\<lambda>phase c. (False, c\<lparr>cl_conn := (cl_conn c)\<lparr>cn_phase := phase, cn_pending := None,
                                  cn_request := stream0, cn_synced := True\<rparr>\<rparr>))
      in if payload = [] then (True, c)
         else if hd payload = CHR 0x00 then
           (if pk_length packet < 7 then (True, c)
            else finish (if cn_compressed (cl_conn c) then MysqlDead else MysqlCommand)
                   (respond packet (cn_pending (cl_conn c)) mysqlEventOK mysql_event0 c))
         else if hd payload = CHR 0xFF then
           (case mysqlError packet of
              None \<Rightarrow> (True, c)
            | Some info \<Rightarrow> finish MysqlDead (respond packet (cn_pending (cl_conn c)) mysqlEventError info c))
         else (True, c))"

text \<open>\<open>commandResponse\<close>: the OK packet, the error packet, the short EOF packet and a result header.\<close>

definition ok_response :: "mysqlPacket \<Rightarrow> mysqlPending \<Rightarrow> mysqlCall \<Rightarrow> mysqlCall" where
  "ok_response packet pending c =
     (let payload = pk_payload packet in
      if pd_command pending = mysqlCommandPrepare then
        (if length payload < 5 then c
         else
           (let i = le_u32 (drop 1 payload) in
            respond packet (Some pending) mysqlEventOK (mysql_event0\<lparr>my_statementID := i\<rparr>)
              (remember i \<lparr>sm_sql = pd_sql pending, sm_truncated = pd_sqlTruncated pending\<rparr> c)))
      else
        (case mysqlLenenc (drop 1 payload) of (rows, width) \<Rightarrow>
           if width = 0 \<or> pk_length packet < 1 + width then c
           else respond packet (Some pending) mysqlEventOK (mysql_event0\<lparr>my_affectedRows := Some rows\<rparr>) c))"

definition answer :: "mysqlPacket \<Rightarrow> mysqlPending \<Rightarrow> mysqlCall \<Rightarrow> mysqlCall" where
  "answer packet pending c =
     (let payload = pk_payload packet in
      if hd payload = CHR 0x00 \<and> 7 \<le> pk_length packet then ok_response packet pending c
      else if hd payload = CHR 0xFF then
        (case mysqlError packet of
           None \<Rightarrow> c
         | Some info \<Rightarrow> respond packet (Some pending) mysqlEventError info c)
      else if hd payload = CHR 0xFE \<and> pk_length packet < 9 then
        respond packet (Some pending) mysqlEventOK mysql_event0 c
      else
        (case mysqlLenenc payload of (columns, width) \<Rightarrow>
           if width = pk_length packet \<and> 1 \<le> columns \<and> columns \<le> mysqlColumnLimit then
             respond packet (Some pending) mysqlEventResult (mysql_event0\<lparr>my_columns := columns\<rparr>) c
           else c))"

definition commandResponse :: "bool \<Rightarrow> mysqlPacket \<Rightarrow> mysqlCall \<Rightarrow> bool \<times> mysqlCall" where
  "commandResponse full packet c =
     (let c1 = c\<lparr>cl_conn := (cl_conn c)\<lparr>cn_pending := None\<rparr>\<rparr> in
      case cn_pending (cl_conn c) of
        None \<Rightarrow> (False, c1)
      | Some pending \<Rightarrow>
          if pd_silent pending \<or> pk_seq packet \<noteq> cn_lastSeq (cl_conn c) + 1 \<or> pk_payload packet = [] then (False, c1)
          else (False, answer packet pending c1))"

definition response_feed :: "(bool \<Rightarrow> mysqlPacket \<Rightarrow> mysqlCall \<Rightarrow> bool \<times> mysqlCall) \<Rightarrow> mysqlCall \<Rightarrow> mysqlCall" where
  "response_feed deliver c =
     (let record = cl_record c in
      case mysql_feed deliver (rec_payload record) (rec_size record) (rec_bootTimeNS record)
             (cn_response (cl_conn c)) c of
        (_, st, c1) \<Rightarrow> c1\<lparr>cl_conn := (cl_conn c1)\<lparr>cn_response := st\<rparr>\<rparr>)"

definition response_header :: "mysqlRecord \<Rightarrow> mysqlBareHeader" where
  "response_header record =
     (if length (rec_payload record) = 4 \<and> rec_size record = 4 then
        \<lparr>bh_length = mysqlLength (rec_payload record), bh_seq = of_char (rec_payload record ! 3),
         bh_at = rec_bootTimeNS record, bh_ok = True\<rparr>
      else bare0)"

definition response :: "mysqlCall \<Rightarrow> mysqlCall" where
  "response c =
     (let record = cl_record c; bare = cn_responseHeader (cl_conn c);
          c1 = c\<lparr>cl_conn := (cl_conn c)\<lparr>cn_responseHeader := response_header record\<rparr>\<rparr>
      in case mysqlParseGreeting record bare of
           Some (version, caps, known) \<Rightarrow>
             (case forget (cl_tracker c1) (cl_conn c1) of (tracker, conn) \<Rightarrow>
                c1\<lparr>cl_tracker := tracker,
                  cl_conn := conn\<lparr>cn_phase := MysqlGreeting, cn_synced := True, cn_version := version,
                    cn_serverCaps := caps, cn_serverKnown := known\<rparr>\<rparr>)
         | None \<Rightarrow>
             if cn_phase (cl_conn c1) = MysqlAuth then response_feed authPacket c1
             else if cn_phase (cl_conn c1) = MysqlCommand \<and> cn_pending (cl_conn c1) \<noteq> None then
               response_feed commandResponse c1
             else c1)"

subsection \<open>One record\<close>

definition record_side :: "mysqlRecord \<Rightarrow> bytes" where
  "record_side record = (if rec_server record then traceServerSide else traceClientSide)"

text \<open>The connection of a socket; a new one may first empty the table.\<close>

definition open_conn :: "mysqlTracker \<Rightarrow> u64 \<Rightarrow> mysqlTracker \<times> mysqlConn" where
  "open_conn tracker socket =
     (case map_get (tk_conns tracker) socket of
        Some conn \<Rightarrow> (tracker, conn)
      | None \<Rightarrow>
          (if mysqlSocketLimit \<le> map_len (tk_conns tracker)
           then tracker\<lparr>tk_conns := [], tk_waiting := 0, tk_statements := 0\<rparr> else tracker, conn0))"

definition call_of :: "mysqlTracker \<Rightarrow> mysqlConn \<Rightarrow> mysqlRecord \<Rightarrow> u64 \<Rightarrow> mysqlCall" where
  "call_of tracker conn record offset =
     \<lparr>cl_tracker = tracker, cl_conn = conn, cl_record = record, cl_side = record_side record,
      cl_offset = offset, cl_out = []\<rparr>"

definition handle :: "mysqlCall \<Rightarrow> mysqlCall" where
  "handle c = (if rec_server (cl_record c) \<noteq> rec_sent (cl_record c) then request c else response c)"

definition events :: "mysqlTracker \<Rightarrow> mysqlRecord \<Rightarrow> u64 \<Rightarrow> mysqlTracker \<times> captureEvent list" where
  "events tracker record offset =
     (if tk_side tracker \<noteq> [] \<and> record_side record \<noteq> tk_side tracker then (tracker, [])
      else
        (case open_conn tracker (rec_socket record) of (tracker1, conn) \<Rightarrow>
           let c = handle (call_of tracker1 conn record offset) in
           case account (cl_tracker c) (cl_conn c) of (tracker2, conn2) \<Rightarrow>
             (tracker2\<lparr>tk_conns := map_put (rec_socket record) conn2 (tk_conns tracker2)\<rparr>, cl_out c)))"

end
