(* ===== verification/MySQLSafety.thy ===== *)
theory MySQLSafety
  imports MySQLTracker
begin

text \<open>
  What holds of \<open>mysqlTracker\<close> whatever is on the wire: its two counters are exact and bounded,
  every text of every event is escaped and, without \<open>--show-secrets\<close>, every SQL is masked, an
  answer belongs to exactly one request, and nothing of a login is read. A run is any sequence
  of records and of sockets that are closed.
\<close>

subsection \<open>Runs\<close>

datatype mysqlInput = Record mysqlRecord u64 | Closed u64

definition mysql_step :: "mysqlTracker \<Rightarrow> mysqlInput \<Rightarrow> mysqlTracker \<times> captureEvent list" where
  "mysql_step tracker input =
     (case input of
        Record record offset \<Rightarrow> events tracker record offset
      | Closed socket \<Rightarrow> (forgetSocket tracker socket, []))"

fun mysql_run :: "mysqlTracker \<Rightarrow> mysqlInput list \<Rightarrow> mysqlTracker \<times> captureEvent list" where
  "mysql_run tracker [] = (tracker, [])"
| "mysql_run tracker (input # inputs) =
     (case mysql_step tracker input of (tracker1, out1) \<Rightarrow>
        case mysql_run tracker1 inputs of (tracker2, out2) \<Rightarrow> (tracker2, out1 @ out2))"

lemma mysql_run_append:
  "mysql_run tracker (xs @ ys) =
     (case mysql_run tracker xs of (tracker1, out1) \<Rightarrow>
        case mysql_run tracker1 ys of (tracker2, out2) \<Rightarrow> (tracker2, out1 @ out2))"
  by (induction xs arbitrary: tracker) (simp_all split: prod.split)

subsection \<open>The counters\<close>

definition statement_weight :: "mysqlConn \<Rightarrow> nat" where
  "statement_weight conn = map_len (cn_statements conn)"

definition waiting_weight :: "mysqlConn \<Rightarrow> nat" where
  "waiting_weight conn = (if cn_requestWaiting conn then 1 else 0) + (if cn_responseWait conn then 1 else 0)"

interpretation stmts: counted_map map_get map_put map_del map_len map_each map_total "[]" map_ok statement_weight
  by unfold_locales

interpretation waits: counted_map map_get map_put map_del map_len map_each map_total "[]" map_ok waiting_weight
  by unfold_locales

text \<open>Every SQL that is shown comes out of \<open>sqlText\<close>.\<close>

definition sql_shown :: "bool \<Rightarrow> bytes \<Rightarrow> bool" where
  "sql_shown showSecrets sql \<longleftrightarrow> sql = [] \<or> (\<exists>raw trunc. sql = fst (sqlText showSecrets raw trunc))"

definition info_safe :: "traceMySQLEvent \<Rightarrow> bool" where
  "info_safe info \<longleftrightarrow>
     safe_text (my_command info) \<and> safe_text (my_sql info) \<and> safe_text (my_sqlState info) \<and>
     safe_text (my_message info) \<and> safe_text (my_serverVersion info) \<and> safe_text (my_user info) \<and>
     safe_text (my_database info)"

text \<open>The names of the events that report a request.\<close>

definition request_name :: "bytes \<Rightarrow> bool" where
  "request_name name \<longleftrightarrow> name \<in> {''mysql_connect'', ''mysql_query'', ''mysql_prepare'', ''mysql_execute''}"

definition name_ok :: "bytes \<Rightarrow> bool" where
  "name_ok name \<longleftrightarrow> request_name name \<or> name = mysqlEventTLS \<or> mysqlResponseEvent name"

definition event_ok :: "bool \<Rightarrow> u64 \<Rightarrow> captureEvent \<Rightarrow> bool" where
  "event_ok showSecrets socket e \<longleftrightarrow>
     ev_socketID e = socket \<and> ev_protocol e = ''mysql'' \<and> name_ok (ev_event e) \<and>
     (ev_answered e = 0 \<or> mysqlResponseEvent (ev_event e)) \<and>
     (\<exists>info. ev_mysql e = Some info \<and> info_safe info \<and> sql_shown showSecrets (my_sql info))"

definition text_ok :: "bool \<Rightarrow> bytes \<Rightarrow> bool" where
  "text_ok showSecrets sql \<longleftrightarrow> safe_text sql \<and> sql_shown showSecrets sql"

text \<open>One connection: its texts, its streams, and what a login waits for.\<close>

definition conn_ok :: "bool \<Rightarrow> mysqlConn \<Rightarrow> bool" where
  "conn_ok showSecrets conn \<longleftrightarrow>
     map_ok (cn_statements conn) \<and> stream_ok (cn_request conn) \<and> stream_ok (cn_response conn) \<and>
     (bh_ok (cn_requestHeader conn) \<longrightarrow>
        0 < bh_length (cn_requestHeader conn) \<and> bh_length (cn_requestHeader conn) \<le> mysqlMaxPacket) \<and>
     (\<forall>i st. map_get (cn_statements conn) i = Some st \<longrightarrow> text_ok showSecrets (sm_sql st)) \<and>
     (\<forall>p. cn_pending conn = Some p \<longrightarrow> safe_text (pd_command p) \<and> text_ok showSecrets (pd_sql p)) \<and>
     (cn_phase conn = MysqlAuth \<longrightarrow> (\<exists>p. cn_pending conn = Some p \<and> pd_command p = mysqlCommandConnect \<and> \<not> pd_silent p))"

text \<open>Between two records the flags of a connection say what its streams wait for.\<close>

definition flags_ok :: "mysqlConn \<Rightarrow> bool" where
  "flags_ok conn \<longleftrightarrow>
     cn_requestWaiting conn = stream_waiting (cn_request conn) \<and>
     cn_responseWait conn = stream_waiting (cn_response conn)"

text \<open>
  The tracker while the connection of socket \<open>k\<close> is worked on: the counters count the live value
  of that connection instead of the stored one.
\<close>

definition conns_ok :: "mysqlTracker \<Rightarrow> bool" where
  "conns_ok t \<longleftrightarrow>
     map_ok (tk_conns t) \<and>
     (\<forall>k conn. map_get (tk_conns t) k = Some conn \<longrightarrow> conn_ok (tk_showSecrets t) conn \<and> flags_ok conn)"

definition live_ok :: "mysqlTracker \<Rightarrow> u64 \<Rightarrow> mysqlConn \<Rightarrow> bool" where
  "live_ok t k conn \<longleftrightarrow>
     conns_ok t \<and> conn_ok (tk_showSecrets t) conn \<and>
     stmts.counted (tk_statements t) k conn (tk_conns t) \<and> waits.counted (tk_waiting t) k conn (tk_conns t) \<and>
     tk_statements t \<le> mysqlStatementLimit"

definition tracker_ok :: "mysqlTracker \<Rightarrow> bool" where
  "tracker_ok t \<longleftrightarrow>
     conns_ok t \<and> map_len (tk_conns t) \<le> mysqlSocketLimit \<and>
     tk_statements t = int (map_total statement_weight (tk_conns t)) \<and> tk_statements t \<le> mysqlStatementLimit \<and>
     tk_waiting t = int (map_total waiting_weight (tk_conns t)) \<and> tk_waiting t \<le> mysqlWaitingLimit"

abbreviation call_socket :: "mysqlCall \<Rightarrow> u64" where
  "call_socket c \<equiv> rec_socket (cl_record c)"

definition call_ok :: "mysqlCall \<Rightarrow> bool" where
  "call_ok c \<longleftrightarrow>
     live_ok (cl_tracker c) (call_socket c) (cl_conn c) \<and>
     list_all (event_ok (tk_showSecrets (cl_tracker c)) (call_socket c)) (cl_out c)"

lemma text_ok_sqlText: "text_ok s (fst (sqlText s raw trunc))"
  by (auto simp: text_ok_def sql_shown_def sqlText_def Let_def traceEscapeText_loop escape_loop_safe)

lemma text_ok_Nil [simp]: "text_ok s []"
  by (simp add: text_ok_def sql_shown_def)

lemma safe_text_names [simp]:
  "safe_text mysqlCommandConnect" "safe_text mysqlCommandQuery" "safe_text mysqlCommandPrepare"
  "safe_text mysqlCommandExecute"
  by (simp_all add: mysql_names safe_text.simps traceTextByteKept_def)

lemma live_conn:
  assumes "live_ok t k conn" and "conn_ok (tk_showSecrets t) conn'"
    and "statement_weight conn' = statement_weight conn" and "waiting_weight conn' = waiting_weight conn"
  shows "live_ok t k conn'"
  using assms stmts.counted_same [of "tk_statements t" k conn "tk_conns t" conn']
    waits.counted_same [of "tk_waiting t" k conn "tk_conns t" conn']
  by (simp add: live_ok_def conns_ok_def)

lemma conn_ok_conn0 [simp]: "conn_ok s conn0"
  by (simp add: conn_ok_def conn0_def map_ok_def map_get_def bare0_def)

lemma weights_conn0 [simp]: "statement_weight conn0 = 0" "waiting_weight conn0 = 0"
  by (simp_all add: statement_weight_def waiting_weight_def conn0_def map_len_def)

text \<open>Changing the connection of a call without touching what is counted.\<close>

lemma call_ok_conn:
  assumes "call_ok c" and "conn_ok (tk_showSecrets (cl_tracker c)) conn"
    and "cn_statements conn = cn_statements (cl_conn c)"
    and "cn_requestWaiting conn = cn_requestWaiting (cl_conn c)" "cn_responseWait conn = cn_responseWait (cl_conn c)"
  shows "call_ok (c\<lparr>cl_conn := conn\<rparr>)"
  using assms live_conn [of "cl_tracker c" "call_socket c" "cl_conn c" conn]
  by (simp add: call_ok_def statement_weight_def waiting_weight_def)

lemma call_ok_emit:
  "call_ok c \<Longrightarrow> event_ok (tk_showSecrets (cl_tracker c)) (call_socket c) e \<Longrightarrow> call_ok (emit e c)"
  by (simp add: call_ok_def emit_def)

lemma call_ok_current: "call_ok c \<Longrightarrow> conn_ok (tk_showSecrets (cl_tracker c)) (cl_conn c)"
  by (simp add: call_ok_def live_ok_def)

lemma names_ok [simp]:
  "name_ok mysqlEventConnect" "name_ok mysqlEventTLS" "name_ok mysqlEventOK" "name_ok mysqlEventError"
  "name_ok mysqlEventResult" "name_ok (mysqlEventPrefix @ mysqlCommandQuery)"
  "name_ok (mysqlEventPrefix @ mysqlCommandPrepare)" "name_ok (mysqlEventPrefix @ mysqlCommandExecute)"
  by (simp_all add: name_ok_def request_name_def mysqlResponseEvent_def mysql_names)

lemma event_ok_call_event:
  "name_ok name \<Longrightarrow> info_safe info \<Longrightarrow> sql_shown s (my_sql info) \<Longrightarrow> event_ok s (call_socket c) (call_event c name tm n info)"
  by (simp add: event_ok_def call_event_def base_event_def)

lemma info_safe_event0 [simp]: "info_safe mysql_event0"
  by (simp add: info_safe_def mysql_event0_def)

lemma conn_ok_emptied: "conn_ok s conn \<Longrightarrow> conn_ok s (conn\<lparr>cn_statements := []\<rparr>)"
  by (simp add: conn_ok_def gm.ok_empty gm.get_empty)

lemma conns_ok_each:
  assumes "conns_ok t" and "\<And>conn. conn_ok (tk_showSecrets t) conn \<Longrightarrow> conn_ok (tk_showSecrets t) (g conn)"
    and "\<And>conn. flags_ok conn \<Longrightarrow> flags_ok (g conn)"
    and "tk_conns t' = map_each g (tk_conns t)" and "tk_showSecrets t' = tk_showSecrets t"
  shows "conns_ok t'"
  using assms by (auto simp: conns_ok_def gm.ok_each gm.get_each)

text \<open>\<open>remember\<close> keeps the two counters exact, also when it empties every connection.\<close>

lemma call_ok_remember:
  assumes ok: "call_ok c" and st: "text_ok (tk_showSecrets (cl_tracker c)) (sm_sql st)"
  shows "call_ok (remember i st c)"
proof -
  define t conn k where d: "t = cl_tracker c" "conn = cl_conn c" "k = call_socket c"
  have live: "live_ok t k conn" and outs: "list_all (event_ok (tk_showSecrets t) k) (cl_out c)"
    using ok by (simp_all add: call_ok_def d)
  then have cok: "conn_ok (tk_showSecrets t) conn" "map_ok (cn_statements conn)" "map_ok (tk_conns t)"
    by (simp_all add: live_ok_def conn_ok_def conns_ok_def)
  have put: "conn_ok (tk_showSecrets t) (conn\<lparr>cn_statements := map_put i st m\<rparr>)"
    if "map_ok m" "\<And>j s. map_get m j = Some s \<Longrightarrow> text_ok (tk_showSecrets t) (sm_sql s)" for m
    using cok(1) that st by (auto simp: conn_ok_def gm.ok_put gm.get_put d split: if_splits)
  have own: "text_ok (tk_showSecrets t) (sm_sql s)" if "map_get (cn_statements conn) j = Some s" for j s
    using cok(1) that by (auto simp: conn_ok_def)
  show ?thesis
  proof (cases "map_get (cn_statements conn) i")
    case (Some old)
    then have "remember i st c = c\<lparr>cl_conn := conn\<lparr>cn_statements := map_put i st (cn_statements conn)\<rparr>\<rparr>"
      by (simp add: remember_def Let_def d)
    moreover have "live_ok t k (conn\<lparr>cn_statements := map_put i st (cn_statements conn)\<rparr>)"
      using Some put [OF cok(2) own] by (intro live_conn [OF live])
        (simp_all add: statement_weight_def waiting_weight_def gm.len_put)
    ultimately show ?thesis using outs by (simp add: call_ok_def d)
  next
    case None
    show ?thesis
    proof (cases "mysqlStatementLimit \<le> tk_statements t")
      case True
      let ?conn = "conn\<lparr>cn_statements := map_put i st []\<rparr>"
      let ?conns = "map_each (cn_statements_update (\<lambda>_. [])) (tk_conns t)"
      have r: "remember i st c = c\<lparr>cl_tracker := t\<lparr>tk_conns := ?conns, tk_statements := 1\<rparr>, cl_conn := ?conn\<rparr>"
        using None True by (simp add: remember_def Let_def d)
      have empty: "stmts.counted 0 k (conn\<lparr>cn_statements := []\<rparr>) ?conns"
        using cok(3) by (intro stmts.counted_emptied) (simp_all add: statement_weight_def map_len_def)
      have "stmts.counted (0 + 1) k ?conn ?conns"
        by (rule stmts.counted_swap [OF empty]) (simp_all add: cok(3) gm.ok_each statement_weight_def map_len_def map_put_def)
      moreover have "waits.counted (tk_waiting t) k ?conn ?conns"
      proof -
        have "waits.counted (tk_waiting t) k conn ?conns"
          by (rule waits.counted_kept) (use live cok(3) in \<open>simp_all add: live_ok_def waiting_weight_def\<close>)
        then show ?thesis by (rule waits.counted_same) (simp_all add: cok(3) gm.ok_each waiting_weight_def)
      qed
      moreover have "conns_ok (t\<lparr>tk_conns := ?conns, tk_statements := 1\<rparr>)"
        by (rule conns_ok_each [of t "cn_statements_update (\<lambda>_. [])"])
          (use live in \<open>simp_all add: live_ok_def conn_ok_emptied flags_ok_def\<close>)
      moreover have "conn_ok (tk_showSecrets t) ?conn"
        by (rule put) (simp_all add: map_ok_def map_get_def)
      ultimately have "live_ok (t\<lparr>tk_conns := ?conns, tk_statements := 1\<rparr>) k ?conn"
        by (simp add: live_ok_def mysqlStatementLimit_def)
      then show ?thesis using outs unfolding r call_ok_def d by simp
    next
      case False
      let ?conn = "conn\<lparr>cn_statements := map_put i st (cn_statements conn)\<rparr>"
      have r: "remember i st c = c\<lparr>cl_tracker := t\<lparr>tk_conns := tk_conns t, tk_statements := tk_statements t + 1\<rparr>, cl_conn := ?conn\<rparr>"
        using None False by (simp add: remember_def Let_def d)
      have "stmts.counted (tk_statements t + 1) k ?conn (tk_conns t)"
        by (rule stmts.counted_swap [of _ _ conn])
          (use live None cok(3) in \<open>simp_all add: live_ok_def statement_weight_def gm.len_put\<close>)
      moreover have "waits.counted (tk_waiting t) k ?conn (tk_conns t)"
        by (rule waits.counted_same [of _ _ conn]) (use live cok(3) in \<open>simp_all add: live_ok_def waiting_weight_def\<close>)
      moreover have "conn_ok (tk_showSecrets t) ?conn" by (rule put [OF cok(2) own])
      ultimately have "live_ok (t\<lparr>tk_conns := tk_conns t, tk_statements := tk_statements t + 1\<rparr>) k ?conn"
        using live False by (simp add: live_ok_def conns_ok_def)
      then show ?thesis using outs unfolding r call_ok_def d by simp
    qed
  qed
qed


lemma event_ok_more:
  "event_ok s k e \<Longrightarrow> mysqlResponseEvent (ev_event e) \<Longrightarrow> event_ok s k (e\<lparr>ev_latencyMS := l, ev_answered := n\<rparr>)"
  by (simp add: event_ok_def)

lemma event_call_event [simp]: "ev_event (call_event c name tm n info) = name"
  by (simp add: call_event_def base_event_def)

lemma response_names_ok [simp]:
  "mysqlResponseEvent mysqlEventOK" "mysqlResponseEvent mysqlEventError" "mysqlResponseEvent mysqlEventResult"
  by (simp_all add: mysqlResponseEvent_def)

lemma call_ok_respond:
  assumes ok: "call_ok c" and name: "mysqlResponseEvent name" and info: "info_safe info" "my_sql info = []"
    and p: "\<And>p. pending = Some p \<Longrightarrow> safe_text (pd_command p) \<and> text_ok (tk_showSecrets (cl_tracker c)) (pd_sql p)"
  shows "call_ok (respond packet pending name info c)"
proof (cases pending)
  case None
  have "event_ok (tk_showSecrets (cl_tracker c)) (call_socket c) (call_event c name (pk_at packet) (pk_length packet) info)"
    by (rule event_ok_call_event) (simp_all add: info sql_shown_def name_ok_def name)
  with None show ?thesis using call_ok_emit [OF ok] by (simp add: respond_def)
next
  case (Some q)
  have "info_safe (info\<lparr>my_command := pd_command q, my_sql := pd_sql q, my_sqlTruncated := pd_sqlTruncated q,
      my_statementID := i\<rparr>)" for i
    using info(1) p [OF Some] by (simp add: info_safe_def text_ok_def)
  then show ?thesis
    using p [OF Some] Some info(1) unfolding respond_def Let_def
    by (auto intro!: call_ok_emit [OF ok] event_ok_more event_ok_call_event simp: text_ok_def info_safe_def name name_ok_def)
qed

lemma info_safe_mysqlError:
  assumes "mysqlError packet = Some info"
  shows "info_safe info" "my_sql info = []"
proof -
  define state where "state = take 5 (drop 4 (pk_payload packet))"
  have state: "safe_text state" if "\<not> mysqlNotPrintable state"
  proof -
    have "list_all traceTextByteKept state"
      using that by (auto simp: mysqlNotPrintable_def list_all_iff list_ex_iff traceTextByteKept_def)
    then show ?thesis using safe_text_kept [of state "[]"] by simp
  qed
  have "info_safe info \<and> my_sql info = []"
    using assms state unfolding mysqlError_def Let_def state_def [symmetric]
    by (auto simp: info_safe_def mysql_event0_def split: if_splits)
  then show "info_safe info" "my_sql info = []" by simp_all
qed

text \<open>
  What no operation on a call changes: the record, the options, and of the stored connections the
  set of sockets, their phase and what they wait for.
\<close>

definition conn_view :: "mysqlConn \<Rightarrow> mysqlPhase \<times> mysqlPending option \<times> 8 word" where
  "conn_view conn = (cn_phase conn, cn_pending conn, cn_lastSeq conn)"

definition stored_view :: "mysqlTracker \<Rightarrow> u64 \<Rightarrow> (mysqlPhase \<times> mysqlPending option \<times> 8 word) option" where
  "stored_view t k = map_option conn_view (map_get (tk_conns t) k)"

definition same_call :: "mysqlCall \<Rightarrow> mysqlCall \<Rightarrow> bool" where
  "same_call c d \<longleftrightarrow>
     cl_record d = cl_record c \<and> cl_side d = cl_side c \<and>
     tk_side (cl_tracker d) = tk_side (cl_tracker c) \<and>
     tk_showSecrets (cl_tracker d) = tk_showSecrets (cl_tracker c) \<and>
     map_len (tk_conns (cl_tracker d)) = map_len (tk_conns (cl_tracker c)) \<and>
     stored_view (cl_tracker d) = stored_view (cl_tracker c)"

lemma stored_view_None: "stored_view t k = None \<longleftrightarrow> map_get (tk_conns t) k = None"
  by (simp add: stored_view_def)

lemma stored_view_each: "(\<And>conn. conn_view (g conn) = conn_view conn) \<Longrightarrow>
   stored_view (t\<lparr>tk_conns := map_each g (tk_conns t)\<rparr>) = stored_view t"
  by (simp add: stored_view_def fun_eq_iff gm.get_each option.map_comp o_def)

lemma stored_view_same: "tk_conns t' = tk_conns t \<Longrightarrow> stored_view t' = stored_view t"
  by (simp add: stored_view_def fun_eq_iff)

lemma same_call_refl [simp]: "same_call c c"
  by (simp add: same_call_def)

lemma same_call_trans: "same_call c d \<Longrightarrow> same_call d e \<Longrightarrow> same_call c e"
  by (simp add: same_call_def)

lemma same_call_conn [simp]: "same_call c (d\<lparr>cl_conn := conn\<rparr>) = same_call c d"
  by (simp add: same_call_def)

lemma same_call_out [simp]: "same_call c (emit e d) = same_call c d"
  by (simp add: same_call_def emit_def)

lemma same_call_respond [simp]: "same_call c (respond packet pending name info d) = same_call c d"
  by (simp add: respond_def Let_def split: option.split)

lemma same_call_remember [simp]: "same_call c (remember i st d) = same_call c d"
proof -
  have "stored_view (t\<lparr>tk_conns := map_each (cn_statements_update (\<lambda>_. [])) (tk_conns t), tk_statements := n\<rparr>) = stored_view t" for t n
    using stored_view_each [of "cn_statements_update (\<lambda>_. [])" t]
    by (simp add: conn_view_def stored_view_def fun_eq_iff)
  moreover have "stored_view (t\<lparr>tk_conns := tk_conns t, tk_statements := n\<rparr>) = stored_view t" for t n
    by (rule stored_view_same) simp
  ultimately show ?thesis by (simp add: remember_def same_call_def Let_def gm.len_each)
qed

lemma same_call_close [simp]: "same_call c (close_statement payload d) = same_call c d"
  using stored_view_same [of "(cl_tracker d)\<lparr>tk_statements := tk_statements (cl_tracker d) - 1\<rparr>" "cl_tracker d"]
  by (simp add: close_statement_def same_call_def Let_def)

text \<open>The requests.\<close>

lemma conn_ok_begin:
  "conn_ok s conn \<Longrightarrow> cn_phase conn \<noteq> MysqlAuth \<Longrightarrow>
   conn_ok s (conn\<lparr>cn_lastSeq := q, cn_pending := None, cn_response := stream0\<rparr>)"
  by (simp add: conn_ok_def)

lemma conn_ok_pending:
  "conn_ok s conn \<Longrightarrow> cn_phase conn \<noteq> MysqlAuth \<Longrightarrow> safe_text (pd_command p) \<Longrightarrow> text_ok s (pd_sql p) \<Longrightarrow>
   conn_ok s (conn\<lparr>cn_pending := Some p\<rparr>)"
  by (simp add: conn_ok_def)

lemma call_ok_close:
  assumes ok: "call_ok c"
  shows "call_ok (close_statement payload c)"
proof -
  define t conn k i where d: "t = cl_tracker c" "conn = cl_conn c" "k = call_socket c" "i = le_u32 (drop 1 payload)"
  have live: "live_ok t k conn" and outs: "list_all (event_ok (tk_showSecrets t) k) (cl_out c)"
    using ok by (simp_all add: call_ok_def d)
  then have cok: "conn_ok (tk_showSecrets t) conn" "map_ok (cn_statements conn)" "map_ok (tk_conns t)"
    by (simp_all add: live_ok_def conn_ok_def conns_ok_def)
  show ?thesis
  proof (cases "5 \<le> length payload \<and> map_get (cn_statements conn) i \<noteq> None")
    case True
    then obtain old where old: "map_get (cn_statements conn) i = Some old" by auto
    let ?conn = "conn\<lparr>cn_statements := map_del i (cn_statements conn)\<rparr>"
    have r: "close_statement payload c = c\<lparr>cl_conn := ?conn, cl_tracker := t\<lparr>tk_statements := tk_statements t - 1\<rparr>\<rparr>"
      using True by (simp add: close_statement_def Let_def d)
    have ge: "0 < map_len (cn_statements conn)" using old by (cases "cn_statements conn") (simp_all add: map_get_def map_len_def)
    have "stmts.counted (tk_statements t + - 1) k ?conn (tk_conns t)"
      by (rule stmts.counted_swap [of _ _ conn])
        (use live old ge cok in \<open>simp_all add: live_ok_def statement_weight_def gm.len_del of_nat_diff\<close>)
    moreover have "waits.counted (tk_waiting t) k ?conn (tk_conns t)"
      by (rule waits.counted_same [of _ _ conn]) (use live cok in \<open>simp_all add: live_ok_def waiting_weight_def\<close>)
    moreover have "conn_ok (tk_showSecrets t) ?conn"
      using cok by (auto simp: conn_ok_def gm.ok_del gm.get_del)
    ultimately have "live_ok (t\<lparr>tk_statements := tk_statements t - 1\<rparr>) k ?conn"
      using live by (simp add: live_ok_def conns_ok_def)
    then show ?thesis using outs unfolding r call_ok_def d by simp
  next
    case False
    then have "close_statement payload c = c" by (auto simp: close_statement_def Let_def d)
    with ok show ?thesis by simp
  qed
qed

lemma command_info_ok:
  assumes "conn_ok s conn" and "command_info s conn packet = Some info"
  shows "info_safe info \<and> text_ok s (my_sql info) \<and> safe_text (my_command info)"
proof -
  have sql: "safe_text (fst (sqlText s raw trunc))" "sql_shown s (fst (sqlText s raw trunc))" for raw trunc
    using text_ok_sqlText [of s raw trunc] by (simp_all add: text_ok_def)
  have st: "safe_text (sm_sql st) \<and> sql_shown s (sm_sql st)" if "map_get (cn_statements conn) i = Some st" for i st
    using assms(1) that by (auto simp: conn_ok_def text_ok_def)
  show ?thesis
    using assms(2) st unfolding command_info_def Let_def
    by (auto simp: with_sql_def info_safe_def mysql_event0_def text_ok_def sql sql_shown_def [of s "[]"]
        split: if_splits option.splits)
qed

lemma command_info_command:
  "command_info s conn packet = Some info \<Longrightarrow>
   my_command info \<in> {mysqlCommandQuery, mysqlCommandPrepare, mysqlCommandExecute}"
  by (auto simp: command_info_def with_sql_def Let_def split: if_splits option.splits)

lemma command_info_name: "command_info s conn packet = Some info \<Longrightarrow> name_ok (mysqlEventPrefix @ my_command info)"
  using command_info_command [of s conn packet info] by auto

lemma start_command_ok:
  assumes ok: "call_ok c" and np: "cn_phase (cl_conn c) \<noteq> MysqlAuth"
  shows "call_ok (start_command packet c)"
proof (cases "command_info (tk_showSecrets (cl_tracker c)) (cl_conn c) packet")
  case None
  have "conn_ok (tk_showSecrets (cl_tracker c)) ((cl_conn c)\<lparr>cn_pending := Some (silent_pending (pk_at packet))\<rparr>)"
    by (rule conn_ok_pending [OF call_ok_current [OF ok] np]) (simp_all add: silent_pending_def)
  then have "call_ok (c\<lparr>cl_conn := (cl_conn c)\<lparr>cn_pending := Some (silent_pending (pk_at packet))\<rparr>\<rparr>)"
    by (rule call_ok_conn [OF ok]) simp_all
  with None show ?thesis by (simp add: start_command_def)
next
  case (Some info)
  note info = command_info_ok [OF call_ok_current [OF ok] Some]
  let ?conn = "(cl_conn c)\<lparr>cn_pending := Some (pending_of (pk_at packet) info)\<rparr>"
  have "conn_ok (tk_showSecrets (cl_tracker c)) ?conn"
    by (rule conn_ok_pending [OF call_ok_current [OF ok] np]) (use info in \<open>simp_all add: pending_of_def\<close>)
  then have "call_ok (c\<lparr>cl_conn := ?conn\<rparr>)" by (rule call_ok_conn [OF ok]) simp_all
  moreover have "event_ok (tk_showSecrets (cl_tracker c)) (call_socket c)
      (call_event c (mysqlEventPrefix @ my_command info) (pk_at packet) (pk_length packet) info)"
    by (rule event_ok_call_event) (use info command_info_name [OF Some] in \<open>simp_all add: text_ok_def\<close>)
  ultimately show ?thesis using Some by (simp add: start_command_def call_ok_emit)
qed

lemma same_call_start [simp]: "same_call c (start_command packet d) = same_call c d"
  by (simp add: start_command_def split: option.split)

lemma commandPacket_ok:
  assumes ok: "call_ok c" and np: "cn_phase (cl_conn c) \<noteq> MysqlAuth"
  shows "call_ok (snd (commandPacket full packet c))"
proof -
  note cur = call_ok_current [OF ok]
  define c1 where "c1 = c\<lparr>cl_conn := (cl_conn c)\<lparr>cn_lastSeq := 0, cn_pending := None, cn_response := stream0\<rparr>\<rparr>"
  have c1: "call_ok c1" unfolding c1_def using cur np
    by (intro call_ok_conn [OF ok] conn_ok_begin) simp_all
  have "cn_phase (cl_conn c1) \<noteq> MysqlAuth" using np by (simp add: c1_def)
  moreover have "call_ok (c\<lparr>cl_conn := (cl_conn c)\<lparr>cn_lastSeq := q\<rparr>\<rparr>)" for q
    using cur by (intro call_ok_conn [OF ok]) (simp_all add: conn_ok_def)
  moreover have "call_ok (c\<lparr>cl_conn := (cl_conn c)\<lparr>cn_synced := False\<rparr>\<rparr>)"
    using cur by (intro call_ok_conn [OF ok]) (simp_all add: conn_ok_def)
  ultimately show ?thesis
    using c1 call_ok_close [OF c1] start_command_ok [OF c1]
    unfolding commandPacket_def c1_def [symmetric] Let_def by simp
qed

lemma commandPacket_same [simp]: "same_call c (snd (commandPacket full packet d)) = same_call c d"
  by (simp add: commandPacket_def Let_def)


text \<open>The handshake.\<close>

lemma connect_event_ok:
  assumes ok: "call_ok c"
  shows "call_ok (connect_event packet caps user database c)"
proof -
  define b where "b = (caps AND mysqlCapCompress \<noteq> 0 \<and>
    (\<not> cn_serverKnown (cl_conn c) \<or> cn_serverCaps (cl_conn c) AND mysqlCapCompress \<noteq> 0))"
  let ?conn = "(cl_conn c)\<lparr>cn_compressed := b,
               cn_pending := Some \<lparr>pd_at = pk_at packet, pd_command = mysqlCommandConnect, pd_sql = [],
                 pd_sqlTruncated = False, pd_statementID = 0, pd_silent = False\<rparr>,
               cn_phase := MysqlAuth, cn_response := stream0\<rparr>"
  let ?info = "mysql_event0\<lparr>my_command := mysqlCommandConnect, my_user := traceEscapeText user,
            my_database := traceEscapeText database, my_serverVersion := traceEscapeText (cn_version (cl_conn c)),
            my_compressed := b\<rparr>"
  have "conn_ok (tk_showSecrets (cl_tracker c)) ?conn"
    using call_ok_current [OF ok] by (simp add: conn_ok_def)
  then have "call_ok (c\<lparr>cl_conn := ?conn\<rparr>)" by (rule call_ok_conn [OF ok]) simp_all
  moreover have "event_ok (tk_showSecrets (cl_tracker c)) (call_socket c)
      (call_event c mysqlEventConnect (pk_at packet) (pk_length packet) ?info)"
    by (rule event_ok_call_event) (simp_all add: info_safe_def mysql_event0_def sql_shown_def)
  ultimately show ?thesis
    unfolding connect_event_def b_def [symmetric] Let_def by (intro call_ok_emit) simp_all
qed

lemma same_call_connect [simp]: "same_call c (connect_event packet caps user database d) = same_call c d"
  by (simp add: connect_event_def Let_def)

lemma same_call_login [simp]: "same_call c (handshake_login packet caps d) = same_call c d"
  by (simp add: handshake_login_def split: option.split)

lemma tls_event_ok: "call_ok c \<Longrightarrow> call_ok (tls_event packet c)"
  unfolding tls_event_def
  by (intro call_ok_emit event_ok_call_event) (simp_all add: info_safe_def mysql_event0_def sql_shown_def)

lemma same_call_tls [simp]: "same_call c (tls_event packet d) = same_call c d"
  by (simp add: tls_event_def)

lemma handshake_login_ok: "call_ok c \<Longrightarrow> call_ok (handshake_login packet caps c)"
  using connect_event_ok by (simp add: handshake_login_def split: option.split prod.split)

lemma handshakePacket_ok:
  assumes ok: "call_ok c"
  shows "call_ok (snd (handshakePacket full packet c))"
proof -
  define c1 where "c1 = c\<lparr>cl_conn := (cl_conn c)\<lparr>cn_phase := MysqlDead\<rparr>\<rparr>"
  have c1: "call_ok c1" unfolding c1_def
    using call_ok_current [OF ok] by (intro call_ok_conn [OF ok]) (simp_all add: conn_ok_def)
  have "call_ok (c1\<lparr>cl_conn := (cl_conn c1)\<lparr>cn_clientCaps := caps, cn_clientKnown := True\<rparr>\<rparr>)" for caps
    using call_ok_current [OF c1] by (intro call_ok_conn [OF c1]) (simp_all add: conn_ok_def)
  with c1 show ?thesis
    unfolding handshakePacket_def c1_def [symmetric] Let_def
    by (simp add: tls_event_ok handshake_login_ok)
qed

lemma handshakePacket_same [simp]: "same_call c (snd (handshakePacket full packet d)) = same_call c d"
  by (simp add: handshakePacket_def Let_def)

text \<open>The answers.\<close>

lemma conn_respond [simp]: "cl_conn (respond packet pending name info c) = cl_conn c"
  by (simp add: respond_def emit_def Let_def split: option.split)

lemma tracker_respond [simp]: "cl_tracker (respond packet pending name info c) = cl_tracker c"
  by (simp add: respond_def emit_def Let_def split: option.split)

lemma authPacket_ok:
  assumes ok: "call_ok c"
  shows "call_ok (snd (authPacket full packet c))"
proof -
  note cur = call_ok_current [OF ok]
  have resp: "call_ok (respond packet (cn_pending (cl_conn c)) name info c)"
    if "mysqlResponseEvent name" "info_safe info" "my_sql info = []" for name info
    by (rule call_ok_respond [OF ok that]) (use cur in \<open>simp add: conn_ok_def\<close>)
  have fin: "call_ok (d\<lparr>cl_conn := (cl_conn d)\<lparr>cn_phase := phase, cn_pending := None, cn_request := stream0,
      cn_synced := True\<rparr>\<rparr>)" if "call_ok d" "phase \<noteq> MysqlAuth" for d phase
    using call_ok_current [OF that(1)] that(2) by (intro call_ok_conn [OF that(1)]) (simp_all add: conn_ok_def)
  have e0: "info_safe mysql_event0" "my_sql mysql_event0 = []" by (simp, simp add: mysql_event0_def)
  show ?thesis
    using ok fin [OF resp [OF response_names_ok(1) e0]] fin [OF resp [OF response_names_ok(2) info_safe_mysqlError]]
    by (simp add: authPacket_def Let_def split: option.split)
qed

lemma authPacket_same [simp]: "same_call c (snd (authPacket full packet d)) = same_call c d"
  by (simp add: authPacket_def Let_def split: option.split)

lemma same_call_answer [simp]: "same_call c (answer packet pending d) = same_call c d"
  by (simp add: answer_def ok_response_def Let_def split: option.split prod.split)

lemma tracker_remember [simp]: "tk_showSecrets (cl_tracker (remember i st c)) = tk_showSecrets (cl_tracker c)"
  using same_call_remember [of c i st c] by (simp only: same_call_refl) (simp add: same_call_def)

lemma answer_ok:
  assumes ok: "call_ok c" and p: "safe_text (pd_command p)" "text_ok (tk_showSecrets (cl_tracker c)) (pd_sql p)"
  shows "call_ok (answer packet p c)"
proof -
  have resp: "call_ok (respond packet (Some p) name info d)"
    if "call_ok d" "tk_showSecrets (cl_tracker d) = tk_showSecrets (cl_tracker c)" "mysqlResponseEvent name"
      "info_safe info" "my_sql info = []" for name info d
    by (rule call_ok_respond [OF that(1,3,4,5)]) (use p that(2) in simp)
  have e0: "info_safe mysql_event0" "my_sql mysql_event0 = []" by (simp, simp add: mysql_event0_def)
  have e1: "info_safe (mysql_event0\<lparr>my_statementID := i\<rparr>)" "info_safe (mysql_event0\<lparr>my_affectedRows := r\<rparr>)"
    "info_safe (mysql_event0\<lparr>my_columns := k\<rparr>)" for i r k
    by (simp_all add: info_safe_def mysql_event0_def)
  have e2: "my_sql (mysql_event0\<lparr>my_statementID := i\<rparr>) = []" "my_sql (mysql_event0\<lparr>my_affectedRows := r\<rparr>) = []"
    "my_sql (mysql_event0\<lparr>my_columns := k\<rparr>) = []" for i r k
    by (simp_all add: mysql_event0_def)
  have rem: "call_ok (remember i \<lparr>sm_sql = pd_sql p, sm_truncated = b\<rparr> c)" for i b
    by (rule call_ok_remember [OF ok]) (simp add: p(2))
  have "call_ok (ok_response packet p c)"
    using ok rem resp e1 e2 by (simp add: ok_response_def Let_def split: prod.split)
  then show ?thesis
    using ok resp e0 e1 e2 info_safe_mysqlError
    by (simp add: answer_def Let_def split: prod.split option.split)
qed

lemma commandResponse_ok:
  assumes ok: "call_ok c" and np: "cn_phase (cl_conn c) \<noteq> MysqlAuth"
  shows "call_ok (snd (commandResponse full packet c))"
proof -
  note cur = call_ok_current [OF ok]
  have c1: "call_ok (c\<lparr>cl_conn := (cl_conn c)\<lparr>cn_pending := None\<rparr>\<rparr>)"
    using cur np by (intro call_ok_conn [OF ok]) (simp_all add: conn_ok_def)
  have "safe_text (pd_command p) \<and> text_ok (tk_showSecrets (cl_tracker c)) (pd_sql p)"
    if "cn_pending (cl_conn c) = Some p" for p
    using cur that by (simp add: conn_ok_def)
  then show ?thesis using c1 answer_ok [OF c1]
    by (simp add: commandResponse_def Let_def split: option.split)
qed

lemma commandResponse_same [simp]: "same_call c (snd (commandResponse full packet d)) = same_call c d"
  by (simp add: commandResponse_def Let_def split: option.split)


text \<open>Only the handshake, the end of a login and a clean command move the phase.\<close>

lemma phase_emit [simp]: "cl_conn (emit e c) = cl_conn c"
  by (simp add: emit_def)

lemma phase_remember [simp]: "cn_phase (cl_conn (remember i st c)) = cn_phase (cl_conn c)"
  by (simp add: remember_def Let_def)

lemma phase_command [simp]: "cn_phase (cl_conn (snd (commandPacket full packet c))) = cn_phase (cl_conn c)"
  by (simp add: commandPacket_def close_statement_def start_command_def Let_def split: option.split)

lemma phase_answer [simp]: "cn_phase (cl_conn (answer packet p c)) = cn_phase (cl_conn c)"
  by (simp add: answer_def ok_response_def Let_def split: prod.split option.split)

lemma phase_response [simp]: "cn_phase (cl_conn (snd (commandResponse full packet c))) = cn_phase (cl_conn c)"
  by (simp add: commandResponse_def Let_def split: option.split)

text \<open>A stream is read.\<close>

lemma call_ok_request_stream:
  "call_ok c \<Longrightarrow> stream_ok st \<Longrightarrow> call_ok (c\<lparr>cl_conn := (cl_conn c)\<lparr>cn_request := st, cn_synced := b\<rparr>\<rparr>)"
  using call_ok_current [of c] by (intro call_ok_conn) (simp_all add: conn_ok_def)

lemma call_ok_response_stream:
  "call_ok c \<Longrightarrow> stream_ok st \<Longrightarrow> call_ok (c\<lparr>cl_conn := (cl_conn c)\<lparr>cn_response := st\<rparr>\<rparr>)"
  using call_ok_current [of c] by (intro call_ok_conn) (simp_all add: conn_ok_def)

lemma request_feed_eq:
  "request_feed c =
     (let r = mysql_feed (if cn_phase (cl_conn c) = MysqlGreeting then handshakePacket else commandPacket)
                (rec_payload (cl_record c)) (rec_size (cl_record c)) (rec_bootTimeNS (cl_record c)) (cn_request (cl_conn c)) c;
          d = snd (snd r)
      in d\<lparr>cl_conn := (cl_conn d)\<lparr>cn_request := fst (snd r), cn_synced := (fst r \<and> cn_synced (cl_conn d))\<rparr>\<rparr>)"
  by (simp add: request_feed_def Let_def split: prod.split)

lemma response_feed_eq:
  "response_feed deliver c =
     (let r = mysql_feed deliver (rec_payload (cl_record c)) (rec_size (cl_record c)) (rec_bootTimeNS (cl_record c))
                (cn_response (cl_conn c)) c; d = snd (snd r)
      in d\<lparr>cl_conn := (cl_conn d)\<lparr>cn_response := fst (snd r)\<rparr>\<rparr>)"
  by (simp add: response_feed_def Let_def split: prod.split)

lemma request_feed_ok:
  assumes ok: "call_ok c" and np: "cn_phase (cl_conn c) \<noteq> MysqlAuth"
  shows "call_ok (request_feed c) \<and> same_call c (request_feed c)"
proof -
  define deliver where "deliver = (if cn_phase (cl_conn c) = MysqlGreeting then handshakePacket else commandPacket)"
  define r where "r = mysql_feed deliver (rec_payload (cl_record c)) (rec_size (cl_record c))
    (rec_bootTimeNS (cl_record c)) (cn_request (cl_conn c)) c"
  let ?I = "\<lambda>d. call_ok d \<and> same_call c d \<and> (cn_phase (cl_conn c) \<noteq> MysqlGreeting \<longrightarrow> cn_phase (cl_conn d) \<noteq> MysqlAuth)"
  have "?I (snd (snd r))" unfolding r_def
  proof (rule mysql_feed_keeps)
    show "?I c" using ok np by simp
    show "?I (snd (deliver full p d))" if "?I d" for full p d
      using that handshakePacket_ok [of d full p] commandPacket_ok [of d full p]
      by (simp add: deliver_def)
  qed
  moreover have "stream_ok (fst (snd r))"
    unfolding r_def using call_ok_current [OF ok] by (intro mysql_feed_ok) (simp add: conn_ok_def)
  ultimately show ?thesis
    unfolding request_feed_eq deliver_def [symmetric] r_def [symmetric] Let_def
    by (simp add: call_ok_request_stream)
qed

lemma response_feed_ok:
  assumes ok: "call_ok c"
    and step: "\<And>full p d. call_ok d \<Longrightarrow> Q d \<Longrightarrow> call_ok (snd (deliver full p d)) \<and> Q (snd (deliver full p d))" and "Q c"
    and same: "\<And>full p d. same_call c (snd (deliver full p d)) = same_call c d"
  shows "call_ok (response_feed deliver c) \<and> same_call c (response_feed deliver c)"
proof -
  define r where "r = mysql_feed deliver (rec_payload (cl_record c)) (rec_size (cl_record c))
    (rec_bootTimeNS (cl_record c)) (cn_response (cl_conn c)) c"
  have "call_ok (snd (snd r)) \<and> same_call c (snd (snd r)) \<and> Q (snd (snd r))" unfolding r_def
    by (rule mysql_feed_keeps) (use ok step assms(3) same in auto)
  moreover have "stream_ok (fst (snd r))"
    unfolding r_def using call_ok_current [OF ok] by (intro mysql_feed_ok) (simp add: conn_ok_def)
  ultimately show ?thesis
    unfolding response_feed_eq r_def [symmetric] Let_def by (simp add: call_ok_response_stream)
qed

lemma resync_ok:
  assumes ok: "call_ok c"
  shows "call_ok (snd (resync c))" "same_call c (snd (resync c))" "cn_phase (cl_conn (snd (resync c))) = cn_phase (cl_conn c)"
proof -
  define conn bare where d: "conn = (cl_conn c)\<lparr>cn_requestHeader := bare0\<rparr>" "bare = cn_requestHeader (cl_conn c)"
  note cur = call_ok_current [OF ok]
  let ?s = "tk_showSecrets (cl_tracker c)"
  have upd: "call_ok (c\<lparr>cl_conn := conn'\<rparr>)"
    if "conn_ok ?s conn'" "cn_statements conn' = cn_statements (cl_conn c)"
      "cn_requestWaiting conn' = cn_requestWaiting (cl_conn c)" "cn_responseWait conn' = cn_responseWait (cl_conn c)" for conn'
    by (rule call_ok_conn [OF ok that])
  have seed: "conn_ok ?s (conn\<lparr>cn_request := stream_seed (bh_length bare) (bh_at bare), cn_synced := True\<rparr>)" if "bh_ok bare"
    using cur that by (simp add: conn_ok_def d bare0_def stream_ok_seed)
  have big: "conn_ok ?s (conn\<lparr>cn_request := stream0, cn_synced := True\<rparr>)" "conn_ok ?s conn"
    using cur by (simp_all add: conn_ok_def d bare0_def)
  have hdr: "conn_ok ?s (conn\<lparr>cn_requestHeader :=
      \<lparr>bh_length = mysqlLength data, bh_seq = 0, bh_at = tm, bh_ok = True\<rparr>\<rparr>)" if "1 \<le> mysqlLength data" for data tm
    using cur that mysqlLength_bound [of data] by (simp add: conn_ok_def d)
  have "bh_ok bare \<Longrightarrow> call_ok (c\<lparr>cl_conn := conn\<lparr>cn_request := stream_seed (bh_length bare) (bh_at bare), cn_synced := True\<rparr>\<rparr>)"
    by (rule upd [OF seed]) (simp_all add: d(1))
  moreover have "call_ok (c\<lparr>cl_conn := conn\<lparr>cn_request := stream0, cn_synced := True\<rparr>\<rparr>)" "call_ok (c\<lparr>cl_conn := conn\<rparr>)"
    by (rule upd [OF big(1)]; simp add: d(1)) (rule upd [OF big(2)]; simp add: d(1))
  moreover have "call_ok (c\<lparr>cl_conn := conn\<lparr>cn_requestHeader :=
      \<lparr>bh_length = mysqlLength data, bh_seq = 0, bh_at = tm, bh_ok = True\<rparr>\<rparr>\<rparr>)" if "1 \<le> mysqlLength data" for data tm
    by (rule upd [OF hdr [OF that]]) (simp_all add: d(1))
  ultimately show "call_ok (snd (resync c))"
    unfolding resync_def Let_def d [symmetric] by (auto split: if_split)
  show "same_call c (snd (resync c))" "cn_phase (cl_conn (snd (resync c))) = cn_phase (cl_conn c)"
    unfolding resync_def Let_def by simp_all
qed

lemma request_ready_ok:
  assumes ok: "call_ok c"
  shows "call_ok (snd (request_ready c))" "same_call c (snd (request_ready c))"
    "fst (request_ready c) \<Longrightarrow> cn_phase (cl_conn (snd (request_ready c))) \<noteq> MysqlAuth"
proof -
  have "call_ok (c\<lparr>cl_conn := (cl_conn c)\<lparr>cn_phase := MysqlCommand, cn_synced := True, cn_request := stream0,
            cn_requestHeader := bare0\<rparr>\<rparr>)"
    using call_ok_current [OF ok] by (intro call_ok_conn [OF ok]) (simp_all add: conn_ok_def bare0_def)
  then show "call_ok (snd (request_ready c))" using ok resync_ok [OF ok] by (simp add: request_ready_def Let_def)
  show "same_call c (snd (request_ready c))" using resync_ok [OF ok] by (simp add: request_ready_def Let_def)
  show "fst (request_ready c) \<Longrightarrow> cn_phase (cl_conn (snd (request_ready c))) \<noteq> MysqlAuth"
    using resync_ok(3) [OF ok] by (simp add: request_ready_def Let_def split: if_splits)
qed

lemma request_ok:
  assumes ok: "call_ok c"
  shows "call_ok (request c) \<and> same_call c (request c)"
proof -
  obtain go c1 where r: "request_ready c = (go, c1)" by fastforce
  have "call_ok c1" "same_call c c1" "go \<Longrightarrow> cn_phase (cl_conn c1) \<noteq> MysqlAuth"
    using request_ready_ok [OF ok] r by simp_all
  then show ?thesis
    using request_feed_ok [of c1] same_call_trans [of c c1] ok r by (simp add: request_def)
qed

lemma forget_ok:
  assumes live: "live_ok t k conn" and f: "forget t conn = (t', conn')"
  shows "live_ok t' k conn0" "conn' = conn0" "tk_conns t' = tk_conns t"
    "tk_showSecrets t' = tk_showSecrets t" "tk_side t' = tk_side t"
proof -
  have m: "map_ok (tk_conns t)" using live by (simp add: live_ok_def conns_ok_def)
  have s: "stmts.counted (tk_statements t + (int (statement_weight conn0) - int (statement_weight conn))) k conn0 (tk_conns t)"
    by (rule stmts.counted_swap [of _ _ conn]) (use live m in \<open>simp_all add: live_ok_def\<close>)
  have w: "waits.counted (tk_waiting t + (int (waiting_weight conn0) - int (waiting_weight conn))) k conn0 (tk_conns t)"
    by (rule waits.counted_swap [of _ _ conn]) (use live m in \<open>simp_all add: live_ok_def\<close>)
  have "int (statement_weight conn) \<le> tk_statements t" "int (waiting_weight conn) \<le> tk_waiting t"
    using live m stmts.counted_ge [of "tk_statements t" k conn "tk_conns t"]
      waits.counted_ge [of "tk_waiting t" k conn "tk_conns t"] by (simp_all add: live_ok_def)
  then have eq: "t' = t\<lparr>tk_statements := tk_statements t - int (statement_weight conn),
      tk_waiting := tk_waiting t - int (waiting_weight conn)\<rparr>" "conn' = conn0"
    using f by (auto simp: forget_def Let_def statement_weight_def waiting_weight_def mysqlCount_def split: if_splits)
  then show "live_ok t' k conn0" using live s w by (simp add: live_ok_def conns_ok_def)
  show "conn' = conn0" "tk_conns t' = tk_conns t" "tk_showSecrets t' = tk_showSecrets t" "tk_side t' = tk_side t"
    using eq by simp_all
qed

lemma response_ok:
  assumes ok: "call_ok c"
  shows "call_ok (response c) \<and> same_call c (response c)"
proof -
  define bare where "bare = cn_responseHeader (cl_conn c)"
  define c1 where "c1 = c\<lparr>cl_conn := (cl_conn c)\<lparr>cn_responseHeader := response_header (cl_record c)\<rparr>\<rparr>"
  have c1: "call_ok c1" unfolding c1_def
    using call_ok_current [OF ok] by (intro call_ok_conn [OF ok]) (simp_all add: conn_ok_def)
  have s1: "same_call c c1" by (simp add: c1_def)
  show ?thesis
  proof (cases "mysqlParseGreeting (cl_record c) bare")
    case (Some g)
    obtain version caps known where g: "g = (version, caps, known)" by (cases g)
    obtain t conn where f: "forget (cl_tracker c1) (cl_conn c1) = (t, conn)" by fastforce
    have live: "live_ok (cl_tracker c1) (call_socket c1) (cl_conn c1)" using c1 by (simp add: call_ok_def)
    note fo = forget_ok [OF live f]
    let ?conn = "conn0\<lparr>cn_phase := MysqlGreeting, cn_synced := True, cn_version := version, cn_serverCaps := caps,
      cn_serverKnown := known\<rparr>"
    have "conn_ok (tk_showSecrets t) ?conn"
      using conn_ok_conn0 [of "tk_showSecrets t"] by (simp add: conn_ok_def)
    then have "live_ok t (call_socket c1) ?conn"
      by (rule live_conn [OF fo(1)]) (simp_all add: statement_weight_def waiting_weight_def)
    moreover have "response c = c1\<lparr>cl_tracker := t, cl_conn := ?conn\<rparr>"
      using Some g f fo(2) by (simp add: response_def Let_def bare_def c1_def)
    ultimately show ?thesis using c1 fo(3-5) s1 stored_view_same [OF fo(3)] by (simp add: call_ok_def same_call_def)
  next
    case None
    then have r: "response c =
        (if cn_phase (cl_conn c1) = MysqlAuth then response_feed authPacket c1
         else if cn_phase (cl_conn c1) = MysqlCommand \<and> cn_pending (cl_conn c1) \<noteq> None then
           response_feed commandResponse c1
         else c1)"
      by (auto simp: response_def Let_def bare_def c1_def)
    have a: "call_ok (response_feed authPacket c1) \<and> same_call c1 (response_feed authPacket c1)"
      by (rule response_feed_ok [OF c1, where Q = "\<lambda>_. True"]) (simp_all add: authPacket_ok)
    have b: "call_ok (response_feed commandResponse c1) \<and> same_call c1 (response_feed commandResponse c1)"
      if "cn_phase (cl_conn c1) = MysqlCommand"
      by (rule response_feed_ok [OF c1, where Q = "\<lambda>d. cn_phase (cl_conn d) \<noteq> MysqlAuth"])
        (simp_all add: commandResponse_ok that)
    show ?thesis using a b c1 s1 same_call_trans [OF s1] unfolding r by auto
  qed
qed

lemma handle_ok: "call_ok c \<Longrightarrow> call_ok (handle c) \<and> same_call c (handle c)"
  using request_ok response_ok by (simp add: handle_def)

lemma conn_ok_dropped: "conn_ok s conn \<Longrightarrow> conn_ok s (drop_waiting conn)"
  by (simp add: conn_ok_def drop_waiting_def)

lemma flags_ok_dropped [simp]: "flags_ok (drop_waiting conn)"
  by (simp add: flags_ok_def drop_waiting_def stream_waiting_def stream0_def)

lemma conn_view_dropped [simp]: "conn_view (drop_waiting conn) = conn_view conn"
  by (simp add: conn_view_def drop_waiting_def)

text \<open>\<open>account\<close> brings the waiting counter below its cap.\<close>

lemma account_ok:
  assumes live: "live_ok t k conn" and acc: "account t conn = (t', conn')"
  shows "live_ok t' k conn'" "tk_waiting t' \<le> mysqlWaitingLimit" "tk_showSecrets t' = tk_showSecrets t"
    "tk_side t' = tk_side t" "map_len (tk_conns t') = map_len (tk_conns t)"
    "stored_view t' = stored_view t" "conn_view conn' = conn_view conn" "flags_ok conn'"
proof -
  define request response where r: "request = stream_waiting (cn_request conn)" "response = stream_waiting (cn_response conn)"
  define conn1 where "conn1 = conn\<lparr>cn_requestWaiting := request, cn_responseWait := response\<rparr>"
  define w where "w = tk_waiting t + (mysqlCount request - mysqlCount (cn_requestWaiting conn) +
                      mysqlCount response - mysqlCount (cn_responseWait conn))"
  have m: "map_ok (tk_conns t)" using live by (simp add: live_ok_def conns_ok_def)
  have c1: "conn_ok (tk_showSecrets t) conn1" using live by (simp add: live_ok_def conn_ok_def conn1_def)
  have wc: "waits.counted w k conn1 (tk_conns t)" unfolding w_def
    by (rule waits.counted_swap [of _ _ conn])
      (use live m in \<open>simp_all add: live_ok_def waiting_weight_def conn1_def mysqlCount_def\<close>)
  have sc: "stmts.counted (tk_statements t) k conn1 (tk_conns t)"
    by (rule stmts.counted_same [of _ _ conn]) (use live m in \<open>simp_all add: live_ok_def statement_weight_def conn1_def\<close>)
  have eq: "account t conn = (if w \<le> mysqlWaitingLimit then (t\<lparr>tk_waiting := w\<rparr>, conn1)
      else (t\<lparr>tk_waiting := 0, tk_conns := map_each drop_waiting (tk_conns t)\<rparr>, drop_waiting conn1))"
    by (simp add: account_def Let_def r w_def conn1_def)
  have "live_ok t' k conn' \<and> tk_waiting t' \<le> mysqlWaitingLimit \<and> tk_showSecrets t' = tk_showSecrets t \<and>
    tk_side t' = tk_side t \<and> map_len (tk_conns t') = map_len (tk_conns t) \<and>
    stored_view t' = stored_view t \<and> conn_view conn' = conn_view conn \<and> flags_ok conn'"
  proof (cases "w \<le> mysqlWaitingLimit")
    case True
    then have "t' = t\<lparr>tk_waiting := w\<rparr>" "conn' = conn1" using acc eq by simp_all
    then show ?thesis using live c1 wc sc True stored_view_same [of t' t]
      by (simp add: live_ok_def conns_ok_def conn_view_def conn1_def flags_ok_def r)
  next
    case False
    let ?conns = "map_each drop_waiting (tk_conns t)"
    have "t' = t\<lparr>tk_waiting := 0, tk_conns := ?conns\<rparr>" "conn' = drop_waiting conn1" using False acc eq by simp_all
    moreover have "waits.counted 0 k (drop_waiting conn1) ?conns"
      by (rule waits.counted_emptied [OF m]) (simp_all add: waiting_weight_def drop_waiting_def)
    moreover have "stmts.counted (tk_statements t) k (drop_waiting conn1) ?conns"
    proof -
      have "stmts.counted (tk_statements t) k conn1 ?conns"
        by (rule stmts.counted_kept [OF sc m]) (simp add: statement_weight_def drop_waiting_def)
      then show ?thesis
        by (rule stmts.counted_same) (simp_all add: m gm.ok_each statement_weight_def drop_waiting_def)
    qed
    moreover have "conns_ok (t\<lparr>tk_waiting := 0, tk_conns := ?conns\<rparr>)"
      by (rule conns_ok_each [of t drop_waiting]) (use live in \<open>simp_all add: live_ok_def conn_ok_dropped flags_ok_dropped\<close>)
    ultimately show ?thesis
      using live conn_ok_dropped [OF c1] stored_view_each [of drop_waiting t]
      by (simp add: live_ok_def mysqlWaitingLimit_def gm.len_each stored_view_def fun_eq_iff)
        (simp add: conn_view_def conn1_def)
  qed
  then show "live_ok t' k conn'" "tk_waiting t' \<le> mysqlWaitingLimit" "tk_showSecrets t' = tk_showSecrets t"
    "tk_side t' = tk_side t" "map_len (tk_conns t') = map_len (tk_conns t)"
    "stored_view t' = stored_view t" "conn_view conn' = conn_view conn" "flags_ok conn'" by simp_all
qed


subsection \<open>The invariant of the tracker\<close>

lemma open_conn_ok:
  assumes ok: "tracker_ok t" and o: "open_conn t k = (t', conn)"
  shows "live_ok t' k conn" "tk_showSecrets t' = tk_showSecrets t" "tk_side t' = tk_side t"
    "map_len (tk_conns t') < mysqlSocketLimit \<or> map_get (tk_conns t') k \<noteq> None \<and> map_len (tk_conns t') \<le> mysqlSocketLimit"
proof -
  have m: "map_ok (tk_conns t)" using ok by (simp add: tracker_ok_def conns_ok_def)
  have "live_ok t' k conn \<and> tk_showSecrets t' = tk_showSecrets t \<and> tk_side t' = tk_side t \<and>
    (map_len (tk_conns t') < mysqlSocketLimit \<or> map_get (tk_conns t') k \<noteq> None \<and> map_len (tk_conns t') \<le> mysqlSocketLimit)"
  proof (cases "map_get (tk_conns t) k")
    case (Some old)
    then have "t' = t" "conn = old" using o by (simp_all add: open_conn_def)
    moreover have "live_ok t k old"
      using ok m Some stmts.counted_enter_old [of "tk_statements t" "tk_conns t" k old]
        waits.counted_enter_old [of "tk_waiting t" "tk_conns t" k old]
      by (auto simp: live_ok_def tracker_ok_def conns_ok_def)
    ultimately show ?thesis using ok Some by (simp add: tracker_ok_def)
  next
    case None
    show ?thesis
    proof (cases "mysqlSocketLimit \<le> map_len (tk_conns t)")
      case True
      then have eq: "t' = t\<lparr>tk_conns := [], tk_waiting := 0, tk_statements := 0\<rparr>" "conn = conn0"
        using o None by (auto simp: open_conn_def)
      have "stmts.counted 0 k conn0 []" "waits.counted 0 k conn0 []"
        by (rule stmts.counted_enter_new waits.counted_enter_new; simp add: gm.total_empty gm.get_empty)+
      then show ?thesis
        unfolding eq by (simp add: live_ok_def conns_ok_def gm.ok_empty gm.get_empty mysqlStatementLimit_def
            mysqlSocketLimit_def gm.len_empty)
    next
      case False
      then have eq: "t' = t" "conn = conn0" using o None by (auto simp: open_conn_def)
      have "stmts.counted (tk_statements t) k conn0 (tk_conns t)" "waits.counted (tk_waiting t) k conn0 (tk_conns t)"
        by (rule stmts.counted_enter_new waits.counted_enter_new; use ok None in \<open>simp add: tracker_ok_def\<close>)+
      then show ?thesis using ok False unfolding eq by (simp add: live_ok_def tracker_ok_def)
    qed
  qed
  then show "live_ok t' k conn" "tk_showSecrets t' = tk_showSecrets t" "tk_side t' = tk_side t"
    "map_len (tk_conns t') < mysqlSocketLimit \<or> map_get (tk_conns t') k \<noteq> None \<and> map_len (tk_conns t') \<le> mysqlSocketLimit"
    by blast+
qed

lemma conns_ok_put:
  "conns_ok t \<Longrightarrow> conn_ok (tk_showSecrets t) conn \<Longrightarrow> flags_ok conn \<Longrightarrow> conns_ok (t\<lparr>tk_conns := map_put k conn (tk_conns t)\<rparr>)"
  by (auto simp: conns_ok_def gm.ok_put gm.get_put split: if_splits)

text \<open>The record of a call, and what is left when it is done.\<close>

lemma events_ok:
  assumes ok: "tracker_ok t" and e: "events t record offset = (t', out)"
  shows "tracker_ok t'" "list_all (event_ok (tk_showSecrets t) (rec_socket record)) out"
    "tk_showSecrets t' = tk_showSecrets t" "tk_side t' = tk_side t"
proof -
  let ?k = "rec_socket record"
  have "tracker_ok t' \<and> list_all (event_ok (tk_showSecrets t) ?k) out \<and> tk_showSecrets t' = tk_showSecrets t \<and>
    tk_side t' = tk_side t"
  proof (cases "tk_side t \<noteq> [] \<and> record_side record \<noteq> tk_side t")
    case True
    then have "t' = t" "out = []" using e by (simp_all add: events_def)
    with ok show ?thesis by simp
  next
    case False
    obtain t1 conn where o: "open_conn t ?k = (t1, conn)" by fastforce
    note op = open_conn_ok [OF ok o]
    define c where "c = handle (call_of t1 conn record offset)"
    have start: "call_ok (call_of t1 conn record offset)" using op(1) by (simp add: call_ok_def call_of_def)
    have c: "call_ok c" and same: "same_call (call_of t1 conn record offset) c"
      using handle_ok [OF start] by (simp_all add: c_def)
    then have rc: "cl_record c = record" "tk_showSecrets (cl_tracker c) = tk_showSecrets t" "tk_side (cl_tracker c) = tk_side t"
      "map_len (tk_conns (cl_tracker c)) = map_len (tk_conns t1)"
      "stored_view (cl_tracker c) = stored_view t1"
      using op by (simp_all add: same_call_def call_of_def)
    have live: "live_ok (cl_tracker c) ?k (cl_conn c)" using c rc by (simp add: call_ok_def)
    obtain t2 conn2 where a: "account (cl_tracker c) (cl_conn c) = (t2, conn2)" by fastforce
    note acc = account_ok [OF live a]
    have eq: "t' = t2\<lparr>tk_conns := map_put ?k conn2 (tk_conns t2)\<rparr>" "out = cl_out c"
      using e False o a by (simp_all add: events_def c_def)
    have "conns_ok t'" unfolding eq using acc(1,8) by (intro conns_ok_put) (simp_all add: live_ok_def)
    moreover have "map_len (tk_conns t') \<le> mysqlSocketLimit"
      unfolding eq using op(4) rc(4) acc(5) fun_cong [OF acc(6), of ?k] fun_cong [OF rc(5), of ?k]
        stored_view_None [of t1 ?k] stored_view_None [of t2 ?k] by (auto simp: gm.len_put)
    moreover have "tk_statements t' = int (map_total statement_weight (tk_conns t'))"
      "tk_waiting t' = int (map_total waiting_weight (tk_conns t'))" "tk_statements t' \<le> mysqlStatementLimit"
      using acc(1) by (simp_all add: eq live_ok_def stmts.counted_def waits.counted_def)
    moreover have "tk_waiting t' \<le> mysqlWaitingLimit" using acc(2) by (simp add: eq)
    ultimately have "tracker_ok t'" by (simp add: tracker_ok_def)
    moreover have "list_all (event_ok (tk_showSecrets t) ?k) out" using c rc by (simp add: eq call_ok_def)
    ultimately show ?thesis using acc(3,4) rc by (simp add: eq)
  qed
  then show "tracker_ok t'" "list_all (event_ok (tk_showSecrets t) (rec_socket record)) out"
    "tk_showSecrets t' = tk_showSecrets t" "tk_side t' = tk_side t" by simp_all
qed

lemma forgetSocket_ok:
  assumes ok: "tracker_ok t"
  shows "tracker_ok (forgetSocket t k)" "tk_showSecrets (forgetSocket t k) = tk_showSecrets t"
    "tk_side (forgetSocket t k) = tk_side t"
proof -
  have "tracker_ok (forgetSocket t k) \<and> tk_showSecrets (forgetSocket t k) = tk_showSecrets t \<and>
    tk_side (forgetSocket t k) = tk_side t"
  proof (cases "map_get (tk_conns t) k")
    case None
    with ok show ?thesis by (simp add: forgetSocket_def)
  next
    case (Some conn)
    have "open_conn t k = (t, conn)" using Some by (simp add: open_conn_def)
    note live = open_conn_ok(1) [OF ok this]
    obtain t1 conn1 where f: "forget t conn = (t1, conn1)" by fastforce
    note fo = forget_ok [OF live f]
    have m: "map_ok (tk_conns t)" using ok by (simp add: tracker_ok_def conns_ok_def)
    have eq: "forgetSocket t k = t1\<lparr>tk_conns := map_del k (tk_conns t)\<rparr>"
      using Some f fo(3) by (simp add: forgetSocket_def)
    have g0: "map_total w (map_put k conn0 (tk_conns t)) = map_total w (map_del k (tk_conns t))" if "w conn0 = 0" for w
      using gm.total_put_old [OF m Some, of w conn0] gm.total_del [OF m Some, of w] that by simp
    have "conns_ok (forgetSocket t k)"
      using live fo(4) m unfolding eq by (auto simp: live_ok_def conns_ok_def gm.ok_del gm.get_del split: if_splits)
    moreover have "map_len (map_del k (tk_conns t)) \<le> mysqlSocketLimit"
      using ok m Some by (auto simp: tracker_ok_def gm.len_del)
    moreover have "tk_statements t1 = int (map_total statement_weight (map_del k (tk_conns t)))"
      "tk_waiting t1 = int (map_total waiting_weight (map_del k (tk_conns t)))" "tk_statements t1 \<le> mysqlStatementLimit"
      using fo(1,3) g0 by (simp_all add: live_ok_def stmts.counted_def waits.counted_def)
    moreover have "tk_waiting t1 \<le> tk_waiting t"
      using waits.counted_ge [of "tk_waiting t" k conn "tk_conns t"] live m f
      by (auto simp: forget_def Let_def live_ok_def mysqlCount_def waiting_weight_def split: if_splits)
    ultimately show ?thesis using ok fo(4,5) unfolding eq by (simp add: tracker_ok_def)
  qed
  then show "tracker_ok (forgetSocket t k)" "tk_showSecrets (forgetSocket t k) = tk_showSecrets t"
    "tk_side (forgetSocket t k) = tk_side t" by simp_all
qed

lemma tracker_ok_new: "tracker_ok (newMySQLTracker side showSecrets)"
  by (simp add: tracker_ok_def conns_ok_def newMySQLTracker_def gm.ok_empty gm.get_empty gm.len_empty gm.total_empty
      mysqlStatementLimit_def mysqlWaitingLimit_def mysqlSocketLimit_def)

lemma mysql_step_ok:
  assumes "tracker_ok t" and "mysql_step t input = (t', out)"
  shows "tracker_ok t'" "tk_showSecrets t' = tk_showSecrets t" "tk_side t' = tk_side t"
    "list_all (\<lambda>e. \<exists>k. event_ok (tk_showSecrets t) k e) out"
proof -
  have "tracker_ok t' \<and> tk_showSecrets t' = tk_showSecrets t \<and> tk_side t' = tk_side t \<and>
    list_all (\<lambda>e. \<exists>k. event_ok (tk_showSecrets t) k e) out"
  proof (cases input)
    case (Record r offset)
    then show ?thesis using assms events_ok [OF assms(1), of r offset t' out]
      by (auto simp: mysql_step_def list_all_iff)
  next
    case (Closed k)
    then show ?thesis using assms forgetSocket_ok [OF assms(1), of k] by (auto simp: mysql_step_def)
  qed
  then show "tracker_ok t'" "tk_showSecrets t' = tk_showSecrets t" "tk_side t' = tk_side t"
    "list_all (\<lambda>e. \<exists>k. event_ok (tk_showSecrets t) k e) out" by simp_all
qed

lemma mysql_run_ok:
  "tracker_ok t \<Longrightarrow> mysql_run t inputs = (t', out) \<Longrightarrow>
   tracker_ok t' \<and> tk_showSecrets t' = tk_showSecrets t \<and> list_all (\<lambda>e. \<exists>k. event_ok (tk_showSecrets t) k e) out"
proof (induction inputs arbitrary: t out)
  case (Cons input inputs t out)
  obtain t1 out1 where s: "mysql_step t input = (t1, out1)" by fastforce
  obtain t2 out2 where r: "mysql_run t1 inputs = (t2, out2)" by fastforce
  note st = mysql_step_ok [OF Cons.prems(1) s]
  have eq: "t' = t2" "out = out1 @ out2" using Cons.prems(2) s r by simp_all
  then show ?case using Cons.IH [OF st(1), of out2] r st by simp
qed simp


subsection \<open>Properties\<close>

definition tracker_after :: "bytes \<Rightarrow> bool \<Rightarrow> mysqlInput list \<Rightarrow> mysqlTracker" where
  "tracker_after side showSecrets inputs = fst (mysql_run (newMySQLTracker side showSecrets) inputs)"

text \<open>The packets a connection is in the middle of, and the bytes held for them.\<close>

definition waiting_streams :: "mysqlConn \<Rightarrow> nat" where
  "waiting_streams conn =
     (if stream_waiting (cn_request conn) then 1 else 0) + (if stream_waiting (cn_response conn) then 1 else 0)"

definition waiting_bytes :: "mysqlConn \<Rightarrow> nat" where
  "waiting_bytes conn =
     (if stream_waiting (cn_request conn) \<and> st_headerLen (cn_request conn) = 4 then length (st_held (cn_request conn)) else 0) +
     (if stream_waiting (cn_response conn) \<and> st_headerLen (cn_response conn) = 4 then length (st_held (cn_response conn)) else 0)"

lemma stream_held_bound:
  "stream_ok st \<Longrightarrow> stream_waiting st \<Longrightarrow> st_headerLen st = 4 \<Longrightarrow> length (st_held st) \<le> mysqlPacketKeep"
  by (auto simp: stream_ok_def stream_waiting_def)

lemma waiting_bytes_bound: "conn_ok s conn \<Longrightarrow> waiting_bytes conn \<le> mysqlPacketKeep * waiting_streams conn"
  using stream_held_bound [of "cn_request conn"] stream_held_bound [of "cn_response conn"]
  by (auto simp: conn_ok_def waiting_bytes_def waiting_streams_def)

text \<open>
  C22. The state of the tracker is bounded and its counters are exact after any sequence of
  records and closed sockets: at most 65,536 sockets; \<open>statements\<close> is the number of prepared
  statements of all connections, at most 65,536; \<open>waiting\<close> is the number of streams inside an
  unfinished packet, at most 1,024, and these hold at most 4 MiB together.
\<close>
theorem mysql_tracker_bounded:
  "map_len (tk_conns (tracker_after side showSecrets inputs)) \<le> 65536 \<and>
   tk_statements (tracker_after side showSecrets inputs) =
     int (map_total (\<lambda>conn. map_len (cn_statements conn)) (tk_conns (tracker_after side showSecrets inputs))) \<and>
   tk_statements (tracker_after side showSecrets inputs) \<le> 65536 \<and>
   tk_waiting (tracker_after side showSecrets inputs) =
     int (map_total waiting_streams (tk_conns (tracker_after side showSecrets inputs))) \<and>
   tk_waiting (tracker_after side showSecrets inputs) \<le> 1024 \<and>
   map_total waiting_bytes (tk_conns (tracker_after side showSecrets inputs)) \<le> 4096 * 1024"
proof -
  obtain t out where run: "mysql_run (newMySQLTracker side showSecrets) inputs = (t, out)" by fastforce
  have ok: "tracker_ok t" using mysql_run_ok [OF tracker_ok_new run] by simp
  then have m: "map_ok (tk_conns t)" by (simp add: tracker_ok_def conns_ok_def)
  have w: "map_total waiting_weight (tk_conns t) = map_total waiting_streams (tk_conns t)"
    using ok by (intro map_total_cong [OF m])
      (simp add: tracker_ok_def conns_ok_def flags_ok_def waiting_weight_def waiting_streams_def)
  have "map_total waiting_bytes (tk_conns t) \<le> mysqlPacketKeep * map_total waiting_streams (tk_conns t)"
    by (rule map_total_le [OF m]) (use ok waiting_bytes_bound in \<open>auto simp: tracker_ok_def conns_ok_def\<close>)
  moreover have "map_total waiting_streams (tk_conns t) \<le> 1024"
    using ok w by (simp add: tracker_ok_def mysqlWaitingLimit_def)
  ultimately have "map_total waiting_bytes (tk_conns t) \<le> 4096 * 1024"
    by (simp add: mysqlPacketKeep_def)
  then show ?thesis
    using ok w run unfolding tracker_after_def
    by (simp add: tracker_ok_def mysqlSocketLimit_def mysqlStatementLimit_def mysqlWaitingLimit_def
        statement_weight_def [abs_def])
qed

text \<open>
  C37. Nothing unsafe leaves the tracker. Every event of every run carries a MySQL payload
  whose texts (command, SQL, SQLSTATE, message, version, user, database) are all safe to print,
  and whose SQL is empty or the masked, cut and escaped form of some SQL when secrets are not
  to be shown.
\<close>
theorem mysql_events_safe:
  "list_all (\<lambda>e. \<exists>info. ev_mysql e = Some info \<and> info_safe info \<and>
       (my_sql info = [] \<or> (\<exists>raw trunc. my_sql info = fst (sqlText showSecrets raw trunc))))
     (snd (mysql_run (newMySQLTracker side showSecrets) inputs))"
proof -
  obtain t out where run: "mysql_run (newMySQLTracker side showSecrets) inputs = (t, out)" by fastforce
  have "list_all (\<lambda>e. \<exists>k. event_ok showSecrets k e) out"
    using mysql_run_ok [OF tracker_ok_new run] by (simp add: newMySQLTracker_def)
  then show ?thesis
    unfolding run snd_conv by (rule list.pred_mono_strong) (auto simp: event_ok_def sql_shown_def)
qed

end
