(* ===== verification/MySQLProtocol.thy ===== *)
theory MySQLProtocol
  imports MySQLSafety
begin

text \<open>
  The conversation on one socket: the phase machine of a connection as an abstract step relation
  that the tracker refines, the pairing of answers with requests, the connections the tracker
  refuses to read (a login in progress, a dead connection), and how it finds its place again.
\<close>

subsection \<open>The phases\<close>

text \<open>What one record is to the phase machine.\<close>

datatype phaseInput = Hello | Clean | Other

definition record_input :: "mysqlConn \<Rightarrow> mysqlRecord \<Rightarrow> phaseInput" where
  "record_input conn record =
     (if rec_server record \<noteq> rec_sent record then
        (if mysqlCleanCommand (rec_payload record) (rec_size record) then Clean else Other)
      else if mysqlParseGreeting record (cn_responseHeader conn) \<noteq> None then Hello else Other)"

inductive phase_step :: "mysqlPhase \<Rightarrow> phaseInput \<Rightarrow> mysqlPhase \<Rightarrow> bool" where
  hello: "phase_step p Hello MysqlGreeting"
| clean: "p \<noteq> MysqlDead \<Longrightarrow> phase_step p Clean MysqlCommand"
| dead: "phase_step MysqlDead Clean MysqlDead"
| stay: "phase_step p Other p"
| login: "phase_step MysqlGreeting Other MysqlAuth"
| refused: "phase_step MysqlGreeting Other MysqlDead"
| accepted: "phase_step MysqlAuth Other MysqlCommand"
| rejected: "phase_step MysqlAuth Other MysqlDead"

inductive_cases phase_from_dead: "phase_step MysqlDead i q"
inductive_cases phase_to_auth: "phase_step p i MysqlAuth"
inductive_simps phase_step_hello [simp]: "phase_step p Hello q"
inductive_simps phase_step_clean [simp]: "phase_step p Clean q"
inductive_simps phase_step_other [simp]: "phase_step p Other q"

code_pred phase_step .

lemma phase_handshake:
  "\<not> fst (handshakePacket full packet c) \<and> cn_phase (cl_conn (snd (handshakePacket full packet c))) \<in> {MysqlDead, MysqlAuth}"
  by (auto simp: handshakePacket_def handshake_login_def connect_event_def tls_event_def Let_def
      split: option.split prod.split)

lemma phase_auth:
  "cn_phase (cl_conn c) = MysqlAuth \<Longrightarrow>
   (if fst (authPacket full packet c) then snd (authPacket full packet c) = c
    else cn_phase (cl_conn (snd (authPacket full packet c))) \<in> {MysqlDead, MysqlCommand})"
  by (simp add: authPacket_def Let_def split: option.split)

lemma phase_stream [simp]:
  "cn_phase (cl_conn (d\<lparr>cl_conn := (cl_conn d)\<lparr>cn_request := st, cn_synced := b\<rparr>\<rparr>)) = cn_phase (cl_conn d)"
  "cn_phase (cl_conn (d\<lparr>cl_conn := (cl_conn d)\<lparr>cn_response := st\<rparr>\<rparr>)) = cn_phase (cl_conn d)"
  by simp_all

lemma phase_request_feed_command:
  assumes "cn_phase (cl_conn c) \<noteq> MysqlGreeting"
  shows "cn_phase (cl_conn (request_feed c)) = cn_phase (cl_conn c)"
  unfolding request_feed_eq Let_def phase_stream
  by (rule mysql_feed_keeps [where I = "\<lambda>d. cn_phase (cl_conn d) = cn_phase (cl_conn c)"]) (simp_all add: assms)

lemma phase_request_feed_greeting:
  assumes "cn_phase (cl_conn c) = MysqlGreeting"
  shows "cn_phase (cl_conn (request_feed c)) \<in> {MysqlGreeting, MysqlDead, MysqlAuth}"
  unfolding request_feed_eq Let_def phase_stream
  by (rule mysql_feed_rule [where I = "\<lambda>d. cn_phase (cl_conn d) = MysqlGreeting"])
    (use assms phase_handshake in auto)

lemma phase_response_feed_auth:
  assumes "cn_phase (cl_conn c) = MysqlAuth"
  shows "cn_phase (cl_conn (response_feed authPacket c)) \<in> {MysqlAuth, MysqlDead, MysqlCommand}"
  unfolding response_feed_eq Let_def phase_stream
proof (rule mysql_feed_rule [where I = "\<lambda>d. cn_phase (cl_conn d) = MysqlAuth"])
  show "cn_phase (cl_conn (snd (authPacket full p d))) = MysqlAuth"
    if "cn_phase (cl_conn d) = MysqlAuth" "fst (authPacket full p d)" for full p d
    using phase_auth [OF that(1), of full p] that by simp
  show "cn_phase (cl_conn (snd (authPacket full p d))) \<in> {MysqlAuth, MysqlDead, MysqlCommand}"
    if "cn_phase (cl_conn d) = MysqlAuth" "\<not> fst (authPacket full p d)" for full p d
    using phase_auth [OF that(1), of full p] that by simp
qed (use assms in simp_all)

lemma phase_response_feed_command:
  "cn_phase (cl_conn (response_feed commandResponse c)) = cn_phase (cl_conn c)"
  unfolding response_feed_eq Let_def phase_stream
  by (rule mysql_feed_keeps [where I = "\<lambda>d. cn_phase (cl_conn d) = cn_phase (cl_conn c)"]) simp_all

lemma phase_resync [simp]: "cn_phase (cl_conn (snd (resync c))) = cn_phase (cl_conn c)"
  by (simp add: resync_def Let_def)

lemma record_resync [simp]: "cl_record (snd (resync c)) = cl_record c"
  by (simp add: resync_def Let_def)

lemma phase_request:
  "phase_step (cn_phase (cl_conn c))
     (if mysqlCleanCommand (rec_payload (cl_record c)) (rec_size (cl_record c)) then Clean else Other)
     (cn_phase (cl_conn (request c)))"
proof -
  obtain go c1 where r: "request_ready c = (go, c1)" by fastforce
  show ?thesis
  proof (cases "cn_phase (cl_conn c)")
    case MysqlDead
    then show ?thesis by (auto simp: request_def)
  next
    case MysqlCommand
    then have "cn_phase (cl_conn c1) = MysqlCommand"
      using r by (auto simp: request_ready_def Let_def split: if_splits dest: arg_cong [of _ _ "\<lambda>x. cn_phase (cl_conn (snd x))"])
    then show ?thesis using MysqlCommand r phase_request_feed_command [of c1]
      by (auto simp: request_def)
  next
    case MysqlGreeting
    then have "cn_phase (cl_conn c1) = (if mysqlCleanCommand (rec_payload (cl_record c)) (rec_size (cl_record c))
        then MysqlCommand else MysqlGreeting)" "go"
      using r by (auto simp: request_ready_def Let_def split: if_splits)
    then show ?thesis using MysqlGreeting r phase_request_feed_command [of c1] phase_request_feed_greeting [of c1]
      by (auto simp: request_def split: if_splits)
  next
    case MysqlAuth
    then have "if mysqlCleanCommand (rec_payload (cl_record c)) (rec_size (cl_record c))
        then go \<and> cn_phase (cl_conn c1) = MysqlCommand else \<not> go \<and> c1 = c"
      using r by (auto simp: request_ready_def Let_def split: if_splits)
    then show ?thesis using MysqlAuth r phase_request_feed_command [of c1]
      by (auto simp: request_def split: if_splits)
  qed
qed

lemma phase_response_step:
  "phase_step (cn_phase (cl_conn c))
     (if mysqlParseGreeting (cl_record c) (cn_responseHeader (cl_conn c)) \<noteq> None then Hello else Other)
     (cn_phase (cl_conn (response c)))"
proof (cases "mysqlParseGreeting (cl_record c) (cn_responseHeader (cl_conn c))")
  case (Some g)
  then show ?thesis by (cases g) (simp add: response_def Let_def split: prod.split)
next
  case None
  let ?c1 = "c\<lparr>cl_conn := (cl_conn c)\<lparr>cn_responseHeader := response_header (cl_record c)\<rparr>\<rparr>"
  show ?thesis
    using None phase_response_feed_auth [of ?c1] phase_response_feed_command [of ?c1]
    by (auto simp: response_def Let_def)
qed

lemma phase_handle: "phase_step (cn_phase (cl_conn c)) (record_input (cl_conn c) (cl_record c)) (cn_phase (cl_conn (handle c)))"
  using phase_request [of c] phase_response_step [of c] by (simp add: handle_def record_input_def)


subsection \<open>Answers and requests\<close>

definition request_event :: "captureEvent \<Rightarrow> bool" where
  "request_event e \<longleftrightarrow> ev_event e \<in> {''mysql_connect'', ''mysql_query'', ''mysql_prepare'', ''mysql_execute''}"

definition answered_of :: "captureEvent list \<Rightarrow> nat" where
  "answered_of es = (\<Sum>e\<leftarrow>es. ev_answered e)"

definition requests_of :: "captureEvent list \<Rightarrow> nat" where
  "requests_of es = length (filter request_event es)"

text \<open>1 when a request has been reported and may still be answered.\<close>

definition open_request :: "mysqlPending option \<Rightarrow> nat" where
  "open_request pending = (case pending of None \<Rightarrow> 0 | Some p \<Rightarrow> if pd_silent p then 0 else 1)"

definition credit :: "mysqlCall \<Rightarrow> int" where
  "credit c = int (requests_of (cl_out c)) - int (answered_of (cl_out c)) - int (open_request (cn_pending (cl_conn c)))"

lemma open_request_simps [simp]:
  "open_request None = 0" "open_request (Some p) = (if pd_silent p then 0 else 1)"
  by (simp_all add: open_request_def)

lemma counts_append [simp]:
  "answered_of (xs @ ys) = answered_of xs + answered_of ys" "requests_of (xs @ ys) = requests_of xs + requests_of ys"
  "answered_of [] = 0" "requests_of [] = 0" "answered_of [e] = ev_answered e"
  "requests_of [e] = (if request_event e then 1 else 0)"
  by (simp_all add: answered_of_def requests_of_def)

lemma credit_conn:
  "open_request (cn_pending conn) \<le> open_request (cn_pending (cl_conn c)) \<Longrightarrow> credit c \<le> credit (c\<lparr>cl_conn := conn\<rparr>)"
  by (simp add: credit_def)

lemma call_event_simps [simp]:
  "ev_answered (call_event c name tm n info) = 0"
  by (simp_all add: call_event_def base_event_def)

text \<open>What \<open>respond\<close> adds, and that the events of answers are not requests.\<close>

lemma respond_out:
  "requests_of (cl_out (respond packet pending name info c)) = requests_of (cl_out c) +
     (if name \<in> {''mysql_connect'', ''mysql_query'', ''mysql_prepare'', ''mysql_execute''} then 1 else 0)"
  "answered_of (cl_out (respond packet pending name info c)) = answered_of (cl_out c) + (if pending = None then 0 else 1)"
  by (simp_all add: respond_def emit_def request_event_def Let_def call_event_def base_event_def split: option.split)

lemma response_names [simp]:
  "mysqlEventOK \<notin> {''mysql_connect'', ''mysql_query'', ''mysql_prepare'', ''mysql_execute''}"
  "mysqlEventError \<notin> {''mysql_connect'', ''mysql_query'', ''mysql_prepare'', ''mysql_execute''}"
  "mysqlEventResult \<notin> {''mysql_connect'', ''mysql_query'', ''mysql_prepare'', ''mysql_execute''}"
  by (simp_all add: mysql_names)

lemma out_remember [simp]: "cl_out (remember i st c) = cl_out c"
  by (simp add: remember_def Let_def)

lemma answer_out:
  "requests_of (cl_out (answer packet p c)) = requests_of (cl_out c)"
  "answered_of (cl_out (answer packet p c)) \<le> answered_of (cl_out c) + 1"
  using response_names by (auto simp: answer_def ok_response_def respond_out Let_def split: prod.split option.split)

lemma pending_answer [simp]: "cn_pending (cl_conn (answer packet p c)) = cn_pending (cl_conn c)"
  by (simp add: answer_def ok_response_def remember_def Let_def split: prod.split option.split)

lemma credit_commandResponse: "credit c \<le> credit (snd (commandResponse full packet c))"
proof (cases "cn_pending (cl_conn c)")
  case None
  then show ?thesis by (simp add: commandResponse_def credit_def Let_def)
next
  case (Some p)
  let ?c1 = "c\<lparr>cl_conn := (cl_conn c)\<lparr>cn_pending := None\<rparr>\<rparr>"
  show ?thesis
    using Some answer_out [of packet p ?c1] by (auto simp: commandResponse_def credit_def Let_def)
qed

lemma credit_authPacket:
  assumes "\<And>p. cn_pending (cl_conn c) = Some p \<Longrightarrow> \<not> pd_silent p"
  shows "credit c \<le> credit (snd (authPacket full packet c))"
proof -
  have r: "credit c \<le> credit ((respond packet (cn_pending (cl_conn c)) name info c)
      \<lparr>cl_conn := (cl_conn c)\<lparr>cn_phase := ph, cn_pending := None, cn_request := stream0, cn_synced := True\<rparr>\<rparr>)"
    if "name \<notin> {''mysql_connect'', ''mysql_query'', ''mysql_prepare'', ''mysql_execute''}" for name info ph
    using that assms by (cases "cn_pending (cl_conn c)") (auto simp: credit_def respond_out)
  show ?thesis
    using r [OF response_names(1)] r [OF response_names(2)]
    by (simp add: authPacket_def Let_def split: option.split)
qed

lemma credit_start:
  assumes "cn_pending (cl_conn c) = None"
  shows "credit c \<le> credit (start_command packet c)"
proof (cases "command_info (tk_showSecrets (cl_tracker c)) (cl_conn c) packet")
  case None
  with assms show ?thesis by (simp add: start_command_def credit_def silent_pending_def)
next
  case (Some info)
  have "mysqlEventPrefix @ my_command info \<in> {''mysql_connect'', ''mysql_query'', ''mysql_prepare'', ''mysql_execute''}"
    using command_info_command [OF Some] by (auto simp: mysql_names)
  with Some assms show ?thesis
    by (simp add: start_command_def credit_def emit_def pending_of_def request_event_def)
qed

lemma credit_close [simp]: "credit (close_statement payload c) = credit c"
  by (simp add: close_statement_def credit_def Let_def)

lemma credit_commandPacket: "credit c \<le> credit (snd (commandPacket full packet c))"
proof -
  define c1 where "c1 = c\<lparr>cl_conn := (cl_conn c)\<lparr>cn_lastSeq := 0, cn_pending := None, cn_response := stream0\<rparr>\<rparr>"
  have "credit c \<le> credit c1" unfolding c1_def by (rule credit_conn) simp
  moreover have "credit c1 \<le> credit (start_command packet c1)" by (rule credit_start) (simp add: c1_def)
  moreover have "credit c \<le> credit (c\<lparr>cl_conn := (cl_conn c)\<lparr>cn_lastSeq := q\<rparr>\<rparr>)"
    "credit c \<le> credit (c\<lparr>cl_conn := (cl_conn c)\<lparr>cn_synced := b\<rparr>\<rparr>)" for q b by (rule credit_conn, simp)+
  ultimately show ?thesis
    unfolding commandPacket_def c1_def [symmetric] Let_def by auto
qed

lemma credit_handshake: "credit c \<le> credit (snd (handshakePacket full packet c))"
proof -
  have conn: "credit d \<le> credit (connect_event packet caps user database d)" for caps user database d
    by (auto simp: connect_event_def credit_def emit_def request_event_def mysql_names Let_def open_request_def split: option.split)
  have dead: "credit c \<le> credit (c\<lparr>cl_conn := (cl_conn c)\<lparr>cn_phase := MysqlDead\<rparr>\<rparr>)"
    "credit c \<le> credit (c\<lparr>cl_conn := (cl_conn c)\<lparr>cn_phase := MysqlDead, cn_clientCaps := caps, cn_clientKnown := True\<rparr>\<rparr>)" for caps
    by (rule credit_conn, simp)+
  have tls: "credit d \<le> credit (tls_event packet d)" for d
    by (simp add: tls_event_def credit_def emit_def request_event_def mysql_names)
  have login: "credit d \<le> credit (handshake_login packet caps d)" for caps d
    using conn by (auto simp: handshake_login_def split: option.split prod.split)
  show ?thesis
    using dead order_trans [OF dead(2) tls] order_trans [OF dead(2) login]
    by (simp add: handshakePacket_def Let_def)
qed

lemma credit_request_feed: "credit c \<le> credit (request_feed c)"
proof -
  have "credit (d\<lparr>cl_conn := (cl_conn d)\<lparr>cn_request := st, cn_synced := b\<rparr>\<rparr>) = credit d" for d st b
    by (simp add: credit_def)
  moreover have "credit c \<le> credit (snd (snd (mysql_feed (if cn_phase (cl_conn c) = MysqlGreeting then handshakePacket else commandPacket)
      data sz tm st c)))" for data sz tm st
    by (rule mysql_feed_keeps [where I = "\<lambda>d. credit c \<le> credit d"])
      (auto split: if_splits intro: order_trans [OF _ credit_handshake] order_trans [OF _ credit_commandPacket])
  ultimately show ?thesis unfolding request_feed_eq Let_def by simp
qed

lemma credit_response_feed:
  assumes "J c" and "\<And>full p d. J d \<Longrightarrow> fst (deliver full p d) \<Longrightarrow> J (snd (deliver full p d))"
    and "\<And>full p d. J d \<Longrightarrow> credit d \<le> credit (snd (deliver full p d))"
  shows "credit c \<le> credit (response_feed deliver c)"
proof -
  have "credit (d\<lparr>cl_conn := (cl_conn d)\<lparr>cn_response := st\<rparr>\<rparr>) = credit d" for d st
    by (simp add: credit_def)
  moreover have "credit c \<le> credit (snd (snd (mysql_feed deliver data sz tm st c)))" for data sz tm st
    by (rule mysql_feed_rule [where I = "\<lambda>d. J d \<and> credit c \<le> credit d"])
      (use assms order_trans in blast)+
  ultimately show ?thesis unfolding response_feed_eq Let_def by simp
qed

lemma credit_resync: "credit (snd (resync c)) = credit c"
  by (simp add: resync_def credit_def Let_def)

lemma credit_request: "credit c \<le> credit (request c)"
proof -
  have "credit c \<le> credit (snd (request_ready c))"
    by (simp add: request_ready_def credit_resync Let_def) (simp add: credit_def)
  then show ?thesis
    by (auto simp: request_def split: prod.split intro: order_trans [OF _ credit_request_feed])
qed

lemma credit_response:
  assumes "cn_phase (cl_conn c) = MysqlAuth \<Longrightarrow> \<exists>p. cn_pending (cl_conn c) = Some p \<and> \<not> pd_silent p"
  shows "credit c \<le> credit (response c)"
proof (cases "mysqlParseGreeting (cl_record c) (cn_responseHeader (cl_conn c))")
  case (Some g)
  then show ?thesis
    by (cases g) (simp add: response_def forget_def credit_def conn0_def Let_def)
next
  case None
  let ?c1 = "c\<lparr>cl_conn := (cl_conn c)\<lparr>cn_responseHeader := response_header (cl_record c)\<rparr>\<rparr>"
  have eq: "credit ?c1 = credit c" by (simp add: credit_def)
  have a: "credit ?c1 \<le> credit (response_feed authPacket ?c1)" if "cn_phase (cl_conn c) = MysqlAuth"
  proof (rule credit_response_feed [where J = "\<lambda>d. cn_phase (cl_conn d) = MysqlAuth \<and> (\<forall>p. cn_pending (cl_conn d) = Some p \<longrightarrow> \<not> pd_silent p)"])
    show "cn_phase (cl_conn (snd (authPacket full p d))) = MysqlAuth \<and>
        (\<forall>q. cn_pending (cl_conn (snd (authPacket full p d))) = Some q \<longrightarrow> \<not> pd_silent q)"
      if "cn_phase (cl_conn d) = MysqlAuth \<and> (\<forall>p. cn_pending (cl_conn d) = Some p \<longrightarrow> \<not> pd_silent p)"
        "fst (authPacket full p d)" for full p d
      using phase_auth [of d full p] that by simp
  qed (use assms that credit_authPacket in auto)
  have b: "credit ?c1 \<le> credit (response_feed commandResponse ?c1)"
    by (rule credit_response_feed [where J = "\<lambda>_. True"]) (simp_all add: credit_commandResponse)
  show ?thesis using None a b eq by (auto simp: response_def Let_def)
qed


lemma credit_handle:
  assumes "call_ok c"
  shows "credit c \<le> credit (handle c)"
  using call_ok_current [OF assms] credit_request [of c] credit_response [of c]
  by (auto simp: handle_def conn_ok_def)

text \<open>One record, seen from any socket.\<close>

definition open_at :: "mysqlTracker \<Rightarrow> u64 \<Rightarrow> nat" where
  "open_at t k = (case stored_view t k of None \<Rightarrow> 0 | Some (_, pending, _) \<Rightarrow> open_request pending)"

lemma on_socket_all: "list_all (event_ok s k) es \<Longrightarrow> on_socket j es = (if j = k then es else [])"
  by (induction es) (auto simp: on_socket_def event_ok_def)

lemma open_at_put:
  "open_at (t\<lparr>tk_conns := map_put k conn (tk_conns t)\<rparr>) j =
     (if j = k then open_request (cn_pending conn) else open_at t j)"
  by (simp add: open_at_def stored_view_def gm.get_put conn_view_def)

lemma events_open:
  assumes ok: "tracker_ok t" and e: "events t record offset = (t', out)"
  shows "answered_of (on_socket j out) + open_at t' j \<le> requests_of (on_socket j out) + open_at t j"
proof (cases "tk_side t \<noteq> [] \<and> record_side record \<noteq> tk_side t")
  case True
  then have "t' = t" "out = []" using e by (simp_all add: events_def)
  then show ?thesis by (simp add: on_socket_def)
next
  case False
  let ?k = "rec_socket record"
  obtain t1 conn where o: "open_conn t ?k = (t1, conn)" by fastforce
  note op = open_conn_ok [OF ok o]
  define c0 where "c0 = call_of t1 conn record offset"
  have rec: "cl_record c0 = record" "cl_tracker c0 = t1" by (simp_all add: c0_def call_of_def)
  have start: "call_ok c0" using op(1) by (simp add: c0_def call_ok_def call_of_def)
  note h = handle_ok [OF start]
  obtain t2 conn2 where a: "account (cl_tracker (handle c0)) (cl_conn (handle c0)) = (t2, conn2)" by fastforce
  have "live_ok (cl_tracker (handle c0)) ?k (cl_conn (handle c0))"
    using h rec by (metis call_ok_def same_call_def)
  note acc = account_ok [OF this a]
  have eq: "t' = t2\<lparr>tk_conns := map_put ?k conn2 (tk_conns t2)\<rparr>" "out = cl_out (handle c0)"
    using e False o a by (simp_all add: events_def c0_def)
  have view: "stored_view t2 = stored_view t1" using acc(6) h rec by (simp add: same_call_def)
  have pend: "cn_pending conn2 = cn_pending (cl_conn (handle c0))" using acc(7) by (simp add: conn_view_def)
  have sock: "on_socket j out = (if j = ?k then out else [])"
    using events_ok(2) [OF ok e] by (rule on_socket_all)
  have old: "open_at t1 j \<le> open_at t j" "open_request (cn_pending conn) \<le> open_at t ?k"
    using o by (auto simp: open_conn_def open_at_def stored_view_def conn_view_def gm.get_empty conn0_def
        split: option.splits if_splits)
  have "answered_of out + open_request (cn_pending conn2) \<le> requests_of out + open_request (cn_pending conn)"
    using credit_handle [OF start] unfolding eq pend
    by (simp add: credit_def c0_def call_of_def)
  then show ?thesis
    using old view unfolding sock eq(1) open_at_put
    by (auto simp: open_at_def)
qed

lemma step_open:
  assumes ok: "tracker_ok t" and s: "mysql_step t input = (t', out)"
  shows "answered_of (on_socket j out) + open_at t' j \<le> requests_of (on_socket j out) + open_at t j"
proof (cases input)
  case (Record r offset)
  with s show ?thesis using events_open [OF ok, of r offset] by (simp add: mysql_step_def)
next
  case (Closed k)
  have m: "map_ok (tk_conns t)" using ok by (simp add: tracker_ok_def conns_ok_def)
  have "tk_conns (forgetSocket t k) = (if map_get (tk_conns t) k = None then tk_conns t else map_del k (tk_conns t))"
    by (auto simp: forgetSocket_def forget_def Let_def split: option.splits)
  then have "open_at (forgetSocket t k) j \<le> open_at t j"
    using m by (auto simp: open_at_def stored_view_def gm.get_del)
  with s Closed show ?thesis by (auto simp: mysql_step_def on_socket_def)
qed

lemma run_open:
  "tracker_ok t \<Longrightarrow> mysql_run t inputs = (t', out) \<Longrightarrow>
   answered_of (on_socket j out) + open_at t' j \<le> requests_of (on_socket j out) + open_at t j"
proof (induction inputs arbitrary: t out)
  case Nil
  then show ?case by (simp add: on_socket_def)
next
  case (Cons input inputs t out)
  obtain t1 out1 where s: "mysql_step t input = (t1, out1)" by fastforce
  obtain t2 out2 where r: "mysql_run t1 inputs = (t2, out2)" by fastforce
  have eq: "t' = t2" "out = out1 @ out2" using Cons.prems(2) s r by simp_all
  have "tracker_ok t1" using mysql_step_ok [OF Cons.prems(1) s] by simp
  then have "answered_of (on_socket j out2) + open_at t' j \<le> requests_of (on_socket j out2) + open_at t1 j"
    using Cons.IH [of t1 out2] r eq(1) by simp
  moreover note step_open [OF Cons.prems(1) s, of j]
  ultimately show ?case unfolding eq(2) by simp
qed


subsection \<open>One packet in one record\<close>

text \<open>A fresh stream gives a packet that is alone in its record to the callback, whole.\<close>

lemma feed_whole:
  fixes deliver :: "bool \<Rightarrow> mysqlPacket \<Rightarrow> 's \<Rightarrow> bool \<times> 's" and q :: "8 word" and tm :: u64 and s :: 's
  assumes p: "p \<noteq> []" "length p \<le> mysqlPacketKeep"
  defines "r \<equiv> mysql_feed deliver (encode_packet (q, p)) (length (encode_packet (q, p))) tm stream0 s"
  shows "fst r" "snd (snd r) = snd (deliver False (packet_of tm (q, p)) s)"
proof -
  let ?e = "encode_packet (q, p)"
  define st2 where "st2 = header_done (header_absorb tm ?e stream0)"
  have len: "length p < 2 ^ 24" using p(2) by (simp add: mysqlPacketKeep_def)
  have st2: "st2 = stream0\<lparr>st_header := le_bytes 3 (length p) @ [char_of (unat q)], st_at := tm, st_headerLen := 4, st_length := length p, st_seq := q,
      st_left := length p\<rparr>"
  proof -
    have "idle stream0" by (simp add: idle_def) (simp add: stream0_def)
    moreover have "take (4 + length p) ?e @ [] = ?e" by (simp add: encode_packet_def)
    moreover have "length p \<le> mysqlMaxPacket" using len by (simp add: mysqlMaxPacket_def)
    ultimately have "st2 = stream0\<lparr>st_header := le_bytes 3 (length p) @ [char_of (unat q)], st_headerLen := 4, st_at := tm,
         st_full := (st_length stream0 = mysqlMaxPacket), st_length := length p, st_left := length p,
         st_seq := q, st_held := [], st_delivered := False\<rparr>"
      using absorb_encoded [of stream0 p tm "length p" q "[]"] unfolding st2_def by metis
    then show ?thesis by (simp add: stream0_def mysqlMaxPacket_def)
  qed
  have e4: "length ?e = 4 + length p" "drop 4 ?e = p" "?e \<noteq> []" by (simp_all add: encode_packet_def)
  have step1: "feed_step deliver tm ?e (4 + length p) stream0 s = Inr (p, length p, st2, s)"
  proof -
    define hab where "hab = header_absorb tm ?e stream0"
    have "st_headerLen hab = 4" using e4(1) by (simp add: hab_def header_absorb_def stream0_def)
    moreover have "header_done hab = st2" by (simp add: hab_def st2_def)
    moreover have "st_length st2 \<noteq> 0" using p(1) by (simp add: st2)
    moreover have "st_headerLen stream0 = 0" by (simp add: stream0_def)
    moreover have "min (4 - 0) (length ?e) = 4" using e4(1) by simp
    ultimately show ?thesis using e4 unfolding feed_step_def feed_header_def hab_def [symmetric] Let_def by simp
  qed
  have bp: "body_payload (length p) p st2 = (p, [])"
    using p(2) by (simp add: body_payload_def Let_def st2 stream0_def)
  obtain go s1 where d: "deliver False (packet_of tm (q, p)) s = (go, s1)" by fastforce
  have pk: "packet_of tm (q, p) = \<lparr>pk_seq = q, pk_length = length p, pk_payload = p, pk_truncated = False, pk_at = tm\<rparr>"
    using p(2) by (simp add: packet_of_def)
  have step2: "feed_step deliver tm p (length p) st2 s =
      (if go then Inr ([], 0, body_advance (length p) (st2\<lparr>st_delivered := True\<rparr>), s1) else Inl (True, stream0, s1))"
    using bp d p(2) unfolding feed_step_def feed_body_def pk
    by (simp add: st2 stream0_def Let_def)
  have "r = (if go then (True, body_advance (length p) (st2\<lparr>st_delivered := True\<rparr>), s1) else (True, stream0, s1))"
    unfolding r_def mysql_feed_def
    using step1 step2 e4(1) p(1)
    by (simp add: feed_loop.simps [of _ _ _ "4 + length p"] feed_loop.simps [of _ _ _ "length p"] feed_loop.simps [of _ _ _ 0])
  then show "fst r" "snd (snd r) = snd (deliver False (packet_of tm (q, p)) s)" by (simp_all add: d)
qed


subsection \<open>The connection of a socket\<close>

definition conn_at :: "mysqlTracker \<Rightarrow> u64 \<Rightarrow> mysqlConn" where
  "conn_at t k = (case map_get (tk_conns t) k of None \<Rightarrow> conn0 | Some conn \<Rightarrow> conn)"

definition wanted :: "mysqlTracker \<Rightarrow> mysqlRecord \<Rightarrow> bool" where
  "wanted t record \<longleftrightarrow> tk_side t = [] \<or> record_side record = tk_side t"

lemma open_conn_at: "open_conn t k = (t', conn) \<Longrightarrow> conn = conn_at t k"
  by (auto simp: open_conn_def conn_at_def split: option.splits)

lemma account_view: "account t conn = (t', conn') \<Longrightarrow> conn_view conn' = conn_view conn"
  by (auto simp: account_def Let_def conn_view_def drop_waiting_def split: if_splits)

text \<open>A wanted record, step by step.\<close>

lemma events_wanted:
  assumes "wanted t record"
  obtains t1 t2 conn2 where "open_conn t (rec_socket record) = (t1, conn_at t (rec_socket record))"
    and "account (cl_tracker (handle (call_of t1 (conn_at t (rec_socket record)) record offset)))
      (cl_conn (handle (call_of t1 (conn_at t (rec_socket record)) record offset))) = (t2, conn2)"
    and "events t record offset = (t2\<lparr>tk_conns := map_put (rec_socket record) conn2 (tk_conns t2)\<rparr>,
      cl_out (handle (call_of t1 (conn_at t (rec_socket record)) record offset)))"
    and "conn_view (conn_at (fst (events t record offset)) (rec_socket record)) =
      conn_view (cl_conn (handle (call_of t1 (conn_at t (rec_socket record)) record offset)))"
proof -
  obtain t1 conn where o: "open_conn t (rec_socket record) = (t1, conn)" by fastforce
  then have c: "conn = conn_at t (rec_socket record)" by (rule open_conn_at)
  obtain t2 conn2 where a: "account (cl_tracker (handle (call_of t1 conn record offset)))
      (cl_conn (handle (call_of t1 conn record offset))) = (t2, conn2)" by fastforce
  have e: "events t record offset = (t2\<lparr>tk_conns := map_put (rec_socket record) conn2 (tk_conns t2)\<rparr>,
      cl_out (handle (call_of t1 conn record offset)))"
    using assms o a by (auto simp: events_def wanted_def Let_def)
  have "conn_at (fst (events t record offset)) (rec_socket record) = conn2"
    by (simp add: e conn_at_def gm.get_put)
  with account_view [OF a] o a e c that show thesis by metis
qed

text \<open>A record that leaves its connection alone leaves the tracker alone.\<close>

lemma account_settled:
  assumes "tracker_ok t" and "map_get (tk_conns t) k = Some conn"
  shows "account t conn = (t, conn)"
proof -
  have "flags_ok conn" "tk_waiting t \<le> mysqlWaitingLimit" using assms by (auto simp: tracker_ok_def conns_ok_def)
  then show ?thesis by (simp add: account_def Let_def flags_ok_def)
qed

lemma put_same_value: "map_get m k = Some v \<Longrightarrow> map_put k v m = m"
  unfolding map_get_def map_put_def by (induction m) auto

lemma events_ignored:
  assumes ok: "tracker_ok t" and conn: "map_get (tk_conns t) (rec_socket record) = Some conn"
    and same: "handle (call_of t conn record offset) = call_of t conn record offset"
  shows "events t record offset = (t, [])"
proof -
  have "open_conn t (rec_socket record) = (t, conn)" using conn by (simp add: open_conn_def)
  then show ?thesis
    using same account_settled [OF ok conn] put_same_value [OF conn]
    by (simp add: events_def call_of_def)
qed

lemma request_ignored:
  assumes "cn_phase (cl_conn c) = MysqlDead \<or>
    cn_phase (cl_conn c) = MysqlAuth \<and> \<not> mysqlCleanCommand (rec_payload (cl_record c)) (rec_size (cl_record c))"
  shows "request c = c"
  using assms by (auto simp: request_def request_ready_def)

lemma response_dead:
  assumes "cn_phase (cl_conn c) = MysqlDead" and "mysqlParseGreeting (cl_record c) (cn_responseHeader (cl_conn c)) = None"
  shows "cl_out (response c) = cl_out c" "conn_view (cl_conn (response c)) = conn_view (cl_conn c)"
  using assms by (simp_all add: response_def Let_def conn_view_def)

subsection \<open>Runs reach only good trackers\<close>

lemma tracker_after_ok: "tracker_ok (tracker_after side showSecrets inputs)"
  using mysql_run_ok [OF tracker_ok_new] unfolding tracker_after_def by (metis prod.collapse)

text \<open>Records of a local client, for concrete runs.\<close>

definition client_record :: "bool \<Rightarrow> bytes \<Rightarrow> u64 \<Rightarrow> mysqlRecord" where
  "client_record sent payload tm =
     \<lparr>rec_bootTimeNS = tm, rec_pid = 42, rec_cgroupID = 0, rec_process = ''app'', rec_socket = 5,
      rec_source = ''10.0.0.1:40000'', rec_destination = ''10.0.0.2:3306'', rec_localPort = 40000,
      rec_peerPort = 3306, rec_sent = sent, rec_server = False, rec_size = length payload, rec_payload = payload\<rparr>"

definition demo_greeting :: bytes where
  "demo_greeting = encode_packet (0, CHR 0x0A # ''8.0'' @ replicate 14 (CHR 0x00) @ [CHR 0x00, CHR 0x82] @
     replicate 5 (CHR 0x00) @ replicate 13 (CHR 0x00))"

definition demo_login :: bytes where
  "demo_login = encode_packet (1, [CHR 0x00, CHR 0x82, CHR 0x00, CHR 0x00] @ replicate 28 (CHR 0x00) @ ''root'' @
     [CHR 0x00, CHR 0x02, CHR ''p'', CHR ''w''])"

definition demo_inputs :: "mysqlInput list" where
  "demo_inputs = [Record (client_record False demo_greeting 1000) 0, Record (client_record True demo_login 2000) 0]"



lemma demo_auth:
  "map_option cn_phase (map_get (tk_conns (tracker_after [] False demo_inputs)) 5) = Some MysqlAuth"
  by code_simp

subsection \<open>Properties of the conversation\<close>

text \<open>
  C9. The tracker refines the phase machine. Whatever the tracker, a record moves the phase of
  its connection by one step of \<open>phase_step\<close>, and a connection that is dead is left only by a new
  greeting of the server.
\<close>
theorem mysql_phase_refines:
  assumes "wanted t record"
  shows "phase_step (cn_phase (conn_at t (rec_socket record))) (record_input (conn_at t (rec_socket record)) record)
      (cn_phase (conn_at (fst (events t record offset)) (rec_socket record))) \<and>
    (cn_phase (conn_at t (rec_socket record)) = MysqlDead \<longrightarrow>
     mysqlParseGreeting record (cn_responseHeader (conn_at t (rec_socket record))) = None \<longrightarrow>
     cn_phase (conn_at (fst (events t record offset)) (rec_socket record)) = MysqlDead)"
proof -
  obtain t1 t2 conn2 where v: "conn_view (conn_at (fst (events t record offset)) (rec_socket record)) =
      conn_view (cl_conn (handle (call_of t1 (conn_at t (rec_socket record)) record offset)))"
    by (rule events_wanted [OF assms])
  have step: "phase_step (cn_phase (conn_at t (rec_socket record))) (record_input (conn_at t (rec_socket record)) record)
      (cn_phase (conn_at (fst (events t record offset)) (rec_socket record)))"
    using phase_handle [of "call_of t1 (conn_at t (rec_socket record)) record offset"] v
    by (simp add: call_of_def conn_view_def)
  then show ?thesis by (auto simp: record_input_def elim!: phase_from_dead split: if_splits)
qed

definition dead_tracker :: mysqlTracker where
  "dead_tracker = (newMySQLTracker [] False)\<lparr>tk_conns := [(5, conn0\<lparr>cn_phase := MysqlDead\<rparr>)]\<rparr>"

theorem mysql_phase_refines_witness:
  "phase_step MysqlDead Hello
     (cn_phase (conn_at (fst (events dead_tracker (client_record False demo_greeting 1000) 0)) 5)) \<and>
   cn_phase (conn_at (fst (events dead_tracker (client_record False [] 1000) 0)) 5) = MysqlDead"
proof -
  let ?r1 = "client_record False demo_greeting 1000" and ?r2 = "client_record False [] 1000"
  have w: "wanted dead_tracker ?r1" "wanted dead_tracker ?r2"
    by (simp_all add: wanted_def dead_tracker_def newMySQLTracker_def)
  have r: "rec_socket ?r1 = 5" "rec_socket ?r2 = 5" by (simp_all add: client_record_def)
  have d: "cn_phase (conn_at dead_tracker 5) = MysqlDead"
    by (simp add: dead_tracker_def conn_at_def map_get_def)
  have i: "record_input (conn_at dead_tracker 5) ?r1 = Hello" by code_simp
  have n: "mysqlParseGreeting ?r2 (cn_responseHeader (conn_at dead_tracker 5)) = None" by code_simp
  show ?thesis
    using mysql_phase_refines [OF w(1), of 0] mysql_phase_refines [OF w(2), of 0] d i n unfolding r by simp
qed

text \<open>
  C15. No answer without a request. After any run, on every socket the events that answer a
  request are at most as many as the events that report one; every prefix of a run is a run, so
  an answer never comes before its request, and no request is answered twice.
\<close>
theorem mysql_answers_paired:
  "answered_of (on_socket socket (snd (mysql_run (newMySQLTracker side showSecrets) inputs)))
     \<le> requests_of (on_socket socket (snd (mysql_run (newMySQLTracker side showSecrets) inputs)))"
proof -
  obtain t out where run: "mysql_run (newMySQLTracker side showSecrets) inputs = (t, out)" by fastforce
  have "open_at (newMySQLTracker side showSecrets) socket = 0"
    by (simp add: open_at_def stored_view_def newMySQLTracker_def gm.get_empty)
  then show ?thesis using run_open [OF tracker_ok_new run, of socket] run by simp
qed

text \<open>
  C16. A login is not read. While a connection is in the authentication phase, bytes the client
  sends, password material among them, change nothing and report nothing, unless the record
  is exactly one command packet; on a dead connection no client byte is read at all.
\<close>
theorem mysql_login_unread:
  assumes "map_get (tk_conns (tracker_after side showSecrets inputs)) (rec_socket record) = Some conn"
    and "rec_server record \<noteq> rec_sent record"
    and "cn_phase conn = MysqlDead \<or>
      cn_phase conn = MysqlAuth \<and> \<not> mysqlCleanCommand (rec_payload record) (rec_size record)"
  shows "events (tracker_after side showSecrets inputs) record offset = (tracker_after side showSecrets inputs, [])"
proof (rule events_ignored [OF tracker_after_ok assms(1)])
  show "handle (call_of (tracker_after side showSecrets inputs) conn record offset) =
      call_of (tracker_after side showSecrets inputs) conn record offset"
    using assms(2,3) request_ignored [of "call_of (tracker_after side showSecrets inputs) conn record offset"]
    by (simp add: handle_def call_of_def)
qed

theorem mysql_login_unread_witness:
  "events (tracker_after [] False demo_inputs) (client_record True ''secret'' 3000) 0 =
     (tracker_after [] False demo_inputs, [])"
proof -
  let ?r = "client_record True ''secret'' 3000"
  have s: "rec_socket ?r = 5" by (simp add: client_record_def)
  obtain conn where conn: "map_get (tk_conns (tracker_after [] False demo_inputs)) (rec_socket ?r) = Some conn"
    "cn_phase conn = MysqlAuth"
    using demo_auth unfolding s by auto
  have d: "rec_server ?r \<noteq> rec_sent ?r" by (simp add: client_record_def)
  have "\<not> mysqlCleanCommand (rec_payload ?r) (rec_size ?r)"
    by (simp add: client_record_def mysqlCleanCommand_def)
  then show ?thesis using mysql_login_unread [OF conn(1) d] conn(2) by blast
qed


subsection \<open>Length-encoded integers\<close>

definition lenenc_encode :: "nat \<Rightarrow> bytes" where
  "lenenc_encode n =
     (if n < 251 then [char_of n]
      else if n < 2 ^ 16 then CHR 0xFC # le_bytes 2 n
      else if n < 2 ^ 24 then CHR 0xFD # le_bytes 3 n
      else CHR 0xFE # le_bytes 8 n)"

lemma lenenc_decode:
  assumes "n < 2 ^ 64"
  shows "mysqlLenenc (lenenc_encode n @ rest) = (n, length (lenenc_encode n))"
proof -
  have w: "le_nat (le_bytes w n) = n" if "n < 256 ^ w" for w using that by (rule le_nat_le_bytes_id)
  consider "n < 251" | "251 \<le> n" "n < 2 ^ 16" | "2 ^ 16 \<le> n" "n < 2 ^ 24" | "2 ^ 24 \<le> n" by linarith
  then show ?thesis
  proof cases
    case 1
    then have "bval (char_of n) = n" by (simp add: of_char_of)
    with 1 show ?thesis by (simp add: lenenc_encode_def mysqlLenenc_def Let_def)
  next
    case 2
    then have "le_nat (le_bytes 2 n) = n" by (intro w) simp
    with 2 show ?thesis by (simp add: lenenc_encode_def mysqlLenenc_def Let_def)
  next
    case 3
    then have "le_nat (le_bytes 3 n) = n" by (intro w) simp
    with 3 show ?thesis by (simp add: lenenc_encode_def mysqlLenenc_def Let_def)
  next
    case 4
    have "le_nat (le_bytes 8 n) = n" using assms by (intro w) simp
    with 4 show ?thesis by (simp add: lenenc_encode_def mysqlLenenc_def Let_def)
  qed
qed

lemma lenenc_bounds: "snd (mysqlLenenc data) \<le> length data" "fst (mysqlLenenc data) < 2 ^ 64"
proof -
  show "snd (mysqlLenenc data) \<le> length data" by (cases data) (auto simp: mysqlLenenc_def Let_def)
  have "le_nat xs < 2 ^ 64" if "length xs \<le> 8" for xs
    using le_nat_bound_le [of xs 8] that by simp
  moreover have "bval b < 2 ^ 64" for b by (rule less_trans [OF bval_less]) simp
  ultimately show "fst (mysqlLenenc data) < 2 ^ 64" by (simp add: mysqlLenenc_def Let_def)
qed

subsection \<open>A command and its answer\<close>

lemma char_zero [simp]: "(char_of (0 :: nat) :: char) = CHR 0x00"
  by (simp add: char_of_def)

lemma encode_packet_parts:
  assumes "p \<noteq> []" "length p \<le> mysqlMaxPacket"
  shows "length (encode_packet (q, p)) = 4 + length p" "mysqlLength (encode_packet (q, p)) = length p"
    "encode_packet (q, p) ! 3 = char_of (unat q)" "encode_packet (q, p) ! 4 = hd p" "drop 4 (encode_packet (q, p)) = p"
  using assms by (auto simp: encode_packet_def mysqlLength_def le_nat_le_bytes_id mysqlMaxPacket_def nth_append hd_conv_nth)

text \<open>A record that is exactly one command, on any connection that is not dead.\<close>

lemma clean_command:
  fixes c :: mysqlCall
  defines "tm \<equiv> rec_bootTimeNS (cl_record c)"
  assumes p: "p \<noteq> []" "length p \<le> mysqlPacketKeep" "hd p \<in> {mysqlComQuery, mysqlComStmtPrepare, mysqlComStmtExecute}"
    and r: "rec_payload (cl_record c) = encode_packet (0, p)" "rec_size (cl_record c) = length (encode_packet (0, p))"
    and dir: "rec_server (cl_record c) \<noteq> rec_sent (cl_record c)" and live: "cn_phase (cl_conn c) \<noteq> MysqlDead"
    and info: "\<And>conn. cn_statements conn = cn_statements (cl_conn c) \<Longrightarrow> conn_attributes conn = conn_attributes (cl_conn c) \<Longrightarrow>
      command_info (tk_showSecrets (cl_tracker c)) conn (packet_of tm (0, p)) = Some info"
  shows "cl_out (handle c) = cl_out c @ [call_event c (mysqlEventPrefix @ my_command info) tm (length p) info]"
    and "conn_view (cl_conn (handle c)) = (MysqlCommand, Some (pending_of tm info), 0)"
    and "cn_response (cl_conn (handle c)) = stream0"
proof -
  have max: "length p \<le> mysqlMaxPacket" using p(2) by (simp add: mysqlPacketKeep_def mysqlMaxPacket_def)
  note parts = encode_packet_parts [OF p(1) max, of 0]
  have known: "mysqlKnownCommand (hd p)"
    using p(3) by (auto simp: mysql_coms mysqlKnownCommand_def mysqlKnownCommands_def)
  have ge: "1 \<le> length p" using p(1) by (cases p) auto
  have clean: "mysqlCleanCommand (rec_payload (cl_record c)) (rec_size (cl_record c))"
    using parts known ge r by (simp add: mysqlCleanCommand_def)
  define c1 where "c1 = c\<lparr>cl_conn := (cl_conn c)\<lparr>cn_phase := MysqlCommand, cn_synced := True, cn_request := stream0,
    cn_requestHeader := bare0\<rparr>\<rparr>"
  have h: "handle c = request_feed c1"
    using clean dir live by (simp add: handle_def request_def request_ready_def Let_def c1_def)
  define c2 where "c2 = c1\<lparr>cl_conn := (cl_conn c1)\<lparr>cn_lastSeq := 0, cn_pending := None, cn_response := stream0\<rparr>\<rparr>"
  have pay: "pk_payload (packet_of tm (0, p)) = p" "pk_seq (packet_of tm (0, p)) = 0"
    "pk_at (packet_of tm (0, p)) = tm" "pk_length (packet_of tm (0, p)) = length p"
    using p(2) by (simp_all add: packet_of_def)
  have "command_info (tk_showSecrets (cl_tracker c2)) (cl_conn c2) (packet_of tm (0, p)) = Some info"
    using info [of "cl_conn c2"] by (simp add: c2_def c1_def conn_attributes_def)
  then have d: "snd (commandPacket False (packet_of tm (0, p)) c1) =
      emit (call_event c2 (mysqlEventPrefix @ my_command info) tm (length p) info)
        (c2\<lparr>cl_conn := (cl_conn c2)\<lparr>cn_pending := Some (pending_of tm info)\<rparr>\<rparr>)"
    using p(1,3) known pay
    by (auto simp: commandPacket_def Let_def c2_def [symmetric] start_command_def mysql_coms)
  define rr where "rr = mysql_feed commandPacket (encode_packet (0, p)) (length (encode_packet (0, p))) tm stream0 c1"
  have f: "snd (snd rr) = snd (commandPacket False (packet_of tm (0, p)) c1)"
    unfolding rr_def by (rule feed_whole(2) [OF p(1,2)])
  have "request_feed c1 = (let d = snd (snd rr) in d\<lparr>cl_conn := (cl_conn d)\<lparr>cn_request := fst (snd rr),
      cn_synced := (fst rr \<and> cn_synced (cl_conn d))\<rparr>\<rparr>)"
    using r by (simp add: request_feed_eq Let_def rr_def c1_def tm_def)
  then have e: "handle c = (let d = snd (commandPacket False (packet_of tm (0, p)) c1) in
      d\<lparr>cl_conn := (cl_conn d)\<lparr>cn_request := fst (snd rr), cn_synced := (fst rr \<and> cn_synced (cl_conn d))\<rparr>\<rparr>)"
    using h f by simp
  show "cl_out (handle c) = cl_out c @ [call_event c (mysqlEventPrefix @ my_command info) tm (length p) info]"
    "conn_view (cl_conn (handle c)) = (MysqlCommand, Some (pending_of tm info), 0)"
    "cn_response (cl_conn (handle c)) = stream0"
    unfolding e d Let_def by (simp_all add: emit_def c2_def c1_def call_event_def conn_view_def)
qed

text \<open>The first packet of the answer, alone in its record.\<close>

lemma first_answer:
  fixes c :: mysqlCall
  defines "tm \<equiv> rec_bootTimeNS (cl_record c)"
  assumes p: "p \<noteq> []" "length p \<le> mysqlPacketKeep"
    and r: "rec_payload (cl_record c) = encode_packet (q, p)" "rec_size (cl_record c) = length (encode_packet (q, p))"
    and dir: "rec_server (cl_record c) = rec_sent (cl_record c)"
    and view: "conn_view (cl_conn c) = (MysqlCommand, Some pending, q - 1)" "cn_response (cl_conn c) = stream0" "\<not> pd_silent pending"
    and greet: "mysqlParseGreeting (cl_record c) (cn_responseHeader (cl_conn c)) = None"
  shows "cl_out (handle c) = cl_out (answer (packet_of tm (q, p)) pending
      (c\<lparr>cl_conn := (cl_conn c)\<lparr>cn_responseHeader := response_header (cl_record c), cn_pending := None\<rparr>\<rparr>))"
proof -
  define c1 where "c1 = c\<lparr>cl_conn := (cl_conn c)\<lparr>cn_responseHeader := response_header (cl_record c)\<rparr>\<rparr>"
  have v: "cn_phase (cl_conn c) = MysqlCommand" "cn_pending (cl_conn c) = Some pending" "cn_lastSeq (cl_conn c) = q - 1"
    using view(1) by (simp_all add: conn_view_def)
  have "handle c = response_feed commandResponse c1"
    using dir greet v by (simp add: handle_def response_def Let_def c1_def)
  moreover have "cl_out (response_feed commandResponse c1) = cl_out (snd (commandResponse False (packet_of tm (q, p)) c1))"
    unfolding response_feed_eq Let_def using r view(2) feed_whole(2) [OF p, of commandResponse q tm c1]
    by (simp add: c1_def tm_def)
  moreover have "snd (commandResponse False (packet_of tm (q, p)) c1) = answer (packet_of tm (q, p)) pending
      (c\<lparr>cl_conn := (cl_conn c)\<lparr>cn_responseHeader := response_header (cl_record c), cn_pending := None\<rparr>\<rparr>)"
    using v view(3) p by (simp add: commandResponse_def Let_def c1_def packet_of_def)
  ultimately show ?thesis by simp
qed

lemma account_response: "account t conn = (t', conn') \<Longrightarrow> cn_response conn = stream0 \<Longrightarrow> cn_response conn' = stream0"
  by (auto simp: account_def Let_def drop_waiting_def split: if_splits)


lemma conn_at_put [simp]: "conn_at (t\<lparr>tk_conns := map_put k conn m\<rparr>) k = conn"
  by (simp add: conn_at_def gm.get_put)

lemma short_not_greeting: "rec_payload r = data \<Longrightarrow> length data < 32 \<Longrightarrow> mysqlParseGreeting r bare = None"
proof -
  assume "rec_payload r = data" "length data < 32"
  then have "length (greeting_payload r bare) < 32" by (auto simp: greeting_payload_def Let_def)
  then show ?thesis by (simp add: mysqlParseGreeting_def greeting_fields_def mysqlMinGreetingBytes_def)
qed

text \<open>What a report shows: the name, the payload, the response time and whether it answers.\<close>

definition report :: "captureEvent \<Rightarrow> bytes \<times> traceMySQLEvent option \<times> rat option \<times> nat" where
  "report e = (ev_event e, ev_mysql e, ev_latencyMS e, ev_answered e)"

definition query_info :: "bool \<Rightarrow> bytes \<Rightarrow> traceMySQLEvent" where
  "query_info showSecrets sql = with_sql (sqlText showSecrets sql False) (mysql_event0\<lparr>my_command := mysqlCommandQuery\<rparr>)"

text \<open>The two halves of the exchange: the command, and the OK packet on a connection that waits.\<close>

lemma query_reported:
  assumes t: "tracker_ok t"
    and q: "wanted t query" "rec_server query \<noteq> rec_sent query" "cn_phase (conn_at t (rec_socket query)) \<noteq> MysqlDead"
      "rec_payload query = encode_packet (0, mysqlComQuery # sql)" "rec_size query = length (rec_payload query)"
    and sql: "sql \<noteq> []" "hd sql \<noteq> CHR 0x00" "length sql < 4096" "\<not> fst (conn_attributes (conn_at t (rec_socket query)))"
  shows "map report (snd (events t query offset)) = [(''mysql_query'', Some (query_info (tk_showSecrets t) sql), None, 0)]"
    and "conn_view (conn_at (fst (events t query offset)) (rec_socket query)) =
      (MysqlCommand, Some (pending_of (rec_bootTimeNS query) (query_info (tk_showSecrets t) sql)), 0)"
    and "cn_response (conn_at (fst (events t query offset)) (rec_socket query)) = stream0"
proof -
  let ?k = "rec_socket query" and ?p = "mysqlComQuery # sql" and ?tm = "rec_bootTimeNS query"
  let ?info = "query_info (tk_showSecrets t) sql"
  obtain t1 t2 conn2 where o: "open_conn t ?k = (t1, conn_at t ?k)"
    and ac: "account (cl_tracker (handle (call_of t1 (conn_at t ?k) query offset)))
      (cl_conn (handle (call_of t1 (conn_at t ?k) query offset))) = (t2, conn2)"
    and ev: "events t query offset = (t2\<lparr>tk_conns := map_put ?k conn2 (tk_conns t2)\<rparr>,
      cl_out (handle (call_of t1 (conn_at t ?k) query offset)))"
    by (rule events_wanted [OF q(1)])
  let ?c = "call_of t1 (conn_at t ?k) query offset"
  have secrets: "tk_showSecrets t1 = tk_showSecrets t" by (rule open_conn_ok(2) [OF t o])
  have pk: "pk_payload (packet_of ?tm (0, ?p)) = ?p" "pk_truncated (packet_of ?tm (0, ?p)) = False"
    using sql(3) by (simp_all add: packet_of_def mysqlPacketKeep_def)
  have start: "querySQL conn ?p = Some 1" if "conn_attributes conn = conn_attributes (conn_at t ?k)" for conn
    using that sql by (cases sql) (auto simp: querySQL_def split: prod.split)
  have info: "command_info (tk_showSecrets (cl_tracker ?c)) conn (packet_of ?tm (0, ?p)) = Some ?info"
    if "conn_attributes conn = conn_attributes (conn_at t ?k)" for conn
    using start [OF that] secrets pk unfolding command_info_def Let_def
    by (simp add: query_info_def call_of_def)
  have cmd: "cl_out (handle ?c) = [call_event ?c (mysqlEventPrefix @ my_command ?info) ?tm (length ?p) ?info]"
      "conn_view (cl_conn (handle ?c)) = (MysqlCommand, Some (pending_of ?tm ?info), 0)"
      "cn_response (cl_conn (handle ?c)) = stream0"
    using clean_command [of ?p ?c ?info] q sql(3) info by (simp_all add: call_of_def mysqlPacketKeep_def)
  have name: "mysqlEventPrefix @ my_command ?info = ''mysql_query''"
    by (simp add: query_info_def with_sql_def mysql_event0_def mysql_names)
  show "map report (snd (events t query offset)) = [(''mysql_query'', Some ?info, None, 0)]"
    unfolding ev snd_conv cmd(1) name by (simp add: report_def call_event_def base_event_def)
  show "conn_view (conn_at (fst (events t query offset)) ?k) = (MysqlCommand, Some (pending_of ?tm ?info), 0)"
    "cn_response (conn_at (fst (events t query offset)) ?k) = stream0"
    using account_view [OF ac] account_response [OF ac] cmd by (simp_all add: ev)
qed

lemma ok_reported:
  fixes ok :: mysqlRecord
  defines "tm \<equiv> rec_bootTimeNS ok"
  assumes w: "wanted u ok" and view: "conn_view (conn_at u (rec_socket ok)) = (MysqlCommand, Some p, 0)"
      "cn_response (conn_at u (rec_socket ok)) = stream0" "\<not> pd_silent p" "pd_command p \<noteq> mysqlCommandPrepare"
    and a: "rec_server ok = rec_sent ok"
      "rec_payload ok = encode_packet (1, CHR 0x00 # lenenc_encode rows @ rest)" "rec_size ok = length (rec_payload ok)"
    and rows: "rows < 2 ^ 64" "6 \<le> length (lenenc_encode rows @ rest)" "length (lenenc_encode rows @ rest) < 27"
  shows "map report (snd (events u ok offset)) =
      [(''mysql_ok'', Some (mysql_event0\<lparr>my_command := pd_command p, my_sql := pd_sql p, my_sqlTruncated := pd_sqlTruncated p,
          my_statementID := pd_statementID p, my_affectedRows := Some rows\<rparr>),
        Some (traceSpan (pd_at p) tm), 1)]"
proof -
  let ?ok = "CHR 0x00 # lenenc_encode rows @ rest"
  obtain v1 where ev: "snd (events u ok offset) = cl_out (handle (call_of v1 (conn_at u (rec_socket ok)) ok offset))"
    by (rule events_wanted [OF w, of offset]) simp
  let ?d = "call_of v1 (conn_at u (rec_socket ok)) ok offset"
  have len: "length ?ok \<le> mysqlPacketKeep" using rows(3) by (simp add: mysqlPacketKeep_def)
  have "mysqlParseGreeting ok bare = None" for bare
  proof (rule short_not_greeting [OF a(2)])
    show "length (encode_packet (1, ?ok)) < 32" using rows(3) by (simp add: encode_packet_def)
  qed
  then have out: "cl_out (handle ?d) = cl_out (answer (packet_of tm (1, ?ok)) p
      (?d\<lparr>cl_conn := (cl_conn ?d)\<lparr>cn_responseHeader := response_header (cl_record ?d), cn_pending := None\<rparr>\<rparr>))"
    using first_answer [of ?ok ?d 1 p] a len view by (simp add: call_of_def tm_def)
  have okp: "pk_payload (packet_of tm (1, ?ok)) = ?ok" "pk_length (packet_of tm (1, ?ok)) = length ?ok" "pk_at (packet_of tm (1, ?ok)) = tm"
    using len by (simp_all add: packet_of_def)
  have lenenc: "mysqlLenenc (drop 1 ?ok) = (rows, length (lenenc_encode rows))"
    using lenenc_decode [OF rows(1), of rest] by simp
  have ne: "length (lenenc_encode rows) \<noteq> 0" by (simp add: lenenc_encode_def)
  have "answer (packet_of tm (1, ?ok)) p e =
      respond (packet_of tm (1, ?ok)) (Some p) mysqlEventOK (mysql_event0\<lparr>my_affectedRows := Some rows\<rparr>) e" for e
    using lenenc ne view(4) rows(2) unfolding answer_def ok_response_def okp Let_def by simp
  then show ?thesis
    unfolding ev out using okp(3)
    by (simp add: respond_def emit_def report_def call_event_def base_event_def call_of_def mysqlEventOK_def Let_def)
      (simp add: mysql_event0_def)
qed

text \<open>
  C32. The tracker sees what happens. On any connection that is not dead and on which query attributes
  are not known to be negotiated, whatever was lost on it before, a COM_QUERY is reported once with its SQL, and
  the OK packet that follows is reported as the answer to it, with the affected rows and the time between the
  two. The conditions: both packets fill a record of their own, of the traced side; the SQL is not empty, does not
  start with a NUL byte and is shorter than 4096 bytes; the OK packet reports less than \<open>2 ^ 64\<close> rows and has
  6 to 26 bytes after its first.
\<close>
theorem mysql_query_answered:
  assumes t: "t = tracker_after side showSecrets inputs"
    and q: "wanted t query" "rec_server query \<noteq> rec_sent query" "cn_phase (conn_at t (rec_socket query)) \<noteq> MysqlDead"
      "rec_payload query = encode_packet (0, mysqlComQuery # sql)" "rec_size query = length (rec_payload query)"
    and sql: "sql \<noteq> []" "hd sql \<noteq> CHR 0x00" "length sql < 4096" "\<not> fst (conn_attributes (conn_at t (rec_socket query)))"
    and a: "record_side ok = record_side query" "rec_socket ok = rec_socket query" "rec_server ok = rec_sent ok"
      "rec_payload ok = encode_packet (1, CHR 0x00 # lenenc_encode rows @ rest)" "rec_size ok = length (rec_payload ok)"
    and rows: "rows < 2 ^ 64" "6 \<le> length (lenenc_encode rows @ rest)" "length (lenenc_encode rows @ rest) < 27"
  shows "map report (snd (events t query offset)) = [(''mysql_query'', Some (query_info (tk_showSecrets t) sql), None, 0)] \<and>
    map report (snd (events (fst (events t query offset)) ok offset)) =
      [(''mysql_ok'', Some ((query_info (tk_showSecrets t) sql)\<lparr>my_affectedRows := Some rows\<rparr>),
        Some (traceSpan (rec_bootTimeNS query) (rec_bootTimeNS ok)), 1)]"
proof -
  have tok: "tracker_ok t" by (simp add: t tracker_after_ok)
  note first = query_reported [OF tok q sql, of offset]
  let ?u = "fst (events t query offset)" and ?p = "pending_of (rec_bootTimeNS query) (query_info (tk_showSecrets t) sql)"
  have "tk_side ?u = tk_side t" using events_ok(4) [OF tok] by (metis prod.collapse)
  then have w: "wanted ?u ok" using q(1) a(1) by (simp add: wanted_def)
  have p: "\<not> pd_silent ?p" "pd_command ?p \<noteq> mysqlCommandPrepare"
    by (simp_all add: pending_of_def query_info_def with_sql_def mysql_event0_def mysql_names)
  have "map report (snd (events ?u ok offset)) =
      [(''mysql_ok'', Some (mysql_event0\<lparr>my_command := pd_command ?p, my_sql := pd_sql ?p, my_sqlTruncated := pd_sqlTruncated ?p,
          my_statementID := pd_statementID ?p, my_affectedRows := Some rows\<rparr>), Some (traceSpan (pd_at ?p) (rec_bootTimeNS ok)), 1)]"
    using first(2,3) a(2) by (intro ok_reported [OF w _ _ p a(3-5) rows]) simp_all
  then show ?thesis using first(1)
    by (simp add: pending_of_def query_info_def with_sql_def mysql_event0_def)
qed

definition demo_query :: mysqlRecord where
  "demo_query = client_record True (encode_packet (0, mysqlComQuery # ''select 1'')) 5000000"

definition demo_ok :: mysqlRecord where
  "demo_ok = client_record False (encode_packet (1, CHR 0x00 # lenenc_encode 3 @ replicate 6 (CHR 0x00))) 8000000"

theorem mysql_query_answered_witness:
  "map report (snd (events (tracker_after [] False []) demo_query 0)) =
     [(''mysql_query'', Some (query_info False ''select 1''), None, 0)] \<and>
   map report (snd (events (fst (events (tracker_after [] False []) demo_query 0)) demo_ok 0)) =
     [(''mysql_ok'', Some ((query_info False ''select 1'')\<lparr>my_affectedRows := Some 3\<rparr>), Some 3, 1)]"
proof -
  let ?t = "tracker_after [] False []"
  have t: "tk_side ?t = []" "tk_showSecrets ?t = False" "conn_at ?t k = conn0" for k
    by (simp_all add: tracker_after_def newMySQLTracker_def conn_at_def gm.get_empty)
  have "traceSpan (rec_bootTimeNS demo_query) (rec_bootTimeNS demo_ok) = 3"
    by (simp add: demo_query_def demo_ok_def client_record_def traceSpan_def)
  moreover have "length (lenenc_encode 3 @ replicate 6 (CHR 0x00)) = 7" by (simp add: lenenc_encode_def)
  ultimately show ?thesis
    using mysql_query_answered [OF refl, where side = "[]" and showSecrets = False and inputs = "[]" and query = demo_query
        and sql = "''select 1''" and ok = demo_ok and rows = 3 and rest = "replicate 6 (CHR 0x00)" and offset = 0] t
    by (simp add: wanted_def demo_query_def demo_ok_def client_record_def record_side_def conn0_def conn_attributes_def)
qed

text \<open>
  Length-encoded integers: what the protocol writes, \<open>mysqlLenenc\<close> reads back, whatever
  follows; on any bytes it never claims more bytes than there are, nor a value beyond 64 bits.
\<close>
theorem mysqlLenenc_roundtrip:
  "(n < 2 ^ 64 \<longrightarrow> mysqlLenenc (lenenc_encode n @ rest) = (n, length (lenenc_encode n))) \<and>
   snd (mysqlLenenc data) \<le> length data \<and> fst (mysqlLenenc data) < 2 ^ 64"
  using lenenc_decode [of n rest] lenenc_bounds [of data] by simp

theorem mysqlLenenc_roundtrip_witness:
  "mysqlLenenc (lenenc_encode 70000 @ ''x'') = (70000, 4)"
  using mysqlLenenc_roundtrip [of 70000 "''x''" "[]"] by (simp add: lenenc_encode_def)


subsection \<open>The greeting and the login\<close>

text \<open>What a server and a client of protocol 10 write; \<open>mid\<close> is the thread id, salt and filler.\<close>

definition encode_greeting :: "bytes \<Rightarrow> bytes \<Rightarrow> u32 \<Rightarrow> bytes \<Rightarrow> bytes \<Rightarrow> bytes" where
  "encode_greeting version mid caps charset rest =
     CHR 0x0A # version @ CHR 0x00 # mid @ le_bytes 2 (unat caps mod 2 ^ 16) @ charset @
     le_bytes 2 (unat caps div 2 ^ 16) @ rest"

definition encode_login :: "u32 \<Rightarrow> bytes \<Rightarrow> bytes \<Rightarrow> bytes \<Rightarrow> bytes \<Rightarrow> bytes" where
  "encode_login caps filler user auth database =
     le_bytes 4 (unat caps) @ filler @ user @ CHR 0x00 #
     (if caps AND mysqlCapLenencClientData \<noteq> 0 then lenenc_encode (length auth) @ auth
      else if caps AND mysqlCapSecureConnection \<noteq> 0 then char_of (length auth) # auth
      else auth @ [CHR 0x00]) @
     (if caps AND mysqlCapConnectWithDB \<noteq> 0 then database @ [CHR 0x00] else [])"

lemma drop_past: "drop (length xs + n) (xs @ ys) = drop n ys"
  by simp

lemma caps_halves:
  fixes caps :: u32
  shows "of_nat (unat caps mod 2 ^ 16) OR push_bit 16 (of_nat (unat caps div 2 ^ 16)) = caps"
proof -
  have "of_nat (unat caps mod 2 ^ 16) = take_bit 16 caps"
  proof -
    have "of_nat (unat caps mod unat (0x10000 :: u32)) = caps mod 0x10000"
      by (simp only: unat_mod_distrib [symmetric] of_nat_unat ucast_id)
    then show ?thesis by (simp add: take_bit_eq_mod)
  qed
  moreover have "of_nat (unat caps div 2 ^ 16) = drop_bit 16 caps"
  proof -
    have "of_nat (unat caps div unat (0x10000 :: u32)) = caps div 0x10000"
      by (simp only: unat_div_distrib [symmetric] of_nat_unat ucast_id)
    then show ?thesis by (simp add: drop_bit_eq_div)
  qed
  moreover have "take_bit 16 caps OR push_bit 16 (drop_bit 16 caps) = caps"
  proof (rule bit_eqI)
    show "bit (take_bit 16 caps OR push_bit 16 (drop_bit 16 caps)) n = bit caps n" for n
      by (cases "n < 16") (auto simp: bit_simps dest: bit_imp_le_length)
  qed
  ultimately show ?thesis by simp
qed

lemma greeting_roundtrip:
  assumes v: "version \<noteq> []" "\<not> mysqlNotPrintable version"
    and m: "length mid = 13" "length charset = 3" and caps: "caps AND mysqlCapProtocol41 \<noteq> 0"
    and len: "32 \<le> length (encode_greeting version mid caps charset rest)"
  shows "greeting_fields (encode_greeting version mid caps charset rest) = Some (version, caps, True)"
proof -
  let ?g = "encode_greeting version mid caps charset rest"
  let ?tail = "le_bytes 2 (unat caps mod 2 ^ 16) @ charset @ le_bytes 2 (unat caps div 2 ^ 16) @ rest"
  have nz: "CHR 0x00 \<notin> set version" using v(2) by (auto simp: mysqlNotPrintable_def list_ex_iff)
  have tl: "tl ?g = version @ CHR 0x00 # mid @ ?tail" and hd: "?g ! 0 = CHR 0x0A"
    by (simp_all add: encode_greeting_def)
  have i: "index_byte (tl ?g) (CHR 0x00) = Some (length version)"
    using nz index_byte_None [of version "CHR 0x00"] unfolding tl index_byte_append by simp
  have t: "take (length version) (tl ?g) = version" unfolding tl by simp
  let ?o = "1 + length version + 1 + 4 + 8 + 1"
  have split: "?g = (CHR 0x0A # version @ CHR 0x00 # mid) @ ?tail" by (simp add: encode_greeting_def)
  have o: "length (CHR 0x0A # version @ CHR 0x00 # mid) = ?o" using m(1) by simp
  have lo: "take 2 (drop ?o ?g) = le_bytes 2 (unat caps mod 2 ^ 16)"
    unfolding split o [symmetric] by (simp add: numeral_2_eq_2)
  have hi: "take 2 (drop (?o + 5) ?g) = le_bytes 2 (unat caps div 2 ^ 16)"
  proof -
    have "drop (?o + 5) ?g = drop 5 ?tail" unfolding split o [symmetric] by (rule drop_past)
    also have "drop 5 ?tail = le_bytes 2 (unat caps div 2 ^ 16) @ rest" using m(2) by simp
    finally show ?thesis by simp
  qed
  have "unat caps < 2 ^ LENGTH(32)" by (rule unsigned_less)
  then have "unat caps div 2 ^ 16 < 2 ^ 16" by simp
  then have vals: "le_nat (le_bytes 2 (unat caps mod 2 ^ 16)) = unat caps mod 2 ^ 16"
    "le_nat (le_bytes 2 (unat caps div 2 ^ 16)) = unat caps div 2 ^ 16"
    by (simp_all add: le_nat_le_bytes_id)
  have "?o + 7 \<le> length ?g" using m by (simp add: encode_greeting_def)
  then show ?thesis
    using v len hd i t lo hi vals caps caps_halves [of caps]
    unfolding greeting_fields_def mysqlMinGreetingBytes_def Let_def by simp
qed


lemma cut_zero: "CHR 0x00 \<notin> set xs \<Longrightarrow> cut_byte (xs @ CHR 0x00 # ys) (CHR 0x00) = Some (xs, ys)"
  by (rule cut_byte_sep)

lemma auth_skipped:
  assumes "caps AND mysqlCapLenencClientData \<noteq> 0 \<Longrightarrow> length auth < 2 ^ 64"
    and "caps AND mysqlCapLenencClientData = 0 \<Longrightarrow> caps AND mysqlCapSecureConnection \<noteq> 0 \<Longrightarrow> length auth < 256"
    and "caps AND mysqlCapLenencClientData = 0 \<Longrightarrow> caps AND mysqlCapSecureConnection = 0 \<Longrightarrow> CHR 0x00 \<notin> set auth"
  shows "auth_rest caps ((if caps AND mysqlCapLenencClientData \<noteq> 0 then lenenc_encode (length auth) @ auth
      else if caps AND mysqlCapSecureConnection \<noteq> 0 then char_of (length auth) # auth
      else auth @ [CHR 0x00]) @ rest) = Some rest"
proof -
  consider "caps AND mysqlCapLenencClientData \<noteq> 0"
    | "caps AND mysqlCapLenencClientData = 0" "caps AND mysqlCapSecureConnection \<noteq> 0"
    | "caps AND mysqlCapLenencClientData = 0" "caps AND mysqlCapSecureConnection = 0" by blast
  then show ?thesis
  proof cases
    case 1
    have "length (lenenc_encode (length auth)) \<noteq> 0" by (simp add: lenenc_encode_def)
    with 1 show ?thesis using lenenc_decode [OF assms(1), of "auth @ rest"] by (simp add: auth_rest_def)
  next
    case 2
    then have "bval (char_of (length auth)) = length auth" using assms(2) by (simp add: of_char_of)
    with 2 show ?thesis by (simp add: auth_rest_def)
  next
    case 3
    then show ?thesis using cut_zero [of auth rest] assms(3) by (simp add: auth_rest_def)
  qed
qed

text \<open>
  Connection metadata is read exactly. A protocol-10 greeting gives back its version and its
  32 capability bits, which the packet holds in two halves; and a login packet gives back user
  and database for each of the three encodings of the password material, whatever that is.
\<close>
theorem mysql_login_metadata:
  assumes "version \<noteq> []" "\<not> mysqlNotPrintable version" "length mid = 13" "length charset = 3"
    and "caps AND mysqlCapProtocol41 \<noteq> 0" "32 \<le> length (encode_greeting version mid caps charset rest)"
    and "length filler = 28" "CHR 0x00 \<notin> set user" "CHR 0x00 \<notin> set database"
    and "length auth < 256" "CHR 0x00 \<notin> set auth"
    and "login = encode_login caps filler user auth database" "length login \<le> mysqlPacketKeep"
  shows "greeting_fields (encode_greeting version mid caps charset rest) = Some (version, caps, True) \<and>
    le_u32 login = caps \<and>
    handshake_login (packet_of tm (1, login)) caps c =
      connect_event (packet_of tm (1, login)) caps user
        (if caps AND mysqlCapConnectWithDB \<noteq> 0 then database else []) c"
proof -
  let ?db = "if caps AND mysqlCapConnectWithDB \<noteq> 0 then database @ [CHR 0x00] else []"
  have pay: "pk_payload (packet_of tm (1, login)) = login" using assms(13) by (simp add: packet_of_def)
  have split: "login = (le_bytes 4 (unat caps) @ filler) @ user @ CHR 0x00 #
     (if caps AND mysqlCapLenencClientData \<noteq> 0 then lenenc_encode (length auth) @ auth
      else if caps AND mysqlCapSecureConnection \<noteq> 0 then char_of (length auth) # auth
      else auth @ [CHR 0x00]) @ ?db"
    by (simp only: assms(12) encode_login_def append_assoc append_Cons)
  have d: "drop 32 login = user @ CHR 0x00 #
     (if caps AND mysqlCapLenencClientData \<noteq> 0 then lenenc_encode (length auth) @ auth
      else if caps AND mysqlCapSecureConnection \<noteq> 0 then char_of (length auth) # auth
      else auth @ [CHR 0x00]) @ ?db"
    using drop_past [of "le_bytes 4 (unat caps) @ filler" 0] assms(7) by (subst split) simp
  have "auth_rest caps ((if caps AND mysqlCapLenencClientData \<noteq> 0 then lenenc_encode (length auth) @ auth
      else if caps AND mysqlCapSecureConnection \<noteq> 0 then char_of (length auth) # auth
      else auth @ [CHR 0x00]) @ ?db) = Some ?db"
    using assms(10,11) by (intro auth_skipped) simp_all
  moreover have "handshake_database caps ?db = Some (if caps AND mysqlCapConnectWithDB \<noteq> 0 then database else [])"
    using cut_zero [OF assms(9), of "[]"] by (simp add: handshake_database_def)
  ultimately have "handshake_login (packet_of tm (1, login)) caps c =
      connect_event (packet_of tm (1, login)) caps user (if caps AND mysqlCapConnectWithDB \<noteq> 0 then database else []) c"
    unfolding handshake_login_def pay d cut_zero [OF assms(8)] by simp
  moreover have "le_u32 login = caps"
  proof -
    have "take 4 login = le_bytes 4 (unat caps)" by (simp add: split)
    moreover have "unat caps < 2 ^ LENGTH(32)" by (rule unsigned_less)
    then have "le_nat (le_bytes 4 (unat caps)) = unat caps" by (intro le_nat_le_bytes_id) simp
    ultimately show ?thesis by (simp add: le_u32_def)
  qed
  ultimately show ?thesis using greeting_roundtrip [OF assms(1-6)] by simp
qed

theorem mysql_login_metadata_witness:
  "greeting_fields (encode_greeting ''8.0'' (replicate 13 (CHR 0x01)) 0x8208 ''abc'' (replicate 20 (CHR 0x00))) =
     Some (''8.0'', 0x8208, True) \<and>
   handshake_login (packet_of 0 (1, encode_login 0x8208 (replicate 28 (CHR 0x00)) ''root'' ''pw'' ''shop'')) 0x8208
     (call_of (newMySQLTracker [] False) conn0 demo_query 0) =
   connect_event (packet_of 0 (1, encode_login 0x8208 (replicate 28 (CHR 0x00)) ''root'' ''pw'' ''shop'')) 0x8208
     ''root'' ''shop'' (call_of (newMySQLTracker [] False) conn0 demo_query 0)"
proof -
  have caps: "(0x8208 :: u32) AND mysqlCapProtocol41 \<noteq> 0" "(0x8208 :: u32) AND mysqlCapConnectWithDB \<noteq> 0"
    by (simp_all add: mysql_caps)
  have np: "\<not> mysqlNotPrintable ''8.0''" by (simp add: mysqlNotPrintable_def)
  have l1: "32 \<le> length (encode_greeting ''8.0'' (replicate 13 (CHR 0x01)) 0x8208 ''abc'' (replicate 20 (CHR 0x00)))"
    by (simp add: encode_greeting_def)
  have l2: "length (encode_login 0x8208 (replicate 28 (CHR 0x00)) ''root'' ''pw'' ''shop'') \<le> mysqlPacketKeep"
    by (simp add: encode_login_def mysqlPacketKeep_def mysql_caps)
  show ?thesis
    using mysql_login_metadata [of "''8.0''" "replicate 13 (CHR 0x01)" "''abc''" "0x8208" "replicate 20 (CHR 0x00)"
        "replicate 28 (CHR 0x00)" "''root''" "''shop''" "''pw''" _ 0 "call_of (newMySQLTracker [] False) conn0 demo_query 0",
        OF _ np _ _ caps(1) l1 _ _ _ _ _ refl l2] caps(2) by simp
qed

end
