(* ===== verification/TraceSummary.thy ===== *)
theory TraceSummary
  imports Capture GoMap "HOL-Library.Multiset" "HOL-Library.Char_ord" "HOL-Library.List_Lexorder" "HOL-Library.Product_Lexorder"
begin

text \<open>
  What the summaries of the traces share. A summary folds events into counts: in total, per side,
  and per row. The contract of such counts is the locale \<open>event_counts\<close>; a report lists its rows in
  the order of a key, and the locale \<open>row_order\<close> says that the list is then determined, whatever
  order Go walks its map in and whatever sort is behind \<open>sort.Slice\<close>.
\<close>

subsection \<open>Counts of events\<close>

text \<open>The counts of the events with property \<open>P\<close>, and the map entry that is made by the first of them.\<close>

definition counted_by :: "('e \<Rightarrow> 'c \<Rightarrow> 'c) \<Rightarrow> 'c \<Rightarrow> ('e \<Rightarrow> bool) \<Rightarrow> 'e list \<Rightarrow> 'c" where
  "counted_by observe zero P es = fold observe (filter P es) zero"

definition entry_by :: "('e \<Rightarrow> 'c \<Rightarrow> 'c) \<Rightarrow> 'c \<Rightarrow> ('e \<Rightarrow> bool) \<Rightarrow> 'e list \<Rightarrow> 'c option" where
  "entry_by observe zero P es = (if list_ex P es then Some (counted_by observe zero P es) else None)"

lemma counted_by_snoc:
  "counted_by observe zero P (es @ [e]) =
     (if P e then observe e (counted_by observe zero P es) else counted_by observe zero P es)"
  by (simp add: counted_by_def)

lemma entry_by_snoc:
  "entry_by observe zero P (es @ [e]) =
     (if P e then Some (observe e (case entry_by observe zero P es of None \<Rightarrow> zero | Some c \<Rightarrow> c))
      else entry_by observe zero P es)"
proof -
  have "\<not> list_ex P es \<Longrightarrow> counted_by observe zero P es = zero"
    by (simp add: counted_by_def list_ex_iff filter_False)
  then show ?thesis by (simp add: entry_by_def counted_by_snoc)
qed

locale event_counts =
  fixes observe :: "'e \<Rightarrow> 'c \<Rightarrow> 'c" and zero :: 'c and weight :: "'c \<Rightarrow> nat" and adds :: "'e \<Rightarrow> nat"
  assumes weight_zero: "weight zero = 0"
    and weight_observe: "weight (observe e c) = weight c + adds e"
begin

lemma weight_counted: "weight (counted_by observe zero P es) = (\<Sum>e \<leftarrow> filter P es. adds e)"
  by (induction es rule: rev_induct) (simp_all add: counted_by_snoc weight_observe counted_by_def weight_zero)

text \<open>Updating the row of an event moves the sum over the rows by what the event adds.\<close>

lemma rows_put:
  assumes m: "map_ok m" and new: "counts (row None) = observe e zero"
    and old: "\<And>st. counts (row (Some st)) = observe e (counts st)"
  shows "map_total (\<lambda>st. weight (counts st)) (map_put k (row (map_get m k)) m) =
    map_total (\<lambda>st. weight (counts st)) m + adds e"
proof (cases "map_get m k")
  case None
  then show ?thesis
    using gm.total_put_new [OF None, of "\<lambda>st. weight (counts st)"] new by (simp add: weight_observe weight_zero)
next
  case (Some st)
  have "map_total (\<lambda>st. weight (counts st)) (map_put k (row (Some st)) m) + weight (counts st) =
      map_total (\<lambda>st. weight (counts st)) m + weight (counts (row (Some st)))"
    by (rule gm.total_put_old [OF m Some])
  then show ?thesis using Some old by (simp add: weight_observe)
qed

end

text \<open>
  A summary of events: a state with a total, counts per side and counts per row, each of which takes
  exactly the events that belong to it. Whatever the state is, its counts are those of its events.
\<close>

locale trace_summary =
  fixes step :: "'e \<Rightarrow> 's \<Rightarrow> 's" and start :: 's and total :: "'s \<Rightarrow> 'c"
    and side :: "'s \<Rightarrow> 'a \<Rightarrow> 'c option" and row :: "'s \<Rightarrow> 'b \<Rightarrow> 'c option"
    and observe :: "'e \<Rightarrow> 'c \<Rightarrow> 'c" and zero :: 'c
    and member :: "'e \<Rightarrow> bool" and on_side :: "'a \<Rightarrow> 'e \<Rightarrow> bool" and in_row :: "'b \<Rightarrow> 'e \<Rightarrow> bool"
  assumes start: "total start = zero" "side start a = None" "row start b = None"
    and step_total: "total (step e s) = (if member e then observe e (total s) else total s)"
    and step_side: "side (step e s) a =
      (if on_side a e then Some (observe e (case side s a of None \<Rightarrow> zero | Some c \<Rightarrow> c)) else side s a)"
    and step_row: "row (step e s) b =
      (if in_row b e then Some (observe e (case row s b of None \<Rightarrow> zero | Some c \<Rightarrow> c)) else row s b)"
begin

lemma entries:
  "total (fold step es start) = counted_by observe zero member es \<and>
   side (fold step es start) a = entry_by observe zero (on_side a) es \<and>
   row (fold step es start) b = entry_by observe zero (in_row b) es"
  by (induction es rule: rev_induct)
    (simp_all add: start counted_by_snoc entry_by_snoc step_total step_side step_row, simp_all add: counted_by_def entry_by_def)

end

subsection \<open>The order of a report\<close>

text \<open>\<open>sort.Slice\<close>: some sort by \<open>lt\<close>.\<close>

fun insert_by :: "('r \<Rightarrow> 'r \<Rightarrow> bool) \<Rightarrow> 'r \<Rightarrow> 'r list \<Rightarrow> 'r list" where
  "insert_by lt r [] = [r]"
| "insert_by lt r (x # xs) = (if lt x r then x # insert_by lt r xs else r # x # xs)"

definition sort_by :: "('r \<Rightarrow> 'r \<Rightarrow> bool) \<Rightarrow> 'r list \<Rightarrow> 'r list" where
  "sort_by lt rows = foldr (insert_by lt) rows []"

lemma insert_by_mset: "mset (insert_by lt r rows) = add_mset r (mset rows)"
  by (induction rows) auto

lemma insert_by_set: "set (insert_by lt r rows) = insert r (set rows)"
  using insert_by_mset [of lt r rows] by (metis set_mset_add_mset_insert set_mset_mset)

locale row_order =
  fixes lt :: "'r \<Rightarrow> 'r \<Rightarrow> bool" and key :: "'r \<Rightarrow> 'k :: linorder"
  assumes less_key: "lt a b \<longleftrightarrow> key a < key b"
begin

lemma insert_sorted: "sorted (map key rows) \<Longrightarrow> sorted (map key (insert_by lt r rows))"
  by (induction rows) (auto simp: less_key insert_by_set)

lemma sort_sorted: "mset (sort_by lt rows) = mset rows \<and> sorted (map key (sort_by lt rows))"
  unfolding sort_by_def by (induction rows) (simp_all add: insert_by_mset insert_sorted)

lemma sorted_unique:
  assumes "mset xs = mset ys" "sorted (map key xs)" "sorted (map key ys)" "inj_on key (set xs)"
  shows "xs = ys"
proof -
  have "mset (map key xs) = mset (map key ys)" using assms(1) by simp
  then have "map key xs = map key ys" using assms(2,3) by (metis properties_for_sort)
  moreover have "set ys = set xs" using assms(1) by (metis set_mset_mset)
  ultimately show ?thesis using assms(4) by (metis inj_on_map_eq_map sup.idem)
qed

lemma sort_determined:
  assumes "mset rows = mset xs" and "sorted_wrt (\<lambda>a b. \<not> lt b a) rows" and "inj_on key (set xs)"
  shows "sort_by lt xs = rows"
proof (rule sorted_unique)
  show "mset (sort_by lt xs) = mset rows" using sort_sorted [of xs] assms(1) by simp
  show "inj_on key (set (sort_by lt xs))" using assms(3) sort_sorted [of xs] by (metis set_mset_mset)
  show "sorted (map key rows)" using assms(2) by (simp add: less_key sorted_map not_less)
qed (use sort_sorted [of xs] in simp)

end

text \<open>The rows made of a map have distinct keys when the key of a row tells the key of the map.\<close>

lemma rows_distinct:
  assumes "map_ok m" and "\<And>x y. x \<in> set m \<Longrightarrow> y \<in> set m \<Longrightarrow> key (row x) = key (row y) \<Longrightarrow> fst x = fst y"
  shows "inj_on key (set (map row m))"
proof (rule inj_onI)
  fix a b assume a: "a \<in> set (map row m)" and b: "b \<in> set (map row m)" and k: "key a = key b"
  obtain x y where x: "x \<in> set m" "a = row x" and y: "y \<in> set m" "b = row y" using a b by auto
  have "x = y" using assms x y k unfolding map_ok_def by (metis eq_key_imp_eq_value prod.collapse)
  with x y show "a = b" by simp
qed

end
