(* ===== verification/MySQLSummary.thy ===== *)
theory MySQLSummary
  imports MySQLProtocol TraceSummary
begin

text \<open>
  The summary of a MySQL trace (\<open>traceMySQLCounts\<close> and \<open>mysqlTraceSummarizer\<close> of
  internal/edc/trace_mysql.go): one row per side, command and shape of the SQL, totals per side
  and over all. Go iterates over its maps in no fixed order; the report is shown not to depend on it.
\<close>

record traceMySQLCounts =
  mc_commands :: nat
  mc_responses :: nat
  mc_errors :: nat
  mc_unanswered :: nat
  mc_latencyAvg :: "rat option"
  mc_latencyMax :: "rat option"
  mc_connections :: nat
  mc_tlsConnections :: nat
  mc_compressedConnections :: nat
  mc_answered :: nat
  mc_latency :: traceSpans

definition counts0 :: traceMySQLCounts where
  "counts0 = \<lparr>mc_commands = 0, mc_responses = 0, mc_errors = 0, mc_unanswered = 0, mc_latencyAvg = None,
     mc_latencyMax = None, mc_connections = 0, mc_tlsConnections = 0, mc_compressedConnections = 0,
     mc_answered = 0, mc_latency = spans0\<rparr>"

definition counts_observe :: "captureEvent \<Rightarrow> traceMySQLCounts \<Rightarrow> traceMySQLCounts" where
  "counts_observe event counts =
     (if ev_event event = mysqlEventTLS then
        counts\<lparr>mc_connections := mc_connections counts + 1, mc_tlsConnections := mc_tlsConnections counts + 1\<rparr>
      else if mysqlResponseEvent (ev_event event) then
        counts\<lparr>mc_responses := mc_responses counts + 1,
          mc_errors := mc_errors counts + (if ev_event event = mysqlEventError then 1 else 0),
          mc_answered := mc_answered counts + ev_answered event,
          mc_latency := spans_observe (mc_latency counts) (ev_latencyMS event)\<rparr>
      else
        (let counts1 = counts\<lparr>mc_commands := mc_commands counts + 1\<rparr> in
         if ev_event event = mysqlEventConnect then
           counts1\<lparr>mc_connections := mc_connections counts + 1,
             mc_compressedConnections := mc_compressedConnections counts +
               (case ev_mysql event of None \<Rightarrow> 0 | Some info \<Rightarrow> if my_compressed info then 1 else 0)\<rparr>
         else counts1))"

definition counts_finished :: "traceMySQLCounts \<Rightarrow> traceMySQLCounts" where
  "counts_finished counts =
     counts\<lparr>mc_unanswered := mc_commands counts - min (mc_commands counts) (mc_answered counts),
       mc_latencyAvg := fst (spans_summary (mc_latency counts)),
       mc_latencyMax := snd (spans_summary (mc_latency counts))\<rparr>"

definition mysqlTraceShape :: "traceMySQLEvent \<Rightarrow> bytes" where
  "mysqlTraceShape info =
     (if my_command info = mysqlCommandConnect then ''(connect)''
      else if my_command info = mysqlCommandExecute \<and> my_sql info = [] then ''(statement not seen)''
      else if my_sql info = [] then ''(no SQL)''
      else traceMySQLLine (traceMySQLShape (my_sql info)))"

text \<open>A row is keyed by side, command and shape.\<close>

type_synonym mysqlTraceKey = "bytes \<times> bytes \<times> bytes"

record mysqlTraceRowStats =
  rs_processes :: "(bytes, unit) gomap"
  rs_counts :: traceMySQLCounts

record mysqlTraceSummarizer =
  sz_rows :: "(mysqlTraceKey, mysqlTraceRowStats) gomap"
  sz_counts :: traceMySQLCounts
  sz_sides :: "(bytes, traceMySQLCounts) gomap"

definition newMySQLTraceSummarizer :: mysqlTraceSummarizer where
  "newMySQLTraceSummarizer = \<lparr>sz_rows = [], sz_counts = counts0, sz_sides = []\<rparr>"

definition row_observe :: "captureEvent \<Rightarrow> mysqlTraceRowStats option \<Rightarrow> mysqlTraceRowStats" where
  "row_observe event old =
     (let stats = (case old of None \<Rightarrow> \<lparr>rs_processes = [], rs_counts = counts0\<rparr> | Some st \<Rightarrow> st) in
      \<lparr>rs_processes = (if ev_process event \<noteq> [] then map_put (ev_process event) () (rs_processes stats)
                       else rs_processes stats),
       rs_counts = counts_observe event (rs_counts stats)\<rparr>)"

definition side_observe :: "captureEvent \<Rightarrow> (bytes, traceMySQLCounts) gomap \<Rightarrow> (bytes, traceMySQLCounts) gomap" where
  "side_observe event sides =
     map_put (ev_side event)
       (counts_observe event (case map_get sides (ev_side event) of None \<Rightarrow> counts0 | Some c \<Rightarrow> c)) sides"

definition trace_key :: "captureEvent \<Rightarrow> traceMySQLEvent \<Rightarrow> mysqlTraceKey" where
  "trace_key event info = (ev_side event, my_command info, mysqlTraceShape info)"

definition summarizer_observe :: "captureEvent \<Rightarrow> mysqlTraceSummarizer \<Rightarrow> mysqlTraceSummarizer" where
  "summarizer_observe event s =
     (case ev_mysql event of
        None \<Rightarrow> s
      | Some info \<Rightarrow>
          (let s1 = s\<lparr>sz_counts := counts_observe event (sz_counts s),
                sz_sides := (if ev_side event \<noteq> [] then side_observe event (sz_sides s) else sz_sides s)\<rparr>
           in if ev_event event = mysqlEventTLS then s1
              else
                (let key = trace_key event info in
                 s1\<lparr>sz_rows := map_put key (row_observe event (map_get (sz_rows s) key)) (sz_rows s)\<rparr>)))"

subsection \<open>The report\<close>

record mysqlTraceRow =
  tr_side :: bytes
  tr_command :: bytes
  tr_shape :: bytes
  tr_processes :: "bytes list"
  tr_counts :: traceMySQLCounts

record mysqlTraceReport =
  rp_side :: bytes
  rp_durationMS :: nat
  rp_lostEvents :: nat
  rp_statements :: "mysqlTraceRow list"
  rp_counts :: traceMySQLCounts
  rp_client :: "traceMySQLCounts option"
  rp_server :: "traceMySQLCounts option"

definition row_less :: "mysqlTraceRow \<Rightarrow> mysqlTraceRow \<Rightarrow> bool" where
  "row_less left right =
     (if mc_commands (tr_counts left) \<noteq> mc_commands (tr_counts right) then
        mc_commands (tr_counts right) < mc_commands (tr_counts left)
      else if tr_shape left \<noteq> tr_shape right then tr_shape left < tr_shape right
      else if tr_command left \<noteq> tr_command right then tr_command left < tr_command right
      else tr_side left < tr_side right)"

text \<open>\<open>sort.Slice\<close>: some sort by \<open>row_less\<close>; which one does not matter, as shown below.\<close>

definition sort_rows :: "mysqlTraceRow list \<Rightarrow> mysqlTraceRow list" where
  "sort_rows rows = sort_by row_less rows"

definition report_row :: "mysqlTraceKey \<times> mysqlTraceRowStats \<Rightarrow> mysqlTraceRow" where
  "report_row r =
     (case r of ((side, command, shape), stats) \<Rightarrow>
        \<lparr>tr_side = side, tr_command = command, tr_shape = shape,
         tr_processes = sort (map fst (rs_processes stats)), tr_counts = counts_finished (rs_counts stats)\<rparr>)"

definition summarize :: "mysqlTraceSummarizer \<Rightarrow> nat \<Rightarrow> nat \<Rightarrow> mysqlTraceReport" where
  "summarize s lost duration =
     (let sides = sz_sides s;
          single = (map_len sides = 1);
          mixed = (1 < map_len sides)
      in \<lparr>rp_side = (if single then fst (hd sides) else []), rp_durationMS = duration, rp_lostEvents = lost,
          rp_statements = sort_rows (map report_row (sz_rows s)),
          rp_counts = counts_finished (sz_counts s),
          rp_client = (if mixed then map_option counts_finished (map_get sides traceClientSide) else None),
          rp_server = (if mixed then map_option counts_finished (map_get sides traceServerSide) else None)\<rparr>)"

subsection \<open>Rows and totals\<close>

text \<open>What one event adds to the counts that TLS connections do not touch.\<close>

definition command_adds :: "captureEvent \<Rightarrow> nat" where
  "command_adds e = (if ev_event e \<noteq> mysqlEventTLS \<and> \<not> mysqlResponseEvent (ev_event e) then 1 else 0)"

definition response_adds :: "captureEvent \<Rightarrow> nat" where
  "response_adds e = (if ev_event e \<noteq> mysqlEventTLS \<and> mysqlResponseEvent (ev_event e) then 1 else 0)"

lemma observe_adds [simp]:
  "mc_commands (counts_observe e c) = mc_commands c + command_adds e"
  "mc_responses (counts_observe e c) = mc_responses c + response_adds e"
  "mc_errors (counts_observe e c) = mc_errors c + (if response_adds e = 1 \<and> ev_event e = mysqlEventError then 1 else 0)"
  "mc_answered (counts_observe e c) = mc_answered c + (if response_adds e = 1 then ev_answered e else 0)"
  by (simp_all add: counts_observe_def command_adds_def response_adds_def Let_def)

text \<open>The four numbers that rows add up are counts of events.\<close>

definition error_adds :: "captureEvent \<Rightarrow> nat" where
  "error_adds e = (if response_adds e = 1 \<and> ev_event e = mysqlEventError then 1 else 0)"

definition answer_adds :: "captureEvent \<Rightarrow> nat" where
  "answer_adds e = (if response_adds e = 1 then ev_answered e else 0)"

interpretation mcommands: event_counts counts_observe counts0 mc_commands command_adds
  by unfold_locales (simp_all add: counts0_def)

interpretation mresponses: event_counts counts_observe counts0 mc_responses response_adds
  by unfold_locales (simp_all add: counts0_def)

interpretation merrors: event_counts counts_observe counts0 mc_errors error_adds
  by unfold_locales (simp_all add: counts0_def error_adds_def)

interpretation manswered: event_counts counts_observe counts0 mc_answered answer_adds
  by unfold_locales (simp_all add: counts0_def answer_adds_def)

lemmas mysql_rows_put =
  mcommands.rows_put [where counts = rs_counts and row = "row_observe e" for e]
  mresponses.rows_put [where counts = rs_counts and row = "row_observe e" for e]
  merrors.rows_put [where counts = rs_counts and row = "row_observe e" for e]
  manswered.rows_put [where counts = rs_counts and row = "row_observe e" for e]

lemma row_observe_counts [simp]:
  "rs_counts (row_observe e None) = counts_observe e counts0"
  "rs_counts (row_observe e (Some st)) = counts_observe e (rs_counts st)"
  by (simp_all add: row_observe_def Let_def)

definition rows_add_up :: "mysqlTraceSummarizer \<Rightarrow> bool" where
  "rows_add_up s \<longleftrightarrow>
     map_ok (sz_rows s) \<and>
     map_total (\<lambda>st. mc_commands (rs_counts st)) (sz_rows s) = mc_commands (sz_counts s) \<and>
     map_total (\<lambda>st. mc_responses (rs_counts st)) (sz_rows s) = mc_responses (sz_counts s) \<and>
     map_total (\<lambda>st. mc_errors (rs_counts st)) (sz_rows s) = mc_errors (sz_counts s) \<and>
     map_total (\<lambda>st. mc_answered (rs_counts st)) (sz_rows s) = mc_answered (sz_counts s)"

lemma rows_add_up_new: "rows_add_up newMySQLTraceSummarizer"
  by (simp add: rows_add_up_def newMySQLTraceSummarizer_def counts0_def gm.ok_empty gm.total_empty)

lemma rows_add_up_observe:
  assumes ok: "rows_add_up s"
  shows "rows_add_up (summarizer_observe e s)"
proof (cases "ev_mysql e")
  case None
  with ok show ?thesis by (simp add: summarizer_observe_def)
next
  case (Some info)
  have m: "map_ok (sz_rows s)" using ok by (simp add: rows_add_up_def)
  show ?thesis
  proof (cases "ev_event e = mysqlEventTLS")
    case True
    with ok Some show ?thesis
      by (simp add: summarizer_observe_def rows_add_up_def Let_def command_adds_def response_adds_def)
  next
    case False
    with False ok Some show ?thesis
      unfolding summarizer_observe_def rows_add_up_def Let_def by (simp add: gm.ok_put mysql_rows_put [OF m] error_adds_def answer_adds_def)
  qed
qed

definition summarize_events :: "captureEvent list \<Rightarrow> mysqlTraceSummarizer" where
  "summarize_events es = fold summarizer_observe es newMySQLTraceSummarizer"

lemma rows_add_up_events: "rows_add_up (summarize_events es)"
  by (induction es rule: rev_induct) (simp_all add: summarize_events_def rows_add_up_new rows_add_up_observe)


subsection \<open>What a row counts\<close>

definition counted_events :: "(captureEvent \<Rightarrow> bool) \<Rightarrow> captureEvent list \<Rightarrow> traceMySQLCounts" where
  "counted_events P es = counted_by counts_observe counts0 P es"

definition has_key :: "mysqlTraceKey \<Rightarrow> captureEvent \<Rightarrow> bool" where
  "has_key key e \<longleftrightarrow>
     ev_event e \<noteq> mysqlEventTLS \<and> (\<exists>info. ev_mysql e = Some info \<and> trace_key e info = key)"

definition has_side :: "bytes \<Rightarrow> captureEvent \<Rightarrow> bool" where
  "has_side side e \<longleftrightarrow> ev_mysql e \<noteq> None \<and> side \<noteq> [] \<and> ev_side e = side"

lemma counted_events_snoc:
  "counted_events P (es @ [e]) = (if P e then counts_observe e (counted_events P es) else counted_events P es)"
  by (simp add: counted_events_def counted_by_snoc)

definition entry :: "(captureEvent \<Rightarrow> bool) \<Rightarrow> captureEvent list \<Rightarrow> traceMySQLCounts option" where
  "entry P es = entry_by counts_observe counts0 P es"

lemma observe_total:
  "sz_counts (summarizer_observe e s) =
     (if ev_mysql e \<noteq> None then counts_observe e (sz_counts s) else sz_counts s)"
  by (auto simp: summarizer_observe_def Let_def split: option.split)

lemma observe_side:
  "map_get (sz_sides (summarizer_observe e s)) side =
     (if has_side side e
      then Some (counts_observe e (case map_get (sz_sides s) side of None \<Rightarrow> counts0 | Some c \<Rightarrow> c))
      else map_get (sz_sides s) side)"
  by (auto simp: summarizer_observe_def has_side_def side_observe_def gm.get_put Let_def split: option.split)

lemma observe_row:
  "map_option rs_counts (map_get (sz_rows (summarizer_observe e s)) key) =
     (if has_key key e
      then Some (counts_observe e (case map_option rs_counts (map_get (sz_rows s) key) of None \<Rightarrow> counts0 | Some c \<Rightarrow> c))
      else map_option rs_counts (map_get (sz_rows s) key))"
  by (auto simp: summarizer_observe_def has_key_def row_observe_def gm.get_put Let_def split: option.split)

interpretation mysql_entries: trace_summary summarizer_observe newMySQLTraceSummarizer sz_counts
    "\<lambda>s. map_get (sz_sides s)" "\<lambda>s key. map_option rs_counts (map_get (sz_rows s) key)"
    counts_observe counts0 "\<lambda>e. ev_mysql e \<noteq> None" has_side has_key
  by (unfold_locales; (simp only: observe_total observe_side observe_row)?)
    (simp_all add: newMySQLTraceSummarizer_def gm.get_empty)

lemmas summary_entries = mysql_entries.entries [folded summarize_events_def counted_events_def entry_def]

text \<open>
  The summary counts every event once. The total, the counts of a side and the counts of a
  row are those of exactly the events with a MySQL payload, with that side, with that side,
  command and shape; and commands, responses, errors and answers of the rows sum up to the total.
\<close>
theorem mysql_summary_exact:
  "sz_counts (summarize_events es) = counted_events (\<lambda>e. ev_mysql e \<noteq> None) es \<and>
   map_get (sz_sides (summarize_events es)) side = entry (has_side side) es \<and>
   map_option rs_counts (map_get (sz_rows (summarize_events es)) key) = entry (has_key key) es \<and>
   map_total (\<lambda>st. mc_commands (rs_counts st)) (sz_rows (summarize_events es)) = mc_commands (sz_counts (summarize_events es)) \<and>
   map_total (\<lambda>st. mc_responses (rs_counts st)) (sz_rows (summarize_events es)) = mc_responses (sz_counts (summarize_events es)) \<and>
   map_total (\<lambda>st. mc_errors (rs_counts st)) (sz_rows (summarize_events es)) = mc_errors (sz_counts (summarize_events es)) \<and>
   map_total (\<lambda>st. mc_answered (rs_counts st)) (sz_rows (summarize_events es)) = mc_answered (sz_counts (summarize_events es))"
  using summary_entries [of es side key] rows_add_up_events [of es] by (simp add: rows_add_up_def)

subsection \<open>Unanswered commands\<close>

text \<open>Answers and requests over all sockets.\<close>

lemma requests_of_sum: "requests_of es = (\<Sum>e\<leftarrow>es. if request_event e then 1 else 0)"
  by (induction es) (simp_all add: requests_of_def)

lemma run_answers_total:
  assumes "mysql_run (newMySQLTracker side showSecrets) inputs = (t, out)"
  shows "answered_of out \<le> requests_of out"
proof -
  let ?S = "ev_socketID ` set out"
  have "answered_of (on_socket k out) \<le> requests_of (on_socket k out)" for k
    using run_open [OF tracker_ok_new assms, of k]
    by (simp add: open_at_def stored_view_def newMySQLTracker_def gm.get_empty)
  then have "(\<Sum>k\<in>?S. answered_of (on_socket k out)) \<le> (\<Sum>k\<in>?S. requests_of (on_socket k out))"
    by (intro sum_mono)
  then show ?thesis
    using sum_by_socket [of ?S out ev_answered] sum_by_socket [of ?S out "\<lambda>e. if request_event e then 1 else 0"]
    by (simp add: answered_of_def requests_of_sum)
qed

text \<open>The counts of the events of a run.\<close>

definition tracked :: "captureEvent \<Rightarrow> bool" where
  "tracked e \<longleftrightarrow> (\<exists>s k. event_ok s k e)"

lemma tracked_adds:
  assumes "tracked e"
  shows "command_adds e = (if request_event e then 1 else 0)"
    and "(if response_adds e = 1 then ev_answered e else 0) = ev_answered e"
proof -
  have "name_ok (ev_event e)" "ev_answered e = 0 \<or> mysqlResponseEvent (ev_event e)"
    using assms by (auto simp: tracked_def event_ok_def)
  moreover have "request_name n \<Longrightarrow> n \<noteq> mysqlEventTLS \<and> \<not> mysqlResponseEvent n" for n
    by (auto simp: request_name_def mysqlResponseEvent_def mysql_names)
  moreover have "mysqlResponseEvent n \<Longrightarrow> n \<noteq> mysqlEventTLS" for n
    by (auto simp: mysqlResponseEvent_def mysql_names)
  moreover have "request_event e = request_name (ev_event e)" by (simp add: request_event_def request_name_def)
  ultimately show "command_adds e = (if request_event e then 1 else 0)"
    "(if response_adds e = 1 then ev_answered e else 0) = ev_answered e"
    by (auto simp: command_adds_def response_adds_def name_ok_def)
qed

lemma tracked_counts:
  "list_all tracked es \<Longrightarrow>
   mc_commands (counted_events (\<lambda>e. ev_mysql e \<noteq> None) es) = requests_of es \<and>
   mc_answered (counted_events (\<lambda>e. ev_mysql e \<noteq> None) es) = answered_of es"
proof (induction es rule: rev_induct)
  case Nil
  show ?case by (simp add: counted_events_def counted_by_def counts0_def)
next
  case (snoc e es)
  then have e: "tracked e" "ev_mysql e \<noteq> None" by (auto simp: tracked_def event_ok_def)
  with snoc tracked_adds [OF e(1)] show ?case by (simp add: counted_events_snoc)
qed

text \<open>
  For the events of a run, the summary's number of unanswered commands is exact: it is the
  number of requests reported less the number answered, and never hides an excess of answers
  behind its lower bound of zero.
\<close>
theorem mysql_unanswered_exact:
  "int (mc_unanswered (counts_finished (sz_counts (summarize_events (snd (mysql_run (newMySQLTracker side showSecrets) inputs)))))) =
     int (requests_of (snd (mysql_run (newMySQLTracker side showSecrets) inputs))) -
     int (answered_of (snd (mysql_run (newMySQLTracker side showSecrets) inputs)))"
proof -
  obtain t out where run: "mysql_run (newMySQLTracker side showSecrets) inputs = (t, out)" by fastforce
  have "list_all (\<lambda>e. \<exists>k. event_ok showSecrets k e) out"
    using mysql_run_ok [OF tracker_ok_new run] by (simp add: newMySQLTracker_def)
  then have "list_all tracked out" by (rule list.pred_mono_strong) (auto simp: tracked_def)
  note counts = tracked_counts [OF this]
  have "sz_counts (summarize_events out) = counted_events (\<lambda>e. ev_mysql e \<noteq> None) out"
    using summary_entries [of out] by simp
  then show ?thesis
    using counts run_answers_total [OF run] run by (simp add: counts_finished_def min_def of_nat_diff)
qed


subsection \<open>The order of the report\<close>

text \<open>\<open>row_less\<close> is the lexicographic order of this key.\<close>

definition row_key :: "mysqlTraceRow \<Rightarrow> int \<times> bytes \<times> bytes \<times> bytes" where
  "row_key r = (- int (mc_commands (tr_counts r)), tr_shape r, tr_command r, tr_side r)"

lemma row_less_key: "row_less left right \<longleftrightarrow> row_key left < row_key right"
  by (auto simp: row_less_def row_key_def less_prod_def)

interpretation mysql_order: row_order row_less row_key
  by unfold_locales (rule row_less_key)

lemma report_rows_distinct: "map_ok m \<Longrightarrow> inj_on row_key (set (map report_row m))"
  by (erule rows_distinct) (auto simp: row_key_def report_row_def split: prod.splits)

text \<open>
  The report does not depend on the order in which Go walks its maps, nor on the algorithm
  behind \<open>sort.Slice\<close>: the statements of the report are the one list that has all the rows and is
  sorted by commands (most first), shape, command and side.
\<close>
theorem mysql_report_order:
  assumes "map_ok (sz_rows s)" and "mset rows = mset (map report_row (sz_rows s))"
    and "sorted_wrt (\<lambda>left right. \<not> row_less right left) rows"
  shows "rp_statements (summarize s lost duration) = rows"
proof -
  have "sort_by row_less (map report_row (sz_rows s)) = rows"
    by (rule mysql_order.sort_determined [OF assms(2,3) report_rows_distinct [OF assms(1)]])
  then show ?thesis by (simp add: summarize_def sort_rows_def Let_def)
qed

definition demo_rows :: "(mysqlTraceKey, mysqlTraceRowStats) gomap" where
  "demo_rows =
     [((''client'', ''query'', ''select ?''), \<lparr>rs_processes = [], rs_counts = counts0\<lparr>mc_commands := 1\<rparr>\<rparr>),
      ((''client'', ''query'', ''begin''), \<lparr>rs_processes = [], rs_counts = counts0\<lparr>mc_commands := 3\<rparr>\<rparr>)]"

theorem mysql_report_order_witness:
  "rp_statements (summarize (newMySQLTraceSummarizer\<lparr>sz_rows := demo_rows\<rparr>) 0 0) =
     [report_row (demo_rows ! 1), report_row (demo_rows ! 0)]"
proof (rule mysql_report_order)
  show "map_ok (sz_rows (newMySQLTraceSummarizer\<lparr>sz_rows := demo_rows\<rparr>))"
    by (simp add: map_ok_def demo_rows_def)
  show "mset [report_row (demo_rows ! 1), report_row (demo_rows ! 0)] =
      mset (map report_row (sz_rows (newMySQLTraceSummarizer\<lparr>sz_rows := demo_rows\<rparr>)))"
    by (simp add: demo_rows_def)
  show "sorted_wrt (\<lambda>left right. \<not> row_less right left) [report_row (demo_rows ! 1), report_row (demo_rows ! 0)]"
    by (simp add: demo_rows_def report_row_def row_less_def counts_finished_def counts0_def)
qed

end
