(* ===== verification/SqlChars.thy ===== *)
theory SqlChars
  imports Prelude
begin

text \<open>
  What the lexical grammars of MySQL and PostgreSQL share, written down without the scanners of the code: the
  characters between two quotes, and the first occurrence of a closing mark. \<open>char_reading\<close> and
  \<open>first_occurrence\<close> say that every text has such a reading.
\<close>

subsection \<open>Between quotes\<close>

text \<open>A byte, the doubled quote, or a byte behind a backslash.\<close>

datatype sql_char = Plain byte | Twice | Escaped byte

fun char_text :: "byte \<Rightarrow> sql_char \<Rightarrow> bytes" where
  "char_text q (Plain b) = [b]"
| "char_text q Twice = [q, q]"
| "char_text q (Escaped b) = [CHR 0x5C, b]"

text \<open>Which characters stand between quotes \<open>q\<close>, when a backslash escapes there or when it does not.\<close>

fun quoted_char :: "bool \<Rightarrow> byte \<Rightarrow> sql_char \<Rightarrow> bool" where
  "quoted_char escapes q (Plain b) \<longleftrightarrow> b \<noteq> q \<and> (escapes \<longrightarrow> b \<noteq> CHR 0x5C)"
| "quoted_char escapes q Twice = True"
| "quoted_char escapes q (Escaped b) = escapes"

definition chars_text :: "byte \<Rightarrow> sql_char list \<Rightarrow> bytes" where
  "chars_text q cs = concat (map (char_text q) cs)"

text \<open>An open text may end with a backslash that has nothing behind it.\<close>

definition dangling_text :: "bool \<Rightarrow> bytes" where
  "dangling_text dangling = (if dangling then [CHR 0x5C] else [])"

lemma chars_simps [simp]: "chars_text q [] = []" "chars_text q (c # cs) = char_text q c @ chars_text q cs"
  by (simp_all add: chars_text_def)

lemma dangling_simps [simp]: "dangling_text False = []" "dangling_text True = [CHR 0x5C]"
  by (simp_all add: dangling_text_def)

text \<open>What follows an opening quote: a body up to the closing quote, or an open end.\<close>

definition closed_reading :: "bool \<Rightarrow> byte \<Rightarrow> bytes \<Rightarrow> bool" where
  "closed_reading escapes q w \<longleftrightarrow>
     (\<exists>cs rest. list_all (quoted_char escapes q) cs \<and> w = chars_text q cs @ q # rest \<and> \<not> (rest \<noteq> [] \<and> hd rest = q))"

definition open_reading :: "bool \<Rightarrow> byte \<Rightarrow> bytes \<Rightarrow> bool" where
  "open_reading escapes q w \<longleftrightarrow>
     (\<exists>cs dangling. list_all (quoted_char escapes q) cs \<and> (dangling \<longrightarrow> escapes) \<and> w = chars_text q cs @ dangling_text dangling)"

lemma reading_step:
  assumes "quoted_char escapes q c" and "closed_reading escapes q v \<or> open_reading escapes q v"
  shows "closed_reading escapes q (char_text q c @ v) \<or> open_reading escapes q (char_text q c @ v)"
  using assms(2)
proof
  assume "closed_reading escapes q v"
  then obtain cs rest where "list_all (quoted_char escapes q) (c # cs)" "char_text q c @ v = chars_text q (c # cs) @ q # rest"
    "\<not> (rest \<noteq> [] \<and> hd rest = q)"
    using assms(1) by (auto simp: closed_reading_def)
  then show ?thesis unfolding closed_reading_def by blast
next
  assume "open_reading escapes q v"
  then obtain cs dangling where "list_all (quoted_char escapes q) (c # cs)" "dangling \<longrightarrow> escapes"
    "char_text q c @ v = chars_text q (c # cs) @ dangling_text dangling"
    using assms(1) by (auto simp: open_reading_def)
  then show ?thesis unfolding open_reading_def by blast
qed

lemma char_reading:
  assumes "q \<noteq> CHR 0x5C"
  shows "closed_reading escapes q w \<or> open_reading escapes q w"
proof (induction w rule: length_induct)
  case (1 w)
  show ?case
  proof (cases w)
    case Nil
    have "open_reading escapes q []"
      unfolding open_reading_def by (rule exI [of _ "[]"], rule exI [of _ False]) simp
    then show ?thesis using Nil by simp
  next
    case (Cons b v)
    consider (dangling) "escapes" "b = CHR 0x5C" "v = []" | (escape) e u where "escapes" "b = CHR 0x5C" "v = e # u"
      | (twice) u where "b = q" "v = q # u" | (close) "b = q" "\<not> (v \<noteq> [] \<and> hd v = q)"
      | (plain) "b \<noteq> q" "escapes \<longrightarrow> b \<noteq> CHR 0x5C"
      by (cases v; cases escapes) auto
    then show ?thesis
    proof cases
      case dangling
      then have "open_reading escapes q w"
        unfolding open_reading_def using Cons by (intro exI [of _ "[]"] exI [of _ True]) simp
      then show ?thesis by blast
    next
      case escape
      then show ?thesis using reading_step [of escapes q "Escaped e" u] "1.IH" Cons by simp
    next
      case twice
      then show ?thesis using reading_step [of escapes q Twice u] "1.IH" Cons by simp
    next
      case close
      then have "closed_reading escapes q w"
        unfolding closed_reading_def using Cons by (intro exI [of _ "[]"] exI [of _ v]) simp
      then show ?thesis by blast
    next
      case plain
      then show ?thesis using reading_step [of escapes q "Plain b" v] "1.IH" Cons by simp
    qed
  qed
qed

subsection \<open>The first occurrence of a mark\<close>

definition occurs :: "bytes \<Rightarrow> bytes \<Rightarrow> bool" where
  "occurs sep w \<longleftrightarrow> (\<exists>xs ys. w = xs @ sep @ ys)"

lemma occurs_Cons: "occurs sep (c # cs) \<longleftrightarrow> (\<exists>ys. c # cs = sep @ ys) \<or> occurs sep cs"
proof
  assume "occurs sep (c # cs)"
  then obtain xs ys where h: "c # cs = xs @ sep @ ys" by (auto simp: occurs_def)
  show "(\<exists>ys. c # cs = sep @ ys) \<or> occurs sep cs"
  proof (cases xs)
    case (Cons x xs1)
    then have "cs = xs1 @ sep @ ys" using h by simp
    then show ?thesis unfolding occurs_def by blast
  qed (use h in auto)
next
  assume "(\<exists>ys. c # cs = sep @ ys) \<or> occurs sep cs"
  then show "occurs sep (c # cs)"
  proof
    assume "\<exists>ys. c # cs = sep @ ys"
    then obtain ys where "c # cs = [] @ sep @ ys" by auto
    then show ?thesis unfolding occurs_def by blast
  next
    assume "occurs sep cs"
    then obtain xs ys where "c # cs = (c # xs) @ sep @ ys" by (auto simp: occurs_def)
    then show ?thesis unfolding occurs_def by blast
  qed
qed

lemma occurs_Nil [simp]: "occurs sep [] \<longleftrightarrow> sep = []"
  by (auto simp: occurs_def)

lemma occurs_short: "length w < length sep \<Longrightarrow> \<not> occurs sep w"
  by (auto simp: occurs_def)

text \<open>\<open>sep\<close> starts first where \<open>body\<close> ends.\<close>

definition first_at :: "bytes \<Rightarrow> bytes \<Rightarrow> bool" where
  "first_at sep body \<longleftrightarrow> \<not> occurs sep (body @ butlast sep)"

lemma first_at_Cons:
  assumes "first_at sep (c # body)" and "sep \<noteq> []"
  shows "first_at sep body" and "\<not> (\<exists>ys. c # body @ sep @ rest = sep @ ys)"
proof -
  show "first_at sep body" using assms(1) by (simp add: first_at_def occurs_Cons)
  show "\<not> (\<exists>ys. c # body @ sep @ rest = sep @ ys)"
  proof
    assume "\<exists>ys. c # body @ sep @ rest = sep @ ys"
    then obtain ys where h: "c # body @ sep @ rest = sep @ ys" by blast
    have b: "sep = butlast sep @ [last sep]" using assms(2) by simp
    have "take (length sep) (c # body @ sep @ rest) = sep" using h by simp
    moreover have "take (length sep) (c # body @ sep @ rest) = take (length sep) (c # body @ butlast sep)"
      by (subst (2) b) (simp add: take_Cons')
    ultimately have "c # body @ butlast sep = sep @ drop (length sep) (c # body @ butlast sep)"
      by (metis append_take_drop_id)
    then show False using assms(1) by (auto simp: first_at_def occurs_Cons)
  qed
qed

lemma first_occurrence:
  assumes "sep \<noteq> []"
  shows "(\<exists>body rest. w = body @ sep @ rest \<and> first_at sep body) \<or> \<not> occurs sep w"
proof (induction w)
  case Nil
  then show ?case using assms by simp
next
  case (Cons c cs)
  show ?case
  proof (cases "\<exists>ys. c # cs = sep @ ys")
    case True
    then obtain ys where "c # cs = [] @ sep @ ys" by auto
    moreover have "first_at sep []" using assms by (simp add: first_at_def occurs_short)
    ultimately show ?thesis by blast
  next
    case False
    from Cons.IH show ?thesis
    proof (elim disjE exE conjE)
      fix body rest assume h: "cs = body @ sep @ rest" "first_at sep body"
      have "\<not> (\<exists>ys. c # body @ butlast sep = sep @ ys)"
      proof
        assume "\<exists>ys. c # body @ butlast sep = sep @ ys"
        then obtain ys where "c # body @ butlast sep = sep @ ys" by blast
        then have "c # cs = sep @ ys @ last sep # rest"
          using h(1) append_butlast_last_id [OF assms] by (metis append.assoc append_Cons append_Nil)
        then show False using False by blast
      qed
      then have "first_at sep (c # body)" using h(2) by (simp add: first_at_def occurs_Cons)
      then show ?thesis using h(1) by (metis append_Cons)
    next
      assume "\<not> occurs sep cs"
      then show ?thesis using False by (simp add: occurs_Cons)
    qed
  qed
qed

text \<open>The first run of bytes without a line end.\<close>

definition line_of :: "bytes \<Rightarrow> bytes" where
  "line_of w = takeWhile (\<lambda>b. b \<noteq> CHR 0x0A) w"

definition after_line :: "bytes \<Rightarrow> bytes" where
  "after_line w = dropWhile (\<lambda>b. b \<noteq> CHR 0x0A) w"

lemma line_split: "w = line_of w @ after_line w"
  by (simp add: line_of_def after_line_def)

lemma line_facts: "CHR 0x0A \<notin> set (line_of w)" "after_line w = [] \<or> hd (after_line w) = CHR 0x0A"
  using hd_dropWhile [of "\<lambda>b. b \<noteq> CHR 0x0A" w] by (auto simp: line_of_def after_line_def dest: set_takeWhileD)

lemma index_line:
  assumes "CHR 0x0A \<notin> set w" and "rest = [] \<or> hd rest = CHR 0x0A"
  shows "(case index_byte (w @ rest) (CHR 0x0A) of Some n \<Rightarrow> n | None \<Rightarrow> length (w @ rest)) = length w"
proof -
  have "index_byte (w @ rest) (CHR 0x0A) = (if rest = [] then None else Some (length w))"
    using assms by (induction w; cases rest) auto
  then show ?thesis by simp
qed

end
