(* ===== verification/MySQLTokens.thy ===== *)
theory MySQLTokens
  imports MySQLText SqlChars
begin

text \<open>
  What \<open>mysqlMaskSQL\<close> promises, against the lexical grammar of MySQL (in its default mode) and not against the scanners of the code: a
  statement is a sequence of quoted strings, quoted names, comments and single bytes of code. The
  grammar is given by what each token looks like; \<open>sql_tokens\<close> says when a sequence of tokens
  is the reading of its text. The theorem: every statement has such a reading, and masking replaces the
  body of each string by a question mark and copies every other token.
\<close>

subsection \<open>Tokens\<close>

text \<open>
  An open string or name ends with the text; an open string may end with a backslash that has nothing
  behind it.
\<close>

datatype sql_token =
    Quoted byte "sql_char list"
  | OpenQuoted byte "sql_char list" bool
  | Name "sql_char list"
  | OpenName "sql_char list"
  | LineComment bytes
  | BlockComment bytes
  | OpenComment bytes
  | Code byte

fun token_text :: "sql_token \<Rightarrow> bytes" where
  "token_text (Quoted q cs) = [q] @ chars_text q cs @ [q]"
| "token_text (OpenQuoted q cs dangling) = [q] @ chars_text q cs @ dangling_text dangling"
| "token_text (Name cs) = [CHR 0x60] @ chars_text (CHR 0x60) cs @ [CHR 0x60]"
| "token_text (OpenName cs) = [CHR 0x60] @ chars_text (CHR 0x60) cs"
| "token_text (LineComment w) = w"
| "token_text (BlockComment body) = ''/*'' @ body @ ''*/''"
| "token_text (OpenComment body) = ''/*'' @ body"
| "token_text (Code b) = [b]"

text \<open>What the masked statement shows of a token.\<close>

fun token_shown :: "sql_token \<Rightarrow> bytes" where
  "token_shown (Quoted q cs) = [q, CHR ''?'', q]"
| "token_shown (OpenQuoted q cs dangling) = [q, CHR ''?'']"
| "token_shown t = token_text t"

text \<open>
  A comment to the end of the line starts with \<open>#\<close>, or with two dashes before white space, a control byte or the
  end; a block comment whose text starts with \<open>!\<close> or \<open>+\<close> is code to MySQL.
\<close>

definition line_start :: "bytes \<Rightarrow> bool" where
  "line_start w \<longleftrightarrow>
     (\<exists>more. w = CHR 0x23 # more) \<or>
     (\<exists>more. w = ''--'' @ more \<and> (more = [] \<or> bval (hd more) \<le> 32))"

definition block_start :: "bytes \<Rightarrow> bool" where
  "block_start w \<longleftrightarrow> (\<exists>more. w = ''/*'' @ more \<and> \<not> (more \<noteq> [] \<and> hd more \<in> {CHR ''!'', CHR ''+''}))"

text \<open>When \<open>t\<close> is the token that starts before the text \<open>rest\<close>.\<close>

fun token_ok :: "sql_token \<Rightarrow> bytes \<Rightarrow> bool" where
  "token_ok (Quoted q cs) rest \<longleftrightarrow>
     q \<in> {CHR 0x27, CHR 0x22} \<and> list_all (quoted_char True q) cs \<and> \<not> (rest \<noteq> [] \<and> hd rest = q)"
| "token_ok (OpenQuoted q cs dangling) rest \<longleftrightarrow> q \<in> {CHR 0x27, CHR 0x22} \<and> list_all (quoted_char True q) cs \<and> rest = []"
| "token_ok (Name cs) rest \<longleftrightarrow> list_all (quoted_char False (CHR 0x60)) cs \<and> \<not> (rest \<noteq> [] \<and> hd rest = CHR 0x60)"
| "token_ok (OpenName cs) rest \<longleftrightarrow> list_all (quoted_char False (CHR 0x60)) cs \<and> rest = []"
| "token_ok (LineComment w) rest \<longleftrightarrow>
     line_start w \<and> CHR 0x0A \<notin> set w \<and> (rest = [] \<or> hd rest = CHR 0x0A)"
| "token_ok (BlockComment body) rest \<longleftrightarrow> block_start (''/*'' @ body) \<and> first_at ''*/'' body"
| "token_ok (OpenComment body) rest \<longleftrightarrow> block_start (''/*'' @ body) \<and> \<not> occurs ''*/'' body \<and> rest = []"
| "token_ok (Code b) rest \<longleftrightarrow>
     b \<notin> {CHR 0x27, CHR 0x22, CHR 0x60} \<and> \<not> line_start (b # rest) \<and> \<not> block_start (b # rest)"

definition tokens_text :: "sql_token list \<Rightarrow> bytes" where
  "tokens_text ts = concat (map token_text ts)"

definition tokens_shown :: "sql_token list \<Rightarrow> bytes" where
  "tokens_shown ts = concat (map token_shown ts)"

fun sql_tokens :: "sql_token list \<Rightarrow> bool" where
  "sql_tokens [] = True"
| "sql_tokens (t # ts) \<longleftrightarrow> token_ok t (tokens_text ts) \<and> sql_tokens ts"

lemma tokens_simps [simp]:
  "tokens_text [] = []" "tokens_text (t # ts) = token_text t @ tokens_text ts"
  "tokens_shown [] = []" "tokens_shown (t # ts) = token_shown t @ tokens_shown ts"
  by (simp_all add: tokens_text_def tokens_shown_def)

subsection \<open>The scanners read the grammar\<close>

lemma literal_scan_string:
  assumes "q \<noteq> CHR 0x5C" and "list_all (quoted_char True q) cs" and "\<not> (rest \<noteq> [] \<and> hd rest = q)"
  shows "literal_scan q (chars_text q cs @ q # rest) = (length (chars_text q cs) + 1, True)"
  using assms(2)
proof (induction cs)
  case Nil
  then show ?case using assms(1,3) by (cases rest) simp_all
next
  case (Cons c cs)
  then show ?case using assms(1) by (cases c) simp_all
qed

lemma literal_scan_open_string:
  assumes "q \<noteq> CHR 0x5C" and "list_all (quoted_char True q) cs"
  shows "literal_scan q (chars_text q cs @ dangling_text dangling) = (length (chars_text q cs @ dangling_text dangling), False)"
  using assms(2)
proof (induction cs)
  case Nil
  then show ?case by (cases dangling) simp_all
next
  case (Cons c cs)
  then show ?case using assms(1) by (cases c) simp_all
qed

lemma backtick_scan_name:
  assumes "list_all (quoted_char False (CHR 0x60)) cs" and "\<not> (rest \<noteq> [] \<and> hd rest = CHR 0x60)"
  shows "backtick_scan (chars_text (CHR 0x60) cs @ CHR 0x60 # rest) = length (chars_text (CHR 0x60) cs) + 1"
  using assms(1)
proof (induction cs)
  case Nil
  then show ?case using assms(2) by (cases rest) simp_all
next
  case (Cons c cs)
  then show ?case by (cases c) simp_all
qed

lemma backtick_scan_open_name:
  "list_all (quoted_char False (CHR 0x60)) cs \<Longrightarrow> backtick_scan (chars_text (CHR 0x60) cs) = length (chars_text (CHR 0x60) cs)"
proof (induction cs)
  case (Cons c cs)
  then show ?case by (cases c) simp_all
qed simp

lemma line_start_comment: "line_start w = line_comment w"
proof (cases w)
  case (Cons a more)
  then show ?thesis
    by (cases more; cases "tl more") (auto simp: line_start_def line_comment_def)
qed (simp add: line_start_def line_comment_def)

lemma block_start_comment: "block_start w = block_comment w"
proof (cases w)
  case (Cons a more)
  then show ?thesis
    by (cases more; cases "tl more") (auto simp: block_start_def block_comment_def)
qed (simp add: block_start_def block_comment_def)

lemma close_mark: "(\<exists>ys. c # cs = ''*/'' @ ys) \<longleftrightarrow> c = CHR ''*'' \<and> cs \<noteq> [] \<and> hd cs = CHR ''/''"
  by (cases cs) auto

lemma index_close_none: "\<not> occurs ''*/'' w \<Longrightarrow> index_close w = None"
proof (induction w)
  case (Cons c cs)
  then show ?case unfolding occurs_Cons close_mark by auto
qed simp

lemma index_close_first: "first_at ''*/'' body \<Longrightarrow> index_close (body @ ''*/'' @ rest) = Some (length body)"
proof (induction body)
  case (Cons c body)
  then show ?case
    using first_at_Cons(1) [of "''*/''" c body] first_at_Cons(2) [of "''*/''" c body rest] unfolding close_mark by auto
qed simp

lemma line_end_comment: "CHR 0x0A \<notin> set w \<Longrightarrow> rest = [] \<or> hd rest = CHR 0x0A \<Longrightarrow> line_end (w @ rest) = length w"
  using index_line by (simp add: line_end_def)

lemma mask_comment:
  assumes "mysqlCommentEnd (w @ rest) = length w" and "w = c # cs" and "\<not> quote_byte c" and "c \<noteq> CHR 0x60"
  shows "mysqlMaskSQL (w @ rest) = w @ mysqlMaskSQL rest"
  using assms by (simp add: mysqlMaskSQL.simps)

lemma block_not_line: "block_comment w \<Longrightarrow> \<not> line_comment w"
  by (auto simp: block_comment_def line_comment_def)

text \<open>Masking a token and then the rest.\<close>

lemma mask_token:
  assumes "token_ok t rest"
  shows "mysqlMaskSQL (token_text t @ rest) = token_shown t @ mysqlMaskSQL rest"
proof (cases t)
  case (Quoted q cs)
  then have "literal_scan q (chars_text q cs @ q # rest) = (length (chars_text q cs) + 1, True)"
    using assms by (intro literal_scan_string) auto
  then show ?thesis
    using assms Quoted by (auto simp: mysqlMaskSQL.simps mysqlLiteralEnd_def quote_byte_def)
next
  case (OpenQuoted q cs dangling)
  let ?body = "chars_text q cs @ dangling_text dangling"
  have "literal_scan q ?body = (length ?body, False)"
    using assms OpenQuoted by (intro literal_scan_open_string) auto
  then show ?thesis
    using assms OpenQuoted by (auto simp: mysqlMaskSQL.simps mysqlLiteralEnd_def quote_byte_def)
next
  case (Name cs)
  then have "backtick_scan (chars_text (CHR 0x60) cs @ CHR 0x60 # rest) = length (chars_text (CHR 0x60) cs) + 1"
    using assms by (intro backtick_scan_name) auto
  then show ?thesis
    using assms Name by (simp add: mysqlMaskSQL.simps mysqlBacktickEnd_def quote_byte_def)
next
  case (OpenName cs)
  then show ?thesis
    using assms backtick_scan_open_name [of cs] by (simp add: mysqlMaskSQL.simps mysqlBacktickEnd_def quote_byte_def)
next
  case (LineComment w)
  then have w: "line_start w" "CHR 0x0A \<notin> set w" "rest = [] \<or> hd rest = CHR 0x0A" using assms by simp_all
  then obtain c cs where c: "w = c # cs" "\<not> quote_byte c" "c \<noteq> CHR 0x60"
    by (auto simp: line_start_def quote_byte_def)
  have "line_start (w @ rest)"
    using w(1,3) by (cases rest) (auto simp: line_start_def hd_append split: if_splits)
  then have "mysqlCommentEnd (w @ rest) = length w"
    using line_end_comment [OF w(2,3)] by (simp add: mysqlCommentEnd_def line_start_comment)
  from mask_comment [OF this c] show ?thesis by (simp add: LineComment)
next
  case (BlockComment body)
  then have body: "block_start (''/*'' @ body)" "first_at ''*/'' body" using assms by simp_all
  let ?w = "''/*'' @ body @ ''*/''"
  have "block_start (?w @ rest)" using body(1) by (cases body) (simp_all add: block_start_def)
  then have "block_comment (?w @ rest)" by (simp only: block_start_comment)
  moreover have "index_close (drop 2 (?w @ rest)) = Some (length body)"
    using index_close_first [OF body(2), of rest] by simp
  ultimately have "mysqlCommentEnd (?w @ rest) = length ?w"
    using block_not_line [of "?w @ rest"] by (simp add: mysqlCommentEnd_def)
  from mask_comment [OF this] show ?thesis by (simp add: BlockComment quote_byte_def)
next
  case (OpenComment body)
  then have body: "block_start (''/*'' @ body)" "\<not> occurs ''*/'' body" "rest = []" using assms by simp_all
  let ?w = "''/*'' @ body"
  have "block_comment ?w" using body(1) by (simp only: block_start_comment)
  then have "mysqlCommentEnd (?w @ rest) = length ?w"
    using index_close_none [OF body(2)] block_not_line [of ?w] body(3) by (simp add: mysqlCommentEnd_def)
  from mask_comment [OF this] show ?thesis by (simp add: OpenComment quote_byte_def)
next
  case (Code b)
  then have "mysqlCommentEnd (b # rest) = 0"
    using assms by (simp add: mysqlCommentEnd_def line_start_comment block_start_comment)
  then show ?thesis using assms Code by (simp add: mysqlMaskSQL.simps quote_byte_def)
qed

lemma mask_tokens: "sql_tokens ts \<Longrightarrow> mysqlMaskSQL (tokens_text ts) = tokens_shown ts"
  by (induction ts) (simp_all add: mask_token)

subsection \<open>Every text has a reading\<close>

lemma token_reading:
  assumes "w \<noteq> []"
  shows "\<exists>t rest. w = token_text t @ rest \<and> length rest < length w \<and> token_ok t rest"
proof -
  obtain b v where w: "w = b # v" using assms by (cases w) auto
  consider (quote) "b \<in> {CHR 0x27, CHR 0x22}" | (tick) "b = CHR 0x60" | (line) "line_start w" | (block) "block_start w"
    | (code) "b \<notin> {CHR 0x27, CHR 0x22, CHR 0x60}" "\<not> line_start w" "\<not> block_start w" by blast
  then show ?thesis
  proof cases
    case quote
    then have "b \<noteq> CHR 0x5C" by auto
    from char_reading [OF this, of True v] show ?thesis
      unfolding closed_reading_def open_reading_def
    proof (elim disjE exE conjE)
      fix cs rest assume "list_all (quoted_char True b) cs" "v = chars_text b cs @ b # rest" "\<not> (rest \<noteq> [] \<and> hd rest = b)"
      then show ?thesis using w quote by (intro exI [of _ "Quoted b cs"] exI [of _ rest]) simp
    next
      fix cs dangling assume "list_all (quoted_char True b) cs" "v = chars_text b cs @ dangling_text dangling"
      then show ?thesis using w quote by (intro exI [of _ "OpenQuoted b cs dangling"] exI [of _ "[]"]) simp
    qed
  next
    case tick
    have "CHR 0x60 \<noteq> CHR 0x5C" by simp
    from char_reading [OF this, of False v] show ?thesis
      unfolding closed_reading_def open_reading_def
    proof (elim disjE exE conjE)
      fix cs rest assume "list_all (quoted_char False (CHR 0x60)) cs" "v = chars_text (CHR 0x60) cs @ CHR 0x60 # rest"
        "\<not> (rest \<noteq> [] \<and> hd rest = CHR 0x60)"
      then show ?thesis using w tick by (intro exI [of _ "Name cs"] exI [of _ rest]) simp
    next
      fix cs dangling assume "list_all (quoted_char False (CHR 0x60)) cs" "dangling \<longrightarrow> False"
        "v = chars_text (CHR 0x60) cs @ dangling_text dangling"
      then show ?thesis using w tick by (intro exI [of _ "OpenName cs"] exI [of _ "[]"]) simp
    qed
  next
    case line
    have start: "line_start (line_of w)"
      using line unfolding line_start_def
    proof (elim disjE exE conjE)
      fix more assume "w = ''--'' @ more" "bval (hd more) \<le> 32"
      then show "(\<exists>more. line_of w = CHR 0x23 # more) \<or>
          (\<exists>more. line_of w = ''--'' @ more \<and> (more = [] \<or> bval (hd more) \<le> 32))"
        by (cases more) (simp_all add: line_of_def)
    qed (simp_all add: line_of_def)
    then have "0 < length (line_of w)" by (auto simp: line_start_def)
    moreover have "length w = length (line_of w) + length (after_line w)"
      by (simp add: line_of_def after_line_def flip: length_append)
    ultimately have "length (after_line w) < length w" by simp
    moreover have "w = token_text (LineComment (line_of w)) @ after_line w" by (simp add: line_of_def after_line_def)
    moreover have "token_ok (LineComment (line_of w)) (after_line w)" using start line_facts by simp
    ultimately show ?thesis by blast
  next
    case block
    then obtain more where more: "w = ''/*'' @ more" "\<not> (more \<noteq> [] \<and> hd more \<in> {CHR ''!'', CHR ''+''})"
      by (auto simp: block_start_def)
    have "''*/'' \<noteq> []" by simp
    from first_occurrence [OF this, of more] show ?thesis
    proof (elim disjE exE conjE)
      fix body rest assume h: "more = body @ ''*/'' @ rest" "first_at ''*/'' body"
      then have "block_start (''/*'' @ body)" using more(2) by (cases body) (auto simp: block_start_def)
      then show ?thesis using more(1) h by (intro exI [of _ "BlockComment body"] exI [of _ rest]) simp
    next
      assume "\<not> occurs ''*/'' more"
      then show ?thesis using block more(1) by (intro exI [of _ "OpenComment more"] exI [of _ "[]"]) simp
    qed
  next
    case code
    then show ?thesis using w by (intro exI [of _ "Code b"] exI [of _ v]) simp
  qed
qed

lemma every_reading: "\<exists>ts. sql_tokens ts \<and> tokens_text ts = sql"
proof (induction sql rule: length_induct)
  case (1 sql)
  show ?case
  proof (cases "sql = []")
    case False
    from token_reading [OF this] obtain t rest where t: "sql = token_text t @ rest" "length rest < length sql" "token_ok t rest"
      by blast
    obtain ts where "sql_tokens ts" "tokens_text ts = rest" using "1.IH" [rule_format, OF t(2)] by blast
    then show ?thesis using t by (intro exI [of _ "t # ts"]) simp
  qed (rule exI [of _ "[]"], simp)
qed

subsection \<open>Properties\<close>

text \<open>
  C27. Masking hides exactly the strings of a statement. Every byte sequence reads as tokens of MySQL
  (\<open>us\<close>). However a statement is made of tokens \<open>ts\<close>, masking it gives each string as its quotes around a single
  question mark, whatever the string holds (doubled quotes, escaped quotes and backslashes, an open end), and
  every other token unchanged; masking again changes nothing.
\<close>
theorem mysqlMaskSQL_hides_literals:
  assumes "sql_tokens ts"
  shows "mysqlMaskSQL (tokens_text ts) = tokens_shown ts \<and>
    mysqlMaskSQL (tokens_shown ts) = tokens_shown ts \<and>
    (\<exists>us. sql_tokens us \<and> tokens_text us = sql)"
  using mask_tokens [OF assms] mask_again [of "tokens_text ts"] every_reading by simp

definition sample_tokens :: "sql_token list" where
  "sample_tokens =
     [Code (CHR ''=''), Quoted (CHR 0x27) [Plain (CHR ''a''), Escaped (CHR 0x27), Twice, Plain (CHR ''b'')],
      Name [Plain (CHR 0x27)], BlockComment [CHR 0x27], LineComment ''-- it'', Code (CHR 0x0A),
      OpenQuoted (CHR 0x22) [Plain (CHR ''c'')] True]"

theorem mysqlMaskSQL_hides_literals_witness:
  "mysqlMaskSQL (tokens_text sample_tokens) = tokens_shown sample_tokens \<and>
   mysqlMaskSQL (tokens_shown sample_tokens) = tokens_shown sample_tokens \<and>
   (\<exists>us. sql_tokens us \<and> tokens_text us = ''x'')"
proof (rule mysqlMaskSQL_hides_literals)
  show "sql_tokens sample_tokens"
    by (simp add: sample_tokens_def line_start_def block_start_def first_at_def occurs_Cons)
qed

end
