(* ===== verification/RedisDecoder.thy ===== *)
theory RedisDecoder
  imports Capture
begin

text \<open>
  \<open>redisDecoder\<close> of internal/edc/trace_redis.go: reads the arguments of a request one by one into a
  command. Before an argument is read \<open>want\<close> says how many of its bytes may be kept, so that a
  password is never held; \<open>done\<close> gets what was kept and the length of the argument. The tables of
  command names are those of the code.
\<close>

definition redisBulkLimit :: nat where "redisBulkLimit = 536870912"
definition redisDepthLimit :: nat where "redisDepthLimit = 32"
definition redisLineKeep :: int where "redisLineKeep = 1024"
definition redisLengthLine :: nat where "redisLengthLine = 20"
definition redisInlineLimit :: nat where "redisInlineLimit = 65536"
definition redisValueKeep :: int where "redisValueKeep = 64"
definition redisArgKeep :: nat where "redisArgKeep = 8"
definition redisNameLimit :: nat where "redisNameLimit = 32"
definition redisKeyKeep :: int where "redisKeyKeep = 128"
definition redisHeadKeep :: int where "redisHeadKeep = 128"
definition redisWordKeep :: nat where "redisWordKeep = 8"
definition mathMaxInt :: nat where "mathMaxInt = 9223372036854775807"

lemmas redis_limits = redisBulkLimit_def redisDepthLimit_def redisLineKeep_def redisLengthLine_def
  redisInlineLimit_def redisValueKeep_def redisArgKeep_def redisNameLimit_def redisKeyKeep_def
  redisHeadKeep_def redisWordKeep_def

subsection \<open>Tables of names\<close>

definition redisContainers :: "bytes list" where
  "redisContainers =
    [''ACL'', ''CLIENT'', ''CLUSTER'', ''COMMAND'', ''CONFIG'', ''DEBUG'', ''FUNCTION'', ''LATENCY'',
     ''MEMORY'', ''MODULE'', ''OBJECT'', ''PUBSUB'', ''SCRIPT'', ''SLOWLOG'', ''XGROUP'', ''XINFO'',
     ''SENTINEL'', ''REPLCONF'']"

definition redisKeyPairs :: "(bytes \<times> int) list" where
  "redisKeyPairs =
    [(''OBJECT ENCODING'', 2), (''OBJECT FREQ'', 2), (''OBJECT IDLETIME'', 2),
     (''OBJECT REFCOUNT'', 2), (''MEMORY USAGE'', 2), (''XINFO STREAM'', 2),
     (''XINFO GROUPS'', 2), (''XINFO CONSUMERS'', 2), (''XGROUP CREATE'', 2),
     (''XGROUP DESTROY'', 2), (''XGROUP SETID'', 2), (''XGROUP CREATECONSUMER'', 2),
     (''XGROUP DELCONSUMER'', 2), (''BITOP'', 2), (''MIGRATE'', 3)]"

definition redisFirstKey :: "bytes list" where
  "redisFirstKey =
    [''APPEND'', ''BITCOUNT'', ''BITFIELD'', ''BITFIELD_RO'', ''BITPOS'', ''BLMOVE'', ''BLPOP'', ''BRPOP'',
     ''BRPOPLPUSH'', ''BZPOPMAX'', ''BZPOPMIN'', ''COPY'', ''DECR'', ''DECRBY'', ''DEL'', ''DUMP'',
     ''EXISTS'', ''EXPIRE'', ''EXPIREAT'', ''EXPIRETIME'', ''GEOADD'', ''GEODIST'', ''GEOHASH'',
     ''GEOPOS'', ''GEORADIUS'', ''GEORADIUSBYMEMBER'', ''GEOSEARCH'', ''GEOSEARCHSTORE'', ''GET'',
     ''GETBIT'', ''GETDEL'', ''GETEX'', ''GETRANGE'', ''GETSET'', ''HDEL'', ''HEXISTS'', ''HGET'',
     ''HGETALL'', ''HINCRBY'', ''HINCRBYFLOAT'', ''HKEYS'', ''HLEN'', ''HMGET'', ''HMSET'', ''HRANDFIELD'',
     ''HSCAN'', ''HSET'', ''HSETNX'', ''HSTRLEN'', ''HVALS'', ''INCR'', ''INCRBY'', ''INCRBYFLOAT'',
     ''LINDEX'', ''LINSERT'', ''LLEN'', ''LMOVE'', ''LPOP'', ''LPOS'', ''LPUSH'', ''LPUSHX'', ''LRANGE'',
     ''LREM'', ''LSET'', ''LTRIM'', ''MGET'', ''MOVE'', ''MSET'', ''MSETNX'', ''PERSIST'', ''PEXPIRE'',
     ''PEXPIREAT'', ''PEXPIRETIME'', ''PFADD'', ''PFCOUNT'', ''PFMERGE'', ''PSETEX'', ''PTTL'', ''RENAME'',
     ''RENAMENX'', ''RESTORE'', ''RPOP'', ''RPOPLPUSH'', ''RPUSH'', ''RPUSHX'', ''SADD'', ''SCARD'',
     ''SDIFF'', ''SDIFFSTORE'', ''SET'', ''SETBIT'', ''SETEX'', ''SETNX'', ''SETRANGE'', ''SINTER'',
     ''SINTERCARD'', ''SINTERSTORE'', ''SISMEMBER'', ''SMEMBERS'', ''SMISMEMBER'', ''SMOVE'', ''SORT'',
     ''SORT_RO'', ''SPOP'', ''SRANDMEMBER'', ''SREM'', ''SSCAN'', ''STRLEN'', ''SUBSTR'', ''SUNION'',
     ''SUNIONSTORE'', ''TOUCH'', ''TTL'', ''TYPE'', ''UNLINK'', ''WATCH'', ''XACK'', ''XADD'',
     ''XAUTOCLAIM'', ''XCLAIM'', ''XDEL'', ''XLEN'', ''XPENDING'', ''XRANGE'', ''XREVRANGE'', ''XSETID'',
     ''XTRIM'', ''ZADD'', ''ZCARD'', ''ZCOUNT'', ''ZDIFFSTORE'', ''ZINCRBY'', ''ZINTERSTORE'',
     ''ZLEXCOUNT'', ''ZMSCORE'', ''ZPOPMAX'', ''ZPOPMIN'', ''ZRANDMEMBER'', ''ZRANGE'', ''ZRANGEBYLEX'',
     ''ZRANGEBYSCORE'', ''ZRANGESTORE'', ''ZRANK'', ''ZREM'', ''ZREMRANGEBYLEX'', ''ZREMRANGEBYRANK'',
     ''ZREMRANGEBYSCORE'', ''ZREVRANGE'', ''ZREVRANGEBYLEX'', ''ZREVRANGEBYSCORE'', ''ZREVRANK'',
     ''ZSCAN'', ''ZSCORE'', ''ZUNIONSTORE'']"

definition redisSensitiveReplies :: "bytes list" where
  "redisSensitiveReplies = [''AUTH'', ''HELLO'', ''MIGRATE'', ''CONFIG SET'', ''CONFIG GET'']"

definition redisSubscribeKinds :: "bytes list" where
  "redisSubscribeKinds =
    [''SUBSCRIBE'', ''PSUBSCRIBE'', ''SSUBSCRIBE'', ''UNSUBSCRIBE'', ''PUNSUBSCRIBE'', ''SUNSUBSCRIBE'']"

definition redisKnownCommands :: "bytes list" where
  "redisKnownCommands =
    [''AUTH'', ''HELLO'', ''PING'', ''ECHO'', ''SELECT'', ''INFO'', ''MULTI'', ''EXEC'', ''DISCARD'',
     ''QUIT'', ''RESET'', ''MONITOR'', ''DBSIZE'', ''FLUSHDB'', ''FLUSHALL'', ''KEYS'', ''SCAN'',
     ''PUBLISH'', ''SPUBLISH'', ''EVAL'', ''EVALSHA'', ''FCALL'', ''TIME'', ''ROLE'', ''UNWATCH'',
     ''RANDOMKEY'']"


text \<open>\<open>redisKeyAt\<close>: the position of the first key.\<close>

definition redisKeyAt :: "bytes \<Rightarrow> int option" where
  "redisKeyAt name =
     (if name \<in> set redisFirstKey then Some 1 else map_of redisKeyPairs name)"

definition redisSensitiveReply :: "bytes \<Rightarrow> bool" where
  "redisSensitiveReply name \<longleftrightarrow>
     name \<in> set redisSensitiveReplies \<or> has_prefix name ''ACL'' \<or> has_prefix name ''SENTINEL''"

subsection \<open>Commands\<close>

record redisCommand =
  rc_name :: bytes
  rc_key :: bytes
  rc_args :: int
  rc_preview :: "bytes list"
  rc_inline :: bool
  rc_sensitive :: bool
  rc_proto :: nat
  rc_reply :: bytes
  rc_channels :: int

record redisDecoder =
  dc_showSecrets :: bool
  dc_count :: int
  dc_name :: bytes
  dc_container :: bool
  dc_key :: bytes
  dc_keyAt :: int
  dc_preview :: "bytes list"
  dc_secretFrom :: nat
  dc_helloSecret :: nat
  dc_optionAt :: nat
  dc_keys :: bool
  dc_unsure :: bool
  dc_proto :: nat
  dc_reply :: bytes

text \<open>\<open>clear\<close>: the zero value; \<open>start\<close> and \<open>argc\<close>.\<close>

definition decoder0 :: redisDecoder where
  "decoder0 = \<lparr>dc_showSecrets = False, dc_count = 0, dc_name = [], dc_container = False, dc_key = [],
     dc_keyAt = 0, dc_preview = [], dc_secretFrom = 0, dc_helloSecret = 0, dc_optionAt = 0, dc_keys = False,
     dc_unsure = False, dc_proto = 0, dc_reply = []\<rparr>"

definition decoder_start :: "int \<Rightarrow> bool \<Rightarrow> redisDecoder" where
  "decoder_start count showSecrets =
     decoder0\<lparr>dc_count := count, dc_showSecrets := showSecrets, dc_secretFrom := mathMaxInt, dc_keyAt := -1\<rparr>"

definition argc :: "int \<Rightarrow> redisDecoder \<Rightarrow> redisDecoder" where
  "argc count d = d\<lparr>dc_count := count\<rparr>"

definition secret :: "redisDecoder \<Rightarrow> nat \<Rightarrow> bool" where
  "secret d i \<longleftrightarrow> dc_secretFrom d \<le> i \<or> (0 < i \<and> i \<le> dc_helloSecret d)"

definition previewKeep :: "redisDecoder \<Rightarrow> int" where
  "previewKeep d = (if dc_showSecrets d \<and> length (dc_preview d) < redisArgKeep then redisValueKeep else 0)"

definition want :: "redisDecoder \<Rightarrow> nat \<Rightarrow> int" where
  "want d i =
     (if i = 0 then int redisNameLimit + 1
      else if dc_name d = [] \<or> secret d i then 0
      else if i = 1 \<and> dc_container d then int redisNameLimit + 1
      else if int i = dc_keyAt d then redisKeyKeep
      else if dc_name d = ''HELLO'' \<or> dc_name d = ''CLIENT REPLY'' \<and> i = 2 \<or> dc_name d = ''MIGRATE'' \<and> 5 < i
      then max (int redisWordKeep) (previewKeep d)
      else previewKeep d)"

text \<open>\<open>redisName\<close>: the upper case name, when the bytes can be a command name.\<close>

definition name_byte :: "byte \<Rightarrow> bool" where
  "name_byte b \<longleftrightarrow>
     (97 \<le> bval b \<and> bval b \<le> 122) \<or> (65 \<le> bval b \<and> bval b \<le> 90) \<or> is_digit b \<or>
     b = CHR ''_'' \<or> b = CHR ''-'' \<or> b = CHR ''.'' \<or> b = CHR '':'' \<or> b = CHR ''|''"

definition redisName :: "bytes \<Rightarrow> int \<Rightarrow> bytes option" where
  "redisName raw len =
     (if len < 1 \<or> int redisNameLimit < len \<or> int (length raw) \<noteq> len \<or> \<not> list_all name_byte raw then None
      else Some (map ascii_upper raw))"

text \<open>
  \<open>done\<close>, in the order of the code: the command name, the subcommand, the options that move the
  secret range, then the key and the preview. \<open>done_option\<close> is the switch over the options: \<open>None\<close>
  is its early return, with the decoder it leaves.
\<close>

definition done_name :: "bytes \<Rightarrow> int \<Rightarrow> redisDecoder \<Rightarrow> redisDecoder" where
  "done_name kept len d =
     (case redisName kept len of
        None \<Rightarrow> d
      | Some name \<Rightarrow>
          (let container = (name \<in> set redisContainers);
               d1 = d\<lparr>dc_name := name, dc_container := container\<rparr>;
               d2 = (if name = ''AUTH'' then d1\<lparr>dc_secretFrom := 1\<rparr>
                     else if name = ''HELLO'' then d1\<lparr>dc_optionAt := 2\<rparr>
                     else if name = ''MIGRATE'' then d1\<lparr>dc_optionAt := 6\<rparr>
                     else d1)
           in (case redisKeyAt name of
                 Some p \<Rightarrow> if container then d2 else d2\<lparr>dc_keyAt := p\<rparr>
               | None \<Rightarrow> d2)))"

definition done_sub :: "bytes \<Rightarrow> int \<Rightarrow> redisDecoder \<Rightarrow> redisDecoder" where
  "done_sub word len d =
     (case redisName word len of
        None \<Rightarrow> d\<lparr>dc_secretFrom := 2, dc_unsure := True\<rparr>
      | Some sub \<Rightarrow>
          (let name = dc_name d @ '' '' @ sub;
               d1 = d\<lparr>dc_name := name\<rparr>;
               d2 = (if name = ''CONFIG SET'' then d1\<lparr>dc_secretFrom := 2\<rparr>
                     else if name = ''ACL SETUSER'' \<or> name = ''ACL DRYRUN'' \<or> name = ''SENTINEL SET'' \<or>
                             name = ''SENTINEL CONFIG''
                     then d1\<lparr>dc_secretFrom := 3\<rparr>
                     else d1)
           in (case redisKeyAt name of Some p \<Rightarrow> d2\<lparr>dc_keyAt := p\<rparr> | None \<Rightarrow> d2)))"

definition done_option :: "nat \<Rightarrow> bytes \<Rightarrow> int \<Rightarrow> redisDecoder \<Rightarrow> bool \<times> redisDecoder" where
  "done_option i word len d =
     (if dc_name d = ''HELLO'' \<and> i = 1 then
        (True, if length word = 1 \<and> (hd word = CHR ''2'' \<or> hd word = CHR ''3'')
               then d\<lparr>dc_proto := bval (hd word) - 48\<rparr> else d)
      else if dc_name d = ''HELLO'' \<and> i = dc_optionAt d then
        (if equal_fold word ''AUTH'' then (True, d\<lparr>dc_helloSecret := i + 2, dc_optionAt := i + 3\<rparr>)
         else if equal_fold word ''SETNAME'' then (True, d\<lparr>dc_optionAt := i + 2\<rparr>)
         else (False, d\<lparr>dc_secretFrom := i, dc_unsure := True\<rparr>))
      else if dc_name d = ''MIGRATE'' \<and> i = dc_optionAt d \<and> \<not> dc_keys d then
        (if equal_fold word ''AUTH'' \<or> equal_fold word ''AUTH2'' then (True, d\<lparr>dc_secretFrom := i + 1\<rparr>)
         else if equal_fold word ''KEYS'' then (True, d\<lparr>dc_keys := True\<rparr>)
         else if equal_fold word ''COPY'' \<or> equal_fold word ''REPLACE'' then (True, d\<lparr>dc_optionAt := i + 1\<rparr>)
         else (False, d\<lparr>dc_secretFrom := i, dc_unsure := True\<rparr>))
      else if dc_name d = ''CLIENT REPLY'' \<and> i = 2 then
        (True, case redisName word len of Some sub \<Rightarrow> d\<lparr>dc_reply := sub\<rparr> | None \<Rightarrow> d)
      else (True, d))"

definition done_keep :: "nat \<Rightarrow> bytes \<Rightarrow> redisDecoder \<Rightarrow> redisDecoder" where
  "done_keep i kept d =
     (let d1 = (if int i = dc_keyAt d then d\<lparr>dc_key := traceEscapeText kept\<rparr> else d) in
      if dc_showSecrets d \<and> length (dc_preview d) < redisArgKeep \<and> 0 < length kept
      then d1\<lparr>dc_preview := dc_preview d @ [traceEscapeText kept]\<rparr> else d1)"

definition decoder_done :: "nat \<Rightarrow> bytes \<Rightarrow> int \<Rightarrow> redisDecoder \<Rightarrow> redisDecoder" where
  "decoder_done i kept len d =
     (if i = 0 then done_name kept len d
      else if dc_name d = [] \<or> secret d i then d
      else
        (let word = (if int (length kept) \<noteq> len then [] else kept) in
         if i = 1 \<and> dc_container d then done_sub word len d
         else
           (case done_option i word len d of
              (False, d1) \<Rightarrow> d1
            | (True, d1) \<Rightarrow> done_keep i kept d1)))"

definition decoder_result :: "bool \<Rightarrow> redisDecoder \<Rightarrow> redisCommand" where
  "decoder_result inline d =
     (let args = (if 0 < dc_count d then dc_count d - 1 else 0) in
      \<lparr>rc_name = dc_name d, rc_key = dc_key d, rc_args = args, rc_preview = dc_preview d, rc_inline = inline,
       rc_sensitive = (dc_name d = [] \<or> dc_unsure d \<or> redisSensitiveReply (dc_name d)),
       rc_proto = dc_proto d, rc_reply = dc_reply d,
       rc_channels = (if dc_name d \<in> set redisSubscribeKinds then args else 0)\<rparr>)"

end
