(* ===== verification/RedisReader.thy ===== *)
theory RedisReader
  imports RedisDecoder Incremental
begin

text \<open>
  \<open>redisReader\<close> of internal/edc/trace_redis.go: one direction of a Redis connection, cut into
  RESP frames. A record shows only the first bytes of a read or write (\<open>data\<close>) and its whole
  length, so the bodies of bulk strings are skipped by their length. The methods that may finish a
  frame return \<open>(ok, reader, frame)\<close> and \<open>feed\<close> calls the callback with it; the callback never
  looks at the reader it is called from. The stack of open aggregates has its top first. \<open>held\<close> is
  its visible content: that \<open>dropHeld\<close> and \<open>grow\<close> also wipe the spare capacity is not modelled.
\<close>

record redisKeep =
  kp_value :: bool
  kp_message :: bool
  kp_word :: bool
  kp_heads :: bool

record redisHead =
  hd_kind :: byte
  hd_text :: bytes
  hd_integer :: int
  hd_number :: bool
  hd_null :: bool

record redisFrame =
  fr_kind :: byte
  fr_null :: bool
  fr_attr :: bool
  fr_count :: nat
  fr_bytes :: nat
  fr_at :: u64
  fr_value :: bytes
  fr_word :: bytes
  fr_class :: bytes
  fr_message :: bytes
  fr_monitor :: bool
  fr_heads :: "redisHead list"
  fr_command :: "redisCommand option"
  fr_lost :: bool

record redisLevel =
  lv_kind :: byte
  lv_inAttr :: bool
  lv_left :: nat
  lv_index :: nat

datatype redisState = StateType | StateLine | StateBulk | StateInline

text \<open>The zero values.\<close>

definition byte0 :: byte where "byte0 = CHR 0x00"

definition keep0 :: redisKeep where
  "keep0 = \<lparr>kp_value = False, kp_message = False, kp_word = False, kp_heads = False\<rparr>"

definition head0 :: redisHead where
  "head0 = \<lparr>hd_kind = byte0, hd_text = [], hd_integer = 0, hd_number = False, hd_null = False\<rparr>"

definition frame0 :: redisFrame where
  "frame0 = \<lparr>fr_kind = byte0, fr_null = False, fr_attr = False, fr_count = 0, fr_bytes = 0, fr_at = 0,
     fr_value = [], fr_word = [], fr_class = [], fr_message = [], fr_monitor = False,
     fr_heads = [head0, head0, head0], fr_command = None, fr_lost = False\<rparr>"

record redisReader =
  rr_request :: bool
  rr_showSecrets :: bool
  rr_state :: redisState
  rr_cr :: bool
  rr_stack :: "redisLevel list"
  rr_inFrame :: bool
  rr_frame :: redisFrame
  rr_policy :: redisKeep
  rr_elemKind :: byte
  rr_elemDepth :: nat
  rr_elemIndex :: nat
  rr_elemAttr :: bool
  rr_elemKeep :: int
  rr_held :: bytes
  rr_lineLen :: nat
  rr_negative :: bool
  rr_number :: nat
  rr_digits :: nat
  rr_overflow :: bool
  rr_left :: nat
  rr_bulkLen :: nat
  rr_quote :: byte
  rr_escape :: nat
  rr_hex :: byte
  rr_afterQuote :: bool
  rr_inlineNul :: bool
  rr_word :: bytes
  rr_wordLen :: nat
  rr_class :: bytes
  rr_classLen :: nat
  rr_classDone :: nat
  rr_shape :: nat
  rr_command :: redisDecoder

definition reader0 :: "bool \<Rightarrow> bool \<Rightarrow> redisReader" where
  "reader0 request showSecrets =
     \<lparr>rr_request = request, rr_showSecrets = showSecrets, rr_state = StateType, rr_cr = False, rr_stack = [],
      rr_inFrame = False, rr_frame = frame0, rr_policy = keep0, rr_elemKind = byte0, rr_elemDepth = 0,
      rr_elemIndex = 0, rr_elemAttr = False, rr_elemKeep = 0, rr_held = [], rr_lineLen = 0,
      rr_negative = False, rr_number = 0, rr_digits = 0, rr_overflow = False, rr_left = 0, rr_bulkLen = 0,
      rr_quote = byte0, rr_escape = 0, rr_hex = byte0, rr_afterQuote = False, rr_inlineNul = False,
      rr_word = replicate redisWordKeep byte0, rr_wordLen = 0,
      rr_class = replicate redisNameLimit byte0, rr_classLen = 0, rr_classDone = 0, rr_shape = 0,
      rr_command = decoder0\<rparr>"

definition reader_reset :: "redisReader \<Rightarrow> redisReader" where
  "reader_reset r = reader0 (rr_request r) (rr_showSecrets r)"

definition reader_idle :: "redisReader \<Rightarrow> bool" where
  "reader_idle r \<longleftrightarrow> \<not> rr_inFrame r"

definition reader_skipping :: "redisReader \<Rightarrow> bool" where
  "reader_skipping r \<longleftrightarrow> rr_state r = StateBulk"

type_synonym reader_result = "bool \<times> redisReader \<times> redisFrame option"

subsection \<open>Holding bytes\<close>

definition hold :: "byte \<Rightarrow> redisReader \<Rightarrow> redisReader" where
  "hold b r = (if int (length (rr_held r)) < rr_elemKeep r then r\<lparr>rr_held := rr_held r @ [b]\<rparr> else r)"

definition holdBytes :: "bytes \<Rightarrow> redisReader \<Rightarrow> redisReader" where
  "holdBytes p r =
     (let n = min (int (length p)) (rr_elemKeep r - int (length (rr_held r))) in
      if 0 < n then r\<lparr>rr_held := rr_held r @ take (nat n) p\<rparr> else r)"

definition dropHeld :: "redisReader \<Rightarrow> redisReader" where
  "dropHeld r = r\<lparr>rr_held := []\<rparr>"

definition dropFrame :: "redisReader \<Rightarrow> redisReader" where
  "dropFrame r =
     r\<lparr>rr_inFrame := False, rr_frame := frame0, rr_policy := keep0,
       rr_word := replicate redisWordKeep byte0, rr_wordLen := 0,
       rr_class := replicate redisNameLimit byte0, rr_classLen := 0,
       rr_quote := byte0, rr_escape := 0, rr_hex := byte0, rr_afterQuote := False, rr_inlineNul := False,
       rr_state := StateType, rr_command := decoder0\<rparr>"

definition redisTypeByte :: "byte \<Rightarrow> bool" where
  "redisTypeByte b \<longleftrightarrow> b \<in> set ''+-:_,#($!=*~>%|''"

definition redisLengthType :: "byte \<Rightarrow> bool" where
  "redisLengthType b \<longleftrightarrow> b \<in> set ''$!=*~>%|''"

subsection \<open>Arrays\<close>

text \<open>
  Go panics when an index or a slice bound is out of range. The model makes such a step visible in the
  length of the result: a write outside the array leaves no array, a slice beyond it is longer than it.
  Theorems that give the arrays their full length and the slices at most that length therefore say that no
  step goes out of range.
\<close>

definition array_set :: "'a list \<Rightarrow> nat \<Rightarrow> 'a \<Rightarrow> 'a list" where
  "array_set xs i v = (if i < length xs then xs[i := v] else [])"

definition array_upto :: "nat \<Rightarrow> bytes \<Rightarrow> bytes" where
  "array_upto n xs = (if n \<le> length xs then take n xs else xs @ [byte0])"

lemma array_in_range [simp]:
  "i < length xs \<Longrightarrow> array_set xs i v = xs[i := v]"
  "n \<le> length ys \<Longrightarrow> array_upto n ys = take n ys"
  by (simp_all add: array_set_def array_upto_def)

subsection \<open>The end of an element\<close>

definition frameNull :: "redisReader \<Rightarrow> redisReader" where
  "frameNull r =
     (if rr_elemDepth r = 0 \<and> \<not> rr_elemAttr r then r\<lparr>rr_frame := rr_frame r\<lparr>fr_null := True\<rparr>\<rparr> else r)"

text \<open>
  The loop of \<open>finish\<close> over the open aggregates: \<open>Inl\<close> is a return with the stack that is left,
  \<open>Inr\<close> says that the stack is empty and whether an attribute ended there.
\<close>

fun pop_levels :: "bool \<Rightarrow> redisLevel list \<Rightarrow> redisLevel list + bool" where
  "pop_levels attribute [] = Inr attribute"
| "pop_levels attribute (lvl # rest) =
     (if attribute then Inl (lvl # rest)
      else
        (let lvl1 = lvl\<lparr>lv_left := lv_left lvl - 1, lv_index := lv_index lvl + 1\<rparr> in
         if 0 < lv_left lvl1 then Inl (lvl1 # rest)
         else pop_levels (lv_kind lvl = CHR ''|'') rest))"

definition finish :: "redisReader \<Rightarrow> reader_result" where
  "finish r =
     (let r1 = dropHeld (r\<lparr>rr_state := StateType\<rparr>) in
      (case pop_levels (rr_elemKind r = CHR ''|'') (rr_stack r) of
         Inl stack \<Rightarrow> (True, r1\<lparr>rr_stack := stack\<rparr>, None)
       | Inr attribute \<Rightarrow>
           (let r2 = r1\<lparr>rr_stack := []\<rparr> in
            if attribute then (True, r2\<lparr>rr_frame := rr_frame r2\<lparr>fr_attr := True\<rparr>\<rparr>, None)
            else
              (True, dropFrame r2,
               Some (if rr_request r2
                     then rr_frame r2\<lparr>fr_command := Some (decoder_result False (rr_command r2))\<rparr>
                     else rr_frame r2)))))"

definition topScalar :: "bytes \<Rightarrow> int \<Rightarrow> redisReader \<Rightarrow> redisFrame" where
  "topScalar kept len r =
     (let k = rr_elemKind r;
          f1 = (if k \<in> set ''$=!'' \<and> 0 < len then rr_frame r\<lparr>fr_count := nat len\<rparr> else rr_frame r)
      in if k \<in> set ''-!'' then
           (let f2 = (if 0 < rr_classLen r \<and> rr_classDone r \<noteq> 2
                      then f1\<lparr>fr_class := array_upto (rr_classLen r) (rr_class r)\<rparr> else f1)
            in if kp_message (rr_policy r) then f2\<lparr>fr_message := traceEscapeText kept\<rparr> else f2)
         else
           (let f2 = (if k = CHR ''+'' then
                        (let f3 = f1\<lparr>fr_monitor := (rr_shape r = 5)\<rparr> in
                         if kp_word (rr_policy r) \<and> rr_wordLen r \<le> redisWordKeep
                         then f3\<lparr>fr_word := array_upto (rr_wordLen r) (rr_word r)\<rparr> else f3)
                      else f1)
            in if kp_value (rr_policy r) \<and> \<not> fr_monitor f2 \<and> 0 \<le> len
               then f2\<lparr>fr_value := traceEscapeText kept\<rparr> else f2))"

definition scalar_head :: "bytes \<Rightarrow> int \<Rightarrow> redisReader \<Rightarrow> redisHead" where
  "scalar_head kept len r =
     (let h = head0\<lparr>hd_kind := rr_elemKind r, hd_null := len < 0,
                hd_text := (if 0 < rr_elemKeep r \<and> int (length kept) = len then traceEscapeText kept else [])\<rparr>
      in if rr_elemKind r = CHR '':'' \<and> \<not> rr_overflow r \<and> 0 < rr_digits r
         then h\<lparr>hd_integer := (if rr_negative r then - int (rr_number r) else int (rr_number r)), hd_number := True\<rparr>
         else h)"

definition set_head :: "redisHead \<Rightarrow> redisReader \<Rightarrow> redisReader" where
  "set_head h r = r\<lparr>rr_frame := rr_frame r\<lparr>fr_heads := array_set (fr_heads (rr_frame r)) (rr_elemIndex r) h\<rparr>\<rparr>"

definition finishScalar :: "bytes \<Rightarrow> int \<Rightarrow> redisReader \<Rightarrow> reader_result" where
  "finishScalar kept len r =
     (let r1 =
        (if rr_elemAttr r then r
         else if rr_request r \<and> rr_elemDepth r = 1 then
           r\<lparr>rr_command := decoder_done (rr_elemIndex r) kept len (rr_command r)\<rparr>
         else if \<not> rr_request r \<and> rr_elemDepth r = 0 then r\<lparr>rr_frame := topScalar kept len r\<rparr>
         else if \<not> rr_request r \<and> rr_elemDepth r = 1 \<and> kp_heads (rr_policy r) \<and>
                 rr_elemIndex r < length (fr_heads (rr_frame r))
         then set_head (scalar_head kept len r) r
         else r)
      in finish (dropHeld r1))"

definition scalar :: "redisReader \<Rightarrow> reader_result" where
  "scalar r =
     (let r1 = (if rr_elemKind r = CHR ''_'' then frameNull r else r) in
      finishScalar (rr_held r1) (int (rr_lineLen r1)) r1)"

subsection \<open>The start of an element\<close>

definition keepFor :: "byte \<Rightarrow> redisReader \<Rightarrow> int" where
  "keepFor b r =
     (if rr_elemAttr r then 0
      else if rr_request r then
        (if rr_elemDepth r = 1 then want (rr_command r) (rr_elemIndex r) else 0)
      else if rr_elemDepth r = 0 then
        (if b = CHR ''-'' \<or> b = CHR ''!'' then (if kp_message (rr_policy r) then redisLineKeep else 0)
         else if kp_value (rr_policy r) then redisValueKeep else 0)
      else if rr_elemDepth r = 1 \<and> kp_heads (rr_policy r) \<and> rr_elemIndex r < length (fr_heads (rr_frame r)) then
        (if rr_elemIndex r = 0 then int redisNameLimit
         else if rr_elemIndex r = 1 then redisHeadKeep
         else if hd_text (fr_heads (rr_frame r) ! 0) = ''pmessage'' then redisHeadKeep
         else 0)
      else 0)"

text \<open>The first half of \<open>begin\<close>: the place of the element and, for a top element of a reply, the policy.\<close>

definition begin_place :: "(byte \<Rightarrow> redisKeep option) \<Rightarrow> byte \<Rightarrow> redisReader \<Rightarrow> redisReader" where
  "begin_place keep b r =
     (let r1 = r\<lparr>rr_elemKind := b, rr_elemDepth := length (rr_stack r),
                 rr_elemAttr := (b = CHR ''|'' \<or> (rr_stack r \<noteq> [] \<and> lv_inAttr (hd (rr_stack r)))),
                 rr_elemIndex := (if rr_stack r = [] then 0 else lv_index (hd (rr_stack r)))\<rparr>
      in if rr_stack r = [] \<and> \<not> rr_elemAttr r1 then
           (let r2 = r1\<lparr>rr_frame := rr_frame r1\<lparr>fr_kind := b\<rparr>\<rparr> in
            case keep b of
              Some p \<Rightarrow> if rr_request r then r2 else r2\<lparr>rr_policy := p\<rparr>
            | None \<Rightarrow> r2)
         else r1)"

definition begin_element :: "(byte \<Rightarrow> redisKeep option) \<Rightarrow> byte \<Rightarrow> redisReader \<Rightarrow> redisReader" where
  "begin_element keep b r =
     (let r1 = begin_place keep b r in
      r1\<lparr>rr_elemKeep := keepFor b r1, rr_state := StateLine, rr_cr := False, rr_lineLen := 0,
         rr_negative := False, rr_number := 0, rr_digits := 0, rr_overflow := False,
         rr_wordLen := 0, rr_classLen := 0, rr_classDone := 0, rr_shape := 0\<rparr>)"


subsection \<open>Lines\<close>

text \<open>\<open>digit\<close>: one digit of a length or an integer.\<close>

definition digit :: "byte \<Rightarrow> bool \<Rightarrow> redisReader \<Rightarrow> bool \<times> redisReader" where
  "digit b first r =
     (if first \<and> b = CHR ''-'' then (True, r\<lparr>rr_negative := True\<rparr>)
      else if is_digit b then
        (True, (if (mathMaxInt - (bval b - 48)) div 10 < rr_number r then r\<lparr>rr_overflow := True\<rparr>
                else r\<lparr>rr_number := rr_number r * 10 + (bval b - 48)\<rparr>)\<lparr>rr_digits := rr_digits r + 1\<rparr>)
      else (False, r\<lparr>rr_overflow := True\<rparr>))"

text \<open>\<open>classify\<close>: the class of an error, and the shape of a MONITOR line.\<close>

definition classify_error :: "byte \<Rightarrow> redisReader \<Rightarrow> redisReader" where
  "classify_error b r =
     (if (rr_elemKind r = CHR ''-'' \<or> rr_elemKind r = CHR ''!'') \<and> rr_classDone r = 0 then
        (if 65 \<le> bval b \<and> bval b \<le> 90 \<and> rr_classLen r < length (rr_class r)
         then r\<lparr>rr_class := array_set (rr_class r) (rr_classLen r) b, rr_classLen := rr_classLen r + 1\<rparr>
         else if b = CHR '' '' \<and> 0 < rr_classLen r then r\<lparr>rr_classDone := 1\<rparr>
         else r\<lparr>rr_classDone := 2\<rparr>)
      else r)"

definition next_shape :: "nat \<Rightarrow> byte \<Rightarrow> nat" where
  "next_shape shape b =
     (if (shape = 0 \<and> is_digit b) \<or> (shape = 1 \<and> is_digit b) then 1
      else if shape = 1 \<and> b = CHR ''.'' then 2
      else if (shape = 2 \<or> shape = 3) \<and> is_digit b then 3
      else if shape = 3 \<and> b = CHR '' '' then 4
      else if shape = 4 \<and> b = CHR ''['' then 5
      else if shape \<noteq> 5 then 6
      else shape)"

definition classify_simple :: "byte \<Rightarrow> redisReader \<Rightarrow> redisReader" where
  "classify_simple b r =
     (if rr_elemKind r = CHR ''+'' then
        (let r1 = r\<lparr>rr_word := (if rr_wordLen r < length (rr_word r) \<and> kp_word (rr_policy r)
                                then array_set (rr_word r) (rr_wordLen r) b else rr_word r),
                    rr_wordLen := rr_wordLen r + 1, rr_shape := next_shape (rr_shape r) b\<rparr>
         in if rr_shape r1 = 5 \<and> 0 < rr_elemKeep r1 then (dropHeld r1)\<lparr>rr_elemKeep := 0\<rparr> else r1)
      else r)"

definition classify :: "byte \<Rightarrow> redisReader \<Rightarrow> redisReader" where
  "classify b r = classify_simple b (classify_error b r)"

text \<open>
  \<open>lineEnd\<close>: the line of an element is whole. \<open>open_aggregate\<close> is its part for an aggregate of
  \<open>n\<close> elements.
\<close>

definition open_aggregate :: "nat \<Rightarrow> redisReader \<Rightarrow> reader_result" where
  "open_aggregate n r =
     (let kind = rr_elemKind r;
          children = (if kind = CHR ''%'' \<or> kind = CHR ''|'' then 2 * n else n);
          at_top = (rr_elemDepth r = 0 \<and> \<not> rr_elemAttr r);
          r1 = (if at_top then r\<lparr>rr_frame := rr_frame r\<lparr>fr_count := n\<rparr>\<rparr> else r)
      in if at_top \<and> rr_request r \<and> n = 0 then (True, dropFrame r1, None)
         else
           (let r2 = (if at_top \<and> rr_request r
                      then r1\<lparr>rr_command := decoder_start (int n) (rr_showSecrets r)\<rparr> else r1);
                r3 = (if rr_elemDepth r = 1 \<and> \<not> rr_elemAttr r \<and> kp_heads (rr_policy r) \<and>
                         rr_elemIndex r < length (fr_heads (rr_frame r))
                      then set_head (head0\<lparr>hd_kind := kind, hd_integer := int n, hd_number := True\<rparr>) r2 else r2)
            in if children = 0 then finish r3
               else if redisDepthLimit \<le> length (rr_stack r3) then (False, r3, None)
               else
                 (True, r3\<lparr>rr_stack := \<lparr>lv_kind = kind, lv_inAttr = rr_elemAttr r3, lv_left = children, lv_index = 0\<rparr>
                                      # rr_stack r3, rr_state := StateType\<rparr>, None)))"

definition null_length :: "redisReader \<Rightarrow> reader_result" where
  "null_length r =
     (if rr_number r \<noteq> 1 \<or> (rr_elemKind r \<noteq> CHR ''$'' \<and> rr_elemKind r \<noteq> CHR ''*'') then (False, r, None)
      else if rr_request r \<and> rr_elemDepth r = 1 then (False, r, None)
      else if rr_request r then (True, dropFrame r, None)
      else finishScalar [] (-1) (frameNull r))"

definition lineEnd :: "redisReader \<Rightarrow> reader_result" where
  "lineEnd r =
     (let kind = rr_elemKind r in
      if \<not> redisLengthType kind then
        (if (kind = CHR ''_'' \<and> rr_lineLen r \<noteq> 0) \<or> (kind = CHR ''#'' \<and> rr_lineLen r \<noteq> 1) then (False, r, None)
         else scalar r)
      else if rr_digits r = 0 \<or> rr_overflow r then (False, r, None)
      else if rr_negative r then null_length r
      else if redisBulkLimit < rr_number r then (False, r, None)
      else if kind = CHR ''$'' \<or> kind = CHR ''!'' \<or> kind = CHR ''='' then
        (True, r\<lparr>rr_state := StateBulk, rr_left := rr_number r + 2, rr_bulkLen := rr_number r,
                 rr_classLen := 0, rr_classDone := 0\<rparr>, None)
      else open_aggregate (rr_number r) r)"

definition line :: "byte \<Rightarrow> redisReader \<Rightarrow> reader_result" where
  "line b r =
     (if rr_cr r then
        (if b \<noteq> CHR 0x0A then (False, r, None) else lineEnd (r\<lparr>rr_cr := False\<rparr>))
      else if b = CHR 0x0D then (True, r\<lparr>rr_cr := True\<rparr>, None)
      else if b = CHR 0x0A then (False, r, None)
      else
        (let r1 = r\<lparr>rr_lineLen := rr_lineLen r + 1\<rparr> in
         if redisLengthType (rr_elemKind r1) then
           (if redisLengthLine < rr_lineLen r1 then (False, r1, None)
            else (case digit b (rr_lineLen r1 = 1) r1 of (ok, r2) \<Rightarrow> (ok, r2, None)))
         else
           (let r2 = (if rr_elemKind r1 = CHR '':'' \<and> rr_lineLen r1 \<le> redisLengthLine
                      then snd (digit b (rr_lineLen r1 = 1) r1) else r1)
            in (True, hold b (classify b r2), None))))"

subsection \<open>Bulk bodies\<close>

text \<open>
  \<open>bulk\<close>: the next \<open>n\<close> bytes of the body belong to this element, \<open>visible\<close> are those captured.
  The CRLF after the body is checked where it is visible.
\<close>

definition classify_bulk :: "bytes \<Rightarrow> redisReader \<Rightarrow> redisReader" where
  "classify_bulk payload r =
     fold (\<lambda>b r. if rr_elemKind r \<noteq> CHR ''!'' \<or> rr_classDone r \<noteq> 0 then r else classify b r) payload r"

definition bulk_tail_ok :: "nat \<Rightarrow> nat \<Rightarrow> bytes \<Rightarrow> bool" where
  "bulk_tail_ok bulkLen offset rest \<longleftrightarrow>
     (\<forall>i < length rest.
        (offset + i = bulkLen \<longrightarrow> rest ! i = CHR 0x0D) \<and>
        (offset + i = bulkLen + 1 \<longrightarrow> rest ! i = CHR 0x0A))"

definition bulk_offset :: "redisReader \<Rightarrow> nat" where
  "bulk_offset r = rr_bulkLen r + 2 - rr_left r"

definition bulk_segment :: "nat \<Rightarrow> redisReader \<Rightarrow> nat" where
  "bulk_segment n r = (if bulk_offset r < rr_bulkLen r then min n (rr_bulkLen r - bulk_offset r) else 0)"

text \<open>When a part of the body was not captured nothing after it is kept.\<close>

definition bulk_keep :: "bytes \<Rightarrow> nat \<Rightarrow> redisReader \<Rightarrow> redisReader" where
  "bulk_keep payload segment r =
     (if 0 < rr_elemKeep r then
        (let h = holdBytes payload r in
         if length payload < segment then h\<lparr>rr_elemKeep := int (length (rr_held h))\<rparr> else h)
      else r)"

definition bulk :: "bytes \<Rightarrow> nat \<Rightarrow> redisReader \<Rightarrow> bool \<times> redisReader" where
  "bulk visible n r =
     (let payload = take (bulk_segment n r) visible;
          r1 = classify_bulk payload (bulk_keep payload (bulk_segment n r) r)
      in if bulk_tail_ok (rr_bulkLen r) (bulk_offset r + length payload) (drop (length payload) visible)
         then (True, r1\<lparr>rr_left := rr_left r - n\<rparr>) else (False, r1))"

subsection \<open>Inline requests\<close>

definition redisSpace :: "byte \<Rightarrow> bool" where
  "redisSpace b \<longleftrightarrow> bval b \<in> {32, 9, 13, 11, 12}"

definition startWord :: "redisReader \<Rightarrow> redisReader" where
  "startWord r =
     (if rr_elemKeep r < 0 then r\<lparr>rr_elemKeep := want (rr_command r) (rr_elemIndex r), rr_digits := 0\<rparr> else r)"

definition emit :: "byte \<Rightarrow> redisReader \<Rightarrow> redisReader" where
  "emit b r = (hold b r)\<lparr>rr_digits := rr_digits r + 1\<rparr>"

definition endWord :: "redisReader \<Rightarrow> redisReader" where
  "endWord r =
     (dropHeld (r\<lparr>rr_command := decoder_done (rr_elemIndex r) (rr_held r) (int (rr_digits r)) (rr_command r)\<rparr>))
     \<lparr>rr_elemIndex := rr_elemIndex r + 1, rr_elemKeep := -1, rr_digits := 0\<rparr>"

definition redisHex :: "byte \<Rightarrow> nat option" where
  "redisHex b =
     (if is_digit b then Some (bval b - 48)
      else if 97 \<le> bval b \<and> bval b \<le> 102 then Some (bval b - 97 + 10)
      else if 65 \<le> bval b \<and> bval b \<le> 70 then Some (bval b - 65 + 10)
      else None)"

definition unescape :: "byte \<Rightarrow> byte" where
  "unescape b =
     (if b = CHR ''n'' then CHR 0x0A else if b = CHR ''r'' then CHR 0x0D else if b = CHR ''t'' then CHR 0x09
      else if b = CHR ''b'' then CHR 0x08 else if b = CHR ''a'' then CHR 0x07 else b)"

definition in_quotes :: "byte \<Rightarrow> redisReader \<Rightarrow> redisReader" where
  "in_quotes b r =
     (if b = CHR 0x5C then r\<lparr>rr_escape := 1\<rparr>
      else if b = rr_quote r then r\<lparr>rr_quote := byte0, rr_afterQuote := True\<rparr>
      else emit b r)"

definition doubleQuoted :: "byte \<Rightarrow> redisReader \<Rightarrow> redisReader" where
  "doubleQuoted b r =
     (if rr_escape r = 1 then
        (if b = CHR ''x'' then r\<lparr>rr_escape := 2\<rparr> else emit (unescape b) (r\<lparr>rr_escape := 0\<rparr>))
      else if rr_escape r = 2 then
        (case redisHex b of
           Some _ \<Rightarrow> r\<lparr>rr_hex := b, rr_escape := 3\<rparr>
         | None \<Rightarrow> in_quotes b (emit (CHR ''x'') (r\<lparr>rr_escape := 0\<rparr>)))
      else if rr_escape r = 3 then
        (let r1 = r\<lparr>rr_escape := 0\<rparr> in
         case redisHex b of
           Some lo \<Rightarrow> emit (char_of (16 * (case redisHex (rr_hex r) of Some hi \<Rightarrow> hi | None \<Rightarrow> 0) + lo)) r1
         | None \<Rightarrow> in_quotes b (emit (rr_hex r) (emit (CHR ''x'') r1)))
      else in_quotes b r)"

definition singleQuoted :: "byte \<Rightarrow> redisReader \<Rightarrow> redisReader" where
  "singleQuoted b r =
     (if rr_escape r = 1 then
        (let r1 = r\<lparr>rr_escape := 0\<rparr> in
         if b = CHR 0x27 then emit b r1 else in_quotes b (emit (CHR 0x5C) r1))
      else in_quotes b r)"

text \<open>The end of an inline line, and one byte of it.\<close>

definition inline_end :: "redisReader \<Rightarrow> reader_result" where
  "inline_end r =
     (if rr_quote r \<noteq> byte0 then (False, r, None)
      else
        (let r1 = (if 0 \<le> rr_elemKeep r then endWord r else r) in
         if rr_elemIndex r1 = 0 then (True, dropFrame r1, None)
         else
           (let r2 = r1\<lparr>rr_command := argc (int (rr_elemIndex r1)) (rr_command r1)\<rparr> in
            (True, dropFrame r2,
             Some (rr_frame r2\<lparr>fr_kind := CHR ''i'', fr_command := Some (decoder_result True (rr_command r2))\<rparr>)))))"

definition inline_plain :: "byte \<Rightarrow> redisReader \<Rightarrow> redisReader" where
  "inline_plain b r =
     (let inWord = (0 \<le> rr_elemKeep r) in
      if bval b = 32 \<or> bval b = 9 \<or> bval b = 13 then (if inWord then endWord r else r)
      else if bval b = 11 \<or> bval b = 12 then (if inWord then emit b r else r)
      else if b = byte0 then (if inWord then endWord r else r)\<lparr>rr_inlineNul := True\<rparr>
      else if b = CHR 0x22 \<or> b = CHR 0x27 then (startWord r)\<lparr>rr_quote := b\<rparr>
      else emit b (startWord r))"

definition inline :: "byte \<Rightarrow> redisReader \<Rightarrow> reader_result" where
  "inline b r0 =
     (let r = r0\<lparr>rr_lineLen := rr_lineLen r0 + 1\<rparr> in
      if redisInlineLimit < rr_lineLen r then (False, r, None)
      else if b = CHR 0x0A then inline_end r
      else if rr_inlineNul r then (True, r, None)
      else if rr_afterQuote r then
        (let r1 = r\<lparr>rr_afterQuote := False\<rparr> in
         if b = byte0 then (True, (endWord r1)\<lparr>rr_inlineNul := True\<rparr>, None)
         else if redisSpace b then (True, endWord r1, None)
         else (False, r1, None))
      else if rr_quote r = CHR 0x22 then (True, doubleQuoted b r, None)
      else if rr_quote r = CHR 0x27 then (True, singleQuoted b r, None)
      else (True, inline_plain b r, None))"

text \<open>\<open>begin\<close>: the type byte of an element, or the first byte of an inline request.\<close>

definition inline_start :: "redisReader \<Rightarrow> redisReader" where
  "inline_start r =
     r\<lparr>rr_state := StateInline, rr_lineLen := 0, rr_quote := byte0, rr_escape := 0, rr_afterQuote := False,
       rr_inlineNul := False, rr_command := decoder_start (-1) (rr_showSecrets r), rr_elemIndex := 0,
       rr_elemKeep := -1\<rparr>"

definition reader_begin :: "(byte \<Rightarrow> redisKeep option) \<Rightarrow> byte \<Rightarrow> redisReader \<Rightarrow> reader_result" where
  "reader_begin keep b r =
     (let depth = length (rr_stack r) in
      if rr_request r \<and> depth = 0 \<and> b \<noteq> CHR ''*'' then inline b (inline_start r)
      else if rr_request r \<and> \<not> (depth = 0 \<or> (depth = 1 \<and> b = CHR ''$'')) then (False, r, None)
      else if \<not> rr_request r \<and> \<not> redisTypeByte b then (False, r, None)
      else (True, begin_element keep b r, None))"

subsection \<open>Feeding a record\<close>

definition notify :: "(redisFrame \<Rightarrow> 's \<Rightarrow> 's) \<Rightarrow> redisFrame option \<Rightarrow> 's \<Rightarrow> 's" where
  "notify frame out s = (case out of None \<Rightarrow> s | Some f \<Rightarrow> frame f s)"

text \<open>\<open>lose\<close>: a request whose name was read is reported as lost.\<close>

definition lost_frame :: "redisReader \<Rightarrow> redisFrame option" where
  "lost_frame r =
     (if rr_request r \<and> rr_inFrame r \<and> dc_name (rr_command r) \<noteq> [] then
        Some (frame0\<lparr>fr_kind := CHR ''*'', fr_at := fr_at (rr_frame r), fr_bytes := fr_bytes (rr_frame r),
                fr_command := Some (decoder_result (rr_state r = StateInline) (rr_command r)), fr_lost := True\<rparr>)
      else None)"

definition reader_lose :: "(redisFrame \<Rightarrow> 's \<Rightarrow> 's) \<Rightarrow> redisReader \<Rightarrow> 's \<Rightarrow> bool \<times> redisReader \<times> 's" where
  "reader_lose frame r s = (False, reader_reset r, notify frame (lost_frame r) s)"

definition add_bytes :: "nat \<Rightarrow> redisReader \<Rightarrow> redisReader" where
  "add_bytes n r = r\<lparr>rr_frame := rr_frame r\<lparr>fr_bytes := fr_bytes (rr_frame r) + n\<rparr>\<rparr>"

text \<open>One byte outside a bulk body.\<close>

definition byte_step :: "(byte \<Rightarrow> redisKeep option) \<Rightarrow> u64 \<Rightarrow> byte \<Rightarrow> redisReader \<Rightarrow> reader_result" where
  "byte_step keep tm b r =
     (case rr_state r of
        StateType \<Rightarrow>
          (let r1 = (if rr_inFrame r then r else r\<lparr>rr_inFrame := True, rr_frame := frame0\<lparr>fr_at := tm\<rparr>\<rparr>)
           in reader_begin keep b (add_bytes 1 r1))
      | StateLine \<Rightarrow> line b (add_bytes 1 r)
      | StateInline \<Rightarrow> inline b (add_bytes 1 r)
      | StateBulk \<Rightarrow> (True, r, None))"

text \<open>The piece of a bulk body in this record: \<open>n\<close> bytes, \<open>visible\<close> of them captured.\<close>

definition bulk_step :: "bytes \<Rightarrow> nat \<Rightarrow> redisReader \<Rightarrow> reader_result" where
  "bulk_step visible n r =
     (case bulk visible n r of (ok, r1) \<Rightarrow>
        if \<not> ok then (False, r1, None)
        else
          (let r2 = add_bytes n r1 in
           if rr_left r2 = 0 then finishScalar (rr_held r2) (int (rr_bulkLen r2)) r2 else (True, r2, None)))"

text \<open>
  The loop of \<open>feed\<close>: \<open>data\<close> stands for \<open>data[pos:]\<close> and \<open>sz\<close> for \<open>size - pos\<close>. \<open>keep\<close> asks the
  caller's state what to keep of the frame that starts; \<open>None\<close> is a nil \<open>keep\<close>.
\<close>

definition redis_feed_step ::
  "(redisFrame \<Rightarrow> 's \<Rightarrow> 's) \<Rightarrow> ('s \<Rightarrow> byte \<Rightarrow> redisKeep option) \<Rightarrow> u64 \<Rightarrow> bytes \<Rightarrow> nat \<Rightarrow> redisReader \<Rightarrow> 's \<Rightarrow>
   (bool \<times> redisReader \<times> 's) + (bytes \<times> nat \<times> redisReader \<times> 's)" where
  "redis_feed_step frame keep tm data sz r s =
     (if rr_state r = StateBulk then
        (let n = min (rr_left r) sz in
         case bulk_step (take n data) n r of (ok, r1, out) \<Rightarrow>
           if ok then Inr (drop n data, sz - n, r1, notify frame out s) else Inl (reader_lose frame r1 s))
      else if data = [] then Inl (reader_lose frame r s)
      else
        (case byte_step (keep s) tm (hd data) r of (ok, r1, out) \<Rightarrow>
           if ok then Inr (tl data, sz - 1, r1, notify frame out s) else Inl (reader_lose frame r1 s)))"


text \<open>An element that ends leaves the body of its bulk: the loop makes progress.\<close>

lemma finish_state: "rr_state (fst (snd (finish r))) = StateType"
  by (auto simp: finish_def dropHeld_def dropFrame_def Let_def split: sum.splits)

lemma finishScalar_state: "rr_state (fst (snd (finishScalar kept len r))) = StateType"
  by (simp add: finishScalar_def Let_def finish_state)

lemma if_ok: "(if c then (True, x) else (False, y)) = (True, z) \<longleftrightarrow> c \<and> z = x"
  by auto

lemma bulk_left: "bulk visible n r = (True, r1) \<Longrightarrow> rr_left r1 = rr_left r - n"
  by (auto simp: bulk_def Let_def if_ok)

lemma bulk_step_progress:
  assumes "bulk_step visible n r = (True, r1, out)" and "n = min (rr_left r) sz" and "0 < sz"
  shows "rr_state r1 \<noteq> StateBulk \<or> sz - n < sz"
proof (cases "rr_left r = 0")
  case True
  then show ?thesis
    using assms finishScalar_state [of "rr_held (add_bytes n (snd (bulk visible n r)))"
        "int (rr_bulkLen (add_bytes n (snd (bulk visible n r))))" "add_bytes n (snd (bulk visible n r))"]
    by (auto simp: bulk_step_def add_bytes_def Let_def split: prod.splits if_splits dest!: bulk_left)
qed (use assms in auto)

definition feed_rank :: "nat \<Rightarrow> redisReader \<Rightarrow> nat" where
  "feed_rank sz r = 2 * sz + (if rr_state r = StateBulk then 1 else 0)"

lemma redis_feed_step_bulk:
  "rr_state r = StateBulk \<Longrightarrow>
   redis_feed_step frame keep tm data sz r s =
     (case bulk_step (take (min (rr_left r) sz) data) (min (rr_left r) sz) r of (ok, r1, out) \<Rightarrow>
        if ok then Inr (drop (min (rr_left r) sz) data, sz - min (rr_left r) sz, r1, notify frame out s)
        else Inl (reader_lose frame r1 s))"
  by (simp add: redis_feed_step_def Let_def)

lemma redis_feed_step_byte:
  "rr_state r \<noteq> StateBulk \<Longrightarrow>
   redis_feed_step frame keep tm (b # data) sz r s =
     (case byte_step (keep s) tm b r of (ok, r1, out) \<Rightarrow>
        if ok then Inr (data, sz - 1, r1, notify frame out s) else Inl (reader_lose frame r1 s))"
  by (simp add: redis_feed_step_def split: prod.split)

lemma redis_feed_step_blind:
  "rr_state r \<noteq> StateBulk \<Longrightarrow> redis_feed_step frame keep tm [] sz r s = Inl (reader_lose frame r s)"
  by (simp add: redis_feed_step_def)

lemma redis_feed_step_progress:
  assumes "redis_feed_step frame keep tm data sz r s = Inr (data1, sz1, r1, s1)" and "0 < sz"
  shows "feed_rank sz1 r1 < feed_rank sz r"
proof (cases "rr_state r = StateBulk")
  case True
  obtain ok r2 out where b: "bulk_step (take (min (rr_left r) sz) data) (min (rr_left r) sz) r = (ok, r2, out)"
    by (cases "bulk_step (take (min (rr_left r) sz) data) (min (rr_left r) sz) r") auto
  with assms(1) True have "ok" "sz1 = sz - min (rr_left r) sz" "r1 = r2"
    by (simp_all add: redis_feed_step_bulk split: if_splits)
  with bulk_step_progress [of _ _ r r2 out sz] b assms(2) True
  show ?thesis by (fastforce simp: feed_rank_def)
next
  case False
  then obtain b rest where data: "data = b # rest"
    using assms(1) by (cases data) (simp_all add: redis_feed_step_blind)
  obtain ok r2 out where "byte_step (keep s) tm b r = (ok, r2, out)"
    by (cases "byte_step (keep s) tm b r") auto
  with assms False data have "sz1 = sz - 1"
    by (simp add: redis_feed_step_byte split: if_splits)
  with assms(2) False show ?thesis by (auto simp: feed_rank_def)
qed

function redis_feed_loop ::
  "(redisFrame \<Rightarrow> 's \<Rightarrow> 's) \<Rightarrow> ('s \<Rightarrow> byte \<Rightarrow> redisKeep option) \<Rightarrow> u64 \<Rightarrow> bytes \<Rightarrow> nat \<Rightarrow> redisReader \<Rightarrow> 's \<Rightarrow>
   bool \<times> redisReader \<times> 's" where
  "redis_feed_loop frame keep tm data sz r s =
     (if sz = 0 then (True, r, s)
      else
        (case redis_feed_step frame keep tm data sz r s of
           Inl result \<Rightarrow> result
         | Inr (data1, sz1, r1, s1) \<Rightarrow> redis_feed_loop frame keep tm data1 sz1 r1 s1))"
  by pat_completeness auto
termination
  by (relation "measure (\<lambda>(frame, keep, tm, data, sz, r, s). feed_rank sz r)")
     (auto dest: redis_feed_step_progress)

declare redis_feed_loop.simps [simp del]

text \<open>\<open>feed\<close>: whether framing was kept, the reader after the record, and the caller's state.\<close>

definition redis_feed ::
  "(redisFrame \<Rightarrow> 's \<Rightarrow> 's) \<Rightarrow> ('s \<Rightarrow> byte \<Rightarrow> redisKeep option) \<Rightarrow> bytes \<Rightarrow> nat \<Rightarrow> u64 \<Rightarrow> redisReader \<Rightarrow> 's \<Rightarrow>
   bool \<times> redisReader \<times> 's" where
  "redis_feed frame keep data sz tm r s = redis_feed_loop frame keep tm data (max sz (length data)) r s"

end
