(* ===== verification/RedisTracker.thy ===== *)
theory RedisTracker
  imports RedisReader GoMap
begin

text \<open>
  \<open>redisTracker\<close> of internal/edc/trace_redis.go: per socket a reader for each direction, the
  queue of commands that wait for a reply, and the modes of the connection (subscriptions, MONITOR,
  transactions, CLIENT REPLY, replication). The record's connection is the live value \<open>rl_conn\<close> of
  the call, written back to the map at the end; \<open>redis_command\<close> and \<open>redis_reply\<close> are the callbacks of the two
  readers, and touch only the reader they are not called from.
\<close>

definition redisPendingLimit :: nat where "redisPendingLimit = 4096"
definition redisPendingTotal :: int where "redisPendingTotal = 65536"
definition redisSocketLimit :: nat where "redisSocketLimit = 65536"
definition maxUint64 :: u64 where "maxUint64 = - 1"

definition redisEventCommand :: bytes where "redisEventCommand = ''redis_command''"
definition redisEventReply :: bytes where "redisEventReply = ''redis_reply''"
definition redisEventError :: bytes where "redisEventError = ''redis_error''"
definition redisEventPush :: bytes where "redisEventPush = ''redis_push''"

lemmas redis_names = redisEventCommand_def redisEventReply_def redisEventError_def redisEventPush_def

definition redisResponseEvent :: "bytes \<Rightarrow> bool" where
  "redisResponseEvent name \<longleftrightarrow> name = redisEventReply \<or> name = redisEventError"

record redisPending =
  rp_at :: u64
  rp_name :: bytes
  rp_key :: bytes
  rp_sensitive :: bool
  rp_proto :: nat
  rp_channels :: int

record redisConn =
  rx_request :: redisReader
  rx_response :: redisReader
  rx_requestSynced :: bool
  rx_responseSynced :: bool
  rx_pending :: "redisPending list"
  rx_proto :: nat
  rx_subscribed :: bool
  rx_monitor :: bool
  rx_multi :: bool
  rx_replyOff :: bool
  rx_skipNext :: bool
  rx_replication :: bool
  rx_gap :: bool
  rx_subKind :: bytes
  rx_subExtra :: int

definition resetModes :: "redisConn \<Rightarrow> redisConn" where
  "resetModes conn =
     conn\<lparr>rx_proto := 2, rx_subscribed := False, rx_monitor := False, rx_multi := False,
       rx_replyOff := False, rx_skipNext := False, rx_subKind := [], rx_subExtra := 0\<rparr>"

record redisTracker =
  rt_side :: bytes
  rt_showSecrets :: bool
  rt_conns :: "(u64, redisConn) gomap"
  rt_pending :: int

definition newRedisTracker :: "bytes \<Rightarrow> bool \<Rightarrow> redisTracker" where
  "newRedisTracker side showSecrets =
     \<lparr>rt_side = side, rt_showSecrets = showSecrets, rt_conns = [], rt_pending = 0\<rparr>"

record redisCall =
  rl_tracker :: redisTracker
  rl_conn :: redisConn
  rl_record :: mysqlRecord
  rl_side :: bytes
  rl_offset :: u64
  rl_out :: "captureEvent list"

definition newConn :: "redisTracker \<Rightarrow> redisConn" where
  "newConn tracker =
     \<lparr>rx_request = reader0 True (rt_showSecrets tracker), rx_response = reader0 False False,
      rx_requestSynced = False, rx_responseSynced = False, rx_pending = [], rx_proto = 0,
      rx_subscribed = False, rx_monitor = False, rx_multi = False, rx_replyOff = False,
      rx_skipNext = False, rx_replication = False, rx_gap = False, rx_subKind = [], rx_subExtra = 0\<rparr>"

subsection \<open>What to keep, and what to drop\<close>

definition redis_keep :: "redisTracker \<Rightarrow> redisConn \<Rightarrow> byte \<Rightarrow> redisKeep" where
  "redis_keep tracker conn kind =
     (let sensitive = (rx_monitor conn \<or> (rx_pending conn \<noteq> [] \<and> rp_sensitive (hd (rx_pending conn))));
          pubsub = (kind = CHR ''*'' \<and> rx_proto conn \<noteq> 3 \<and>
                    (rx_subscribed conn \<or>
                     (rx_pending conn \<noteq> [] \<and> rp_name (hd (rx_pending conn)) \<in> set redisSubscribeKinds)))
      in \<lparr>kp_value = (rt_showSecrets tracker \<and> \<not> sensitive), kp_message = (rt_showSecrets tracker \<and> \<not> sensitive),
          kp_word = (\<not> rx_monitor conn), kp_heads = (kind = CHR ''>'' \<or> pubsub)\<rparr>)"

text \<open>\<open>drop\<close>: the commands not newer than \<open>tm\<close> go; a dropped command may have switched a mode.\<close>

definition drop_mode :: "redisPending \<Rightarrow> redisConn \<Rightarrow> redisConn" where
  "drop_mode p conn =
     (if rp_name p = ''MONITOR'' then conn\<lparr>rx_monitor := True\<rparr>
      else if rp_name p = ''SUBSCRIBE'' \<or> rp_name p = ''PSUBSCRIBE'' \<or> rp_name p = ''SSUBSCRIBE''
      then conn\<lparr>rx_subscribed := (rx_proto conn \<noteq> 3)\<rparr>
      else if rp_name p = ''PSYNC'' \<or> rp_name p = ''SYNC'' then conn\<lparr>rx_replication := True\<rparr>
      else conn)"

definition redis_drop :: "u64 \<Rightarrow> redisTracker \<Rightarrow> redisConn \<Rightarrow> redisTracker \<times> redisConn" where
  "redis_drop tm tracker conn =
     (let gone = filter (\<lambda>p. rp_at p \<le> tm) (rx_pending conn);
          kept = filter (\<lambda>p. tm < rp_at p) (rx_pending conn)
      in (tracker\<lparr>rt_pending := max (rt_pending tracker - int (length gone)) 0\<rparr>,
          (fold drop_mode gone conn)\<lparr>rx_pending := kept\<rparr>))"

definition redis_forgetSocket :: "redisTracker \<Rightarrow> u64 \<Rightarrow> redisTracker" where
  "redis_forgetSocket tracker socket =
     (case map_get (rt_conns tracker) socket of
        None \<Rightarrow> tracker
      | Some conn \<Rightarrow>
          (let tracker1 = fst (redis_drop maxUint64 tracker conn)
           in tracker1\<lparr>rt_conns := map_del socket (rt_conns tracker1)\<rparr>))"

definition call_drop :: "u64 \<Rightarrow> redisCall \<Rightarrow> redisCall" where
  "call_drop tm c =
     (case redis_drop tm (rl_tracker c) (rl_conn c) of (tracker, conn) \<Rightarrow>
        c\<lparr>rl_tracker := tracker, rl_conn := conn\<rparr>)"

definition call_lose :: "redisCall \<Rightarrow> redisCall" where
  "call_lose c =
     (let c1 = call_drop maxUint64 c; conn = rl_conn c1 in
      c1\<lparr>rl_conn := conn\<lparr>rx_responseSynced := False, rx_response := reader_reset (rx_response conn)\<rparr>\<rparr>)"

definition redis_event :: "redisCall \<Rightarrow> bytes \<Rightarrow> u64 \<Rightarrow> nat \<Rightarrow> traceRedisEvent \<Rightarrow> captureEvent" where
  "redis_event c name tm n info =
     (base_event (rl_record c) (rl_side c) (rl_offset c) ''redis'' name tm n)\<lparr>ev_redis := Some info\<rparr>"

definition redis_emit :: "captureEvent \<Rightarrow> redisCall \<Rightarrow> redisCall" where
  "redis_emit e c = c\<lparr>rl_out := rl_out c @ [e]\<rparr>"

subsection \<open>Requests\<close>

definition redisRequestStart :: "bytes \<Rightarrow> bool" where
  "redisRequestStart data =
     (if data \<noteq> [] \<and> hd data = CHR ''*'' then
        (let i = 1 + length (takeWhile is_digit (take redisLengthLine (tl data))) in
         1 < i \<and> i + 3 \<le> length data \<and> data ! i = CHR 0x0D \<and> data ! (i + 1) = CHR 0x0A \<and> data ! (i + 2) = CHR ''$'')
      else
        (let n = length (takeWhile (\<lambda>b. \<not> redisSpace b \<and> b \<noteq> CHR 0x0A) (take (redisNameLimit + 1) data)) in
         if n = 0 \<or> length data \<le> n then False
         else
           (case redisName (take n data) (int n) of
              None \<Rightarrow> False
            | Some name \<Rightarrow>
                redisKeyAt name \<noteq> None \<or> name \<in> set redisContainers \<or> name \<in> set redisKnownCommands \<or>
                name \<in> set redisSubscribeKinds)))"

text \<open>The switch of \<open>command\<close>: whether the command waits for a reply, and the modes it changes.\<close>

definition command_queued :: "redisCommand \<Rightarrow> redisConn \<Rightarrow> bool \<times> redisConn" where
  "command_queued cmd conn =
     (if rx_replication conn \<or> rc_name cmd = ''REPLCONF ACK'' then (False, conn)
      else if rc_name cmd = ''RESET'' then (True, conn)
      else if rc_name cmd = ''CLIENT REPLY'' \<and> rc_reply cmd = ''ON'' then
        (True, conn\<lparr>rx_replyOff := False, rx_skipNext := False\<rparr>)
      else if rc_name cmd = ''CLIENT REPLY'' \<and> rc_reply cmd = ''OFF'' then (False, conn\<lparr>rx_replyOff := True\<rparr>)
      else if rc_name cmd = ''CLIENT REPLY'' \<and> rc_reply cmd = ''SKIP'' then (False, conn\<lparr>rx_skipNext := True\<rparr>)
      else if rx_replyOff conn then (False, conn)
      else if rx_skipNext conn then (False, conn\<lparr>rx_skipNext := False\<rparr>)
      else (True, conn))"

definition command_info :: "redisCommand \<Rightarrow> bool \<Rightarrow> bool \<Rightarrow> nat \<Rightarrow> traceRedisEvent" where
  "command_info cmd lost noReply proto =
     redis_event0\<lparr>rd_command := rc_name cmd, rd_key := rc_key cmd, rd_args := rc_args cmd,
       rd_argPreview := rc_preview cmd, rd_inline := rc_inline cmd, rd_truncated := lost,
       rd_noReply := noReply, rd_resp := int proto\<rparr>"

definition pending_of :: "redisFrame \<Rightarrow> redisCommand \<Rightarrow> redisPending" where
  "pending_of f cmd =
     \<lparr>rp_at = fr_at f, rp_name = rc_name cmd, rp_key = rc_key cmd, rp_sensitive = rc_sensitive cmd,
      rp_proto = rc_proto cmd, rp_channels = rc_channels cmd\<rparr>"

definition enqueue :: "redisPending \<Rightarrow> redisCall \<Rightarrow> redisCall" where
  "enqueue p c =
     c\<lparr>rl_conn := (rl_conn c)\<lparr>rx_pending := rx_pending (rl_conn c) @ [p]\<rparr>,
       rl_tracker := (rl_tracker c)\<lparr>rt_pending := rt_pending (rl_tracker c) + 1\<rparr>\<rparr>"

definition open_gap :: "redisCall \<Rightarrow> redisCall" where
  "open_gap c = (let c1 = call_lose c in c1\<lparr>rl_conn := (rl_conn c1)\<lparr>rx_gap := True\<rparr>\<rparr>)"

definition redis_command :: "redisFrame \<Rightarrow> redisCall \<Rightarrow> redisCall" where
  "redis_command f c =
     (case fr_command f of
        None \<Rightarrow> c
      | Some cmd \<Rightarrow>
          (let report = (\<lambda>lost noReply. redis_event c redisEventCommand (fr_at f) (fr_bytes f)
                            (command_info cmd lost noReply (rx_proto (rl_conn c))))
           in if fr_lost f then redis_emit (report True False) c
              else
                (case command_queued cmd (rl_conn c) of (queue, conn) \<Rightarrow>
                   let c1 = redis_emit (report False (\<not> queue)) (c\<lparr>rl_conn := conn\<rparr>) in
                   if \<not> queue \<or> rx_gap conn then c1
                   else if redisPendingLimit \<le> length (rx_pending conn) \<or>
                           redisPendingTotal \<le> rt_pending (rl_tracker c1)
                   then open_gap c1
                   else enqueue (pending_of f cmd) c1)))"

definition redis_request :: "redisCall \<Rightarrow> redisCall" where
  "redis_request c =
     (let conn = rl_conn c; record = rl_record c in
      if \<not> rx_requestSynced conn \<and> \<not> redisRequestStart (rec_payload record) then c
      else
        (let conn1 = (if rx_requestSynced conn then conn
                      else conn\<lparr>rx_request := reader_reset (rx_request conn), rx_requestSynced := True\<rparr>)
         in case redis_feed redis_command (\<lambda>_ _. None) (rec_payload record) (rec_size record) (rec_bootTimeNS record)
                   (rx_request conn1) (c\<lparr>rl_conn := conn1\<rparr>) of
              (ok, reader, c1) \<Rightarrow>
                (let c2 = c1\<lparr>rl_conn := (rl_conn c1)\<lparr>rx_request := reader\<rparr>\<rparr> in
                 if ok then c2
                 else open_gap (c2\<lparr>rl_conn := (rl_conn c2)\<lparr>rx_requestSynced := False\<rparr>\<rparr>))))"

subsection \<open>Replies\<close>

definition redisReplyKinds :: "(byte \<times> bytes) list" where
  "redisReplyKinds =
     [(CHR ''+'', ''simple''), (CHR ''-'', ''error''), (CHR '':'', ''integer''), (CHR ''$'', ''bulk''),
      (CHR ''*'', ''array''), (CHR ''%'', ''map''), (CHR ''~'', ''set''), (CHR ''_'', ''null''),
      (CHR '','', ''double''), (CHR ''#'', ''boolean''), (CHR ''('', ''bignum''), (CHR ''='', ''verbatim''),
      (CHR ''!'', ''error''), (CHR ''>'', ''push'')]"

definition redisReplyKind :: "redisFrame \<Rightarrow> bool \<Rightarrow> bytes" where
  "redisReplyKind f multi =
     (if fr_null f then ''null''
      else if multi \<and> fr_kind f = CHR ''+'' \<and> fr_word f = ''QUEUED'' then ''queued''
      else (case map_of redisReplyKinds (fr_kind f) of None \<Rightarrow> [] | Some kind \<Rightarrow> kind))"

definition redisChannel :: "redisFrame \<Rightarrow> bytes \<Rightarrow> bytes" where
  "redisChannel f kind =
     (let head = (if kind = ''pmessage'' then fr_heads f ! 2 else fr_heads f ! 1) in
      if hd_kind head = CHR ''$'' \<or> hd_kind head = CHR ''+'' then hd_text head else [])"

definition frame_failed :: "redisFrame \<Rightarrow> bool" where
  "frame_failed f \<longleftrightarrow> fr_kind f = CHR ''-'' \<or> fr_kind f = CHR ''!''"

text \<open>The modes a reply changes, given the command it answers.\<close>

definition reply_modes :: "redisPending \<Rightarrow> bool \<Rightarrow> redisConn \<Rightarrow> redisConn" where
  "reply_modes p failed conn =
     (if rp_name p = ''MULTI'' \<and> \<not> failed then conn\<lparr>rx_multi := True\<rparr>
      else if rp_name p = ''EXEC'' \<or> rp_name p = ''DISCARD'' then conn\<lparr>rx_multi := False\<rparr>
      else if rp_name p = ''HELLO'' \<and> \<not> failed \<and> rp_proto p \<noteq> 0 then conn\<lparr>rx_proto := rp_proto p\<rparr>
      else if rp_name p = ''RESET'' \<and> \<not> failed then resetModes conn
      else if rp_name p = ''MONITOR'' \<and> \<not> failed then conn\<lparr>rx_monitor := True\<rparr>
      else if (rp_name p = ''PSYNC'' \<or> rp_name p = ''SYNC'') \<and> \<not> failed then conn\<lparr>rx_replication := True\<rparr>
      else conn)"

definition answer_info :: "redisPending \<Rightarrow> redisFrame \<Rightarrow> bytes \<Rightarrow> redisConn \<Rightarrow> traceRedisEvent" where
  "answer_info p f pushKind conn =
     (let info = redis_event0\<lparr>rd_command := rp_name p, rd_key := rp_key p,
                   rd_reply := redisReplyKind f (rx_multi conn), rd_value := fr_value f,
                   rd_pushKind := pushKind, rd_resp := int (rx_proto conn),
                   rd_channel := (if pushKind \<noteq> [] then redisChannel f pushKind else [])\<rparr>;
          info1 = (if frame_failed f then info\<lparr>rd_errorClass := fr_class f, rd_message := fr_message f\<rparr>
                   else if fr_null f then info
                   else if fr_kind f = CHR ''$'' \<or> fr_kind f = CHR ''='' then
                     info\<lparr>rd_bulkLength := Some (int (fr_count f))\<rparr>
                   else if redisLengthType (fr_kind f) then info\<lparr>rd_elements := Some (int (fr_count f))\<rparr>
                   else info)
      in if fr_kind f = CHR ''!'' then info1\<lparr>rd_bulkLength := Some (int (fr_count f))\<rparr> else info1)"

definition redis_answer :: "redisFrame \<Rightarrow> bytes \<Rightarrow> redisCall \<Rightarrow> redisCall" where
  "redis_answer f pushKind c =
     (case rx_pending (rl_conn c) of
        [] \<Rightarrow> c
      | p # rest \<Rightarrow>
          (let conn = reply_modes p (frame_failed f) ((rl_conn c)\<lparr>rx_pending := rest\<rparr>);
               c1 = c\<lparr>rl_conn := conn, rl_tracker := (rl_tracker c)\<lparr>rt_pending := rt_pending (rl_tracker c) - 1\<rparr>\<rparr>;
               e = redis_event c1 (if frame_failed f then redisEventError else redisEventReply) (fr_at f)
                     (fr_bytes f) (answer_info p f pushKind conn)
           in redis_emit (e\<lparr>ev_latencyMS := Some (traceSpan (rp_at p) (fr_at f)), ev_answered := 1\<rparr>) c1))"

definition redis_push :: "redisFrame \<Rightarrow> bytes \<Rightarrow> redisCall \<Rightarrow> redisCall" where
  "redis_push f kind c =
     redis_emit (redis_event c redisEventPush (fr_at f) (fr_bytes f)
       (redis_event0\<lparr>rd_reply := redisReplyKind f False, rd_pushKind := kind, rd_channel := redisChannel f kind,
          rd_resp := int (rx_proto (rl_conn c)), rd_elements := Some (int (fr_count f))\<rparr>)) c"

definition set_subs :: "bytes \<Rightarrow> int \<Rightarrow> redisCall \<Rightarrow> redisCall" where
  "set_subs kind extra c = c\<lparr>rl_conn := (rl_conn c)\<lparr>rx_subKind := kind, rx_subExtra := extra\<rparr>\<rparr>"

definition pending_name :: "redisConn \<Rightarrow> bytes" where
  "pending_name conn = (case rx_pending conn of [] \<Rightarrow> [] | p # _ \<Rightarrow> rp_name p)"

definition confirm_answer :: "redisFrame \<Rightarrow> bytes \<Rightarrow> redisCall \<Rightarrow> redisCall" where
  "confirm_answer f kind c =
     (let conn = rl_conn c in
      if pending_name conn = to_upper kind \<and> \<not> (rx_subKind conn = kind \<and> 0 < rx_subExtra conn) then
        (let channels = rp_channels (hd (rx_pending conn)) in
         set_subs kind (if channels = 0 then -1 else channels - 1) (redis_answer f kind c))
      else if rx_subKind conn = kind \<and> rx_subExtra conn \<noteq> 0 then
        (if 0 < rx_subExtra conn then set_subs kind (rx_subExtra conn - 1) c else c)
      else redis_push f kind c)"

definition confirm :: "redisFrame \<Rightarrow> bytes \<Rightarrow> bool \<Rightarrow> redisCall \<Rightarrow> redisCall" where
  "confirm f kind push c =
     (let c1 = confirm_answer f kind c; conn = rl_conn c1; count = fr_heads f ! 2 in
      if push then c1
      else if \<not> has_suffix kind ''unsubscribe'' then c1\<lparr>rl_conn := conn\<lparr>rx_subscribed := True\<rparr>\<rparr>
      else if hd_number count \<and> hd_integer count = 0 then
        c1\<lparr>rl_conn := conn\<lparr>rx_subscribed := False, rx_subExtra := 0\<rparr>\<rparr>
      else c1)"

definition redis_reply :: "redisFrame \<Rightarrow> redisCall \<Rightarrow> redisCall" where
  "redis_reply f c =
     (let conn = rl_conn c; head = fr_heads f ! 0; kind = hd_text head in
      if rx_replication conn then c
      else if fr_kind f = CHR ''>'' then
        (if hd_kind head = CHR ''$'' \<and> to_upper kind \<in> set redisSubscribeKinds then confirm f kind True c
         else redis_push f kind c)
      else if fr_kind f = CHR ''+'' \<and> fr_monitor f \<and> rx_monitor conn then c
      else if fr_kind f = CHR ''*'' \<and> rx_proto conn \<noteq> 3 \<and> hd_kind head = CHR ''$'' \<and>
              (rx_subscribed conn \<or> pending_name conn \<in> set redisSubscribeKinds) \<and>
              (kind = ''message'' \<or> kind = ''pmessage'' \<or> kind = ''smessage'')
      then redis_push f kind c
      else if fr_kind f = CHR ''*'' \<and> rx_proto conn \<noteq> 3 \<and> hd_kind head = CHR ''$'' \<and>
              (rx_subscribed conn \<or> pending_name conn \<in> set redisSubscribeKinds) \<and>
              to_upper kind \<in> set redisSubscribeKinds
      then confirm f kind False c
      else redis_answer f [] c)"

text \<open>\<open>resync\<close>: a trial reader counts the replies of a record.\<close>

definition trial_frame :: "redisFrame \<Rightarrow> nat \<Rightarrow> nat" where
  "trial_frame f n = (if fr_kind f \<noteq> CHR ''>'' then n + 1 else n)"

definition resync :: "redisCall \<Rightarrow> bool" where
  "resync c =
     (let data = rec_payload (rl_record c) in
      if data = [] \<or> \<not> redisTypeByte (hd data) \<or> rx_pending (rl_conn c) = [] then False
      else
        (case redis_feed trial_frame (\<lambda>_ _. None) data (rec_size (rl_record c)) 0 (reader0 False False) 0 of
           (ok, trial, n) \<Rightarrow>
             if \<not> ok then False
             else if reader_idle trial then n \<le> length (rx_pending (rl_conn c))
             else if \<not> reader_skipping trial then False
             else n + 1 \<le> length (rx_pending (rl_conn c))))"

definition response_feed :: "redisCall \<Rightarrow> redisCall" where
  "response_feed c =
     (let record = rl_record c in
      case redis_feed redis_reply (\<lambda>c kind. Some (redis_keep (rl_tracker c) (rl_conn c) kind)) (rec_payload record)
             (rec_size record) (rec_bootTimeNS record) (rx_response (rl_conn c)) c of
        (ok, reader, c1) \<Rightarrow>
          (let c2 = c1\<lparr>rl_conn := (rl_conn c1)\<lparr>rx_response := reader\<rparr>\<rparr> in
           if ok then c2 else call_lose c2))"

definition redis_response :: "redisCall \<Rightarrow> redisCall" where
  "redis_response c =
     (let conn = rl_conn c; tm = rec_bootTimeNS (rl_record c) in
      if rx_replication conn then c
      else if rx_gap conn then call_drop tm (c\<lparr>rl_conn := conn\<lparr>rx_gap := False\<rparr>\<rparr>)
      else if rx_responseSynced conn then response_feed c
      else if \<not> resync c then call_drop tm c
      else response_feed (c\<lparr>rl_conn := conn\<lparr>rx_response := reader_reset (rx_response conn),
                                       rx_responseSynced := True\<rparr>\<rparr>))"

subsection \<open>One record\<close>

definition redis_side :: "mysqlRecord \<Rightarrow> bytes" where
  "redis_side record = (if rec_server record then traceServerSide else traceClientSide)"

definition redis_open :: "redisTracker \<Rightarrow> u64 \<Rightarrow> redisTracker \<times> redisConn" where
  "redis_open tracker socket =
     (case map_get (rt_conns tracker) socket of
        Some conn \<Rightarrow> (tracker, conn)
      | None \<Rightarrow>
          (if redisSocketLimit \<le> map_len (rt_conns tracker) then tracker\<lparr>rt_conns := [], rt_pending := 0\<rparr>
           else tracker, newConn tracker))"

definition redis_call :: "redisTracker \<Rightarrow> redisConn \<Rightarrow> mysqlRecord \<Rightarrow> u64 \<Rightarrow> redisCall" where
  "redis_call tracker conn record offset =
     \<lparr>rl_tracker = tracker, rl_conn = conn, rl_record = record, rl_side = redis_side record,
      rl_offset = offset, rl_out = []\<rparr>"

definition redis_handle :: "redisCall \<Rightarrow> redisCall" where
  "redis_handle c =
     (if rec_server (rl_record c) \<noteq> rec_sent (rl_record c) then redis_request c else redis_response c)"

definition redis_events :: "redisTracker \<Rightarrow> mysqlRecord \<Rightarrow> u64 \<Rightarrow> redisTracker \<times> captureEvent list" where
  "redis_events tracker record offset =
     (if rt_side tracker \<noteq> [] \<and> redis_side record \<noteq> rt_side tracker then (tracker, [])
      else
        (case redis_open tracker (rec_socket record) of (tracker1, conn) \<Rightarrow>
           let c = redis_handle (redis_call tracker1 conn record offset) in
           ((rl_tracker c)\<lparr>rt_conns := map_put (rec_socket record) (rl_conn c) (rt_conns (rl_tracker c))\<rparr>, rl_out c)))"

end
