(* ===== verification/RedisSummary.thy ===== *)
theory RedisSummary
  imports RedisTracker TraceSummary
begin

text \<open>
  The summary of a Redis trace (\<open>traceRedisCounts\<close> and \<open>redisTraceSummarizer\<close> of
  internal/edc/trace_redis.go): one row per side and command name, totals per side and over all.
  Push frames belong to no command and count only in the totals.
\<close>

record traceRedisCounts =
  qc_commands :: nat
  qc_replies :: nat
  qc_errors :: nat
  qc_unanswered :: nat
  qc_latencyAvg :: "rat option"
  qc_latencyMax :: "rat option"
  qc_pushes :: nat
  qc_noReply :: nat
  qc_answered :: nat
  qc_latency :: traceSpans

definition redis_counts0 :: traceRedisCounts where
  "redis_counts0 = \<lparr>qc_commands = 0, qc_replies = 0, qc_errors = 0, qc_unanswered = 0, qc_latencyAvg = None,
     qc_latencyMax = None, qc_pushes = 0, qc_noReply = 0, qc_answered = 0, qc_latency = spans0\<rparr>"

definition redis_counts_observe :: "captureEvent \<Rightarrow> traceRedisCounts \<Rightarrow> traceRedisCounts" where
  "redis_counts_observe event counts =
     (if ev_event event = redisEventCommand then
        counts\<lparr>qc_commands := qc_commands counts + 1,
          qc_noReply := qc_noReply counts +
            (case ev_redis event of None \<Rightarrow> 0 | Some info \<Rightarrow> if rd_noReply info then 1 else 0)\<rparr>
      else if ev_event event = redisEventReply \<or> ev_event event = redisEventError then
        counts\<lparr>qc_replies := qc_replies counts + 1,
          qc_errors := qc_errors counts + (if ev_event event = redisEventError then 1 else 0),
          qc_answered := qc_answered counts + ev_answered event,
          qc_latency := spans_observe (qc_latency counts) (ev_latencyMS event)\<rparr>
      else if ev_event event = redisEventPush then counts\<lparr>qc_pushes := qc_pushes counts + 1\<rparr>
      else counts)"

definition redis_counts_finished :: "traceRedisCounts \<Rightarrow> traceRedisCounts" where
  "redis_counts_finished counts =
     (let expected = qc_commands counts - min (qc_commands counts) (qc_noReply counts) in
      counts\<lparr>qc_unanswered := expected - min expected (qc_answered counts),
        qc_latencyAvg := fst (spans_summary (qc_latency counts)),
        qc_latencyMax := snd (spans_summary (qc_latency counts))\<rparr>)"

definition traceRedisGroupSummary :: "traceRedisCounts option \<Rightarrow> traceRedisCounts option" where
  "traceRedisGroupSummary counts = map_option redis_counts_finished counts"

type_synonym redisTraceKey = "bytes \<times> bytes"

record redisTraceRowStats =
  qs_processes :: "(bytes, unit) gomap"
  qs_counts :: traceRedisCounts

record redisTraceSummarizer =
  qz_rows :: "(redisTraceKey, redisTraceRowStats) gomap"
  qz_counts :: traceRedisCounts
  qz_sides :: "(bytes, traceRedisCounts) gomap"

definition newRedisTraceSummarizer :: redisTraceSummarizer where
  "newRedisTraceSummarizer = \<lparr>qz_rows = [], qz_counts = redis_counts0, qz_sides = []\<rparr>"

definition redis_row_observe :: "captureEvent \<Rightarrow> redisTraceRowStats option \<Rightarrow> redisTraceRowStats" where
  "redis_row_observe event old =
     (let stats = (case old of None \<Rightarrow> \<lparr>qs_processes = [], qs_counts = redis_counts0\<rparr> | Some st \<Rightarrow> st) in
      \<lparr>qs_processes = (if ev_process event \<noteq> [] then map_put (ev_process event) () (qs_processes stats)
                       else qs_processes stats),
       qs_counts = redis_counts_observe event (qs_counts stats)\<rparr>)"

definition redis_side_observe ::
  "captureEvent \<Rightarrow> (bytes, traceRedisCounts) gomap \<Rightarrow> (bytes, traceRedisCounts) gomap" where
  "redis_side_observe event sides =
     map_put (ev_side event)
       (redis_counts_observe event
          (case map_get sides (ev_side event) of None \<Rightarrow> redis_counts0 | Some c \<Rightarrow> c)) sides"

definition redis_trace_key :: "captureEvent \<Rightarrow> traceRedisEvent \<Rightarrow> redisTraceKey" where
  "redis_trace_key event info = (ev_side event, emptyAs (rd_command info) ''(unknown)'')"

definition redis_summarizer_observe :: "captureEvent \<Rightarrow> redisTraceSummarizer \<Rightarrow> redisTraceSummarizer" where
  "redis_summarizer_observe event s =
     (case ev_redis event of
        None \<Rightarrow> s
      | Some info \<Rightarrow>
          (let s1 = s\<lparr>qz_counts := redis_counts_observe event (qz_counts s),
                qz_sides := (if ev_side event \<noteq> [] then redis_side_observe event (qz_sides s) else qz_sides s)\<rparr>
           in if ev_event event = redisEventPush then s1
              else
                (let key = redis_trace_key event info in
                 s1\<lparr>qz_rows := map_put key (redis_row_observe event (map_get (qz_rows s) key)) (qz_rows s)\<rparr>)))"

subsection \<open>The report\<close>

record redisTraceRow =
  qr_side :: bytes
  qr_command :: bytes
  qr_processes :: "bytes list"
  qr_counts :: traceRedisCounts

record redisTraceReport =
  qp_side :: bytes
  qp_durationMS :: nat
  qp_lostEvents :: nat
  qp_rows :: "redisTraceRow list"
  qp_counts :: traceRedisCounts
  qp_client :: "traceRedisCounts option"
  qp_server :: "traceRedisCounts option"

definition redis_row_less :: "redisTraceRow \<Rightarrow> redisTraceRow \<Rightarrow> bool" where
  "redis_row_less left right =
     (if qc_commands (qr_counts left) \<noteq> qc_commands (qr_counts right) then
        qc_commands (qr_counts right) < qc_commands (qr_counts left)
      else if qr_command left \<noteq> qr_command right then qr_command left < qr_command right
      else qr_side left < qr_side right)"

definition redis_report_row :: "redisTraceKey \<times> redisTraceRowStats \<Rightarrow> redisTraceRow" where
  "redis_report_row r =
     (case r of ((side, command), stats) \<Rightarrow>
        \<lparr>qr_side = side, qr_command = command, qr_processes = sort (map fst (qs_processes stats)),
         qr_counts = redis_counts_finished (qs_counts stats)\<rparr>)"

definition redis_summarize :: "redisTraceSummarizer \<Rightarrow> nat \<Rightarrow> nat \<Rightarrow> redisTraceReport" where
  "redis_summarize s lost duration =
     (let sides = qz_sides s;
          single = (map_len sides = 1);
          mixed = (1 < map_len sides)
      in \<lparr>qp_side = (if single then fst (hd sides) else []), qp_durationMS = duration, qp_lostEvents = lost,
          qp_rows = sort_by redis_row_less (map redis_report_row (qz_rows s)),
          qp_counts = redis_counts_finished (qz_counts s),
          qp_client = (if mixed then traceRedisGroupSummary (map_get sides traceClientSide) else None),
          qp_server = (if mixed then traceRedisGroupSummary (map_get sides traceServerSide) else None)\<rparr>)"

subsection \<open>The laws of the counts\<close>

definition redis_command_adds :: "captureEvent \<Rightarrow> nat" where
  "redis_command_adds e = (if ev_event e = redisEventCommand then 1 else 0)"

definition redis_reply_adds :: "captureEvent \<Rightarrow> nat" where
  "redis_reply_adds e = (if redisResponseEvent (ev_event e) then 1 else 0)"

definition redis_error_adds :: "captureEvent \<Rightarrow> nat" where
  "redis_error_adds e = (if ev_event e = redisEventError then 1 else 0)"

definition redis_answer_adds :: "captureEvent \<Rightarrow> nat" where
  "redis_answer_adds e = (if redisResponseEvent (ev_event e) then ev_answered e else 0)"

definition redis_silent_adds :: "captureEvent \<Rightarrow> nat" where
  "redis_silent_adds e =
     (if ev_event e = redisEventCommand \<and> (\<exists>info. ev_redis e = Some info \<and> rd_noReply info) then 1 else 0)"

lemmas redis_adds = redis_command_adds_def redis_reply_adds_def redis_error_adds_def redis_answer_adds_def
  redis_silent_adds_def redis_counts_observe_def redisResponseEvent_def redis_names redis_counts0_def

interpretation qcommands: event_counts redis_counts_observe redis_counts0 qc_commands redis_command_adds
  by unfold_locales (simp_all add: redis_adds)

interpretation qreplies: event_counts redis_counts_observe redis_counts0 qc_replies redis_reply_adds
  by unfold_locales (auto simp: redis_adds)

interpretation qerrors: event_counts redis_counts_observe redis_counts0 qc_errors redis_error_adds
  by unfold_locales (auto simp: redis_adds)

interpretation qanswered: event_counts redis_counts_observe redis_counts0 qc_answered redis_answer_adds
  by unfold_locales (auto simp: redis_adds)

interpretation qsilent: event_counts redis_counts_observe redis_counts0 qc_noReply redis_silent_adds
  by unfold_locales (auto simp: redis_adds split: option.split)

end
