(* ===== verification/RedisFraming.thy ===== *)
theory RedisFraming
  imports RedisReader
begin

text \<open>
  What holds of \<open>redisReader.feed\<close> (internal/edc/trace_redis.go) on any bytes whatever: the buffers
  and the stack stay within their limits and every index is in range; the loop ends after at most
  two passes per byte; and where the kernel cut the stream into records does not matter. The last
  is an interpretation of the contract \<open>incremental\<close>.
\<close>

subsection \<open>The invariant of a reader\<close>

definition level_ok :: "redisLevel \<Rightarrow> bool" where
  "level_ok lvl \<longleftrightarrow> 0 < lv_left lvl \<and> lv_left lvl \<le> 2 * redisBulkLimit"

text \<open>
  \<open>mode\<close> is whether the reader reads requests, and whether values may be shown. The texts a frame
  carries are escaped, and values, error messages and arguments are only in it when they may be shown.
\<close>

type_synonym reader_mode = "bool \<times> bool"

definition decoder_ok :: "bool \<Rightarrow> redisDecoder \<Rightarrow> bool" where
  "decoder_ok shown d \<longleftrightarrow>
     length (dc_preview d) \<le> redisArgKeep \<and> (dc_showSecrets d \<longrightarrow> shown) \<and> (shown \<or> dc_preview d = []) \<and>
     list_all traceTextByteKept (dc_name d) \<and> safe_text (dc_key d) \<and> list_all safe_text (dc_preview d)"

definition command_ok :: "bool \<Rightarrow> redisCommand \<Rightarrow> bool" where
  "command_ok shown cmd \<longleftrightarrow>
     safe_text (rc_name cmd) \<and> safe_text (rc_key cmd) \<and> list_all safe_text (rc_preview cmd) \<and>
     (shown \<or> rc_preview cmd = [])"

definition frame_text_ok :: "bool \<Rightarrow> redisFrame \<Rightarrow> bool" where
  "frame_text_ok shown f \<longleftrightarrow>
     length (fr_heads f) = 3 \<and> length (fr_class f) \<le> redisNameLimit \<and> length (fr_word f) \<le> redisWordKeep \<and>
     safe_text (fr_value f) \<and> safe_text (fr_message f) \<and> safe_text (fr_class f) \<and>
     list_all (\<lambda>h. safe_text (hd_text h)) (fr_heads f) \<and> (shown \<or> fr_value f = [] \<and> fr_message f = [])"

definition frame_ok :: "reader_mode \<Rightarrow> redisFrame \<Rightarrow> bool" where
  "frame_ok mode f \<longleftrightarrow>
     frame_text_ok (snd mode) f \<and> (fr_command f \<noteq> None) = fst mode \<and> (fr_lost f \<longrightarrow> fst mode) \<and>
     (\<forall>cmd. fr_command f = Some cmd \<longrightarrow> command_ok (snd mode) cmd)"

definition state_ok :: "reader_mode \<Rightarrow> redisReader \<Rightarrow> bool" where
  "state_ok mode r \<longleftrightarrow>
     (rr_state r = StateBulk \<longrightarrow>
        0 < rr_left r \<and> rr_left r \<le> rr_bulkLen r + 2 \<and> rr_bulkLen r \<le> redisBulkLimit) \<and>
     (rr_state r = StateInline \<longrightarrow> fst mode)"

definition keep_ok :: "bool \<Rightarrow> redisKeep \<Rightarrow> bool" where
  "keep_ok shown p \<longleftrightarrow> (kp_value p \<or> kp_message p \<longrightarrow> shown)"

definition body_ok :: "reader_mode \<Rightarrow> redisReader \<Rightarrow> bool" where
  "body_ok mode r \<longleftrightarrow>
     rr_request r = fst mode \<and> (rr_showSecrets r \<longrightarrow> snd mode) \<and> keep_ok (snd mode) (rr_policy r) \<and>
     length (rr_word r) = redisWordKeep \<and> length (rr_class r) = redisNameLimit \<and>
     rr_classLen r \<le> redisNameLimit \<and> list_all traceTextByteKept (take (rr_classLen r) (rr_class r)) \<and>
     frame_text_ok (snd mode) (rr_frame r) \<and> fr_command (rr_frame r) = None \<and> \<not> fr_lost (rr_frame r) \<and>
     length (rr_stack r) \<le> redisDepthLimit \<and> list_all level_ok (rr_stack r) \<and>
     rr_elemKeep r \<le> redisLineKeep \<and> int (length (rr_held r)) \<le> redisLineKeep \<and>
     rr_number r \<le> mathMaxInt \<and> decoder_ok (snd mode) (rr_command r)"

definition reader_ok :: "reader_mode \<Rightarrow> redisReader \<Rightarrow> bool" where
  "reader_ok mode r \<longleftrightarrow> body_ok mode r \<and> state_ok mode r"

lemmas reader_ok_defs = reader_ok_def body_ok_def state_ok_def

lemma reader_body [simp, intro]: "reader_ok q r \<Longrightarrow> body_ok q r"
  by (simp add: reader_ok_def)

definition result_ok :: "reader_mode \<Rightarrow> reader_result \<Rightarrow> bool" where
  "result_ok mode res \<longleftrightarrow>
     reader_ok mode (fst (snd res)) \<and> (\<forall>f. snd (snd res) = Some f \<longrightarrow> frame_ok mode f)"

lemma result_okI: "reader_ok q r \<Longrightarrow> (\<And>f. out = Some f \<Longrightarrow> frame_ok q f) \<Longrightarrow> result_ok q (ok, r, out)"
  by (simp add: result_ok_def)

lemma result_ok_None [simp]: "result_ok q (ok, r, None) = reader_ok q r"
  by (simp add: result_ok_def)

lemma decoder_ok_zero [simp]: "decoder_ok shown decoder0" "(show \<longrightarrow> shown) \<Longrightarrow> decoder_ok shown (decoder_start n show)"
  by (simp_all add: decoder_ok_def decoder0_def decoder_start_def)

lemma frame0_ok [simp]: "frame_text_ok shown frame0" "fr_command frame0 = None" "\<not> fr_lost frame0"
  by (simp_all add: frame0_def frame_text_ok_def head0_def)

lemma keep0_ok [simp]: "keep_ok shown keep0"
  by (simp add: keep_ok_def keep0_def)

lemma reader0_ok: "request = fst mode \<Longrightarrow> (show \<longrightarrow> snd mode) \<Longrightarrow> reader_ok mode (reader0 request show)"
  by (simp add: reader_ok_def body_ok_def reader0_def state_ok_def redis_limits)

lemma reset_ok: "body_ok q r \<Longrightarrow> reader_ok q (reader_reset r)"
  by (simp add: reader_reset_def body_ok_def [of q r] reader0_ok)

subsection \<open>The decoder\<close>

lemma want_le: "want d i \<le> redisLineKeep"
  by (simp add: want_def previewKeep_def redis_limits)

lemma upper_kept:
  assumes "name_byte b"
  shows "traceTextByteKept (ascii_upper b)"
proof -
  have b: "32 \<le> bval b" "bval b < 127" using assms by (auto simp: name_byte_def is_digit_def)
  have "bval (char_of (bval b - 32) :: byte) = bval b - 32" using b by (simp add: of_char_of)
  with b show ?thesis by (cases "97 \<le> bval b \<and> bval b \<le> 122") (auto simp: ascii_upper_def traceTextByteKept_def)
qed

lemma redisName_kept: "redisName raw len = Some name \<Longrightarrow> list_all traceTextByteKept name"
  by (auto simp: redisName_def list_all_iff upper_kept split: if_splits)

lemma space_kept: "traceTextByteKept (CHR '' '')"
  by (simp add: traceTextByteKept_def)

lemma decoder_ok_fields [simp]:
  "decoder_ok shown (d\<lparr>dc_container := w\<rparr>) = decoder_ok shown d" "decoder_ok shown (d\<lparr>dc_keyAt := i\<rparr>) = decoder_ok shown d"
  "decoder_ok shown (d\<lparr>dc_secretFrom := n\<rparr>) = decoder_ok shown d" "decoder_ok shown (d\<lparr>dc_helloSecret := n\<rparr>) = decoder_ok shown d"
  "decoder_ok shown (d\<lparr>dc_optionAt := n\<rparr>) = decoder_ok shown d" "decoder_ok shown (d\<lparr>dc_keys := w\<rparr>) = decoder_ok shown d"
  "decoder_ok shown (d\<lparr>dc_unsure := w\<rparr>) = decoder_ok shown d" "decoder_ok shown (d\<lparr>dc_proto := n\<rparr>) = decoder_ok shown d"
  "decoder_ok shown (d\<lparr>dc_reply := v\<rparr>) = decoder_ok shown d"
  by (simp_all add: decoder_ok_def)

lemma decoder_ok_named: "decoder_ok shown d \<Longrightarrow> list_all traceTextByteKept name \<Longrightarrow> decoder_ok shown (d\<lparr>dc_name := name\<rparr>)"
  by (simp add: decoder_ok_def)

lemma decoder_ok_name: "decoder_ok shown d \<Longrightarrow> decoder_ok shown (done_name kept len d)"
proof (cases "redisName kept len")
  case (Some name)
  assume "decoder_ok shown d"
  from decoder_ok_named [OF this redisName_kept [OF Some]]
  have "decoder_ok shown (d\<lparr>dc_name := name, dc_container := w\<rparr>)" for w by simp
  then show ?thesis by (auto simp: done_name_def Some Let_def split: option.split)
qed (simp add: done_name_def)

lemma decoder_ok_sub: "decoder_ok shown d \<Longrightarrow> decoder_ok shown (done_sub kept len d)"
proof (cases "redisName kept len")
  case (Some sub)
  assume d: "decoder_ok shown d"
  define d1 where "d1 = d\<lparr>dc_name := dc_name d @ '' '' @ sub\<rparr>"
  have "decoder_ok shown d1"
    unfolding d1_def using d redisName_kept [OF Some] by (intro decoder_ok_named) (simp_all add: decoder_ok_def space_kept)
  then show ?thesis
    unfolding done_sub_def Some option.case Let_def d1_def [symmetric] by (simp split: option.split)
qed (simp add: done_sub_def)

lemma decoder_ok_option: "decoder_ok shown d \<Longrightarrow> decoder_ok shown (snd (done_option i word len d))"
  by (simp add: done_option_def split: option.split)

lemma decoder_ok_keep: "decoder_ok shown d \<Longrightarrow> decoder_ok shown (done_keep i kept d)"
  by (auto simp: done_keep_def decoder_ok_def Let_def)

lemma decoder_done_ok: "decoder_ok shown d \<Longrightarrow> decoder_ok shown (decoder_done i kept len d)"
  using decoder_ok_option [of shown d i "if int (length kept) \<noteq> len then [] else kept" len]
  by (auto simp: decoder_done_def Let_def decoder_ok_name decoder_ok_sub decoder_ok_keep split: prod.split bool.split)

lemma argc_ok [simp]: "decoder_ok shown (argc n d) = decoder_ok shown d"
  by (simp add: argc_def decoder_ok_def)

lemma decoder_result_ok: "decoder_ok shown d \<Longrightarrow> command_ok shown (decoder_result inl d)"
  by (simp add: decoder_ok_def command_ok_def decoder_result_def Let_def safe_text_all_kept)

subsection \<open>Elements\<close>

lemma frame_text_fields [simp]:
  "frame_text_ok shown (f\<lparr>fr_null := w\<rparr>) = frame_text_ok shown f" "frame_text_ok shown (f\<lparr>fr_attr := w\<rparr>) = frame_text_ok shown f"
  "frame_text_ok shown (f\<lparr>fr_count := n\<rparr>) = frame_text_ok shown f" "frame_text_ok shown (f\<lparr>fr_kind := k\<rparr>) = frame_text_ok shown f"
  "frame_text_ok shown (f\<lparr>fr_bytes := n\<rparr>) = frame_text_ok shown f" "frame_text_ok shown (f\<lparr>fr_at := tm\<rparr>) = frame_text_ok shown f"
  "frame_text_ok shown (f\<lparr>fr_command := c\<rparr>) = frame_text_ok shown f" "frame_text_ok shown (f\<lparr>fr_monitor := w\<rparr>) = frame_text_ok shown f"
  "frame_text_ok shown (f\<lparr>fr_lost := w\<rparr>) = frame_text_ok shown f"
  by (simp_all add: frame_text_ok_def)

lemma holding_ok:
  "reader_ok q r \<Longrightarrow> reader_ok q (hold b r)"
  "reader_ok q r \<Longrightarrow> reader_ok q (holdBytes p r)"
  "reader_ok q r \<Longrightarrow> reader_ok q (dropHeld r)"
  by (auto simp: reader_ok_defs hold_def holdBytes_def dropHeld_def redisLineKeep_def Let_def)

lemma dropFrame_ok: "reader_ok q r \<Longrightarrow> reader_ok q (dropFrame r)"
  by (simp add: reader_ok_defs dropFrame_def)

lemma frameNull_ok: "reader_ok q r \<Longrightarrow> reader_ok q (frameNull r)"
  by (simp add: reader_ok_defs frameNull_def)

lemma pop_levels_ok:
  "pop_levels attribute stack = Inl rest \<Longrightarrow> list_all level_ok stack \<Longrightarrow>
   list_all level_ok rest \<and> length rest \<le> length stack"
  by (induction attribute stack rule: pop_levels.induct)
     (fastforce simp: level_ok_def Let_def split: if_splits)+

lemma finish_ok: "body_ok q r \<Longrightarrow> result_ok q (finish r)"
  using pop_levels_ok [of "rr_elemKind r = CHR ''|''" "rr_stack r"]
  by (auto simp: finish_def result_ok_def reader_ok_defs dropHeld_def dropFrame_def frame_ok_def
      decoder_result_ok Let_def split: sum.split)

lemma topScalar_ok:
  assumes "body_ok q r"
  shows "frame_text_ok (snd q) (topScalar kept len r)" "fr_command (topScalar kept len r) = None" "\<not> fr_lost (topScalar kept len r)"
proof -
  have f: "frame_text_ok (snd q) (rr_frame r)" "fr_command (rr_frame r) = None" "\<not> fr_lost (rr_frame r)"
    "keep_ok (snd q) (rr_policy r)" "safe_text (array_upto (rr_classLen r) (rr_class r))"
    "length (array_upto (rr_classLen r) (rr_class r)) \<le> redisNameLimit"
    and word: "length (rr_word r) = redisWordKeep"
    using assms by (simp_all add: body_ok_def safe_text_all_kept)
  have v: "frame_text_ok (snd q) (g\<lparr>fr_value := traceEscapeText kept\<rparr>)" "frame_text_ok (snd q) (g\<lparr>fr_message := traceEscapeText kept\<rparr>)"
    if "frame_text_ok (snd q) g" "snd q" for g
    using that by (simp_all add: frame_text_ok_def)
  have c: "frame_text_ok (snd q) (g\<lparr>fr_class := array_upto (rr_classLen r) (rr_class r)\<rparr>)" if "frame_text_ok (snd q) g" for g
    using that f(5,6) by (simp add: frame_text_ok_def)
  show "frame_text_ok (snd q) (topScalar kept len r)"
  proof (cases "rr_elemKind r \<in> set ''-!''")
    case True
    then show ?thesis using f v(2) c by (auto simp: topScalar_def Let_def keep_ok_def)
  next
    case False
    have w: "frame_text_ok (snd q) (g\<lparr>fr_word := array_upto (rr_wordLen r) (rr_word r)\<rparr>)"
      if "frame_text_ok (snd q) g" "rr_wordLen r \<le> redisWordKeep" for g
      using that word by (simp add: frame_text_ok_def)
    show ?thesis using f v(1) w False by (auto simp: topScalar_def Let_def keep_ok_def)
  qed
  show "fr_command (topScalar kept len r) = None" "\<not> fr_lost (topScalar kept len r)"
    using f by (simp_all add: topScalar_def Let_def)
qed

lemma set_head_ok:
  assumes "safe_text (hd_text h)" and "rr_elemIndex r < length (fr_heads (rr_frame r))"
  shows "body_ok q r \<Longrightarrow> body_ok q (set_head h r)" "reader_ok q r \<Longrightarrow> reader_ok q (set_head h r)"
proof -
  have "frame_text_ok shown f \<Longrightarrow> frame_text_ok shown (f\<lparr>fr_heads := array_set (fr_heads f) i h\<rparr>)"
    if "i < length (fr_heads f)" for shown f i
    using assms(1) that set_update_subset_insert [of "fr_heads f" i h] by (auto simp: frame_text_ok_def list_all_iff)
  then show "body_ok q r \<Longrightarrow> body_ok q (set_head h r)" "reader_ok q r \<Longrightarrow> reader_ok q (set_head h r)"
    using assms(2) by (simp_all add: reader_ok_defs set_head_def)
qed

lemma scalar_head_ok: "safe_text (hd_text (scalar_head kept len r))"
  by (simp add: scalar_head_def Let_def head0_def)

lemma finishScalar_ok:
  assumes "body_ok q r"
  shows "result_ok q (finishScalar kept len r)"
proof -
  have "body_ok q (r\<lparr>rr_command := decoder_done (rr_elemIndex r) kept len (rr_command r)\<rparr>)"
    using assms by (simp add: body_ok_def decoder_done_ok)
  moreover have "body_ok q (r\<lparr>rr_frame := topScalar kept len r\<rparr>)"
    using assms topScalar_ok [OF assms, of kept len] by (simp add: body_ok_def)
  moreover have "body_ok q x \<Longrightarrow> body_ok q (dropHeld x)" for x
    by (simp add: body_ok_def dropHeld_def redisLineKeep_def)
  ultimately show ?thesis
    by (simp add: finishScalar_def Let_def finish_ok set_head_ok scalar_head_ok assms)
qed

lemma scalar_ok: "reader_ok q r \<Longrightarrow> result_ok q (scalar r)"
  by (simp add: scalar_def Let_def finishScalar_ok frameNull_ok)

lemma keepFor_le: "keepFor b r \<le> redisLineKeep"
  using want_le by (simp add: keepFor_def redis_limits)

definition keeping :: "reader_mode \<Rightarrow> (byte \<Rightarrow> redisKeep option) \<Rightarrow> bool" where
  "keeping mode keep \<longleftrightarrow> (\<forall>b p. keep b = Some p \<longrightarrow> keep_ok (snd mode) p)"

lemma begin_place_ok: "reader_ok q r \<Longrightarrow> keeping q keep \<Longrightarrow> reader_ok q (begin_place keep b r)"
  by (cases "fst q") (simp_all add: reader_ok_defs begin_place_def keeping_def Let_def split: option.split)

lemma begin_element_ok: "reader_ok q r \<Longrightarrow> keeping q keep \<Longrightarrow> reader_ok q (begin_element keep b r)"
  using begin_place_ok [of q r keep b] keepFor_le [of b "begin_place keep b r"]
  by (simp add: reader_ok_defs begin_element_def Let_def mathMaxInt_def redisNameLimit_def)

subsection \<open>Lines\<close>

lemma digit_ok: "reader_ok q r \<Longrightarrow> reader_ok q (snd (digit b first r))"
proof -
  have shift: "n * 10 + d \<le> mathMaxInt" if "n \<le> (mathMaxInt - d) div 10" "d < 10" for n d
  proof -
    have "n * 10 \<le> mathMaxInt - d" using that(1) by linarith
    moreover have "10 \<le> mathMaxInt" by (simp add: mathMaxInt_def)
    ultimately show ?thesis using that(2) by linarith
  qed
  then have step: "n * 10 + bval b - 48 \<le> mathMaxInt"
    if "n \<le> (mathMaxInt + 48 - bval b) div 10" "48 \<le> bval b" "bval b \<le> 57" for n
    using that shift [of n "bval b - 48"] by simp
  then show "reader_ok q r \<Longrightarrow> reader_ok q (snd (digit b first r))"
    by (auto simp: reader_ok_defs digit_def is_digit_def not_less)
qed

lemma classify_ok: "reader_ok q r \<Longrightarrow> reader_ok q (classify b r)"
proof -
  have "list_all traceTextByteKept (take (Suc n) (xs[n := b]))"
    if "list_all traceTextByteKept (take n xs)" "n < length xs" "65 \<le> bval b" "bval b \<le> 90" for n xs
    using that by (simp add: take_Suc_conv_app_nth traceTextByteKept_def)
  then have "reader_ok q r \<Longrightarrow> reader_ok q (classify_error b r)" for r
    by (auto simp: reader_ok_defs classify_error_def)
  moreover have "reader_ok q r \<Longrightarrow> reader_ok q (classify_simple b r)" for r
    by (auto simp: reader_ok_defs classify_simple_def dropHeld_def Let_def redis_limits)
  ultimately show "reader_ok q r \<Longrightarrow> reader_ok q (classify b r)" by (simp add: classify_def)
qed

lemma open_aggregate_ok:
  assumes "reader_ok q r" and "n \<le> redisBulkLimit"
  shows "result_ok q (open_aggregate n r)"
proof -
  define at_top where "at_top \<longleftrightarrow> rr_elemDepth r = 0 \<and> \<not> rr_elemAttr r"
  define r1 where "r1 = (if at_top then r\<lparr>rr_frame := rr_frame r\<lparr>fr_count := n\<rparr>\<rparr> else r)"
  define r2 where "r2 = (if at_top \<and> rr_request r
                      then r1\<lparr>rr_command := decoder_start (int n) (rr_showSecrets r)\<rparr> else r1)"
  define r3 where "r3 = (if rr_elemDepth r = 1 \<and> \<not> rr_elemAttr r \<and> kp_heads (rr_policy r) \<and>
                         rr_elemIndex r < length (fr_heads (rr_frame r))
                      then set_head (head0\<lparr>hd_kind := rr_elemKind r, hd_integer := int n, hd_number := True\<rparr>) r2 else r2)"
  have r1: "reader_ok q r1" using assms by (simp add: r1_def reader_ok_defs)
  have "rr_showSecrets r \<longrightarrow> snd q" using assms(1) by (simp add: reader_ok_defs)
  with r1 have r2: "reader_ok q r2" by (simp add: r2_def reader_ok_defs)
  moreover have "fr_heads (rr_frame r2) = fr_heads (rr_frame r)" "rr_elemIndex r2 = rr_elemIndex r"
    by (simp_all add: r2_def r1_def)
  ultimately have r3: "reader_ok q r3" by (simp add: r3_def set_head_ok head0_def)
  have push: "reader_ok q (r3\<lparr>rr_stack := lvl # rr_stack r3, rr_state := StateType\<rparr>)"
    if "\<not> redisDepthLimit \<le> length (rr_stack r3)" "level_ok lvl" for lvl
    using r3 that by (simp add: reader_ok_defs)
  show ?thesis
    unfolding open_aggregate_def Let_def at_top_def [symmetric] r1_def [symmetric] r2_def [symmetric] r3_def [symmetric]
    using assms(2) by (auto simp: dropFrame_ok r1 r3 finish_ok intro!: push simp: level_ok_def)
qed

lemma null_length_ok: "reader_ok q r \<Longrightarrow> result_ok q (null_length r)"
  by (simp add: null_length_def dropFrame_ok finishScalar_ok frameNull_ok)

lemma lineEnd_ok:
  assumes "reader_ok q r"
  shows "result_ok q (lineEnd r)"
proof -
  have "reader_ok q (r\<lparr>rr_state := StateBulk, rr_left := rr_number r + 2, rr_bulkLen := rr_number r,
                 rr_classLen := 0, rr_classDone := 0\<rparr>)" if "\<not> redisBulkLimit < rr_number r"
    using assms that by (simp add: reader_ok_defs)
  then show ?thesis
    using assms by (simp add: lineEnd_def Let_def scalar_ok null_length_ok open_aggregate_ok)
qed

lemma line_ok:
  assumes "reader_ok q r"
  shows "result_ok q (line b r)"
proof -
  have cr: "reader_ok q (r\<lparr>rr_cr := c\<rparr>)" "reader_ok q (r\<lparr>rr_lineLen := n\<rparr>)" for c n
    using assms by (simp_all add: reader_ok_defs)
  show ?thesis
    using digit_ok [OF cr(2), of b]
    by (auto simp: line_def Let_def assms cr lineEnd_ok holding_ok classify_ok split: prod.split)
       (metis snd_conv)
qed

subsection \<open>Bulk bodies and inline requests\<close>

lemma classify_bulk_ok: "reader_ok q r \<Longrightarrow> reader_ok q (classify_bulk payload r)"
  unfolding classify_bulk_def by (induction payload arbitrary: r) (simp_all add: classify_ok)

lemma bulk_keep_ok:
  assumes "reader_ok q r"
  shows "reader_ok q (bulk_keep payload segment r)"
  using holding_ok(2) [OF assms, of payload] assms
  by (auto simp: bulk_keep_def Let_def reader_ok_defs)


text \<open>The body of a bulk: only when its last byte is read does the reader leave the bulk.\<close>

lemma bulk_reader_ok:
  assumes "reader_ok q r" and "n \<le> rr_left r"
  shows "body_ok q (snd (bulk visible n r))"
    and "fst (bulk visible n r) \<Longrightarrow> rr_left (snd (bulk visible n r)) = rr_left r - n"
    and "fst (bulk visible n r) \<Longrightarrow> n < rr_left r \<Longrightarrow> reader_ok q (snd (bulk visible n r))"
proof -
  define r1 where "r1 = classify_bulk (take (bulk_segment n r) visible)
     (bulk_keep (take (bulk_segment n r) visible) (bulk_segment n r) r)"
  have r1: "reader_ok q r1" unfolding r1_def by (intro classify_bulk_ok bulk_keep_ok assms)
  have same: "rr_state (classify_bulk p x) = rr_state x \<and> rr_bulkLen (classify_bulk p x) = rr_bulkLen x" for p x
    unfolding classify_bulk_def
    by (induction p arbitrary: x) (auto simp: classify_def classify_error_def classify_simple_def dropHeld_def Let_def)
  have keeps: "rr_state r1 = rr_state r" "rr_bulkLen r1 = rr_bulkLen r"
    unfolding r1_def using same by (auto simp: bulk_keep_def holdBytes_def Let_def)
  have b: "snd (bulk visible n r) = (if fst (bulk visible n r) then r1\<lparr>rr_left := rr_left r - n\<rparr> else r1)"
    by (simp add: bulk_def Let_def r1_def)
  show "body_ok q (snd (bulk visible n r))" using r1 unfolding b by (auto simp: reader_ok_def body_ok_def)
  show "rr_left (snd (bulk visible n r)) = rr_left r - n" if "fst (bulk visible n r)"
    using that unfolding b by simp
  show "reader_ok q (snd (bulk visible n r))" if "fst (bulk visible n r)" "n < rr_left r"
    using that r1 assms keeps unfolding b by (auto simp: reader_ok_def body_ok_def state_ok_def)
qed

lemma add_bytes_ok [simp]: "reader_ok q (add_bytes n r) = reader_ok q r" "body_ok q (add_bytes n r) = body_ok q r"
  by (simp_all add: reader_ok_defs add_bytes_def)

definition lost_ok :: "reader_mode \<Rightarrow> reader_result \<Rightarrow> bool" where
  "lost_ok mode res \<longleftrightarrow> (if fst res then result_ok mode res else body_ok mode (fst (snd res)))"

lemma lost_okI: "result_ok q res \<Longrightarrow> lost_ok q res"
  by (auto simp: lost_ok_def result_ok_def)

lemma add_bytes_fields [simp]:
  "rr_left (add_bytes n r) = rr_left r" "rr_held (add_bytes n r) = rr_held r"
  "rr_bulkLen (add_bytes n r) = rr_bulkLen r" "rr_state (add_bytes n r) = rr_state r"
  by (simp_all add: add_bytes_def)

lemma bulk_step_ok:
  assumes "reader_ok q r" and "n \<le> rr_left r"
  shows "lost_ok q (bulk_step visible n r)"
proof (cases "bulk visible n r")
  case (Pair ok r1)
  show ?thesis
  proof (cases "ok \<and> n < rr_left r")
    case True
    then have "reader_ok q r1" "rr_left r1 \<noteq> 0"
      using bulk_reader_ok [OF assms, of visible] Pair by auto
    then show ?thesis using True Pair by (simp add: bulk_step_def lost_ok_def Let_def)
  next
    case False
    have "body_ok q r1" using bulk_reader_ok(1) [OF assms, of visible] Pair by simp
    moreover have "ok \<Longrightarrow> rr_left r1 = 0"
      using bulk_reader_ok(2) [OF assms, of visible] Pair False assms(2) by auto
    ultimately show ?thesis
      using Pair by (cases ok) (simp_all add: bulk_step_def Let_def lost_okI finishScalar_ok, simp add: lost_ok_def)
  qed
qed

text \<open>Inline requests.\<close>

lemma emit_ok: "reader_ok q r \<Longrightarrow> reader_ok q (emit b r)"
  using holding_ok(1) [of q r b] by (simp add: reader_ok_defs emit_def)

lemma endWord_ok: "reader_ok q r \<Longrightarrow> reader_ok q (endWord r)"
  by (simp add: reader_ok_defs endWord_def dropHeld_def decoder_done_ok redis_limits)

lemma startWord_ok: "reader_ok q r \<Longrightarrow> reader_ok q (startWord r)"
  using want_le by (simp add: reader_ok_defs startWord_def)

text \<open>Fields that no part of the invariant looks at.\<close>

lemma quote_fields_ok [simp]:
  "reader_ok q (r\<lparr>rr_quote := c\<rparr>) = reader_ok q r" "reader_ok q (r\<lparr>rr_afterQuote := w\<rparr>) = reader_ok q r"
  "reader_ok q (r\<lparr>rr_quote := c, rr_afterQuote := w\<rparr>) = reader_ok q r"
  "reader_ok q (r\<lparr>rr_escape := n\<rparr>) = reader_ok q r" "reader_ok q (r\<lparr>rr_hex := c\<rparr>) = reader_ok q r"
  "reader_ok q (r\<lparr>rr_hex := c, rr_escape := n\<rparr>) = reader_ok q r"
  "reader_ok q (r\<lparr>rr_inlineNul := w\<rparr>) = reader_ok q r" "reader_ok q (r\<lparr>rr_lineLen := n\<rparr>) = reader_ok q r"
  by (simp_all add: reader_ok_defs)

lemma in_quotes_ok: "reader_ok q r \<Longrightarrow> reader_ok q (in_quotes b r)"
  by (simp add: in_quotes_def emit_ok)

lemma doubleQuoted_ok: "reader_ok q r \<Longrightarrow> reader_ok q (doubleQuoted b r)"
  by (simp add: doubleQuoted_def in_quotes_ok emit_ok Let_def split: option.split)

lemma singleQuoted_ok: "reader_ok q r \<Longrightarrow> reader_ok q (singleQuoted b r)"
  by (simp add: singleQuoted_def in_quotes_ok emit_ok Let_def)

lemma inline_plain_ok: "reader_ok q r \<Longrightarrow> reader_ok q (inline_plain b r)"
  by (simp add: inline_plain_def emit_ok endWord_ok startWord_ok Let_def)

lemma inline_end_ok:
  assumes "reader_ok q r" "fst q"
  shows "result_ok q (inline_end r)"
proof -
  define r1 where "r1 = (if 0 \<le> rr_elemKeep r then endWord r else r)"
  have r1: "reader_ok q r1" using assms by (simp add: r1_def endWord_ok)
  then have "reader_ok q (r1\<lparr>rr_command := argc n (rr_command r1)\<rparr>)" for n
    by (simp add: reader_ok_defs)
  moreover have "frame_ok q (rr_frame r1\<lparr>fr_kind := k, fr_command := Some (decoder_result True (argc n (rr_command r1)))\<rparr>)" for k n
    using r1 assms(2) by (simp add: frame_ok_def reader_ok_def body_ok_def decoder_result_ok)
  ultimately show ?thesis
    unfolding inline_end_def Let_def r1_def [symmetric]
    using r1 by (simp add: assms dropFrame_ok) (auto intro!: result_okI dropFrame_ok)
qed

lemma inline_ok: "reader_ok q r \<Longrightarrow> fst q \<Longrightarrow> result_ok q (inline b r)"
  by (simp add: inline_def Let_def inline_end_ok doubleQuoted_ok singleQuoted_ok inline_plain_ok endWord_ok)

lemma inline_start_ok: "reader_ok q r \<Longrightarrow> fst q \<Longrightarrow> reader_ok q (inline_start r)"
  by (simp add: inline_start_def reader_ok_defs redis_limits)

lemma reader_begin_ok:
  assumes "reader_ok q r" and "keeping q keep"
  shows "result_ok q (reader_begin keep b r)"
proof -
  have "rr_request r = fst q" using assms(1) by (simp add: reader_ok_def body_ok_def)
  then show ?thesis
    using inline_ok [of q "inline_start r" b] inline_start_ok [of q r] begin_element_ok [OF assms, of b] assms(1)
    by (auto simp: reader_begin_def Let_def)
qed

subsection \<open>Feeding\<close>

lemma lost_frame_ok: "body_ok q r \<Longrightarrow> lost_frame r = Some f \<Longrightarrow> frame_ok q f"
  by (auto simp: lost_frame_def frame_ok_def body_ok_def decoder_result_ok split: if_splits)

lemma byte_step_ok:
  assumes "reader_ok q r" and "keeping q keep"
  shows "result_ok q (byte_step keep tm b r)"
proof -
  have "reader_ok q (r\<lparr>rr_inFrame := True, rr_frame := frame0\<lparr>fr_at := tm\<rparr>\<rparr>)"
    using assms by (simp add: reader_ok_defs)
  moreover have "rr_state r = StateInline \<Longrightarrow> fst q" using assms by (simp add: reader_ok_defs)
  ultimately show ?thesis
    using assms inline_ok [of q "add_bytes 1 r" b]
    by (cases "rr_state r") (auto simp: byte_step_def reader_begin_ok line_ok Let_def)
qed

text \<open>
  Feeding keeps the invariant, and hands to the callback only frames of the right form: whatever
  the callback keeps for such frames (\<open>S\<close>) is kept by a feed.
\<close>

definition frames_keep :: "reader_mode \<Rightarrow> ('s \<Rightarrow> bool) \<Rightarrow> (redisFrame \<Rightarrow> 's \<Rightarrow> 's) \<Rightarrow> bool" where
  "frames_keep q S frame \<longleftrightarrow> (\<forall>f s. frame_ok q f \<longrightarrow> S s \<longrightarrow> S (frame f s))"

lemma notify_keeps:
  "frames_keep q S frame \<Longrightarrow> S s \<Longrightarrow> \<forall>f. out = Some f \<longrightarrow> frame_ok q f \<Longrightarrow> S (notify frame out s)"
  by (simp add: notify_def frames_keep_def split: option.split)

lemma reader_lose_ok:
  assumes "body_ok q r" and "S s" and "frames_keep q S frame"
  shows "reader_ok q (fst (snd (reader_lose frame r s)))" "S (snd (snd (reader_lose frame r s)))"
  using assms lost_frame_ok [OF assms(1)] by (simp_all add: reader_lose_def reset_ok notify_keeps)

lemma redis_feed_step_ok:
  assumes r: "reader_ok q r" and s: "S s" and frames: "frames_keep q S frame" and keep: "\<forall>s. S s \<longrightarrow> keeping q (keep s)"
  shows "case redis_feed_step frame keep tm data sz r s of
       Inl res \<Rightarrow> reader_ok q (fst (snd res)) \<and> S (snd (snd res))
     | Inr (data1, sz1, r1, s1) \<Rightarrow> reader_ok q r1 \<and> S s1"
proof (cases "rr_state r = StateBulk")
  case True
  have "lost_ok q (bulk_step (take (min (rr_left r) sz) data) (min (rr_left r) sz) r)"
    by (rule bulk_step_ok [OF r]) simp
  then show ?thesis
    using s frames
    by (auto simp: redis_feed_step_bulk [OF True] lost_ok_def result_ok_def reader_lose_ok notify_keeps
        split: prod.split)
next
  case False
  show ?thesis
  proof (cases data)
    case Nil
    then show ?thesis
      using reader_lose_ok [OF reader_body [OF r] s frames] by (simp add: redis_feed_step_blind [OF False])
  next
    case (Cons b rest)
    have "result_ok q (byte_step (keep s) tm b r)" by (rule byte_step_ok [OF r]) (use s keep in simp)
    then show ?thesis
      using s frames
      by (auto simp: Cons redis_feed_step_byte [OF False] result_ok_def reader_lose_ok(1)
          reader_lose_ok(2) [where q = q] notify_keeps split: prod.split)
  qed
qed

lemma redis_feed_loop_ok:
  assumes "reader_ok q r" and "S s" and frames: "frames_keep q S frame" and "\<forall>s. S s \<longrightarrow> keeping q (keep s)"
  shows "reader_ok q (fst (snd (redis_feed_loop frame keep tm data sz r s))) \<and>
    S (snd (snd (redis_feed_loop frame keep tm data sz r s)))"
  using assms
proof (induction frame keep tm data sz r s rule: redis_feed_loop.induct)
  case (1 frame keep tm data sz r s)
  show ?case
  proof (cases "sz = 0")
    case True
    then show ?thesis using 1(2,3) by (simp add: redis_feed_loop.simps)
  next
    case False
    then show ?thesis
      using redis_feed_step_ok [OF 1(2-5), of tm data sz] 1(1) 1(4,5)
      by (auto simp: redis_feed_loop.simps [of frame keep tm data sz r s] split: sum.split prod.split)
  qed
qed

lemma redis_feed_ok:
  "reader_ok q r \<Longrightarrow> S s \<Longrightarrow> frames_keep q S frame \<Longrightarrow> \<forall>s. S s \<longrightarrow> keeping q (keep s) \<Longrightarrow> redis_feed frame keep data n tm r s = (ok, r1, s1) \<Longrightarrow>
   reader_ok q r1 \<and> S s1"
  using redis_feed_loop_ok [of q r S s frame keep tm data "max n (length data)"]
  by (simp add: redis_feed_def)

subsection \<open>The loop ends\<close>

text \<open>The loop of \<open>feed\<close> cut off after a number of passes.\<close>

fun redis_feed_passes ::
  "nat \<Rightarrow> (redisFrame \<Rightarrow> 's \<Rightarrow> 's) \<Rightarrow> ('s \<Rightarrow> byte \<Rightarrow> redisKeep option) \<Rightarrow> u64 \<Rightarrow> bytes \<Rightarrow> nat \<Rightarrow> redisReader \<Rightarrow> 's \<Rightarrow>
   (bool \<times> redisReader \<times> 's) option" where
  "redis_feed_passes passes frame keep tm data sz r s =
     (if sz = 0 then Some (True, r, s)
      else
        (case passes of
           0 \<Rightarrow> None
         | Suc fuel \<Rightarrow>
             (case redis_feed_step frame keep tm data sz r s of
                Inl result \<Rightarrow> Some result
              | Inr (data1, sz1, r1, s1) \<Rightarrow> redis_feed_passes fuel frame keep tm data1 sz1 r1 s1)))"

declare redis_feed_passes.simps [simp del]

lemma redis_feed_passes_enough:
  "feed_rank sz r \<le> passes \<Longrightarrow>
   redis_feed_passes passes frame keep tm data sz r s = Some (redis_feed_loop frame keep tm data sz r s)"
proof (induction frame keep tm data sz r s arbitrary: passes rule: redis_feed_loop.induct)
  case (1 frame keep tm data sz r s)
  show ?case
  proof (cases "sz = 0")
    case True
    then show ?thesis by (subst redis_feed_passes.simps, subst redis_feed_loop.simps) simp
  next
    case False
    then obtain fuel where fuel: "passes = Suc fuel"
      using 1(2) by (cases passes) (simp_all add: feed_rank_def)
    show ?thesis
    proof (cases "redis_feed_step frame keep tm data sz r s")
      case (Inl res)
      then show ?thesis
        unfolding fuel using False by (subst redis_feed_passes.simps, subst redis_feed_loop.simps) simp
    next
      case (Inr pass)
      obtain data1 sz1 r1 s1 where n: "pass = (data1, sz1, r1, s1)" by (cases pass) auto
      have "feed_rank sz1 r1 \<le> fuel"
        using redis_feed_step_progress [of frame keep tm data sz r s data1 sz1 r1 s1] Inr n False 1(2) fuel by simp
      then show ?thesis
        unfolding fuel using 1(1) False Inr n by (subst redis_feed_passes.simps, subst redis_feed_loop.simps) simp
    qed
  qed
qed

subsection \<open>How the stream is cut\<close>

text \<open>
  What a caller gets from a reader is the sequence of its frames. Of a request that is lost in the
  middle of a bulk body the count of bytes depends on how the body was cut; \<open>frame_view\<close> leaves it out.
\<close>

definition frame_view :: "redisFrame \<Rightarrow> redisFrame" where
  "frame_view f = (if fr_lost f then f\<lparr>fr_bytes := 0\<rparr> else f)"

definition redis_log :: "redisFrame \<Rightarrow> redisFrame list \<Rightarrow> redisFrame list" where
  "redis_log f frames = frames @ [frame_view f]"

text \<open>What a reader that fails is asked for.\<close>

definition lose_view :: "redisReader \<Rightarrow> bool \<times> bool \<times> bool \<times> redisDecoder \<times> u64 \<times> redisState" where
  "lose_view r = (rr_request r, rr_showSecrets r, rr_inFrame r, rr_command r, fr_at (rr_frame r), rr_state r)"

lemma reader_lose_view:
  "lose_view r = lose_view t \<Longrightarrow> reader_lose redis_log r frames = reader_lose redis_log t frames"
  by (auto simp: reader_lose_def lose_view_def reader_reset_def lost_frame_def notify_def redis_log_def
      frame_view_def)

subsubsection \<open>A bulk body in two pieces\<close>

text \<open>With every byte captured, a piece of a body is held and classified.\<close>

definition body_read :: "bytes \<Rightarrow> redisReader \<Rightarrow> redisReader" where
  "body_read p r =
     (let held = rr_held r @ take (nat (rr_elemKeep r - int (length (rr_held r)))) p in
      (if rr_elemKind r = CHR ''!'' then fold classify_error p r else r)\<lparr>rr_held := held\<rparr>)"

lemma classify_error_fields [simp]:
  "rr_held (classify_error b r) = rr_held r" "rr_elemKeep (classify_error b r) = rr_elemKeep r"
  "rr_elemKind (classify_error b r) = rr_elemKind r" "rr_left (classify_error b r) = rr_left r"
  "rr_bulkLen (classify_error b r) = rr_bulkLen r" "rr_frame (classify_error b r) = rr_frame r"
  "lose_view (classify_error b r) = lose_view r"
  by (simp_all add: classify_error_def lose_view_def)

lemma classify_error_commute:
  "classify_error b (r\<lparr>rr_held := h\<rparr>) = classify_error b r\<lparr>rr_held := h\<rparr>"
  "classify_error b (r\<lparr>rr_left := n\<rparr>) = classify_error b r\<lparr>rr_left := n\<rparr>"
  "classify_error b (r\<lparr>rr_frame := f\<rparr>) = classify_error b r\<lparr>rr_frame := f\<rparr>"
  by (simp_all add: classify_error_def)

lemma fold_classify_fields [simp]:
  "rr_held (fold classify_error p r) = rr_held r" "rr_elemKeep (fold classify_error p r) = rr_elemKeep r"
  "rr_elemKind (fold classify_error p r) = rr_elemKind r" "rr_left (fold classify_error p r) = rr_left r"
  "rr_bulkLen (fold classify_error p r) = rr_bulkLen r" "rr_frame (fold classify_error p r) = rr_frame r"
  "lose_view (fold classify_error p r) = lose_view r"
  by (induction p arbitrary: r) simp_all

lemma fold_classify_commute:
  "fold classify_error p (r\<lparr>rr_held := h\<rparr>) = fold classify_error p r\<lparr>rr_held := h\<rparr>"
  "fold classify_error p (r\<lparr>rr_left := n\<rparr>) = fold classify_error p r\<lparr>rr_left := n\<rparr>"
  "fold classify_error p (r\<lparr>rr_frame := f\<rparr>) = fold classify_error p r\<lparr>rr_frame := f\<rparr>"
  by (induction p arbitrary: r) (simp_all add: classify_error_commute)

lemma classify_bulk_error:
  "classify_bulk p r = (if rr_elemKind r = CHR ''!'' then fold classify_error p r else r)"
  unfolding classify_bulk_def
  by (induction p arbitrary: r) (auto simp: classify_def classify_simple_def classify_error_def)

lemma bulk_keep_whole:
  "bulk_keep p (length p) r =
     r\<lparr>rr_held := rr_held r @ take (nat (rr_elemKeep r - int (length (rr_held r)))) p\<rparr>"
proof -
  have "take (nat (min (int (length p)) (rr_elemKeep r - int (length (rr_held r))))) p =
      take (nat (rr_elemKeep r - int (length (rr_held r)))) p"
    by (cases "int (length p) \<le> rr_elemKeep r - int (length (rr_held r))") (simp_all add: min_def)
  then show ?thesis by (auto simp: bulk_keep_def holdBytes_def Let_def min_def)
qed

lemma body_read_whole: "classify_bulk p (bulk_keep p (length p) r) = body_read p r"
  by (simp add: classify_bulk_error bulk_keep_whole body_read_def Let_def fold_classify_commute)

lemma body_read_append: "body_read (p @ p') r = body_read p' (body_read p r)"
proof -
  define k where "k = nat (rr_elemKeep r - int (length (rr_held r)))"
  have "take k (p @ p') = take k p @ take (k - length p) p'" by simp
  moreover have "nat (rr_elemKeep r - int (length (rr_held r @ take k p))) =
      (if length p \<le> k then k - length p else 0)"
    by (simp add: k_def min_def) linarith
  ultimately show ?thesis
    by (simp add: body_read_def Let_def fold_classify_commute k_def [symmetric])
qed

lemma bulk_tail_append:
  "bulk_tail_ok len off (xs @ ys) \<longleftrightarrow> bulk_tail_ok len off xs \<and> bulk_tail_ok len (off + length xs) ys"
proof -
  define P where "P i b \<longleftrightarrow> (i = len \<longrightarrow> b = CHR 0x0D) \<and> (i = len + 1 \<longrightarrow> b = CHR 0x0A)" for i b
  have t: "bulk_tail_ok len z zs \<longleftrightarrow> (\<forall>i < length zs. P (z + i) (zs ! i))" for z zs
    by (auto simp: bulk_tail_ok_def P_def)
  have "(\<forall>i < length (xs @ ys). P (off + i) ((xs @ ys) ! i)) \<longleftrightarrow>
      (\<forall>i < length xs. P (off + i) (xs ! i)) \<and> (\<forall>i < length ys. P (off + length xs + i) (ys ! i))"
    (is "?all \<longleftrightarrow> ?left \<and> ?right")
  proof (intro iffI conjI allI impI)
    fix i assume ?all and "i < length xs"
    then show "P (off + i) (xs ! i)" by (auto dest!: spec [of _ i] simp: nth_append)
  next
    fix i assume ?all and "i < length ys"
    then show "P (off + length xs + i) (ys ! i)"
      by (auto dest!: spec [of _ "length xs + i"] simp: nth_append add.assoc)
  next
    fix i assume "?left \<and> ?right" and "i < length (xs @ ys)"
    then show "P (off + i) ((xs @ ys) ! i)"
      by (cases "i < length xs") (auto simp: nth_append dest!: spec [of _ "i - length xs"])
  qed
  then show ?thesis by (simp add: t)
qed

lemma bulk_body:
  "length v \<le> rr_left r \<Longrightarrow> rr_left r \<le> rr_bulkLen r + 2 \<Longrightarrow>
   bulk v (length v) r =
     (let p = take (rr_bulkLen r - bulk_offset r) v;
          ok = bulk_tail_ok (rr_bulkLen r) (bulk_offset r + length p) (drop (length p) v)
      in (ok, if ok then body_read p r\<lparr>rr_left := rr_left r - length v\<rparr> else body_read p r))"
proof -
  have seg: "take (bulk_segment (length v) r) v = take (rr_bulkLen r - bulk_offset r) v"
    and len: "bulk_segment (length v) r = length (take (rr_bulkLen r - bulk_offset r) v)"
    by (auto simp: bulk_segment_def min_def)
  show ?thesis
    unfolding bulk_def Let_def seg using len body_read_whole [of "take (rr_bulkLen r - bulk_offset r) v" r] by simp
qed

lemma lose_view_other [simp]:
  "lose_view (r\<lparr>rr_held := h\<rparr>) = lose_view r" "lose_view (r\<lparr>rr_left := n\<rparr>) = lose_view r"
  "lose_view (add_bytes m r) = lose_view r"
  by (simp_all add: lose_view_def add_bytes_def)

lemma body_read_fields [simp]:
  "rr_left (body_read p r) = rr_left r" "rr_bulkLen (body_read p r) = rr_bulkLen r"
  "lose_view (body_read p r) = lose_view r"
  by (simp_all add: body_read_def Let_def)

lemma body_read_left: "body_read p (r\<lparr>rr_left := n\<rparr>) = body_read p r\<lparr>rr_left := n\<rparr>"
  by (simp add: body_read_def Let_def fold_classify_commute)

lemma body_read_bytes: "body_read p (add_bytes n r) = add_bytes n (body_read p r)"
  by (simp add: body_read_def Let_def fold_classify_commute add_bytes_def)

lemma add_bytes_left: "add_bytes n r\<lparr>rr_left := m\<rparr> = add_bytes n (r\<lparr>rr_left := m\<rparr>)"
  by (simp add: add_bytes_def)

lemma add_bytes_twice: "add_bytes n (add_bytes m r) = add_bytes (m + n) r"
  by (simp add: add_bytes_def add.assoc)

text \<open>A piece of a body that does not end it, then the next piece.\<close>

lemma bulk_step_two:
  assumes less: "length xs < rr_left r" and room: "rr_left r \<le> rr_bulkLen r + 2"
    and fit: "length ys \<le> rr_left r - length xs"
  shows "case bulk_step xs (length xs) r of (ok1, r1, out1) \<Rightarrow>
      out1 = None \<and> rr_left r1 = (if ok1 then rr_left r - length xs else rr_left r) \<and>
      rr_bulkLen r1 = rr_bulkLen r \<and> lose_view r1 = lose_view r \<and>
      (if ok1 then bulk_step (xs @ ys) (length (xs @ ys)) r = bulk_step ys (length ys) r1 \<or>
           (\<exists>r2 r3. bulk_step (xs @ ys) (length (xs @ ys)) r = (False, r2, None) \<and>
              bulk_step ys (length ys) r1 = (False, r3, None) \<and> lose_view r2 = lose_view r3)
       else (\<exists>r2. bulk_step (xs @ ys) (length (xs @ ys)) r = (False, r2, None) \<and> lose_view r2 = lose_view r))"
proof -
  define len off where "len = rr_bulkLen r" and "off = bulk_offset r"
  define p p' where "p = take (len - off) xs" and "p' = take (len - (off + length xs)) ys"
  define ok1 where "ok1 = bulk_tail_ok len (off + length p) (drop (length p) xs)"
  define ok2 where "ok2 = bulk_tail_ok len (off + length xs + length p') (drop (length p') ys)"
  have take: "take (len - off) (xs @ ys) = p @ p'"
    by (simp add: p_def p'_def diff_diff_left)
  have drop: "drop (length (p @ p')) (xs @ ys) = drop (length p) xs @ drop (length p') ys"
    by (auto simp: p_def p'_def min_def)
  have one: "bulk xs (length xs) r =
      (ok1, if ok1 then body_read p r\<lparr>rr_left := rr_left r - length xs\<rparr> else body_read p r)"
    using bulk_body [of xs r] less room by (simp add: Let_def ok1_def p_def len_def off_def)
  have tail: "bulk_tail_ok len (off + length (p @ p')) (drop (length (p @ p')) (xs @ ys)) \<longleftrightarrow> ok1 \<and> ok2"
  proof (cases "drop (length p) xs = []")
    case True
    then have "length p = length xs" by (auto simp: p_def min_def split: if_splits)
    with True show ?thesis by (simp add: drop bulk_tail_append ok1_def ok2_def bulk_tail_ok_def add.assoc)
  next
    case False
    then have "p' = []" "length p < length xs" by (auto simp: p_def p'_def min_def split: if_splits)
    then show ?thesis by (simp add: drop bulk_tail_append ok1_def ok2_def)
  qed
  have both: "bulk (xs @ ys) (length (xs @ ys)) r =
      (ok1 \<and> ok2, if ok1 \<and> ok2 then body_read (p @ p') r\<lparr>rr_left := rr_left r - length (xs @ ys)\<rparr>
                  else body_read (p @ p') r)"
    using bulk_body [of "xs @ ys" r] less fit room
    by (simp add: Let_def tail [symmetric] take [symmetric] len_def [symmetric] off_def [symmetric] del: take_append)
  show ?thesis
  proof (cases ok1)
    case False
    then have "bulk_step xs (length xs) r = (False, body_read p r, None)"
      "bulk_step (xs @ ys) (length (xs @ ys)) r = (False, body_read (p @ p') r, None)"
      unfolding bulk_step_def one both by simp_all
    then show ?thesis by simp
  next
    case True
    define r1 where "r1 = add_bytes (length xs) (body_read p r\<lparr>rr_left := rr_left r - length xs\<rparr>)"
    have first: "bulk_step xs (length xs) r = (True, r1, None)"
      using True less by (simp add: bulk_step_def one r1_def Let_def)
    have r1: "rr_left r1 = rr_left r - length xs" "rr_bulkLen r1 = len" "lose_view r1 = lose_view r"
      by (simp_all add: r1_def len_def)
    have off1: "bulk_offset r1 = off + length xs"
      using less room by (simp add: bulk_offset_def r1 off_def len_def)
    have read: "body_read p' r1 = add_bytes (length xs) (body_read (p @ p') r\<lparr>rr_left := rr_left r - length xs\<rparr>)"
      by (simp add: r1_def body_read_bytes body_read_left body_read_append)
    have two: "bulk ys (length ys) r1 =
        (ok2, if ok2 then body_read p' r1\<lparr>rr_left := rr_left r - length xs - length ys\<rparr> else body_read p' r1)"
      using bulk_body [of ys r1] fit room less by (simp add: r1 off1 Let_def ok2_def p'_def len_def)
    show ?thesis
    proof (cases ok2)
      case ok: True
      have "bulk_step (xs @ ys) (length (xs @ ys)) r = bulk_step ys (length ys) r1"
        unfolding bulk_step_def both two using True ok
        by (simp add: read add_bytes_left add_bytes_twice diff_diff_left)
      then show ?thesis by (simp add: first r1 True len_def)
    next
      case no: False
      have "bulk_step (xs @ ys) (length (xs @ ys)) r = (False, body_read (p @ p') r, None)"
        "bulk_step ys (length ys) r1 = (False, body_read p' r1, None)"
        unfolding bulk_step_def both two using True no by simp_all
      moreover have "lose_view (body_read (p @ p') r) = lose_view (body_read p' r1)" by (simp add: r1)
      ultimately show ?thesis by (simp add: first r1 True len_def)
    qed
  qed
qed

lemma loop_stops:
  "redis_feed_step frame keep tm data sz r s = Inl res \<Longrightarrow> sz \<noteq> 0 \<Longrightarrow>
   redis_feed_loop frame keep tm data sz r s = res"
  by (subst redis_feed_loop.simps) simp

lemma loop_goes_on:
  "redis_feed_step frame keep tm data sz r s = Inr (data1, sz1, r1, s1) \<Longrightarrow> sz \<noteq> 0 \<Longrightarrow>
   redis_feed_loop frame keep tm data sz r s = redis_feed_loop frame keep tm data1 sz1 r1 s1"
  by (subst redis_feed_loop.simps) simp

lemma loop_empty: "redis_feed_loop frame keep tm data 0 r s = (True, r, s)"
  by (subst redis_feed_loop.simps) simp

text \<open>The loop on two pieces, all of whose bytes are captured.\<close>

abbreviation read_two where
  "read_two keep tm xs ys r fs \<equiv>
     (case redis_feed_loop redis_log keep tm xs (length xs) r fs of (ok, r1, fs1) \<Rightarrow>
        if ok then redis_feed_loop redis_log keep tm ys (length ys) r1 fs1 else (False, r1, fs1))"

lemma read_two_bulk:
  assumes r: "reader_ok q r" and bulk: "rr_state r = StateBulk" and less: "length xs < rr_left r" and xs: "xs \<noteq> []"
  shows "redis_feed_loop redis_log keep tm (xs @ ys) (length (xs @ ys)) r fs = read_two keep tm xs ys r fs"
proof -
  have room: "rr_left r \<le> rr_bulkLen r + 2" using r bulk by (simp add: reader_ok_defs)
  define n where "n = min (rr_left r - length xs) (length ys)"
  have n: "min (rr_left r) (length (xs @ ys)) = length xs + n" "n \<le> length ys"
    using less by (auto simp: n_def min_def)
  obtain ok1 r1 out1 where one: "bulk_step xs (length xs) r = (ok1, r1, out1)"
    by (cases "bulk_step xs (length xs) r") auto
  have fit: "length (take n ys) \<le> rr_left r - length xs" by (simp add: n_def)
  note two = bulk_step_two [OF less room fit, unfolded one]
  have m: "min (rr_left r) (length xs) = length xs" using less by simp
  define a where "a = bulk_step (xs @ take n ys) (length (xs @ take n ys)) r"
  have left: "redis_feed_step redis_log keep tm (xs @ ys) (length (xs @ ys)) r fs =
      (case a of (ok, r1, out) \<Rightarrow>
         if ok then Inr (drop n ys, length ys - n, r1, notify redis_log out fs) else Inl (reader_lose redis_log r1 fs))"
    unfolding redis_feed_step_bulk [OF bulk] n using n(2) by (simp add: a_def min_absorb2 split: prod.split)
  have first: "redis_feed_step redis_log keep tm xs (length xs) r fs =
      (if ok1 then Inr ([], 0, r1, fs) else Inl (reader_lose redis_log r1 fs))"
    using two by (simp add: redis_feed_step_bulk [OF bulk] m one notify_def)
  show ?thesis
  proof (cases ok1)
    case False
    obtain r2 where "a = (False, r2, None)" "lose_view r2 = lose_view r1"
      using two False by (auto simp: a_def)
    then have "redis_feed_loop redis_log keep tm (xs @ ys) (length (xs @ ys)) r fs = reader_lose redis_log r1 fs"
      using left xs reader_lose_view [of r2 r1 fs] by (intro loop_stops) simp_all
    moreover have "redis_feed_loop redis_log keep tm xs (length xs) r fs = reader_lose redis_log r1 fs"
      using first False xs by (intro loop_stops) simp_all
    ultimately show ?thesis by (simp add: reader_lose_def)
  next
    case True
    have r1: "rr_state r1 = StateBulk" "rr_left r1 = rr_left r - length xs"
      using two True bulk by (auto simp: lose_view_def)
    show ?thesis
    proof (cases "ys = []")
      case True
      then show ?thesis using \<open>ok1\<close> xs by (simp add: loop_goes_on first loop_empty)
    next
      case False
      have right: "redis_feed_step redis_log keep tm ys (length ys) r1 fs =
          (case bulk_step (take n ys) n r1 of (ok, r2, out) \<Rightarrow>
             if ok then Inr (drop n ys, length ys - n, r2, notify redis_log out fs) else Inl (reader_lose redis_log r2 fs))"
        by (simp add: redis_feed_step_bulk [OF r1(1)] r1(2) n_def [symmetric] split: prod.split)
      consider (same) "a = bulk_step (take n ys) n r1"
        | (lost) r2 r3 where "a = (False, r2, None)" "bulk_step (take n ys) n r1 = (False, r3, None)" "lose_view r2 = lose_view r3"
        using two True by (auto simp: a_def n(2))
      then have "redis_feed_step redis_log keep tm (xs @ ys) (length (xs @ ys)) r fs =
          redis_feed_step redis_log keep tm ys (length ys) r1 fs"
        unfolding left right by cases (auto intro: reader_lose_view)
      then have "redis_feed_loop redis_log keep tm (xs @ ys) (length (xs @ ys)) r fs =
          redis_feed_loop redis_log keep tm ys (length ys) r1 fs"
        using False xs by (subst (1 2) redis_feed_loop.simps) simp
      then show ?thesis using True xs by (simp add: loop_goes_on [OF first [unfolded if_P [OF True]]] loop_empty)
    qed
  qed
qed

lemma redis_feed_loop_two:
  assumes "reader_ok q r" and q: "snd q"
  shows "redis_feed_loop redis_log keep tm (xs @ ys) (length (xs @ ys)) r fs = read_two keep tm xs ys r fs"
  using assms(1)
proof (induction "feed_rank (length xs) r" arbitrary: xs r fs rule: less_induct)
  case less
  have r: "reader_ok q r" by (rule less.prems)
  show ?case
  proof (cases xs)
    case Nil
    then show ?thesis by (simp add: loop_empty)
  next
    case (Cons x rest)
    show ?thesis
    proof (cases "rr_state r = StateBulk")
      case False
      obtain ok r1 out where b: "byte_step (keep fs) tm x r = (ok, r1, out)"
        by (cases "byte_step (keep fs) tm x r") auto
      have "reader_ok q r1" using byte_step_ok [OF r, of "keep fs" tm x] b q by (simp add: result_ok_def keeping_def keep_ok_def)
      moreover have "feed_rank (length rest) r1 < feed_rank (length xs) r"
        using Cons by (simp add: feed_rank_def)
      ultimately have IH: "redis_feed_loop redis_log keep tm (rest @ ys) (length (rest @ ys)) r1 fs' =
          read_two keep tm rest ys r1 fs'" for fs'
        by (intro less.hyps)
      show ?thesis
      proof (cases ok)
        case True
        then show ?thesis
          using IH by (simp add: Cons loop_goes_on redis_feed_step_byte [OF False] b)
      next
        case no: False
        then show ?thesis
          by (simp add: Cons loop_stops redis_feed_step_byte [OF False] b reader_lose_def)
      qed
    next
      case bulk: True
      show ?thesis
      proof (cases "length xs < rr_left r")
        case True
        then show ?thesis by (rule read_two_bulk [OF r bulk]) (simp add: Cons)
      next
        case False
        define n where "n = rr_left r"
        have n: "n \<le> length xs" "rr_left r = n" "n \<noteq> 0" using False r bulk by (simp_all add: n_def reader_ok_defs)
        obtain ok r1 out where b: "bulk_step (take n xs) n r = (ok, r1, out)"
          by (cases "bulk_step (take n xs) n r") auto
        have "lost_ok q (bulk_step (take n xs) n r)" by (rule bulk_step_ok [OF r]) (simp add: n)
        with b have r1: "ok \<Longrightarrow> reader_ok q r1" by (simp add: lost_ok_def result_ok_def)
        have "feed_rank (length (drop n xs)) r1 < feed_rank (length xs) r"
          using n Cons by (auto simp: feed_rank_def bulk)
        then have IH: "ok \<Longrightarrow> redis_feed_loop redis_log keep tm (drop n xs @ ys) (length (drop n xs @ ys)) r1 fs' =
            read_two keep tm (drop n xs) ys r1 fs'" for fs'
          by (intro less.hyps r1)
        have step: "redis_feed_step redis_log keep tm (xs @ zs) (length (xs @ zs)) r fs =
            (if ok then Inr (drop n xs @ zs, length (drop n xs @ zs), r1, notify redis_log out fs)
             else Inl (reader_lose redis_log r1 fs))" for zs
          using n b by (simp add: redis_feed_step_bulk [OF bulk] min_absorb1)
        show ?thesis
        proof (cases ok)
          case True
          have goes: "redis_feed_loop redis_log keep tm (xs @ zs) (length (xs @ zs)) r fs =
              redis_feed_loop redis_log keep tm (drop n xs @ zs) (length (drop n xs @ zs)) r1 (notify redis_log out fs)"
            for zs
            by (rule loop_goes_on) (use step [of zs] True Cons in simp_all)
          show ?thesis
            unfolding goes [of ys] goes [of "[]", unfolded append_Nil2] by (rule IH [OF True])
        next
          case no: False
          have "redis_feed_loop redis_log keep tm (xs @ zs) (length (xs @ zs)) r fs = reader_lose redis_log r1 fs" for zs
            by (rule loop_stops) (use step [of zs] no Cons in simp_all)
          from this [of ys] this [of "[]"] show ?thesis by (simp add: reader_lose_def)
        qed
      qed
    qed
  qed
qed

text \<open>
  Reading a stream piece by piece until framing is lost: the flag says that it was kept, and the frames are
  those handed to the callback. \<open>keep\<close> may look at all of them.
\<close>

type_synonym redis_stream = "bool \<times> redisReader \<times> redisFrame list"

definition redis_chunk ::
  "(redisFrame list \<Rightarrow> byte \<Rightarrow> redisKeep option) \<Rightarrow> u64 \<Rightarrow> bytes \<Rightarrow> redis_stream \<Rightarrow> redis_stream" where
  "redis_chunk keep tm chunk st =
     (case st of (ok, r, frames) \<Rightarrow>
        if ok then redis_feed redis_log keep chunk (length chunk) tm r frames else st)"

definition redis_stream0 :: "bool \<Rightarrow> bool \<Rightarrow> redis_stream" where
  "redis_stream0 request showSecrets = (True, reader0 request showSecrets, [])"

definition stream_good :: "redis_stream \<Rightarrow> bool" where
  "stream_good st \<longleftrightarrow> (\<exists>request. reader_ok (request, True) (fst (snd st)))"

lemma keeping_shown [simp]: "snd q \<Longrightarrow> keeping q keep"
  by (simp add: keeping_def keep_ok_def)

lemma redis_feed_log_ok:
  "reader_ok q r \<Longrightarrow> snd q \<Longrightarrow> reader_ok q (fst (snd (redis_feed redis_log keep data n tm r frames)))"
  using redis_feed_loop_ok [of q r "\<lambda>_. True" frames redis_log keep tm data "max n (length data)"]
  by (simp add: redis_feed_def frames_keep_def)

interpretation redis_chunks: incremental "redis_chunk keep tm" "(=)" stream_good for keep tm
proof (unfold_locales, goal_cases)
  case (4 st xs)
  then show ?case
    by (cases st) (auto simp: redis_chunk_def stream_good_def intro!: redis_feed_log_ok exI)
next
  case (5 st)
  then show ?case by (cases st) (simp add: redis_chunk_def redis_feed_def loop_empty)
next
  case (7 st xs ys)
  then obtain ok r fs q where st: "st = (ok, r, fs)" "reader_ok (q, True) r"
    by (cases st) (auto simp: stream_good_def)
  show ?case
    using redis_feed_loop_two [OF st(2), of keep tm xs ys fs]
    by (auto simp: st(1) redis_chunk_def redis_feed_def split: prod.split)
qed simp_all

subsection \<open>The properties\<close>

text \<open>
  C18. However the kernel cuts a stream of Redis bytes into reads, the frames are the same, and so is
  the state of the reader after them: only the concatenation of the chunks matters, also when it is no RESP at all
  and framing is lost in the middle. What to keep of a frame may depend on every frame before it.
\<close>

theorem redis_chunks_agree:
  "fold (redis_chunk keep tm) chunks (redis_stream0 request showSecrets) =
     redis_chunk keep tm (concat chunks) (redis_stream0 request showSecrets)"
  by (rule redis_chunks.fold_feed_concat) (auto simp: stream_good_def redis_stream0_def intro!: exI [of _ request] reader0_ok)

text \<open>
  C35. The loop of \<open>feed\<close> ends after at most two passes per byte and one more, whatever the bytes, the
  reader and the callbacks: the loop cut off after that many passes has its result.
\<close>

theorem redis_feed_terminates:
  "redis_feed_passes (2 * max n (length data) + 1) frame keep tm data (max n (length data)) r s =
     Some (redis_feed frame keep data n tm r s)"
  unfolding redis_feed_def by (rule redis_feed_passes_enough) (simp add: feed_rank_def)

text \<open>
  A reader as its owner uses it, over any sequence of records of any content, captured or not: when framing is lost
  it starts over.
\<close>

definition redis_follow ::
  "(redisFrame list \<Rightarrow> byte \<Rightarrow> redisKeep option) \<Rightarrow> bytes \<times> nat \<times> u64 \<Rightarrow> redisReader \<times> redisFrame list \<Rightarrow>
   redisReader \<times> redisFrame list" where
  "redis_follow keep input st =
     (case input of (data, n, tm) \<Rightarrow> snd (redis_feed (\<lambda>f frames. frames @ [f]) keep data n tm (fst st) (snd st)))"

lemma redis_follow_ok:
  assumes "fold (redis_follow keep) records (reader0 request showSecrets, []) = (r, frames)"
  shows "reader_ok (request, True) r \<and> list_all (frame_ok (request, True)) frames"
proof -
  define good where "good st \<longleftrightarrow> reader_ok (request, True) (fst st) \<and> list_all (frame_ok (request, True)) (snd st)" for st :: "redisReader \<times> redisFrame list"
  have "good (redis_follow keep input st)" if "good st" for input st
    using that redis_feed_loop_ok [of "(request, True)" "fst st" "list_all (frame_ok (request, True))" "snd st" "\<lambda>f frames. frames @ [f]"]
    by (auto simp: good_def redis_follow_def redis_feed_def frames_keep_def split: prod.split)
  then have "good st \<Longrightarrow> good (fold (redis_follow keep) records st)" for st
    by (induction records arbitrary: st) simp_all
  from this [of "(reader0 request showSecrets, [])"] show ?thesis
    using assms by (simp add: good_def reader0_ok)
qed


text \<open>
  C34. After any records whatever, what the reader keeps is bounded: at most 32 open aggregates and 1024
  held bytes, at most 8 argument previews, and every number of the framing is one that a Go \<open>int\<close> holds, so that the
  naturals of the model are the machine integers of the code.
\<close>

theorem redis_reader_bounds:
  "case fold (redis_follow keep) records (reader0 request showSecrets, []) of (r, frames) \<Rightarrow>
     length (rr_stack r) \<le> 32 \<and> length (rr_held r) \<le> 1024 \<and> length (dc_preview (rr_command r)) \<le> 8 \<and>
     rr_number r < 2 ^ 63 \<and> list_all (\<lambda>lvl. lv_left lvl \<le> 2 ^ 30) (rr_stack r) \<and>
     (case rr_state r of StateBulk \<Rightarrow> rr_left r \<le> 2 ^ 29 + 2 | _ \<Rightarrow> True)"
proof -
  obtain r frames where run: "fold (redis_follow keep) records (reader0 request showSecrets, []) = (r, frames)"
    by (cases "fold (redis_follow keep) records (reader0 request showSecrets, [])")
  from redis_follow_ok [OF run] show ?thesis
    unfolding run by (cases "rr_state r") (auto simp: reader_ok_defs level_ok_def decoder_ok_def frame_ok_def frame_text_ok_def
        list_all_iff redis_limits mathMaxInt_def)
qed

end
