(* ===== verification/AnswerOrder.thy ===== *)
theory AnswerOrder
  imports Main "HOL-Library.Sublist"
begin

text \<open>
  Answers in the order of the questions: the contract of every tracker that pairs the requests of a
  connection with its responses. \<open>asked\<close> tells which request an event reports, \<open>reply\<close> whether it
  is a response, \<open>ans\<close> whether a response answers a request. The requests that wait at the start are
  \<open>before\<close>, those that wait after the events \<open>es\<close> are \<open>waiting\<close>.
\<close>

definition answered_in_order ::
  "('e \<Rightarrow> 'q option) \<Rightarrow> ('e \<Rightarrow> bool) \<Rightarrow> ('q \<Rightarrow> 'e \<Rightarrow> bool) \<Rightarrow> 'q list \<Rightarrow> 'e list \<Rightarrow> 'q list \<Rightarrow> bool" where
  "answered_in_order asked reply ans before es waiting \<longleftrightarrow>
     (\<exists>qs. list_all2 ans qs (filter reply es) \<and> subseq (qs @ waiting) (before @ List.map_filter asked es))"

lemma map_filter_append: "List.map_filter f (xs @ ys) = List.map_filter f xs @ List.map_filter f ys"
  by (simp add: List.map_filter_def)

locale answer_order =
  fixes asked :: "'e \<Rightarrow> 'q option" and reply :: "'e \<Rightarrow> bool" and ans :: "'q \<Rightarrow> 'e \<Rightarrow> bool"
  assumes reply_not_asked: "reply e \<Longrightarrow> asked e = None"
begin

lemma start: "answered_in_order asked reply ans ps [] ps"
  by (simp add: answered_in_order_def List.map_filter_def)

lemma drop: "answered_in_order asked reply ans before es ps \<Longrightarrow> subseq qs ps \<Longrightarrow> answered_in_order asked reply ans before es qs"
  unfolding answered_in_order_def by (meson list_emb_append_mono subseq_order.order_trans subseq_order.refl)

lemma more: "answered_in_order asked reply ans ps es qs \<Longrightarrow> subseq ps ps' \<Longrightarrow> answered_in_order asked reply ans ps' es qs"
  unfolding answered_in_order_def by (meson list_emb_append_mono subseq_order.order_trans subseq_order.refl)

lemma other: "answered_in_order asked reply ans before es ps \<Longrightarrow> \<not> reply e \<Longrightarrow> answered_in_order asked reply ans before (es @ [e]) ps"
  unfolding answered_in_order_def map_filter_append
  by auto (metis append.assoc list_emb_append2 list_emb_prefix)

lemma ask:
  assumes "answered_in_order asked reply ans before es ps" and "asked e = Some q" and "\<not> reply e"
  shows "answered_in_order asked reply ans before (es @ [e]) (ps @ [q])"
proof -
  obtain qs where "list_all2 ans qs (filter reply es)" "subseq (qs @ ps) (before @ List.map_filter asked es)"
    using assms(1) by (auto simp: answered_in_order_def)
  moreover have "List.map_filter asked [e] = [q]" using assms(2) by (simp add: List.map_filter_def)
  ultimately show ?thesis
    using assms(3) list_emb_append_mono [of "(=)" "qs @ ps" "before @ List.map_filter asked es" "[q]" "[q]"]
    unfolding answered_in_order_def map_filter_append by auto
qed

lemma answer:
  assumes "answered_in_order asked reply ans before es (q # ps)" and "ans q e" and "reply e"
  shows "answered_in_order asked reply ans before (es @ [e]) ps"
proof -
  obtain qs where q: "list_all2 ans qs (filter reply es)" "subseq (qs @ q # ps) (before @ List.map_filter asked es)"
    using assms(1) by (auto simp: answered_in_order_def)
  have "List.map_filter asked [e] = []" using reply_not_asked [OF assms(3)] by (simp add: List.map_filter_def)
  then have "list_all2 ans (qs @ [q]) (filter reply (es @ [e]))" "subseq ((qs @ [q]) @ ps) (before @ List.map_filter asked (es @ [e]))"
    using q assms(2,3) by (simp_all add: map_filter_append list_all2_appendI)
  then show ?thesis unfolding answered_in_order_def by blast
qed

lemma trans:
  assumes "answered_in_order asked reply ans ps es qs" and "answered_in_order asked reply ans qs fs rs"
  shows "answered_in_order asked reply ans ps (es @ fs) rs"
proof -
  obtain xs ys where x: "list_all2 ans xs (filter reply es)" "subseq (xs @ qs) (ps @ List.map_filter asked es)"
    and y: "list_all2 ans ys (filter reply fs)" "subseq (ys @ rs) (qs @ List.map_filter asked fs)"
    using assms by (auto simp: answered_in_order_def)
  have "subseq (xs @ ys @ rs) (xs @ qs @ List.map_filter asked fs)" using y(2) by (simp add: subseq_append')
  moreover have "subseq ((xs @ qs) @ List.map_filter asked fs) ((ps @ List.map_filter asked es) @ List.map_filter asked fs)"
    using x(2) by (simp only: subseq_append)
  ultimately have "subseq ((xs @ ys) @ rs) (ps @ List.map_filter asked (es @ fs))"
    by (simp add: map_filter_append)
  moreover have "list_all2 ans (xs @ ys) (filter reply (es @ fs))"
    using x(1) y(1) by (simp add: list_all2_appendI)
  ultimately show ?thesis unfolding answered_in_order_def by blast
qed

text \<open>Nothing waited before: the responses answer distinct requests, in the order they were sent.\<close>

lemma answered:
  assumes "answered_in_order asked reply ans [] es waiting"
  obtains qs where "subseq qs (List.map_filter asked es)" "list_all2 ans qs (filter reply es)"
proof -
  obtain qs where q: "list_all2 ans qs (filter reply es)" "subseq (qs @ waiting) (List.map_filter asked es)"
    using assms by (auto simp: answered_in_order_def)
  have "subseq qs (List.map_filter asked es)"
    by (rule subseq_order.order_trans [OF list_emb_prefix [OF subseq_order.refl] q(2)])
  then show thesis using that q(1) by blast
qed

text \<open>So there are at most as many responses as requests.\<close>

lemma answers_le:
  assumes "answered_in_order asked reply ans [] es waiting"
  shows "length (filter reply es) \<le> length (filter (\<lambda>e. asked e \<noteq> None) es)"
proof -
  obtain qs where q: "subseq qs (List.map_filter asked es)" "list_all2 ans qs (filter reply es)"
    using assms by (rule answered)
  have "length (List.map_filter asked es) = length (filter (\<lambda>e. asked e \<noteq> None) es)" by (simp add: List.map_filter_def)
  then show ?thesis using q by (auto dest!: list_all2_lengthD list_emb_length)
qed

end

end
