(* ===== verification/RedisSafety.thy ===== *)
theory RedisSafety
  imports RedisFraming RedisTracker AnswerOrder
begin

text \<open>
  What holds of \<open>redisTracker\<close> (internal/edc/trace_redis.go) whatever is on the wire: its counter of
  waiting commands is exact and bounded, nothing unescaped and, without \<open>--show-secrets\<close>, no value leaves
  it, and the replies it reports answer the commands it reported, in their order. A run is any sequence of records
  and of sockets that are closed.
\<close>

subsection \<open>Runs\<close>

datatype redisInput = RedisRecord mysqlRecord u64 | RedisClosed u64

definition redis_step :: "redisTracker \<Rightarrow> redisInput \<Rightarrow> redisTracker \<times> captureEvent list" where
  "redis_step tracker input =
     (case input of
        RedisRecord record offset \<Rightarrow> redis_events tracker record offset
      | RedisClosed socket \<Rightarrow> (redis_forgetSocket tracker socket, []))"

fun redis_run :: "redisTracker \<Rightarrow> redisInput list \<Rightarrow> redisTracker \<times> captureEvent list" where
  "redis_run tracker [] = (tracker, [])"
| "redis_run tracker (input # inputs) =
     (case redis_step tracker input of (tracker1, out1) \<Rightarrow>
        case redis_run tracker1 inputs of (tracker2, out2) \<Rightarrow> (tracker2, out1 @ out2))"

subsection \<open>The invariant\<close>

definition pending_weight :: "redisConn \<Rightarrow> nat" where
  "pending_weight conn = length (rx_pending conn)"

interpretation pends: counted_map map_get map_put map_del map_len map_each map_total "[]" map_ok pending_weight
  by unfold_locales

definition redis_info_safe :: "bool \<Rightarrow> traceRedisEvent \<Rightarrow> bool" where
  "redis_info_safe shown info \<longleftrightarrow>
     safe_text (rd_command info) \<and> safe_text (rd_key info) \<and> list_all safe_text (rd_argPreview info) \<and>
     safe_text (rd_reply info) \<and> safe_text (rd_value info) \<and> safe_text (rd_errorClass info) \<and>
     safe_text (rd_message info) \<and> safe_text (rd_pushKind info) \<and> safe_text (rd_channel info) \<and>
     (shown \<or> rd_argPreview info = [] \<and> rd_value info = [] \<and> rd_message info = [])"

definition redis_event_ok :: "bool \<Rightarrow> u64 \<Rightarrow> captureEvent \<Rightarrow> bool" where
  "redis_event_ok shown socket e \<longleftrightarrow>
     ev_socketID e = socket \<and> ev_protocol e = ''redis'' \<and>
     (\<exists>info. ev_redis e = Some info \<and> redis_info_safe shown info) \<and>
     (if redisResponseEvent (ev_event e) then ev_answered e = 1
      else ev_answered e = 0 \<and> (ev_event e = redisEventCommand \<or> ev_event e = redisEventPush))"

definition pend_ok :: "redisPending \<Rightarrow> bool" where
  "pend_ok p \<longleftrightarrow> safe_text (rp_name p) \<and> safe_text (rp_key p)"

definition redis_conn_ok :: "bool \<Rightarrow> redisConn \<Rightarrow> bool" where
  "redis_conn_ok shown conn \<longleftrightarrow>
     reader_ok (True, shown) (rx_request conn) \<and> reader_ok (False, shown) (rx_response conn) \<and>
     length (rx_pending conn) \<le> redisPendingLimit \<and> list_all pend_ok (rx_pending conn)"

definition redis_conns_ok :: "redisTracker \<Rightarrow> bool" where
  "redis_conns_ok t \<longleftrightarrow>
     map_ok (rt_conns t) \<and> (\<forall>k conn. map_get (rt_conns t) k = Some conn \<longrightarrow> redis_conn_ok (rt_showSecrets t) conn)"

definition redis_tracker_ok :: "redisTracker \<Rightarrow> bool" where
  "redis_tracker_ok t \<longleftrightarrow>
     redis_conns_ok t \<and> map_len (rt_conns t) \<le> redisSocketLimit \<and>
     rt_pending t = int (map_total pending_weight (rt_conns t)) \<and> rt_pending t \<le> redisPendingTotal"

text \<open>The ghost of the commands reported and the answers given, to state in which order they come.\<close>

type_synonym redis_asked = "u64 \<times> bytes \<times> bytes"

definition asked_of :: "redisPending \<Rightarrow> redis_asked" where
  "asked_of p = (rp_at p, rp_name p, rp_key p)"

definition asked_by :: "captureEvent \<Rightarrow> redis_asked option" where
  "asked_by e =
     (case ev_redis e of
        None \<Rightarrow> None
      | Some info \<Rightarrow>
          if ev_event e = redisEventCommand \<and> \<not> rd_noReply info \<and> \<not> rd_truncated info
          then Some (ev_bootTimeNS e, rd_command info, rd_key info) else None)"

definition commands_asked :: "captureEvent list \<Rightarrow> redis_asked list" where
  "commands_asked es = List.map_filter asked_by es"

text \<open>A reply event answers a command: its name, its key, and the time since it was sent.\<close>

definition answers :: "redis_asked \<Rightarrow> captureEvent \<Rightarrow> bool" where
  "answers q e \<longleftrightarrow>
     (case q of (tm, name, key) \<Rightarrow>
        \<exists>info. ev_redis e = Some info \<and> rd_command info = name \<and> rd_key info = key \<and>
          ev_latencyMS e = Some (traceSpan tm (ev_bootTimeNS e)) \<and> ev_answered e = 1)"

definition replies_of :: "captureEvent list \<Rightarrow> captureEvent list" where
  "replies_of es = filter (\<lambda>e. redisResponseEvent (ev_event e)) es"

text \<open>
  The replies so far answer some of the commands, in order, and the commands that still wait come
  after them; \<open>before\<close> waited at the start.
\<close>

abbreviation in_order :: "redis_asked list \<Rightarrow> captureEvent list \<Rightarrow> redis_asked list \<Rightarrow> bool" where
  "in_order \<equiv> answered_in_order asked_by (\<lambda>e. redisResponseEvent (ev_event e)) answers"

lemma redis_names_response [simp]:
  "redisResponseEvent redisEventReply" "redisResponseEvent redisEventError" "\<not> redisResponseEvent redisEventCommand"
  "\<not> redisResponseEvent redisEventPush" "redisEventCommand \<noteq> redisEventPush"
  by (simp_all add: redisResponseEvent_def redis_names)

interpretation redis_order: answer_order asked_by "\<lambda>e. redisResponseEvent (ev_event e)" answers
  by unfold_locales (auto simp: asked_by_def split: option.split)

subsection \<open>One record: the invariant of a call\<close>

text \<open>
  The call works on the connection of \<open>rec\<close> in a tracker that was \<open>t\<close>; the counter counts its live
  value instead of the stored one. Nothing else of the tracker changes.
\<close>

definition redis_call_ok :: "redisTracker \<Rightarrow> mysqlRecord \<Rightarrow> redis_asked list \<Rightarrow> redisCall \<Rightarrow> bool" where
  "redis_call_ok t rec before c \<longleftrightarrow>
     rt_conns (rl_tracker c) = rt_conns t \<and> rt_showSecrets (rl_tracker c) = rt_showSecrets t \<and>
     rt_side (rl_tracker c) = rt_side t \<and> rl_record c = rec \<and>
     redis_conn_ok (rt_showSecrets t) (rl_conn c) \<and>
     pends.counted (rt_pending (rl_tracker c)) (rec_socket rec) (rl_conn c) (rt_conns t) \<and>
     rt_pending (rl_tracker c) \<le> redisPendingTotal \<and>
     list_all (redis_event_ok (rt_showSecrets t) (rec_socket rec)) (rl_out c) \<and>
     in_order before (rl_out c) (map asked_of (rx_pending (rl_conn c)))"

text \<open>A change of the connection that leaves its queue alone.\<close>

lemma redis_call_conn:
  assumes "redis_call_ok t rec before c" and "redis_conns_ok t"
    and "redis_conn_ok (rt_showSecrets t) conn" and "rx_pending conn = rx_pending (rl_conn c)"
  shows "redis_call_ok t rec before (c\<lparr>rl_conn := conn\<rparr>)"
  using assms pends.counted_same [of "rt_pending (rl_tracker c)" "rec_socket rec" "rl_conn c" "rt_conns t" conn]
  by (simp add: redis_call_ok_def redis_conns_ok_def pending_weight_def)

text \<open>The fields of a connection that its invariant does not look at.\<close>

lemma redis_conn_fields [simp]:
  "redis_conn_ok w (conn\<lparr>rx_requestSynced := b\<rparr>) = redis_conn_ok w conn" "redis_conn_ok w (conn\<lparr>rx_responseSynced := b\<rparr>) = redis_conn_ok w conn"
  "redis_conn_ok w (conn\<lparr>rx_proto := n\<rparr>) = redis_conn_ok w conn" "redis_conn_ok w (conn\<lparr>rx_subscribed := b\<rparr>) = redis_conn_ok w conn"
  "redis_conn_ok w (conn\<lparr>rx_monitor := b\<rparr>) = redis_conn_ok w conn" "redis_conn_ok w (conn\<lparr>rx_multi := b\<rparr>) = redis_conn_ok w conn"
  "redis_conn_ok w (conn\<lparr>rx_replyOff := b\<rparr>) = redis_conn_ok w conn" "redis_conn_ok w (conn\<lparr>rx_skipNext := b\<rparr>) = redis_conn_ok w conn"
  "redis_conn_ok w (conn\<lparr>rx_replication := b\<rparr>) = redis_conn_ok w conn" "redis_conn_ok w (conn\<lparr>rx_gap := b\<rparr>) = redis_conn_ok w conn"
  "redis_conn_ok w (conn\<lparr>rx_subKind := v\<rparr>) = redis_conn_ok w conn" "redis_conn_ok w (conn\<lparr>rx_subExtra := i\<rparr>) = redis_conn_ok w conn"
  by (simp_all add: redis_conn_ok_def)

lemma redis_conn_readers:
  "redis_conn_ok w conn \<Longrightarrow> reader_ok (True, w) r \<Longrightarrow> redis_conn_ok w (conn\<lparr>rx_request := r\<rparr>)"
  "redis_conn_ok w conn \<Longrightarrow> reader_ok (False, w) r \<Longrightarrow> redis_conn_ok w (conn\<lparr>rx_response := r\<rparr>)"
  by (simp_all add: redis_conn_ok_def)

lemma redis_conn_reset:
  "redis_conn_ok w conn \<Longrightarrow> reader_ok (True, w) (reader_reset (rx_request conn))"
  "redis_conn_ok w conn \<Longrightarrow> reader_ok (False, w) (reader_reset (rx_response conn))"
  by (auto simp: redis_conn_ok_def intro: reset_ok)

subsubsection \<open>Dropping commands\<close>

lemma drop_mode_fields [simp]:
  "redis_conn_ok w (drop_mode p conn) = redis_conn_ok w conn" "rx_pending (drop_mode p conn) = rx_pending conn"
  by (simp_all add: drop_mode_def)

lemma fold_drop_mode [simp]:
  "redis_conn_ok w (fold drop_mode ps conn) = redis_conn_ok w conn" "rx_pending (fold drop_mode ps conn) = rx_pending conn"
  by (induction ps arbitrary: conn) simp_all

lemma filter_times: "length (filter (\<lambda>p. rp_at p \<le> tm) ps) + length (filter (\<lambda>p. tm < rp_at p) ps) = length ps"
  using sum_length_filter_compl [of "\<lambda>p. rp_at p \<le> tm" ps] by (simp add: not_le)

lemma redis_call_drop:
  assumes ok: "redis_call_ok t rec before c" and t: "redis_conns_ok t"
  shows "redis_call_ok t rec before (call_drop tm c)"
proof -
  define conn ps where "conn = rl_conn c" and "ps = rx_pending conn"
  define gone kept where "gone = filter (\<lambda>p. rp_at p \<le> tm) ps" and "kept = filter (\<lambda>p. tm < rp_at p) ps"
  define conn' where "conn' = (fold drop_mode gone conn)\<lparr>rx_pending := kept\<rparr>"
  have len: "length gone + length kept = length ps" unfolding gone_def kept_def by (rule filter_times)
  have m: "map_ok (rt_conns t)" using t by (simp add: redis_conns_ok_def)
  have counted: "pends.counted (rt_pending (rl_tracker c)) (rec_socket rec) conn (rt_conns t)"
    using ok by (simp add: redis_call_ok_def conn_def)
  have ge: "int (length ps) \<le> rt_pending (rl_tracker c)"
    using pends.counted_ge [OF counted m] by (simp add: pending_weight_def ps_def)
  have eq: "call_drop tm c = c\<lparr>rl_tracker := (rl_tracker c)\<lparr>rt_pending := rt_pending (rl_tracker c) - int (length gone)\<rparr>, rl_conn := conn'\<rparr>"
    using ge len by (simp add: call_drop_def redis_drop_def Let_def conn'_def gone_def kept_def ps_def conn_def)
  have "redis_conn_ok (rt_showSecrets t) (fold drop_mode gone conn)" using ok by (simp add: redis_call_ok_def conn_def)
  then have "redis_conn_ok (rt_showSecrets t) conn'"
    using len by (auto simp: conn'_def redis_conn_ok_def kept_def ps_def [symmetric] list_all_iff)
  moreover have "pends.counted (rt_pending (rl_tracker c) + (int (length kept) - int (length ps))) (rec_socket rec) conn' (rt_conns t)"
    by (rule pends.counted_swap [OF counted m]) (simp add: pending_weight_def conn'_def ps_def)
  moreover have "rt_pending (rl_tracker c) + (int (length kept) - int (length ps)) = rt_pending (rl_tracker c) - int (length gone)"
    using len by linarith
  moreover have "in_order before (rl_out c) (map asked_of kept)"
  proof (rule redis_order.drop)
    show "in_order before (rl_out c) (map asked_of ps)" using ok by (simp add: redis_call_ok_def conn_def ps_def)
    show "subseq (map asked_of kept) (map asked_of ps)" unfolding kept_def by (rule subseq_map) simp
  qed
  ultimately show ?thesis using ok unfolding eq by (simp add: redis_call_ok_def conn'_def)
qed

lemma redis_call_lose:
  assumes "redis_call_ok t rec before c" and t: "redis_conns_ok t"
  shows "redis_call_ok t rec before (call_lose c)"
proof -
  define c1 where "c1 = call_drop maxUint64 c"
  have c1: "redis_call_ok t rec before c1" unfolding c1_def by (rule redis_call_drop [OF assms])
  then have "redis_conn_ok (rt_showSecrets t) (rl_conn c1)" by (simp add: redis_call_ok_def)
  then show ?thesis
    unfolding call_lose_def Let_def c1_def [symmetric]
    by (intro redis_call_conn [OF c1 t]) (simp_all add: redis_conn_readers redis_conn_reset)
qed

lemma redis_call_gap:
  assumes "redis_call_ok t rec before c" and t: "redis_conns_ok t"
  shows "redis_call_ok t rec before (open_gap c)"
  unfolding open_gap_def Let_def
  by (rule redis_call_conn [OF redis_call_lose [OF assms] t])
     (use redis_call_lose [OF assms] in \<open>simp_all add: redis_call_ok_def\<close>)

subsubsection \<open>Events\<close>

lemma redis_call_emit:
  assumes "redis_call_ok t rec before c" and "redis_event_ok (rt_showSecrets t) (rec_socket rec) e"
    and "\<not> redisResponseEvent (ev_event e)"
  shows "redis_call_ok t rec before (redis_emit e c)"
  using assms redis_order.other [of before "rl_out c" _ e] by (simp add: redis_call_ok_def redis_emit_def)

lemma redis_event_fields [simp]:
  "ev_event (redis_event c name tm n info) = name" "ev_redis (redis_event c name tm n info) = Some info"
  "ev_bootTimeNS (redis_event c name tm n info) = tm" "ev_answered (redis_event c name tm n info) = 0"
  "ev_socketID (redis_event c name tm n info) = rec_socket (rl_record c)" "ev_protocol (redis_event c name tm n info) = ''redis''"
  by (simp_all add: redis_event_def base_event_def)

subsubsection \<open>Requests\<close>

lemma command_queued_ok:
  "redis_conn_ok w (snd (command_queued cmd conn)) = redis_conn_ok w conn"
  "rx_pending (snd (command_queued cmd conn)) = rx_pending conn"
  by (simp_all add: command_queued_def)

lemma redis_call_enqueue:
  assumes ok: "redis_call_ok t rec before c" and t: "redis_conns_ok t"
    and room: "length (rx_pending (rl_conn c)) < redisPendingLimit" "rt_pending (rl_tracker c) < redisPendingTotal"
    and p: "pend_ok p" and e: "redis_event_ok (rt_showSecrets t) (rec_socket rec) e" "asked_by e = Some (asked_of p)"
      "\<not> redisResponseEvent (ev_event e)"
  shows "redis_call_ok t rec before (enqueue p (redis_emit e c))"
proof -
  have m: "map_ok (rt_conns t)" using t by (simp add: redis_conns_ok_def)
  define conn where "conn = (rl_conn c)\<lparr>rx_pending := rx_pending (rl_conn c) @ [p]\<rparr>"
  have "pends.counted (rt_pending (rl_tracker c) + 1) (rec_socket rec) conn (rt_conns t)"
    by (rule pends.counted_swap [of _ _ "rl_conn c"]) (use ok m in \<open>simp_all add: redis_call_ok_def conn_def pending_weight_def\<close>)
  moreover have "redis_conn_ok (rt_showSecrets t) conn"
    using ok room(1) p by (simp add: redis_call_ok_def redis_conn_ok_def conn_def)
  moreover have "in_order before (rl_out c @ [e]) (map asked_of (rx_pending (rl_conn c)) @ [asked_of p])"
    by (rule redis_order.ask [OF _ e(2,3)]) (use ok in \<open>simp add: redis_call_ok_def\<close>)
  ultimately show ?thesis
    using ok room(2) e(1) by (simp add: redis_call_ok_def enqueue_def redis_emit_def conn_def)
qed

lemma command_info_safe:
  "command_ok w cmd \<Longrightarrow> redis_info_safe w (command_info cmd lost noReply proto)"
  by (auto simp: command_ok_def redis_info_safe_def command_info_def redis_event0_def)

lemma redis_command_ok:
  assumes f: "frame_ok (True, rt_showSecrets t) f" and ok: "redis_call_ok t rec before c" and t: "redis_conns_ok t"
  shows "redis_call_ok t rec before (redis_command f c)"
proof -
  obtain cmd where cmd: "fr_command f = Some cmd" "command_ok (rt_showSecrets t) cmd"
    using f by (auto simp: frame_ok_def)
  define report where "report = (\<lambda>lost noReply. redis_event c redisEventCommand (fr_at f) (fr_bytes f)
                            (command_info cmd lost noReply (rx_proto (rl_conn c))))"
  have rec: "rl_record c = rec" using ok by (simp add: redis_call_ok_def)
  have e: "redis_event_ok (rt_showSecrets t) (rec_socket rec) (report lost noReply)" for lost noReply
    using command_info_safe [OF cmd(2)] by (simp add: redis_event_ok_def report_def rec)
  have name: "\<not> redisResponseEvent (ev_event (report lost noReply))" for lost noReply by (simp add: report_def)
  obtain queue conn where q: "command_queued cmd (rl_conn c) = (queue, conn)" by fastforce
  have c0: "redis_call_ok t rec before (c\<lparr>rl_conn := conn\<rparr>)"
    using redis_call_conn [OF ok t, of conn] command_queued_ok(1) [of "rt_showSecrets t" cmd "rl_conn c"]
      command_queued_ok(2) [of cmd "rl_conn c"] q ok by (simp add: redis_call_ok_def)
  define c1 where "c1 = redis_emit (report False (\<not> queue)) (c\<lparr>rl_conn := conn\<rparr>)"
  have c1: "redis_call_ok t rec before c1" unfolding c1_def by (rule redis_call_emit [OF c0 e name])
  have asked: "asked_by (report False (\<not> queue)) = Some (asked_of (pending_of f cmd))" if queue
    using that by (simp add: report_def asked_by_def asked_of_def pending_of_def command_info_def)
  have pend: "pend_ok (pending_of f cmd)" using cmd(2) by (simp add: pend_ok_def pending_of_def command_ok_def)
  have c1_fields: "rl_tracker c1 = rl_tracker c" by (simp add: c1_def redis_emit_def)
  show ?thesis
  proof (cases "fr_lost f")
    case True
    then show ?thesis
      using redis_call_emit [OF ok e name] by (simp add: redis_command_def cmd(1) Let_def report_def)
  next
    case False
    have eq: "redis_command f c =
        (if \<not> queue \<or> rx_gap conn then c1
         else if redisPendingLimit \<le> length (rx_pending conn) \<or> redisPendingTotal \<le> rt_pending (rl_tracker c1) then open_gap c1
         else enqueue (pending_of f cmd) c1)"
      using False by (simp add: redis_command_def cmd(1) Let_def q c1_def report_def)
    have "redis_call_ok t rec before (enqueue (pending_of f cmd) c1)"
      if "queue" "length (rx_pending conn) < redisPendingLimit" "rt_pending (rl_tracker c1) < redisPendingTotal"
      unfolding c1_def using that c1_fields
      by (intro redis_call_enqueue [OF c0 t _ _ pend e asked name]) simp_all
    then show ?thesis unfolding eq using c1 redis_call_gap [OF c1 t] by (auto simp: not_le)
  qed
qed

lemma redis_request_ok:
  assumes ok: "redis_call_ok t rec before c" and t: "redis_conns_ok t"
  shows "redis_call_ok t rec before (redis_request c)"
proof (cases "\<not> rx_requestSynced (rl_conn c) \<and> \<not> redisRequestStart (rec_payload (rl_record c))")
  case True
  then show ?thesis using ok by (simp add: redis_request_def Let_def)
next
  case False
  define conn1 where "conn1 = (if rx_requestSynced (rl_conn c) then rl_conn c
                      else (rl_conn c)\<lparr>rx_request := reader_reset (rx_request (rl_conn c)), rx_requestSynced := True\<rparr>)"
  have conn: "redis_conn_ok (rt_showSecrets t) (rl_conn c)" using ok by (simp add: redis_call_ok_def)
  have conn1: "redis_conn_ok (rt_showSecrets t) conn1" "rx_pending conn1 = rx_pending (rl_conn c)"
    using conn by (auto simp: conn1_def redis_conn_readers redis_conn_reset)
  have c0: "redis_call_ok t rec before (c\<lparr>rl_conn := conn1\<rparr>)" by (rule redis_call_conn [OF ok t conn1])
  obtain ok1 reader c1 where feed: "redis_feed redis_command (\<lambda>_ _. None) (rec_payload (rl_record c)) (rec_size (rl_record c))
      (rec_bootTimeNS (rl_record c)) (rx_request conn1) (c\<lparr>rl_conn := conn1\<rparr>) = (ok1, reader, c1)" by (metis prod_cases3)
  have "reader_ok (True, rt_showSecrets t) reader \<and> redis_call_ok t rec before c1"
  proof (rule redis_feed_ok [where S = "redis_call_ok t rec before", OF _ c0 _ _ feed])
    show "reader_ok (True, rt_showSecrets t) (rx_request conn1)" using conn1 by (simp add: redis_conn_ok_def)
    show "frames_keep (True, rt_showSecrets t) (redis_call_ok t rec before) redis_command"
      using t by (simp add: frames_keep_def redis_command_ok)
    show "\<forall>s. redis_call_ok t rec before s \<longrightarrow> keeping (True, rt_showSecrets t) (\<lambda>_. None)" by (simp add: keeping_def)
  qed
  then have reader: "reader_ok (True, rt_showSecrets t) reader" and c1: "redis_call_ok t rec before c1" by simp_all
  define c2 where "c2 = c1\<lparr>rl_conn := (rl_conn c1)\<lparr>rx_request := reader\<rparr>\<rparr>"
  have c2: "redis_call_ok t rec before c2" unfolding c2_def
    by (rule redis_call_conn [OF c1 t]) (use c1 reader in \<open>simp_all add: redis_call_ok_def redis_conn_readers\<close>)
  then have c3: "redis_call_ok t rec before (c2\<lparr>rl_conn := (rl_conn c2)\<lparr>rx_requestSynced := False\<rparr>\<rparr>)"
    by (intro redis_call_conn [OF c2 t]) (simp_all add: redis_call_ok_def)
  have "redis_request c = (if ok1 then c2 else open_gap (c2\<lparr>rl_conn := (rl_conn c2)\<lparr>rx_requestSynced := False\<rparr>\<rparr>))"
    using False feed by (auto simp: redis_request_def Let_def conn1_def c2_def split: if_splits)
  then show ?thesis using c2 redis_call_gap [OF c3 t] by simp
qed

subsubsection \<open>Replies\<close>

lemma reply_modes_fields [simp]:
  "redis_conn_ok w (reply_modes p failed conn) = redis_conn_ok w conn" "rx_pending (reply_modes p failed conn) = rx_pending conn"
  by (simp_all add: reply_modes_def resetModes_def)

lemma safe_words [simp]:
  "safe_text []" "safe_text ''null''" "safe_text ''queued''"
  by (simp_all add: safe_text.simps traceTextByteKept_def)

lemma safe_kinds: "list_all (\<lambda>(b, kind). safe_text kind) redisReplyKinds"
  by (simp add: redisReplyKinds_def safe_text.simps traceTextByteKept_def)

lemma redisReplyKind_safe: "safe_text (redisReplyKind f multi)"
  using safe_kinds by (auto simp: redisReplyKind_def list_all_iff split: option.split dest!: map_of_SomeD)

lemma head_safe: "frame_text_ok w f \<Longrightarrow> i < 3 \<Longrightarrow> safe_text (hd_text (fr_heads f ! i))"
  by (simp add: frame_text_ok_def list_all_length)

lemma redisChannel_safe: "frame_text_ok w f \<Longrightarrow> safe_text (redisChannel f kind)"
  by (simp add: redisChannel_def Let_def head_safe)

lemma answer_info_safe:
  assumes "pend_ok p" and f: "frame_text_ok w f" and "safe_text pushKind"
  shows "redis_info_safe w (answer_info p f pushKind conn)"
proof -
  have "safe_text (fr_value f)" "safe_text (fr_class f)" "safe_text (fr_message f)" "\<not> w \<Longrightarrow> fr_value f = [] \<and> fr_message f = []"
    using f by (auto simp: frame_text_ok_def)
  then show ?thesis
    using assms(1,3) redisReplyKind_safe [of f] redisChannel_safe [OF f]
    by (simp add: answer_info_def Let_def redis_info_safe_def redis_event0_def pend_ok_def) blast
qed

lemma answer_info_fields:
  "rd_command (answer_info p f pushKind conn) = rp_name p" "rd_key (answer_info p f pushKind conn) = rp_key p"
  by (simp_all add: answer_info_def Let_def)

lemma redis_answer_ok:
  assumes f: "frame_ok (False, rt_showSecrets t) f" and kind: "safe_text kind"
    and ok: "redis_call_ok t rec before c" and t: "redis_conns_ok t"
  shows "redis_call_ok t rec before (redis_answer f kind c)"
proof (cases "rx_pending (rl_conn c)")
  case Nil
  then show ?thesis using ok by (simp add: redis_answer_def)
next
  case (Cons p rest)
  define conn where "conn = reply_modes p (frame_failed f) ((rl_conn c)\<lparr>rx_pending := rest\<rparr>)"
  define c1 where "c1 = c\<lparr>rl_conn := conn, rl_tracker := (rl_tracker c)\<lparr>rt_pending := rt_pending (rl_tracker c) - 1\<rparr>\<rparr>"
  define e where "e = (redis_event c1 (if frame_failed f then redisEventError else redisEventReply) (fr_at f)
     (fr_bytes f) (answer_info p f kind conn))\<lparr>ev_latencyMS := Some (traceSpan (rp_at p) (fr_at f)), ev_answered := 1\<rparr>"
  have eq: "redis_answer f kind c = redis_emit e c1"
    by (simp add: redis_answer_def Cons Let_def conn_def c1_def e_def)
  have m: "map_ok (rt_conns t)" using t by (simp add: redis_conns_ok_def)
  have ft: "frame_text_ok (rt_showSecrets t) f" using f by (simp add: frame_ok_def)
  have pend: "pend_ok p" "list_all pend_ok rest" using ok Cons by (simp_all add: redis_call_ok_def redis_conn_ok_def)
  have "pends.counted (rt_pending (rl_tracker c) + - 1) (rec_socket rec) conn (rt_conns t)"
    by (rule pends.counted_swap [of _ _ "rl_conn c"]) (use ok m Cons in \<open>simp_all add: redis_call_ok_def conn_def pending_weight_def\<close>)
  moreover have "redis_conn_ok (rt_showSecrets t) conn"
    using ok Cons by (simp add: redis_call_ok_def redis_conn_ok_def conn_def) (simp add: reply_modes_def resetModes_def)
  moreover have "redis_event_ok (rt_showSecrets t) (rec_socket rec) e"
    using answer_info_safe [OF pend(1) ft kind, of conn] ok by (simp add: redis_event_ok_def e_def c1_def redis_call_ok_def)
  moreover have "in_order before (rl_out c @ [e]) (map asked_of rest)"
  proof (rule redis_order.answer [of _ _ "asked_of p"])
    show "in_order before (rl_out c) (asked_of p # map asked_of rest)" using ok Cons by (simp add: redis_call_ok_def)
    show "answers (asked_of p) e" by (simp add: answers_def asked_of_def e_def answer_info_fields)
    show "redisResponseEvent (ev_event e)" by (simp add: e_def)
  qed
  ultimately show ?thesis using ok by (simp add: eq redis_emit_def c1_def redis_call_ok_def conn_def)
qed

lemma redis_push_ok:
  assumes f: "frame_ok (False, rt_showSecrets t) f" and kind: "safe_text kind"
    and ok: "redis_call_ok t rec before c"
  shows "redis_call_ok t rec before (redis_push f kind c)"
proof -
  have "frame_text_ok (rt_showSecrets t) f" using f by (simp add: frame_ok_def)
  then show ?thesis
    unfolding redis_push_def
    using kind redisReplyKind_safe [of f False] redisChannel_safe [of _ f kind] ok
    by (intro redis_call_emit [OF ok]) (auto simp: redis_event_ok_def redis_info_safe_def redis_event0_def redis_call_ok_def)
qed

lemma set_subs_ok: "redis_call_ok t rec before c \<Longrightarrow> redis_conns_ok t \<Longrightarrow> redis_call_ok t rec before (set_subs kind n c)"
  unfolding set_subs_def by (rule redis_call_conn) (simp_all add: redis_call_ok_def)

lemma confirm_ok:
  assumes f: "frame_ok (False, rt_showSecrets t) f" and kind: "safe_text kind"
    and ok: "redis_call_ok t rec before c" and t: "redis_conns_ok t"
  shows "redis_call_ok t rec before (confirm f kind push c)"
proof -
  have c1: "redis_call_ok t rec before (confirm_answer f kind c)"
    by (simp add: confirm_answer_def Let_def set_subs_ok [OF redis_answer_ok [OF f kind ok t] t] set_subs_ok [OF ok t]
        ok redis_push_ok [OF f kind ok])
  have "redis_call_ok t rec before (confirm_answer f kind c\<lparr>rl_conn := conn\<rparr>)"
    if "redis_conn_ok (rt_showSecrets t) conn" "rx_pending conn = rx_pending (rl_conn (confirm_answer f kind c))" for conn
    by (rule redis_call_conn [OF c1 t that])
  then show ?thesis using c1 by (simp add: confirm_def Let_def) (simp add: redis_call_ok_def)
qed

lemma redis_reply_ok:
  assumes f: "frame_ok (False, rt_showSecrets t) f" and ok: "redis_call_ok t rec before c" and t: "redis_conns_ok t"
  shows "redis_call_ok t rec before (redis_reply f c)"
proof -
  have kind: "safe_text (hd_text (fr_heads f ! 0))" using f head_safe [of "rt_showSecrets t" f 0] by (simp add: frame_ok_def)
  show ?thesis
    unfolding redis_reply_def Let_def
    using ok confirm_ok [OF f kind ok t] redis_push_ok [OF f kind ok] redis_answer_ok [OF f safe_words(1) ok t] by simp
qed

lemma redis_keep_keeping:
  "redis_call_ok t rec before c \<Longrightarrow>
   keeping (False, rt_showSecrets t) (\<lambda>kind. Some (redis_keep (rl_tracker c) (rl_conn c) kind))"
  by (auto simp: keeping_def keep_ok_def redis_keep_def redis_call_ok_def Let_def)

lemma redis_response_feed_ok:
  assumes ok: "redis_call_ok t rec before c" and t: "redis_conns_ok t"
  shows "redis_call_ok t rec before (response_feed c)"
proof -
  obtain ok1 reader c1 where feed: "redis_feed redis_reply (\<lambda>c kind. Some (redis_keep (rl_tracker c) (rl_conn c) kind))
      (rec_payload (rl_record c)) (rec_size (rl_record c)) (rec_bootTimeNS (rl_record c)) (rx_response (rl_conn c)) c =
      (ok1, reader, c1)" by (metis prod_cases3)
  have "reader_ok (False, rt_showSecrets t) reader \<and> redis_call_ok t rec before c1"
  proof (rule redis_feed_ok [where S = "redis_call_ok t rec before", OF _ ok _ _ feed])
    show "reader_ok (False, rt_showSecrets t) (rx_response (rl_conn c))" using ok by (simp add: redis_call_ok_def redis_conn_ok_def)
    show "frames_keep (False, rt_showSecrets t) (redis_call_ok t rec before) redis_reply"
      using t by (simp add: frames_keep_def redis_reply_ok)
  qed (simp add: redis_keep_keeping)
  then have reader: "reader_ok (False, rt_showSecrets t) reader" and c1: "redis_call_ok t rec before c1" by simp_all
  have c2: "redis_call_ok t rec before (c1\<lparr>rl_conn := (rl_conn c1)\<lparr>rx_response := reader\<rparr>\<rparr>)"
    by (rule redis_call_conn [OF c1 t]) (use c1 reader in \<open>simp_all add: redis_call_ok_def redis_conn_readers\<close>)
  show ?thesis
    unfolding response_feed_def Let_def feed prod.case by (simp add: c2 redis_call_lose [OF c2 t])
qed

lemma redis_response_ok:
  assumes ok: "redis_call_ok t rec before c" and t: "redis_conns_ok t"
  shows "redis_call_ok t rec before (redis_response c)"
proof -
  have conn: "redis_conn_ok (rt_showSecrets t) (rl_conn c)" using ok by (simp add: redis_call_ok_def)
  have gap: "redis_call_ok t rec before (c\<lparr>rl_conn := (rl_conn c)\<lparr>rx_gap := False\<rparr>\<rparr>)"
    by (rule redis_call_conn [OF ok t]) (simp_all add: conn)
  have again: "redis_call_ok t rec before (c\<lparr>rl_conn := (rl_conn c)\<lparr>rx_response := reader_reset (rx_response (rl_conn c)),
      rx_responseSynced := True\<rparr>\<rparr>)"
    by (rule redis_call_conn [OF ok t]) (simp_all add: conn redis_conn_readers redis_conn_reset)
  show ?thesis
    unfolding redis_response_def Let_def
    using ok redis_call_drop [OF gap t] redis_call_drop [OF ok t] redis_response_feed_ok [OF ok t] redis_response_feed_ok [OF again t] by simp
qed

subsection \<open>One step, and a run\<close>

text \<open>What waits on a socket of the tracker.\<close>

definition waiting_on :: "redisTracker \<Rightarrow> u64 \<Rightarrow> redis_asked list" where
  "waiting_on t k = (case map_get (rt_conns t) k of None \<Rightarrow> [] | Some conn \<Rightarrow> map asked_of (rx_pending conn))"

lemma redis_new_conn_ok: "redis_conn_ok (rt_showSecrets t) (newConn t)"
  by (simp add: redis_conn_ok_def newConn_def reader0_ok)

text \<open>Opening a socket: either it is known, or it starts with nothing waiting, and perhaps the map is emptied first.\<close>

lemma redis_open_ok:
  assumes ok: "redis_tracker_ok t" and op: "redis_open t k = (t1, conn)"
  shows "redis_tracker_ok t1" "rt_showSecrets t1 = rt_showSecrets t" "rt_side t1 = rt_side t"
    "redis_conn_ok (rt_showSecrets t) conn" "pends.counted (rt_pending t1) k conn (rt_conns t1)"
    "map_len (rt_conns t1) < redisSocketLimit \<or> map_get (rt_conns t1) k \<noteq> None"
    "\<And>j. subseq (waiting_on t1 j) (waiting_on t j)" "subseq (map asked_of (rx_pending conn)) (waiting_on t k)"
proof -
  have m: "map_ok (rt_conns t)" "rt_pending t = int (map_total pending_weight (rt_conns t))"
    using ok by (simp_all add: redis_tracker_ok_def redis_conns_ok_def)
  have "redis_tracker_ok t1 \<and> rt_showSecrets t1 = rt_showSecrets t \<and> rt_side t1 = rt_side t \<and>
    redis_conn_ok (rt_showSecrets t) conn \<and> pends.counted (rt_pending t1) k conn (rt_conns t1) \<and>
    (map_len (rt_conns t1) < redisSocketLimit \<or> map_get (rt_conns t1) k \<noteq> None) \<and>
    (\<forall>j. subseq (waiting_on t1 j) (waiting_on t j)) \<and> subseq (map asked_of (rx_pending conn)) (waiting_on t k)"
  proof (cases "map_get (rt_conns t) k")
    case (Some old)
    then have "t1 = t" "conn = old" using op by (simp_all add: redis_open_def)
    then show ?thesis
      using ok Some pends.counted_enter_old [OF m(2,1) Some]
      by (auto simp: redis_tracker_ok_def redis_conns_ok_def waiting_on_def)
  next
    case None
    then have conn: "conn = newConn t" "rx_pending conn = []" using op by (auto simp: redis_open_def newConn_def)
    have t1: "t1 = (if redisSocketLimit \<le> map_len (rt_conns t) then t\<lparr>rt_conns := [], rt_pending := 0\<rparr> else t)"
      using op None by (simp add: redis_open_def)
    have tr: "redis_tracker_ok t1"
      using ok by (simp add: t1 redis_tracker_ok_def redis_conns_ok_def gm.ok_empty gm.get_empty gm.len_empty gm.total_empty
          redisPendingTotal_def)
    have none: "map_get (rt_conns t1) k = None" using None by (simp add: t1 gm.get_empty)
    have "pends.counted (rt_pending t1) k conn (rt_conns t1)"
      by (rule pends.counted_enter_new [OF _ none]) (use tr conn in \<open>simp_all add: redis_tracker_ok_def pending_weight_def\<close>)
    moreover have "map_len (rt_conns t1) < redisSocketLimit"
      by (simp add: t1 gm.len_empty redisSocketLimit_def not_le)
    moreover have "subseq (waiting_on t1 j) (waiting_on t j)" for j by (simp add: t1 waiting_on_def gm.get_empty)
    ultimately show ?thesis using tr conn redis_new_conn_ok [of t] by (simp add: t1)
  qed
  then show "redis_tracker_ok t1" "rt_showSecrets t1 = rt_showSecrets t" "rt_side t1 = rt_side t"
    "redis_conn_ok (rt_showSecrets t) conn" "pends.counted (rt_pending t1) k conn (rt_conns t1)"
    "map_len (rt_conns t1) < redisSocketLimit \<or> map_get (rt_conns t1) k \<noteq> None"
    "\<And>j. subseq (waiting_on t1 j) (waiting_on t j)" "subseq (map asked_of (rx_pending conn)) (waiting_on t k)" by auto
qed

text \<open>The events of a step all belong to its socket; on the others nothing new waits.\<close>

definition redis_step_ok :: "redisTracker \<Rightarrow> redisTracker \<Rightarrow> captureEvent list \<Rightarrow> bool" where
  "redis_step_ok t t' out \<longleftrightarrow>
     redis_tracker_ok t' \<and> rt_showSecrets t' = rt_showSecrets t \<and> rt_side t' = rt_side t \<and>
     list_all (\<lambda>e. redis_event_ok (rt_showSecrets t) (ev_socketID e) e) out \<and>
     (\<forall>k. in_order (waiting_on t k) (filter (\<lambda>e. ev_socketID e = k) out) (waiting_on t' k))"

lemma redis_events_ok:
  assumes ok: "redis_tracker_ok t" and e: "redis_events t record offset = (t', out)"
  shows "redis_step_ok t t' out"
proof (cases "rt_side t \<noteq> [] \<and> redis_side record \<noteq> rt_side t")
  case True
  then show ?thesis using ok e redis_order.start by (simp add: redis_events_def redis_step_ok_def)
next
  case False
  define k where "k = rec_socket record"
  obtain t1 conn where op: "redis_open t k = (t1, conn)" by fastforce
  note opened = redis_open_ok [OF ok op]
  have t1: "redis_conns_ok t1" "rt_pending t1 \<le> redisPendingTotal" "map_ok (rt_conns t1)"
    using opened(1) by (simp_all add: redis_tracker_ok_def redis_conns_ok_def)
  define c where "c = redis_handle (redis_call t1 conn record offset)"
  define before where "before = map asked_of (rx_pending conn)"
  have start: "redis_call_ok t1 record before (redis_call t1 conn record offset)"
    using opened t1(2) redis_order.start [of before] by (simp add: redis_call_ok_def redis_call_def before_def k_def)
  have c: "redis_call_ok t1 record before c"
    unfolding c_def redis_handle_def using redis_request_ok [OF start t1(1)] redis_response_ok [OF start t1(1)] by simp
  have eq: "t' = (rl_tracker c)\<lparr>rt_conns := map_put k (rl_conn c) (rt_conns t1)\<rparr>" "out = rl_out c"
  proof -
    have "redis_events t record offset =
        ((rl_tracker c)\<lparr>rt_conns := map_put k (rl_conn c) (rt_conns (rl_tracker c))\<rparr>, rl_out c)"
      using op unfolding redis_events_def if_not_P [OF False] k_def by (simp add: c_def Let_def)
    moreover have "rt_conns (rl_tracker c) = rt_conns t1" using c by (simp add: redis_call_ok_def)
    ultimately show "t' = (rl_tracker c)\<lparr>rt_conns := map_put k (rl_conn c) (rt_conns t1)\<rparr>" "out = rl_out c"
      using e by simp_all
  qed
  have conns: "redis_conns_ok t'"
    using c t1 by (auto simp: eq redis_call_ok_def redis_conns_ok_def gm.ok_put gm.get_put split: if_splits)
  have len: "map_len (rt_conns t') \<le> redisSocketLimit"
    using opened(6) opened(1) by (auto simp: eq gm.len_put redis_tracker_ok_def)
  have pend: "rt_pending t' = int (map_total pending_weight (rt_conns t'))" "rt_pending t' \<le> redisPendingTotal"
    using c by (simp_all add: eq redis_call_ok_def pends.counted_def k_def)
  have evs: "list_all (redis_event_ok (rt_showSecrets t) k) out" using c opened(2) by (simp add: eq redis_call_ok_def k_def)
  then have sock: "ev_socketID e = k" if "e \<in> set out" for e using that by (simp add: list_all_iff redis_event_ok_def)
  have order: "in_order (waiting_on t j) (filter (\<lambda>e. ev_socketID e = j) out) (waiting_on t' j)" for j
  proof (cases "j = k")
    case True
    then have "filter (\<lambda>e. ev_socketID e = j) out = out" using sock by (simp add: filter_id_conv)
    moreover have "waiting_on t' j = map asked_of (rx_pending (rl_conn c))" by (simp add: waiting_on_def eq True gm.get_put t1)
    moreover have "in_order before out (map asked_of (rx_pending (rl_conn c)))" using c by (simp add: redis_call_ok_def eq)
    ultimately show ?thesis using redis_order.more opened(8) True by (simp add: before_def)
  next
    case False
    then have "filter (\<lambda>e. ev_socketID e = j) out = []" using sock by (auto simp: filter_empty_conv)
    moreover have "waiting_on t' j = waiting_on t1 j" using False by (simp add: waiting_on_def eq gm.get_put t1)
    ultimately show ?thesis using redis_order.drop [OF redis_order.start opened(7)] by simp
  qed
  have "list_all (\<lambda>e. redis_event_ok (rt_showSecrets t) (ev_socketID e) e) out" using evs sock by (auto simp: list_all_iff)
  with conns len pend order show ?thesis
    using c opened(2,3) by (simp add: redis_step_ok_def redis_tracker_ok_def redis_call_ok_def eq)
qed

lemma redis_forget_ok:
  assumes ok: "redis_tracker_ok t"
  shows "redis_step_ok t (redis_forgetSocket t k) []"
proof (cases "map_get (rt_conns t) k")
  case None
  then show ?thesis using ok redis_order.start by (simp add: redis_forgetSocket_def redis_step_ok_def)
next
  case (Some conn)
  have m: "map_ok (rt_conns t)" "rt_pending t = int (map_total pending_weight (rt_conns t))"
    using ok by (simp_all add: redis_tracker_ok_def redis_conns_ok_def)
  have all: "filter (\<lambda>p. rp_at p \<le> maxUint64) ps = ps" for ps
    by (induction ps) (simp_all add: maxUint64_def)
  have ge: "int (length (rx_pending conn)) \<le> rt_pending t"
    using pends.counted_covers [OF m(2) Some] by (simp add: pending_weight_def)
  define t' where "t' = t\<lparr>rt_pending := rt_pending t - int (length (rx_pending conn)), rt_conns := map_del k (rt_conns t)\<rparr>"
  have eq: "redis_forgetSocket t k = t'"
    using ge by (simp add: redis_forgetSocket_def Some redis_drop_def all Let_def t'_def)
  have "redis_conns_ok t'" using ok m by (auto simp: t'_def redis_tracker_ok_def redis_conns_ok_def gm.ok_del gm.get_del split: if_splits)
  moreover have "map_len (rt_conns t') \<le> redisSocketLimit"
    using ok m Some by (auto simp: t'_def redis_tracker_ok_def gm.len_del)
  moreover have "rt_pending t' = int (map_total pending_weight (rt_conns t'))"
    using pends.counted_delete [OF m(2,1) Some] by (simp add: t'_def pending_weight_def)
  moreover have "subseq (waiting_on t' j) (waiting_on t j)" for j
    using m by (simp add: t'_def waiting_on_def gm.get_del)
  ultimately show ?thesis
    using ok redis_order.drop [OF redis_order.start] unfolding eq by (simp add: redis_step_ok_def redis_tracker_ok_def t'_def)
qed

lemma redis_step_keeps: "redis_tracker_ok t \<Longrightarrow> redis_step t input = (t', out) \<Longrightarrow> redis_step_ok t t' out"
  using redis_events_ok [of t] redis_forget_ok [of t] by (auto simp: redis_step_def split: redisInput.splits)

lemma redis_run_keeps: "redis_tracker_ok t \<Longrightarrow> redis_run t inputs = (t', out) \<Longrightarrow> redis_step_ok t t' out"
proof (induction inputs arbitrary: t t' out)
  case Nil
  then show ?case using redis_order.start by (simp add: redis_step_ok_def)
next
  case (Cons input inputs)
  obtain t1 out1 where s: "redis_step t input = (t1, out1)" by fastforce
  obtain t2 out2 where r: "redis_run t1 inputs = (t2, out2)" by fastforce
  note one = redis_step_keeps [OF Cons.prems(1) s]
  then have "redis_tracker_ok t1" by (simp add: redis_step_ok_def)
  note rest = Cons.IH [OF this r]
  have "t' = t2" "out = out1 @ out2" using Cons.prems(2) s r by simp_all
  then show ?case
    using one rest redis_order.trans by (simp add: redis_step_ok_def) blast
qed

lemma redis_tracker_ok_new: "redis_tracker_ok (newRedisTracker side showSecrets)"
  by (simp add: redis_tracker_ok_def redis_conns_ok_def newRedisTracker_def gm.ok_empty gm.get_empty gm.len_empty gm.total_empty
      redisPendingTotal_def redisSocketLimit_def)

lemma redis_run_new:
  "redis_run (newRedisTracker side showSecrets) inputs = (t, out) \<Longrightarrow> redis_step_ok (newRedisTracker side showSecrets) t out"
  by (rule redis_run_keeps [OF redis_tracker_ok_new])

subsection \<open>The properties\<close>

text \<open>
  C23. After any records and closed sockets the tracker is bounded and its counter exact: at most
  65,536 sockets, at most 4,096 commands waiting on each, and \<open>pending\<close> is the number of commands that wait on all of
  them, at most 65,536.
\<close>

theorem redis_tracker_bounded:
  "case redis_run (newRedisTracker side showSecrets) inputs of (t, out) \<Rightarrow>
     map_len (rt_conns t) \<le> 65536 \<and> list_all (\<lambda>(k, conn). length (rx_pending conn) \<le> 4096) (rt_conns t) \<and>
     rt_pending t = int (map_total (\<lambda>conn. length (rx_pending conn)) (rt_conns t)) \<and> rt_pending t \<le> 65536"
proof -
  obtain t out where run: "redis_run (newRedisTracker side showSecrets) inputs = (t, out)" by fastforce
  have ok: "redis_tracker_ok t" using redis_run_new [OF run] by (simp add: redis_step_ok_def)
  have "length (rx_pending conn) \<le> 4096" if "(k, conn) \<in> set (rt_conns t)" for k conn
    using map_get_member [OF _ that] ok
    by (auto simp: redis_tracker_ok_def redis_conns_ok_def redis_conn_ok_def redisPendingLimit_def)
  then show ?thesis
    using ok by (auto simp: run redis_tracker_ok_def redisSocketLimit_def redisPendingTotal_def list_all_iff pending_weight_def [abs_def])
qed

text \<open>
  C26. Nothing unsafe leaves the tracker: every event of every run carries a Redis payload whose texts
  (command, key, arguments, kind of reply, value, class and message of an error, push kind, channel) are all safe to
  print, and without \<open>--show-secrets\<close> it carries no argument, no value and no error message at all.
\<close>

theorem redis_events_safe:
  "list_all (\<lambda>e. \<exists>info. ev_redis e = Some info \<and> redis_info_safe showSecrets info)
     (snd (redis_run (newRedisTracker side showSecrets) inputs))"
proof -
  obtain t out where run: "redis_run (newRedisTracker side showSecrets) inputs = (t, out)" by fastforce
  have "list_all (\<lambda>e. redis_event_ok showSecrets (ev_socketID e) e) out"
    using redis_run_new [OF run] by (simp add: redis_step_ok_def newRedisTracker_def)
  then show ?thesis
    unfolding run snd_conv by (rule list.pred_mono_strong) (auto simp: redis_event_ok_def)
qed

text \<open>
  C6. On every socket of every run the replies answer the commands in order: there are commands among
  those reported with a reply to come, distinct and in the order they were sent, such that the \<open>i\<close>-th reply
  carries the name and the key of the \<open>i\<close>-th of them, and as response time the time since that command. Pushed
  messages, lost framing, dropped commands, subscriptions and silent commands change nothing of it.
\<close>

theorem redis_replies_in_order:
  "\<exists>asked. subseq asked (commands_asked (filter (\<lambda>e. ev_socketID e = socket) (snd (redis_run (newRedisTracker side showSecrets) inputs)))) \<and>
     list_all2 answers asked (replies_of (filter (\<lambda>e. ev_socketID e = socket) (snd (redis_run (newRedisTracker side showSecrets) inputs))))"
proof -
  obtain t out where run: "redis_run (newRedisTracker side showSecrets) inputs = (t, out)" by fastforce
  have "in_order [] (filter (\<lambda>e. ev_socketID e = socket) out) (waiting_on t socket)"
    using redis_run_new [OF run] by (simp add: redis_step_ok_def waiting_on_def newRedisTracker_def gm.get_empty)
  then obtain qs where "subseq qs (commands_asked (filter (\<lambda>e. ev_socketID e = socket) out))"
    "list_all2 answers qs (replies_of (filter (\<lambda>e. ev_socketID e = socket) out))"
    unfolding commands_asked_def replies_of_def by (rule redis_order.answered)
  then show ?thesis unfolding run by auto
qed

end
