(* ===== verification/RedisReport.thy ===== *)
theory RedisReport
  imports RedisSummary RedisSafety
begin

text \<open>
  The report of a Redis trace (internal/edc/trace_redis.go) over the events of its tracker: what
  the totals, the sides and the rows count, how many commands are without a reply, and in which order the rows come.
\<close>

subsection \<open>Rows and totals\<close>

definition redis_summarize_events :: "captureEvent list \<Rightarrow> redisTraceSummarizer" where
  "redis_summarize_events es = fold redis_summarizer_observe es newRedisTraceSummarizer"

definition redis_counted :: "(captureEvent \<Rightarrow> bool) \<Rightarrow> captureEvent list \<Rightarrow> traceRedisCounts" where
  "redis_counted P es = counted_by redis_counts_observe redis_counts0 P es"

definition redis_entry :: "(captureEvent \<Rightarrow> bool) \<Rightarrow> captureEvent list \<Rightarrow> traceRedisCounts option" where
  "redis_entry P es = entry_by redis_counts_observe redis_counts0 P es"

lemma redis_counted_snoc:
  "redis_counted P (es @ [e]) = (if P e then redis_counts_observe e (redis_counted P es) else redis_counted P es)"
  by (simp add: redis_counted_def counted_by_snoc)

text \<open>The events of a side, and of a row: pushed messages belong to no row.\<close>

definition redis_has_side :: "bytes \<Rightarrow> captureEvent \<Rightarrow> bool" where
  "redis_has_side side e \<longleftrightarrow> ev_redis e \<noteq> None \<and> side \<noteq> [] \<and> ev_side e = side"

definition redis_has_key :: "redisTraceKey \<Rightarrow> captureEvent \<Rightarrow> bool" where
  "redis_has_key key e \<longleftrightarrow>
     ev_event e \<noteq> redisEventPush \<and> (\<exists>info. ev_redis e = Some info \<and> redis_trace_key e info = key)"

lemma redis_observe_total:
  "qz_counts (redis_summarizer_observe e s) =
     (if ev_redis e \<noteq> None then redis_counts_observe e (qz_counts s) else qz_counts s)"
  by (auto simp: redis_summarizer_observe_def Let_def split: option.split)

lemma redis_observe_side:
  "map_get (qz_sides (redis_summarizer_observe e s)) side =
     (if redis_has_side side e
      then Some (redis_counts_observe e (case map_get (qz_sides s) side of None \<Rightarrow> redis_counts0 | Some c \<Rightarrow> c))
      else map_get (qz_sides s) side)"
  by (auto simp: redis_summarizer_observe_def redis_has_side_def redis_side_observe_def gm.get_put Let_def split: option.split)

lemma redis_observe_row:
  "map_option qs_counts (map_get (qz_rows (redis_summarizer_observe e s)) key) =
     (if redis_has_key key e
      then Some (redis_counts_observe e (case map_option qs_counts (map_get (qz_rows s) key) of None \<Rightarrow> redis_counts0 | Some c \<Rightarrow> c))
      else map_option qs_counts (map_get (qz_rows s) key))"
  by (auto simp: redis_summarizer_observe_def redis_has_key_def redis_row_observe_def gm.get_put Let_def split: option.split)

interpretation redis_entries: trace_summary redis_summarizer_observe newRedisTraceSummarizer qz_counts
    "\<lambda>s. map_get (qz_sides s)" "\<lambda>s key. map_option qs_counts (map_get (qz_rows s) key)"
    redis_counts_observe redis_counts0 "\<lambda>e. ev_redis e \<noteq> None" redis_has_side redis_has_key
  by (unfold_locales; (simp only: redis_observe_total redis_observe_side redis_observe_row)?)
    (simp_all add: newRedisTraceSummarizer_def gm.get_empty)

lemmas redis_summary_entries = redis_entries.entries [folded redis_summarize_events_def redis_counted_def redis_entry_def]

subsection \<open>Commands without a reply\<close>

text \<open>Commands that are to be answered, and the answers.\<close>

definition redis_expected :: "captureEvent \<Rightarrow> bool" where
  "redis_expected e \<longleftrightarrow> redis_command_adds e = 1 \<and> redis_silent_adds e = 0"

lemma asked_expected: "asked_by e = Some q \<Longrightarrow> redis_expected e"
  by (auto simp: asked_by_def redis_expected_def redis_command_adds_def redis_silent_adds_def split: option.splits if_splits)

lemma redis_run_answers:
  assumes "redis_run (newRedisTracker side showSecrets) inputs = (t, out)"
  shows "length (replies_of out) \<le> length (filter redis_expected out)"
  unfolding replies_of_def
proof (rule filter_by_socket)
  fix k
  let ?es = "on_socket k out"
  have "in_order [] ?es (waiting_on t k)"
    using redis_run_new [OF assms]
    by (simp add: redis_step_ok_def waiting_on_def newRedisTracker_def gm.get_empty on_socket_def)
  then have "length (filter (\<lambda>e. redisResponseEvent (ev_event e)) ?es) \<le> length (filter (\<lambda>e. asked_by e \<noteq> None) ?es)"
    by (rule redis_order.answers_le)
  also have "\<dots> \<le> length (filter redis_expected ?es)"
    using asked_expected by (intro length_filter_mono) (auto simp: not_None_eq)
  finally show "length (filter (\<lambda>e. redisResponseEvent (ev_event e)) ?es) \<le> length (filter redis_expected ?es)" .
qed

text \<open>The events of a run all have a payload, and an answer answers one command.\<close>

lemma redis_run_counts:
  assumes "list_all (\<lambda>e. redis_event_ok shown (ev_socketID e) e) es"
  shows "qc_commands (redis_counted (\<lambda>e. ev_redis e \<noteq> None) es) =
      length (filter redis_expected es) + qc_noReply (redis_counted (\<lambda>e. ev_redis e \<noteq> None) es) \<and>
    qc_answered (redis_counted (\<lambda>e. ev_redis e \<noteq> None) es) = length (replies_of es)"
  using assms
proof (induction es rule: rev_induct)
  case Nil
  show ?case by (simp add: redis_counted_def counted_by_def redis_counts0_def replies_of_def)
next
  case (snoc e es)
  then have e: "ev_redis e \<noteq> None" "redisResponseEvent (ev_event e) \<Longrightarrow> ev_answered e = 1"
    by (auto simp: redis_event_ok_def split: if_splits)
  have "redis_command_adds e = (if redis_expected e then 1 else 0) + redis_silent_adds e"
    by (auto simp: redis_expected_def redis_silent_adds_def redis_command_adds_def)
  then show ?case
    using snoc e qcommands.weight_observe [of e] qsilent.weight_observe [of e] qanswered.weight_observe [of e]
    by (auto simp: redis_counted_snoc replies_of_def redis_answer_adds_def)
qed

subsection \<open>The properties\<close>


subsection \<open>The order of the report\<close>

definition redis_row_key :: "redisTraceRow \<Rightarrow> int \<times> bytes \<times> bytes" where
  "redis_row_key r = (- int (qc_commands (qr_counts r)), qr_command r, qr_side r)"

interpretation redis_order: row_order redis_row_less redis_row_key
  by unfold_locales (auto simp: redis_row_less_def redis_row_key_def less_prod_def)

lemma redis_rows_distinct: "map_ok m \<Longrightarrow> inj_on redis_row_key (set (map redis_report_row m))"
  by (erule rows_distinct) (auto simp: redis_row_key_def redis_report_row_def split: prod.splits)

text \<open>The rows of the report do not depend on how Go walks its map and sorts.\<close>

lemma redis_report_order:
  assumes "map_ok (qz_rows s)" and "mset rows = mset (map redis_report_row (qz_rows s))"
    and "sorted_wrt (\<lambda>left right. \<not> redis_row_less right left) rows"
  shows "qp_rows (redis_summarize s lost duration) = rows"
  using redis_order.sort_determined [OF assms(2,3) redis_rows_distinct [OF assms(1)]]
  by (simp add: redis_summarize_def Let_def)

end
