(* ===== verification/RedisWire.thy ===== *)
theory RedisWire
  imports RedisFraming
begin

text \<open>
  The reader of Redis requests (internal/edc/trace_redis.go) against the wire format: what it
  reports of the requests that a client encodes, however they are pipelined and cut, and which
  arguments it never looks at.
\<close>

subsection \<open>Requests on the wire\<close>

definition crlf :: bytes where "crlf = [CHR 0x0D, CHR 0x0A]"

definition encode_bulk :: "bytes \<Rightarrow> bytes" where
  "encode_bulk arg = CHR ''$'' # decimal (length arg) @ crlf @ arg @ crlf"

definition encode_request :: "bytes list \<Rightarrow> bytes" where
  "encode_request args = CHR ''*'' # decimal (length args) @ crlf @ concat (map encode_bulk args)"

text \<open>The decoder on the arguments themselves: each is kept as far as \<open>want\<close> says.\<close>

definition decode_arg :: "nat \<times> bytes \<Rightarrow> redisDecoder \<Rightarrow> redisDecoder" where
  "decode_arg = (\<lambda>(i, arg) d. decoder_done i (take (nat (want d i)) arg) (int (length arg)) d)"

definition decode_args :: "bool \<Rightarrow> bytes list \<Rightarrow> redisDecoder" where
  "decode_args showSecrets args =
     fold decode_arg (enumerate 0 args) (decoder_start (int (length args)) showSecrets)"

definition request_frame :: "bool \<Rightarrow> u64 \<Rightarrow> bytes list \<Rightarrow> redisFrame" where
  "request_frame showSecrets tm args =
     frame0\<lparr>fr_kind := CHR ''*'', fr_count := length args, fr_at := tm, fr_bytes := length (encode_request args),
       fr_command := Some (decoder_result False (decode_args showSecrets args))\<rparr>"

definition request_ok :: "bytes list \<Rightarrow> bool" where
  "request_ok args \<longleftrightarrow>
     args \<noteq> [] \<and> length args \<le> redisBulkLimit \<and> list_all (\<lambda>arg. length arg \<le> redisBulkLimit) args"

subsection \<open>Reading a piece\<close>

definition reads where
  "reads keep tm xs r fs r1 fs1 \<longleftrightarrow>
     (\<forall>ys. redis_feed_loop redis_log keep tm (xs @ ys) (length (xs @ ys)) r fs =
           redis_feed_loop redis_log keep tm ys (length ys) r1 fs1)"

lemma reads_trans:
  "reads keep tm xs r fs r1 fs1 \<Longrightarrow> reads keep tm ys r1 fs1 r2 fs2 \<Longrightarrow> reads keep tm (xs @ ys) r fs r2 fs2"
  by (simp add: reads_def) (metis append.assoc length_append)

lemma reads_nil: "reads keep tm [] r fs r fs"
  by (simp add: reads_def)

lemma reads_byte:
  assumes "rr_state r \<noteq> StateBulk" and "byte_step (keep fs) tm b r = (True, r1, out)"
  shows "reads keep tm [b] r fs r1 (notify redis_log out fs)"
  unfolding reads_def
proof
  fix ys
  show "redis_feed_loop redis_log keep tm ([b] @ ys) (length ([b] @ ys)) r fs =
      redis_feed_loop redis_log keep tm ys (length ys) r1 (notify redis_log out fs)"
    by (rule loop_goes_on) (simp_all add: redis_feed_step_byte [OF assms(1)] assms(2))
qed

lemma reads_bulk:
  assumes "rr_state r = StateBulk" and "length v = rr_left r" and "v \<noteq> []"
    and "bulk_step v (length v) r = (True, r1, out)"
  shows "reads keep tm v r fs r1 (notify redis_log out fs)"
  unfolding reads_def
proof
  fix ys
  show "redis_feed_loop redis_log keep tm (v @ ys) (length (v @ ys)) r fs =
      redis_feed_loop redis_log keep tm ys (length ys) r1 (notify redis_log out fs)"
    by (rule loop_goes_on) (use assms in \<open>simp_all add: redis_feed_step_bulk [OF assms(1)] flip: assms(2)\<close>)
qed

lemma add_bytes_cr [simp]: "rr_cr (add_bytes n r) = rr_cr r"
  by (simp add: add_bytes_def)

subsection \<open>Numbers\<close>

lemma decimal_length: "n < 10 ^ Suc k \<Longrightarrow> length (decimal n) \<le> Suc k"
proof (induction k arbitrary: n)
  case 0
  then show ?case by (subst decimal.simps) simp
next
  case (Suc k)
  then have "n div 10 < 10 ^ Suc k" by auto
  then show ?case using Suc.IH [of "n div 10"] by (subst decimal.simps) simp
qed

lemma decimal_short: "n \<le> redisBulkLimit \<Longrightarrow> length (decimal n) \<le> 9"
  using decimal_length [of n 8] by (simp add: redisBulkLimit_def)

definition more_digits :: "nat \<Rightarrow> bytes \<Rightarrow> nat" where
  "more_digits n ds = foldl (\<lambda>n b. 10 * n + (bval b - 48)) n ds"

lemma more_digits_ge: "n \<le> more_digits n ds"
proof (induction ds arbitrary: n)
  case (Cons b ds)
  have "n \<le> 10 * n + (bval b - 48)" by simp
  also have "\<dots> \<le> more_digits (10 * n + (bval b - 48)) ds" by (rule Cons.IH)
  finally show ?case by (simp add: more_digits_def)
qed (simp add: more_digits_def)

text \<open>A reader at the start of a line of a length.\<close>

definition at_length :: "redisReader \<Rightarrow> bool" where
  "at_length r \<longleftrightarrow>
     rr_state r = StateLine \<and> \<not> rr_cr r \<and> redisLengthType (rr_elemKind r) \<and> rr_lineLen r = 0 \<and>
     \<not> rr_negative r \<and> rr_number r = 0 \<and> rr_digits r = 0 \<and> \<not> rr_overflow r"

lemma digit_plain: "is_digit b \<Longrightarrow> b \<noteq> CHR ''-'' \<and> b \<noteq> CHR 0x0D \<and> b \<noteq> CHR 0x0A"
  by (auto simp: is_digit_def)

lemma reads_digits:
  assumes "list_all is_digit ds" and "rr_state r = StateLine" "\<not> rr_cr r" "redisLengthType (rr_elemKind r)"
    and "rr_lineLen r + length ds \<le> redisLengthLine" and "more_digits (rr_number r) ds \<le> redisBulkLimit"
  shows "reads keep tm ds r fs
     (add_bytes (length ds) r\<lparr>rr_lineLen := rr_lineLen r + length ds, rr_number := more_digits (rr_number r) ds,
        rr_digits := rr_digits r + length ds\<rparr>) fs"
  using assms
proof (induction ds arbitrary: r)
  case Nil
  then show ?case by (simp add: reads_nil more_digits_def add_bytes_def)
next
  case (Cons b ds)
  define v where "v = 10 * rr_number r + (bval b - 48)"
  define r1 where "r1 = add_bytes 1 r\<lparr>rr_lineLen := rr_lineLen r + 1, rr_number := v, rr_digits := rr_digits r + 1\<rparr>"
  have v: "v \<le> more_digits (rr_number r) (b # ds)"
    using more_digits_ge [of v ds] by (simp add: more_digits_def v_def)
  then have "v \<le> mathMaxInt" using Cons.prems(6) by (simp add: redisBulkLimit_def mathMaxInt_def)
  then have fits: "\<not> (mathMaxInt - (bval b - 48)) div 10 < rr_number r"
    by (simp add: v_def)
  have "byte_step (keep fs) tm b r = (True, r1, None)"
    using Cons.prems digit_plain [of b] fits
    by (simp add: byte_step_def line_def digit_def add_bytes_def Let_def r1_def v_def algebra_simps)
  then have one: "reads keep tm [b] r fs r1 fs"
    using reads_byte [of r keep fs tm b r1 None] Cons.prems(2) by (simp add: notify_def)
  have "reads keep tm ds r1 fs
     (add_bytes (length ds) r1\<lparr>rr_lineLen := rr_lineLen r1 + length ds, rr_number := more_digits (rr_number r1) ds,
        rr_digits := rr_digits r1 + length ds\<rparr>) fs"
    by (rule Cons.IH) (use Cons.prems in \<open>simp_all add: r1_def add_bytes_def more_digits_def v_def\<close>)
  from reads_trans [OF one this] show ?case
    by (simp add: r1_def add_bytes_def more_digits_def v_def)
qed

lemma reads_length:
  assumes at: "at_length r" and n: "n \<le> redisBulkLimit"
    and stop: "lineEnd (add_bytes (length (decimal n) + 2) r\<lparr>rr_lineLen := length (decimal n), rr_number := n,
        rr_digits := length (decimal n), rr_cr := False\<rparr>) = (True, r1, out)"
  shows "reads keep tm (decimal n @ crlf) r fs r1 (notify redis_log out fs)"
proof -
  have val: "more_digits 0 (decimal n) = n"
    using parse_decimal_decimal [of n] decimal_digits [of n]
    by (simp add: more_digits_def parse_decimal_def digits_value_def)
  define r2 where "r2 = add_bytes (length (decimal n)) r\<lparr>rr_lineLen := length (decimal n), rr_number := n,
        rr_digits := length (decimal n)\<rparr>"
  have digits: "reads keep tm (decimal n) r fs r2 fs"
    using reads_digits [of "decimal n" r keep tm fs] at n decimal_short [OF n] decimal_digits [of n]
    by (simp add: at_length_def val r2_def redisLengthLine_def)
  have "byte_step (keep fs) tm (CHR 0x0D) r2 = (True, add_bytes 1 r2\<lparr>rr_cr := True\<rparr>, None)"
    using at by (simp add: byte_step_def line_def at_length_def r2_def add_bytes_def)
  then have cr: "reads keep tm [CHR 0x0D] r2 fs (add_bytes 1 r2\<lparr>rr_cr := True\<rparr>) fs"
    using reads_byte [of r2 keep fs tm "CHR 0x0D" _ None] at by (simp add: notify_def r2_def at_length_def)
  have "add_bytes 1 (add_bytes 1 r2\<lparr>rr_cr := True\<rparr>)\<lparr>rr_cr := False\<rparr> =
      add_bytes (length (decimal n) + 2) r\<lparr>rr_lineLen := length (decimal n), rr_number := n,
        rr_digits := length (decimal n), rr_cr := False\<rparr>"
    by (cases r) (simp add: r2_def add_bytes_def)
  then have "byte_step (keep fs) tm (CHR 0x0A) (add_bytes 1 r2\<lparr>rr_cr := True\<rparr>) = (True, r1, out)"
    using at stop by (simp add: byte_step_def line_def at_length_def r2_def add_bytes_fields)
  then have lf: "reads keep tm [CHR 0x0A] (add_bytes 1 r2\<lparr>rr_cr := True\<rparr>) fs r1 (notify redis_log out fs)"
    using at by (intro reads_byte) (simp_all add: r2_def at_length_def add_bytes_def)
  from reads_trans [OF reads_trans [OF digits cr] lf] show ?thesis by (simp add: crlf_def)
qed

subsection \<open>One request\<close>

text \<open>The reader between two requests, and before the argument \<open>i\<close> of \<open>n\<close>.\<close>

definition at_request :: "bool \<Rightarrow> redisReader \<Rightarrow> bool" where
  "at_request showSecrets r \<longleftrightarrow>
     rr_request r \<and> rr_showSecrets r = showSecrets \<and> rr_state r = StateType \<and> rr_stack r = [] \<and>
     \<not> rr_inFrame r \<and> rr_held r = [] \<and> \<not> kp_heads (rr_policy r)"

definition at_arg :: "bool \<Rightarrow> nat \<Rightarrow> nat \<Rightarrow> redisFrame \<Rightarrow> redisDecoder \<Rightarrow> redisReader \<Rightarrow> bool" where
  "at_arg showSecrets n i f d r \<longleftrightarrow>
     rr_request r \<and> rr_showSecrets r = showSecrets \<and> rr_state r = StateType \<and>
     rr_stack r = [\<lparr>lv_kind = CHR ''*'', lv_inAttr = False, lv_left = n - i, lv_index = i\<rparr>] \<and>
     rr_inFrame r \<and> rr_held r = [] \<and> \<not> kp_heads (rr_policy r) \<and> rr_frame r = f \<and> rr_command r = d"

lemma at_request0: "at_request showSecrets (reader0 True showSecrets)"
  by (simp add: at_request_def reader0_def keep0_def)

lemma reads_header:
  assumes at: "at_request showSecrets r"
    and n: "0 < n" "n \<le> redisBulkLimit"
  shows "\<exists>r1. reads keep tm (CHR ''*'' # decimal n @ crlf) r fs r1 fs \<and>
    at_arg showSecrets n 0
      (frame0\<lparr>fr_kind := CHR ''*'', fr_count := n, fr_at := tm, fr_bytes := 3 + length (decimal n)\<rparr>)
      (decoder_start (int n) showSecrets) r1"
proof -
  define r0 where "r0 = begin_element (keep fs) (CHR ''*'') (add_bytes 1 (r\<lparr>rr_inFrame := True, rr_frame := frame0\<lparr>fr_at := tm\<rparr>\<rparr>))"
  have "byte_step (keep fs) tm (CHR ''*'') r = (True, r0, None)"
    using at by (simp add: byte_step_def at_request_def reader_begin_def Let_def add_bytes_def r0_def)
  then have star: "reads keep tm [CHR ''*''] r fs r0 fs"
    using reads_byte [of r keep fs tm "CHR ''*''" r0 None] at by (simp add: at_request_def notify_def)
  have r0: "at_length r0" "rr_elemKind r0 = CHR ''*''" "rr_elemDepth r0 = 0" "\<not> rr_elemAttr r0" "rr_request r0"
    "rr_stack r0 = []" "rr_inFrame r0" "rr_held r0 = []" "\<not> kp_heads (rr_policy r0)" "rr_showSecrets r0 = showSecrets"
    "rr_frame r0 = frame0\<lparr>fr_kind := CHR ''*'', fr_at := tm, fr_bytes := 1\<rparr>"
    using at by (simp_all add: r0_def begin_element_def begin_place_def at_request_def at_length_def
        add_bytes_def redisLengthType_def Let_def frame0_def split: option.split)
  define r1 where "r1 = add_bytes (length (decimal n) + 2) r0\<lparr>rr_lineLen := length (decimal n), rr_number := n,
     rr_digits := length (decimal n), rr_cr := False\<rparr>"
  define r2 where "r2 = r1\<lparr>rr_frame := rr_frame r1\<lparr>fr_count := n\<rparr>, rr_command := decoder_start (int n) showSecrets,
     rr_stack := [\<lparr>lv_kind = CHR ''*'', lv_inAttr = False, lv_left = n, lv_index = 0\<rparr>], rr_state := StateType\<rparr>"
  have "open_aggregate n r1 = (True, r2, None)"
    using r0 n by (simp add: open_aggregate_def Let_def r1_def r2_def add_bytes_def redisDepthLimit_def)
  then have "lineEnd r1 = (True, r2, None)"
    using r0 n decimal_digits [of n]
    by (simp add: lineEnd_def Let_def r1_def at_length_def redisLengthType_def add_bytes_def)
  then have "reads keep tm (decimal n @ crlf) r0 fs r2 fs"
    using reads_length [OF r0(1) n(2), of r2 None keep tm fs] by (simp add: r1_def notify_def)
  from reads_trans [OF star this] have "reads keep tm (CHR ''*'' # decimal n @ crlf) r fs r2 fs" by simp
  moreover have "at_arg showSecrets n 0
      (frame0\<lparr>fr_kind := CHR ''*'', fr_count := n, fr_at := tm, fr_bytes := 3 + length (decimal n)\<rparr>)
      (decoder_start (int n) showSecrets) r2"
    using r0 by (simp add: at_arg_def r2_def r1_def add_bytes_def frame0_def)
  ultimately show ?thesis by blast
qed

text \<open>Before the body of the argument \<open>i\<close>, of length \<open>k\<close>.\<close>

definition at_body :: "bool \<Rightarrow> nat \<Rightarrow> nat \<Rightarrow> nat \<Rightarrow> redisFrame \<Rightarrow> redisDecoder \<Rightarrow> redisReader \<Rightarrow> bool" where
  "at_body showSecrets n i k f d r \<longleftrightarrow>
     rr_request r \<and> rr_showSecrets r = showSecrets \<and> rr_state r = StateBulk \<and> rr_left r = k + 2 \<and> rr_bulkLen r = k \<and>
     rr_stack r = [\<lparr>lv_kind = CHR ''*'', lv_inAttr = False, lv_left = n - i, lv_index = i\<rparr>] \<and>
     rr_inFrame r \<and> rr_held r = [] \<and> \<not> kp_heads (rr_policy r) \<and> rr_frame r = f \<and> rr_command r = d \<and>
     rr_elemKind r = CHR ''$'' \<and> rr_elemDepth r = 1 \<and> \<not> rr_elemAttr r \<and> rr_elemIndex r = i \<and> rr_elemKeep r = want d i"

lemma reads_arg_head:
  assumes at: "at_arg showSecrets n i f d r" and len: "k \<le> redisBulkLimit"
  shows "\<exists>r1. reads keep tm (CHR ''$'' # decimal k @ crlf) r fs r1 fs \<and>
    at_body showSecrets n i k (f\<lparr>fr_bytes := fr_bytes f + length (decimal k) + 3\<rparr>) d r1"
proof -
  define r0 where "r0 = begin_element (keep fs) (CHR ''$'') (add_bytes 1 r)"
  have "byte_step (keep fs) tm (CHR ''$'') r = (True, r0, None)"
    using at by (simp add: byte_step_def at_arg_def reader_begin_def Let_def add_bytes_def r0_def)
  then have dollar: "reads keep tm [CHR ''$''] r fs r0 fs"
    using reads_byte [of r keep fs tm "CHR ''$''" r0 None] at by (simp add: at_arg_def notify_def)
  have r0: "at_length r0" "rr_elemKind r0 = CHR ''$''" "rr_elemDepth r0 = 1" "\<not> rr_elemAttr r0" "rr_request r0"
    "rr_stack r0 = rr_stack r" "rr_inFrame r0" "rr_held r0 = []" "\<not> kp_heads (rr_policy r0)"
    "rr_showSecrets r0 = showSecrets" "rr_frame r0 = f\<lparr>fr_bytes := fr_bytes f + 1\<rparr>" "rr_command r0 = d"
    "rr_elemIndex r0 = i" "rr_elemKeep r0 = want d i"
    using at by (simp_all add: r0_def begin_element_def begin_place_def at_arg_def at_length_def
        add_bytes_def redisLengthType_def Let_def keepFor_def)
  define r1 where "r1 = add_bytes (length (decimal k) + 2) r0\<lparr>rr_lineLen := length (decimal k), rr_number := k,
     rr_digits := length (decimal k), rr_cr := False\<rparr>"
  define r2 where "r2 = r1\<lparr>rr_state := StateBulk, rr_left := k + 2, rr_bulkLen := k, rr_classLen := 0, rr_classDone := 0\<rparr>"
  have "lineEnd r1 = (True, r2, None)"
    using r0 len decimal_digits [of k]
    by (simp add: lineEnd_def Let_def r1_def r2_def at_length_def redisLengthType_def add_bytes_def)
  then have head: "reads keep tm (decimal k @ crlf) r0 fs r2 fs"
    using reads_length [OF r0(1), of k r2 None keep tm fs] len by (simp add: r1_def notify_def)
  have "at_body showSecrets n i k (f\<lparr>fr_bytes := fr_bytes f + length (decimal k) + 3\<rparr>) d r2"
    using r0 at by (simp add: at_body_def r2_def r1_def add_bytes_def at_arg_def)
  with reads_trans [OF dollar head] show ?thesis by auto
qed

lemma reads_arg_body:
  assumes at: "at_body showSecrets n i (length arg) f d r" and i: "i < n"
  shows "\<exists>r1. reads keep tm (arg @ crlf) r fs r1
       (if Suc i = n then fs @ [frame_view (f\<lparr>fr_bytes := fr_bytes f + length arg + 2,
          fr_command := Some (decoder_result False (decode_arg (i, arg) d))\<rparr>)] else fs) \<and>
    (if Suc i = n then at_request showSecrets r1
     else at_arg showSecrets n (Suc i) (f\<lparr>fr_bytes := fr_bytes f + length arg + 2\<rparr>) (decode_arg (i, arg) d) r1)"
proof -
  define n' where "n' = length arg"
  define v where "v = arg @ crlf"
  define kept where "kept = take (nat (want d i)) arg"
  define r3 where "r3 = add_bytes (n' + 2) (r\<lparr>rr_held := kept, rr_left := 0\<rparr>)"
  have v: "length v = rr_left r" "v \<noteq> []" "rr_state r = StateBulk" "bulk_offset r = 0" "rr_left r = n' + 2"
    using at by (simp_all add: v_def at_body_def n'_def crlf_def bulk_offset_def)
  have "bulk_tail_ok n' n' crlf" by (auto simp: bulk_tail_ok_def crlf_def nth_Cons split: nat.split)
  moreover have "length v = n' + 2" "take n' v = arg" "drop n' v = crlf"
    by (simp_all add: v_def n'_def crlf_def)
  moreover have "rr_bulkLen r = n'" using at by (simp add: at_body_def n'_def)
  moreover have "body_read arg r = r\<lparr>rr_held := kept\<rparr>"
    using at by (simp add: body_read_def kept_def at_body_def)
  ultimately have "bulk v (length v) r = (True, r\<lparr>rr_held := kept, rr_left := 0\<rparr>)"
    using bulk_body [of v r] v by (simp add: Let_def n'_def)
  then have step: "bulk_step v (length v) r = finishScalar kept (int n') r3"
    using at by (simp add: bulk_step_def Let_def r3_def v) (simp add: at_body_def n'_def)
  have r3: "rr_elemKind r3 = CHR ''$''" "rr_elemDepth r3 = 1" "\<not> rr_elemAttr r3" "rr_request r3" "rr_stack r3 = rr_stack r"
    "rr_inFrame r3" "\<not> kp_heads (rr_policy r3)" "rr_showSecrets r3 = showSecrets" "rr_command r3 = d" "rr_elemIndex r3 = i"
    "rr_frame r3 = f\<lparr>fr_bytes := fr_bytes f + length arg + 2\<rparr>"
    using at by (simp_all add: r3_def add_bytes_def n'_def at_body_def)
  have dec: "decoder_done i kept (int n') d = decode_arg (i, arg) d" by (simp add: decode_arg_def kept_def n'_def)
  have scalar: "finishScalar kept (int n') r3 = finish (dropHeld (r3\<lparr>rr_command := decode_arg (i, arg) d\<rparr>))"
    using r3 by (simp add: finishScalar_def dec)
  obtain r4 out where fin: "finishScalar kept (int n') r3 = (True, r4, out)"
    and after: "if Suc i = n then at_request showSecrets r4 \<and>
        out = Some (f\<lparr>fr_bytes := fr_bytes f + length arg + 2,
          fr_command := Some (decoder_result False (decode_arg (i, arg) d))\<rparr>)
      else out = None \<and>
        at_arg showSecrets n (Suc i) (f\<lparr>fr_bytes := fr_bytes f + length arg + 2\<rparr>) (decode_arg (i, arg) d) r4"
  proof (cases "Suc i = n")
    case True
    then show ?thesis
      using that at r3 by (simp add: scalar finish_def Let_def dropHeld_def at_body_def at_request_def dropFrame_def keep0_def)
  next
    case False
    then have "0 < n - i - 1" using i by simp
    then show ?thesis
      using that False at r3 by (simp add: scalar finish_def Let_def dropHeld_def at_body_def at_arg_def)
  qed
  have "reads keep tm v r fs r4 (notify redis_log out fs)"
    by (rule reads_bulk) (use v step fin in simp_all)
  with after show ?thesis
    by (intro exI [of _ r4]) (auto simp: v_def notify_def redis_log_def)
qed

text \<open>One argument: it goes to the decoder, and the last one ends the frame.\<close>

lemma reads_arg:
  assumes at: "at_arg showSecrets n i f d r" and i: "i < n" and len: "length arg \<le> redisBulkLimit"
  shows "\<exists>r1. reads keep tm (encode_bulk arg) r fs r1
       (if Suc i = n then fs @ [frame_view (f\<lparr>fr_bytes := fr_bytes f + length (encode_bulk arg),
          fr_command := Some (decoder_result False (decode_arg (i, arg) d))\<rparr>)] else fs) \<and>
    (if Suc i = n then at_request showSecrets r1
     else at_arg showSecrets n (Suc i) (f\<lparr>fr_bytes := fr_bytes f + length (encode_bulk arg)\<rparr>) (decode_arg (i, arg) d) r1)"
proof -
  define f1 where "f1 = f\<lparr>fr_bytes := fr_bytes f + length (decimal (length arg)) + 3\<rparr>"
  obtain r1 where head: "reads keep tm (CHR ''$'' # decimal (length arg) @ crlf) r fs r1 fs"
    "at_body showSecrets n i (length arg) f1 d r1"
    using reads_arg_head [OF at len, of keep tm fs] unfolding f1_def by blast
  have sum: "fr_bytes f + length (encode_bulk arg) = fr_bytes f1 + length arg + 2" by (simp add: f1_def encode_bulk_def crlf_def)
  obtain r2 where body: "reads keep tm (arg @ crlf) r1 fs r2
       (if Suc i = n then fs @ [frame_view (f1\<lparr>fr_bytes := fr_bytes f1 + length arg + 2,
          fr_command := Some (decoder_result False (decode_arg (i, arg) d))\<rparr>)] else fs)"
    "if Suc i = n then at_request showSecrets r2
     else at_arg showSecrets n (Suc i) (f1\<lparr>fr_bytes := fr_bytes f1 + length arg + 2\<rparr>) (decode_arg (i, arg) d) r2"
    using reads_arg_body [OF head(2) i, of keep tm fs] by blast
  from reads_trans [OF head(1) body(1)] body(2) show ?thesis
    unfolding sum by (intro exI [of _ r2]) (auto simp: encode_bulk_def f1_def)
qed

text \<open>All arguments from \<open>i\<close> on.\<close>

definition with_command :: "nat \<Rightarrow> redisDecoder \<Rightarrow> redisFrame \<Rightarrow> redisFrame" where
  "with_command n d f =
     f\<lparr>fr_bytes := fr_bytes f + n, fr_command := Some (decoder_result False d)\<rparr>"

lemma reads_args:
  assumes "at_arg showSecrets n i f d r" and "args \<noteq> []" and "i + length args = n"
    and "list_all (\<lambda>arg. length arg \<le> redisBulkLimit) args" and "\<not> fr_lost f"
  shows "\<exists>r1. reads keep tm (concat (map encode_bulk args)) r fs r1
      (fs @ [with_command (length (concat (map encode_bulk args))) (fold decode_arg (enumerate i args) d) f]) \<and>
    at_request showSecrets r1"
  using assms
proof (induction args arbitrary: i f d r)
  case (Cons arg args)
  define f1 where "f1 = f\<lparr>fr_bytes := fr_bytes f + length (encode_bulk arg)\<rparr>"
  have i: "i < n" using Cons.prems by simp
  obtain r1 where first: "reads keep tm (encode_bulk arg) r fs r1
       (if Suc i = n then fs @ [frame_view (f1\<lparr>fr_command := Some (decoder_result False (decode_arg (i, arg) d))\<rparr>)]
        else fs)"
    and after: "if Suc i = n then at_request showSecrets r1 else at_arg showSecrets n (Suc i) f1 (decode_arg (i, arg) d) r1"
    using reads_arg [OF Cons.prems(1) i, of arg keep tm fs] Cons.prems(4) unfolding f1_def by (simp only: list.pred_inject) blast
  show ?case
  proof (cases "args = []")
    case True
    then show ?thesis
      using first after Cons.prems(3,5)
      by (auto simp: f1_def frame_view_def with_command_def)
  next
    case False
    with after Cons.prems(3) have at: "at_arg showSecrets n (Suc i) f1 (decode_arg (i, arg) d) r1" by (auto split: if_splits)
    have "\<exists>r2. reads keep tm (concat (map encode_bulk args)) r1 fs r2
        (fs @ [with_command (length (concat (map encode_bulk args))) (fold decode_arg (enumerate (Suc i) args) (decode_arg (i, arg) d)) f1]) \<and>
      at_request showSecrets r2"
      by (rule Cons.IH [OF at False]) (use Cons.prems in \<open>simp_all add: f1_def\<close>)
    then obtain r2 where rest: "reads keep tm (concat (map encode_bulk args)) r1 fs r2
        (fs @ [with_command (length (concat (map encode_bulk args))) (fold decode_arg (enumerate (Suc i) args) (decode_arg (i, arg) d)) f1])"
      "at_request showSecrets r2" by blast
    have "reads keep tm (encode_bulk arg) r fs r1 fs"
      using first False Cons.prems(3) by (auto split: if_splits)
    from reads_trans [OF this rest(1)] rest(2) show ?thesis
      by (auto simp: f1_def with_command_def add.assoc)
  qed
qed simp

lemma reads_request:
  assumes at: "at_request showSecrets r" and ok: "request_ok args"
  shows "\<exists>r1. reads keep tm (encode_request args) r fs r1 (fs @ [request_frame showSecrets tm args]) \<and>
    at_request showSecrets r1"
proof -
  define n where "n = length args"
  define f where "f = frame0\<lparr>fr_kind := CHR ''*'', fr_count := n, fr_at := tm, fr_bytes := 3 + length (decimal n)\<rparr>"
  have n: "0 < n" "n \<le> redisBulkLimit" using ok by (simp_all add: request_ok_def n_def)
  obtain r1 where head: "reads keep tm (CHR ''*'' # decimal n @ crlf) r fs r1 fs"
    "at_arg showSecrets n 0 f (decoder_start (int n) showSecrets) r1"
    using reads_header [OF at n, of keep tm fs] unfolding f_def by blast
  obtain r2 where rest: "reads keep tm (concat (map encode_bulk args)) r1 fs r2
      (fs @ [with_command (length (concat (map encode_bulk args)))
         (fold decode_arg (enumerate 0 args) (decoder_start (int n) showSecrets)) f])"
    "at_request showSecrets r2"
    using reads_args [OF head(2), of args keep tm fs] ok by (auto simp: request_ok_def n_def f_def)
  have "with_command (length (concat (map encode_bulk args)))
         (fold decode_arg (enumerate 0 args) (decoder_start (int n) showSecrets)) f = request_frame showSecrets tm args"
    by (simp add: with_command_def request_frame_def decode_args_def f_def n_def encode_request_def crlf_def)
  with reads_trans [OF head(1) rest(1)] rest(2) show ?thesis
    by (auto simp: encode_request_def n_def)
qed

lemma reads_requests:
  assumes "at_request showSecrets r" and "list_all request_ok requests"
  shows "\<exists>r1. reads keep tm (concat (map encode_request requests)) r fs r1
      (fs @ map (request_frame showSecrets tm) requests) \<and> at_request showSecrets r1"
  using assms
proof (induction requests arbitrary: r fs)
  case Nil
  then show ?case using reads_nil [of keep tm r fs] by auto
next
  case (Cons args requests)
  obtain r1 where one: "reads keep tm (encode_request args) r fs r1 (fs @ [request_frame showSecrets tm args])"
    "at_request showSecrets r1"
    using reads_request [OF Cons.prems(1), of args keep tm fs] Cons.prems(2) by auto
  obtain r2 where rest: "reads keep tm (concat (map encode_request requests)) r1 (fs @ [request_frame showSecrets tm args]) r2
      ((fs @ [request_frame showSecrets tm args]) @ map (request_frame showSecrets tm) requests)" "at_request showSecrets r2"
    using Cons.IH [OF one(2), of "fs @ [request_frame showSecrets tm args]"] Cons.prems(2) by auto
  from reads_trans [OF one(1) rest(1)] rest(2) show ?case by auto
qed

lemma reads_whole: "reads keep tm xs r fs r1 fs1 \<Longrightarrow> redis_feed redis_log keep xs (length xs) tm r fs = (True, r1, fs1)"
  by (auto simp: reads_def redis_feed_def loop_empty dest: spec [of _ "[]"])

lemma reads_some:
  assumes "at_arg showSecrets n i f d r" and "i + length args < n"
    and "list_all (\<lambda>arg. length arg \<le> redisBulkLimit) args"
  shows "\<exists>r1. reads keep tm (concat (map encode_bulk args)) r fs r1 fs \<and>
    at_arg showSecrets n (i + length args) (f\<lparr>fr_bytes := fr_bytes f + length (concat (map encode_bulk args))\<rparr>)
      (fold decode_arg (enumerate i args) d) r1"
  using assms
proof (induction args arbitrary: i f d r)
  case Nil
  then show ?case using reads_nil [of keep tm r fs] by auto
next
  case (Cons arg args)
  have i: "i < n" "Suc i \<noteq> n" using Cons.prems by simp_all
  obtain r1 where first: "reads keep tm (encode_bulk arg) r fs r1 fs"
    "at_arg showSecrets n (Suc i) (f\<lparr>fr_bytes := fr_bytes f + length (encode_bulk arg)\<rparr>) (decode_arg (i, arg) d) r1"
    using reads_arg [OF Cons.prems(1) i(1), of arg keep tm fs] i(2) Cons.prems(3) by auto
  obtain r2 where rest: "reads keep tm (concat (map encode_bulk args)) r1 fs r2 fs"
    "at_arg showSecrets n (Suc i + length args)
      (f\<lparr>fr_bytes := fr_bytes f + length (encode_bulk arg) + length (concat (map encode_bulk args))\<rparr>)
      (fold decode_arg (enumerate (Suc i) args) (decode_arg (i, arg) d)) r2"
    using Cons.IH [OF first(2)] Cons.prems(2,3) by auto
  from reads_trans [OF first(1) rest(1)] rest(2) show ?case by (auto simp: add.assoc)
qed

subsection \<open>Bytes that are not looked at\<close>

text \<open>Two byte strings after which, wherever they are cut, nothing in the reader tells them apart.\<close>

definition unseen where
  "unseen keep tm r fs xs ys \<longleftrightarrow> length xs = length ys \<and>
     (\<forall>k. redis_feed_loop redis_log keep tm (take k xs) (length (take k xs)) r fs =
          redis_feed_loop redis_log keep tm (take k ys) (length (take k ys)) r fs)"

lemma unseen_refl: "unseen keep tm r fs xs xs"
  by (simp add: unseen_def)

lemma unseen_whole: "unseen keep tm r fs xs ys \<Longrightarrow>
  redis_feed_loop redis_log keep tm xs (length xs) r fs = redis_feed_loop redis_log keep tm ys (length ys) r fs"
  by (auto simp: unseen_def dest: spec [of _ "length xs"])

lemma reads_loop: "reads keep tm xs r fs r1 fs1 \<Longrightarrow> redis_feed_loop redis_log keep tm xs (length xs) r fs = (True, r1, fs1)"
  by (auto simp: reads_def loop_empty dest: spec [of _ "[]"])

lemma unseen_append:
  assumes r: "reader_ok q r" "snd q" and one: "unseen keep tm r fs xs ys" and two: "unseen keep tm r1 fs1 xs' ys'"
    and loop: "redis_feed_loop redis_log keep tm xs (length xs) r fs = (True, r1, fs1)"
  shows "unseen keep tm r fs (xs @ xs') (ys @ ys')"
proof -
  have len: "length xs = length ys" "length xs' = length ys'" using one two by (simp_all add: unseen_def)
  have "redis_feed_loop redis_log keep tm (take k (xs @ xs')) (length (take k (xs @ xs'))) r fs =
        redis_feed_loop redis_log keep tm (take k (ys @ ys')) (length (take k (ys @ ys'))) r fs" for k
  proof (cases "k \<le> length xs")
    case True
    then have t: "take k (xs @ xs') = take k xs" "take k (ys @ ys') = take k ys" using len by simp_all
    show ?thesis unfolding t using one unfolding unseen_def by blast
  next
    case False
    define m where "m = k - length xs"
    have t: "take k (xs @ xs') = xs @ take m xs'" "take k (ys @ ys') = ys @ take m ys'"
      using False len by (simp_all add: m_def)
    have "redis_feed_loop redis_log keep tm (take m xs') (length (take m xs')) r1 fs1 =
        redis_feed_loop redis_log keep tm (take m ys') (length (take m ys')) r1 fs1"
      using two unfolding unseen_def by blast
    then show ?thesis
      unfolding t redis_feed_loop_two [OF r(1,2)] unseen_whole [OF one, symmetric] loop by simp
  qed
  with len show ?thesis by (simp add: unseen_def)
qed

lemma unseen_body:
  assumes bulk: "rr_state r = StateBulk" and left: "rr_left r = rr_bulkLen r + 2" and kind: "rr_elemKind r = CHR ''$''"
    and keep0: "rr_elemKeep r = 0" "rr_held r = []" and len: "length xs = rr_bulkLen r" "length ys = rr_bulkLen r"
  shows "unseen keep tm r fs xs ys"
    and "redis_feed_loop redis_log keep tm xs (length xs) r fs =
      (True, if xs = [] then r else add_bytes (length xs) (r\<lparr>rr_left := 2\<rparr>), fs)"
proof -
  have step: "redis_feed_loop redis_log keep tm v (length v) r fs =
      (True, if v = [] then r else add_bytes (length v) (r\<lparr>rr_left := rr_left r - length v\<rparr>), fs)"
    if "length v \<le> rr_bulkLen r" for v
  proof (cases "v = []")
    case True
    then show ?thesis by (simp add: loop_empty)
  next
    case False
    have off: "bulk_offset r = 0" by (simp add: bulk_offset_def left)
    have "body_read v r = r" using kind keep0 by (cases r) (simp add: body_read_def)
    then have "bulk v (length v) r = (True, r\<lparr>rr_left := rr_left r - length v\<rparr>)"
      using bulk_body [of v r] that by (simp add: Let_def left off bulk_tail_ok_def)
    then have "bulk_step v (length v) r = (True, add_bytes (length v) (r\<lparr>rr_left := rr_left r - length v\<rparr>), None)"
      using that by (simp add: bulk_step_def Let_def left)
    then have "redis_feed_step redis_log keep tm v (length v) r fs =
        Inr ([], 0, add_bytes (length v) (r\<lparr>rr_left := rr_left r - length v\<rparr>), fs)"
      using that by (simp add: redis_feed_step_bulk [OF bulk] left min_def notify_def)
    then show ?thesis using False by (simp add: loop_goes_on loop_empty)
  qed
  show "unseen keep tm r fs xs ys"
    unfolding unseen_def
  proof (intro conjI allI)
    show "length xs = length ys" using len by simp
    fix k
    have "length (take k xs) = length (take k ys)" using len by simp
    moreover from this have "take k xs = [] \<longleftrightarrow> take k ys = []" by (metis length_0_conv)
    moreover have "length (take k xs) \<le> rr_bulkLen r" "length (take k ys) \<le> rr_bulkLen r" using len by simp_all
    ultimately show "redis_feed_loop redis_log keep tm (take k xs) (length (take k xs)) r fs =
        redis_feed_loop redis_log keep tm (take k ys) (length (take k ys)) r fs"
      by (subst (1 2) step) (simp_all only:)
  qed
  show "redis_feed_loop redis_log keep tm xs (length xs) r fs =
      (True, if xs = [] then r else add_bytes (length xs) (r\<lparr>rr_left := 2\<rparr>), fs)"
    using step [of xs] len by (simp add: left)
qed

lemma reads_ok: "reads keep tm xs r fs r1 fs1 \<Longrightarrow> reader_ok (True, True) r \<Longrightarrow> reader_ok (True, True) r1"
  using redis_feed_log_ok [of "(True, True)" r keep xs 0 tm fs] reads_loop [of keep tm xs r fs r1 fs1] by (simp add: redis_feed_def)

text \<open>A secret argument: of its bytes only their number counts.\<close>

lemma unseen_arg:
  assumes at: "at_arg showSecrets n i f d r" and r: "reader_ok (True, True) r"
    and len: "length xs = length ys" "length xs \<le> redisBulkLimit" and no: "want d i = 0"
  shows "unseen keep tm r fs (encode_bulk xs) (encode_bulk ys)"
proof -
  obtain r1 f1 where head: "reads keep tm (CHR ''$'' # decimal (length xs) @ crlf) r fs r1 fs"
    "at_body showSecrets n i (length xs) f1 d r1"
    using reads_arg_head [OF at len(2), of keep tm fs] by blast
  have body: "rr_state r1 = StateBulk" "rr_left r1 = rr_bulkLen r1 + 2" "rr_elemKind r1 = CHR ''$''"
    "rr_elemKeep r1 = 0" "rr_held r1 = []" "length xs = rr_bulkLen r1" "length ys = rr_bulkLen r1"
    using head(2) no len by (simp_all add: at_body_def)
  have r1: "reader_ok (True, True) r1" by (rule reads_ok [OF head(1) r])
  have "unseen keep tm r1 fs (xs @ crlf) (ys @ crlf)"
    by (rule unseen_append [OF r1 _ unseen_body(1) [OF body] unseen_refl unseen_body(2) [OF body]]) simp
  from unseen_append [OF r _ unseen_refl this reads_loop [OF head(1)]]
  show ?thesis by (simp add: encode_bulk_def len)
qed

lemma secret_arg: "secret d i \<Longrightarrow> 0 < i \<Longrightarrow> want d i = 0 \<and> decode_arg (i, xs) d = d"
  by (simp add: want_def decode_arg_def decoder_done_def)

lemma unseen_args:
  assumes "at_arg showSecrets n i f d r" and "reader_ok (True, True) r" and "0 < i"
    and "map length xs = map length ys" and "i + length (xs @ rest) = n"
    and "list_all (\<lambda>arg. length arg \<le> redisBulkLimit) xs" and "\<forall>j < length xs. secret d (i + j)"
  shows "unseen keep tm r fs (concat (map encode_bulk (xs @ rest))) (concat (map encode_bulk (ys @ rest)))"
  using assms
proof (induction xs ys arbitrary: i f r rule: list_induct2')
  case (4 x xs y ys)
  have sec: "want d i = 0" "decode_arg (i, x) d = d" "decode_arg (i, y) d = d"
    using secret_arg [of d i] 4(8) spec [OF 4(8), of 0] 4(4) by simp_all
  have one: "unseen keep tm r fs (encode_bulk x) (encode_bulk y)"
    by (rule unseen_arg [OF 4(2,3)]) (use 4 sec in simp_all)
  show ?case
  proof (cases "xs @ rest = []")
    case True
    then show ?thesis using one 4(5) by simp
  next
    case False
    then have i: "i < n" "Suc i \<noteq> n" using 4(6) by auto
    obtain r1 f1 where first: "reads keep tm (encode_bulk x) r fs r1 fs" "at_arg showSecrets n (Suc i) f1 d r1"
      using reads_arg [OF 4(2) i(1), of x keep tm fs] i(2) 4(7) sec by auto
    have "unseen keep tm r1 fs (concat (map encode_bulk (xs @ rest))) (concat (map encode_bulk (ys @ rest)))"
    proof (rule 4(1) [OF first(2) reads_ok [OF first(1) 4(3)]])
      show "\<forall>j < length xs. secret d (Suc i + j)"
      proof (intro allI impI)
        fix j assume "j < length xs"
        then show "secret d (Suc i + j)" using spec [OF 4(8), of "Suc j"] by simp
      qed
    qed (use 4 in simp_all)
    from unseen_append [OF 4(3) _ one this reads_loop [OF first(1)]] show ?thesis by simp
  qed
qed (simp_all add: unseen_refl)

lemma unseen_request:
  assumes ok: "request_ok (p @ xs @ rest)" and p: "p \<noteq> []" and same: "map length xs = map length ys"
    and sec: "\<forall>j < length xs. secret (fold decode_arg (enumerate 0 p) (decoder_start (int (length (p @ xs @ rest))) showSecrets)) (length p + j)"
  shows "unseen keep tm (reader0 True showSecrets) fs (encode_request (p @ xs @ rest)) (encode_request (p @ ys @ rest))"
proof -
  define n where "n = length (p @ xs @ rest)"
  have len: "length ys = length xs" using same by (metis length_map)
  have n: "0 < n" "n \<le> redisBulkLimit" "length (p @ ys @ rest) = n"
    using ok p len by (simp_all add: request_ok_def n_def)
  define d where "d = fold decode_arg (enumerate 0 p) (decoder_start (int n) showSecrets)"
  have start: "reader_ok (True, True) (reader0 True showSecrets)" by (simp add: reader0_ok)
  obtain r1 f where head: "reads keep tm (CHR ''*'' # decimal n @ crlf) (reader0 True showSecrets) fs r1 fs"
    "at_arg showSecrets n 0 f (decoder_start (int n) showSecrets) r1"
    using reads_header [OF at_request0 n(1,2), where keep = keep and tm = tm and fs = fs] by blast
  show ?thesis
  proof (cases "xs @ rest = []")
    case True
    then show ?thesis using same by (simp add: unseen_refl)
  next
    case False
    then have "0 + length p < n" by (auto simp: n_def)
    then obtain r2 f1 where pre: "reads keep tm (concat (map encode_bulk p)) r1 fs r2 fs" "at_arg showSecrets n (length p) f1 d r2"
      using reads_some [OF head(2), of p keep tm fs] ok by (auto simp: request_ok_def d_def)
    have wire: "reads keep tm (CHR ''*'' # decimal n @ crlf @ concat (map encode_bulk p)) (reader0 True showSecrets) fs r2 fs"
      using reads_trans [OF head(1) pre(1)] by simp
    have r2: "reader_ok (True, True) r2" by (rule reads_ok [OF wire start])
    have "unseen keep tm r2 fs (concat (map encode_bulk (xs @ rest))) (concat (map encode_bulk (ys @ rest)))"
      by (rule unseen_args [OF pre(2) r2]) (use ok p same sec in \<open>simp_all add: request_ok_def n_def d_def\<close>)
    from unseen_append [OF start _ unseen_refl this reads_loop [OF wire]]
    show ?thesis using n(3) len by (simp add: encode_request_def n_def)
  qed
qed

subsection \<open>Where the secrets are\<close>

text \<open>
  The arguments that carry passwords, by the words before them: \<open>secret_after words m\<close> says that the
  \<open>m\<close> arguments after these words are secret. Words are in any case.
\<close>

definition word_is :: "bytes \<Rightarrow> bytes \<Rightarrow> bool" where
  "word_is w name \<longleftrightarrow> map ascii_upper w = name"

inductive secret_after :: "bytes list \<Rightarrow> nat \<Rightarrow> bool" where
  auth: "word_is a ''AUTH'' \<Longrightarrow> secret_after [a] m"
| config_set: "word_is c ''CONFIG'' \<Longrightarrow> word_is s ''SET'' \<Longrightarrow> secret_after [c, s] m"
| acl: "word_is a ''ACL'' \<Longrightarrow> word_is s ''SETUSER'' \<or> word_is s ''DRYRUN'' \<Longrightarrow> secret_after [a, s, user] m"
| sentinel: "word_is a ''SENTINEL'' \<Longrightarrow> word_is s ''SET'' \<or> word_is s ''CONFIG'' \<Longrightarrow> secret_after [a, s, name] m"
| hello: "word_is h ''HELLO'' \<Longrightarrow> word_is a ''AUTH'' \<Longrightarrow> m \<le> 2 \<Longrightarrow> secret_after [h, version, a] m"
| migrate: "word_is c ''MIGRATE'' \<Longrightarrow> list_all (\<lambda>w. word_is w ''COPY'' \<or> word_is w ''REPLACE'') options \<Longrightarrow>
    word_is a ''AUTH'' \<or> word_is a ''AUTH2'' \<Longrightarrow> secret_after ([c, host, port, key, db, timeout] @ options @ [a]) m"

lemma word_name: "word_is w name \<Longrightarrow> list_all name_byte w \<Longrightarrow> 0 < length name \<Longrightarrow> length name \<le> redisNameLimit \<Longrightarrow>
   redisName w (int (length w)) = Some name"
  by (auto simp: word_is_def redisName_def)

lemma upper_letter: "ascii_upper b = c \<Longrightarrow> 65 \<le> bval c \<and> bval c \<le> 90 \<Longrightarrow> name_byte b"
  by (auto simp: ascii_upper_def name_byte_def split: if_splits)

lemma word_letters: "word_is w name \<Longrightarrow> list_all (\<lambda>c. 65 \<le> bval c \<and> bval c \<le> 90) name \<Longrightarrow> list_all name_byte w"
  by (auto simp: word_is_def list_all_iff dest!: upper_letter [OF refl])

lemma command_word:
  "word_is w name \<Longrightarrow> list_all (\<lambda>c. 65 \<le> bval c \<and> bval c \<le> 90) name \<Longrightarrow> 0 < length name \<Longrightarrow>
   length name \<le> redisNameLimit \<Longrightarrow> redisName w (int (length w)) = Some name \<and> length w \<le> redisNameLimit"
  using word_name [of w name] word_letters [of w name] by (auto simp: word_is_def)

text \<open>The name and the subcommand of a request.\<close>

lemma decode_name:
  assumes "word_is w name" "list_all (\<lambda>c. 65 \<le> bval c \<and> bval c \<le> 90) name" "0 < length name" "length name \<le> redisNameLimit"
  shows "decode_arg (0, w) d = done_name w (int (length w)) d \<and> redisName w (int (length w)) = Some name"
  using command_word [OF assms] by (simp add: decode_arg_def decoder_done_def want_def redisNameLimit_def)

lemma decode_sub:
  assumes "word_is w name" "list_all (\<lambda>c. 65 \<le> bval c \<and> bval c \<le> 90) name" "0 < length name" "length name \<le> redisNameLimit"
    and "dc_name d \<noteq> []" "dc_container d" "\<not> secret d 1"
  shows "decode_arg (1, w) d = done_sub w (int (length w)) d \<and> redisName w (int (length w)) = Some name"
  using command_word [OF assms(1-4)] assms(5-) by (simp add: decode_arg_def decoder_done_def want_def Let_def redisNameLimit_def)

lemma secret_from: "dc_secretFrom d \<le> i \<Longrightarrow> secret d (i + j)"
  by (simp add: secret_def)

lemma decoded_auth:
  "word_is a ''AUTH'' \<Longrightarrow> dc_secretFrom (decode_arg (0, a) (decoder_start n show)) = 1"
  using decode_name [of a "''AUTH''" "decoder_start n show"]
  by (simp add: done_name_def redisNameLimit_def redisKeyAt_def redisFirstKey_def redisKeyPairs_def redisContainers_def Let_def)

lemma decoded_config:
  "word_is c ''CONFIG'' \<Longrightarrow> word_is s ''SET'' \<Longrightarrow>
   dc_secretFrom (decode_arg (1, s) (decode_arg (0, c) (decoder_start n show))) = 2"
  using decode_name [of c "''CONFIG''" "decoder_start n show"]
    decode_sub [of s "''SET''" "decode_arg (0, c) (decoder_start n show)"]
  by (simp add: done_name_def done_sub_def redisNameLimit_def redisKeyAt_def redisFirstKey_def redisKeyPairs_def
      redisContainers_def Let_def secret_def decoder_start_def decoder0_def mathMaxInt_def)

lemma decode_keeps_secret:
  "1 < i \<Longrightarrow> dc_name d \<noteq> ''HELLO'' \<Longrightarrow> dc_name d \<noteq> ''MIGRATE'' \<Longrightarrow>
   dc_secretFrom (decode_arg (i, x) d) = dc_secretFrom d"
  by (simp add: decode_arg_def decoder_done_def done_option_def done_keep_def Let_def split: option.split)

lemmas decode_tables = redisNameLimit_def redisKeyAt_def redisFirstKey_def redisKeyPairs_def redisContainers_def

lemma decoded_acl:
  assumes "word_is a ''ACL'' \<and> (word_is s ''SETUSER'' \<or> word_is s ''DRYRUN'') \<or>
    word_is a ''SENTINEL'' \<and> (word_is s ''SET'' \<or> word_is s ''CONFIG'')"
  shows "dc_secretFrom (decode_arg (2, x) (decode_arg (1, s) (decode_arg (0, a) (decoder_start n show)))) = 3"
proof -
  define d where "d = decode_arg (0, a) (decoder_start n show)"
  have d: "dc_container d" "dc_name d = ''ACL'' \<or> dc_name d = ''SENTINEL''"
    "word_is a ''ACL'' \<Longrightarrow> dc_name d = ''ACL''" "word_is a ''SENTINEL'' \<Longrightarrow> dc_name d = ''SENTINEL''"
    "dc_secretFrom d = mathMaxInt" "dc_helloSecret d = 0"
    using assms decode_name [of a "''ACL''" "decoder_start n show"] decode_name [of a "''SENTINEL''" "decoder_start n show"]
    by (auto simp: d_def done_name_def decode_tables Let_def decoder_start_def decoder0_def)
  have no: "\<not> secret d 1" "dc_name d \<noteq> []" using d by (auto simp: secret_def mathMaxInt_def)
  have "dc_secretFrom (decode_arg (1, s) d) = 3 \<and> dc_name (decode_arg (1, s) d) \<noteq> ''HELLO'' \<and>
      dc_name (decode_arg (1, s) d) \<noteq> ''MIGRATE''"
    using assms
  proof (elim disjE conjE)
    assume "word_is a ''ACL''" "word_is s ''SETUSER''"
    then show ?thesis
      using decode_sub [of s "''SETUSER''" d] no d by (simp add: done_sub_def decode_tables Let_def)
  next
    assume "word_is a ''ACL''" "word_is s ''DRYRUN''"
    then show ?thesis
      using decode_sub [of s "''DRYRUN''" d] no d by (simp add: done_sub_def decode_tables Let_def)
  next
    assume "word_is a ''SENTINEL''" "word_is s ''SET''"
    then show ?thesis
      using decode_sub [of s "''SET''" d] no d by (simp add: done_sub_def decode_tables Let_def)
  next
    assume "word_is a ''SENTINEL''" "word_is s ''CONFIG''"
    then show ?thesis
      using decode_sub [of s "''CONFIG''" d] no d by (simp add: done_sub_def decode_tables Let_def)
  qed
  then show ?thesis using decode_keeps_secret [of 2 "decode_arg (1, s) d" x] by (simp add: d_def)
qed

text \<open>Options of HELLO and MIGRATE are compared without regard to case.\<close>

lemma fold_upper_ascii: "list_all (\<lambda>b. bval b < 128) w \<Longrightarrow> fold_upper w = map ascii_upper w"
  by (induction w rule: fold_upper.induct) auto

lemma option_word:
  assumes "word_is w name" "list_all (\<lambda>c. bval c < 128) name"
  shows "fold_upper w = name"
proof -
  have "bval (ascii_upper b) < 128 \<Longrightarrow> bval b < 128" for b by (auto simp: ascii_upper_def split: if_splits)
  then have "list_all (\<lambda>b. bval b < 128) w" using assms by (auto simp: list_all_iff word_is_def)
  then show ?thesis using assms(1) by (simp add: fold_upper_ascii word_is_def)
qed

lemma done_keep_fields [simp]:
  "dc_name (done_keep i kept d) = dc_name d" "dc_optionAt (done_keep i kept d) = dc_optionAt d"
  "dc_container (done_keep i kept d) = dc_container d" "dc_secretFrom (done_keep i kept d) = dc_secretFrom d"
  "dc_helloSecret (done_keep i kept d) = dc_helloSecret d" "dc_keys (done_keep i kept d) = dc_keys d"
  by (simp_all add: done_keep_def Let_def)

lemma hello_version:
  assumes "dc_name d = ''HELLO''" "\<not> dc_container d" "dc_secretFrom d = mathMaxInt" "dc_helloSecret d = 0"
  shows "dc_name (decode_arg (1, v) d) = dc_name d \<and> dc_optionAt (decode_arg (1, v) d) = dc_optionAt d \<and>
    dc_container (decode_arg (1, v) d) = dc_container d \<and> dc_secretFrom (decode_arg (1, v) d) = dc_secretFrom d \<and>
    dc_helloSecret (decode_arg (1, v) d) = dc_helloSecret d"
proof -
  obtain kept len where k: "decode_arg (1, v) d = decoder_done 1 kept len d" by (simp add: decode_arg_def)
  have "\<not> secret d 1" using assms by (simp add: secret_def mathMaxInt_def)
  then show ?thesis unfolding k by (simp add: decoder_done_def done_option_def Let_def assms)
qed

lemma decoded_hello:
  assumes h: "word_is h ''HELLO''" and a: "word_is a ''AUTH''"
  shows "dc_helloSecret (decode_arg (2, a) (decode_arg (1, v) (decode_arg (0, h) (decoder_start n show)))) = 4"
proof -
  define d where "d = decode_arg (1, v) (decode_arg (0, h) (decoder_start n show))"
  have d: "dc_name d = ''HELLO''" "dc_optionAt d = 2" "\<not> dc_container d" "\<not> secret d 2"
  proof -
    define d0 where "d0 = decode_arg (0, h) (decoder_start n show)"
    have "dc_name d0 = ''HELLO''" "dc_optionAt d0 = 2" "\<not> dc_container d0" "dc_secretFrom d0 = mathMaxInt" "dc_helloSecret d0 = 0"
      using decode_name [of h "''HELLO''" "decoder_start n show"] h
      by (simp_all add: d0_def done_name_def decode_tables Let_def decoder_start_def decoder0_def)
    then show "dc_name d = ''HELLO''" "dc_optionAt d = 2" "\<not> dc_container d" "\<not> secret d 2"
      using hello_version [of d0 v] unfolding d_def d0_def [symmetric] by (simp_all add: secret_def mathMaxInt_def)
  qed
  have "length a = 4" using a by (auto simp: word_is_def dest: arg_cong [of _ _ length])
  then have "decode_arg (2, a) d = decoder_done 2 a (int (length a)) d"
    using d by (simp add: decode_arg_def want_def redisWordKeep_def redisKeyKeep_def previewKeep_def redisValueKeep_def)
  moreover have "equal_fold a ''AUTH''" using option_word [OF a] by (simp add: equal_fold_def)
  ultimately have "dc_helloSecret (decode_arg (2, a) d) = 4"
    using d by (simp add: decoder_done_def done_option_def Let_def)
  then show ?thesis by (simp only: d_def)
qed

text \<open>MIGRATE: five plain arguments, the options, and then the password.\<close>

definition migrate_at :: "nat \<Rightarrow> redisDecoder \<Rightarrow> bool" where
  "migrate_at i d \<longleftrightarrow>
     dc_name d = ''MIGRATE'' \<and> dc_secretFrom d = mathMaxInt \<and> dc_helloSecret d = 0 \<and> \<not> dc_container d \<and>
     dc_optionAt d = max i 6 \<and> \<not> dc_keys d"

lemma migrate_start: "word_is c ''MIGRATE'' \<Longrightarrow> migrate_at 1 (decode_arg (0, c) (decoder_start n show))"
  using decode_name [of c "''MIGRATE''" "decoder_start n show"]
  by (simp add: migrate_at_def done_name_def decode_tables Let_def decoder_start_def decoder0_def)

lemma migrate_plain: "migrate_at i d \<Longrightarrow> 0 < i \<Longrightarrow> i < 6 \<Longrightarrow> migrate_at (Suc i) (decode_arg (i, x) d)"
  by (simp add: migrate_at_def decode_arg_def decoder_done_def done_option_def done_keep_def secret_def mathMaxInt_def Let_def)

lemma migrate_word:
  assumes "migrate_at i d" and "6 \<le> i" "i < mathMaxInt"
    and w: "word_is w name" "length name \<le> 7"
  shows "decode_arg (i, w) d = decoder_done i w (int (length w)) d"
proof -
  have "length w \<le> 7" using w by (auto simp: word_is_def)
  then show ?thesis
    using assms(1-3) by (simp add: decode_arg_def want_def migrate_at_def secret_def redisWordKeep_def redisKeyKeep_def previewKeep_def redisValueKeep_def)
qed

lemma migrate_option:
  assumes m: "migrate_at i d" "6 \<le> i" "i < mathMaxInt" and w: "word_is w ''COPY'' \<or> word_is w ''REPLACE''"
  shows "migrate_at (Suc i) (decode_arg (i, w) d)"
proof -
  have "equal_fold w ''COPY'' \<or> equal_fold w ''REPLACE''" and "decode_arg (i, w) d = decoder_done i w (int (length w)) d"
    using w option_word [of w "''COPY''"] option_word [of w "''REPLACE''"]
      migrate_word [OF m, of w "''COPY''"] migrate_word [OF m, of w "''REPLACE''"]
    by (auto simp: equal_fold_def)
  then show ?thesis
    using m by (auto simp: migrate_at_def decoder_done_def done_option_def done_keep_def secret_def Let_def equal_fold_def)
qed

lemma migrate_options:
  assumes "migrate_at i d" "6 \<le> i" "i + length ws \<le> mathMaxInt"
    and "list_all (\<lambda>w. word_is w ''COPY'' \<or> word_is w ''REPLACE'') ws"
  shows "migrate_at (i + length ws) (fold decode_arg (enumerate i ws) d)"
  using assms
proof (induction ws arbitrary: i d)
  case (Cons w ws)
  then have "migrate_at (Suc i) (decode_arg (i, w) d)" by (intro migrate_option) auto
  from Cons.IH [OF this] Cons.prems show ?case by simp
qed simp

lemma secret_after_words: "secret_after p m \<Longrightarrow> p \<noteq> []"
  by (erule secret_after.cases) auto

lemma secret_after_secret:
  assumes "secret_after p m" and "j < m" and "length p < mathMaxInt"
  shows "secret (fold decode_arg (enumerate 0 p) (decoder_start n show)) (length p + j)"
  using assms
proof (induction p m rule: secret_after.induct)
  case (auth a m)
  then show ?case using secret_from [of _ 1 j] decoded_auth [of a n "show"] by simp
next
  case (config_set c s m)
  then show ?case using secret_from [of _ 2 j] decoded_config [of c s n "show"] by simp
next
  case (acl a s user m)
  then show ?case using secret_from [of _ 3 j] decoded_acl [of a s user n "show"] by (simp add: numeral_2_eq_2 numeral_3_eq_3)
next
  case (sentinel a s name m)
  then show ?case using secret_from [of _ 3 j] decoded_acl [of a s name n "show"] by (simp add: numeral_2_eq_2 numeral_3_eq_3)
next
  case (hello h a m version)
  then show ?case using decoded_hello [of h a version n "show"] by (simp add: numeral_2_eq_2 secret_def)
next
  case (migrate c options a host port key db timeout m)
  define d where "d = fold decode_arg (enumerate 0 [c, host, port, key, db, timeout]) (decoder_start n show)"
  have "migrate_at 6 d"
    using migrate_plain [OF migrate_plain [OF migrate_plain [OF migrate_plain [OF migrate_plain [OF
      migrate_start [OF migrate(1)], of host], of port], of key], of db], of timeout]
    by (simp add: d_def eval_nat_numeral)
  then have m: "migrate_at (6 + length options) (fold decode_arg (enumerate 6 options) d)"
    using migrate_options [of 6 d options] migrate(2,5) by simp
  have small: "6 + length options < mathMaxInt" using migrate(5) by simp
  have "equal_fold a ''AUTH'' \<or> equal_fold a ''AUTH2''"
    using migrate(3) option_word [of a "''AUTH''"] option_word [of a "''AUTH2''"] by (auto simp: equal_fold_def)
  then have "dc_secretFrom (decode_arg (6 + length options, a) (fold decode_arg (enumerate 6 options) d)) = 7 + length options"
    using m migrate(3) migrate_word [OF m _ small, of a "''AUTH''"] migrate_word [OF m _ small, of a "''AUTH2''"] small
    by (auto simp: decoder_done_def done_option_def Let_def migrate_at_def secret_def)
  then show ?case
    using secret_from [of _ "7 + length options" j]
    by (simp add: d_def enumerate_append_eq eval_nat_numeral)
qed

subsection \<open>The properties\<close>

text \<open>
  C17. Requests that a client encodes, pipelined in any number and cut by the kernel anywhere, are
  read exactly: one frame per request in their order, with its kind, its number of arguments, its length on the
  wire and what the decoder makes of the arguments themselves; framing is kept, and no frame is left open.
\<close>

theorem redis_requests_roundtrip:
  assumes "list_all request_ok requests" and "concat chunks = concat (map encode_request requests)"
  shows "\<exists>r. fold (redis_chunk keep tm) chunks (redis_stream0 True showSecrets) =
      (True, r, map (request_frame showSecrets tm) requests) \<and> reader_idle r"
proof -
  obtain r where r: "reads keep tm (concat chunks) (reader0 True showSecrets) [] r (map (request_frame showSecrets tm) requests)"
    "at_request showSecrets r"
    using reads_requests [OF at_request0 assms(1), where keep = keep and tm = tm and fs = "[]"] assms(2) by auto
  have "fold (redis_chunk keep tm) chunks (redis_stream0 True showSecrets) =
      redis_chunk keep tm (concat chunks) (redis_stream0 True showSecrets)"
    by (rule redis_chunks.fold_feed_concat) (auto simp: stream_good_def redis_stream0_def intro!: exI [of _ True] reader0_ok)
  then show ?thesis
    using reads_whole [OF r(1)] r(2)
    by (simp add: redis_chunk_def redis_stream0_def reader_idle_def at_request_def)
qed

text \<open>
  C2. A password is never read: in AUTH, HELLO with AUTH, CONFIG SET, ACL SETUSER and DRYRUN, SENTINEL
  SET and CONFIG and MIGRATE with AUTH, in any case and with or without \<open>--show-secrets\<close>, the bytes of the secret
  arguments leave no trace. Stop the stream anywhere, also in the middle of a password: the frames and the whole state of
  the reader, its held bytes included, are the same as for any other secret of that length.
\<close>

theorem redis_secrets_unseen:
  assumes "secret_after words (length xs)" and "map length xs = map length ys" and "request_ok (words @ xs @ rest)"
  shows "redis_chunk keep tm (take k (encode_request (words @ xs @ rest))) (redis_stream0 True showSecrets) =
    redis_chunk keep tm (take k (encode_request (words @ ys @ rest))) (redis_stream0 True showSecrets)"
proof -
  have "length words < mathMaxInt" using assms(3) by (simp add: request_ok_def redisBulkLimit_def mathMaxInt_def)
  then have "unseen keep tm (reader0 True showSecrets) [] (encode_request (words @ xs @ rest)) (encode_request (words @ ys @ rest))"
    using assms secret_after_words [OF assms(1)] secret_after_secret [OF assms(1)] by (intro unseen_request) auto
  then show ?thesis
    unfolding unseen_def redis_chunk_def redis_stream0_def redis_feed_def by (simp only: prod.case if_True max.idem)
qed


definition demo_requests :: "bytes list list" where
  "demo_requests = [[''SET'', ''user:1'', ''Ada''], [''get'', ''user:1'']]"

theorem redis_requests_roundtrip_witness:
  "(\<exists>r. fold (redis_chunk (\<lambda>_ _. None) 7)
        [take 13 (concat (map encode_request demo_requests)), drop 13 (concat (map encode_request demo_requests))]
        (redis_stream0 True False) =
      (True, r, map (request_frame False 7) demo_requests) \<and> reader_idle r) \<and>
    map (\<lambda>f. map_option (\<lambda>c. (rc_name c, rc_key c, rc_args c)) (fr_command f)) (map (request_frame False 7) demo_requests) =
      [Some (''SET'', ''user:1'', 2), Some (''GET'', ''user:1'', 1)]"
proof
  have "list_all request_ok demo_requests" by (simp add: demo_requests_def request_ok_def redisBulkLimit_def)
  then show "\<exists>r. fold (redis_chunk (\<lambda>_ _. None) 7)
        [take 13 (concat (map encode_request demo_requests)), drop 13 (concat (map encode_request demo_requests))]
        (redis_stream0 True False) =
      (True, r, map (request_frame False 7) demo_requests) \<and> reader_idle r"
    by (rule redis_requests_roundtrip) simp
  show "map (\<lambda>f. map_option (\<lambda>c. (rc_name c, rc_key c, rc_args c)) (fr_command f)) (map (request_frame False 7) demo_requests) =
      [Some (''SET'', ''user:1'', 2), Some (''GET'', ''user:1'', 1)]"
    by code_simp
qed

theorem redis_secrets_unseen_witness:
  "redis_chunk (\<lambda>_ _. None) 7 (take 22 (encode_request [''auth'', ''hunter2''])) (redis_stream0 True True) =
   redis_chunk (\<lambda>_ _. None) 7 (take 22 (encode_request [''auth'', ''letmein''])) (redis_stream0 True True)"
proof -
  have "secret_after [''auth''] (length [''hunter2''])"
    by (rule secret_after.auth) code_simp
  from redis_secrets_unseen [OF this, of "[''letmein'']" "[]" "\<lambda>_ _. None" 7 22 True]
  show ?thesis by (simp add: request_ok_def redisBulkLimit_def)
qed

end
