(* ===== verification/PostgresText.thy ===== *)
theory PostgresText
  imports MySQLText
begin

text \<open>
  SQL text of internal/edc/trace_postgres.go: \<open>postgresLiteralEnd\<close>, \<open>postgresQuotedEnd\<close>,
  \<open>postgresCommentEnd\<close>, \<open>postgresDollarTag\<close>, \<open>postgresMask\<close> (hides string constants and dollar
  quotes), \<open>tracePostgresShape\<close> and \<open>postgresCString\<close>. As in MySQLText an index \<open>i\<close> of the code is
  the suffix \<open>sql[i:]\<close>, an end position the number of bytes from \<open>i\<close>; the one byte before \<open>i\<close> that
  the code looks at is the argument \<open>joined\<close>: whether it continues an identifier.
\<close>

datatype postgresStrings = StringsUnknown | StringsOn | StringsOff

definition ascii_letter :: "byte \<Rightarrow> bool" where
  "ascii_letter b \<longleftrightarrow> 97 \<le> bval b \<and> bval b \<le> 122 \<or> 65 \<le> bval b \<and> bval b \<le> 90"

definition postgresIdentifierByte :: "byte \<Rightarrow> bool" where
  "postgresIdentifierByte b \<longleftrightarrow> b = CHR ''_'' \<or> b = CHR ''$'' \<or> 128 \<le> bval b \<or> is_digit b \<or> ascii_letter b"

definition postgresTagStart :: "byte \<Rightarrow> bool" where
  "postgresTagStart b \<longleftrightarrow> b = CHR ''_'' \<or> 128 \<le> bval b \<or> ascii_letter b"

subsection \<open>Scanners\<close>

text \<open>The loop of \<open>postgresLiteralEnd\<close> after the opening quote: bytes passed, and closed or not.\<close>

fun quote_scan :: "bool \<Rightarrow> bytes \<Rightarrow> nat \<times> bool" where
  "quote_scan backslash [] = (0, False)"
| "quote_scan backslash [c] = (1, \<not> (backslash \<and> c = CHR 0x5C) \<and> c = CHR 0x27)"
| "quote_scan backslash (c # d # ds) =
     (if backslash \<and> c = CHR 0x5C \<or> c = CHR 0x27 \<and> d = CHR 0x27
      then (case quote_scan backslash ds of (n, closed) \<Rightarrow> (n + 2, closed))
      else if c = CHR 0x27 then (1, True)
      else (case quote_scan backslash (d # ds) of (n, closed) \<Rightarrow> (n + 1, closed)))"

definition postgresLiteralEnd :: "bytes \<Rightarrow> bool \<Rightarrow> nat \<times> bool" where
  "postgresLiteralEnd rest backslash =
     (case rest of [] \<Rightarrow> (0, False)
      | _ # cs \<Rightarrow> (case quote_scan backslash cs of (n, closed) \<Rightarrow> (n + 1, closed)))"

fun identifier_scan :: "bytes \<Rightarrow> nat" where
  "identifier_scan (c # d # ds) =
     (if c = CHR 0x22 then if d = CHR 0x22 then identifier_scan ds + 2 else 1 else identifier_scan (d # ds) + 1)"
| "identifier_scan rest = length rest"

definition postgresQuotedEnd :: "bytes \<Rightarrow> nat" where
  "postgresQuotedEnd rest = (case rest of [] \<Rightarrow> 0 | _ # cs \<Rightarrow> identifier_scan cs + 1)"

text \<open>The loop over a nested comment, at a depth.\<close>

fun comment_scan :: "nat \<Rightarrow> bytes \<Rightarrow> nat" where
  "comment_scan depth (a # b # cs) =
     (if a = CHR ''/'' \<and> b = CHR ''*'' then comment_scan (depth + 1) cs + 2
      else if a = CHR ''*'' \<and> b = CHR ''/'' then
        (if depth - 1 = 0 then 2 else comment_scan (depth - 1) cs + 2)
      else comment_scan depth (b # cs) + 1)"
| "comment_scan depth rest = length rest"

text \<open>0 when no comment starts here.\<close>

definition postgresCommentEnd :: "bytes \<Rightarrow> nat" where
  "postgresCommentEnd rest =
     (case rest of
        a # b # cs \<Rightarrow>
          if a = CHR ''-'' \<and> b = CHR ''-'' then
            (case index_byte rest (CHR 0x0A) of Some n \<Rightarrow> n | None \<Rightarrow> length rest)
          else if a = CHR ''/'' \<and> b = CHR ''*'' then comment_scan 0 rest
          else 0
      | _ \<Rightarrow> 0)"

text \<open>The opening tag of a dollar quote at the start of \<open>rest\<close>, which begins with a dollar sign.\<close>

definition postgresDollarTag :: "bool \<Rightarrow> bytes \<Rightarrow> nat option" where
  "postgresDollarTag joined rest =
     (if joined then None
      else case tl rest of
          [] \<Rightarrow> None
        | c # cs \<Rightarrow>
            if c = CHR ''$'' then Some 2
            else if \<not> postgresTagStart c then None
            else let w = takeWhile (\<lambda>b. b \<noteq> CHR ''$'' \<and> postgresIdentifierByte b) cs in
              (case drop (length w) cs of
                 [] \<Rightarrow> None
               | d # _ \<Rightarrow> if d = CHR ''$'' then Some (length w + 3) else None))"

text \<open>\<open>bytes.Index\<close>.\<close>

fun index_bytes :: "bytes \<Rightarrow> bytes \<Rightarrow> nat option" where
  "index_bytes [] sep = (if sep = [] then Some 0 else None)"
| "index_bytes (c # cs) sep = (if has_prefix (c # cs) sep then Some 0 else map_option Suc (index_bytes cs sep))"

subsection \<open>\<open>postgresMask\<close>\<close>

text \<open>The closure \<open>literal\<close>, at a quote: the bytes passed and what is written.\<close>

definition mask_literal :: "postgresStrings \<Rightarrow> bool \<Rightarrow> bytes \<Rightarrow> nat \<times> bytes" where
  "mask_literal strings backslash rest =
     (case postgresLiteralEnd rest backslash of (n, closed) \<Rightarrow>
        if strings = StringsUnknown \<and> \<not> backslash \<and> CHR 0x5C \<in> set (drop 1 (take n rest))
        then (length rest, [CHR 0x27, CHR ''?''])
        else (n, [CHR 0x27, CHR ''?''] @ (if closed then [CHR 0x27] else [])))"

definition mask_dollar :: "bool \<Rightarrow> bytes \<Rightarrow> nat \<times> bytes" where
  "mask_dollar joined rest =
     (case postgresDollarTag joined rest of
        None \<Rightarrow> (1, take 1 rest)
      | Some m \<Rightarrow>
          let tag = take m rest in
          (case index_bytes (drop m rest) tag of
             Some n \<Rightarrow> (m + n + length tag, tag @ ''?'' @ tag)
           | None \<Rightarrow> (length rest, tag @ ''?'')))"

text \<open>A literal behind the letters \<open>p\<close>, which are shown.\<close>

definition behind :: "bytes \<Rightarrow> nat \<times> bytes \<Rightarrow> nat \<times> bytes" where
  "behind p res = (length p + fst res, p @ snd res)"

text \<open>\<open>next(n)\<close>: the byte \<open>n\<close> places on, or NUL.\<close>

definition next_byte :: "bytes \<Rightarrow> nat \<Rightarrow> byte" where
  "next_byte rest n = (if n < length rest then rest ! n else CHR 0x00)"

text \<open>One turn of the loop: the bytes passed and what is written. \<open>rest\<close> is not empty.\<close>

definition mask_step :: "postgresStrings \<Rightarrow> bool \<Rightarrow> bytes \<Rightarrow> nat \<times> bytes" where
  "mask_step strings joined rest =
     (let value = hd rest; start = (\<not> joined) in
      if value = CHR 0x27 then mask_literal strings (strings = StringsOff) rest
      else if start \<and> (value = CHR ''E'' \<or> value = CHR ''e'') \<and> next_byte rest 1 = CHR 0x27
      then behind (take 1 rest) (mask_literal strings True (drop 1 rest))
      else if start \<and> (value = CHR ''U'' \<or> value = CHR ''u'') \<and> next_byte rest 1 = CHR ''&'' \<and> next_byte rest 2 = CHR 0x27
      then behind (take 2 rest) (mask_literal strings False (drop 2 rest))
      else if start \<and> (value = CHR ''B'' \<or> value = CHR ''b'' \<or> value = CHR ''X'' \<or> value = CHR ''x'') \<and> next_byte rest 1 = CHR 0x27
      then behind (take 1 rest) (mask_literal strings False (drop 1 rest))
      else if start \<and> (value = CHR ''N'' \<or> value = CHR ''n'') \<and> next_byte rest 1 = CHR 0x27
      then behind (take 1 rest) (mask_literal strings (strings = StringsOff) (drop 1 rest))
      else if value = CHR 0x22 then (postgresQuotedEnd rest, take (postgresQuotedEnd rest) rest)
      else if value = CHR ''$'' then mask_dollar joined rest
      else if start \<and> postgresIdentifierByte value
      then (let n = length (takeWhile postgresIdentifierByte rest) in (n, take n rest))
      else if 0 < postgresCommentEnd rest then (postgresCommentEnd rest, take (postgresCommentEnd rest) rest)
      else (1, [value]))"

subsection \<open>Bounds of the scanners\<close>

lemma quote_scan_le: "fst (quote_scan b cs) \<le> length cs"
  by (induction b cs rule: quote_scan.induct) (auto split: prod.splits)

lemma postgresLiteralEnd_bounds:
  "rest \<noteq> [] \<Longrightarrow> 0 < fst (postgresLiteralEnd rest b)" "fst (postgresLiteralEnd rest b) \<le> length rest"
  using quote_scan_le [of b "tl rest"]
  by (cases rest; cases "quote_scan b (tl rest)"; simp add: postgresLiteralEnd_def)+

lemma identifier_scan_le: "identifier_scan cs \<le> length cs"
  by (induction cs rule: identifier_scan.induct) (auto split: list.splits)

lemma postgresQuotedEnd_bounds: "rest \<noteq> [] \<Longrightarrow> 0 < postgresQuotedEnd rest" "postgresQuotedEnd rest \<le> length rest"
  using identifier_scan_le [of "tl rest"] by (cases rest; simp add: postgresQuotedEnd_def)+

lemma comment_scan_le: "comment_scan d rest \<le> length rest"
  by (induction d rest rule: comment_scan.induct) auto

lemma postgresCommentEnd_le: "postgresCommentEnd rest \<le> length rest"
  using comment_scan_le [of 0 rest] index_byte_Some [of rest "CHR 0x0A"]
  by (auto simp: postgresCommentEnd_def split: list.splits option.splits intro: less_imp_le)

lemma postgresDollarTag_bounds: "postgresDollarTag joined rest = Some m \<Longrightarrow> 0 < m \<and> m \<le> length rest"
proof -
  assume h: "postgresDollarTag joined rest = Some m"
  then obtain a c cs where r: "rest = a # c # cs"
    by (cases rest; cases "tl rest") (auto simp: postgresDollarTag_def split: if_splits)
  show ?thesis
  proof (cases "c = CHR ''$''")
    case False
    let ?w = "takeWhile (\<lambda>b. b \<noteq> CHR ''$'' \<and> postgresIdentifierByte b) cs"
    have "drop (length ?w) cs \<noteq> []" "m = length ?w + 3"
      using h False r by (auto simp: postgresDollarTag_def Let_def split: if_splits list.splits)
    then show ?thesis using r by (simp add: not_le)
  qed (use h r in \<open>auto simp: postgresDollarTag_def split: if_splits\<close>)
qed

lemma has_prefix_length: "has_prefix xs p \<Longrightarrow> length p \<le> length xs"
  unfolding has_prefix_def by (metis length_take min.cobounded1)

lemma index_bytes_bounds: "index_bytes xs sep = Some n \<Longrightarrow> n + length sep \<le> length xs"
  by (induction xs arbitrary: n) (auto split: if_splits dest: has_prefix_length)

lemma mask_literal_bounds: "rest \<noteq> [] \<Longrightarrow> 0 < fst (mask_literal strings b rest) \<and> fst (mask_literal strings b rest) \<le> length rest"
  using postgresLiteralEnd_bounds [of rest b] by (auto simp: mask_literal_def split: prod.splits)

lemma mask_dollar_bounds: "rest \<noteq> [] \<Longrightarrow> 0 < fst (mask_dollar joined rest) \<and> fst (mask_dollar joined rest) \<le> length rest"
  using postgresDollarTag_bounds [of joined rest] index_bytes_bounds
  by (fastforce simp: mask_dollar_def Let_def Suc_le_eq split: option.splits)

lemma mask_step_bounds:
  assumes "rest \<noteq> []"
  shows "0 < fst (mask_step strings joined rest) \<and> fst (mask_step strings joined rest) \<le> length rest"
proof -
  have lit: "k < length rest \<Longrightarrow> 0 < fst (behind (take k rest) (mask_literal strings b (drop k rest))) \<and>
      fst (behind (take k rest) (mask_literal strings b (drop k rest))) \<le> length rest" for k b
    using mask_literal_bounds [of "drop k rest" strings b] by (auto simp: behind_def)
  have nxt: "next_byte rest k = c \<Longrightarrow> c \<noteq> CHR 0x00 \<Longrightarrow> k < length rest" for k c
    by (auto simp: next_byte_def split: if_splits)
  have run: "hd rest \<in> {b. postgresIdentifierByte b} \<Longrightarrow> 0 < length (takeWhile postgresIdentifierByte rest)"
    using assms by (cases rest) auto
  show ?thesis
    unfolding mask_step_def Let_def
    using assms lit [OF nxt] mask_literal_bounds [OF assms] postgresQuotedEnd_bounds [of rest] mask_dollar_bounds [OF assms]
      run postgresCommentEnd_le [of rest]
    by (auto simp: length_takeWhile_le Suc_le_eq)
qed

function mask_loop :: "postgresStrings \<Rightarrow> bool \<Rightarrow> bytes \<Rightarrow> bytes" where
  "mask_loop strings joined rest =
     (if rest = [] then []
      else case mask_step strings joined rest of (n, out) \<Rightarrow>
        out @ mask_loop strings (postgresIdentifierByte (rest ! (n - 1))) (drop n rest))"
  by pat_completeness auto
termination
proof (relation "measure (\<lambda>(_, _, rest). length rest)", goal_cases)
  case (2 strings joined rest n out)
  then show ?case using mask_step_bounds [of rest strings joined] by (metis case_prod_conv diff_less fst_conv in_measure length_drop length_greater_0_conv)
qed simp

declare mask_loop.simps [simp del]

definition postgresMask :: "bytes \<Rightarrow> postgresStrings \<Rightarrow> bytes" where
  "postgresMask sql strings = mask_loop strings False sql"

definition postgresMaskSQL :: "bytes \<Rightarrow> bool \<Rightarrow> bytes" where
  "postgresMaskSQL sql standardStrings = postgresMask sql (if standardStrings then StringsOn else StringsOff)"


subsection \<open>The scanners look one byte ahead\<close>

lemma quote_scan_positive: "0 < fst (quote_scan b (c # r))"
  by (cases r) (auto split: prod.splits)

lemma identifier_scan_positive: "0 < identifier_scan (c # r)"
  by (cases r) auto

lemma identifier_scan_local:
  "identifier_scan (xs @ c # r) \<le> length xs \<Longrightarrow> identifier_scan (xs @ c # r') = identifier_scan (xs @ c # r)"
proof (induction xs rule: identifier_scan.induct, goal_cases)
  case 2
  then show ?case using identifier_scan_positive [of c r] by simp
next
  case (3 x)
  then show ?case using identifier_scan_positive [of c r] by (auto split: if_splits)
qed (auto split: if_splits)

lemma comment_scan_local:
  "comment_scan d (xs @ c # r) \<le> length xs \<Longrightarrow> comment_scan d (xs @ c # r') = comment_scan d (xs @ c # r)"
proof (induction d xs rule: comment_scan.induct, goal_cases)
  case (1 d a b cs)
  then show ?case by (auto split: if_splits)
next
  case (2 d)
  then have "comment_scan d (c # r) = 0" by simp
  moreover have "0 < comment_scan d (c # r)" by (cases r) auto
  ultimately show ?case by simp
next
  case (3 d v)
  then have le: "comment_scan d (v # c # r) \<le> 1" by simp
  have "0 < comment_scan d (c # r)" by (cases r) auto
  with le show ?case by (auto split: if_splits)
qed

lemma takeWhile_local:
  "length (takeWhile P (xs @ c # r)) \<le> length xs \<Longrightarrow> takeWhile P (xs @ c # r') = takeWhile P (xs @ c # r)"
  by (induction xs) (auto split: if_splits)

lemma index_byte_local:
  "b \<noteq> c \<Longrightarrow> (case index_byte (xs @ c # r) b of Some n \<Rightarrow> n | None \<Rightarrow> length (xs @ c # r)) \<le> length xs \<Longrightarrow>
     index_byte (xs @ c # r') b = index_byte (xs @ c # r) b"
  by (auto simp: index_byte_append split: option.splits)

lemma has_prefix_local: "length p \<le> length xs \<Longrightarrow> has_prefix (xs @ ys) p = has_prefix xs p"
  by (simp add: has_prefix_def)

lemma postgresCommentEnd_alt:
  "postgresCommentEnd rest =
     (if take 2 rest = ''--'' then (case index_byte rest (CHR 0x0A) of Some n \<Rightarrow> n | None \<Rightarrow> length rest)
      else if take 2 rest = ''/*'' then comment_scan 0 rest else 0)"
  by (cases rest; cases "tl rest") (auto simp: postgresCommentEnd_def split: option.split)

lemma comment_end_local:
  assumes "c \<noteq> CHR 0x0A" and "s \<noteq> []" and "postgresCommentEnd (s @ c # r) \<le> length s"
  shows "postgresCommentEnd (s @ c # r') = postgresCommentEnd (s @ c # r)"
proof -
  define w where "w = take 2 (s @ [c])"
  have t: "take 2 (s @ c # u) = w" for u
    using assms(2) by (cases s; cases "tl s") (simp_all add: numeral_2_eq_2 w_def)
  consider (line) "w = ''--''" | (block) "w = ''/*''"
    | (other) "w \<noteq> ''--''" "w \<noteq> ''/*''" by blast
  then show ?thesis
  proof cases
    case line
    have h: "postgresCommentEnd (s @ c # u) =
        (case index_byte (s @ c # u) (CHR 0x0A) of Some n \<Rightarrow> n | None \<Rightarrow> length (s @ c # u))" for u
      unfolding postgresCommentEnd_alt t line by (rule if_P) (rule refl)
    have ib: "index_byte (s @ c # r') (CHR 0x0A) = index_byte (s @ c # r) (CHR 0x0A)"
      by (rule index_byte_local [OF assms(1) [symmetric] assms(3) [unfolded h]])
    obtain n where "index_byte (s @ c # r) (CHR 0x0A) = Some n"
      using assms(3) [unfolded h] by (cases "index_byte (s @ c # r) (CHR 0x0A)") simp_all
    then show ?thesis unfolding h ib by (simp only: option.case)
  next
    case block
    have h: "postgresCommentEnd (s @ c # u) = comment_scan 0 (s @ c # u)" for u
      unfolding postgresCommentEnd_alt t block by simp
    show ?thesis unfolding h by (rule comment_scan_local [OF assms(3) [unfolded h]])
  next
    case other
    have "postgresCommentEnd (s @ c # u) = 0" for u unfolding postgresCommentEnd_alt t using other by simp
    then show ?thesis by simp
  qed
qed

end
