(* ===== verification/PostgresMasking.thy ===== *)
theory PostgresMasking
  imports PostgresText
begin

text \<open>
  How the loop of \<open>postgresMask\<close> goes over a string constant and over a dollar quote: what it shows of them
  and where it goes on. PostgresShape and PostgresTokens rest on these steps.
\<close>

subsection \<open>One turn after the other\<close>

lemma mask_loop_Nil [simp]: "mask_loop strings joined [] = []"
  by (simp add: mask_loop.simps)

lemma mask_loop_step:
  "rest \<noteq> [] \<Longrightarrow> mask_step strings joined rest = (n, out) \<Longrightarrow>
     mask_loop strings joined rest = out @ mask_loop strings (postgresIdentifierByte (rest ! (n - 1))) (drop n rest)"
  by (subst mask_loop.simps) simp

subsection \<open>String constants\<close>

text \<open>The letters before a quote that belong to the constant, and whether a backslash escapes in it.\<close>

definition literal_prefix :: "postgresStrings \<Rightarrow> bytes \<Rightarrow> bool option" where
  "literal_prefix strings p =
     (if p \<in> {[], ''N'', ''n''} then Some (strings = StringsOff)
      else if p \<in> {''E'', ''e''} then Some True
      else if p \<in> {''U&'', ''u&'', ''B'', ''b'', ''X'', ''x''} then Some False
      else None)"

lemma literal_prefix_cases:
  "literal_prefix strings p = Some b \<Longrightarrow>
     p \<in> {[], ''N'', ''n'', ''E'', ''e'', ''U&'', ''u&'', ''B'', ''b'', ''X'', ''x''}"
  by (rule ccontr) (simp add: literal_prefix_def)

text \<open>
  What follows a string constant whose text after the opening quote is \<open>t\<close>; \<open>None\<close> when everything up
  to the end has to be hidden: it is not closed, or the setting that says where it ends is not known.
\<close>

definition literal_tail :: "postgresStrings \<Rightarrow> bool \<Rightarrow> bytes \<Rightarrow> bytes option" where
  "literal_tail strings backslash t =
     (case quote_scan backslash t of (n, closed) \<Rightarrow>
        if \<not> closed \<or> strings = StringsUnknown \<and> \<not> backslash \<and> CHR 0x5C \<in> set (take n t) then None
        else Some (drop n t))"

lemma quote_scan_end:
  "quote_scan b cs = (n, closed) \<Longrightarrow> (closed \<longrightarrow> 0 < n \<and> n \<le> length cs \<and> cs ! (n - 1) = CHR 0x27) \<and> (\<not> closed \<longrightarrow> n = length cs)"
  by (induction b cs arbitrary: n closed rule: quote_scan.induct)
    (auto split: prod.splits if_splits simp: nth_Cons' gr0_conv_Suc)

lemma mask_literal_tail:
  "mask_literal strings b (CHR 0x27 # t) =
     (case literal_tail strings b t of
        None \<Rightarrow> (Suc (length t), [CHR 0x27, CHR ''?''])
      | Some v \<Rightarrow> (Suc (length t - length v), [CHR 0x27, CHR ''?'', CHR 0x27]))"
proof -
  obtain n closed where "quote_scan b t = (n, closed)" by fastforce
  then show ?thesis
    using quote_scan_end [of b t n closed] by (auto simp: mask_literal_def literal_tail_def postgresLiteralEnd_def)
qed

lemma literal_tail_some:
  "literal_tail strings b t = Some v \<Longrightarrow> \<exists>w. t = w @ CHR 0x27 # v"
proof -
  assume h: "literal_tail strings b t = Some v"
  obtain n closed where s: "quote_scan b t = (n, closed)" by fastforce
  have "0 < n" "n \<le> length t" "t ! (n - 1) = CHR 0x27" "v = drop n t"
    using h quote_scan_end [OF s] s by (auto simp: literal_tail_def split: if_splits)
  then have "t = take (n - 1) t @ CHR 0x27 # v" using id_take_nth_drop [of "n - 1" t] by simp
  then show ?thesis by blast
qed

lemma mask_step_literal:
  assumes "literal_prefix strings p = Some b" and "p \<noteq> [] \<longrightarrow> \<not> joined"
  shows "mask_step strings joined (p @ CHR 0x27 # t) = behind p (mask_literal strings b (CHR 0x27 # t))"
  using literal_prefix_cases [OF assms(1)] assms
  by (elim insertE emptyE) (auto simp: mask_step_def literal_prefix_def next_byte_def behind_def Let_def)

lemma mask_loop_literal:
  assumes "literal_prefix strings p = Some b" and "p \<noteq> [] \<longrightarrow> \<not> joined"
  shows "mask_loop strings joined (p @ CHR 0x27 # t) =
    p @ CHR 0x27 # CHR ''?'' # (case literal_tail strings b t of None \<Rightarrow> [] | Some v \<Rightarrow> CHR 0x27 # mask_loop strings False v)"
proof (cases "literal_tail strings b t")
  case None
  then have "mask_step strings joined (p @ CHR 0x27 # t) = (length p + Suc (length t), p @ [CHR 0x27, CHR ''?''])"
    using mask_step_literal [OF assms] mask_literal_tail [of strings b t] by (simp add: behind_def)
  from mask_loop_step [OF _ this] show ?thesis using None by simp
next
  case (Some v)
  then obtain w where t: "t = w @ CHR 0x27 # v" using literal_tail_some by blast
  have "mask_step strings joined (p @ CHR 0x27 # t) = (length p + Suc (Suc (length w)), p @ [CHR 0x27, CHR ''?'', CHR 0x27])"
    using mask_step_literal [OF assms] mask_literal_tail [of strings b t] Some by (simp add: behind_def t)
  from mask_loop_step [OF _ this] show ?thesis
    using Some by (simp add: t nth_append postgresIdentifierByte_def is_digit_def ascii_letter_def)
qed

subsection \<open>Dollar quotes\<close>

text \<open>\<open>q\<close> is the opening tag of a dollar quote.\<close>

definition dollar_tag :: "bytes \<Rightarrow> bool" where
  "dollar_tag q \<longleftrightarrow> take 1 q = ''$'' \<and> postgresDollarTag False q = Some (length q)"

lemma dollar_tag_parts:
  "dollar_tag q \<Longrightarrow> \<exists>w. q = CHR ''$'' # w @ ''$'' \<and> (w = [] \<or> postgresTagStart (hd w)) \<and>
     (\<forall>b \<in> set (tl w). b \<noteq> CHR ''$'' \<and> postgresIdentifierByte b)"
proof -
  assume h: "dollar_tag q"
  then obtain c cs where q: "q = CHR ''$'' # c # cs"
    by (cases q; cases "tl q") (auto simp: dollar_tag_def postgresDollarTag_def)
  let ?w = "takeWhile (\<lambda>b. b \<noteq> CHR ''$'' \<and> postgresIdentifierByte b) cs"
  show ?thesis
  proof (cases "c = CHR ''$''")
    case True
    have "cs = []" using h True unfolding q dollar_tag_def postgresDollarTag_def by simp
    then have "q = CHR ''$'' # [] @ ''$''" using q True by (simp only: append_Nil)
    then show ?thesis by (intro exI [of _ "[]"]) simp
  next
    case False
    have h': "(if \<not> postgresTagStart c then None
        else case drop (length ?w) cs of [] \<Rightarrow> None | d # _ \<Rightarrow> if d = CHR ''$'' then Some (length ?w + 3) else None) =
      Some (Suc (Suc (length cs)))"
      using h False unfolding q dollar_tag_def postgresDollarTag_def Let_def by simp
    then have d4: "postgresTagStart c" by (metis option.distinct(1))
    obtain d ds where d1: "drop (length ?w) cs = d # ds"
      using h' d4 by (cases "drop (length ?w) cs") simp_all
    then have h2: "(if d = CHR ''$'' then Some (length ?w + 3) else None) = Some (Suc (Suc (length cs)))"
      using h' d4 by simp
    then have d: "d = CHR ''$''" by (metis option.distinct(1))
    then have len: "length cs = Suc (length ?w)" using h2 by simp
    have "length (drop (length ?w) cs) = 1" unfolding length_drop len by simp
    then have "ds = []" unfolding d1 by simp
    then have "cs = ?w @ ''$''" using d1 d by (metis append_take_drop_id takeWhile_eq_take)
    then have 1: "q = CHR ''$'' # (c # ?w) @ ''$''" using q by simp
    have 2: "\<forall>b \<in> set (tl (c # ?w)). b \<noteq> CHR ''$'' \<and> postgresIdentifierByte b" by (auto dest: set_takeWhileD)
    have 3: "c # ?w = [] \<or> postgresTagStart (hd (c # ?w))" using d4 by simp
    show ?thesis by (rule exI [of _ "c # ?w"]) (rule conjI [OF 1 conjI [OF 3 2]])
  qed
qed

lemma dollar_tag_before:
  assumes "dollar_tag q"
  shows "postgresDollarTag False (q @ t) = Some (length q)"
proof -
  obtain w where w: "q = CHR ''$'' # w @ ''$''" "w = [] \<or> postgresTagStart (hd w)"
    "\<forall>b \<in> set (tl w). b \<noteq> CHR ''$'' \<and> postgresIdentifierByte b"
    using dollar_tag_parts [OF assms] by blast
  show ?thesis
  proof (cases w)
    case (Cons c cs)
    have "takeWhile (\<lambda>b. b \<noteq> CHR ''$'' \<and> postgresIdentifierByte b) (cs @ CHR ''$'' # t) = cs"
      using w(3) Cons by (simp add: takeWhile_tail)
    moreover have "c \<noteq> CHR ''$''" "postgresTagStart c" using w(2) Cons by (auto simp: postgresTagStart_def ascii_letter_def)
    ultimately show ?thesis unfolding w(1) Cons postgresDollarTag_def Let_def by simp
  qed (use w in \<open>simp add: postgresDollarTag_def\<close>)
qed

definition dollar_tail :: "bytes \<Rightarrow> bytes \<Rightarrow> bytes option" where
  "dollar_tail q t = map_option (\<lambda>n. drop (n + length q) t) (index_bytes t q)"

lemma dollar_tail_some:
  "dollar_tail q t = Some v \<Longrightarrow> \<exists>w. t = w @ q @ v"
proof -
  have split: "index_bytes t q = Some n \<Longrightarrow> \<exists>w. t = w @ q @ drop (n + length q) t" for n
  proof (induction t arbitrary: n)
    case (Cons c t)
    show ?case
    proof (cases "has_prefix (c # t) q")
      case True
      then have "c # t = [] @ q @ drop (length q) (c # t)" by (metis append_Nil append_take_drop_id has_prefix_def)
      then show ?thesis using Cons.prems True by auto
    next
      case False
      then obtain m where m: "index_bytes t q = Some m" "n = Suc m" using Cons.prems by auto
      from Cons.IH [OF m(1)] obtain w where "t = w @ q @ drop (m + length q) t" by blast
      then have "c # t = (c # w) @ q @ drop (n + length q) (c # t)" using m(2) by simp
      then show ?thesis by blast
    qed
  qed (auto split: if_splits)
  assume "dollar_tail q t = Some v"
  then show ?thesis using split by (auto simp: dollar_tail_def)
qed

lemma mask_loop_dollar:
  assumes q: "dollar_tag q"
  shows "mask_loop strings False (q @ t) =
    q @ CHR ''?'' # (case dollar_tail q t of None \<Rightarrow> [] | Some v \<Rightarrow> q @ mask_loop strings True v)"
proof -
  obtain w where w: "q = CHR ''$'' # w @ ''$''" using dollar_tag_parts [OF q] by blast
  have md: "mask_step strings False (q @ t) =
      (case index_bytes t q of None \<Rightarrow> (length (q @ t), q @ ''?'') | Some n \<Rightarrow> (length q + n + length q, q @ ''?'' @ q))"
    using dollar_tag_before [OF q, of t] w by (simp add: mask_step_def mask_dollar_def Let_def cong: option.case_cong)
  show ?thesis
  proof (cases "index_bytes t q")
    case None
    with md have "mask_step strings False (q @ t) = (length (q @ t), q @ ''?'')" by simp
    from mask_loop_step [OF _ this] show ?thesis using None w by (simp add: dollar_tail_def)
  next
    case (Some n)
    then obtain v where v: "dollar_tail q t = Some v" "v = drop (n + length q) t" by (simp add: dollar_tail_def)
    then obtain x where x: "t = x @ q @ v" using dollar_tail_some by blast
    have n: "n + length q \<le> length t" using index_bytes_bounds [OF Some] .
    have lx: "length x = n"
    proof -
      have "length v = length t - (n + length q)" using v(2) by simp
      then show ?thesis using n arg_cong [OF x, of length] by simp
    qed
    have step: "mask_step strings False (q @ t) = (length q + n + length q, q @ ''?'' @ q)" using md Some by simp
    have "(q @ x @ q @ v) ! (length q + n + length q - 1) = CHR ''$''"
      using w lx by (simp add: nth_append)
    then have "postgresIdentifierByte ((q @ t) ! (length q + n + length q - 1))"
      by (simp add: x postgresIdentifierByte_def)
    moreover have "drop (length q + n + length q) (q @ t) = v" using v(2) by (simp add: add.commute)
    ultimately show ?thesis using mask_loop_step [OF _ step] v(1) w by simp
  qed
qed

end
