(* ===== verification/PostgresShape.thy ===== *)
theory PostgresShape
  imports PostgresMasking
begin

text \<open>
  Masking a masked SQL text changes nothing, and without a backslash the setting
  standard\_conforming\_strings does not matter. From both: \<open>tracePostgresShape\<close>, the shape that groups
  statements in the summary, is the same for a text and for its masked form.
\<close>

subsection \<open>Masking a masked text\<close>

text \<open>None of the first five cases of the loop: no string constant starts here.\<close>

definition no_literal :: "bool \<Rightarrow> bytes \<Rightarrow> bool" where
  "no_literal joined rest \<longleftrightarrow>
     hd rest \<noteq> CHR 0x27 \<and>
     (joined \<or>
      \<not> (hd rest \<in> {CHR ''E'', CHR ''e'', CHR ''B'', CHR ''b'', CHR ''X'', CHR ''x'', CHR ''N'', CHR ''n''} \<and> next_byte rest 1 = CHR 0x27) \<and>
      \<not> (hd rest \<in> {CHR ''U'', CHR ''u''} \<and> next_byte rest 1 = CHR ''&'' \<and> next_byte rest 2 = CHR 0x27))"

lemma mask_step_no_literal:
  "no_literal joined rest \<Longrightarrow> mask_step strings joined rest =
     (if hd rest = CHR 0x22 then (postgresQuotedEnd rest, take (postgresQuotedEnd rest) rest)
      else if hd rest = CHR ''$'' then mask_dollar joined rest
      else if \<not> joined \<and> postgresIdentifierByte (hd rest)
      then (length (takeWhile postgresIdentifierByte rest), take (length (takeWhile postgresIdentifierByte rest)) rest)
      else if 0 < postgresCommentEnd rest then (postgresCommentEnd rest, take (postgresCommentEnd rest) rest)
      else (1, [hd rest]))"
  unfolding mask_step_def no_literal_def Let_def by auto

lemma literal_or_not:
  assumes "rest \<noteq> []"
  obtains (literal) p b t where "rest = p @ CHR 0x27 # t" "literal_prefix strings p = Some b" "p \<noteq> [] \<longrightarrow> \<not> joined"
  | (other) "no_literal joined rest"
proof (cases "no_literal joined rest")
  case False
  obtain c r where r: "rest = c # r" using assms by (cases rest) auto
  have nb: "next_byte rest 1 = x \<Longrightarrow> x \<noteq> CHR 0x00 \<Longrightarrow> \<exists>r'. r = x # r'" for x
    using r by (cases r) (auto simp: next_byte_def)
  have nb2: "next_byte rest 2 = x \<Longrightarrow> x \<noteq> CHR 0x00 \<Longrightarrow> r = y # r' \<Longrightarrow> \<exists>r''. r' = x # r''" for x y r'
    using r by (cases r') (auto simp: next_byte_def)
  consider (plain) "c = CHR 0x27"
    | (one) "\<not> joined" "c \<in> {CHR ''E'', CHR ''e'', CHR ''B'', CHR ''b'', CHR ''X'', CHR ''x'', CHR ''N'', CHR ''n''}" "next_byte rest 1 = CHR 0x27"
    | (two) "\<not> joined" "c \<in> {CHR ''U'', CHR ''u''}" "next_byte rest 1 = CHR ''&''" "next_byte rest 2 = CHR 0x27"
    using False unfolding no_literal_def r list.sel by argo
  then show ?thesis
  proof cases
    case plain
    then show ?thesis using literal [of "[]"] r by (simp add: literal_prefix_def)
  next
    case one
    then obtain r' where "r = CHR 0x27 # r'" using nb by auto
    moreover have "literal_prefix strings [c] \<noteq> None" using one(2) by (auto simp: literal_prefix_def)
    ultimately show ?thesis using literal [of "[c]"] r one(1) by auto
  next
    case two
    then obtain r' r'' where "r = CHR ''&'' # r'" "r' = CHR 0x27 # r''" using nb [of "CHR ''&''"] nb2 [of "CHR 0x27"] by auto
    moreover have "literal_prefix strings [c, CHR ''&''] \<noteq> None" using two(2) by (auto simp: literal_prefix_def)
    ultimately show ?thesis using literal [of "[c, CHR ''&'']"] r two(1) by auto
  qed
qed (rule other)

text \<open>The masked text starts as the text does.\<close>

definition same_start :: "bytes \<Rightarrow> bytes \<Rightarrow> bool" where
  "same_start m r \<longleftrightarrow> take 1 m = take 1 r \<and> (take 1 r = ''&'' \<longrightarrow> take 1 (tl m) = take 1 (tl r))"

lemma comment_end_positive: "0 < postgresCommentEnd rest \<longleftrightarrow> take 2 rest = ''--'' \<or> take 2 rest = ''/*''"
proof -
  have cs: "0 < comment_scan d (c # r)" for d c r by (cases r) auto
  show ?thesis
    by (cases rest; cases "tl rest") (auto simp: postgresCommentEnd_alt cs split: option.splits)
qed

lemma mask_step_head:
  assumes "no_literal j (c # r)"
  shows "take 1 (snd (mask_step strings j (c # r))) = [c]"
proof -
  have "0 < postgresQuotedEnd (c # r)" by (rule postgresQuotedEnd_bounds) simp
  then have quoted: "take 1 (take (postgresQuotedEnd (c # r)) (c # r)) = [c]" by (cases "postgresQuotedEnd (c # r)") auto
  have comment: "0 < n \<Longrightarrow> take 1 (take n (c # r)) = [c]" for n by (cases n) auto
  have dollar: "take 1 (snd (mask_dollar j (c # r))) = [c]"
  proof (cases "postgresDollarTag j (c # r)")
    case (Some m)
    then obtain k where "m = Suc k" using postgresDollarTag_bounds [OF Some] by (cases m) auto
    then show ?thesis using Some by (auto simp: mask_dollar_def Let_def split: option.splits)
  qed (simp add: mask_dollar_def)
  show ?thesis
    unfolding mask_step_no_literal [OF assms] list.sel
    by (simp only: quoted comment dollar snd_conv takeWhile.simps if_True split: if_split) simp
qed

lemma mask_same_start: "same_start (mask_loop strings j r) r"
proof -
  have one: "take 1 (mask_loop strings j r) = take 1 r" for j r
  proof (cases r)
    case (Cons c cs)
    have ne: "r \<noteq> []" using Cons by simp
    show ?thesis
    proof (rule literal_or_not [OF ne, of strings j])
      fix p b t
      assume literal: "r = p @ CHR 0x27 # t" "literal_prefix strings p = Some b" "p \<noteq> [] \<longrightarrow> \<not> j"
      then show ?thesis using mask_loop_literal [OF literal(2,3), of t] by (cases p) simp_all
    next
      assume other: "no_literal j r"
      obtain n out where st: "mask_step strings j r = (n, out)" by fastforce
      have "take 1 out = [c]" using mask_step_head [of j c cs strings] other st Cons by simp
      then obtain o' where "out = c # o'" by (cases out) auto
      then show ?thesis using mask_loop_step [OF ne st] Cons by simp
    qed
  qed simp
  have "take 1 (tl (mask_loop strings j r)) = take 1 (tl r)" if h: "take 1 r = ''&''"
  proof -
    obtain r' where r: "r = CHR ''&'' # r'" using h by (cases r) auto
    have "no_literal j r" by (simp add: r no_literal_def)
    moreover have "\<not> 0 < postgresCommentEnd r" by (cases r') (simp_all add: comment_end_positive r)
    ultimately have "mask_step strings j r = (1, ''&'')"
      by (simp add: mask_step_no_literal r postgresIdentifierByte_def is_digit_def ascii_letter_def)
    from mask_loop_step [OF _ this] have "tl (mask_loop strings j r) = mask_loop strings (postgresIdentifierByte (r ! 0)) r'"
      by (simp add: r)
    then show ?thesis using one r by simp
  qed
  with one show ?thesis by (simp add: same_start_def)
qed

lemma comment_end_copy:
  assumes "postgresCommentEnd (s @ d # r) = length s" and "s \<noteq> []"
  shows "postgresCommentEnd (s @ d # m) = length s"
proof (cases "take 2 (s @ [d]) = ''--'' \<and> d = CHR 0x0A")
  case True
  have t: "take 2 (s @ d # u) = ''--''" for u
    using True assms(2) by (cases s; cases "tl s") (simp_all add: numeral_2_eq_2)
  have "CHR 0x0A \<notin> set s"
  proof
    assume "CHR 0x0A \<in> set s"
    then obtain a b where s: "s = a @ CHR 0x0A # b" "CHR 0x0A \<notin> set a" by (meson split_list_first)
    then show False using assms(1) t [of r] by (simp add: postgresCommentEnd_alt index_byte_append index_byte_None [THEN iffD2] split: option.splits)
  qed
  then show ?thesis
    using t [of m] True by (simp add: postgresCommentEnd_alt index_byte_append index_byte_None [THEN iffD2])
next
  case False
  show ?thesis
  proof (cases "d = CHR 0x0A")
    case True
    define w where "w = take 2 (s @ [d])"
    have t: "take 2 (s @ d # u) = w" for u
      using assms(2) unfolding w_def by (cases s; cases "tl s") (simp_all add: numeral_2_eq_2)
    have no: "w \<noteq> ''--''" using True False unfolding w_def by argo
    have "w = ''--'' \<or> w = ''/*''"
      using assms comment_end_positive [of "s @ d # r", unfolded t] by simp
    then have yes: "w = ''/*''" using no by argo
    have e: "postgresCommentEnd (s @ d # u) = comment_scan 0 (s @ d # u)" for u
      unfolding postgresCommentEnd_alt t yes by simp
    show ?thesis using comment_scan_local [of 0 s d r m] assms(1) unfolding e by simp
  next
    case False
    then show ?thesis using comment_end_local [of d s r m] assms by simp
  qed
qed

lemma no_literal_copy:
  assumes "no_literal j (s @ d # r)" and "s \<noteq> []" and "d = CHR ''&'' \<longrightarrow> take 1 m = take 1 r"
  shows "no_literal j (s @ d # m)"
proof -
  have "next_byte (s @ d # m) 1 = next_byte (s @ d # r) 1"
    using assms(2) by (cases s) (auto simp: next_byte_def nth_append)
  moreover have "next_byte (s @ d # m) 2 = next_byte (s @ d # r) 2" if "next_byte (s @ d # r) 1 = CHR ''&''"
  proof (cases "tl s")
    case Nil
    then obtain x where s: "s = [x]" using assms(2) by (cases s) auto
    then have "take 1 m = take 1 r" using that assms(3) by (simp add: next_byte_def)
    then show ?thesis unfolding s by (cases m; cases r) (simp_all add: next_byte_def)
  next
    case (Cons y ys)
    then obtain x where "s = x # y # ys" using assms(2) by (cases s) auto
    then show ?thesis by (cases ys) (simp_all add: next_byte_def)
  qed
  moreover have "hd (s @ d # u) = hd s" for u using assms(2) by simp
  ultimately show ?thesis using assms(1) unfolding no_literal_def by metis
qed

text \<open>A turn that copies what it passes does so again before a text with the same start.\<close>

lemma copy_again:
  assumes no: "no_literal j (s @ d # r)" and st: "mask_step strings j (s @ d # r) = (length s, s)" and s: "s \<noteq> []" "hd s \<noteq> CHR ''$''"
    and m: "d = CHR ''&'' \<longrightarrow> take 1 m = take 1 r"
  shows "mask_step strings j (s @ d # m) = (length s, s)"
proof -
  have hd: "hd (s @ d # u) = hd s" for u using s(1) by simp
  note le = st [unfolded mask_step_no_literal [OF no] hd]
  have quoted: "postgresQuotedEnd (s @ d # r) = length s \<Longrightarrow> postgresQuotedEnd (s @ d # m) = length s"
    using s(1) identifier_scan_local [of "tl s" d r m] by (cases s) (auto simp: postgresQuotedEnd_def)
  have word: "length (takeWhile postgresIdentifierByte (s @ d # r)) = length s \<Longrightarrow>
      length (takeWhile postgresIdentifierByte (s @ d # m)) = length s"
    using takeWhile_local [of postgresIdentifierByte s d r m] by simp
  have comment: "postgresCommentEnd (s @ d # r) = length s \<Longrightarrow> postgresCommentEnd (s @ d # m) = length s"
    using comment_end_copy s(1) by blast
  have none: "postgresCommentEnd (s @ d # r) = 0 \<Longrightarrow> length s = 1 \<Longrightarrow> postgresCommentEnd (s @ d # m) = 0"
  proof -
    assume h: "postgresCommentEnd (s @ d # r) = 0" "length s = 1"
    then obtain x where x: "s = [x]" by (cases s) auto
    have t: "take 2 (s @ d # u) = [x, d]" for u by (simp add: x numeral_2_eq_2)
    have "0 < postgresCommentEnd (s @ d # u) \<longleftrightarrow> [x, d] = ''--'' \<or> [x, d] = ''/*''" for u
      unfolding comment_end_positive t by (rule refl)
    then show ?thesis using h(1) by (metis less_irrefl neq0_conv)
  qed
  have "s = [hd s]" if "length s = 1" using that by (cases s) auto
  then show ?thesis
    unfolding mask_step_no_literal [OF no_literal_copy [OF no s(1) m]] hd
    using le quoted word comment none s by (auto split: if_splits)
qed

lemma pg_mask_step_other:
  assumes "no_literal j rest" and "rest \<noteq> []" and "hd rest \<noteq> CHR ''$''"
  shows "snd (mask_step strings j rest) = take (fst (mask_step strings j rest)) rest"
  unfolding mask_step_no_literal [OF assms(1)] using assms(2,3) by (cases rest) auto

text \<open>A dollar sign that opens nothing.\<close>

lemma mask_loop_joined:
  "\<forall>b \<in> set w. b \<noteq> CHR ''$'' \<and> postgresIdentifierByte b \<Longrightarrow> mask_loop strings True (w @ r) = w @ mask_loop strings True r"
proof (induction w)
  case (Cons c w)
  then have c: "c \<noteq> CHR ''$''" "postgresIdentifierByte c" by auto
  then have no: "no_literal True (c # w @ r)" "c \<noteq> CHR 0x22" "c \<noteq> CHR ''-''" "c \<noteq> CHR ''/''"
    by (auto simp: no_literal_def postgresIdentifierByte_def is_digit_def ascii_letter_def)
  have "\<not> 0 < postgresCommentEnd (c # w @ r)"
    unfolding comment_end_positive using no(3,4) by simp
  then have "mask_step strings True (c # w @ r) = (1, [c])"
    unfolding mask_step_no_literal [OF no(1)] list.sel using c(1) no(2) by simp
  from mask_loop_step [OF _ this] show ?case using Cons c(2) by simp
qed simp

lemma dollar_alone_again:
  assumes "postgresDollarTag j (CHR ''$'' # r) = None"
  shows "postgresDollarTag j (CHR ''$'' # mask_loop strings True r) = None"
proof (cases "j \<or> r = []")
  case True
  then show ?thesis by (auto simp: postgresDollarTag_def)
next
  case False
  then obtain c cs where r: "r = c # cs" by (cases r) auto
  have c: "c \<noteq> CHR ''$''" using assms False r by (auto simp: postgresDollarTag_def)
  obtain ms where m: "mask_loop strings True r = c # ms"
    using mask_same_start [of strings True r] r by (cases "mask_loop strings True r") (auto simp: same_start_def)
  show ?thesis
  proof (cases "postgresTagStart c")
    case False
    then show ?thesis unfolding m postgresDollarTag_def list.sel list.case using c by simp
  next
    case start: True
    define P where "P b \<longleftrightarrow> b \<noteq> CHR ''$'' \<and> postgresIdentifierByte b" for b
    define w where "w = takeWhile P cs"
    define v where "v = drop (length w) cs"
    have cs: "cs = w @ v" unfolding w_def v_def by (metis append_take_drop_id takeWhile_eq_take)
    have w0: "\<forall>b \<in> set w. P b" using set_takeWhileD [of _ P cs] unfolding w_def by blast
    have "P c" using start c unfolding P_def postgresTagStart_def postgresIdentifierByte_def by argo
    with w0 have "\<forall>b \<in> set (c # w). b \<noteq> CHR ''$'' \<and> postgresIdentifierByte b" by (simp only: list.set ball_simps P_def) argo
    from mask_loop_joined [OF this, of strings v] have ms: "ms = w @ mask_loop strings True v"
      using m unfolding r cs by simp
    have t: "postgresDollarTag j (CHR ''$'' # c # xs) =
        (case drop (length (takeWhile P xs)) xs of [] \<Rightarrow> None | d # _ \<Rightarrow> if d = CHR ''$'' then Some (length (takeWhile P xs) + 3) else None)" for xs
      using \<open>\<not> (j \<or> r = [])\<close> c start unfolding postgresDollarTag_def P_def Let_def by simp
    have w1: "takeWhile P (w @ u) = w" if "u = [] \<or> \<not> P (hd u)" for u
      using w0 that by (cases u) (auto simp: takeWhile_tail)
    show ?thesis
    proof (cases v)
      case Nil
      then have e: "ms = w" using ms by simp
      have tw: "takeWhile P w = w" using w1 [of "[]"] by simp
      have d: "drop (length (takeWhile P w)) w = []" by (simp only: tw drop_all order_refl)
      show ?thesis unfolding m t e d by simp
    next
      case (Cons d ds)
      have nd: "\<not> P d"
        using Cons unfolding v_def w_def by (metis dropWhile_eq_drop hd_dropWhile list.distinct(1) list.sel(1))
      have tw: "takeWhile P (w @ d # ds) = w" using w1 [of "d # ds"] nd by simp
      have "(if d = CHR ''$'' then Some (length w + 3) else None) = None"
        using assms unfolding r t cs Cons tw by simp
      then have "d \<noteq> CHR ''$''" by (metis option.distinct(1))
      moreover obtain ms' where "mask_loop strings True v = d # ms'"
        using mask_same_start [of strings True v] Cons by (cases "mask_loop strings True v") (auto simp: same_start_def)
      ultimately show ?thesis unfolding m t ms using w1 [of "d # ms'"] nd by simp
    qed
  qed
qed

text \<open>What \<open>mask_dollar\<close> passes when a tag opens a dollar quote.\<close>

lemma dollar_tag_found:
  assumes "postgresDollarTag j rest = Some m" and "take 1 rest = ''$''"
  shows "dollar_tag (take m rest)" "\<not> j"
proof -
  show j: "\<not> j" using assms(1) by (auto simp: postgresDollarTag_def)
  obtain c cs where r: "rest = CHR ''$'' # c # cs"
    using assms j by (cases rest; cases "tl rest") (auto simp: postgresDollarTag_def)
  show "dollar_tag (take m rest)"
  proof (cases "c = CHR ''$''")
    case True
    then have "m = 2" using assms(1) j unfolding r postgresDollarTag_def by simp
    then show ?thesis unfolding r True dollar_tag_def postgresDollarTag_def by (simp add: numeral_2_eq_2)
  next
    case False
    define P where "P b \<longleftrightarrow> b \<noteq> CHR ''$'' \<and> postgresIdentifierByte b" for b
    define w where "w = takeWhile P cs"
    have h: "(if \<not> postgresTagStart c then None
        else case drop (length w) cs of [] \<Rightarrow> None | d # _ \<Rightarrow> if d = CHR ''$'' then Some (length w + 3) else None) = Some m"
      using assms(1) j False unfolding r postgresDollarTag_def P_def [symmetric] Let_def w_def by simp
    then have start: "postgresTagStart c" by (metis option.distinct(1))
    obtain d ds where d1: "drop (length w) cs = d # ds" using h start by (cases "drop (length w) cs") simp_all
    have h2: "(if d = CHR ''$'' then Some (length w + 3) else None) = Some m" using h start d1 by simp
    then have d: "d = CHR ''$''" by (metis option.distinct(1))
    then have m: "m = length w + 3" using h2 by simp
    have cs: "cs = w @ CHR ''$'' # ds" using d1 d unfolding w_def by (metis append_take_drop_id takeWhile_eq_take)
    have q: "take m rest = CHR ''$'' # c # w @ ''$''" unfolding r cs m by (simp add: numeral_3_eq_3)
    have "\<forall>b \<in> set w. P b" using set_takeWhileD [of _ P cs] unfolding w_def by blast
    then have "takeWhile P (w @ ''$'') = w" by (simp add: takeWhile_tail P_def)
    then have "postgresDollarTag False (take m rest) = Some (length w + 3)"
      unfolding q postgresDollarTag_def P_def [symmetric] Let_def list.sel list.case using False start by simp
    then show ?thesis unfolding dollar_tag_def q by simp
  qed
qed

lemma dollar_tail_again:
  assumes "dollar_tag q"
  shows "dollar_tail q ''?'' = None" "dollar_tail q (CHR ''?'' # q @ u) = Some u"
proof -
  obtain w where w: "q = CHR ''$'' # w @ ''$''" using dollar_tag_parts [OF assms] by blast
  have p: "\<not> has_prefix (CHR ''?'' # u) q" for u by (simp add: w has_prefix_def)
  have "has_prefix (q @ u) q" by (simp add: has_prefix_def)
  then have "index_bytes (q @ u) q = Some 0" by (cases "q @ u") (simp_all add: w)
  then show "dollar_tail q (CHR ''?'' # q @ u) = Some u" using p by (simp add: dollar_tail_def)
  show "dollar_tail q ''?'' = None" using p [of "[]"] by (simp add: dollar_tail_def w)
qed

lemma quote_scan_not_doubled:
  "quote_scan b cs = (n, True) \<Longrightarrow> n < length cs \<Longrightarrow> cs ! n \<noteq> CHR 0x27"
  by (induction b cs arbitrary: n rule: quote_scan.induct) (auto split: prod.splits if_splits)

lemma literal_tail_next: "literal_tail strings b t = Some v \<Longrightarrow> take 1 v \<noteq> [CHR 0x27]"
proof -
  assume h: "literal_tail strings b t = Some v"
  obtain n closed where s: "quote_scan b t = (n, closed)" by fastforce
  then have c: closed and v: "v = drop n t" using h by (auto simp: literal_tail_def split: if_splits)
  show ?thesis
  proof (cases "n < length t")
    case True
    then have "v = t ! n # drop (Suc n) t" unfolding v by (rule Cons_nth_drop_Suc [symmetric])
    then show ?thesis using quote_scan_not_doubled [of b t n] s c True by simp
  qed (simp add: v)
qed

lemma literal_tail_again:
  "literal_tail strings b ''?'' = None"
  "take 1 u \<noteq> [CHR 0x27] \<Longrightarrow> literal_tail strings b (CHR ''?'' # CHR 0x27 # u) = Some u"
  by (simp_all add: literal_tail_def) (cases u; simp)

text \<open>
  One turn of the second masking for each kind of turn of the first, when the rest of the text is
  already known to mask to itself.
\<close>

definition mask_settled :: "postgresStrings \<Rightarrow> nat \<Rightarrow> bool" where
  "mask_settled strings k \<longleftrightarrow>
     (\<forall>j rest. length rest < k \<longrightarrow> mask_loop strings j (mask_loop strings j rest) = mask_loop strings j rest)"

lemma mask_settledD: "mask_settled strings k \<Longrightarrow> length rest < k \<Longrightarrow> mask_loop strings j (mask_loop strings j rest) = mask_loop strings j rest"
  by (simp add: mask_settled_def)

lemma mask_again_literal:
  assumes hyp: "mask_settled strings (length (p @ CHR 0x27 # t))"
    and l: "literal_prefix strings p = Some b" "p \<noteq> [] \<longrightarrow> \<not> j"
  shows "mask_loop strings j (mask_loop strings j (p @ CHR 0x27 # t)) = mask_loop strings j (p @ CHR 0x27 # t)"
proof (cases "literal_tail strings b t")
  case None
  then show ?thesis using mask_loop_literal [OF l] literal_tail_again(1) [of strings b] by simp
next
  case (Some v)
  let ?m = "mask_loop strings False v"
  have "length v < length (p @ CHR 0x27 # t)" using literal_tail_some [OF Some] by auto
  from mask_settledD [OF hyp this] have again: "mask_loop strings False ?m = ?m" .
  have "take 1 ?m \<noteq> [CHR 0x27]"
    using literal_tail_next [OF Some] mask_same_start [of strings False v] by (simp add: same_start_def)
  then show ?thesis
    using mask_loop_literal [OF l] Some literal_tail_again(2) [of ?m strings b] again by simp
qed

lemma mask_again_dollar:
  assumes hyp: "mask_settled strings (length (q @ t))" and q: "dollar_tag q"
  shows "mask_loop strings False (mask_loop strings False (q @ t)) = mask_loop strings False (q @ t)"
proof (cases "dollar_tail q t")
  case None
  then show ?thesis using mask_loop_dollar [OF q, of strings] dollar_tail_again(1) [OF q] by simp
next
  case (Some v)
  let ?v = "mask_loop strings True v"
  have "q \<noteq> []" using dollar_tag_parts [OF q] by auto
  then have "length v < length (q @ t)" using dollar_tail_some [OF Some] by auto
  from mask_settledD [OF hyp this] have "mask_loop strings True ?v = ?v" .
  then show ?thesis using mask_loop_dollar [OF q, of strings] Some dollar_tail_again(2) [OF q, of ?v] by simp
qed

lemma mask_again_alone:
  assumes hyp: "mask_settled strings (Suc (length cs))" and none: "postgresDollarTag j (CHR ''$'' # cs) = None"
  shows "mask_loop strings j (mask_loop strings j (CHR ''$'' # cs)) = mask_loop strings j (CHR ''$'' # cs)"
proof -
  have nl: "no_literal j (CHR ''$'' # u)" for u by (simp add: no_literal_def)
  have "mask_step strings j (CHR ''$'' # u) = (1, ''$'')" if "postgresDollarTag j (CHR ''$'' # u) = None" for u
    using that by (simp add: mask_step_no_literal [OF nl] mask_dollar_def)
  from mask_loop_step [OF _ this] have step: "mask_loop strings j (CHR ''$'' # u) = CHR ''$'' # mask_loop strings True u"
    if "postgresDollarTag j (CHR ''$'' # u) = None" for u
    using that by (simp add: postgresIdentifierByte_def)
  have "mask_loop strings True (mask_loop strings True cs) = mask_loop strings True cs"
    by (rule mask_settledD [OF hyp]) simp
  then show ?thesis unfolding step [OF none] using step [OF dollar_alone_again [OF none]] by simp
qed

lemma mask_again_copy:
  assumes hyp: "mask_settled strings (length rest)" and no: "no_literal j rest" and ne: "rest \<noteq> []" "hd rest \<noteq> CHR ''$''"
  shows "mask_loop strings j (mask_loop strings j rest) = mask_loop strings j rest"
proof -
  obtain n out where st: "mask_step strings j rest = (n, out)" by fastforce
  let ?j = "postgresIdentifierByte (rest ! (n - 1))"
  let ?m = "mask_loop strings ?j (drop n rest)"
  have n: "0 < n" "n \<le> length rest" using mask_step_bounds [OF ne(1), of strings j] st by simp_all
  have all: "mask_loop strings j rest = out @ ?m" by (rule mask_loop_step [OF ne(1) st])
  have again: "mask_loop strings ?j ?m = ?m" using mask_settledD [OF hyp, of "drop n rest"] n by simp
  have out: "out = take n rest" using pg_mask_step_other [OF no ne, of strings] st by simp
  show ?thesis
  proof (cases "drop n rest")
    case Nil
    then show ?thesis using all out by simp
  next
    case (Cons d ds)
    have dm: "?m = d # tl ?m" "d = CHR ''&'' \<longrightarrow> take 1 (tl ?m) = take 1 ds"
      using mask_same_start [of strings ?j "drop n rest"] Cons by (cases ?m; auto simp: same_start_def)+
    have rest: "rest = out @ d # ds" using out Cons by (metis append_take_drop_id)
    have len: "length out = n" using out n by simp
    have "mask_step strings j (out @ d # tl ?m) = (length out, out)"
    proof (rule copy_again)
      show "no_literal j (out @ d # ds)" "mask_step strings j (out @ d # ds) = (length out, out)"
        using no st len rest by simp_all
      show "out \<noteq> []" "hd out \<noteq> CHR ''$''" using n out ne by (cases rest; cases n; simp)+
    qed (rule dm(2))
    then have step: "mask_step strings j (out @ ?m) = (n, out)" using dm(1) len by simp
    have "(out @ ?m) ! (n - 1) = rest ! (n - 1)" using n len out by (simp add: nth_append)
    then show ?thesis using all mask_loop_step [OF _ step] again len n by (cases "out @ ?m = []") auto
  qed
qed

lemma pg_mask_again: "mask_loop strings j (mask_loop strings j rest) = mask_loop strings j rest"
proof (induction "length rest" arbitrary: j rest rule: less_induct)
  case less
  then have hyp: "mask_settled strings (length rest)" by (simp add: mask_settled_def)
  show ?case
  proof (cases "rest = []")
    case ne: False
    show ?thesis
    proof (rule literal_or_not [OF ne, of strings j])
      fix p b t
      assume "rest = p @ CHR 0x27 # t" "literal_prefix strings p = Some b" "p \<noteq> [] \<longrightarrow> \<not> j"
      then show ?thesis using mask_again_literal [of strings p t b j] hyp by simp
    next
      assume no: "no_literal j rest"
      obtain c cs where r: "rest = c # cs" using ne by (cases rest) auto
      show ?thesis
      proof (cases "c = CHR ''$''")
        case dollar: True
        show ?thesis
        proof (cases "postgresDollarTag j rest")
          case None
          then show ?thesis using mask_again_alone [of strings cs j] hyp unfolding r dollar by simp
        next
          case (Some m)
          have "take 1 rest = ''$''" using r dollar by simp
          note found = dollar_tag_found [OF Some this]
          have "rest = take m rest @ drop m rest" by simp
          then show ?thesis using mask_again_dollar [OF _ found(1), of strings "drop m rest"] found(2) hyp by simp
        qed
      qed (use mask_again_copy [OF hyp no ne] r in simp)
    qed
  qed simp
qed

subsection \<open>Without a backslash the setting does not matter\<close>

lemma quote_scan_plain: "CHR 0x5C \<notin> set cs \<Longrightarrow> quote_scan b cs = quote_scan False cs"
  by (induction b cs rule: quote_scan.induct) (auto split: prod.split)

lemma mask_literal_plain:
  assumes "CHR 0x5C \<notin> set rest"
  shows "mask_literal strings b rest = mask_literal StringsOn False rest"
proof -
  have "CHR 0x5C \<notin> set (drop 1 (take n rest))" for n using assms by (meson in_set_dropD in_set_takeD)
  moreover have "postgresLiteralEnd rest b = postgresLiteralEnd rest False"
    using assms quote_scan_plain [of _ b] by (cases rest) (simp_all add: postgresLiteralEnd_def)
  ultimately show ?thesis by (simp add: mask_literal_def)
qed

lemma mask_step_plain:
  assumes "CHR 0x5C \<notin> set rest"
  shows "mask_step strings joined rest = mask_step StringsOn joined rest"
proof -
  define f where "f = mask_literal StringsOn False"
  have behind: "mask_literal s b (drop k rest) = f (drop k rest)" for s b k
    unfolding f_def by (rule mask_literal_plain) (meson assms in_set_dropD)
  have here: "mask_literal s b rest = f rest" for s b
    unfolding f_def by (rule mask_literal_plain [OF assms])
  show ?thesis unfolding mask_step_def Let_def behind here by (rule refl)
qed

lemma mask_loop_plain:
  "CHR 0x5C \<notin> set rest \<Longrightarrow> mask_loop strings joined rest = mask_loop StringsOn joined rest"
proof (induction "length rest" arbitrary: joined rest rule: less_induct)
  case less
  show ?case
  proof (cases "rest = []")
    case False
    obtain n out where st: "mask_step StringsOn joined rest = (n, out)" by fastforce
    have "n > 0" using mask_step_bounds [OF False, of StringsOn joined] st by simp
    then have "mask_loop strings j (drop n rest) = mask_loop StringsOn j (drop n rest)" for j
      using False less.prems by (intro less.hyps) (auto dest: in_set_dropD)
    then show ?thesis using mask_loop_step [OF False] st mask_step_plain [OF less.prems, of strings joined] by simp
  qed simp
qed

subsection \<open>\<open>tracePostgresShape\<close>\<close>

text \<open>The end of a number: digits and dots, an exponent.\<close>

definition postgres_number_end :: "bytes \<Rightarrow> nat" where
  "postgres_number_end rest =
     (let e = length (takeWhile (\<lambda>b. is_digit b \<or> b = CHR ''.'') rest) in
      if e + 1 < length rest \<and> (rest ! e = CHR ''e'' \<or> rest ! e = CHR ''E'') \<and>
         (is_digit (rest ! (e + 1)) \<or> rest ! (e + 1) = CHR ''+'' \<or> rest ! (e + 1) = CHR ''-'')
      then e + 2 + length (takeWhile is_digit (drop (e + 2) rest))
      else e)"

text \<open>One token of the masked text that is not white space: its length and what the shape shows of it.\<close>

definition postgres_shape_token :: "bytes \<Rightarrow> nat \<times> bytes" where
  "postgres_shape_token rest =
     (let value = hd rest in
      if value = CHR 0x27 then (fst (postgresLiteralEnd rest False), ''?'')
      else if value = CHR 0x22 then (postgresQuotedEnd rest, take (postgresQuotedEnd rest) rest)
      else if value = CHR ''$'' \<and> 1 < length rest \<and> is_digit (rest ! 1) then
        (let n = 1 + length (takeWhile is_digit (tl rest)) in (n, take n rest))
      else if is_digit value then
        (let e = postgres_number_end rest in
         if e < length rest \<and> postgresIdentifierByte (rest ! e) then
           (let n = e + length (takeWhile postgresIdentifierByte (drop e rest)) in (n, take n rest))
         else (e, ''?''))
      else if postgresIdentifierByte value then
        (let n = length (takeWhile postgresIdentifierByte rest) in (n, take n rest))
      else if 0 < postgresCommentEnd rest then (postgresCommentEnd rest, take (postgresCommentEnd rest) rest)
      else (1, [value]))"

lemma postgres_number_progress: "rest \<noteq> [] \<Longrightarrow> is_digit (hd rest) \<Longrightarrow> 0 < postgres_number_end rest"
  by (cases rest) (auto simp: postgres_number_end_def Let_def)

lemma postgres_shape_token_progress: "rest \<noteq> [] \<Longrightarrow> 0 < fst (postgres_shape_token rest)"
  using postgresLiteralEnd_bounds(1) [of rest False] postgresQuotedEnd_bounds(1) [of rest] postgres_number_progress [of rest]
  by (cases rest) (auto simp: postgres_shape_token_def Let_def)

function postgres_shape_loop :: "bytes \<Rightarrow> bool \<Rightarrow> bytes \<Rightarrow> bytes" where
  "postgres_shape_loop [] space out = out"
| "postgres_shape_loop (c # cs) space out =
     (if shape_space c then postgres_shape_loop cs True out
      else
        (case postgres_shape_token (c # cs) of (n, shown) \<Rightarrow>
           postgres_shape_loop (drop n (c # cs)) False ((if space \<and> out \<noteq> [] then out @ '' '' else out) @ shown)))"
  by pat_completeness auto
termination
proof (relation "measure (\<lambda>(rest, _). length rest)", goal_cases)
  case (3 c cs space out n shown)
  then have "0 < n" using postgres_shape_token_progress [of "c # cs"] by (metis fst_conv list.distinct(2))
  then show ?case by (simp add: less_Suc_eq_le)
qed simp_all

definition tracePostgresShape :: "bytes \<Rightarrow> bytes" where
  "tracePostgresShape sql =
     (let shape = postgres_shape_loop (postgresMask sql StringsUnknown) False [] in
      if mysqlShapeLimit < length shape then traceTrimText shape mysqlShapeLimit @ ''...'' else shape)"



text \<open>
  With a backslash in a string constant the two shapes differ when the setting is known: the mask of
  \<open>tracePostgresShape\<close> does not know it and hides the rest of the text.
\<close>

lemma postgres_shape_backslash:
  "tracePostgresShape (postgresMask (''select '' @ CHR 0x27 # ''a'' @ CHR 0x5C # ''b'' @ CHR 0x27 # '', 5'') StringsOn) = ''select ?, ?'' \<and>
   tracePostgresShape (''select '' @ CHR 0x27 # ''a'' @ CHR 0x5C # ''b'' @ CHR 0x27 # '', 5'') = ''select ?''"
  by code_simp

end
