(* ===== verification/PostgresTokens.thy ===== *)
theory PostgresTokens
  imports PostgresShape SqlChars
begin

text \<open>
  What \<open>postgresMask\<close> promises, against the lexical grammar of PostgreSQL and not against the scanners of the
  code: a statement is a sequence of string constants, dollar quotes, quoted names, words, comments (which
  nest) and single bytes. \<open>pg_tokens\<close> says when a sequence of tokens is the reading of its text. The
  theorem: every text has such a reading, and masking replaces the body of each string constant and dollar
  quote by a question mark and copies every other token.
\<close>

subsection \<open>Words and marks\<close>

definition word_byte :: "byte \<Rightarrow> bool" where
  "word_byte b \<longleftrightarrow> b \<in> {CHR ''_'', CHR ''$''} \<or> bval b \<in> {48..57} \<union> {65..90} \<union> {97..122} \<union> {128..255}"

text \<open>The mark of a dollar quote: two dollar signs, or a name without dollar signs between them.\<close>

definition dollar_mark :: "bytes \<Rightarrow> bool" where
  "dollar_mark tag \<longleftrightarrow>
     (\<exists>w. tag = CHR ''$'' # w @ ''$'' \<and> list_all (\<lambda>b. word_byte b \<and> b \<noteq> CHR ''$'') w \<and>
        \<not> (w \<noteq> [] \<and> bval (hd w) \<in> {48..57}))"

definition opens_dollar :: "bytes \<Rightarrow> bool" where
  "opens_dollar w \<longleftrightarrow> (\<exists>tag more. dollar_mark tag \<and> w = tag @ more)"

text \<open>
  The letters of a string constant before its quote, and whether a backslash escapes in it: \<open>E\<close> always, none
  or \<open>N\<close> when standard\_conforming\_strings is off, bit strings and Unicode strings never.
\<close>

definition constant_kind :: "postgresStrings \<Rightarrow> bytes \<Rightarrow> bool option" where
  "constant_kind strings p =
     (if p \<in> {[], ''N'', ''n''} then Some (strings = StringsOff)
      else if p \<in> {''E'', ''e''} then Some True
      else if p \<in> {''U&'', ''u&'', ''B'', ''b'', ''X'', ''x''} then Some False
      else None)"

subsection \<open>Comments\<close>

text \<open>A comment opened by \<open>/*\<close> nests. Its text is read in pieces: an opening, a closing, any other byte.\<close>

datatype pg_piece = Opening | Closing | Other byte

fun piece_text :: "pg_piece \<Rightarrow> bytes" where
  "piece_text Opening = ''/*''"
| "piece_text Closing = ''*/''"
| "piece_text (Other b) = [b]"

definition pieces_text :: "pg_piece list \<Rightarrow> bytes" where
  "pieces_text ps = concat (map piece_text ps)"

fun depth_after :: "nat \<Rightarrow> pg_piece \<Rightarrow> nat" where
  "depth_after d Opening = d + 1"
| "depth_after d Closing = d - 1"
| "depth_after d (Other b) = d"

text \<open>The comment at depth \<open>d\<close> ends with the last of the pieces, or is still open after them.\<close>

fun ends_comment :: "nat \<Rightarrow> pg_piece list \<Rightarrow> bool" where
  "ends_comment d [] = False"
| "ends_comment d (p # ps) = (if depth_after d p = 0 then ps = [] else ends_comment (depth_after d p) ps)"

fun stays_open :: "nat \<Rightarrow> pg_piece list \<Rightarrow> bool" where
  "stays_open d [] = True"
| "stays_open d (p # ps) \<longleftrightarrow> depth_after d p \<noteq> 0 \<and> stays_open (depth_after d p) ps"

text \<open>Two bytes that open or close are read as that.\<close>

fun pieces_read :: "pg_piece list \<Rightarrow> bytes \<Rightarrow> bool" where
  "pieces_read [] rest = True"
| "pieces_read (p # ps) rest \<longleftrightarrow>
     (case p of Other b \<Rightarrow> take 2 (b # pieces_text ps @ rest) \<notin> {''/*'', ''*/''} | _ \<Rightarrow> True) \<and> pieces_read ps rest"

subsection \<open>Tokens\<close>

text \<open>
  The tokens that end with the text: the open ones, and with an unknown setting a constant in which a backslash
  may escape or not (\<open>PgUnsure\<close>: its characters up to a backslash, then everything else).
\<close>

datatype pg_token =
    PgConstant bytes "sql_char list"
  | PgOpenConstant bytes "sql_char list" bool
  | PgUnsure bytes "sql_char list" bytes
  | PgDollar bytes bytes
  | PgOpenDollar bytes bytes
  | PgName "sql_char list"
  | PgOpenName "sql_char list"
  | PgWord bytes
  | PgLine bytes
  | PgComment "pg_piece list"
  | PgOpenComment "pg_piece list"
  | PgCode byte

fun pg_text :: "pg_token \<Rightarrow> bytes" where
  "pg_text (PgConstant p cs) = p @ [CHR 0x27] @ chars_text (CHR 0x27) cs @ [CHR 0x27]"
| "pg_text (PgOpenConstant p cs dangling) = p @ [CHR 0x27] @ chars_text (CHR 0x27) cs @ dangling_text dangling"
| "pg_text (PgUnsure p cs more) = p @ [CHR 0x27] @ chars_text (CHR 0x27) cs @ CHR 0x5C # more"
| "pg_text (PgDollar tag body) = tag @ body @ tag"
| "pg_text (PgOpenDollar tag body) = tag @ body"
| "pg_text (PgName cs) = [CHR 0x22] @ chars_text (CHR 0x22) cs @ [CHR 0x22]"
| "pg_text (PgOpenName cs) = [CHR 0x22] @ chars_text (CHR 0x22) cs"
| "pg_text (PgWord w) = w"
| "pg_text (PgLine w) = w"
| "pg_text (PgComment ps) = ''/*'' @ pieces_text ps"
| "pg_text (PgOpenComment ps) = ''/*'' @ pieces_text ps"
| "pg_text (PgCode b) = [b]"

text \<open>What the masked statement shows of a token.\<close>

fun pg_shown :: "pg_token \<Rightarrow> bytes" where
  "pg_shown (PgConstant p cs) = p @ [CHR 0x27, CHR ''?'', CHR 0x27]"
| "pg_shown (PgOpenConstant p cs dangling) = p @ [CHR 0x27, CHR ''?'']"
| "pg_shown (PgUnsure p cs more) = p @ [CHR 0x27, CHR ''?'']"
| "pg_shown (PgDollar tag body) = tag @ ''?'' @ tag"
| "pg_shown (PgOpenDollar tag body) = tag @ ''?''"
| "pg_shown t = pg_text t"

text \<open>
  When \<open>t\<close> is the token that starts before the text \<open>rest\<close>; \<open>joined\<close> says that the byte before it
  belongs to a word.
\<close>

definition hides_backslash :: "postgresStrings \<Rightarrow> bytes \<Rightarrow> bool" where
  "hides_backslash strings p \<longleftrightarrow> strings = StringsUnknown \<and> constant_kind strings p = Some False"

definition constant_ok :: "postgresStrings \<Rightarrow> bool \<Rightarrow> bytes \<Rightarrow> sql_char list \<Rightarrow> bool" where
  "constant_ok strings joined p cs \<longleftrightarrow>
     (\<exists>escapes. constant_kind strings p = Some escapes \<and> list_all (quoted_char escapes (CHR 0x27)) cs) \<and>
     (p = [] \<or> \<not> joined)"

fun pg_token_ok :: "postgresStrings \<Rightarrow> bool \<Rightarrow> pg_token \<Rightarrow> bytes \<Rightarrow> bool" where
  "pg_token_ok strings joined (PgConstant p cs) rest \<longleftrightarrow>
     constant_ok strings joined p cs \<and> \<not> (hides_backslash strings p \<and> Plain (CHR 0x5C) \<in> set cs) \<and>
     \<not> (rest \<noteq> [] \<and> hd rest = CHR 0x27)"
| "pg_token_ok strings joined (PgOpenConstant p cs dangling) rest \<longleftrightarrow>
     constant_ok strings joined p cs \<and> (dangling \<longrightarrow> constant_kind strings p = Some True) \<and> rest = []"
| "pg_token_ok strings joined (PgUnsure p cs more) rest \<longleftrightarrow>
     constant_ok strings joined p cs \<and> hides_backslash strings p \<and> rest = []"
| "pg_token_ok strings joined (PgDollar tag body) rest \<longleftrightarrow> \<not> joined \<and> dollar_mark tag \<and> first_at tag body"
| "pg_token_ok strings joined (PgOpenDollar tag body) rest \<longleftrightarrow>
     \<not> joined \<and> dollar_mark tag \<and> \<not> occurs tag body \<and> rest = []"
| "pg_token_ok strings joined (PgName cs) rest \<longleftrightarrow>
     list_all (quoted_char False (CHR 0x22)) cs \<and> \<not> (rest \<noteq> [] \<and> hd rest = CHR 0x22)"
| "pg_token_ok strings joined (PgOpenName cs) rest \<longleftrightarrow> list_all (quoted_char False (CHR 0x22)) cs \<and> rest = []"
| "pg_token_ok strings joined (PgWord w) rest \<longleftrightarrow>
     \<not> joined \<and> w \<noteq> [] \<and> hd w \<noteq> CHR ''$'' \<and> list_all word_byte w \<and> \<not> (rest \<noteq> [] \<and> word_byte (hd rest)) \<and>
     \<not> (\<exists>p more. constant_kind strings p \<noteq> None \<and> w @ rest = p @ CHR 0x27 # more)"
| "pg_token_ok strings joined (PgLine w) rest \<longleftrightarrow>
     take 2 w = ''--'' \<and> CHR 0x0A \<notin> set w \<and> (rest = [] \<or> hd rest = CHR 0x0A)"
| "pg_token_ok strings joined (PgComment ps) rest \<longleftrightarrow> ends_comment 1 ps \<and> pieces_read ps rest"
| "pg_token_ok strings joined (PgOpenComment ps) rest \<longleftrightarrow> stays_open 1 ps \<and> pieces_read ps [] \<and> rest = []"
| "pg_token_ok strings joined (PgCode b) rest \<longleftrightarrow>
     b \<notin> {CHR 0x27, CHR 0x22} \<and> take 2 (b # rest) \<notin> {''--'', ''/*''} \<and>
     (joined \<or> (if b = CHR ''$'' then \<not> opens_dollar (b # rest) else \<not> word_byte b))"

definition pg_tokens_text :: "pg_token list \<Rightarrow> bytes" where
  "pg_tokens_text ts = concat (map pg_text ts)"

definition pg_tokens_shown :: "pg_token list \<Rightarrow> bytes" where
  "pg_tokens_shown ts = concat (map pg_shown ts)"

fun pg_tokens :: "postgresStrings \<Rightarrow> bool \<Rightarrow> pg_token list \<Rightarrow> bool" where
  "pg_tokens strings joined [] = True"
| "pg_tokens strings joined (t # ts) \<longleftrightarrow>
     pg_token_ok strings joined t (pg_tokens_text ts) \<and> pg_tokens strings (word_byte (last (pg_text t))) ts"

lemma pg_simps [simp]:
  "pg_tokens_text [] = []" "pg_tokens_text (t # ts) = pg_text t @ pg_tokens_text ts"
  "pg_tokens_shown [] = []" "pg_tokens_shown (t # ts) = pg_shown t @ pg_tokens_shown ts"
  by (simp_all add: pg_tokens_text_def pg_tokens_shown_def)

lemma pieces_simps [simp]: "pieces_text [] = []" "pieces_text (p # ps) = piece_text p @ pieces_text ps"
  by (simp_all add: pieces_text_def)

subsection \<open>The bytes and letters of the code\<close>

lemma word_byte_code: "postgresIdentifierByte b = word_byte b"
proof -
  have "bval b \<le> 255" using bval_less [of b] by linarith
  then show ?thesis by (auto simp: postgresIdentifierByte_def word_byte_def is_digit_def ascii_letter_def)
qed

lemma constant_kind_code: "literal_prefix strings p = constant_kind strings p"
  by (simp add: literal_prefix_def constant_kind_def)

subsection \<open>The scanners read the grammar\<close>

lemma quote_scan_chars:
  "list_all (quoted_char b (CHR 0x27)) cs \<Longrightarrow>
     quote_scan b (chars_text (CHR 0x27) cs @ more) =
     (length (chars_text (CHR 0x27) cs) + fst (quote_scan b more), snd (quote_scan b more))"
proof (induction cs)
  case (Cons c cs)
  have plain: "quote_scan b (x # v) = (fst (quote_scan b v) + 1, snd (quote_scan b v))"
    if "x \<noteq> CHR 0x27" "b \<longrightarrow> x \<noteq> CHR 0x5C" for x v
    using that by (cases v; cases "quote_scan b v") auto
  have two: "quote_scan b (x # y # v) = (fst (quote_scan b v) + 2, snd (quote_scan b v))"
    if "b \<and> x = CHR 0x5C \<or> x = CHR 0x27 \<and> y = CHR 0x27" for x y v
    using that by (cases "quote_scan b v") simp
  show ?case
  proof (cases c)
    case (Plain x)
    then show ?thesis using Cons plain [of x "chars_text (CHR 0x27) cs @ more"] by simp
  next
    case Twice
    then show ?thesis using Cons two [of "CHR 0x27" "CHR 0x27" "chars_text (CHR 0x27) cs @ more"] by simp
  next
    case (Escaped x)
    have b: "b" using Escaped Cons.prems by simp
    then have "list_all (quoted_char b (CHR 0x27)) cs" using Cons.prems by simp
    from Cons.IH [OF this] show ?thesis
      using Escaped b two [of "CHR 0x5C" x "chars_text (CHR 0x27) cs @ more"] by simp
  qed
qed simp

lemma quote_scan_close: "\<not> (rest \<noteq> [] \<and> hd rest = CHR 0x27) \<Longrightarrow> quote_scan b (CHR 0x27 # rest) = (1, True)"
  by (cases rest) auto

lemma quote_scan_dangling: "(dangling \<longrightarrow> b) \<Longrightarrow> quote_scan b (dangling_text dangling) = (length (dangling_text dangling), False)"
  by (cases dangling) auto

lemma identifier_scan_chars:
  "list_all (quoted_char False (CHR 0x22)) cs \<Longrightarrow>
     identifier_scan (chars_text (CHR 0x22) cs @ more) = length (chars_text (CHR 0x22) cs) + identifier_scan more"
proof (induction cs)
  case (Cons c cs)
  have plain: "identifier_scan (x # v) = identifier_scan v + 1" if "x \<noteq> CHR 0x22" for x v
    using that by (cases v) auto
  show ?case using Cons plain by (cases c) auto
qed simp

lemma identifier_scan_close: "\<not> (rest \<noteq> [] \<and> hd rest = CHR 0x22) \<Longrightarrow> identifier_scan (CHR 0x22 # rest) = 1"
  by (cases rest) auto

lemma has_prefix_ex: "has_prefix w sep \<longleftrightarrow> (\<exists>ys. w = sep @ ys)"
  by (auto simp: has_prefix_def) (metis append_take_drop_id)

lemma index_bytes_none: "\<not> occurs sep w \<Longrightarrow> index_bytes w sep = None"
proof (induction w)
  case (Cons c cs)
  then show ?case unfolding occurs_Cons index_bytes.simps has_prefix_ex by simp
qed simp

lemma index_bytes_first:
  "first_at sep body \<Longrightarrow> sep \<noteq> [] \<Longrightarrow> index_bytes (body @ sep @ rest) sep = Some (length body)"
proof (induction body)
  case Nil
  then obtain c cs where "sep @ rest = c # cs" by (cases sep) auto
  then show ?case by (auto simp: has_prefix_ex) (metis)
next
  case (Cons c body)
  then show ?case
    using first_at_Cons(1) [of sep c body] first_at_Cons(2) [of sep c body rest] by (simp add: has_prefix_ex)
qed

lemma comment_scan_closed:
  "ends_comment d ps \<Longrightarrow> pieces_read ps rest \<Longrightarrow> d \<noteq> 0 \<Longrightarrow> comment_scan d (pieces_text ps @ rest) = length (pieces_text ps)"
proof (induction d ps rule: ends_comment.induct)
  case (2 d p ps)
  show ?case
  proof (cases p)
    case (Other b)
    then obtain x v where v: "pieces_text ps @ rest = x # v"
      using "2.prems"(1,3) by (cases ps; cases "hd ps"; auto split: if_splits)
    then show ?thesis using 2 Other by (auto split: if_splits)
  qed (use 2 in \<open>auto split: if_splits\<close>)
qed simp

lemma comment_scan_open:
  "stays_open d ps \<Longrightarrow> pieces_read ps [] \<Longrightarrow> d \<noteq> 0 \<Longrightarrow> comment_scan d (pieces_text ps) = length (pieces_text ps)"
proof (induction d ps rule: stays_open.induct)
  case (2 d p ps)
  show ?case
  proof (cases p)
    case (Other b)
    then show ?thesis using 2 by (cases "pieces_text ps") auto
  qed (use 2 in auto)
qed simp

subsection \<open>One token is one turn of the loop\<close>

lemma backslash_char: "list_all (quoted_char False q) cs \<Longrightarrow> q \<noteq> CHR 0x5C \<Longrightarrow>
    CHR 0x5C \<in> set (chars_text q cs) \<longleftrightarrow> Plain (CHR 0x5C) \<in> set cs"
proof (induction cs)
  case (Cons c cs)
  then show ?case by (cases c) auto
qed simp

text \<open>At a string constant whose letters are \<open>p\<close>, with what the scanner finds behind the quote.\<close>

lemma mask_constant:
  assumes "constant_kind strings p = Some b" and "p = [] \<or> \<not> joined" and "quote_scan b v = (n, closed)"
  shows "mask_step strings joined (p @ CHR 0x27 # v) =
    (if strings = StringsUnknown \<and> \<not> b \<and> CHR 0x5C \<in> set (take n v)
     then (length p + 1 + length v, p @ [CHR 0x27, CHR ''?''])
     else (length p + 1 + n, p @ [CHR 0x27, CHR ''?''] @ (if closed then [CHR 0x27] else [])))"
  using mask_step_literal [of strings p b joined v] assms
  by (auto simp: constant_kind_code mask_literal_def postgresLiteralEnd_def behind_def)

lemma mask_word:
  assumes "no_literal joined w" and "w = b # v" and "\<not> joined" and "word_byte b" and "b \<noteq> CHR ''$''"
  shows "mask_step strings joined w = (length (takeWhile word_byte w), takeWhile word_byte w)"
proof -
  have q: "b \<noteq> CHR 0x22" using assms(4) by (auto simp: word_byte_def)
  have code: "postgresIdentifierByte = word_byte" using word_byte_code by (rule ext)
  have run: "take (length (takeWhile word_byte w)) w = takeWhile word_byte w" by (metis takeWhile_eq_take)
  have "hd w = b" using assms(2) by simp
  then show ?thesis
    unfolding mask_step_no_literal [OF assms(1)] code run using q assms(3-5) by (simp only: if_False if_True simp_thms)
qed

text \<open>No string constant starts at a word, a mark, a name, a comment or any other byte.\<close>

lemma no_literal_at:
  assumes "b \<noteq> CHR 0x27" and "joined \<or> \<not> word_byte b \<or> b = CHR ''$''"
  shows "no_literal joined (b # v)"
proof -
  have "word_byte x \<and> x \<noteq> CHR ''$''"
    if "x \<in> {CHR ''E'', CHR ''e'', CHR ''B'', CHR ''b'', CHR ''X'', CHR ''x'', CHR ''N'', CHR ''n''} \<or> x \<in> {CHR ''U'', CHR ''u''}" for x
    using that by (elim disjE insertE emptyE; simp add: word_byte_def)
  then show ?thesis unfolding no_literal_def list.sel using assms by blast
qed

lemma no_literal_word:
  assumes "b \<noteq> CHR 0x27" and "\<not> (\<exists>p more. constant_kind strings p \<noteq> None \<and> b # v = p @ CHR 0x27 # more)"
  shows "no_literal joined (b # v)"
proof -
  consider p c t where "b # v = p @ CHR 0x27 # t" "literal_prefix strings p = Some c" | "no_literal joined (b # v)"
    by (rule literal_or_not [of "b # v" strings joined]) auto
  then show ?thesis
    using assms(2) by cases (metis constant_kind_code option.distinct(1))
qed

lemma mark_found:
  assumes "dollar_mark tag"
  shows "postgresDollarTag False (tag @ v) = Some (length tag)"
proof -
  obtain w where w: "tag = CHR ''$'' # w @ ''$''" "list_all (\<lambda>b. word_byte b \<and> b \<noteq> CHR ''$'') w"
    "\<not> (w \<noteq> [] \<and> bval (hd w) \<in> {48..57})"
    using assms by (auto simp: dollar_mark_def)
  show ?thesis
  proof (cases w)
    case (Cons c cs)
    have "takeWhile (\<lambda>b. b \<noteq> CHR ''$'' \<and> postgresIdentifierByte b) (cs @ CHR ''$'' # v) = cs"
      using w(2) Cons by (simp add: takeWhile_tail list_all_iff word_byte_code)
    moreover have "postgresTagStart c" "c \<noteq> CHR ''$''"
      using w(2,3) Cons by (auto simp: postgresTagStart_def ascii_letter_def word_byte_def)
    ultimately show ?thesis unfolding w(1) Cons postgresDollarTag_def Let_def by simp
  qed (use w in \<open>simp add: postgresDollarTag_def\<close>)
qed

lemma dollar_tag_mark:
  assumes "postgresDollarTag False (CHR ''$'' # v) = Some m"
  shows "opens_dollar (CHR ''$'' # v)"
proof -
  obtain c cs where v: "v = c # cs" using assms by (cases v) (auto simp: postgresDollarTag_def)
  show ?thesis
  proof (cases "c = CHR ''$''")
    case True
    then have "CHR ''$'' # v = (CHR ''$'' # [] @ ''$'') @ cs" "dollar_mark (CHR ''$'' # [] @ ''$'')"
      using v by (simp_all add: dollar_mark_def)
    then show ?thesis unfolding opens_dollar_def by blast
  next
    case False
    let ?P = "\<lambda>b. b \<noteq> CHR ''$'' \<and> postgresIdentifierByte b"
    let ?w = "takeWhile ?P cs"
    have start: "postgresTagStart c" using assms v False by (auto simp: postgresDollarTag_def split: if_splits)
    then obtain more where more: "drop (length ?w) cs = CHR ''$'' # more"
      using assms v False by (auto simp: postgresDollarTag_def Let_def split: list.splits if_splits)
    have "cs = ?w @ CHR ''$'' # more"
      using more by (metis append_take_drop_id takeWhile_eq_take)
    then have whole: "CHR ''$'' # v = (CHR ''$'' # (c # ?w) @ ''$'') @ more" using v by simp
    have "bval c \<le> 255" using bval_less [of c] by linarith
    then have "word_byte c" "bval c \<notin> {48..57}"
      using start by (auto simp: postgresTagStart_def ascii_letter_def word_byte_def)
    moreover have "list_all (\<lambda>b. word_byte b \<and> b \<noteq> CHR ''$'') ?w"
      by (auto simp: list_all_iff word_byte_code dest: set_takeWhileD)
    ultimately have "dollar_mark (CHR ''$'' # (c # ?w) @ ''$'')"
      unfolding dollar_mark_def using False by (intro exI [of _ "c # ?w"]) simp
    then show ?thesis unfolding opens_dollar_def using whole by blast
  qed
qed

lemma mark_dollar: "dollar_mark tag \<Longrightarrow> tag \<noteq> [] \<and> hd tag = CHR ''$'' \<and> last tag = CHR ''$''"
  by (auto simp: dollar_mark_def)

lemma mask_code:
  assumes "pg_token_ok strings joined (PgCode b) rest"
  shows "mask_step strings joined (b # rest) = (1, [b])"
proof -
  have b: "b \<noteq> CHR 0x27" "b \<noteq> CHR 0x22" "take 2 (b # rest) \<notin> {''--'', ''/*''}"
    "joined \<or> (if b = CHR ''$'' then \<not> opens_dollar (b # rest) else \<not> word_byte b)"
    using assms by simp_all
  have "no_literal joined (b # rest)" using b by (intro no_literal_at) (auto split: if_splits)
  moreover have "postgresCommentEnd (b # rest) = 0"
  proof -
    have "take 2 (b # rest) \<noteq> ''--''" "take 2 (b # rest) \<noteq> ''/*''" using b(3) by blast+
    then show ?thesis unfolding postgresCommentEnd_alt by (simp only: if_False)
  qed
  moreover have "postgresDollarTag joined (b # rest) = None" if "b = CHR ''$''"
  proof (cases joined)
    case True
    then show ?thesis by (simp add: postgresDollarTag_def)
  next
    case False
    then have "\<not> opens_dollar (CHR ''$'' # rest)" using that b(4) by simp
    then show ?thesis using dollar_tag_mark [of rest] False that by (cases "postgresDollarTag False (CHR ''$'' # rest)") auto
  qed
  ultimately show ?thesis
    using mask_step_no_literal [of joined "b # rest" strings] b(2,4)
    by (auto simp: mask_dollar_def word_byte_code split: if_splits)
qed

lemma mask_comment_step:
  assumes "b = CHR ''-'' \<or> b = CHR ''/''" and "0 < postgresCommentEnd (b # v)"
  shows "mask_step strings joined (b # v) = (postgresCommentEnd (b # v), take (postgresCommentEnd (b # v)) (b # v))"
proof -
  have "no_literal joined (b # v)" using assms(1) by (intro no_literal_at) (auto simp: word_byte_def)
  moreover have "\<not> postgresIdentifierByte b" using assms(1) by (auto simp: word_byte_code word_byte_def)
  ultimately show ?thesis using mask_step_no_literal [of joined "b # v" strings] assms by auto
qed

lemma mask_pg_token:
  assumes "pg_token_ok strings joined t rest"
  shows "mask_step strings joined (pg_text t @ rest) = (length (pg_text t), pg_shown t)"
proof (cases t)
  case (PgConstant p cs)
  then obtain b where b: "constant_kind strings p = Some b" "list_all (quoted_char b (CHR 0x27)) cs" "p = [] \<or> \<not> joined"
    and rest: "\<not> (rest \<noteq> [] \<and> hd rest = CHR 0x27)"
    and clear: "\<not> (hides_backslash strings p \<and> Plain (CHR 0x5C) \<in> set cs)"
    using assms by (auto simp: constant_ok_def)
  have scan: "quote_scan b (chars_text (CHR 0x27) cs @ CHR 0x27 # rest) = (length (chars_text (CHR 0x27) cs) + 1, True)"
    using quote_scan_chars [OF b(2)] quote_scan_close [OF rest] by simp
  have "\<not> (strings = StringsUnknown \<and> \<not> b \<and> CHR 0x5C \<in> set (chars_text (CHR 0x27) cs))"
    using clear b(1,2) backslash_char [of "CHR 0x27" cs] by (auto simp: hides_backslash_def)
  then show ?thesis using mask_constant [OF b(1,3) scan] PgConstant by simp
next
  case (PgOpenConstant p cs dangling)
  then obtain b where b: "constant_kind strings p = Some b" "list_all (quoted_char b (CHR 0x27)) cs" "p = [] \<or> \<not> joined"
    and dangling: "dangling \<longrightarrow> b" and rest: "rest = []"
    using assms by (auto simp: constant_ok_def)
  have "quote_scan b (chars_text (CHR 0x27) cs @ dangling_text dangling) =
      (length (chars_text (CHR 0x27) cs @ dangling_text dangling), False)"
    using quote_scan_chars [OF b(2)] quote_scan_dangling [OF dangling] by simp
  from mask_constant [OF b(1,3) this] show ?thesis using PgOpenConstant rest by simp
next
  case (PgUnsure p cs more)
  then have b: "constant_kind strings p = Some False" "list_all (quoted_char False (CHR 0x27)) cs" "p = [] \<or> \<not> joined"
    and rest: "rest = []" and unknown: "strings = StringsUnknown"
    using assms by (auto simp: constant_ok_def hides_backslash_def)
  obtain n closed where scan: "quote_scan False (chars_text (CHR 0x27) cs @ CHR 0x5C # more) = (n, closed)" by fastforce
  have "0 < fst (quote_scan False (CHR 0x5C # more))" by (rule quote_scan_positive)
  then have "length (chars_text (CHR 0x27) cs) < n" using quote_scan_chars [OF b(2)] scan by simp
  then have "CHR 0x5C \<in> set (take n (chars_text (CHR 0x27) cs @ CHR 0x5C # more))"
    by (simp add: take_Cons')
  then show ?thesis using mask_constant [OF b(1,3) scan] PgUnsure rest unknown by simp
next
  case (PgDollar tag body)
  then have tag: "dollar_mark tag" "\<not> joined" and body: "first_at tag body" using assms by simp_all
  obtain v where v: "tag = CHR ''$'' # v" using mark_dollar [OF tag(1)] by (cases tag) auto
  have step: "mask_step strings joined (tag @ body @ tag @ rest) = mask_dollar False (tag @ body @ tag @ rest)"
    using mask_step_no_literal [of joined "tag @ body @ tag @ rest" strings] no_literal_at [of "CHR ''$''" joined] tag(2)
    by (simp add: v)
  have "index_bytes (body @ tag @ rest) tag = Some (length body)"
    using body v by (intro index_bytes_first) simp_all
  then show ?thesis
    using PgDollar mark_found [OF tag(1), of "body @ tag @ rest"] step by (simp add: mask_dollar_def Let_def)
next
  case (PgOpenDollar tag body)
  then have tag: "dollar_mark tag" "\<not> joined" and body: "\<not> occurs tag body" "rest = []" using assms by simp_all
  obtain v where v: "tag = CHR ''$'' # v" using mark_dollar [OF tag(1)] by (cases tag) auto
  have "mask_step strings joined (tag @ body) = mask_dollar False (tag @ body)"
    using mask_step_no_literal [of joined "tag @ body" strings] no_literal_at [of "CHR ''$''" joined] tag(2)
    by (simp add: v)
  then show ?thesis
    using PgOpenDollar mark_found [OF tag(1), of body] index_bytes_none [OF body(1)] body(2)
    by (simp add: mask_dollar_def Let_def)
next
  case (PgName cs)
  then have "postgresQuotedEnd (pg_text t @ rest) = length (pg_text t)"
    using assms identifier_scan_chars [of cs "CHR 0x22 # rest"] identifier_scan_close [of rest]
    by (simp add: postgresQuotedEnd_def)
  moreover have "no_literal joined (pg_text t @ rest)"
    using PgName no_literal_at [of "CHR 0x22" joined] by (simp add: word_byte_def)
  ultimately show ?thesis using mask_step_no_literal [of joined "pg_text t @ rest" strings] PgName by simp
next
  case (PgOpenName cs)
  then have "postgresQuotedEnd (pg_text t @ rest) = length (pg_text t)"
    using assms identifier_scan_chars [of cs "[]"] by (simp add: postgresQuotedEnd_def)
  moreover have "no_literal joined (pg_text t @ rest)"
    using PgOpenName no_literal_at [of "CHR 0x22" joined] by (simp add: word_byte_def)
  ultimately show ?thesis using mask_step_no_literal [of joined "pg_text t @ rest" strings] PgOpenName by simp
next
  case (PgWord w)
  then obtain b v where w: "w = b # v" using assms by (cases w) auto
  have h: "\<not> joined" "b \<noteq> CHR ''$''" "word_byte b" "list_all word_byte w" "\<not> (rest \<noteq> [] \<and> word_byte (hd rest))"
    "\<not> (\<exists>p more. constant_kind strings p \<noteq> None \<and> b # v @ rest = p @ CHR 0x27 # more)"
    using assms PgWord w by simp_all
  have "b \<noteq> CHR 0x27" using h(3) by (auto simp: word_byte_def)
  from mask_word [OF no_literal_word [OF this h(6)] refl h(1,3,2)]
  have "mask_step strings joined (w @ rest) = (length (takeWhile word_byte (w @ rest)), takeWhile word_byte (w @ rest))"
    using w by simp
  moreover have "takeWhile word_byte (w @ rest) = w"
    using h(4,5) by (cases rest) (simp_all add: list_all_iff takeWhile_tail)
  ultimately show ?thesis using PgWord by simp
next
  case (PgLine w)
  then obtain v where w: "w = ''--'' @ v"
    using assms by (metis append_take_drop_id pg_token_ok.simps(9))
  have "take 2 (w @ rest) = ''--''" using w by simp
  moreover have "CHR 0x0A \<notin> set w" "rest = [] \<or> hd rest = CHR 0x0A" using assms PgLine by simp_all
  note line = index_line [OF this]
  ultimately have "postgresCommentEnd (w @ rest) = length w"
    unfolding postgresCommentEnd_alt using line by (simp only: refl if_True)
  then show ?thesis using PgLine w mask_comment_step [of "CHR ''-''" "tl w @ rest" strings joined] by simp
next
  case (PgComment ps)
  then have "comment_scan 1 (pieces_text ps @ rest) = length (pieces_text ps)"
    using assms by (intro comment_scan_closed) simp_all
  then have "postgresCommentEnd (pg_text t @ rest) = length (pg_text t)"
    using PgComment by (simp add: postgresCommentEnd_def)
  then show ?thesis
    using PgComment mask_comment_step [of "CHR ''/''" "CHR ''*'' # pieces_text ps @ rest" strings joined] by simp
next
  case (PgOpenComment ps)
  then have "comment_scan 1 (pieces_text ps) = length (pieces_text ps)" and rest: "rest = []"
    using assms comment_scan_open [of 1 ps] by simp_all
  then have "postgresCommentEnd (pg_text t @ rest) = length (pg_text t)"
    using PgOpenComment by (simp add: postgresCommentEnd_def)
  then show ?thesis
    using PgOpenComment rest mask_comment_step [of "CHR ''/''" "CHR ''*'' # pieces_text ps" strings joined] by simp
next
  case (PgCode b)
  then show ?thesis using assms mask_code [of strings joined b rest] by simp
qed

lemma pg_text_nonempty: "pg_token_ok strings joined t rest \<Longrightarrow> pg_text t \<noteq> []"
  by (cases t) (auto simp: dollar_mark_def)

lemma mask_pg_tokens:
  "pg_tokens strings joined ts \<Longrightarrow> mask_loop strings joined (pg_tokens_text ts) = pg_tokens_shown ts"
proof (induction ts arbitrary: joined)
  case (Cons t ts)
  let ?rest = "pg_tokens_text ts"
  have ok: "pg_token_ok strings joined t ?rest" using Cons.prems by simp
  note ne = pg_text_nonempty [OF ok]
  have "(pg_text t @ ?rest) ! (length (pg_text t) - 1) = last (pg_text t)"
    using ne by (simp add: nth_append last_conv_nth)
  then have "mask_loop strings joined (pg_text t @ ?rest) =
      pg_shown t @ mask_loop strings (word_byte (last (pg_text t))) ?rest"
    using mask_loop_step [OF _ mask_pg_token [OF ok]] ne by (simp add: word_byte_code)
  then show ?case using Cons by simp
qed simp

subsection \<open>Every text has a reading\<close>

lemma comment_reading:
  "d \<noteq> 0 \<Longrightarrow>
     (\<exists>ps rest. w = pieces_text ps @ rest \<and> ends_comment d ps \<and> pieces_read ps rest) \<or>
     (\<exists>ps. w = pieces_text ps \<and> stays_open d ps \<and> pieces_read ps [])"
proof (induction w arbitrary: d rule: length_induct)
  case (1 w)
  have step: ?case
    if w: "w = piece_text p @ v" and read: "\<And>b. p = Other b \<Longrightarrow> take 2 (b # v) \<notin> {''/*'', ''*/''}" for p v
  proof (cases "depth_after d p = 0")
    case True
    then have "ends_comment d [p]" by simp
    moreover have "pieces_read [p] v" using read by (cases p) auto
    moreover have "w = pieces_text [p] @ v" using w by simp
    ultimately show ?thesis by blast
  next
    case False
    have "length v < length w" using w by (cases p) simp_all
    from "1.IH" [rule_format, OF this False] show ?thesis
    proof (elim disjE exE conjE)
      fix ps rest assume h: "v = pieces_text ps @ rest" "ends_comment (depth_after d p) ps" "pieces_read ps rest"
      have "pieces_read (p # ps) rest" using h read by (cases p) auto
      moreover have "ends_comment d (p # ps)" "w = pieces_text (p # ps) @ rest" using h False w by simp_all
      ultimately show ?thesis by blast
    next
      fix ps assume h: "v = pieces_text ps" "stays_open (depth_after d p) ps" "pieces_read ps []"
      have "pieces_read (p # ps) []" using h read by (cases p) auto
      moreover have "stays_open d (p # ps)" "w = pieces_text (p # ps)" using h False w by simp_all
      ultimately show ?thesis by blast
    qed
  qed
  show ?case
  proof (cases w)
    case Nil
    have "\<exists>ps. w = pieces_text ps \<and> stays_open d ps \<and> pieces_read ps []" by (rule exI [of _ "[]"]) (simp add: Nil)
    then show ?thesis by blast
  next
    case (Cons b v)
    consider (opens) "take 2 w = ''/*''" | (closes) "take 2 w = ''*/''" | (other) "take 2 w \<notin> {''/*'', ''*/''}" by blast
    then show ?thesis
    proof cases
      case opens
      then show ?thesis using step [of Opening "drop 2 w"] by (metis append_take_drop_id pg_piece.distinct(3) piece_text.simps(1))
    next
      case closes
      then show ?thesis using step [of Closing "drop 2 w"] by (metis append_take_drop_id pg_piece.distinct(5) piece_text.simps(2))
    next
      case other
      then show ?thesis using step [of "Other b" v] Cons by simp
    qed
  qed
qed

lemma constant_reading:
  assumes kind: "constant_kind strings p = Some b" and at: "p = [] \<or> \<not> joined" and w: "w = p @ CHR 0x27 # v"
  shows "\<exists>t rest. w = pg_text t @ rest \<and> pg_token_ok strings joined t rest"
proof -
  have "CHR 0x27 \<noteq> CHR 0x5C" by simp
  from char_reading [OF this, of b v] show ?thesis
    unfolding closed_reading_def open_reading_def
  proof (elim disjE exE conjE)
    fix cs rest
    assume h: "list_all (quoted_char b (CHR 0x27)) cs" "v = chars_text (CHR 0x27) cs @ CHR 0x27 # rest"
      "\<not> (rest \<noteq> [] \<and> hd rest = CHR 0x27)"
    have ok: "constant_ok strings joined p cs" using kind at h(1) by (simp add: constant_ok_def)
    show ?thesis
    proof (cases "hides_backslash strings p \<and> Plain (CHR 0x5C) \<in> set cs")
      case False
      then show ?thesis using w h ok by (intro exI [of _ "PgConstant p cs"] exI [of _ rest]) simp
    next
      case True
      then obtain cs1 cs2 where cs: "cs = cs1 @ Plain (CHR 0x5C) # cs2" by (auto dest: split_list)
      then have "v = chars_text (CHR 0x27) cs1 @ CHR 0x5C # chars_text (CHR 0x27) cs2 @ CHR 0x27 # rest"
        using h(2) by (simp add: chars_text_def)
      moreover have "constant_ok strings joined p cs1" using kind at h(1) cs by (auto simp: constant_ok_def)
      ultimately show ?thesis
        using w True
        by (intro exI [of _ "PgUnsure p cs1 (chars_text (CHR 0x27) cs2 @ CHR 0x27 # rest)"] exI [of _ "[]"]) simp
    qed
  next
    fix cs dangling
    assume "list_all (quoted_char b (CHR 0x27)) cs" "dangling \<longrightarrow> b" "v = chars_text (CHR 0x27) cs @ dangling_text dangling"
    then show ?thesis
      using w kind at by (intro exI [of _ "PgOpenConstant p cs dangling"] exI [of _ "[]"]) (auto simp: constant_ok_def)
  qed
qed

lemma other_reading:
  assumes none: "no_literal joined w" and w: "w = b # v"
  shows "\<exists>t rest. w = pg_text t @ rest \<and> pg_token_ok strings joined t rest"
proof -
  consider (name) "b = CHR 0x22" | (dollar) "b = CHR ''$''" "\<not> joined" "opens_dollar w"
    | (word) "\<not> joined" "word_byte b" "b \<noteq> CHR ''$''" | (line) "take 2 w = ''--''" | (comment) "take 2 w = ''/*''"
    | (code) "b \<noteq> CHR 0x22" "take 2 w \<notin> {''--'', ''/*''}"
        "joined \<or> (if b = CHR ''$'' then \<not> opens_dollar w else \<not> word_byte b)"
    by (cases "b = CHR ''$''") auto
  then show ?thesis
  proof cases
    case name
    have "CHR 0x22 \<noteq> CHR 0x5C" by simp
    from char_reading [OF this, of False v] show ?thesis
      unfolding closed_reading_def open_reading_def
    proof (elim disjE exE conjE)
      fix cs rest assume "list_all (quoted_char False (CHR 0x22)) cs" "v = chars_text (CHR 0x22) cs @ CHR 0x22 # rest"
        "\<not> (rest \<noteq> [] \<and> hd rest = CHR 0x22)"
      then show ?thesis using w name by (intro exI [of _ "PgName cs"] exI [of _ rest]) simp
    next
      fix cs dangling assume "list_all (quoted_char False (CHR 0x22)) cs" "dangling \<longrightarrow> False"
        "v = chars_text (CHR 0x22) cs @ dangling_text dangling"
      then show ?thesis using w name by (intro exI [of _ "PgOpenName cs"] exI [of _ "[]"]) simp
    qed
  next
    case dollar
    then obtain tag more where tag: "dollar_mark tag" "w = tag @ more" by (auto simp: opens_dollar_def)
    have "tag \<noteq> []" using mark_dollar [OF tag(1)] by simp
    from first_occurrence [OF this, of more] show ?thesis
    proof (elim disjE exE conjE)
      fix body rest assume "more = body @ tag @ rest" "first_at tag body"
      then show ?thesis using tag dollar(2) by (intro exI [of _ "PgDollar tag body"] exI [of _ rest]) simp
    next
      assume "\<not> occurs tag more"
      then show ?thesis using tag dollar(2) by (intro exI [of _ "PgOpenDollar tag more"] exI [of _ "[]"]) simp
    qed
  next
    case word
    let ?run = "takeWhile word_byte w" and ?rest = "dropWhile word_byte w"
    have "\<not> (\<exists>p more. constant_kind strings p \<noteq> None \<and> w = p @ CHR 0x27 # more)"
    proof
      assume "\<exists>p more. constant_kind strings p \<noteq> None \<and> w = p @ CHR 0x27 # more"
      then obtain p more where "literal_prefix strings p \<noteq> None" "w = p @ CHR 0x27 # more"
        by (auto simp: constant_kind_code)
      then show False
        using none word(1) literal_prefix_cases [of strings p]
        by (auto simp: no_literal_def next_byte_def)
    qed
    moreover have "\<not> (?rest \<noteq> [] \<and> word_byte (hd ?rest))" using hd_dropWhile by blast
    moreover have "list_all word_byte ?run" by (auto simp: list_all_iff dest: set_takeWhileD)
    ultimately show ?thesis
      using word w by (intro exI [of _ "PgWord ?run"] exI [of _ ?rest]) simp
  next
    case line
    then have "w = pg_text (PgLine (line_of w)) @ after_line w" by (simp add: line_of_def after_line_def)
    moreover have "take 2 (line_of w) = ''--''"
      using line by (cases w; cases "tl w") (auto simp: line_of_def)
    ultimately show ?thesis
      using line_facts [of w] by (intro exI [of _ "PgLine (line_of w)"] exI [of _ "after_line w"]) simp
  next
    case comment
    then have c: "w = ''/*'' @ drop 2 w" by (metis append_take_drop_id)
    have "(1 :: nat) \<noteq> 0" by simp
    from comment_reading [OF this, of "drop 2 w"] show ?thesis
    proof (elim disjE exE conjE)
      fix ps rest assume "drop 2 w = pieces_text ps @ rest" "ends_comment 1 ps" "pieces_read ps rest"
      then show ?thesis using c by (intro exI [of _ "PgComment ps"] exI [of _ rest]) simp
    next
      fix ps assume "drop 2 w = pieces_text ps" "stays_open 1 ps" "pieces_read ps []"
      then show ?thesis using c by (intro exI [of _ "PgOpenComment ps"] exI [of _ "[]"]) simp
    qed
  next
    case code
    moreover have "b \<noteq> CHR 0x27" using none w by (simp add: no_literal_def)
    ultimately show ?thesis using w by (intro exI [of _ "PgCode b"] exI [of _ v]) (auto split: if_splits)
  qed
qed

lemma every_pg_reading: "\<exists>ts. pg_tokens strings joined ts \<and> pg_tokens_text ts = sql"
proof (induction sql arbitrary: joined rule: length_induct)
  case (1 sql)
  show ?case
  proof (cases sql)
    case Nil
    then show ?thesis by (intro exI [of _ "[]"]) simp
  next
    case (Cons b v)
    have "\<exists>t rest. sql = pg_text t @ rest \<and> pg_token_ok strings joined t rest"
    proof (rule literal_or_not [of sql strings joined])
      fix p c t assume "sql = p @ CHR 0x27 # t" "literal_prefix strings p = Some c" "p \<noteq> [] \<longrightarrow> \<not> joined"
      then show ?thesis using constant_reading [of strings p c joined sql t] by (auto simp: constant_kind_code)
    qed (use Cons other_reading in auto)
    then obtain t rest where t: "sql = pg_text t @ rest" "pg_token_ok strings joined t rest" by blast
    have "length rest < length sql" using t pg_text_nonempty [OF t(2)] by simp
    from "1.IH" [rule_format, OF this] obtain ts where "pg_tokens strings (word_byte (last (pg_text t))) ts" "pg_tokens_text ts = rest"
      by blast
    then show ?thesis using t by (intro exI [of _ "t # ts"]) simp
  qed
qed

subsection \<open>Properties\<close>

text \<open>
  C8. Masking hides exactly the string constants and dollar quotes of a statement. Every byte sequence reads
  as tokens of PostgreSQL (\<open>us\<close>), under each setting of standard\_conforming\_strings. However a
  statement is made of tokens \<open>ts\<close>, masking it gives each string constant as its letters and its quotes around a single
  question mark, whatever it holds (doubled quotes, escaped quotes and backslashes, an open end), each
  dollar quote as its two marks around one, and every other token unchanged. With the setting unknown, everything
  from a constant on in which a backslash may escape or not is hidden to the end.
\<close>
theorem postgres_mask_hides:
  assumes "pg_tokens strings False ts"
  shows "postgresMask (pg_tokens_text ts) strings = pg_tokens_shown ts \<and>
    (\<exists>us. pg_tokens strings False us \<and> pg_tokens_text us = sql)"
  using mask_pg_tokens [OF assms] every_pg_reading [of strings False sql] by (simp add: postgresMask_def)

definition sample_pg :: "pg_token list" where
  "sample_pg =
     [PgWord ''set'', PgCode (CHR '' ''), PgConstant ''E'' [Plain (CHR ''a''), Escaped (CHR 0x27), Twice, Plain (CHR ''b'')],
      PgCode (CHR '',''), PgConstant [] [Plain (CHR 0x5C)], PgName [Plain (CHR 0x27)],
      PgComment [Opening, Other (CHR 0x27), Closing, Closing], PgDollar ''$t$'' ''s $ 1'', PgCode (CHR '' ''),
      PgLine ''-- it'', PgCode (CHR 0x0A), PgOpenConstant ''B'' [Plain (CHR ''1'')] False]"

lemma no_constant_here:
  assumes "CHR 0x27 \<notin> set (take 3 w)"
  shows "\<not> (\<exists>p more. constant_kind strings p \<noteq> None \<and> w = p @ CHR 0x27 # more)"
proof
  assume "\<exists>p more. constant_kind strings p \<noteq> None \<and> w = p @ CHR 0x27 # more"
  then obtain p more where h: "literal_prefix strings p \<noteq> None" "w = p @ CHR 0x27 # more"
    by (auto simp: constant_kind_code)
  then have "length p \<le> 2" using literal_prefix_cases [of strings p] by auto
  then show False using assms h(2) by (simp add: take_Cons')
qed

lemma mark_of_name: "dollar_mark ''$t$''"
  unfolding dollar_mark_def by (rule exI [of _ "''t''"]) (simp add: word_byte_def)

theorem postgres_mask_hides_witness:
  "postgresMask (pg_tokens_text sample_pg) StringsOn = pg_tokens_shown sample_pg \<and>
   (\<exists>us. pg_tokens StringsOn False us \<and> pg_tokens_text us = ''x'')"
proof (rule postgres_mask_hides)
  have word: "\<not> (\<exists>p more. constant_kind StringsOn p \<noteq> None \<and> CHR ''s'' # CHR ''e'' # CHR ''t'' # w = p @ CHR 0x27 # more)" for w
    by (rule no_constant_here) simp
  show "pg_tokens StringsOn False sample_pg"
    using mark_of_name word
    by (simp add: sample_pg_def constant_ok_def hides_backslash_def constant_kind_def first_at_def occurs_Cons word_byte_def ex_bool_eq)
qed

end
