(* ===== verification/PostgresStream.thy ===== *)
theory PostgresStream
  imports MySQLStream
begin

text \<open>
  \<open>postgresStream\<close> of internal/edc/trace_postgres.go: one direction of a PostgreSQL connection, cut
  into messages of a type byte and a 4-byte length (no type byte at the start of a connection). As
  in MySQLStream a record shows the first bytes \<open>data\<close> of \<open>size\<close>; \<open>data\<close> of the model stands for
  \<open>data[pos:]\<close>, \<open>sz\<close> for \<open>size - used\<close>. The callback \<open>deliver\<close> gets and returns the flag
  \<open>untyped\<close>, the only part of the stream a callback changes, and the caller's state.
\<close>

definition postgresCodeSSL :: nat where "postgresCodeSSL = 80877103"
definition postgresCodeGSS :: nat where "postgresCodeGSS = 80877104"
definition postgresCodeCancel :: nat where "postgresCodeCancel = 80877102"
definition postgresFrontendTypes :: bytes where "postgresFrontendTypes = ''BCDEFHPQSXcdfp''"
definition postgresBackendTypes :: bytes where "postgresBackendTypes = ''123ACDEGHIKNRSTVWZcdnstv''"
definition postgresSQLKeep :: nat where "postgresSQLKeep = 4096"
definition postgresNameLimit :: nat where "postgresNameLimit = 64"
definition postgresErrorKeep :: nat where "postgresErrorKeep = 4096"
definition postgresStartupKeep :: nat where "postgresStartupKeep = 2048"
definition postgresStartupLimit :: int where "postgresStartupLimit = 10000"
definition postgresMaxLength :: int where "postgresMaxLength = 0x3fffffff"

record postgresMessage =
  pm_typ :: byte
  pm_length :: nat
  pm_body :: bytes
  pm_truncated :: bool
  pm_at :: u64

record postgresStream =
  ps_synced :: bool
  ps_untyped :: bool
  ps_header :: bytes
  ps_headerLen :: nat
  ps_inBody :: bool
  ps_typ :: byte
  ps_length :: nat
  ps_left :: nat
  ps_want :: nat
  ps_hold :: bool
  ps_held :: bytes
  ps_delivered :: bool
  ps_at :: u64
  ps_lostAt :: nat
  ps_garbage :: bool

text \<open>\<open>reset\<close>: the zero value of the struct.\<close>

definition pstream0 :: postgresStream where
  "pstream0 = \<lparr>ps_synced = False, ps_untyped = False, ps_header = replicate 5 (CHR 0x00), ps_headerLen = 0,
     ps_inBody = False, ps_typ = CHR 0x00, ps_length = 0, ps_left = 0, ps_want = 0, ps_hold = False,
     ps_held = [], ps_delivered = False, ps_at = 0, ps_lostAt = 0, ps_garbage = False\<rparr>"

subsection \<open>Messages\<close>

text \<open>A length field: \<open>int(int32(binary.BigEndian.Uint32(raw)))\<close>.\<close>

definition be_int32 :: "bytes \<Rightarrow> int" where
  "be_int32 raw = sint (of_nat (be_nat raw) :: 32 word)"

definition postgresTypeValid :: "bool \<Rightarrow> byte \<Rightarrow> bool" where
  "postgresTypeValid frontend typ \<longleftrightarrow>
     typ \<noteq> CHR 0x00 \<and> index_byte (if frontend then postgresFrontendTypes else postgresBackendTypes) typ \<noteq> None"

text \<open>How many bytes of a body are looked at, and whether they are waited for over records.\<close>

definition postgresKeep :: "bool \<Rightarrow> byte \<Rightarrow> nat \<Rightarrow> nat \<times> bool" where
  "postgresKeep frontend typ n =
     (if typ = CHR 0x00 then (min n postgresStartupKeep, False)
      else if frontend then
        (if typ = CHR ''Q'' then (min n postgresSQLKeep, False)
         else if typ = CHR ''P'' then (min n (postgresSQLKeep + postgresNameLimit + 1), False)
         else if typ = CHR ''B'' then (min n (2 * (postgresNameLimit + 1)), False)
         else if typ = CHR ''E'' \<or> typ = CHR ''D'' \<or> typ = CHR ''C'' then (min n (postgresNameLimit + 2), True)
         else if typ = CHR ''F'' then (min n 4, True)
         else (0, False))
      else
        (if typ = CHR ''E'' then (min n postgresErrorKeep, False)
         else if typ = CHR ''C'' then (min n (postgresNameLimit + 1), True)
         else if typ = CHR ''S'' then (min n (2 * (postgresNameLimit + 1)), True)
         else if typ = CHR ''Z'' then (min n 1, True)
         else (0, False)))"

subsection \<open>\<open>feed\<close>\<close>

text \<open>\<open>header_need\<close>: the bytes of a header; \<open>header_take\<close>: the bytes of it that this record has.\<close>

definition header_need :: "postgresStream \<Rightarrow> nat" where
  "header_need st = (if ps_untyped st then 4 else 5)"

definition header_take :: "u64 \<Rightarrow> bytes \<Rightarrow> postgresStream \<Rightarrow> postgresStream" where
  "header_take tm data st =
     st\<lparr>ps_at := (if ps_headerLen st = 0 then tm else ps_at st),
        ps_header := copy_at (take (header_need st) (ps_header st)) (ps_headerLen st) data @ drop (header_need st) (ps_header st),
        ps_headerLen := ps_headerLen st + min (header_need st - ps_headerLen st) (length data)\<rparr>"

text \<open>A complete header: \<open>None\<close> when it cannot be one.\<close>

definition header_type :: "postgresStream \<Rightarrow> byte" where
  "header_type st = (if ps_untyped st then CHR 0x00 else ps_header st ! 0)"

definition header_length :: "postgresStream \<Rightarrow> int" where
  "header_length st = be_int32 (take 4 (drop (if ps_untyped st then 0 else 1) (ps_header st)))"

definition header_parse :: "bool \<Rightarrow> postgresStream \<Rightarrow> postgresStream option" where
  "header_parse frontend st =
     (let typ = header_type st; n = header_length st in
      if ps_untyped st \<and> (n < 8 \<or> n > postgresStartupLimit) \<or>
         \<not> ps_untyped st \<and> (n < 4 \<or> n > postgresMaxLength \<or> \<not> postgresTypeValid frontend typ)
      then None
      else Some (st\<lparr>ps_typ := typ, ps_length := nat (n - 4), ps_left := nat (n - 4),
                    ps_want := fst (postgresKeep frontend typ (nat (n - 4))),
                    ps_hold := snd (postgresKeep frontend typ (nat (n - 4))),
                    ps_inBody := True, ps_held := [], ps_delivered := False\<rparr>))"

text \<open>The part of the body seen so far, and the bytes held after this turn.\<close>

definition body_seen :: "nat \<Rightarrow> nat \<Rightarrow> bytes \<Rightarrow> postgresStream \<Rightarrow> bytes \<times> bytes" where
  "body_seen n seen data st =
     (let k = min seen (ps_want st - length (ps_held st)); piece = take k data in
      if ps_held st \<noteq> [] \<or> ps_hold st \<and> k < ps_want st \<and> seen = n \<and> n < ps_left st
      then (ps_held st @ piece, ps_held st @ piece)
      else (piece, ps_held st))"

definition body_due :: "nat \<Rightarrow> nat \<Rightarrow> bytes \<Rightarrow> postgresStream \<Rightarrow> bool" where
  "body_due n seen body st \<longleftrightarrow> length body = ps_want st \<or> seen < n \<or> \<not> ps_hold st \<and> n < ps_left st"

definition body_message :: "bytes \<Rightarrow> postgresStream \<Rightarrow> postgresMessage" where
  "body_message body st =
     \<lparr>pm_typ = ps_typ st, pm_length = ps_length st, pm_body = body,
      pm_truncated = (length body < ps_length st), pm_at = ps_at st\<rparr>"

text \<open>The end of a turn: \<open>n\<close> bytes of the body have passed.\<close>

definition body_pass :: "nat \<Rightarrow> postgresStream \<Rightarrow> postgresStream" where
  "body_pass n st =
     (if ps_left st - n = 0 then st\<lparr>ps_left := 0, ps_inBody := False, ps_headerLen := 0, ps_held := []\<rparr>
      else st\<lparr>ps_left := ps_left st - n\<rparr>)"

type_synonym 's postgres_deliver = "postgresMessage \<Rightarrow> bool \<Rightarrow> 's \<Rightarrow> bool \<times> bool \<times> 's"

text \<open>
  One turn of the loop: \<open>Inl\<close> is a return with its result, \<open>Inr\<close> the arguments of the next turn.
  A turn that completes a header goes on into the body.
\<close>

definition pfeed_body ::
  "'s postgres_deliver \<Rightarrow> bytes \<Rightarrow> nat \<Rightarrow> nat \<Rightarrow> postgresStream \<Rightarrow> 's \<Rightarrow>
   (bool \<times> postgresStream \<times> 's) + (bytes \<times> nat \<times> nat \<times> postgresStream \<times> 's)" where
  "pfeed_body deliver data sz used st s =
     (let n = min (ps_left st) sz; seen = min n (length data) in
      if ps_delivered st then Inr (drop seen data, sz - n, used + n, body_pass n st, s)
      else
        (case body_seen n seen data st of (body, held) \<Rightarrow>
           if body_due n seen body st then
             (case deliver (body_message body st) (ps_untyped st) s of (go_on, untyped, s1) \<Rightarrow>
                let st1 = st\<lparr>ps_delivered := True, ps_held := [], ps_untyped := untyped\<rparr> in
                if go_on then Inr (drop seen data, sz - n, used + n, body_pass n st1, s1)
                else Inl (True, st1, s1))
           else Inr (drop seen data, sz - n, used + n, body_pass n (st\<lparr>ps_held := held\<rparr>), s)))"

definition pfeed_turn ::
  "'s postgres_deliver \<Rightarrow> bool \<Rightarrow> u64 \<Rightarrow> bytes \<Rightarrow> nat \<Rightarrow> nat \<Rightarrow> postgresStream \<Rightarrow> 's \<Rightarrow>
   (bool \<times> postgresStream \<times> 's) + (bytes \<times> nat \<times> nat \<times> postgresStream \<times> 's)" where
  "pfeed_turn deliver frontend tm data sz used st s =
     (if ps_inBody st then pfeed_body deliver data sz used st s
      else if data = [] then Inl (False, st\<lparr>ps_lostAt := used\<rparr>, s)
      else
        (let n = min (header_need st - ps_headerLen st) (length data); st1 = header_take tm data st in
         if ps_headerLen st1 < header_need st then Inr (drop n data, sz - n, used + n, st1, s)
         else
           (case header_parse frontend st1 of
              None \<Rightarrow> Inl (False, st1\<lparr>ps_lostAt := used + n, ps_garbage := True\<rparr>, s)
            | Some st2 \<Rightarrow> pfeed_body deliver (drop n data) (sz - n) (used + n) st2 s)))"

definition pfeed_measure :: "nat \<Rightarrow> postgresStream \<Rightarrow> nat" where
  "pfeed_measure sz st =
     3 * sz + (if ps_inBody st then 1 else if ps_headerLen st < header_need st then 0 else 2)"

lemma header_need_bounds: "4 \<le> header_need st" "header_need st \<le> 5"
  by (simp_all add: header_need_def)

lemma body_pass_fields:
  "ps_inBody (body_pass n st) = (ps_inBody st \<and> n < ps_left st)"
  "n < ps_left st \<Longrightarrow> ps_headerLen (body_pass n st) = ps_headerLen st"
  "\<not> n < ps_left st \<Longrightarrow> ps_headerLen (body_pass n st) = 0"
  by (auto simp: body_pass_def)

lemma pfeed_body_result:
  assumes "pfeed_body deliver data sz used st s = Inr (data', sz', used', st', s')" and "ps_inBody st" and "0 < sz"
  shows "sz' < sz \<or> sz' = sz \<and> \<not> ps_inBody st' \<and> ps_headerLen st' = 0" and "sz' = 0 \<or> \<not> ps_inBody st' \<and> ps_headerLen st' = 0"
proof -
  obtain t where t: "sz' = sz - min (ps_left st) sz" "st' = body_pass (min (ps_left st) sz) t" "ps_left t = ps_left st"
    using assms(1) by (auto simp: pfeed_body_def Let_def split: if_splits prod.splits)
  then show "sz' = 0 \<or> \<not> ps_inBody st' \<and> ps_headerLen st' = 0"
    by (cases "ps_left st < sz") (auto simp: body_pass_fields)
  from t show "sz' < sz \<or> sz' = sz \<and> \<not> ps_inBody st' \<and> ps_headerLen st' = 0"
    using assms(3) by (cases "ps_left st") (auto simp: body_pass_fields)
qed

lemma pfeed_turn_decreases:
  assumes "pfeed_turn deliver frontend tm data sz used st s = Inr (data', sz', used', st', s')" and "0 < sz"
  shows "pfeed_measure sz' st' < pfeed_measure sz st"
proof (cases "ps_inBody st")
  case True
  then have "pfeed_body deliver data sz used st s = Inr (data', sz', used', st', s')"
    using assms(1) by (simp add: pfeed_turn_def)
  from pfeed_body_result [OF this True assms(2)] header_need_bounds [of st'] show ?thesis
    using True by (auto simp: pfeed_measure_def)
next
  case False
  define n where "n = min (header_need st - ps_headerLen st) (length data)"
  define st1 where "st1 = header_take tm data st"
  have ne: "data \<noteq> []" using assms(1) False by (auto simp: pfeed_turn_def)
  show ?thesis
  proof (cases "ps_headerLen st1 < header_need st")
    case True
    then have r: "sz' = sz - n" "st' = st1" using assms(1) False ne by (auto simp: pfeed_turn_def Let_def n_def st1_def)
    have "ps_headerLen st1 = ps_headerLen st + n" "ps_inBody st1 = ps_inBody st" "header_need st1 = header_need st"
      by (simp_all add: st1_def header_take_def n_def header_need_def)
    moreover have "0 < n" using True ne calculation(1) by (cases data) (auto simp: n_def)
    ultimately show ?thesis using True False assms(2) r by (simp add: pfeed_measure_def)
  next
    case full: False
    then obtain st2 where st2: "header_parse frontend st1 = Some st2"
      and b: "pfeed_body deliver (drop n data) (sz - n) (used + n) st2 s = Inr (data', sz', used', st', s')"
      using assms(1) False ne by (auto simp: pfeed_turn_def Let_def n_def st1_def split: option.splits)
    have "ps_inBody st2" using st2 by (auto simp: header_parse_def Let_def split: if_splits)
    note res = pfeed_body_result [OF b this]
    show ?thesis
    proof (cases "0 < n")
      case True
      then have "sz' \<le> sz - n" using b by (auto simp: pfeed_body_def Let_def split: if_splits prod.splits)
      then show ?thesis
        using True False assms(2) by (auto simp: pfeed_measure_def)
    next
      case zero: False
      then have "\<not> ps_headerLen st < header_need st" using ne by (cases data) (auto simp: n_def)
      then show ?thesis using res zero assms(2) False header_need_bounds [of st'] by (auto simp: pfeed_measure_def)
    qed
  qed
qed

function pfeed_loop ::
  "'s postgres_deliver \<Rightarrow> bool \<Rightarrow> u64 \<Rightarrow> bytes \<Rightarrow> nat \<Rightarrow> nat \<Rightarrow> postgresStream \<Rightarrow> 's \<Rightarrow> bool \<times> postgresStream \<times> 's" where
  "pfeed_loop deliver frontend tm data sz used st s =
     (if sz = 0 then (True, st, s)
      else
        (case pfeed_turn deliver frontend tm data sz used st s of
           Inl result \<Rightarrow> result
         | Inr (data', sz', used', st', s') \<Rightarrow> pfeed_loop deliver frontend tm data' sz' used' st' s'))"
  by pat_completeness auto
termination
  by (relation "measure (\<lambda>(deliver, frontend, tm, data, sz, used, st, s). pfeed_measure sz st)")
    (auto dest: pfeed_turn_decreases)

declare pfeed_loop.simps [simp del]

text \<open>\<open>feed\<close>: false means that the boundary is lost, a header outside the captured bytes or a wrong one.\<close>

definition postgres_feed ::
  "'s postgres_deliver \<Rightarrow> bool \<Rightarrow> bytes \<Rightarrow> nat \<Rightarrow> u64 \<Rightarrow> postgresStream \<Rightarrow> 's \<Rightarrow> bool \<times> postgresStream \<times> 's" where
  "postgres_feed deliver frontend data size' tm st s = pfeed_loop deliver frontend tm data (max size' (length data)) 0 st s"

subsection \<open>Where a message may start\<close>

text \<open>
  The loop of \<open>postgresCleanStart\<close>. \<open>rest\<close> is \<open>data[pos:]\<close>, \<open>sz\<close> is \<open>size - pos\<close> (negative when a
  message ends behind the record), \<open>partial\<close> tells \<open>size > len(data)\<close>.
\<close>

function clean_walk :: "bool \<Rightarrow> bool \<Rightarrow> bytes \<Rightarrow> int \<Rightarrow> nat \<Rightarrow> bool" where
  "clean_walk frontend partial rest sz headers =
     (if sz \<le> 0 then (if sz = 0 then 0 < headers else partial \<and> 2 \<le> headers)
      else if length rest < 5 then partial \<and> 2 \<le> headers
      else
        (let n = be_int32 (take 4 (drop 1 rest)) in
         if \<not> postgresTypeValid frontend (hd rest) \<or> n < 4 \<or> n > postgresMaxLength then False
         else clean_walk frontend partial (drop (nat (1 + n)) rest) (sz - (1 + n)) (headers + 1)))"
  by pat_completeness auto
termination
  by (relation "measure (\<lambda>(frontend, partial, rest, sz, headers). nat sz)") auto

declare clean_walk.simps [simp del]

definition postgresCleanStart :: "bytes \<Rightarrow> nat \<Rightarrow> bool \<Rightarrow> bool" where
  "postgresCleanStart data size' frontend =
     (let sz = max size' (length data) in clean_walk frontend (length data < sz) data (int sz) 0)"

text \<open>The first request of a connection: exactly one message without a type byte.\<close>

definition postgresUntypedStart :: "bytes \<Rightarrow> nat \<Rightarrow> bool" where
  "postgresUntypedStart data sz =
     (if length data < 8 then False
      else
        (let n = be_int32 (take 4 data); code = be_nat (take 4 (drop 4 data)) in
         if n \<noteq> int sz then False
         else if code = postgresCodeSSL \<or> code = postgresCodeGSS then n = 8
         else if code = postgresCodeCancel then 16 \<le> n \<and> n \<le> 12 + 256
         else code div 2 ^ 16 = 3 \<and> 8 < n \<and> n \<le> postgresStartupLimit))"

end
