(* ===== verification/PostgresFraming.thy ===== *)
theory PostgresFraming
  imports PostgresStream
begin

text \<open>
  \<open>postgresStream.feed\<close> against the messages it reads. Whatever way the bytes of a direction are cut
  into records, and however little of each record is captured, the stream never takes a wrong
  message boundary: it finds the boundaries of the messages sent, or says that it lost them.
\<close>

text \<open>What a peer sends: a type and a body, with the length in between.\<close>

definition postgres_frame :: "byte \<times> bytes \<Rightarrow> bytes" where
  "postgres_frame m = fst m # rev (le_bytes 4 (length (snd m) + 4)) @ snd m"

definition frame_ok :: "bool \<Rightarrow> byte \<times> bytes \<Rightarrow> bool" where
  "frame_ok frontend m \<longleftrightarrow> postgresTypeValid frontend (fst m) \<and> int (length (snd m)) + 4 \<le> postgresMaxLength"

definition frame_want :: "bool \<Rightarrow> byte \<times> bytes \<Rightarrow> nat" where
  "frame_want frontend m = fst (postgresKeep frontend (fst m) (length (snd m)))"

definition frame_hold :: "bool \<Rightarrow> byte \<times> bytes \<Rightarrow> bool" where
  "frame_hold frontend m = snd (postgresKeep frontend (fst m) (length (snd m)))"

lemma frame_want_le: "frame_want frontend m \<le> length (snd m)"
  by (simp add: frame_want_def postgresKeep_def)

lemma length_frame: "5 \<le> length (postgres_frame m)"
  by (simp add: postgres_frame_def)

lemma be_int32_frame: "n < 2 ^ 31 \<Longrightarrow> be_int32 (rev (le_bytes 4 n)) = int n"
proof -
  assume h: "n < 2 ^ 31"
  then have "be_nat (rev (le_bytes 4 n)) = n" by (simp add: be_nat_def le_nat_le_bytes_id)
  then have "be_int32 (rev (le_bytes 4 n)) = sint (of_nat n :: 32 word)" by (simp add: be_int32_def)
  also have "\<dots> = int n" using h by (simp add: signed_of_nat take_bit_nat_eq_self signed_take_bit_int_eq_self)
  finally show ?thesis .
qed

text \<open>
  A delivered message fits what was sent. \<open>whole\<close> tells that every record was captured whole; then
  a message whose body is waited for over records has all the bytes that are looked at.
\<close>

definition message_fits :: "bool \<Rightarrow> bool \<Rightarrow> postgresMessage \<Rightarrow> byte \<times> bytes \<Rightarrow> bool" where
  "message_fits whole frontend msg m \<longleftrightarrow>
     pm_typ msg = fst m \<and> pm_length msg = length (snd m) \<and>
     (\<exists>k \<le> frame_want frontend m. pm_body msg = take k (snd m)) \<and>
     pm_truncated msg = (length (pm_body msg) < length (snd m)) \<and>
     (whole \<and> frame_hold frontend m \<longrightarrow> pm_body msg = take (frame_want frontend m) (snd m))"

text \<open>The callback that keeps every message and asks for more.\<close>

definition log_message :: "postgresMessage list postgres_deliver" where
  "log_message msg untyped msgs = (True, untyped, msgs @ [msg])"

text \<open>
  Inside the body of \<open>m\<close>: \<open>p\<close> bytes of it have passed, and the bytes to come are \<open>w\<close>, the rest of the
  body and the frames of \<open>rest\<close>.
\<close>

definition in_body :: "bool \<Rightarrow> bool \<Rightarrow> postgresStream \<Rightarrow> postgresMessage list \<Rightarrow> (byte \<times> bytes) list \<Rightarrow> byte \<times> bytes \<Rightarrow> (byte \<times> bytes) list \<Rightarrow> bytes \<Rightarrow> nat \<Rightarrow> bool" where
  "in_body whole frontend st msgs done m rest w p \<longleftrightarrow>
     ps_inBody st \<and> ps_typ st = fst m \<and> ps_length st = length (snd m) \<and>
     ps_want st = frame_want frontend m \<and> ps_hold st = frame_hold frontend m \<and>
     p \<le> length (snd m) \<and> ps_left st = length (snd m) - p \<and>
     w = drop p (snd m) @ concat (map postgres_frame rest) \<and>
     (if ps_delivered st then list_all2 (message_fits whole frontend) msgs (done @ [m])
      else list_all2 (message_fits whole frontend) msgs done \<and> ps_held st = take p (snd m) \<and>
        (p = 0 \<or> ps_hold st \<and> p < ps_want st))"

definition stream_follows :: "bool \<Rightarrow> bool \<Rightarrow> (byte \<times> bytes) list \<Rightarrow> postgresStream \<Rightarrow> postgresMessage list \<Rightarrow> bytes \<Rightarrow> bool" where
  "stream_follows whole frontend ms st msgs w \<longleftrightarrow>
     \<not> ps_untyped st \<and> length (ps_header st) = 5 \<and> \<not> ps_garbage st \<and>
     ((\<exists>done rest. ms = done @ rest \<and> \<not> ps_inBody st \<and> ps_headerLen st < 5 \<and>
         list_all2 (message_fits whole frontend) msgs done \<and>
         take (ps_headerLen st) (ps_header st) @ w = concat (map postgres_frame rest)) \<or>
      (\<exists>done m rest p. ms = done @ m # rest \<and> in_body whole frontend st msgs done m rest w p \<and> p < length (snd m)))"

lemma body_pass_simps [simp]:
  "ps_untyped (body_pass n st) = ps_untyped st" "ps_header (body_pass n st) = ps_header st"
  "ps_garbage (body_pass n st) = ps_garbage st"
  by (simp_all add: body_pass_def)

lemma in_body_follows:
  "in_body whole frontend st msgs done m rest w p \<Longrightarrow> p < length (snd m) \<Longrightarrow> \<not> ps_untyped st \<Longrightarrow>
     length (ps_header st) = 5 \<Longrightarrow> \<not> ps_garbage st \<Longrightarrow> stream_follows whole frontend (done @ m # rest) st msgs w"
  unfolding stream_follows_def by blast

text \<open>Passing \<open>n\<close> bytes of a delivered body, or of one whose bytes are held.\<close>

lemma body_pass_follows:
  assumes b: "in_body whole frontend st msgs done m rest w p" and st: "\<not> ps_untyped st" "length (ps_header st) = 5" "\<not> ps_garbage st"
    and n: "n \<le> ps_left st" "ps_delivered st"
  shows "stream_follows whole frontend (done @ m # rest) (body_pass n st) msgs (drop n w)"
proof (cases "n = ps_left st")
  case True
  have "drop n w = concat (map postgres_frame rest)" using b True by (simp add: in_body_def)
  moreover have "list_all2 (message_fits whole frontend) msgs (done @ [m])" using b n(2) by (simp add: in_body_def)
  ultimately show ?thesis
    unfolding stream_follows_def using st True
    by (intro conjI disjI1 exI [of _ "done @ [m]"] exI [of _ rest]) (simp_all add: body_pass_def)
next
  case False
  then have "n < ps_left st" using n(1) by simp
  then have "in_body whole frontend (body_pass n st) msgs done m rest (drop n w) (p + n)" "p + n < length (snd m)"
    using b n(2) by (auto simp: in_body_def body_pass_def add.commute)
  then show ?thesis using st by (intro in_body_follows) simp_all
qed

text \<open>The result of a turn or a record, as the claim needs it.\<close>

definition follows_result :: "bool \<Rightarrow> bool \<Rightarrow> (byte \<times> bytes) list \<Rightarrow> bool \<times> postgresStream \<times> postgresMessage list \<Rightarrow> bytes \<Rightarrow> bool" where
  "follows_result whole frontend ms res w =
     (case res of (ok, st, msgs) \<Rightarrow>
        if ok then stream_follows whole frontend ms st msgs w
        else \<not> whole \<and> \<not> ps_garbage st \<and> (\<exists>done rest. ms = done @ rest \<and> list_all2 (message_fits whole frontend) msgs done))"

lemma follows_result_lost:
  "follows_result whole frontend ms (False, st, msgs) w \<Longrightarrow> follows_result whole frontend ms (False, st, msgs) w'"
  unfolding follows_result_def case_prod_conv if_False .

text \<open>The bytes of the record that are still to come, \<open>w1\<close>, of which \<open>data\<close> is captured.\<close>

definition captured :: "bool \<Rightarrow> bytes \<Rightarrow> bytes \<Rightarrow> bool" where
  "captured whole data w1 \<longleftrightarrow> (\<exists>k. data = take k w1) \<and> (whole \<longrightarrow> data = w1)"

lemma captured_drop: "captured whole data w1 \<Longrightarrow> captured whole (drop (min n (length data)) data) (drop n w1)"
proof -
  assume c: "captured whole data w1"
  then obtain k where k: "data = take k w1" by (auto simp: captured_def)
  have "drop (min n (length data)) data = take (k - n) (drop n w1)"
    by (cases "n \<le> length data") (auto simp: k drop_take min_def)
  moreover have "whole \<Longrightarrow> drop (min n (length data)) data = drop n w1"
    using c by (auto simp: captured_def min_def)
  ultimately show ?thesis unfolding captured_def by blast
qed

lemma body_seen_take:
  assumes b: "in_body whole frontend st msgs done m rest (w1 @ w2) p" and nd: "\<not> ps_delivered st"
    and c: "captured whole data w1" and n: "n = min (ps_left st) (length w1)" and seen: "seen = min n (length data)"
    and bs: "body_seen n seen data st = (body, held)"
  shows "body = take (p + min seen (ps_want st - p)) (snd m)"
    and "\<not> body_due n seen body st \<Longrightarrow> held = take (p + n) (snd m) \<and> p + n < ps_want st \<and> ps_hold st"
proof -
  define b' where "b' = snd m"
  define j where "j = min seen (ps_want st - p)"
  have facts: "p \<le> length b'" "ps_left st = length b' - p" "w1 @ w2 = drop p b' @ concat (map postgres_frame rest)"
    "ps_held st = take p b'" "p = 0 \<or> ps_hold st \<and> p < ps_want st" "ps_want st \<le> length b'"
    using b nd frame_want_le [of frontend m] by (auto simp: in_body_def b'_def)
  obtain k where k: "data = take k w1" using c by (auto simp: captured_def)
  have "take j data = take j (drop p b')"
  proof -
    have "j \<le> length data" "j \<le> length w1" "j \<le> length b' - p" unfolding j_def seen n facts(2) k length_take by linarith+
    then have "take j data = take j w1" by (simp add: k min_absorb1)
    then have "take j data = take j (w1 @ w2)" using \<open>j \<le> length w1\<close> by simp
    also have "\<dots> = take j (drop p b')" using \<open>j \<le> length b' - p\<close> unfolding facts(3) by simp
    finally show ?thesis .
  qed
  then have piece: "ps_held st @ take j data = take (p + j) b'" by (simp add: facts(4) take_add)
  have lh: "length (ps_held st) = p" using facts by simp
  have eq: "body = take (p + j) b'"
    using bs piece lh facts(4) unfolding body_seen_def Let_def lh j_def [symmetric] by (auto split: if_splits)
  show "body = take (p + min seen (ps_want st - p)) (snd m)" using eq by (simp add: j_def b'_def)
  assume nd: "\<not> body_due n seen body st"
  have "seen \<le> length b' - p" unfolding seen n facts(2) by linarith
  then have "p + j \<le> length b'" using facts(1) by (simp add: j_def)
  then have lb: "length body = p + j" using eq by simp
  have pw: "p \<le> ps_want st" using facts(5) by auto
  have sn: "seen = n" using nd seen by (auto simp: body_due_def)
  have "p + j \<noteq> ps_want st" using nd lb by (simp add: body_due_def)
  then have jn: "j = n" "p + n < ps_want st" using pw sn by (auto simp: j_def)
  then have "n < ps_left st" using facts by auto
  then have hold: "ps_hold st" using nd by (simp add: body_due_def)
  have "j < ps_want st" using jn by simp
  then have "held = body"
    using bs hold sn \<open>n < ps_left st\<close> unfolding body_seen_def Let_def lh j_def [symmetric] by auto
  with jn hold eq show "held = take (p + n) (snd m) \<and> p + n < ps_want st \<and> ps_hold st" by (simp add: b'_def)
qed

text \<open>A message that is due fits what was sent.\<close>

lemma body_due_fits:
  assumes b: "in_body whole frontend st msgs done m rest (w1 @ w2) p" and nd: "\<not> ps_delivered st"
    and c: "captured whole data w1" and n: "n = min (ps_left st) (length w1)" and seen: "seen = min n (length data)"
    and bs: "body_seen n seen data st = (body, held)" and due: "body_due n seen body st"
  shows "message_fits whole frontend (body_message body st) m"
proof -
  let ?j = "min seen (ps_want st - p)"
  note body = body_seen_take(1) [OF b nd c n seen bs]
  have f: "ps_typ st = fst m" "ps_length st = length (snd m)" "ps_want st = frame_want frontend m"
    "ps_hold st = frame_hold frontend m" "p \<le> ps_want st" "ps_left st = length (snd m) - p"
    using b nd by (auto simp: in_body_def)
  have k: "p + ?j \<le> ps_want st" using f(5) by simp
  have whole: "p + ?j = ps_want st" if "whole" "ps_hold st"
  proof -
    have "data = w1" using c that(1) by (simp add: captured_def)
    then have "seen = n" by (simp add: seen n)
    then have "length body = ps_want st" using due that(2) by (simp add: body_due_def)
    moreover have "length body = p + ?j" using body k frame_want_le [of frontend m] f(3) by simp
    ultimately show ?thesis by simp
  qed
  show ?thesis unfolding message_fits_def body_message_def using f body k whole by auto
qed

lemma body_turn_follows:
  assumes b: "in_body whole frontend st msgs done m rest (w1 @ w2) p" and st: "\<not> ps_untyped st" "length (ps_header st) = 5" "\<not> ps_garbage st"
    and c: "captured whole data w1"
  shows "\<exists>data' used' st' msgs'. pfeed_body log_message data (length w1) used st msgs =
      Inr (data', length w1 - min (ps_left st) (length w1), used', st', msgs') \<and>
      captured whole data' (drop (min (ps_left st) (length w1)) w1) \<and>
      stream_follows whole frontend (done @ m # rest) st' msgs' (drop (min (ps_left st) (length w1)) w1 @ w2)"
proof -
  define n where "n = min (ps_left st) (length w1)"
  define seen where "seen = min n (length data)"
  have d: "drop n (w1 @ w2) = drop n w1 @ w2" by (simp add: n_def)
  have c': "captured whole (drop seen data) (drop n w1)" unfolding seen_def by (rule captured_drop [OF c])
  have nl: "n \<le> ps_left st" by (simp add: n_def)
  show ?thesis
  proof (cases "ps_delivered st")
    case True
    then have "pfeed_body log_message data (length w1) used st msgs = Inr (drop seen data, length w1 - n, used + n, body_pass n st, msgs)"
      by (simp add: pfeed_body_def Let_def n_def seen_def)
    with c' body_pass_follows [OF b st nl True] show ?thesis unfolding n_def [symmetric] d [symmetric] by blast
  next
    case False
    obtain body held where bs: "body_seen n seen data st = (body, held)" by fastforce
    note take = body_seen_take [OF b False c n_def seen_def bs]
    show ?thesis
    proof (cases "body_due n seen body st")
      case True
      let ?st = "st\<lparr>ps_delivered := True, ps_held := []\<rparr>"
      let ?msgs = "msgs @ [body_message body st]"
      have "pfeed_body log_message data (length w1) used st msgs = Inr (drop seen data, length w1 - n, used + n, body_pass n ?st, ?msgs)"
        using False True bs by (simp add: pfeed_body_def Let_def n_def [symmetric] seen_def [symmetric] log_message_def)
      moreover have "message_fits whole frontend (body_message body st) m"
        by (rule body_due_fits [OF b False c n_def seen_def bs True])
      then have "in_body whole frontend ?st ?msgs done m rest (w1 @ w2) p"
        using b False by (simp add: in_body_def list_all2_appendI)
      from body_pass_follows [OF this] have "stream_follows whole frontend (done @ m # rest) (body_pass n ?st) ?msgs (drop n (w1 @ w2))"
        using st nl by simp
      ultimately show ?thesis using c' unfolding n_def [symmetric] d [symmetric] by blast
    next
      case nd: False
      let ?st = "st\<lparr>ps_held := held\<rparr>"
      note t = take(2) [OF nd]
      have "pfeed_body log_message data (length w1) used st msgs = Inr (drop seen data, length w1 - n, used + n, body_pass n ?st, msgs)"
        using False nd bs by (simp add: pfeed_body_def Let_def n_def [symmetric] seen_def [symmetric])
      moreover have "p + n < length (snd m)" using t b frame_want_le [of frontend m] by (simp add: in_body_def)
      then have "n < ps_left st" using b by (simp add: in_body_def)
      then have "in_body whole frontend (body_pass n ?st) msgs done m rest (drop n (w1 @ w2)) (p + n)"
        using b False t by (auto simp: in_body_def body_pass_def add.commute)
      then have "stream_follows whole frontend (done @ m # rest) (body_pass n ?st) msgs (drop n (w1 @ w2))"
        using st \<open>p + n < length (snd m)\<close> by (intro in_body_follows) simp_all
      ultimately show ?thesis using c' unfolding n_def [symmetric] d [symmetric] by blast
    qed
  qed
qed

text \<open>A complete header is the one that was sent.\<close>

lemma header_parse_frame:
  assumes ok: "frame_ok frontend m" and u: "\<not> ps_untyped st"
    and h: "ps_header st = fst m # rev (le_bytes 4 (length (snd m) + 4))"
  shows "header_parse frontend st = Some (st\<lparr>ps_typ := fst m, ps_length := length (snd m), ps_left := length (snd m),
     ps_want := frame_want frontend m, ps_hold := frame_hold frontend m, ps_inBody := True, ps_held := [], ps_delivered := False\<rparr>)"
proof -
  have "length (snd m) + 4 < 2 ^ 31" using ok by (simp add: frame_ok_def postgresMaxLength_def)
  then have "header_length st = int (length (snd m)) + 4"
    using u be_int32_frame [of "length (snd m) + 4"] unfolding header_length_def h by simp
  moreover have "header_type st = fst m" using u unfolding header_type_def h by simp
  ultimately show ?thesis
    using ok u by (simp add: header_parse_def Let_def frame_ok_def frame_want_def frame_hold_def)
qed

lemma header_take_fields:
  fixes st :: postgresStream and data :: bytes
  assumes "\<not> ps_untyped st" and "length (ps_header st) = 5" and "ps_headerLen st < 5"
  defines "n \<equiv> min (5 - ps_headerLen st) (length data)"
  shows "ps_headerLen (header_take tm data st) = ps_headerLen st + n" and "length (ps_header (header_take tm data st)) = 5"
    and "take (ps_headerLen st + n) (ps_header (header_take tm data st)) = take (ps_headerLen st) (ps_header st) @ take n data"
    and "\<not> ps_untyped (header_take tm data st)" and "ps_garbage (header_take tm data st) = ps_garbage st"
    and "ps_inBody (header_take tm data st) = ps_inBody st"
  using assms by (simp_all add: header_take_def header_need_def copy_at_def Let_def)

lemma header_turn_follows:
  assumes ms: "ms = done @ rest" "list_all (frame_ok frontend) ms" and st: "\<not> ps_untyped st" "length (ps_header st) = 5" "\<not> ps_garbage st"
    and nb: "\<not> ps_inBody st" "ps_headerLen st < 5"
    and fits: "list_all2 (message_fits whole frontend) msgs done"
    and w: "take (ps_headerLen st) (ps_header st) @ w1 @ w2 = concat (map postgres_frame rest)"
    and c: "captured whole data w1" "data \<noteq> []"
  shows "\<exists>data' w1' used' st' msgs'. pfeed_turn log_message frontend tm data (length w1) used st msgs =
      Inr (data', length w1', used', st', msgs') \<and> captured whole data' w1' \<and>
      stream_follows whole frontend ms st' msgs' (w1' @ w2)"
proof -
  define n where "n = min (5 - ps_headerLen st) (length data)"
  define st1 where "st1 = header_take tm data st"
  note f = header_take_fields [OF st(1,2) nb(2), where data = data and tm = tm, folded n_def st1_def]
  obtain k where k: "data = take k w1" using c(1) by (auto simp: captured_def)
  have nw: "n \<le> length w1" "take n data = take n w1" by (auto simp: n_def k min_def)
  have c': "captured whole (drop n data) (drop n w1)"
    using captured_drop [OF c(1), of n] by (simp add: n_def min_def split: if_splits)
  have whole_w: "take (ps_headerLen st1) (ps_header st1) @ drop n w1 @ w2 = concat (map postgres_frame rest)"
    using w nw unfolding f(1) f(3) by (metis append.assoc append_take_drop_id)
  show ?thesis
  proof (cases "ps_headerLen st1 < 5")
    case True
    have "pfeed_turn log_message frontend tm data (length w1) used st msgs = Inr (drop n data, length (drop n w1), used + n, st1, msgs)"
      using True nb(1) c(2) st(1) by (simp add: pfeed_turn_def Let_def header_need_def n_def st1_def)
    moreover have "stream_follows whole frontend ms st1 msgs (drop n w1 @ w2)"
      unfolding stream_follows_def using ms(1) f nb(1) st True fits whole_w by (intro conjI disjI1 exI [of _ "done"] exI [of _ rest]) simp_all
    ultimately show ?thesis using c' by blast
  next
    case False
    have "ps_headerLen st1 = 5" using False f(1) nb(2) by (simp add: n_def)
    then have w5: "ps_header st1 @ drop n w1 @ w2 = concat (map postgres_frame rest)" using whole_w f(2) by simp
    then have "rest \<noteq> []" using f(2) by auto
    then obtain m rest' where rest: "rest = m # rest'" by (cases rest) auto
    define h where "h = fst m # rev (le_bytes 4 (length (snd m) + 4))"
    have "ps_header st1 @ drop n w1 @ w2 = h @ snd m @ concat (map postgres_frame rest')"
      using w5 rest by (simp add: postgres_frame_def h_def)
    then have hd: "ps_header st1 = h" and w': "drop n w1 @ w2 = snd m @ concat (map postgres_frame rest')"
      using append_eq_append_conv [of "ps_header st1" h] f(2) by (simp_all add: h_def)
    have "frame_ok frontend m" using ms rest by simp
    note parse = header_parse_frame [OF this f(4) hd [unfolded h_def]]
    define st2 where "st2 = st1\<lparr>ps_typ := fst m, ps_length := length (snd m), ps_left := length (snd m),
     ps_want := frame_want frontend m, ps_hold := frame_hold frontend m, ps_inBody := True, ps_held := [], ps_delivered := False\<rparr>"
    have turn: "pfeed_turn log_message frontend tm data (length w1) used st msgs =
        pfeed_body log_message (drop n data) (length (drop n w1)) (used + n) st2 msgs"
      using False nb(1) c(2) st(1) parse
      by (simp add: pfeed_turn_def Let_def header_need_def n_def [symmetric] st1_def [symmetric] st2_def)
    have "in_body whole frontend st2 msgs done m rest' (drop n w1 @ w2) 0"
      using fits w' by (simp add: in_body_def st2_def)
    from body_turn_follows [OF this _ _ _ c', of "used + n"] obtain data' used' st' msgs' where
      "pfeed_body log_message (drop n data) (length (drop n w1)) (used + n) st2 msgs =
        Inr (data', length (drop n w1) - min (ps_left st2) (length (drop n w1)), used', st', msgs')"
      "captured whole data' (drop (min (ps_left st2) (length (drop n w1))) (drop n w1))"
      "stream_follows whole frontend (done @ m # rest') st' msgs' (drop (min (ps_left st2) (length (drop n w1))) (drop n w1) @ w2)"
      using f st by (auto simp: st2_def)
    then show ?thesis unfolding turn ms(1) rest by (metis length_drop)
  qed
qed

text \<open>A record.\<close>

lemma record_follows:
  assumes "list_all (frame_ok frontend) ms" and "stream_follows whole frontend ms st msgs (w1 @ w2)" and "captured whole data w1"
  shows "follows_result whole frontend ms (pfeed_loop log_message frontend tm data (length w1) used st msgs) w2"
  using assms(2,3)
proof (induction "pfeed_measure (length w1) st" arbitrary: data w1 used st msgs rule: less_induct)
  case less
  show ?case
  proof (cases "w1 = []")
    case True
    then show ?thesis using less.prems(1) by (simp add: pfeed_loop.simps follows_result_def)
  next
    case ne: False
    note st = less.prems(1) [unfolded stream_follows_def, THEN conjunct1]
      less.prems(1) [unfolded stream_follows_def, THEN conjunct2, THEN conjunct1]
      less.prems(1) [unfolded stream_follows_def, THEN conjunct2, THEN conjunct2, THEN conjunct1]
    have goal: ?thesis
      if t: "pfeed_turn log_message frontend tm data (length w1) used st msgs = Inr (data', length w1', used', st', msgs')"
        and n: "captured whole data' w1'" "stream_follows whole frontend ms st' msgs' (w1' @ w2)" for data' w1' used' st' msgs'
    proof -
      have "pfeed_measure (length w1') st' < pfeed_measure (length w1) st"
        using pfeed_turn_decreases [OF t] ne by simp
      from less.hyps [OF this n(2,1), of used'] show ?thesis using t ne by (subst pfeed_loop.simps) simp
    qed
    from less.prems(1) consider
      (header) "done" rest where "ms = done @ rest" "\<not> ps_inBody st" "ps_headerLen st < 5"
        "list_all2 (message_fits whole frontend) msgs done"
        "take (ps_headerLen st) (ps_header st) @ w1 @ w2 = concat (map postgres_frame rest)"
      | (body) "done" m rest p where "ms = done @ m # rest" "in_body whole frontend st msgs done m rest (w1 @ w2) p" "p < length (snd m)"
      unfolding stream_follows_def by blast
    then show ?thesis
    proof cases
      case header
      show ?thesis
      proof (cases "data = []")
        case True
        then have "\<not> whole" using less.prems(2) ne by (auto simp: captured_def)
        then show ?thesis
          using True header ne st by (subst pfeed_loop.simps) (auto simp: pfeed_turn_def follows_result_def)
      next
        case False
        from header_turn_follows [OF header(1) assms(1) st header(2-5) less.prems(2) False, of tm used] goal show ?thesis by blast
      qed
    next
      case body
      have "ps_inBody st" using body(2) by (simp add: in_body_def)
      then have "pfeed_turn log_message frontend tm data (length w1) used st msgs = pfeed_body log_message data (length w1) used st msgs"
        by (simp add: pfeed_turn_def)
      with body_turn_follows [OF body(2) st less.prems(2), of used] goal body(1) show ?thesis by (metis length_drop)
    qed
  qed
qed

text \<open>
  A direction read record by record; a record is the bytes that passed and how many of them were
  captured. It stops at the first record in which the boundary is lost.
\<close>

fun feed_records :: "bool \<Rightarrow> (bytes \<times> nat) list \<Rightarrow> postgresStream \<Rightarrow> postgresMessage list \<Rightarrow> bool \<times> postgresStream \<times> postgresMessage list" where
  "feed_records frontend [] st msgs = (True, st, msgs)"
| "feed_records frontend ((chunk, k) # rs) st msgs =
     (case postgres_feed log_message frontend (take k chunk) (length chunk) 0 st msgs of (ok, st', msgs') \<Rightarrow>
        if ok then feed_records frontend rs st' msgs' else (False, st', msgs'))"

lemma records_follow:
  assumes "list_all (frame_ok frontend) ms" and "stream_follows whole frontend ms st msgs (concat (map fst rs))"
    and "whole \<Longrightarrow> list_all (\<lambda>(chunk, k). length chunk \<le> k) rs"
  shows "follows_result whole frontend ms (feed_records frontend rs st msgs) []"
  using assms(2,3)
proof (induction rs arbitrary: st msgs)
  case (Cons r rs)
  obtain chunk k where r: "r = (chunk, k)" by fastforce
  obtain ok st' msgs' where f: "postgres_feed log_message frontend (take k chunk) (length chunk) 0 st msgs = (ok, st', msgs')"
    by (metis prod_cases3)
  have "captured whole (take k chunk) chunk" using Cons.prems(2) r by (auto simp: captured_def)
  from record_follows [OF assms(1) _ this, of st msgs "concat (map fst rs)" 0 0]
  have "follows_result whole frontend ms (ok, st', msgs') (concat (map fst rs))"
    using Cons.prems(1) r f by (simp add: postgres_feed_def)
  moreover have "feed_records frontend (r # rs) st msgs = (if ok then feed_records frontend rs st' msgs' else (False, st', msgs'))"
    using r f by simp
  ultimately show ?case
    using Cons.IH [of st' msgs'] Cons.prems(2) follows_result_lost [of whole frontend ms st' msgs' "concat (map fst rs)"]
    by (cases ok) (simp_all add: follows_result_def [of _ _ _ "(True, _)"])
qed (simp add: follows_result_def)



end
