(* ===== verification/PostgresTracker.thy ===== *)
theory PostgresTracker
  imports PostgresStream PostgresShape GoMap
begin

text \<open>
  \<open>postgresTracker\<close> of internal/edc/trace_postgres.go: the connections of a host, each with the
  message streams of its two directions, the request units that wait for their ReadyForQuery, the
  prepared statements and the portals. As in MySQLTracker the record's connection is the live value
  \<open>pc_conn\<close> of the call, written back to the map at the end; the operations that change every
  connection of the map (three limits over all connections) change the live one as well. Go's
  \<open>max(0, n)\<close> on the counters is kept.
\<close>

definition postgresSQLLimit :: nat where "postgresSQLLimit = 1024"
definition postgresMessageLimit :: nat where "postgresMessageLimit = 1024"
definition postgresSocketLimit :: nat where "postgresSocketLimit = 65536"
definition postgresStatementLimit :: int where "postgresStatementLimit = 65536"
definition postgresPortalLimit :: int where "postgresPortalLimit = 65536"
definition postgresPendingLimit :: int where "postgresPendingLimit = 1024"

definition postgresEventConnect :: bytes where "postgresEventConnect = ''postgres_connect''"
definition postgresEventTLS :: bytes where "postgresEventTLS = ''postgres_tls''"
definition postgresEventQuery :: bytes where "postgresEventQuery = ''postgres_query''"
definition postgresEventResult :: bytes where "postgresEventResult = ''postgres_result''"
definition postgresEventError :: bytes where "postgresEventError = ''postgres_error''"
definition postgresCommandConnect :: bytes where "postgresCommandConnect = ''connect''"
definition postgresCommandQuery :: bytes where "postgresCommandQuery = ''query''"
definition postgresCommandExecute :: bytes where "postgresCommandExecute = ''execute''"
definition postgresCommandPrepare :: bytes where "postgresCommandPrepare = ''prepare''"
definition postgresCommandFunction :: bytes where "postgresCommandFunction = ''function''"

lemmas postgres_names = postgresEventConnect_def postgresEventTLS_def postgresEventQuery_def postgresEventResult_def
  postgresEventError_def postgresCommandConnect_def postgresCommandQuery_def postgresCommandExecute_def
  postgresCommandPrepare_def postgresCommandFunction_def

definition postgresResponseEvent :: "bytes \<Rightarrow> bool" where
  "postgresResponseEvent name \<longleftrightarrow> name = postgresEventResult \<or> name = postgresEventError"

subsection \<open>State\<close>

record postgresUnit =
  un_at :: u64
  un_bytes :: nat
  un_info :: tracePostgresEvent
  un_silent :: bool
  un_mark :: u64
  un_responseBytes :: nat
  un_rows :: u64
  un_rowsSeen :: bool
  un_tag :: bytes
  un_failed :: bool
  un_severity :: bytes
  un_sqlState :: bytes
  un_message :: bytes
  un_detail :: bytes
  un_parsed :: bool
  un_prepareSQL :: bytes
  un_prepareCut :: bool
  un_prepareName :: bytes
  un_lost :: bool

definition unit_at :: "u64 \<Rightarrow> postgresUnit" where
  "unit_at tm = \<lparr>un_at = tm, un_bytes = 0, un_info = postgres_event0, un_silent = False, un_mark = 0,
     un_responseBytes = 0, un_rows = 0, un_rowsSeen = False, un_tag = [], un_failed = False, un_severity = [],
     un_sqlState = [], un_message = [], un_detail = [], un_parsed = False, un_prepareSQL = [],
     un_prepareCut = False, un_prepareName = [], un_lost = False\<rparr>"

record postgresStatement =
  pst_sql :: bytes
  pst_truncated :: bool

record postgresConn =
  pc_request :: postgresStream
  pc_response :: postgresStream
  pc_requestRecords :: u64
  pc_responseRecords :: u64
  pc_startup :: bool
  pc_answer :: byte
  pc_encrypted :: bool
  pc_closed :: bool
  pc_strings :: postgresStrings
  pc_copyIn :: bool
  pc_copySync :: bool
  pc_serverVersion :: bytes
  pc_batch :: "postgresUnit option"
  pc_queue :: "postgresUnit list"
  pc_skip :: nat
  pc_statements :: "(bytes, postgresStatement) gomap"
  pc_portals :: "(bytes, bytes) gomap"
  pc_lost :: bool
  pc_lostMark :: u64
  pc_blind :: bool
  pc_tailWant :: nat
  pc_resyncNext :: bool

text \<open>The zero value of the struct; a nil map reads like an empty one.\<close>

definition pconn0 :: postgresConn where
  "pconn0 = \<lparr>pc_request = pstream0, pc_response = pstream0, pc_requestRecords = 0, pc_responseRecords = 0,
     pc_startup = False, pc_answer = CHR 0x00, pc_encrypted = False, pc_closed = False,
     pc_strings = StringsUnknown, pc_copyIn = False, pc_copySync = False, pc_serverVersion = [],
     pc_batch = None, pc_queue = [], pc_skip = 0, pc_statements = [], pc_portals = [], pc_lost = False,
     pc_lostMark = 0, pc_blind = False, pc_tailWant = 0, pc_resyncNext = False\<rparr>"

record postgresTracker =
  pt_side :: bytes
  pt_showSecrets :: bool
  pt_conns :: "(u64, postgresConn) gomap"
  pt_pending :: int
  pt_statements :: int
  pt_portals :: int

definition newPostgresTracker :: "bytes \<Rightarrow> bool \<Rightarrow> postgresTracker" where
  "newPostgresTracker side showSecrets =
     \<lparr>pt_side = side, pt_showSecrets = showSecrets, pt_conns = [], pt_pending = 0, pt_statements = 0, pt_portals = 0\<rparr>"

record postgresCall =
  pl_tracker :: postgresTracker
  pl_conn :: postgresConn
  pl_record :: mysqlRecord
  pl_side :: bytes
  pl_offset :: u64
  pl_out :: "captureEvent list"

text \<open>Changing the live connection, the tracker or the first waiting unit of a call.\<close>

definition on_conn :: "(postgresConn \<Rightarrow> postgresConn) \<Rightarrow> postgresCall \<Rightarrow> postgresCall" where
  "on_conn f c = c\<lparr>pl_conn := f (pl_conn c)\<rparr>"

definition on_head :: "(postgresUnit \<Rightarrow> postgresUnit) \<Rightarrow> postgresCall \<Rightarrow> postgresCall" where
  "on_head f c =
     on_conn (\<lambda>conn. conn\<lparr>pc_queue := (case pc_queue conn of [] \<Rightarrow> [] | u # us \<Rightarrow> f u # us)\<rparr>) c"

text \<open>\<open>max(0, counter - n)\<close>.\<close>

definition count_down :: "int \<Rightarrow> nat \<Rightarrow> int" where
  "count_down n k = max 0 (n - int k)"

subsection \<open>Text\<close>

definition postgresCString :: "bytes \<Rightarrow> bytes \<times> bytes \<times> bool" where
  "postgresCString data =
     (case index_byte data (CHR 0x00) of
        None \<Rightarrow> (data, [], False)
      | Some e \<Rightarrow> (take e data, drop (e + 1) data, True))"

definition postgresName :: "bytes \<Rightarrow> bytes" where
  "postgresName raw = traceEscapeText (traceTrimText raw postgresNameLimit)"

text \<open>\<open>sqlText\<close>.\<close>

definition postgres_sqlText :: "bool \<Rightarrow> bytes \<Rightarrow> bool \<Rightarrow> postgresStrings \<Rightarrow> bytes \<times> bool" where
  "postgres_sqlText showSecrets raw truncated strings =
     (let t = (if showSecrets then raw else postgresMask raw strings) in
      if postgresSQLLimit < length t then (traceEscapeText (traceTrimText t postgresSQLLimit), True)
      else (traceEscapeText t, truncated))"

text \<open>
  \<open>errorFields\<close>: severity, SQLSTATE, message and detail. \<open>error_scan\<close> is the loop over the fields of
  the body; \<open>localized\<close> is the field S, used when there is no field V.
\<close>

record postgresFault =
  ft_localized :: bytes
  ft_severity :: bytes
  ft_state :: bytes
  ft_text :: bytes
  ft_detail :: bytes

definition fault0 :: postgresFault where
  "fault0 = \<lparr>ft_localized = [], ft_severity = [], ft_state = [], ft_text = [], ft_detail = []\<rparr>"

definition error_field :: "bool \<Rightarrow> byte \<Rightarrow> bytes \<Rightarrow> postgresFault \<Rightarrow> postgresFault" where
  "error_field showSecrets kind value f =
     (if kind = CHR ''S'' then f\<lparr>ft_localized := postgresName value\<rparr>
      else if kind = CHR ''V'' then f\<lparr>ft_severity := postgresName value\<rparr>
      else if kind = CHR ''C'' then f\<lparr>ft_state := postgresName value\<rparr>
      else if kind = CHR ''M'' then f\<lparr>ft_text := traceEscapeText (traceTrimText value postgresMessageLimit)\<rparr>
      else if kind = CHR ''D'' \<and> showSecrets then f\<lparr>ft_detail := traceEscapeText (traceTrimText value postgresMessageLimit)\<rparr>
      else f)"

lemma postgresCString_rest:
  "postgresCString data = (value, rest, ok) \<Longrightarrow> length rest \<le> length data \<and> (ok \<longrightarrow> length rest < length data)"
  by (auto simp: postgresCString_def dest: index_byte_Some split: option.splits)

function error_scan :: "bool \<Rightarrow> bytes \<Rightarrow> postgresFault \<Rightarrow> postgresFault" where
  "error_scan showSecrets [] f = f"
| "error_scan showSecrets (kind # cs) f =
     (if kind = CHR 0x00 then f
      else
        (case postgresCString cs of (value, rest, ok) \<Rightarrow>
           if ok then error_scan showSecrets rest (error_field showSecrets kind value f)
           else error_field showSecrets kind value f))"
  by pat_completeness auto
termination
  by (relation "measure (\<lambda>(_, body, _). length body)") (auto dest: postgresCString_rest [OF sym])

definition errorFields :: "bool \<Rightarrow> bytes \<Rightarrow> postgresFault" where
  "errorFields showSecrets body =
     (let f = error_scan showSecrets body fault0 in
      if ft_severity f = [] then f\<lparr>ft_severity := ft_localized f\<rparr> else f)"

text \<open>What \<open>backend\<close> and \<open>closeAtEnd\<close> store of an error in a unit that has none yet.\<close>

definition unit_fail :: "postgresFault \<Rightarrow> postgresUnit \<Rightarrow> postgresUnit" where
  "unit_fail f u =
     (if un_failed u then u
      else u\<lparr>un_failed := True, un_severity := ft_severity f, un_sqlState := ft_state f,
             un_message := ft_text f, un_detail := ft_detail f\<rparr>)"

subsection \<open>Events\<close>

definition postgres_event :: "postgresCall \<Rightarrow> bytes \<Rightarrow> u64 \<Rightarrow> nat \<Rightarrow> tracePostgresEvent \<Rightarrow> captureEvent" where
  "postgres_event c name tm n info =
     (base_event (pl_record c) (pl_side c) (pl_offset c) ''postgres'' name tm n)\<lparr>ev_postgres := Some info\<rparr>"

definition postgres_emit :: "captureEvent \<Rightarrow> postgresCall \<Rightarrow> postgresCall" where
  "postgres_emit event c = c\<lparr>pl_out := pl_out c @ [event]\<rparr>"

text \<open>\<open>postgresTagRows\<close>: the rows that the tag of a SELECT or FETCH tells (\<open>strconv.ParseUint\<close>).\<close>

definition parse_uint64 :: "bytes \<Rightarrow> u64 option" where
  "parse_uint64 bs =
     (case parse_decimal bs of None \<Rightarrow> None | Some n \<Rightarrow> if n < 2 ^ 64 then Some (of_nat n) else None)"

definition postgresTagRows :: "bytes \<Rightarrow> u64 option" where
  "postgresTagRows tag =
     (case cut_byte tag (CHR '' '') of
        None \<Rightarrow> None
      | Some (command, n) \<Rightarrow> if command = ''SELECT'' \<or> command = ''FETCH'' then parse_uint64 n else None)"

text \<open>The event that \<open>finish\<close> makes of a unit.\<close>

definition answer_name :: "postgresUnit \<Rightarrow> bytes" where
  "answer_name u = (if un_failed u then postgresEventError else postgresEventResult)"

definition answer_info :: "bytes \<Rightarrow> postgresUnit \<Rightarrow> tracePostgresEvent" where
  "answer_info version u =
     (let info = un_info u;
          info1 = (if un_failed u then
                     info\<lparr>pg_severity := un_severity u, pg_sqlState := un_sqlState u, pg_message := un_message u,
                          pg_detail := un_detail u\<rparr>
                   else if pg_command info = postgresCommandConnect then
                     info\<lparr>pg_tag := un_tag u, pg_serverVersion := version\<rparr>
                   else info\<lparr>pg_tag := un_tag u\<rparr>);
          rows = (if un_lost u then postgresTagRows (un_tag u)
                  else if un_rowsSeen u \<or> 0 < un_rows u then Some (un_rows u) else None)
      in (case rows of None \<Rightarrow> info1 | Some n \<Rightarrow> info1\<lparr>pg_rows := Some n\<rparr>))"

text \<open>\<open>finish\<close> of the first waiting unit.\<close>

definition postgres_finish :: "u64 \<Rightarrow> postgresCall \<Rightarrow> postgresCall" where
  "postgres_finish tm c =
     (case pc_queue (pl_conn c) of
        [] \<Rightarrow> c
      | u # us \<Rightarrow>
          (let c1 = (on_conn (pc_queue_update (\<lambda>_. us)) c)
                 \<lparr>pl_tracker := (pl_tracker c)\<lparr>pt_pending := count_down (pt_pending (pl_tracker c)) 1\<rparr>\<rparr>
           in if un_silent u then c1
              else postgres_emit
                ((postgres_event c (answer_name u) tm (un_responseBytes u) (answer_info (pc_serverVersion (pl_conn c)) u))
                   \<lparr>ev_latencyMS := Some (traceSpan (un_at u) tm), ev_answered := 1\<rparr>) c1))"

subsection \<open>Losing and finding the boundary\<close>

definition dropAll :: "postgresCall \<Rightarrow> postgresCall" where
  "dropAll c =
     (let conn = pl_conn c; tracker = pl_tracker c in
      c\<lparr>pl_tracker := tracker\<lparr>pt_pending := count_down (pt_pending tracker) (length (pc_queue conn))\<rparr>,
        pl_conn := conn\<lparr>pc_queue := [], pc_skip := 0, pc_lost := False, pc_blind := False\<rparr>\<rparr>)"

definition dropBefore :: "u64 \<Rightarrow> postgresCall \<Rightarrow> postgresCall" where
  "dropBefore seen c =
     (let conn = pl_conn c; tracker = pl_tracker c; kept = filter (\<lambda>u. un_mark u = seen) (pc_queue conn) in
      c\<lparr>pl_tracker := tracker\<lparr>pt_pending := count_down (pt_pending tracker) (length (pc_queue conn) - length kept)\<rparr>,
        pl_conn := conn\<lparr>pc_queue := kept\<rparr>\<rparr>)"

definition postgres_encrypt :: "u64 \<Rightarrow> nat \<Rightarrow> bytes \<Rightarrow> postgresCall \<Rightarrow> postgresCall" where
  "postgres_encrypt tm n kind c =
     (let c1 = on_conn (\<lambda>conn. conn\<lparr>pc_batch := None, pc_encrypted := True\<rparr>) (dropAll c) in
      postgres_emit (postgres_event c1 postgresEventTLS tm n
        (postgres_event0\<lparr>pg_encryption := kind, pg_message := ''encrypted traffic is not readable''\<rparr>)) c1)"

definition postgres_lose :: "bool \<Rightarrow> postgresCall \<Rightarrow> postgresCall" where
  "postgres_lose request c =
     on_conn (\<lambda>conn. if request then conn\<lparr>pc_batch := None, pc_request := pstream0\<rparr>
                     else conn\<lparr>pc_response := pstream0\<rparr>) (dropAll c)"

definition postgres_resync :: "u64 \<Rightarrow> postgresCall \<Rightarrow> postgresCall" where
  "postgres_resync seen c =
     on_conn (\<lambda>conn. conn\<lparr>pc_skip := 0, pc_lost := False, pc_blind := False\<rparr>)
       (dropBefore seen (on_conn (pc_response_update (\<lambda>_. pstream0\<lparr>ps_synced := True\<rparr>)) c))"

text \<open>\<open>lostHead\<close>: whether the one waiting unit is the one whose answer was cut.\<close>

definition lostHead :: "postgresConn \<Rightarrow> bool" where
  "lostHead conn \<longleftrightarrow>
     pc_lost conn \<and> pc_skip conn = 0 \<and> length (pc_queue conn) = 1 \<and> un_mark (hd (pc_queue conn)) \<le> pc_lostMark conn"

definition keepLost :: "postgresConn \<Rightarrow> bool" where
  "keepLost conn \<longleftrightarrow> \<not> pc_blind conn \<and> lostHead conn"

definition add_response :: "nat \<Rightarrow> postgresUnit \<Rightarrow> postgresUnit" where
  "add_response n u = u\<lparr>un_responseBytes := un_responseBytes u + n\<rparr>"

definition countLost :: "nat \<Rightarrow> postgresCall \<Rightarrow> postgresCall" where
  "countLost n c = (if lostHead (pl_conn c) then on_head (add_response n) c else c)"

text \<open>\<open>loseResponse\<close>; \<open>rest\<close> is not negative, so the code's \<open>max(rest, 0)\<close> is \<open>rest\<close>.\<close>

definition loseResponse :: "u64 \<Rightarrow> nat \<Rightarrow> bool \<Rightarrow> postgresCall \<Rightarrow> postgresCall" where
  "loseResponse seen rest garbage c =
     (let c1 = on_conn (pc_response_update (\<lambda>_. pstream0)) c in
      if pc_queue (pl_conn c1) = [] then c1
      else
        (let c2 = on_conn (\<lambda>conn. conn\<lparr>pc_lost := True, pc_lostMark := seen, pc_blind := garbage\<rparr>) c1 in
         if pc_skip (pl_conn c2) = 0 then on_head (\<lambda>u. add_response rest (u\<lparr>un_lost := True\<rparr>)) c2 else c2))"

text \<open>The end of a response that is not followed: ReadyForQuery behind a CommandComplete or an ErrorResponse.\<close>

definition postgresEndsReady :: "bytes \<Rightarrow> byte option" where
  "postgresEndsReady data =
     (let n = length data in
      if n < 6 \<or> take 5 (drop (n - 6) data) \<noteq> [CHR ''Z'', CHR 0x00, CHR 0x00, CHR 0x00, CHR 0x05] then None
      else if data ! (n - 1) \<in> {CHR ''I'', CHR ''T'', CHR ''E''} then Some (data ! (n - 1)) else None)"

definition end_tag_at :: "bytes \<Rightarrow> nat \<Rightarrow> nat \<Rightarrow> bool" where
  "end_tag_at data stop i \<longleftrightarrow>
     data ! i = CHR ''C'' \<and> be_nat (take 4 (drop (i + 1) data)) = stop - i - 1 \<and> data ! (stop - 1) = CHR 0x00 \<and>
     (let tag = take (stop - 1 - (i + 5)) (drop (i + 5) data) in
      tag \<noteq> [] \<and> length tag \<le> postgresNameLimit \<and> 65 \<le> bval (hd tag) \<and> bval (hd tag) \<le> 90 \<and>
      list_all (\<lambda>b. 0x20 \<le> bval b \<and> bval b \<le> 0x7E) tag)"

definition postgresEndTag :: "bytes \<Rightarrow> bytes option" where
  "postgresEndTag data =
     (let stop = length data - 6 in
      map_option (\<lambda>i. take (stop - 1 - (i + 5)) (drop (i + 5) data)) (find (end_tag_at data stop) [0..<stop - 5]))"

definition end_error_at :: "bytes \<Rightarrow> nat \<Rightarrow> nat \<Rightarrow> bool" where
  "end_error_at data stop i \<longleftrightarrow>
     data ! i = CHR ''E'' \<and> be_nat (take 4 (drop (i + 1) data)) = stop - i - 1 \<and>
     65 \<le> bval (data ! (i + 5)) \<and> bval (data ! (i + 5)) \<le> 90"

definition postgresEndError :: "bytes \<Rightarrow> bytes option" where
  "postgresEndError data =
     (let stop = length data - 6 in
      if stop < 2 \<or> data ! (stop - 1) \<noteq> CHR 0x00 \<or> data ! (stop - 2) \<noteq> CHR 0x00 then None
      else map_option (\<lambda>i. take (stop - (i + 5)) (drop (i + 5) data)) (find (end_error_at data stop) [0..<stop - 5]))"

text \<open>\<open>postgresEndClosed\<close>: the status, and the tag (\<open>Inl\<close>) or the body of the error (\<open>Inr\<close>).\<close>

definition postgresEndClosed :: "bytes \<Rightarrow> (byte \<times> (bytes + bytes)) option" where
  "postgresEndClosed data =
     (case postgresEndsReady data of
        None \<Rightarrow> None
      | Some status \<Rightarrow>
          (case postgresEndTag data of
             Some tag \<Rightarrow> Some (status, Inl tag)
           | None \<Rightarrow> map_option (\<lambda>body. (status, Inr body)) (postgresEndError data)))"

text \<open>\<open>ready\<close>: what a ReadyForQuery changes of the connection.\<close>

definition postgres_ready :: "byte \<Rightarrow> postgresCall \<Rightarrow> postgresCall" where
  "postgres_ready status c =
     (let c1 = on_conn (\<lambda>conn. conn\<lparr>pc_startup := False, pc_copyIn := False\<rparr>) c in
      if status = CHR ''I'' then
        (on_conn (pc_portals_update (\<lambda>_. [])) c1)
          \<lparr>pl_tracker := (pl_tracker c1)\<lparr>pt_portals := count_down (pt_portals (pl_tracker c1)) (map_len (pc_portals (pl_conn c1)))\<rparr>\<rparr>
      else c1)"

text \<open>\<open>closeAtEnd\<close>: \<open>None\<close> when it does not close (and changes nothing).\<close>

definition closeAtEnd :: "u64 \<Rightarrow> bytes \<Rightarrow> nat \<Rightarrow> postgresCall \<Rightarrow> postgresCall option" where
  "closeAtEnd tm data n c =
     (case postgresEndClosed data of
        None \<Rightarrow> None
      | Some (status, tail) \<Rightarrow>
          if \<not> lostHead (pl_conn c) then None
          else
            (let c1 = on_head (add_response n) c;
                 c2 = (case tail of
                         Inl tag \<Rightarrow> on_head (\<lambda>u. u\<lparr>un_tag := postgresName tag\<rparr>) c1
                       | Inr body \<Rightarrow> on_head (unit_fail (errorFields (pt_showSecrets (pl_tracker c1)) body)) c1);
                 c3 = postgres_finish tm (postgres_ready status c2)
             in Some (on_conn (\<lambda>conn. conn\<lparr>pc_response := pstream0, pc_lost := False, pc_blind := False, pc_resyncNext := True\<rparr>) c3)))"

subsection \<open>Waiting units, statements and portals\<close>

text \<open>
  \<open>enqueue\<close>. Past the limit over all connections every queue is emptied, the number of dropped
  units is added to \<open>skip\<close>.
\<close>

definition drop_queue :: "postgresConn \<Rightarrow> postgresConn" where
  "drop_queue conn = conn\<lparr>pc_skip := pc_skip conn + length (pc_queue conn), pc_queue := [], pc_lost := False\<rparr>"

definition make_room :: "postgresCall \<Rightarrow> postgresCall" where
  "make_room c =
     (let tracker = pl_tracker c in
      if postgresPendingLimit \<le> pt_pending tracker then
        c\<lparr>pl_tracker := tracker\<lparr>pt_conns := map_each drop_queue (pt_conns tracker), pt_pending := 0\<rparr>,
          pl_conn := drop_queue (pl_conn c)\<rparr>
      else c)"

definition postgres_enqueue :: "postgresUnit \<Rightarrow> bytes \<Rightarrow> postgresCall \<Rightarrow> postgresCall" where
  "postgres_enqueue u name c =
     (let c1 = make_room c;
          u1 = u\<lparr>un_mark := pc_responseRecords (pl_conn c1)\<rparr>;
          c2 = (on_conn (\<lambda>conn. conn\<lparr>pc_queue := pc_queue conn @ [u1]\<rparr>) c1)
                 \<lparr>pl_tracker := (pl_tracker c1)\<lparr>pt_pending := pt_pending (pl_tracker c1) + 1\<rparr>\<rparr>
      in if un_silent u1 then c2
         else postgres_emit (postgres_event c2 name (un_at u1) (un_bytes u1) (un_info u1)) c2)"

text \<open>\<open>remember\<close> and \<open>bindPortal\<close>: the same limit over all connections for two maps.\<close>

definition postgres_remember :: "bytes \<Rightarrow> postgresStatement \<Rightarrow> postgresCall \<Rightarrow> postgresCall" where
  "postgres_remember name statement c =
     (let conn = pl_conn c; tracker = pl_tracker c in
      if map_get (pc_statements conn) name = None then
        (let full = postgresStatementLimit \<le> pt_statements tracker;
             conns = (if full then map_each (pc_statements_update (\<lambda>_. [])) (pt_conns tracker) else pt_conns tracker);
             count = (if full then 0 else pt_statements tracker);
             statements = (if full then [] else pc_statements conn)
         in c\<lparr>pl_tracker := tracker\<lparr>pt_conns := conns, pt_statements := count + 1\<rparr>,
              pl_conn := conn\<lparr>pc_statements := map_put name statement statements\<rparr>\<rparr>)
      else c\<lparr>pl_conn := conn\<lparr>pc_statements := map_put name statement (pc_statements conn)\<rparr>\<rparr>)"

definition forgetStatement :: "bytes \<Rightarrow> postgresCall \<Rightarrow> postgresCall" where
  "forgetStatement name c =
     (let conn = pl_conn c; tracker = pl_tracker c in
      if map_get (pc_statements conn) name = None then c
      else c\<lparr>pl_tracker := tracker\<lparr>pt_statements := count_down (pt_statements tracker) 1\<rparr>,
             pl_conn := conn\<lparr>pc_statements := map_del name (pc_statements conn)\<rparr>\<rparr>)"

definition bindPortal :: "bytes \<Rightarrow> bytes \<Rightarrow> postgresCall \<Rightarrow> postgresCall" where
  "bindPortal portal statement c =
     (let conn = pl_conn c; tracker = pl_tracker c in
      if map_get (pc_portals conn) portal = None then
        (let full = postgresPortalLimit \<le> pt_portals tracker;
             conns = (if full then map_each (pc_portals_update (\<lambda>_. [])) (pt_conns tracker) else pt_conns tracker);
             count = (if full then 0 else pt_portals tracker);
             portals = (if full then [] else pc_portals conn)
         in c\<lparr>pl_tracker := tracker\<lparr>pt_conns := conns, pt_portals := count + 1\<rparr>,
              pl_conn := conn\<lparr>pc_portals := map_put portal statement portals\<rparr>\<rparr>)
      else c\<lparr>pl_conn := conn\<lparr>pc_portals := map_put portal statement (pc_portals conn)\<rparr>\<rparr>)"

definition forgetPortal :: "bytes \<Rightarrow> postgresCall \<Rightarrow> postgresCall" where
  "forgetPortal name c =
     (let conn = pl_conn c; tracker = pl_tracker c in
      if map_get (pc_portals conn) name = None then c
      else c\<lparr>pl_tracker := tracker\<lparr>pt_portals := count_down (pt_portals tracker) 1\<rparr>,
             pl_conn := conn\<lparr>pc_portals := map_del name (pc_portals conn)\<rparr>\<rparr>)"

subsection \<open>Requests\<close>

text \<open>\<open>openBatch\<close>, and a change of the open batch: here a batch is opened when there is none.\<close>

definition openBatch :: "u64 \<Rightarrow> postgresConn \<Rightarrow> postgresUnit" where
  "openBatch tm conn = (case pc_batch conn of None \<Rightarrow> unit_at tm | Some u \<Rightarrow> u)"

definition on_batch :: "u64 \<Rightarrow> (postgresUnit \<Rightarrow> postgresUnit) \<Rightarrow> postgresCall \<Rightarrow> postgresCall" where
  "on_batch tm f c = on_conn (\<lambda>conn. conn\<lparr>pc_batch := Some (f (openBatch tm conn))\<rparr>) c"

definition add_bytes :: "nat \<Rightarrow> postgresUnit \<Rightarrow> postgresUnit" where
  "add_bytes n u = u\<lparr>un_bytes := un_bytes u + n\<rparr>"

definition with_command :: "bytes \<Rightarrow> postgresUnit \<Rightarrow> postgresUnit" where
  "with_command name u = u\<lparr>un_info := (un_info u)\<lparr>pg_command := name\<rparr>\<rparr>"

text \<open>The cases of \<open>frontend\<close>; \<open>n\<close> is the size of the message.\<close>

definition front_query :: "postgresMessage \<Rightarrow> nat \<Rightarrow> postgresCall \<Rightarrow> postgresCall" where
  "front_query m n c =
     (let c1 = on_conn (pc_batch_update (\<lambda>_. None)) c;
          t = postgres_sqlText (pt_showSecrets (pl_tracker c1)) (fst (postgresCString (pm_body m))) (pm_truncated m)
                (pc_strings (pl_conn c1));
          info = postgres_event0\<lparr>pg_command := postgresCommandQuery, pg_sql := fst t, pg_sqlTruncated := snd t\<rparr>
      in postgres_enqueue ((unit_at (pm_at m))\<lparr>un_bytes := n, un_info := info\<rparr>) postgresEventQuery c1)"

definition front_function :: "postgresMessage \<Rightarrow> nat \<Rightarrow> postgresCall \<Rightarrow> postgresCall" where
  "front_function m n c =
     postgres_enqueue
       ((unit_at (pm_at m))\<lparr>un_bytes := n, un_info := postgres_event0\<lparr>pg_command := postgresCommandFunction\<rparr>\<rparr>)
       postgresEventQuery (on_conn (pc_batch_update (\<lambda>_. None)) c)"

definition front_parse :: "postgresMessage \<Rightarrow> nat \<Rightarrow> postgresCall \<Rightarrow> postgresCall" where
  "front_parse m n c =
     (let c1 = on_batch (pm_at m) (add_bytes n) c in
      case postgresCString (pm_body m) of (name, rest, ok) \<Rightarrow>
        if \<not> ok then c1
        else
          (case postgresCString rest of (sql, _, whole) \<Rightarrow>
             let t = postgres_sqlText (pt_showSecrets (pl_tracker c1)) sql (\<not> whole) (pc_strings (pl_conn c1));
                 c2 = postgres_remember (postgresName name) \<lparr>pst_sql = fst t, pst_truncated = snd t\<rparr> c1
             in on_batch (pm_at m)
                  (\<lambda>u. if un_parsed u then u
                       else u\<lparr>un_parsed := True, un_prepareSQL := fst t, un_prepareCut := snd t,
                              un_prepareName := postgresName name\<rparr>) c2))"

definition front_bind :: "postgresMessage \<Rightarrow> nat \<Rightarrow> postgresCall \<Rightarrow> postgresCall" where
  "front_bind m n c =
     (let c1 = on_batch (pm_at m) (add_bytes n) c in
      case postgresCString (pm_body m) of (portal, rest, ok) \<Rightarrow>
      case postgresCString rest of (statement, _, whole) \<Rightarrow>
        if ok \<and> whole then bindPortal (postgresName portal) (postgresName statement) c1 else c1)"

definition front_execute :: "postgresMessage \<Rightarrow> nat \<Rightarrow> postgresCall \<Rightarrow> postgresCall" where
  "front_execute m n c =
     (let c1 = on_batch (pm_at m)
            (\<lambda>u. add_bytes n (u\<lparr>un_info := (un_info u)\<lparr>pg_executes := pg_executes (un_info u) + 1\<rparr>\<rparr>)) c;
          conn = pl_conn c1
      in case postgresCString (pm_body m) of (portal, _, ok) \<Rightarrow>
           if ok \<and> pg_executes (un_info (openBatch (pm_at m) conn)) = 1 then
             (case map_get (pc_portals conn) (postgresName portal) of
                None \<Rightarrow> c1
              | Some name \<Rightarrow>
                  (let t = (case map_get (pc_statements conn) name of
                              None \<Rightarrow> \<lparr>pst_sql = [], pst_truncated = False\<rparr> | Some st \<Rightarrow> st)
                   in on_batch (pm_at m)
                        (\<lambda>u. u\<lparr>un_info := (un_info u)\<lparr>pg_sql := pst_sql t, pg_sqlTruncated := pst_truncated t,
                                 pg_statement := name\<rparr>\<rparr>) c1))
           else c1)"

definition front_close :: "postgresMessage \<Rightarrow> nat \<Rightarrow> postgresCall \<Rightarrow> postgresCall" where
  "front_close m n c =
     (let c1 = on_batch (pm_at m) (add_bytes n) c in
      case pm_body m of
        [] \<Rightarrow> c1
      | kind # rest \<Rightarrow>
          (case postgresCString rest of (name, _, ok) \<Rightarrow>
             if \<not> ok then c1
             else if kind = CHR ''S'' then forgetStatement (postgresName name) c1
             else if kind = CHR ''P'' then forgetPortal (postgresName name) c1
             else c1))"

text \<open>A Sync closes the batch: what the request unit reports.\<close>

definition close_batch :: "postgresUnit \<Rightarrow> postgresUnit" where
  "close_batch u =
     (if 0 < pg_executes (un_info u) then with_command postgresCommandExecute u
      else if un_parsed u then
        u\<lparr>un_info := (un_info u)\<lparr>pg_command := postgresCommandPrepare, pg_sql := un_prepareSQL u,
             pg_sqlTruncated := un_prepareCut u, pg_statement := un_prepareName u\<rparr>\<rparr>
      else u\<lparr>un_silent := True\<rparr>)"

definition front_sync :: "postgresMessage \<Rightarrow> nat \<Rightarrow> postgresCall \<Rightarrow> postgresCall" where
  "front_sync m n c =
     (let c1 = forgetPortal [] c; conn = pl_conn c1 in
      if pc_copyIn conn \<or> pc_copySync conn then on_conn (\<lambda>conn. conn\<lparr>pc_copySync := False, pc_batch := None\<rparr>) c1
      else postgres_enqueue (close_batch (add_bytes n (openBatch (pm_at m) conn))) postgresEventQuery
             (on_conn (pc_batch_update (\<lambda>_. None)) c1))"

text \<open>\<open>startMessage\<close>: the parameters user and database, then the whole.\<close>

function start_params :: "bytes \<Rightarrow> bytes \<Rightarrow> bytes \<Rightarrow> bytes \<times> bytes" where
  "start_params rest user database =
     (if rest = [] \<or> hd rest = CHR 0x00 then (user, database)
      else
        (case postgresCString rest of (key, after, ok) \<Rightarrow>
           if \<not> ok then (user, database)
           else
             (case postgresCString after of (value, after2, ok') \<Rightarrow>
                if \<not> ok' then (user, database)
                else if key = ''user'' then start_params after2 (postgresName value) database
                else if key = ''database'' then start_params after2 user (postgresName value)
                else start_params after2 user database)))"
  by pat_completeness auto
termination
  by (relation "measure (\<lambda>(rest, _). length rest)")
    (auto dest!: postgresCString_rest [OF sym] intro: le_less_trans)

declare start_params.simps [simp del]

definition startMessage :: "postgresMessage \<Rightarrow> bool \<Rightarrow> postgresCall \<Rightarrow> bool \<times> bool \<times> postgresCall" where
  "startMessage m untyped c =
     (let body = pm_body m; code = be_nat (take 4 body) in
      if length body < 4 then (False, untyped, on_conn (pc_closed_update (\<lambda>_. True)) c)
      else if code = postgresCodeSSL then (True, untyped, on_conn (pc_answer_update (\<lambda>_. CHR ''S'')) c)
      else if code = postgresCodeGSS then (True, untyped, on_conn (pc_answer_update (\<lambda>_. CHR ''G'')) c)
      else if code div 2 ^ 16 \<noteq> 3 then (False, untyped, on_conn (pc_closed_update (\<lambda>_. True)) c)
      else
        (case start_params (drop 4 body) [] [] of (user, database) \<Rightarrow>
           let info = postgres_event0\<lparr>pg_command := postgresCommandConnect, pg_user := user,
                 pg_database := (if database = [] then user else database)\<rparr>
           in (True, False,
               postgres_enqueue ((unit_at (pm_at m))\<lparr>un_bytes := 4 + pm_length m, un_info := info\<rparr>) postgresEventConnect
                 (on_conn (pc_startup_update (\<lambda>_. True)) c))))"

definition front_typed :: "postgresMessage \<Rightarrow> postgresCall \<Rightarrow> postgresCall" where
  "front_typed m c =
     (let n = 5 + pm_length m; typ = pm_typ m in
      if typ = CHR ''Q'' then front_query m n c
      else if typ = CHR ''F'' then front_function m n c
      else if typ = CHR ''P'' then front_parse m n c
      else if typ = CHR ''B'' then front_bind m n c
      else if typ = CHR ''E'' then front_execute m n c
      else if typ = CHR ''C'' then front_close m n c
      else if typ = CHR ''D'' \<or> typ = CHR ''H'' then on_batch (pm_at m) (add_bytes n) c
      else if typ = CHR ''c'' \<or> typ = CHR ''f'' then
        on_conn (\<lambda>conn. if pc_copyIn conn then conn\<lparr>pc_copyIn := False, pc_copySync := True\<rparr> else conn) c
      else if typ = CHR ''S'' then front_sync m n c
      else if typ = CHR ''X'' then on_conn (pc_batch_update (\<lambda>_. None)) c
      else c)"

definition postgres_frontend :: "postgresCall postgres_deliver" where
  "postgres_frontend m untyped c =
     (if pm_typ m = CHR 0x00 then startMessage m untyped c else (True, untyped, front_typed m c))"

subsection \<open>Answers\<close>

text \<open>The cases of \<open>backend\<close>; \<open>waiting\<close> tells that the message belongs to the first waiting unit.\<close>

definition back_ready :: "postgresMessage \<Rightarrow> bool \<Rightarrow> postgresCall \<Rightarrow> postgresCall" where
  "back_ready m waiting c =
     (let c1 = postgres_ready (case pm_body m of [status] \<Rightarrow> status | _ \<Rightarrow> CHR 0x00) c in
      if 0 < pc_skip (pl_conn c1) then on_conn (\<lambda>conn. conn\<lparr>pc_skip := pc_skip conn - 1\<rparr>) c1
      else if waiting then postgres_finish (pm_at m) c1
      else c1)"

definition back_error :: "postgresMessage \<Rightarrow> bool \<Rightarrow> postgresCall \<Rightarrow> postgresCall" where
  "back_error m waiting c =
     (let f = errorFields (pt_showSecrets (pl_tracker c)) (pm_body m) in
      if \<not> waiting then c
      else
        (let c1 = on_head (unit_fail f) c in
         if pc_startup (pl_conn c1) \<or> ft_severity f = ''FATAL'' \<or> ft_severity f = ''PANIC''
         then postgres_finish (pm_at m) c1 else c1))"

definition back_parameter :: "postgresMessage \<Rightarrow> postgresConn \<Rightarrow> postgresConn" where
  "back_parameter m conn =
     (case postgresCString (pm_body m) of (name, rest, ok) \<Rightarrow>
      case postgresCString rest of (value, _, whole) \<Rightarrow>
        if \<not> ok \<or> \<not> whole then conn
        else if name = ''server_version'' then conn\<lparr>pc_serverVersion := postgresName value\<rparr>
        else if name = ''standard_conforming_strings'' then
          conn\<lparr>pc_strings := (if value = ''off'' then StringsOff else StringsOn)\<rparr>
        else conn)"

definition copy_batch :: "bool \<Rightarrow> postgresConn \<Rightarrow> bool" where
  "copy_batch waiting conn \<longleftrightarrow>
     waiting \<and> \<not> un_silent (hd (pc_queue conn)) \<and> pg_command (un_info (hd (pc_queue conn))) = postgresCommandExecute"

definition postgres_backend :: "postgresCall postgres_deliver" where
  "postgres_backend m untyped c =
     (let waiting = (pc_queue (pl_conn c) \<noteq> [] \<and> pc_skip (pl_conn c) = 0);
          c1 = (if waiting then on_head (add_response (5 + pm_length m)) c else c);
          typ = pm_typ m
      in (True, untyped,
          (if typ = CHR ''Z'' then back_ready m waiting c1
           else if typ = CHR ''C'' then
             (if waiting then on_head (\<lambda>u. u\<lparr>un_tag := postgresName (fst (postgresCString (pm_body m)))\<rparr>) c1 else c1)
           else if typ = CHR ''D'' then (if waiting then on_head (\<lambda>u. u\<lparr>un_rows := un_rows u + 1\<rparr>) c1 else c1)
           else if typ = CHR ''T'' then (if waiting then on_head (\<lambda>u. u\<lparr>un_rowsSeen := True\<rparr>) c1 else c1)
           else if typ = CHR ''G'' then on_conn (\<lambda>conn. conn\<lparr>pc_copyIn := copy_batch waiting conn\<rparr>) c1
           else if typ = CHR ''E'' then back_error m waiting c1
           else if typ = CHR ''S'' then on_conn (back_parameter m) c1
           else c1)))"

subsection \<open>Records\<close>

text \<open>Feeding a record to the request or the response stream of the live connection.\<close>

definition feed_request :: "bytes \<Rightarrow> nat \<Rightarrow> postgresCall \<Rightarrow> postgresCall" where
  "feed_request data n c =
     (case postgres_feed postgres_frontend True data n (rec_bootTimeNS (pl_record c)) (pc_request (pl_conn c)) c of
        (ok, st, c1) \<Rightarrow>
          let c2 = on_conn (pc_request_update (\<lambda>_. st)) c1 in if ok then c2 else postgres_lose True c2)"

definition feed_response :: "u64 \<Rightarrow> bytes \<Rightarrow> nat \<Rightarrow> postgresCall \<Rightarrow> postgresCall" where
  "feed_response seen data n c =
     (case postgres_feed postgres_backend False data n (rec_bootTimeNS (pl_record c)) (pc_response (pl_conn c)) c of
        (ok, st, c1) \<Rightarrow>
          let c2 = on_conn (pc_response_update (\<lambda>_. st)) c1 in
          if ok then c2 else loseResponse seen (n - ps_lostAt st) (ps_garbage st) c2)"

definition postgres_request :: "postgresCall \<Rightarrow> postgresCall" where
  "postgres_request c =
     (let first = (pc_requestRecords (pl_conn c) = 0);
          c1 = on_conn (\<lambda>conn. conn\<lparr>pc_requestRecords := pc_requestRecords conn + 1\<rparr>) c;
          conn = pl_conn c1;
          data = rec_payload (pl_record c);
          n = max (rec_size (pl_record c)) (length data)
      in if pc_encrypted conn \<or> pc_closed conn then c1
         else if ps_synced (pc_request conn) then feed_request data n c1
         else if first \<and> 2 \<le> length data \<and> data ! 0 = CHR 0x16 \<and> data ! 1 = CHR 0x03 then
           postgres_encrypt (rec_bootTimeNS (pl_record c)) n ''ssl'' c1
         else if first \<and> postgresUntypedStart data n then
           feed_request data n (on_conn (\<lambda>conn.
             conn\<lparr>pc_request := pstream0\<lparr>ps_synced := True, ps_untyped := True\<rparr>,
                  pc_response := (if pc_responseRecords conn = 0 then pstream0\<lparr>ps_synced := True\<rparr> else pc_response conn)\<rparr>) c1)
         else if postgresCleanStart data n True then
           feed_request data n (on_conn (pc_request_update (\<lambda>_. pstream0\<lparr>ps_synced := True\<rparr>)) c1)
         else c1)"

text \<open>
  The part of \<open>response\<close> behind the answer to an SSLRequest: a stream that is not followed looks for
  a place to start again, or for the end of the answer it lost.
\<close>

definition response_stream :: "u64 \<Rightarrow> bytes \<Rightarrow> nat \<Rightarrow> postgresCall \<Rightarrow> postgresCall" where
  "response_stream seen data n c =
     (let conn = pl_conn c;
          closing = (if pc_lost conn \<and> length data = n then closeAtEnd (rec_bootTimeNS (pl_record c)) data n c else None)
      in if ps_synced (pc_response conn) then feed_response seen data n c
         else if pc_resyncNext conn then
           feed_response seen data n (postgres_resync seen (on_conn (pc_resyncNext_update (\<lambda>_. False)) c))
         else if closing \<noteq> None then the closing
         else if n \<noteq> 0 \<and> postgresCleanStart data n False then
           (if keepLost conn then
              feed_response seen data n (on_conn (\<lambda>conn. conn\<lparr>pc_response := pstream0\<lparr>ps_synced := True\<rparr>, pc_lost := False\<rparr>) c)
            else feed_response seen data n (postgres_resync seen c))
         else countLost n c)"

definition response_answer :: "u64 \<Rightarrow> bytes \<Rightarrow> nat \<Rightarrow> postgresCall \<Rightarrow> postgresCall" where
  "response_answer seen data n c =
     (let kind = pc_answer (pl_conn c); c1 = on_conn (pc_answer_update (\<lambda>_. CHR 0x00)) c in
      if kind = CHR 0x00 then response_stream seen data n c
      else if data = [] then postgres_lose False c1
      else if hd data = CHR ''S'' \<or> hd data = CHR ''G'' then
        postgres_encrypt (rec_bootTimeNS (pl_record c)) n (if kind = CHR ''G'' then ''gssapi'' else ''ssl'') c1
      else if hd data = CHR ''N'' then response_stream seen (tl data) (n - 1) c1
      else response_stream seen data n c1)"

text \<open>The record of \<open>response\<close> before its bytes are read: its number and whether its end was seen.\<close>

definition response_record :: "bytes \<Rightarrow> nat \<Rightarrow> postgresConn \<Rightarrow> postgresConn" where
  "response_record data n conn =
     conn\<lparr>pc_blind := pc_blind conn \<or> pc_tailWant conn \<noteq> 0, pc_tailWant := (if length data < n then n else 0)\<rparr>"

definition postgres_response :: "postgresCall \<Rightarrow> postgresCall" where
  "postgres_response c =
     (let seen = pc_responseRecords (pl_conn c);
          c1 = on_conn (\<lambda>conn. conn\<lparr>pc_responseRecords := pc_responseRecords conn + 1\<rparr>) c;
          data = rec_payload (pl_record c);
          n = max (rec_size (pl_record c)) (length data)
      in if pc_encrypted (pl_conn c1) \<or> pc_closed (pl_conn c1) then c1
         else response_answer seen data n (on_conn (response_record data n) c1))"

definition record_side :: "mysqlRecord \<Rightarrow> bytes" where
  "record_side r = (if rec_server r then traceServerSide else traceClientSide)"

definition side_skipped :: "postgresTracker \<Rightarrow> mysqlRecord \<Rightarrow> bool" where
  "side_skipped tracker r \<longleftrightarrow> pt_side tracker \<noteq> [] \<and> record_side r \<noteq> pt_side tracker"

text \<open>Working on one connection: the call starts with it and writes it back.\<close>

definition open_call :: "postgresTracker \<Rightarrow> mysqlRecord \<Rightarrow> u64 \<Rightarrow> postgresConn \<Rightarrow> postgresCall" where
  "open_call tracker r offset conn =
     \<lparr>pl_tracker = tracker, pl_conn = conn, pl_record = r, pl_side = record_side r, pl_offset = offset, pl_out = []\<rparr>"

definition close_call :: "postgresCall \<Rightarrow> captureEvent list \<times> postgresTracker" where
  "close_call c =
     (pl_out c, (pl_tracker c)\<lparr>pt_conns := map_put (rec_socket (pl_record c)) (pl_conn c) (pt_conns (pl_tracker c))\<rparr>)"

definition connection :: "postgresTracker \<Rightarrow> u64 \<Rightarrow> postgresTracker \<times> postgresConn" where
  "connection tracker socket =
     (case map_get (pt_conns tracker) socket of
        Some conn \<Rightarrow> (tracker, conn)
      | None \<Rightarrow>
          (let t = (if postgresSocketLimit \<le> map_len (pt_conns tracker) then
                      tracker\<lparr>pt_conns := [], pt_pending := 0, pt_statements := 0, pt_portals := 0\<rparr>
                    else tracker)
           in (t\<lparr>pt_conns := map_put socket pconn0 (pt_conns t)\<rparr>, pconn0)))"

definition postgres_events :: "postgresTracker \<Rightarrow> mysqlRecord \<Rightarrow> u64 \<Rightarrow> captureEvent list \<times> postgresTracker" where
  "postgres_events tracker r offset =
     (if side_skipped tracker r then ([], tracker)
      else
        (case connection tracker (rec_socket r) of (t, conn) \<Rightarrow>
           let c = open_call t r offset conn in
           close_call (if rec_server r \<noteq> rec_sent r then postgres_request c else postgres_response c)))"

definition postgres_forgetSocket :: "postgresTracker \<Rightarrow> u64 \<Rightarrow> postgresTracker" where
  "postgres_forgetSocket tracker socket =
     (case map_get (pt_conns tracker) socket of
        None \<Rightarrow> tracker
      | Some conn \<Rightarrow>
          tracker\<lparr>pt_pending := count_down (pt_pending tracker) (length (pc_queue conn)),
                  pt_statements := count_down (pt_statements tracker) (map_len (pc_statements conn)),
                  pt_portals := count_down (pt_portals tracker) (map_len (pc_portals conn)),
                  pt_conns := map_del socket (pt_conns tracker)\<rparr>)"

text \<open>\<open>tailEvents\<close>: \<open>tail_record\<close> is its work on the connection once the record fits the one before.\<close>

definition tail_record :: "postgresCall \<Rightarrow> postgresCall" where
  "tail_record c =
     (let data = rec_payload (pl_record c); tm = rec_bootTimeNS (pl_record c) in
      case closeAtEnd tm data 0 c of
        Some c1 \<Rightarrow> c1
      | None \<Rightarrow>
          if postgresEndClosed data \<noteq> None \<and> \<not> lostHead (pl_conn c) then
            on_conn (pc_resyncNext_update (\<lambda>_. True)) (postgres_ready (fst (the (postgresEndClosed data))) c)
          else if postgresEndsReady data \<noteq> None \<and> \<not> lostHead (pl_conn c) then
            on_conn (pc_resyncNext_update (\<lambda>_. True)) c
          else c)"

definition tailEvents :: "postgresTracker \<Rightarrow> mysqlRecord \<Rightarrow> u64 \<Rightarrow> captureEvent list \<times> postgresTracker" where
  "tailEvents tracker r offset =
     (case map_get (pt_conns tracker) (rec_socket r) of
        None \<Rightarrow> ([], tracker)
      | Some conn \<Rightarrow>
          if side_skipped tracker r \<or> rec_server r \<noteq> rec_sent r \<or> pc_encrypted conn \<or> pc_closed conn then ([], tracker)
          else if pc_tailWant conn = 0 \<or> rec_size r \<noteq> pc_tailWant conn then ([], tracker)
          else
            (let c = open_call tracker r offset (conn\<lparr>pc_tailWant := 0\<rparr>) in
             if ps_synced (pc_response conn) \<or> pc_resyncNext conn then close_call c
             else close_call (tail_record c)))"

end
