(* ===== verification/PostgresSafety.thy ===== *)
theory PostgresSafety
  imports PostgresTracker AnswerOrder
begin

text \<open>
  What holds of \<open>postgresTracker\<close> whatever is on the wire: its three counters are exact and
  bounded, every text that leaves it is escaped and, without \<open>--show-secrets\<close>, every SQL is masked
  and no error detail is shown, and the answers of a connection belong to its requests, in their
  order. A run is any sequence of records, of record ends and of sockets that are closed.
\<close>

subsection \<open>The counters\<close>

datatype postgresCounter = PendingUnits | KnownStatements | OpenPortals

primrec counter_weight :: "postgresCounter \<Rightarrow> postgresConn \<Rightarrow> nat" where
  "counter_weight PendingUnits conn = length (pc_queue conn)"
| "counter_weight KnownStatements conn = map_len (pc_statements conn)"
| "counter_weight OpenPortals conn = map_len (pc_portals conn)"

primrec counter_value :: "postgresCounter \<Rightarrow> postgresTracker \<Rightarrow> int" where
  "counter_value PendingUnits t = pt_pending t"
| "counter_value KnownStatements t = pt_statements t"
| "counter_value OpenPortals t = pt_portals t"

primrec counter_limit :: "postgresCounter \<Rightarrow> int" where
  "counter_limit PendingUnits = postgresPendingLimit"
| "counter_limit KnownStatements = postgresStatementLimit"
| "counter_limit OpenPortals = postgresPortalLimit"

interpretation pgc: counted_map map_get map_put map_del map_len map_each map_total "[]" map_ok "counter_weight i" for i
  by unfold_locales

lemma counter_limit_pos: "1 \<le> counter_limit i"
  by (cases i) (simp_all add: postgresPendingLimit_def postgresStatementLimit_def postgresPortalLimit_def)

lemma all_counters: "(\<forall>i. P i) \<longleftrightarrow> P PendingUnits \<and> P KnownStatements \<and> P OpenPortals"
  by (metis postgresCounter.exhaust)

subsection \<open>Texts\<close>

definition postgres_text_ok :: "bool \<Rightarrow> bytes \<Rightarrow> bool" where
  "postgres_text_ok shown sql \<longleftrightarrow>
     safe_text sql \<and> (sql = [] \<or> (\<exists>raw trunc strings. sql = fst (postgres_sqlText shown raw trunc strings)))"

definition postgres_info_safe :: "bool \<Rightarrow> tracePostgresEvent \<Rightarrow> bool" where
  "postgres_info_safe shown info \<longleftrightarrow>
     list_all safe_text [pg_command info, pg_statement info, pg_user info, pg_database info, pg_serverVersion info,
       pg_encryption info, pg_tag info, pg_severity info, pg_sqlState info, pg_message info, pg_detail info] \<and>
     postgres_text_ok shown (pg_sql info) \<and> (shown \<or> pg_detail info = [])"

definition postgres_unit_ok :: "bool \<Rightarrow> postgresUnit \<Rightarrow> bool" where
  "postgres_unit_ok shown u \<longleftrightarrow>
     postgres_info_safe shown (un_info u) \<and>
     list_all safe_text [un_tag u, un_severity u, un_sqlState u, un_message u, un_detail u, un_prepareName u] \<and>
     (shown \<or> un_detail u = []) \<and> postgres_text_ok shown (un_prepareSQL u)"

definition postgres_conn_ok :: "bool \<Rightarrow> postgresConn \<Rightarrow> bool" where
  "postgres_conn_ok shown conn \<longleftrightarrow>
     map_ok (pc_statements conn) \<and> map_ok (pc_portals conn) \<and> safe_text (pc_serverVersion conn) \<and>
     list_all (postgres_unit_ok shown) (pc_queue conn) \<and> (\<forall>u. pc_batch conn = Some u \<longrightarrow> postgres_unit_ok shown u) \<and>
     (\<forall>n st. map_get (pc_statements conn) n = Some st \<longrightarrow> postgres_text_ok shown (pst_sql st)) \<and>
     (\<forall>n name. map_get (pc_portals conn) n = Some name \<longrightarrow> safe_text name)"

definition postgres_event_ok :: "bool \<Rightarrow> u64 \<Rightarrow> captureEvent \<Rightarrow> bool" where
  "postgres_event_ok shown socket e \<longleftrightarrow>
     ev_socketID e = socket \<and> ev_protocol e = ''postgres'' \<and>
     (\<exists>info. ev_postgres e = Some info \<and> postgres_info_safe shown info) \<and>
     (if postgresResponseEvent (ev_event e) then ev_answered e = 1
      else ev_answered e = 0 \<and> ev_event e \<in> {postgresEventConnect, postgresEventTLS, postgresEventQuery})"

lemma postgres_text_ok_Nil [simp]: "postgres_text_ok shown []"
  by (simp add: postgres_text_ok_def safe_text.simps)

lemma postgres_text_ok_sql: "postgres_text_ok shown (fst (postgres_sqlText shown raw trunc strings))"
  by (auto simp: postgres_text_ok_def postgres_sqlText_def Let_def)

lemma safe_text_Nil [simp]: "safe_text []"
  by (simp add: safe_text.simps)

lemma postgresName_safe [simp]: "safe_text (postgresName raw)"
  by (simp add: postgresName_def)

lemma postgres_words_safe [simp]:
  "safe_text postgresCommandConnect" "safe_text postgresCommandQuery" "safe_text postgresCommandExecute"
  "safe_text postgresCommandPrepare" "safe_text postgresCommandFunction" "safe_text ''ssl''" "safe_text ''gssapi''"
  "safe_text ''encrypted traffic is not readable''"
  by (simp_all add: postgres_names safe_text.simps traceTextByteKept_def)

lemma postgres_event0_safe [simp]: "postgres_info_safe shown postgres_event0"
  by (simp add: postgres_info_safe_def postgres_event0_def)

lemma unit_at_ok [simp]: "postgres_unit_ok shown (unit_at tm)"
  by (simp add: postgres_unit_ok_def unit_at_def)

definition fault_safe :: "bool \<Rightarrow> postgresFault \<Rightarrow> bool" where
  "fault_safe shown f \<longleftrightarrow>
     safe_text (ft_localized f) \<and> safe_text (ft_severity f) \<and> safe_text (ft_state f) \<and> safe_text (ft_text f) \<and>
     safe_text (ft_detail f) \<and> (shown \<or> ft_detail f = [])"

lemma error_field_safe: "fault_safe shown f \<Longrightarrow> fault_safe shown (error_field shown kind value f)"
  by (simp add: fault_safe_def error_field_def)

lemma error_scan_safe: "fault_safe shown f \<Longrightarrow> fault_safe shown (error_scan shown body f)"
  by (induction shown body f rule: error_scan.induct) (auto simp: error_field_safe split: prod.split)

lemma errorFields_safe: "fault_safe shown (errorFields shown body)"
proof -
  have "fault_safe shown fault0" by (simp add: fault_safe_def fault0_def)
  from error_scan_safe [OF this, of body] show ?thesis by (simp add: errorFields_def Let_def fault_safe_def)
qed

subsection \<open>Requests and answers\<close>

type_synonym postgres_asked = "u64 \<times> tracePostgresEvent"

definition unit_asked :: "postgresUnit \<Rightarrow> postgres_asked" where
  "unit_asked u = (un_at u, un_info u)"

definition units_asked :: "postgresUnit list \<Rightarrow> postgres_asked list" where
  "units_asked us = map unit_asked (filter (\<lambda>u. \<not> un_silent u) us)"

definition postgres_asked_by :: "captureEvent \<Rightarrow> postgres_asked option" where
  "postgres_asked_by e =
     (if ev_event e = postgresEventQuery \<or> ev_event e = postgresEventConnect
      then map_option (\<lambda>info. (ev_bootTimeNS e, info)) (ev_postgres e) else None)"

text \<open>The fields of an answer that repeat its request.\<close>

definition request_part :: "tracePostgresEvent \<Rightarrow> bytes \<times> bytes \<times> bool \<times> bytes \<times> nat \<times> bytes \<times> bytes" where
  "request_part info = (pg_command info, pg_sql info, pg_sqlTruncated info, pg_statement info, pg_executes info,
     pg_user info, pg_database info)"

definition postgres_answers :: "postgres_asked \<Rightarrow> captureEvent \<Rightarrow> bool" where
  "postgres_answers q e \<longleftrightarrow>
     (\<exists>info. ev_postgres e = Some info \<and> request_part info = request_part (snd q)) \<and>
     ev_latencyMS e = Some (traceSpan (fst q) (ev_bootTimeNS e)) \<and> ev_answered e = 1"

abbreviation postgres_order :: "postgres_asked list \<Rightarrow> captureEvent list \<Rightarrow> postgres_asked list \<Rightarrow> bool" where
  "postgres_order \<equiv> answered_in_order postgres_asked_by (\<lambda>e. postgresResponseEvent (ev_event e)) postgres_answers"

lemma postgres_event_names [simp]:
  "postgresResponseEvent postgresEventResult" "postgresResponseEvent postgresEventError"
  "\<not> postgresResponseEvent postgresEventConnect" "\<not> postgresResponseEvent postgresEventTLS"
  "\<not> postgresResponseEvent postgresEventQuery" "postgresEventTLS \<noteq> postgresEventQuery" "postgresEventTLS \<noteq> postgresEventConnect"
  by (simp_all add: postgresResponseEvent_def postgres_names)

interpretation pg_order: answer_order postgres_asked_by "\<lambda>e. postgresResponseEvent (ev_event e)" postgres_answers
  by unfold_locales (auto simp: postgres_asked_by_def)

subsection \<open>The invariant of a call\<close>

definition stored_asked :: "(u64, postgresConn) gomap \<Rightarrow> u64 \<Rightarrow> postgres_asked list" where
  "stored_asked conns k = (case map_get conns k of None \<Rightarrow> [] | Some conn \<Rightarrow> units_asked (pc_queue conn))"

definition postgres_conns_ok :: "bool \<Rightarrow> (u64, postgresConn) gomap \<Rightarrow> bool" where
  "postgres_conns_ok shown conns \<longleftrightarrow>
     map_ok conns \<and> map_len conns \<le> postgresSocketLimit \<and> (\<forall>k conn. map_get conns k = Some conn \<longrightarrow> postgres_conn_ok shown conn)"

text \<open>
  The call works on socket \<open>k\<close> in a tracker that was \<open>t\<close>; \<open>before\<close> waited on the socket at the start.
\<close>

definition postgres_call_ok :: "postgresTracker \<Rightarrow> u64 \<Rightarrow> postgres_asked list \<Rightarrow> postgresCall \<Rightarrow> bool" where
  "postgres_call_ok t k before c \<longleftrightarrow>
     (let tk = pl_tracker c; shown = pt_showSecrets t in
      postgres_conns_ok shown (pt_conns tk) \<and> map_get (pt_conns tk) k \<noteq> None \<and>
      pt_showSecrets tk = shown \<and> pt_side tk = pt_side t \<and> rec_socket (pl_record c) = k \<and>
      (\<forall>i. pgc.counted i (counter_value i tk) k (pl_conn c) (pt_conns tk) \<and> counter_value i tk \<le> counter_limit i) \<and>
      (\<forall>j. subseq (stored_asked (pt_conns tk) j) (stored_asked (pt_conns t) j)) \<and>
      postgres_conn_ok shown (pl_conn c) \<and> list_all (postgres_event_ok shown k) (pl_out c) \<and>
      postgres_order before (pl_out c) (units_asked (pc_queue (pl_conn c))))"

text \<open>A change of the connection and of the counters by the same amount.\<close>

lemma postgres_call_move:
  assumes ok: "postgres_call_ok t k before c"
    and conn: "postgres_conn_ok (pt_showSecrets t) conn"
    and tk: "pt_conns tk = pt_conns (pl_tracker c)" "pt_showSecrets tk = pt_showSecrets (pl_tracker c)" "pt_side tk = pt_side (pl_tracker c)"
    and moved: "\<And>i. counter_value i tk = counter_value i (pl_tracker c) + (int (counter_weight i conn) - int (counter_weight i (pl_conn c)))"
    and limit: "\<And>i. counter_value i tk \<le> counter_limit i"
    and order: "postgres_order before out (units_asked (pc_queue conn))" and out: "list_all (postgres_event_ok (pt_showSecrets t) k) out"
  shows "postgres_call_ok t k before (c\<lparr>pl_tracker := tk, pl_conn := conn, pl_out := out\<rparr>)"
proof -
  have m: "map_ok (pt_conns (pl_tracker c))" using ok by (simp add: postgres_call_ok_def postgres_conns_ok_def Let_def)
  have "pgc.counted i (counter_value i tk) k conn (pt_conns (pl_tracker c))" for i
    unfolding moved by (rule pgc.counted_swap [OF _ m refl]) (use ok in \<open>simp add: postgres_call_ok_def Let_def\<close>)
  then show ?thesis using ok conn tk limit order out by (simp add: postgres_call_ok_def Let_def)
qed

lemma call_fields:
  assumes "postgres_call_ok t k before c"
  shows "postgres_conn_ok (pt_showSecrets t) (pl_conn c)" "pt_showSecrets (pl_tracker c) = pt_showSecrets t"
    "rec_socket (pl_record c) = k" "list_all (postgres_event_ok (pt_showSecrets t) k) (pl_out c)"
    "postgres_order before (pl_out c) (units_asked (pc_queue (pl_conn c)))" "map_ok (pt_conns (pl_tracker c))"
    "counter_value i (pl_tracker c) \<le> counter_limit i" "int (counter_weight i (pl_conn c)) \<le> counter_value i (pl_tracker c)"
proof -
  show "postgres_conn_ok (pt_showSecrets t) (pl_conn c)" "pt_showSecrets (pl_tracker c) = pt_showSecrets t"
    "rec_socket (pl_record c) = k" "list_all (postgres_event_ok (pt_showSecrets t) k) (pl_out c)"
    "postgres_order before (pl_out c) (units_asked (pc_queue (pl_conn c)))" "counter_value i (pl_tracker c) \<le> counter_limit i"
    using assms by (simp_all add: postgres_call_ok_def Let_def)
  show m: "map_ok (pt_conns (pl_tracker c))" using assms by (simp add: postgres_call_ok_def postgres_conns_ok_def Let_def)
  show "int (counter_weight i (pl_conn c)) \<le> counter_value i (pl_tracker c)"
    by (rule pgc.counted_ge [where k = k, OF _ m]) (use assms in \<open>simp add: postgres_call_ok_def Let_def\<close>)
qed

lemma count_down_exact: "int n \<le> m \<Longrightarrow> count_down m n = m - int n"
  by (simp add: count_down_def)

lemma counter_weight_cong:
  "length (pc_queue a) = length (pc_queue b) \<Longrightarrow> pc_statements a = pc_statements b \<Longrightarrow> pc_portals a = pc_portals b \<Longrightarrow>
     counter_weight i a = counter_weight i b"
  by (cases i) simp_all

text \<open>A change of the connection that keeps what is counted.\<close>

lemma postgres_call_conn:
  assumes ok: "postgres_call_ok t k before c" and conn: "postgres_conn_ok (pt_showSecrets t) (f (pl_conn c))"
    and order: "units_asked (pc_queue (f (pl_conn c))) = units_asked (pc_queue (pl_conn c))"
    and same: "length (pc_queue (f (pl_conn c))) = length (pc_queue (pl_conn c))" "pc_statements (f (pl_conn c)) = pc_statements (pl_conn c)"
      "pc_portals (f (pl_conn c)) = pc_portals (pl_conn c)"
  shows "postgres_call_ok t k before (on_conn f c)"
proof -
  have "postgres_call_ok t k before (c\<lparr>pl_tracker := pl_tracker c, pl_conn := f (pl_conn c), pl_out := pl_out c\<rparr>)"
    by (rule postgres_call_move [OF ok conn]) (use call_fields [OF ok] order counter_weight_cong [OF same] in simp_all)
  then show ?thesis by (simp add: on_conn_def)
qed

text \<open>The fields of a connection that the invariant looks at.\<close>

definition conn_core :: "postgresConn \<Rightarrow> postgresUnit list \<times> (bytes, postgresStatement) gomap \<times> (bytes, bytes) gomap \<times> postgresUnit option \<times> bytes" where
  "conn_core conn = (pc_queue conn, pc_statements conn, pc_portals conn, pc_batch conn, pc_serverVersion conn)"

lemma call_core:
  assumes ok: "postgres_call_ok t k before c" and same: "conn_core (f (pl_conn c)) = conn_core (pl_conn c)"
  shows "postgres_call_ok t k before (on_conn f c)"
  by (rule postgres_call_conn [OF ok]) (use call_fields(1) [OF ok] same in \<open>simp_all add: postgres_conn_ok_def conn_core_def\<close>)

lemma call_batch_none: "postgres_call_ok t k before c \<Longrightarrow> postgres_call_ok t k before (on_conn (pc_batch_update (\<lambda>_. None)) c)"
  by (rule postgres_call_conn) (auto dest: call_fields(1) simp: postgres_conn_ok_def)

lemma call_batch:
  assumes ok: "postgres_call_ok t k before c" and f: "\<And>u. postgres_unit_ok (pt_showSecrets t) u \<Longrightarrow> postgres_unit_ok (pt_showSecrets t) (f u)"
  shows "postgres_call_ok t k before (on_batch tm f c)"
proof -
  have "postgres_unit_ok (pt_showSecrets t) (openBatch tm (pl_conn c))"
    using call_fields(1) [OF ok] by (auto simp: openBatch_def postgres_conn_ok_def split: option.split)
  from f [OF this] show ?thesis
    unfolding on_batch_def by (intro postgres_call_conn [OF ok]) (use call_fields(1) [OF ok] in \<open>simp_all add: postgres_conn_ok_def\<close>)
qed

lemma call_head:
  assumes ok: "postgres_call_ok t k before c"
    and f: "\<And>u. postgres_unit_ok (pt_showSecrets t) u \<Longrightarrow> postgres_unit_ok (pt_showSecrets t) (f u)"
      "\<And>u. un_silent (f u) = un_silent u" "\<And>u. un_at (f u) = un_at u" "\<And>u. un_info (f u) = un_info u"
  shows "postgres_call_ok t k before (on_head f c)"
proof -
  let ?g = "\<lambda>conn. conn\<lparr>pc_queue := (case pc_queue conn of [] \<Rightarrow> [] | u # us \<Rightarrow> f u # us)\<rparr>"
  have q: "list_all (postgres_unit_ok (pt_showSecrets t)) (pc_queue (pl_conn c))"
    using call_fields(1) [OF ok] by (simp add: postgres_conn_ok_def)
  show ?thesis
    unfolding on_head_def
  proof (rule postgres_call_conn [OF ok])
    show "postgres_conn_ok (pt_showSecrets t) (?g (pl_conn c))"
      using call_fields(1) [OF ok] q f(1) by (auto simp: postgres_conn_ok_def split: list.split)
    show "units_asked (pc_queue (?g (pl_conn c))) = units_asked (pc_queue (pl_conn c))"
      using f by (simp add: units_asked_def unit_asked_def split: list.split)
    show "length (pc_queue (?g (pl_conn c))) = length (pc_queue (pl_conn c))" by (simp split: list.split)
  qed simp_all
qed

text \<open>An event that is neither a request nor an answer.\<close>

lemma call_emit:
  assumes ok: "postgres_call_ok t k before c" and e: "postgres_event_ok (pt_showSecrets t) k e" "\<not> postgresResponseEvent (ev_event e)"
  shows "postgres_call_ok t k before (postgres_emit e c)"
  using ok e pg_order.other [of before "pl_out c" _ e] by (simp add: postgres_call_ok_def postgres_emit_def Let_def)

text \<open>Fewer units wait: the counter goes down by as many.\<close>

lemma call_fewer:
  assumes ok: "postgres_call_ok t k before c"
    and conn: "postgres_conn_ok (pt_showSecrets t) conn" and same: "pc_statements conn = pc_statements (pl_conn c)" "pc_portals conn = pc_portals (pl_conn c)"
    and fewer: "length (pc_queue conn) + n = length (pc_queue (pl_conn c))"
    and order: "postgres_order before out (units_asked (pc_queue conn))" and out: "list_all (postgres_event_ok (pt_showSecrets t) k) out"
  shows "postgres_call_ok t k before
    (c\<lparr>pl_tracker := (pl_tracker c)\<lparr>pt_pending := count_down (pt_pending (pl_tracker c)) n\<rparr>, pl_conn := conn, pl_out := out\<rparr>)"
proof (rule postgres_call_move [OF ok conn])
  have cd: "count_down (pt_pending (pl_tracker c)) n = pt_pending (pl_tracker c) - int n"
    using call_fields(8) [OF ok, of PendingUnits] fewer by (intro count_down_exact) simp
  fix i
  let ?tk = "(pl_tracker c)\<lparr>pt_pending := count_down (pt_pending (pl_tracker c)) n\<rparr>"
  show "counter_value i ?tk = counter_value i (pl_tracker c) + (int (counter_weight i conn) - int (counter_weight i (pl_conn c)))"
    using fewer same unfolding cd by (cases i) simp_all
  show "counter_value i ?tk \<le> counter_limit i"
    using call_fields(7) [OF ok, of i] unfolding cd by (cases i) simp_all
qed (use order out in simp_all)

lemma dropAll_ok:
  assumes ok: "postgres_call_ok t k before c"
  shows "postgres_call_ok t k before (dropAll c)"
proof -
  let ?conn = "(pl_conn c)\<lparr>pc_queue := [], pc_skip := 0, pc_lost := False, pc_blind := False\<rparr>"
  have "postgres_order before (pl_out c) (units_asked (pc_queue ?conn))"
    by (rule pg_order.drop [OF call_fields(5) [OF ok]]) (simp add: units_asked_def)
  then have "postgres_call_ok t k before (c\<lparr>pl_tracker := (pl_tracker c)\<lparr>pt_pending := count_down (pt_pending (pl_tracker c)) (length (pc_queue (pl_conn c)))\<rparr>,
      pl_conn := ?conn, pl_out := pl_out c\<rparr>)"
    by (intro call_fewer [OF ok]) (use call_fields [OF ok] in \<open>simp_all add: postgres_conn_ok_def\<close>)
  then show ?thesis by (simp add: dropAll_def Let_def)
qed

lemma units_asked_filter: "subseq (units_asked (filter P us)) (units_asked us)"
proof -
  have "filter (\<lambda>u. \<not> un_silent u) (filter P us) = filter P (filter (\<lambda>u. \<not> un_silent u) us)"
    by (induction us) auto
  then show ?thesis unfolding units_asked_def by (metis subseq_filter_left subseq_map)
qed

lemma dropBefore_ok:
  assumes ok: "postgres_call_ok t k before c"
  shows "postgres_call_ok t k before (dropBefore seen c)"
proof -
  let ?q = "pc_queue (pl_conn c)"
  let ?kept = "filter (\<lambda>u. un_mark u = seen) ?q"
  let ?conn = "(pl_conn c)\<lparr>pc_queue := ?kept\<rparr>"
  have "postgres_order before (pl_out c) (units_asked ?kept)"
    by (rule pg_order.drop [OF call_fields(5) [OF ok] units_asked_filter])
  moreover have "length ?kept \<le> length ?q" by simp
  ultimately have "postgres_call_ok t k before (c\<lparr>pl_tracker := (pl_tracker c)\<lparr>pt_pending := count_down (pt_pending (pl_tracker c)) (length ?q - length ?kept)\<rparr>,
      pl_conn := ?conn, pl_out := pl_out c\<rparr>)"
    by (intro call_fewer [OF ok]) (use call_fields [OF ok] in \<open>auto simp: postgres_conn_ok_def list_all_iff\<close>)
  then show ?thesis by (simp add: dropBefore_def Let_def)
qed

lemma pg_resync_ok: "postgres_call_ok t k before c \<Longrightarrow> postgres_call_ok t k before (postgres_resync seen c)"
  unfolding postgres_resync_def by (intro call_core dropBefore_ok) (simp_all add: conn_core_def)

lemma lose_ok:
  assumes "postgres_call_ok t k before c"
  shows "postgres_call_ok t k before (postgres_lose request c)"
proof (cases request)
  case True
  have "postgres_call_ok t k before (on_conn (pc_request_update (\<lambda>_. pstream0)) (on_conn (pc_batch_update (\<lambda>_. None)) (dropAll c)))"
    by (intro call_core call_batch_none dropAll_ok assms) (simp add: conn_core_def)
  then show ?thesis using True by (simp add: postgres_lose_def on_conn_def)
next
  case False
  then show ?thesis unfolding postgres_lose_def by (intro call_core dropAll_ok assms) (simp add: conn_core_def)
qed

lemma postgres_event_fields [simp]:
  "ev_event (postgres_event c name tm n info) = name" "ev_postgres (postgres_event c name tm n info) = Some info"
  "ev_bootTimeNS (postgres_event c name tm n info) = tm" "ev_answered (postgres_event c name tm n info) = 0"
  "ev_socketID (postgres_event c name tm n info) = rec_socket (pl_record c)" "ev_protocol (postgres_event c name tm n info) = ''postgres''"
  by (simp_all add: postgres_event_def base_event_def)

lemma encrypt_ok:
  assumes "postgres_call_ok t k before c" and "safe_text kind"
  shows "postgres_call_ok t k before (postgres_encrypt tm n kind c)"
proof -
  let ?c = "on_conn (\<lambda>conn. conn\<lparr>pc_batch := None, pc_encrypted := True\<rparr>) (dropAll c)"
  have eq: "?c = on_conn (pc_encrypted_update (\<lambda>_. True)) (on_conn (pc_batch_update (\<lambda>_. None)) (dropAll c))"
    by (simp add: on_conn_def)
  have ok: "postgres_call_ok t k before ?c"
    unfolding eq by (intro call_core call_batch_none dropAll_ok assms) (simp add: conn_core_def)
  then show ?thesis
    unfolding postgres_encrypt_def Let_def
    by (rule call_emit) (use assms(2) call_fields(3) [OF ok] in \<open>simp_all add: postgres_event_ok_def postgres_info_safe_def postgres_event0_def\<close>)
qed

lemma add_response_ok: "postgres_call_ok t k before c \<Longrightarrow> postgres_call_ok t k before (on_head (add_response n) c)"
  by (rule call_head) (simp_all add: add_response_def postgres_unit_ok_def)

lemma countLost_ok: "postgres_call_ok t k before c \<Longrightarrow> postgres_call_ok t k before (countLost n c)"
  by (simp add: countLost_def add_response_ok)

lemma loseResponse_ok:
  assumes "postgres_call_ok t k before c"
  shows "postgres_call_ok t k before (loseResponse seen rest garbage c)"
proof -
  let ?c = "on_conn (pc_response_update (\<lambda>_. pstream0)) c"
  have 1: "postgres_call_ok t k before ?c" by (rule call_core [OF assms]) (simp add: conn_core_def)
  then have 2: "postgres_call_ok t k before (on_conn (\<lambda>conn. conn\<lparr>pc_lost := True, pc_lostMark := seen, pc_blind := garbage\<rparr>) ?c)"
    by (rule call_core) (simp add: conn_core_def)
  from call_head [OF this, of "\<lambda>u. add_response rest (u\<lparr>un_lost := True\<rparr>)"] 1 2 show ?thesis
    by (simp add: loseResponse_def Let_def add_response_def postgres_unit_ok_def)
qed

subsection \<open>Limits over all connections\<close>

text \<open>Emptying one part of every connection: its counter starts again at 0.\<close>

lemma call_empty:
  assumes ok: "postgres_call_ok t k before c"
    and g: "\<And>u. counter_weight j (g u) = 0" "\<And>i u. i \<noteq> j \<Longrightarrow> counter_weight i (g u) = counter_weight i u"
      "\<And>u. postgres_conn_ok (pt_showSecrets t) u \<Longrightarrow> postgres_conn_ok (pt_showSecrets t) (g u)"
      "\<And>u. subseq (units_asked (pc_queue (g u))) (units_asked (pc_queue u))"
    and tk: "pt_conns tk = map_each g (pt_conns (pl_tracker c))" "pt_showSecrets tk = pt_showSecrets (pl_tracker c)" "pt_side tk = pt_side (pl_tracker c)"
    and zeroed: "\<And>i. counter_value i tk = (if i = j then 0 else counter_value i (pl_tracker c))"
  shows "postgres_call_ok t k before (c\<lparr>pl_tracker := tk, pl_conn := g (pl_conn c)\<rparr>)"
proof -
  note f = call_fields [OF ok]
  have conns: "postgres_conns_ok (pt_showSecrets t) (pt_conns (pl_tracker c))" using ok by (simp add: postgres_call_ok_def Let_def)
  have "pgc.counted i (counter_value i tk) k (g (pl_conn c)) (map_each g (pt_conns (pl_tracker c)))" for i
  proof (cases "i = j")
    case True
    then show ?thesis using pgc.counted_emptied [OF f(6) g(1) g(1)] by (simp add: zeroed)
  next
    case False
    have "pgc.counted i (counter_value i (pl_tracker c)) k (pl_conn c) (pt_conns (pl_tracker c))"
      using ok by (simp add: postgres_call_ok_def Let_def)
    then have "pgc.counted i (counter_value i (pl_tracker c)) k (pl_conn c) (map_each g (pt_conns (pl_tracker c)))"
      by (rule pgc.counted_kept) (simp_all add: f(6) g(2) [OF False])
    then have "pgc.counted i (counter_value i (pl_tracker c)) k (g (pl_conn c)) (map_each g (pt_conns (pl_tracker c)))"
      by (rule pgc.counted_same) (simp_all add: f(6) gm.ok_each g(2) [OF False])
    then show ?thesis using False by (simp add: zeroed)
  qed
  moreover have "postgres_conns_ok (pt_showSecrets t) (map_each g (pt_conns (pl_tracker c)))"
    using conns g(3) by (auto simp: postgres_conns_ok_def gm.ok_each gm.len_each gm.get_each)
  moreover have "subseq (stored_asked (map_each g (pt_conns (pl_tracker c))) i) (stored_asked (pt_conns t) i)" for i
  proof -
    have "subseq (stored_asked (map_each g (pt_conns (pl_tracker c))) i) (stored_asked (pt_conns (pl_tracker c)) i)"
      using g(4) by (simp add: stored_asked_def gm.get_each split: option.split)
    then show ?thesis using ok by (auto simp: postgres_call_ok_def Let_def intro: subseq_order.order_trans)
  qed
  moreover have "postgres_order before (pl_out c) (units_asked (pc_queue (g (pl_conn c))))"
    by (rule pg_order.drop [OF f(5) g(4)])
  moreover have "counter_value i tk \<le> counter_limit i" for i using f(7) [of i] counter_limit_pos [of i] by (auto simp: zeroed)
  ultimately show ?thesis
    using ok tk g(3) [OF f(1)] by (simp add: postgres_call_ok_def Let_def gm.get_each)
qed

lemma make_room_ok:
  assumes ok: "postgres_call_ok t k before c"
  shows "postgres_call_ok t k before (make_room c)" "pt_pending (pl_tracker (make_room c)) < postgresPendingLimit"
proof -
  show "postgres_call_ok t k before (make_room c)"
  proof (cases "postgresPendingLimit \<le> pt_pending (pl_tracker c)")
    case True
    let ?tk = "(pl_tracker c)\<lparr>pt_conns := map_each drop_queue (pt_conns (pl_tracker c)), pt_pending := 0\<rparr>"
    have "postgres_call_ok t k before (c\<lparr>pl_tracker := ?tk, pl_conn := drop_queue (pl_conn c)\<rparr>)"
    proof (rule call_empty [OF ok, where j = PendingUnits])
      show "counter_weight i (drop_queue u) = counter_weight i u" if "i \<noteq> PendingUnits" for i u
        using that by (cases i) (simp_all add: drop_queue_def)
      show "counter_value i ?tk = (if i = PendingUnits then 0 else counter_value i (pl_tracker c))" for i by (cases i) simp_all
    qed (simp_all add: drop_queue_def postgres_conn_ok_def units_asked_def)
    then show ?thesis using True by (simp add: make_room_def Let_def)
  qed (simp add: make_room_def Let_def ok)
  show "pt_pending (pl_tracker (make_room c)) < postgresPendingLimit"
    by (simp add: make_room_def Let_def postgresPendingLimit_def)
qed

lemma units_asked_snoc: "units_asked (us @ [u]) = units_asked us @ (if un_silent u then [] else [unit_asked u])"
  by (simp add: units_asked_def)

lemma enqueue_ok:
  assumes ok: "postgres_call_ok t k before c" and u: "postgres_unit_ok (pt_showSecrets t) u"
    and name: "name = postgresEventQuery \<or> name = postgresEventConnect"
  shows "postgres_call_ok t k before (postgres_enqueue u name c)"
proof -
  define c1 where "c1 = make_room c"
  define u1 where "u1 = u\<lparr>un_mark := pc_responseRecords (pl_conn c1)\<rparr>"
  define conn where "conn = (pl_conn c1)\<lparr>pc_queue := pc_queue (pl_conn c1) @ [u1]\<rparr>"
  define tk where "tk = (pl_tracker c1)\<lparr>pt_pending := pt_pending (pl_tracker c1) + 1\<rparr>"
  define e where "e = postgres_event (c1\<lparr>pl_conn := conn, pl_tracker := tk\<rparr>) name (un_at u1) (un_bytes u1) (un_info u1)"
  define out where "out = (if un_silent u1 then pl_out c1 else pl_out c1 @ [e])"
  have c1: "postgres_call_ok t k before c1" "pt_pending (pl_tracker c1) < postgresPendingLimit"
    using make_room_ok [OF ok] by (simp_all add: c1_def)
  have u1: "postgres_unit_ok (pt_showSecrets t) u1" using u by (simp add: u1_def postgres_unit_ok_def)
  note f = call_fields [OF c1(1)]
  have ev: "\<not> postgresResponseEvent (ev_event e)" "postgres_asked_by e = Some (unit_asked u1)"
    "postgres_event_ok (pt_showSecrets t) k e"
    using name u1 f(3) by (auto simp: e_def postgres_asked_by_def unit_asked_def postgres_event_ok_def postgres_unit_ok_def)
  have order: "postgres_order before out (units_asked (pc_queue conn))"
    using f(5) pg_order.ask [OF f(5) ev(2,1)] by (simp add: out_def conn_def units_asked_snoc)
  have "postgres_call_ok t k before (c1\<lparr>pl_tracker := tk, pl_conn := conn, pl_out := out\<rparr>)"
  proof (rule postgres_call_move [OF c1(1)])
    show "postgres_conn_ok (pt_showSecrets t) conn" using f(1) u1 by (simp add: conn_def postgres_conn_ok_def)
    show "counter_value i tk = counter_value i (pl_tracker c1) + (int (counter_weight i conn) - int (counter_weight i (pl_conn c1)))" for i
      by (cases i) (simp_all add: tk_def conn_def)
    show "counter_value i tk \<le> counter_limit i" for i
      using f(7) [of i] c1(2) by (cases i) (simp_all add: tk_def)
    show "list_all (postgres_event_ok (pt_showSecrets t) k) out" using f(4) ev(3) by (simp add: out_def)
  qed (use order in \<open>simp_all add: tk_def\<close>)
  moreover have "postgres_enqueue u name c = c1\<lparr>pl_tracker := tk, pl_conn := conn, pl_out := out\<rparr>"
    unfolding postgres_enqueue_def Let_def c1_def [symmetric] u1_def [symmetric]
    by (rule postgresCall.equality) (simp_all add: on_conn_def postgres_emit_def conn_def tk_def out_def e_def)
  ultimately show ?thesis by simp
qed

text \<open>A map of the connection gets one entry more, or less.\<close>

lemma call_statements:
  assumes ok: "postgres_call_ok t k before c"
    and m: "map_ok m" "\<And>n st. map_get m n = Some st \<Longrightarrow> postgres_text_ok (pt_showSecrets t) (pst_sql st)"
    and v: "v = pt_statements (pl_tracker c) + (int (map_len m) - int (map_len (pc_statements (pl_conn c))))" "v \<le> postgresStatementLimit"
  shows "postgres_call_ok t k before (c\<lparr>pl_tracker := (pl_tracker c)\<lparr>pt_statements := v\<rparr>, pl_conn := (pl_conn c)\<lparr>pc_statements := m\<rparr>\<rparr>)"
proof -
  note f = call_fields [OF ok]
  let ?tk = "(pl_tracker c)\<lparr>pt_statements := v\<rparr>"
  let ?conn = "(pl_conn c)\<lparr>pc_statements := m\<rparr>"
  have "postgres_call_ok t k before (c\<lparr>pl_tracker := ?tk, pl_conn := ?conn, pl_out := pl_out c\<rparr>)"
  proof (rule postgres_call_move [OF ok])
    show "postgres_conn_ok (pt_showSecrets t) ?conn" using f(1) m by (simp add: postgres_conn_ok_def)
    show "counter_value i ?tk = counter_value i (pl_tracker c) + (int (counter_weight i ?conn) - int (counter_weight i (pl_conn c)))" for i
      using v(1) by (cases i) simp_all
    show "counter_value i ?tk \<le> counter_limit i" for i using f(7) [of i] v(2) by (cases i) simp_all
  qed (use f in simp_all)
  then show ?thesis by simp
qed

lemma call_portals:
  assumes ok: "postgres_call_ok t k before c"
    and m: "map_ok m" "\<And>n name. map_get m n = Some name \<Longrightarrow> safe_text name"
    and v: "v = pt_portals (pl_tracker c) + (int (map_len m) - int (map_len (pc_portals (pl_conn c))))" "v \<le> postgresPortalLimit"
  shows "postgres_call_ok t k before (c\<lparr>pl_tracker := (pl_tracker c)\<lparr>pt_portals := v\<rparr>, pl_conn := (pl_conn c)\<lparr>pc_portals := m\<rparr>\<rparr>)"
proof -
  note f = call_fields [OF ok]
  let ?tk = "(pl_tracker c)\<lparr>pt_portals := v\<rparr>"
  let ?conn = "(pl_conn c)\<lparr>pc_portals := m\<rparr>"
  have "postgres_call_ok t k before (c\<lparr>pl_tracker := ?tk, pl_conn := ?conn, pl_out := pl_out c\<rparr>)"
  proof (rule postgres_call_move [OF ok])
    show "postgres_conn_ok (pt_showSecrets t) ?conn" using f(1) m by (simp add: postgres_conn_ok_def)
    show "counter_value i ?tk = counter_value i (pl_tracker c) + (int (counter_weight i ?conn) - int (counter_weight i (pl_conn c)))" for i
      using v(1) by (cases i) simp_all
    show "counter_value i ?tk \<le> counter_limit i" for i using f(7) [of i] v(2) by (cases i) simp_all
  qed (use f in simp_all)
  then show ?thesis by simp
qed

lemma conn_maps:
  assumes "postgres_conn_ok shown conn"
  shows "map_ok (pc_statements conn)" "map_ok (pc_portals conn)"
    "map_get (pc_statements conn) n = Some st \<Longrightarrow> postgres_text_ok shown (pst_sql st)"
    "map_get (pc_portals conn) n = Some name \<Longrightarrow> safe_text name"
  using assms by (auto simp: postgres_conn_ok_def)

lemma remember_ok:
  assumes ok: "postgres_call_ok t k before c" and st: "postgres_text_ok (pt_showSecrets t) (pst_sql st)"
  shows "postgres_call_ok t k before (postgres_remember name st c)"
proof -
  note f = call_fields [OF ok]
  note m = conn_maps [OF f(1)]
  have put: "postgres_call_ok t k before (d\<lparr>pl_tracker := (pl_tracker d)\<lparr>pt_statements := pt_statements (pl_tracker d) + 1\<rparr>,
      pl_conn := (pl_conn d)\<lparr>pc_statements := map_put name st (pc_statements (pl_conn d))\<rparr>\<rparr>)"
    if d: "postgres_call_ok t k before d" and none: "map_get (pc_statements (pl_conn d)) name = None"
      and room: "pt_statements (pl_tracker d) < postgresStatementLimit" for d
    using conn_maps [OF call_fields(1) [OF d]] none room st
    by (intro call_statements [OF d]) (auto simp: gm.ok_put gm.get_put gm.len_put split: if_splits)
  show ?thesis
  proof (cases "map_get (pc_statements (pl_conn c)) name")
    case (Some old)
    have "postgres_call_ok t k before (c\<lparr>pl_tracker := (pl_tracker c)\<lparr>pt_statements := pt_statements (pl_tracker c)\<rparr>,
        pl_conn := (pl_conn c)\<lparr>pc_statements := map_put name st (pc_statements (pl_conn c))\<rparr>\<rparr>)"
      using m Some st f(7) [of KnownStatements]
      by (intro call_statements [OF ok]) (auto simp: gm.ok_put gm.get_put gm.len_put split: if_splits)
    then show ?thesis using Some by (simp add: postgres_remember_def Let_def)
  next
    case None
    show ?thesis
    proof (cases "postgresStatementLimit \<le> pt_statements (pl_tracker c)")
      case False
      then show ?thesis using put [OF ok None] None by (simp add: postgres_remember_def Let_def)
    next
      case True
      let ?g = "pc_statements_update (\<lambda>_. [])"
      let ?tk = "(pl_tracker c)\<lparr>pt_conns := map_each ?g (pt_conns (pl_tracker c)), pt_statements := 0\<rparr>"
      have d: "postgres_call_ok t k before (c\<lparr>pl_tracker := ?tk, pl_conn := ?g (pl_conn c)\<rparr>)"
      proof (rule call_empty [OF ok, where j = KnownStatements])
        show "counter_weight i (?g u) = counter_weight i u" if "i \<noteq> KnownStatements" for i u using that by (cases i) simp_all
        show "counter_value i ?tk = (if i = KnownStatements then 0 else counter_value i (pl_tracker c))" for i by (cases i) simp_all
      qed (simp_all add: gm.len_empty postgres_conn_ok_def gm.ok_empty gm.get_empty)
      from put [OF d] show ?thesis
        using None True by (simp add: postgres_remember_def Let_def gm.get_empty postgresStatementLimit_def)
    qed
  qed
qed

lemma bindPortal_ok:
  assumes ok: "postgres_call_ok t k before c" and st: "safe_text statement"
  shows "postgres_call_ok t k before (bindPortal portal statement c)"
proof -
  note f = call_fields [OF ok]
  note m = conn_maps [OF f(1)]
  have put: "postgres_call_ok t k before (d\<lparr>pl_tracker := (pl_tracker d)\<lparr>pt_portals := pt_portals (pl_tracker d) + 1\<rparr>,
      pl_conn := (pl_conn d)\<lparr>pc_portals := map_put portal statement (pc_portals (pl_conn d))\<rparr>\<rparr>)"
    if d: "postgres_call_ok t k before d" and none: "map_get (pc_portals (pl_conn d)) portal = None"
      and room: "pt_portals (pl_tracker d) < postgresPortalLimit" for d
    using conn_maps [OF call_fields(1) [OF d]] none room st
    by (intro call_portals [OF d]) (auto simp: gm.ok_put gm.get_put gm.len_put split: if_splits)
  show ?thesis
  proof (cases "map_get (pc_portals (pl_conn c)) portal")
    case (Some old)
    have "postgres_call_ok t k before (c\<lparr>pl_tracker := (pl_tracker c)\<lparr>pt_portals := pt_portals (pl_tracker c)\<rparr>,
        pl_conn := (pl_conn c)\<lparr>pc_portals := map_put portal statement (pc_portals (pl_conn c))\<rparr>\<rparr>)"
      using m Some st f(7) [of OpenPortals]
      by (intro call_portals [OF ok]) (auto simp: gm.ok_put gm.get_put gm.len_put split: if_splits)
    then show ?thesis using Some by (simp add: bindPortal_def Let_def)
  next
    case None
    show ?thesis
    proof (cases "postgresPortalLimit \<le> pt_portals (pl_tracker c)")
      case False
      then show ?thesis using put [OF ok None] None by (simp add: bindPortal_def Let_def)
    next
      case True
      let ?g = "pc_portals_update (\<lambda>_. [])"
      let ?tk = "(pl_tracker c)\<lparr>pt_conns := map_each ?g (pt_conns (pl_tracker c)), pt_portals := 0\<rparr>"
      have d: "postgres_call_ok t k before (c\<lparr>pl_tracker := ?tk, pl_conn := ?g (pl_conn c)\<rparr>)"
      proof (rule call_empty [OF ok, where j = OpenPortals])
        show "counter_weight i (?g u) = counter_weight i u" if "i \<noteq> OpenPortals" for i u using that by (cases i) simp_all
        show "counter_value i ?tk = (if i = OpenPortals then 0 else counter_value i (pl_tracker c))" for i by (cases i) simp_all
      qed (simp_all add: gm.len_empty postgres_conn_ok_def gm.ok_empty gm.get_empty)
      from put [OF d] show ?thesis
        using None True by (simp add: bindPortal_def Let_def gm.get_empty postgresPortalLimit_def)
    qed
  qed
qed

lemma map_len_positive: "map_get m n \<noteq> None \<Longrightarrow> 0 < map_len m"
  by (cases m) (simp_all add: map_get_def map_len_def)

lemma forgetStatement_ok:
  assumes ok: "postgres_call_ok t k before c"
  shows "postgres_call_ok t k before (forgetStatement name c)"
proof (cases "map_get (pc_statements (pl_conn c)) name = None")
  case False
  note f = call_fields [OF ok]
  note m = conn_maps [OF f(1)]
  have pos: "0 < map_len (pc_statements (pl_conn c))" by (rule map_len_positive [OF False])
  then have "count_down (pt_statements (pl_tracker c)) 1 = pt_statements (pl_tracker c) - 1"
    using f(8) [of KnownStatements] by (simp add: count_down_def)
  then have "postgres_call_ok t k before (c\<lparr>pl_tracker := (pl_tracker c)\<lparr>pt_statements := count_down (pt_statements (pl_tracker c)) 1\<rparr>,
      pl_conn := (pl_conn c)\<lparr>pc_statements := map_del name (pc_statements (pl_conn c))\<rparr>\<rparr>)"
    using m f(7) [of KnownStatements] False pos
    by (intro call_statements [OF ok]) (auto simp: gm.ok_del gm.get_del gm.len_del split: if_splits)
  then show ?thesis using False by (auto simp: forgetStatement_def Let_def)
qed (simp add: forgetStatement_def ok)

lemma forgetPortal_ok:
  assumes ok: "postgres_call_ok t k before c"
  shows "postgres_call_ok t k before (forgetPortal name c)"
proof (cases "map_get (pc_portals (pl_conn c)) name = None")
  case False
  note f = call_fields [OF ok]
  note m = conn_maps [OF f(1)]
  have pos: "0 < map_len (pc_portals (pl_conn c))" by (rule map_len_positive [OF False])
  then have "count_down (pt_portals (pl_tracker c)) 1 = pt_portals (pl_tracker c) - 1"
    using f(8) [of OpenPortals] by (simp add: count_down_def)
  then have "postgres_call_ok t k before (c\<lparr>pl_tracker := (pl_tracker c)\<lparr>pt_portals := count_down (pt_portals (pl_tracker c)) 1\<rparr>,
      pl_conn := (pl_conn c)\<lparr>pc_portals := map_del name (pc_portals (pl_conn c))\<rparr>\<rparr>)"
    using m f(7) [of OpenPortals] False pos
    by (intro call_portals [OF ok]) (auto simp: gm.ok_del gm.get_del gm.len_del split: if_splits)
  then show ?thesis using False by (auto simp: forgetPortal_def Let_def)
qed (simp add: forgetPortal_def ok)

subsection \<open>Answers\<close>

lemma answer_info_part: "request_part (answer_info version u) = request_part (un_info u)"
  by (simp add: answer_info_def request_part_def Let_def split: option.split)

lemma pg_answer_info_safe:
  assumes "postgres_unit_ok shown u" and "safe_text version"
  shows "postgres_info_safe shown (answer_info version u)"
proof -
  define rows where "rows = (if un_lost u then postgresTagRows (un_tag u)
                  else if un_rowsSeen u \<or> 0 < un_rows u then Some (un_rows u) else None)"
  have keep: "postgres_info_safe shown (case r of None \<Rightarrow> info | Some n \<Rightarrow> info\<lparr>pg_rows := Some n\<rparr>) = postgres_info_safe shown info" for r :: "u64 option" and info
    by (simp add: postgres_info_safe_def split: option.split)
  show ?thesis
    unfolding answer_info_def Let_def rows_def [symmetric] keep
    using assms by (simp add: postgres_unit_ok_def postgres_info_safe_def)
qed

lemma pg_finish_ok:
  assumes ok: "postgres_call_ok t k before c"
  shows "postgres_call_ok t k before (postgres_finish tm c)"
proof (cases "pc_queue (pl_conn c)")
  case (Cons u us)
  note f = call_fields [OF ok]
  define conn where "conn = (pl_conn c)\<lparr>pc_queue := us\<rparr>"
  define tk where "tk = (pl_tracker c)\<lparr>pt_pending := count_down (pt_pending (pl_tracker c)) 1\<rparr>"
  define e where "e = (postgres_event c (answer_name u) tm (un_responseBytes u) (answer_info (pc_serverVersion (pl_conn c)) u))
                   \<lparr>ev_latencyMS := Some (traceSpan (un_at u) tm), ev_answered := 1\<rparr>"
  define out where "out = (if un_silent u then pl_out c else pl_out c @ [e])"
  have u: "postgres_unit_ok (pt_showSecrets t) u" using f(1) Cons by (simp add: postgres_conn_ok_def)
  have resp: "postgresResponseEvent (ev_event e)" by (simp add: e_def answer_name_def)
  have "postgres_info_safe (pt_showSecrets t) (answer_info (pc_serverVersion (pl_conn c)) u)"
    using f(1) by (intro pg_answer_info_safe u) (simp add: postgres_conn_ok_def)
  then have eok: "postgres_event_ok (pt_showSecrets t) k e" using f(3) resp by (simp add: postgres_event_ok_def e_def)
  have ans: "postgres_answers (unit_asked u) e" by (simp add: postgres_answers_def unit_asked_def e_def answer_info_part)
  have order: "postgres_order before out (units_asked us)"
  proof (cases "un_silent u")
    case True
    then show ?thesis using f(5) Cons by (simp add: out_def units_asked_def)
  next
    case False
    then have "postgres_order before (pl_out c) (unit_asked u # units_asked us)" using f(5) Cons by (simp add: units_asked_def)
    from pg_order.answer [OF this ans resp] show ?thesis using False by (simp add: out_def)
  qed
  have "postgres_call_ok t k before (c\<lparr>pl_tracker := tk, pl_conn := conn, pl_out := out\<rparr>)"
    unfolding tk_def
    by (rule call_fewer [OF ok]) (use f Cons order eok in \<open>auto simp: conn_def out_def postgres_conn_ok_def\<close>)
  moreover have "postgres_finish tm c = c\<lparr>pl_tracker := tk, pl_conn := conn, pl_out := out\<rparr>"
    unfolding postgres_finish_def Cons list.case Let_def
    by (rule postgresCall.equality) (simp_all add: on_conn_def postgres_emit_def conn_def tk_def out_def e_def)
  ultimately show ?thesis by simp
qed (simp add: postgres_finish_def ok)

lemma ready_ok:
  assumes ok: "postgres_call_ok t k before c"
  shows "postgres_call_ok t k before (postgres_ready status c)"
proof -
  define c1 where "c1 = on_conn (\<lambda>conn. conn\<lparr>pc_startup := False, pc_copyIn := False\<rparr>) c"
  have c1: "postgres_call_ok t k before c1" unfolding c1_def by (rule call_core [OF ok]) (simp add: conn_core_def)
  note f = call_fields [OF c1]
  have "count_down (pt_portals (pl_tracker c1)) (map_len (pc_portals (pl_conn c1))) = pt_portals (pl_tracker c1) - int (map_len (pc_portals (pl_conn c1)))"
    using f(8) [of OpenPortals] by (intro count_down_exact) simp
  then have "postgres_call_ok t k before (c1\<lparr>pl_tracker := (pl_tracker c1)\<lparr>pt_portals :=
        count_down (pt_portals (pl_tracker c1)) (map_len (pc_portals (pl_conn c1)))\<rparr>, pl_conn := (pl_conn c1)\<lparr>pc_portals := []\<rparr>\<rparr>)"
    using f(7) [of OpenPortals] f(8) [of OpenPortals]
    by (intro call_portals [OF c1]) (simp_all add: gm.ok_empty gm.get_empty gm.len_empty)
  moreover have "postgres_ready status c = (if status = CHR ''I'' then c1\<lparr>pl_tracker := (pl_tracker c1)\<lparr>pt_portals :=
        count_down (pt_portals (pl_tracker c1)) (map_len (pc_portals (pl_conn c1)))\<rparr>, pl_conn := (pl_conn c1)\<lparr>pc_portals := []\<rparr>\<rparr> else c1)"
    unfolding postgres_ready_def Let_def c1_def [symmetric] by (auto intro: postgresCall.equality simp: on_conn_def)
  ultimately show ?thesis using c1 by simp
qed

lemma unit_fail_ok: "fault_safe shown f \<Longrightarrow> postgres_unit_ok shown u \<Longrightarrow> postgres_unit_ok shown (unit_fail f u)"
  by (auto simp: unit_fail_def postgres_unit_ok_def fault_safe_def)

lemma unit_fail_fields [simp]:
  "un_silent (unit_fail f u) = un_silent u" "un_at (unit_fail f u) = un_at u" "un_info (unit_fail f u) = un_info u"
  by (simp_all add: unit_fail_def)

lemma head_fail_ok:
  assumes "postgres_call_ok t k before c"
  shows "postgres_call_ok t k before (on_head (unit_fail (errorFields (pt_showSecrets (pl_tracker c)) body)) c)"
  using call_fields(2) [OF assms] errorFields_safe [of "pt_showSecrets t" body]
  by (intro call_head [OF assms]) (simp_all add: unit_fail_ok)

lemma head_tag_ok:
  "postgres_call_ok t k before c \<Longrightarrow> postgres_call_ok t k before (on_head (\<lambda>u. u\<lparr>un_tag := postgresName tag\<rparr>) c)"
  by (rule call_head) (simp_all add: postgres_unit_ok_def)

lemma closeAtEnd_ok:
  assumes ok: "postgres_call_ok t k before c" and r: "closeAtEnd tm data n c = Some c'"
  shows "postgres_call_ok t k before c'"
proof -
  define c1 where "c1 = on_head (add_response n) c"
  have c1: "postgres_call_ok t k before c1" unfolding c1_def by (rule add_response_ok [OF ok])
  obtain status tail where e: "postgresEndClosed data = Some (status, tail)"
    using r by (auto simp: closeAtEnd_def split: option.splits)
  define c2 where "c2 = (case tail of Inl tag \<Rightarrow> on_head (\<lambda>u. u\<lparr>un_tag := postgresName tag\<rparr>) c1
                       | Inr body \<Rightarrow> on_head (unit_fail (errorFields (pt_showSecrets (pl_tracker c1)) body)) c1)"
  have c2: "postgres_call_ok t k before c2"
    unfolding c2_def using head_tag_ok [OF c1] head_fail_ok [OF c1] by (simp split: sum.split)
  have "c' = on_conn (\<lambda>conn. conn\<lparr>pc_response := pstream0, pc_lost := False, pc_blind := False, pc_resyncNext := True\<rparr>)
      (postgres_finish tm (postgres_ready status c2))"
    using r unfolding closeAtEnd_def e option.case prod.case Let_def c1_def [symmetric] c2_def [symmetric]
    by (simp split: if_splits)
  moreover have "postgres_call_ok t k before \<dots>"
    by (intro call_core pg_finish_ok ready_ok c2) (simp add: conn_core_def)
  ultimately show ?thesis by simp
qed

subsection \<open>Messages\<close>

lemma query_unit_ok:
  "postgres_info_safe shown info \<Longrightarrow> postgres_unit_ok shown ((unit_at tm)\<lparr>un_bytes := n, un_info := info\<rparr>)"
  by (simp add: postgres_unit_ok_def unit_at_def)

lemma front_query_ok:
  assumes ok: "postgres_call_ok t k before c"
  shows "postgres_call_ok t k before (front_query m n c)"
proof -
  have "postgres_info_safe (pt_showSecrets t)
      (postgres_event0\<lparr>pg_command := postgresCommandQuery, pg_sql := fst (postgres_sqlText (pt_showSecrets t) raw trunc strings), pg_sqlTruncated := b\<rparr>)" for raw trunc strings b
    by (simp add: postgres_info_safe_def postgres_event0_def postgres_text_ok_sql)
  then show ?thesis
    unfolding front_query_def Let_def
    by (intro enqueue_ok call_batch_none ok query_unit_ok) (simp_all add: on_conn_def call_fields(2) [OF ok])
qed

lemma front_function_ok: "postgres_call_ok t k before c \<Longrightarrow> postgres_call_ok t k before (front_function m n c)"
  unfolding front_function_def
  by (intro enqueue_ok call_batch_none query_unit_ok) (simp_all add: postgres_info_safe_def postgres_event0_def)

lemma pg_add_bytes_ok: "postgres_call_ok t k before c \<Longrightarrow> postgres_call_ok t k before (on_batch tm (add_bytes n) c)"
  by (rule call_batch) (simp_all add: add_bytes_def postgres_unit_ok_def)

lemma front_parse_ok:
  assumes ok: "postgres_call_ok t k before c"
  shows "postgres_call_ok t k before (front_parse m n c)"
proof -
  let ?c = "on_batch (pm_at m) (add_bytes n) c"
  have c1: "postgres_call_ok t k before ?c" by (rule pg_add_bytes_ok [OF ok])
  have s: "pt_showSecrets (pl_tracker ?c) = pt_showSecrets t" by (rule call_fields(2) [OF c1])
  show ?thesis
    unfolding front_parse_def Let_def s
    using c1 by (auto split: prod.split intro!: call_batch remember_ok simp: postgres_unit_ok_def postgres_text_ok_sql)
qed

lemma front_bind_ok: "postgres_call_ok t k before c \<Longrightarrow> postgres_call_ok t k before (front_bind m n c)"
  unfolding front_bind_def Let_def by (auto split: prod.split intro!: bindPortal_ok pg_add_bytes_ok)

lemma front_execute_ok:
  assumes ok: "postgres_call_ok t k before c"
  shows "postgres_call_ok t k before (front_execute m n c)"
proof -
  define c1 where "c1 = on_batch (pm_at m) (\<lambda>u. add_bytes n (u\<lparr>un_info := (un_info u)\<lparr>pg_executes := pg_executes (un_info u) + 1\<rparr>\<rparr>)) c"
  have c1: "postgres_call_ok t k before c1"
    unfolding c1_def by (rule call_batch [OF ok]) (simp add: add_bytes_def postgres_unit_ok_def postgres_info_safe_def)
  note m' = conn_maps [OF call_fields(1) [OF c1]]
  have fill: "postgres_call_ok t k before (on_batch (pm_at m)
      (\<lambda>u. u\<lparr>un_info := (un_info u)\<lparr>pg_sql := pst_sql st, pg_sqlTruncated := pst_truncated st, pg_statement := name\<rparr>\<rparr>) c1)"
    if "postgres_text_ok (pt_showSecrets t) (pst_sql st)" "safe_text name" for st name
    using that by (intro call_batch [OF c1]) (simp add: postgres_unit_ok_def postgres_info_safe_def)
  note empty = fill [of "\<lparr>pst_sql = [], pst_truncated = False\<rparr>", simplified]
  show ?thesis
    unfolding front_execute_def Let_def c1_def [symmetric]
    using c1 m' by (auto split: prod.split option.split intro!: fill empty)
qed

lemma front_close_ok: "postgres_call_ok t k before c \<Longrightarrow> postgres_call_ok t k before (front_close m n c)"
  unfolding front_close_def Let_def
  by (auto split: prod.split list.split intro!: forgetStatement_ok forgetPortal_ok pg_add_bytes_ok)

lemma close_batch_ok: "postgres_unit_ok shown u \<Longrightarrow> postgres_unit_ok shown (close_batch u)"
  by (simp add: close_batch_def with_command_def postgres_unit_ok_def postgres_info_safe_def)

lemma front_sync_ok:
  assumes ok: "postgres_call_ok t k before c"
  shows "postgres_call_ok t k before (front_sync m n c)"
proof -
  let ?c = "forgetPortal [] c"
  have c1: "postgres_call_ok t k before ?c" by (rule forgetPortal_ok [OF ok])
  have "postgres_unit_ok (pt_showSecrets t) (openBatch (pm_at m) (pl_conn ?c))"
    using call_fields(1) [OF c1] by (auto simp: openBatch_def postgres_conn_ok_def split: option.split)
  then have u: "postgres_unit_ok (pt_showSecrets t) (close_batch (add_bytes n (openBatch (pm_at m) (pl_conn ?c))))"
    by (intro close_batch_ok) (simp add: add_bytes_def postgres_unit_ok_def)
  have "on_conn (\<lambda>conn. conn\<lparr>pc_copySync := False, pc_batch := None\<rparr>) ?c =
      on_conn (pc_copySync_update (\<lambda>_. False)) (on_conn (pc_batch_update (\<lambda>_. None)) ?c)"
    by (simp add: on_conn_def)
  moreover have "postgres_call_ok t k before \<dots>" by (intro call_core call_batch_none c1) (simp add: conn_core_def)
  ultimately show ?thesis
    unfolding front_sync_def Let_def using enqueue_ok [OF call_batch_none [OF c1] u] by simp
qed

lemma start_params_safe:
  "safe_text user \<Longrightarrow> safe_text database \<Longrightarrow> start_params rest user database = (u, d) \<Longrightarrow> safe_text u \<and> safe_text d"
proof (induction "length rest" arbitrary: rest user database rule: less_induct)
  case less
  show ?case
  proof (cases "rest = [] \<or> hd rest = CHR 0x00")
    case True
    then show ?thesis using less.prems by (simp add: start_params.simps)
  next
    case False
    obtain key after ok where s: "postgresCString rest = (key, after, ok)" by (metis prod_cases3)
    obtain v after2 ok' where s2: "postgresCString after = (v, after2, ok')" by (metis prod_cases3)
    define user' where "user' = (if ok \<and> ok' \<and> key = ''user'' then postgresName v else user)"
    define database' where "database' = (if ok \<and> ok' \<and> key \<noteq> ''user'' \<and> key = ''database'' then postgresName v else database)"
    have safe: "safe_text user'" "safe_text database'" using less.prems by (simp_all add: user'_def database'_def)
    have eq: "start_params rest user database = (if ok \<and> ok' then start_params after2 user' database' else (user, database))"
      using False s s2 by (subst start_params.simps) (simp add: user'_def database'_def)
    show ?thesis
    proof (cases "ok \<and> ok'")
      case True
      then have "length after2 < length rest" using postgresCString_rest [OF s] postgresCString_rest [OF s2] by simp
      from less.hyps [OF this safe] show ?thesis using less.prems(3) eq True by simp
    next
      case False
      with eq have "start_params rest user database = (user, database)" by (simp only: if_False)
      then show ?thesis using less.prems by (metis prod.inject)
    qed
  qed
qed

lemma startMessage_ok:
  assumes ok: "postgres_call_ok t k before c"
  shows "postgres_call_ok t k before (snd (snd (startMessage m untyped c)))"
proof -
  obtain u d where p: "start_params (drop 4 (pm_body m)) [] [] = (u, d)" by (rule prod.exhaust)
  have "safe_text u" "safe_text d" using start_params_safe [OF _ _ p] by simp_all
  then have "postgres_info_safe (pt_showSecrets t) (postgres_event0\<lparr>pg_command := postgresCommandConnect, pg_user := u,
                 pg_database := (if d = [] then u else d)\<rparr>)"
    by (simp add: postgres_info_safe_def postgres_event0_def)
  then have "postgres_call_ok t k before (postgres_enqueue ((unit_at (pm_at m))\<lparr>un_bytes := 4 + pm_length m,
      un_info := postgres_event0\<lparr>pg_command := postgresCommandConnect, pg_user := u,
                 pg_database := (if d = [] then u else d)\<rparr>\<rparr>) postgresEventConnect (on_conn (pc_startup_update (\<lambda>_. True)) c))"
    by (intro enqueue_ok query_unit_ok call_core [OF ok]) (simp_all add: conn_core_def)
  then show ?thesis
    unfolding startMessage_def Let_def p by (auto intro!: call_core [OF ok] simp: conn_core_def)
qed

lemma frontend_ok:
  assumes ok: "postgres_call_ok t k before c"
  shows "postgres_call_ok t k before (snd (snd (postgres_frontend m untyped c)))"
proof -
  have copy: "postgres_call_ok t k before (on_conn (\<lambda>conn. if pc_copyIn conn then conn\<lparr>pc_copyIn := False, pc_copySync := True\<rparr> else conn) c)"
    by (rule call_core [OF ok]) (simp add: conn_core_def)
  show ?thesis
    unfolding postgres_frontend_def front_typed_def Let_def
    using startMessage_ok [OF ok] front_query_ok [OF ok] front_function_ok [OF ok] front_parse_ok [OF ok] front_bind_ok [OF ok]
      front_execute_ok [OF ok] front_close_ok [OF ok] pg_add_bytes_ok [OF ok] copy front_sync_ok [OF ok] call_batch_none [OF ok] ok
    by simp
qed

lemma back_ready_ok: "postgres_call_ok t k before c \<Longrightarrow> postgres_call_ok t k before (back_ready m waiting c)"
  unfolding back_ready_def Let_def
  by (auto intro!: pg_finish_ok ready_ok call_core [OF ready_ok] simp: conn_core_def)

lemma back_error_ok:
  assumes ok: "postgres_call_ok t k before c"
  shows "postgres_call_ok t k before (back_error m waiting c)"
  unfolding back_error_def Let_def using ok head_fail_ok [OF ok] pg_finish_ok [OF head_fail_ok [OF ok]] by simp

lemma back_parameter_ok:
  assumes ok: "postgres_call_ok t k before c"
  shows "postgres_call_ok t k before (on_conn (back_parameter m) c)"
  by (rule postgres_call_conn [OF ok])
    (use call_fields(1) [OF ok] in \<open>auto simp: back_parameter_def postgres_conn_ok_def split: prod.split\<close>)

lemma backend_ok:
  assumes ok: "postgres_call_ok t k before c"
  shows "postgres_call_ok t k before (snd (snd (postgres_backend m untyped c)))"
proof -
  define waiting where "waiting \<longleftrightarrow> pc_queue (pl_conn c) \<noteq> [] \<and> pc_skip (pl_conn c) = 0"
  define c1 where "c1 = (if waiting then on_head (add_response (5 + pm_length m)) c else c)"
  have c1: "postgres_call_ok t k before c1" by (simp add: c1_def ok add_response_ok)
  have heads: "postgres_call_ok t k before (on_head (\<lambda>u. u\<lparr>un_rows := un_rows u + 1\<rparr>) c1)"
    "postgres_call_ok t k before (on_head (\<lambda>u. u\<lparr>un_rowsSeen := True\<rparr>) c1)"
    by (rule call_head [OF c1]; simp add: postgres_unit_ok_def)+
  have copy: "postgres_call_ok t k before (on_conn (\<lambda>conn. conn\<lparr>pc_copyIn := copy_batch waiting conn\<rparr>) c1)"
    by (rule call_core [OF c1]) (simp add: conn_core_def)
  show ?thesis
    unfolding postgres_backend_def Let_def waiting_def [symmetric] c1_def [symmetric]
    using back_ready_ok [OF c1] head_tag_ok [OF c1] heads copy back_error_ok [OF c1] back_parameter_ok [OF c1] c1 by simp
qed

end
