(* ===== verification/PostgresRuns.thy ===== *)
theory PostgresRuns
  imports PostgresSafety
begin

text \<open>
  Records, record ends and closed sockets: every step of \<open>postgresTracker\<close> keeps the invariant of
  PostgresSafety, and so does every run. The properties of the tracker are at the end.
\<close>

subsection \<open>Records\<close>

text \<open>What a callback keeps, \<open>feed\<close> keeps.\<close>

definition callback_keeps :: "('s \<Rightarrow> bool) \<Rightarrow> 's postgres_deliver \<Rightarrow> bool" where
  "callback_keeps S deliver \<longleftrightarrow> (\<forall>m u s. S s \<longrightarrow> S (snd (snd (deliver m u s))))"

lemma pfeed_body_keeps:
  assumes keep: "callback_keeps S deliver" and s: "S s"
  shows "case pfeed_body deliver data sz used st s of Inl (ok, st', s') \<Rightarrow> S s' | Inr (data', sz', used', st', s') \<Rightarrow> S s'"
proof -
  have "S s1" if "deliver m u s = (a, b, s1)" for m u a b s1 using keep s that by (metis callback_keeps_def snd_conv)
  then show ?thesis using s by (auto simp: pfeed_body_def Let_def split: prod.split)
qed

lemma pfeed_turn_keeps:
  assumes keep: "callback_keeps S deliver" and s: "S s"
  shows "case pfeed_turn deliver frontend tm data sz used st s of Inl (ok, st', s') \<Rightarrow> S s' | Inr (data', sz', used', st', s') \<Rightarrow> S s'"
  unfolding pfeed_turn_def Let_def
  using pfeed_body_keeps [OF keep s] s by (auto split: option.split)

lemma pfeed_keeps:
  assumes keep: "callback_keeps S deliver"
  shows "S s \<Longrightarrow> pfeed_loop deliver frontend tm data sz used st s = (ok, st', s') \<Longrightarrow> S s'"
proof (induction "pfeed_measure sz st" arbitrary: data sz used st s rule: less_induct)
  case less
  note turn = pfeed_turn_keeps [OF keep less.prems(1), of frontend tm data sz used st]
  show ?case
  proof (cases "sz = 0")
    case True
    then show ?thesis using less.prems by (simp add: pfeed_loop.simps)
  next
    case False
    show ?thesis
    proof (cases "pfeed_turn deliver frontend tm data sz used st s")
      case (Inl r)
      then show ?thesis using turn less.prems(2) False by (simp add: pfeed_loop.simps)
    next
      case (Inr r)
      obtain data1 sz1 used1 st1 s1 where r: "r = (data1, sz1, used1, st1, s1)" by (metis prod_cases5)
      have "pfeed_measure sz1 st1 < pfeed_measure sz st"
        using pfeed_turn_decreases [of deliver frontend tm data sz used st s] Inr r False by simp
      moreover have "S s1" using turn Inr r by simp
      moreover have "pfeed_loop deliver frontend tm data1 sz1 used1 st1 s1 = (ok, st', s')"
        using less.prems(2) Inr r False by (simp add: pfeed_loop.simps [of deliver frontend tm data sz used st s])
      ultimately show ?thesis by (rule less.hyps)
    qed
  qed
qed

lemma feed_keeps:
  assumes "callback_keeps S deliver" and "S s" and "postgres_feed deliver frontend data n tm st s = (ok, st', s')"
  shows "S s'"
  using pfeed_keeps [OF assms(1,2)] assms(3) unfolding postgres_feed_def by blast

lemma frontend_keeps: "callback_keeps (postgres_call_ok t k before) postgres_frontend"
  by (simp add: callback_keeps_def frontend_ok)

lemma backend_keeps: "callback_keeps (postgres_call_ok t k before) postgres_backend"
  by (simp add: callback_keeps_def backend_ok)

lemma feed_request_ok:
  assumes ok: "postgres_call_ok t k before c"
  shows "postgres_call_ok t k before (feed_request data n c)"
proof -
  obtain fine st c1 where f: "postgres_feed postgres_frontend True data n (rec_bootTimeNS (pl_record c)) (pc_request (pl_conn c)) c = (fine, st, c1)"
    by (metis prod_cases3)
  have "postgres_call_ok t k before c1" by (rule feed_keeps [OF frontend_keeps ok f])
  then have "postgres_call_ok t k before (on_conn (pc_request_update (\<lambda>_. st)) c1)" by (rule call_core) (simp add: conn_core_def)
  then show ?thesis unfolding feed_request_def f Let_def prod.case using lose_ok by simp
qed

lemma feed_response_ok:
  assumes ok: "postgres_call_ok t k before c"
  shows "postgres_call_ok t k before (feed_response seen data n c)"
proof -
  obtain fine st c1 where f: "postgres_feed postgres_backend False data n (rec_bootTimeNS (pl_record c)) (pc_response (pl_conn c)) c = (fine, st, c1)"
    by (metis prod_cases3)
  have "postgres_call_ok t k before c1" by (rule feed_keeps [OF backend_keeps ok f])
  then have "postgres_call_ok t k before (on_conn (pc_response_update (\<lambda>_. st)) c1)" by (rule call_core) (simp add: conn_core_def)
  then show ?thesis unfolding feed_response_def f Let_def prod.case using loseResponse_ok by simp
qed

lemma pg_request_ok:
  assumes ok: "postgres_call_ok t k before c"
  shows "postgres_call_ok t k before (postgres_request c)"
proof -
  define c1 where "c1 = on_conn (\<lambda>conn. conn\<lparr>pc_requestRecords := pc_requestRecords conn + 1\<rparr>) c"
  have c1: "postgres_call_ok t k before c1" unfolding c1_def by (rule call_core [OF ok]) (simp add: conn_core_def)
  have "postgres_call_ok t k before (on_conn (\<lambda>conn.
             conn\<lparr>pc_request := pstream0\<lparr>ps_synced := True, ps_untyped := True\<rparr>,
                  pc_response := (if pc_responseRecords conn = 0 then pstream0\<lparr>ps_synced := True\<rparr> else pc_response conn)\<rparr>) c1)"
    "postgres_call_ok t k before (on_conn (pc_request_update (\<lambda>_. pstream0\<lparr>ps_synced := True\<rparr>)) c1)"
    by (rule call_core [OF c1]; simp add: conn_core_def)+
  then show ?thesis
    unfolding postgres_request_def Let_def c1_def [symmetric]
    using c1 feed_request_ok encrypt_ok [OF c1, of "''ssl''"] by simp
qed

lemma response_stream_ok:
  assumes ok: "postgres_call_ok t k before c"
  shows "postgres_call_ok t k before (response_stream seen data n c)"
proof -
  define closing where "closing = (if pc_lost (pl_conn c) \<and> length data = n then closeAtEnd (rec_bootTimeNS (pl_record c)) data n c else None)"
  have "postgres_call_ok t k before (the closing)" if "closing \<noteq> None"
    using that closeAtEnd_ok [OF ok] by (auto simp: closing_def split: if_splits)
  moreover have "postgres_call_ok t k before (on_conn (pc_resyncNext_update (\<lambda>_. False)) c)"
    "postgres_call_ok t k before (on_conn (\<lambda>conn. conn\<lparr>pc_response := pstream0\<lparr>ps_synced := True\<rparr>, pc_lost := False\<rparr>) c)"
    by (rule call_core [OF ok]; simp add: conn_core_def)+
  ultimately show ?thesis
    unfolding response_stream_def Let_def closing_def [symmetric]
    using ok feed_response_ok pg_resync_ok countLost_ok [OF ok] by (auto split: if_split)
qed

lemma pg_response_ok:
  assumes ok: "postgres_call_ok t k before c"
  shows "postgres_call_ok t k before (postgres_response c)"
proof -
  define c1 where "c1 = on_conn (\<lambda>conn. conn\<lparr>pc_responseRecords := pc_responseRecords conn + 1\<rparr>) c"
  have c1: "postgres_call_ok t k before c1" unfolding c1_def by (rule call_core [OF ok]) (simp add: conn_core_def)
  have rec: "postgres_call_ok t k before (on_conn (response_record data n) c1)" for data n
    by (rule call_core [OF c1]) (simp add: conn_core_def response_record_def)
  have "postgres_call_ok t k before (response_answer seen data n d)" if d: "postgres_call_ok t k before d" for seen data n d
  proof -
    have "postgres_call_ok t k before (on_conn (pc_answer_update (\<lambda>_. CHR 0x00)) d)"
      by (rule call_core [OF d]) (simp add: conn_core_def)
    then show ?thesis
      unfolding response_answer_def Let_def
      using response_stream_ok d lose_ok encrypt_ok by simp
  qed
  then show ?thesis unfolding postgres_response_def Let_def c1_def [symmetric] using c1 rec by simp
qed

lemma tail_record_ok:
  assumes ok: "postgres_call_ok t k before c"
  shows "postgres_call_ok t k before (tail_record c)"
  unfolding tail_record_def Let_def
  using ok closeAtEnd_ok [OF ok] by (auto split: option.split intro!: call_core ready_ok simp: conn_core_def)

subsection \<open>Opening and closing a connection\<close>

definition postgres_tracker_ok :: "postgresTracker \<Rightarrow> bool" where
  "postgres_tracker_ok t \<longleftrightarrow>
     postgres_conns_ok (pt_showSecrets t) (pt_conns t) \<and>
     (\<forall>i. counter_value i t = int (map_total (counter_weight i) (pt_conns t)) \<and> counter_value i t \<le> counter_limit i)"

lemma tracker_okD:
  assumes "postgres_tracker_ok t"
  shows "postgres_conns_ok (pt_showSecrets t) (pt_conns t)"
    and "counter_value i t = int (map_total (counter_weight i) (pt_conns t))" and "counter_value i t \<le> counter_limit i"
  using assms unfolding postgres_tracker_ok_def by blast+

lemma tracker_okI:
  assumes "postgres_conns_ok (pt_showSecrets t) (pt_conns t)"
    and "\<And>i. counter_value i t = int (map_total (counter_weight i) (pt_conns t))" and "\<And>i. counter_value i t \<le> counter_limit i"
  shows "postgres_tracker_ok t"
  unfolding postgres_tracker_ok_def using assms by blast

lemma open_known:
  assumes ok: "postgres_tracker_ok t" and g: "map_get (pt_conns t) k = Some old" and same: "conn_core conn = conn_core old"
    and r: "rec_socket r = k"
  shows "postgres_call_ok t k (stored_asked (pt_conns t) k) (open_call t r offset conn)"
proof -
  have m: "map_ok (pt_conns t)" using ok by (simp add: postgres_tracker_ok_def postgres_conns_ok_def)
  have w: "counter_weight i conn = counter_weight i old" for i
    by (rule counter_weight_cong) (use same in \<open>simp_all add: conn_core_def\<close>)
  have "pgc.counted i (counter_value i t) k conn (pt_conns t)" for i
  proof (rule pgc.counted_same [OF _ m w])
    show "pgc.counted i (counter_value i t) k old (pt_conns t)"
      by (rule pgc.counted_enter_old [OF _ m g]) (use ok in \<open>simp add: postgres_tracker_ok_def\<close>)
  qed
  moreover have "postgres_conn_ok (pt_showSecrets t) conn"
    using ok g same by (auto simp: postgres_tracker_ok_def postgres_conns_ok_def postgres_conn_ok_def conn_core_def)
  moreover have "stored_asked (pt_conns t) k = units_asked (pc_queue conn)" using g same by (simp add: stored_asked_def conn_core_def)
  moreover have "postgres_conns_ok (pt_showSecrets t) (pt_conns t)" "counter_value i t \<le> counter_limit i" for i
    by (rule tracker_okD [OF ok])+
  ultimately show ?thesis
    using g r pg_order.start by (simp add: postgres_call_ok_def open_call_def Let_def)
qed

lemma pconn0_ok [simp]: "postgres_conn_ok shown pconn0" "counter_weight i pconn0 = 0" "pc_queue pconn0 = []"
proof -
  show "counter_weight i pconn0 = 0" by (cases i) (simp_all add: pconn0_def gm.len_empty)
qed (simp_all add: postgres_conn_ok_def pconn0_def gm.ok_empty gm.get_empty)

lemma open_new:
  assumes ok: "postgres_tracker_ok t" and room: "map_len (pt_conns t) < postgresSocketLimit" and g: "map_get (pt_conns t) k = None"
  shows "postgres_tracker_ok (t\<lparr>pt_conns := map_put k pconn0 (pt_conns t)\<rparr>)"
    "stored_asked (map_put k pconn0 (pt_conns t)) j = stored_asked (pt_conns t) j"
proof -
  have "counter_value i (t\<lparr>pt_conns := conns\<rparr>) = counter_value i t" for i conns by (cases i) simp_all
  moreover have "map_total (counter_weight i) (map_put k pconn0 (pt_conns t)) = map_total (counter_weight i) (pt_conns t)" for i
    using gm.total_put_new [OF g, of "counter_weight i" pconn0] by simp
  ultimately show "postgres_tracker_ok (t\<lparr>pt_conns := map_put k pconn0 (pt_conns t)\<rparr>)"
    using tracker_okD [OF ok] room g
    by (intro tracker_okI) (auto simp: postgres_conns_ok_def gm.ok_put gm.len_put gm.get_put)
  show "stored_asked (map_put k pconn0 (pt_conns t)) j = stored_asked (pt_conns t) j"
    using g by (simp add: stored_asked_def gm.get_put units_asked_def split: option.split)
qed

lemma connection_ok:
  assumes ok: "postgres_tracker_ok t" and c: "connection t k = (t1, conn)" and r: "rec_socket r = k"
  shows "postgres_call_ok t1 k (stored_asked (pt_conns t1) k) (open_call t1 r offset conn)"
    "pt_showSecrets t1 = pt_showSecrets t" "pt_side t1 = pt_side t"
    "subseq (stored_asked (pt_conns t1) j) (stored_asked (pt_conns t) j)"
proof -
  have "postgres_call_ok t1 k (stored_asked (pt_conns t1) k) (open_call t1 r offset conn) \<and>
    pt_showSecrets t1 = pt_showSecrets t \<and> pt_side t1 = pt_side t \<and> subseq (stored_asked (pt_conns t1) j) (stored_asked (pt_conns t) j)"
  proof (cases "map_get (pt_conns t) k")
    case (Some old)
    then have "t1 = t" "conn = old" using c by (simp_all add: connection_def)
    then show ?thesis using open_known [OF ok Some refl r] by simp
  next
    case None
    define t0 where "t0 = (if postgresSocketLimit \<le> map_len (pt_conns t) then
                      t\<lparr>pt_conns := [], pt_pending := 0, pt_statements := 0, pt_portals := 0\<rparr> else t)"
    have t1: "t1 = t0\<lparr>pt_conns := map_put k pconn0 (pt_conns t0)\<rparr>" "conn = pconn0"
      using c None by (simp_all add: connection_def t0_def Let_def split: if_splits)
    have zero: "counter_value i (t\<lparr>pt_conns := [], pt_pending := 0, pt_statements := 0, pt_portals := 0\<rparr>) = 0" for i
      by (cases i) simp_all
    have "postgres_tracker_ok (t\<lparr>pt_conns := [], pt_pending := 0, pt_statements := 0, pt_portals := 0\<rparr>)"
    proof (rule tracker_okI)
      show "counter_value i (t\<lparr>pt_conns := [], pt_pending := 0, pt_statements := 0, pt_portals := 0\<rparr>) \<le> counter_limit i" for i
        using counter_limit_pos [of i] by (simp add: zero)
    qed (simp_all add: zero gm.total_empty postgres_conns_ok_def gm.ok_empty gm.len_empty gm.get_empty)
    then have "postgres_tracker_ok t0" using ok by (simp add: t0_def)
    moreover have room: "map_len (pt_conns t0) < postgresSocketLimit" "map_get (pt_conns t0) k = None"
      using None by (auto simp: t0_def gm.len_empty gm.get_empty postgresSocketLimit_def)
    ultimately have t1ok: "postgres_tracker_ok t1" "stored_asked (pt_conns t1) j = stored_asked (pt_conns t0) j"
      using open_new [of t0 k] by (simp_all add: t1(1))
    have "map_get (pt_conns t1) k = Some pconn0" by (simp add: t1(1) gm.get_put)
    from open_known [OF t1ok(1) this refl r] have "postgres_call_ok t1 k (stored_asked (pt_conns t1) k) (open_call t1 r offset conn)"
      by (simp add: t1(2))
    moreover have "subseq (stored_asked (pt_conns t0) j) (stored_asked (pt_conns t) j)"
      by (simp add: t0_def stored_asked_def gm.get_empty)
    ultimately show ?thesis using t1ok(2) by (simp add: t1(1) t0_def)
  qed
  then show "postgres_call_ok t1 k (stored_asked (pt_conns t1) k) (open_call t1 r offset conn)"
    "pt_showSecrets t1 = pt_showSecrets t" "pt_side t1 = pt_side t"
    "subseq (stored_asked (pt_conns t1) j) (stored_asked (pt_conns t) j)" by simp_all
qed

text \<open>What a step or a run does: the events of each socket answer what waited or was asked on it.\<close>

definition postgres_step_ok :: "postgresTracker \<Rightarrow> captureEvent list \<Rightarrow> postgresTracker \<Rightarrow> bool" where
  "postgres_step_ok t out t' \<longleftrightarrow>
     postgres_tracker_ok t' \<and> pt_showSecrets t' = pt_showSecrets t \<and> pt_side t' = pt_side t \<and>
     list_all (\<lambda>e. postgres_event_ok (pt_showSecrets t) (ev_socketID e) e) out \<and>
     (\<forall>k. postgres_order (stored_asked (pt_conns t) k) (on_socket k out) (stored_asked (pt_conns t') k))"

lemma step_nothing: "postgres_tracker_ok t \<Longrightarrow> postgres_step_ok t [] t"
  using pg_order.start by (simp add: postgres_step_ok_def on_socket_def)

lemma close_call_ok:
  assumes ok: "postgres_call_ok t k (stored_asked (pt_conns t) k) c"
  shows "postgres_step_ok t (fst (close_call c)) (snd (close_call c))"
proof -
  let ?conns = "pt_conns (pl_tracker c)"
  let ?new = "map_put k (pl_conn c) ?conns"
  define t' where "t' = (pl_tracker c)\<lparr>pt_conns := ?new\<rparr>"
  note f = call_fields [OF ok]
  have cl: "close_call c = (pl_out c, t')" using f(3) by (simp add: close_call_def t'_def)
  have conns: "postgres_conns_ok (pt_showSecrets t) ?conns" "map_get ?conns k \<noteq> None"
    and old: "subseq (stored_asked ?conns j) (stored_asked (pt_conns t) j)" for j
    using ok by (simp_all add: postgres_call_ok_def Let_def)
  have "postgres_conns_ok (pt_showSecrets t) ?new"
    using conns f(1) by (auto simp: postgres_conns_ok_def gm.ok_put gm.len_put gm.get_put split: if_splits)
  moreover have "counter_value i t' = int (map_total (counter_weight i) ?new)" for i
  proof -
    have "counter_value i t' = counter_value i (pl_tracker c)" by (cases i) (simp_all add: t'_def)
    then show ?thesis using ok by (simp add: postgres_call_ok_def pgc.counted_def Let_def)
  qed
  moreover have "counter_value i t' \<le> counter_limit i" for i
    using f(7) [of i] by (cases i) (simp_all add: t'_def)
  ultimately have t': "postgres_tracker_ok t'" using f(2) by (simp add: postgres_tracker_ok_def t'_def)
  have sock: "e \<in> set (pl_out c) \<Longrightarrow> ev_socketID e = k" for e using f(4) by (simp add: list_all_iff postgres_event_ok_def)
  have "postgres_order (stored_asked (pt_conns t) j) (on_socket j (pl_out c)) (stored_asked (pt_conns t') j)" for j
  proof (cases "j = k")
    case True
    have "on_socket j (pl_out c) = pl_out c" using sock True by (simp add: on_socket_def filter_id_conv)
    moreover have "stored_asked (pt_conns t') j = units_asked (pc_queue (pl_conn c))" by (simp add: True stored_asked_def t'_def gm.get_put)
    ultimately show ?thesis using f(5) True by simp
  next
    case False
    have "on_socket j (pl_out c) = []" using sock False by (auto simp: on_socket_def filter_empty_conv)
    moreover have "stored_asked (pt_conns t') j = stored_asked ?conns j" using False by (simp add: stored_asked_def t'_def gm.get_put)
    ultimately show ?thesis using pg_order.drop [OF pg_order.start old [of j]] by simp
  qed
  moreover have "list_all (\<lambda>e. postgres_event_ok (pt_showSecrets t) (ev_socketID e) e) (pl_out c)"
    using f(4) sock by (auto simp: list_all_iff)
  moreover have "pt_showSecrets t' = pt_showSecrets t" "pt_side t' = pt_side t"
    using ok by (simp_all add: t'_def postgres_call_ok_def Let_def)
  ultimately show ?thesis using t' unfolding cl by (simp add: postgres_step_ok_def)
qed

subsection \<open>Steps and runs\<close>

lemma events_step_ok:
  assumes ok: "postgres_tracker_ok t"
  shows "postgres_step_ok t (fst (postgres_events t r offset)) (snd (postgres_events t r offset))"
proof (cases "side_skipped t r")
  case True
  then show ?thesis using step_nothing [OF ok] by (simp add: postgres_events_def)
next
  case False
  define k where "k = rec_socket r"
  obtain t1 conn where c: "connection t k = (t1, conn)" by fastforce
  note opened = connection_ok [OF ok c k_def [symmetric]]
  define call where "call = (if rec_server r \<noteq> rec_sent r then postgres_request (open_call t1 r offset conn)
      else postgres_response (open_call t1 r offset conn))"
  have call: "postgres_call_ok t1 k (stored_asked (pt_conns t1) k) call"
    unfolding call_def using pg_request_ok [OF opened(1)] pg_response_ok [OF opened(1)] by simp
  have eq: "postgres_events t r offset = close_call call"
    using False c by (simp add: postgres_events_def k_def call_def Let_def)
  from close_call_ok [OF call] show ?thesis
    unfolding eq postgres_step_ok_def using opened(2,3) pg_order.more [OF _ opened(4)] by auto
qed

lemma tail_step_ok:
  assumes ok: "postgres_tracker_ok t"
  shows "postgres_step_ok t (fst (tailEvents t r offset)) (snd (tailEvents t r offset))"
proof (cases "map_get (pt_conns t) (rec_socket r)")
  case None
  then show ?thesis using step_nothing [OF ok] by (simp add: tailEvents_def)
next
  case (Some conn)
  have "conn_core (conn\<lparr>pc_tailWant := 0\<rparr>) = conn_core conn" by (simp add: conn_core_def)
  note opened = open_known [OF ok Some this refl, of offset]
  show ?thesis
    unfolding tailEvents_def Some option.case Let_def
    using step_nothing [OF ok] close_call_ok [OF opened] close_call_ok [OF tail_record_ok [OF opened]] by simp
qed

lemma forget_step_ok:
  assumes ok: "postgres_tracker_ok t"
  shows "postgres_step_ok t [] (postgres_forgetSocket t k)"
proof (cases "map_get (pt_conns t) k")
  case None
  then show ?thesis using step_nothing [OF ok] by (simp add: postgres_forgetSocket_def)
next
  case (Some conn)
  note f = tracker_okD [OF ok]
  have m: "map_ok (pt_conns t)" using f(1) by (simp add: postgres_conns_ok_def)
  define t' where "t' = postgres_forgetSocket t k"
  have conns: "pt_conns t' = map_del k (pt_conns t)" by (simp add: t'_def postgres_forgetSocket_def Some)
  have cover: "int (counter_weight i conn) \<le> counter_value i t" for i by (rule pgc.counted_covers [OF f(2) Some])
  have moved: "counter_value i t' = counter_value i t - int (counter_weight i conn)" for i
    using cover [of i] by (cases i) (simp_all add: t'_def postgres_forgetSocket_def Some count_down_exact)
  have "postgres_tracker_ok t'"
  proof (rule tracker_okI)
    show "postgres_conns_ok (pt_showSecrets t') (pt_conns t')"
      using f(1) m Some by (auto simp: conns t'_def postgres_forgetSocket_def postgres_conns_ok_def gm.ok_del gm.get_del gm.len_del split: if_splits)
    show "counter_value i t' = int (map_total (counter_weight i) (pt_conns t'))" for i
      unfolding moved conns by (rule pgc.counted_delete [OF f(2) m Some])
    show "counter_value i t' \<le> counter_limit i" for i using f(3) [of i] by (simp add: moved)
  qed
  moreover have "subseq (stored_asked (pt_conns t') j) (stored_asked (pt_conns t) j)" for j
    using m by (simp add: conns stored_asked_def gm.get_del)
  ultimately show ?thesis
    using pg_order.drop [OF pg_order.start] unfolding t'_def [symmetric]
    by (simp add: postgres_step_ok_def on_socket_def) (simp add: t'_def postgres_forgetSocket_def Some)
qed

datatype postgresInput = PostgresRecord mysqlRecord u64 | PostgresTail mysqlRecord u64 | PostgresClosed u64

definition postgres_step :: "postgresTracker \<Rightarrow> postgresInput \<Rightarrow> postgresTracker \<times> captureEvent list" where
  "postgres_step t input =
     (case input of
        PostgresRecord r offset \<Rightarrow> prod.swap (postgres_events t r offset)
      | PostgresTail r offset \<Rightarrow> prod.swap (tailEvents t r offset)
      | PostgresClosed socket \<Rightarrow> (postgres_forgetSocket t socket, []))"

definition postgres_run :: "bytes \<Rightarrow> bool \<Rightarrow> postgresInput list \<Rightarrow> postgresTracker \<times> captureEvent list" where
  "postgres_run side showSecrets inputs =
     (case op_run postgres_step (newPostgresTracker side showSecrets) inputs of (t, outs) \<Rightarrow> (t, concat outs))"

lemma postgres_step_keeps:
  "postgres_tracker_ok t \<Longrightarrow> postgres_step_ok t (snd (postgres_step t input)) (fst (postgres_step t input))"
  using events_step_ok tail_step_ok forget_step_ok by (cases input) (simp_all add: postgres_step_def)

lemma postgres_run_keeps:
  "postgres_tracker_ok t \<Longrightarrow> op_run postgres_step t inputs = (t', outs) \<Longrightarrow> postgres_step_ok t (concat outs) t'"
proof (induction inputs arbitrary: t t' outs)
  case Nil
  then show ?case using step_nothing by simp
next
  case (Cons input inputs)
  obtain t1 out where s: "postgres_step t input = (t1, out)" by fastforce
  obtain t2 outs2 where r: "op_run postgres_step t1 inputs = (t2, outs2)" by fastforce
  have one: "postgres_step_ok t out t1" using postgres_step_keeps [OF Cons.prems(1), of input] s by simp
  then have "postgres_tracker_ok t1" by (simp add: postgres_step_ok_def)
  note rest = Cons.IH [OF this r]
  have "t' = t2" "outs = out # outs2" using Cons.prems(2) s r by simp_all
  then show ?case
    using one rest pg_order.trans by (simp add: postgres_step_ok_def) blast
qed

lemma postgres_run_ok:
  assumes "postgres_run side showSecrets inputs = (t, out)"
  shows "postgres_tracker_ok t" "list_all (\<lambda>e. postgres_event_ok showSecrets (ev_socketID e) e) out"
    "postgres_order [] (on_socket k out) (stored_asked (pt_conns t) k)"
proof -
  let ?t0 = "newPostgresTracker side showSecrets"
  obtain outs where r: "op_run postgres_step ?t0 inputs = (t, outs)" "out = concat outs"
    using assms by (auto simp: postgres_run_def split: prod.splits)
  have zero: "counter_value i ?t0 = 0" for i by (cases i) (simp_all add: newPostgresTracker_def)
  have "postgres_tracker_ok ?t0"
  proof (rule tracker_okI)
    show "counter_value i ?t0 \<le> counter_limit i" for i using counter_limit_pos [of i] by (simp add: zero)
    show "counter_value i ?t0 = int (map_total (counter_weight i) (pt_conns ?t0))" for i
      unfolding zero by (simp add: newPostgresTracker_def gm.total_empty)
  qed (simp_all add: newPostgresTracker_def postgres_conns_ok_def gm.ok_empty gm.len_empty gm.get_empty gm.total_empty)
  from postgres_run_keeps [OF this r(1)] have s: "postgres_step_ok ?t0 out t" by (simp add: r(2))
  then show "postgres_tracker_ok t" by (simp add: postgres_step_ok_def)
  show "list_all (\<lambda>e. postgres_event_ok showSecrets (ev_socketID e) e) out"
    using s by (simp add: postgres_step_ok_def newPostgresTracker_def)
  show "postgres_order [] (on_socket k out) (stored_asked (pt_conns t) k)"
    using s by (simp add: postgres_step_ok_def newPostgresTracker_def stored_asked_def gm.get_empty)
qed

subsection \<open>The properties\<close>

text \<open>
  C24. After any records, record ends and closed sockets the three counters of the tracker are exact,
  and the memory it holds is bounded: at most 65,536 sockets, 1,024 request units that wait, 65,536
  prepared statements and 65,536 portals over all of them. So no counter is ever kept from going
  below zero by the guards of the code.
\<close>
theorem postgres_tracker_bounded:
  "case postgres_run side showSecrets inputs of (t, out) \<Rightarrow>
     map_len (pt_conns t) \<le> 65536 \<and>
     pt_pending t = int (map_total (\<lambda>conn. length (pc_queue conn)) (pt_conns t)) \<and> pt_pending t \<le> 1024 \<and>
     pt_statements t = int (map_total (\<lambda>conn. map_len (pc_statements conn)) (pt_conns t)) \<and> pt_statements t \<le> 65536 \<and>
     pt_portals t = int (map_total (\<lambda>conn. map_len (pc_portals conn)) (pt_conns t)) \<and> pt_portals t \<le> 65536"
proof -
  obtain t out where r: "postgres_run side showSecrets inputs = (t, out)" by fastforce
  note ok = tracker_okD [OF postgres_run_ok(1) [OF r]]
  have w: "counter_weight PendingUnits = (\<lambda>conn. length (pc_queue conn))" "counter_weight KnownStatements = (\<lambda>conn. map_len (pc_statements conn))"
    "counter_weight OpenPortals = (\<lambda>conn. map_len (pc_portals conn))" by (simp_all add: fun_eq_iff)
  show ?thesis
    using ok(1) ok(2) [of PendingUnits] ok(3) [of PendingUnits] ok(2) [of KnownStatements] ok(3) [of KnownStatements]
      ok(2) [of OpenPortals] ok(3) [of OpenPortals]
    unfolding r prod.case w by (simp add: postgres_conns_ok_def postgresSocketLimit_def postgresPendingLimit_def postgresStatementLimit_def postgresPortalLimit_def)
qed

text \<open>
  C25. Nothing unsafe leaves the tracker: every event of every run carries a payload whose texts are all
  safe to print, whose SQL came through \<open>sqlText\<close> (so it is masked and cut unless \<open>--show-secrets\<close>
  is given), and which has no error detail without \<open>--show-secrets\<close>.
\<close>
theorem postgres_events_safe:
  "list_all (\<lambda>e. \<exists>info. ev_postgres e = Some info \<and> postgres_info_safe showSecrets info)
     (snd (postgres_run side showSecrets inputs))"
proof -
  obtain t out where r: "postgres_run side showSecrets inputs = (t, out)" by fastforce
  from postgres_run_ok(2) [OF r] show ?thesis
    unfolding r snd_conv by (rule list.pred_mono_strong) (auto simp: postgres_event_ok_def)
qed

text \<open>
  C7. On every socket of every run the answers belong to the requests in order: there are request
  events of the socket, distinct and in the order they were reported, such that the \<open>i\<close>-th answer
  repeats the command, the SQL, the statement, the number of executes, the user and the database of
  the \<open>i\<close>-th of them and gives the time since it was sent. Lost boundaries, ends of cut answers,
  dropped units, silent batches and the limits over all connections change nothing of it.
\<close>
theorem postgres_answers_in_order:
  "\<exists>asked. subseq asked (List.map_filter postgres_asked_by (on_socket socket (snd (postgres_run side showSecrets inputs)))) \<and>
     list_all2 postgres_answers asked
       (filter (\<lambda>e. postgresResponseEvent (ev_event e)) (on_socket socket (snd (postgres_run side showSecrets inputs))))"
proof -
  obtain t out where r: "postgres_run side showSecrets inputs = (t, out)" by fastforce
  from postgres_run_ok(3) [OF r, of socket] show ?thesis
    unfolding r snd_conv by (rule pg_order.answered) blast
qed

end
