(* ===== verification/PostgresSummary.thy ===== *)
theory PostgresSummary
  imports PostgresRuns TraceSummary
begin

text \<open>
  The summary of a PostgreSQL trace (\<open>tracePostgresCounts\<close> and \<open>postgresTraceSummarizer\<close> of
  internal/edc/trace_postgres.go): one row per side, command and shape of the SQL, totals per side
  and over all. A connection that goes over to TLS counts only in the totals. Then what the report
  says of the events of a run of the tracker.
\<close>

record tracePostgresCounts =
  gc_commands :: nat
  gc_responses :: nat
  gc_errors :: nat
  gc_unanswered :: nat
  gc_latencyAvg :: "rat option"
  gc_latencyMax :: "rat option"
  gc_connections :: nat
  gc_tlsConnections :: nat
  gc_answered :: nat
  gc_latency :: traceSpans

definition postgres_counts0 :: tracePostgresCounts where
  "postgres_counts0 = \<lparr>gc_commands = 0, gc_responses = 0, gc_errors = 0, gc_unanswered = 0, gc_latencyAvg = None,
     gc_latencyMax = None, gc_connections = 0, gc_tlsConnections = 0, gc_answered = 0, gc_latency = spans0\<rparr>"

definition postgres_counts_observe :: "captureEvent \<Rightarrow> tracePostgresCounts \<Rightarrow> tracePostgresCounts" where
  "postgres_counts_observe event counts =
     (if ev_event event = postgresEventTLS then
        counts\<lparr>gc_connections := gc_connections counts + 1, gc_tlsConnections := gc_tlsConnections counts + 1\<rparr>
      else if postgresResponseEvent (ev_event event) then
        counts\<lparr>gc_responses := gc_responses counts + 1,
          gc_errors := gc_errors counts + (if ev_event event = postgresEventError then 1 else 0),
          gc_answered := gc_answered counts + ev_answered event,
          gc_latency := spans_observe (gc_latency counts) (ev_latencyMS event)\<rparr>
      else
        counts\<lparr>gc_commands := gc_commands counts + 1,
          gc_connections := gc_connections counts + (if ev_event event = postgresEventConnect then 1 else 0)\<rparr>)"

definition postgres_counts_finished :: "tracePostgresCounts \<Rightarrow> tracePostgresCounts" where
  "postgres_counts_finished counts =
     counts\<lparr>gc_unanswered := gc_commands counts - min (gc_commands counts) (gc_answered counts),
       gc_latencyAvg := fst (spans_summary (gc_latency counts)),
       gc_latencyMax := snd (spans_summary (gc_latency counts))\<rparr>"

definition tracePostgresGroupSummary :: "tracePostgresCounts option \<Rightarrow> tracePostgresCounts option" where
  "tracePostgresGroupSummary counts = map_option postgres_counts_finished counts"

definition postgresTraceShape :: "tracePostgresEvent \<Rightarrow> bytes" where
  "postgresTraceShape info =
     (if pg_command info = postgresCommandConnect then ''(connect)''
      else if pg_command info = postgresCommandFunction then ''(function call)''
      else if pg_command info = postgresCommandExecute \<and> pg_sql info = [] then ''(statement not seen)''
      else if pg_sql info = [] then ''(no SQL)''
      else traceMySQLLine (tracePostgresShape (pg_sql info)))"

text \<open>A row is keyed by side, command and shape.\<close>

type_synonym postgresTraceKey = "bytes \<times> bytes \<times> bytes"

record postgresTraceRowStats =
  gs_processes :: "(bytes, unit) gomap"
  gs_counts :: tracePostgresCounts

record postgresTraceSummarizer =
  gz_rows :: "(postgresTraceKey, postgresTraceRowStats) gomap"
  gz_counts :: tracePostgresCounts
  gz_sides :: "(bytes, tracePostgresCounts) gomap"

definition newPostgresTraceSummarizer :: postgresTraceSummarizer where
  "newPostgresTraceSummarizer = \<lparr>gz_rows = [], gz_counts = postgres_counts0, gz_sides = []\<rparr>"

definition postgres_row_observe :: "captureEvent \<Rightarrow> postgresTraceRowStats option \<Rightarrow> postgresTraceRowStats" where
  "postgres_row_observe event old =
     (let stats = (case old of None \<Rightarrow> \<lparr>gs_processes = [], gs_counts = postgres_counts0\<rparr> | Some st \<Rightarrow> st) in
      \<lparr>gs_processes = (if ev_process event \<noteq> [] then map_put (ev_process event) () (gs_processes stats)
                       else gs_processes stats),
       gs_counts = postgres_counts_observe event (gs_counts stats)\<rparr>)"

definition postgres_side_observe ::
  "captureEvent \<Rightarrow> (bytes, tracePostgresCounts) gomap \<Rightarrow> (bytes, tracePostgresCounts) gomap" where
  "postgres_side_observe event sides =
     map_put (ev_side event)
       (postgres_counts_observe event
          (case map_get sides (ev_side event) of None \<Rightarrow> postgres_counts0 | Some c \<Rightarrow> c)) sides"

definition postgres_trace_key :: "captureEvent \<Rightarrow> tracePostgresEvent \<Rightarrow> postgresTraceKey" where
  "postgres_trace_key event info = (ev_side event, pg_command info, postgresTraceShape info)"

definition postgres_summarizer_observe :: "captureEvent \<Rightarrow> postgresTraceSummarizer \<Rightarrow> postgresTraceSummarizer" where
  "postgres_summarizer_observe event s =
     (case ev_postgres event of
        None \<Rightarrow> s
      | Some info \<Rightarrow>
          (let s1 = s\<lparr>gz_counts := postgres_counts_observe event (gz_counts s),
                gz_sides := (if ev_side event \<noteq> [] then postgres_side_observe event (gz_sides s) else gz_sides s)\<rparr>
           in if ev_event event = postgresEventTLS then s1
              else
                (let key = postgres_trace_key event info in
                 s1\<lparr>gz_rows := map_put key (postgres_row_observe event (map_get (gz_rows s) key)) (gz_rows s)\<rparr>)))"

subsection \<open>The report\<close>

record postgresTraceRow =
  gr_side :: bytes
  gr_command :: bytes
  gr_shape :: bytes
  gr_processes :: "bytes list"
  gr_counts :: tracePostgresCounts

record postgresTraceReport =
  gp_side :: bytes
  gp_durationMS :: nat
  gp_lostEvents :: nat
  gp_statements :: "postgresTraceRow list"
  gp_counts :: tracePostgresCounts
  gp_client :: "tracePostgresCounts option"
  gp_server :: "tracePostgresCounts option"

definition postgres_row_less :: "postgresTraceRow \<Rightarrow> postgresTraceRow \<Rightarrow> bool" where
  "postgres_row_less left right =
     (if gc_commands (gr_counts left) \<noteq> gc_commands (gr_counts right) then
        gc_commands (gr_counts right) < gc_commands (gr_counts left)
      else if gr_shape left \<noteq> gr_shape right then gr_shape left < gr_shape right
      else if gr_command left \<noteq> gr_command right then gr_command left < gr_command right
      else gr_side left < gr_side right)"

definition postgres_report_row :: "postgresTraceKey \<times> postgresTraceRowStats \<Rightarrow> postgresTraceRow" where
  "postgres_report_row r =
     (case r of ((side, command, shape), stats) \<Rightarrow>
        \<lparr>gr_side = side, gr_command = command, gr_shape = shape,
         gr_processes = sort (map fst (gs_processes stats)), gr_counts = postgres_counts_finished (gs_counts stats)\<rparr>)"

definition postgres_summarize :: "postgresTraceSummarizer \<Rightarrow> nat \<Rightarrow> nat \<Rightarrow> postgresTraceReport" where
  "postgres_summarize s lost duration =
     (let sides = gz_sides s;
          single = (map_len sides = 1);
          mixed = (1 < map_len sides)
      in \<lparr>gp_side = (if single then fst (hd sides) else []), gp_durationMS = duration, gp_lostEvents = lost,
          gp_statements = sort_by postgres_row_less (map postgres_report_row (gz_rows s)),
          gp_counts = postgres_counts_finished (gz_counts s),
          gp_client = (if mixed then tracePostgresGroupSummary (map_get sides traceClientSide) else None),
          gp_server = (if mixed then tracePostgresGroupSummary (map_get sides traceServerSide) else None)\<rparr>)"

subsection \<open>The laws of the counts\<close>

definition postgres_ask :: "captureEvent \<Rightarrow> bool" where
  "postgres_ask e \<longleftrightarrow> ev_event e \<noteq> postgresEventTLS \<and> \<not> postgresResponseEvent (ev_event e)"

definition postgres_reply :: "captureEvent \<Rightarrow> bool" where
  "postgres_reply e \<longleftrightarrow> ev_event e \<noteq> postgresEventTLS \<and> postgresResponseEvent (ev_event e)"

definition request_adds :: "captureEvent \<Rightarrow> nat" where
  "request_adds e = (if postgres_ask e then 1 else 0)"

definition reply_adds :: "captureEvent \<Rightarrow> nat" where
  "reply_adds e = (if postgres_reply e then 1 else 0)"

definition failure_adds :: "captureEvent \<Rightarrow> nat" where
  "failure_adds e = (if postgres_reply e \<and> ev_event e = postgresEventError then 1 else 0)"

definition answered_adds :: "captureEvent \<Rightarrow> nat" where
  "answered_adds e = (if postgres_reply e then ev_answered e else 0)"

lemmas postgres_adds = request_adds_def reply_adds_def failure_adds_def answered_adds_def postgres_ask_def postgres_reply_def
  postgres_counts_observe_def postgres_counts0_def

interpretation gcommands: event_counts postgres_counts_observe postgres_counts0 gc_commands request_adds
  by unfold_locales (simp_all add: postgres_adds)

interpretation gresponses: event_counts postgres_counts_observe postgres_counts0 gc_responses reply_adds
  by unfold_locales (simp_all add: postgres_adds)

interpretation gerrors: event_counts postgres_counts_observe postgres_counts0 gc_errors failure_adds
  by unfold_locales (simp_all add: postgres_adds)

interpretation ganswered: event_counts postgres_counts_observe postgres_counts0 gc_answered answered_adds
  by unfold_locales (simp_all add: postgres_adds)

subsection \<open>Entries\<close>

definition postgres_summarize_events :: "captureEvent list \<Rightarrow> postgresTraceSummarizer" where
  "postgres_summarize_events es = fold postgres_summarizer_observe es newPostgresTraceSummarizer"

definition postgres_counted :: "(captureEvent \<Rightarrow> bool) \<Rightarrow> captureEvent list \<Rightarrow> tracePostgresCounts" where
  "postgres_counted P es = counted_by postgres_counts_observe postgres_counts0 P es"

definition postgres_entry :: "(captureEvent \<Rightarrow> bool) \<Rightarrow> captureEvent list \<Rightarrow> tracePostgresCounts option" where
  "postgres_entry P es = entry_by postgres_counts_observe postgres_counts0 P es"

definition postgres_has_side :: "bytes \<Rightarrow> captureEvent \<Rightarrow> bool" where
  "postgres_has_side side e \<longleftrightarrow> ev_postgres e \<noteq> None \<and> side \<noteq> [] \<and> ev_side e = side"

definition postgres_has_key :: "postgresTraceKey \<Rightarrow> captureEvent \<Rightarrow> bool" where
  "postgres_has_key key e \<longleftrightarrow>
     ev_event e \<noteq> postgresEventTLS \<and> (\<exists>info. ev_postgres e = Some info \<and> postgres_trace_key e info = key)"

interpretation postgres_entries: trace_summary postgres_summarizer_observe newPostgresTraceSummarizer gz_counts
    "\<lambda>s. map_get (gz_sides s)" "\<lambda>s key. map_option gs_counts (map_get (gz_rows s) key)"
    postgres_counts_observe postgres_counts0 "\<lambda>e. ev_postgres e \<noteq> None" postgres_has_side postgres_has_key
  by unfold_locales
    (auto simp: newPostgresTraceSummarizer_def gm.get_empty postgres_summarizer_observe_def postgres_has_side_def
       postgres_has_key_def postgres_side_observe_def postgres_row_observe_def gm.get_put Let_def split: option.split)

lemmas postgres_summary_entries =
  postgres_entries.entries [folded postgres_summarize_events_def postgres_counted_def postgres_entry_def]

text \<open>The rows add up to the total: an event that belongs to no row adds to none of these counts.\<close>

definition postgres_rows_add_up :: "postgresTraceSummarizer \<Rightarrow> bool" where
  "postgres_rows_add_up s \<longleftrightarrow>
     map_ok (gz_rows s) \<and>
     map_total (\<lambda>st. gc_commands (gs_counts st)) (gz_rows s) = gc_commands (gz_counts s) \<and>
     map_total (\<lambda>st. gc_responses (gs_counts st)) (gz_rows s) = gc_responses (gz_counts s) \<and>
     map_total (\<lambda>st. gc_errors (gs_counts st)) (gz_rows s) = gc_errors (gz_counts s) \<and>
     map_total (\<lambda>st. gc_answered (gs_counts st)) (gz_rows s) = gc_answered (gz_counts s)"

lemma postgres_row_counts:
  "gs_counts (postgres_row_observe e None) = postgres_counts_observe e postgres_counts0"
  "gs_counts (postgres_row_observe e (Some st)) = postgres_counts_observe e (gs_counts st)"
  by (simp_all add: postgres_row_observe_def Let_def)

lemmas postgres_rows_put =
  gcommands.rows_put [where counts = gs_counts, OF _ postgres_row_counts] gresponses.rows_put [where counts = gs_counts, OF _ postgres_row_counts]
  gerrors.rows_put [where counts = gs_counts, OF _ postgres_row_counts] ganswered.rows_put [where counts = gs_counts, OF _ postgres_row_counts]

lemmas postgres_weights = gcommands.weight_observe gresponses.weight_observe gerrors.weight_observe ganswered.weight_observe

lemma postgres_rows_observe:
  assumes ok: "postgres_rows_add_up s"
  shows "postgres_rows_add_up (postgres_summarizer_observe e s)"
proof (cases "ev_postgres e")
  case None
  with ok show ?thesis by (simp add: postgres_summarizer_observe_def)
next
  case (Some info)
  have m: "map_ok (gz_rows s)" using ok by (simp add: postgres_rows_add_up_def)
  show ?thesis
  proof (cases "ev_event e = postgresEventTLS")
    case True
    then have "request_adds e = 0" "reply_adds e = 0" "failure_adds e = 0" "answered_adds e = 0" by (simp_all add: postgres_adds)
    with True ok Some show ?thesis
      by (simp add: postgres_summarizer_observe_def postgres_rows_add_up_def Let_def postgres_weights)
  next
    case False
    with ok Some show ?thesis
      unfolding postgres_summarizer_observe_def postgres_rows_add_up_def Let_def
      by (simp add: gm.ok_put postgres_rows_put [OF m] postgres_weights)
  qed
qed

lemma postgres_rows_events: "postgres_rows_add_up (postgres_summarize_events es)"
proof (induction es rule: rev_induct)
  case Nil
  show ?case
    by (simp add: postgres_summarize_events_def postgres_rows_add_up_def newPostgresTraceSummarizer_def postgres_counts0_def
        gm.ok_empty gm.total_empty)
qed (simp add: postgres_summarize_events_def postgres_rows_observe)

subsection \<open>The events of a run\<close>

text \<open>An event of a run that asks is a request, and a response answers one request.\<close>

lemma postgres_event_kinds:
  assumes "postgres_event_ok shown k e"
  shows "postgres_asked_by e \<noteq> None \<longleftrightarrow> postgres_ask e" and "postgres_reply e \<longleftrightarrow> postgresResponseEvent (ev_event e)"
    and "answered_adds e = (if postgresResponseEvent (ev_event e) then 1 else 0)"
  using assms by (auto simp: postgres_event_ok_def postgres_asked_by_def postgres_ask_def postgres_reply_def answered_adds_def
      postgresResponseEvent_def postgres_names split: if_splits)

lemma postgres_run_counts:
  assumes "list_all (\<lambda>e. postgres_event_ok shown (ev_socketID e) e) es"
  shows "gc_commands (postgres_counted (\<lambda>e. ev_postgres e \<noteq> None) es) = length (filter postgres_ask es) \<and>
    gc_answered (postgres_counted (\<lambda>e. ev_postgres e \<noteq> None) es) = length (filter postgres_reply es)"
proof -
  have "filter (\<lambda>e. ev_postgres e \<noteq> None) es = es"
    using assms by (auto simp: list_all_iff postgres_event_ok_def intro: filter_True)
  moreover have "(\<Sum>e \<leftarrow> es. answered_adds e) = (\<Sum>e \<leftarrow> es. if postgres_reply e then 1 else 0)"
    using assms postgres_event_kinds by (intro arg_cong [where f = sum_list] map_cong) (fastforce simp: list_all_iff)+
  ultimately show ?thesis
    by (simp add: postgres_counted_def gcommands.weight_counted ganswered.weight_counted length_filter_sum request_adds_def)
qed

lemma postgres_run_replies:
  assumes "postgres_run side showSecrets inputs = (t, es)"
  shows "length (filter postgres_reply es) \<le> length (filter postgres_ask es)"
proof (rule filter_by_socket)
  fix k
  let ?es = "on_socket k es"
  have ok: "e \<in> set ?es \<Longrightarrow> postgres_event_ok showSecrets (ev_socketID e) e" for e
    using postgres_run_ok(2) [OF assms] by (auto simp: list_all_iff on_socket_def)
  have "length (filter (\<lambda>e. postgresResponseEvent (ev_event e)) ?es) \<le> length (filter (\<lambda>e. postgres_asked_by e \<noteq> None) ?es)"
    by (rule pg_order.answers_le [OF postgres_run_ok(3) [OF assms]])
  moreover have "filter (\<lambda>e. postgresResponseEvent (ev_event e)) ?es = filter postgres_reply ?es"
    "filter (\<lambda>e. postgres_asked_by e \<noteq> None) ?es = filter postgres_ask ?es"
    using postgres_event_kinds [OF ok] by (auto intro!: filter_cong)
  ultimately show "length (filter postgres_reply ?es) \<le> length (filter postgres_ask ?es)" by simp
qed

text \<open>
The summary of a PostgreSQL trace is exact for the events of any run. The total counts all of
  them, a side those of the side, a row those of its side, command and shape, and commands,
  responses, errors and answers of the rows add up to the total. The number of unanswered commands is
  the number of requests less the number of responses, never cut off at zero.
\<close>
theorem postgres_summary_exact:
  "case postgres_run trackedSide showSecrets inputs of (t, es) \<Rightarrow>
     gz_counts (postgres_summarize_events es) = postgres_counted (\<lambda>e. ev_postgres e \<noteq> None) es \<and>
     map_get (gz_sides (postgres_summarize_events es)) side = postgres_entry (postgres_has_side side) es \<and>
     map_option gs_counts (map_get (gz_rows (postgres_summarize_events es)) key) = postgres_entry (postgres_has_key key) es \<and>
     postgres_rows_add_up (postgres_summarize_events es) \<and>
     int (gc_unanswered (postgres_counts_finished (gz_counts (postgres_summarize_events es)))) =
       int (length (filter postgres_ask es)) - int (length (filter postgres_reply es))"
proof -
  obtain t es where run: "postgres_run trackedSide showSecrets inputs = (t, es)" by fastforce
  note counts = postgres_run_counts [OF postgres_run_ok(2) [OF run]]
  have total: "gz_counts (postgres_summarize_events es) = postgres_counted (\<lambda>e. ev_postgres e \<noteq> None) es"
    using postgres_summary_entries [of es] by simp
  have "gc_unanswered (postgres_counts_finished (gz_counts (postgres_summarize_events es))) =
      length (filter postgres_ask es) - length (filter postgres_reply es)"
    using counts postgres_run_replies [OF run] unfolding total by (simp add: postgres_counts_finished_def)
  then show ?thesis
    using postgres_summary_entries [of es side key] postgres_rows_events [of es] postgres_run_replies [OF run]
    unfolding run prod.case by (simp add: of_nat_diff)
qed

subsection \<open>The order of the report\<close>

definition postgres_row_key :: "postgresTraceRow \<Rightarrow> int \<times> bytes \<times> bytes \<times> bytes" where
  "postgres_row_key r = (- int (gc_commands (gr_counts r)), gr_shape r, gr_command r, gr_side r)"

interpretation postgres_rows: row_order postgres_row_less postgres_row_key
  by unfold_locales (auto simp: postgres_row_less_def postgres_row_key_def less_prod_def)

lemma postgres_rows_distinct: "map_ok m \<Longrightarrow> inj_on postgres_row_key (set (map postgres_report_row m))"
  by (erule rows_distinct) (auto simp: postgres_row_key_def postgres_report_row_def split: prod.splits)

text \<open>The rows of the report do not depend on how Go walks its map and sorts.\<close>

lemma postgres_report_order:
  assumes "map_ok (gz_rows s)" and "mset rows = mset (map postgres_report_row (gz_rows s))"
    and "sorted_wrt (\<lambda>left right. \<not> postgres_row_less right left) rows"
  shows "gp_statements (postgres_summarize s lost duration) = rows"
  using postgres_rows.sort_determined [OF assms(2,3) postgres_rows_distinct [OF assms(1)]]
  by (simp add: postgres_summarize_def Let_def)

end
