(* ===== verification/TextFields.thy ===== *)
theory TextFields
  imports TraceText
begin

text \<open>
  \<open>strings.TrimSpace\<close> and \<open>strings.Fields\<close> of the Go library on byte strings: white space is that of
  Unicode, so a string is first cut into runes (\<open>decode_rune\<close>, where a wrong byte is a rune of its own
  and never a space).
\<close>

definition space_rune :: "nat \<Rightarrow> bool" where
  "space_rune r \<longleftrightarrow>
     (9 \<le> r \<and> r \<le> 13) \<or> r = 32 \<or> r = 133 \<or> r = 160 \<or> r = 5760 \<or> (8192 \<le> r \<and> r \<le> 8202) \<or>
     r = 8232 \<or> r = 8233 \<or> r = 8239 \<or> r = 8287 \<or> r = 12288"

text \<open>The pieces of a string, one per rune, with its value.\<close>

function runes :: "bytes \<Rightarrow> (nat \<times> bytes) list" where
  "runes [] = []"
| "runes (b # bs) =
     (case decode_rune (b # bs) of (r, n) \<Rightarrow> (r, take (max 1 n) (b # bs)) # runes (drop (max 1 n) (b # bs)))"
  by pat_completeness auto
termination
  by (relation "measure length") auto

definition rune_space :: "nat \<times> bytes \<Rightarrow> bool" where
  "rune_space piece \<longleftrightarrow> space_rune (fst piece)"

definition unrunes :: "(nat \<times> bytes) list \<Rightarrow> bytes" where
  "unrunes pieces = concat (map snd pieces)"

definition trim_space :: "bytes \<Rightarrow> bytes" where
  "trim_space raw = unrunes (rev (dropWhile rune_space (rev (dropWhile rune_space (runes raw)))))"

function field_runes :: "(nat \<times> bytes) list \<Rightarrow> (nat \<times> bytes) list list" where
  "field_runes [] = []"
| "field_runes (p # ps) =
     (if rune_space p then field_runes ps
      else (p # takeWhile (\<lambda>q. \<not> rune_space q) ps) # field_runes (dropWhile (\<lambda>q. \<not> rune_space q) ps))"
  by pat_completeness auto
termination
  by (relation "measure length") (auto simp: le_imp_less_Suc length_dropWhile_le)

definition text_fields :: "bytes \<Rightarrow> bytes list" where
  "text_fields raw = map unrunes (field_runes (runes raw))"

lemma unrunes_runes: "unrunes (runes raw) = raw"
proof (induction raw rule: runes.induct)
  case (2 b bs)
  obtain r n where d: "decode_rune (b # bs) = (r, n)" by (cases "decode_rune (b # bs)")
  then have "unrunes (runes (b # bs)) = take (max 1 n) (b # bs) @ unrunes (runes (drop (max 1 n) (b # bs)))"
    by (simp add: unrunes_def)
  also have "\<dots> = b # bs" using 2 d by (simp only: append_take_drop_id)
  finally show ?case .
qed (simp add: unrunes_def)

text \<open>Cutting spaces off removes only bytes at the two ends.\<close>

lemma trim_space_infix: "\<exists>left right. raw = left @ trim_space raw @ right"
proof -
  let ?mid = "dropWhile rune_space (runes raw)"
  have "raw = unrunes (takeWhile rune_space (runes raw)) @ unrunes ?mid"
    using unrunes_runes [of raw] unfolding unrunes_def
    by (metis concat_append map_append takeWhile_dropWhile_id)
  moreover have "?mid = rev (dropWhile rune_space (rev ?mid)) @ rev (takeWhile rune_space (rev ?mid))"
    by (metis rev_append rev_rev_ident takeWhile_dropWhile_id)
  then have "unrunes ?mid = trim_space raw @ unrunes (rev (takeWhile rune_space (rev ?mid)))"
    unfolding trim_space_def unrunes_def by (metis concat_append map_append)
  ultimately show ?thesis by metis
qed

lemma text_fields_no_empty: "[] \<notin> set (field_runes ps)"
  by (induction ps rule: field_runes.induct) auto

end
