(* ===== verification/RoutePlan.thy ===== *)
theory RoutePlan
  imports TextFields "HOL-Library.Word"
begin

unbundle bit_operations_syntax

text \<open>
  The decisions of \<open>edc route\<close> that need no effects: routes as entries, the \<open>ip\<close> command that a human
  would type for one of them, reachability of an exit, the risk of cutting off the own session, the
  tier of the guard timer, and the operations of a rollback (route_parse.go, route_render.go,
  route_reach.go, route_guard.go, route_state.go, route_exits.go, route_backend_linux.go). Messages
  for the user are left out, apart from the keys of the reasons.
\<close>

record routeEntry =
  re_dest :: bytes
  re_type :: bytes
  re_via :: bytes
  re_dev :: bytes
  re_proto :: bytes
  re_src :: bytes
  re_scope :: bytes
  re_metric :: bytes
  re_hasMetric :: bool
  re_tos :: int
  re_table :: bytes
  re_raw :: bytes

record routeGetResult =
  rg_dest :: bytes
  rg_type :: bytes
  rg_via :: bytes
  rg_dev :: bytes
  rg_table :: bytes
  rg_src :: bytes
  rg_raw :: bytes

record ipRule =
  ir_priority :: bytes
  ir_table :: bytes
  ir_not :: bool
  ir_raw :: bytes

definition routeTypesWithoutDev :: "bytes list" where
  "routeTypesWithoutDev = [''throw'', ''unreachable'', ''prohibit'', ''blackhole'']"

datatype routeError = NoDest | NoDev | NoMetricValue | NoDestOrDev | NoTargetRoute

subsection \<open>Commands for a human\<close>

definition route_type_arg :: "routeEntry \<Rightarrow> bytes list" where
  "route_type_arg entry = (if re_type entry \<noteq> [] \<and> re_type entry \<noteq> ''unicast'' then [re_type entry] else [])"

definition route_opt :: "bytes \<Rightarrow> bytes \<Rightarrow> bytes list" where
  "route_opt word value = (if value \<noteq> [] then [word, value] else [])"

definition route_table_arg :: "routeEntry \<Rightarrow> bytes list" where
  "route_table_arg entry =
     (if re_table entry \<noteq> [] \<and> re_table entry \<noteq> ''main'' then [''table'', re_table entry] else [])"

definition route_metric_arg :: "routeEntry \<Rightarrow> bytes list" where
  "route_metric_arg entry = (if re_hasMetric entry then [''metric'', re_metric entry] else [])"

definition routeReplaceArgs :: "routeEntry \<Rightarrow> bytes \<Rightarrow> routeError + bytes list" where
  "routeReplaceArgs entry newVia =
     (if re_dest entry = [] then Inl NoDest
      else if re_dev entry = [] \<and> re_type entry \<notin> set routeTypesWithoutDev then Inl NoDev
      else if re_hasMetric entry \<and> re_metric entry = [] then Inl NoMetricValue
      else Inr
        ([''route'', ''replace''] @ route_type_arg entry @ [re_dest entry] @
         route_opt ''via'' (if newVia = [] then re_via entry else newVia) @ route_opt ''dev'' (re_dev entry) @
         route_opt ''proto'' (re_proto entry) @ route_opt ''src'' (re_src entry) @ route_metric_arg entry @
         route_table_arg entry))"

definition routeDeleteArgs :: "routeEntry \<Rightarrow> routeError + bytes list" where
  "routeDeleteArgs entry =
     (if re_dest entry = [] \<or> (re_dev entry = [] \<and> re_type entry \<notin> set routeTypesWithoutDev) then Inl NoDestOrDev
      else Inr
        ([''route'', ''del''] @ route_type_arg entry @ [re_dest entry] @ route_opt ''via'' (re_via entry) @
         route_opt ''dev'' (re_dev entry) @ route_metric_arg entry @ route_table_arg entry))"

definition renderRouteEntry :: "routeEntry \<Rightarrow> bytes" where
  "renderRouteEntry entry =
     join_with '' ''
       (route_type_arg entry @ [re_dest entry] @ route_opt ''via'' (re_via entry) @ route_opt ''dev'' (re_dev entry) @
        route_opt ''proto'' (re_proto entry) @ route_opt ''scope'' (re_scope entry) @ route_opt ''src'' (re_src entry) @
        route_metric_arg entry @ route_table_arg entry)"

definition renderRouteEntries :: "routeEntry list \<Rightarrow> bytes" where
  "renderRouteEntries entries = join_with [CHR 0x0A] (map renderRouteEntry entries)"

definition renderIPRules :: "ipRule list \<Rightarrow> bytes" where
  "renderIPRules rules = join_with [CHR 0x0A] (map ir_raw rules)"

subsection \<open>Routes of a destination\<close>

definition routeCountFor :: "routeEntry list \<Rightarrow> bytes \<Rightarrow> nat" where
  "routeCountFor entries dest = fold (\<lambda>entry count. if re_dest entry = dest then count + 1 else count) entries 0"

definition entriesForDest :: "routeEntry list \<Rightarrow> bytes \<Rightarrow> routeEntry list" where
  "entriesForDest entries dest = filter (\<lambda>entry. re_dest entry = dest) entries"

definition routeGetMatches :: "routeGetResult \<Rightarrow> routeEntry \<Rightarrow> bool" where
  "routeGetMatches get entry =
     (if rg_dev get \<noteq> re_dev entry then False
      else if re_via entry \<noteq> [] \<and> rg_via get \<noteq> re_via entry then False
      else True)"

definition parseSSHConnection :: "bytes \<Rightarrow> (bytes \<times> bytes) option" where
  "parseSSHConnection value =
     (let fields = text_fields value in
      if length fields \<noteq> 4 then None else Some (fields ! 0, fields ! 2))"

subsection \<open>The risk of cutting off the own session\<close>

definition tunnelDevicePrefixes :: "bytes list" where
  "tunnelDevicePrefixes = [''tailscale'', ''wg'', ''tun'', ''vxlan'']"

definition isTunnelDevice :: "bytes \<Rightarrow> bool" where
  "isTunnelDevice dev = list_ex (has_prefix dev) tunnelDevicePrefixes"

record lockoutAssessment =
  la_sessionGet :: routeGetResult
  la_targetEntry :: routeEntry
  la_underlayGet :: "routeGetResult option"

definition lockoutRisk :: "lockoutAssessment \<Rightarrow> bytes \<times> bytes" where
  "lockoutRisk a =
     (if \<not> isTunnelDevice (rg_dev (la_sessionGet a)) then
        (if routeGetMatches (la_sessionGet a) (la_targetEntry a)
         then (''high'', ''route.lockout.reason.session_rides'')
         else (''low'', ''route.lockout.reason.session_clear''))
      else
        (case la_underlayGet a of
           None \<Rightarrow> (''high'', ''route.lockout.reason.underlay_unresolved'')
         | Some get \<Rightarrow>
             if routeGetMatches get (la_targetEntry a) then (''high'', ''route.lockout.reason.underlay_rides'')
             else (''low'', ''route.lockout.reason.underlay_clear'')))"

subsection \<open>Reachability of an exit\<close>

record neighborEntry =
  ne_dest :: bytes
  ne_dev :: bytes
  ne_lladdr :: bytes
  ne_state :: bytes

record linkInfo =
  li_name :: bytes
  li_flags :: "bytes list"
  li_mtu :: int
  li_state :: bytes

definition reachUsable :: bytes where "reachUsable = ''usable''"
definition reachBroken :: bytes where "reachBroken = ''broken''"
definition reachUnknown :: bytes where "reachUnknown = ''unknown''"

lemmas reach_names = reachUsable_def reachBroken_def reachUnknown_def

fun neighborReach :: "neighborEntry list \<Rightarrow> bytes \<Rightarrow> bytes \<times> bytes" where
  "neighborReach [] dest = (reachUnknown, [])"
| "neighborReach (entry # entries) dest =
     (if ne_dest entry \<noteq> dest then neighborReach entries dest
      else if ne_state entry = ''INCOMPLETE'' \<or> ne_state entry = ''FAILED'' then (reachBroken, ne_state entry)
      else if ne_lladdr entry = [] then (reachUnknown, ne_state entry)
      else (reachUsable, ne_state entry))"

fun linkReach :: "linkInfo list \<Rightarrow> bytes \<Rightarrow> bytes \<times> bytes \<times> int" where
  "linkReach [] name = (reachUnknown, [], 0)"
| "linkReach (link # links) name =
     (if li_name link \<noteq> name then linkReach links name
      else if ''UP'' \<notin> set (li_flags link) then (reachBroken, ''DOWN'', li_mtu link)
      else if ''NO-CARRIER'' \<in> set (li_flags link) then (reachBroken, ''NO-CARRIER'', li_mtu link)
      else (reachUsable, li_state link, li_mtu link))"

definition exitReach :: "neighborEntry list \<Rightarrow> linkInfo list \<Rightarrow> bytes \<Rightarrow> bytes \<Rightarrow> bytes \<times> bytes \<times> bytes \<times> int" where
  "exitReach neighbors links via dev =
     (case neighborReach neighbors via of (neighborState, neighborDetail) \<Rightarrow>
      case linkReach links dev of (linkState, linkDetail, mtu) \<Rightarrow>
        if neighborState = reachBroken \<or> linkState = reachBroken then (reachBroken, neighborDetail, linkDetail, mtu)
        else if neighborState = reachUsable \<and> linkState = reachUsable
        then (reachUsable, neighborDetail, linkDetail, mtu)
        else (reachUnknown, neighborDetail, linkDetail, mtu))"

subsection \<open>Exits\<close>

record routeExit =
  xt_name :: bytes
  xt_via :: bytes
  xt_dev :: bytes
  xt_expectPublicIP :: bytes

fun findRouteExit :: "routeExit list \<Rightarrow> bytes \<Rightarrow> routeExit option" where
  "findRouteExit [] name = None"
| "findRouteExit (e # es) name = (if xt_name e = name then Some e else findRouteExit es name)"

definition routeExitNames :: "routeExit list \<Rightarrow> bytes list" where
  "routeExitNames exits = map xt_name exits"

text \<open>The part of \<open>loadRouteExits\<close> after the file is parsed.\<close>

definition routeDefaultDest :: bytes where "routeDefaultDest = ''default''"

definition checkRouteExits :: "bytes \<Rightarrow> routeExit list \<Rightarrow> (bytes \<times> routeExit list) option" where
  "checkRouteExits dest exits =
     (if list_ex (\<lambda>e. xt_name e = [] \<or> xt_via e = [] \<or> xt_dev e = []) exits then None
      else Some (if dest = [] then routeDefaultDest else dest, exits))"

subsection \<open>The guard timer\<close>

definition guardTierArmedConfirmed :: nat where "guardTierArmedConfirmed = 1"
definition guardTierArmedUnconfirmed :: nat where "guardTierArmedUnconfirmed = 3"
definition guardTierNoGuard :: nat where "guardTierNoGuard = 4"

lemmas guard_tiers = guardTierArmedConfirmed_def guardTierArmedUnconfirmed_def guardTierNoGuard_def

definition systemdRunArgs :: "bytes \<Rightarrow> nat \<Rightarrow> bytes \<Rightarrow> bytes \<Rightarrow> bytes list" where
  "systemdRunArgs unit seconds statePath edcPath =
     [''--collect'', ''--on-active='' @ decimal seconds, ''--timer-property=AccuracySec=1s'', ''--unit='' @ unit,
      edcPath, ''route'', ''rollback'', ''--state'', statePath]"

definition routeRollbackUnitName :: "bytes \<Rightarrow> bytes" where
  "routeRollbackUnitName runID = ''edc-route-rollback-'' @ runID"

definition parseIsActive :: "bytes \<Rightarrow> bool" where
  "parseIsActive output \<longleftrightarrow> trim_space output = ''active''"

record guardProbe =
  gp_armAttempted :: bool
  gp_armSucceeded :: bool
  gp_isActive :: bool

definition detectGuardTier :: "guardProbe \<Rightarrow> nat" where
  "detectGuardTier probe =
     (if \<not> gp_armAttempted probe \<or> \<not> gp_armSucceeded probe then guardTierNoGuard
      else if \<not> gp_isActive probe then guardTierArmedUnconfirmed
      else guardTierArmedConfirmed)"

definition guardDecision :: "nat \<Rightarrow> bytes \<Rightarrow> bool \<Rightarrow> bool \<times> bytes" where
  "guardDecision tier risk force =
     (if risk \<noteq> ''high'' \<or> (tier \<noteq> guardTierArmedUnconfirmed \<and> tier \<noteq> guardTierNoGuard)
      then (True, ''route.guard.reason.allowed'')
      else if force then (True, ''route.guard.reason.forced'')
      else (False, ''route.guard.reason.denied''))"

subsection \<open>Snapshots and rollback\<close>

definition routeStateSchemaVersion :: int where "routeStateSchemaVersion = 2"

record routeSnapshot =
  rs_schemaVersion :: int
  rs_runID :: bytes
  rs_dest :: bytes
  rs_routeTableText :: bytes
  rs_ipRuleText :: bytes
  rs_targetEntry :: routeEntry
  rs_newVia :: bytes
  rs_countBaseline :: nat
  rs_unitName :: bytes
  rs_sshConnection :: bytes
  rs_exitName :: bytes
  rs_seconds :: nat
  rs_completed :: bool

text \<open>The checks of \<open>readRouteState\<close> on what was decoded.\<close>

definition routeStateUsable :: "routeSnapshot \<Rightarrow> bool" where
  "routeStateUsable snapshot \<longleftrightarrow>
     rs_schemaVersion snapshot = routeStateSchemaVersion \<and>
     \<not> (rs_runID snapshot = [] \<or> rs_dest snapshot = [] \<or> re_dev (rs_targetEntry snapshot) = [] \<or>
        rs_routeTableText snapshot = [])"

definition routeEntrySpecEqual :: "routeEntry \<Rightarrow> routeEntry \<Rightarrow> bool" where
  "routeEntrySpecEqual a b \<longleftrightarrow>
     re_via a = re_via b \<and> re_dev a = re_dev b \<and> re_hasMetric a = re_hasMetric b \<and> re_metric a = re_metric b \<and>
     re_table a = re_table b"

datatype routeOp = OpReplace routeEntry bytes | OpDelete routeEntry

definition rollbackOps :: "routeSnapshot \<Rightarrow> routeEntry list \<Rightarrow> routeError + routeOp list" where
  "rollbackOps snapshot entries =
     (if re_dest (rs_targetEntry snapshot) = [] then Inl NoTargetRoute
      else
        (let ops = [OpReplace (rs_targetEntry snapshot) (re_via (rs_targetEntry snapshot))];
             matched = entriesForDest entries (rs_dest snapshot)
         in if length matched \<le> rs_countBaseline snapshot then Inr ops
            else Inr (ops @ map OpDelete
                       (filter (\<lambda>entry. \<not> routeEntrySpecEqual entry (rs_targetEntry snapshot)) matched))))"

definition routeOpArgs :: "routeOp \<Rightarrow> bytes list" where
  "routeOpArgs op =
     (case op of
        OpDelete entry \<Rightarrow>
          (case routeDeleteArgs entry of Inr args \<Rightarrow> args | Inl _ \<Rightarrow> [''route'', ''delete'', re_dest entry])
      | OpReplace entry newVia \<Rightarrow>
          (case routeReplaceArgs entry newVia of Inr args \<Rightarrow> args | Inl _ \<Rightarrow> [''route'', ''replace'', re_dest entry]))"

definition renderRouteOp :: "routeOp \<Rightarrow> bytes" where
  "renderRouteOp op = ''ip '' @ join_with '' '' (routeOpArgs op)"

definition renderRouteOps :: "routeOp list \<Rightarrow> bytes list list" where
  "renderRouteOps ops = map routeOpArgs ops"

subsection \<open>Names and numbers of the kernel\<close>

text \<open>
  The constants of Linux that the back end translates: \<open>RTN_*\<close>, \<open>RT_SCOPE_*\<close>, \<open>RT_TABLE_*\<close>, \<open>RTPROT_*\<close>,
  \<open>NUD_*\<close> and \<open>IFF_*\<close>.
\<close>

definition routeTypeNames :: "(nat \<times> bytes) list" where
  "routeTypeNames =
     [(2, ''local''), (3, ''broadcast''), (4, ''anycast''), (5, ''multicast''), (6, ''blackhole''),
      (7, ''unreachable''), (8, ''prohibit''), (9, ''throw''), (10, ''nat'')]"

definition routeScopeNames :: "(nat \<times> bytes) list" where
  "routeScopeNames = [(254, ''host''), (253, ''link''), (200, ''site''), (255, ''nowhere'')]"

definition name_of :: "(nat \<times> bytes) list \<Rightarrow> nat \<Rightarrow> bytes" where
  "name_of names n = (case map_of names n of None \<Rightarrow> [] | Some name \<Rightarrow> name)"

definition value_of :: "(nat \<times> bytes) list \<Rightarrow> nat \<Rightarrow> bytes \<Rightarrow> nat" where
  "value_of names other name = (case map_of (map (\<lambda>(n, s). (s, n)) names) name of None \<Rightarrow> other | Some n \<Rightarrow> n)"

definition routeTypeName :: "nat \<Rightarrow> bytes" where
  "routeTypeName t = name_of routeTypeNames t"

definition routeTypeValue :: "bytes \<Rightarrow> nat" where
  "routeTypeValue name = value_of routeTypeNames 1 name"

definition routeScopeName :: "nat \<Rightarrow> bytes" where
  "routeScopeName scope = name_of routeScopeNames scope"

definition routeScopeValue :: "bytes \<Rightarrow> nat" where
  "routeScopeValue name = value_of routeScopeNames 0 name"

definition routeTableName :: "int \<Rightarrow> bytes" where
  "routeTableName table =
     (if table = 254 then [] else if table = 255 then ''local'' else if table = 253 then ''default'' else itoa table)"

definition routeTableValue :: "bytes \<Rightarrow> int" where
  "routeTableValue name =
     (if name = [] \<or> name = ''main'' then 254
      else if name = ''local'' then 255
      else if name = ''default'' then 253
      else (case atoi name of None \<Rightarrow> 254 | Some n \<Rightarrow> n))"

definition ruleTableName :: "int \<Rightarrow> bytes" where
  "ruleTableName table = (if table = 254 then ''main'' else routeTableName table)"

definition routeProtocolValue :: "bytes \<Rightarrow> nat" where
  "routeProtocolValue name =
     value_of [(2, ''kernel''), (16, ''dhcp''), (4, ''static''), (9, ''ra''), (186, ''bgp''), (188, ''ospf'')] 3 name"

definition neighborStateName :: "nat \<Rightarrow> bytes" where
  "neighborStateName state =
     (if state AND 128 \<noteq> 0 then ''PERMANENT'' else if state AND 64 \<noteq> 0 then ''NOARP''
      else if state AND 2 \<noteq> 0 then ''REACHABLE'' else if state AND 4 \<noteq> 0 then ''STALE''
      else if state AND 8 \<noteq> 0 then ''DELAY'' else if state AND 16 \<noteq> 0 then ''PROBE''
      else if state AND 32 \<noteq> 0 then ''FAILED'' else if state AND 1 \<noteq> 0 then ''INCOMPLETE''
      else ''NONE'')"

definition linkFlagTable :: "(u32 \<times> bytes) list" where
  "linkFlagTable =
     [(0x2, ''BROADCAST''), (0x1000, ''MULTICAST''), (0x8, ''LOOPBACK''), (0x10, ''POINTOPOINT''), (0x80, ''NOARP''),
      (0x1, ''UP''), (0x10000, ''LOWER_UP'')]"

definition linkFlagNames :: "u32 \<Rightarrow> bytes list" where
  "linkFlagNames raw =
     (if raw AND 0x1 \<noteq> 0 \<and> raw AND 0x10000 = 0 then [''NO-CARRIER''] else []) @
     map snd (filter (\<lambda>(bit, name). raw AND bit \<noteq> 0) linkFlagTable)"


subsection \<open>Properties\<close>

lemma routeCountFor_length: "routeCountFor entries dest = length (entriesForDest entries dest)"
proof -
  have "fold (\<lambda>entry count. if re_dest entry = dest then count + 1 else count) entries n =
      n + length (filter (\<lambda>entry. re_dest entry = dest) entries)" for n
    by (induction entries arbitrary: n) auto
  then show ?thesis by (simp add: routeCountFor_def entriesForDest_def)
qed

lemma itoa_word: "itoa t \<noteq> []" "itoa t \<noteq> ''main''" "itoa t \<noteq> ''local''" "itoa t \<noteq> ''default''"
proof -
  have "itoa t \<noteq> [] \<and> (is_digit (hd (itoa t)) \<or> hd (itoa t) = CHR ''-'')"
    using decimal_digits [of "nat t"] decimal_hd [of "nat t"] by (simp add: itoa_def)
  then show "itoa t \<noteq> []" "itoa t \<noteq> ''main''" "itoa t \<noteq> ''local''" "itoa t \<noteq> ''default''"
    by (auto simp: is_digit_def)
qed

text \<open>
  The names of the kernel's numbers are read back. For every routing table that fits an \<open>int64\<close>,
  every route type that is known and every scope that has a name or is global, the number of the
  name is the number that was named, so that a snapshot keeps the table, the type and the scope.
\<close>
theorem route_names_roundtrip:
  assumes "int64_range table" and "t \<in> {1..10}" and "scope \<in> {0, 200, 253, 254, 255}"
  shows "routeTableValue (routeTableName table) = table \<and> routeTypeValue (routeTypeName t) = t \<and>
    routeScopeValue (routeScopeName scope) = scope"
proof (intro conjI)
  show "routeTableValue (routeTableName table) = table"
    using assms(1) itoa_word [of table] by (simp add: routeTableValue_def routeTableName_def atoi_itoa)
  have "t = 1 \<or> t = 2 \<or> t = 3 \<or> t = 4 \<or> t = 5 \<or> t = 6 \<or> t = 7 \<or> t = 8 \<or> t = 9 \<or> t = 10"
    using assms(2) unfolding atLeastAtMost_iff by presburger
  then show "routeTypeValue (routeTypeName t) = t"
    by (elim disjE; simp add: routeTypeValue_def routeTypeName_def name_of_def value_of_def routeTypeNames_def)
  show "routeScopeValue (routeScopeName scope) = scope"
    using assms(3)
    by (elim insertE emptyE; simp add: routeScopeValue_def routeScopeName_def name_of_def value_of_def routeScopeNames_def)
qed

theorem route_names_roundtrip_witness:
  "routeTableValue (routeTableName 52) = 52 \<and> routeTypeValue (routeTypeName 6) = 6 \<and>
   routeScopeValue (routeScopeName 253) = 253"
  by (rule route_names_roundtrip) (simp_all add: int64_range_def)

text \<open>
  What a rollback does to the routes. It first puts the route of the snapshot back over its own
  next hop. It deletes only routes that are in the table, lead to the destination of the snapshot
  and differ from its route in next hop, device, metric or table, each as often as it is there; none
  unless there are more than the snapshot counted. Without them only routes like that of the
  snapshot are left to the destination.
\<close>
theorem rollback_ops_minimal:
  assumes "rollbackOps snap entries = Inr ops"
  shows "\<exists>deleted. ops = OpReplace (rs_targetEntry snap) (re_via (rs_targetEntry snap)) # map OpDelete deleted \<and>
    (\<forall>entry\<in>set deleted. entry \<in> set entries \<and> re_dest entry = rs_dest snap \<and>
       \<not> routeEntrySpecEqual entry (rs_targetEntry snap)) \<and>
    (routeCountFor entries (rs_dest snap) \<le> rs_countBaseline snap \<longrightarrow> deleted = []) \<and>
    (rs_countBaseline snap < routeCountFor entries (rs_dest snap) \<longrightarrow>
       (\<forall>entry\<in>set entries. re_dest entry = rs_dest snap \<longrightarrow>
          count_list deleted entry =
            (if routeEntrySpecEqual entry (rs_targetEntry snap) then 0 else count_list entries entry)))"
proof -
  let ?other = "\<lambda>entry. \<not> routeEntrySpecEqual entry (rs_targetEntry snap)"
  let ?deleted = "if length (entriesForDest entries (rs_dest snap)) \<le> rs_countBaseline snap then []
    else filter ?other (entriesForDest entries (rs_dest snap))"
  have ops: "ops = OpReplace (rs_targetEntry snap) (re_via (rs_targetEntry snap)) # map OpDelete ?deleted"
    using assms by (auto simp: rollbackOps_def Let_def split: if_splits)
  have count: "count_list (filter P xs) x = (if P x then count_list xs x else 0)" for P :: "routeEntry \<Rightarrow> bool" and xs x
    by (induction xs) auto
  show ?thesis
    by (rule exI [of _ ?deleted])
      (auto simp: ops routeCountFor_length entriesForDest_def count split: if_splits)
qed

definition demo_entry :: "bytes \<Rightarrow> routeEntry" where
  "demo_entry via =
     \<lparr>re_dest = ''default'', re_type = [], re_via = via, re_dev = ''eth0'', re_proto = ''dhcp'', re_src = [],
      re_scope = [], re_metric = [], re_hasMetric = False, re_tos = 0, re_table = [], re_raw = []\<rparr>"

definition demo_snapshot :: routeSnapshot where
  "demo_snapshot =
     \<lparr>rs_schemaVersion = 2, rs_runID = ''r1'', rs_dest = ''default'', rs_routeTableText = ''default'',
      rs_ipRuleText = [], rs_targetEntry = demo_entry ''10.0.0.1'', rs_newVia = ''10.0.0.2'', rs_countBaseline = 1,
      rs_unitName = ''u'', rs_sshConnection = [], rs_exitName = ''b'', rs_seconds = 120, rs_completed = False\<rparr>"

theorem rollback_ops_minimal_witness:
  "\<exists>deleted. [OpReplace (demo_entry ''10.0.0.1'') ''10.0.0.1'', OpDelete (demo_entry ''10.0.0.2'')] =
     OpReplace (rs_targetEntry demo_snapshot) (re_via (rs_targetEntry demo_snapshot)) # map OpDelete deleted"
proof -
  have "rollbackOps demo_snapshot [demo_entry ''10.0.0.1'', demo_entry ''10.0.0.2''] =
      Inr [OpReplace (demo_entry ''10.0.0.1'') ''10.0.0.1'', OpDelete (demo_entry ''10.0.0.2'')]"
    by (simp add: rollbackOps_def entriesForDest_def routeEntrySpecEqual_def demo_snapshot_def demo_entry_def)
  from rollback_ops_minimal [OF this] show ?thesis by (elim exE conjE) (rule exI)
qed

text \<open>
  C38. The type of service is part of the key of a route in the kernel, but not of what a rollback
  compares and prints: a route that differs from that of the snapshot only there is never deleted,
  and the commands for a human do not name it.
\<close>
theorem rollback_blind_to_tos:
  "OpDelete ((rs_targetEntry snap)\<lparr>re_tos := tos\<rparr>) \<notin> (case rollbackOps snap entries of Inl _ \<Rightarrow> {} | Inr ops \<Rightarrow> set ops) \<and>
   routeOpArgs (OpDelete (entry\<lparr>re_tos := tos\<rparr>)) = routeOpArgs (OpDelete entry) \<and>
   routeOpArgs (OpReplace (entry\<lparr>re_tos := tos\<rparr>) via) = routeOpArgs (OpReplace entry via)"
proof (intro conjI)
  show "OpDelete ((rs_targetEntry snap)\<lparr>re_tos := tos\<rparr>) \<notin> (case rollbackOps snap entries of Inl _ \<Rightarrow> {} | Inr ops \<Rightarrow> set ops)"
    by (auto simp: rollbackOps_def Let_def routeEntrySpecEqual_def)
qed (simp_all add: routeOpArgs_def routeDeleteArgs_def routeReplaceArgs_def route_type_arg_def route_opt_def
      route_metric_arg_def route_table_arg_def)

text \<open>
  When a change is refused. \<open>guardDecision\<close> refuses exactly when the risk is high, the timer is
  not confirmed as armed and active, and the change is not forced. The risk is low only if the
  device that carries the session (behind a tunnel, the device under it, which must be known) is not
  the one of the route, or its next hop is another one.
\<close>
theorem guard_refuses_exactly:
  "fst (guardDecision (detectGuardTier probe) (fst (lockoutRisk a)) force) \<longleftrightarrow>
     force \<or> (gp_armAttempted probe \<and> gp_armSucceeded probe \<and> gp_isActive probe) \<or>
     (\<exists>get. (if isTunnelDevice (rg_dev (la_sessionGet a)) then la_underlayGet a = Some get else get = la_sessionGet a) \<and>
        \<not> (rg_dev get = re_dev (la_targetEntry a) \<and>
           (re_via (la_targetEntry a) = [] \<or> rg_via get = re_via (la_targetEntry a))))"
  by (auto simp: guardDecision_def detectGuardTier_def guard_tiers lockoutRisk_def routeGetMatches_def
      split: option.splits)

end
