(* ===== verification/RouteSwitch.thy ===== *)
theory RouteSwitch
  imports RoutePlan "HOL-Library.State_Monad" "HOL-Library.Monad_Syntax"
begin

text \<open>
  \<open>executeRouteSwitch\<close> and \<open>executeRouteRollback\<close> of internal/edc/route.go: change the exit of a host
  under a dead man's switch. The world outside (the kernel's routing tables, systemd, the state file,
  the public address service, the user) is a record of functions over a state \<open>'w\<close> that may answer
  anything; the code is a program in the state monad over that state and a log of what it did.
  Errors are kept as failure, without their texts.
\<close>

record 'w routeEnv =
  en_routes :: "'w \<Rightarrow> routeEntry list option \<times> 'w"
  en_rules :: "'w \<Rightarrow> ipRule list option \<times> 'w"
  en_neighbors :: "'w \<Rightarrow> neighborEntry list option \<times> 'w"
  en_links :: "'w \<Rightarrow> linkInfo list option \<times> 'w"
  en_routeTo :: "bytes \<Rightarrow> 'w \<Rightarrow> routeGetResult option \<times> 'w"
  en_replace :: "routeEntry \<Rightarrow> bytes \<Rightarrow> 'w \<Rightarrow> bool \<times> 'w"
  en_delete :: "routeEntry \<Rightarrow> 'w \<Rightarrow> bool \<times> 'w"
  en_run :: "bytes \<Rightarrow> bytes list \<Rightarrow> 'w \<Rightarrow> (bool \<times> bytes) \<times> 'w"
  en_writeState :: "bytes \<Rightarrow> routeSnapshot \<Rightarrow> 'w \<Rightarrow> bool \<times> 'w"
  en_publicIP :: "'w \<Rightarrow> bytes option \<times> 'w"
  en_signal :: "'w \<Rightarrow> bool \<times> 'w"
  en_confirm :: "bool \<Rightarrow> 'w \<Rightarrow> (bool \<times> bool) \<times> 'w"

text \<open>What was done: the flag of an action says whether it succeeded.\<close>

datatype routeAction =
    DidRead "routeEntry list option"
  | DidRouteTo bytes "routeGetResult option"
  | DidReplace routeEntry bytes bool
  | DidDelete routeEntry bool
  | DidRun bytes "bytes list" bool bytes
  | DidWrite bytes routeSnapshot bool
  | DidAsk bool "bool \<times> bool"

type_synonym ('w, 'a) route = "('w \<times> routeAction list, 'a) state"

definition observe_world :: "('w \<Rightarrow> 'a \<times> 'w) \<Rightarrow> ('w, 'a) route" where
  "observe_world f = State (\<lambda>(w, log). case f w of (a, w1) \<Rightarrow> (a, (w1, log)))"

definition act_world :: "('w \<Rightarrow> 'a \<times> 'w) \<Rightarrow> ('a \<Rightarrow> routeAction) \<Rightarrow> ('w, 'a) route" where
  "act_world f action = State (\<lambda>(w, log). case f w of (a, w1) \<Rightarrow> (a, (w1, log @ [action a])))"

definition readRoutes :: "'w routeEnv \<Rightarrow> ('w, routeEntry list option) route" where
  "readRoutes env = act_world (en_routes env) DidRead"

definition replaceRoute :: "'w routeEnv \<Rightarrow> routeEntry \<Rightarrow> bytes \<Rightarrow> ('w, bool) route" where
  "replaceRoute env entry via = act_world (en_replace env entry via) (DidReplace entry via)"

definition deleteRoute :: "'w routeEnv \<Rightarrow> routeEntry \<Rightarrow> ('w, bool) route" where
  "deleteRoute env entry = act_world (en_delete env entry) (DidDelete entry)"

definition runCommand :: "'w routeEnv \<Rightarrow> bytes \<Rightarrow> bytes list \<Rightarrow> ('w, bool \<times> bytes) route" where
  "runCommand env name args = act_world (en_run env name args) (\<lambda>(ok, output). DidRun name args ok output)"

definition writeRouteState :: "'w routeEnv \<Rightarrow> bytes \<Rightarrow> routeSnapshot \<Rightarrow> ('w, bool) route" where
  "writeRouteState env path snapshot = act_world (en_writeState env path snapshot) (DidWrite path snapshot)"

subsection \<open>Results\<close>

datatype routeStatus = StatusPass | StatusWarn | StatusFail | StatusSkip

text \<open>\<open>rr_kind\<close> is the kind of the error, empty when there is none.\<close>

datatype routeWarning = RulesChanged | TimerNotStopped | RollbackSummary routeStatus bytes

record routeResult =
  rr_status :: routeStatus
  rr_kind :: bytes
  rr_warnings :: "routeWarning list"

definition resultFromError :: "bytes \<Rightarrow> routeResult" where
  "resultFromError kind = \<lparr>rr_status = StatusFail, rr_kind = kind, rr_warnings = []\<rparr>"

definition resultPass :: "routeWarning list \<Rightarrow> routeResult" where
  "resultPass warnings = \<lparr>rr_status = StatusPass, rr_kind = [], rr_warnings = warnings\<rparr>"

record routeRollbackOutcome =
  ro_result :: routeResult
  ro_remaining :: "bytes list list"

record routeSwitchOutcome =
  sw_result :: routeResult
  sw_cancelled :: bool

subsection \<open>The guard\<close>

definition armGuard :: "'w routeEnv \<Rightarrow> bytes \<Rightarrow> nat \<Rightarrow> bytes \<Rightarrow> bytes \<Rightarrow> ('w, guardProbe) route" where
  "armGuard env unit seconds statePath edcPath =
     do {
       r \<leftarrow> runCommand env ''systemd-run'' (systemdRunArgs unit seconds statePath edcPath);
       if \<not> fst r
       then State_Monad.return \<lparr>gp_armAttempted = True, gp_armSucceeded = False, gp_isActive = False\<rparr>
       else do {
         a \<leftarrow> runCommand env ''systemctl'' [''is-active'', unit @ ''.timer''];
         State_Monad.return \<lparr>gp_armAttempted = True, gp_armSucceeded = True, gp_isActive = parseIsActive (snd a)\<rparr>
       }
     }"

text \<open>Whether the timer could not be stopped (a warning only).\<close>

definition disarmGuard :: "'w routeEnv \<Rightarrow> bytes \<Rightarrow> ('w, bool) route" where
  "disarmGuard env unit =
     do {
       r \<leftarrow> runCommand env ''systemctl'' [''stop'', unit @ ''.timer''];
       State_Monad.return (\<not> fst r)
     }"

definition assessRouteLockout :: "'w routeEnv \<Rightarrow> routeEntry \<Rightarrow> bytes \<Rightarrow> ('w, bytes option) route" where
  "assessRouteLockout env targetEntry client =
     do {
       get \<leftarrow> act_world (en_routeTo env client) (DidRouteTo client);
       State_Monad.return
         (map_option
           (\<lambda>g. fst (lockoutRisk \<lparr>la_sessionGet = g, la_targetEntry = targetEntry, la_underlayGet = None\<rparr>)) get)
     }"

definition routeExitReachability :: "'w routeEnv \<Rightarrow> bytes \<Rightarrow> bytes \<Rightarrow> ('w, bytes) route" where
  "routeExitReachability env via dev =
     do {
       neighbors \<leftarrow> observe_world (en_neighbors env);
       case neighbors of
         None \<Rightarrow> State_Monad.return reachUnknown
       | Some ns \<Rightarrow> do {
           links \<leftarrow> observe_world (en_links env);
           case links of
             None \<Rightarrow> State_Monad.return reachUnknown
           | Some ls \<Rightarrow> State_Monad.return (fst (exitReach ns ls via dev))
         }
     }"

subsection \<open>Rollback\<close>

definition applyRouteOp :: "'w routeEnv \<Rightarrow> routeOp \<Rightarrow> ('w, bool) route" where
  "applyRouteOp env op =
     (case op of OpDelete entry \<Rightarrow> deleteRoute env entry | OpReplace entry newVia \<Rightarrow> replaceRoute env entry newVia)"

text \<open>The loop over the operations: what is left when one of them fails.\<close>

primrec applyRouteOps :: "'w routeEnv \<Rightarrow> routeOp list \<Rightarrow> ('w, routeOp list) route" where
  "applyRouteOps env [] = State_Monad.return []"
| "applyRouteOps env (op # ops) =
     do {
       ok \<leftarrow> applyRouteOp env op;
       if ok then applyRouteOps env ops else State_Monad.return (op # ops)
     }"

definition rollback_fail :: "bytes \<Rightarrow> routeOp list \<Rightarrow> routeRollbackOutcome" where
  "rollback_fail kind ops = \<lparr>ro_result = resultFromError kind, ro_remaining = renderRouteOps ops\<rparr>"

text \<open>The end of a rollback whose routes are verified.\<close>

definition finishRollback ::
  "'w routeEnv \<Rightarrow> bytes \<Rightarrow> routeSnapshot \<Rightarrow> ipRule list \<Rightarrow> ('w, routeRollbackOutcome) route" where
  "finishRollback env statePath snapshot afterRules =
     do {
       warning \<leftarrow> disarmGuard env (rs_unitName snapshot);
       ok \<leftarrow> writeRouteState env statePath (snapshot\<lparr>rs_completed := True\<rparr>);
       if \<not> ok then State_Monad.return (rollback_fail ''state'' [])
       else
         (let changed = (renderIPRules afterRules \<noteq> rs_ipRuleText snapshot) in
          State_Monad.return
            \<lparr>ro_result =
               \<lparr>rr_status = (if changed then StatusWarn else StatusPass), rr_kind = [],
                rr_warnings = (if changed then [RulesChanged] else []) @ (if warning then [TimerNotStopped] else [])\<rparr>,
             ro_remaining = []\<rparr>)
     }"

definition verifyRollback ::
  "'w routeEnv \<Rightarrow> bytes \<Rightarrow> routeSnapshot \<Rightarrow> routeOp list \<Rightarrow> ('w, routeRollbackOutcome) route" where
  "verifyRollback env statePath snapshot ops =
     do {
       after \<leftarrow> readRoutes env;
       case after of
         None \<Rightarrow> State_Monad.return (rollback_fail ''netlink'' [])
       | Some afterEntries \<Rightarrow> do {
           rules \<leftarrow> observe_world (en_rules env);
           case rules of
             None \<Rightarrow> State_Monad.return (rollback_fail ''netlink'' [])
           | Some afterRules \<Rightarrow>
               if routeCountFor afterEntries (rs_dest snapshot) \<noteq> rs_countBaseline snapshot
               then State_Monad.return (rollback_fail ''verify'' ops)
               else finishRollback env statePath snapshot afterRules
         }
     }"

definition executeRouteRollback ::
  "'w routeEnv \<Rightarrow> bytes \<Rightarrow> routeSnapshot \<Rightarrow> ('w, routeRollbackOutcome) route" where
  "executeRouteRollback env statePath snapshot =
     do {
       current \<leftarrow> readRoutes env;
       case current of
         None \<Rightarrow> State_Monad.return (rollback_fail ''netlink'' [])
       | Some currentEntries \<Rightarrow>
           (case rollbackOps snapshot currentEntries of
              Inl _ \<Rightarrow> State_Monad.return (rollback_fail ''route'' [])
            | Inr ops \<Rightarrow> do {
                left \<leftarrow> applyRouteOps env ops;
                if left \<noteq> [] then State_Monad.return (rollback_fail ''netlink'' left)
                else verifyRollback env statePath snapshot ops
              })
     }"

subsection \<open>Switch\<close>

record routeSwitchInput =
  si_dest :: bytes
  si_exit :: routeExit
  si_seconds :: nat
  si_force :: bool
  si_dryRun :: bool
  si_edcPath :: bytes
  si_execID :: bytes
  si_statePath :: bytes
  si_sshConnection :: bytes

definition switch_fail :: "bytes \<Rightarrow> routeSwitchOutcome" where
  "switch_fail kind = \<lparr>sw_result = resultFromError kind, sw_cancelled = False\<rparr>"

definition abortRouteSwitch ::
  "'w routeEnv \<Rightarrow> bytes \<Rightarrow> routeSnapshot \<Rightarrow> ('w, routeSwitchOutcome) route" where
  "abortRouteSwitch env statePath snapshot =
     do {
       _ \<leftarrow> disarmGuard env (rs_unitName snapshot);
       _ \<leftarrow> writeRouteState env statePath (snapshot\<lparr>rs_completed := True\<rparr>);
       State_Monad.return (switch_fail ''guard'')
     }"

definition routeSwitchRollbackAndFail ::
  "'w routeEnv \<Rightarrow> bytes \<Rightarrow> routeSnapshot \<Rightarrow> ('w, routeSwitchOutcome) route" where
  "routeSwitchRollbackAndFail env statePath snapshot =
     do {
       outcome \<leftarrow> executeRouteRollback env statePath snapshot;
       State_Monad.return
         \<lparr>sw_result = (resultFromError ''verify'')\<lparr>rr_warnings :=
              [RollbackSummary (rr_status (ro_result outcome)) (rr_kind (ro_result outcome))]\<rparr>,
          sw_cancelled = False\<rparr>
     }"

text \<open>The confirmation: a signal that comes first counts as a refusal.\<close>

definition routeSwitchAwaitConfirm :: "'w routeEnv \<Rightarrow> bool \<Rightarrow> ('w, bool \<times> bool) route" where
  "routeSwitchAwaitConfirm env initial =
     do {
       signalled \<leftarrow> observe_world (en_signal env);
       if signalled then State_Monad.return (False, True)
       else act_world (en_confirm env initial) (DidAsk initial)
     }"

definition routeSwitchAutoConfirm :: "bool \<Rightarrow> 'w \<Rightarrow> (bool \<times> bool) \<times> 'w" where
  "routeSwitchAutoConfirm initial w = ((initial, False), w)"

text \<open>After the exit was verified: ask, then finish or roll back.\<close>

definition confirmRouteSwitch ::
  "'w routeEnv \<Rightarrow> routeSwitchInput \<Rightarrow> routeSnapshot \<Rightarrow> bool \<Rightarrow> ('w, routeSwitchOutcome) route" where
  "confirmRouteSwitch env input snapshot matched =
     do {
       answer \<leftarrow> routeSwitchAwaitConfirm env matched;
       if \<not> fst answer \<or> snd answer then do {
         outcome \<leftarrow> executeRouteRollback env (si_statePath input) snapshot;
         State_Monad.return \<lparr>sw_result = ro_result outcome, sw_cancelled = True\<rparr>
       }
       else do {
         warning \<leftarrow> disarmGuard env (rs_unitName snapshot);
         ok \<leftarrow> writeRouteState env (si_statePath input) (snapshot\<lparr>rs_completed := True\<rparr>);
         State_Monad.return
           (if \<not> ok then switch_fail ''state''
            else \<lparr>sw_result = resultPass (if warning then [TimerNotStopped] else []), sw_cancelled = False\<rparr>)
       }
     }"

definition verifyRouteSwitch ::
  "'w routeEnv \<Rightarrow> routeSwitchInput \<Rightarrow> routeSnapshot \<Rightarrow> ('w, routeSwitchOutcome) route" where
  "verifyRouteSwitch env input snapshot =
     do {
       after \<leftarrow> readRoutes env;
       case after of
         None \<Rightarrow> routeSwitchRollbackAndFail env (si_statePath input) snapshot
       | Some afterEntries \<Rightarrow>
           if routeCountFor afterEntries (si_dest input) \<noteq> rs_countBaseline snapshot
           then routeSwitchRollbackAndFail env (si_statePath input) snapshot
           else if xt_expectPublicIP (si_exit input) = [] then confirmRouteSwitch env input snapshot False
           else do {
             info \<leftarrow> observe_world (en_publicIP env);
             if info = Some (xt_expectPublicIP (si_exit input)) then confirmRouteSwitch env input snapshot True
             else routeSwitchRollbackAndFail env (si_statePath input) snapshot
           }
     }"

definition switch_risk :: "'w routeEnv \<Rightarrow> routeSwitchInput \<Rightarrow> routeEntry \<Rightarrow> ('w, bytes) route" where
  "switch_risk env input targetEntry =
     (case parseSSHConnection (si_sshConnection input) of
        None \<Rightarrow> State_Monad.return ''high''
      | Some (client, server) \<Rightarrow> do {
          measured \<leftarrow> assessRouteLockout env targetEntry client;
          State_Monad.return (case measured of None \<Rightarrow> ''high'' | Some risk \<Rightarrow> risk)
        })"

definition changeRoute ::
  "'w routeEnv \<Rightarrow> routeSwitchInput \<Rightarrow> routeSnapshot \<Rightarrow> bytes \<Rightarrow> ('w, routeSwitchOutcome) route" where
  "changeRoute env input snapshot risk =
     do {
       written \<leftarrow> writeRouteState env (si_statePath input) snapshot;
       if \<not> written then State_Monad.return (switch_fail ''state'')
       else do {
         probe \<leftarrow> armGuard env (rs_unitName snapshot) (si_seconds input) (si_statePath input) (si_edcPath input);
         if \<not> fst (guardDecision (detectGuardTier probe) risk (si_force input))
         then abortRouteSwitch env (si_statePath input) snapshot
         else do {
           replaced \<leftarrow> replaceRoute env (rs_targetEntry snapshot) (xt_via (si_exit input));
           if \<not> replaced then abortRouteSwitch env (si_statePath input) snapshot
           else verifyRouteSwitch env input snapshot
         }
       }
     }"

definition switch_snapshot :: "routeSwitchInput \<Rightarrow> routeEntry list \<Rightarrow> ipRule list \<Rightarrow> routeSnapshot" where
  "switch_snapshot input entries rules =
     (let targets = entriesForDest entries (si_dest input) in
      \<lparr>rs_schemaVersion = routeStateSchemaVersion, rs_runID = si_execID input, rs_dest = si_dest input,
       rs_routeTableText = renderRouteEntries entries, rs_ipRuleText = renderIPRules rules,
       rs_targetEntry = hd targets, rs_newVia = xt_via (si_exit input), rs_countBaseline = length targets,
       rs_unitName = routeRollbackUnitName (si_execID input), rs_sshConnection = si_sshConnection input,
       rs_exitName = xt_name (si_exit input), rs_seconds = si_seconds input, rs_completed = False\<rparr>)"

definition executeRouteSwitch :: "'w routeEnv \<Rightarrow> routeSwitchInput \<Rightarrow> ('w, routeSwitchOutcome) route" where
  "executeRouteSwitch env input =
     do {
       current \<leftarrow> readRoutes env;
       case current of
         None \<Rightarrow> State_Monad.return (switch_fail ''netlink'')
       | Some entries \<Rightarrow> do {
           currentRules \<leftarrow> observe_world (en_rules env);
           case currentRules of
             None \<Rightarrow> State_Monad.return (switch_fail ''netlink'')
           | Some rules \<Rightarrow>
               if entriesForDest entries (si_dest input) = [] then State_Monad.return (switch_fail ''route'')
               else do {
                 reach \<leftarrow> routeExitReachability env (xt_via (si_exit input)) (xt_dev (si_exit input));
                 if reach = reachBroken \<and> \<not> si_force input then State_Monad.return (switch_fail ''reach'')
                 else if si_dryRun input then
                   State_Monad.return
                     (case routeReplaceArgs (hd (entriesForDest entries (si_dest input))) (xt_via (si_exit input)) of
                        Inl _ \<Rightarrow> switch_fail ''plan''
                      | Inr _ \<Rightarrow> \<lparr>sw_result = resultPass [], sw_cancelled = False\<rparr>)
                 else do {
                   risk \<leftarrow> switch_risk env input (hd (entriesForDest entries (si_dest input)));
                   changeRoute env input (switch_snapshot input entries rules) risk
                 }
               }
         }
     }"


subsection \<open>Reasoning about the log\<close>

text \<open>
  \<open>wp m Q acts\<close>: whatever the world answers, the program \<open>m\<close> started with the log \<open>acts\<close> ends with
  a result and a log that satisfy \<open>Q\<close>.
\<close>

named_theorems wp_rules \<open>weakest preconditions of the programs of this theory\<close>

definition wp :: "('w, 'a) route \<Rightarrow> ('a \<Rightarrow> routeAction list \<Rightarrow> bool) \<Rightarrow> routeAction list \<Rightarrow> bool" where
  "wp m Q acts \<longleftrightarrow> (\<forall>w. case run_state m (w, acts) of (a, (w1, acts1)) \<Rightarrow> Q a acts1)"

lemma wpD: "wp m Q acts \<Longrightarrow> run_state m (w, acts) = (a, (w1, acts1)) \<Longrightarrow> Q a acts1"
  by (auto simp: wp_def split: prod.splits)

lemma wp_mono: "wp m Q acts \<Longrightarrow> (\<And>a acts. Q a acts \<Longrightarrow> R a acts) \<Longrightarrow> wp m R acts"
  by (force simp: wp_def split: prod.splits)

lemma wp_return [wp_rules]: "Q a acts \<Longrightarrow> wp (State_Monad.return a) Q acts"
  by (simp add: wp_def)

lemma wp_bind [wp_rules]: "wp m (\<lambda>a. wp (f a) Q) acts \<Longrightarrow> wp (m \<bind> f) Q acts"
  by (force simp: wp_def split: prod.splits)

lemma wp_observe [wp_rules]: "(\<And>a. Q a acts) \<Longrightarrow> wp (observe_world f) Q acts"
  by (simp add: wp_def observe_world_def split: prod.splits)

lemma wp_act [wp_rules]: "(\<And>a. Q a (acts @ [action a])) \<Longrightarrow> wp (act_world f action) Q acts"
  by (simp add: wp_def act_world_def split: prod.splits)

lemma wp_if [wp_rules]: "(b \<Longrightarrow> wp m Q acts) \<Longrightarrow> (\<not> b \<Longrightarrow> wp n Q acts) \<Longrightarrow> wp (if b then m else n) Q acts"
  by simp

lemma wp_option [wp_rules]:
  "(x = None \<Longrightarrow> wp m Q acts) \<Longrightarrow> (\<And>y. x = Some y \<Longrightarrow> wp (f y) Q acts) \<Longrightarrow>
   wp (case x of None \<Rightarrow> m | Some y \<Rightarrow> f y) Q acts"
  by (cases x) simp_all

text \<open>What an operation of a rollback leaves in the log.\<close>

fun did_op :: "bool \<Rightarrow> routeOp \<Rightarrow> routeAction" where
  "did_op ok (OpReplace entry via) = DidReplace entry via ok"
| "did_op ok (OpDelete entry) = DidDelete entry ok"

lemma wp_applyRouteOp [wp_rules]: "(\<And>ok. Q ok (acts @ [did_op ok op])) \<Longrightarrow> wp (applyRouteOp env op) Q acts"
  by (cases op) (auto simp: applyRouteOp_def deleteRoute_def replaceRoute_def intro!: wp_rules)

lemma wp_applyRouteOps:
  assumes "Q [] (acts @ map (did_op True) ops)"
    and "\<And>done op rest. ops = done @ op # rest \<Longrightarrow>
      Q (op # rest) (acts @ map (did_op True) done @ [did_op False op])"
  shows "wp (applyRouteOps env ops) Q acts"
  using assms
proof (induction ops arbitrary: acts)
  case Nil
  then show ?case by (auto intro!: wp_rules)
next
  case (Cons op ops)
  have stop: "Q (op # ops) (acts @ [did_op False op])" using Cons.prems(2) [of "[]" op ops] by simp
  have go: "wp (applyRouteOps env ops) Q (acts @ [did_op True op])"
  proof (rule Cons.IH)
    show "Q [] ((acts @ [did_op True op]) @ map (did_op True) ops)" using Cons.prems(1) by simp
    fix "done" op' rest assume "ops = done @ op' # rest"
    then show "Q (op' # rest) ((acts @ [did_op True op]) @ map (did_op True) done @ [did_op False op'])"
      using Cons.prems(2) [of "op # done" op' rest] by simp
  qed
  show ?case using stop go by (auto intro!: wp_rules)
qed


lemmas route_acts = readRoutes_def replaceRoute_def deleteRoute_def runCommand_def writeRouteState_def
  applyRouteOp_def

text \<open>Every program only adds to the log.\<close>

definition extends :: "routeAction list \<Rightarrow> routeAction list \<Rightarrow> bool" where
  "extends acts acts1 \<longleftrightarrow> take (length acts) acts1 = acts"

lemma extends_simps [simp]: "extends acts acts" "extends acts (acts @ added)"
  by (simp_all add: extends_def)

lemma extends_snoc [intro]: "extends acts acts1 \<Longrightarrow> extends acts (acts1 @ added)"
  by (metis append_eq_append_conv_if append_take_drop_id extends_def extends_simps(2) append.assoc)

lemma extends_append: "extends acts acts1 \<Longrightarrow> \<exists>added. acts1 = acts @ added"
  by (metis append_take_drop_id extends_def)

lemma wp_disarm: "(\<And>b ok out. Q b (acts @ [DidRun ''systemctl'' [''stop'', unit @ ''.timer''] ok out])) \<Longrightarrow>
   wp (disarmGuard env unit) Q acts"
  by (auto simp: disarmGuard_def runCommand_def intro!: wp_rules)

lemma wp_read: "(\<And>r. Q r (acts @ [DidRead r])) \<Longrightarrow> wp (readRoutes env) Q acts"
  by (auto simp: readRoutes_def intro!: wp_rules)

lemma wp_write: "(\<And>ok. Q ok (acts @ [DidWrite path snap ok])) \<Longrightarrow> wp (writeRouteState env path snap) Q acts"
  by (auto simp: writeRouteState_def intro!: wp_rules)

lemma wp_replace: "(\<And>ok. Q ok (acts @ [DidReplace entry via ok])) \<Longrightarrow> wp (replaceRoute env entry via) Q acts"
  by (auto simp: replaceRoute_def intro!: wp_rules)

lemma wp_reach: "(\<And>state. Q state acts) \<Longrightarrow> wp (routeExitReachability env via dev) Q acts"
  by (auto simp: routeExitReachability_def intro!: wp_rules)

lemma wp_act_answer:
  "(\<And>a w w1. f w = (a, w1) \<Longrightarrow> Q a (acts @ [action a])) \<Longrightarrow> wp (act_world f action) Q acts"
  by (simp add: wp_def act_world_def split: prod.splits)

text \<open>The answer is one that \<open>confirm\<close> gives.\<close>

lemma wp_await:
  "Q (False, True) acts \<Longrightarrow>
   (\<And>answer w. fst (en_confirm env initial w) = answer \<Longrightarrow> Q answer (acts @ [DidAsk initial answer])) \<Longrightarrow>
   wp (routeSwitchAwaitConfirm env initial) Q acts"
  unfolding routeSwitchAwaitConfirm_def
  by (rule wp_bind, rule wp_observe, rule wp_if, simp add: wp_return, rule wp_act_answer) (metis fst_conv)

lemma wp_risk:
  assumes "Q ''high'' acts"
    and "\<And>client server. parseSSHConnection (si_sshConnection input) = Some (client, server) \<Longrightarrow>
      Q ''high'' (acts @ [DidRouteTo client None])"
    and "\<And>client server g. parseSSHConnection (si_sshConnection input) = Some (client, server) \<Longrightarrow>
      Q (fst (lockoutRisk \<lparr>la_sessionGet = g, la_targetEntry = target, la_underlayGet = None\<rparr>))
        (acts @ [DidRouteTo client (Some g)])"
  shows "wp (switch_risk env input target) Q acts"
proof -
  have "wp (assessRouteLockout env target client)
      (\<lambda>measured. wp (State_Monad.return (case measured of None \<Rightarrow> ''high'' | Some risk \<Rightarrow> risk)) Q) acts"
    if "parseSSHConnection (si_sshConnection input) = Some (client, server)" for client server
    unfolding assessRouteLockout_def
  proof (rule wp_bind, rule wp_act, rule wp_return, rule wp_return)
    fix g
    show "Q (case map_option (\<lambda>g. fst (lockoutRisk \<lparr>la_sessionGet = g, la_targetEntry = target, la_underlayGet = None\<rparr>)) g
        of None \<Rightarrow> ''high'' | Some risk \<Rightarrow> risk) (acts @ [DidRouteTo client g])"
      using assms(2,3) [OF that] by (cases g) simp_all
  qed
  then show ?thesis
    using assms(1) by (auto simp: switch_risk_def intro!: wp_return wp_bind split: option.split prod.split)
qed

lemma wp_arm:
  assumes "\<And>out. Q \<lparr>gp_armAttempted = True, gp_armSucceeded = False, gp_isActive = False\<rparr>
      (acts @ [DidRun ''systemd-run'' (systemdRunArgs unit seconds path edc) False out])"
    and "\<And>out ok active. Q \<lparr>gp_armAttempted = True, gp_armSucceeded = True, gp_isActive = parseIsActive active\<rparr>
      (acts @ [DidRun ''systemd-run'' (systemdRunArgs unit seconds path edc) True out] @
       [DidRun ''systemctl'' [''is-active'', unit @ ''.timer''] ok active])"
  shows "wp (armGuard env unit seconds path edc) Q acts"
  unfolding armGuard_def runCommand_def
proof (rule wp_bind, rule wp_act, rule wp_if)
  fix r :: "bool \<times> bytes"
  obtain ok out where r: "r = (ok, out)" by (cases r)
  show "\<not> fst r \<Longrightarrow> wp (State_Monad.return \<lparr>gp_armAttempted = True, gp_armSucceeded = False, gp_isActive = False\<rparr>) Q
      (acts @ [case r of (ok, output) \<Rightarrow> DidRun ''systemd-run'' (systemdRunArgs unit seconds path edc) ok output])"
    using assms(1) [of out] r by (auto intro!: wp_return)
  assume "\<not> \<not> fst r"
  with r show "wp (act_world (en_run env ''systemctl'' [''is-active'', unit @ ''.timer''])
        (\<lambda>(ok, output). DidRun ''systemctl'' [''is-active'', unit @ ''.timer''] ok output) \<bind>
      (\<lambda>a. State_Monad.return \<lparr>gp_armAttempted = True, gp_armSucceeded = True, gp_isActive = parseIsActive (snd a)\<rparr>)) Q
      (acts @ [case r of (ok, output) \<Rightarrow> DidRun ''systemd-run'' (systemdRunArgs unit seconds path edc) ok output])"
    using assms(2) by (auto intro!: wp_rules split: prod.split)
qed

text \<open>One rule for a whole rollback: \<open>Q\<close> has to hold at each of its ends.\<close>

lemma wp_rollback:
  assumes stop0: "Q (rollback_fail ''netlink'' []) (acts @ [DidRead None])"
    and stop1: "\<And>es. rollbackOps snap es = Inl NoTargetRoute \<Longrightarrow> Q (rollback_fail ''route'' []) (acts @ [DidRead (Some es)])"
    and stop2: "\<And>es done op rest. rollbackOps snap es = Inr (done @ op # rest) \<Longrightarrow>
      Q (rollback_fail ''netlink'' (op # rest))
        (acts @ [DidRead (Some es)] @ map (did_op True) done @ [did_op False op])"
    and stop3: "\<And>es ops after. rollbackOps snap es = Inr ops \<Longrightarrow>
      Q (rollback_fail ''netlink'' []) (acts @ [DidRead (Some es)] @ map (did_op True) ops @ [DidRead after])"
    and stop4: "\<And>es ops after. rollbackOps snap es = Inr ops \<Longrightarrow>
      routeCountFor after (rs_dest snap) \<noteq> rs_countBaseline snap \<Longrightarrow>
      Q (rollback_fail ''verify'' ops) (acts @ [DidRead (Some es)] @ map (did_op True) ops @ [DidRead (Some after)])"
    and stop5: "\<And>es ops after ok out written r. rollbackOps snap es = Inr ops \<Longrightarrow>
      routeCountFor after (rs_dest snap) = rs_countBaseline snap \<Longrightarrow>
      (if written then rr_status (ro_result r) \<noteq> StatusFail \<and> ro_remaining r = [] else r = rollback_fail ''state'' []) \<Longrightarrow>
      Q r (acts @ [DidRead (Some es)] @ map (did_op True) ops @ [DidRead (Some after)] @
           [DidRun ''systemctl'' [''stop'', rs_unitName snap @ ''.timer''] ok out,
            DidWrite path (snap\<lparr>rs_completed := True\<rparr>) written])"
  shows "wp (executeRouteRollback env path snap) Q acts"
proof -
  have fin: "wp (finishRollback env path snap rules) Q
      (acts @ [DidRead (Some es)] @ map (did_op True) ops @ [DidRead (Some after)])"
    if "rollbackOps snap es = Inr ops" "routeCountFor after (rs_dest snap) = rs_countBaseline snap" for rules es ops after
    unfolding finishRollback_def Let_def
    using stop5 [OF that, of True] stop5 [OF that, of False]
    by (intro wp_bind wp_disarm wp_write) (auto intro!: wp_rules)
  have ver: "wp (verifyRollback env path snap ops) Q (acts @ [DidRead (Some es)] @ map (did_op True) ops)"
    if "rollbackOps snap es = Inr ops" for es ops
    unfolding verifyRollback_def
    using that stop3 [OF that] stop4 [OF that] fin [OF that]
    by (intro wp_bind wp_read) (auto intro!: wp_rules)
  have "wp (case rollbackOps snap es of
        Inl _ \<Rightarrow> State_Monad.return (rollback_fail ''route'' [])
      | Inr ops \<Rightarrow> applyRouteOps env ops \<bind> (\<lambda>left. if left \<noteq> []
          then State_Monad.return (rollback_fail ''netlink'' left) else verifyRollback env path snap ops))
      Q (acts @ [DidRead (Some es)])" for es
  proof (cases "rollbackOps snap es")
    case (Inl e)
    then have "e = NoTargetRoute" by (simp add: rollbackOps_def Let_def split: if_splits)
    with Inl stop1 show ?thesis by (auto intro!: wp_rules)
  next
    case (Inr ops)
    show ?thesis
      unfolding Inr sum.case
    proof (rule wp_bind, rule wp_applyRouteOps)
      show "wp (if [] \<noteq> [] then State_Monad.return (rollback_fail ''netlink'' []) else verifyRollback env path snap ops) Q
          ((acts @ [DidRead (Some es)]) @ map (did_op True) ops)"
        using ver [OF Inr] by simp
      fix "done" op rest assume "ops = done @ op # rest"
      then show "wp (if op # rest \<noteq> [] then State_Monad.return (rollback_fail ''netlink'' (op # rest))
            else verifyRollback env path snap ops) Q
          ((acts @ [DidRead (Some es)]) @ map (did_op True) done @ [did_op False op])"
        using stop2 Inr by (auto intro!: wp_rules)
    qed
  qed
  then show ?thesis
    unfolding executeRouteRollback_def
    using stop0 by (intro wp_bind wp_read) (auto intro!: wp_rules)
qed

end
