(* ===== verification/RouteSafety.thy ===== *)
theory RouteSafety
  imports RouteSwitch
begin

text \<open>
  What \<open>edc route switch\<close> and \<open>edc route rollback\<close> do, whatever the world answers: routes are touched
  only when a rollback is prepared and armed, the guard timer is stopped only when nothing was changed,
  when the user confirmed, or when the old routes are verified, and a success is a confirmed success.
\<close>

subsection \<open>Actions and what came before them\<close>

definition all_before :: "(routeAction list \<Rightarrow> routeAction \<Rightarrow> bool) \<Rightarrow> routeAction list \<Rightarrow> bool" where
  "all_before P acts \<longleftrightarrow> (\<forall>i < length acts. P (take i acts) (acts ! i))"

lemma all_before_Nil [simp]: "all_before P []"
  by (simp add: all_before_def)

lemma all_before_snoc [simp]: "all_before P (acts @ [a]) \<longleftrightarrow> all_before P acts \<and> P acts a"
  by (auto simp: all_before_def nth_append less_Suc_eq)

lemma all_before_append2 [simp]: "all_before P (acts @ [a, b]) \<longleftrightarrow> all_before P acts \<and> P acts a \<and> P (acts @ [a]) b"
  using all_before_snoc [of P "acts @ [a]" b] by simp

lemma all_before_append3 [simp]:
  "all_before P (acts @ [a, b, c]) \<longleftrightarrow> all_before P acts \<and> P acts a \<and> P (acts @ [a]) b \<and> P (acts @ [a, b]) c"
  using all_before_snoc [of P "acts @ [a, b]" c] by simp

lemma all_before_short [simp]:
  "all_before P [a] \<longleftrightarrow> P [] a" "all_before P [a, b] \<longleftrightarrow> P [] a \<and> P [a] b"
  using all_before_snoc [of P "[]" a] all_before_append2 [of P "[]" a b] by simp_all

lemma all_before_append:
  "all_before P (acts @ added) \<longleftrightarrow>
     all_before P acts \<and> (\<forall>i < length added. P (acts @ take i added) (added ! i))"
proof (induction added rule: rev_induct)
  case (snoc a added)
  have "all_before P (acts @ added @ [a]) \<longleftrightarrow> all_before P (acts @ added) \<and> P (acts @ added) a"
    using all_before_snoc [of P "acts @ added" a] by simp
  with snoc show ?case by (auto simp: nth_append less_Suc_eq)
qed simp

fun touches :: "routeAction \<Rightarrow> bool" where
  "touches (DidReplace _ _ _) = True"
| "touches (DidDelete _ _) = True"
| "touches _ = False"

fun touched :: "routeAction \<Rightarrow> bool" where
  "touched (DidReplace _ _ ok) = ok"
| "touched (DidDelete _ ok) = ok"
| "touched _ = False"

fun stops_timer :: "routeAction \<Rightarrow> bool" where
  "stops_timer (DidRun name args _ _) \<longleftrightarrow> name = ''systemctl'' \<and> args \<noteq> [] \<and> hd args = ''stop''"
| "stops_timer _ = False"

lemma touched_touches: "touched a \<Longrightarrow> touches a"
  by (cases a) simp_all

lemma did_op_simps [simp]:
  "touches (did_op ok op)" "touched (did_op ok op) = ok" "\<not> stops_timer (did_op ok op)"
  by (cases op; simp)+

lemma extends_all_before:
  assumes "extends acts acts1" and "all_before P acts" and "\<And>added a. P (acts @ added) a"
  shows "all_before P acts1"
proof -
  obtain added where "acts1 = acts @ added" using extends_append [OF assms(1)] by blast
  then show ?thesis using assms(2,3) by (auto simp: all_before_append)
qed

subsection \<open>Nothing is touched before the guard is set\<close>

definition authorised :: "routeSwitchInput \<Rightarrow> routeEntry \<Rightarrow> routeAction list \<Rightarrow> bool" where
  "authorised input target acts \<longleftrightarrow>
     si_force input \<or>
     (\<exists>armed ok output.
        DidRun ''systemd-run''
          (systemdRunArgs (routeRollbackUnitName (si_execID input)) (si_seconds input) (si_statePath input) (si_edcPath input))
          True armed \<in> set acts \<and>
        DidRun ''systemctl'' [''is-active'', routeRollbackUnitName (si_execID input) @ ''.timer''] ok output \<in> set acts \<and>
        parseIsActive output) \<or>
     (\<exists>client server get. parseSSHConnection (si_sshConnection input) = Some (client, server) \<and>
        DidRouteTo client (Some get) \<in> set acts \<and>
        fst (lockoutRisk \<lparr>la_sessionGet = get, la_targetEntry = target, la_underlayGet = None\<rparr>) = ''low'')"

definition prepared :: "routeSwitchInput \<Rightarrow> routeAction list \<Rightarrow> bool" where
  "prepared input acts \<longleftrightarrow>
     (\<exists>entries rules. let snap = switch_snapshot input entries rules in
        DidRead (Some entries) \<in> set acts \<and> entriesForDest entries (si_dest input) \<noteq> [] \<and>
        DidWrite (si_statePath input) snap True \<in> set acts \<and>
        (\<exists>ok output. DidRun ''systemd-run''
           (systemdRunArgs (rs_unitName snap) (si_seconds input) (si_statePath input) (si_edcPath input)) ok output
           \<in> set acts) \<and>
        authorised input (rs_targetEntry snap) acts)"

definition guarded :: "routeSwitchInput \<Rightarrow> routeAction list \<Rightarrow> routeAction \<Rightarrow> bool" where
  "guarded input acts a \<longleftrightarrow> (touches a \<longrightarrow> \<not> si_dryRun input \<and> prepared input acts)"

lemma authorised_mono: "authorised input target acts \<Longrightarrow> set acts \<subseteq> set acts1 \<Longrightarrow> authorised input target acts1"
  unfolding authorised_def by blast

lemma prepared_mono: "prepared input acts \<Longrightarrow> set acts \<subseteq> set acts1 \<Longrightarrow> prepared input acts1"
  unfolding prepared_def Let_def using authorised_mono [of input _ acts acts1] by (meson subset_iff)

lemma lockoutRisk_cases: "fst (lockoutRisk a) = ''high'' \<or> fst (lockoutRisk a) = ''low''"
  by (auto simp: lockoutRisk_def split: option.split)

text \<open>What follows a change only adds to the log.\<close>

lemma extends_rollback: "wp (executeRouteRollback env path snap) (\<lambda>_. extends acts) acts"
  by (rule wp_rollback) simp_all

lemma extends_abort: "wp (abortRouteSwitch env path snap) (\<lambda>_. extends acts) acts"
  unfolding abortRouteSwitch_def by (intro wp_bind wp_disarm wp_write wp_return) simp

lemma extends_trans: "extends acts acts1 \<Longrightarrow> extends acts1 acts2 \<Longrightarrow> extends acts acts2"
  by (metis append.assoc extends_append extends_simps(2))

lemma wp_extends_more: "extends acts acts1 \<Longrightarrow> wp m (\<lambda>_. extends acts1) acts1 \<Longrightarrow> wp m (\<lambda>_. extends acts) acts1"
  by (erule wp_mono) (rule extends_trans)

lemma extends_rollback_fail: "wp (routeSwitchRollbackAndFail env path snap) (\<lambda>_. extends acts) acts"
  unfolding routeSwitchRollbackAndFail_def
  by (rule wp_bind, rule wp_mono, rule extends_rollback) (simp add: wp_return)

lemma extends_confirm: "wp (confirmRouteSwitch env input snap matched) (\<lambda>_. extends acts) acts"
proof -
  have fin: "wp (if \<not> fst answer \<or> snd answer
        then executeRouteRollback env (si_statePath input) snap \<bind>
          (\<lambda>outcome. State_Monad.return \<lparr>sw_result = ro_result outcome, sw_cancelled = True\<rparr>)
        else disarmGuard env (rs_unitName snap) \<bind>
          (\<lambda>warning. writeRouteState env (si_statePath input) (snap\<lparr>rs_completed := True\<rparr>) \<bind>
            (\<lambda>ok. State_Monad.return (if \<not> ok then switch_fail ''state''
              else \<lparr>sw_result = resultPass (if warning then [TimerNotStopped] else []), sw_cancelled = False\<rparr>))))
      (\<lambda>_. extends acts) acts1" if "extends acts acts1" for answer acts1
  proof (rule wp_if)
    show "wp (executeRouteRollback env (si_statePath input) snap \<bind>
        (\<lambda>outcome. State_Monad.return \<lparr>sw_result = ro_result outcome, sw_cancelled = True\<rparr>)) (\<lambda>_. extends acts) acts1"
      by (rule wp_bind, rule wp_mono, rule wp_extends_more [OF that], rule extends_rollback) (simp add: wp_return)
  qed (intro wp_bind wp_disarm wp_write wp_return extends_snoc that)
  show ?thesis
    unfolding confirmRouteSwitch_def by (rule wp_bind, rule wp_await; rule fin) simp_all
qed

lemma extends_verify: "wp (verifyRouteSwitch env input snap) (\<lambda>_. extends acts) acts"
  unfolding verifyRouteSwitch_def
  by (rule wp_bind, rule wp_read, rule wp_option)
    (auto intro!: wp_if wp_bind wp_observe wp_extends_more [OF _ extends_rollback_fail]
      wp_extends_more [OF _ extends_confirm])

text \<open>The part before the change.\<close>

lemma guarded_change:
  assumes read: "DidRead (Some entries) \<in> set acts" "entriesForDest entries (si_dest input) \<noteq> []"
    and risk: "risk = ''high'' \<or> (\<exists>client server get. parseSSHConnection (si_sshConnection input) = Some (client, server) \<and>
        DidRouteTo client (Some get) \<in> set acts \<and>
        fst (lockoutRisk \<lparr>la_sessionGet = get, la_targetEntry = hd (entriesForDest entries (si_dest input)),
          la_underlayGet = None\<rparr>) = risk)"
    and acts: "all_before (guarded input) acts" and wet: "\<not> si_dryRun input"
  shows "wp (changeRoute env input (switch_snapshot input entries rules) risk) (\<lambda>_. all_before (guarded input)) acts"
proof -
  define snap where "snap = switch_snapshot input entries rules"
  have target: "rs_targetEntry snap = hd (entriesForDest entries (si_dest input))"
    and unit: "rs_unitName snap = routeRollbackUnitName (si_execID input)"
    by (simp_all add: snap_def switch_snapshot_def Let_def)
  let ?args = "systemdRunArgs (rs_unitName snap) (si_seconds input) (si_statePath input) (si_edcPath input)"
  let ?decide = "\<lambda>probe. if \<not> fst (guardDecision (detectGuardTier probe) risk (si_force input))
        then abortRouteSwitch env (si_statePath input) snap
        else replaceRoute env (rs_targetEntry snap) (xt_via (si_exit input)) \<bind>
          (\<lambda>replaced. if \<not> replaced then abortRouteSwitch env (si_statePath input) snap
            else verifyRouteSwitch env input snap)"
  have decide: "wp (?decide probe) (\<lambda>_. all_before (guarded input)) acts1"
    if ab: "all_before (guarded input) acts1" and sub: "set acts \<subseteq> set acts1"
      and wr: "DidWrite (si_statePath input) snap True \<in> set acts1"
      and arm: "DidRun ''systemd-run'' ?args ok out \<in> set acts1"
      and live: "detectGuardTier probe = guardTierArmedConfirmed \<Longrightarrow>
        \<exists>armed ok output. DidRun ''systemd-run'' ?args True armed \<in> set acts1 \<and>
          DidRun ''systemctl'' [''is-active'', routeRollbackUnitName (si_execID input) @ ''.timer''] ok output
            \<in> set acts1 \<and> parseIsActive output" for probe acts1 ok out
  proof (rule wp_if)
    show "wp (abortRouteSwitch env (si_statePath input) snap) (\<lambda>_. all_before (guarded input)) acts1"
      using ab unfolding abortRouteSwitch_def
      by (intro wp_bind wp_disarm wp_write wp_return) (simp add: guarded_def)
    assume "\<not> \<not> fst (guardDecision (detectGuardTier probe) risk (si_force input))"
    then consider "si_force input" | "risk \<noteq> ''high''" | "detectGuardTier probe = guardTierArmedConfirmed"
      by (auto simp: guardDecision_def detectGuardTier_def guard_tiers split: if_splits)
    then have "authorised input (rs_targetEntry snap) acts1"
    proof cases
      case 1
      then show ?thesis by (simp add: authorised_def)
    next
      case 2
      then show ?thesis using risk sub lockoutRisk_cases unfolding authorised_def target by (metis subsetD)
    next
      case 3
      then show ?thesis using live unfolding authorised_def unit by blast
    qed
    then have prep: "prepared input acts1"
      using read sub wr arm unfolding prepared_def Let_def snap_def by blast
    have later: "guarded input (acts1 @ added) a" for added a
      using prepared_mono [OF prep, of "acts1 @ added"] wet by (simp add: guarded_def)
    have keep: "extends acts1 acts3 \<Longrightarrow> all_before (guarded input) acts3" for acts3
      by (rule extends_all_before [OF _ ab later])
    have ext: "wp (verifyRouteSwitch env input snap) (\<lambda>_. all_before (guarded input)) acts2"
      "wp (abortRouteSwitch env (si_statePath input) snap) (\<lambda>_. all_before (guarded input)) acts2"
      if e: "extends acts1 acts2" for acts2
      by (rule wp_mono [OF wp_extends_more [OF e extends_verify] keep], assumption,
          rule wp_mono [OF wp_extends_more [OF e extends_abort] keep], assumption)
    show "wp (replaceRoute env (rs_targetEntry snap) (xt_via (si_exit input)) \<bind>
        (\<lambda>replaced. if \<not> replaced then abortRouteSwitch env (si_statePath input) snap
          else verifyRouteSwitch env input snap)) (\<lambda>_. all_before (guarded input)) acts1"
      by (rule wp_bind, rule wp_replace, rule wp_if) (simp_all add: ext)
  qed
  have written: "all_before (guarded input) (acts @ [DidWrite (si_statePath input) snap ok])" for ok
    using acts by (simp add: guarded_def)
  show ?thesis
    unfolding changeRoute_def snap_def [symmetric]
  proof (rule wp_bind, rule wp_write, rule wp_if)
    fix ok
    show "wp (State_Monad.return (switch_fail ''state'')) (\<lambda>_. all_before (guarded input))
        (acts @ [DidWrite (si_statePath input) snap ok])"
      by (rule wp_return, rule written)
    assume "\<not> \<not> ok"
    then have ok: "ok = True" by simp
    show "wp (armGuard env (rs_unitName snap) (si_seconds input) (si_statePath input) (si_edcPath input) \<bind> ?decide)
        (\<lambda>_. all_before (guarded input)) (acts @ [DidWrite (si_statePath input) snap ok])"
      unfolding ok using acts
      by (intro wp_bind wp_arm decide)
        (auto simp: guarded_def detectGuardTier_def guard_tiers unit split: if_splits)
  qed
qed


text \<open>
  C1. Routes are touched only behind the guard. Whatever the kernel, systemd, the files and the user
  answer: before every replacement or deletion of a route (also those of a rollback) the
  snapshot for the rollback was written, \<open>systemd-run\<close> was called for the timer of just this
  snapshot, and the change was authorised: by \<open>--force\<close>, by a timer that \<open>systemd-run\<close> set without an
  error and that systemd then reports as active, or because the own SSH session was seen not to use the
  route. So a call of \<open>systemd-run\<close> that failed does not stop a change that \<open>--force\<close> or the
  session allows. A dry run touches nothing.
\<close>
theorem route_switch_guarded:
  "all_before (guarded input) (snd (snd (run_state (executeRouteSwitch env input) (w, []))))"
proof -
  have change: "wp (changeRoute env input (switch_snapshot input entries rules) risk)
      (\<lambda>_. all_before (guarded input)) ([DidRead (Some entries)] @ added)"
    if "entriesForDest entries (si_dest input) \<noteq> []" "\<not> si_dryRun input"
      and "risk = ''high'' \<and> (added = [] \<or> (\<exists>client. added = [DidRouteTo client None])) \<or>
        (\<exists>client server get. parseSSHConnection (si_sshConnection input) = Some (client, server) \<and>
          added = [DidRouteTo client (Some get)] \<and>
          fst (lockoutRisk \<lparr>la_sessionGet = get, la_targetEntry = hd (entriesForDest entries (si_dest input)),
            la_underlayGet = None\<rparr>) = risk)" for entries rules risk added
    using that by (intro guarded_change) (auto simp: guarded_def)
  have "wp (executeRouteSwitch env input) (\<lambda>_. all_before (guarded input)) []"
    unfolding executeRouteSwitch_def
  proof (rule wp_bind, rule wp_read, rule wp_option)
    fix entries
    show "wp (observe_world (en_rules env) \<bind> (\<lambda>currentRules. case currentRules of
          None \<Rightarrow> State_Monad.return (switch_fail ''netlink'')
        | Some rules \<Rightarrow>
            if entriesForDest entries (si_dest input) = [] then State_Monad.return (switch_fail ''route'')
            else routeExitReachability env (xt_via (si_exit input)) (xt_dev (si_exit input)) \<bind>
              (\<lambda>reach. if reach = reachBroken \<and> \<not> si_force input then State_Monad.return (switch_fail ''reach'')
                else if si_dryRun input then State_Monad.return
                     (case routeReplaceArgs (hd (entriesForDest entries (si_dest input))) (xt_via (si_exit input)) of
                        Inl _ \<Rightarrow> switch_fail ''plan''
                      | Inr _ \<Rightarrow> \<lparr>sw_result = resultPass [], sw_cancelled = False\<rparr>)
                else switch_risk env input (hd (entriesForDest entries (si_dest input))) \<bind>
                  changeRoute env input (switch_snapshot input entries rules))))
        (\<lambda>_. all_before (guarded input)) ([] @ [DidRead r])" if r: "r = Some entries" for r
      using change [of entries _ "[]"] change [of entries _ "[DidRouteTo _ _]"] r
      by (auto intro!: wp_bind wp_observe wp_option wp_if wp_return wp_reach wp_risk simp: guarded_def
          split: sum.split)
  qed (simp add: wp_return guarded_def)
  then show ?thesis by (simp add: wp_def case_prod_beta)
qed


subsection \<open>The timer is stopped only when that is safe, and success is a confirmed success\<close>

definition restored :: "routeSwitchInput \<Rightarrow> routeAction list \<Rightarrow> bool" where
  "restored input acts \<longleftrightarrow>
     (\<exists>entries after. hd acts = DidRead (Some entries) \<and> last acts = DidRead (Some after) \<and>
        routeCountFor after (si_dest input) = length (entriesForDest entries (si_dest input)) \<and>
        (let target = hd (entriesForDest entries (si_dest input)) in
           DidReplace target (re_via target) True \<in> set acts))"

definition may_stop :: "routeSwitchInput \<Rightarrow> routeAction list \<Rightarrow> routeAction \<Rightarrow> bool" where
  "may_stop input acts a \<longleftrightarrow>
     (stops_timer a \<longrightarrow>
        list_all (\<lambda>b. \<not> touched b) acts \<or> (\<exists>matched. DidAsk matched (True, False) \<in> set acts) \<or> restored input acts)"

definition confirmed :: "'w routeEnv \<Rightarrow> routeSwitchInput \<Rightarrow> routeAction list \<Rightarrow> bool" where
  "confirmed env input acts \<longleftrightarrow>
     (\<exists>entries before after rest.
        acts = DidRead (Some entries) # before @
          [DidReplace (hd (entriesForDest entries (si_dest input))) (xt_via (si_exit input)) True,
           DidRead (Some after), DidAsk (xt_expectPublicIP (si_exit input) \<noteq> []) (True, False)] @ rest \<and>
        list_all (\<lambda>a. \<not> touches a) before \<and> list_all (\<lambda>a. \<not> touches a) rest \<and>
        routeCountFor after (si_dest input) = length (entriesForDest entries (si_dest input))) \<and>
     (\<exists>w. fst (en_confirm env (xt_expectPublicIP (si_exit input) \<noteq> []) w) = (True, False))"

definition switch_end :: "'w routeEnv \<Rightarrow> routeSwitchInput \<Rightarrow> routeSwitchOutcome \<Rightarrow> routeAction list \<Rightarrow> bool" where
  "switch_end env input outcome acts \<longleftrightarrow>
     all_before (may_stop input) acts \<and>
     (rr_status (sw_result outcome) \<noteq> StatusFail \<and> \<not> sw_cancelled outcome \<and> \<not> si_dryRun input \<longrightarrow> confirmed env input acts)"

text \<open>The log begins with the read of the routes that the snapshot was made of.\<close>

definition started :: "routeSwitchInput \<Rightarrow> routeSnapshot \<Rightarrow> routeAction list \<Rightarrow> bool" where
  "started input snap acts \<longleftrightarrow>
     (\<exists>entries rules added. acts = DidRead (Some entries) # added \<and> snap = switch_snapshot input entries rules)"

lemma started_append [simp]: "started input snap acts \<Longrightarrow> started input snap (acts @ added)"
  unfolding started_def by auto

lemma stop_append:
  "\<forall>a\<in>set added. \<not> stops_timer a \<Longrightarrow> all_before (may_stop input) (acts @ added) = all_before (may_stop input) acts"
  by (auto simp: all_before_append may_stop_def)

lemma switch_fail_fields [simp]:
  "rr_status (sw_result (switch_fail kind)) = StatusFail" "\<not> sw_cancelled (switch_fail kind)"
  by (simp_all add: switch_fail_def resultFromError_def)

lemma rollback_restores:
  assumes "started input snap acts" and "rollbackOps snap es = Inr ops"
    and "routeCountFor after (rs_dest snap) = rs_countBaseline snap"
  shows "restored input (acts @ [DidRead (Some es)] @ map (did_op True) ops @ [DidRead (Some after)])"
proof -
  obtain entries rules added where acts: "acts = DidRead (Some entries) # added"
    and snap: "snap = switch_snapshot input entries rules"
    using assms(1) by (auto simp: started_def)
  have "OpReplace (rs_targetEntry snap) (re_via (rs_targetEntry snap)) \<in> set ops"
    using assms(2) by (auto simp: rollbackOps_def Let_def split: if_splits)
  then have "DidReplace (rs_targetEntry snap) (re_via (rs_targetEntry snap)) True \<in> set (map (did_op True) ops)"
    by force
  then show ?thesis
    using assms(3) by (auto simp: restored_def acts snap switch_snapshot_def Let_def)
qed

lemma stop_rollback:
  assumes "started input snap acts" and "all_before (may_stop input) acts"
  shows "wp (executeRouteRollback env path snap) (\<lambda>_. all_before (may_stop input)) acts"
proof (rule wp_rollback)
  fix es ops after ok out written
  assume ops: "rollbackOps snap es = Inr ops" and count: "routeCountFor after (rs_dest snap) = rs_countBaseline snap"
  let ?acts = "acts @ [DidRead (Some es)] @ map (did_op True) ops @ [DidRead (Some after)]"
  have "all_before (may_stop input) ?acts" using assms(2) by (auto simp: stop_append)
  moreover have "restored input ?acts" by (rule rollback_restores [OF assms(1) ops count])
  ultimately have "all_before (may_stop input) (?acts @ [DidRun ''systemctl'' [''stop'', rs_unitName snap @ ''.timer''] ok out,
      DidWrite path (snap\<lparr>rs_completed := True\<rparr>) written])"
    by (simp only: all_before_append2) (simp add: may_stop_def)
  then show "all_before (may_stop input) (acts @ [DidRead (Some es)] @ map (did_op True) ops @ [DidRead (Some after)] @
      [DidRun ''systemctl'' [''stop'', rs_unitName snap @ ''.timer''] ok out,
       DidWrite path (snap\<lparr>rs_completed := True\<rparr>) written])"
    by simp
qed (use assms(2) in \<open>auto simp: stop_append may_stop_def\<close>)

lemma end_rollback_fail:
  assumes "started input snap acts" and "all_before (may_stop input) acts"
  shows "wp (routeSwitchRollbackAndFail env path snap) (switch_end env input) acts"
  unfolding routeSwitchRollbackAndFail_def
  by (rule wp_bind, rule wp_mono [OF stop_rollback [OF assms]], rule wp_return)
    (simp add: switch_end_def resultFromError_def)

lemma end_confirm:
  assumes st: "started input snap acts" and ab: "all_before (may_stop input) acts"
    and count: "routeCountFor after (si_dest input) = rs_countBaseline snap"
    and first: "started input snap acts0" "list_all (\<lambda>a. \<not> touches a) acts0"
    and change: "acts = acts0 @ [DidReplace (rs_targetEntry snap) (xt_via (si_exit input)) True, DidRead (Some after)]"
  shows "wp (confirmRouteSwitch env input snap (xt_expectPublicIP (si_exit input) \<noteq> [])) (switch_end env input) acts"
proof -
  let ?matched = "xt_expectPublicIP (si_exit input) \<noteq> []"
  have undo: "wp (executeRouteRollback env (si_statePath input) snap \<bind>
      (\<lambda>outcome. State_Monad.return \<lparr>sw_result = ro_result outcome, sw_cancelled = True\<rparr>)) (switch_end env input) acts1"
    if "started input snap acts1" "all_before (may_stop input) acts1" for acts1
    by (rule wp_bind, rule wp_mono [OF stop_rollback [OF that]], rule wp_return) (simp add: switch_end_def)
  have conf: "confirmed env input (acts @ DidAsk ?matched (True, False) # added)"
    if answered: "fst (en_confirm env ?matched w) = (True, False)" and quiet: "list_all (\<lambda>a. \<not> touches a) added" for w added
  proof -
    obtain entries rules before where acts0: "acts0 = DidRead (Some entries) # before"
      and snap: "snap = switch_snapshot input entries rules"
      using first(1) by (auto simp: started_def)
    show ?thesis
      unfolding confirmed_def
      by (intro conjI exI [of _ entries] exI [of _ before] exI [of _ after] exI [of _ added] exI [of _ w] answered quiet)
        (use first(2) count in \<open>simp_all add: change acts0 snap switch_snapshot_def Let_def\<close>)
  qed
  have asked: "all_before (may_stop input) (acts @ [DidAsk ?matched answer])" for answer
    using ab by (subst all_before_snoc) (simp only: may_stop_def stops_timer.simps simp_thms)
  show ?thesis
    unfolding confirmRouteSwitch_def
  proof (rule wp_bind, rule wp_await)
    show "wp (if \<not> fst (False, True) \<or> snd (False, True)
        then executeRouteRollback env (si_statePath input) snap \<bind>
          (\<lambda>outcome. State_Monad.return \<lparr>sw_result = ro_result outcome, sw_cancelled = True\<rparr>)
        else disarmGuard env (rs_unitName snap) \<bind>
          (\<lambda>warning. writeRouteState env (si_statePath input) (snap\<lparr>rs_completed := True\<rparr>) \<bind>
            (\<lambda>ok. State_Monad.return (if \<not> ok then switch_fail ''state''
              else \<lparr>sw_result = resultPass (if warning then [TimerNotStopped] else []), sw_cancelled = False\<rparr>))))
        (switch_end env input) acts"
      using undo [OF st ab] by simp
    fix answer w
    assume answered: "fst (en_confirm env ?matched w) = answer"
    show "wp (if \<not> fst answer \<or> snd answer
        then executeRouteRollback env (si_statePath input) snap \<bind>
          (\<lambda>outcome. State_Monad.return \<lparr>sw_result = ro_result outcome, sw_cancelled = True\<rparr>)
        else disarmGuard env (rs_unitName snap) \<bind>
          (\<lambda>warning. writeRouteState env (si_statePath input) (snap\<lparr>rs_completed := True\<rparr>) \<bind>
            (\<lambda>ok. State_Monad.return (if \<not> ok then switch_fail ''state''
              else \<lparr>sw_result = resultPass (if warning then [TimerNotStopped] else []), sw_cancelled = False\<rparr>))))
        (switch_end env input) (acts @ [DidAsk ?matched answer])"
    proof (rule wp_if)
      show "wp (executeRouteRollback env (si_statePath input) snap \<bind>
          (\<lambda>outcome. State_Monad.return \<lparr>sw_result = ro_result outcome, sw_cancelled = True\<rparr>)) (switch_end env input)
          (acts @ [DidAsk ?matched answer])"
        by (rule undo [OF started_append [OF st] asked])
      assume "\<not> (\<not> fst answer \<or> snd answer)"
      then have "answer = (True, False)" by (cases answer) simp
      then show "wp (disarmGuard env (rs_unitName snap) \<bind>
          (\<lambda>warning. writeRouteState env (si_statePath input) (snap\<lparr>rs_completed := True\<rparr>) \<bind>
            (\<lambda>ok. State_Monad.return (if \<not> ok then switch_fail ''state''
              else \<lparr>sw_result = resultPass (if warning then [TimerNotStopped] else []), sw_cancelled = False\<rparr>))))
          (switch_end env input) (acts @ [DidAsk ?matched answer])"
        using asked [of "(True, False)"] conf [of w] answered ab
        by (intro wp_bind wp_disarm wp_write wp_return) (auto simp: switch_end_def may_stop_def)
    qed
  qed
qed


lemma end_verify:
  assumes st: "started input snap acts" and ab: "all_before (may_stop input) acts"
    and first: "started input snap acts0" "list_all (\<lambda>a. \<not> touches a) acts0"
    and change: "acts = acts0 @ [DidReplace (rs_targetEntry snap) (xt_via (si_exit input)) True]"
  shows "wp (verifyRouteSwitch env input snap) (switch_end env input) acts"
proof -
  have ab1: "all_before (may_stop input) (acts @ [DidRead r])" for r
    using ab by (simp add: may_stop_def)
  have fail: "wp (routeSwitchRollbackAndFail env (si_statePath input) snap) (switch_end env input) (acts @ [DidRead r])" for r
    by (rule end_rollback_fail [OF started_append [OF st] ab1])
  have go: "wp (confirmRouteSwitch env input snap matched) (switch_end env input) (acts @ [DidRead (Some after)])"
    if "routeCountFor after (si_dest input) = rs_countBaseline snap" "matched \<longleftrightarrow> xt_expectPublicIP (si_exit input) \<noteq> []"
    for after matched
    unfolding that(2) by (rule end_confirm [OF started_append [OF st] ab1 that(1) first]) (simp add: change)
  show ?thesis
    unfolding verifyRouteSwitch_def
    by (rule wp_bind, rule wp_read, rule wp_option)
      (auto intro!: wp_if wp_bind wp_observe intro: go fail)
qed

lemma end_abort:
  assumes "all_before (may_stop input) acts" and "list_all (\<lambda>b. \<not> touched b) acts"
  shows "wp (abortRouteSwitch env path snap) (switch_end env input) acts"
  unfolding abortRouteSwitch_def
  by (intro wp_bind wp_disarm wp_write wp_return) (simp add: switch_end_def assms may_stop_def)

lemma end_change:
  assumes st: "started input snap acts" and ab: "all_before (may_stop input) acts"
    and quiet: "list_all (\<lambda>b. \<not> touches b) acts"
  shows "wp (changeRoute env input snap risk) (switch_end env input) acts"
proof -
  have decide: "wp (if \<not> fst (guardDecision (detectGuardTier probe) risk (si_force input))
        then abortRouteSwitch env (si_statePath input) snap
        else replaceRoute env (rs_targetEntry snap) (xt_via (si_exit input)) \<bind>
          (\<lambda>replaced. if \<not> replaced then abortRouteSwitch env (si_statePath input) snap
            else verifyRouteSwitch env input snap)) (switch_end env input) (acts @ added)"
    if n: "list_all (\<lambda>b. \<not> touches b \<and> \<not> stops_timer b) added" for probe added
  proof (rule wp_if)
    have ab1: "all_before (may_stop input) (acts @ added)"
      using n ab by (simp add: stop_append list_all_iff)
    have untouched: "list_all (\<lambda>b. \<not> touches b) (acts @ added)" using n quiet by (auto simp: list_all_iff)
    then have quiet1: "list_all (\<lambda>b. \<not> touched b) (acts @ added)"
      unfolding list_all_iff using touched_touches by blast
    show "wp (abortRouteSwitch env (si_statePath input) snap) (switch_end env input) (acts @ added)"
      by (rule end_abort [OF ab1 quiet1])
    have ab2: "all_before (may_stop input) ((acts @ added) @ [DidReplace entry via ok])" for entry via ok
      using ab1 by (subst stop_append) simp_all
    show "wp (replaceRoute env (rs_targetEntry snap) (xt_via (si_exit input)) \<bind>
        (\<lambda>replaced. if \<not> replaced then abortRouteSwitch env (si_statePath input) snap
          else verifyRouteSwitch env input snap)) (switch_end env input) (acts @ added)"
    proof (rule wp_bind, rule wp_replace, rule wp_if)
      fix ok
      let ?acts = "(acts @ added) @ [DidReplace (rs_targetEntry snap) (xt_via (si_exit input)) ok]"
      show "\<not> ok \<Longrightarrow> wp (abortRouteSwitch env (si_statePath input) snap) (switch_end env input) ?acts"
        using quiet1 by (intro end_abort [OF ab2]) simp
      show "\<not> \<not> ok \<Longrightarrow> wp (verifyRouteSwitch env input snap) (switch_end env input) ?acts"
        by (rule end_verify [OF started_append [OF started_append [OF st]] ab2 started_append [OF st] untouched]) simp
    qed
  qed
  show ?thesis
    unfolding changeRoute_def
  proof (rule wp_bind, rule wp_write, rule wp_if)
    fix ok
    show "wp (State_Monad.return (switch_fail ''state'')) (switch_end env input) (acts @ [DidWrite (si_statePath input) snap ok])"
      using ab by (auto intro!: wp_return simp: switch_end_def may_stop_def)
    show "wp (armGuard env (rs_unitName snap) (si_seconds input) (si_statePath input) (si_edcPath input) \<bind>
        (\<lambda>probe. if \<not> fst (guardDecision (detectGuardTier probe) risk (si_force input))
          then abortRouteSwitch env (si_statePath input) snap
          else replaceRoute env (rs_targetEntry snap) (xt_via (si_exit input)) \<bind>
            (\<lambda>replaced. if \<not> replaced then abortRouteSwitch env (si_statePath input) snap
              else verifyRouteSwitch env input snap))) (switch_end env input) (acts @ [DidWrite (si_statePath input) snap ok])"
      unfolding append_assoc
      by (intro wp_bind wp_arm; unfold append_assoc; intro decide) simp_all
  qed
qed

lemma end_switch: "wp (executeRouteSwitch env input) (switch_end env input) []"
proof -
  have change: "wp (changeRoute env input (switch_snapshot input entries rules) risk) (switch_end env input)
      (DidRead (Some entries) # added)" if "added = [] \<or> (\<exists>client get. added = [DidRouteTo client get])" for entries rules risk added
    using that by (intro end_change) (auto simp: started_def may_stop_def)
  have idle: "switch_end env input (switch_fail kind) [DidRead r]" for kind r
    by (simp add: switch_end_def may_stop_def)
  show ?thesis
    unfolding executeRouteSwitch_def
    by (rule wp_bind, rule wp_read, rule wp_option)
      (auto intro!: wp_bind wp_observe wp_option wp_if wp_return wp_reach wp_risk change idle
        simp: switch_end_def may_stop_def split: sum.split)
qed

lemma switch_endD:
  "switch_end env input (fst (run_state (executeRouteSwitch env input) (w, [])))
     (snd (snd (run_state (executeRouteSwitch env input) (w, []))))"
  using end_switch [of env input] by (simp add: wp_def case_prod_beta)

text \<open>
  C10. The dead man's switch. In every run the guard timer is stopped only when no route was changed
  before (the switch was refused, or the replacement failed), when the user has confirmed the new exit
  without an error, or when the old route was put back and a fresh read of the tables shows as many
  routes to the destination as before. In every other case the timer stays and rolls back by itself.
\<close>
theorem route_switch_deadman:
  "all_before (may_stop input) (snd (snd (run_state (executeRouteSwitch env input) (w, []))))"
  using switch_endD [of env input w] by (simp add: switch_end_def)

text \<open>
  C29. A switch that succeeds was confirmed. When a switch ends without failure and is not cancelled,
  the first route to the destination was replaced by one over the chosen exit, the very next thing was a
  read of the tables which showed as many routes to the destination as before, then the user
  confirmed, with yes as the offered answer only if the exit has an expected public address, and no
  other route was touched before or after.
\<close>
theorem route_switch_confirmed:
  assumes "\<not> si_dryRun input" and "run_state (executeRouteSwitch env input) (w, []) = (outcome, (w1, acts))"
    and "rr_status (sw_result outcome) \<noteq> StatusFail" and "\<not> sw_cancelled outcome"
  shows "confirmed env input acts"
  using switch_endD [of env input w] assms by (simp add: switch_end_def)


subsection \<open>A world that answers well\<close>

definition demo_target :: routeEntry where
  "demo_target =
     \<lparr>re_dest = ''default'', re_type = [], re_via = ''10.0.0.1'', re_dev = ''eth0'', re_proto = ''dhcp'', re_src = [],
      re_scope = [], re_metric = ''100'', re_hasMetric = True, re_tos = 0, re_table = [], re_raw = []\<rparr>"

definition demo_env :: "routeEntry \<Rightarrow> unit routeEnv" where
  "demo_env target =
     \<lparr>en_routes = (\<lambda>w. (Some [target], w)), en_rules = (\<lambda>w. (Some [], w)), en_neighbors = (\<lambda>w. (Some [], w)),
      en_links = (\<lambda>w. (Some [], w)), en_routeTo = (\<lambda>_ w. (None, w)), en_replace = (\<lambda>_ _ w. (True, w)),
      en_delete = (\<lambda>_ w. (True, w)), en_run = (\<lambda>_ _ w. ((True, ''active''), w)), en_writeState = (\<lambda>_ _ w. (True, w)),
      en_publicIP = (\<lambda>w. (Some ''192.0.2.1'', w)), en_signal = (\<lambda>w. (False, w)), en_confirm = routeSwitchAutoConfirm\<rparr>"

definition demo_input :: "bytes \<Rightarrow> routeSwitchInput" where
  "demo_input ip =
     \<lparr>si_dest = ''default'', si_exit = \<lparr>xt_name = ''b'', xt_via = ''10.0.0.2'', xt_dev = ''eth0'', xt_expectPublicIP = ip\<rparr>,
      si_seconds = 120, si_force = False, si_dryRun = False, si_edcPath = ''/usr/bin/edc'', si_execID = ''r1'',
      si_statePath = ''/run/edc/route-r1.json'', si_sshConnection = []\<rparr>"

definition demo_run :: "routeEntry \<Rightarrow> bytes \<Rightarrow> routeSwitchOutcome \<times> unit \<times> routeAction list" where
  "demo_run target ip = run_state (executeRouteSwitch (demo_env target) (demo_input ip)) ((), [])"

lemma demo_success:
  "rr_status (sw_result (fst (demo_run demo_target ''192.0.2.1''))) = StatusPass \<and>
   \<not> sw_cancelled (fst (demo_run demo_target ''192.0.2.1''))"
  by code_simp


lemma demo_split: "demo_run target ip = (fst (demo_run target ip), ((), snd (snd (demo_run target ip))))"
  by (cases "demo_run target ip") simp

theorem route_switch_confirmed_witness:
  "confirmed (demo_env demo_target) (demo_input ''192.0.2.1'') (snd (snd (demo_run demo_target ''192.0.2.1'')))"
proof (rule route_switch_confirmed)
  show "run_state (executeRouteSwitch (demo_env demo_target) (demo_input ''192.0.2.1'')) ((), []) =
      (fst (demo_run demo_target ''192.0.2.1''), ((), snd (snd (demo_run demo_target ''192.0.2.1''))))"
    using demo_split unfolding demo_run_def .
qed (use demo_success in \<open>simp_all add: demo_input_def\<close>)

text \<open>
  \<open>--yes\<close> confirms nothing that was not checked: with the automatic confirmation and an exit
  without an expected public address, no switch that changes routes ends as a success.
\<close>
theorem route_switch_yes_needs_identity:
  assumes "en_confirm env = routeSwitchAutoConfirm" and "xt_expectPublicIP (si_exit input) = []"
    and "\<not> si_dryRun input" and "run_state (executeRouteSwitch env input) (w, []) = (outcome, (w1, acts))"
  shows "rr_status (sw_result outcome) = StatusFail \<or> sw_cancelled outcome"
proof (rule ccontr)
  assume "\<not> ?thesis"
  then have "confirmed env input acts"
    using switch_endD [of env input w] assms(3,4) by (simp add: switch_end_def)
  then show False using assms(1,2) by (simp add: confirmed_def routeSwitchAutoConfirm_def)
qed

theorem route_switch_yes_needs_identity_witness:
  "rr_status (sw_result (fst (demo_run demo_target []))) = StatusFail \<or> sw_cancelled (fst (demo_run demo_target []))"
proof (rule route_switch_yes_needs_identity)
  show "run_state (executeRouteSwitch (demo_env demo_target) (demo_input [])) ((), []) =
      (fst (demo_run demo_target []), ((), snd (snd (demo_run demo_target []))))"
    using demo_split unfolding demo_run_def .
qed (simp_all add: demo_env_def demo_input_def)

subsection \<open>Rollback\<close>

definition rollback_end :: "routeSnapshot \<Rightarrow> bytes \<Rightarrow> routeRollbackOutcome \<Rightarrow> routeAction list \<Rightarrow> bool" where
  "rollback_end snap path outcome acts \<longleftrightarrow>
     (rr_status (ro_result outcome) \<noteq> StatusFail \<longrightarrow>
        (\<exists>es ops after ok out. rollbackOps snap es = Inr ops \<and>
           routeCountFor after (rs_dest snap) = rs_countBaseline snap \<and> ro_remaining outcome = [] \<and>
           acts = [DidRead (Some es)] @ map (did_op True) ops @
             [DidRead (Some after), DidRun ''systemctl'' [''stop'', rs_unitName snap @ ''.timer''] ok out,
              DidWrite path (snap\<lparr>rs_completed := True\<rparr>) True])) \<and>
     (ro_remaining outcome \<noteq> [] \<longrightarrow>
        (\<exists>es done todo. rollbackOps snap es = Inr (done @ todo) \<and>
           (ro_remaining outcome = map routeOpArgs todo \<and>
              acts = [DidRead (Some es)] @ map (did_op True) done @ [did_op False (hd todo)] \<or>
            todo = [] \<and> ro_remaining outcome = map routeOpArgs done \<and>
              (\<exists>after. acts = [DidRead (Some es)] @ map (did_op True) done @ [DidRead (Some after)] \<and>
                 routeCountFor after (rs_dest snap) \<noteq> rs_countBaseline snap))))"

lemma rollback_fail_fields [simp]:
  "rr_status (ro_result (rollback_fail kind ops)) = StatusFail"
  "ro_remaining (rollback_fail kind ops) = map routeOpArgs ops"
  by (simp_all add: rollback_fail_def resultFromError_def renderRouteOps_def)

text \<open>
  C30. A rollback that does not fail has done all of its operations, has read as many routes to the
  destination as the snapshot counted, and only then stopped the timer and marked the state file as
  completed. A rollback that leaves commands for a human leaves exactly the operation that failed and
  those after it, or all of them when the count is still wrong.
\<close>
theorem route_rollback_outcome:
  "rollback_end snap path (fst (run_state (executeRouteRollback env path snap) (w, [])))
     (snd (snd (run_state (executeRouteRollback env path snap) (w, []))))"
proof -
  have "wp (executeRouteRollback env path snap) (rollback_end snap path) []"
  proof (rule wp_rollback)
    fix es ops after ok out written r
    assume "rollbackOps snap es = Inr ops" "routeCountFor after (rs_dest snap) = rs_countBaseline snap"
      "if written then rr_status (ro_result r) \<noteq> StatusFail \<and> ro_remaining r = [] else r = rollback_fail ''state'' []"
    then show "rollback_end snap path r ([] @ [DidRead (Some es)] @ map (did_op True) ops @ [DidRead (Some after)] @
        [DidRun ''systemctl'' [''stop'', rs_unitName snap @ ''.timer''] ok out,
         DidWrite path (snap\<lparr>rs_completed := True\<rparr>) written])"
      unfolding rollback_end_def by (cases written) auto
  next
    fix es "done" op rest
    assume "rollbackOps snap es = Inr (done @ op # rest)"
    then show "rollback_end snap path (rollback_fail ''netlink'' (op # rest))
        ([] @ [DidRead (Some es)] @ map (did_op True) done @ [did_op False op])"
      unfolding rollback_end_def
      by (intro conjI impI, simp, intro exI [of _ es] exI [of _ "done"] exI [of _ "op # rest"]) simp
  next
    fix es ops after
    assume "rollbackOps snap es = Inr ops" "routeCountFor after (rs_dest snap) \<noteq> rs_countBaseline snap"
    then show "rollback_end snap path (rollback_fail ''verify'' ops)
        ([] @ [DidRead (Some es)] @ map (did_op True) ops @ [DidRead (Some after)])"
      unfolding rollback_end_def
      by (intro conjI impI, simp, intro exI [of _ es] exI [of _ ops] exI [of _ "[]"]) auto
  qed (simp_all add: rollback_end_def)
  then show ?thesis by (simp add: wp_def case_prod_beta)
qed

subsection \<open>A route without a device\<close>

text \<open>Every snapshot that is written satisfies \<open>P\<close> and goes to the one state file.\<close>

fun writes_fine :: "(routeSnapshot \<Rightarrow> bool) \<Rightarrow> bytes \<Rightarrow> routeAction \<Rightarrow> bool" where
  "writes_fine P path (DidWrite p snap ok) \<longleftrightarrow> p = path \<and> P snap"
| "writes_fine P path _ = True"

lemma writes_fine_op [simp]: "writes_fine P path (did_op ok op)"
  by (cases op) simp_all

lemma writes_fine_ops [simp]: "list_all (writes_fine P path) (map (did_op ok) ops)"
  by (simp add: list_all_iff)

lemma writes_rollback:
  assumes "list_all (writes_fine P path) acts" and "P (snap\<lparr>rs_completed := True\<rparr>)"
  shows "wp (executeRouteRollback env path snap) (\<lambda>_. list_all (writes_fine P path)) acts"
  by (rule wp_rollback) (use assms in simp_all)

lemma writes_abort:
  assumes "list_all (writes_fine P path) acts" and "P (snap\<lparr>rs_completed := True\<rparr>)"
  shows "wp (abortRouteSwitch env path snap) (\<lambda>_. list_all (writes_fine P path)) acts"
  unfolding abortRouteSwitch_def by (intro wp_bind wp_disarm wp_write wp_return) (use assms in simp)

lemma writes_confirm:
  assumes "list_all (writes_fine P (si_statePath input)) acts" and "P (snap\<lparr>rs_completed := True\<rparr>)"
  shows "wp (confirmRouteSwitch env input snap matched) (\<lambda>_. list_all (writes_fine P (si_statePath input))) acts"
  unfolding confirmRouteSwitch_def
  by (rule wp_bind, rule wp_await; rule wp_if)
    (use assms in \<open>auto intro!: wp_bind wp_disarm wp_write wp_return wp_mono [OF writes_rollback]\<close>)

lemma writes_verify:
  assumes "list_all (writes_fine P (si_statePath input)) acts" and "P (snap\<lparr>rs_completed := True\<rparr>)"
  shows "wp (verifyRouteSwitch env input snap) (\<lambda>_. list_all (writes_fine P (si_statePath input))) acts"
proof -
  have "wp (routeSwitchRollbackAndFail env (si_statePath input) snap)
      (\<lambda>_. list_all (writes_fine P (si_statePath input))) (acts @ [DidRead r])" for r
    unfolding routeSwitchRollbackAndFail_def
    by (rule wp_bind, rule wp_mono [OF writes_rollback [of P]]) (use assms in \<open>simp_all add: wp_return\<close>)
  then show ?thesis
    unfolding verifyRouteSwitch_def
    by (intro wp_bind wp_read wp_option) (use assms in \<open>auto intro!: wp_if wp_bind wp_observe writes_confirm\<close>)
qed

lemma writes_change:
  assumes "list_all (writes_fine P (si_statePath input)) acts" and "P snap" and "P (snap\<lparr>rs_completed := True\<rparr>)"
  shows "wp (changeRoute env input snap risk) (\<lambda>_. list_all (writes_fine P (si_statePath input))) acts"
  unfolding changeRoute_def
  by (rule wp_bind, rule wp_write, rule wp_if, rule wp_return, use assms in simp,
      intro wp_bind wp_arm wp_if wp_replace writes_abort writes_verify; use assms in simp)

lemma wp_conj: "wp m Q acts \<Longrightarrow> wp m R acts \<Longrightarrow> wp m (\<lambda>a acts. Q a acts \<and> R a acts) acts"
  by (force simp: wp_def split: prod.splits)

lemma extends_change: "wp (changeRoute env input snap risk) (\<lambda>_. extends acts) acts"
  unfolding changeRoute_def
  by (rule wp_bind, rule wp_write, rule wp_if, rule wp_return, simp,
      intro wp_bind wp_arm wp_if wp_replace; rule wp_extends_more; (rule extends_abort extends_verify)?; simp)

lemma extends_hd: "extends (a # acts) acts1 \<Longrightarrow> acts1 \<noteq> [] \<and> hd acts1 = a"
  by (metis append_Cons extends_append list.discI list.sel(1))

text \<open>
  A switch that read the routes \<open>entries\<close> writes only snapshots of the first route to the destination.
  When the world refuses nothing, the route is replaced.
\<close>

definition writes_target :: "routeSwitchInput \<Rightarrow> routeAction list \<Rightarrow> bool" where
  "writes_target input acts \<longleftrightarrow>
     (\<forall>entries. hd acts = DidRead (Some entries) \<longrightarrow>
        list_all (writes_fine (\<lambda>snap. rs_targetEntry snap = hd (entriesForDest entries (si_dest input))) (si_statePath input)) acts)"

lemma writes_switch: "wp (executeRouteSwitch env input) (\<lambda>_. writes_target input) []"
proof -
  let ?P = "\<lambda>entries snap. rs_targetEntry snap = hd (entriesForDest entries (si_dest input))"
  have change: "wp (changeRoute env input (switch_snapshot input entries rules) risk) (\<lambda>_. writes_target input)
      (DidRead (Some entries) # added)"
    if "added = [] \<or> (\<exists>client get. added = [DidRouteTo client get])" for entries rules risk added
  proof -
    have "wp (changeRoute env input (switch_snapshot input entries rules) risk)
        (\<lambda>_. list_all (writes_fine (?P entries) (si_statePath input))) (DidRead (Some entries) # added)"
      by (rule writes_change) (use that in \<open>auto simp: switch_snapshot_def Let_def\<close>)
    from wp_conj [OF this extends_change] show ?thesis
      by (rule wp_mono) (auto simp: writes_target_def dest!: extends_hd)
  qed
  show ?thesis
    unfolding executeRouteSwitch_def
    by (rule wp_bind, rule wp_read, rule wp_option)
      (auto intro!: wp_bind wp_observe wp_option wp_if wp_return wp_reach wp_risk change
        simp: writes_target_def split: sum.split)
qed

definition willing :: "'w routeEnv \<Rightarrow> routeSwitchInput \<Rightarrow> bool" where
  "willing env input \<longleftrightarrow>
     (\<forall>w. fst (en_rules env w) \<noteq> None) \<and> (\<forall>path snap w. fst (en_writeState env path snap w)) \<and>
     (\<forall>entry via w. fst (en_replace env entry via w)) \<and>
     (si_force input \<or>
      (\<forall>name args w. fst (en_run env name args w) = (True, ''active'')) \<and>
      (\<forall>w acts. fst (run_state (routeExitReachability env (xt_via (si_exit input)) (xt_dev (si_exit input))) (w, acts)) \<noteq> reachBroken))"

lemma wp_observe_answer: "(\<And>a w. fst (f w) = a \<Longrightarrow> Q a acts) \<Longrightarrow> wp (observe_world f) Q acts"
  by (auto simp: wp_def observe_world_def split: prod.splits) (metis fst_conv)

lemma wp_answer: "(\<And>a w. fst (f w) = a \<Longrightarrow> Q a (acts @ [action a])) \<Longrightarrow> wp (act_world f action) Q acts"
  by (rule wp_act_answer) (metis fst_conv)

lemma wp_reach_answer:
  assumes "\<And>w acts1 state. fst (run_state (routeExitReachability env via dev) (w, acts1)) = state \<Longrightarrow> Q state acts"
  shows "wp (routeExitReachability env via dev) Q acts"
  using wp_reach [of "\<lambda>_ acts1. acts1 = acts" acts env via dev] assms
  by (auto simp: wp_def split: prod.splits) (metis fst_conv)

lemma willing_arm:
  assumes willing: "willing env input"
  shows "wp (armGuard env unit seconds path edc)
    (\<lambda>probe _. fst (guardDecision (detectGuardTier probe) risk (si_force input))) acts"
proof (cases "si_force input")
  case True
  then show ?thesis by (intro wp_arm) (simp_all add: guardDecision_def)
next
  case False
  then have run: "fst (en_run env name args w) = (True, ''active'')" for name args w
    using willing by (simp add: willing_def)
  have "parseIsActive ''active''" by code_simp
  then show ?thesis
    unfolding armGuard_def runCommand_def
    by (intro wp_bind wp_answer wp_if wp_return)
      (auto simp: run guardDecision_def detectGuardTier_def guard_tiers)
qed

lemma replaced_change:
  assumes willing: "willing env input"
  shows "wp (changeRoute env input snap risk)
    (\<lambda>_ acts. DidReplace (rs_targetEntry snap) (xt_via (si_exit input)) True \<in> set acts) acts"
proof -
  let ?done = "DidReplace (rs_targetEntry snap) (xt_via (si_exit input)) True"
  have verify: "wp (verifyRouteSwitch env input snap) (\<lambda>_ acts. ?done \<in> set acts) (acts1 @ [?done])" for acts1
    by (rule wp_mono [OF extends_verify]) (auto dest: extends_append)
  have replace: "wp (replaceRoute env (rs_targetEntry snap) (xt_via (si_exit input)) \<bind>
      (\<lambda>replaced. if \<not> replaced then abortRouteSwitch env (si_statePath input) snap
        else verifyRouteSwitch env input snap)) (\<lambda>_ acts. ?done \<in> set acts) acts1" for acts1
    unfolding replaceRoute_def
    by (rule wp_bind, rule wp_answer, rule wp_if) (use willing verify in \<open>auto simp: willing_def\<close>)
  show ?thesis
    unfolding changeRoute_def
  proof (rule wp_bind, unfold writeRouteState_def, rule wp_answer, rule wp_if)
    fix ok w
    assume ok: "fst (en_writeState env (si_statePath input) snap w) = ok"
    show "\<not> ok \<Longrightarrow> wp (State_Monad.return (switch_fail ''state'')) (\<lambda>_ acts. ?done \<in> set acts)
        (acts @ [DidWrite (si_statePath input) snap ok])"
      using willing ok by (auto simp: willing_def)
  qed (rule wp_bind, rule wp_mono [OF willing_arm [OF willing, of _ _ _ _ risk]], simp add: replace)
qed

lemma replaced_switch:
  assumes willing: "willing env input" and wet: "\<not> si_dryRun input"
  shows "wp (executeRouteSwitch env input)
    (\<lambda>_ acts. \<forall>entries. hd acts = DidRead (Some entries) \<and> entriesForDest entries (si_dest input) \<noteq> [] \<longrightarrow>
       DidReplace (hd (entriesForDest entries (si_dest input))) (xt_via (si_exit input)) True \<in> set acts) []"
proof -
  let ?replaced = "\<lambda>acts. \<forall>entries. hd acts = DidRead (Some entries) \<and> entriesForDest entries (si_dest input) \<noteq> [] \<longrightarrow>
    DidReplace (hd (entriesForDest entries (si_dest input))) (xt_via (si_exit input)) True \<in> set acts"
  have change: "wp (changeRoute env input (switch_snapshot input entries rules) risk) (\<lambda>_. ?replaced)
      (DidRead (Some entries) # added)" for entries rules risk added
    using wp_conj [OF replaced_change [OF willing] extends_change]
    by (rule wp_mono) (auto simp: switch_snapshot_def Let_def dest!: extends_hd)
  have risk: "wp (switch_risk env input target)
      (\<lambda>risk. wp (changeRoute env input (switch_snapshot input entries rules) risk) (\<lambda>_. ?replaced))
      [DidRead (Some entries)]" for target entries rules
    by (rule wp_risk) (use change [of entries rules _ "[]"] change [of entries rules _ "[_]"] in simp_all)
  have rules: "fst (en_rules env w) \<noteq> None" for w using willing by (simp add: willing_def)
  have reach: "\<not> si_force input \<Longrightarrow>
      fst (run_state (routeExitReachability env (xt_via (si_exit input)) (xt_dev (si_exit input))) (w, acts)) \<noteq> reachBroken" for w acts
    using willing by (simp add: willing_def)
  show ?thesis
    unfolding executeRouteSwitch_def
  proof (rule wp_bind, rule wp_read, rule wp_option, simp add: wp_return, rule wp_bind, rule wp_observe_answer, rule wp_option)
    fix r entries a w
    assume "fst (en_rules env w) = a"
    then show "a = None \<Longrightarrow> wp (State_Monad.return (switch_fail ''netlink'')) (\<lambda>_. ?replaced) ([] @ [DidRead r])"
      using rules by auto
    fix rules
    assume r: "r = Some entries"
    show "wp (if entriesForDest entries (si_dest input) = [] then State_Monad.return (switch_fail ''route'')
        else routeExitReachability env (xt_via (si_exit input)) (xt_dev (si_exit input)) \<bind>
          (\<lambda>reach. if reach = reachBroken \<and> \<not> si_force input then State_Monad.return (switch_fail ''reach'')
            else if si_dryRun input then State_Monad.return
                 (case routeReplaceArgs (hd (entriesForDest entries (si_dest input))) (xt_via (si_exit input)) of
                    Inl _ \<Rightarrow> switch_fail ''plan''
                  | Inr _ \<Rightarrow> \<lparr>sw_result = resultPass [], sw_cancelled = False\<rparr>)
            else switch_risk env input (hd (entriesForDest entries (si_dest input))) \<bind>
              changeRoute env input (switch_snapshot input entries rules))) (\<lambda>_. ?replaced) ([] @ [DidRead r])"
      using wet risk r by (intro wp_if wp_bind wp_reach_answer) (auto intro: wp_return dest: reach)
  qed
qed

text \<open>
  C31. A route without a device can be switched, but not back by the timer. The log of a switch begins
  with the read of the routes; when the first of them to the destination has no device (a multipath
  route has none of its own), every snapshot that is written, all to the state file that the timer is
  given, is one that \<open>readRouteState\<close> refuses, so the rollback of the timer cannot start. Nothing in
  the switch looks at this: when the rules are read, the state file is written, the kernel replaces the
  route, and either \<open>--force\<close> is given or systemd reports the timer as active and the exit is not seen
  as unreachable, then the route is replaced.
\<close>
theorem route_switch_unreadable_snapshot:
  assumes "run_state (executeRouteSwitch env input) (w, []) = (outcome, (w1, acts))"
    and "hd acts = DidRead (Some entries)" and "re_dev (hd (entriesForDest entries (si_dest input))) = []"
  shows "(\<forall>path snap ok. DidWrite path snap ok \<in> set acts \<longrightarrow> path = si_statePath input \<and> \<not> routeStateUsable snap) \<and>
    (willing env input \<and> \<not> si_dryRun input \<and> entriesForDest entries (si_dest input) \<noteq> [] \<longrightarrow>
       DidReplace (hd (entriesForDest entries (si_dest input))) (xt_via (si_exit input)) True \<in> set acts)"
proof
  show "\<forall>path snap ok. DidWrite path snap ok \<in> set acts \<longrightarrow> path = si_statePath input \<and> \<not> routeStateUsable snap"
    using wpD [OF writes_switch assms(1)] assms(2,3)
    by (fastforce simp: writes_target_def list_all_iff routeStateUsable_def)
  show "willing env input \<and> \<not> si_dryRun input \<and> entriesForDest entries (si_dest input) \<noteq> [] \<longrightarrow>
      DidReplace (hd (entriesForDest entries (si_dest input))) (xt_via (si_exit input)) True \<in> set acts"
    using wpD [OF replaced_switch assms(1)] assms(2) by blast
qed

theorem route_switch_unreadable_snapshot_witness:
  "let acts = snd (snd (demo_run (demo_target\<lparr>re_dev := []\<rparr>) ''192.0.2.1'')) in
   (\<forall>path snap ok. DidWrite path snap ok \<in> set acts \<longrightarrow>
      path = ''/run/edc/route-r1.json'' \<and> \<not> routeStateUsable snap) \<and>
   DidReplace (demo_target\<lparr>re_dev := []\<rparr>) ''10.0.0.2'' True \<in> set acts"
proof -
  let ?target = "demo_target\<lparr>re_dev := []\<rparr>"
  have first: "hd (snd (snd (demo_run ?target ''192.0.2.1''))) = DidRead (Some [?target])"
    "entriesForDest [?target] (si_dest (demo_input ''192.0.2.1'')) = [?target]"
    by code_simp+
  have "willing (demo_env ?target) (demo_input ''192.0.2.1'')"
    by (simp add: willing_def demo_env_def demo_input_def routeExitReachability_def observe_world_def
        exitReach_def reach_names)
  then show ?thesis
    using route_switch_unreadable_snapshot [OF demo_split [of ?target "''192.0.2.1''", unfolded demo_run_def] , of "[?target]"] first
    by (simp add: demo_run_def demo_input_def Let_def)
qed

end
