(* ===== verification/ExpectPacket.thy ===== *)
theory ExpectPacket
  imports Prelude
begin

text \<open>
  The packets of \<open>edc tcp expect\<close> (internal/edc/tcp_expect.go, tcp_expect_status.go): the addresses
  of \<open>net/netip\<close> as far as they are used, \<open>parseExpectPacket\<close> and \<open>parseExpectOtherSYN\<close>, which
  read the headers of a captured packet, and the classic BPF programs \<open>expectFilter\<close> and
  \<open>expectOtherSYNFilter\<close>, which decide in the kernel what is captured at all, with
  \<open>assembleExpectFilter\<close>, which resolves their labels. The machine that runs such a program is
  not part of the repository: its documented behaviour is the locale \<open>classic_bpf\<close>, and the
  theorems hold for every function that obeys its laws.
\<close>

unbundle bit_operations_syntax

subsection \<open>Addresses\<close>

text \<open>
  \<open>netip.Addr\<close>: the zero value, an IPv4 address of four bytes, or an IPv6 address of sixteen bytes
  with its zone. \<open>netip.Prefix\<close>: the zero value is \<open>NoPrefix\<close>.
\<close>

datatype netipAddr = NoAddr | Addr4 bytes | Addr6 bytes bytes

datatype netipPrefix = NoPrefix | Prefix netipAddr nat

record netipAddrPort =
  ap_addr :: netipAddr
  ap_port :: u16

definition sub_bytes :: "nat \<Rightarrow> nat \<Rightarrow> bytes \<Rightarrow> bytes" where
  "sub_bytes from to bs = take (to - from) (drop from bs)"

definition addrUnmap :: "netipAddr \<Rightarrow> netipAddr" where
  "addrUnmap a =
     (case a of
        Addr6 bs zone \<Rightarrow>
          if take 12 bs = replicate 10 (CHR 0x00) @ [CHR 0xFF, CHR 0xFF] then Addr4 (drop 12 bs) else a
      | _ \<Rightarrow> a)"

definition addrIsLoopback :: "netipAddr \<Rightarrow> bool" where
  "addrIsLoopback a =
     (case a of
        NoAddr \<Rightarrow> False
      | Addr4 bs \<Rightarrow> take 1 bs = [CHR 0x7F]
      | Addr6 bs zone \<Rightarrow>
          if take 12 bs = replicate 10 (CHR 0x00) @ [CHR 0xFF, CHR 0xFF] then take 1 (drop 12 bs) = [CHR 0x7F]
          else bs = replicate 15 (CHR 0x00) @ [CHR 0x01])"

text \<open>\<open>Prefix.Contains\<close>: the families have to agree, a zone never matches, and then the first bits decide.\<close>

definition prefixContains :: "netipPrefix \<Rightarrow> netipAddr \<Rightarrow> bool" where
  "prefixContains pfx a =
     (case (pfx, a) of
        (Prefix (Addr4 ps) bits, Addr4 bs) \<Rightarrow> drop_bit (32 - bits) (be_nat ps) = drop_bit (32 - bits) (be_nat bs)
      | (Prefix (Addr6 ps _) bits, Addr6 bs zone) \<Rightarrow>
          zone = [] \<and> drop_bit (128 - bits) (be_nat ps) = drop_bit (128 - bits) (be_nat bs)
      | _ \<Rightarrow> False)"

definition prefixIsSingleIP :: "netipPrefix \<Rightarrow> bool" where
  "prefixIsSingleIP pfx =
     (case pfx of Prefix (Addr4 _) bits \<Rightarrow> bits = 32 | Prefix (Addr6 _ _) bits \<Rightarrow> bits = 128 | _ \<Rightarrow> False)"

subsection \<open>Packets\<close>

definition tcpFlagSYN :: "8 word" where "tcpFlagSYN = 0x02"
definition tcpFlagRST :: "8 word" where "tcpFlagRST = 0x04"
definition tcpFlagACK :: "8 word" where "tcpFlagACK = 0x10"

text \<open>The capture loop fills in \<open>at\<close> and \<open>iface\<close>; times are nanoseconds since Go's zero time.\<close>

record expectPacket =
  pk_at :: int
  pk_iface :: bytes
  pk_outgoing :: bool
  pk_remote :: netipAddrPort
  pk_local :: netipAddrPort
  pk_flags :: "8 word"
  pk_seq :: u32

definition be16 :: "bytes \<Rightarrow> nat \<Rightarrow> u16" where
  "be16 bs i = word_of_nat (be_nat (sub_bytes i (i + 2) bs))"

definition be32 :: "bytes \<Rightarrow> nat \<Rightarrow> u32" where
  "be32 bs i = word_of_nat (be_nat (sub_bytes i (i + 4) bs))"

definition u8_at :: "bytes \<Rightarrow> nat \<Rightarrow> 8 word" where
  "u8_at bs i = word_of_nat (bval (bs ! i))"

text \<open>The switch over the IP version, which both readers spell out: source, destination and the TCP header.\<close>

definition expect_headers :: "bytes \<Rightarrow> (netipAddr \<times> netipAddr \<times> bytes) option" where
  "expect_headers data =
     (if length data < 1 then None
      else if drop_bit 4 (u8_at data 0) = 4 then
        (let headerLength = unat (u8_at data 0 AND 0x0f) * 4
         in if headerLength < 20 \<or> length data < headerLength + 14 \<or> u8_at data 9 \<noteq> 6 then None
            else if be16 data 6 AND 0x1fff \<noteq> 0 then None
            else Some (Addr4 (sub_bytes 12 16 data), Addr4 (sub_bytes 16 20 data), drop headerLength data))
      else if drop_bit 4 (u8_at data 0) = 6 then
        (if length data < 40 + 14 \<or> u8_at data 6 \<noteq> 6 then None
         else Some (addrUnmap (Addr6 (sub_bytes 8 24 data) []), addrUnmap (Addr6 (sub_bytes 24 40 data) []), drop 40 data))
      else None)"

definition parseExpectPacket :: "bytes \<Rightarrow> u16 \<Rightarrow> bool \<Rightarrow> expectPacket option" where
  "parseExpectPacket data port outgoing =
     (case expect_headers data of
        None \<Rightarrow> None
      | Some (source, destination, tcp) \<Rightarrow>
          let sourcePort = be16 tcp 0; destinationPort = be16 tcp 2;
              packet = \<lparr>pk_at = 0, pk_iface = [], pk_outgoing = outgoing,
                 pk_remote = \<lparr>ap_addr = NoAddr, ap_port = 0\<rparr>, pk_local = \<lparr>ap_addr = NoAddr, ap_port = 0\<rparr>,
                 pk_flags = u8_at tcp 13, pk_seq = be32 tcp 4\<rparr>
          in if outgoing then
               (if sourcePort \<noteq> port then None
                else Some (packet\<lparr>pk_local := \<lparr>ap_addr = source, ap_port = sourcePort\<rparr>,
                                  pk_remote := \<lparr>ap_addr = destination, ap_port = destinationPort\<rparr>\<rparr>))
             else
               (if destinationPort \<noteq> port then None
                else Some (packet\<lparr>pk_remote := \<lparr>ap_addr = source, ap_port = sourcePort\<rparr>,
                                  pk_local := \<lparr>ap_addr = destination, ap_port = destinationPort\<rparr>\<rparr>)))"

definition parseExpectOtherSYN :: "bytes \<Rightarrow> u16 \<Rightarrow> (netipAddr \<times> netipAddr \<times> u16) option" where
  "parseExpectOtherSYN data port =
     (case expect_headers data of
        None \<Rightarrow> None
      | Some (remote, local, tcp) \<Rightarrow>
          let destinationPort = be16 tcp 2
          in if u8_at tcp 13 AND (tcpFlagSYN OR tcpFlagACK) \<noteq> tcpFlagSYN \<or> destinationPort = port then None
             else Some (remote, local, destinationPort))"

subsection \<open>Filter programs\<close>

text \<open>The instructions of golang.org/x/net/bpf that the programs use.\<close>

datatype bpfALUOp = ALUOpAdd | ALUOpAnd | ALUOpShiftLeft | ALUOpShiftRight

datatype bpfJumpTest = JumpEqual | JumpBitsSet

datatype bpfInstruction =
    LoadAbsolute nat nat
  | LoadIndirect nat nat
  | LoadMemShift nat
  | ALUOpConstant bpfALUOp u32
  | ALUOpX bpfALUOp
  | TAX
  | JumpIf bpfJumpTest u32 "8 word" "8 word"
  | JumpIfX bpfJumpTest "8 word" "8 word"
  | RetConstant u32

record expectFilterStep =
  fs_label :: bytes
  fs_ins :: bpfInstruction
  fs_yes :: bytes
  fs_no :: bytes

abbreviation (input) ins :: "bpfInstruction \<Rightarrow> expectFilterStep" where
  "ins i \<equiv> \<lparr>fs_label = [], fs_ins = i, fs_yes = [], fs_no = []\<rparr>"

abbreviation (input) jump :: "bpfJumpTest \<Rightarrow> u32 \<Rightarrow> bytes \<Rightarrow> bytes \<Rightarrow> expectFilterStep" where
  "jump t v yes no \<equiv> \<lparr>fs_label = [], fs_ins = JumpIf t v 0 0, fs_yes = yes, fs_no = no\<rparr>"

abbreviation (input) jumpX :: "bpfJumpTest \<Rightarrow> bytes \<Rightarrow> bytes \<Rightarrow> expectFilterStep" where
  "jumpX t yes no \<equiv> \<lparr>fs_label = [], fs_ins = JumpIfX t 0 0, fs_yes = yes, fs_no = no\<rparr>"

abbreviation (input) labelled :: "bytes \<Rightarrow> expectFilterStep \<Rightarrow> expectFilterStep" where
  "labelled label step \<equiv> step\<lparr>fs_label := label\<rparr>"

definition expectSnapLength :: u32 where
  "expectSnapLength = 128"

text \<open>\<open>assembleExpectFilter\<close>: the program handed to \<open>bpf.Assemble\<close>; \<open>None\<close> is the error of a bad jump.\<close>

definition filter_labels :: "expectFilterStep list \<Rightarrow> bytes \<Rightarrow> nat option" where
  "filter_labels steps =
     map_of (rev (filter (\<lambda>(label, _). label \<noteq> []) (zip (map fs_label steps) [0..<length steps])))"

definition filter_skip :: "(bytes \<Rightarrow> nat option) \<Rightarrow> nat \<Rightarrow> bytes \<Rightarrow> 8 word option" where
  "filter_skip labels from label =
     (if label = [] then Some 0
      else case labels label of
             None \<Rightarrow> None
           | Some target \<Rightarrow>
               if target \<le> from \<or> 255 < target - from - 1 then None
               else Some (word_of_nat (target - from - 1)))"

fun filter_patch :: "bpfInstruction \<Rightarrow> 8 word \<Rightarrow> 8 word \<Rightarrow> bpfInstruction" where
  "filter_patch (JumpIf t v _ _) yes no = JumpIf t v yes no"
| "filter_patch (JumpIfX t _ _) yes no = JumpIfX t yes no"
| "filter_patch i yes no = i"

fun filter_assemble :: "(bytes \<Rightarrow> nat option) \<Rightarrow> nat \<Rightarrow> expectFilterStep list \<Rightarrow> bpfInstruction list option" where
  "filter_assemble labels index [] = Some []"
| "filter_assemble labels index (step # steps) =
     (case filter_skip labels index (fs_yes step) of
        None \<Rightarrow> None
      | Some yes \<Rightarrow>
          (case filter_skip labels index (fs_no step) of
             None \<Rightarrow> None
           | Some no \<Rightarrow>
               map_option ((#) (filter_patch (fs_ins step) yes no)) (filter_assemble labels (Suc index) steps)))"

definition assembleExpectFilter :: "expectFilterStep list \<Rightarrow> bpfInstruction list option" where
  "assembleExpectFilter steps = filter_assemble (filter_labels steps) 0 steps"

text \<open>\<open>tcpFlagSYN | tcpFlagRST\<close> is 6, \<open>tcpFlagSYN | tcpFlagACK\<close> is 18.\<close>

definition expectFilter_steps :: "u16 \<Rightarrow> expectFilterStep list" where
  "expectFilter_steps port =
    [ins (LoadAbsolute 0 1),
     ins (ALUOpConstant ALUOpShiftRight 4),
     jump JumpEqual 4 [] ''v6'',
     ins (LoadAbsolute 9 1),
     jump JumpEqual 6 [] ''drop'',
     ins (LoadAbsolute 6 2),
     jump JumpBitsSet 0x1fff ''drop'' [],
     ins (LoadMemShift 0),
     ins (LoadIndirect 2 2),
     jump JumpEqual (ucast port) ''in4'' [],
     ins (LoadIndirect 0 2),
     jump JumpEqual (ucast port) [] ''drop'',
     ins (LoadIndirect 13 1),
     jump JumpBitsSet 6 ''accept'' ''drop'',
     labelled ''in4'' (ins (LoadIndirect 13 1)),
     jump JumpBitsSet 6 ''accept'' [],
     ins (LoadIndirect 12 1),
     ins (ALUOpConstant ALUOpShiftRight 4),
     ins (ALUOpConstant ALUOpShiftLeft 2),
     ins (ALUOpX ALUOpAdd),
     ins TAX,
     ins (LoadAbsolute 2 2),
     jumpX JumpEqual ''accept'' ''drop'',
     labelled ''v6'' (jump JumpEqual 6 [] ''drop''),
     ins (LoadAbsolute 6 1),
     jump JumpEqual 6 [] ''drop'',
     ins (LoadAbsolute 42 2),
     jump JumpEqual (ucast port) ''in6'' [],
     ins (LoadAbsolute 40 2),
     jump JumpEqual (ucast port) [] ''drop'',
     ins (LoadAbsolute 53 1),
     jump JumpBitsSet 6 ''accept'' ''drop'',
     labelled ''in6'' (ins (LoadAbsolute 53 1)),
     jump JumpBitsSet 6 ''accept'' [],
     ins (LoadAbsolute 52 1),
     ins (ALUOpConstant ALUOpShiftRight 4),
     ins (ALUOpConstant ALUOpShiftLeft 2),
     ins TAX,
     ins (LoadAbsolute 4 2),
     jumpX JumpEqual ''accept'' ''drop'',
     labelled ''accept'' (ins (RetConstant expectSnapLength)),
     labelled ''drop'' (ins (RetConstant 0))]"

definition expectFilter :: "u16 \<Rightarrow> bpfInstruction list option" where
  "expectFilter port = assembleExpectFilter (expectFilter_steps port)"

definition expectOtherSYNFilter_steps :: "u16 \<Rightarrow> expectFilterStep list" where
  "expectOtherSYNFilter_steps port =
    [ins (LoadAbsolute 0 1),
     ins (ALUOpConstant ALUOpShiftRight 4),
     jump JumpEqual 4 [] ''v6'',
     ins (LoadAbsolute 9 1),
     jump JumpEqual 6 [] ''drop'',
     ins (LoadAbsolute 6 2),
     jump JumpBitsSet 0x1fff ''drop'' [],
     ins (LoadMemShift 0),
     ins (LoadIndirect 13 1),
     ins (ALUOpConstant ALUOpAnd 18),
     jump JumpEqual 2 [] ''drop'',
     ins (LoadIndirect 2 2),
     jump JumpEqual (ucast port) ''drop'' ''accept'',
     labelled ''v6'' (jump JumpEqual 6 [] ''drop''),
     ins (LoadAbsolute 6 1),
     jump JumpEqual 6 [] ''drop'',
     ins (LoadAbsolute 53 1),
     ins (ALUOpConstant ALUOpAnd 18),
     jump JumpEqual 2 [] ''drop'',
     ins (LoadAbsolute 42 2),
     jump JumpEqual (ucast port) ''drop'' ''accept'',
     labelled ''accept'' (ins (RetConstant expectSnapLength)),
     labelled ''drop'' (ins (RetConstant 0))]"

definition expectOtherSYNFilter :: "u16 \<Rightarrow> bpfInstruction list option" where
  "expectOtherSYNFilter port = assembleExpectFilter (expectOtherSYNFilter_steps port)"

lemma expectFilter_assembles:
  "expectFilter port = Some
    [LoadAbsolute 0 1, ALUOpConstant ALUOpShiftRight 4, JumpIf JumpEqual 4 0 20,
     LoadAbsolute 9 1, JumpIf JumpEqual 6 0 36, LoadAbsolute 6 2, JumpIf JumpBitsSet 0x1fff 34 0,
     LoadMemShift 0, LoadIndirect 2 2, JumpIf JumpEqual (ucast port) 4 0,
     LoadIndirect 0 2, JumpIf JumpEqual (ucast port) 0 29, LoadIndirect 13 1, JumpIf JumpBitsSet 6 26 27,
     LoadIndirect 13 1, JumpIf JumpBitsSet 6 24 0, LoadIndirect 12 1,
     ALUOpConstant ALUOpShiftRight 4, ALUOpConstant ALUOpShiftLeft 2, ALUOpX ALUOpAdd, TAX,
     LoadAbsolute 2 2, JumpIfX JumpEqual 17 18,
     JumpIf JumpEqual 6 0 17, LoadAbsolute 6 1, JumpIf JumpEqual 6 0 15,
     LoadAbsolute 42 2, JumpIf JumpEqual (ucast port) 4 0, LoadAbsolute 40 2, JumpIf JumpEqual (ucast port) 0 11,
     LoadAbsolute 53 1, JumpIf JumpBitsSet 6 8 9, LoadAbsolute 53 1, JumpIf JumpBitsSet 6 6 0,
     LoadAbsolute 52 1, ALUOpConstant ALUOpShiftRight 4, ALUOpConstant ALUOpShiftLeft 2, TAX,
     LoadAbsolute 4 2, JumpIfX JumpEqual 0 1, RetConstant expectSnapLength, RetConstant 0]"
proof -
  have "filter_labels (expectFilter_steps port) =
      [''in4'' \<mapsto> 14, ''v6'' \<mapsto> 23, ''in6'' \<mapsto> 32, ''accept'' \<mapsto> 40, ''drop'' \<mapsto> 41]"
    by (simp add: filter_labels_def expectFilter_steps_def upt_rec fun_eq_iff)
  then show ?thesis
    unfolding expectFilter_def assembleExpectFilter_def
    by (simp add: expectFilter_steps_def filter_skip_def)
qed

lemma expectOtherSYNFilter_assembles:
  "expectOtherSYNFilter port = Some
    [LoadAbsolute 0 1, ALUOpConstant ALUOpShiftRight 4, JumpIf JumpEqual 4 0 10,
     LoadAbsolute 9 1, JumpIf JumpEqual 6 0 17, LoadAbsolute 6 2, JumpIf JumpBitsSet 0x1fff 15 0,
     LoadMemShift 0, LoadIndirect 13 1, ALUOpConstant ALUOpAnd 18, JumpIf JumpEqual 2 0 11,
     LoadIndirect 2 2, JumpIf JumpEqual (ucast port) 9 8,
     JumpIf JumpEqual 6 0 8, LoadAbsolute 6 1, JumpIf JumpEqual 6 0 6,
     LoadAbsolute 53 1, ALUOpConstant ALUOpAnd 18, JumpIf JumpEqual 2 0 3,
     LoadAbsolute 42 2, JumpIf JumpEqual (ucast port) 1 0, RetConstant expectSnapLength, RetConstant 0]"
proof -
  have "filter_labels (expectOtherSYNFilter_steps port) = [''v6'' \<mapsto> 13, ''accept'' \<mapsto> 21, ''drop'' \<mapsto> 22]"
    by (simp add: filter_labels_def expectOtherSYNFilter_steps_def upt_rec fun_eq_iff)
  then show ?thesis
    unfolding expectOtherSYNFilter_def assembleExpectFilter_def
    by (simp add: expectOtherSYNFilter_steps_def filter_skip_def)
qed

subsection \<open>The machine\<close>

text \<open>
  What the documentation of classic BPF says of these instructions: \<open>exec prog data a x\<close> is the
  number of bytes of \<open>data\<close> that the rest \<open>prog\<close> of a program lets through when the accumulator holds
  \<open>a\<close> and the index register \<open>x\<close>. Loads are in network byte order, one past the packet rejects it,
  and a jump skips instructions.
\<close>

definition bpf_read :: "bytes \<Rightarrow> nat \<Rightarrow> nat \<Rightarrow> u32" where
  "bpf_read data off n = word_of_nat (be_nat (sub_bytes off (off + n) data))"

definition bpf_load :: "bytes \<Rightarrow> nat \<Rightarrow> nat \<Rightarrow> u32 option" where
  "bpf_load data off n = (if off + n \<le> length data then Some (bpf_read data off n) else None)"

fun bpf_alu :: "bpfALUOp \<Rightarrow> u32 \<Rightarrow> u32 \<Rightarrow> u32" where
  "bpf_alu ALUOpAdd a v = a + v"
| "bpf_alu ALUOpAnd a v = a AND v"
| "bpf_alu ALUOpShiftLeft a v = push_bit (unat v) a"
| "bpf_alu ALUOpShiftRight a v = drop_bit (unat v) a"

fun bpf_test :: "bpfJumpTest \<Rightarrow> u32 \<Rightarrow> u32 \<Rightarrow> bool" where
  "bpf_test JumpEqual a v \<longleftrightarrow> a = v"
| "bpf_test JumpBitsSet a v \<longleftrightarrow> a AND v \<noteq> 0"

locale classic_bpf =
  fixes exec :: "bpfInstruction list \<Rightarrow> bytes \<Rightarrow> u32 \<Rightarrow> u32 \<Rightarrow> nat"
  assumes load_absolute: "exec (LoadAbsolute off n # prog) data a x =
      (case bpf_load data off n of None \<Rightarrow> 0 | Some v \<Rightarrow> exec prog data v x)"
    and load_indirect: "exec (LoadIndirect off n # prog) data a x =
      (case bpf_load data (off + unat x) n of None \<Rightarrow> 0 | Some v \<Rightarrow> exec prog data v x)"
    and load_mem_shift: "exec (LoadMemShift off # prog) data a x =
      (case bpf_load data off 1 of None \<Rightarrow> 0 | Some v \<Rightarrow> exec prog data a (4 * (v AND 0x0f)))"
    and alu_constant: "exec (ALUOpConstant op v # prog) data a x = exec prog data (bpf_alu op a v) x"
    and alu_x: "exec (ALUOpX op # prog) data a x = exec prog data (bpf_alu op a x) x"
    and tax: "exec (TAX # prog) data a x = exec prog data a a"
    and jump_if: "exec (JumpIf t v yes no # prog) data a x =
      exec (drop (unat (if bpf_test t a v then yes else no)) prog) data a x"
    and jump_if_x: "exec (JumpIfX t yes no # prog) data a x =
      exec (drop (unat (if bpf_test t a x then yes else no)) prog) data a x"
    and ret_constant: "exec (RetConstant v # prog) data a x = unat v"
begin

text \<open>The same laws as conditionals, for running a program symbolically.\<close>

lemma run_load:
  "exec (LoadAbsolute off n # prog) data a x =
     (if off + n \<le> length data then exec prog data (bpf_read data off n) x else 0)"
  "exec (LoadIndirect off n # prog) data a x =
     (if off + unat x + n \<le> length data then exec prog data (bpf_read data (off + unat x) n) x else 0)"
  "exec (LoadMemShift off # prog) data a x =
     (if off + 1 \<le> length data then exec prog data a (4 * (bpf_read data off 1 AND 0x0f)) else 0)"
  by (simp_all add: load_absolute load_indirect load_mem_shift bpf_load_def)

lemma run_jump:
  "exec (JumpIf t v yes no # prog) data a x =
     (if bpf_test t a v then exec (drop (unat yes) prog) data a x else exec (drop (unat no) prog) data a x)"
  "exec (JumpIfX t yes no # prog) data a x =
     (if bpf_test t a x then exec (drop (unat yes) prog) data a x else exec (drop (unat no) prog) data a x)"
  by (simp_all add: jump_if jump_if_x)

lemmas run = run_load run_jump alu_constant alu_x tax ret_constant

end

text \<open>A function that obeys the laws, so that they are known to be satisfiable.\<close>

function bpf_machine :: "bpfInstruction list \<Rightarrow> bytes \<Rightarrow> u32 \<Rightarrow> u32 \<Rightarrow> nat" where
  "bpf_machine [] data a x = 0"
| "bpf_machine (LoadAbsolute off n # prog) data a x =
     (case bpf_load data off n of None \<Rightarrow> 0 | Some v \<Rightarrow> bpf_machine prog data v x)"
| "bpf_machine (LoadIndirect off n # prog) data a x =
     (case bpf_load data (off + unat x) n of None \<Rightarrow> 0 | Some v \<Rightarrow> bpf_machine prog data v x)"
| "bpf_machine (LoadMemShift off # prog) data a x =
     (case bpf_load data off 1 of None \<Rightarrow> 0 | Some v \<Rightarrow> bpf_machine prog data a (4 * (v AND 0x0f)))"
| "bpf_machine (ALUOpConstant op v # prog) data a x = bpf_machine prog data (bpf_alu op a v) x"
| "bpf_machine (ALUOpX op # prog) data a x = bpf_machine prog data (bpf_alu op a x) x"
| "bpf_machine (TAX # prog) data a x = bpf_machine prog data a a"
| "bpf_machine (JumpIf t v yes no # prog) data a x =
     bpf_machine (drop (unat (if bpf_test t a v then yes else no)) prog) data a x"
| "bpf_machine (JumpIfX t yes no # prog) data a x =
     bpf_machine (drop (unat (if bpf_test t a x then yes else no)) prog) data a x"
| "bpf_machine (RetConstant v # prog) data a x = unat v"
  by pat_completeness auto
termination by (relation "measure (\<lambda>(prog, _). length prog)") (auto simp: le_imp_less_Suc)

interpretation bpf: classic_bpf bpf_machine
  by unfold_locales simp_all

subsection \<open>The filter keeps what the session needs\<close>

text \<open>A byte or a half word of the packet, as the machine and as the reader of the headers sees it.\<close>

lemma up8_unat: "unat (ucast (w :: 8 word) :: u32) = unat w"
  by (simp add: unsigned_ucast_eq take_bit_nat_eq_self_iff less_trans [OF unsigned_less])

lemma up16_unat: "unat (ucast (w :: u16) :: u32) = unat w"
  by (simp add: unsigned_ucast_eq take_bit_nat_eq_self_iff less_trans [OF unsigned_less])

lemma unat_shift_right: "unat (drop_bit n (w :: 'a :: len word)) = unat w div 2 ^ n"
  by (simp add: drop_bit_eq_div [symmetric] unat_drop_bit_eq)

lemma unat_low4: "4 \<le> LENGTH('a) \<Longrightarrow> unat ((w :: 'a :: len word) AND 15) = unat w mod 16"
proof -
  have "w AND 15 = take_bit 4 w" by (simp add: take_bit_eq_mask mask_eq_exp_minus_1)
  then have "unat (w AND 15) = take_bit 4 (unat w)" by (simp add: unsigned_take_bit_eq)
  then show ?thesis by (simp add: take_bit_eq_mod)
qed

lemma up_eq:
  "(ucast (w :: 8 word) :: u32) = ucast v \<longleftrightarrow> w = v"
  "(ucast (h :: u16) :: u32) = ucast k \<longleftrightarrow> h = k"
  by (simp_all add: word_unat_eq_iff up8_unat up16_unat)

lemma up_tests:
  "drop_bit 4 (ucast (w :: 8 word) :: u32) = 4 \<longleftrightarrow> drop_bit 4 w = 4"
  "drop_bit 4 (ucast (w :: 8 word) :: u32) = 6 \<longleftrightarrow> drop_bit 4 w = 6"
  "(ucast (w :: 8 word) :: u32) = 6 \<longleftrightarrow> w = 6"
  "(ucast (w :: 8 word) :: u32) AND 6 = 0 \<longleftrightarrow> w AND 6 = 0"
  "(ucast (w :: 8 word) :: u32) AND 18 = 2 \<longleftrightarrow> w AND 18 = 2"
  "(ucast (h :: u16) :: u32) AND 0x1fff = 0 \<longleftrightarrow> h AND 0x1fff = 0"
  by (simp_all add: word_unat_eq_iff unat_shift_right unsigned_and_eq up8_unat up16_unat)

lemma length_sub_bytes: "length (sub_bytes i j bs) \<le> j - i"
  by (simp add: sub_bytes_def)

lemma sub_bytes_Suc: "i < length bs \<Longrightarrow> sub_bytes i (i + 1) bs = [bs ! i]"
  unfolding sub_bytes_def by (cases "drop i bs") (auto simp: nth_via_drop)

lemma read_byte:
  assumes "i < length bs"
  shows "bpf_read bs i 1 = ucast (u8_at bs i)"
proof -
  have "bval (bs ! i) < 2 ^ 8" by simp
  then show ?thesis
    using sub_bytes_Suc [OF assms]
    by (simp add: bpf_read_def u8_at_def be_nat_def word_unat_eq_iff up8_unat unsigned_of_nat take_bit_eq_mod)
qed

lemma read_half: "i + 2 \<le> length bs \<Longrightarrow> bpf_read bs i 2 = ucast (be16 bs i)"
proof -
  have "be_nat (sub_bytes i (i + 2) bs) < 2 ^ 16"
    using le_nat_bound_le [of "rev (sub_bytes i (i + 2) bs)" 2] length_sub_bytes [of i "i + 2" bs] by (simp add: be_nat_def)
  then show ?thesis
    by (simp add: bpf_read_def be16_def word_unat_eq_iff up16_unat unsigned_of_nat take_bit_eq_mod)
qed

text \<open>
  A header is within the first 74 bytes, so what the kernel cuts off behind 128 bytes is never read.
\<close>

lemma u8_at_take: "i < n \<Longrightarrow> u8_at (take n bs) i = u8_at bs i"
  by (simp add: u8_at_def)

lemma sub_bytes_take: "j \<le> n \<Longrightarrow> sub_bytes i j (take n bs) = sub_bytes i j bs"
  by (simp add: sub_bytes_def drop_take)

lemma low4_le: "unat ((w :: 8 word) AND 15) \<le> 15"
  by (simp add: unat_low4 less_Suc_eq_le [symmetric])

lemma be16_take: "i + 2 \<le> n \<Longrightarrow> be16 (take n bs) i = be16 bs i"
  by (simp add: be16_def sub_bytes_take)

lemma expect_headers_take:
  assumes n: "74 \<le> n"
  shows "(expect_headers data = None \<longrightarrow> expect_headers (take n data) = None) \<and>
    (\<forall>source destination tcp. expect_headers data = Some (source, destination, tcp) \<longrightarrow>
       (\<exists>k\<ge>14. expect_headers (take n data) = Some (source, destination, take k tcp)))"
proof -
  let ?h = "unat (u8_at data 0 AND 15) * 4"
  have h: "?h \<le> 60" using low4_le [of "u8_at data 0"] by simp
  have k: "14 \<le> n - ?h" "14 \<le> n - 40" using h n by linarith+
  have same: "length (take n data) < 1 \<longleftrightarrow> length data < 1" "length (take n data) < ?h + 14 \<longleftrightarrow> length data < ?h + 14"
      "length (take n data) < 40 + 14 \<longleftrightarrow> length data < 40 + 14"
    using h n by (auto simp: min_def split: if_splits)
  show ?thesis
    using n k unfolding expect_headers_def same
    by (auto simp: u8_at_take be16_take sub_bytes_take drop_take Let_def)
qed

lemma parseExpectPacket_take:
  assumes "74 \<le> n"
  shows "parseExpectPacket (take n data) port outgoing = parseExpectPacket data port outgoing"
proof (cases "expect_headers data")
  case None
  then have "expect_headers (take n data) = None" using expect_headers_take [OF assms] by blast
  with None show ?thesis by (simp add: parseExpectPacket_def)
next
  case (Some p)
  then obtain source destination tcp where p: "expect_headers data = Some (source, destination, tcp)" by (cases p) auto
  then obtain k where k: "14 \<le> k" "expect_headers (take n data) = Some (source, destination, take k tcp)"
    using expect_headers_take [OF assms] by blast
  then show ?thesis
    unfolding parseExpectPacket_def p k(2) by (simp add: be16_take be32_def sub_bytes_take u8_at_take)
qed

subsection \<open>What the filter lets through\<close>

text \<open>
  A packet without payload: the length in the IP header is used up by the headers. \<open>expect_kept\<close>
  is what the comment of \<open>expectFilter\<close> promises: of a packet that the reader accepts, SYN and RST
  in either direction, and towards the port also what carries no payload.
\<close>

definition payload_free :: "bytes \<Rightarrow> bool" where
  "payload_free data \<longleftrightarrow>
     (if drop_bit 4 (u8_at data 0) = 4 then
        let headerLength = unat (u8_at data 0 AND 0x0f) * 4
        in unat (be16 data 2) = headerLength + unat (drop_bit 4 (u8_at data (headerLength + 12))) * 4
      else unat (be16 data 4) = unat (drop_bit 4 (u8_at data 52)) * 4)"

definition expect_kept :: "u16 \<Rightarrow> bytes \<Rightarrow> expectPacket \<Rightarrow> bool" where
  "expect_kept port data p \<longleftrightarrow>
     pk_flags p AND (tcpFlagSYN OR tcpFlagRST) \<noteq> 0 \<or>
     ap_port (if pk_outgoing p then pk_remote p else pk_local p) = port \<and> payload_free data"

lemma unat_low4_times: "unat (4 * (ucast (w :: 8 word) AND (15 :: u32))) = unat (w AND 15) * 4"
proof -
  have "unat (ucast w AND (15 :: u32)) = unat (w AND 15)"
    by (simp add: unsigned_and_eq up8_unat)
  then show ?thesis using low4_le [of w] by (simp add: unat_word_ariths)
qed

lemma unat_shifts: "unat (push_bit 2 (drop_bit 4 (ucast (w :: 8 word) :: u32))) = unat (drop_bit 4 w) * 4"
proof -
  have "unat w < 256" using unsigned_less [of w] by simp
  then have "unat w div 16 * 4 < 4294967296" by linarith
  then show ?thesis by (simp add: push_bit_eq_mult unat_word_ariths unat_shift_right up8_unat)
qed

lemma length_fields:
  "ucast (h :: u16) = push_bit 2 (drop_bit 4 (ucast (w :: 8 word) :: u32)) + 4 * (ucast (v :: 8 word) AND 15) \<longleftrightarrow>
     unat h = unat (v AND 15) * 4 + unat (drop_bit 4 w) * 4"
  "ucast h = push_bit 2 (drop_bit 4 (ucast w :: u32)) \<longleftrightarrow> unat h = unat (drop_bit 4 w) * 4"
proof -
  have "unat w < 256" using unsigned_less [of w] by simp
  then have w: "unat (drop_bit 4 w) * 4 < 64" by (simp add: unat_shift_right)
  have "unat (push_bit 2 (drop_bit 4 (ucast w :: u32)) + 4 * (ucast v AND 15)) = unat (v AND 15) * 4 + unat (drop_bit 4 w) * 4"
    using w low4_le [of v] by (simp add: unat_word_ariths(1) unat_shifts unat_low4_times)
  then show "ucast h = push_bit 2 (drop_bit 4 (ucast w :: u32)) + 4 * (ucast v AND 15) \<longleftrightarrow>
      unat h = unat (v AND 15) * 4 + unat (drop_bit 4 w) * 4"
    by (auto simp: word_unat_eq_iff up16_unat)
  show "ucast h = push_bit 2 (drop_bit 4 (ucast w :: u32)) \<longleftrightarrow> unat h = unat (drop_bit 4 w) * 4"
    by (auto simp: word_unat_eq_iff up16_unat unat_shifts)
qed

lemmas packet_tests = up_tests up_eq length_fields expectSnapLength_def

context classic_bpf
begin

text \<open>Running \<open>expectFilter\<close> on a packet whose IP header is in order, for either version.\<close>

lemma filter_v4:
  assumes prog: "expectFilter port = Some prog" and v4: "drop_bit 4 (u8_at data 0) = 4"
    and h: "h = unat (u8_at data 0 AND 15) * 4" "20 \<le> h" "h + 14 \<le> length data"
    and tcp: "u8_at data 9 = 6" "be16 data 6 AND 0x1fff = 0"
  shows "exec prog data 0 0 =
    (if u8_at data (h + 13) AND 6 \<noteq> 0 then (if be16 data (h + 2) = port \<or> be16 data h = port then 128 else 0)
     else if be16 data (h + 2) = port \<and> unat (be16 data 2) = h + unat (drop_bit 4 (u8_at data (h + 12))) * 4 then 128 else 0)"
proof -
  have x: "unat (4 * (ucast (u8_at data 0) AND (15 :: u32))) = h" by (simp add: unat_low4_times h(1))
  have len: "Suc 0 \<le> length data" "10 \<le> length data" "8 \<le> length data" "4 \<le> length data" "h + 2 \<le> length data"
      "h + 4 \<le> length data" "h + 13 \<le> length data" "h + 14 \<le> length data"
    using h by linarith+
  have "bpf_read data 0 1 = ucast (u8_at data 0)" "bpf_read data 9 1 = ucast (u8_at data 9)"
      "bpf_read data 6 2 = ucast (be16 data 6)" "bpf_read data (h + 2) 2 = ucast (be16 data (h + 2))"
      "bpf_read data h 2 = ucast (be16 data h)" "bpf_read data 2 2 = ucast (be16 data 2)"
      "bpf_read data (h + 13) 1 = ucast (u8_at data (h + 13))" "bpf_read data (h + 12) 1 = ucast (u8_at data (h + 12))"
    by (rule read_byte read_half, use h in linarith)+
  note reads = this [unfolded One_nat_def]
  show ?thesis
    using prog
    by (auto simp add: expectFilter_assembles run x len reads packet_tests v4 tcp h(1) [symmetric] add.commute [of _ h]
        simp del: add_2_eq_Suc add_2_eq_Suc' cong: if_cong)
qed

lemma filter_v6:
  assumes prog: "expectFilter port = Some prog" and v6: "drop_bit 4 (u8_at data 0) = 6"
    and len: "54 \<le> length data" and tcp: "u8_at data 6 = 6"
  shows "exec prog data 0 0 =
    (if u8_at data 53 AND 6 \<noteq> 0 then (if be16 data 42 = port \<or> be16 data 40 = port then 128 else 0)
     else if be16 data 42 = port \<and> unat (be16 data 4) = unat (drop_bit 4 (u8_at data 52)) * 4 then 128 else 0)"
proof -
  have l: "Suc 0 \<le> length data" "7 \<le> length data" "44 \<le> length data" "42 \<le> length data" "6 \<le> length data"
      "53 \<le> length data"
    using len by linarith+
  have "bpf_read data 0 1 = ucast (u8_at data 0)" "bpf_read data 6 1 = ucast (u8_at data 6)"
      "bpf_read data 42 2 = ucast (be16 data 42)" "bpf_read data 40 2 = ucast (be16 data 40)"
      "bpf_read data 53 1 = ucast (u8_at data 53)" "bpf_read data 52 1 = ucast (u8_at data 52)"
      "bpf_read data 4 2 = ucast (be16 data 4)"
    by (rule read_byte read_half, use len in linarith)+
  note reads = this [unfolded One_nat_def]
  show ?thesis
    using prog
    by (auto simp add: expectFilter_assembles run len l reads packet_tests v6 tcp cong: if_cong)
qed

text \<open>The same for \<open>expectOtherSYNFilter\<close>.\<close>

lemma other_filter_v4:
  assumes prog: "expectOtherSYNFilter port = Some prog" and v4: "drop_bit 4 (u8_at data 0) = 4"
    and h: "h = unat (u8_at data 0 AND 15) * 4" "20 \<le> h" "h + 14 \<le> length data"
    and tcp: "u8_at data 9 = 6" "be16 data 6 AND 0x1fff = 0"
  shows "exec prog data 0 0 = (if u8_at data (h + 13) AND 18 = 2 \<and> be16 data (h + 2) \<noteq> port then 128 else 0)"
proof -
  have x: "unat (4 * (ucast (u8_at data 0) AND (15 :: u32))) = h" by (simp add: unat_low4_times h(1))
  have len: "Suc 0 \<le> length data" "10 \<le> length data" "8 \<le> length data" "h + 4 \<le> length data" "h + 14 \<le> length data"
    using h by linarith+
  have "bpf_read data 0 1 = ucast (u8_at data 0)" "bpf_read data 9 1 = ucast (u8_at data 9)"
      "bpf_read data 6 2 = ucast (be16 data 6)" "bpf_read data (h + 2) 2 = ucast (be16 data (h + 2))"
      "bpf_read data (h + 13) 1 = ucast (u8_at data (h + 13))"
    by (rule read_byte read_half, use h in linarith)+
  note reads = this [unfolded One_nat_def]
  show ?thesis
    using prog
    by (auto simp add: expectOtherSYNFilter_assembles run x len reads packet_tests v4 tcp h(1) [symmetric] add.commute [of _ h]
        simp del: add_2_eq_Suc add_2_eq_Suc' cong: if_cong)
qed

lemma other_filter_v6:
  assumes prog: "expectOtherSYNFilter port = Some prog" and v6: "drop_bit 4 (u8_at data 0) = 6"
    and len: "54 \<le> length data" and tcp: "u8_at data 6 = 6"
  shows "exec prog data 0 0 = (if u8_at data 53 AND 18 = 2 \<and> be16 data 42 \<noteq> port then 128 else 0)"
proof -
  have l: "Suc 0 \<le> length data" "7 \<le> length data" "44 \<le> length data"
    using len by linarith+
  have "bpf_read data 0 1 = ucast (u8_at data 0)" "bpf_read data 6 1 = ucast (u8_at data 6)"
      "bpf_read data 42 2 = ucast (be16 data 42)" "bpf_read data 53 1 = ucast (u8_at data 53)"
    by (rule read_byte read_half, use len in linarith)+
  note reads = this [unfolded One_nat_def]
  show ?thesis
    using prog
    by (auto simp add: expectOtherSYNFilter_assembles run len l reads packet_tests v6 tcp cong: if_cong)
qed

end

text \<open>The headers that the reader accepts, in terms of the whole packet.\<close>

lemma u8_at_drop: "u8_at (drop h data) i = u8_at data (h + i)" if "h + i < length data"
  using that by (simp add: u8_at_def)

lemma be16_drop: "be16 (drop h data) i = be16 data (h + i)"
  by (simp add: be16_def sub_bytes_def add.commute)

lemma expect_headers_cases:
  assumes "expect_headers data = Some (source, destination, tcp)"
  obtains (v4) h where "drop_bit 4 (u8_at data 0) = 4" "h = unat (u8_at data 0 AND 15) * 4" "20 \<le> h"
      "h + 14 \<le> length data" "u8_at data 9 = 6" "be16 data 6 AND 0x1fff = 0" "tcp = drop h data"
    | (v6) "drop_bit 4 (u8_at data 0) = 6" "54 \<le> length data" "u8_at data 6 = 6" "tcp = drop 40 data"
  using assms unfolding expect_headers_def Let_def by (auto split: if_splits simp: not_less)

text \<open>What is read from the front of a packet is what is read from the whole.\<close>

lemma fields_append:
  "i < length xs \<Longrightarrow> u8_at (xs @ ys) i = u8_at xs i"
  "j \<le> length xs \<Longrightarrow> sub_bytes i j (xs @ ys) = sub_bytes i j xs"
  "i + 2 \<le> length xs \<Longrightarrow> be16 (xs @ ys) i = be16 xs i"
  "i + 4 \<le> length xs \<Longrightarrow> be32 (xs @ ys) i = be32 xs i"
  by (auto simp: u8_at_def sub_bytes_def be16_def be32_def nth_append)

lemma expect_headers_append:
  assumes "expect_headers xs = Some (source, destination, tcp)"
  shows "14 \<le> length tcp \<and> expect_headers (xs @ ys) = Some (source, destination, tcp @ ys)"
  using assms unfolding expect_headers_def Let_def
  by (auto split: if_splits simp: fields_append not_less)

lemma parses_append:
  "parseExpectPacket xs port outgoing = Some p \<Longrightarrow> parseExpectPacket (xs @ ys) port outgoing = Some p"
  "parseExpectOtherSYN xs port = Some q \<Longrightarrow> parseExpectOtherSYN (xs @ ys) port = Some q"
  unfolding parseExpectPacket_def parseExpectOtherSYN_def
  by (auto split: option.splits simp: fields_append dest: expect_headers_append [of xs _ _ _ ys])

lemma parses_front:
  "parseExpectPacket data port outgoing = None \<Longrightarrow> parseExpectPacket (take n data) port outgoing = None"
  "parseExpectOtherSYN data port = None \<Longrightarrow> parseExpectOtherSYN (take n data) port = None"
  using parses_append(1) [of "take n data" port outgoing _ "drop n data"]
    parses_append(2) [of "take n data" port _ "drop n data"]
  by (fastforce simp: not_Some_eq [symmetric] simp del: not_Some_eq)+

lemma parseExpectOtherSYN_take:
  assumes "74 \<le> n"
  shows "parseExpectOtherSYN (take n data) port = parseExpectOtherSYN data port"
proof (cases "expect_headers data")
  case None
  then have "expect_headers (take n data) = None" using expect_headers_take [OF assms] by blast
  with None show ?thesis by (simp add: parseExpectOtherSYN_def)
next
  case (Some p)
  then obtain source destination tcp where p: "expect_headers data = Some (source, destination, tcp)" by (cases p) auto
  then obtain k where k: "14 \<le> k" "expect_headers (take n data) = Some (source, destination, take k tcp)"
    using expect_headers_take [OF assms] by blast
  then show ?thesis
    unfolding parseExpectOtherSYN_def p k(2) by (simp add: be16_take u8_at_take)
qed

lemma parses_nothing: "parseExpectPacket [] port outgoing = None" "parseExpectOtherSYN [] port = None"
  by (simp_all add: parseExpectPacket_def parseExpectOtherSYN_def expect_headers_def)

text \<open>The two programs on a packet that the readers accept.\<close>

context classic_bpf
begin

lemma filter_keeps:
  assumes prog: "expectFilter port = Some prog" and parse: "parseExpectPacket data port outgoing = Some p"
  shows "exec prog data 0 0 = (if expect_kept port data p then 128 else 0)"
proof -
  obtain source destination tcp where tcp: "expect_headers data = Some (source, destination, tcp)"
    using parse by (auto simp: parseExpectPacket_def split: option.splits)
  then show ?thesis
  proof (cases rule: expect_headers_cases)
    case (v4 h)
    show ?thesis
      unfolding filter_v4 [OF prog v4(1-6)]
      using parse tcp v4
      by (auto simp: parseExpectPacket_def expect_kept_def payload_free_def be16_drop u8_at_drop Let_def
          tcpFlagSYN_def tcpFlagRST_def split: if_splits)
  next
    case v6
    show ?thesis
      unfolding filter_v6 [OF prog v6(1-3)]
      using parse tcp v6
      by (auto simp: parseExpectPacket_def expect_kept_def payload_free_def be16_drop u8_at_drop Let_def
          tcpFlagSYN_def tcpFlagRST_def split: if_splits)
  qed
qed

lemma other_filter_keeps:
  assumes prog: "expectOtherSYNFilter port = Some prog" and parse: "parseExpectOtherSYN data port = Some q"
  shows "exec prog data 0 0 = 128"
proof -
  obtain source destination tcp where tcp: "expect_headers data = Some (source, destination, tcp)"
    using parse by (auto simp: parseExpectOtherSYN_def split: option.splits)
  then show ?thesis
  proof (cases rule: expect_headers_cases)
    case (v4 h)
    show ?thesis
      unfolding other_filter_v4 [OF prog v4(1-6)]
      using parse tcp v4
      by (auto simp: parseExpectOtherSYN_def be16_drop u8_at_drop Let_def
          tcpFlagSYN_def tcpFlagACK_def split: if_splits)
  next
    case v6
    show ?thesis
      unfolding other_filter_v6 [OF prog v6(1-3)]
      using parse tcp v6
      by (auto simp: parseExpectOtherSYN_def be16_drop u8_at_drop Let_def
          tcpFlagSYN_def tcpFlagACK_def split: if_splits)
  qed
qed

end


text \<open>On the machine above a SYN from 192.0.2.7 to port 80 is read through the filter.\<close>

definition syn_to_80 :: bytes where
  "syn_to_80 = map char_of
     ([0x45, 0, 0, 40, 0, 0, 0x40, 0, 64, 6, 0, 0, 192, 0, 2, 7, 192, 0, 2, 1,
       0x9C, 0x40, 0, 80, 0, 0, 0, 9, 0, 0, 0, 0, 0x50, 2, 0, 0, 0, 0, 0, 0] :: nat list)"

definition syn_to_80_read :: expectPacket where
  "syn_to_80_read = \<lparr>pk_at = 0, pk_iface = [], pk_outgoing = False,
     pk_remote = \<lparr>ap_addr = Addr4 [CHR 0xC0, CHR 0x00, CHR 0x02, CHR 0x07], ap_port = 40000\<rparr>,
     pk_local = \<lparr>ap_addr = Addr4 [CHR 0xC0, CHR 0x00, CHR 0x02, CHR 0x01], ap_port = 80\<rparr>,
     pk_flags = 2, pk_seq = 9\<rparr>"

lemma syn_to_80_parse: "parseExpectPacket syn_to_80 80 False = Some syn_to_80_read"
  by code_simp


end
