(* ===== verification/ExpectSession.thy ===== *)
theory ExpectSession
  imports ExpectPacket GoMap TraceSummary
begin

text \<open>
  \<open>expectSession\<close> of internal/edc/tcp_expect.go: packets, kernel drops and ticks are folded into
  connection attempts and these into sources, under one lock, so that the operations are state
  transformers. What the session asks of others is the record \<open>expectEnv\<close>; every call has its own,
  so that the answers may change during a run. \<open>emit\<close> hands a line to the terminal: the model
  appends it to \<open>ss_emitted\<close>. Times are nanoseconds since Go's zero time, counters of packets are
  natural numbers, and a nil map is the empty one. A loop over a Go map takes the order in which
  the keys come as an argument.
\<close>

unbundle bit_operations_syntax

subsection \<open>Constants and data\<close>

definition expectDuplicateWindow :: int where "expectDuplicateWindow = 150 * 10 ^ 6"
definition expectFlowIdle :: int where "expectFlowIdle = 120 * 10 ^ 9"
definition expectSweepInterval :: int where "expectSweepInterval = 5 * 10 ^ 9"
definition expectStopGrace :: int where "expectStopGrace = 10 ^ 9"
definition expectSourceLimit :: nat where "expectSourceLimit = 50"
definition expectFlowTrackLimit :: nat where "expectFlowTrackLimit = 10000"
definition expectSourceTrackLimit :: nat where "expectSourceTrackLimit = 10000"

definition expectEventSYN :: bytes where "expectEventSYN = ''syn''"
definition expectEventSYNRetransmit :: bytes where "expectEventSYNRetransmit = ''syn_retransmit''"
definition expectEventSYNACK :: bytes where "expectEventSYNACK = ''synack''"
definition expectEventSYNACKRetrans :: bytes where "expectEventSYNACKRetrans = ''synack_retransmit''"
definition expectEventRSTOut :: bytes where "expectEventRSTOut = ''rst_out''"
definition expectEventRSTIn :: bytes where "expectEventRSTIn = ''rst_in''"
definition expectEventEstablished :: bytes where "expectEventEstablished = ''established''"
definition expectEventDrop :: bytes where "expectEventDrop = ''drop''"
definition expectEventRoute :: bytes where "expectEventRoute = ''route''"
definition expectEventDuplicate :: bytes where "expectEventDuplicate = ''duplicate''"

lemmas expect_kinds = expectEventSYN_def expectEventSYNRetransmit_def expectEventSYNACK_def
  expectEventSYNACKRetrans_def expectEventRSTOut_def expectEventRSTIn_def expectEventEstablished_def
  expectEventDrop_def expectEventRoute_def expectEventDuplicate_def

definition expectStopDuration :: bytes where "expectStopDuration = ''duration''"
definition expectStopUntilSYN :: bytes where "expectStopUntilSYN = ''until_syn''"
definition expectStopUntilHandshake :: bytes where "expectStopUntilHandshake = ''until_handshake''"
definition expectStopAfter :: bytes where "expectStopAfter = ''stop_after''"

definition expectSYNPathDrops :: "bytes list" where
  "expectSYNPathDrops = [''NO_SOCKET'', ''IP_RPFILTER'', ''NETFILTER_DROP'', ''XFRM_POLICY'',
     ''TCP_LISTEN_OVERFLOW'', ''TCP_REQQFULLDROP'', ''SOCKET_FILTER'']"

record expectFlowKey =
  fk_remote :: netipAddrPort
  fk_local :: netipAddrPort

record expectFlow =
  ef_key :: expectFlowKey
  ef_iface :: bytes
  ef_isn :: u32
  ef_firstSYN :: int
  ef_lastSYN :: int
  ef_lastActivity :: int
  ef_synIn :: nat
  ef_synRetransmits :: nat
  ef_synAckOut :: nat
  ef_synAckSeq :: u32
  ef_lastSynAck :: int
  ef_rstOut :: nat
  ef_lastRST :: int
  ef_rstIn :: nat
  ef_completed :: bool
  ef_outIfaces :: "bytes list"
  ef_drops :: "(bytes, nat) gomap"
  ef_routeShown :: bool

record expectCounts =
  ct_attempts :: nat
  ct_synIn :: nat
  ct_synRetransmits :: nat
  ct_synAckOut :: nat
  ct_synAckRetransmits :: nat
  ct_rstOut :: nat
  ct_rstIn :: nat
  ct_handshakes :: nat

definition expect_counts0 :: expectCounts where
  "expect_counts0 = \<lparr>ct_attempts = 0, ct_synIn = 0, ct_synRetransmits = 0, ct_synAckOut = 0,
     ct_synAckRetransmits = 0, ct_rstOut = 0, ct_rstIn = 0, ct_handshakes = 0\<rparr>"

definition expect_counts_add :: "expectCounts \<Rightarrow> expectCounts \<Rightarrow> expectCounts" where
  "expect_counts_add counts other =
     \<lparr>ct_attempts = ct_attempts counts + ct_attempts other, ct_synIn = ct_synIn counts + ct_synIn other,
      ct_synRetransmits = ct_synRetransmits counts + ct_synRetransmits other,
      ct_synAckOut = ct_synAckOut counts + ct_synAckOut other,
      ct_synAckRetransmits = ct_synAckRetransmits counts + ct_synAckRetransmits other,
      ct_rstOut = ct_rstOut counts + ct_rstOut other, ct_rstIn = ct_rstIn counts + ct_rstIn other,
      ct_handshakes = ct_handshakes counts + ct_handshakes other\<rparr>"

record expectRPFilter =
  rp_interface :: int
  rp_all :: int
  rp_effective :: int

record expectReturnPath =
  rt_device :: bytes
  rt_via :: bytes
  rt_source :: bytes
  rt_table :: bytes
  rt_matchesArrival :: "bool option"
  rt_rpFilter :: "expectRPFilter option"
  rt_ipsecPolicy :: bool
  rt_error :: bytes

record expectSource =
  es_address :: bytes
  es_local :: bytes
  es_interface :: bytes
  es_counts :: expectCounts
  es_outInterfaces :: "bytes list"
  es_verdict :: bytes
  es_drops :: "(bytes, nat) gomap"
  es_return :: "expectReturnPath option"

record expectSourceKey =
  sk_remote :: netipAddr
  sk_local :: netipAddr
  sk_iface :: bytes

record expectEvent =
  xe_at :: int
  xe_kind :: bytes
  xe_iface :: bytes
  xe_remote :: netipAddrPort
  xe_local :: netipAddrPort
  xe_count :: nat
  xe_detail :: bytes

record expectPendingDrops =
  pd_at :: int
  pd_reasons :: "(bytes, nat) gomap"
  pd_events :: "expectEvent list"

record expectDropTrace =
  dt_status :: bytes
  dt_reason :: bytes
  dt_lostEvents :: nat

record expectLiveCounts =
  lv_syn :: nat
  lv_handshakes :: nat
  lv_drops :: nat

record expectSession =
  ss_port :: u16
  ss_from :: netipPrefix
  ss_verbose :: bool
  ss_flows :: "(expectFlowKey, expectFlow) gomap"
  ss_sources :: "(expectSourceKey, expectSource) gomap"
  ss_routes :: "(expectSourceKey, expectReturnPath) gomap"
  ss_pendingDrops :: "(expectFlowKey, expectPendingDrops) gomap"
  ss_otherDrops :: "(bytes, nat) gomap"
  ss_forwarded :: nat
  ss_dropTrace :: expectDropTrace
  ss_untracked :: nat
  ss_flowLimit :: nat
  ss_sourceLimit :: nat
  ss_lastSweep :: int
  ss_until :: bytes
  ss_stopAfter :: int
  ss_attempts :: nat
  ss_stopReason :: bytes
  ss_stopAt :: int
  ss_live :: expectLiveCounts
  ss_otherPorts :: "(u16, nat) gomap option"
  ss_emitted :: "expectEvent list"

text \<open>
  What a call asks of others: whether an address is one of this host, the route of an answer, the
  IPsec policies, the parsing and printing of addresses by \<open>net/netip\<close>, the printing of a
  \<open>time.Duration\<close>, and the message catalogue \<open>T\<close>.
\<close>

record expectEnv =
  en_isLocal :: "(netipAddr \<Rightarrow> bool) option"
  en_returnPath :: "(netipAddr \<Rightarrow> netipAddr \<Rightarrow> bytes \<Rightarrow> expectReturnPath) option"
  en_ipsecInbound :: "(netipPrefix \<Rightarrow> bool) option"
  en_parseAddrPort :: "bytes \<Rightarrow> netipAddrPort option"
  en_text :: "netipAddr \<Rightarrow> bytes"
  en_duration :: "int \<Rightarrow> bytes"
  en_T :: "bytes \<Rightarrow> bytes list \<Rightarrow> bytes"

definition newExpectSession :: "u16 \<Rightarrow> netipPrefix \<Rightarrow> expectSession" where
  "newExpectSession port from =
     \<lparr>ss_port = port, ss_from = from, ss_verbose = False, ss_flows = [], ss_sources = [], ss_routes = [],
      ss_pendingDrops = [], ss_otherDrops = [], ss_forwarded = 0,
      ss_dropTrace = \<lparr>dt_status = [], dt_reason = [], dt_lostEvents = 0\<rparr>, ss_untracked = 0,
      ss_flowLimit = expectFlowTrackLimit, ss_sourceLimit = expectSourceTrackLimit, ss_lastSweep = 0,
      ss_until = [], ss_stopAfter = 0, ss_attempts = 0, ss_stopReason = [], ss_stopAt = 0,
      ss_live = \<lparr>lv_syn = 0, lv_handshakes = 0, lv_drops = 0\<rparr>, ss_otherPorts = None, ss_emitted = []\<rparr>"

subsection \<open>Small helpers\<close>

text \<open>\<open>Time.Sub\<close> saturates; \<open>Duration.Round\<close> rounds half away from zero.\<close>

definition time_sub :: "int \<Rightarrow> int \<Rightarrow> int" where
  "time_sub a b = max (- (2 ^ 63)) (min (2 ^ 63 - 1) (a - b))"

definition duration_round :: "int \<Rightarrow> int \<Rightarrow> int" where
  "duration_round d m =
     (let r = \<bar>d\<bar> mod m; a = (if r + r < m then \<bar>d\<bar> - r else \<bar>d\<bar> + m - r)
      in if d < 0 then - a else a)"

definition formatExpectElapsed :: "expectEnv \<Rightarrow> int \<Rightarrow> bytes" where
  "formatExpectElapsed env elapsed =
     (if elapsed < 10 ^ 9 then en_duration env (duration_round elapsed (100 * 10 ^ 3))
      else en_duration env (duration_round elapsed (100 * 10 ^ 6)))"

definition appendUnique :: "bytes list \<Rightarrow> bytes \<Rightarrow> bytes list" where
  "appendUnique values v = (if list_ex (\<lambda>existing. existing = v) values then values else values @ [v])"

definition emit_event :: "expectEvent \<Rightarrow> expectSession \<Rightarrow> expectSession" where
  "emit_event event s = s\<lparr>ss_emitted := ss_emitted s @ [event]\<rparr>"

definition describeExpectRoute :: "expectEnv \<Rightarrow> expectReturnPath option \<Rightarrow> bytes \<Rightarrow> bytes" where
  "describeExpectRoute env route arrival =
     (case route of
        None \<Rightarrow> en_T env ''expect.route.unknown'' []
      | Some r \<Rightarrow>
          if rt_error r \<noteq> [] then en_T env ''expect.route.failed'' [rt_error r]
          else join_with '', ''
            ([en_T env ''expect.route.device'' [rt_device r]]
             @ (if rt_via r \<noteq> [] then [en_T env ''expect.route.via'' [rt_via r]] else [])
             @ (if rt_source r \<noteq> [] then [en_T env ''expect.route.source'' [rt_source r]] else [])
             @ (if rt_table r \<noteq> [] \<and> rt_table r \<noteq> ''main'' then [en_T env ''expect.route.table'' [rt_table r]] else [])
             @ (case rt_matchesArrival r of
                  None \<Rightarrow> []
                | Some True \<Rightarrow> [en_T env ''expect.route.same_interface'' []]
                | Some False \<Rightarrow> [en_T env ''expect.route.other_interface'' [arrival]])
             @ (case rt_rpFilter r of
                  None \<Rightarrow> []
                | Some f \<Rightarrow> [''rp_filter '' @ itoa (rp_effective f) @ '' ('' @ arrival @ '' '' @ itoa (rp_interface f)
                    @ '', all '' @ itoa (rp_all f) @ '')''])
             @ (if rt_ipsecPolicy r then [en_T env ''expect.route.ipsec'' []] else [])))"

definition session_wanted :: "netipAddr \<Rightarrow> expectSession \<Rightarrow> bool" where
  "session_wanted remote s \<longleftrightarrow> ss_from s = NoPrefix \<or> prefixContains (ss_from s) remote"

definition session_isLocal :: "expectEnv \<Rightarrow> netipAddr \<Rightarrow> bool" where
  "session_isLocal env local = (case en_isLocal env of None \<Rightarrow> True | Some f \<Rightarrow> f local)"

text \<open>\<open>armStop\<close>, \<open>stopDue\<close>: the first condition met decides when and why the run stops.\<close>

definition armStop :: "int \<Rightarrow> bytes \<Rightarrow> int \<Rightarrow> expectSession \<Rightarrow> expectSession" where
  "armStop moment reason grace s =
     (if ss_stopReason s \<noteq> [] then s else s\<lparr>ss_stopReason := reason, ss_stopAt := moment + grace\<rparr>)"

definition stopDue :: "int \<Rightarrow> expectSession \<Rightarrow> bool" where
  "stopDue now s \<longleftrightarrow> ss_stopReason s \<noteq> [] \<and> \<not> now < ss_stopAt s"

subsection \<open>Attempts become sources\<close>

definition flow_source_key :: "expectFlow \<Rightarrow> expectSourceKey" where
  "flow_source_key flow =
     \<lparr>sk_remote = ap_addr (fk_remote (ef_key flow)), sk_local = ap_addr (fk_local (ef_key flow)), sk_iface = ef_iface flow\<rparr>"

definition flow_counts :: "expectFlow \<Rightarrow> expectCounts" where
  "flow_counts flow =
     \<lparr>ct_attempts = 1, ct_synIn = ef_synIn flow, ct_synRetransmits = ef_synRetransmits flow,
      ct_synAckOut = ef_synAckOut flow, ct_synAckRetransmits = (if ef_synAckOut flow > 1 then ef_synAckOut flow - 1 else 0),
      ct_rstOut = ef_rstOut flow, ct_rstIn = ef_rstIn flow, ct_handshakes = (if ef_completed flow then 1 else 0)\<rparr>"

definition new_source :: "expectEnv \<Rightarrow> expectSourceKey \<Rightarrow> bytes \<Rightarrow> expectSource" where
  "new_source env key iface =
     \<lparr>es_address = en_text env (sk_remote key), es_local = en_text env (sk_local key), es_interface = iface,
      es_counts = expect_counts0, es_outInterfaces = [], es_verdict = [], es_drops = [], es_return = None\<rparr>"

definition source_absorb :: "expectFlow \<Rightarrow> (bytes, nat) gomap \<Rightarrow> expectSource \<Rightarrow> expectSource" where
  "source_absorb flow drops source =
     source\<lparr>es_counts := expect_counts_add (es_counts source) (flow_counts flow),
            es_outInterfaces := fold (\<lambda>iface values. appendUnique values iface) (ef_outIfaces flow) (es_outInterfaces source),
            es_drops := map_merge (es_drops source) drops\<rparr>"

definition session_finish :: "expectEnv \<Rightarrow> expectFlow \<Rightarrow> expectSession \<Rightarrow> expectSession" where
  "session_finish env flow s =
     (let s1 = s\<lparr>ss_flows := map_del (ef_key flow) (ss_flows s)\<rparr>;
          (drops, s2) =
            (case map_get (ss_pendingDrops s1) (ef_key flow) of
               None \<Rightarrow> (ef_drops flow, s1)
             | Some pending \<Rightarrow>
                 (map_merge (ef_drops flow) (pd_reasons pending),
                  s1\<lparr>ss_pendingDrops := map_del (ef_key flow) (ss_pendingDrops s1)\<rparr>));
          key = flow_source_key flow
      in case map_get (ss_sources s2) key of
           Some source \<Rightarrow> s2\<lparr>ss_sources := map_put key (source_absorb flow drops source) (ss_sources s2)\<rparr>
         | None \<Rightarrow>
             if ss_sourceLimit s2 \<le> map_len (ss_sources s2) then s2\<lparr>ss_untracked := ss_untracked s2 + 1\<rparr>
             else s2\<lparr>ss_sources := map_put key (source_absorb flow drops (new_source env key (sk_iface key))) (ss_sources s2)\<rparr>)"

subsection \<open>Packets\<close>

definition packet_event :: "expectPacket \<Rightarrow> expectEvent" where
  "packet_event packet =
     \<lparr>xe_at = pk_at packet, xe_kind = [], xe_iface = pk_iface packet, xe_remote = pk_remote packet,
      xe_local = pk_local packet, xe_count = 0, xe_detail = []\<rparr>"

definition packet_key :: "expectPacket \<Rightarrow> expectFlowKey" where
  "packet_key packet = \<lparr>fk_remote = pk_remote packet, fk_local = pk_local packet\<rparr>"

definition put_flow :: "expectFlow \<Rightarrow> expectSession \<Rightarrow> expectSession" where
  "put_flow flow s = s\<lparr>ss_flows := map_put (ef_key flow) flow (ss_flows s)\<rparr>"

text \<open>A SYN that belongs to the attempt: the same packet on another interface, or sent again.\<close>

definition packet_syn_again :: "expectPacket \<Rightarrow> expectFlow \<Rightarrow> expectSession \<Rightarrow> expectSession" where
  "packet_syn_again packet flow0 s =
     (let flow = flow0\<lparr>ef_lastActivity := pk_at packet\<rparr>; event = packet_event packet
      in if time_sub (pk_at packet) (ef_lastSYN flow) < expectDuplicateWindow then
           (if ef_iface flow \<noteq> pk_iface packet then
              let s1 = put_flow (flow\<lparr>ef_iface := pk_iface packet\<rparr>) s
              in if ss_verbose s1 then emit_event (event\<lparr>xe_kind := expectEventDuplicate\<rparr>) s1 else s1
            else put_flow flow s)
         else
           let flow1 = flow\<lparr>ef_synIn := ef_synIn flow + 1, ef_synRetransmits := ef_synRetransmits flow + 1,
                            ef_lastSYN := pk_at packet\<rparr>;
               s1 = (put_flow flow1 s)\<lparr>ss_live := (ss_live s)\<lparr>lv_syn := lv_syn (ss_live s) + 1\<rparr>\<rparr>
           in emit_event (event\<lparr>xe_kind := expectEventSYNRetransmit, xe_count := ef_synIn flow1, xe_iface := ef_iface flow1\<rparr>) s1)"

text \<open>A SYN that opens an attempt; drops that were read before it belong to it.\<close>

definition new_flow :: "expectPacket \<Rightarrow> expectFlow" where
  "new_flow packet =
     \<lparr>ef_key = packet_key packet, ef_iface = pk_iface packet, ef_isn = pk_seq packet, ef_firstSYN = pk_at packet,
      ef_lastSYN = pk_at packet, ef_lastActivity = pk_at packet, ef_synIn = 1, ef_synRetransmits = 0,
      ef_synAckOut = 0, ef_synAckSeq = 0, ef_lastSynAck = 0, ef_rstOut = 0, ef_lastRST = 0, ef_rstIn = 0,
      ef_completed = False, ef_outIfaces = [], ef_drops = [], ef_routeShown = False\<rparr>"

definition syn_stops :: "expectPacket \<Rightarrow> expectSession \<Rightarrow> expectSession" where
  "syn_stops packet s =
     (let s1 = (if ss_until s = ''syn'' then armStop (pk_at packet) expectStopUntilSYN expectStopGrace s else s)
      in if ss_stopAfter s1 > 0 \<and> int (ss_attempts s1) \<ge> ss_stopAfter s1
         then armStop (pk_at packet) expectStopAfter expectStopGrace s1 else s1)"

definition syn_pending :: "expectFlow \<Rightarrow> expectSession \<Rightarrow> expectSession" where
  "syn_pending flow s =
     (case map_get (ss_pendingDrops s) (ef_key flow) of
        None \<Rightarrow> s
      | Some pending \<Rightarrow>
          let s1 = (put_flow (flow\<lparr>ef_drops := pd_reasons pending\<rparr>) s)
                     \<lparr>ss_pendingDrops := map_del (ef_key flow) (ss_pendingDrops s)\<rparr>
          in fold (\<lambda>drop. emit_event (drop\<lparr>xe_iface := ef_iface flow\<rparr>)) (pd_events pending) s1)"

definition packet_syn_new :: "expectEnv \<Rightarrow> expectPacket \<Rightarrow> expectSession \<Rightarrow> expectSession" where
  "packet_syn_new env packet s =
     (let flow = new_flow packet;
          s1 = emit_event ((packet_event packet)\<lparr>xe_kind := expectEventSYN\<rparr>) (put_flow flow s);
          s2 = s1\<lparr>ss_live := (ss_live s1)\<lparr>lv_syn := lv_syn (ss_live s1) + 1\<rparr>, ss_attempts := ss_attempts s1 + 1\<rparr>
      in syn_pending flow (syn_stops packet s2))"

definition packet_syn :: "expectEnv \<Rightarrow> expectPacket \<Rightarrow> expectFlow option \<Rightarrow> expectSession \<Rightarrow> expectSession" where
  "packet_syn env packet flow s =
     (case flow of
        Some fl \<Rightarrow>
          if ef_isn fl = pk_seq packet \<and> \<not> ef_completed fl \<and> ef_rstOut fl = 0 then packet_syn_again packet fl s
          else packet_syn_new env packet (session_finish env fl s)
      | None \<Rightarrow>
          if ss_flowLimit s \<le> map_len (ss_flows s) then s\<lparr>ss_untracked := ss_untracked s + 1\<rparr>
          else packet_syn_new env packet s)"

definition packet_synack :: "expectPacket \<Rightarrow> expectFlow \<Rightarrow> expectSession \<Rightarrow> expectSession" where
  "packet_synack packet flow0 s =
     (let flow = flow0\<lparr>ef_lastActivity := pk_at packet\<rparr>
      in if ef_synAckOut flow > 0 \<and> ef_synAckSeq flow = pk_seq packet \<and>
            time_sub (pk_at packet) (ef_lastSynAck flow) < expectDuplicateWindow then put_flow flow s
         else
           let flow1 = flow\<lparr>ef_synAckOut := ef_synAckOut flow + 1, ef_synAckSeq := pk_seq packet,
                            ef_lastSynAck := pk_at packet, ef_outIfaces := appendUnique (ef_outIfaces flow) (pk_iface packet)\<rparr>;
               event = (packet_event packet)\<lparr>xe_kind := expectEventSYNACK\<rparr>;
               event1 = (if ef_synAckOut flow1 > 1
                         then event\<lparr>xe_kind := expectEventSYNACKRetrans, xe_count := ef_synAckOut flow1\<rparr> else event)
           in emit_event event1 (put_flow flow1 s))"

definition packet_rst_out :: "expectPacket \<Rightarrow> expectFlow \<Rightarrow> expectSession \<Rightarrow> expectSession" where
  "packet_rst_out packet flow0 s =
     (let flow = flow0\<lparr>ef_lastActivity := pk_at packet\<rparr>
      in if ef_rstOut flow > 0 \<and> time_sub (pk_at packet) (ef_lastRST flow) < expectDuplicateWindow then put_flow flow s
         else
           let flow1 = flow\<lparr>ef_rstOut := ef_rstOut flow + 1, ef_lastRST := pk_at packet,
                            ef_outIfaces := appendUnique (ef_outIfaces flow) (pk_iface packet)\<rparr>
           in emit_event ((packet_event packet)\<lparr>xe_kind := expectEventRSTOut\<rparr>) (put_flow flow1 s))"

definition packet_rst_in :: "expectPacket \<Rightarrow> expectFlow \<Rightarrow> expectSession \<Rightarrow> expectSession" where
  "packet_rst_in packet flow0 s =
     (let flow = flow0\<lparr>ef_lastActivity := pk_at packet, ef_rstIn := ef_rstIn flow0 + 1\<rparr>
      in emit_event ((packet_event packet)\<lparr>xe_kind := expectEventRSTIn\<rparr>) (put_flow flow s))"

definition packet_ack :: "expectEnv \<Rightarrow> expectPacket \<Rightarrow> expectFlow \<Rightarrow> expectSession \<Rightarrow> expectSession" where
  "packet_ack env packet flow0 s =
     (let flow = flow0\<lparr>ef_lastActivity := pk_at packet, ef_completed := True\<rparr>;
          s1 = put_flow flow s;
          s2 = s1\<lparr>ss_live := (ss_live s1)\<lparr>lv_handshakes := lv_handshakes (ss_live s1) + 1\<rparr>\<rparr>;
          event = (packet_event packet)\<lparr>xe_kind := expectEventEstablished, xe_iface := ef_iface flow,
                    xe_detail := en_T env ''expect.live.handshake_time''
                      [formatExpectElapsed env (time_sub (pk_at packet) (ef_firstSYN flow))]\<rparr>;
          s3 = emit_event event s2
      in if ss_until s3 = ''handshake'' then armStop (pk_at packet) expectStopUntilHandshake 0 s3 else s3)"

definition has_flag :: "expectPacket \<Rightarrow> 8 word \<Rightarrow> bool" where
  "has_flag packet flag \<longleftrightarrow> pk_flags packet AND flag \<noteq> 0"

definition session_packet :: "expectEnv \<Rightarrow> expectPacket \<Rightarrow> expectSession \<Rightarrow> expectSession" where
  "session_packet env packet s =
     (if \<not> session_wanted (ap_addr (pk_remote packet)) s then s
      else if \<not> session_isLocal env (ap_addr (pk_local packet)) then s\<lparr>ss_forwarded := ss_forwarded s + 1\<rparr>
      else
        let flow = map_get (ss_flows s) (packet_key packet);
            syn = has_flag packet tcpFlagSYN; ack = has_flag packet tcpFlagACK; rst = has_flag packet tcpFlagRST
        in if \<not> pk_outgoing packet \<and> syn \<and> \<not> ack \<and> \<not> rst then packet_syn env packet flow s
           else case flow of
             None \<Rightarrow> s
           | Some fl \<Rightarrow>
               if ef_completed fl then s
               else if pk_outgoing packet \<and> syn \<and> ack then packet_synack packet fl s
               else if pk_outgoing packet \<and> rst then packet_rst_out packet fl s
               else if \<not> pk_outgoing packet \<and> rst then packet_rst_in packet fl s
               else if \<not> pk_outgoing packet \<and> ack \<and> \<not> syn then
                 (if pk_seq packet \<noteq> ef_isn fl + 1 then s else packet_ack env packet fl s)
               else s)"

subsection \<open>Other operations\<close>

definition session_otherSYN :: "expectEnv \<Rightarrow> netipAddr \<Rightarrow> netipAddr \<Rightarrow> u16 \<Rightarrow> expectSession \<Rightarrow> expectSession" where
  "session_otherSYN env remote local port s =
     (case ss_otherPorts s of
        None \<Rightarrow> s
      | Some ports \<Rightarrow>
          if addrIsLoopback remote \<or> \<not> session_wanted remote s then s
          else if \<not> session_isLocal env local then s
          else s\<lparr>ss_otherPorts := Some (map_bump port 1 ports)\<rparr>)"

definition session_countOtherPorts :: "expectSession \<Rightarrow> expectSession" where
  "session_countOtherPorts s = s\<lparr>ss_otherPorts := Some []\<rparr>"

definition port_before :: "u16 \<times> nat \<Rightarrow> u16 \<times> nat \<Rightarrow> bool" where
  "port_before i j \<longleftrightarrow> (if snd i \<noteq> snd j then snd i > snd j else fst i < fst j)"

definition topExpectPorts :: "u16 list \<Rightarrow> (u16, nat) gomap \<Rightarrow> nat \<Rightarrow> (u16 \<times> nat) list" where
  "topExpectPorts order counts limit =
     (let ports = sort_by port_before (map (\<lambda>p. (p, map_count counts p)) (map_range order counts))
      in if length ports > limit then take limit ports else ports)"

definition session_snapshot :: "u16 list \<Rightarrow> expectSession \<Rightarrow> expectLiveCounts \<times> (u16 \<times> nat) list option" where
  "session_snapshot order s = (ss_live s, map_option (\<lambda>ports. topExpectPorts order ports 3) (ss_otherPorts s))"

text \<open>The answer of the kernel is kept, so it is asked once for every key.\<close>

definition session_lookupRoute ::
    "expectEnv \<Rightarrow> expectSourceKey \<Rightarrow> expectSession \<Rightarrow> expectReturnPath option \<times> expectSession" where
  "session_lookupRoute env key s =
     (case map_get (ss_routes s) key of
        Some route \<Rightarrow> (Some route, s)
      | None \<Rightarrow>
          (case en_returnPath env of
             None \<Rightarrow> (None, s)
           | Some ask \<Rightarrow>
               let route = ask (sk_remote key) (sk_local key) (sk_iface key);
                   route1 = (if rt_device route \<noteq> [] \<and> sk_iface key \<noteq> []
                             then route\<lparr>rt_matchesArrival := Some (rt_device route = sk_iface key)\<rparr> else route)
               in (Some route1, s\<lparr>ss_routes := map_put key route1 (ss_routes s)\<rparr>)))"

definition prefixAddr :: "netipPrefix \<Rightarrow> netipAddr" where
  "prefixAddr pfx = (case pfx of NoPrefix \<Rightarrow> NoAddr | Prefix a _ \<Rightarrow> a)"

definition client_key :: "expectSession \<Rightarrow> expectSourceKey" where
  "client_key s = \<lparr>sk_remote = prefixAddr (ss_from s), sk_local = NoAddr, sk_iface = []\<rparr>"

definition session_start :: "expectEnv \<Rightarrow> expectDropTrace \<Rightarrow> int \<Rightarrow> expectSession \<Rightarrow> expectSession" where
  "session_start env dropTrace now s0 =
     (let s = s0\<lparr>ss_dropTrace := dropTrace\<rparr>
      in if ss_from s \<noteq> NoPrefix \<and> prefixIsSingleIP (ss_from s) \<and> en_returnPath env \<noteq> None then
           (case session_lookupRoute env (client_key s) s of
              (route, s1) \<Rightarrow>
                emit_event \<lparr>xe_at = now, xe_kind = expectEventRoute, xe_iface = [],
                   xe_remote = \<lparr>ap_addr = prefixAddr (ss_from s), ap_port = 0\<rparr>,
                   xe_local = \<lparr>ap_addr = NoAddr, ap_port = 0\<rparr>, xe_count = 0,
                   xe_detail = describeExpectRoute env route []\<rparr> s1)
         else s)"

definition session_clientRouteSource :: "expectEnv \<Rightarrow> expectSession \<Rightarrow> bytes \<times> expectSession" where
  "session_clientRouteSource env s =
     (case en_returnPath env of
        None \<Rightarrow> ([], s)
      | Some ask \<Rightarrow>
          if ss_from s = NoPrefix then ([], s)
          else
            (case (if prefixIsSingleIP (ss_from s) then session_lookupRoute env (client_key s) s
                   else (Some (ask (prefixAddr (ss_from s)) NoAddr []), s)) of
               (None, s1) \<Rightarrow> ([], s1)
             | (Some route, s1) \<Rightarrow> (if rt_error route \<noteq> [] then [] else rt_source route, s1)))"

text \<open>A packet that the kernel dropped.\<close>

definition drop_event :: "int \<Rightarrow> expectFlowKey \<Rightarrow> bytes \<Rightarrow> bytes \<Rightarrow> expectEvent" where
  "drop_event moment key reason location =
     \<lparr>xe_at = moment, xe_kind = expectEventDrop, xe_iface = [], xe_remote = fk_remote key, xe_local = fk_local key,
      xe_count = 0, xe_detail = reason @ (if location \<noteq> [] then '' '' @ location else [])\<rparr>"

definition drop_key :: "expectEnv \<Rightarrow> bytes \<Rightarrow> bytes \<Rightarrow> expectSession \<Rightarrow> expectFlowKey option" where
  "drop_key env source destination s =
     (case en_parseAddrPort env source of
        None \<Rightarrow> None
      | Some remote \<Rightarrow>
          (case en_parseAddrPort env destination of
             None \<Rightarrow> None
           | Some local \<Rightarrow>
               if ap_port local \<noteq> ss_port s then None
               else
                 let remote1 = remote\<lparr>ap_addr := addrUnmap (ap_addr remote)\<rparr>;
                     local1 = local\<lparr>ap_addr := addrUnmap (ap_addr local)\<rparr>
                 in if \<not> session_wanted (ap_addr remote1) s then None
                    else Some \<lparr>fk_remote = remote1, fk_local = local1\<rparr>))"

definition live_drop :: "expectSession \<Rightarrow> expectSession" where
  "live_drop s = s\<lparr>ss_live := (ss_live s)\<lparr>lv_drops := lv_drops (ss_live s) + 1\<rparr>\<rparr>"

definition drop_on_flow :: "expectEvent \<Rightarrow> bytes \<Rightarrow> expectFlow \<Rightarrow> expectSession \<Rightarrow> expectSession" where
  "drop_on_flow event reason flow s =
     (if ef_completed flow then
        let s1 = s\<lparr>ss_otherDrops := map_bump reason 1 (ss_otherDrops s)\<rparr>
        in if \<not> ss_verbose s1 then s1 else emit_event (event\<lparr>xe_iface := ef_iface flow\<rparr>) s1
      else
        emit_event (event\<lparr>xe_iface := ef_iface flow\<rparr>)
          (live_drop (put_flow (flow\<lparr>ef_drops := map_bump reason 1 (ef_drops flow)\<rparr>) s)))"

definition drop_pending :: "int \<Rightarrow> expectEvent \<Rightarrow> bytes \<Rightarrow> expectFlowKey \<Rightarrow> expectSession \<Rightarrow> expectSession" where
  "drop_pending moment event reason key s =
     (let pending = (case map_get (ss_pendingDrops s) key of
                       None \<Rightarrow> \<lparr>pd_at = moment, pd_reasons = [], pd_events = []\<rparr>
                     | Some p \<Rightarrow> p);
          pending1 = pending\<lparr>pd_reasons := map_bump reason 1 (pd_reasons pending)\<rparr>
      in if \<not> ss_verbose s then
           live_drop (s\<lparr>ss_pendingDrops := map_put key (pending1\<lparr>pd_events := pd_events pending1 @ [event]\<rparr>) (ss_pendingDrops s)\<rparr>)
         else
           emit_event (event\<lparr>xe_iface := ''-''\<rparr>)
             (live_drop (s\<lparr>ss_pendingDrops := map_put key pending1 (ss_pendingDrops s)\<rparr>)))"

definition session_drop ::
    "expectEnv \<Rightarrow> int \<Rightarrow> bytes \<Rightarrow> bytes \<Rightarrow> bytes \<Rightarrow> bytes \<Rightarrow> expectSession \<Rightarrow> expectSession" where
  "session_drop env moment source destination reason location s =
     (case drop_key env source destination s of
        None \<Rightarrow> s
      | Some key \<Rightarrow>
          (case map_get (ss_flows s) key of
             Some flow \<Rightarrow> drop_on_flow (drop_event moment key reason location) reason flow s
           | None \<Rightarrow> drop_pending moment (drop_event moment key reason location) reason key s))"

text \<open>Drops without a SYN: those of the SYN path tell of a SYN that the packet socket did not see.\<close>

definition release_reason :: "expectEnv \<Rightarrow> expectSourceKey \<Rightarrow> bytes \<times> nat \<Rightarrow> expectSession \<Rightarrow> expectSession" where
  "release_reason env sourceKey entry s =
     (case entry of
        (reason, n) \<Rightarrow>
          if reason \<notin> set expectSYNPathDrops then s\<lparr>ss_otherDrops := map_bump reason n (ss_otherDrops s)\<rparr>
          else
            (case map_get (ss_sources s) sourceKey of
               Some source \<Rightarrow>
                 s\<lparr>ss_sources := map_put sourceKey (source\<lparr>es_drops := map_bump reason n (es_drops source)\<rparr>) (ss_sources s)\<rparr>
             | None \<Rightarrow>
                 if ss_sourceLimit s \<le> map_len (ss_sources s)
                 then s\<lparr>ss_otherDrops := map_bump reason n (ss_otherDrops s)\<rparr>
                 else
                   let source = new_source env sourceKey ''-''
                   in s\<lparr>ss_sources := map_put sourceKey (source\<lparr>es_drops := map_bump reason n (es_drops source)\<rparr>) (ss_sources s)\<rparr>))"

definition session_releaseDrops :: "expectEnv \<Rightarrow> expectFlowKey \<Rightarrow> expectPendingDrops \<Rightarrow> expectSession \<Rightarrow> expectSession" where
  "session_releaseDrops env key pending s =
     fold (release_reason env \<lparr>sk_remote = ap_addr (fk_remote key), sk_local = ap_addr (fk_local key), sk_iface = []\<rparr>)
       (pd_reasons pending) (s\<lparr>ss_pendingDrops := map_del key (ss_pendingDrops s)\<rparr>)"

text \<open>\<open>tick\<close>: three loops over maps, so three orders.\<close>

definition tick_route :: "expectEnv \<Rightarrow> int \<Rightarrow> expectFlowKey \<Rightarrow> expectSession \<Rightarrow> expectSession" where
  "tick_route env now k s =
     (case map_get (ss_flows s) k of
        None \<Rightarrow> s
      | Some flow \<Rightarrow>
          if ef_routeShown flow \<or> time_sub now (ef_firstSYN flow) < expectDuplicateWindow then s
          else
            let s1 = put_flow (flow\<lparr>ef_routeShown := True\<rparr>) s; key = flow_source_key flow
            in if map_get (ss_routes s1) key \<noteq> None \<or> expectSourceLimit \<le> map_len (ss_routes s1) then s1
               else
                 (case session_lookupRoute env key s1 of
                    (route, s2) \<Rightarrow>
                      emit_event \<lparr>xe_at = now, xe_kind = expectEventRoute, xe_iface = ef_iface flow,
                         xe_remote = fk_remote (ef_key flow), xe_local = fk_local (ef_key flow), xe_count = 0,
                         xe_detail = describeExpectRoute env route (ef_iface flow)\<rparr> s2))"

definition tick_idle :: "expectEnv \<Rightarrow> int \<Rightarrow> expectFlowKey \<Rightarrow> expectSession \<Rightarrow> expectSession" where
  "tick_idle env now k s =
     (case map_get (ss_flows s) k of
        None \<Rightarrow> s
      | Some flow \<Rightarrow> if expectFlowIdle \<le> time_sub now (ef_lastActivity flow) then session_finish env flow s else s)"

definition tick_pending :: "expectEnv \<Rightarrow> int \<Rightarrow> expectFlowKey \<Rightarrow> expectSession \<Rightarrow> expectSession" where
  "tick_pending env now k s =
     (case map_get (ss_pendingDrops s) k of
        None \<Rightarrow> s
      | Some pending \<Rightarrow>
          if time_sub now (pd_at pending) < expectSweepInterval then s else session_releaseDrops env k pending s)"

definition session_tick ::
    "expectEnv \<Rightarrow> int \<Rightarrow> expectFlowKey list \<Rightarrow> expectFlowKey list \<Rightarrow> expectFlowKey list \<Rightarrow> expectSession \<Rightarrow> expectSession" where
  "session_tick env now o1 o2 o3 s =
     (let s1 = fold (tick_route env now) (map_range o1 (ss_flows s)) s
      in if time_sub now (ss_lastSweep s1) < expectSweepInterval then s1
         else
           let s2 = s1\<lparr>ss_lastSweep := now\<rparr>;
               s3 = fold (tick_idle env now) (map_range o2 (ss_flows s2)) s2
           in fold (tick_pending env now) (map_range o3 (ss_pendingDrops s3)) s3)"

subsection \<open>Verdicts\<close>

definition expectVerdictNoSYN :: bytes where "expectVerdictNoSYN = ''no_syn''"
definition expectVerdictRST :: bytes where "expectVerdictRST = ''rst''"
definition expectVerdictNoACK :: bytes where "expectVerdictNoACK = ''synack_no_ack''"
definition expectVerdictNoReply :: bytes where "expectVerdictNoReply = ''syn_no_reply''"
definition expectVerdictIPsecHidden :: bytes where "expectVerdictIPsecHidden = ''reply_hidden_ipsec''"
definition expectVerdictUnseen :: bytes where "expectVerdictUnseen = ''dropped_unseen''"
definition expectVerdictCompleted :: bytes where "expectVerdictCompleted = ''completed''"

lemmas expect_verdicts = expectVerdictNoSYN_def expectVerdictRST_def expectVerdictNoACK_def expectVerdictNoReply_def
  expectVerdictIPsecHidden_def expectVerdictUnseen_def expectVerdictCompleted_def

definition expectVerdictOrder :: "bytes list" where
  "expectVerdictOrder = [expectVerdictNoReply, expectVerdictNoACK, expectVerdictRST, expectVerdictUnseen,
     expectVerdictIPsecHidden, expectVerdictCompleted]"

definition expectVerdict :: "expectCounts \<Rightarrow> (bytes, nat) gomap \<Rightarrow> bool \<Rightarrow> bytes" where
  "expectVerdict counts drops ipsecHidden =
     (if ct_handshakes counts > 0 then expectVerdictCompleted
      else if ct_rstOut counts > 0 then expectVerdictRST
      else if ct_synAckOut counts > 0 then expectVerdictNoACK
      else if ct_attempts counts = 0 \<and> map_len drops > 0 then expectVerdictUnseen
      else if ct_attempts counts = 0 then expectVerdictNoSYN
      else if ipsecHidden \<and> map_count drops ''NO_SOCKET'' > 0 then expectVerdictRST
      else if ipsecHidden then expectVerdictIPsecHidden
      else expectVerdictNoReply)"

definition expectVerdictStatus :: "bytes \<Rightarrow> bytes" where
  "expectVerdictStatus verdict =
     (if verdict = expectVerdictCompleted then ''pass''
      else if verdict = expectVerdictIPsecHidden then ''warn'' else ''fail'')"

definition expectExitCode :: "expectSource list \<Rightarrow> bytes \<Rightarrow> nat" where
  "expectExitCode sources stopReason =
     (if sources = [] then (if stopReason = expectStopDuration then 2 else 4)
      else if list_ex (\<lambda>source. es_verdict source \<noteq> expectVerdictCompleted) sources then 1 else 0)"

definition expectOverallVerdict :: "expectSource list \<Rightarrow> bytes \<times> expectSource option" where
  "expectOverallVerdict sources =
     (case sources of
        [] \<Rightarrow> (expectVerdictNoSYN, None)
      | first # _ \<Rightarrow>
          (case find (\<lambda>verdict. list_ex (\<lambda>source. es_verdict source = verdict) sources) expectVerdictOrder of
             Some verdict \<Rightarrow> (verdict, find (\<lambda>source. es_verdict source = verdict) sources)
           | None \<Rightarrow> (es_verdict first, Some first)))"

subsection \<open>The result\<close>

definition source_before :: "expectSourceKey \<times> expectSource \<Rightarrow> expectSourceKey \<times> expectSource \<Rightarrow> bool" where
  "source_before i j \<longleftrightarrow>
     (let left = snd i; right = snd j
      in if ct_attempts (es_counts left) \<noteq> ct_attempts (es_counts right)
         then ct_attempts (es_counts left) > ct_attempts (es_counts right)
         else es_address left @ es_interface left < es_address right @ es_interface right)"

fun result_rows ::
    "expectEnv \<Rightarrow> nat \<Rightarrow> (expectSourceKey \<times> expectSource) list \<Rightarrow> expectSession \<Rightarrow> expectSource list \<times> expectSession" where
  "result_rows env index [] s = ([], s)"
| "result_rows env index ((key, source0) # rest) s =
     (let (route, s1) = (if index < expectSourceLimit then session_lookupRoute env key s else (es_return source0, s));
          source = source0\<lparr>es_return := route,
            es_verdict := expectVerdict (es_counts source0) (es_drops source0) (case route of None \<Rightarrow> False | Some r \<Rightarrow> rt_ipsecPolicy r)\<rparr>;
          (sources, s2) = result_rows env (Suc index) rest s1
      in (source # sources, s2))"

text \<open>The folded session, its sources in the order of the map, and their sum.\<close>

definition result_finish :: "expectEnv \<Rightarrow> expectFlowKey \<Rightarrow> expectSession \<Rightarrow> expectSession" where
  "result_finish env k s = (case map_get (ss_flows s) k of None \<Rightarrow> s | Some flow \<Rightarrow> session_finish env flow s)"

definition result_release :: "expectEnv \<Rightarrow> expectFlowKey \<Rightarrow> expectSession \<Rightarrow> expectSession" where
  "result_release env k s =
     (case map_get (ss_pendingDrops s) k of None \<Rightarrow> s | Some pending \<Rightarrow> session_releaseDrops env k pending s)"

definition result_fold :: "expectEnv \<Rightarrow> expectFlowKey list \<Rightarrow> expectFlowKey list \<Rightarrow> expectSession \<Rightarrow> expectSession" where
  "result_fold env o1 o2 s =
     (let s1 = fold (result_finish env) (map_range o1 (ss_flows s)) s
      in fold (result_release env) (map_range o2 (ss_pendingDrops s1)) s1)"

definition result_sources :: "expectSourceKey list \<Rightarrow> expectSession \<Rightarrow> (expectSourceKey \<times> expectSource) list" where
  "result_sources order s =
     List.map_filter (\<lambda>key. map_option (Pair key) (map_get (ss_sources s) key)) (map_range order (ss_sources s))"

definition result_totals :: "(expectSourceKey \<times> expectSource) list \<Rightarrow> expectCounts" where
  "result_totals entries = fold (\<lambda>(key, source) totals. expect_counts_add totals (es_counts source)) entries expect_counts0"

record expectResult =
  er_status :: bytes
  er_stopReason :: bytes
  er_verdict :: bytes
  er_lead :: "expectSource option"
  er_totals :: expectCounts
  er_sources :: "expectSource list"
  er_omitted :: nat
  er_otherDrops :: "(bytes, nat) gomap"
  er_forwarded :: nat
  er_untracked :: nat
  er_otherPorts :: "(u16 \<times> nat) list"
  er_fromReturn :: "expectReturnPath option"
  er_ipsecHidden :: bool
  er_next :: bytes
  er_exit :: nat

definition session_result ::
    "expectEnv \<Rightarrow> expectFlowKey list \<Rightarrow> expectFlowKey list \<Rightarrow> expectSourceKey list \<Rightarrow> u16 list \<Rightarrow> bytes \<Rightarrow>
     expectSession \<Rightarrow> expectResult \<times> expectSession" where
  "session_result env o1 o2 o3 o4 stopReason s0 =
     (let s1 = result_fold env o1 o2 s0;
          entries = result_sources o3 s1;
          (sources, s2) = result_rows env 0 (sort_by source_before entries) s1;
          (verdict, lead) = expectOverallVerdict sources;
          otherPorts = (case ss_otherPorts s2 of None \<Rightarrow> [] | Some ports \<Rightarrow> topExpectPorts o4 ports 5);
          (fromReturn, s3) =
            (if sources = [] \<and> ss_from s2 \<noteq> NoPrefix \<and> prefixIsSingleIP (ss_from s2)
             then session_lookupRoute env (client_key s2) s2 else (None, s2));
          hidden = ((verdict = expectVerdictNoSYN \<or> verdict = expectVerdictUnseen) \<and>
                    (case en_ipsecInbound env of None \<Rightarrow> False | Some f \<Rightarrow> f (ss_from s2)))
      in (\<lparr>er_status = (if hidden \<and> verdict = expectVerdictNoSYN then ''warn'' else expectVerdictStatus verdict),
           er_stopReason = stopReason, er_verdict = verdict, er_lead = lead, er_totals = result_totals entries,
           er_sources = take expectSourceLimit sources, er_omitted = length sources - expectSourceLimit,
           er_otherDrops = ss_otherDrops s3, er_forwarded = ss_forwarded s3, er_untracked = ss_untracked s3,
           er_otherPorts = otherPorts, er_fromReturn = fromReturn, er_ipsecHidden = hidden,
           er_next = (if verdict = expectVerdictRST then ''edc listen''
                      else if verdict = expectVerdictNoReply \<and> dt_status (ss_dropTrace s2) \<noteq> ''pass'' then ''edc trace drop''
                      else []),
           er_exit = expectExitCode sources stopReason\<rparr>, s3))"

end
