(* ===== verification/ExpectSteps.thy ===== *)
theory ExpectSteps
  imports ExpectSession
begin

text \<open>
  A run of \<open>edc tcp expect\<close> as a sequence of inputs, and what an input may do to the attempts, the
  sources and the drops: the step relation \<open>expect_step\<close>. Every operation of the session is a few
  of these steps (\<open>session_input_steps\<close>); the invariants are then proved by induction over steps.
\<close>

subsection \<open>Inputs and runs\<close>

datatype expectInput =
    PacketRead expectPacket
  | DropRead int bytes bytes bytes bytes
  | Tick int "expectFlowKey list" "expectFlowKey list" "expectFlowKey list"
  | OtherSYNRead netipAddr netipAddr u16
  | OtherPortsOpened
  | Started expectDropTrace int
  | RouteAsked

fun session_input :: "expectEnv \<times> expectInput \<Rightarrow> expectSession \<Rightarrow> expectSession" where
  "session_input (env, PacketRead p) s = session_packet env p s"
| "session_input (env, DropRead moment source destination reason location) s =
     session_drop env moment source destination reason location s"
| "session_input (env, Tick now o1 o2 o3) s = session_tick env now o1 o2 o3 s"
| "session_input (env, OtherSYNRead remote local port) s = session_otherSYN env remote local port s"
| "session_input (env, OtherPortsOpened) s = session_countOtherPorts s"
| "session_input (env, Started dropTrace now) s = session_start env dropTrace now s"
| "session_input (env, RouteAsked) s = snd (session_clientRouteSource env s)"

definition session_run :: "(expectEnv \<times> expectInput) list \<Rightarrow> expectSession \<Rightarrow> expectSession" where
  "session_run inputs s = fold session_input inputs s"

lemma session_run_snoc: "session_run (inputs @ [i]) s = session_input i (session_run inputs s)"
  by (simp add: session_run_def)

text \<open>What runTCPExpect sets up before the first packet.\<close>

definition session_begin :: "u16 \<Rightarrow> netipPrefix \<Rightarrow> bool \<Rightarrow> bytes \<Rightarrow> int \<Rightarrow> expectSession" where
  "session_begin port from verbose until stopAfter =
     (newExpectSession port from)\<lparr>ss_verbose := verbose, ss_until := until, ss_stopAfter := stopAfter\<rparr>"

subsection \<open>Counts of the lines shown\<close>

text \<open>What a line of the terminal says about the counts of its source.\<close>

definition event_counts :: "expectEvent \<Rightarrow> expectCounts" where
  "event_counts e =
     (if xe_kind e = expectEventSYN then expect_counts0\<lparr>ct_attempts := 1, ct_synIn := 1\<rparr>
      else if xe_kind e = expectEventSYNRetransmit then expect_counts0\<lparr>ct_synIn := 1, ct_synRetransmits := 1\<rparr>
      else if xe_kind e = expectEventSYNACK then expect_counts0\<lparr>ct_synAckOut := 1\<rparr>
      else if xe_kind e = expectEventSYNACKRetrans then expect_counts0\<lparr>ct_synAckOut := 1, ct_synAckRetransmits := 1\<rparr>
      else if xe_kind e = expectEventRSTOut then expect_counts0\<lparr>ct_rstOut := 1\<rparr>
      else if xe_kind e = expectEventRSTIn then expect_counts0\<lparr>ct_rstIn := 1\<rparr>
      else if xe_kind e = expectEventEstablished then expect_counts0\<lparr>ct_handshakes := 1\<rparr>
      else expect_counts0)"

definition shown_counts :: "expectEvent list \<Rightarrow> expectCounts" where
  "shown_counts es = fold (\<lambda>e counts. expect_counts_add counts (event_counts e)) es expect_counts0"

lemma counts_add_zero [simp]:
  "expect_counts_add c expect_counts0 = c" "expect_counts_add expect_counts0 c = c"
  by (simp_all add: expect_counts_add_def expect_counts0_def)

lemma counts_add_assoc: "expect_counts_add (expect_counts_add a b) c = expect_counts_add a (expect_counts_add b c)"
  by (simp add: expect_counts_add_def)

lemma shown_counts_simps [simp]:
  "shown_counts [] = expect_counts0"
  "shown_counts (es @ [e]) = expect_counts_add (shown_counts es) (event_counts e)"
  "shown_counts [e] = event_counts e"
  by (simp_all add: shown_counts_def)

lemma shown_counts_append: "shown_counts (xs @ ys) = expect_counts_add (shown_counts xs) (shown_counts ys)"
  by (induction ys rule: rev_induct) (simp_all add: counts_add_assoc flip: append_assoc)

lemma shown_counts_quiet: "\<forall>e\<in>set es. event_counts e = expect_counts0 \<Longrightarrow> shown_counts es = expect_counts0"
  by (induction es rule: rev_induct) auto

subsection \<open>Steps\<close>

definition is_syn :: "expectPacket \<Rightarrow> bool" where
  "is_syn p \<longleftrightarrow> \<not> pk_outgoing p \<and> has_flag p tcpFlagSYN \<and> \<not> has_flag p tcpFlagACK \<and> \<not> has_flag p tcpFlagRST"

definition is_ack :: "expectPacket \<Rightarrow> bool" where
  "is_ack p \<longleftrightarrow> \<not> pk_outgoing p \<and> has_flag p tcpFlagACK \<and> \<not> has_flag p tcpFlagSYN \<and> \<not> has_flag p tcpFlagRST"

text \<open>\<open>s'\<close> has these flows, sources, pending drops, other drops and untracked attempts, and shows \<open>es\<close> more.\<close>

definition becomes where
  "becomes s s' flows sources pending others untracked es \<longleftrightarrow>
     ss_flows s' = flows \<and> ss_sources s' = sources \<and> ss_pendingDrops s' = pending \<and> ss_otherDrops s' = others \<and>
     ss_untracked s' = untracked \<and> ss_emitted s' = ss_emitted s @ es \<and> ss_flowLimit s' = ss_flowLimit s \<and>
     ss_sourceLimit s' = ss_sourceLimit s"

text \<open>The flow of one attempt may change its counts, not its key, first sequence number or drops.\<close>

definition same_attempt :: "expectInput \<Rightarrow> expectFlow \<Rightarrow> expectFlow \<Rightarrow> bool" where
  "same_attempt input fl fl' \<longleftrightarrow>
     ef_key fl' = ef_key fl \<and> ef_isn fl' = ef_isn fl \<and> ef_drops fl' = ef_drops fl \<and>
     (ef_completed fl' = ef_completed fl \<or>
      (\<exists>q. input = PacketRead q \<and> is_ack q \<and> packet_key q = ef_key fl \<and> pk_seq q = ef_isn fl + 1))"

text \<open>The number counts the kernel drops that the step takes in.\<close>

inductive expect_step :: "expectEnv \<Rightarrow> expectInput \<Rightarrow> nat \<Rightarrow> expectSession \<Rightarrow> expectSession \<Rightarrow> bool"
  for env input where
  quiet: "becomes s s' (ss_flows s) (ss_sources s) (ss_pendingDrops s) (ss_otherDrops s) (ss_untracked s) es \<Longrightarrow>
    shown_counts es = expect_counts0 \<Longrightarrow> expect_step env input 0 s s'"
| flow: "map_get (ss_flows s) k = Some fl \<Longrightarrow> same_attempt input fl fl' \<Longrightarrow>
    flow_counts fl' = expect_counts_add (flow_counts fl) (shown_counts es) \<Longrightarrow>
    becomes s s' (map_put k fl' (ss_flows s)) (ss_sources s) (ss_pendingDrops s) (ss_otherDrops s) (ss_untracked s) es \<Longrightarrow>
    expect_step env input 0 s s'"
| opened: "input = PacketRead p \<Longrightarrow> is_syn p \<Longrightarrow> map_get (ss_flows s) (packet_key p) = None \<Longrightarrow>
    map_len (ss_flows s) < ss_flowLimit s \<Longrightarrow> shown_counts es = flow_counts (new_flow p) \<Longrightarrow>
    becomes s s' (map_put (packet_key p) (new_flow p) (ss_flows s)) (ss_sources s) (ss_pendingDrops s) (ss_otherDrops s)
      (ss_untracked s) es \<Longrightarrow> expect_step env input 0 s s'"
| absorbed: "map_get (ss_flows s) k = Some fl \<Longrightarrow> ef_drops fl = [] \<Longrightarrow> map_get (ss_pendingDrops s) k = Some pending \<Longrightarrow>
    becomes s s' (map_put k (fl\<lparr>ef_drops := pd_reasons pending\<rparr>) (ss_flows s)) (ss_sources s)
      (map_del k (ss_pendingDrops s)) (ss_otherDrops s) (ss_untracked s) es \<Longrightarrow>
    shown_counts es = expect_counts0 \<Longrightarrow> expect_step env input 0 s s'"
| refused: "becomes s s' (ss_flows s) (ss_sources s) (ss_pendingDrops s) (ss_otherDrops s) (ss_untracked s + 1) [] \<Longrightarrow>
    expect_step env input 0 s s'"
| finished: "map_get (ss_flows s) k = Some fl \<Longrightarrow> expect_step env input 0 s (session_finish env fl s)"
| released: "map_get (ss_pendingDrops s) k = Some pending \<Longrightarrow>
    expect_step env input 0 s (session_releaseDrops env k pending s)"
| dropped_flow: "map_get (ss_flows s) k = Some fl \<Longrightarrow>
    becomes s s' (map_put k (fl\<lparr>ef_drops := map_bump reason 1 (ef_drops fl)\<rparr>) (ss_flows s)) (ss_sources s)
      (ss_pendingDrops s) (ss_otherDrops s) (ss_untracked s) es \<Longrightarrow>
    shown_counts es = expect_counts0 \<Longrightarrow> expect_step env input 1 s s'"
| dropped_other: "becomes s s' (ss_flows s) (ss_sources s) (ss_pendingDrops s) (map_bump reason 1 (ss_otherDrops s))
      (ss_untracked s) es \<Longrightarrow> shown_counts es = expect_counts0 \<Longrightarrow> expect_step env input 1 s s'"
| dropped_pending: "old = (case map_get (ss_pendingDrops s) k of
        None \<Rightarrow> \<lparr>pd_at = moment, pd_reasons = [], pd_events = []\<rparr> | Some p \<Rightarrow> p) \<Longrightarrow>
    pd_reasons p' = map_bump reason 1 (pd_reasons old) \<Longrightarrow>
    pd_events p' = pd_events old @ ds \<Longrightarrow> \<forall>e\<in>set ds. xe_kind e = expectEventDrop \<Longrightarrow>
    becomes s s' (ss_flows s) (ss_sources s) (map_put k p' (ss_pendingDrops s)) (ss_otherDrops s) (ss_untracked s) es \<Longrightarrow>
    shown_counts es = expect_counts0 \<Longrightarrow> expect_step env input 1 s s'"

inductive expect_steps :: "expectEnv \<Rightarrow> expectInput \<Rightarrow> nat \<Rightarrow> expectSession \<Rightarrow> expectSession \<Rightarrow> bool"
  for env input where
  none: "expect_steps env input 0 s s"
| step: "expect_step env input d s s' \<Longrightarrow> expect_steps env input n s' s'' \<Longrightarrow> expect_steps env input (d + n) s s''"

lemma one_step: "expect_step env input d s s' \<Longrightarrow> expect_steps env input d s s'"
  using expect_steps.step [OF _ expect_steps.none] by fastforce

lemma steps_trans:
  assumes "expect_steps env input m s s'" and "expect_steps env input n s' s''"
  shows "expect_steps env input (m + n) s s''"
  using assms by (induction rule: expect_steps.induct) (auto intro: expect_steps.step simp: add.assoc)

lemma steps_quiet:
  "becomes s s' (ss_flows s) (ss_sources s) (ss_pendingDrops s) (ss_otherDrops s) (ss_untracked s) es \<Longrightarrow>
   shown_counts es = expect_counts0 \<Longrightarrow> expect_steps env input 0 s s'"
  by (rule one_step) (rule expect_step.quiet)

subsection \<open>Well-formed sessions\<close>

text \<open>The maps are maps, every attempt stands under its own key, and the limits hold.\<close>

definition session_wf :: "expectSession \<Rightarrow> bool" where
  "session_wf s \<longleftrightarrow>
     map_ok (ss_flows s) \<and> map_ok (ss_sources s) \<and> map_ok (ss_pendingDrops s) \<and> map_ok (ss_otherDrops s) \<and>
     (\<forall>k fl. map_get (ss_flows s) k = Some fl \<longrightarrow> ef_key fl = k \<and> map_ok (ef_drops fl)) \<and>
     (\<forall>key source. map_get (ss_sources s) key = Some source \<longrightarrow> map_ok (es_drops source)) \<and>
     (\<forall>k pending. map_get (ss_pendingDrops s) k = Some pending \<longrightarrow>
        map_ok (pd_reasons pending) \<and> (\<forall>e\<in>set (pd_events pending). xe_kind e = expectEventDrop)) \<and>
     map_len (ss_flows s) \<le> ss_flowLimit s \<and> map_len (ss_sources s) \<le> ss_sourceLimit s"

lemma wf_facts:
  assumes "session_wf s"
  shows "map_ok (ss_flows s)" "map_ok (ss_sources s)" "map_ok (ss_pendingDrops s)" "map_ok (ss_otherDrops s)"
    "map_get (ss_flows s) k = Some fl \<Longrightarrow> ef_key fl = k" "map_get (ss_flows s) k = Some fl \<Longrightarrow> map_ok (ef_drops fl)"
    "map_get (ss_sources s) key = Some source \<Longrightarrow> map_ok (es_drops source)"
    "map_get (ss_pendingDrops s) k = Some pending \<Longrightarrow> map_ok (pd_reasons pending)"
    "map_get (ss_pendingDrops s) k = Some pending \<Longrightarrow> e \<in> set (pd_events pending) \<Longrightarrow> xe_kind e = expectEventDrop"
    "map_len (ss_flows s) \<le> ss_flowLimit s" "map_len (ss_sources s) \<le> ss_sourceLimit s"
  using assms by (simp_all add: session_wf_def)

lemma map_len_put_known: "map_get m k = Some v \<Longrightarrow> map_len (map_put k w m) = map_len m"
  by (simp add: gm.len_put)

lemma map_len_del_le: "map_ok m \<Longrightarrow> map_len (map_del k m) \<le> map_len m"
  by (simp add: gm.len_del)

lemma map_get_Some:
  "map_get (map_put k v m) k' = Some w \<longleftrightarrow> (k' = k \<and> w = v \<or> k' \<noteq> k \<and> map_get m k' = Some w)"
  "map_ok m \<Longrightarrow> map_get (map_del k m) k' = Some w \<longleftrightarrow> k' \<noteq> k \<and> map_get m k' = Some w"
  by (auto simp: gm.get_put gm.get_del)

lemmas map_laws = map_get_Some gm.get_put gm.get_del gm.ok_put gm.ok_del gm.len_put map_bump_ok map_merge_ok

lemma map_ok_nil [simp]: "map_ok []" "map_len [] = 0" "map_get [] k = None"
  by (simp_all add: map_ok_def map_len_def map_get_def)

lemma wf_becomes_flow:
  assumes "session_wf s" "becomes s s' (map_put k fl (ss_flows s)) (ss_sources s) pending (ss_otherDrops s) n es"
    "ef_key fl = k" "map_ok (ef_drops fl)" "map_get (ss_flows s) k \<noteq> None \<or> map_len (ss_flows s) < ss_flowLimit s"
    "pending = ss_pendingDrops s \<or> pending = map_del k (ss_pendingDrops s)"
  shows "session_wf s'"
proof -
  note facts = wf_facts [OF assms(1)]
  have pending: "map_ok pending" "\<And>k' p. map_get pending k' = Some p \<Longrightarrow> map_ok (pd_reasons p)"
      "\<And>k' p e. map_get pending k' = Some p \<Longrightarrow> e \<in> set (pd_events p) \<Longrightarrow> xe_kind e = expectEventDrop"
    using assms(6) facts(3) by (auto simp: gm.ok_del map_get_Some intro: facts(8) facts(9))
  have "map_len (map_put k fl (ss_flows s)) \<le> ss_flowLimit s"
    using assms(5) facts(10) by (auto simp: gm.len_put)
  then show ?thesis
    using assms(2-4) facts pending unfolding becomes_def session_wf_def by (auto simp: map_get_Some gm.ok_put)
qed

lemma wf_finish:
  assumes wf: "session_wf s" and fl: "map_get (ss_flows s) k = Some fl"
  shows "session_wf (session_finish env fl s)"
proof -
  note facts = wf_facts [OF wf]
  have len: "map_len (map_del (ef_key fl) (ss_flows s)) \<le> ss_flowLimit s"
    using map_len_del_le [OF facts(1), of "ef_key fl"] facts(10) by linarith
  have merged: "\<And>pending. map_ok (map_merge (ef_drops fl) pending)" using facts(6) [OF fl] by (rule map_merge_ok)
  show ?thesis
    using facts fl len merged
    by (auto simp: session_wf_def session_finish_def map_laws source_absorb_def new_source_def Let_def
        split: option.splits)
qed

lemma release_reason_frame:
  "ss_flows (release_reason env key entry s) = ss_flows s \<and> ss_pendingDrops (release_reason env key entry s) = ss_pendingDrops s \<and>
   ss_untracked (release_reason env key entry s) = ss_untracked s \<and> ss_emitted (release_reason env key entry s) = ss_emitted s"
  by (auto simp: release_reason_def Let_def split: option.splits prod.splits)

lemma wf_put_source:
  assumes "session_wf s" "map_ok (es_drops source)" "map_get (ss_sources s) key \<noteq> None \<or> map_len (ss_sources s) < ss_sourceLimit s"
  shows "session_wf (s\<lparr>ss_sources := map_put key source (ss_sources s)\<rparr>)"
  using assms wf_facts [OF assms(1)] by (auto simp: session_wf_def map_laws)

lemma wf_put_other: "session_wf s \<Longrightarrow> session_wf (s\<lparr>ss_otherDrops := map_bump reason n (ss_otherDrops s)\<rparr>)"
  by (simp add: session_wf_def map_laws)

lemma wf_release_reason:
  assumes "session_wf s"
  shows "session_wf (release_reason env key entry s)"
  using wf_put_source [OF assms] wf_put_other [OF assms] wf_facts(7) [OF assms]
  by (auto simp: release_reason_def new_source_def map_bump_ok Let_def not_le split: option.split prod.split)

lemma fold_invariant: "P s \<Longrightarrow> (\<And>x s. P s \<Longrightarrow> P (f x s)) \<Longrightarrow> P (fold f xs s)"
  by (induction xs arbitrary: s) auto

lemma wf_release:
  assumes "session_wf s"
  shows "session_wf (session_releaseDrops env k pending s)"
  unfolding session_releaseDrops_def
proof (rule fold_invariant)
  show "session_wf (s\<lparr>ss_pendingDrops := map_del k (ss_pendingDrops s)\<rparr>)"
    using wf_facts [OF assms] by (auto simp: session_wf_def map_laws)
qed (rule wf_release_reason)

lemma wf_step:
  assumes "expect_step env input d s s'" and wf: "session_wf s"
  shows "session_wf s'"
  using assms(1)
proof (cases rule: expect_step.cases)
  case (quiet es)
  then show ?thesis using wf by (simp add: session_wf_def becomes_def)
next
  case (flow k fl fl' es)
  have "ef_key fl' = k" "map_ok (ef_drops fl')"
    using flow(3) wf_facts(5,6) [OF wf flow(2)] by (simp_all add: same_attempt_def)
  then show ?thesis using flow(2) by (intro wf_becomes_flow [OF wf flow(5)]) simp_all
next
  case (opened p es)
  then show ?thesis by (intro wf_becomes_flow [OF wf opened(7)]) (simp_all add: new_flow_def)
next
  case (absorbed k fl pending es)
  show ?thesis
    using absorbed(2) wf_facts(5) [OF wf absorbed(2)] wf_facts(8) [OF wf absorbed(4)]
    by (intro wf_becomes_flow [OF wf absorbed(5)]) simp_all
next
  case refused
  then show ?thesis using wf by (simp add: session_wf_def becomes_def)
next
  case (finished k fl)
  then show ?thesis using wf by (simp add: wf_finish)
next
  case (released k pending)
  then show ?thesis using wf by (simp add: wf_release)
next
  case (dropped_flow k fl reason es)
  show ?thesis
    using dropped_flow(2) wf_facts(5,6) [OF wf dropped_flow(2)]
    by (intro wf_becomes_flow [OF wf dropped_flow(3)]) (simp_all add: map_bump_ok)
next
  case (dropped_other reason es)
  then show ?thesis using wf by (simp add: session_wf_def becomes_def map_bump_ok)
next
  case (dropped_pending old k moment p' reason ds es)
  have "map_ok (pd_reasons old)" "\<forall>e\<in>set (pd_events old). xe_kind e = expectEventDrop"
    using wf_facts(8,9) [OF wf, of k] dropped_pending(2) by (auto split: option.splits)
  then show ?thesis using wf dropped_pending(3-6) by (auto simp: session_wf_def becomes_def map_laws)
qed

lemma wf_steps: "expect_steps env input n s s' \<Longrightarrow> session_wf s \<Longrightarrow> session_wf s'"
  by (induction rule: expect_steps.induct) (auto dest: wf_step)

lemma wf_begin: "session_wf (session_begin port from verbose until stopAfter)"
  by (simp add: session_begin_def newExpectSession_def session_wf_def)


subsection \<open>Every operation is such steps\<close>

lemma emit_fields [simp]:
  "ss_flows (emit_event e s) = ss_flows s" "ss_sources (emit_event e s) = ss_sources s"
  "ss_pendingDrops (emit_event e s) = ss_pendingDrops s" "ss_otherDrops (emit_event e s) = ss_otherDrops s"
  "ss_untracked (emit_event e s) = ss_untracked s" "ss_emitted (emit_event e s) = ss_emitted s @ [e]"
  "ss_flowLimit (emit_event e s) = ss_flowLimit s" "ss_sourceLimit (emit_event e s) = ss_sourceLimit s"
  "ss_verbose (emit_event e s) = ss_verbose s"
  by (simp_all add: emit_event_def)

lemma stop_fields [simp]:
  "becomes s (armStop m r g s') F S P D U es = becomes s s' F S P D U es"
  "becomes s (syn_stops p s') F S P D U es = becomes s s' F S P D U es"
  by (simp_all add: becomes_def armStop_def syn_stops_def Let_def)

lemma fold_emit: "fold (\<lambda>e. emit_event (f e)) es s = s\<lparr>ss_emitted := ss_emitted s @ map f es\<rparr>"
  by (induction es arbitrary: s) (simp_all add: emit_event_def)

lemma put_flow_fields [simp]:
  "ss_flows (put_flow fl s) = map_put (ef_key fl) fl (ss_flows s)" "ss_sources (put_flow fl s) = ss_sources s"
  "ss_pendingDrops (put_flow fl s) = ss_pendingDrops s" "ss_otherDrops (put_flow fl s) = ss_otherDrops s"
  "ss_untracked (put_flow fl s) = ss_untracked s" "ss_emitted (put_flow fl s) = ss_emitted s"
  "ss_flowLimit (put_flow fl s) = ss_flowLimit s" "ss_sourceLimit (put_flow fl s) = ss_sourceLimit s"
  "ss_verbose (put_flow fl s) = ss_verbose s" "ss_live (put_flow fl s) = ss_live s"
  by (simp_all add: put_flow_def)

lemma event_counts_kinds [simp]:
  "event_counts (e\<lparr>xe_iface := i\<rparr>) = event_counts e" "event_counts (e\<lparr>xe_count := n\<rparr>) = event_counts e"
  "event_counts (e\<lparr>xe_detail := d\<rparr>) = event_counts e"
  by (simp_all add: event_counts_def)

lemma event_counts_of:
  "event_counts (e\<lparr>xe_kind := expectEventSYN\<rparr>) = expect_counts0\<lparr>ct_attempts := 1, ct_synIn := 1\<rparr>"
  "event_counts (e\<lparr>xe_kind := expectEventSYNRetransmit\<rparr>) = expect_counts0\<lparr>ct_synIn := 1, ct_synRetransmits := 1\<rparr>"
  "event_counts (e\<lparr>xe_kind := expectEventSYNACK\<rparr>) = expect_counts0\<lparr>ct_synAckOut := 1\<rparr>"
  "event_counts (e\<lparr>xe_kind := expectEventSYNACKRetrans\<rparr>) = expect_counts0\<lparr>ct_synAckOut := 1, ct_synAckRetransmits := 1\<rparr>"
  "event_counts (e\<lparr>xe_kind := expectEventRSTOut\<rparr>) = expect_counts0\<lparr>ct_rstOut := 1\<rparr>"
  "event_counts (e\<lparr>xe_kind := expectEventRSTIn\<rparr>) = expect_counts0\<lparr>ct_rstIn := 1\<rparr>"
  "event_counts (e\<lparr>xe_kind := expectEventEstablished\<rparr>) = expect_counts0\<lparr>ct_handshakes := 1\<rparr>"
  "event_counts (e\<lparr>xe_kind := expectEventDuplicate\<rparr>) = expect_counts0"
  "xe_kind e = expectEventDrop \<Longrightarrow> event_counts e = expect_counts0"
  "xe_kind e = expectEventRoute \<Longrightarrow> event_counts e = expect_counts0"
  by (simp_all add: event_counts_def expect_kinds)

text \<open>An operation on the attempt under \<open>k\<close>: its new value and the new lines are read off the result.\<close>

lemma flow_op:
  assumes "map_get (ss_flows s) k = Some fl"
    and "becomes s s' (map_put k (the (map_get (ss_flows s') k)) (ss_flows s)) (ss_sources s) (ss_pendingDrops s)
      (ss_otherDrops s) (ss_untracked s) (drop (length (ss_emitted s)) (ss_emitted s')) \<and>
     same_attempt input fl (the (map_get (ss_flows s') k)) \<and>
     flow_counts (the (map_get (ss_flows s') k)) =
       expect_counts_add (flow_counts fl) (shown_counts (drop (length (ss_emitted s)) (ss_emitted s')))"
  shows "expect_steps env input 0 s s'"
  using expect_step.flow [OF assms(1)] assms(2) by (blast intro: one_step)

lemmas op_simps = becomes_def same_attempt_def flow_counts_def expect_counts_add_def event_counts_of expect_counts0_def
  gm.get_put Let_def

lemma armStop_fields [simp]:
  "ss_flows (armStop m r g s) = ss_flows s" "ss_sources (armStop m r g s) = ss_sources s"
  "ss_pendingDrops (armStop m r g s) = ss_pendingDrops s" "ss_otherDrops (armStop m r g s) = ss_otherDrops s"
  "ss_untracked (armStop m r g s) = ss_untracked s" "ss_emitted (armStop m r g s) = ss_emitted s"
  "ss_flowLimit (armStop m r g s) = ss_flowLimit s" "ss_sourceLimit (armStop m r g s) = ss_sourceLimit s"
  by (simp_all add: armStop_def)

lemma syn_again_steps:
  "map_get (ss_flows s) k = Some fl \<Longrightarrow> ef_key fl = k \<Longrightarrow> expect_steps env input 0 s (packet_syn_again p fl s)"
  by (erule flow_op) (auto simp: packet_syn_again_def op_simps)

lemma synack_steps:
  "map_get (ss_flows s) k = Some fl \<Longrightarrow> ef_key fl = k \<Longrightarrow> expect_steps env input 0 s (packet_synack p fl s)"
  by (erule flow_op) (auto simp: packet_synack_def op_simps)

lemma rst_out_steps:
  "map_get (ss_flows s) k = Some fl \<Longrightarrow> ef_key fl = k \<Longrightarrow> expect_steps env input 0 s (packet_rst_out p fl s)"
  by (erule flow_op) (auto simp: packet_rst_out_def op_simps)

lemma rst_in_steps:
  "map_get (ss_flows s) k = Some fl \<Longrightarrow> ef_key fl = k \<Longrightarrow> expect_steps env input 0 s (packet_rst_in p fl s)"
  by (erule flow_op) (auto simp: packet_rst_in_def op_simps)

lemma ack_steps:
  assumes "map_get (ss_flows s) k = Some fl" "ef_key fl = k" "\<not> ef_completed fl" "is_ack p" "packet_key p = k"
    "pk_seq p = ef_isn fl + 1"
  shows "expect_steps env (PacketRead p) 0 s (packet_ack env p fl s)"
  using assms(2-) by (intro flow_op [OF assms(1)]) (auto simp: packet_ack_def op_simps)

lemma new_flow_counts: "flow_counts (new_flow p) = expect_counts0\<lparr>ct_attempts := 1, ct_synIn := 1\<rparr>"
  by (simp add: flow_counts_def new_flow_def expect_counts0_def)

lemma syn_new_steps:
  assumes wf: "session_wf s" and syn: "is_syn p" "map_get (ss_flows s) (packet_key p) = None"
    and room: "map_len (ss_flows s) < ss_flowLimit s"
  shows "expect_steps env (PacketRead p) 0 s (packet_syn_new env p s)"
proof -
  let ?k = "packet_key p" and ?fl = "new_flow p"
  let ?s1 = "emit_event ((packet_event p)\<lparr>xe_kind := expectEventSYN\<rparr>) (put_flow ?fl s)"
  let ?s2 = "syn_stops p (?s1\<lparr>ss_live := (ss_live ?s1)\<lparr>lv_syn := lv_syn (ss_live ?s1) + 1\<rparr>, ss_attempts := ss_attempts ?s1 + 1\<rparr>)"
  have key: "ef_key ?fl = ?k" "ef_drops ?fl = []" by (simp_all add: new_flow_def)
  have "becomes s ?s2 (map_put ?k ?fl (ss_flows s)) (ss_sources s) (ss_pendingDrops s) (ss_otherDrops s) (ss_untracked s)
      [(packet_event p)\<lparr>xe_kind := expectEventSYN\<rparr>]"
    by (simp add: key) (simp add: becomes_def key)
  then have s2: "expect_steps env (PacketRead p) 0 s ?s2" and fl: "map_get (ss_flows ?s2) ?k = Some ?fl"
      and pending: "ss_pendingDrops ?s2 = ss_pendingDrops s"
    using syn room
    by (auto intro!: one_step expect_step.opened simp: new_flow_counts event_counts_of becomes_def gm.get_put)
  have "expect_steps env (PacketRead p) 0 ?s2 (syn_pending ?fl ?s2)"
  proof (cases "map_get (ss_pendingDrops s) ?k")
    case None
    then show ?thesis using pending by (simp add: syn_pending_def key expect_steps.none)
  next
    case (Some pd)
    let ?es = "map (\<lambda>drop. drop\<lparr>xe_iface := ef_iface ?fl\<rparr>) (pd_events pd)"
    have "becomes ?s2 (syn_pending ?fl ?s2) (map_put ?k (?fl\<lparr>ef_drops := pd_reasons pd\<rparr>) (ss_flows ?s2)) (ss_sources ?s2)
        (map_del ?k (ss_pendingDrops ?s2)) (ss_otherDrops ?s2) (ss_untracked ?s2) ?es"
      using Some pending by (simp add: syn_pending_def key fold_emit becomes_def Let_def)
    moreover have "shown_counts ?es = expect_counts0"
      using wf_facts(9) [OF wf Some] by (intro shown_counts_quiet) (auto simp: event_counts_of)
    ultimately show ?thesis
      using Some pending key(2) by (intro one_step expect_step.absorbed [OF fl]) auto
  qed
  then show ?thesis using steps_trans [OF s2] by (simp add: packet_syn_new_def Let_def)
qed

lemma map_len_pos: "map_get m k = Some v \<Longrightarrow> 0 < map_len m"
  by (cases m) (simp_all add: map_len_def)

lemma finish_frame:
  "ss_flows (session_finish env fl s) = map_del (ef_key fl) (ss_flows s)"
  "ss_flowLimit (session_finish env fl s) = ss_flowLimit s"
  by (auto simp: session_finish_def Let_def split: option.splits)

lemma packet_syn_steps:
  assumes wf: "session_wf s" and syn: "is_syn p"
  shows "expect_steps env (PacketRead p) 0 s (packet_syn env p (map_get (ss_flows s) (packet_key p)) s)"
proof (cases "map_get (ss_flows s) (packet_key p)")
  case None
  have "expect_steps env (PacketRead p) 0 s (s\<lparr>ss_untracked := ss_untracked s + 1\<rparr>)"
    by (rule one_step, rule expect_step.refused) (simp add: becomes_def)
  then show ?thesis using None syn_new_steps [OF wf syn None] by (simp add: packet_syn_def)
next
  case (Some fl)
  note facts = wf_facts [OF wf]
  have key: "ef_key fl = packet_key p" by (rule facts(5) [OF Some])
  have del: "map_len (map_del (packet_key p) (ss_flows s)) < ss_flowLimit s"
    using facts(1,10) map_len_pos [OF Some] by (simp add: gm.len_del Some)
  have "expect_steps env (PacketRead p) 0 s (packet_syn_new env p (session_finish env fl s))"
    using steps_trans [OF one_step [OF expect_step.finished [OF Some]]
        syn_new_steps [OF wf_finish [OF wf Some] syn, of env env]] del facts(1) key
    by (simp add: finish_frame gm.get_del)
  then show ?thesis using Some syn_again_steps [OF Some key] by (simp add: packet_syn_def)
qed

lemma session_packet_steps:
  assumes wf: "session_wf s"
  shows "expect_steps env (PacketRead p) 0 s (session_packet env p s)"
proof (cases "\<not> session_wanted (ap_addr (pk_remote p)) s \<or> \<not> session_isLocal env (ap_addr (pk_local p))")
  case True
  then show ?thesis
    using steps_quiet [of s "s\<lparr>ss_forwarded := ss_forwarded s + 1\<rparr>" "[]" env "PacketRead p"]
    by (auto simp: session_packet_def becomes_def expect_steps.none)
next
  case False
  show ?thesis
  proof (cases "is_syn p")
    case True
    then show ?thesis using False packet_syn_steps [OF wf True] by (simp add: session_packet_def is_syn_def Let_def)
  next
    case other: False
    show ?thesis
    proof (cases "map_get (ss_flows s) (packet_key p)")
      case None
      then show ?thesis using False other by (auto simp: session_packet_def is_syn_def Let_def expect_steps.none)
    next
      case (Some fl)
      have key: "ef_key fl = packet_key p" by (rule wf_facts(5) [OF wf Some])
      show ?thesis
        using False other Some key ack_steps [OF Some key, of p env] synack_steps [OF Some key] rst_out_steps [OF Some key]
          rst_in_steps [OF Some key]
        by (auto simp: session_packet_def is_syn_def is_ack_def Let_def expect_steps.none)
    qed
  qed
qed

text \<open>Drops.\<close>

definition drop_taken :: "expectEnv \<Rightarrow> expectInput \<Rightarrow> expectSession \<Rightarrow> nat" where
  "drop_taken env input s =
     (case input of
        DropRead _ source destination _ _ \<Rightarrow> (if drop_key env source destination s = None then 0 else 1)
      | _ \<Rightarrow> 0)"

lemma drop_event_kind [simp]: "xe_kind (drop_event m k r l) = expectEventDrop"
  by (simp add: drop_event_def)

lemma live_drop_becomes [simp]: "becomes s (live_drop s') F S P D U es = becomes s s' F S P D U es"
  by (simp add: becomes_def live_drop_def)

lemma live_drop_fields [simp]: "ss_flows (live_drop s) = ss_flows s" "ss_emitted (live_drop s) = ss_emitted s"
  "ss_sources (live_drop s) = ss_sources s" "ss_pendingDrops (live_drop s) = ss_pendingDrops s"
  "ss_otherDrops (live_drop s) = ss_otherDrops s" "ss_untracked (live_drop s) = ss_untracked s"
  "ss_flowLimit (live_drop s) = ss_flowLimit s" "ss_sourceLimit (live_drop s) = ss_sourceLimit s"
  by (simp_all add: live_drop_def)

lemma drop_on_flow_steps:
  assumes "map_get (ss_flows s) k = Some fl" "ef_key fl = k" "xe_kind e = expectEventDrop"
  shows "expect_steps env input 1 s (drop_on_flow e reason fl s)"
proof (cases "ef_completed fl")
  case True
  have "expect_step env input 1 s (drop_on_flow e reason fl s)"
    by (rule expect_step.dropped_other [of s _ reason "drop (length (ss_emitted s)) (ss_emitted (drop_on_flow e reason fl s))"])
      (use True assms(3) in \<open>auto simp: drop_on_flow_def becomes_def event_counts_of Let_def\<close>)
  then show ?thesis by (rule one_step)
next
  case False
  have "expect_step env input 1 s (drop_on_flow e reason fl s)"
    by (rule expect_step.dropped_flow [OF assms(1), of _ reason "[e\<lparr>xe_iface := ef_iface fl\<rparr>]"])
      (use False assms(2,3) in \<open>auto simp: drop_on_flow_def becomes_def event_counts_of\<close>)
  then show ?thesis by (rule one_step)
qed

lemma drop_pending_steps:
  assumes "xe_kind e = expectEventDrop"
  shows "expect_steps env input 1 s (drop_pending moment e reason k s)"
proof -
  let ?old = "case map_get (ss_pendingDrops s) k of None \<Rightarrow> \<lparr>pd_at = moment, pd_reasons = [], pd_events = []\<rparr> | Some p \<Rightarrow> p"
  let ?new = "?old\<lparr>pd_reasons := map_bump reason 1 (pd_reasons ?old)\<rparr>"
  have "expect_step env input 1 s (drop_pending moment e reason k s)"
  proof (cases "ss_verbose s")
    case True
    show ?thesis
      by (rule expect_step.dropped_pending [OF refl, where p' = ?new and ds = "[]" and es = "[e\<lparr>xe_iface := ''-''\<rparr>]" and reason = reason])
        (use True assms in \<open>auto simp: drop_pending_def becomes_def event_counts_of Let_def\<close>)
  next
    case False
    show ?thesis
      by (rule expect_step.dropped_pending [OF refl, where p' = "?new\<lparr>pd_events := pd_events ?new @ [e]\<rparr>" and ds = "[e]" and es = "[]" and reason = reason])
        (use False assms in \<open>auto simp: drop_pending_def becomes_def Let_def\<close>)
  qed
  then show ?thesis by (rule one_step)
qed

lemma session_drop_steps:
  assumes wf: "session_wf s"
  shows "expect_steps env input (if drop_key env source destination s = None then 0 else 1) s
    (session_drop env moment source destination reason location s)"
proof (cases "drop_key env source destination s")
  case None
  then show ?thesis by (simp add: session_drop_def expect_steps.none)
next
  case (Some k)
  show ?thesis
  proof (cases "map_get (ss_flows s) k")
    case None
    show ?thesis
      using drop_pending_steps [of "drop_event moment k reason location" env input s moment reason k] Some None
      by (simp add: session_drop_def)
  next
    case (Some fl)
    show ?thesis
      using drop_on_flow_steps [OF Some wf_facts(5) [OF wf Some], of "drop_event moment k reason location" env input reason]
        \<open>drop_key env source destination s = Some k\<close> Some
      by (simp add: session_drop_def)
  qed
qed

text \<open>Ticks.\<close>

lemma lookupRoute_becomes [simp]:
  "becomes s (snd (session_lookupRoute env key s')) F S P D U es = becomes s s' F S P D U es"
  by (auto simp: session_lookupRoute_def becomes_def Let_def split: option.split)

lemma tick_route_steps:
  assumes wf: "session_wf s"
  shows "expect_steps env input 0 s (tick_route env now k s)"
proof (cases "map_get (ss_flows s) k")
  case None
  then show ?thesis by (simp add: tick_route_def expect_steps.none)
next
  case (Some fl)
  have key: "ef_key fl = k" by (rule wf_facts(5) [OF wf Some])
  have put: "expect_steps env input 0 s (put_flow (fl\<lparr>ef_routeShown := True\<rparr>) s)"
    using key by (intro flow_op [OF Some]) (auto simp: op_simps)
  have route: "becomes s1 (emit_event e (snd (session_lookupRoute env x s1))) (ss_flows s1) (ss_sources s1) (ss_pendingDrops s1)
      (ss_otherDrops s1) (ss_untracked s1) [e]" for e x s1
    by (auto simp: becomes_def session_lookupRoute_def Let_def split: option.split)
  have "xe_kind e = expectEventRoute \<Longrightarrow>
      expect_steps env input 0 s (emit_event e (snd (session_lookupRoute env x (put_flow (fl\<lparr>ef_routeShown := True\<rparr>) s))))" for e x
    using steps_trans [OF put steps_quiet [OF route]] by (simp add: event_counts_of)
  then show ?thesis
    using Some put by (auto simp: tick_route_def expect_steps.none case_prod_unfold Let_def)
qed

lemma tick_idle_steps: "expect_steps env input 0 s (tick_idle env now k s)"
  by (auto simp: tick_idle_def expect_steps.none intro: one_step expect_step.finished split: option.split)

lemma tick_pending_steps: "expect_steps env input 0 s (tick_pending env now k s)"
  by (auto simp: tick_pending_def expect_steps.none intro: one_step expect_step.released split: option.split)

lemma fold_steps:
  assumes "session_wf s" and "\<And>x s. session_wf s \<Longrightarrow> expect_steps env input 0 s (f x s)"
  shows "expect_steps env input 0 s (fold f xs s)"
  using assms(1)
proof (induction xs arbitrary: s)
  case (Cons x xs)
  have "expect_steps env input 0 s (f x s)" by (rule assms(2) [OF Cons.prems])
  with Cons.IH [OF wf_steps [OF this Cons.prems]] show ?case using steps_trans by fastforce
qed (simp add: expect_steps.none)

lemma session_tick_steps:
  assumes wf: "session_wf s"
  shows "expect_steps env input 0 s (session_tick env now o1 o2 o3 s)"
proof -
  let ?s1 = "fold (tick_route env now) (map_range o1 (ss_flows s)) s"
  let ?s2 = "?s1\<lparr>ss_lastSweep := now\<rparr>"
  let ?s3 = "fold (tick_idle env now) (map_range o2 (ss_flows ?s2)) ?s2"
  have s1: "expect_steps env input 0 s ?s1" by (rule fold_steps [OF wf tick_route_steps])
  have s2: "expect_steps env input 0 ?s1 ?s2" by (rule steps_quiet [of _ _ "[]"]) (simp_all add: becomes_def)
  have wf2: "session_wf ?s2" by (rule wf_steps [OF s2 wf_steps [OF s1 wf]])
  have s3: "expect_steps env input 0 ?s2 ?s3" by (rule fold_steps [OF wf2 tick_idle_steps])
  have s4: "expect_steps env input 0 ?s3 (fold (tick_pending env now) (map_range o3 (ss_pendingDrops ?s3)) ?s3)"
    by (rule fold_steps [OF wf_steps [OF s3 wf2] tick_pending_steps])
  show ?thesis
    using s1 steps_trans [OF s1 steps_trans [OF s2 steps_trans [OF s3 s4]]] by (simp add: session_tick_def Let_def)
qed

text \<open>All inputs.\<close>

lemma session_input_steps:
  assumes wf: "session_wf s"
  shows "expect_steps env input (drop_taken env input s) s (session_input (env, input) s)"
proof (cases input)
  case (PacketRead p)
  then show ?thesis using session_packet_steps [OF wf] by (simp add: drop_taken_def)
next
  case (DropRead moment source destination reason location)
  then show ?thesis using session_drop_steps [OF wf] by (simp add: drop_taken_def)
next
  case (Tick now o1 o2 o3)
  then show ?thesis using session_tick_steps [OF wf] by (simp add: drop_taken_def)
next
  case (OtherSYNRead remote local port)
  have "becomes s (session_otherSYN env remote local port s) (ss_flows s) (ss_sources s) (ss_pendingDrops s) (ss_otherDrops s)
      (ss_untracked s) []" by (auto simp: session_otherSYN_def becomes_def split: option.split)
  then show ?thesis using OtherSYNRead by (simp add: drop_taken_def steps_quiet)
next
  case OtherPortsOpened
  have "becomes s (session_countOtherPorts s) (ss_flows s) (ss_sources s) (ss_pendingDrops s) (ss_otherDrops s)
      (ss_untracked s) []" by (simp add: session_countOtherPorts_def becomes_def)
  then show ?thesis using OtherPortsOpened by (simp add: drop_taken_def steps_quiet)
next
  case (Started dropTrace now)
  let ?es = "drop (length (ss_emitted s)) (ss_emitted (session_start env dropTrace now s))"
  have "becomes s (session_start env dropTrace now s) (ss_flows s) (ss_sources s) (ss_pendingDrops s) (ss_otherDrops s)
      (ss_untracked s) ?es \<and> shown_counts ?es = expect_counts0"
    by (auto simp: session_start_def becomes_def session_lookupRoute_def event_counts_of Let_def split: option.split)
  then show ?thesis using Started steps_quiet by (auto simp: drop_taken_def)
next
  case RouteAsked
  have "becomes s (snd (session_clientRouteSource env s)) (ss_flows s) (ss_sources s) (ss_pendingDrops s) (ss_otherDrops s)
      (ss_untracked s) []"
    by (auto simp: session_clientRouteSource_def session_lookupRoute_def becomes_def Let_def split: option.split prod.split)
  then show ?thesis using RouteAsked by (simp add: drop_taken_def steps_quiet)
qed

lemma wf_input: "session_wf s \<Longrightarrow> session_wf (session_input i s)"
  using wf_steps [OF session_input_steps] by (cases i) simp

lemma wf_run: "session_wf s \<Longrightarrow> session_wf (session_run inputs s)"
  unfolding session_run_def by (rule fold_invariant) (simp_all add: wf_input)

end
