(* ===== verification/ExpectSafety.thy ===== *)
theory ExpectSafety
  imports ExpectSteps
begin

text \<open>
  What a run of \<open>edc tcp expect\<close> (internal/edc/tcp_expect.go) guarantees: its totals and drops are
  exact, a source is only called completed when its handshake was read, and what is kept is bounded.
\<close>

subsection \<open>Every line is accounted for\<close>

text \<open>
  One field of the counts. The balance of a session is what its attempts and sources count; it is
  what the lines shown so far say, as long as no attempt went untracked, and never more.
\<close>

lemma flow_counts_drops: "flow_counts (fl\<lparr>ef_drops := drops\<rparr>) = flow_counts fl"
  by (simp add: flow_counts_def)

locale count_field =
  fixes field :: "expectCounts \<Rightarrow> nat"
  assumes field_add: "field (expect_counts_add a b) = field a + field b"
    and field_zero: "field expect_counts0 = 0"
begin

definition flows_sum :: "(expectFlowKey, expectFlow) gomap \<Rightarrow> nat" where
  "flows_sum m = map_total (\<lambda>fl. field (flow_counts fl)) m"

definition sources_sum :: "(expectSourceKey, expectSource) gomap \<Rightarrow> nat" where
  "sources_sum m = map_total (\<lambda>source. field (es_counts source)) m"

definition accounted :: "expectSession \<Rightarrow> bool" where
  "accounted s \<longleftrightarrow>
     flows_sum (ss_flows s) + sources_sum (ss_sources s) \<le> field (shown_counts (ss_emitted s)) \<and>
     (ss_untracked s = 0 \<longrightarrow>
        flows_sum (ss_flows s) + sources_sum (ss_sources s) = field (shown_counts (ss_emitted s)))"

lemma flows_put_old:
  "map_ok m \<Longrightarrow> map_get m k = Some fl \<Longrightarrow>
   flows_sum (map_put k fl' m) + field (flow_counts fl) = flows_sum m + field (flow_counts fl')"
  unfolding flows_sum_def by (rule gm.total_put_old)

lemma flows_put_new: "map_get m k = None \<Longrightarrow> flows_sum (map_put k fl m) = flows_sum m + field (flow_counts fl)"
  unfolding flows_sum_def by (rule gm.total_put_new)

lemma flows_del: "map_ok m \<Longrightarrow> map_get m k = Some fl \<Longrightarrow> flows_sum (map_del k m) + field (flow_counts fl) = flows_sum m"
  unfolding flows_sum_def by (rule gm.total_del)

lemma sources_put_old:
  "map_ok m \<Longrightarrow> map_get m key = Some old \<Longrightarrow>
   sources_sum (map_put key source m) + field (es_counts old) = sources_sum m + field (es_counts source)"
  unfolding sources_sum_def by (rule gm.total_put_old)

lemma sources_put_new: "map_get m key = None \<Longrightarrow> sources_sum (map_put key source m) = sources_sum m + field (es_counts source)"
  unfolding sources_sum_def by (rule gm.total_put_new)

lemma flows_put_same:
  "map_ok m \<Longrightarrow> map_get m k = Some fl \<Longrightarrow> flow_counts fl' = flow_counts fl \<Longrightarrow> flows_sum (map_put k fl' m) = flows_sum m"
  using flows_put_old [of m k fl fl'] by simp

lemma sources_put_same:
  "map_ok m \<Longrightarrow> map_get m key = Some old \<Longrightarrow> es_counts source = es_counts old \<Longrightarrow> sources_sum (map_put key source m) = sources_sum m"
  using sources_put_old [of m key old source] by simp

lemma absorb_counts: "field (es_counts (source_absorb fl drops source)) = field (es_counts source) + field (flow_counts fl)"
  by (simp add: source_absorb_def field_add)

lemma finish_accounted:
  assumes wf: "session_wf s" and fl: "map_get (ss_flows s) k = Some fl" and s: "accounted s"
  shows "accounted (session_finish env fl s)"
proof -
  note facts = wf_facts [OF wf]
  have key: "ef_key fl = k" by (rule facts(5) [OF fl])
  have del: "flows_sum (map_del k (ss_flows s)) + field (flow_counts fl) = flows_sum (ss_flows s)"
    by (rule flows_del [OF facts(1) fl])
  show ?thesis
  proof (cases "map_get (ss_sources s) (flow_source_key fl)")
    case (Some source)
    have "\<And>drops. sources_sum (map_put (flow_source_key fl) (source_absorb fl drops source) (ss_sources s)) =
        sources_sum (ss_sources s) + field (flow_counts fl)"
      using sources_put_old [OF facts(2) Some, of "source_absorb fl _ source"] by (auto simp: absorb_counts)
    with s del show ?thesis
      by (auto simp: accounted_def session_finish_def key Some Let_def split: option.split)
  next
    case None
    have "\<And>drops. sources_sum (map_put (flow_source_key fl)
          (source_absorb fl drops (new_source env (flow_source_key fl) (sk_iface (flow_source_key fl)))) (ss_sources s)) =
        sources_sum (ss_sources s) + field (flow_counts fl)"
      using sources_put_new [OF None] by (simp add: absorb_counts new_source_def field_zero)
    with s del show ?thesis
      by (auto simp: accounted_def session_finish_def key None Let_def split: option.split)
  qed
qed

lemma release_reason_sources:
  assumes wf: "session_wf s"
  shows "sources_sum (ss_sources (release_reason env key entry s)) = sources_sum (ss_sources s)"
  by (auto simp: release_reason_def new_source_def field_zero Let_def sources_put_new
      intro!: sources_put_same [OF wf_facts(2) [OF wf]] split: option.split prod.split)

lemma release_accounted:
  assumes wf: "session_wf s" and s: "accounted s"
  shows "accounted (session_releaseDrops env k pending s)"
proof -
  have "session_wf (fold (release_reason env key) entries t) \<and>
      accounted (fold (release_reason env key) entries t)" if "session_wf t \<and> accounted t" for key entries t
    using that
    by (rule fold_invariant)
      (auto simp: accounted_def release_reason_frame release_reason_sources intro: wf_release_reason)
  moreover have "session_wf (s\<lparr>ss_pendingDrops := map_del k (ss_pendingDrops s)\<rparr>)"
    using wf by (auto simp: session_wf_def map_laws)
  ultimately show ?thesis using s unfolding session_releaseDrops_def by (auto simp: accounted_def)
qed

lemma step_accounted:
  assumes "expect_step env input d s s'" and wf: "session_wf s" and s: "accounted s"
  shows "accounted s'"
  using assms(1)
proof (cases rule: expect_step.cases)
  case (quiet es)
  then show ?thesis using s by (simp add: accounted_def becomes_def shown_counts_append)
next
  case (flow k fl fl' es)
  show ?thesis
    using s flow flows_put_old [OF wf_facts(1) [OF wf] flow(2), of fl']
    by (auto simp: accounted_def becomes_def shown_counts_append field_add)
next
  case (opened p es)
  show ?thesis
    using s opened flows_put_new [OF opened(4)] by (auto simp: accounted_def becomes_def shown_counts_append field_add)
next
  case (absorbed k fl pending es)
  show ?thesis
    using s absorbed flows_put_same [OF wf_facts(1) [OF wf] absorbed(2), of "fl\<lparr>ef_drops := pd_reasons pending\<rparr>"]
    by (auto simp: accounted_def becomes_def shown_counts_append flow_counts_drops)
next
  case refused
  then show ?thesis using s by (simp add: accounted_def becomes_def)
next
  case (finished k fl)
  then show ?thesis using finish_accounted [OF wf _ s] by simp
next
  case (released k pending)
  then show ?thesis using release_accounted [OF wf s] by simp
next
  case (dropped_flow k fl reason es)
  show ?thesis
    using s dropped_flow flows_put_same [OF wf_facts(1) [OF wf] dropped_flow(2), of "fl\<lparr>ef_drops := map_bump reason 1 (ef_drops fl)\<rparr>"]
    by (auto simp: accounted_def becomes_def shown_counts_append flow_counts_drops)
next
  case (dropped_other reason es)
  then show ?thesis using s by (simp add: accounted_def becomes_def shown_counts_append)
next
  case (dropped_pending old k moment p' reason ds es)
  then show ?thesis using s by (simp add: accounted_def becomes_def shown_counts_append)
qed

lemma steps_accounted: "expect_steps env input n s s' \<Longrightarrow> session_wf s \<Longrightarrow> accounted s \<Longrightarrow> accounted s'"
  by (induction rule: expect_steps.induct) (auto dest: wf_step step_accounted)

lemma run_accounted: "session_wf s \<Longrightarrow> accounted s \<Longrightarrow> accounted (session_run inputs s)"
proof (induction inputs rule: rev_induct)
  case (snoc i inputs)
  show ?case
    using steps_accounted [OF session_input_steps [OF wf_run [OF snoc.prems(1)]] wf_run [OF snoc.prems(1)] snoc.IH [OF snoc.prems]]
    by (cases i) (simp add: session_run_snoc)
qed (simp add: session_run_def)

end

interpretation attempts: count_field ct_attempts by unfold_locales (simp_all add: expect_counts_add_def expect_counts0_def)
interpretation synIn: count_field ct_synIn by unfold_locales (simp_all add: expect_counts_add_def expect_counts0_def)
interpretation synRetransmits: count_field ct_synRetransmits by unfold_locales (simp_all add: expect_counts_add_def expect_counts0_def)
interpretation synAckOut: count_field ct_synAckOut by unfold_locales (simp_all add: expect_counts_add_def expect_counts0_def)
interpretation synAckRetransmits: count_field ct_synAckRetransmits by unfold_locales (simp_all add: expect_counts_add_def expect_counts0_def)
interpretation rstOut: count_field ct_rstOut by unfold_locales (simp_all add: expect_counts_add_def expect_counts0_def)
interpretation rstIn: count_field ct_rstIn by unfold_locales (simp_all add: expect_counts_add_def expect_counts0_def)
interpretation handshakes: count_field ct_handshakes by unfold_locales (simp_all add: expect_counts_add_def expect_counts0_def)

subsection \<open>The result\<close>

lemma finish_emitted: "ss_emitted (session_finish env fl s) = ss_emitted s"
  by (auto simp: session_finish_def Let_def split: option.splits)

lemma result_finish_steps: "expect_steps env input 0 s (result_finish env k s)"
  by (auto simp: result_finish_def expect_steps.none intro: one_step expect_step.finished split: option.split)

lemma result_release_steps: "expect_steps env input 0 s (result_release env k s)"
  by (auto simp: result_release_def expect_steps.none intro: one_step expect_step.released split: option.split)

lemma release_frame:
  "ss_flows (session_releaseDrops env k p s) = ss_flows s \<and> ss_emitted (session_releaseDrops env k p s) = ss_emitted s \<and>
   ss_untracked (session_releaseDrops env k p s) = ss_untracked s \<and>
   ss_pendingDrops (session_releaseDrops env k p s) = map_del k (ss_pendingDrops s)"
proof -
  have "ss_flows (fold (release_reason env key) entries t) = ss_flows t \<and>
      ss_emitted (fold (release_reason env key) entries t) = ss_emitted t \<and>
      ss_untracked (fold (release_reason env key) entries t) = ss_untracked t \<and>
      ss_pendingDrops (fold (release_reason env key) entries t) = ss_pendingDrops t" for key entries t
    by (induction entries arbitrary: t) (simp_all add: release_reason_frame)
  then show ?thesis by (simp add: session_releaseDrops_def)
qed

lemma result_fold_steps:
  assumes wf: "session_wf s"
  shows "expect_steps env input 0 s (result_fold env o1 o2 s)"
proof -
  let ?s1 = "fold (result_finish env) (map_range o1 (ss_flows s)) s"
  have s1: "expect_steps env input 0 s ?s1" by (rule fold_steps [OF wf result_finish_steps])
  have "expect_steps env input 0 ?s1 (fold (result_release env) (map_range o2 (ss_pendingDrops ?s1)) ?s1)"
    by (rule fold_steps [OF wf_steps [OF s1 wf] result_release_steps])
  then show ?thesis using steps_trans [OF s1] by (simp add: result_fold_def Let_def)
qed

lemma map_empty: "(\<And>k. map_get m k = None) \<Longrightarrow> m = []"
proof -
  assume "\<And>k. map_get m k = None"
  then have "map_of m = Map.empty" by (simp add: map_get_def fun_eq_iff)
  then show ?thesis by simp
qed

lemma fold_result_finish:
  "session_wf s \<Longrightarrow> map_get (ss_flows (fold (result_finish env) ks s)) k =
     (if k \<in> set ks then None else map_get (ss_flows s) k) \<and> ss_emitted (fold (result_finish env) ks s) = ss_emitted s"
proof (induction ks arbitrary: s)
  case (Cons j ks)
  have "map_get (ss_flows (result_finish env j s)) k = (if k = j then None else map_get (ss_flows s) k) \<and>
      ss_emitted (result_finish env j s) = ss_emitted s"
    using wf_facts(1,5) [OF Cons.prems]
    by (auto simp: result_finish_def finish_frame finish_emitted gm.get_del split: option.split)
  with Cons.IH [OF wf_steps [OF result_finish_steps Cons.prems]] show ?case by auto
qed simp

lemma fold_result_release:
  "ss_flows (fold (result_release env) ks s) = ss_flows s \<and> ss_emitted (fold (result_release env) ks s) = ss_emitted s \<and>
   (map_ok (ss_pendingDrops s) \<longrightarrow> map_get (ss_pendingDrops (fold (result_release env) ks s)) k =
      (if k \<in> set ks then None else map_get (ss_pendingDrops s) k))"
proof (induction ks arbitrary: s)
  case (Cons j ks)
  have "ss_flows (result_release env j s) = ss_flows s \<and> ss_emitted (result_release env j s) = ss_emitted s \<and>
      (map_ok (ss_pendingDrops s) \<longrightarrow> map_ok (ss_pendingDrops (result_release env j s)) \<and>
       map_get (ss_pendingDrops (result_release env j s)) k = (if k = j then None else map_get (ss_pendingDrops s) k))"
    by (auto simp: result_release_def release_frame gm.get_del gm.ok_del split: option.split)
  with Cons.IH [of "result_release env j s"] show ?case by auto
qed simp

text \<open>After the fold every attempt and every pending drop has gone into a source or has been counted apart.\<close>

lemma result_fold_empty:
  assumes wf: "session_wf s"
  shows "ss_flows (result_fold env o1 o2 s) = [] \<and> ss_pendingDrops (result_fold env o1 o2 s) = [] \<and>
    ss_emitted (result_fold env o1 o2 s) = ss_emitted s"
proof -
  let ?s1 = "fold (result_finish env) (map_range o1 (ss_flows s)) s"
  have wf1: "session_wf ?s1" by (rule wf_steps [OF fold_steps [OF wf result_finish_steps] wf])
  have flows: "ss_flows ?s1 = []"
    using fold_result_finish [OF wf, of env "map_range o1 (ss_flows s)"] map_range_keys [OF wf_facts(1) [OF wf], of o1]
    by (intro map_empty) auto
  have "ss_pendingDrops (fold (result_release env) (map_range o2 (ss_pendingDrops ?s1)) ?s1) = []"
    using fold_result_release [of env "map_range o2 (ss_pendingDrops ?s1)" ?s1] wf_facts(3) [OF wf1]
      map_range_keys [OF wf_facts(3) [OF wf1], of o2]
    by (intro map_empty) auto
  then show ?thesis
    using flows fold_result_finish [OF wf] fold_result_release by (simp add: result_fold_def Let_def)
qed

text \<open>The rows of the result hold all sources, and only the routes change while they are made.\<close>

lemma lookupRoute_frame:
  "ss_sources (snd (session_lookupRoute env key s)) = ss_sources s \<and> ss_otherDrops (snd (session_lookupRoute env key s)) = ss_otherDrops s \<and>
   ss_untracked (snd (session_lookupRoute env key s)) = ss_untracked s"
  by (auto simp: session_lookupRoute_def Let_def split: option.split)

lemma result_rows_frame:
  "ss_sources (snd (result_rows env i entries s)) = ss_sources s \<and> ss_otherDrops (snd (result_rows env i entries s)) = ss_otherDrops s \<and>
   ss_untracked (snd (result_rows env i entries s)) = ss_untracked s \<and>
   length (fst (result_rows env i entries s)) = length entries"
proof (induction entries arbitrary: i s)
  case (Cons entry entries)
  then show ?case by (cases entry) (simp add: case_prod_unfold Let_def lookupRoute_frame)
qed simp

definition result_base where
  "result_base env o1 o2 o3 s = result_sources o3 (result_fold env o1 o2 s)"

lemma session_result_fields:
  assumes "session_result env o1 o2 o3 o4 reason s = (r, s')"
  shows "er_totals r = result_totals (result_base env o1 o2 o3 s) \<and>
    er_untracked r = ss_untracked (result_fold env o1 o2 s) \<and> er_otherDrops r = ss_otherDrops (result_fold env o1 o2 s) \<and>
    ss_sources s' = ss_sources (result_fold env o1 o2 s) \<and>
    er_exit r = expectExitCode (fst (result_rows env 0 (sort_by source_before (result_base env o1 o2 o3 s)) (result_fold env o1 o2 s))) reason \<and>
    length (er_sources r) \<le> expectSourceLimit"
proof -
  let ?s1 = "result_fold env o1 o2 s"
  obtain sources s2 where rows: "result_rows env 0 (sort_by source_before (result_base env o1 o2 o3 s)) ?s1 = (sources, s2)"
    by (cases "result_rows env 0 (sort_by source_before (result_base env o1 o2 o3 s)) ?s1") auto
  obtain verdict lead where verdict: "expectOverallVerdict sources = (verdict, lead)" by (cases "expectOverallVerdict sources") auto
  let ?last = "if sources = [] \<and> ss_from s2 \<noteq> NoPrefix \<and> prefixIsSingleIP (ss_from s2)
    then session_lookupRoute env (client_key s2) s2 else (None, s2)"
  obtain fromReturn s3 where last: "?last = (fromReturn, s3)" by (cases ?last) auto
  have "ss_sources s2 = ss_sources ?s1 \<and> ss_otherDrops s2 = ss_otherDrops ?s1 \<and> ss_untracked s2 = ss_untracked ?s1"
    using result_rows_frame [of env 0 "sort_by source_before (result_base env o1 o2 o3 s)" ?s1] rows by simp
  moreover have "ss_sources s3 = ss_sources s2 \<and> ss_otherDrops s3 = ss_otherDrops s2 \<and> ss_untracked s3 = ss_untracked s2"
    using last lookupRoute_frame [of env "client_key s2" s2] by (auto split: if_splits)
  ultimately show ?thesis
    using assms unfolding session_result_def
    by (simp only: Let_def result_base_def [symmetric] rows verdict last prod.case) auto
qed

lemma result_sources_entries:
  assumes "map_ok (ss_sources s)"
  shows "distinct (map fst (result_sources order s)) \<and> set (result_sources order s) = {(k, v). map_get (ss_sources s) k = Some v}"
proof -
  have "result_sources order s = map (\<lambda>k. (k, the (map_get (ss_sources s) k))) (map_range order (ss_sources s))"
    using map_range_keys [OF assms, of order] unfolding result_sources_def List.map_filter_def
    by (auto intro!: filter_True simp: filter_id_conv)
  then show ?thesis
    using map_range_keys [OF assms, of order] by (auto simp: comp_def image_iff)
qed

lemma map_total_entries:
  assumes "map_ok m" and "distinct (map fst entries)" and "set entries = {(k, v). map_get m k = Some v}"
  shows "map_total f m = (\<Sum>(k, v) \<leftarrow> entries. f v)"
proof -
  have "set m = set entries"
    using assms(1,3) by (auto simp: map_ok_def map_get_def)
  moreover have "distinct m" "distinct entries" using assms(1,2) by (simp_all add: map_ok_def distinct_map)
  ultimately have "mset m = mset entries" by (simp add: set_eq_iff_mset_eq_distinct)
  then have "mset (map (\<lambda>(k, v). f v) m) = mset (map (\<lambda>(k, v). f v) entries)" by simp
  then show ?thesis unfolding map_total_def by (metis sum_mset_sum_list)
qed

subsection \<open>Every drop is accounted for\<close>

definition reasons_total :: "(bytes, nat) gomap \<Rightarrow> nat" where
  "reasons_total m = map_total (\<lambda>n. n) m"

definition drops_held :: "expectSession \<Rightarrow> nat" where
  "drops_held s =
     map_total (\<lambda>fl. reasons_total (ef_drops fl)) (ss_flows s) + map_total (\<lambda>p. reasons_total (pd_reasons p)) (ss_pendingDrops s) +
     map_total (\<lambda>source. reasons_total (es_drops source)) (ss_sources s) + reasons_total (ss_otherDrops s)"

text \<open>A step that takes in \<open>d\<close> drops holds that many more, unless an attempt goes untracked.\<close>

definition drops_flow :: "nat \<Rightarrow> expectSession \<Rightarrow> expectSession \<Rightarrow> bool" where
  "drops_flow d s s' \<longleftrightarrow>
     ss_untracked s \<le> ss_untracked s' \<and> drops_held s' \<le> drops_held s + d \<and>
     (ss_untracked s' = ss_untracked s \<longrightarrow> drops_held s' = drops_held s + d)"

lemma reasons_bump: "map_ok m \<Longrightarrow> reasons_total (map_bump r n m) = reasons_total m + n"
  by (simp add: reasons_total_def map_bump_total)

lemma reasons_merge: "map_ok m \<Longrightarrow> reasons_total (map_merge m other) = reasons_total m + reasons_total other"
  by (simp add: reasons_total_def map_merge_total)

lemma reasons_nil [simp]: "reasons_total [] = 0"
  by (simp add: reasons_total_def map_total_def)

lemma flow_drops_put:
  "map_ok m \<Longrightarrow> map_get m k = Some fl \<Longrightarrow>
   map_total (\<lambda>fl. reasons_total (ef_drops fl)) (map_put k fl' m) + reasons_total (ef_drops fl) =
   map_total (\<lambda>fl. reasons_total (ef_drops fl)) m + reasons_total (ef_drops fl')"
  by (rule gm.total_put_old)

lemma source_drops_put:
  assumes "map_ok m"
  shows "map_total (\<lambda>source. reasons_total (es_drops source)) (map_put key source m) +
      (case map_get m key of None \<Rightarrow> 0 | Some old \<Rightarrow> reasons_total (es_drops old)) =
    map_total (\<lambda>source. reasons_total (es_drops source)) m + reasons_total (es_drops source)"
  using gm.total_put_old [OF assms] gm.total_put_new [of m key] by (cases "map_get m key") auto

lemma pending_drops_del:
  "map_ok m \<Longrightarrow> map_get m k = Some p \<Longrightarrow>
   map_total (\<lambda>p. reasons_total (pd_reasons p)) (map_del k m) + reasons_total (pd_reasons p) =
   map_total (\<lambda>p. reasons_total (pd_reasons p)) m"
  by (rule gm.total_del)

lemma finish_drops:
  assumes wf: "session_wf s" and fl: "map_get (ss_flows s) k = Some fl"
  shows "drops_flow 0 s (session_finish env fl s)"
proof -
  note facts = wf_facts [OF wf]
  have key: "ef_key fl = k" by (rule facts(5) [OF fl])
  have flows: "map_total (\<lambda>fl. reasons_total (ef_drops fl)) (map_del k (ss_flows s)) + reasons_total (ef_drops fl) =
      map_total (\<lambda>fl. reasons_total (ef_drops fl)) (ss_flows s)"
    by (rule gm.total_del [OF facts(1) fl])
  have sources: "map_total (\<lambda>source. reasons_total (es_drops source))
        (map_put (flow_source_key fl) (source_absorb fl drops source) (ss_sources s)) =
      map_total (\<lambda>source. reasons_total (es_drops source)) (ss_sources s) + reasons_total drops"
    if "case map_get (ss_sources s) (flow_source_key fl) of None \<Rightarrow> es_drops source = [] | Some old \<Rightarrow> source = old" for source drops
  proof -
    have "map_ok (es_drops source)" using that facts(7) by (auto split: option.splits)
    then show ?thesis
      using that source_drops_put [OF facts(2), of "flow_source_key fl" "source_absorb fl drops source"]
      by (auto simp: source_absorb_def reasons_merge split: option.splits)
  qed
  have merged: "reasons_total (map_merge (ef_drops fl) other) = reasons_total (ef_drops fl) + reasons_total other" for other
    by (rule reasons_merge) (rule facts(6) [OF fl])
  show ?thesis
  proof (cases "map_get (ss_pendingDrops s) k")
    case None
    then show ?thesis
      using flows sources
      by (auto simp: drops_flow_def drops_held_def session_finish_def key new_source_def Let_def split: option.splits)
  next
    case (Some p)
    then show ?thesis
      using flows sources merged [of "pd_reasons p"] pending_drops_del [OF facts(3) Some]
      by (auto simp: drops_flow_def drops_held_def session_finish_def key new_source_def Let_def split: option.splits)
  qed
qed

lemma release_reason_drops:
  assumes wf: "session_wf s"
  shows "drops_held (release_reason env key entry s) = drops_held s + snd entry"
proof -
  note facts = wf_facts [OF wf]
  obtain reason n where entry: "entry = (reason, n)" by (cases entry)
  show ?thesis
  proof (cases "map_get (ss_sources s) key")
    case None
    show ?thesis
      using None source_drops_put [OF facts(2), of key "(new_source env key ''-'')\<lparr>es_drops := map_bump reason n []\<rparr>"]
      by (auto simp: drops_held_def release_reason_def new_source_def entry reasons_bump facts(4) Let_def)
  next
    case (Some source)
    show ?thesis
      using Some facts(7) [OF Some] source_drops_put [OF facts(2), of key "source\<lparr>es_drops := map_bump reason n (es_drops source)\<rparr>"]
      by (auto simp: drops_held_def release_reason_def entry reasons_bump facts(4) Let_def)
  qed
qed

lemma fold_release_drops:
  "session_wf s \<Longrightarrow> drops_held (fold (release_reason env key) entries s) = drops_held s + (\<Sum>(r, n) \<leftarrow> entries. n)"
  by (induction entries arbitrary: s) (auto simp: release_reason_drops wf_release_reason)

lemma release_drops:
  assumes wf: "session_wf s" and p: "map_get (ss_pendingDrops s) k = Some p"
  shows "drops_flow 0 s (session_releaseDrops env k p s)"
proof -
  note facts = wf_facts [OF wf]
  let ?s = "s\<lparr>ss_pendingDrops := map_del k (ss_pendingDrops s)\<rparr>"
  have "session_wf ?s" using facts by (auto simp: session_wf_def map_laws)
  then have "drops_held (session_releaseDrops env k p s) = drops_held ?s + reasons_total (pd_reasons p)"
    unfolding session_releaseDrops_def by (simp add: fold_release_drops reasons_total_def map_total_def)
  also have "\<dots> = drops_held s"
    using pending_drops_del [OF facts(3) p] by (simp add: drops_held_def)
  finally show ?thesis using release_frame [of env k p s] by (simp add: drops_flow_def)
qed

lemma step_drops:
  assumes "expect_step env input d s s'" and wf: "session_wf s"
  shows "drops_flow d s s'"
  using assms(1)
proof (cases rule: expect_step.cases)
  case (flow k fl fl' es)
  then show ?thesis
    using flow_drops_put [OF wf_facts(1) [OF wf] flow(2), of fl']
    by (auto simp: drops_flow_def drops_held_def becomes_def same_attempt_def)
next
  case (opened p es)
  then show ?thesis
    using gm.total_put_new [OF opened(4), of "\<lambda>fl. reasons_total (ef_drops fl)" "new_flow p"]
    by (auto simp: drops_flow_def drops_held_def becomes_def new_flow_def)
next
  case (absorbed k fl pending es)
  then show ?thesis
    using flow_drops_put [OF wf_facts(1) [OF wf] absorbed(2), of "fl\<lparr>ef_drops := pd_reasons pending\<rparr>"]
      pending_drops_del [OF wf_facts(3) [OF wf] absorbed(4)]
    by (auto simp: drops_flow_def drops_held_def becomes_def)
next
  case (finished k fl)
  then show ?thesis using finish_drops [OF wf] by simp
next
  case (released k pending)
  then show ?thesis using release_drops [OF wf] by simp
next
  case (dropped_flow k fl reason es)
  then show ?thesis
    using flow_drops_put [OF wf_facts(1) [OF wf] dropped_flow(2), of "fl\<lparr>ef_drops := map_bump reason 1 (ef_drops fl)\<rparr>"]
      reasons_bump [OF wf_facts(6) [OF wf dropped_flow(2)], of reason 1]
    by (auto simp: drops_flow_def drops_held_def becomes_def)
next
  case (dropped_other reason es)
  then show ?thesis
    using reasons_bump [OF wf_facts(4) [OF wf], of reason 1] by (auto simp: drops_flow_def drops_held_def becomes_def)
next
  case (dropped_pending old k moment p' reason ds es)
  have "map_total (\<lambda>p. reasons_total (pd_reasons p)) (map_put k p' (ss_pendingDrops s)) =
      map_total (\<lambda>p. reasons_total (pd_reasons p)) (ss_pendingDrops s) + 1"
  proof (cases "map_get (ss_pendingDrops s) k")
    case None
    then show ?thesis
      using dropped_pending(2,3) gm.total_put_new [OF None, of "\<lambda>p. reasons_total (pd_reasons p)" p']
      by (simp add: reasons_bump)
  next
    case (Some p)
    then show ?thesis
      using dropped_pending(2,3) gm.total_put_old [OF wf_facts(3) [OF wf] Some, of "\<lambda>p. reasons_total (pd_reasons p)" p']
        wf_facts(8) [OF wf Some]
      by (simp add: reasons_bump)
  qed
  then show ?thesis using dropped_pending by (auto simp: drops_flow_def drops_held_def becomes_def)
qed (auto simp: drops_flow_def drops_held_def becomes_def)

lemma steps_drops: "expect_steps env input n s s' \<Longrightarrow> session_wf s \<Longrightarrow> drops_flow n s s'"
proof (induction rule: expect_steps.induct)
  case (step d s s' n s'')
  have "drops_flow d s s'" "drops_flow n s' s''"
    using step_drops [OF step.hyps(1) step.prems] step.IH [OF wf_step [OF step.hyps(1) step.prems]] by simp_all
  then show ?case by (auto simp: drops_flow_def)
qed (simp add: drops_flow_def)

text \<open>The drops that a run takes in.\<close>

fun run_drops :: "(expectEnv \<times> expectInput) list \<Rightarrow> expectSession \<Rightarrow> nat" where
  "run_drops [] s = 0"
| "run_drops (i # inputs) s = drop_taken (fst i) (snd i) s + run_drops inputs (session_input i s)"

lemma run_drops_flow: "session_wf s \<Longrightarrow> drops_flow (run_drops inputs s) s (session_run inputs s)"
proof (induction inputs arbitrary: s)
  case (Cons i inputs)
  have "drops_flow (drop_taken (fst i) (snd i) s) s (session_input i s)"
    using steps_drops [OF session_input_steps [OF Cons.prems] Cons.prems, of "fst i" "snd i"] by simp
  moreover have "drops_flow (run_drops inputs (session_input i s)) (session_input i s) (session_run inputs (session_input i s))"
    by (rule Cons.IH) (rule wf_input [OF Cons.prems])
  ultimately show ?case by (auto simp: drops_flow_def session_run_def)
qed (simp add: session_run_def drops_flow_def)

subsection \<open>What the result adds up\<close>


definition counts_le :: "expectCounts \<Rightarrow> expectCounts \<Rightarrow> bool" where
  "counts_le a b \<longleftrightarrow>
     ct_attempts a \<le> ct_attempts b \<and> ct_synIn a \<le> ct_synIn b \<and> ct_synRetransmits a \<le> ct_synRetransmits b \<and>
     ct_synAckOut a \<le> ct_synAckOut b \<and> ct_synAckRetransmits a \<le> ct_synAckRetransmits b \<and> ct_rstOut a \<le> ct_rstOut b \<and>
     ct_rstIn a \<le> ct_rstIn b \<and> ct_handshakes a \<le> ct_handshakes b"

context count_field
begin

lemma totals_field: "field (result_totals entries) = (\<Sum>(key, source) \<leftarrow> entries. field (es_counts source))"
proof -
  have "field (fold (\<lambda>(key, source) totals. expect_counts_add totals (es_counts source)) entries t) =
      field t + (\<Sum>(key, source) \<leftarrow> entries. field (es_counts source))" for t
    by (induction entries arbitrary: t) (auto simp: field_add)
  then show ?thesis by (simp add: result_totals_def field_zero)
qed

lemma result_field:
  assumes wf: "session_wf s" and s: "accounted s"
  shows "field (result_totals (result_base env o1 o2 o3 s)) \<le> field (shown_counts (ss_emitted s)) \<and>
    (ss_untracked (result_fold env o1 o2 s) = 0 \<longrightarrow>
       field (result_totals (result_base env o1 o2 o3 s)) = field (shown_counts (ss_emitted s)))"
proof -
  let ?final = "result_fold env o1 o2 s"
  have wf1: "session_wf ?final" and s1: "accounted ?final"
    using wf_steps [OF result_fold_steps [OF wf] wf] steps_accounted [OF result_fold_steps [OF wf] wf s] by blast+
  have "field (result_totals (result_base env o1 o2 o3 s)) = sources_sum (ss_sources ?final)"
    using map_total_entries [OF wf_facts(2) [OF wf1], of "result_sources o3 ?final" "\<lambda>source. field (es_counts source)"]
      result_sources_entries [OF wf_facts(2) [OF wf1], of o3]
    by (simp add: totals_field result_base_def sources_sum_def)
  moreover have "flows_sum (ss_flows ?final) = 0" using result_fold_empty [OF wf] by (simp add: flows_sum_def map_total_def)
  ultimately show ?thesis using s1 result_fold_empty [OF wf, of env o1 o2] by (simp add: accounted_def)
qed

lemma begin_accounted: "accounted (session_begin port from verbose until stopAfter)"
  by (simp add: accounted_def session_begin_def newExpectSession_def flows_sum_def sources_sum_def map_total_def field_zero)

lemmas result_run_field = result_field [OF wf_run [OF wf_begin] run_accounted [OF wf_begin begin_accounted]]

end


subsection \<open>A completed source has had its handshake\<close>

text \<open>
  Packets of a run: a SYN towards \<open>k\<close> with sequence number \<open>isn\<close>, and a handshake, which is such a
  SYN and later the ACK with the next number.
\<close>

definition syn_seen :: "expectInput list \<Rightarrow> expectFlowKey \<Rightarrow> u32 \<Rightarrow> bool" where
  "syn_seen history k isn \<longleftrightarrow> (\<exists>p. PacketRead p \<in> set history \<and> is_syn p \<and> packet_key p = k \<and> pk_seq p = isn)"

definition handshake_seen :: "expectInput list \<Rightarrow> expectFlowKey \<Rightarrow> bool" where
  "handshake_seen history k \<longleftrightarrow>
     (\<exists>before q after. history = before @ PacketRead q # after \<and> is_ack q \<and> packet_key q = k \<and> syn_seen before k (pk_seq q - 1))"

definition evident :: "expectInput list \<Rightarrow> expectSession \<Rightarrow> bool" where
  "evident history s \<longleftrightarrow>
     (\<forall>k fl. map_get (ss_flows s) k = Some fl \<longrightarrow> syn_seen history k (ef_isn fl) \<and> (ef_completed fl \<longrightarrow> handshake_seen history k)) \<and>
     (\<forall>key source. map_get (ss_sources s) key = Some source \<longrightarrow> 0 < ct_handshakes (es_counts source) \<longrightarrow>
        (\<exists>k. handshake_seen history k \<and> ap_addr (fk_remote k) = sk_remote key \<and> ap_addr (fk_local k) = sk_local key))"

lemma seen_more:
  "syn_seen history k isn \<Longrightarrow> syn_seen (history @ others) k isn"
  "handshake_seen history k \<Longrightarrow> handshake_seen (history @ others) k"
  by (auto simp: syn_seen_def handshake_seen_def) (metis append.assoc append_Cons)

lemma evident_more: "evident history s \<Longrightarrow> evident (history @ others) s"
  unfolding evident_def using seen_more by metis

lemma ack_completes:
  assumes "is_ack q" "syn_seen (history @ [PacketRead q]) (packet_key q) (pk_seq q - 1)"
  shows "handshake_seen (history @ [PacketRead q]) (packet_key q)"
proof -
  have "\<not> is_syn q" using assms(1) by (simp add: is_ack_def is_syn_def)
  then have "syn_seen history (packet_key q) (pk_seq q - 1)" using assms(2) by (auto simp: syn_seen_def)
  then show ?thesis using assms(1) by (auto simp: handshake_seen_def)
qed

lemma evident_flow:
  assumes e: "evident history s" and b: "becomes s s' (map_put k fl (ss_flows s)) (ss_sources s) P D U es"
    and new: "syn_seen history k (ef_isn fl)" "ef_completed fl \<Longrightarrow> handshake_seen history k"
  shows "evident history s'"
  using e b new by (auto simp: evident_def becomes_def map_get_Some)

lemma evident_finish:
  assumes wf: "session_wf s" and fl: "map_get (ss_flows s) k = Some fl" and e: "evident history s"
  shows "evident history (session_finish env fl s)"
proof -
  note facts = wf_facts [OF wf]
  have key: "ef_key fl = k" by (rule facts(5) [OF fl])
  have sources: "\<exists>k'. handshake_seen history k' \<and> ap_addr (fk_remote k') = sk_remote (flow_source_key fl) \<and>
        ap_addr (fk_local k') = sk_local (flow_source_key fl)"
    if "0 < ct_handshakes (es_counts (source_absorb fl drops source))"
      "0 < ct_handshakes (es_counts source) \<Longrightarrow> map_get (ss_sources s) (flow_source_key fl) = Some source" for drops source
  proof (cases "0 < ct_handshakes (es_counts source)")
    case True
    then show ?thesis using e that(2) by (auto simp: evident_def)
  next
    case False
    then have "ef_completed fl" using that(1) by (simp add: source_absorb_def expect_counts_add_def flow_counts_def split: if_splits)
    then have "handshake_seen history k" using e fl by (simp add: evident_def)
    then show ?thesis using key by (intro exI [of _ k]) (simp add: flow_source_key_def)
  qed
  have fresh: "\<exists>k'. handshake_seen history k' \<and> ap_addr (fk_remote k') = sk_remote (flow_source_key fl) \<and>
        ap_addr (fk_local k') = sk_local (flow_source_key fl)"
    if "0 < ct_handshakes (es_counts (source_absorb fl drops (new_source env x y)))" for drops x y
    by (rule sources [OF that]) (simp add: new_source_def expect_counts0_def)
  show ?thesis
    using e facts(1) sources fresh unfolding evident_def
    by (auto simp: session_finish_def key map_get_Some Let_def split: option.splits)
qed

lemma evident_release:
  assumes "evident history s"
  shows "evident history (session_releaseDrops env k p s)"
  unfolding session_releaseDrops_def
proof (rule fold_invariant)
  show "evident history (s\<lparr>ss_pendingDrops := map_del k (ss_pendingDrops s)\<rparr>)" using assms by (simp add: evident_def)
next
  fix entry s
  let ?key = "\<lparr>sk_remote = ap_addr (fk_remote k), sk_local = ap_addr (fk_local k), sk_iface = []\<rparr>"
  assume e: "evident history s"
  then have "map_get (ss_sources s) ?key = Some source \<Longrightarrow> 0 < ct_handshakes (es_counts source) \<Longrightarrow>
      \<exists>k'. handshake_seen history k' \<and> ap_addr (fk_remote k') = ap_addr (fk_remote k) \<and> ap_addr (fk_local k') = ap_addr (fk_local k)" for source
    by (fastforce simp: evident_def)
  with e show "evident history (release_reason env ?key entry s)"
    by (auto simp: evident_def release_reason_def new_source_def expect_counts0_def map_get_Some Let_def
        split: option.splits prod.splits)
qed

lemma evident_step:
  assumes "expect_step env input d s s'" and wf: "session_wf s" and e: "evident (history @ [input]) s"
  shows "evident (history @ [input]) s'"
  using assms(1)
proof (cases rule: expect_step.cases)
  case (flow k fl fl' es)
  have old: "syn_seen (history @ [input]) k (ef_isn fl)" "ef_completed fl \<Longrightarrow> handshake_seen (history @ [input]) k"
    using e flow(2) by (auto simp: evident_def)
  have key: "ef_key fl = k" by (rule wf_facts(5) [OF wf flow(2)])
  have "handshake_seen (history @ [input]) k" if completed: "ef_completed fl'"
  proof (cases "ef_completed fl")
    case True
    then show ?thesis by (rule old(2))
  next
    case False
    then obtain q where "input = PacketRead q" "is_ack q" "packet_key q = k" "pk_seq q = ef_isn fl + 1"
      using completed flow(3) key by (auto simp: same_attempt_def)
    then show ?thesis using ack_completes [of q history] old(1) by simp
  qed
  then show ?thesis
    using old(1) flow(3) by (intro evident_flow [OF e flow(5)]) (simp_all add: same_attempt_def)
next
  case (opened p es)
  have "syn_seen (history @ [input]) (packet_key p) (pk_seq p)" using opened(2,3) by (auto simp: syn_seen_def)
  then show ?thesis by (intro evident_flow [OF e opened(7)]) (simp_all add: new_flow_def)
next
  case (absorbed k fl pending es)
  then show ?thesis using e by (intro evident_flow [OF e absorbed(5)]) (auto simp: evident_def)
next
  case (finished k fl)
  then show ?thesis using evident_finish [OF wf _ e] by simp
next
  case (released k pending)
  then show ?thesis using evident_release [OF e] by simp
next
  case (dropped_flow k fl reason es)
  then show ?thesis using e by (intro evident_flow [OF e dropped_flow(3)]) (auto simp: evident_def)
qed (use e in \<open>auto simp: evident_def becomes_def\<close>)

lemma evident_steps:
  "expect_steps env input n s s' \<Longrightarrow> session_wf s \<Longrightarrow> evident (history @ [input]) s \<Longrightarrow> evident (history @ [input]) s'"
  by (induction rule: expect_steps.induct) (auto dest: wf_step evident_step)

lemma evident_run:
  assumes "session_wf s" and "evident [] s"
  shows "evident (map snd inputs) (session_run inputs s)"
proof (induction inputs rule: rev_induct)
  case Nil
  show ?case using assms(2) by (simp add: session_run_def)
next
  case (snoc i inputs)
  have wf: "session_wf (session_run inputs s)" by (rule wf_run [OF assms(1)])
  have "evident (map snd inputs @ [snd i]) (session_input (fst i, snd i) (session_run inputs s))"
    by (rule evident_steps [OF session_input_steps [OF wf] wf evident_more [OF snoc.IH]])
  then show ?case by (simp add: session_run_snoc)
qed

text \<open>The rows of the result: their counts are those of the sources, and their verdicts follow.\<close>

lemma verdict_completed: "expectVerdict counts drops hidden = expectVerdictCompleted \<longleftrightarrow> 0 < ct_handshakes counts"
  by (auto simp: expectVerdict_def expect_verdicts)

lemma result_rows_verdicts:
  "list_all2 (\<lambda>(key, source) row. es_verdict row = expectVerdictCompleted \<longleftrightarrow> 0 < ct_handshakes (es_counts source))
     entries (fst (result_rows env i entries s))"
proof (induction entries arbitrary: i s)
  case (Cons entry entries)
  then show ?case by (cases entry) (simp add: case_prod_unfold Let_def verdict_completed)
qed simp

lemma exit_success:
  assumes wf: "session_wf s" and result: "session_result env o1 o2 o3 o4 reason s = (r, s')"
  shows "er_exit r = 0 \<longleftrightarrow> ss_sources s' \<noteq> [] \<and>
    (\<forall>key source. map_get (ss_sources s') key = Some source \<longrightarrow> 0 < ct_handshakes (es_counts source))"
proof -
  let ?final = "result_fold env o1 o2 s"
  let ?entries = "sort_by source_before (result_base env o1 o2 o3 s)"
  let ?rows = "fst (result_rows env 0 ?entries ?final)"
  note fields = session_result_fields [OF result]
  have wf1: "session_wf ?final" by (rule wf_steps [OF result_fold_steps [OF wf] wf])
  have "mset (sort_by lt xs) = mset xs" for lt :: "'x \<Rightarrow> 'x \<Rightarrow> bool" and xs
    by (induction xs) (simp_all add: sort_by_def insert_by_mset)
  then have "set ?entries = set (result_base env o1 o2 o3 s)" by (metis set_mset_mset)
  then have entries: "set ?entries = {(k, v). map_get (ss_sources s') k = Some v}"
    using result_sources_entries [OF wf_facts(2) [OF wf1]] fields by (simp add: result_base_def)
  have "?rows = [] \<longleftrightarrow> ?entries = []"
    using result_rows_frame [of env 0 ?entries ?final] by (metis length_0_conv)
  moreover have "?entries = [] \<longleftrightarrow> ss_sources s' = []"
    using entries map_empty [of "ss_sources s'"] by (auto simp: map_get_def)
  moreover have "list_all (\<lambda>row. es_verdict row = expectVerdictCompleted) ?rows \<longleftrightarrow>
      list_all (\<lambda>(key, source). 0 < ct_handshakes (es_counts source)) ?entries"
    using result_rows_verdicts [of ?entries env 0 ?final]
    by (auto simp: list_all2_conv_all_nth list_all_length case_prod_unfold)
  ultimately show ?thesis
    using entries fields by (auto simp: expectExitCode_def list_all_iff list_ex_iff)
qed

lemma handshake_seen_RouteAsked: "handshake_seen (history @ [RouteAsked]) k \<Longrightarrow> handshake_seen history k"
proof -
  assume "handshake_seen (history @ [RouteAsked]) k"
  then obtain before q after where h: "history @ [RouteAsked] = before @ PacketRead q # after" and
    q: "is_ack q" "packet_key q = k" "syn_seen before k (pk_seq q - 1)" by (auto simp: handshake_seen_def)
  from h obtain after' where "history = before @ PacketRead q # after'" by (cases after rule: rev_cases) auto
  with q show ?thesis by (auto simp: handshake_seen_def)
qed

text \<open>
  C3. The exit code is 0 exactly when there is a source and every source has a handshake; and a
  source with a handshake has one that was read: a SYN from its address to its local address and,
  later, the ACK with the next sequence number on the same connection.
\<close>

theorem expect_exit_evident:
  "let (r, s') = session_result env o1 o2 o3 o4 reason (session_run inputs (session_begin port from verbose until stopAfter))
   in (er_exit r = 0 \<longleftrightarrow> ss_sources s' \<noteq> [] \<and> list_all (\<lambda>(key, source). 0 < ct_handshakes (es_counts source)) (ss_sources s')) \<and>
      list_all (\<lambda>(key, source).
        if 0 < ct_handshakes (es_counts source)
        then \<exists>k. handshake_seen (map snd inputs) k \<and> ap_addr (fk_remote k) = sk_remote key \<and> ap_addr (fk_local k) = sk_local key
        else True) (ss_sources s')"
proof -
  let ?s = "session_run inputs (session_begin port from verbose until stopAfter)"
  obtain r s' where result: "session_result env o1 o2 o3 o4 reason ?s = (r, s')" by (cases "session_result env o1 o2 o3 o4 reason ?s")
  have wf: "session_wf ?s" by (rule wf_run [OF wf_begin])
  have final: "session_wf (result_fold env o1 o2 ?s)" by (rule wf_steps [OF result_fold_steps [OF wf] wf])
  have sources: "ss_sources s' = ss_sources (result_fold env o1 o2 ?s)" using session_result_fields [OF result] by simp
  have get: "(key, source) \<in> set (ss_sources s') \<longleftrightarrow> map_get (ss_sources s') key = Some source" for key source
    using wf_facts(2) [OF final] by (simp add: sources map_ok_def map_get_def)
  have all: "list_all (\<lambda>(key, source). P key source) (ss_sources s') \<longleftrightarrow>
      (\<forall>key source. map_get (ss_sources s') key = Some source \<longrightarrow> P key source)" for P
    unfolding get [symmetric] list_all_iff by auto
  have "evident [] (session_begin port from verbose until stopAfter)"
    by (simp add: evident_def session_begin_def newExpectSession_def)
  then have "evident (map snd inputs) ?s" by (rule evident_run [OF wf_begin])
  then have "evident (map snd inputs @ [RouteAsked]) (result_fold env o1 o2 ?s)"
    by (intro evident_steps [OF result_fold_steps [OF wf] wf] evident_more)
  then have "map_get (ss_sources s') key = Some source \<Longrightarrow> 0 < ct_handshakes (es_counts source) \<Longrightarrow>
      \<exists>k. handshake_seen (map snd inputs) k \<and> ap_addr (fk_remote k) = sk_remote key \<and> ap_addr (fk_local k) = sk_local key" for key source
    using handshake_seen_RouteAsked by (fastforce simp: evident_def sources)
  then show ?thesis
    using exit_success [OF wf result] by (simp add: result all)
qed

subsection \<open>What is kept is bounded\<close>

text \<open>The limits never change, and attempts and sources stay within them.\<close>

lemma limits_step:
  "expect_step env input d s s' \<Longrightarrow> ss_flowLimit s' = ss_flowLimit s \<and> ss_sourceLimit s' = ss_sourceLimit s"
proof (induction rule: expect_step.induct)
  case (released s k pending)
  have "ss_flowLimit (fold (release_reason env key) entries t) = ss_flowLimit t \<and>
      ss_sourceLimit (fold (release_reason env key) entries t) = ss_sourceLimit t" for key entries t
    by (induction entries arbitrary: t) (auto simp: release_reason_def Let_def split: option.splits prod.splits)
  then show ?case by (simp add: session_releaseDrops_def)
qed (auto simp: becomes_def session_finish_def Let_def split: option.splits)

lemma limits_run:
  "session_wf s \<Longrightarrow> ss_flowLimit (session_run inputs s) = ss_flowLimit s \<and> ss_sourceLimit (session_run inputs s) = ss_sourceLimit s"
proof (induction inputs rule: rev_induct)
  case (snoc i inputs)
  have "expect_steps env input n t t' \<Longrightarrow> ss_flowLimit t' = ss_flowLimit t \<and> ss_sourceLimit t' = ss_sourceLimit t" for env input n t t'
    by (induction rule: expect_steps.induct) (auto dest: limits_step)
  from this [OF session_input_steps [OF wf_run [OF snoc.prems]], of "fst i" "snd i"] snoc show ?case
    by (simp add: session_run_snoc)
qed (simp add: session_run_def)

text \<open>Routes: fifty of arrivals, and the one towards the client of \<open>--from\<close>.\<close>

definition routes_of :: "expectSession \<Rightarrow> (expectSourceKey, expectReturnPath) gomap \<times> netipPrefix" where
  "routes_of s = (ss_routes s, ss_from s)"

lemma routes_frame:
  "routes_of (session_packet env p s) = routes_of s"
  "routes_of (session_drop env m src dst r l s) = routes_of s"
  "routes_of (session_finish env fl s) = routes_of s"
  "routes_of (session_releaseDrops env k pd s) = routes_of s"
  "routes_of (put_flow fl s) = routes_of s"
  "routes_of (emit_event e s) = routes_of s"
proof -
  show put: "routes_of (put_flow fl s) = routes_of s" and emit: "routes_of (emit_event e s) = routes_of s" for fl e s
    by (simp_all add: routes_of_def put_flow_def emit_event_def)
  show finish: "routes_of (session_finish env fl s) = routes_of s" for fl s
    by (auto simp: session_finish_def routes_of_def Let_def split: option.splits)
  have "routes_of (fold (release_reason env key) entries t) = routes_of t" for key entries t
    by (induction entries arbitrary: t) (auto simp: release_reason_def routes_of_def Let_def split: option.splits prod.splits)
  then show "routes_of (session_releaseDrops env k pd s) = routes_of s"
    by (simp add: session_releaseDrops_def) (simp add: routes_of_def)
  have stop: "routes_of (armStop m r g s) = routes_of s" for m r g s by (simp add: routes_of_def armStop_def)
  have live: "routes_of (live_drop s) = routes_of s" for s by (simp add: live_drop_def routes_of_def)
  have pending: "routes_of (syn_pending fl s) = routes_of s" for fl s
    by (simp add: syn_pending_def fold_emit Let_def split: option.split) (simp add: routes_of_def put_flow_def)
  have new: "routes_of (packet_syn_new env p s) = routes_of s" for s
    by (simp add: packet_syn_new_def syn_stops_def pending Let_def stop)
      (simp add: routes_of_def emit_event_def put_flow_def)
  show "routes_of (session_packet env p s) = routes_of s"
    by (simp add: session_packet_def packet_syn_def packet_syn_again_def packet_synack_def packet_rst_out_def
        packet_rst_in_def packet_ack_def new finish emit put stop Let_def split: option.split)
      (simp add: routes_of_def emit_event_def put_flow_def)
  show "routes_of (session_drop env m src dst r l s) = routes_of s"
    by (simp add: session_drop_def drop_on_flow_def drop_pending_def emit put live Let_def split: option.split)
      (simp add: routes_of_def)
qed

definition routes_bounded :: "(expectSourceKey, expectReturnPath) gomap \<times> netipPrefix \<Rightarrow> bool" where
  "routes_bounded r \<longleftrightarrow> map_ok (fst r) \<and>
     map_len (map_del \<lparr>sk_remote = prefixAddr (snd r), sk_local = NoAddr, sk_iface = []\<rparr> (fst r)) \<le> expectSourceLimit"

lemma lookup_client:
  assumes "routes_bounded (routes_of s)"
  shows "routes_bounded (routes_of (snd (session_lookupRoute env (client_key s) s)))"
  using assms by (auto simp: routes_bounded_def routes_of_def session_lookupRoute_def client_key_def map_del_put gm.ok_put Let_def split: option.split)

lemma lookup_other:
  assumes "routes_bounded (routes_of s)" and "map_len (ss_routes s) < expectSourceLimit"
  shows "routes_bounded (routes_of (snd (session_lookupRoute env key s)))"
proof -
  have "map_len (map_del k (map_put key route (ss_routes s))) \<le> expectSourceLimit" for k route
    using assms map_len_del_le [of "map_put key route (ss_routes s)" k]
    by (auto simp: routes_bounded_def routes_of_def gm.ok_put gm.len_put split: if_splits)
  then show ?thesis
    using assms(1) by (auto simp: routes_bounded_def routes_of_def session_lookupRoute_def gm.ok_put Let_def split: option.split)
qed

lemma tick_routes:
  assumes "routes_bounded (routes_of s)"
  shows "routes_bounded (routes_of (session_tick env now o1 o2 o3 s))"
proof -
  have route: "routes_bounded (routes_of (tick_route env now k t))" if "routes_bounded (routes_of t)" for k t
  proof (cases "map_get (ss_flows t) k")
    case (Some fl)
    let ?t = "put_flow (fl\<lparr>ef_routeShown := True\<rparr>) t"
    have "routes_bounded (routes_of ?t)" using that by (simp add: routes_frame)
    then show ?thesis
      using that Some lookup_other [of ?t]
      by (simp add: tick_route_def routes_frame case_prod_unfold Let_def)
  qed (use that in \<open>simp add: tick_route_def\<close>)
  have "routes_of (tick_idle env now k t) = routes_of t" "routes_of (tick_pending env now k t) = routes_of t" for k t
    by (simp_all add: tick_idle_def tick_pending_def routes_frame split: option.split)
  then have rest: "routes_of (fold (tick_idle env now) ks t) = routes_of t" "routes_of (fold (tick_pending env now) ks t) = routes_of t" for ks t
    by (induction ks arbitrary: t) simp_all
  have "routes_of (t\<lparr>ss_lastSweep := now\<rparr>) = routes_of t" for t by (simp add: routes_of_def)
  then show ?thesis
    using fold_invariant [of "\<lambda>t. routes_bounded (routes_of t)", OF assms route]
    by (simp add: session_tick_def rest Let_def)
qed

lemma run_routes:
  assumes "routes_bounded (routes_of s)"
  shows "routes_bounded (routes_of (session_run inputs s))"
  unfolding session_run_def
proof (rule fold_invariant [where P = "\<lambda>s. routes_bounded (routes_of s)"], rule assms)
  fix i :: "expectEnv \<times> expectInput" and s
  assume s: "routes_bounded (routes_of s)"
  obtain env input where i: "i = (env, input)" by (cases i)
  show "routes_bounded (routes_of (session_input i s))"
  proof (cases input)
    case (Started dropTrace now)
    let ?s = "s\<lparr>ss_dropTrace := dropTrace\<rparr>"
    have "routes_of ?s = routes_of s" by (simp add: routes_of_def)
    then show ?thesis
      using s lookup_client [of ?s env] Started
      by (simp add: i session_start_def routes_frame case_prod_unfold Let_def)
  next
    case RouteAsked
    then show ?thesis
      using s lookup_client [of s env]
      by (auto simp: i session_clientRouteSource_def split: option.split prod.split)
  next
    case (OtherSYNRead remote local port)
    then show ?thesis using s by (simp add: i session_otherSYN_def routes_of_def split: option.split)
  next
    case OtherPortsOpened
    then show ?thesis using s by (simp add: i session_countOtherPorts_def routes_of_def)
  qed (use s in \<open>simp_all add: i routes_frame tick_routes\<close>)
qed

text \<open>
  C36. At most 10000 attempts, 10000 sources and 51 routes are kept after any run, and a result
  lists at most 50 sources.
\<close>

theorem expect_session_bounded:
  "let s = session_run inputs (session_begin port from verbose until stopAfter)
   in map_len (ss_flows s) \<le> 10000 \<and> map_len (ss_sources s) \<le> 10000 \<and> map_len (ss_routes s) \<le> 51 \<and>
      length (er_sources (fst (session_result env o1 o2 o3 o4 reason s))) \<le> 50"
proof -
  let ?start = "session_begin port from verbose until stopAfter"
  let ?s = "session_run inputs ?start"
  have wf: "session_wf ?s" by (rule wf_run [OF wf_begin])
  have "ss_flowLimit ?start = 10000" "ss_sourceLimit ?start = 10000"
    by (simp_all add: session_begin_def newExpectSession_def expectFlowTrackLimit_def expectSourceTrackLimit_def)
  then have sizes: "map_len (ss_flows ?s) \<le> 10000" "map_len (ss_sources ?s) \<le> 10000"
    using wf_facts(10,11) [OF wf] limits_run [OF wf_begin] by simp_all
  have "routes_bounded (routes_of ?s)"
    by (rule run_routes) (simp add: routes_bounded_def routes_of_def session_begin_def newExpectSession_def map_del_def)
  then have "map_len (ss_routes ?s) \<le> 51"
    by (auto simp: routes_bounded_def routes_of_def gm.len_del expectSourceLimit_def split: if_splits)
  moreover have "length (er_sources (fst (session_result env o1 o2 o3 o4 reason ?s))) \<le> 50"
    using session_result_fields [of env o1 o2 o3 o4 reason ?s] by (simp add: expectSourceLimit_def prod_eq_iff)
  ultimately show ?thesis using sizes by (simp add: Let_def)
qed

text \<open>
  Drops without a SYN are not limited: as long as no tick finds them five seconds old, there is one
  entry for every remote port, whatever the two limits.
\<close>

lemma pending_unlimited:
  assumes "n \<le> 65536"
    and "\<And>i. i < n \<Longrightarrow> en_parseAddrPort env (source i) = Some \<lparr>ap_addr = Addr4 a, ap_port = word_of_nat i\<rparr>"
    and "en_parseAddrPort env destination = Some \<lparr>ap_addr = Addr4 b, ap_port = port\<rparr>"
  shows "map_len (ss_pendingDrops (session_run
      (map (\<lambda>i. (env, DropRead 0 (source i) destination ''NO_SOCKET'' [])) [0..<n])
      (session_begin port NoPrefix verbose until stopAfter))) = n"
proof -
  let ?key = "\<lambda>i. \<lparr>fk_remote = \<lparr>ap_addr = Addr4 a, ap_port = word_of_nat i\<rparr>, fk_local = \<lparr>ap_addr = Addr4 b, ap_port = port\<rparr>\<rparr>"
  let ?run = "\<lambda>n. session_run (map (\<lambda>i. (env, DropRead 0 (source i) destination ''NO_SOCKET'' [])) [0..<n])
      (session_begin port NoPrefix verbose until stopAfter)"
  have "map_len (ss_pendingDrops (?run m)) = m \<and> (\<forall>k. map_get (ss_pendingDrops (?run m)) k \<noteq> None \<longrightarrow> (\<exists>i<m. k = ?key i)) \<and>
      ss_flows (?run m) = [] \<and> ss_from (?run m) = NoPrefix \<and> ss_port (?run m) = port" if "m \<le> n" for m
    using that
  proof (induction m)
    case 0
    show ?case by (simp add: session_run_def session_begin_def newExpectSession_def)
  next
    case (Suc m)
    let ?s = "?run m"
    have parse: "en_parseAddrPort env (source m) = Some \<lparr>ap_addr = Addr4 a, ap_port = word_of_nat m\<rparr>"
      using assms(2) Suc.prems by simp
    have key: "drop_key env (source m) destination ?s = Some (?key m)"
      using Suc parse assms(3) by (simp add: drop_key_def addrUnmap_def session_wanted_def)
    have "?key i = ?key m \<Longrightarrow> i < m \<Longrightarrow> False" for i
    proof -
      assume "?key i = ?key m" and i: "i < m"
      then have "unat (word_of_nat i :: u16) = unat (word_of_nat m :: u16)" by simp
      then show False using i Suc.prems assms(1) by (simp add: unsigned_of_nat take_bit_eq_mod)
    qed
    then have new: "map_get (ss_pendingDrops ?s) (?key m) = None" using Suc by (metis not_None_eq Suc_leD)
    have "?run (Suc m) = session_drop env 0 (source m) destination ''NO_SOCKET'' [] ?s"
      by (simp add: session_run_snoc)
    then show ?case
      using Suc key new
      by (auto simp: session_drop_def drop_pending_def emit_event_def live_drop_def gm.len_put gm.get_put Let_def less_Suc_eq split: if_splits)
  qed
  then show ?thesis by simp
qed

end
