(* ===== verification/ExpectListener.thy ===== *)
theory ExpectListener
  imports ExpectPacket
begin

text \<open>
  Which listener \<open>edc tcp expect\<close> reports for its port (expectListenerState of
  internal/edc/tcp_expect.go, listenBindingScope of listen.go). \<open>netip.ParseAddr\<close> is an argument.
  The choice is the first of the best scope as long as the scope of every socket is known; a first
  socket whose address cannot be read is never replaced.
\<close>

subsection \<open>The choice\<close>

record listenSocket =
  ls_proto :: bytes
  ls_address :: bytes
  ls_port :: nat
  ls_process :: bytes
  ls_pid :: bytes

record expectListener =
  xl_state :: bytes
  xl_process :: bytes
  xl_pid :: int
  xl_address :: bytes
  xl_scope :: bytes
  xl_error :: bytes

definition addrIsUnspecified :: "netipAddr \<Rightarrow> bool" where
  "addrIsUnspecified a =
     (case a of NoAddr \<Rightarrow> False | Addr4 bs \<Rightarrow> bs = replicate 4 (CHR 0x00)
      | Addr6 bs zone \<Rightarrow> bs = replicate 16 (CHR 0x00) \<and> zone = [])"

definition listenBindingScope :: "(bytes \<Rightarrow> netipAddr option) \<Rightarrow> bytes \<Rightarrow> bytes \<Rightarrow> bytes" where
  "listenBindingScope parse proto address =
     (if proto = ''unix'' then ''unix''
      else if proto \<noteq> ''tcp'' \<and> proto \<noteq> ''udp'' then ''unknown''
      else if address = ''*'' then ''all''
      else case parse address of
             None \<Rightarrow> ''unknown''
           | Some ip0 \<Rightarrow>
               let ip = addrUnmap ip0
               in if addrIsUnspecified ip then ''all'' else if addrIsLoopback ip then ''loopback'' else ''specific'')"

definition scope_rank :: "bytes \<Rightarrow> nat option" where
  "scope_rank scope = map_of [(''all'', 0), (''specific'', 1), (''loopback'', 2)] scope"

text \<open>A missing key of a Go map reads as zero, and the loop ranks an unknown scope last when it is new.\<close>

definition socket_scope :: "(bytes \<Rightarrow> netipAddr option) \<Rightarrow> listenSocket \<Rightarrow> bytes" where
  "socket_scope parse socket = listenBindingScope parse (ls_proto socket) (ls_address socket)"

definition listener_step ::
    "(bytes \<Rightarrow> netipAddr option) \<Rightarrow> nat \<Rightarrow> listenSocket \<Rightarrow> listenSocket option \<Rightarrow> listenSocket option" where
  "listener_step parse port socket chosen =
     (if ls_proto socket \<noteq> ''tcp'' \<or> ls_port socket \<noteq> port then chosen
      else
        let scope = (case scope_rank (socket_scope parse socket) of None \<Rightarrow> 3 | Some r \<Rightarrow> r)
        in case chosen of
             None \<Rightarrow> Some socket
           | Some c \<Rightarrow>
               if scope < (case scope_rank (socket_scope parse c) of None \<Rightarrow> 0 | Some r \<Rightarrow> r) then Some socket else chosen)"

definition joinHostPort :: "bytes \<Rightarrow> nat \<Rightarrow> bytes" where
  "joinHostPort host port =
     (if CHR '':'' \<in> set host then ''['' @ host @ '']:'' @ decimal port else host @ '':'' @ decimal port)"

definition expectListenerState ::
    "(bytes \<Rightarrow> netipAddr option) \<Rightarrow> listenSocket list \<Rightarrow> bytes option \<Rightarrow> nat \<Rightarrow> expectListener" where
  "expectListenerState parse sockets err port =
     (let none = \<lparr>xl_state = ''none'', xl_process = [], xl_pid = 0, xl_address = [], xl_scope = [], xl_error = []\<rparr>
      in case err of
           Some text \<Rightarrow> none\<lparr>xl_state := ''unknown'', xl_error := text\<rparr>
         | None \<Rightarrow>
             (case fold (listener_step parse port) sockets None of
                None \<Rightarrow> none
              | Some c \<Rightarrow>
                  \<lparr>xl_state = ''present'', xl_process = ls_process c,
                   xl_pid = (case atoi (ls_pid c) of None \<Rightarrow> 0 | Some n \<Rightarrow> n),
                   xl_address = joinHostPort (ls_address c) port, xl_scope = socket_scope parse c, xl_error = []\<rparr>))"

subsection \<open>What it chooses\<close>

definition waits_on :: "nat \<Rightarrow> listenSocket \<Rightarrow> bool" where
  "waits_on port socket \<longleftrightarrow> ls_proto socket = ''tcp'' \<and> ls_port socket = port"

lemma listener_step_eq:
  "listener_step parse port x c =
     (if waits_on port x
      then case c of
             None \<Rightarrow> Some x
           | Some d \<Rightarrow>
               if (case scope_rank (socket_scope parse x) of None \<Rightarrow> 3 | Some r \<Rightarrow> r) <
                  (case scope_rank (socket_scope parse d) of None \<Rightarrow> 0 | Some r \<Rightarrow> r) then Some x else c
      else c)"
  by (auto simp: listener_step_def waits_on_def Let_def)

text \<open>With known scopes it is a socket of the port, and none of the others has a better scope.\<close>

lemma listener_best:
  assumes "\<forall>x\<in>set sockets. waits_on port x \<longrightarrow> scope_rank (socket_scope parse x) \<noteq> None"
  shows "case fold (listener_step parse port) sockets None of
      None \<Rightarrow> \<forall>x\<in>set sockets. \<not> waits_on port x
    | Some c \<Rightarrow> c \<in> set sockets \<and> waits_on port c \<and>
        (\<forall>x\<in>set sockets. waits_on port x \<longrightarrow>
           the (scope_rank (socket_scope parse c)) \<le> the (scope_rank (socket_scope parse x)))"
  using assms
proof (induction sockets rule: rev_induct)
  case (snoc x sockets)
  obtain c where c: "fold (listener_step parse port) sockets None = c" by simp
  have step: "fold (listener_step parse port) (sockets @ [x]) None = listener_step parse port x c" by (simp add: c)
  have IH: "case c of None \<Rightarrow> \<forall>y\<in>set sockets. \<not> waits_on port y
    | Some c \<Rightarrow> c \<in> set sockets \<and> waits_on port c \<and>
        (\<forall>y\<in>set sockets. waits_on port y \<longrightarrow>
           the (scope_rank (socket_scope parse c)) \<le> the (scope_rank (socket_scope parse y)))"
    using snoc by (simp add: c)
  show ?case
  proof (cases "waits_on port x")
    case False
    then show ?thesis using IH unfolding step by (auto simp: listener_step_eq split: option.splits)
  next
    case True
    obtain r where r: "scope_rank (socket_scope parse x) = Some r" using True snoc.prems by auto
    show ?thesis
    proof (cases c)
      case None
      then show ?thesis using IH True unfolding step by (auto simp: listener_step_eq)
    next
      case (Some d)
      then obtain q where q: "scope_rank (socket_scope parse d) = Some q" using IH snoc.prems by fastforce
      show ?thesis
        using IH True Some r q unfolding step by (fastforce simp: listener_step_eq)
    qed
  qed
qed simp

text \<open>
  A first socket of the port whose address cannot be read is kept, also when a later one is bound
  to all addresses.
\<close>

lemma listener_unread_kept:
  assumes "waits_on port first" and "scope_rank (socket_scope parse first) = None"
  shows "fold (listener_step parse port) (first # sockets) None = Some first"
proof -
  have "fold (listener_step parse port) sockets (Some first) = Some first"
    using assms(2) by (induction sockets) (simp_all add: listener_step_eq)
  then show ?thesis using assms(1) by (simp add: listener_step_eq)
qed

end
