(* ===== verification/TlsQueue.thy ===== *)
theory TlsQueue
  imports GoMap
begin

text \<open>
  The queue between the probes of a process and the reader of its plaintext on macOS
  (\<open>internal/edc/trace_http_tls_dtrace_queue.go\<close>): a ring that starts with 16 slots, doubles up to
  4096 and refuses a record that would pass 4096 records or 32 MiB of retained payload, and a
  channel of one token that wakes the reader. The mutex of the queue makes every operation
  atomic, so the runs of several probes and one reader are the lists of operations.
  The locale \<open>bounded_fifo\<close> is what the users of the queue rely on.
\<close>

subsection \<open>Records (\<open>darwinTLSRecord\<close>)\<close>

type_synonym u8 = "8 word"

text \<open>
  A payload is a Go slice: \<open>dr_payload\<close> are its bytes and \<open>dr_cap\<close> its capacity, which is what it
  keeps in memory and what the limits count. The empty record is the zero value.
\<close>

record dtls_record =
  dr_goPhase :: u8
  dr_fdMeta :: u8
  dr_fdKind :: u8
  dr_address :: bytes
  dr_source :: bytes
  dr_destination :: bytes
  dr_goroutine :: u64
  dr_frame :: u64
  dr_pid :: u32
  dr_wallNS :: u64
  dr_object :: u64
  dr_size :: u64
  dr_sent :: bool
  dr_closed :: bool
  dr_fd :: u32
  dr_offset :: u32
  dr_process :: bytes
  dr_payload :: bytes
  dr_cap :: nat

definition dtls_zero :: dtls_record where
  "dtls_zero = \<lparr>dr_goPhase = 0, dr_fdMeta = 0, dr_fdKind = 0, dr_address = [], dr_source = [],
     dr_destination = [], dr_goroutine = 0, dr_frame = 0, dr_pid = 0, dr_wallNS = 0, dr_object = 0,
     dr_size = 0, dr_sent = False, dr_closed = False, dr_fd = 0, dr_offset = 0, dr_process = [],
     dr_payload = [], dr_cap = 0\<rparr>"

text \<open>What a list of records keeps in memory.\<close>

definition kept_bytes :: "dtls_record list \<Rightarrow> nat" where
  "kept_bytes rs = sum_list (map dr_cap rs)"

lemma kept_bytes_simps [simp]:
  "kept_bytes [] = 0" "kept_bytes (r # rs) = dr_cap r + kept_bytes rs"
  "kept_bytes (rs @ ss) = kept_bytes rs + kept_bytes ss"
  by (simp_all add: kept_bytes_def)

subsection \<open>The ring (\<open>darwinTLSRecordQueue\<close>)\<close>

definition darwinTLSOutputMaxRecords :: nat where
  "darwinTLSOutputMaxRecords = 4096"

definition darwinTLSOutputMaxBytes :: int where
  "darwinTLSOutputMaxBytes = 32 * 1024 * 1024"

record tls_queue =
  tq_items :: "dtls_record list"
  tq_head :: nat
  tq_count :: nat
  tq_bytes :: int
  tq_ready :: bool

datatype queue_error = QueueExceeds

definition newDarwinTLSRecordQueue :: tls_queue where
  "newDarwinTLSRecordQueue =
     \<lparr>tq_items = replicate 16 dtls_zero, tq_head = 0, tq_count = 0, tq_bytes = 0, tq_ready = False\<rparr>"

text \<open>The slot \<open>i\<close> places after the head.\<close>

definition slot :: "tls_queue \<Rightarrow> nat \<Rightarrow> nat" where
  "slot q i = (tq_head q + i) mod length (tq_items q)"

text \<open>A full ring is copied into a larger one, which starts at its head.\<close>

definition queue_grow :: "tls_queue \<Rightarrow> tls_queue" where
  "queue_grow q =
     (if tq_count q = length (tq_items q)
      then q\<lparr>tq_items := fold (\<lambda>i items. items[i := tq_items q ! slot q i]) [0..<tq_count q]
                          (replicate (min (2 * length (tq_items q)) darwinTLSOutputMaxRecords) dtls_zero),
             tq_head := 0\<rparr>
      else q)"

definition queue_push :: "tls_queue \<Rightarrow> dtls_record \<Rightarrow> queue_error + tls_queue" where
  "queue_push q r =
     (if darwinTLSOutputMaxRecords \<le> tq_count q \<or> darwinTLSOutputMaxBytes < tq_bytes q + int (dr_cap r)
      then Inl QueueExceeds
      else let p = queue_grow q in
        Inr (p\<lparr>tq_items := (tq_items p)[slot p (tq_count p) := r],
               tq_count := tq_count p + 1,
               tq_bytes := tq_bytes p + int (dr_cap r),
               tq_ready := True\<rparr>))"

definition queue_pop :: "tls_queue \<Rightarrow> tls_queue \<times> dtls_record option" where
  "queue_pop q =
     (if tq_count q = 0 then (q, None)
      else let r = tq_items q ! tq_head q in
        (q\<lparr>tq_items := (tq_items q)[tq_head q := dtls_zero],
           tq_head := (tq_head q + 1) mod length (tq_items q),
           tq_count := tq_count q - 1,
           tq_bytes := tq_bytes q - int (dr_cap r),
           tq_ready := tq_ready q \<or> 0 < tq_count q - 1\<rparr>, Some r))"

definition queue_len :: "tls_queue \<Rightarrow> nat" where
  "queue_len q = tq_count q"

text \<open>The reader takes the token of the channel, when there is one.\<close>

definition queue_wake :: "tls_queue \<Rightarrow> tls_queue \<times> bool" where
  "queue_wake q = (q\<lparr>tq_ready := False\<rparr>, tq_ready q)"

subsection \<open>Operations and the promise\<close>

datatype queue_op = QPush dtls_record | QPop | QLen | QWake

datatype queue_reply = RPushed bool | RPopped "dtls_record option" | RLength nat | RWoken bool

fun queue_step :: "tls_queue \<Rightarrow> queue_op \<Rightarrow> tls_queue \<times> queue_reply" where
  "queue_step q (QPush r) = (case queue_push q r of Inl e \<Rightarrow> (q, RPushed False) | Inr p \<Rightarrow> (p, RPushed True))"
| "queue_step q QPop = (let (p, r) = queue_pop q in (p, RPopped r))"
| "queue_step q QLen = (q, RLength (queue_len q))"
| "queue_step q QWake = (let (p, b) = queue_wake q in (p, RWoken b))"

text \<open>The promise: a list of records with its two limits, and the token.\<close>

type_synonym fifo = "dtls_record list \<times> bool"

fun fifo_step :: "fifo \<Rightarrow> queue_op \<Rightarrow> fifo \<times> queue_reply" where
  "fifo_step (rs, token) (QPush r) =
     (if length rs < darwinTLSOutputMaxRecords \<and> int (kept_bytes (rs @ [r])) \<le> darwinTLSOutputMaxBytes
      then ((rs @ [r], True), RPushed True) else ((rs, token), RPushed False))"
| "fifo_step ([], token) QPop = (([], token), RPopped None)"
| "fifo_step (r # rs, token) QPop = ((rs, token \<or> rs \<noteq> []), RPopped (Some r))"
| "fifo_step (rs, token) QLen = ((rs, token), RLength (length rs))"
| "fifo_step (rs, token) QWake = ((rs, False), RWoken token)"

text \<open>
  The interface: what the state stands for, which states are sound, and the law that a step of
  a sound state is a step of what it stands for.
\<close>

locale bounded_fifo =
  fixes step :: "'q \<Rightarrow> 'o \<Rightarrow> 'q \<times> 'r"
    and model_step :: "'a \<Rightarrow> 'o \<Rightarrow> 'a \<times> 'r"
    and start :: 'q
    and abs :: "'q \<Rightarrow> 'a"
    and ok :: "'q \<Rightarrow> bool"
  assumes ok_start: "ok start"
    and ok_step: "ok q \<Longrightarrow> ok (fst (step q x))"
    and abs_step: "ok q \<Longrightarrow> model_step (abs q) x = (abs (fst (step q x)), snd (step q x))"
begin

lemma run_refines_from:
  "ok q \<Longrightarrow> ok (fst (op_run step q xs)) \<and>
     op_run model_step (abs q) xs = (abs (fst (op_run step q xs)), snd (op_run step q xs))"
proof (induction xs arbitrary: q)
  case (Cons x xs)
  obtain p r where s: "step q x = (p, r)" by fastforce
  have p: "ok p" "model_step (abs q) x = (abs p, r)"
    using ok_step [OF Cons.prems, of x] abs_step [OF Cons.prems, of x] by (simp_all add: s)
  show ?case using Cons.IH [OF p(1)] p(2) by (auto simp: s Let_def split: prod.splits)
qed simp

lemma run_ok: "ok (fst (op_run step start xs))"
  using run_refines_from [OF ok_start] by blast

lemma run_refines: "op_run model_step (abs start) xs = (abs (fst (op_run step start xs)), snd (op_run step start xs))"
  using run_refines_from [OF ok_start] by blast

end

subsection \<open>The ring keeps the promise\<close>

definition queue_list :: "tls_queue \<Rightarrow> dtls_record list" where
  "queue_list q = map (\<lambda>i. tq_items q ! slot q i) [0..<tq_count q]"

definition queue_abs :: "tls_queue \<Rightarrow> fifo" where
  "queue_abs q = (queue_list q, tq_ready q)"

text \<open>
  A sound queue: indices in range, the byte counter exact and within its limit, and no slot
  outside the live part keeps a record.
\<close>

definition queue_wf :: "tls_queue \<Rightarrow> bool" where
  "queue_wf q \<longleftrightarrow>
     16 \<le> length (tq_items q) \<and> length (tq_items q) \<le> darwinTLSOutputMaxRecords \<and>
     tq_head q < length (tq_items q) \<and> tq_count q \<le> length (tq_items q) \<and>
     tq_bytes q = int (kept_bytes (queue_list q)) \<and> tq_bytes q \<le> darwinTLSOutputMaxBytes \<and>
     (\<forall>i. tq_count q \<le> i \<and> i < length (tq_items q) \<longrightarrow> tq_items q ! slot q i = dtls_zero)"

lemma ring_inj:
  fixes h :: nat
  assumes "i < n" and "j < n" and "(h + i) mod n = (h + j) mod n"
  shows "i = j"
proof -
  have *: "a \<le> b \<Longrightarrow> b < n \<Longrightarrow> (h + a) mod n = (h + b) mod n \<Longrightarrow> a = b" for a b
  proof -
    assume h: "a \<le> b" "b < n" "(h + a) mod n = (h + b) mod n"
    then have "n dvd (h + b) - (h + a)" using mod_eq_dvd_iff_nat [of "h + a" "h + b" n] by simp
    then show "a = b" using h by (auto dest: dvd_imp_le)
  qed
  show ?thesis
    using * [of i j] * [of j i] assms by (cases "i \<le> j") auto
qed

lemma slot_less: "0 < length (tq_items q) \<Longrightarrow> slot q i < length (tq_items q)"
  by (simp add: slot_def)

lemma slot_inj:
  "i < length (tq_items q) \<Longrightarrow> j < length (tq_items q) \<Longrightarrow> slot q i = slot q j \<longleftrightarrow> i = j"
  unfolding slot_def using ring_inj by blast

lemma length_queue_list [simp]: "length (queue_list q) = tq_count q"
  by (simp add: queue_list_def)

lemma fold_update_length: "length (fold (\<lambda>i xs. xs[i := f i]) ns xs) = length xs"
  by (induction ns arbitrary: xs) auto

lemma fold_update_nth:
  "k < length xs \<Longrightarrow> fold (\<lambda>i ys. ys[i := f i]) [0..<n] xs ! k = (if k < n then f k else xs ! k)"
  by (induction n) (auto simp: fold_update_length less_Suc_eq)

lemma slot_head: "tq_head q < length (tq_items q) \<Longrightarrow> slot q 0 = tq_head q"
  by (simp add: slot_def)

lemma queue_grow_wf:
  assumes "queue_wf q" and "tq_count q < darwinTLSOutputMaxRecords"
  shows "queue_wf (queue_grow q) \<and> queue_list (queue_grow q) = queue_list q \<and>
    tq_count (queue_grow q) < length (tq_items (queue_grow q)) \<and>
    tq_count (queue_grow q) = tq_count q \<and> tq_bytes (queue_grow q) = tq_bytes q \<and>
    tq_ready (queue_grow q) = tq_ready q"
proof (cases "tq_count q = length (tq_items q)")
  case True
  let ?n = "min (2 * length (tq_items q)) darwinTLSOutputMaxRecords"
  define p where p: "p = queue_grow q"
  have n: "tq_count q < ?n" using assms True by (auto simp: queue_wf_def min_def)
  have f: "tq_count p = tq_count q" "tq_bytes p = tq_bytes q" "tq_ready p = tq_ready q"
      "tq_head p = 0" "length (tq_items p) = ?n"
    using True by (simp_all add: p queue_grow_def fold_update_length)
  have nth: "tq_items p ! slot p k = (if k < tq_count q then tq_items q ! slot q k else dtls_zero)" if "k < ?n" for k
    using that True f(4,5) by (simp add: slot_def [of p]) (simp add: p queue_grow_def fold_update_nth)
  have l: "queue_list p = queue_list q"
    using n by (auto simp: queue_list_def f nth)
  have "queue_wf p"
    using assms n True unfolding queue_wf_def l f by (auto simp: nth)
  then show ?thesis using f l n by (simp add: p [symmetric])
next
  case False
  then show ?thesis using assms by (simp add: queue_grow_def queue_wf_def)
qed

lemma queue_push_wf:
  assumes "queue_wf q" and "queue_push q r = Inr p"
  shows "queue_wf p \<and> queue_list p = queue_list q @ [r] \<and> tq_ready p"
proof -
  define g where g: "g = queue_grow q"
  from assms(2) have lim: "tq_count q < darwinTLSOutputMaxRecords" "tq_bytes q + int (dr_cap r) \<le> darwinTLSOutputMaxBytes"
    and p: "p = g\<lparr>tq_items := (tq_items g)[slot g (tq_count g) := r], tq_count := tq_count g + 1,
              tq_bytes := tq_bytes g + int (dr_cap r), tq_ready := True\<rparr>"
    by (auto simp: queue_push_def Let_def g split: if_splits)
  note gw = queue_grow_wf [OF assms(1) lim(1), folded g]
  have len: "length (tq_items p) = length (tq_items g)" "0 < length (tq_items g)"
    using gw by (auto simp: p queue_wf_def)
  have sl: "slot p i = slot g i" for i by (simp add: slot_def p)
  have nth: "tq_items p ! slot p i = (if i = tq_count g then r else tq_items g ! slot g i)" if "i < length (tq_items g)" for i
    using that gw len slot_inj [of "tq_count g" g i] slot_less [OF len(2)]
    by (simp add: sl) (auto simp: p nth_list_update)
  have l: "queue_list p = queue_list q @ [r]"
  proof -
    have "tq_count p = Suc (tq_count g)" by (simp add: p)
    then have "queue_list p = map (\<lambda>i. tq_items g ! slot g i) [0..<tq_count g] @ [r]"
      using gw by (simp add: queue_list_def nth)
    then have "queue_list p = queue_list g @ [r]" by (simp only: queue_list_def)
    then show ?thesis using gw by simp
  qed
  have "queue_wf p"
    unfolding queue_wf_def l
    using gw lim nth len by (auto simp: p queue_wf_def)
  then show ?thesis using l by (simp add: p)
qed

lemma queue_pop_wf:
  assumes "queue_wf q" and "tq_count q \<noteq> 0"
  shows "queue_wf (fst (queue_pop q)) \<and>
    queue_list q = the (snd (queue_pop q)) # queue_list (fst (queue_pop q)) \<and>
    snd (queue_pop q) \<noteq> None \<and>
    tq_ready (fst (queue_pop q)) = (tq_ready q \<or> queue_list (fst (queue_pop q)) \<noteq> [])"
proof -
  define p where p: "p = fst (queue_pop q)"
  have h: "tq_head q < length (tq_items q)" "0 < length (tq_items q)" "tq_count q \<le> length (tq_items q)"
    using assms by (auto simp: queue_wf_def)
  have f: "tq_count p = tq_count q - 1" "length (tq_items p) = length (tq_items q)"
    "tq_bytes p = tq_bytes q - int (dr_cap (tq_items q ! tq_head q))"
    "tq_head p = (tq_head q + 1) mod length (tq_items q)"
    using assms(2) by (simp_all add: p queue_pop_def Let_def)
  have sl: "slot p i = slot q (Suc i)" for i
    by (simp add: slot_def f mod_simps)
  have nth: "tq_items p ! slot p i = (if Suc i < length (tq_items q) then tq_items q ! slot q (Suc i) else dtls_zero)"
    if "i < length (tq_items q)" for i
  proof (cases "Suc i < length (tq_items q)")
    case True
    then have "slot q (Suc i) \<noteq> tq_head q"
      using slot_inj [of "Suc i" q 0] h by (simp add: slot_head)
    then show ?thesis
      using True assms(2) by (simp add: sl) (simp add: p queue_pop_def Let_def)
  next
    case False
    then have "Suc i = length (tq_items q)" using that by simp
    then have "slot q (Suc i) = tq_head q" using h(1) by (simp add: slot_def)
    then show ?thesis
      using False assms(2) h(1) by (simp add: sl) (simp add: p queue_pop_def Let_def)
  qed
  obtain n where n: "tq_count q = Suc n" using assms(2) not0_implies_Suc by blast
  have l: "queue_list q = tq_items q ! tq_head q # queue_list p"
    using h n by (simp add: queue_list_def f upt_conv_Cons slot_head nth map_Suc_upt [symmetric] del: upt_Suc)
  have "queue_wf p"
    using assms h n unfolding queue_wf_def f
    by (auto simp: nth l)
  moreover have "snd (queue_pop q) = Some (tq_items q ! tq_head q)"
    using assms(2) by (simp add: queue_pop_def Let_def)
  moreover have "tq_ready p = (tq_ready q \<or> queue_list p \<noteq> [])"
    using n by (simp add: queue_list_def f) (simp add: p queue_pop_def Let_def)
  ultimately show ?thesis using l by (simp add: p [symmetric])
qed

lemma queue_new_wf: "queue_wf newDarwinTLSRecordQueue"
  by (simp add: queue_wf_def newDarwinTLSRecordQueue_def queue_list_def slot_def
        darwinTLSOutputMaxRecords_def darwinTLSOutputMaxBytes_def)

lemma queue_wake_wf: "queue_wf q \<Longrightarrow> queue_wf (q\<lparr>tq_ready := b\<rparr>)"
  by (simp add: queue_wf_def queue_list_def slot_def)

interpretation ring: bounded_fifo queue_step fifo_step newDarwinTLSRecordQueue queue_abs queue_wf
proof (unfold_locales, goal_cases)
  case 1 show ?case by (rule queue_new_wf)
next
  case (2 q x)
  then show ?case
    using queue_push_wf queue_pop_wf queue_wake_wf
    by (cases x) (auto simp: Let_def queue_wake_def queue_pop_def split: sum.splits prod.splits)
next
  case (3 q x)
  show ?case
  proof (cases x)
    case (QPush r)
    have "(\<exists>e. queue_push q r = Inl e) \<longleftrightarrow>
        \<not> (tq_count q < darwinTLSOutputMaxRecords \<and> int (kept_bytes (queue_list q @ [r])) \<le> darwinTLSOutputMaxBytes)"
      using 3 by (auto simp: queue_push_def Let_def queue_wf_def)
    then show ?thesis
      using QPush queue_push_wf [OF 3, of r]
      by (cases "queue_push q r") (auto simp: queue_abs_def)
  next
    case QPop
    show ?thesis
    proof (cases "tq_count q = 0")
      case True
      then show ?thesis using QPop by (simp add: queue_pop_def queue_abs_def queue_list_def)
    next
      case False
      then show ?thesis
        using QPop queue_pop_wf [OF 3 False]
        by (cases "queue_pop q") (auto simp: queue_abs_def)
    qed
  qed (simp_all add: queue_abs_def queue_len_def queue_wake_def queue_list_def slot_def)
qed

text \<open>
  Is the reader awake: it has taken the token and has not asked for a record since.
\<close>

fun reader_awake :: "bool \<Rightarrow> queue_op list \<Rightarrow> queue_reply list \<Rightarrow> bool" where
  "reader_awake a (QWake # xs) (RWoken b # rs) = reader_awake (a \<or> b) xs rs"
| "reader_awake a (QPop # xs) (r # rs) = reader_awake False xs rs"
| "reader_awake a (x # xs) (r # rs) = reader_awake a xs rs"
| "reader_awake a _ _ = a"

lemma fifo_token:
  assumes "rs = [] \<or> token \<or> a" and "op_run fifo_step (rs, token) xs = ((rs', token'), replies)"
  shows "rs' = [] \<or> token' \<or> reader_awake a xs replies"
  using assms
proof (induction xs arbitrary: rs token a replies)
  case (Cons x xs)
  obtain ss token'' r replies' where st: "fifo_step (rs, token) x = ((ss, token''), r)"
    and run: "op_run fifo_step (ss, token'') xs = ((rs', token'), replies')" and replies: "replies = r # replies'"
    using Cons.prems(2) by (auto simp: Let_def split: prod.splits)
  define b where b: "b = (case x of QPop \<Rightarrow> False | QWake \<Rightarrow> a \<or> r = RWoken True | _ \<Rightarrow> a)"
  have "reader_awake a (x # xs) replies = reader_awake b xs replies'"
    using st by (cases x) (auto simp: b replies split: if_splits)
  moreover have "ss = [] \<or> token'' \<or> b"
    using st Cons.prems(1) by (cases x; cases rs) (auto simp: b split: if_splits)
  ultimately show ?case using Cons.IH [OF _ run, of b] by simp
qed simp

text \<open>
  C19. Whatever the probes and the reader do, in any interleaving, the ring answers every
  operation as a list with its two limits would: records come out once each, in the order they
  were pushed, and a push is refused exactly when it would pass 4096 records or 32 MiB. Every
  index stays in range, the counters are exact, consumed slots keep nothing, and a queue that
  is not empty has a token for its reader or a reader that has not looked yet.
\<close>

theorem tls_queue_fifo:
  "let (q, replies) = op_run queue_step newDarwinTLSRecordQueue ops
   in op_run fifo_step ([], False) ops = ((queue_list q, tq_ready q), replies) \<and> queue_wf q \<and>
      (tq_count q = 0 \<or> tq_ready q \<or> reader_awake False ops replies)"
proof -
  obtain q replies where q: "op_run queue_step newDarwinTLSRecordQueue ops = (q, replies)" by fastforce
  have a: "queue_abs newDarwinTLSRecordQueue = ([], False)"
    by (simp add: queue_abs_def queue_list_def newDarwinTLSRecordQueue_def)
  have r: "op_run fifo_step ([], False) ops = ((queue_list q, tq_ready q), replies)"
    using ring.run_refines [of ops] unfolding a by (simp add: q queue_abs_def)
  have "queue_list q = [] \<or> tq_ready q \<or> reader_awake False ops replies"
    by (rule fifo_token [OF _ r]) simp
  then have "tq_count q = 0 \<or> tq_ready q \<or> reader_awake False ops replies"
    by (metis length_queue_list list.size(3))
  then show ?thesis using r ring.run_ok [of ops] by (simp add: q)
qed

end
