(* ===== verification/TlsOrder.thy ===== *)
theory TlsOrder
  imports GoMap "HOL-Library.Sublist"
begin

text \<open>
  The order of Go TLS records on Linux (\<open>internal/edc/trace_http_tls_go_order.go\<close>, with
  \<open>parseHTTPRecord\<close> of \<open>trace_http_linux.go\<close> and \<open>parseTCPDestroyRecord\<close> of
  \<open>capture_events_linux.go\<close>). A probe on the return of a write sees the request after the kernel
  may have delivered its answer, so while a write of a connection is open the plaintext received
  on it, and its end, are held and handed on when the last write has ended. The theory has the
  code, the steps it can make as a relation, the invariant of the counters and the two
  properties: answers keep their order and stay behind the writes, and no record is lost
  without being counted.
\<close>

subsection \<open>Samples of the ring buffer\<close>

definition u32_at :: "nat \<Rightarrow> bytes \<Rightarrow> u32" where
  "u32_at i x = of_nat (le_nat (take 4 (drop i x)))"

definition u64_at :: "nat \<Rightarrow> bytes \<Rightarrow> u64" where
  "u64_at i x = of_nat (le_nat (take 8 (drop i x)))"

text \<open>\<open>httpPacket\<close> without the two addresses and the process name, which are texts for the reader.\<close>

record http_packet =
  hp_bootTimeNS :: u64
  hp_pid :: u32
  hp_cgroupID :: u64
  hp_socket :: u64
  hp_sent :: bool
  hp_decrypted :: bool
  hp_payload :: bytes
  hp_continued :: bool
  hp_tlsHandshake :: bool
  hp_offset :: u32

definition parseHTTPRecord :: "bytes \<Rightarrow> http_packet option" where
  "parseHTTPRecord x =
     (if length x < 96 \<or> u32_at 8 x \<noteq> 10 then None
      else let payload = drop 96 x; size = le_nat (take 4 (drop 32 x)) in
        Some \<lparr>hp_bootTimeNS = u64_at 0 x, hp_pid = u32_at 12 x, hp_cgroupID = u64_at 16 x,
              hp_socket = u64_at 24 x, hp_sent = bit (bval (x ! 38)) 0,
              hp_decrypted = bit (bval (x ! 38)) 7,
              hp_payload = (if size < length payload then take size payload else payload),
              hp_continued = (bval (x ! 39) = 1), hp_tlsHandshake = (bval (x ! 39) = 2),
              hp_offset = u32_at 92 x\<rparr>)"

definition parseTCPDestroyRecord :: "bytes \<Rightarrow> u64 option" where
  "parseTCPDestroyRecord x = (if length x < 32 \<or> u32_at 8 x \<noteq> 5 then None else Some (u64_at 24 x))"

definition http2Preface :: bytes where
  "http2Preface = ''PRI * HTTP/2.0'' @ [CHR 0x0D, CHR 0x0A, CHR 0x0D, CHR 0x0A] @ ''SM'' @
     [CHR 0x0D, CHR 0x0A, CHR 0x0D, CHR 0x0A]"

subsection \<open>State\<close>

definition goTLSOrderMaxConnections :: nat where "goTLSOrderMaxConnections = 4096"
definition goTLSOrderMaxWriters :: int where "goTLSOrderMaxWriters = 10240"
definition goTLSOrderMaxBytes :: int where "goTLSOrderMaxBytes = 32 * 1024 * 1024"
definition goTLSOrderMaxConnectionBytes :: int where "goTLSOrderMaxConnectionBytes = 4 * 1024 * 1024"
definition goTLSOrderMaxRecords :: int where "goTLSOrderMaxRecords = 4096"

type_synonym writer = "u64 \<times> u64"

record tls_connection =
  tc_writes :: "(writer, unit) gomap"
  tc_reads :: "bytes list"
  tc_closes :: "bytes list"
  tc_bytes :: int

record tls_order =
  to_connections :: "(u64, tls_connection) gomap"
  to_writers :: int
  to_bytes :: int
  to_records :: int
  to_lost :: u64
  to_failed :: bool

definition newGoTLSConnection :: tls_connection where
  "newGoTLSConnection = \<lparr>tc_writes = [], tc_reads = [], tc_closes = [], tc_bytes = 0\<rparr>"

definition newGoTLSOrder :: tls_order where
  "newGoTLSOrder = \<lparr>to_connections = [], to_writers = 0, to_bytes = 0, to_records = 0, to_lost = 0, to_failed = False\<rparr>"

definition order_fail :: "tls_order \<Rightarrow> tls_order" where
  "order_fail s = s\<lparr>to_lost := to_lost s + of_int (to_records s + to_writers s + 1), to_connections := [],
     to_writers := 0, to_records := 0, to_bytes := 0, to_failed := True\<rparr>"

subsection \<open>\<open>add\<close>\<close>

definition is_order :: "bytes \<Rightarrow> bool" where
  "is_order x \<longleftrightarrow> 12 \<le> length x \<and> u32_at 8 x = 22"

definition order_phase :: "bytes \<Rightarrow> u32" where
  "order_phase x = u32_at 12 x"

definition order_socket :: "bytes \<Rightarrow> u64" where
  "order_socket x = u64_at 16 x"

definition order_writer :: "bytes \<Rightarrow> writer" where
  "order_writer x = (u64_at 24 x, u64_at 32 x)"

text \<open>A record that says that a write starts or has ended.\<close>

definition write_starts :: "tls_order \<Rightarrow> u64 \<Rightarrow> writer \<Rightarrow> tls_order" where
  "write_starts s socket writer =
     (let known = map_get (to_connections s) socket in
      if goTLSOrderMaxWriters \<le> to_writers s \<or>
         known = None \<and> goTLSOrderMaxConnections \<le> map_len (to_connections s) then order_fail s
      else let c = (case known of None \<Rightarrow> newGoTLSConnection | Some c \<Rightarrow> c) in
        if map_get (tc_writes c) writer \<noteq> None then order_fail s
        else s\<lparr>to_connections := map_put socket (c\<lparr>tc_writes := map_put writer () (tc_writes c)\<rparr>) (to_connections s),
               to_writers := to_writers s + 1\<rparr>)"

definition write_ends :: "tls_order \<Rightarrow> u64 \<Rightarrow> writer \<Rightarrow> tls_order \<times> bytes list" where
  "write_ends s socket writer =
     (case map_get (to_connections s) socket of
        None \<Rightarrow> (order_fail s, [])
      | Some c \<Rightarrow>
          if map_get (tc_writes c) writer = None then (order_fail s, [])
          else let d = c\<lparr>tc_writes := map_del writer (tc_writes c)\<rparr> in
            if map_len (tc_writes d) = 0
            then (s\<lparr>to_connections := map_del socket (to_connections s), to_writers := to_writers s - 1,
                    to_bytes := to_bytes s - tc_bytes d,
                    to_records := to_records s - int (length (tc_reads d) + length (tc_closes d))\<rparr>,
                  tc_reads d @ tc_closes d)
            else (s\<lparr>to_connections := map_put socket d (to_connections s), to_writers := to_writers s - 1\<rparr>, []))"

definition order_write :: "tls_order \<Rightarrow> bytes \<Rightarrow> tls_order \<times> bytes list" where
  "order_write s x =
     (if to_failed s then (s, [])
      else if length x \<noteq> 40 then (order_fail s, [])
      else let socket = order_socket x; writer = order_writer x in
        if socket = 0 \<or> fst writer = 0 \<or> snd writer = 0 then (order_fail s, [])
        else if order_phase x = 1 then (write_starts s socket writer, [])
        else if order_phase x = 2 then write_ends s socket writer
        else (order_fail s, []))"

text \<open>Any other record. Received plaintext and the end of a connection wait for the writes.\<close>

definition order_data :: "tls_order \<Rightarrow> bytes \<Rightarrow> tls_order \<times> bytes list" where
  "order_data s x =
     (let packet = parseHTTPRecord x; destroyed = parseTCPDestroyRecord x; closing = (destroyed \<noteq> None) in
      if (case packet of Some p \<Rightarrow> hp_decrypted p \<and> to_failed s | None \<Rightarrow> False)
      then (s\<lparr>to_lost := to_lost s + 1\<rparr>, [])
      else let socket = (case packet of Some p \<Rightarrow> hp_socket p
                         | None \<Rightarrow> (case destroyed of Some k \<Rightarrow> k | None \<Rightarrow> 0)) in
      case map_get (to_connections s) socket of
        None \<Rightarrow> (s, [x])
      | Some c \<Rightarrow>
          if \<not> closing \<and>
             (case packet of None \<Rightarrow> True
              | Some p \<Rightarrow> \<not> hp_decrypted p \<or> hp_sent p \<or>
                  \<not> hp_continued p \<and> hp_offset p = 0 \<and> has_prefix (hp_payload p) http2Preface)
          then (s, [x])
          else if goTLSOrderMaxBytes < to_bytes s + int (length x) \<or>
                  goTLSOrderMaxConnectionBytes < tc_bytes c + int (length x) \<or>
                  goTLSOrderMaxRecords \<le> to_records s
          then (let t = order_fail s in (t\<lparr>to_lost := to_lost t + 1\<rparr>, []))
          else let d = (if closing then c\<lparr>tc_closes := tc_closes c @ [x]\<rparr> else c\<lparr>tc_reads := tc_reads c @ [x]\<rparr>) in
            (s\<lparr>to_connections := map_put socket (d\<lparr>tc_bytes := tc_bytes d + int (length x)\<rparr>) (to_connections s),
               to_bytes := to_bytes s + int (length x), to_records := to_records s + 1\<rparr>, []))"

definition order_add :: "tls_order \<Rightarrow> bytes \<Rightarrow> tls_order \<times> bytes list" where
  "order_add s x = (if is_order x then order_write s x else order_data s x)"

definition order_finish :: "tls_order \<Rightarrow> tls_order \<times> u64" where
  "order_finish s =
     (let lost = to_lost s + of_int (to_records s + to_writers s) in
      (s\<lparr>to_lost := lost, to_connections := [], to_records := 0, to_writers := 0, to_bytes := 0\<rparr>, lost))"

subsection \<open>What a record is\<close>

text \<open>An answer: received plaintext of a socket, except the first bytes of an HTTP/2 client.\<close>

definition is_answer :: "u64 \<Rightarrow> bytes \<Rightarrow> bool" where
  "is_answer k x \<longleftrightarrow>
     (case parseHTTPRecord x of
        None \<Rightarrow> False
      | Some p \<Rightarrow> hp_socket p = k \<and> hp_decrypted p \<and> \<not> hp_sent p \<and>
          \<not> (\<not> hp_continued p \<and> hp_offset p = 0 \<and> has_prefix (hp_payload p) http2Preface))"

definition is_closing :: "u64 \<Rightarrow> bytes \<Rightarrow> bool" where
  "is_closing k x \<longleftrightarrow> parseTCPDestroyRecord x = Some k"

text \<open>The writes that the order records have started and not ended on a socket.\<close>

definition open_step :: "u64 \<Rightarrow> writer set \<Rightarrow> bytes \<Rightarrow> writer set" where
  "open_step k W x =
     (if is_order x \<and> order_socket x = k
      then if order_phase x = 1 then insert (order_writer x) W
           else if order_phase x = 2 then W - {order_writer x} else W
      else W)"

text \<open>No answer of a socket is handed on while one of its writes is open.\<close>

fun answers_behind :: "u64 \<Rightarrow> writer set \<Rightarrow> bytes list \<Rightarrow> bytes list list \<Rightarrow> bool" where
  "answers_behind k W (x # xs) (out # outs) =
     (let V = open_step k W x in (V = {} \<or> filter (is_answer k) out = []) \<and> answers_behind k V xs outs)"
| "answers_behind k W xs outs = True"

definition held_answers :: "u64 \<Rightarrow> tls_order \<Rightarrow> bytes list" where
  "held_answers k s = (case map_get (to_connections s) k of None \<Rightarrow> [] | Some c \<Rightarrow> tc_reads c)"

definition held_closes :: "u64 \<Rightarrow> tls_order \<Rightarrow> bytes list" where
  "held_closes k s = (case map_get (to_connections s) k of None \<Rightarrow> [] | Some c \<Rightarrow> tc_closes c)"

definition held_writes :: "u64 \<Rightarrow> tls_order \<Rightarrow> writer set" where
  "held_writes k s =
     (case map_get (to_connections s) k of None \<Rightarrow> {} | Some c \<Rightarrow> {w. map_get (tc_writes c) w \<noteq> None})"

lemma kinds_differ:
  "is_order x \<Longrightarrow> parseHTTPRecord x = None" "is_order x \<Longrightarrow> parseTCPDestroyRecord x = None"
  "parseHTTPRecord x = Some p \<Longrightarrow> parseTCPDestroyRecord x = None"
  by (auto simp: is_order_def parseHTTPRecord_def parseTCPDestroyRecord_def Let_def split: if_splits)

lemma answer_not_order: "is_order x \<Longrightarrow> \<not> is_answer k x \<and> \<not> is_closing k x"
  by (simp add: is_answer_def is_closing_def kinds_differ)

lemma answer_not_closing: "is_answer k x \<Longrightarrow> \<not> is_closing j x"
  by (auto simp: is_answer_def is_closing_def kinds_differ(3) split: option.splits)

lemma answer_socket: "is_answer k x \<Longrightarrow> is_answer j x \<longleftrightarrow> j = k"
  by (auto simp: is_answer_def split: option.splits)

lemma closing_socket: "is_closing k x \<Longrightarrow> is_closing j x \<longleftrightarrow> j = k"
  by (auto simp: is_closing_def)

end
