(* ===== verification/TlsOrderSafety.thy ===== *)
theory TlsOrderSafety
  imports TlsOrder
begin

text \<open>
  The steps of \<open>goTLSOrder\<close> as a relation, one rule per way through \<open>add\<close>, and what every run
  keeps: the counters are the sums they stand for and within their limits, answers keep their
  order and stay behind the writes, and every record is handed on, held or counted as lost.
\<close>

subsection \<open>Steps\<close>

inductive order_step :: "tls_order \<Rightarrow> bytes \<Rightarrow> tls_order \<Rightarrow> bytes list \<Rightarrow> bool" where
  step_ignored: "is_order x \<Longrightarrow> to_failed s \<Longrightarrow> order_step s x s []"
| step_failed: "is_order x \<Longrightarrow> \<not> to_failed s \<Longrightarrow> order_step s x (order_fail s) []"
| step_first: "is_order x \<Longrightarrow> \<not> to_failed s \<Longrightarrow> order_phase x = 1 \<Longrightarrow> order_socket x = k \<Longrightarrow>
    to_writers s < goTLSOrderMaxWriters \<Longrightarrow> map_get (to_connections s) k = None \<Longrightarrow>
    map_len (to_connections s) < goTLSOrderMaxConnections \<Longrightarrow>
    order_step s x (s\<lparr>to_connections := map_put k (newGoTLSConnection\<lparr>tc_writes := map_put (order_writer x) () []\<rparr>) (to_connections s),
                      to_writers := to_writers s + 1\<rparr>) []"
| step_another: "is_order x \<Longrightarrow> \<not> to_failed s \<Longrightarrow> order_phase x = 1 \<Longrightarrow> order_socket x = k \<Longrightarrow>
    to_writers s < goTLSOrderMaxWriters \<Longrightarrow> map_get (to_connections s) k = Some c \<Longrightarrow>
    map_get (tc_writes c) (order_writer x) = None \<Longrightarrow>
    order_step s x (s\<lparr>to_connections := map_put k (c\<lparr>tc_writes := map_put (order_writer x) () (tc_writes c)\<rparr>) (to_connections s),
                      to_writers := to_writers s + 1\<rparr>) []"
| step_ended: "is_order x \<Longrightarrow> \<not> to_failed s \<Longrightarrow> order_phase x = 2 \<Longrightarrow> order_socket x = k \<Longrightarrow>
    map_get (to_connections s) k = Some c \<Longrightarrow> map_get (tc_writes c) (order_writer x) = Some u \<Longrightarrow>
    map_len (map_del (order_writer x) (tc_writes c)) \<noteq> 0 \<Longrightarrow>
    order_step s x (s\<lparr>to_connections := map_put k (c\<lparr>tc_writes := map_del (order_writer x) (tc_writes c)\<rparr>) (to_connections s),
                      to_writers := to_writers s - 1\<rparr>) []"
| step_released: "is_order x \<Longrightarrow> \<not> to_failed s \<Longrightarrow> order_phase x = 2 \<Longrightarrow> order_socket x = k \<Longrightarrow>
    map_get (to_connections s) k = Some c \<Longrightarrow> map_get (tc_writes c) (order_writer x) = Some u \<Longrightarrow>
    map_len (map_del (order_writer x) (tc_writes c)) = 0 \<Longrightarrow>
    order_step s x (s\<lparr>to_connections := map_del k (to_connections s), to_writers := to_writers s - 1,
                      to_bytes := to_bytes s - tc_bytes c,
                      to_records := to_records s - int (length (tc_reads c) + length (tc_closes c))\<rparr>)
      (tc_reads c @ tc_closes c)"
| step_dropped: "\<not> is_order x \<Longrightarrow> to_failed s \<Longrightarrow> order_step s x (s\<lparr>to_lost := to_lost s + 1\<rparr>) []"
| step_forwarded: "\<not> is_order x \<Longrightarrow>
    (\<And>k. is_answer k x \<Longrightarrow> \<not> to_failed s \<and> map_get (to_connections s) k = None) \<Longrightarrow>
    (\<And>k. is_closing k x \<Longrightarrow> map_get (to_connections s) k = None) \<Longrightarrow> order_step s x s [x]"
| step_overflow: "\<not> is_order x \<Longrightarrow> map_get (to_connections s) k = Some c \<Longrightarrow>
    order_step s x ((order_fail s)\<lparr>to_lost := to_lost (order_fail s) + 1\<rparr>) []"
| step_held: "\<not> is_order x \<Longrightarrow> map_get (to_connections s) k = Some c \<Longrightarrow>
    to_bytes s + int (length x) \<le> goTLSOrderMaxBytes \<Longrightarrow>
    tc_bytes c + int (length x) \<le> goTLSOrderMaxConnectionBytes \<Longrightarrow>
    to_records s < goTLSOrderMaxRecords \<Longrightarrow>
    is_answer k x \<and> rs = [x] \<and> cs = [] \<or> is_closing k x \<and> rs = [] \<and> cs = [x] \<Longrightarrow>
    order_step s x (s\<lparr>to_connections := map_put k (c\<lparr>tc_reads := tc_reads c @ rs, tc_closes := tc_closes c @ cs,
                        tc_bytes := tc_bytes c + int (length x)\<rparr>) (to_connections s),
                      to_bytes := to_bytes s + int (length x), to_records := to_records s + 1\<rparr>) []"

lemma write_starts_step:
  assumes "is_order x" and "\<not> to_failed s" and "order_phase x = 1"
  shows "order_step s x (write_starts s (order_socket x) (order_writer x)) []"
proof (cases "map_get (to_connections s) (order_socket x)")
  case None
  then show ?thesis
    using assms step_failed [OF assms(1,2)] step_first [OF assms refl _ None]
    by (auto simp: write_starts_def newGoTLSConnection_def map_get_def not_le)
next
  case (Some c)
  then show ?thesis
    using assms step_failed [OF assms(1,2)] step_another [OF assms refl _ Some]
    by (cases "map_get (tc_writes c) (order_writer x)") (auto simp: write_starts_def not_le)
qed

lemma write_ends_step:
  assumes "is_order x" and "\<not> to_failed s" and "order_phase x = 2"
  shows "order_step s x (fst (write_ends s (order_socket x) (order_writer x)))
           (snd (write_ends s (order_socket x) (order_writer x)))"
proof (cases "map_get (to_connections s) (order_socket x)")
  case None
  then show ?thesis using step_failed [OF assms(1,2)] by (simp add: write_ends_def)
next
  case (Some c)
  show ?thesis
  proof (cases "map_get (tc_writes c) (order_writer x)")
    case None
    then show ?thesis using Some step_failed [OF assms(1,2)] by (simp add: write_ends_def)
  next
    case (Some u)
    then show ?thesis
      using step_ended [OF assms refl \<open>map_get (to_connections s) (order_socket x) = Some c\<close> Some]
        step_released [OF assms refl \<open>map_get (to_connections s) (order_socket x) = Some c\<close> Some]
        \<open>map_get (to_connections s) (order_socket x) = Some c\<close>
      by (auto simp: write_ends_def Let_def)
  qed
qed

lemma order_write_step: "is_order x \<Longrightarrow> order_step s x (fst (order_write s x)) (snd (order_write s x))"
  using step_ignored [of x s] step_failed [of x s] write_starts_step [of x s] write_ends_step [of x s]
  by (auto simp: order_write_def Let_def)

lemma order_data_step: "\<not> is_order x \<Longrightarrow> order_step s x (fst (order_data s x)) (snd (order_data s x))"
proof -
  assume n: "\<not> is_order x"
  show ?thesis
  proof (cases "parseHTTPRecord x")
    case None
    show ?thesis
    proof (cases "parseTCPDestroyRecord x")
      case None
      then have "\<not> is_answer k x" "\<not> is_closing k x" for k
        using \<open>parseHTTPRecord x = None\<close> by (simp_all add: is_answer_def is_closing_def)
      then have "order_step s x s [x]" using n step_forwarded by blast
      then show ?thesis
        using None \<open>parseHTTPRecord x = None\<close> by (simp add: order_data_def split: option.split)
    next
      case (Some k)
      have a: "\<not> is_answer j x" "is_closing j x \<longleftrightarrow> j = k" for j
        using None Some by (auto simp: is_answer_def is_closing_def)
      show ?thesis
      proof (cases "map_get (to_connections s) k")
        case (Some c)
        then show ?thesis
          using None \<open>parseTCPDestroyRecord x = Some k\<close> a n step_overflow [OF n Some]
            step_held [OF n Some, of "[]" "[x]"]
          by (auto simp: order_data_def Let_def not_le)
        next
        case None
        then have "order_step s x s [x]" using a n None by (intro step_forwarded) simp_all
        then show ?thesis
          using None Some \<open>parseHTTPRecord x = None\<close> by (simp add: order_data_def Let_def)
      qed
    qed
  next
    case (Some p)
    have d: "parseTCPDestroyRecord x = None" using kinds_differ(3) [OF Some] .
    have c: "\<not> is_closing j x" for j using d by (simp add: is_closing_def)
    have a: "is_answer j x \<longleftrightarrow> hp_socket p = j \<and> hp_decrypted p \<and> \<not> hp_sent p \<and>
        \<not> (\<not> hp_continued p \<and> hp_offset p = 0 \<and> has_prefix (hp_payload p) http2Preface)" for j
      using Some by (simp add: is_answer_def)
    show ?thesis
    proof (cases "hp_decrypted p \<and> to_failed s")
      case True
      then show ?thesis using Some d n step_dropped by (simp add: order_data_def Let_def)
    next
      case False
      show ?thesis
      proof (cases "map_get (to_connections s) (hp_socket p)")
        case None
        then have "order_step s x s [x]" using False a c n by (intro step_forwarded) auto
        then show ?thesis using None False Some d by (auto simp: order_data_def Let_def)
      next
        case (Some q)
        then show ?thesis
          using \<open>parseHTTPRecord x = Some p\<close> False a c n d step_overflow [OF n Some] step_forwarded [OF n, of s]
            step_held [OF n Some, of "[x]" "[]"]
          by (auto simp: order_data_def Let_def not_le split: if_splits)
      qed
    qed
  qed
qed

lemma order_add_step: "order_step s x (fst (order_add s x)) (snd (order_add s x))"
  by (simp add: order_add_def order_write_step order_data_step)


subsection \<open>The counters\<close>

definition answer_ok :: "u64 \<Rightarrow> tls_connection \<Rightarrow> bool" where
  "answer_ok k c \<longleftrightarrow> list_all (is_answer k) (tc_reads c) \<and> list_all (is_closing k) (tc_closes c)"

definition writes_weight :: "tls_connection \<Rightarrow> nat" where
  "writes_weight c = map_len (tc_writes c)"

definition bytes_weight :: "tls_connection \<Rightarrow> nat" where
  "bytes_weight c = sum_list (map length (tc_reads c)) + sum_list (map length (tc_closes c))"

definition records_weight :: "tls_connection \<Rightarrow> nat" where
  "records_weight c = length (tc_reads c) + length (tc_closes c)"

interpretation writers: counted_map map_get map_put map_del map_len map_each map_total "[]" map_ok writes_weight
  by unfold_locales

interpretation heldbytes: counted_map map_get map_put map_del map_len map_each map_total "[]" map_ok bytes_weight
  by unfold_locales

interpretation heldrecords: counted_map map_get map_put map_del map_len map_each map_total "[]" map_ok records_weight
  by unfold_locales

definition conn_ok :: "u64 \<Rightarrow> tls_connection \<Rightarrow> bool" where
  "conn_ok k c \<longleftrightarrow> map_ok (tc_writes c) \<and> map_len (tc_writes c) \<noteq> 0 \<and> answer_ok k c \<and>
     tc_bytes c = int (bytes_weight c) \<and> tc_bytes c \<le> goTLSOrderMaxConnectionBytes"

definition order_wf :: "tls_order \<Rightarrow> bool" where
  "order_wf s \<longleftrightarrow>
     map_ok (to_connections s) \<and> (\<forall>k c. map_get (to_connections s) k = Some c \<longrightarrow> conn_ok k c) \<and>
     to_writers s = int (map_total writes_weight (to_connections s)) \<and>
     to_bytes s = int (map_total bytes_weight (to_connections s)) \<and>
     to_records s = int (map_total records_weight (to_connections s)) \<and>
     map_len (to_connections s) \<le> goTLSOrderMaxConnections \<and> to_writers s \<le> goTLSOrderMaxWriters \<and>
     to_bytes s \<le> goTLSOrderMaxBytes \<and> to_records s \<le> goTLSOrderMaxRecords \<and>
     (to_failed s \<longrightarrow> to_connections s = [])"

lemmas order_limits = goTLSOrderMaxConnections_def goTLSOrderMaxWriters_def goTLSOrderMaxBytes_def
  goTLSOrderMaxConnectionBytes_def goTLSOrderMaxRecords_def

lemmas order_weights = writes_weight_def bytes_weight_def records_weight_def

lemma order_wf_new: "order_wf newGoTLSOrder"
  by (simp add: order_wf_def newGoTLSOrder_def order_limits map_ok_def map_get_def map_len_def map_total_def)

lemma order_wf_emptied:
  "to_connections s = [] \<Longrightarrow> to_writers s = 0 \<Longrightarrow> to_bytes s = 0 \<Longrightarrow> to_records s = 0 \<Longrightarrow> order_wf s"
  by (simp add: order_wf_def order_limits map_ok_def map_get_def map_len_def map_total_def)

lemma order_wf_fail: "order_wf (order_fail s)" "order_wf ((order_fail s)\<lparr>to_lost := n\<rparr>)"
  by (rule order_wf_emptied; simp add: order_fail_def)+

text \<open>A step that stores one connection keeps the invariant when the counters follow it.\<close>

lemma order_wf_put:
  assumes "order_wf s" and "\<not> to_failed s" and "conn_ok k d"
    and "case map_get (to_connections s) k of None \<Rightarrow> map_len (to_connections s) < goTLSOrderMaxConnections | Some c \<Rightarrow> True"
    and w: "w = to_writers s + (int (writes_weight d) - int (case map_get (to_connections s) k of None \<Rightarrow> 0 | Some c \<Rightarrow> writes_weight c))"
    and b: "b = to_bytes s + (int (bytes_weight d) - int (case map_get (to_connections s) k of None \<Rightarrow> 0 | Some c \<Rightarrow> bytes_weight c))"
    and r: "r = to_records s + (int (records_weight d) - int (case map_get (to_connections s) k of None \<Rightarrow> 0 | Some c \<Rightarrow> records_weight c))"
    and lim: "w \<le> goTLSOrderMaxWriters" "b \<le> goTLSOrderMaxBytes" "r \<le> goTLSOrderMaxRecords"
  shows "order_wf (s\<lparr>to_connections := map_put k d (to_connections s), to_writers := w, to_bytes := b, to_records := r\<rparr>)"
proof -
  let ?m = "to_connections s"
  have m: "map_ok ?m" "to_writers s = int (map_total writes_weight ?m)"
    "to_bytes s = int (map_total bytes_weight ?m)" "to_records s = int (map_total records_weight ?m)"
    and c: "map_get ?m j = Some c \<Longrightarrow> conn_ok j c" for j c
    using assms(1) by (auto simp: order_wf_def)
  have l: "map_len (map_put k d ?m) \<le> goTLSOrderMaxConnections"
    using assms(1,4) by (auto simp: order_wf_def gm.len_put split: option.splits)
  have "w = int (map_total writes_weight (map_put k d ?m))"
    "b = int (map_total bytes_weight (map_put k d ?m))" "r = int (map_total records_weight (map_put k d ?m))"
    using writers.counted_new [OF m(2), of k d] writers.counted_change [OF m(2,1), of k _ d]
      heldbytes.counted_new [OF m(3), of k d] heldbytes.counted_change [OF m(3,1), of k _ d]
      heldrecords.counted_new [OF m(4), of k d] heldrecords.counted_change [OF m(4,1), of k _ d] w b r
    by (cases "map_get ?m k"; simp)+
  then show ?thesis
    unfolding order_wf_def using assms(2,3) c l lim by (simp add: gm.get_put gm.ok_put m(1))
qed

lemma order_wf_del:
  assumes "order_wf s" and "\<not> to_failed s" and k: "map_get (to_connections s) k = Some c"
  shows "order_wf (s\<lparr>to_connections := map_del k (to_connections s), to_writers := to_writers s - int (writes_weight c),
    to_bytes := to_bytes s - int (bytes_weight c), to_records := to_records s - int (records_weight c)\<rparr>)"
proof -
  let ?m = "to_connections s"
  have m: "map_ok ?m" "to_writers s = int (map_total writes_weight ?m)"
    "to_bytes s = int (map_total bytes_weight ?m)" "to_records s = int (map_total records_weight ?m)"
    using assms(1) by (auto simp: order_wf_def)
  show ?thesis
    unfolding order_wf_def
    using assms writers.counted_delete [OF m(2,1) k] heldbytes.counted_delete [OF m(3,1) k]
      heldrecords.counted_delete [OF m(4,1) k]
    by (auto simp: order_wf_def gm.get_del gm.ok_del gm.len_del)
qed

lemma order_step_wf: "order_step s x t out \<Longrightarrow> order_wf s \<Longrightarrow> order_wf t"
proof (induction rule: order_step.induct)
  case (step_first x s k)
  let ?d = "newGoTLSConnection\<lparr>tc_writes := map_put (order_writer x) () []\<rparr>"
  have d: "conn_ok k ?d" "writes_weight ?d = 1" "bytes_weight ?d = 0" "records_weight ?d = 0"
    by (auto simp: conn_ok_def newGoTLSConnection_def answer_ok_def order_weights order_limits gm.ok_put gm.ok_empty
          gm.len_put gm.get_empty gm.len_empty)
  then show ?case
    using order_wf_put [OF step_first.prems step_first(2) d(1), of "to_writers s + 1" "to_bytes s" "to_records s"] step_first
    by (simp add: order_wf_def)
next
  case (step_another x s k c)
  let ?d = "c\<lparr>tc_writes := map_put (order_writer x) () (tc_writes c)\<rparr>"
  have c: "conn_ok k c" using step_another by (simp add: order_wf_def)
  then have d: "conn_ok k ?d" "writes_weight ?d = writes_weight c + 1" "bytes_weight ?d = bytes_weight c"
      "records_weight ?d = records_weight c"
    using step_another by (auto simp: conn_ok_def answer_ok_def order_weights gm.ok_put gm.len_put)
  then show ?case
    using order_wf_put [OF step_another.prems step_another(2) d(1), of "to_writers s + 1" "to_bytes s" "to_records s"] step_another
    by (simp add: order_wf_def)
next
  case (step_ended x s k c u)
  let ?d = "c\<lparr>tc_writes := map_del (order_writer x) (tc_writes c)\<rparr>"
  have c: "conn_ok k c" using step_ended by (simp add: order_wf_def)
  then have d: "conn_ok k ?d" "writes_weight c = writes_weight ?d + 1" "bytes_weight ?d = bytes_weight c"
      "records_weight ?d = records_weight c"
    using step_ended by (auto simp: conn_ok_def answer_ok_def order_weights gm.ok_del gm.len_del)
  then show ?case
    using order_wf_put [OF step_ended.prems step_ended(2) d(1), of "to_writers s - 1" "to_bytes s" "to_records s"] step_ended
    by (simp add: order_wf_def)
next
  case (step_released x s k c u)
  have c: "conn_ok k c" using step_released by (simp add: order_wf_def)
  have "writes_weight c = 1" "tc_bytes c = int (bytes_weight c)"
    using c step_released by (auto simp: conn_ok_def order_weights gm.len_del)
  then show ?case
    using order_wf_del [OF step_released.prems step_released(2,5)] by (simp add: records_weight_def)
next
  case (step_held x s k c rs cs)
  let ?d = "c\<lparr>tc_reads := tc_reads c @ rs, tc_closes := tc_closes c @ cs, tc_bytes := tc_bytes c + int (length x)\<rparr>"
  have nf: "\<not> to_failed s" using step_held by (auto simp: order_wf_def map_get_def)
  have c: "conn_ok k c" using step_held by (simp add: order_wf_def)
  then have d: "conn_ok k ?d" "writes_weight ?d = writes_weight c" "bytes_weight ?d = bytes_weight c + length x"
      "records_weight ?d = records_weight c + 1"
    using step_held by (auto simp: conn_ok_def answer_ok_def order_weights)
  then show ?case
    using order_wf_put [OF step_held.prems nf d(1), of "to_writers s" "to_bytes s + int (length x)" "to_records s + 1"] step_held
    by (simp add: order_wf_def)
qed (simp_all add: order_wf_fail, auto simp: order_wf_def)


subsection \<open>Order\<close>

lemma order_wf_conn: "order_wf s \<Longrightarrow> map_get (to_connections s) k = Some c \<Longrightarrow> conn_ok k c"
  by (simp add: order_wf_def)

lemma filter_answers:
  "list_all (is_answer k) xs \<Longrightarrow> filter (is_answer j) xs = (if j = k then xs else [])"
  "list_all (is_answer k) xs \<Longrightarrow> filter (is_closing j) xs = []"
  by (induction xs) (auto simp: answer_socket answer_not_closing)

lemma filter_closings:
  "list_all (is_closing k) xs \<Longrightarrow> filter (is_closing j) xs = (if j = k then xs else [])"
  "list_all (is_closing k) xs \<Longrightarrow> filter (is_answer j) xs = []"
  by (induction xs) (auto simp: closing_socket dest: answer_not_closing)

lemmas filter_kinds = filter_answers filter_closings

lemmas held_defs = held_answers_def held_closes_def held_writes_def

lemma order_fail_fields [simp]:
  "to_failed (order_fail s)" "held_answers k (order_fail s) = []" "to_connections (order_fail s) = []"
  "to_records (order_fail s) = 0" "to_writers (order_fail s) = 0"
  by (simp_all add: order_fail_def held_defs map_get_def)

lemma step_failed_stays: "order_step s x t out \<Longrightarrow> to_failed s \<Longrightarrow> to_failed t"
  by (induction rule: order_step.induct) simp_all

lemma step_keeps_order:
  assumes "order_step s x t out" and "order_wf s" and "\<not> to_failed t"
  shows "filter (is_answer k) out @ held_answers k t = held_answers k s @ filter (is_answer k) [x] \<and>
    filter (is_closing k) out @ held_closes k t = held_closes k s @ filter (is_closing k) [x] \<and>
    held_writes k t = open_step k (held_writes k s) x"
  using assms
proof (induction rule: order_step.induct)
  case (step_released x s j c u)
  have c: "conn_ok j c" "map_ok (to_connections s)" using step_released by (simp_all add: order_wf_def)
  have "map_del (order_writer x) (tc_writes c) = []" using step_released(7) by (simp add: map_len_def)
  moreover have "map_ok (tc_writes c)" using c by (simp add: conn_ok_def)
  ultimately have get: "map_get [] w = (if w = order_writer x then None else map_get (tc_writes c) w)" for w
    using gm.get_del [of "tc_writes c" "order_writer x" w] by simp
  have gone: "map_get (tc_writes c) w = None" if "w \<noteq> order_writer x" for w
    using get [of w] that by (simp add: gm.get_empty)
  have none: "{w. map_get (tc_writes c) w \<noteq> None} - {order_writer x} = {}"
  proof (rule equals0I, elim DiffE)
    fix w assume "w \<in> {w. map_get (tc_writes c) w \<noteq> None}" "w \<notin> {order_writer x}"
    then show False using gone [of w] by simp
  qed
  have del: "map_get (map_del j (to_connections s)) i = (if i = j then None else map_get (to_connections s) i)" for i
    using c(2) by (rule gm.get_del)
  have "list_all (is_answer j) (tc_reads c)" "list_all (is_closing j) (tc_closes c)"
    using c(1) by (simp_all add: conn_ok_def answer_ok_def)
  note kinds = filter_kinds(1,2) [OF this(1)] filter_kinds(3,4) [OF this(2)]
  show ?case
    using none step_released(1,3,4,5)
    by (cases "k = j") (simp_all add: held_defs del kinds answer_not_order open_step_def)
next
  case (step_held x s j c rs cs)
  then show ?case
    by (auto simp: held_defs gm.get_put open_step_def answer_socket closing_socket dest: answer_not_closing)
next
  case (step_forwarded x s)
  then show ?case
    by (auto simp: held_defs open_step_def dest: answer_not_closing)
next
  case (step_ended x s j c u)
  then show ?case
    using order_wf_conn [OF step_ended(8,5)]
    by (auto simp: held_defs open_step_def gm.get_put gm.get_del conn_ok_def answer_not_order)
qed (auto simp: held_defs open_step_def gm.get_put gm.get_empty newGoTLSConnection_def answer_not_order)

lemma step_failing_silent:
  assumes "order_step s x t out" and "order_wf s" and "to_failed t"
  shows "filter (is_answer k) out = []"
  using assms by (induction rule: order_step.induct) auto

lemma step_answers_behind:
  assumes "order_step s x t out" and "order_wf s" and "filter (is_answer k) out \<noteq> []"
  shows "\<not> to_failed t \<and> held_writes k t = {}"
  using assms
proof (induction rule: order_step.induct)
  case (step_released x s j c u)
  then have "map_ok (to_connections s)" "conn_ok j c" by (simp_all add: order_wf_def)
  then show ?case
    using step_released by (auto simp: held_defs gm.get_del conn_ok_def answer_ok_def filter_kinds split: if_splits)
qed (auto simp: held_defs split: if_splits)

lemma order_add_wf: "order_wf s \<Longrightarrow> order_wf (fst (order_add s x))"
  using order_step_wf [OF order_add_step] .

lemma run_behind:
  "order_wf s \<Longrightarrow> (\<not> to_failed s \<Longrightarrow> W = held_writes k s) \<Longrightarrow> answers_behind k W xs (snd (op_run order_add s xs))"
proof (induction xs arbitrary: s W)
  case (Cons x xs)
  obtain t out where t: "order_add s x = (t, out)" by fastforce
  note st = order_add_step [of s x, unfolded t fst_conv snd_conv]
  have w: "\<not> to_failed t \<Longrightarrow> open_step k W x = held_writes k t"
    using step_keeps_order [OF st Cons.prems(1), of k] step_failed_stays [OF st] Cons.prems(2) by auto
  have "open_step k W x = {} \<or> filter (is_answer k) out = []"
    using step_answers_behind [OF st Cons.prems(1), of k] w by auto
  moreover have "answers_behind k (open_step k W x) xs (snd (op_run order_add t xs))"
    using Cons.IH order_step_wf [OF st Cons.prems(1)] w by blast
  ultimately show ?case by (simp add: t Let_def split_beta)
qed simp

lemma run_wf: "order_wf s \<Longrightarrow> order_wf (fst (op_run order_add s xs))"
  by (induction xs arbitrary: s) (simp_all add: Let_def split_beta order_step_wf [OF order_add_step])

lemma run_failed_silent:
  "order_wf s \<Longrightarrow> to_failed s \<Longrightarrow> filter (is_answer k) (concat (snd (op_run order_add s xs))) = []"
proof (induction xs arbitrary: s)
  case (Cons x xs)
  obtain t out where t: "order_add s x = (t, out)" by fastforce
  note st = order_add_step [of s x, unfolded t fst_conv snd_conv]
  have f: "to_failed t" using step_failed_stays [OF st] Cons.prems(2) .
  show ?case
    using Cons.IH [OF order_step_wf [OF st Cons.prems(1)] f] step_failing_silent [OF st Cons.prems(1) f]
    by (simp add: t Let_def split_beta)
qed simp

lemma filter_shift: "ys @ ws = zs @ filter P [x] \<Longrightarrow> zs @ filter P (x # xs) = ys @ ws @ filter P xs"
proof -
  assume h: "ys @ ws = zs @ filter P [x]"
  have "zs @ filter P (x # xs) = (zs @ filter P [x]) @ filter P xs" by simp
  then show ?thesis by (simp only: h [symmetric] append.assoc)
qed

lemma run_order:
  assumes "order_wf s"
  shows "let (t, outs) = op_run order_add s xs
    in if to_failed t then prefix (filter (is_answer k) (concat outs)) (held_answers k s @ filter (is_answer k) xs)
       else filter (is_answer k) (concat outs) @ held_answers k t = held_answers k s @ filter (is_answer k) xs \<and>
            filter (is_closing k) (concat outs) @ held_closes k t = held_closes k s @ filter (is_closing k) xs"
  using assms
proof (induction xs arbitrary: s)
  case (Cons x xs)
  obtain t out where t: "order_add s x = (t, out)" by fastforce
  obtain u outs where u: "op_run order_add t xs = (u, outs)" by fastforce
  note st = order_add_step [of s x, unfolded t fst_conv snd_conv]
  have wf: "order_wf t" using order_step_wf [OF st Cons.prems] .
  show ?case
  proof (cases "to_failed t")
    case True
    have "filter (is_answer k) (concat outs) = []" using run_failed_silent [OF wf True, of k xs] by (simp add: u)
    moreover have "to_failed u"
    proof -
      have "to_failed s \<Longrightarrow> to_failed (fst (op_run order_add s xs))" for s
        by (induction xs arbitrary: s) (simp_all add: Let_def split_beta step_failed_stays [OF order_add_step])
      from this [OF True] show ?thesis by (simp add: u)
    qed
    ultimately show ?thesis
      using step_failing_silent [OF st Cons.prems True, of k] by (simp add: t u)
  next
    case False
    note k = step_keeps_order [OF st Cons.prems False, of k]
    note ih = Cons.IH [OF wf, unfolded u Let_def prod.case]
    have a: "held_answers k s @ filter (is_answer k) (x # xs) =
        filter (is_answer k) out @ held_answers k t @ filter (is_answer k) xs"
      using k by (intro filter_shift) blast
    have c: "held_closes k s @ filter (is_closing k) (x # xs) =
        filter (is_closing k) out @ held_closes k t @ filter (is_closing k) xs"
      using k by (intro filter_shift) blast
    show ?thesis
      unfolding t u op_run.simps Let_def prod.case a c concat.simps filter_append append.assoc
        same_prefix_prefix same_append_eq by (rule ih)
  qed
qed (simp split: if_splits)



subsection \<open>Accounting\<close>

text \<open>
  One step in numbers: \<open>d\<close> records are counted as lost, of which \<open>e\<close> are not records of data but
  the writes that were open when the order failed, and the record that made it fail.
\<close>

definition step_accounts :: "tls_order \<Rightarrow> bytes \<Rightarrow> tls_order \<Rightarrow> bytes list \<Rightarrow> nat \<Rightarrow> nat \<Rightarrow> bool" where
  "step_accounts s x t out d e \<longleftrightarrow>
     to_lost t = to_lost s + of_nat d \<and>
     int (length out) + to_records t + int d = to_records s + (if is_order x then 0 else 1) + int e \<and>
     int (length out) + to_records t \<le> to_records s + (if is_order x then 0 else 1) \<and>
     (if to_failed s \<or> \<not> to_failed t then e = 0 else int e \<le> goTLSOrderMaxWriters + 1) \<and>
     (to_failed t \<or> d = 0) \<and> (to_failed s \<longrightarrow> to_failed t)"

lemma fail_accounts:
  assumes "order_wf s"
  shows "\<exists>n. to_lost (order_fail s) = to_lost s + of_nat n \<and> int n = to_records s + to_writers s + 1"
proof (intro exI conjI)
  have "0 \<le> to_records s + to_writers s + 1" using assms by (simp add: order_wf_def)
  then show "int (nat (to_records s + to_writers s + 1)) = to_records s + to_writers s + 1"
    and "to_lost (order_fail s) = to_lost s + of_nat (nat (to_records s + to_writers s + 1))"
    by (simp_all add: order_fail_def)
qed

lemma order_step_accounts:
  assumes "order_step s x t out" and "order_wf s"
  shows "\<exists>d e. step_accounts s x t out d e"
  using assms
proof (induction rule: order_step.induct)
  case (step_failed x s)
  obtain n where n: "to_lost (order_fail s) = to_lost s + of_nat n" "int n = to_records s + to_writers s + 1"
    using fail_accounts [OF step_failed.prems] by blast
  have "0 \<le> to_writers s" "to_writers s \<le> goTLSOrderMaxWriters" "0 \<le> to_records s"
    using step_failed.prems by (simp_all add: order_wf_def)
  then have "step_accounts s x (order_fail s) [] n (nat (to_writers s + 1))"
    using step_failed n by (simp add: step_accounts_def)
  then show ?case by blast
next
  case (step_overflow x s k c)
  obtain n where n: "to_lost (order_fail s) = to_lost s + of_nat n" "int n = to_records s + to_writers s + 1"
    using fail_accounts [OF step_overflow.prems] by blast
  have "0 \<le> to_writers s" "to_writers s \<le> goTLSOrderMaxWriters" "0 \<le> to_records s" "\<not> to_failed s"
    using step_overflow by (auto simp: order_wf_def map_get_def)
  then have "step_accounts s x ((order_fail s)\<lparr>to_lost := to_lost (order_fail s) + 1\<rparr>) [] (Suc n) (nat (to_writers s + 1))"
    using step_overflow n by (simp add: step_accounts_def)
  then show ?case by blast
next
  case (step_dropped x s)
  then have "step_accounts s x (s\<lparr>to_lost := to_lost s + 1\<rparr>) [] 1 0" by (simp add: step_accounts_def)
  then show ?case by blast
qed (auto simp: step_accounts_def intro!: exI [of _ "0 :: nat"])

definition data_records :: "bytes list \<Rightarrow> nat" where
  "data_records xs = length (filter (\<lambda>x. \<not> is_order x) xs)"

lemma run_accounts:
  assumes "order_wf s"
  shows "let (t, outs) = op_run order_add s xs; sent = length (concat outs)
    in order_wf t \<and> (\<exists>d e. to_lost t = to_lost s + of_nat d \<and>
         int sent + to_records t + int d = to_records s + int (data_records xs) + int e \<and>
         int sent + to_records t \<le> to_records s + int (data_records xs) \<and>
         (if to_failed s \<or> \<not> to_failed t then e = 0 else int e \<le> goTLSOrderMaxWriters + 1) \<and>
         (to_failed t \<or> d = 0) \<and> (to_failed s \<longrightarrow> to_failed t))"
  using assms
proof (induction xs arbitrary: s)
  case (Cons x xs)
  obtain t out where t: "order_add s x = (t, out)" by fastforce
  obtain u outs where u: "op_run order_add t xs = (u, outs)" by fastforce
  note st = order_add_step [of s x, unfolded t fst_conv snd_conv]
  have wf: "order_wf t" using order_step_wf [OF st Cons.prems] .
  obtain d e where de: "step_accounts s x t out d e" using order_step_accounts [OF st Cons.prems] by blast
  obtain d' e' where ih: "order_wf u" "to_lost u = to_lost t + of_nat d'"
    "int (length (concat outs)) + to_records u + int d' = to_records t + int (data_records xs) + int e'"
    "int (length (concat outs)) + to_records u \<le> to_records t + int (data_records xs)"
    "if to_failed t \<or> \<not> to_failed u then e' = 0 else int e' \<le> goTLSOrderMaxWriters + 1"
    "to_failed u \<or> d' = 0" "to_failed t \<longrightarrow> to_failed u"
    using Cons.IH [OF wf] unfolding u Let_def prod.case by blast
  have n: "int (data_records (x # xs)) = (if is_order x then 0 else 1) + int (data_records xs)"
    by (simp add: data_records_def)
  have l: "int (length (concat (out # outs))) = int (length out) + int (length (concat outs))" by simp
  have "to_lost u = to_lost s + of_nat (d + d')" using de ih(2) by (simp add: step_accounts_def add.assoc)
  moreover have "int (length (concat (out # outs))) + to_records u + int (d + d') =
      to_records s + int (data_records (x # xs)) + int (e + e')"
    using de ih(3) unfolding n l step_accounts_def by linarith
  moreover have "int (length (concat (out # outs))) + to_records u \<le> to_records s + int (data_records (x # xs))"
    using de ih(4) unfolding n l step_accounts_def by linarith
  moreover have "if to_failed s \<or> \<not> to_failed u then e + e' = 0 else int (e + e') \<le> goTLSOrderMaxWriters + 1"
    using de ih(5,7) unfolding step_accounts_def by (auto split: if_splits)
  moreover have "to_failed u \<or> d + d' = 0" "to_failed s \<longrightarrow> to_failed u"
    using de ih(6,7) unfolding step_accounts_def by auto
  ultimately show ?case unfolding t u op_run.simps Let_def prod.case using ih(1) by blast
qed (auto simp: data_records_def intro!: exI [of _ "0 :: nat"])

text \<open>
  C21. In every run the counters of the order are exact sums over its connections and within
  their limits, at most every captured record is handed on, and the number that the order
  reports at the end is the number of records captured and not handed on, plus at most 10241
  for writes left open and the record that made the order fail. Nothing is lost without being
  counted.
\<close>

theorem go_tls_nothing_silent:
  "let (s, outs) = op_run order_add newGoTLSOrder xs; sent = length (concat outs)
   in order_wf s \<and> sent \<le> data_records xs \<and>
      (\<exists>e. e \<le> 10241 \<and> snd (order_finish s) = of_nat (data_records xs - sent + e))"
proof -
  obtain s outs where s: "op_run order_add newGoTLSOrder xs = (s, outs)" by fastforce
  let ?sent = "length (concat outs)"
  have new: "to_lost newGoTLSOrder = 0" "to_records newGoTLSOrder = 0" "\<not> to_failed newGoTLSOrder"
    by (simp_all add: newGoTLSOrder_def)
  obtain d e where de: "order_wf s" "to_lost s = of_nat d"
    "int ?sent + to_records s + int d = int (data_records xs) + int e"
    "int ?sent + to_records s \<le> int (data_records xs)"
    "if to_failed newGoTLSOrder \<or> \<not> to_failed s then e = 0 else int e \<le> goTLSOrderMaxWriters + 1"
    using run_accounts [OF order_wf_new, of xs] new(3) unfolding s Let_def prod.case new(1,2) add_0 by blast
  have w: "0 \<le> to_writers s" "to_writers s \<le> 10240" "0 \<le> to_records s" "to_failed s \<longrightarrow> to_writers s = 0"
    using de(1) by (auto simp: order_wf_def order_limits map_total_def)
  let ?e = "e + nat (to_writers s)"
  have le: "?sent \<le> data_records xs" using de(4) w(3) by linarith
  have "int d + to_records s + to_writers s = int (data_records xs - ?sent + ?e)"
    using de(3) le w(1) by (simp add: of_nat_diff)
  then have "snd (order_finish s) = of_nat (data_records xs - ?sent + ?e)"
    unfolding order_finish_def Let_def snd_conv de(2)
    by (metis add.assoc of_int_add of_int_of_nat_eq)
  moreover have "?e \<le> 10241" using de(5) w new(3) by (auto simp: order_limits split: if_splits)
  ultimately show ?thesis using de(1) le by (auto simp: s)
qed

end
