(* ===== verification/TlsCalls.thy ===== *)
theory TlsCalls
  imports TlsQueue
begin

text \<open>
  The order of Go TLS records on macOS (\<open>internal/edc/trace_http_tls_go_dtrace_order.go\<close>). The probes
  report the start and the end of every read and write of a connection, snapshots of the bytes
  a write was given, and its result. While a write is open, plaintext received on the connection
  is held; a snapshot is handed on when the result says how much of it was written; the end of
  the connection waits for all its calls. Here are the state and the operations.
\<close>

subsection \<open>State\<close>

definition darwinTLSGoOrderBytes :: int where "darwinTLSGoOrderBytes = 32 * 1024 * 1024"
definition darwinTLSGoOrderConnectionBytes :: int where "darwinTLSGoOrderConnectionBytes = 4 * 1024 * 1024"
definition darwinTLSGoOrderRecords :: int where "darwinTLSGoOrderRecords = 4096"
definition darwinTLSGoOrderCalls :: nat where "darwinTLSGoOrderCalls = 10240"
definition pktapHTTPFlowLimit :: nat where "pktapHTTPFlowLimit = 4096"
definition httpMessageMax :: nat where "httpMessageMax = 1024 * 1024"

record go_call =
  gk_object :: u64
  gk_goroutine :: u64
  gk_frame :: u64
  gk_sent :: bool

record go_conn =
  gc_active :: int
  gc_writers :: int
  gc_bytes :: int
  gc_reads :: "dtls_record list"
  gc_closes :: "dtls_record list"
  gc_writes :: "dtls_record list"

record go_observation =
  ob_serial :: u64
  ob_key :: go_call
  ob_phase :: u8
  ob_closed :: bool
  ob_size :: u64
  ob_offset :: u32

record go_order =
  go_serial :: u64
  go_recent :: "go_observation list"
  go_calls :: "(go_call, u64) gomap"
  go_connections :: "(u64, go_conn) gomap"
  go_bytes :: int
  go_records :: int

text \<open>Every way in which \<open>add\<close> and \<open>finish\<close> can end without a result; \<open>GoPanic\<close> is a nil pointer.\<close>

datatype go_error =
  GoDuplicateBegin | GoCallLimit | GoOverlap | GoNoWriter | GoSnapshotLimit | GoSnapshotGap |
  GoNoActiveCall | GoOffsetChanged | GoExceedsSnapshot | GoNoBegin | GoUnconfirmed | GoBadPhase |
  GoPendingLimit | GoOpenWrite | GoPanic

definition zero_observation :: go_observation where
  "zero_observation = \<lparr>ob_serial = 0, ob_key = \<lparr>gk_object = 0, gk_goroutine = 0, gk_frame = 0, gk_sent = False\<rparr>,
     ob_phase = 0, ob_closed = False, ob_size = 0, ob_offset = 0\<rparr>"

definition newDarwinTLSGoConnection :: go_conn where
  "newDarwinTLSGoConnection = \<lparr>gc_active = 0, gc_writers = 0, gc_bytes = 0, gc_reads = [], gc_closes = [], gc_writes = []\<rparr>"

definition newDarwinTLSGoOrder :: go_order where
  "newDarwinTLSGoOrder = \<lparr>go_serial = 0, go_recent = replicate 16 zero_observation, go_calls = [],
     go_connections = [], go_bytes = 0, go_records = 0\<rparr>"

definition call_key :: "dtls_record \<Rightarrow> go_call" where
  "call_key r = \<lparr>gk_object = dr_object r, gk_goroutine = dr_goroutine r, gk_frame = dr_frame r, gk_sent = dr_sent r\<rparr>"

definition go_conn_at :: "go_order \<Rightarrow> u64 \<Rightarrow> go_conn option" where
  "go_conn_at g k = map_get (go_connections g) k"

definition go_store :: "u64 \<Rightarrow> go_conn \<Rightarrow> go_order \<Rightarrow> go_order" where
  "go_store k c g = g\<lparr>go_connections := map_put k c (go_connections g)\<rparr>"

subsection \<open>\<open>add\<close>\<close>

text \<open>The last sixteen records are kept for the message of an error.\<close>

definition go_observe :: "go_order \<Rightarrow> dtls_record \<Rightarrow> go_order" where
  "go_observe g r =
     (let serial = go_serial g + 1 in
      g\<lparr>go_serial := serial,
        go_recent := (go_recent g)[unat ((serial - 1) mod 16) :=
          \<lparr>ob_serial = serial, ob_key = call_key r, ob_phase = dr_goPhase r, ob_closed = dr_closed r,
           ob_size = dr_size r, ob_offset = dr_offset r\<rparr>]\<rparr>)"

text \<open>\<open>release\<close>; nothing when a record names a connection that is gone.\<close>

fun go_release :: "go_order \<Rightarrow> dtls_record list \<Rightarrow> go_order option" where
  "go_release g [] = Some g"
| "go_release g (r # rs) =
     (case go_conn_at g (dr_object r) of
        None \<Rightarrow> None
      | Some c \<Rightarrow>
          go_release (go_store (dr_object r) (c\<lparr>gc_bytes := gc_bytes c - int (dr_cap r)\<rparr>)
            (g\<lparr>go_bytes := go_bytes g - int (dr_cap r), go_records := go_records g - 1\<rparr>)) rs)"

definition go_begin :: "go_order \<Rightarrow> dtls_record \<Rightarrow> go_error + go_order \<times> dtls_record list" where
  "go_begin g r =
     (let known = go_conn_at g (dr_object r) in
      if map_get (go_calls g) (call_key r) \<noteq> None
      then Inl (if known = None then GoPanic else GoDuplicateBegin)
      else if darwinTLSGoOrderCalls \<le> map_len (go_calls g) \<or>
              known = None \<and> pktapHTTPFlowLimit \<le> map_len (go_connections g) then Inl GoCallLimit
      else if (case known of None \<Rightarrow> False
               | Some c \<Rightarrow> dr_sent r \<and> gc_writers c \<noteq> 0 \<or> \<not> dr_sent r \<and> gc_active c - gc_writers c \<noteq> 0)
      then Inl GoOverlap
      else let c = (case known of None \<Rightarrow> newDarwinTLSGoConnection | Some c \<Rightarrow> c);
               d = c\<lparr>gc_active := gc_active c + 1, gc_writers := (if dr_sent r then gc_writers c + 1 else gc_writers c)\<rparr> in
        Inr ((go_store (dr_object r) d g)\<lparr>go_calls := map_put (call_key r) (go_serial g) (go_calls g)\<rparr>, []))"

definition over_limit :: "go_order \<Rightarrow> go_conn \<Rightarrow> dtls_record \<Rightarrow> bool" where
  "over_limit g c r \<longleftrightarrow> darwinTLSGoOrderRecords \<le> go_records g \<or>
     darwinTLSGoOrderBytes < go_bytes g + int (dr_cap r) \<or>
     darwinTLSGoOrderConnectionBytes < gc_bytes c + int (dr_cap r)"

definition go_snapshot :: "go_order \<Rightarrow> dtls_record \<Rightarrow> go_error + go_order \<times> dtls_record list" where
  "go_snapshot g r =
     (case go_conn_at g (dr_object r) of
        None \<Rightarrow> Inl GoNoWriter
      | Some c \<Rightarrow>
          if gc_writers c \<noteq> 1 \<or> \<not> dr_sent r then Inl GoNoWriter
          else if over_limit g c r then Inl GoSnapshotLimit
          else if gc_writes c \<noteq> [] \<and>
                  dr_offset r \<noteq> dr_offset (last (gc_writes c)) + of_nat (length (dr_payload (last (gc_writes c))))
          then Inl GoSnapshotGap
          else Inr ((go_store (dr_object r)
                       (c\<lparr>gc_writes := gc_writes c @ [r], gc_bytes := gc_bytes c + int (dr_cap r)\<rparr>) g)
                      \<lparr>go_bytes := go_bytes g + int (dr_cap r), go_records := go_records g + 1\<rparr>, []))"

text \<open>The part of the snapshots that the result \<open>r\<close> confirms; \<open>left\<close> bytes are still to come.\<close>

fun go_confirm :: "dtls_record \<Rightarrow> u64 \<Rightarrow> dtls_record list \<Rightarrow> dtls_record list" where
  "go_confirm r left [] = []"
| "go_confirm r left (c # cs) =
     (if left = 0 then []
      else let n = min (of_nat (length (dr_payload c))) left in
        c\<lparr>dr_payload := take (unat n) (dr_payload c),
          dr_size := (if of_nat httpMessageMax < dr_size r then dr_size r else n),
          dr_fd := dr_fd r, dr_goPhase := 0,
          dr_offset := dr_offset r + ucast (dr_size r - left)\<rparr> # go_confirm r (left - n) cs)"

definition go_result :: "go_order \<Rightarrow> dtls_record \<Rightarrow> go_error + go_order \<times> dtls_record list" where
  "go_result g r =
     (case go_conn_at g (dr_object r) of
        None \<Rightarrow> Inl GoNoActiveCall
      | Some c \<Rightarrow>
          if map_get (go_calls g) (call_key r) = None \<or> gc_writers c \<noteq> 1 then Inl GoNoActiveCall
          else if gc_writes c \<noteq> [] \<and> dr_offset (hd (gc_writes c)) \<noteq> dr_offset r then Inl GoOffsetChanged
          else let captured = sum_list (map (\<lambda>w. length (dr_payload w)) (gc_writes c)) in
            if (of_nat captured :: u64) < min (dr_size r) (of_nat httpMessageMax) then Inl GoExceedsSnapshot
            else case go_release g (gc_writes c) of
                None \<Rightarrow> Inl GoPanic
              | Some h \<Rightarrow>
                  (case go_conn_at h (dr_object r) of
                     None \<Rightarrow> Inl GoPanic
                   | Some d \<Rightarrow> Inr (go_store (dr_object r) (d\<lparr>gc_writes := []\<rparr>) h,
                                   go_confirm r (dr_size r) (gc_writes c))))"

text \<open>
  The end of a call, after its connection \<open>d\<close> was stored in \<open>g\<close>: the answers go when no write is
  open, the ends of the connection go with it when no call is open.
\<close>

definition go_ended :: "go_order \<Rightarrow> u64 \<Rightarrow> go_conn \<Rightarrow> go_error + go_order \<times> dtls_record list" where
  "go_ended g k d =
     (let free = (if gc_writers d = 0 then gc_reads d else []) in
      case go_release g free of
        None \<Rightarrow> Inl GoPanic
      | Some h \<Rightarrow>
          (case go_conn_at h k of
             None \<Rightarrow> Inl GoPanic
           | Some e \<Rightarrow>
               let i = (if gc_writers d = 0 then go_store k (e\<lparr>gc_reads := []\<rparr>) h else h) in
               if gc_active d \<noteq> 0 then Inr (i, free)
               else case go_release i (gc_closes d) of
                   None \<Rightarrow> Inl GoPanic
                 | Some l \<Rightarrow> Inr (l\<lparr>go_connections := map_del k (go_connections l)\<rparr>, free @ gc_closes d)))"

definition go_end :: "go_order \<Rightarrow> dtls_record \<Rightarrow> go_error + go_order \<times> dtls_record list" where
  "go_end g r =
     (case go_conn_at g (dr_object r) of
        None \<Rightarrow> Inl GoNoBegin
      | Some c \<Rightarrow>
          if map_get (go_calls g) (call_key r) = None then Inl GoNoBegin
          else if dr_sent r \<and> gc_writes c \<noteq> [] then Inl GoUnconfirmed
          else let d = c\<lparr>gc_active := gc_active c - 1,
                         gc_writers := (if dr_sent r then gc_writers c - 1 else gc_writers c)\<rparr> in
            go_ended ((go_store (dr_object r) d g)\<lparr>go_calls := map_del (call_key r) (go_calls g)\<rparr>) (dr_object r) d)"

definition go_plain :: "go_order \<Rightarrow> dtls_record \<Rightarrow> go_error + go_order \<times> dtls_record list" where
  "go_plain g r =
     (case go_conn_at g (dr_object r) of
        None \<Rightarrow> Inr (g, [r])
      | Some c \<Rightarrow>
          if dr_closed r \<or> \<not> dr_sent r \<and> 0 < gc_writers c
          then if over_limit g c r then Inl GoPendingLimit
            else let d = c\<lparr>gc_bytes := gc_bytes c + int (dr_cap r)\<rparr> in
              Inr ((go_store (dr_object r)
                      (if dr_closed r then d\<lparr>gc_closes := gc_closes d @ [r]\<rparr> else d\<lparr>gc_reads := gc_reads d @ [r]\<rparr>) g)
                     \<lparr>go_bytes := go_bytes g + int (dr_cap r), go_records := go_records g + 1\<rparr>, [])
          else Inr (g, [r]))"

definition go_add :: "go_order \<Rightarrow> dtls_record \<Rightarrow> go_error + go_order \<times> dtls_record list" where
  "go_add g r =
     (let h = go_observe g r in
      if dr_goPhase r = 1 then go_begin h r
      else if dr_goPhase r = 3 then go_snapshot h r
      else if dr_goPhase r = 4 then go_result h r
      else if dr_goPhase r = 2 then go_end h r
      else if dr_goPhase r \<noteq> 0 then Inl GoBadPhase
      else go_plain h r)"

text \<open>The worker stops at the first error.\<close>

fun go_run :: "go_order \<Rightarrow> dtls_record list \<Rightarrow> go_order \<times> dtls_record list list \<times> go_error option" where
  "go_run g [] = (g, [], None)"
| "go_run g (r # rs) =
     (case go_add g r of
        Inl e \<Rightarrow> (g, [], Some e)
      | Inr (h, out) \<Rightarrow> (let (i, outs, e) = go_run h rs in (i, out # outs, e)))"

text \<open>\<open>finish\<close>; \<open>order\<close> is the order in which the loops meet the connections.\<close>

definition go_finish :: "u64 list \<Rightarrow> go_order \<Rightarrow> go_error + dtls_record list" where
  "go_finish order g =
     (if list_all (\<lambda>k. case go_conn_at g k of None \<Rightarrow> True | Some c \<Rightarrow> gc_writers c = 0) (map_range order (go_connections g))
      then Inr (concat (map (\<lambda>k. case go_conn_at g k of None \<Rightarrow> [] | Some c \<Rightarrow> gc_reads c @ gc_closes c)
                  (map_range order (go_connections g))))
      else Inl GoOpenWrite)"

end
