(* ===== verification/TlsCallsSafety.thy ===== *)
theory TlsCallsSafety
  imports TlsCalls
begin

text \<open>
  The steps of \<open>darwinTLSGoOrder\<close> as a relation, what every run keeps, and the properties: no
  answer passes an open write, none is lost or reordered, no run meets a nil pointer, and a
  result hands on exactly the bytes that were written.
\<close>

subsection \<open>Releasing\<close>

lemma go_conn_at_store [simp]: "go_conn_at (go_store k c g) j = (if j = k then Some c else go_conn_at g j)"
  by (simp add: go_conn_at_def go_store_def gm.get_put)

lemma go_release_closed:
  assumes "list_all (\<lambda>r. dr_object r = k) rs" and "go_conn_at g k = Some c"
  shows "go_release g rs = Some (go_store k (c\<lparr>gc_bytes := gc_bytes c - int (kept_bytes rs)\<rparr>)
    (g\<lparr>go_bytes := go_bytes g - int (kept_bytes rs), go_records := go_records g - int (length rs)\<rparr>))"
  using assms
proof (induction rs arbitrary: g c)
  case Nil
  then show ?case by (simp add: go_store_def map_put_same go_conn_at_def)
next
  case (Cons r rs)
  have r: "dr_object r = k" "list_all (\<lambda>r. dr_object r = k) rs" using Cons.prems by simp_all
  let ?g = "go_store k (c\<lparr>gc_bytes := gc_bytes c - int (dr_cap r)\<rparr>)
    (g\<lparr>go_bytes := go_bytes g - int (dr_cap r), go_records := go_records g - 1\<rparr>)"
  have "go_release g (r # rs) = go_release ?g rs"
    using Cons.prems(2) r by simp
  also have "\<dots> = Some (go_store k ((c\<lparr>gc_bytes := gc_bytes c - int (dr_cap r)\<rparr>)
        \<lparr>gc_bytes := gc_bytes c - int (dr_cap r) - int (kept_bytes rs)\<rparr>)
      (?g\<lparr>go_bytes := go_bytes ?g - int (kept_bytes rs), go_records := go_records ?g - int (length rs)\<rparr>))"
    using Cons.IH [OF r(2), of ?g] by simp
  finally show ?case by (simp add: go_store_def map_put_put algebra_simps)
qed

subsection \<open>Steps\<close>

definition received :: "u64 \<Rightarrow> dtls_record \<Rightarrow> bool" where
  "received k r \<longleftrightarrow> dr_goPhase r = 0 \<and> \<not> dr_sent r \<and> \<not> dr_closed r \<and> dr_object r = k"

definition closing :: "u64 \<Rightarrow> dtls_record \<Rightarrow> bool" where
  "closing k r \<longleftrightarrow> dr_goPhase r = 0 \<and> \<not> dr_sent r \<and> dr_closed r \<and> dr_object r = k"

text \<open>One more record is kept for a connection, which becomes \<open>d\<close>.\<close>

definition go_keep :: "u64 \<Rightarrow> go_conn \<Rightarrow> dtls_record \<Rightarrow> go_order \<Rightarrow> go_order" where
  "go_keep k d r g =
     (go_store k (d\<lparr>gc_bytes := gc_bytes d + int (dr_cap r)\<rparr>) g)\<lparr>go_bytes := go_bytes g + int (dr_cap r), go_records := go_records g + 1\<rparr>"

text \<open>The records \<open>rs\<close> of a connection are given up, which becomes \<open>d\<close>.\<close>

definition go_free :: "u64 \<Rightarrow> go_conn \<Rightarrow> dtls_record list \<Rightarrow> go_order \<Rightarrow> go_order" where
  "go_free k d rs g =
     (go_store k (d\<lparr>gc_bytes := gc_bytes d - int (kept_bytes rs)\<rparr>) g)
       \<lparr>go_bytes := go_bytes g - int (kept_bytes rs), go_records := go_records g - int (length rs)\<rparr>"

inductive go_step :: "go_order \<Rightarrow> dtls_record \<Rightarrow> go_order \<Rightarrow> dtls_record list \<Rightarrow> bool" where
  go_step_begin: "dr_goPhase r = 1 \<Longrightarrow> dr_object r = k \<Longrightarrow> map_get (go_calls g) (call_key r) = None \<Longrightarrow>
    map_len (go_calls g) < darwinTLSGoOrderCalls \<Longrightarrow>
    (case go_conn_at g k of
       None \<Rightarrow> c = newDarwinTLSGoConnection \<and> map_len (go_connections g) < pktapHTTPFlowLimit
     | Some c' \<Rightarrow> c = c') \<Longrightarrow>
    (if dr_sent r then gc_writers c = 0 else gc_active c = gc_writers c) \<Longrightarrow>
    h = go_store k (c\<lparr>gc_active := gc_active c + 1, gc_writers := (if dr_sent r then gc_writers c + 1 else gc_writers c)\<rparr>) g \<Longrightarrow>
    go_step g r (h\<lparr>go_calls := map_put (call_key r) n (go_calls g)\<rparr>) []"
| go_step_snapshot: "dr_goPhase r = 3 \<Longrightarrow> dr_object r = k \<Longrightarrow> go_conn_at g k = Some c \<Longrightarrow> gc_writers c = 1 \<Longrightarrow>
    dr_sent r \<Longrightarrow> \<not> over_limit g c r \<Longrightarrow>
    go_step g r (go_keep k (c\<lparr>gc_writes := gc_writes c @ [r]\<rparr>) r g) []"
| go_step_result: "dr_goPhase r = 4 \<Longrightarrow> dr_object r = k \<Longrightarrow> go_conn_at g k = Some c \<Longrightarrow>
    gc_writers c = 1 \<Longrightarrow> \<not> (of_nat (sum_list (map (\<lambda>w. length (dr_payload w)) (gc_writes c))) :: u64)
      < min (dr_size r) (of_nat httpMessageMax) \<Longrightarrow>
    go_step g r (go_free k (c\<lparr>gc_writes := []\<rparr>) (gc_writes c) g) (go_confirm r (dr_size r) (gc_writes c))"
| go_step_end: "dr_goPhase r = 2 \<Longrightarrow> dr_object r = k \<Longrightarrow> go_conn_at g k = Some c \<Longrightarrow>
    map_get (go_calls g) (call_key r) = Some n \<Longrightarrow> (dr_sent r \<Longrightarrow> gc_writes c = []) \<Longrightarrow>
    w = (if dr_sent r then gc_writers c - 1 else gc_writers c) \<Longrightarrow> gc_active c - 1 \<noteq> 0 \<Longrightarrow>
    out = (if w = 0 then gc_reads c else []) \<Longrightarrow>
    d = c\<lparr>gc_active := gc_active c - 1, gc_writers := w, gc_reads := (if w = 0 then [] else gc_reads c)\<rparr> \<Longrightarrow>
    go_step g r ((go_free k d out g)\<lparr>go_calls := map_del (call_key r) (go_calls g)\<rparr>) out"
| go_step_last: "dr_goPhase r = 2 \<Longrightarrow> dr_object r = k \<Longrightarrow> go_conn_at g k = Some c \<Longrightarrow>
    map_get (go_calls g) (call_key r) = Some n \<Longrightarrow> (dr_sent r \<Longrightarrow> gc_writes c = []) \<Longrightarrow>
    w = (if dr_sent r then gc_writers c - 1 else gc_writers c) \<Longrightarrow> gc_active c - 1 = 0 \<Longrightarrow>
    out = (if w = 0 then gc_reads c else []) @ gc_closes c \<Longrightarrow>
    go_step g r (g\<lparr>go_calls := map_del (call_key r) (go_calls g), go_connections := map_del k (go_connections g),
      go_bytes := go_bytes g - int (kept_bytes out), go_records := go_records g - int (length out)\<rparr>) out"
| go_step_pass: "dr_goPhase r = 0 \<Longrightarrow>
    (case go_conn_at g (dr_object r) of None \<Rightarrow> True | Some c \<Rightarrow> \<not> dr_closed r \<and> (dr_sent r \<or> gc_writers c \<le> 0)) \<Longrightarrow>
    go_step g r g [r]"
| go_step_hold: "dr_goPhase r = 0 \<Longrightarrow> dr_object r = k \<Longrightarrow> go_conn_at g k = Some c \<Longrightarrow>
    \<not> over_limit g c r \<Longrightarrow>
    dr_closed r \<and> d = c\<lparr>gc_closes := gc_closes c @ [r]\<rparr> \<or>
      \<not> dr_closed r \<and> \<not> dr_sent r \<and> 0 < gc_writers c \<and> d = c\<lparr>gc_reads := gc_reads c @ [r]\<rparr> \<Longrightarrow>
    go_step g r (go_keep k d r g) []"

subsection \<open>What every step keeps\<close>

definition open_calls :: "go_order \<Rightarrow> u64 \<Rightarrow> bool \<Rightarrow> go_call set" where
  "open_calls g k sent = {q. map_get (go_calls g) q \<noteq> None \<and> gk_object q = k \<and> gk_sent q = sent}"

definition kept_records :: "go_conn \<Rightarrow> dtls_record list" where
  "kept_records c = gc_reads c @ gc_closes c @ gc_writes c"

definition kept_weight :: "go_conn \<Rightarrow> nat" where
  "kept_weight c = kept_bytes (kept_records c)"

definition count_weight :: "go_conn \<Rightarrow> nat" where
  "count_weight c = length (kept_records c)"

interpretation keptbytes: counted_map map_get map_put map_del map_len map_each map_total "[]" map_ok kept_weight
  by unfold_locales

interpretation keptcount: counted_map map_get map_put map_del map_len map_each map_total "[]" map_ok count_weight
  by unfold_locales

text \<open>A sound connection with \<open>nr\<close> reads and \<open>nw\<close> writes open.\<close>

definition go_conn_ok :: "u64 \<Rightarrow> nat \<Rightarrow> nat \<Rightarrow> go_conn \<Rightarrow> bool" where
  "go_conn_ok k nr nw c \<longleftrightarrow>
     gc_active c = int nr + int nw \<and> gc_writers c = int nw \<and> nr \<le> 1 \<and> nw \<le> 1 \<and> 0 < nr + nw \<and>
     list_all (received k) (gc_reads c) \<and>
     list_all (\<lambda>r. dr_goPhase r = 0 \<and> dr_closed r \<and> dr_object r = k) (gc_closes c) \<and>
     list_all (\<lambda>r. dr_sent r \<and> dr_object r = k) (gc_writes c) \<and>
     (nw = 0 \<longrightarrow> gc_reads c = [] \<and> gc_writes c = []) \<and>
     gc_bytes c = int (kept_weight c) \<and> gc_bytes c \<le> darwinTLSGoOrderConnectionBytes"

definition go_calls_ok :: "go_order \<Rightarrow> bool" where
  "go_calls_ok g \<longleftrightarrow>
     (\<forall>k. case go_conn_at g k of
        None \<Rightarrow> open_calls g k True = {} \<and> open_calls g k False = {}
      | Some c \<Rightarrow> go_conn_ok k (card (open_calls g k False)) (card (open_calls g k True)) c)"

definition go_sums_ok :: "go_order \<Rightarrow> bool" where
  "go_sums_ok g \<longleftrightarrow>
     map_ok (go_connections g) \<and>
     go_bytes g = int (map_total kept_weight (go_connections g)) \<and>
     go_records g = int (map_total count_weight (go_connections g)) \<and>
     go_bytes g \<le> darwinTLSGoOrderBytes \<and> go_records g \<le> darwinTLSGoOrderRecords \<and>
     map_len (go_connections g) \<le> pktapHTTPFlowLimit"

definition go_wf :: "go_order \<Rightarrow> bool" where
  "go_wf g \<longleftrightarrow> go_calls_ok g \<and> go_sums_ok g \<and> map_ok (go_calls g) \<and> map_len (go_calls g) \<le> darwinTLSGoOrderCalls"

lemma go_wf_conn:
  "go_wf g \<Longrightarrow> go_conn_at g k = Some c \<Longrightarrow> go_conn_ok k (card (open_calls g k False)) (card (open_calls g k True)) c"
  unfolding go_wf_def go_calls_ok_def by (metis option.simps(5))

lemma go_wf_none: "go_wf g \<Longrightarrow> go_conn_at g k = None \<Longrightarrow> open_calls g k sent = {}"
  unfolding go_wf_def go_calls_ok_def by (cases sent) (metis option.simps(4))+

lemma open_calls_finite: "finite (open_calls g k sent)"
  unfolding open_calls_def by (rule map_keys_finite)

lemma open_calls_key: "map_get (go_calls g) q \<noteq> None \<Longrightarrow> q \<in> open_calls g (gk_object q) (gk_sent q)"
  by (simp add: open_calls_def)

lemma call_key_fields [simp]:
  "gk_object (call_key r) = dr_object r" "gk_sent (call_key r) = dr_sent r"
  by (simp_all add: call_key_def)

lemma open_call_counted:
  "map_get (go_calls g) (call_key r) = Some n \<Longrightarrow> 0 < card (open_calls g (dr_object r) (dr_sent r))"
  using open_calls_key [of g "call_key r"] open_calls_finite [of g "dr_object r" "dr_sent r"]
  by (auto simp: card_gt_0_iff)

lemma go_observe_fields [simp]:
  "go_conn_at (go_observe g r) k = go_conn_at g k" "go_calls (go_observe g r) = go_calls g"
  "go_connections (go_observe g r) = go_connections g" "go_bytes (go_observe g r) = go_bytes g"
  "go_records (go_observe g r) = go_records g" "open_calls (go_observe g r) k sent = open_calls g k sent"
  by (simp_all add: go_observe_def Let_def go_conn_at_def open_calls_def)

lemma go_observe_wf: "go_wf g \<Longrightarrow> go_wf (go_observe g r)"
  by (simp add: go_wf_def go_calls_ok_def go_sums_ok_def cong: option.case_cong)


text \<open>Updates in one order, so that equal states are equal terms.\<close>

lemma go_commute:
  "c\<lparr>gc_writes := ws, gc_bytes := b\<rparr> = c\<lparr>gc_bytes := b, gc_writes := ws\<rparr>"
  "c\<lparr>gc_reads := ws, gc_bytes := b\<rparr> = c\<lparr>gc_bytes := b, gc_reads := ws\<rparr>"
  "c\<lparr>gc_closes := ws, gc_bytes := b\<rparr> = c\<lparr>gc_bytes := b, gc_closes := ws\<rparr>"
  "g\<lparr>go_connections := m, go_bytes := b\<rparr> = g\<lparr>go_bytes := b, go_connections := m\<rparr>"
  "g\<lparr>go_connections := m, go_records := b\<rparr> = g\<lparr>go_records := b, go_connections := m\<rparr>"
  "g\<lparr>go_calls := q, go_bytes := b\<rparr> = g\<lparr>go_bytes := b, go_calls := q\<rparr>"
  "g\<lparr>go_calls := q, go_records := b\<rparr> = g\<lparr>go_records := b, go_calls := q\<rparr>"
  "g\<lparr>go_calls := q, go_connections := m\<rparr> = g\<lparr>go_connections := m, go_calls := q\<rparr>"
  "g\<lparr>go_records := n, go_bytes := b\<rparr> = g\<lparr>go_bytes := b, go_records := n\<rparr>"
  by simp_all

lemmas go_states = go_free_def go_keep_def go_store_def map_put_put map_del_put go_commute

text \<open>Every result of \<open>add\<close> in a sound state is a step, and no step meets a nil pointer.\<close>

lemma over_limit_observe [simp]: "over_limit (go_observe g r) c x = over_limit g c x"
  by (simp add: over_limit_def)

definition go_outcome :: "go_order \<Rightarrow> dtls_record \<Rightarrow> go_error + go_order \<times> dtls_record list \<Rightarrow> bool" where
  "go_outcome g r res \<longleftrightarrow> (case res of Inl e \<Rightarrow> e \<noteq> GoPanic | Inr (t, out) \<Rightarrow> go_step g r t out)"

lemma go_outcome_simps [simp]:
  "go_outcome g r (Inl e) \<longleftrightarrow> e \<noteq> GoPanic" "go_outcome g r (Inr p) \<longleftrightarrow> go_step g r (fst p) (snd p)"
  by (simp_all add: go_outcome_def split_beta)

lemma go_begin_step:
  assumes "go_wf g" and "dr_goPhase r = 1"
  shows "go_outcome g r (go_begin g r)"
proof (cases "map_get (go_calls g) (call_key r)")
  case (Some n)
  then have "go_conn_at g (dr_object r) \<noteq> None"
    using go_wf_none [OF assms(1), of "dr_object r" "dr_sent r"] open_calls_key [of g "call_key r"] by auto
  then show ?thesis using Some by (simp add: go_begin_def Let_def)
next
  case None
  show ?thesis
  proof (cases "go_conn_at g (dr_object r)")
    case (Some c)
    then show ?thesis
      using None go_step_begin [OF assms(2) refl None, of c] by (auto simp: go_begin_def Let_def)
  next
    case noconn: None
    then show ?thesis
      using None go_step_begin [OF assms(2) refl None, of newDarwinTLSGoConnection]
      by (auto simp: go_begin_def Let_def newDarwinTLSGoConnection_def)
  qed
qed

lemma go_snapshot_step: "dr_goPhase r = 3 \<Longrightarrow> go_outcome g r (go_snapshot g r)"
  using go_step_snapshot [of r "dr_object r" g]
  by (auto simp: go_snapshot_def go_states split: option.splits)

lemma conn_objects:
  "go_conn_ok k nr nw c \<Longrightarrow> list_all (\<lambda>r. dr_object r = k) (gc_reads c)"
  "go_conn_ok k nr nw c \<Longrightarrow> list_all (\<lambda>r. dr_object r = k) (gc_closes c)"
  "go_conn_ok k nr nw c \<Longrightarrow> list_all (\<lambda>r. dr_object r = k) (gc_writes c)"
  by (auto simp: go_conn_ok_def received_def list_all_iff)

lemma go_result_step:
  assumes "go_wf g" and "dr_goPhase r = 4"
  shows "go_outcome g r (go_result g r)"
proof (cases "go_conn_at g (dr_object r)")
  case (Some c)
  note rel = go_release_closed [OF conn_objects(3) [OF go_wf_conn [OF assms(1) Some]] Some]
  show ?thesis
    using go_step_result [OF assms(2) refl Some]
    by (simp add: go_result_def Some rel Let_def) (auto simp: go_states)
qed (simp add: go_result_def)

lemma go_ended_result:
  assumes "go_conn_at g k = Some d" and "list_all (\<lambda>r. dr_object r = k) (gc_reads d)"
    and "list_all (\<lambda>r. dr_object r = k) (gc_closes d)"
  shows "go_ended g k d =
    (let free = (if gc_writers d = 0 then gc_reads d else []); out = free @ gc_closes d in
     if gc_active d \<noteq> 0
     then Inr (go_free k (d\<lparr>gc_reads := (if gc_writers d = 0 then [] else gc_reads d)\<rparr>) free g, free)
     else Inr (g\<lparr>go_connections := map_del k (go_connections g), go_bytes := go_bytes g - int (kept_bytes out),
                 go_records := go_records g - int (length out)\<rparr>, out))"
proof -
  define free where free: "free = (if gc_writers d = 0 then gc_reads d else [])"
  define e where e: "e = d\<lparr>gc_bytes := gc_bytes d - int (kept_bytes free)\<rparr>"
  define h where h: "h = go_store k e (g\<lparr>go_bytes := go_bytes g - int (kept_bytes free), go_records := go_records g - int (length free)\<rparr>)"
  define i where i: "i = (if gc_writers d = 0 then go_store k (e\<lparr>gc_reads := []\<rparr>) h else h)"
  define f where f: "f = (if gc_writers d = 0 then e\<lparr>gc_reads := []\<rparr> else e)"
  have rel: "go_release g free = Some h"
    using go_release_closed [OF _ assms(1), of free] assms(2) by (simp add: free h e)
  have hk: "go_conn_at h k = Some e" by (simp add: h)
  have ii: "i = go_store k f (g\<lparr>go_bytes := go_bytes g - int (kept_bytes free), go_records := go_records g - int (length free)\<rparr>)"
    by (simp add: i f h go_store_def map_put_put)
  have rel2: "go_release i (gc_closes d) = Some (go_store k (f\<lparr>gc_bytes := gc_bytes f - int (kept_bytes (gc_closes d))\<rparr>)
      (i\<lparr>go_bytes := go_bytes i - int (kept_bytes (gc_closes d)), go_records := go_records i - int (length (gc_closes d))\<rparr>))"
    using assms(3) by (intro go_release_closed) (simp_all add: ii)
  show ?thesis
    unfolding go_ended_def Let_def free [symmetric] rel option.case hk i [symmetric] rel2
    by (auto simp: ii f e free go_states algebra_simps)
qed

lemma go_end_step:
  assumes "go_wf g" and "dr_goPhase r = 2"
  shows "go_outcome g r (go_end g r)"
proof (cases "go_conn_at g (dr_object r)")
  case (Some c)
  note conn = go_wf_conn [OF assms(1) Some]
  show ?thesis
  proof (cases "map_get (go_calls g) (call_key r) = None \<or> dr_sent r \<and> gc_writes c \<noteq> []")
    case True
    then show ?thesis by (auto simp: go_end_def Some)
  next
    case False
    then obtain n where n: "map_get (go_calls g) (call_key r) = Some n" "dr_sent r \<Longrightarrow> gc_writes c = []" by auto
    define w where w: "w = (if dr_sent r then gc_writers c - 1 else gc_writers c)"
    define d where d: "d = c\<lparr>gc_active := gc_active c - 1, gc_writers := w\<rparr>"
    define h where h: "h = (go_store (dr_object r) d g)\<lparr>go_calls := map_del (call_key r) (go_calls g)\<rparr>"
    have f: "gc_reads d = gc_reads c" "gc_closes d = gc_closes c" "gc_writers d = w" "gc_active d = gc_active c - 1"
      by (simp_all add: d)
    have "go_end g r = go_ended h (dr_object r) d" using n by (auto simp: go_end_def Some Let_def h d w)
    moreover have "go_conn_at h (dr_object r) = Some d" by (simp add: h go_conn_at_def go_store_def gm.get_put)
    moreover have "list_all (\<lambda>x. dr_object x = dr_object r) (gc_reads d)" "list_all (\<lambda>x. dr_object x = dr_object r) (gc_closes d)"
      using conn_objects [OF conn] by (simp_all add: d)
    ultimately have end_eq: "go_end g r =
      (let free = (if w = 0 then gc_reads c else []); out = free @ gc_closes c in
       if gc_active c - 1 \<noteq> 0
       then Inr (go_free (dr_object r) (d\<lparr>gc_reads := (if w = 0 then [] else gc_reads c)\<rparr>) free h, free)
       else Inr (h\<lparr>go_connections := map_del (dr_object r) (go_connections h), go_bytes := go_bytes h - int (kept_bytes out),
                   go_records := go_records h - int (length out)\<rparr>, out))"
      using go_ended_result [of h "dr_object r" d] unfolding f by simp
    show ?thesis
    proof (cases "gc_active c - 1 = 0")
      case True
      then show ?thesis
        using go_step_last [OF assms(2) refl Some n w True refl]
        unfolding end_eq Let_def by (simp add: h go_states)
    next
      case False
      then show ?thesis
        using go_step_end [OF assms(2) refl Some n w False refl refl]
        unfolding end_eq Let_def by (simp add: h d go_states)
    qed
  qed
qed (simp add: go_end_def)

lemma go_plain_step: "dr_goPhase r = 0 \<Longrightarrow> go_outcome g r (go_plain g r)"
proof (cases "go_conn_at g (dr_object r)")
  case (Some c)
  assume p: "dr_goPhase r = 0"
  show ?thesis
    using go_step_pass [OF p, of g] go_step_hold [OF p refl Some, of "c\<lparr>gc_closes := gc_closes c @ [r]\<rparr>"]
      go_step_hold [OF p refl Some, of "c\<lparr>gc_reads := gc_reads c @ [r]\<rparr>"]
    by (auto simp: go_plain_def Some Let_def go_states)
qed (simp add: go_plain_def go_step_pass)

lemma go_add_step: "go_wf g \<Longrightarrow> go_outcome (go_observe g r) r (go_add g r)"
  using go_observe_wf [of g r]
  by (simp add: go_add_def Let_def go_begin_step go_snapshot_step go_result_step go_end_step go_plain_step)


subsection \<open>Every step keeps a sound state\<close>

lemma open_calls_same: "go_calls h = go_calls g \<Longrightarrow> open_calls h k sent = open_calls g k sent"
  by (simp add: open_calls_def)

lemma open_calls_put:
  "go_calls h = map_put q n (go_calls g) \<Longrightarrow>
     open_calls h k sent = (if gk_object q = k \<and> gk_sent q = sent then insert q (open_calls g k sent) else open_calls g k sent)"
  by (auto simp: open_calls_def gm.get_put)

lemma open_calls_del:
  "go_calls h = map_del q (go_calls g) \<Longrightarrow> map_ok (go_calls g) \<Longrightarrow>
     open_calls h k sent = (if gk_object q = k \<and> gk_sent q = sent then open_calls g k sent - {q} else open_calls g k sent)"
  by (auto simp: open_calls_def gm.get_del)

text \<open>A step changes one connection; the calls of the others stay.\<close>

lemma go_calls_ok_change:
  assumes "go_calls_ok g"
    and "\<And>j. j \<noteq> k \<Longrightarrow> go_conn_at h j = go_conn_at g j"
    and "\<And>j sent. j \<noteq> k \<Longrightarrow> open_calls h j sent = open_calls g j sent"
    and "case go_conn_at h k of None \<Rightarrow> open_calls h k True = {} \<and> open_calls h k False = {}
      | Some c \<Rightarrow> go_conn_ok k (card (open_calls h k False)) (card (open_calls h k True)) c"
  shows "go_calls_ok h"
  unfolding go_calls_ok_def
proof
  fix j
  show "case go_conn_at h j of None \<Rightarrow> open_calls h j True = {} \<and> open_calls h j False = {}
      | Some c \<Rightarrow> go_conn_ok j (card (open_calls h j False)) (card (open_calls h j True)) c"
  proof (cases "j = k")
    case False
    then show ?thesis
      using assms(1) unfolding go_calls_ok_def assms(2,3) [OF False] by blast
  qed (use assms(4) in \<open>simp cong: option.case_cong\<close>)
qed

lemma go_sums_store:
  assumes "go_sums_ok g" and "go_connections h = map_put k d (go_connections g)"
    and new: "go_conn_at g k = None \<Longrightarrow> map_len (go_connections g) < pktapHTTPFlowLimit"
    and b: "go_bytes h = go_bytes g + (int (kept_weight d) - int (case go_conn_at g k of None \<Rightarrow> 0 | Some c \<Rightarrow> kept_weight c))"
    and n: "go_records h = go_records g + (int (count_weight d) - int (case go_conn_at g k of None \<Rightarrow> 0 | Some c \<Rightarrow> count_weight c))"
    and lim: "go_bytes h \<le> darwinTLSGoOrderBytes" "go_records h \<le> darwinTLSGoOrderRecords"
  shows "go_sums_ok h"
proof -
  let ?m = "go_connections g"
  have m: "map_ok ?m" "go_bytes g = int (map_total kept_weight ?m)" "go_records g = int (map_total count_weight ?m)"
    using assms(1) by (auto simp: go_sums_ok_def)
  have "go_bytes h = int (map_total kept_weight (map_put k d ?m))"
    "go_records h = int (map_total count_weight (map_put k d ?m))"
    using keptbytes.counted_new [OF m(2), of k d] keptbytes.counted_change [OF m(2,1), of k _ d]
      keptcount.counted_new [OF m(3), of k d] keptcount.counted_change [OF m(3,1), of k _ d] b n
    by (cases "map_get ?m k"; simp add: go_conn_at_def)+
  moreover have "map_len (map_put k d ?m) \<le> pktapHTTPFlowLimit"
    using assms(1) new by (auto simp: go_sums_ok_def gm.len_put go_conn_at_def)
  ultimately show ?thesis
    using lim m(1) unfolding go_sums_ok_def assms(2) by (simp add: gm.ok_put)
qed

lemma go_sums_drop:
  assumes "go_sums_ok g" and k: "go_conn_at g k = Some c"
    and h: "go_connections h = map_del k (go_connections g)" "go_bytes h = go_bytes g - int (kept_weight c)"
      "go_records h = go_records g - int (count_weight c)"
  shows "go_sums_ok h"
proof -
  let ?m = "go_connections g"
  have m: "map_ok ?m" "go_bytes g = int (map_total kept_weight ?m)" "go_records g = int (map_total count_weight ?m)"
    using assms(1) by (auto simp: go_sums_ok_def)
  show ?thesis
    using assms(1) keptbytes.counted_delete [OF m(2,1) k [unfolded go_conn_at_def]]
      keptcount.counted_delete [OF m(3,1) k [unfolded go_conn_at_def]]
    unfolding go_sums_ok_def h by (auto simp: gm.ok_del gm.len_del)
qed

lemmas kept_defs = kept_weight_def count_weight_def kept_records_def

lemma kept_weight_bytes [simp]:
  "kept_weight (d\<lparr>gc_bytes := b\<rparr>) = kept_weight d" "count_weight (d\<lparr>gc_bytes := b\<rparr>) = count_weight d"
  by (simp_all add: kept_defs)

lemma go_keep_fields [simp]:
  "go_conn_at (go_keep k d r g) j = (if j = k then Some (d\<lparr>gc_bytes := gc_bytes d + int (dr_cap r)\<rparr>) else go_conn_at g j)"
  "go_calls (go_keep k d r g) = go_calls g"
  by (simp_all add: go_keep_def go_store_def go_conn_at_def gm.get_put)

lemma go_free_fields [simp]:
  "go_conn_at (go_free k d rs g) j = (if j = k then Some (d\<lparr>gc_bytes := gc_bytes d - int (kept_bytes rs)\<rparr>) else go_conn_at g j)"
  "go_calls (go_free k d rs g) = go_calls g"
  by (simp_all add: go_free_def go_store_def go_conn_at_def gm.get_put)

lemma go_conn_at_calls [simp]: "go_conn_at (g\<lparr>go_calls := q\<rparr>) k = go_conn_at g k"
  by (simp add: go_conn_at_def)

lemma go_keep_wf:
  assumes "go_wf g" and "go_conn_at g k = Some c" and "\<not> over_limit g c r"
    and "kept_weight d = kept_weight c + dr_cap r" and "count_weight d = count_weight c + 1"
    and "go_conn_ok k (card (open_calls g k False)) (card (open_calls g k True)) (d\<lparr>gc_bytes := gc_bytes d + int (dr_cap r)\<rparr>)"
  shows "go_wf (go_keep k d r g)"
proof -
  let ?h = "go_keep k d r g"
  have "go_sums_ok ?h"
    using assms(1,3) by (intro go_sums_store [of g ?h k "d\<lparr>gc_bytes := gc_bytes d + int (dr_cap r)\<rparr>"])
      (simp_all add: go_wf_def assms(2,4,5) go_keep_def go_store_def over_limit_def)
  moreover have "go_calls_ok ?h"
    using assms(1,6) by (intro go_calls_ok_change [of g k ?h]) (simp_all add: go_wf_def open_calls_same [of ?h g])
  ultimately show ?thesis using assms(1) by (simp add: go_wf_def)
qed


lemma go_free_wf:
  assumes "go_wf g" and "go_conn_at g k = Some c"
    and "kept_weight c = kept_weight d + kept_bytes rs" and "count_weight c = count_weight d + length rs"
    and q: "map_ok q" "map_len q \<le> darwinTLSGoOrderCalls"
    and other: "\<And>j sent. j \<noteq> k \<Longrightarrow> open_calls ((go_free k d rs g)\<lparr>go_calls := q\<rparr>) j sent = open_calls g j sent"
    and conn: "go_conn_ok k (card (open_calls ((go_free k d rs g)\<lparr>go_calls := q\<rparr>) k False))
      (card (open_calls ((go_free k d rs g)\<lparr>go_calls := q\<rparr>) k True)) (d\<lparr>gc_bytes := gc_bytes d - int (kept_bytes rs)\<rparr>)"
  shows "go_wf ((go_free k d rs g)\<lparr>go_calls := q\<rparr>)"
proof -
  let ?h = "(go_free k d rs g)\<lparr>go_calls := q\<rparr>"
  have lim: "go_bytes g \<le> darwinTLSGoOrderBytes" "go_records g \<le> darwinTLSGoOrderRecords"
    using assms(1) by (simp_all add: go_wf_def go_sums_ok_def)
  have "go_sums_ok ?h"
    using assms(1) lim by (intro go_sums_store [of g ?h k "d\<lparr>gc_bytes := gc_bytes d - int (kept_bytes rs)\<rparr>"])
      (simp_all add: go_wf_def assms(2,3,4) go_free_def go_store_def)
  moreover have "go_calls_ok ?h"
    using assms(1) other conn by (intro go_calls_ok_change [of g k ?h]) (simp_all add: go_wf_def)
  ultimately show ?thesis using q by (simp add: go_wf_def)
qed

lemma go_wf_parts:
  assumes "go_wf g"
  shows "map_ok (go_calls g)" "map_len (go_calls g) \<le> darwinTLSGoOrderCalls" "map_ok (go_connections g)"
  using assms by (simp_all add: go_wf_def go_sums_ok_def)

lemma go_step_wf: "go_step g r h out \<Longrightarrow> go_wf g \<Longrightarrow> go_wf h"
proof (induction rule: go_step.induct)
  case (go_step_begin r k g c h n)
  let ?d = "c\<lparr>gc_active := gc_active c + 1, gc_writers := (if dr_sent r then gc_writers c + 1 else gc_writers c)\<rparr>"
  let ?h = "h\<lparr>go_calls := map_put (call_key r) n (go_calls g)\<rparr>"
  have h: "go_conn_at h j = (if j = k then Some ?d else go_conn_at g j)" for j
    by (simp add: go_step_begin(7))
  note put = open_calls_put [of ?h "call_key r" n g, simplified]
  have fresh: "call_key r \<notin> open_calls g k sent" for sent
    using go_step_begin(3) by (simp add: open_calls_def)
  have new: "card (insert (call_key r) (open_calls g k sent)) = Suc (card (open_calls g k sent))" for sent
    using fresh open_calls_finite by (simp add: card_insert_disjoint)
  have c: "go_conn_ok k (card (open_calls ?h k False)) (card (open_calls ?h k True)) ?d"
  proof (cases "go_conn_at g k")
    case None
    then have e: "open_calls g k sent = {}" for sent using go_wf_none [OF go_step_begin.prems] by simp
    have "c = newDarwinTLSGoConnection" using None go_step_begin(5) by simp
    then show ?thesis
      using go_step_begin(2) e put
      by (simp add: go_conn_ok_def newDarwinTLSGoConnection_def kept_defs darwinTLSGoOrderConnectionBytes_def)
  next
    case (Some c')
    then have "go_conn_ok k (card (open_calls g k False)) (card (open_calls g k True)) c"
      using go_wf_conn [OF go_step_begin.prems] go_step_begin(5) by simp
    then show ?thesis
      using go_step_begin(2,6) put new by (auto simp: go_conn_ok_def kept_defs split: if_splits)
  qed
  have w: "kept_weight ?d = kept_weight c" "count_weight ?d = count_weight c" by (simp_all add: kept_defs)
  have s: "go_sums_ok ?h"
    using go_step_begin.prems go_step_begin(5)
    by (intro go_sums_store [of g ?h k ?d])
      (auto simp: go_wf_def go_sums_ok_def w go_step_begin(7) go_store_def kept_defs newDarwinTLSGoConnection_def split: option.splits)
  have "go_calls_ok ?h"
    using go_step_begin.prems c go_step_begin(2)
    by (intro go_calls_ok_change [of g k ?h]) (auto simp: go_wf_def h put)
  then show ?case
    using s go_wf_parts [OF go_step_begin.prems] go_step_begin(4)
    by (simp add: go_wf_def gm.ok_put gm.len_put)
next
  case (go_step_snapshot r k g c)
  then show ?case
    using go_wf_conn [OF go_step_snapshot(7,3)]
    by (intro go_keep_wf [of g k c r]) (auto simp: go_conn_ok_def kept_defs over_limit_def)
next
  case (go_step_hold r k g c d)
  then show ?case
    using go_wf_conn [OF go_step_hold(6,3)]
    by (intro go_keep_wf [of g k c r]) (auto simp: go_conn_ok_def kept_defs over_limit_def received_def)
next
  case (go_step_result r k g c)
  have "go_wf ((go_free k (c\<lparr>gc_writes := []\<rparr>) (gc_writes c) g)\<lparr>go_calls := go_calls g\<rparr>)"
    using go_step_result go_wf_conn [OF go_step_result(6,3)] go_wf_parts [OF go_step_result(6)]
    by (intro go_free_wf [of g k c]) (auto simp: go_conn_ok_def kept_defs open_calls_def)
  then show ?case by (simp add: go_free_def go_store_def)
next
  case (go_step_end r k g c n w out d)
  have p: "map_ok (go_calls g)" using go_wf_parts [OF go_step_end.prems] by simp
  let ?h = "(go_free k d out g)\<lparr>go_calls := map_del (call_key r) (go_calls g)\<rparr>"
  note del = open_calls_del [of ?h "call_key r" g, simplified, OF p]
  have mem: "call_key r \<in> open_calls g k (dr_sent r)" using go_step_end(2,4) open_calls_key [of g "call_key r"] by simp
  have less: "card (open_calls g k (dr_sent r) - {call_key r}) = card (open_calls g k (dr_sent r)) - 1"
    "0 < card (open_calls g k (dr_sent r))"
    using mem open_calls_finite [of g k "dr_sent r"] by (auto simp: card_Diff_singleton card_gt_0_iff)
  note c = go_wf_conn [OF go_step_end.prems go_step_end(3)]
  show ?case
  proof (intro go_free_wf [of g k c])
    show "go_conn_ok k (card (open_calls ?h k False)) (card (open_calls ?h k True)) (d\<lparr>gc_bytes := gc_bytes d - int (kept_bytes out)\<rparr>)"
      using c less go_step_end(2,5,6,7,8,9) del
      by (cases "dr_sent r") (auto simp: go_conn_ok_def kept_defs)
  qed (use go_step_end p go_wf_parts [OF go_step_end.prems] del in \<open>auto simp: kept_defs gm.ok_del gm.len_del\<close>)
next
  case (go_step_last r k g c n w out)
  have p: "map_ok (go_calls g)" using go_wf_parts [OF go_step_last.prems] by simp
  let ?h = "g\<lparr>go_calls := map_del (call_key r) (go_calls g), go_connections := map_del k (go_connections g),
      go_bytes := go_bytes g - int (kept_bytes out), go_records := go_records g - int (length out)\<rparr>"
  note del = open_calls_del [of ?h "call_key r" g, simplified, OF p]
  have mem: "call_key r \<in> open_calls g k (dr_sent r)" using go_step_last(2,4) open_calls_key [of g "call_key r"] by simp
  note c = go_wf_conn [OF go_step_last.prems go_step_last(3)]
  have fin: "finite (open_calls g k sent)" for sent by (rule open_calls_finite)
  have one: "card (open_calls g k (dr_sent r)) = 1" "card (open_calls g k (\<not> dr_sent r)) = 0"
  proof -
    have "0 < card (open_calls g k (dr_sent r))" using open_call_counted [OF go_step_last(4)] go_step_last(2) by simp
    moreover have "card (open_calls g k False) + card (open_calls g k True) = 1"
      using c go_step_last(7) by (auto simp: go_conn_ok_def)
    ultimately show "card (open_calls g k (dr_sent r)) = 1" "card (open_calls g k (\<not> dr_sent r)) = 0"
      by (cases "dr_sent r"; simp)+
  qed
  have none: "open_calls ?h k sent = {}" for sent
  proof (cases "sent = dr_sent r")
    case True
    obtain q where "open_calls g k (dr_sent r) = {q}" using one(1) by (rule card_1_singletonE)
    with mem have "open_calls g k (dr_sent r) - {call_key r} = {}" by simp
    then show ?thesis using True go_step_last(2) by (simp only: del call_key_fields if_True conj_absorb simp_thms)
  next
    case False
    then have "open_calls g k sent = {}" using one(2) fin by (cases sent; cases "dr_sent r") simp_all
    then show ?thesis using False by (simp only: del call_key_fields simp_thms if_False)
  qed
  have at: "go_conn_at ?h j = (if j = k then None else go_conn_at g j)" for j
    using go_wf_parts(3) [OF go_step_last.prems] by (simp add: go_conn_at_def gm.get_del)
  have out: "kept_bytes out = kept_weight c" "length out = count_weight c"
  proof -
    have "w = 0 \<and> gc_writes c = []"
    proof (cases "dr_sent r")
      case True
      then have "gc_writers c = 1" using c one(1) by (simp only: go_conn_ok_def)
      then show ?thesis using True go_step_last(5,6) by simp
    next
      case False
      then have "card (open_calls g k True) = 0" using one(2) by simp
      then have "gc_writers c = 0" "gc_writes c = []" using c by (simp_all only: go_conn_ok_def)
      then show ?thesis using False go_step_last(6) by simp
    qed
    then have "out = gc_reads c @ gc_closes c" "gc_writes c = []" using go_step_last(8) by simp_all
    then show "kept_bytes out = kept_weight c" "length out = count_weight c" by (simp_all add: kept_defs)
  qed
  have "go_sums_ok ?h"
    using go_step_last.prems by (intro go_sums_drop [of g k c ?h] go_step_last(3)) (simp_all add: go_wf_def out)
  moreover have "go_calls_ok ?h"
  proof (rule go_calls_ok_change [of g k ?h])
    show "go_calls_ok g" using go_step_last.prems by (simp add: go_wf_def)
    show "go_conn_at ?h j = go_conn_at g j" if "j \<noteq> k" for j using that by (simp only: at if_False)
    show "open_calls ?h j sent = open_calls g j sent" if "j \<noteq> k" for j sent
      using that go_step_last(2) unfolding del by auto
  qed (simp only: at none if_True option.case simp_thms)
  ultimately show ?case
    using go_wf_parts [OF go_step_last.prems] by (auto simp: go_wf_def gm.ok_del gm.len_del)
qed


subsection \<open>Order\<close>

definition held_received :: "u64 \<Rightarrow> go_order \<Rightarrow> dtls_record list" where
  "held_received k g = (case go_conn_at g k of None \<Rightarrow> [] | Some c \<Rightarrow> gc_reads c)"

definition held_closing :: "u64 \<Rightarrow> go_order \<Rightarrow> dtls_record list" where
  "held_closing k g = (case go_conn_at g k of None \<Rightarrow> [] | Some c \<Rightarrow> filter (closing k) (gc_closes c))"

definition held_snapshots :: "u64 \<Rightarrow> go_order \<Rightarrow> dtls_record list" where
  "held_snapshots k g = (case go_conn_at g k of None \<Rightarrow> [] | Some c \<Rightarrow> gc_writes c)"

lemmas go_held_defs = held_received_def held_closing_def held_snapshots_def

text \<open>What the records themselves say: the open writes of a connection and its unconfirmed snapshots.\<close>

definition call_step :: "u64 \<Rightarrow> go_call set \<Rightarrow> dtls_record \<Rightarrow> go_call set" where
  "call_step k W r =
     (if dr_object r = k \<and> dr_sent r
      then if dr_goPhase r = 1 then insert (call_key r) W
           else if dr_goPhase r = 2 then W - {call_key r} else W
      else W)"

definition snapshot_step :: "u64 \<Rightarrow> dtls_record list \<Rightarrow> dtls_record \<Rightarrow> dtls_record list" where
  "snapshot_step k B r =
     (if dr_object r = k then if dr_goPhase r = 3 then B @ [r] else if dr_goPhase r = 4 then [] else B else B)"

fun received_behind :: "u64 \<Rightarrow> go_call set \<Rightarrow> dtls_record list \<Rightarrow> dtls_record list list \<Rightarrow> bool" where
  "received_behind k W (r # rs) (out # outs) =
     (let V = call_step k W r in (V = {} \<or> filter (received k) out = []) \<and> received_behind k V rs outs)"
| "received_behind k W rs outs = True"

lemma confirm_sent:
  "list_all (\<lambda>r. dr_sent r \<and> dr_object r = k) ws \<Longrightarrow> list_all dr_sent (go_confirm r left ws)"
  by (induction ws arbitrary: left) (simp_all add: Let_def)

lemma filter_sent: "list_all dr_sent rs \<Longrightarrow> filter (received k) rs = [] \<and> filter (closing k) rs = []"
  by (induction rs) (auto simp: received_def closing_def)

lemma filter_received:
  "list_all (received j) rs \<Longrightarrow> filter (received k) rs = (if j = k then rs else []) \<and> filter (closing k) rs = []"
  by (induction rs) (auto simp: received_def closing_def)

lemma filter_closing:
  "list_all (\<lambda>r. dr_goPhase r = 0 \<and> dr_closed r \<and> dr_object r = j) rs \<Longrightarrow>
     filter (received k) rs = [] \<and> (j \<noteq> k \<longrightarrow> filter (closing k) rs = [])"
  by (induction rs) (auto simp: received_def closing_def)

lemma go_wf_lists:
  assumes "go_wf g" and "go_conn_at g k = Some c"
  shows "list_all (received k) (gc_reads c)"
    and "list_all (\<lambda>r. dr_goPhase r = 0 \<and> dr_closed r \<and> dr_object r = k) (gc_closes c)"
    and "list_all (\<lambda>r. dr_sent r \<and> dr_object r = k) (gc_writes c)"
    and "gc_writers c = int (card (open_calls g k True))"
    and "gc_writers c = 0 \<Longrightarrow> gc_reads c = [] \<and> gc_writes c = []"
  using go_wf_conn [OF assms] by (auto simp: go_conn_ok_def)

lemma go_no_writers:
  assumes "go_wf g" and "case go_conn_at g k of None \<Rightarrow> True | Some c \<Rightarrow> gc_writers c \<le> 0"
  shows "open_calls g k True = {}"
proof (cases "go_conn_at g k")
  case (Some c)
  then have "card (open_calls g k True) = 0" using assms(2) go_wf_lists(4) [OF assms(1) Some] by simp
  then show ?thesis using open_calls_finite [of g k True] by simp
qed (use go_wf_none [OF assms(1)] in simp)

lemma go_conn_at_del: "go_wf g \<Longrightarrow> go_connections h = map_del k (go_connections g) \<Longrightarrow>
    go_conn_at h j = (if j = k then None else go_conn_at g j)"
  using go_wf_parts(3) [of g] by (simp add: go_conn_at_def gm.get_del)

lemma go_step_order:
  assumes "go_step g r h out" and "go_wf g"
  shows "filter (received k) out @ held_received k h = held_received k g @ filter (received k) [r]"
    and "filter (closing k) out @ held_closing k h = held_closing k g @ filter (closing k) [r]"
  using assms
proof (induction rule: go_step.induct)
  case (go_step_begin r j g c h n)
  {
    case 1 then show ?case using go_step_begin
      by (auto simp: go_held_defs received_def [of _ r] newDarwinTLSGoConnection_def split: option.splits)
    case 2 then show ?case using go_step_begin
      by (auto simp: go_held_defs closing_def [of _ r] newDarwinTLSGoConnection_def split: option.splits)
  }
next
  case (go_step_snapshot r j g c)
  {
    case 1 then show ?case using go_step_snapshot by (auto simp: go_held_defs received_def [of _ r])
    case 2 then show ?case using go_step_snapshot by (auto simp: go_held_defs closing_def [of _ r])
  }
next
  case (go_step_result r j g c)
  {
    case 1 then show ?case
      using go_step_result filter_sent [OF confirm_sent [OF go_wf_lists(3) [OF 1 go_step_result(3)]]]
      by (auto simp: go_held_defs received_def [of _ r])
    case 2 then show ?case
      using go_step_result filter_sent [OF confirm_sent [OF go_wf_lists(3) [OF 2 go_step_result(3)]]]
      by (auto simp: go_held_defs closing_def [of _ r])
  }
next
  case (go_step_end r j g c n w out d)
  {
    case 1 then show ?case
      using go_step_end filter_received [OF go_wf_lists(1) [OF 1 go_step_end(3)], of k]
      by (auto simp: go_held_defs received_def [of _ r])
    case 2 then show ?case
      using go_step_end filter_received [OF go_wf_lists(1) [OF 2 go_step_end(3)], of k]
      by (auto simp: go_held_defs closing_def [of _ r])
  }
next
  case (go_step_last r j g c n w out)
  let ?h = "g\<lparr>go_calls := map_del (call_key r) (go_calls g), go_connections := map_del j (go_connections g),
      go_bytes := go_bytes g - int (kept_bytes out), go_records := go_records g - int (length out)\<rparr>"
  {
    case 1
    have hr: "held_received k ?h = (if k = j then [] else held_received k g)"
      unfolding held_received_def by (subst go_conn_at_del [OF 1, of ?h j]) simp_all
    have "w = 0 \<or> gc_reads c = []"
      using go_wf_lists(4,5) [OF 1 go_step_last(3)] go_wf_conn [OF 1 go_step_last(3)] go_step_last(2,6,7)
        open_call_counted [OF go_step_last(4)]
      by (auto simp: go_conn_ok_def split: if_splits)
    then show ?case
      unfolding hr
      using go_step_last filter_received [OF go_wf_lists(1) [OF 1 go_step_last(3)], of k]
        filter_closing [OF go_wf_lists(2) [OF 1 go_step_last(3)], of k]
      by (auto simp: held_received_def received_def [of _ r])
    case 2
    have hc: "held_closing k ?h = (if k = j then [] else held_closing k g)"
      unfolding held_closing_def by (subst go_conn_at_del [OF 2, of ?h j]) simp_all
    show ?case
      unfolding hc
      using go_step_last filter_received [OF go_wf_lists(1) [OF 2 go_step_last(3)], of k]
        filter_closing [OF go_wf_lists(2) [OF 2 go_step_last(3)], of k]
      by (auto simp: held_closing_def closing_def [of _ r])
  }
next
  case (go_step_pass r g)
  {
    case 1
    have "held_received k g = []" if "received k r"
    proof (cases "go_conn_at g k")
      case (Some c)
      then have "gc_writers c \<le> 0" using that go_step_pass(2) by (simp add: received_def)
      then show ?thesis using go_wf_lists(4,5) [OF 1 Some] Some by (simp add: held_received_def)
    qed (simp add: held_received_def)
    then show ?case by (cases "received k r") simp_all
    case 2 then show ?case
      using go_step_pass by (auto simp: go_held_defs closing_def [of _ r] split: option.splits)
  }
next
  case (go_step_hold r j g c d)
  {
    case 1 then show ?case using go_step_hold by (auto simp: go_held_defs received_def [of _ r])
    case 2 then show ?case using go_step_hold by (auto simp: go_held_defs closing_def [of _ r])
  }
qed


lemma go_step_calls:
  assumes "go_step g r h out" and "go_wf g"
  shows "open_calls h k True = call_step k (open_calls g k True) r"
  using assms
proof (induction rule: go_step.induct)
  case (go_step_begin r j g c h n)
  have "open_calls (h\<lparr>go_calls := map_put (call_key r) n (go_calls g)\<rparr>) k True =
      (if dr_object r = k \<and> dr_sent r then insert (call_key r) (open_calls g k True) else open_calls g k True)"
    by (subst open_calls_put [where g = g and q = "call_key r" and n = n]) simp_all
  then show ?case using go_step_begin by (simp add: call_step_def)
next
  case (go_step_end r j g c n w out d)
  have "open_calls ((go_free j d out g)\<lparr>go_calls := map_del (call_key r) (go_calls g)\<rparr>) k True =
      (if dr_object r = k \<and> dr_sent r then open_calls g k True - {call_key r} else open_calls g k True)"
    using go_wf_parts(1) [OF go_step_end.prems] by (subst open_calls_del [where g = g and q = "call_key r"]) simp_all
  then show ?case using go_step_end by (simp add: call_step_def)
next
  case (go_step_last r j g c n w out)
  let ?h = "g\<lparr>go_calls := map_del (call_key r) (go_calls g), go_connections := map_del j (go_connections g),
      go_bytes := go_bytes g - int (kept_bytes out), go_records := go_records g - int (length out)\<rparr>"
  have "open_calls ?h k True =
      (if dr_object r = k \<and> dr_sent r then open_calls g k True - {call_key r} else open_calls g k True)"
    using go_wf_parts(1) [OF go_step_last.prems] by (subst open_calls_del [where g = g and q = "call_key r"]) simp_all
  then show ?case using go_step_last(1) by (simp add: call_step_def)
qed (simp_all add: call_step_def open_calls_def)

lemma go_step_snapshots:
  assumes "go_step g r h out" and "go_wf g"
  shows "held_snapshots k h = snapshot_step k (held_snapshots k g) r"
  using assms
proof (induction rule: go_step.induct)
  case (go_step_begin r j g c h n)
  then show ?case
    by (auto simp: held_snapshots_def snapshot_step_def newDarwinTLSGoConnection_def split: option.splits)
next
  case (go_step_last r j g c n w out)
  let ?h = "g\<lparr>go_calls := map_del (call_key r) (go_calls g), go_connections := map_del j (go_connections g),
      go_bytes := go_bytes g - int (kept_bytes out), go_records := go_records g - int (length out)\<rparr>"
  have hs: "held_snapshots k ?h = (if k = j then [] else held_snapshots k g)"
    unfolding held_snapshots_def by (subst go_conn_at_del [OF go_step_last.prems, of ?h j]) simp_all
  have "gc_writes c = []"
    using go_wf_lists(4,5) [OF go_step_last.prems go_step_last(3)] go_wf_conn [OF go_step_last.prems go_step_last(3)]
      go_step_last(2,5,7) open_call_counted [OF go_step_last(4)]
    by (cases "dr_sent r") (auto simp: go_conn_ok_def)
  then show ?case
    unfolding hs using go_step_last(1,3) by (auto simp: held_snapshots_def snapshot_step_def)
qed (auto simp: held_snapshots_def snapshot_step_def)

lemma go_step_behind:
  assumes "go_step g r h out" and "go_wf g" and "filter (received k) out \<noteq> []"
  shows "open_calls h k True = {}"
proof -
  have "case go_conn_at h k of None \<Rightarrow> True | Some c \<Rightarrow> gc_writers c \<le> 0"
    using assms
  proof (induction rule: go_step.induct)
    case (go_step_result r j g c)
    then show ?case
      using filter_sent [OF confirm_sent [OF go_wf_lists(3) [OF go_step_result(6,3)]]] by simp
  next
    case (go_step_end r j g c n w out d)
    then have "filter (received k) (gc_reads c) \<noteq> []" "w = 0" by (auto split: if_splits)
    then have "j = k" using filter_received [OF go_wf_lists(1) [OF go_step_end(10,3)], of k] by (auto split: if_splits)
    then show ?case using go_step_end(9) \<open>w = 0\<close> by simp
  next
    case (go_step_last r j g c n w out)
    let ?h = "g\<lparr>go_calls := map_del (call_key r) (go_calls g), go_connections := map_del j (go_connections g),
        go_bytes := go_bytes g - int (kept_bytes out), go_records := go_records g - int (length out)\<rparr>"
    have "j = k"
      using go_step_last(8,10) filter_received [OF go_wf_lists(1) [OF go_step_last(9,3)], of k]
        filter_closing [OF go_wf_lists(2) [OF go_step_last(9,3)], of k] by (auto split: if_splits)
    then have "go_conn_at ?h k = None" by (subst go_conn_at_del [OF go_step_last(9), of ?h j]) simp_all
    then show ?case by simp
  next
    case (go_step_pass r g)
    then show ?case by (auto simp: received_def split: if_splits option.splits)
  qed simp_all
  then show ?thesis by (rule go_no_writers [OF go_step_wf [OF assms(1,2)]])
qed

lemma go_observe_held [simp]:
  "held_received k (go_observe g r) = held_received k g" "held_closing k (go_observe g r) = held_closing k g"
  "held_snapshots k (go_observe g r) = held_snapshots k g"
  by (simp_all add: go_held_defs)

text \<open>What a successful \<open>add\<close> does to one connection, in the words of the records.\<close>

lemma go_add_order:
  assumes "go_wf g" and "go_add g r = Inr (h, out)"
  shows "go_wf h"
    and "filter (received k) out @ held_received k h = held_received k g @ filter (received k) [r]"
    and "filter (closing k) out @ held_closing k h = held_closing k g @ filter (closing k) [r]"
    and "open_calls h k True = call_step k (open_calls g k True) r"
    and "held_snapshots k h = snapshot_step k (held_snapshots k g) r"
    and "filter (received k) out \<noteq> [] \<Longrightarrow> open_calls h k True = {}"
proof -
  have st: "go_step (go_observe g r) r h out" using go_add_step [OF assms(1), of r] assms(2) by simp
  note wf = go_observe_wf [OF assms(1), of r]
  show "go_wf h" using go_step_wf [OF st wf] .
  show "filter (received k) out @ held_received k h = held_received k g @ filter (received k) [r]"
    "filter (closing k) out @ held_closing k h = held_closing k g @ filter (closing k) [r]"
    using go_step_order [OF st wf] unfolding go_observe_held .
  show "open_calls h k True = call_step k (open_calls g k True) r"
    "held_snapshots k h = snapshot_step k (held_snapshots k g) r"
    using go_step_calls [OF st wf] go_step_snapshots [OF st wf] unfolding go_observe_held go_observe_fields .
  show "filter (received k) out \<noteq> [] \<Longrightarrow> open_calls h k True = {}" using go_step_behind [OF st wf] .
qed

end
