(* ===== verification/TlsCallsRuns.thy ===== *)
theory TlsCallsRuns
  imports TlsCallsSafety
begin

text \<open>
  Runs of \<open>darwinTLSGoOrder\<close>: the worker feeds it record after record and stops at the first
  error. The two properties of the order are here: answers stay behind the writes and none is
  lost, and a result hands on exactly the bytes that were written.
\<close>

lemma go_new_wf: "go_wf newDarwinTLSGoOrder"
  by (simp add: go_wf_def go_calls_ok_def go_sums_ok_def newDarwinTLSGoOrder_def go_conn_at_def open_calls_def
        map_get_def map_ok_def map_len_def map_total_def darwinTLSGoOrderBytes_def darwinTLSGoOrderRecords_def
        darwinTLSGoOrderCalls_def pktapHTTPFlowLimit_def)

lemma go_new_held:
  "held_received k newDarwinTLSGoOrder = []" "held_closing k newDarwinTLSGoOrder = []"
  "held_snapshots k newDarwinTLSGoOrder = []" "open_calls newDarwinTLSGoOrder k sent = {}"
  by (simp_all add: go_held_defs newDarwinTLSGoOrder_def go_conn_at_def open_calls_def map_get_def)

text \<open>What a run keeps, from any sound state; \<open>taken\<close> are the records before the first error.\<close>

lemma go_run_order:
  assumes "go_wf g"
  shows "let (h, outs, e) = go_run g rs; taken = take (length outs) rs; sent = concat outs
    in go_wf h \<and> e \<noteq> Some GoPanic \<and> received_behind k (open_calls g k True) taken outs \<and>
       filter (received k) sent @ held_received k h = held_received k g @ filter (received k) taken \<and>
       filter (closing k) sent @ held_closing k h = held_closing k g @ filter (closing k) taken \<and>
       held_snapshots k h = foldl (snapshot_step k) (held_snapshots k g) taken"
  using assms
proof (induction rs arbitrary: g)
  case (Cons r rs)
  show ?case
  proof (cases "go_add g r")
    case (Inl e)
    then show ?thesis using go_add_step [OF Cons.prems, of r] Cons.prems by simp
  next
    case (Inr p)
    obtain h out where p: "p = (h, out)" by fastforce
    obtain i outs e where i: "go_run h rs = (i, outs, e)" by (metis prod.exhaust)
    note ok = go_add_order(1) [OF Cons.prems Inr [unfolded p]]
    note add = go_add_order(2,3,4,5,6) [OF Cons.prems Inr [unfolded p], where k = k]
    note ih = Cons.IH [OF ok, unfolded i Let_def prod.case]
    have behind: "call_step k (open_calls g k True) r = {} \<or> filter (received k) out = []"
      using add(3,5) by auto
    have run: "go_run g (r # rs) = (i, out # outs, e)" by (simp add: Inr p i)
    have seqs: "filter (received k) (concat (out # outs)) @ held_received k i = held_received k g @ filter (received k) (r # take (length outs) rs)"
      "filter (closing k) (concat (out # outs)) @ held_closing k i = held_closing k g @ filter (closing k) (r # take (length outs) rs)"
    proof -
      have "filter (received k) (concat (out # outs)) @ held_received k i = filter (received k) out @ held_received k h @ filter (received k) (take (length outs) rs)"
        using ih by simp
      also have "\<dots> = (held_received k g @ filter (received k) [r]) @ filter (received k) (take (length outs) rs)"
        unfolding add(1) [symmetric] by simp
      finally show "filter (received k) (concat (out # outs)) @ held_received k i = held_received k g @ filter (received k) (r # take (length outs) rs)"
        by simp
      have "filter (closing k) (concat (out # outs)) @ held_closing k i = filter (closing k) out @ held_closing k h @ filter (closing k) (take (length outs) rs)"
        using ih by simp
      also have "\<dots> = (held_closing k g @ filter (closing k) [r]) @ filter (closing k) (take (length outs) rs)"
        unfolding add(2) [symmetric] by simp
      finally show "filter (closing k) (concat (out # outs)) @ held_closing k i = held_closing k g @ filter (closing k) (r # take (length outs) rs)"
        by simp
    qed
    show ?thesis
      unfolding run Let_def prod.case length_Cons take_Suc_Cons received_behind.simps foldl_Cons seqs
      using ih behind unfolding add(3,4) by blast
  qed
qed simp

subsection \<open>The end of the capture\<close>

lemma go_finish_received:
  assumes "go_wf g" and "go_finish order g = Inr fin"
  shows "held_received k g = []" and "filter (received k) fin = []" and "filter (closing k) fin = held_closing k g"
proof -
  let ?keys = "map_range order (go_connections g)"
  let ?f = "\<lambda>j. case go_conn_at g j of None \<Rightarrow> [] | Some c \<Rightarrow> gc_reads c @ gc_closes c"
  have keys: "distinct ?keys" "set ?keys = {j. go_conn_at g j \<noteq> None}"
    using map_range_keys [OF go_wf_parts(3) [OF assms(1)], of order] by (simp_all add: go_conn_at_def)
  have fin: "fin = concat (map ?f ?keys)"
    and idle: "list_all (\<lambda>j. case go_conn_at g j of None \<Rightarrow> True | Some c \<Rightarrow> gc_writers c = 0) ?keys"
    using assms(2) by (auto simp: go_finish_def split: if_splits)
  have none: "gc_reads c = []" if "go_conn_at g j = Some c" for j c
  proof -
    have "gc_writers c = 0" using idle keys(2) that by (force simp: list_all_iff)
    then show ?thesis using go_wf_lists(5) [OF assms(1) that] by simp
  qed
  show "held_received k g = []" using none by (auto simp: held_received_def split: option.split)
  have one: "filter (received k) (?f j) = [] \<and> filter (closing k) (?f j) = (if j = k then held_closing k g else [])" for j
    using none filter_closing [OF go_wf_lists(2) [OF assms(1)], of j _ k]
    by (auto simp: held_closing_def split: option.split)
  have "filter (received k) (concat (map ?f js)) = []" for js
    using one by (induction js) simp_all
  then show "filter (received k) fin = []" by (simp only: fin)
  have "distinct js \<Longrightarrow> filter (closing k) (concat (map ?f js)) = (if k \<in> set js then held_closing k g else [])" for js
  proof (induction js)
    case (Cons j js)
    then show ?case using one [of j] by (auto simp del: filter.simps)
  qed simp
  from this [OF keys(1)] show "filter (closing k) fin = held_closing k g"
    unfolding fin keys(2) by (simp add: held_closing_def split: if_splits option.splits)
qed

text \<open>
  C13. Whatever records come, the order never meets a nil pointer, its counters are exact and
  within their limits, and on every connection received plaintext is handed on in the order it
  came, none skipped and none while a write of the connection is open; so are the ends of the
  connection. When the capture ends without an open write, everything held is handed on.
\<close>

theorem darwin_tls_answers_behind_writes:
  "let (g, outs, e) = go_run newDarwinTLSGoOrder rs; taken = take (length outs) rs; sent = concat outs
   in go_wf g \<and> e \<noteq> Some GoPanic \<and> received_behind k {} taken outs \<and>
      filter (received k) sent @ held_received k g = filter (received k) taken \<and>
      filter (closing k) sent @ held_closing k g = filter (closing k) taken \<and>
      (case go_finish order g of
         Inl e \<Rightarrow> e = GoOpenWrite
       | Inr fin \<Rightarrow> filter (received k) (sent @ fin) = filter (received k) taken \<and>
           filter (closing k) (sent @ fin) = filter (closing k) taken)"
proof -
  obtain g outs e where g: "go_run newDarwinTLSGoOrder rs = (g, outs, e)" by (metis prod.exhaust)
  note run = go_run_order [OF go_new_wf, of rs k, unfolded g go_new_held append_Nil Let_def prod.case]
  show ?thesis
  proof (cases "go_finish order g")
    case (Inl x)
    then have "x = GoOpenWrite" by (auto simp: go_finish_def split: if_splits)
    then show ?thesis using run Inl by (simp add: g)
  next
    case (Inr fin)
    have "go_wf g" using run by blast
    note fin = go_finish_received [OF this Inr, of k]
    show ?thesis using run fin unfolding g Inr Let_def prod.case sum.case filter_append by auto
  qed
qed

subsection \<open>What a result hands on\<close>

text \<open>The chunks follow each other without a gap, from an offset.\<close>

fun offsets_follow :: "u32 \<Rightarrow> dtls_record list \<Rightarrow> bool" where
  "offsets_follow off [] = True"
| "offsets_follow off (c # cs) =
     (dr_offset c = off \<and> offsets_follow (off + of_nat (length (dr_payload c))) cs)"

definition payloads :: "dtls_record list \<Rightarrow> bytes" where
  "payloads cs = concat (map dr_payload cs)"

lemma payloads_simps [simp]: "payloads [] = []" "payloads (c # cs) = dr_payload c @ payloads cs"
  by (simp_all add: payloads_def)

lemma of_nat_mod64: "(of_nat (n mod 2 ^ 64) :: u32) = of_nat n"
proof -
  have "(of_nat n :: u32) = of_nat (2 ^ 64 * (n div 2 ^ 64) + n mod 2 ^ 64)" by (simp only: mult_div_mod_eq)
  also have "\<dots> = of_nat (2 ^ 64) * of_nat (n div 2 ^ 64) + of_nat (n mod 2 ^ 64)"
    by (simp only: of_nat_add of_nat_mult)
  also have "(of_nat (2 ^ 64) :: u32) = 0" by simp
  finally show ?thesis by simp
qed

lemma ucast_unat: "(ucast n :: u32) = of_nat (unat (n :: u64))"
  by simp

lemma ucast_plus: "(ucast (a + b :: u64) :: u32) = ucast a + ucast b"
proof -
  have "unat (a + b) = (unat a + unat b) mod 2 ^ 64" by (simp add: unat_word_ariths)
  then show ?thesis unfolding ucast_unat by (simp only: of_nat_mod64 of_nat_add)
qed

lemma confirmed_length:
  fixes left :: u64
  assumes "n < 2 ^ 64"
  shows "unat (min (of_nat n) left) = min n (unat left)"
proof -
  have "unat (of_nat n :: u64) = n" using assms by (simp add: unat_of_nat take_bit_nat_eq_self)
  then show ?thesis by (auto simp: min_def word_le_nat_alt)
qed

lemma go_confirm_payloads:
  "length (payloads cs) < 2 ^ 64 \<Longrightarrow> payloads (go_confirm r left cs) = take (unat left) (payloads cs)"
proof (induction cs arbitrary: left)
  case (Cons c cs)
  let ?n = "min (of_nat (length (dr_payload c))) left"
  have n: "unat ?n = min (length (dr_payload c)) (unat left)" using Cons.prems by (intro confirmed_length) simp
  have "unat (left - ?n) = unat left - unat ?n" by (rule unat_sub) simp
  then have l: "unat (left - ?n) = unat left - length (dr_payload c)" using n by simp
  show ?case
    using Cons.IH [of "left - ?n"] Cons.prems n l by (cases "left = 0") (auto simp: Let_def min_def)
qed simp

lemma go_confirm_offsets:
  fixes left :: u64
  assumes "left \<le> dr_size r" and "length (payloads cs) < 2 ^ 64"
  shows "offsets_follow (dr_offset r + ucast (dr_size r - left)) (go_confirm r left cs)"
  using assms
proof (induction cs arbitrary: left)
  case (Cons c cs)
  let ?n = "min (of_nat (length (dr_payload c))) left"
  have n: "unat ?n = min (length (dr_payload c)) (unat left)" using Cons.prems by (intro confirmed_length) simp
  have le: "left - ?n \<le> dr_size r"
    using Cons.prems(1) by (meson min.cobounded2 order_trans word_sub_le)
  have "dr_size r - (left - ?n) = (dr_size r - left) + ?n" by simp
  then have "(ucast (dr_size r - (left - ?n)) :: u32) = ucast (dr_size r - left) + ucast ?n"
    by (simp only: ucast_plus)
  moreover have "(ucast ?n :: u32) = of_nat (length (take (unat ?n) (dr_payload c)))"
    using n unfolding ucast_unat by (simp add: min.commute)
  ultimately have step: "dr_offset r + ucast (dr_size r - left) + of_nat (length (take (unat ?n) (dr_payload c))) =
      dr_offset r + ucast (dr_size r - (left - ?n))"
    by simp
  show ?case
  proof (cases "left = 0")
    case False
    have "offsets_follow (dr_offset r + ucast (dr_size r - (left - ?n))) (go_confirm r (left - ?n) cs)"
      using Cons.IH [OF le] Cons.prems(2) by simp
    then show ?thesis using False unfolding step [symmetric] by (simp add: Let_def)
  qed simp
qed simp


text \<open>A slice is not longer than its capacity.\<close>

definition slice_ok :: "dtls_record \<Rightarrow> bool" where
  "slice_ok r \<longleftrightarrow> length (dr_payload r) \<le> dr_cap r"

text \<open>The snapshots of a connection that no result has confirmed yet, as the records say.\<close>

definition unconfirmed :: "u64 \<Rightarrow> dtls_record list \<Rightarrow> dtls_record list" where
  "unconfirmed k rs = foldl (snapshot_step k) [] rs"

lemma unconfirmed_subset: "set (unconfirmed k rs) \<subseteq> set rs"
  by (induction rs rule: rev_induct) (auto simp: unconfirmed_def snapshot_step_def)

lemma payloads_kept: "list_all slice_ok rs \<Longrightarrow> length (payloads rs) \<le> kept_bytes rs"
  by (induction rs) (auto simp: slice_ok_def)

lemma payloads_sum: "sum_list (map (\<lambda>w. length (dr_payload w)) ws) = length (payloads ws)"
  by (induction ws) auto

lemma enough_captured:
  assumes "\<not> (of_nat n :: u64) < min z (of_nat m)" and "n < 2 ^ 64" and "m < 2 ^ 64"
  shows "min (unat z) m \<le> n"
proof -
  have "unat (min z (of_nat m)) \<le> unat (of_nat n :: u64)"
    using assms(1) by (simp only: word_less_nat_alt not_less)
  moreover have "unat (min z (of_nat m)) = min m (unat z)"
    using confirmed_length [OF assms(3), of z] by (simp add: min.commute)
  moreover have "unat (of_nat n :: u64) = n" using assms(2) by (simp add: unat_of_nat take_bit_nat_eq_self)
  ultimately show ?thesis by (simp add: min.commute)
qed

lemma go_add_result:
  assumes "go_wf g" and "dr_goPhase r = 4" and "go_add g r = Inr (h, out)"
    and "list_all slice_ok (held_snapshots (dr_object r) g)"
  shows "payloads out = take (unat (dr_size r)) (payloads (held_snapshots (dr_object r) g)) \<and>
    min (unat (dr_size r)) httpMessageMax \<le> length (payloads (held_snapshots (dr_object r) g)) \<and>
    offsets_follow (dr_offset r) out"
proof -
  have st: "go_step (go_observe g r) r h out" using go_add_step [OF assms(1), of r] assms(3) by simp
  then obtain c where c: "go_conn_at g (dr_object r) = Some c"
    "\<not> (of_nat (sum_list (map (\<lambda>w. length (dr_payload w)) (gc_writes c))) :: u64)
      < min (dr_size r) (of_nat httpMessageMax)"
    "out = go_confirm r (dr_size r) (gc_writes c)"
    by (cases rule: go_step.cases) (use assms(2) in simp_all)
  have h: "held_snapshots (dr_object r) g = gc_writes c" by (simp add: held_snapshots_def c(1))
  have "int (kept_weight c) \<le> 4 * 1024 * 1024"
    using go_wf_conn [OF assms(1) c(1)] by (simp add: go_conn_ok_def darwinTLSGoOrderConnectionBytes_def)
  moreover have "length (payloads (gc_writes c)) \<le> kept_weight c"
    using payloads_kept [of "gc_writes c"] assms(4) by (simp add: h kept_defs)
  ultimately have len: "length (payloads (gc_writes c)) < 2 ^ 64" by simp
  show ?thesis
    using go_confirm_payloads [OF len, of r "dr_size r"] go_confirm_offsets [OF order_refl len, of r]
      enough_captured [OF c(2) [unfolded payloads_sum] len]
    by (simp add: h c(3) httpMessageMax_def)
qed

text \<open>
  C20. The result of a write hands on the bytes that were written. When a result of \<open>size\<close> bytes is
  accepted, what is handed on is the first \<open>size\<close> bytes of what the snapshots of the connection hold,
  with offsets that follow each other from the offset of the result. The snapshots then hold at least \<open>size\<close> bytes, or at
  least 1 MiB (\<open>httpMessageMax\<close>, the limit of what is followed of a message): so a result up to 1 MiB
  hands on exactly as many bytes as it says, and a larger one at least 1 MiB and perhaps fewer than it says.
  A result that claims more than is held, within that limit, is an error, and no snapshot is handed on twice.
\<close>

theorem darwin_tls_writes_exact:
  assumes "list_all slice_ok rs" and "dr_goPhase r = 4"
  shows "let (g, outs, e) = go_run newDarwinTLSGoOrder rs;
             written = payloads (unconfirmed (dr_object r) (take (length outs) rs))
    in case go_add g r of
         Inl e \<Rightarrow> e \<noteq> GoPanic
       | Inr (h, out) \<Rightarrow> payloads out = take (unat (dr_size r)) written \<and>
           min (unat (dr_size r)) httpMessageMax \<le> length written \<and>
           offsets_follow (dr_offset r) out \<and> held_snapshots (dr_object r) h = []"
proof -
  obtain g outs e where g: "go_run newDarwinTLSGoOrder rs = (g, outs, e)" by (metis prod.exhaust)
  note run = go_run_order [OF go_new_wf, of rs "dr_object r", unfolded g go_new_held Let_def prod.case]
  have wf: "go_wf g" using run by blast
  have held: "held_snapshots (dr_object r) g = unconfirmed (dr_object r) (take (length outs) rs)"
    using run by (simp add: unconfirmed_def)
  have ok: "list_all slice_ok (held_snapshots (dr_object r) g)"
    unfolding held using assms(1) unconfirmed_subset [of "dr_object r" "take (length outs) rs"]
    by (auto simp: list_all_iff dest: in_set_takeD)
  show ?thesis
  proof (cases "go_add g r")
    case (Inl x)
    then show ?thesis using go_add_step [OF wf, of r] by (simp add: g)
  next
    case (Inr p)
    obtain h out where p: "p = (h, out)" by fastforce
    have "held_snapshots (dr_object r) h = []"
      using go_add_order(5) [OF wf Inr [unfolded p], of "dr_object r"] assms(2) by (simp add: snapshot_step_def)
    then show ?thesis
      using go_add_result [OF wf assms(2) Inr [unfolded p] ok] by (simp add: g Inr p held)
  qed
qed

definition sample_call :: dtls_record where
  "sample_call = dtls_zero\<lparr>dr_object := 1, dr_goroutine := 3, dr_frame := 4, dr_sent := True\<rparr>"

definition sample_write :: "dtls_record list" where
  "sample_write = [sample_call\<lparr>dr_goPhase := 1\<rparr>,
     sample_call\<lparr>dr_goPhase := 3, dr_offset := 7, dr_payload := ''hel'', dr_cap := 3\<rparr>,
     sample_call\<lparr>dr_goPhase := 3, dr_offset := 10, dr_payload := ''lo'', dr_cap := 2\<rparr>]"

lemma sample_write_accepted:
  "case go_add (fst (go_run newDarwinTLSGoOrder sample_write)) (sample_call\<lparr>dr_goPhase := 4, dr_offset := 7, dr_size := 4\<rparr>) of
     Inl e \<Rightarrow> False | Inr (h, out) \<Rightarrow> map dr_payload out = [''hel'', ''l'']"
  by code_simp

theorem darwin_tls_writes_exact_witness:
  "(case go_add (fst (go_run newDarwinTLSGoOrder sample_write)) (sample_call\<lparr>dr_goPhase := 4, dr_offset := 7, dr_size := 4\<rparr>) of
     Inl e \<Rightarrow> False | Inr (h, out) \<Rightarrow> map dr_payload out = [''hel'', ''l'']) \<and>
   (let r = sample_call\<lparr>dr_goPhase := 4, dr_offset := 7, dr_size := 4\<rparr>;
        (g, outs, e) = go_run newDarwinTLSGoOrder sample_write;
        written = payloads (unconfirmed (dr_object r) (take (length outs) sample_write))
    in case go_add g r of
         Inl e \<Rightarrow> e \<noteq> GoPanic
       | Inr (h, out) \<Rightarrow> payloads out = take (unat (dr_size r)) written \<and>
           min (unat (dr_size r)) httpMessageMax \<le> length written \<and>
           offsets_follow (dr_offset r) out \<and> held_snapshots (dr_object r) h = [])"
proof -
  have "list_all slice_ok sample_write" by (simp add: sample_write_def slice_ok_def sample_call_def dtls_zero_def)
  moreover have "dr_goPhase (sample_call\<lparr>dr_goPhase := 4, dr_offset := 7, dr_size := 4\<rparr>) = 4" by simp
  ultimately show ?thesis
    unfolding Let_def by (rule conjI [OF sample_write_accepted darwin_tls_writes_exact [unfolded Let_def]])
qed

end
