(* ===== verification/Spec2Isabelle.thy ===== *)
theory Spec2Isabelle
  imports MySQLSummary MySQLTokens RedisReport RedisWire PostgresTokens PostgresFraming PostgresSummary RouteSafety
    ExpectSafety ExpectListener TlsQueue TlsOrderSafety TlsCallsRuns
begin

text \<open>
  Verification library of edc (Go, \<open>internal/edc\<close>), a diagnostic tool for hosts. The tool has many
  commands; the library models those that keep protocol or session state of their own, or change
  the host in a way that has to be undone: \<open>edc trace mysql\<close>, \<open>edc trace redis\<close>,
  \<open>edc trace postgres\<close>, the plaintext of TLS connections for \<open>edc trace http\<close>, \<open>edc tcp expect\<close> and \<open>edc route\<close>.

  Parts and how they interact.

  The capture of the kernel delivers records of sockets (\<open>mysqlRecord\<close>: one read or write, with its
  first captured bytes). A tracker keeps one connection per socket, cuts each direction into
  packets or frames, follows the state of the protocol, pairs requests with answers and emits
  events (\<open>captureEvent\<close>). A summarizer folds events into counts for the report. Text from the wire
  passes an escape on its way to the terminal. Plaintext that probes read from TLS libraries passes
  an order first, which holds answers while a write of their connection is open, and on macOS a
  queue between the probes and the reader. \<open>tcp expect\<close> reads TCP headers that a classic BPF
  program lets through, and kernel drops, and folds both into attempts and sources; its result
  carries a verdict and an exit code. \<open>route\<close> changes or restores a route behind a guard timer.

  Theories, in the order of the imports.

  \<^item> Prelude: bytes as \<open>char list\<close>, the helpers of the Go standard library that are used, list lemmas.
  GoMap: Go's \<open>map\<close> as the locale \<open>go_map\<close> (look-up, assignment, \<open>delete\<close>, \<open>len\<close>, \<open>range\<close>), interpreted on
  association lists; \<open>counted_map\<close>, a map with a counter beside it; the order of a \<open>range\<close> loop as an
  argument. Incremental: the locale \<open>incremental\<close> of readers that consume bytes piece by piece.
  \<^item> TraceText: traceEscapeText and traceTrimText of trace_http.go, traceMySQLLine of trace_mysql.go.
  Capture: the records and events the trackers exchange (trace_mysql.go, capture_events.go), and the
  time spans of trace.go.
  \<^item> MySQLStream, MySQLText, MySQLTracker, MySQLSafety, MySQLProtocol, MySQLSummary: trace_mysql.go.
  mysqlStream with feed, reset, seed and waiting; mysqlMaskSQL and traceMySQLShape; mysqlTracker with
  every handler; its invariants; its refinement of an abstract phase machine; mysqlSummarizer.
  MySQLTokens: the lexical grammar of MySQL, and masking against it. SqlChars: quoted characters and
  first occurrences, which this grammar and that of PostgreSQL share.
  \<^item> RedisDecoder, RedisReader, RedisTracker, RedisSummary, RedisFraming, RedisWire, RedisSafety,
  RedisReport: trace_redis.go. The decoder of commands with the tables of secret arguments; the reader
  of RESP2, RESP3 and inline requests; the tracker with its queue of commands; the summary; then the
  reader's invariants, its round trip with an encoder of requests, the tracker's invariants, the report.
  TraceSummary: what the summaries share, as the locales \<open>event_counts\<close>, \<open>trace_summary\<close> and
  \<open>row_order\<close>. AnswerOrder: the relation between requests and answers in order, for Redis and PostgreSQL.
  \<^item> PostgresText, PostgresMasking, PostgresShape, PostgresTokens, PostgresStream, PostgresFraming,
  PostgresTracker, PostgresSafety, PostgresRuns, PostgresSummary: trace_postgres.go. postgresMask and
  tracePostgresShape with their scanners; the lexical grammar of PostgreSQL, and masking against it;
  postgresStream and its framing against an encoder of messages; postgresTracker with every handler,
  its sums and limits, and what every run of it keeps; the summarizer and its exact counts.
  \<^item> TextFields, RoutePlan, RouteSwitch, RouteSafety: route_parse.go, route_state.go, route_guard.go,
  route_reach.go, route_render.go, route_exits.go, the numbers of route_backend_linux.go, and
  executeRouteSwitch and executeRouteRollback of route.go over an arbitrary outside world.
  \<^item> ExpectPacket, ExpectSession, ExpectSteps, ExpectSafety, ExpectListener: tcp_expect.go,
  tcp_expect_status.go and listen.go. Headers and filter programs; expectSession with every operation;
  the step relation that every operation follows; what a run guarantees; the listener that is shown.

  \<^item> TlsQueue, TlsOrder, TlsOrderSafety, TlsCalls, TlsCallsSafety, TlsCallsRuns:
  trace_http_tls_dtrace_queue.go, trace_http_tls_go_order.go and trace_http_tls_go_dtrace_order.go. The
  ring between probes and reader and the locale \<open>bounded_fifo\<close> it is an instance of; goTLSOrder with the
  records of trace_http_linux.go and capture_events_linux.go that it reads; darwinTLSGoOrder; for both
  orders the steps as a relation, the invariant of the counters, and what every run keeps.

  Correspondence. A struct is a record whose fields carry a prefix of the type (\<open>cn_\<close> for mysqlConn,
  \<open>rr_\<close> for redisReader, \<open>ss_\<close> for expectSession), an operation is a function of the state that returns
  the new state, and a definition is named like the Go function; where a Go function is long, its
  branches are definitions of their own. Integers that can wrap are words; counters of events, and
  sizes that a limit bounds, are natural numbers; times of trackers are 64-bit words, those of
  \<open>tcp expect\<close> integers with the saturating \<open>Sub\<close> of Go. What Go calls through a function value or an
  interface is an argument or a record of functions; the theorems hold for all of them. A lock that
  an operation holds from its start to its end makes it one step.

  What the lemmas show. Text: what reaches the terminal is UTF-8 without control characters but tab and line ends. Streams: packets
  and frames do not depend on how the bytes are cut into reads; a lost boundary is recovered. Secrets:
  masked SQL shows no string constant, whatever way it is written, and secret Redis
  arguments leave no trace. Trackers: counters equal sums,
  limits hold, answers belong to requests in order. Summaries: counts are those of the events, and
  what is left unanswered is exact. Routes: nothing is changed before the snapshot is written, the timer asked
  for and the change authorised, the timer is stopped only when nothing was changed or the state is
  confirmed or restored. \<open>tcp expect\<close>: the kernel filters lose
  nothing the readers need, the totals add up to what was shown, an exit code of success rests on
  handshakes that were read, and what is kept is bounded. TLS: answers keep their order behind the
  writes, what is not handed on is held or counted, a write is handed on byte by byte as its result
  says (up to the 1 MiB that is followed of a message), no nil pointer is met, and the ring is a bounded list.

  Loops and fuel. No fuel is used: the loops of the readers (\<open>feed_loop\<close>, \<open>redis_feed_loop\<close>) are
  recursive functions with a termination measure, every pass consuming bytes or leaving a state
  that the next pass must leave; RedisFraming bounds the passes by two per byte and one more. All
  other loops are structural recursion or folds over lists. The BPF machine jumps forward only, so
  its measure is the length of the rest of the program. Array accesses of the Redis reader that Go
  checks at run time leave a wrong length when they go out of range (RedisReader), which RedisFraming
  excludes.

  Not modelled. The terminal interfaces (tui_*.go, trace_screen*.go), printing and translation of
  reports, flag parsing, and files and processes read for display are input and output without
  state of their own to be right about. Kernel programs and their generated loaders are not Go code
  of the tool. The traces of ClickHouse, HTTP and DNS keep state like the three modelled
  ones and are left for later, as are the commands \<open>clean\<close>, \<open>grep\<close>, \<open>watch fs\<close> and \<open>log\<close>. Within the
  modelled files: the texts of messages, netlink and file access of \<open>route\<close>, rounding of \<open>float64\<close>
  milliseconds (exact rationals here), and memory that is wiped or reused. Golang.org/x/net/bpf and
  the kernel's filter machine are a parameter with documented laws; \<open>net/netip\<close> parsing and printing
  are functions of the environment.
\<close>

end
